(* ===== verification/Prelude.thy ===== *)
theory Prelude
  imports Main "HOL-Library.Word" "HOL-Library.Multiset"
begin

text \<open>
  What every component theory shares: the names of the machine types, the result
  type of a fallible Go function, the fact collections of the development, the
  generic lemmas on lists, options and words, and the three interfaces that several
  components implement:

  \<^item> \<open>codec\<close>: an encoder and a decoder, the decoder a left inverse of the encoder on
    the values the encoder is used for;
  \<^item> \<open>comparator\<close>: a three-way comparison in the style of \<^verbatim>\<open>slices.SortFunc\<close>,
    with sorting by it;
  \<^item> \<open>invariant_machine\<close>: a state with a step function and a property that every step
    keeps, lifted to runs.
\<close>

section \<open>Machine types\<close>

text \<open>A Go string is a sequence of bytes: it is a HOL string (a list of 8-bit characters).
  A \<^verbatim>\<open>[]byte\<close> that is computed with is a list of 8-bit words.\<close>

type_synonym byte = "8 word"
type_synonym u32 = "32 word"
type_synonym u64 = "64 word"
type_synonym bytes = "byte list"

text \<open>A fallible Go function returns its error (\<open>Inl\<close>) or its value (\<open>Inr\<close>).\<close>

type_synonym ('e, 'a) result = "'e + 'a"

definition byte_of_char :: "char \<Rightarrow> byte" where
  "byte_of_char c = word_of_nat (of_char c)"

definition char_of_byte :: "byte \<Rightarrow> char" where
  "char_of_byte b = char_of (unat b)"

definition bytes_of_string :: "string \<Rightarrow> bytes" where
  "bytes_of_string s = map byte_of_char s"

definition string_of_bytes :: "bytes \<Rightarrow> string" where
  "string_of_bytes bs = map char_of_byte bs"

section \<open>Fact collections\<close>

named_theorems go_defs "definitions of the Go library functions"
named_theorems step_defs "operations of a component as steps of its state"
named_theorems inv_defs "invariants of the components"

section \<open>Generic lemmas\<close>

lemma char_of_byte_of_char [simp]: "char_of_byte (byte_of_char c) = c"
proof -
  have "(of_char c :: nat) < 256" by simp
  then have "unat (word_of_nat (of_char c) :: byte) = of_char c"
    by (simp add: unat_of_nat)
  then show ?thesis by (simp add: char_of_byte_def byte_of_char_def)
qed

lemma byte_of_char_of_byte [simp]: "byte_of_char (char_of_byte b) = b"
proof -
  have "unat b < 256" using unsigned_less [of b] by simp
  then show ?thesis by (simp add: char_of_byte_def byte_of_char_def of_char_of)
qed

lemma string_of_bytes_of_string [simp]: "string_of_bytes (bytes_of_string s) = s"
  by (simp add: string_of_bytes_def bytes_of_string_def comp_def)

lemma bytes_of_string_of_bytes [simp]: "bytes_of_string (string_of_bytes bs) = bs"
  by (simp add: string_of_bytes_def bytes_of_string_def comp_def)

lemma length_bytes_of_string [simp]: "length (bytes_of_string s) = length s"
  by (simp add: bytes_of_string_def)

lemma length_string_of_bytes [simp]: "length (string_of_bytes s) = length s"
  by (simp add: string_of_bytes_def)

lemma inj_char_of_byte: "inj char_of_byte"
  by (rule inj_on_inverseI [where g = byte_of_char]) simp

lemma takeWhile_eq_all_iff: "takeWhile P xs = xs \<longleftrightarrow> (\<forall>x\<in>set xs. P x)"
  by (metis takeWhile_eq_all_conv)

lemma distinct_fst_map_of_eq:
  "distinct (map fst xs) \<Longrightarrow> (k, v) \<in> set xs \<Longrightarrow> map_of xs k = Some v"
  by simp

lemma map_sum_eq_Inr: "map_sum f g r = Inr y \<longleftrightarrow> (\<exists>x. r = Inr x \<and> y = g x)"
  by (cases r) auto

lemma map_sum_eq_Inl: "map_sum f g r = Inl y \<longleftrightarrow> (\<exists>x. r = Inl x \<and> y = f x)"
  by (cases r) auto

section \<open>Interfaces\<close>

subsection \<open>Encoders and decoders\<close>

locale codec =
  fixes enc :: "'a \<Rightarrow> 'w"
    and dec :: "'w \<Rightarrow> ('e, 'a) result"
    and fit :: "'a \<Rightarrow> bool"
  assumes dec_enc: "fit x \<Longrightarrow> dec (enc x) = Inr x"
begin

lemma enc_inject: "fit x \<Longrightarrow> fit y \<Longrightarrow> enc x = enc y \<longleftrightarrow> x = y"
  by (metis dec_enc sum.inject(2))

lemma dec_enc_map:
  "\<forall>x\<in>set xs. fit x \<Longrightarrow> map (\<lambda>x. dec (enc x)) xs = map Inr xs"
  by (simp add: dec_enc)

end

subsection \<open>Three-way comparisons\<close>

text \<open>The contract of a comparison function given to \<^verbatim>\<open>slices.SortFunc\<close>: the sign of
  the result is a total preorder on the values that are compared. The order of two
  values that compare as equal is not specified, so a sort is any permutation that
  is sorted; \<open>insort_by\<close> is one such sort.\<close>

fun insort_by :: "('a \<Rightarrow> 'a \<Rightarrow> int) \<Rightarrow> 'a \<Rightarrow> 'a list \<Rightarrow> 'a list" where
  "insort_by c x [] = [x]"
| "insort_by c x (y # ys) = (if c x y \<le> 0 then x # y # ys else y # insort_by c x ys)"

definition sort_by :: "('a \<Rightarrow> 'a \<Rightarrow> int) \<Rightarrow> 'a list \<Rightarrow> 'a list" where
  "sort_by c xs = foldr (insort_by c) xs []"

lemma mset_insort_by [simp]: "mset (insort_by c x ys) = add_mset x (mset ys)"
  by (induction ys) auto

lemma mset_sort_by [simp]: "mset (sort_by c xs) = mset xs"
  unfolding sort_by_def by (induction xs) auto

lemma set_sort_by [simp]: "set (sort_by c xs) = set xs"
  by (metis mset_sort_by set_mset_mset)

lemma length_sort_by [simp]: "length (sort_by c xs) = length xs"
  by (metis mset_sort_by size_mset)

lemma set_insort_by [simp]: "set (insort_by c x ys) = insert x (set ys)"
  by (induction ys) auto

locale comparator =
  fixes cmp :: "'a \<Rightarrow> 'a \<Rightarrow> int"
  assumes cmp_total: "cmp x y \<le> 0 \<or> cmp y x \<le> 0"
    and cmp_trans: "cmp x y \<le> 0 \<Longrightarrow> cmp y z \<le> 0 \<Longrightarrow> cmp x z \<le> 0"
begin

lemma sorted_insort_by:
  "sorted_wrt (\<lambda>a b. cmp a b \<le> 0) ys \<Longrightarrow> sorted_wrt (\<lambda>a b. cmp a b \<le> 0) (insort_by cmp x ys)"
proof (induction ys)
  case (Cons y ys)
  then show ?case using cmp_total cmp_trans by (auto dest: cmp_trans)
qed simp

lemma sorted_sort_by: "sorted_wrt (\<lambda>a b. cmp a b \<le> 0) (sort_by cmp xs)"
  unfolding sort_by_def by (induction xs) (auto intro: sorted_insort_by)

lemma sort_by_take_least:
  assumes "x \<in> set (take n (sort_by cmp xs))" and "y \<in> set (drop n (sort_by cmp xs))"
  shows "cmp x y \<le> 0"
proof -
  have "sorted_wrt (\<lambda>a b. cmp a b \<le> 0) (take n (sort_by cmp xs) @ drop n (sort_by cmp xs))"
    by (simp add: sorted_sort_by)
  with assms show ?thesis unfolding sorted_wrt_append by blast
qed

end

locale antisymmetric_comparator = comparator +
  assumes cmp_antisym: "cmp x y \<le> 0 \<Longrightarrow> cmp y x \<le> 0 \<Longrightarrow> x = y"
begin

lemma sorted_mset_unique:
  assumes "sorted_wrt (\<lambda>a b. cmp a b \<le> 0) xs" and "sorted_wrt (\<lambda>a b. cmp a b \<le> 0) ys"
    and "mset xs = mset ys"
  shows "xs = ys"
  using assms
proof (induction xs arbitrary: ys)
  case Nil
  then show ?case by simp
next
  case (Cons x xs)
  then obtain y ys' where ys: "ys = y # ys'" by (cases ys) auto
  have "x \<in> set ys" and "y \<in> set (x # xs)"
    using Cons.prems(3) ys by (metis list.set_intros(1) set_mset_mset)+
  then have "cmp x y \<le> 0 \<or> x = y" and "cmp y x \<le> 0 \<or> x = y"
    using Cons.prems(1,2) ys by auto
  then have "x = y" using cmp_antisym by blast
  then show ?case using Cons ys by auto
qed

lemma sort_by_permutation:
  "mset xs = mset ys \<Longrightarrow> sort_by cmp xs = sort_by cmp ys"
  by (rule sorted_mset_unique) (simp_all add: sorted_sort_by)

end

subsection \<open>Step functions and their invariants\<close>

text \<open>A component is driven by a sequence of operations; \<open>run\<close> folds its step function
  over them. A property that the initial state has and every operation keeps holds after
  every sequence of operations.\<close>

definition run :: "('s \<Rightarrow> 'o \<Rightarrow> 's) \<Rightarrow> 's \<Rightarrow> 'o list \<Rightarrow> 's" where
  "run step s os = foldl step s os"

lemma run_Nil [simp]: "run step s [] = s"
  by (simp add: run_def)

lemma run_Cons [simp]: "run step s (e # es) = run step (step s e) es"
  by (simp add: run_def)

lemma run_append: "run step s (os @ os') = run step (run step s os) os'"
  by (simp add: run_def)

locale invariant_machine =
  fixes step :: "'s \<Rightarrow> 'o \<Rightarrow> 's"
    and inv :: "'s \<Rightarrow> bool"
  assumes inv_step: "inv s \<Longrightarrow> inv (step s e)"
begin

lemma inv_run: "inv s \<Longrightarrow> inv (run step s es)"
  by (induction es arbitrary: s) (auto intro: inv_step)

lemma inv_prefix: "inv s \<Longrightarrow> es = fs @ gs \<Longrightarrow> inv (run step s fs)"
  by (rule inv_run)

end

end
