(* ===== verification/GoLib.thy ===== *)
theory GoLib
  imports Prelude "HOL-Library.Sublist" "HOL-Library.AList" "HOL-Library.List_Lexorder"
    "HOL-Library.Char_ord"
begin

text \<open>
  The functions of Go's standard library that the modelled code calls: of package
  \<^verbatim>\<open>strings\<close> (on byte strings), of package \<^verbatim>\<open>strconv\<close> (decimal numbers), of package
  \<^verbatim>\<open>time\<close> (instants and durations in nanoseconds), and Go maps as association lists
  with distinct keys. Each is written out with its result for every input.
\<close>

section \<open>strings\<close>

fun index_byte :: "string \<Rightarrow> char \<Rightarrow> nat option" where
  "index_byte [] c = None"
| "index_byte (x # xs) c = (if x = c then Some 0 else map_option Suc (index_byte xs c))"

definition cut_byte :: "string \<Rightarrow> char \<Rightarrow> string \<times> string \<times> bool" where
  "cut_byte s c = (case index_byte s c of
     None \<Rightarrow> (s, [], False)
   | Some i \<Rightarrow> (take i s, drop (Suc i) s, True))"

text \<open>\<^verbatim>\<open>strings.Split\<close> and \<^verbatim>\<open>strings.SplitSeq\<close> with a one-byte separator.\<close>

fun split_byte :: "char \<Rightarrow> string \<Rightarrow> string list" where
  "split_byte c [] = [[]]"
| "split_byte c (x # xs) =
     (if x = c then [] # split_byte c xs
      else (case split_byte c xs of [] \<Rightarrow> [[x]] | y # ys \<Rightarrow> (x # y) # ys))"

fun join_with :: "string \<Rightarrow> string list \<Rightarrow> string" where
  "join_with sep [] = []"
| "join_with sep [x] = x"
| "join_with sep (x # y # ys) = x @ sep @ join_with sep (y # ys)"

definition has_prefix :: "string \<Rightarrow> string \<Rightarrow> bool" where
  "has_prefix s p \<longleftrightarrow> take (length p) s = p"

definition has_suffix :: "string \<Rightarrow> string \<Rightarrow> bool" where
  "has_suffix s p \<longleftrightarrow> length p \<le> length s \<and> drop (length s - length p) s = p"

text \<open>\<^verbatim>\<open>strings.Index\<close>: the first position at which the substring starts.\<close>

fun index_of :: "string \<Rightarrow> string \<Rightarrow> nat option" where
  "index_of [] p = (if p = [] then Some 0 else None)"
| "index_of (x # xs) p =
     (if has_prefix (x # xs) p then Some 0 else map_option Suc (index_of xs p))"

fun last_index_byte :: "string \<Rightarrow> char \<Rightarrow> nat option" where
  "last_index_byte [] c = None"
| "last_index_byte (x # xs) c = (case last_index_byte xs c of
     Some i \<Rightarrow> Some (Suc i) | None \<Rightarrow> if x = c then Some 0 else None)"

definition replace_byte :: "char \<Rightarrow> char \<Rightarrow> string \<Rightarrow> string" where
  "replace_byte a b s = map (\<lambda>c. if c = a then b else c) s"

text \<open>The UTF-8 encodings of the code points with the White_Space property, which
  \<^verbatim>\<open>strings.TrimSpace\<close> removes from both ends.\<close>

definition white_space :: "string list" where
  "white_space =
     [[CHR 0x09], [CHR 0x0A], [CHR 0x0B], [CHR 0x0C], [CHR 0x0D], [CHR 0x20],
      [CHR 0xC2, CHR 0x85], [CHR 0xC2, CHR 0xA0], [CHR 0xE1, CHR 0x9A, CHR 0x80],
      [CHR 0xE2, CHR 0x80, CHR 0x80], [CHR 0xE2, CHR 0x80, CHR 0x81],
      [CHR 0xE2, CHR 0x80, CHR 0x82], [CHR 0xE2, CHR 0x80, CHR 0x83],
      [CHR 0xE2, CHR 0x80, CHR 0x84], [CHR 0xE2, CHR 0x80, CHR 0x85],
      [CHR 0xE2, CHR 0x80, CHR 0x86], [CHR 0xE2, CHR 0x80, CHR 0x87],
      [CHR 0xE2, CHR 0x80, CHR 0x88], [CHR 0xE2, CHR 0x80, CHR 0x89],
      [CHR 0xE2, CHR 0x80, CHR 0x8A], [CHR 0xE2, CHR 0x80, CHR 0xA8],
      [CHR 0xE2, CHR 0x80, CHR 0xA9], [CHR 0xE2, CHR 0x80, CHR 0xAF],
      [CHR 0xE2, CHR 0x81, CHR 0x9F], [CHR 0xE3, CHR 0x80, CHR 0x80]]"

lemma white_space_nonempty: "w \<in> set white_space \<Longrightarrow> w \<noteq> []"
  by (auto simp: white_space_def)

fun trim_left :: "nat \<Rightarrow> string \<Rightarrow> string" where
  "trim_left 0 s = s"
| "trim_left (Suc n) s = (case find (\<lambda>w. has_prefix s w) white_space of
     None \<Rightarrow> s | Some w \<Rightarrow> trim_left n (drop (length w) s))"

fun trim_right :: "nat \<Rightarrow> string \<Rightarrow> string" where
  "trim_right 0 s = s"
| "trim_right (Suc n) s = (case find (\<lambda>w. has_suffix s w) white_space of
     None \<Rightarrow> s | Some w \<Rightarrow> trim_right n (take (length s - length w) s))"

text \<open>Every round removes at least one byte, so the length of the string is fuel enough
  (\<open>trim_space_trimmed\<close> below shows that nothing is left to remove).\<close>

definition trim_space :: "string \<Rightarrow> string" where
  "trim_space s = (let t = trim_left (length s) s in trim_right (length t) t)"

definition trimmed :: "string \<Rightarrow> bool" where
  "trimmed s \<longleftrightarrow> list_all (\<lambda>w. \<not> has_prefix s w \<and> \<not> has_suffix s w) white_space"

definition is_ascii :: "char \<Rightarrow> bool" where
  "is_ascii c \<longleftrightarrow> (of_char c :: nat) < 128"

definition ascii_lower :: "char \<Rightarrow> char" where
  "ascii_lower c = (let n = (of_char c :: nat)
     in if 65 \<le> n \<and> n \<le> 90 then char_of (n + 32) else c)"

text \<open>\<^verbatim>\<open>strings.ToLower\<close> has a fast path for ASCII; a string with a byte from 128 on is
  mapped rune by rune with the tables of package \<^verbatim>\<open>unicode\<close>, the parameter \<open>u\<close>.\<close>

definition to_lower :: "(string \<Rightarrow> string) \<Rightarrow> string \<Rightarrow> string" where
  "to_lower u s = (if list_all is_ascii s then map ascii_lower s else u s)"

section \<open>strconv\<close>

definition is_digit :: "char \<Rightarrow> bool" where
  "is_digit c \<longleftrightarrow> 48 \<le> (of_char c :: nat) \<and> (of_char c :: nat) \<le> 57"

definition digit_value :: "char \<Rightarrow> nat" where
  "digit_value c = of_char c - 48"

fun decimal_value :: "nat \<Rightarrow> string \<Rightarrow> nat" where
  "decimal_value acc [] = acc"
| "decimal_value acc (c # cs) = decimal_value (10 * acc + digit_value c) cs"

text \<open>\<^verbatim>\<open>strconv.ParseUint(s, 10, bits)\<close>; None is the syntax or the range error.\<close>

definition parse_uint :: "nat \<Rightarrow> string \<Rightarrow> nat option" where
  "parse_uint bits s =
     (if s \<noteq> [] \<and> list_all is_digit s \<and> decimal_value 0 s < 2 ^ bits
      then Some (decimal_value 0 s) else None)"

text \<open>\<^verbatim>\<open>strconv.ParseInt(s, 10, 64)\<close> and \<^verbatim>\<open>strconv.Atoi\<close> on a 64-bit platform.\<close>

definition parse_int :: "string \<Rightarrow> int option" where
  "parse_int s = (case s of
     [] \<Rightarrow> None
   | c # cs \<Rightarrow>
       (let neg = (c = CHR ''-'');
            body = (if c = CHR ''-'' \<or> c = CHR ''+'' then cs else s)
        in case parse_uint 64 body of
             None \<Rightarrow> None
           | Some n \<Rightarrow>
               if neg then (if n \<le> 2 ^ 63 then Some (- int n) else None)
               else (if n < 2 ^ 63 then Some (int n) else None)))"

fun format_uint :: "nat \<Rightarrow> string" where
  "format_uint n = (if n < 10 then [char_of (48 + n)]
     else format_uint (n div 10) @ [char_of (48 + n mod 10)])"

declare format_uint.simps [simp del]

definition format_int :: "int \<Rightarrow> string" where
  "format_int n = (if n < 0 then CHR ''-'' # format_uint (nat (- n)) else format_uint (nat n))"

section \<open>time\<close>

text \<open>An instant is the number of nanoseconds since the zero \<^verbatim>\<open>time.Time\<close>, 1 January of
  year 1 UTC; a duration is a number of nanoseconds. \<^verbatim>\<open>Time.Sub\<close> saturates at the
  bounds of the 64-bit duration.\<close>

type_synonym go_time = int
type_synonym duration = int

definition max_duration :: duration where "max_duration = 2 ^ 63 - 1"
definition min_duration :: duration where "min_duration = - (2 ^ 63)"

definition time_sub :: "go_time \<Rightarrow> go_time \<Rightarrow> duration" where
  "time_sub a b = max min_duration (min max_duration (a - b))"

definition second :: duration where "second = 1000000000"
definition minute :: duration where "minute = 60 * second"
definition hour :: duration where "hour = 60 * minute"

section \<open>Maps\<close>

text \<open>A Go map is an association list with distinct keys; the order of the list stands
  for the unspecified iteration order. A missing key reads as the zero value.\<close>

type_synonym ('k, 'v) gomap = "('k \<times> 'v) list"

definition get_or :: "'v \<Rightarrow> ('k, 'v) gomap \<Rightarrow> 'k \<Rightarrow> 'v" where
  "get_or z m k = (case map_of m k of None \<Rightarrow> z | Some v \<Rightarrow> v)"

definition map_keys :: "('k, 'v) gomap \<Rightarrow> 'k list" where
  "map_keys m = map fst m"

definition wf_map :: "('k, 'v) gomap \<Rightarrow> bool" where
  "wf_map m \<longleftrightarrow> distinct (map fst m)"

section \<open>Lemmas\<close>

subsection \<open>Searching and splitting\<close>

lemma index_byte_None [simp]: "index_byte s c = None \<longleftrightarrow> c \<notin> set s"
  by (induction s) auto

lemma index_byte_absent [simp]: "c \<notin> set s \<Longrightarrow> index_byte s c = None"
  by simp

lemma index_byte_append [simp]: "c \<notin> set s \<Longrightarrow> index_byte (s @ c # t) c = Some (length s)"
  by (induction s) auto

lemma index_byte_snoc:
  "index_byte (s @ [x]) c =
     (case index_byte s c of Some i \<Rightarrow> Some i | None \<Rightarrow> if x = c then Some (length s) else None)"
  by (induction s) (auto split: option.splits)

lemma index_byte_Some:
  "index_byte s c = Some i \<Longrightarrow> i < length s \<and> s ! i = c \<and> c \<notin> set (take i s)"
  by (induction s arbitrary: i) (auto split: if_splits)

lemma index_byte_SomeD:
  assumes "index_byte s c = Some i"
  shows "s = take i s @ c # drop (Suc i) s"
  using index_byte_Some [OF assms] by (metis id_take_nth_drop)

lemma cut_byte_append [simp]: "c \<notin> set s \<Longrightarrow> cut_byte (s @ c # t) c = (s, t, True)"
  by (simp add: cut_byte_def)

lemma cut_byte_absent [simp]: "c \<notin> set s \<Longrightarrow> cut_byte s c = (s, [], False)"
  by (simp add: cut_byte_def)

lemma split_byte_nonempty [simp]: "split_byte c s \<noteq> []"
  by (induction s) (auto split: list.splits)

lemma split_byte_absent [simp]: "c \<notin> set s \<Longrightarrow> split_byte c s = [s]"
  by (induction s) auto

lemma split_byte_append: "c \<notin> set s \<Longrightarrow> split_byte c (s @ c # t) = s # split_byte c t"
  by (induction s) auto

lemma split_byte_join:
  "xs \<noteq> [] \<Longrightarrow> \<forall>x\<in>set xs. c \<notin> set x \<Longrightarrow> split_byte c (join_with [c] xs) = xs"
  by (induction "[c]" xs rule: join_with.induct) (auto simp: split_byte_append)

lemma join_with_empty: "join_with sep xs = [] \<Longrightarrow> \<forall>x\<in>set xs. x \<noteq> [] \<Longrightarrow> xs = []"
  by (induction sep xs rule: join_with.induct) auto

lemma set_join_with: "set (join_with sep xs) \<subseteq> set sep \<union> \<Union> (set ` set xs)"
  by (induction sep xs rule: join_with.induct) auto

lemma join_split_byte: "join_with [c] (split_byte c s) = s"
proof (induction s)
  case (Cons x xs)
  then show ?case by (cases "split_byte c xs") (auto simp: neq_Nil_conv elim: list.set_cases
    split: list.splits, (metis append_Cons append_Nil join_with.simps(2,3) neq_Nil_conv)+)
qed simp

lemma set_split_byte: "x \<in> set (split_byte c s) \<Longrightarrow> c \<notin> set x"
  by (induction s arbitrary: x) (auto split: if_splits list.splits)

lemma has_prefix_iff: "has_prefix s p \<longleftrightarrow> (\<exists>t. s = p @ t)"
  unfolding has_prefix_def by (metis append_eq_conv_conj append_take_drop_id)

lemma has_prefix_append [simp]: "has_prefix (p @ t) p"
  by (simp add: has_prefix_def)

lemma has_suffix_iff: "has_suffix s p \<longleftrightarrow> (\<exists>t. s = t @ p)"
  unfolding has_suffix_def by (metis append_eq_conv_conj append_take_drop_id diff_add_inverse2
    le_add2 length_append)

lemma has_suffix_append [simp]: "has_suffix (t @ p) p"
  by (simp add: has_suffix_def)

lemma last_index_byte_None [simp]: "last_index_byte s c = None \<longleftrightarrow> c \<notin> set s"
  by (induction s) (auto split: option.splits if_splits)

lemma last_index_byte_Some:
  "last_index_byte s c = Some i \<Longrightarrow> i < length s \<and> s ! i = c \<and> c \<notin> set (drop (Suc i) s)"
  by (induction s arbitrary: i) (auto split: option.splits if_splits)

subsection \<open>Trimming\<close>

lemma trimmed_iff:
  "trimmed s \<longleftrightarrow> (\<forall>w\<in>set white_space. \<not> has_prefix s w \<and> \<not> has_suffix s w)"
  by (simp add: trimmed_def list_all_iff)

lemma trim_left_id: "\<forall>w\<in>set white_space. \<not> has_prefix s w \<Longrightarrow> trim_left n s = s"
  by (cases n) (auto split: option.splits simp: find_Some_iff)

lemma trim_right_id: "\<forall>w\<in>set white_space. \<not> has_suffix s w \<Longrightarrow> trim_right n s = s"
  by (cases n) (auto split: option.splits simp: find_Some_iff)

lemma trim_space_id [simp]: "trimmed s \<Longrightarrow> trim_space s = s"
  by (simp add: trim_space_def trimmed_iff trim_left_id trim_right_id)

lemma white_space_not_prefix_Nil [simp]: "w \<in> set white_space \<Longrightarrow> \<not> has_prefix [] w"
  using white_space_nonempty by (auto simp: has_prefix_def)

lemma trim_left_done:
  "length s \<le> n \<Longrightarrow> w \<in> set white_space \<Longrightarrow> \<not> has_prefix (trim_left n s) w"
proof (induction n arbitrary: s)
  case 0
  then show ?case by simp
next
  case (Suc n)
  show ?case
  proof (cases "find (has_prefix s) white_space")
    case None
    then have "\<not> has_prefix s w" using Suc.prems(2) by (auto simp: find_None_iff)
    with None show ?thesis by simp
  next
    case (Some v)
    then have "v \<in> set white_space" by (auto simp: find_Some_iff)
    then have "v \<noteq> []" by (rule white_space_nonempty)
    then have "length (drop (length v) s) \<le> n" using Suc.prems(1) by (cases v) auto
    with Some Suc show ?thesis by simp
  qed
qed

lemma trim_right_done:
  "length s \<le> n \<Longrightarrow> w \<in> set white_space \<Longrightarrow> \<not> has_suffix (trim_right n s) w"
proof (induction n arbitrary: s)
  case 0
  then show ?case using white_space_nonempty by (auto simp: has_suffix_def)
next
  case (Suc n)
  show ?case
  proof (cases "find (has_suffix s) white_space")
    case None
    then have "\<not> has_suffix s w" using Suc.prems(2) by (auto simp: find_None_iff)
    with None show ?thesis by simp
  next
    case (Some v)
    then have "v \<in> set white_space" by (auto simp: find_Some_iff)
    then have "v \<noteq> []" by (rule white_space_nonempty)
    then have "length (take (length s - length v) s) \<le> n" using Suc.prems(1) by (cases v) auto
    with Some Suc show ?thesis by simp
  qed
qed

lemma trim_right_prefix: "\<exists>t. s = trim_right n s @ t"
proof (induction n arbitrary: s)
  case (Suc n)
  show ?case
  proof (cases "find (has_suffix s) white_space")
    case (Some w)
    from Suc [of "take (length s - length w) s"] obtain t
      where "take (length s - length w) s = trim_right n (take (length s - length w) s) @ t" by blast
    then have "s = trim_right n (take (length s - length w) s) @ (t @ drop (length s - length w) s)"
      by (metis append.assoc append_take_drop_id)
    with Some show ?thesis by auto
  qed simp
qed simp

text \<open>Nothing that \<^verbatim>\<open>TrimSpace\<close> would remove is left at either end of its result, so
  the fuel of the two loops is enough.\<close>

lemma trim_space_trimmed: "trimmed (trim_space s)"
  unfolding trimmed_iff
proof
  fix w assume w: "w \<in> set white_space"
  let ?t = "trim_left (length s) s"
  have "\<not> has_prefix ?t w" using w by (simp add: trim_left_done)
  moreover obtain r where "?t = trim_right (length ?t) ?t @ r" using trim_right_prefix by blast
  ultimately have "\<not> has_prefix (trim_right (length ?t) ?t) w"
    by (metis append.assoc has_prefix_iff)
  moreover have "\<not> has_suffix (trim_right (length ?t) ?t) w" using w by (simp add: trim_right_done)
  ultimately show "\<not> has_prefix (trim_space s) w \<and> \<not> has_suffix (trim_space s) w"
    by (simp add: trim_space_def Let_def)
qed

text \<open>A string of printable ASCII characters has nothing to trim.\<close>

definition graphic :: "char \<Rightarrow> bool" where
  "graphic c \<longleftrightarrow> 33 \<le> (of_char c :: nat) \<and> (of_char c :: nat) < 128"

lemma white_space_not_graphic:
  "w \<in> set white_space \<Longrightarrow> \<not> graphic (hd w) \<and> \<not> graphic (last w)"
  by (auto simp: white_space_def graphic_def)

lemma trimmed_graphic: "list_all graphic s \<Longrightarrow> trimmed s"
  unfolding trimmed_iff
proof
  fix w assume s: "list_all graphic s" and w: "w \<in> set white_space"
  then have ne: "w \<noteq> []" by (simp add: white_space_nonempty)
  show "\<not> has_prefix s w \<and> \<not> has_suffix s w"
  proof (rule ccontr)
    assume "\<not> (\<not> has_prefix s w \<and> \<not> has_suffix s w)"
    then have "set w \<subseteq> set s" by (auto simp: has_prefix_iff has_suffix_iff)
    then have "hd w \<in> set s" using ne by (auto dest: hd_in_set)
    with s have "graphic (hd w)" by (simp add: list_all_iff)
    with w show False by (simp add: white_space_not_graphic)
  qed
qed

subsection \<open>Decimal numbers\<close>

lemma digit_value_char [simp]: "(n::nat) < 10 \<Longrightarrow> digit_value (char_of (48 + n)) = n"
  by (simp add: digit_value_def of_char_of)

lemma is_digit_char [simp]: "(n::nat) < 10 \<Longrightarrow> is_digit (char_of (48 + n))"
  by (simp add: is_digit_def of_char_of)

lemma decimal_value_append:
  "decimal_value acc (xs @ ys) = decimal_value (decimal_value acc xs) ys"
  by (induction xs arbitrary: acc) auto

lemma format_uint_nonempty [simp]: "format_uint n \<noteq> []"
  by (subst format_uint.simps) simp

lemma format_uint_digits: "list_all is_digit (format_uint n)"
proof (induction n rule: format_uint.induct)
  case (1 n)
  then show ?case by (cases "n < 10") (simp_all add: format_uint.simps [of n])
qed

lemma decimal_value_format [simp]: "decimal_value 0 (format_uint n) = n"
proof (induction n rule: format_uint.induct)
  case (1 n)
  show ?case
  proof (cases "n < 10")
    case True
    then show ?thesis by (simp add: format_uint.simps [of n])
  next
    case False
    with 1 have "decimal_value 0 (format_uint (n div 10)) = n div 10" by simp
    moreover have "digit_value (char_of (48 + n mod 10)) = n mod 10"
      by (rule digit_value_char) simp
    ultimately have "decimal_value 0 (format_uint n) = 10 * (n div 10) + n mod 10"
      using False by (simp add: format_uint.simps [of n] decimal_value_append)
    then show ?thesis by simp
  qed
qed

lemma parse_format_uint: "n < 2 ^ bits \<Longrightarrow> parse_uint bits (format_uint n) = Some n"
  by (simp add: parse_uint_def format_uint_digits)

lemma parse_uint_bound: "parse_uint bits s = Some n \<Longrightarrow> n < 2 ^ bits"
  by (auto simp: parse_uint_def split: if_splits)

lemma digit_graphic: "is_digit c \<Longrightarrow> graphic c"
  by (auto simp: is_digit_def graphic_def)

lemma format_uint_graphic: "list_all graphic (format_uint n)"
  using format_uint_digits [of n] by (auto simp: list_all_iff digit_graphic)

lemma is_digit_not: "is_digit c \<Longrightarrow> c \<noteq> CHR '','' \<and> c \<noteq> CHR ''='' \<and> c \<noteq> CHR ''-'' \<and>
    c \<noteq> CHR ''+'' \<and> c \<noteq> CHR ''{'' \<and> c \<noteq> CHR ''}'' \<and> c \<noteq> CHR 0x0A \<and> c \<noteq> CHR '' ''"
  by (auto simp: is_digit_def)

lemma parse_format_int:
  assumes "- (2 ^ 63) \<le> n" "n < 2 ^ 63"
  shows "parse_int (format_int n) = Some n"
proof (cases "n < 0")
  case True
  with assms have "parse_uint 64 (format_uint (nat (- n))) = Some (nat (- n))"
    by (intro parse_format_uint) (simp add: nat_less_iff)
  with True assms show ?thesis
    by (simp add: parse_int_def format_int_def nat_le_iff)
next
  case False
  obtain c cs where fmt: "format_uint (nat n) = c # cs"
    by (meson format_uint_nonempty list.exhaust)
  then have "is_digit c" using format_uint_digits [of "nat n"] by simp
  then have "c \<noteq> CHR ''-'' \<and> c \<noteq> CHR ''+''" by (simp add: is_digit_not)
  moreover have "parse_uint 64 (format_uint (nat n)) = Some (nat n)"
    using False assms by (intro parse_format_uint) (simp add: nat_less_iff)
  ultimately show ?thesis using False assms fmt
    by (simp add: parse_int_def format_int_def nat_less_iff)
qed

subsection \<open>Maps\<close>

lemma wf_map_Nil [simp]: "wf_map []"
  by (simp add: wf_map_def)

lemma wf_map_update [simp]: "wf_map m \<Longrightarrow> wf_map (AList.update k v m)"
  by (simp add: wf_map_def distinct_update)

lemma wf_map_delete [simp]: "wf_map m \<Longrightarrow> wf_map (AList.delete k m)"
  by (simp add: wf_map_def distinct_delete)

lemma map_of_update [simp]: "map_of (AList.update k v m) = (map_of m)(k \<mapsto> v)"
  by (rule update_conv')

lemma map_of_delete [simp]: "map_of (AList.delete k m) = (map_of m)(k := None)"
  by (rule delete_conv')

lemma set_map_keys: "set (map_keys m) = dom (map_of m)"
  by (simp add: map_keys_def dom_map_of_conv_image_fst)

lemma get_or_nonzero: "get_or z m k \<noteq> z \<Longrightarrow> k \<in> set (map_keys m)"
  by (auto simp: get_or_def set_map_keys split: option.splits)

lemma get_or_update: "get_or z (AList.update k v m) k' = (if k' = k then v else get_or z m k')"
  by (simp add: get_or_def)

lemma get_or_delete: "get_or z (AList.delete k m) k' = (if k' = k then z else get_or z m k')"
  by (simp add: get_or_def)

lemma get_or_Nil [simp]: "get_or z [] k = z"
  by (simp add: get_or_def)

lemma wf_map_SomeI: "wf_map m \<Longrightarrow> (k, v) \<in> set m \<Longrightarrow> map_of m k = Some v"
  by (simp add: wf_map_def)

lemma wf_map_map: "wf_map m \<Longrightarrow> wf_map (map (\<lambda>(k, v). (k, f k v)) m)"
  by (simp add: wf_map_def comp_def case_prod_unfold)

lemma length_delete_present:
  assumes "wf_map m" and "map_of m k = Some v"
  shows "Suc (length (AList.delete k m)) = length m"
  using assms
proof (induction m)
  case (Cons p m)
  show ?case
  proof (cases "fst p = k")
    case True
    with Cons.prems have "k \<notin> set (map fst m)" by (auto simp: wf_map_def)
    then have "AList.delete k m = m" by (simp add: AList.delete_eq filter_id_conv) force
    with True show ?thesis by (simp add: AList.delete_eq case_prod_unfold)
  next
    case False
    with Cons show ?thesis by (auto simp: wf_map_def AList.delete_eq)
  qed
qed simp

lemma length_delete_le: "length (AList.delete k m) \<le> length m"
  by (simp add: AList.delete_eq)

lemma length_update_absent: "map_of m k = None \<Longrightarrow> length (AList.update k v m) = Suc (length m)"
  by (induction m) (auto split: if_splits)

lemma length_update_present: "map_of m k = Some w \<Longrightarrow> length (AList.update k v m) = length m"
  by (induction m) (auto split: if_splits)

end
