(* ===== verification/Base64.thy ===== *)
theory Base64
  imports GoLib
begin

text \<open>
  \<^verbatim>\<open>yagomodel/base64.go\<close> and \<^verbatim>\<open>yagomodel/bitfield_bit_access.go\<close>: YaCy's "enhanced"
  Base64 (64 symbols, no padding, newlines skipped by the decoder), the 63-bit cardinal
  of a symbol string, and the bit field read from an encoded string. The encoder and the
  decoder keep the 32-bit accumulator of the source, whose stale high bits are shifted
  out by wrap-around; the lemmas show that they never reach the output.
\<close>

unbundle bit_operations_syntax

section \<open>Definitions\<close>

definition Alphabet :: string where
  "Alphabet = ''ABCDEFGHIJKLMNOPQRSTUVWXYZabcdefghijklmnopqrstuvwxyz0123456789-_''"

datatype base64_error = ErrInvalidBase64 char

definition newDecodeTable :: "int list" where
  "newDecodeTable =
     fold (\<lambda>i table. table[of_char (Alphabet ! i) := int i]) [0..<length Alphabet]
       (replicate 256 (-1))"

definition decodeTable :: "char \<Rightarrow> int" where
  "decodeTable c = newDecodeTable ! of_char c"

text \<open>The inner loop \<^verbatim>\<open>for bits >= 6\<close>: the symbols emitted and the bits left.\<close>

fun Encode_emit :: "u32 \<Rightarrow> nat \<Rightarrow> string \<times> nat" where
  "Encode_emit buf bits =
     (if bits \<ge> 6
      then (let (out, rest) = Encode_emit buf (bits - 6)
            in (Alphabet ! unat (drop_bit (bits - 6) buf AND 0x3f) # out, rest))
      else ([], bits))"

declare Encode_emit.simps [simp del]

fun Encode_loop :: "u32 \<Rightarrow> nat \<Rightarrow> bytes \<Rightarrow> string" where
  "Encode_loop buf bits [] =
     (if bits > 0 then [Alphabet ! unat (push_bit (6 - bits) buf AND 0x3f)] else [])"
| "Encode_loop buf bits (b # src) =
     (let buf' = push_bit 8 buf OR ucast b;
          (out, bits') = Encode_emit buf' (bits + 8)
      in out @ Encode_loop buf' bits' src)"

definition Encode :: "bytes \<Rightarrow> string" where
  "Encode src = (if src = [] then [] else Encode_loop 0 0 src)"

fun Decode_loop :: "u32 \<Rightarrow> nat \<Rightarrow> string \<Rightarrow> (base64_error, bytes) result" where
  "Decode_loop buf bits [] = Inr []"
| "Decode_loop buf bits (c # s) =
     (if c = CHR 0x0A then Decode_loop buf bits s
      else
        (let v = decodeTable c
         in if v < 0 then Inl (ErrInvalidBase64 c)
            else
              (let buf' = push_bit 6 buf OR word_of_int v; bits' = bits + 6
               in if bits' \<ge> 8
                  then map_sum id (\<lambda>out. ucast (drop_bit (bits' - 8) buf' AND 0xff) # out)
                         (Decode_loop buf' (bits' - 8) s)
                  else Decode_loop buf' bits' s)))"

definition Decode :: "string \<Rightarrow> (base64_error, bytes) result" where
  "Decode s = (if s = [] then Inr [] else Decode_loop 0 0 s)"

definition cardinalSymbols :: nat where "cardinalSymbols = 10"

fun cardinal_symbols :: "u64 \<Rightarrow> string \<Rightarrow> (base64_error, u64) result" where
  "cardinal_symbols c [] = Inr c"
| "cardinal_symbols c (x # s) =
     (let v = decodeTable x
      in if v < 0 then Inl (ErrInvalidBase64 x)
         else cardinal_symbols (push_bit 6 c OR word_of_int v) s)"

definition cardinal :: "string \<Rightarrow> (base64_error, u64) result" where
  "cardinal s =
     (let n = min (length s) cardinalSymbols
      in case cardinal_symbols 0 (take n s) of
           Inl e \<Rightarrow> Inl e
         | Inr c \<Rightarrow> Inr (push_bit 3 (((\<lambda>c. push_bit 6 c) ^^ (cardinalSymbols - n)) c) OR 7))"

datatype bitfield_error = errInvalidBitfield base64_error

type_synonym Bitfield = bytes

definition DecodeBitfield :: "string \<Rightarrow> (bitfield_error, Bitfield) result" where
  "DecodeBitfield encoded = map_sum errInvalidBitfield id (Decode encoded)"

text \<open>\<^verbatim>\<open>pos >> 3\<close> on a negative \<^verbatim>\<open>int\<close> is negative too, and the guard on \<^verbatim>\<open>pos\<close> rejects it.\<close>

definition Bitfield_Get :: "Bitfield \<Rightarrow> int \<Rightarrow> bool" where
  "Bitfield_Get b pos =
     (let slot = pos div 8
      in if pos < 0 \<or> slot \<ge> int (length b) then False
         else b ! nat slot AND push_bit (nat (pos mod 8)) 1 \<noteq> 0)"

definition Bitfield_AllSet :: "Bitfield \<Rightarrow> int \<Rightarrow> bool" where
  "Bitfield_AllSet b bits = list_all (\<lambda>pos. Bitfield_Get b (int pos)) [0..<nat bits]"

section \<open>The alphabet and its table\<close>

lemma length_Alphabet [simp]: "length Alphabet = 64"
  by (simp add: Alphabet_def)

lemma distinct_Alphabet: "distinct Alphabet"
  by (simp add: Alphabet_def)

lemma newline_not_Alphabet: "CHR 0x0A \<notin> set Alphabet"
  by (simp add: Alphabet_def)

lemma decodeTable_prefix:
  "n \<le> 64 \<Longrightarrow>
     fold (\<lambda>i table. table[of_char (Alphabet ! i) := int i]) [0..<n] (replicate 256 (-1)) ! of_char c
       = (case index_byte (take n Alphabet) c of None \<Rightarrow> -1 | Some i \<Rightarrow> int i)
   \<and> length (fold (\<lambda>i table. table[of_char (Alphabet ! i) := int i]) [0..<n]
       (replicate 256 (-1 :: int))) = 256"
proof (induction n)
  case 0
  then show ?case by simp
next
  case (Suc n)
  then have n: "n < length Alphabet" by simp
  have tk: "take (Suc n) Alphabet = take n Alphabet @ [Alphabet ! n]"
    using n by (rule take_Suc_conv_app_nth)
  have fresh: "Alphabet ! n \<notin> set (take n Alphabet)"
    using distinct_Alphabet n by (metis distinct_take tk not_distinct_conv_prefix)
  show ?case
  proof (cases "c = Alphabet ! n")
    case True
    then show ?thesis using Suc n fresh by (simp add: tk)
  next
    case False
    have ne: "(of_char (Alphabet ! n) :: nat) \<noteq> of_char c"
      using False by (metis char_of_char)
    then show ?thesis using Suc ne
      by (simp add: tk index_byte_snoc split: option.splits)
  qed
qed

lemma decodeTable_index:
  "decodeTable c = (case index_byte Alphabet c of None \<Rightarrow> -1 | Some i \<Rightarrow> int i)"
  using decodeTable_prefix [of 64 c] by (simp add: decodeTable_def newDecodeTable_def)

lemma decodeTable_neg: "decodeTable c < 0 \<longleftrightarrow> c \<notin> set Alphabet"
  by (simp add: decodeTable_index split: option.splits) (metis index_byte_None option.distinct(1))

lemma decodeTable_bound: "decodeTable c < 64"
  by (auto simp: decodeTable_index split: option.splits dest!: index_byte_Some)

lemma index_byte_nth:
  "distinct s \<Longrightarrow> i < length s \<Longrightarrow> index_byte s (s ! i) = Some i"
  by (induction s arbitrary: i) (auto simp: nth_Cons split: nat.splits)

lemma decodeTable_nth: "i < 64 \<Longrightarrow> decodeTable (Alphabet ! i) = int i"
  by (simp add: decodeTable_index index_byte_nth distinct_Alphabet)

lemma Alphabet_nth_decodeTable:
  "c \<in> set Alphabet \<Longrightarrow> Alphabet ! nat (decodeTable c) = c"
  by (auto simp: decodeTable_index split: option.splits dest: index_byte_Some)

lemma Alphabet_nth_not_newline: "i < 64 \<Longrightarrow> Alphabet ! i \<noteq> CHR 0x0A"
  using newline_not_Alphabet by (metis length_Alphabet nth_mem)

text \<open>The symbol of the low six bits of a word, and the word read back.\<close>

lemma unat_and_63: "unat (w AND 0x3f :: u32) < 64"
proof -
  have "unat (w AND 0x3f) \<le> unat (0x3f :: u32)"
    by (rule word_and_le1 [THEN word_le_nat_alt [THEN iffD1]])
  then show ?thesis by simp
qed

lemma decodeTable_symbol:
  "decodeTable (Alphabet ! unat (w AND 0x3f :: u32)) = uint (w AND 0x3f)"
  using decodeTable_nth [OF unat_and_63 [of w]] by simp

lemma symbol_in_Alphabet: "Alphabet ! unat (w AND 0x3f :: u32) \<in> set Alphabet"
  using unat_and_63 [of w] by simp

lemma symbol_not_newline: "Alphabet ! unat (w AND 0x3f :: u32) \<noteq> CHR 0x0A"
  by (rule Alphabet_nth_not_newline) (rule unat_and_63)

section \<open>Round trip\<close>

text \<open>Three bytes become four symbols and leave the accumulator empty; whatever its high
  bits hold, the decoder reads the three bytes back.\<close>

definition symbol :: "u32 \<Rightarrow> char" where
  "symbol w = Alphabet ! unat (w AND 0x3f)"

lemma Decode_symbol:
  "Decode_loop buf bits (symbol w # s) =
     (let buf' = push_bit 6 buf OR (w AND 0x3f)
      in if bits + 6 \<ge> 8
         then map_sum id (\<lambda>out. ucast (drop_bit (bits - 2) buf' AND 0xff) # out)
                (Decode_loop buf' (bits - 2) s)
         else Decode_loop buf' (bits + 6) s)"
  by (simp add: symbol_def decodeTable_symbol symbol_not_newline Let_def)

lemma Encode_emit_small [simp]: "bits < 6 \<Longrightarrow> Encode_emit buf bits = ([], bits)"
  by (simp add: Encode_emit.simps)

lemma Encode_emit_step:
  "6 \<le> bits \<Longrightarrow> bits < 12 \<Longrightarrow>
     Encode_emit buf bits = ([symbol (drop_bit (bits - 6) buf)], bits - 6)"
  by (subst Encode_emit.simps) (simp add: symbol_def)

lemma Encode_emit_two:
  "12 \<le> bits \<Longrightarrow> bits < 18 \<Longrightarrow>
     Encode_emit buf bits =
       ([symbol (drop_bit (bits - 6) buf), symbol (drop_bit (bits - 12) buf)], bits - 12)"
  by (subst Encode_emit.simps) (simp add: symbol_def Encode_emit_step)

text \<open>The bits of the three decoded bytes, one lemma per byte: \<open>e\<close> is the encoder's
  accumulator before the group and \<open>d\<close> the decoder's.\<close>

lemma below_8: "(n::nat) < 8 \<Longrightarrow> n = 0 \<or> n = 1 \<or> n = 2 \<or> n = 3 \<or> n = 4 \<or> n = 5 \<or> n = 6 \<or> n = 7"
  by arith

lemma below_8': "n < LENGTH(8) \<Longrightarrow> n = 0 \<or> n = 1 \<or> n = 2 \<or> n = 3 \<or> n = 4 \<or> n = 5 \<or> n = 6 \<or> n = 7"
  by (rule below_8) simp

lemma bit_63: "bit (0x3f :: u32) n \<longleftrightarrow> n < 6"
proof -
  have "(0x3f :: u32) = mask 6" by (simp add: mask_eq_exp_minus_1)
  then show ?thesis by (simp only: bit_mask_iff) (auto simp: possible_bit_def)
qed

lemma bit_255: "bit (0xff :: u32) n \<longleftrightarrow> n < 8"
proof -
  have "(0xff :: u32) = mask 8" by (simp add: mask_eq_exp_minus_1)
  then show ?thesis by (simp only: bit_mask_iff) (auto simp: possible_bit_def)
qed

lemma byte_no_bit: "8 \<le> n \<Longrightarrow> \<not> bit (b :: byte) n"
  using bit_imp_le_length by fastforce

lemma decoded_bytes:
  fixes m6 m8 d e :: u32 and a b c :: byte
  assumes m: "\<And>n. bit m6 n \<longleftrightarrow> n < 6" "\<And>n. bit m8 n \<longleftrightarrow> n < 8"
  shows first_byte_mask: "ucast (drop_bit 4 (push_bit 6 (push_bit 6 d OR
        (drop_bit 2 (push_bit 8 e OR ucast a) AND m6))
      OR (drop_bit 4 (push_bit 8 (push_bit 8 e OR ucast a) OR ucast b) AND m6)) AND m8) = a"
    and second_byte_mask: "ucast (drop_bit 2 (push_bit 6 (push_bit 6 d OR
        (drop_bit 4 (push_bit 8 e OR ucast b) AND m6))
      OR (drop_bit 6 (push_bit 8 (push_bit 8 e OR ucast b) OR ucast c) AND m6)) AND m8) = b"
    and third_byte_mask: "ucast ((push_bit 6 (push_bit 6 d OR
        (drop_bit 6 (push_bit 8 e OR ucast c) AND m6))
      OR ((push_bit 8 e OR ucast c) AND m6)) AND m8) = c"
    and last_byte_1_mask: "ucast (drop_bit 4 (push_bit 6 (push_bit 6 d OR
        (drop_bit 2 (push_bit 8 e OR ucast a) AND m6))
      OR (push_bit 4 (push_bit 8 e OR ucast a) AND m6)) AND m8) = a"
    and last_byte_2_mask: "ucast (drop_bit 2 (push_bit 6 (push_bit 6 d OR
        (drop_bit 4 (push_bit 8 e OR ucast b) AND m6))
      OR (push_bit 2 (push_bit 8 e OR ucast b) AND m6)) AND m8) = b"
  by - (rule bit_word_eqI, drule below_8',
      elim disjE, simp_all add: bit_simps m byte_no_bit)+

lemmas first_byte = first_byte_mask [OF bit_63 bit_255]
  and second_byte = second_byte_mask [OF bit_63 bit_255]
  and third_byte = third_byte_mask [OF bit_63 bit_255]
  and last_byte_1 = last_byte_1_mask [OF bit_63 bit_255]
  and last_byte_2 = last_byte_2_mask [OF bit_63 bit_255]

lemma Decode_symbol_at:
  "Decode_loop d 0 (symbol w # s) = Decode_loop (push_bit 6 d OR (w AND 0x3f)) 6 s"
  "Decode_loop d 6 (symbol w # s) = map_sum id (\<lambda>out.
     ucast (drop_bit 4 (push_bit 6 d OR (w AND 0x3f)) AND 0xff) # out)
     (Decode_loop (push_bit 6 d OR (w AND 0x3f)) 4 s)"
  "Decode_loop d 4 (symbol w # s) = map_sum id (\<lambda>out.
     ucast (drop_bit 2 (push_bit 6 d OR (w AND 0x3f)) AND 0xff) # out)
     (Decode_loop (push_bit 6 d OR (w AND 0x3f)) 2 s)"
  "Decode_loop d 2 (symbol w # s) = map_sum id (\<lambda>out.
     ucast ((push_bit 6 d OR (w AND 0x3f)) AND 0xff) # out)
     (Decode_loop (push_bit 6 d OR (w AND 0x3f)) 0 s)"
  by (simp_all add: Decode_symbol Let_def del: Decode_loop.simps push_bit_or drop_bit_or)

lemma Decode_four:
  assumes "d1 = push_bit 6 d OR (w1 AND 0x3f)" "d2 = push_bit 6 d1 OR (w2 AND 0x3f)"
    "d3 = push_bit 6 d2 OR (w3 AND 0x3f)" "d4 = push_bit 6 d3 OR (w4 AND 0x3f)"
  shows "Decode_loop d 0 (symbol w1 # symbol w2 # symbol w3 # symbol w4 # s) =
    map_sum id (\<lambda>out. ucast (drop_bit 4 d2 AND 0xff) # ucast (drop_bit 2 d3 AND 0xff) #
      ucast (d4 AND 0xff) # out) (Decode_loop d4 0 s)"
  by (simp only: Decode_symbol_at assms [symmetric]) (simp add: sum.map_comp comp_def id_def)

lemma Encode_loop_three:
  "\<exists>w1 w2 w3 w4 buf'.
     Encode_loop buf 0 (a # b # c # src) =
       symbol w1 # symbol w2 # symbol w3 # symbol w4 # Encode_loop buf' 0 src \<and>
     (\<forall>d s. \<exists>d'. Decode_loop d 0 (symbol w1 # symbol w2 # symbol w3 # symbol w4 # s) =
        map_sum id (\<lambda>out. a # b # c # out) (Decode_loop d' 0 s))"
proof -
  let ?e1 = "push_bit 8 buf OR ucast a"
  let ?e2 = "push_bit 8 ?e1 OR ucast b"
  let ?e3 = "push_bit 8 ?e2 OR ucast c"
  have enc: "Encode_loop buf 0 (a # b # c # src) =
      symbol (drop_bit 2 ?e1) # symbol (drop_bit 4 ?e2) # symbol (drop_bit 6 ?e3) #
      symbol ?e3 # Encode_loop ?e3 0 src"
    by (simp add: Encode_emit_step Encode_emit_two Let_def)
  have dec: "\<exists>d'. Decode_loop d 0 (symbol (drop_bit 2 ?e1) # symbol (drop_bit 4 ?e2) #
        symbol (drop_bit 6 ?e3) # symbol ?e3 # s) =
        map_sum id (\<lambda>out. a # b # c # out) (Decode_loop d' 0 s)" for d s
    unfolding Decode_four [OF refl refl refl refl] first_byte second_byte third_byte by blast
  show ?thesis using enc dec by blast
qed


text \<open>The one or two bytes left at the end: the padding bits never complete a byte.\<close>

lemma Encode_loop_one:
  "\<exists>w1 w2. Encode_loop buf 0 [a] = [symbol w1, symbol w2] \<and>
     (\<forall>d. Decode_loop d 0 [symbol w1, symbol w2] = Inr [a])"
proof -
  let ?e1 = "push_bit 8 buf OR ucast a"
  have "Encode_loop buf 0 [a] = [symbol (drop_bit 2 ?e1), symbol (push_bit 4 ?e1)]"
    by (simp add: Encode_emit_step Let_def symbol_def)
  moreover have "Decode_loop d 0 [symbol (drop_bit 2 ?e1), symbol (push_bit 4 ?e1)] = Inr [a]" for d
    by (simp only: Decode_symbol_at last_byte_1) simp
  ultimately show ?thesis by blast
qed

lemma Encode_loop_two:
  "\<exists>w1 w2 w3. Encode_loop buf 0 [a, b] = [symbol w1, symbol w2, symbol w3] \<and>
     (\<forall>d. Decode_loop d 0 [symbol w1, symbol w2, symbol w3] = Inr [a, b])"
proof -
  let ?e1 = "push_bit 8 buf OR ucast a"
  let ?e2 = "push_bit 8 ?e1 OR ucast b"
  have "Encode_loop buf 0 [a, b] =
      [symbol (drop_bit 2 ?e1), symbol (drop_bit 4 ?e2), symbol (push_bit 2 ?e2)]"
    by (simp add: Encode_emit_step Let_def symbol_def)
  moreover have "Decode_loop d 0
      [symbol (drop_bit 2 ?e1), symbol (drop_bit 4 ?e2), symbol (push_bit 2 ?e2)] = Inr [a, b]" for d
    by (simp only: Decode_symbol_at first_byte last_byte_2) simp
  ultimately show ?thesis by blast
qed

lemma Decode_Encode_loop: "Decode_loop d 0 (Encode_loop buf 0 src) = Inr src"
proof (induction src arbitrary: d buf rule: length_induct)
  case (1 src)
  consider "src = []" | a where "src = [a]" | a b where "src = [a, b]"
    | a b c rest where "src = a # b # c # rest"
    by (metis list.exhaust)
  then show ?case
  proof cases
    case 1
    then show ?thesis by simp
  next
    case (2 a)
    then show ?thesis using Encode_loop_one [of buf a] by auto
  next
    case (3 a b)
    then show ?thesis using Encode_loop_two [of buf a b] by auto
  next
    case (4 a b c rest)
    obtain w1 w2 w3 w4 buf' d' where
      "Encode_loop buf 0 src = symbol w1 # symbol w2 # symbol w3 # symbol w4 # Encode_loop buf' 0 rest"
      "Decode_loop d 0 (symbol w1 # symbol w2 # symbol w3 # symbol w4 # Encode_loop buf' 0 rest) =
         map_sum id (\<lambda>out. a # b # c # out) (Decode_loop d' 0 (Encode_loop buf' 0 rest))"
      using Encode_loop_three [of buf a b c rest] 4 by metis
    moreover have "Decode_loop d' 0 (Encode_loop buf' 0 rest) = Inr rest"
      using "1.IH" 4 by simp
    ultimately show ?thesis using 4 by simp
  qed
qed

lemma Encode_loop_nonempty: "src \<noteq> [] \<Longrightarrow> Encode_loop buf 0 src \<noteq> []"
  using Decode_Encode_loop [of 0 buf src] by auto

lemma Decode_Encode [simp]: "Decode (Encode src) = Inr src"
  by (simp add: Decode_def Encode_def Decode_Encode_loop Encode_loop_nonempty)

interpretation base64: codec Encode Decode "\<lambda>_. True"
  by unfold_locales simp

section \<open>Lengths, errors and the symbols of the output\<close>

lemma Encode_emit_length:
  "Encode_emit buf bits = (out, rest) \<Longrightarrow>
     bits = 6 * length out + rest \<and> rest < 6 \<and> set out \<subseteq> set Alphabet"
proof (induction buf bits arbitrary: out rule: Encode_emit.induct)
  case (1 buf bits)
  show ?case
  proof (cases "6 \<le> bits")
    case True
    obtain out' rest' where r: "Encode_emit buf (bits - 6) = (out', rest')" by fastforce
    with True "1.prems" have "out = Alphabet ! unat (drop_bit (bits - 6) buf AND 0x3f) # out'"
      and "rest' = rest" by (simp_all add: Encode_emit.simps [of buf bits])
    with "1.IH" [OF True r [unfolded \<open>rest' = rest\<close>]] True symbol_in_Alphabet show ?thesis by auto
  next
    case False
    with "1.prems" show ?thesis by (simp add: Encode_emit.simps [of buf bits])
  qed
qed

lemma Encode_loop_length:
  "bits < 6 \<Longrightarrow> length (Encode_loop buf bits src) = (bits + 8 * length src + 5) div 6"
proof (induction src arbitrary: buf bits)
  case Nil
  then show ?case by auto
next
  case (Cons b src)
  obtain out rest where e: "Encode_emit (push_bit 8 buf OR ucast b) (bits + 8) = (out, rest)"
    by fastforce
  from Encode_emit_length [OF e] have r: "bits + 8 = 6 * length out + rest" "rest < 6" by auto
  then have "length (Encode_loop buf bits (b # src)) =
      length out + (rest + 8 * length src + 5) div 6"
    using e by (simp add: Cons.IH)
  also have "\<dots> = (6 * length out + (rest + 8 * length src + 5)) div 6" by simp
  also have "6 * length out + (rest + 8 * length src + 5) = bits + 8 * length (b # src) + 5"
    using r(1) by simp
  finally show ?case .
qed

lemma length_Encode: "length (Encode src) = (8 * length src + 5) div 6"
  by (simp add: Encode_def Encode_loop_length)

lemma Encode_loop_symbols: "set (Encode_loop buf bits src) \<subseteq> set Alphabet"
proof (induction src arbitrary: buf bits)
  case Nil
  then show ?case using symbol_in_Alphabet by auto
next
  case (Cons b src)
  obtain out rest where e: "Encode_emit (push_bit 8 buf OR ucast b) (bits + 8) = (out, rest)"
    by fastforce
  with Encode_emit_length [OF e] Cons.IH show ?case by auto
qed

lemma Encode_symbols: "set (Encode src) \<subseteq> set Alphabet"
  by (simp add: Encode_def Encode_loop_symbols)

text \<open>The decoder fails exactly on a byte that is neither a symbol nor a newline, and
  reports the first one.\<close>

definition base64_char :: "char \<Rightarrow> bool" where
  "base64_char c \<longleftrightarrow> c = CHR 0x0A \<or> c \<in> set Alphabet"

lemma Decode_loop_error:
  "Decode_loop buf bits s = Inl e \<longleftrightarrow>
     (\<exists>c. find (\<lambda>c. \<not> base64_char c) s = Some c \<and> e = ErrInvalidBase64 c)"
proof (induction s arbitrary: buf bits)
  case Nil
  then show ?case by simp
next
  case (Cons c s)
  have map_Inl: "map_sum id f r = Inl e \<longleftrightarrow> r = Inl e" for f :: "bytes \<Rightarrow> bytes" and r
    by (cases r) auto
  show ?case using Cons
    by (auto simp: Let_def map_Inl base64_char_def decodeTable_neg newline_not_Alphabet)
qed

lemma Decode_loop_ok:
  "(\<exists>bs. Decode_loop buf bits s = Inr bs) \<longleftrightarrow> list_all base64_char s"
proof (induction s arbitrary: buf bits)
  case (Cons c s)
  have map_Inr: "(\<exists>bs. map_sum id f r = Inr bs) \<longleftrightarrow> (\<exists>bs. r = Inr bs)"
    for f :: "bytes \<Rightarrow> bytes" and r :: "(base64_error, bytes) result"
    by (cases r) auto
  show ?case using Cons
    by (simp add: Let_def map_Inr base64_char_def decodeTable_neg newline_not_Alphabet)
qed simp

lemma Decode_ok: "(\<exists>bs. Decode s = Inr bs) \<longleftrightarrow> list_all base64_char s"
  by (simp add: Decode_def Decode_loop_ok)

lemma Decode_loop_length:
  "bits < 8 \<Longrightarrow> Decode_loop buf bits s = Inr bs \<Longrightarrow>
     length bs = (bits + 6 * length (filter (\<lambda>c. c \<noteq> CHR 0x0A) s)) div 8"
proof (induction s arbitrary: buf bits bs)
  case Nil
  then show ?case by simp
next
  case (Cons c s)
  show ?case
  proof (cases "c = CHR 0x0A")
    case True
    with Cons show ?thesis by simp
  next
    case False
    let ?buf = "push_bit 6 buf OR word_of_int (decodeTable c) :: u32"
    from Cons.prems False have ok: "\<not> decodeTable c < 0" by (auto simp: Let_def split: if_splits)
    show ?thesis
    proof (cases "8 \<le> bits + 6")
      case True
      with Cons.prems False ok obtain out where out: "Decode_loop ?buf (bits + 6 - 8) s = Inr out"
        and bs: "length bs = Suc (length out)"
        by (cases "Decode_loop ?buf (bits + 6 - 8) s") (auto simp: Let_def)
      with Cons.IH [OF _ out] True Cons.prems(1) False show ?thesis by simp
    next
      case small: False
      with Cons.prems False ok have "Decode_loop ?buf (bits + 6) s = Inr bs" by (simp add: Let_def)
      from Cons.IH [OF _ this] small False show ?thesis by simp
    qed
  qed
qed

lemma length_Decode:
  "Decode s = Inr bs \<Longrightarrow> length bs = 6 * length (filter (\<lambda>c. c \<noteq> CHR 0x0A) s) div 8"
  using Decode_loop_length [of 0 0 s bs] by (auto simp: Decode_def split: if_splits)


section \<open>The cardinal of a symbol string\<close>

definition symbol_number :: "char \<Rightarrow> nat" where
  "symbol_number c = nat (decodeTable c)"

fun symbols_number :: "nat \<Rightarrow> string \<Rightarrow> nat" where
  "symbols_number n [] = n"
| "symbols_number n (c # s) = symbols_number (64 * n + symbol_number c) s"

lemma symbol_number_bound: "symbol_number c < 64"
  using decodeTable_bound [of c] by (simp add: symbol_number_def)

lemma push_or_symbol:
  fixes c :: u64
  assumes v: "v < 64" and c: "unat c < 2 ^ 58"
  shows "unat (push_bit 6 c OR word_of_nat v) = 64 * unat c + v"
proof -
  have wv: "unat (word_of_nat v :: u64) = v" using v by (simp add: unat_of_nat)
  have "\<not> bit (word_of_nat v :: u64) n" if "6 \<le> n" for n
  proof -
    have "v < 2 ^ n" using v power_increasing [OF that, of "2::nat"] by simp
    then have "\<not> bit (unat (word_of_nat v :: u64)) n" by (simp add: wv bit_iff_odd)
    then show ?thesis by (simp add: bit_unsigned_iff)
  qed
  then have "push_bit 6 c OR word_of_nat v = push_bit 6 c + word_of_nat v"
    by (intro disjunctive_add_eq_or [symmetric] bit_word_eqI)
       (metis bit_0_eq bit_and_iff bit_push_bit_iff bot_apply bot_bool_def)
  moreover have "unat (push_bit 6 c) = 64 * unat c"
    using c by (simp add: push_bit_eq_mult unat_word_ariths)
  ultimately show ?thesis using c v wv by (simp add: unat_word_ariths)
qed

lemma push_bit_unat:
  fixes c :: u64
  assumes "unat c * 2 ^ k < 2 ^ 64"
  shows "unat (push_bit k c) = unat c * 2 ^ k"
proof -
  have "unat (push_bit k c) = take_bit LENGTH(64) (push_bit k (unat c))"
    by (rule unsigned_push_bit_eq)
  with assms show ?thesis by (simp add: push_bit_eq_mult take_bit_eq_mod)
qed

lemma cardinal_symbols_number:
  "list_all (\<lambda>x. x \<in> set Alphabet) s \<Longrightarrow> k + length s \<le> 10 \<Longrightarrow> unat c < 64 ^ k \<Longrightarrow>
     \<exists>c'. cardinal_symbols c s = Inr c' \<and> unat c' = symbols_number (unat c) s \<and>
       unat c' < 64 ^ (k + length s)"
proof (induction s arbitrary: k c)
  case Nil
  then show ?case by simp
next
  case (Cons x s)
  have x: "\<not> decodeTable x < 0" using Cons.prems(1) by (simp add: decodeTable_neg)
  then have w: "(word_of_int (decodeTable x) :: u64) = word_of_nat (symbol_number x)"
    by (simp add: symbol_number_def)
  have "(64::nat) ^ k \<le> 64 ^ 9" using Cons.prems(2) by (intro power_increasing) auto
  then have "unat c < 2 ^ 58" using Cons.prems(3) by simp
  then have u: "unat (push_bit 6 c OR word_of_int (decodeTable x)) = 64 * unat c + symbol_number x"
    unfolding w by (rule push_or_symbol [OF symbol_number_bound])
  moreover have "64 * unat c + symbol_number x < 64 ^ Suc k"
    using Cons.prems(3) symbol_number_bound [of x] by simp
  ultimately obtain c' where "cardinal_symbols (push_bit 6 c OR word_of_int (decodeTable x)) s = Inr c'"
    "unat c' = symbols_number (64 * unat c + symbol_number x) s" "unat c' < 64 ^ (Suc k + length s)"
    using Cons.IH [of "Suc k" "push_bit 6 c OR word_of_int (decodeTable x)"] Cons.prems by auto
  with x show ?case by simp
qed

lemma push_bit_funpow:
  fixes c :: u64
  shows "unat c * 64 ^ n < 2 ^ 64 \<Longrightarrow> unat (((\<lambda>c. push_bit 6 c) ^^ n) c) = unat c * 64 ^ n"
proof (induction n)
  case (Suc n)
  have "unat c * 64 ^ n \<le> unat c * 64 ^ Suc n" by simp
  with Suc have IH: "unat (((\<lambda>c. push_bit 6 c) ^^ n) c) = unat c * 64 ^ n" by simp
  have "unat (push_bit 6 (((\<lambda>c. push_bit 6 c) ^^ n) c)) = unat c * 64 ^ n * 2 ^ 6"
    using Suc.prems by (subst push_bit_unat) (simp_all add: IH ac_simps)
  then show ?case by simp
qed simp

text \<open>The cardinal is the number that the first ten symbols are in base 64, shifted by
  three bits whose place is filled with ones: it uses 63 bits and never wraps.\<close>

lemma cardinal_value:
  assumes "list_all (\<lambda>x. x \<in> set Alphabet) (take 10 s)"
  shows "\<exists>c. cardinal s = Inr c \<and>
    unat c = 8 * (symbols_number 0 (take 10 s) * 64 ^ (10 - min (length s) 10)) + 7 \<and>
    unat c < 2 ^ 63"
proof -
  let ?n = "min (length s) 10" and ?v = "symbols_number 0 (take 10 s)"
  have tk: "take ?n s = take 10 s" by (simp add: min_def)
  obtain c where c: "cardinal_symbols 0 (take 10 s) = Inr c" "unat c = ?v" "?v < 64 ^ ?n"
    using cardinal_symbols_number [of "take 10 s" 0 0] assms by auto
  let ?p = "((\<lambda>c. push_bit 6 c) ^^ (10 - ?n)) c"
  have b: "?v * 64 ^ (10 - ?n) < 64 ^ 10"
    using c(3) by (metis le_add_diff_inverse min.cobounded2 mult_less_mono1 power_add zero_less_numeral
      zero_less_power)
  then have "?v * 64 ^ (10 - ?n) < 2 ^ 60" by simp
  then have p: "unat ?p = ?v * 64 ^ (10 - ?n)" using c(2) by (simp add: push_bit_funpow)
  have "unat (push_bit 3 ?p) = unat ?p * 2 ^ 3"
    using p \<open>?v * 64 ^ (10 - ?n) < 2 ^ 60\<close> by (intro push_bit_unat) simp
  moreover have "push_bit 3 ?p OR 7 = push_bit 3 ?p + 7"
  proof -
    have "(7 :: u64) = mask 3" by (simp add: mask_eq_exp_minus_1)
    then have "push_bit 3 ?p AND 7 = 0"
      by (simp only: bit_eq_iff bit_and_iff bit_push_bit_iff bit_mask_iff) auto
    then show ?thesis by (rule disjunctive_add_eq_or [symmetric])
  qed
  moreover have "unat (push_bit 3 ?p + 7) = unat (push_bit 3 ?p) + 7"
    using calculation(1) p \<open>?v * 64 ^ (10 - ?n) < 2 ^ 60\<close> by (simp add: unat_word_ariths)
  ultimately have "unat (push_bit 3 ?p OR 7) = 8 * (?v * 64 ^ (10 - ?n)) + 7" using p by simp
  moreover have "cardinal s = Inr (push_bit 3 ?p OR 7)"
    using c(1) by (simp add: cardinal_def cardinalSymbols_def Let_def tk)
  ultimately show ?thesis using \<open>?v * 64 ^ (10 - ?n) < 2 ^ 60\<close> by simp
qed

section \<open>Bit fields\<close>

lemma Bitfield_Get_range: "pos < 0 \<or> 8 * int (length b) \<le> pos \<Longrightarrow> \<not> Bitfield_Get b pos"
  by (auto simp: Bitfield_Get_def Let_def)

lemma Bitfield_Get_bit:
  assumes "0 \<le> pos" "pos < 8 * int (length b)"
  shows "Bitfield_Get b pos \<longleftrightarrow> bit (b ! nat (pos div 8)) (nat (pos mod 8))"
  using assms by (auto simp: Bitfield_Get_def Let_def and_exp_eq_0_iff_not_bit)

lemma Bitfield_AllSet_iff:
  "Bitfield_AllSet b bits \<longleftrightarrow> (\<forall>pos. 0 \<le> pos \<and> pos < bits \<longrightarrow> Bitfield_Get b pos)"
proof -
  have "(\<forall>pos. 0 \<le> pos \<and> pos < bits \<longrightarrow> Bitfield_Get b pos) \<longleftrightarrow>
      (\<forall>n. n < nat bits \<longrightarrow> Bitfield_Get b (int n))"
    by (metis int_nat_eq nat_less_iff of_nat_0_le_iff zless_nat_conj nat_int of_nat_less_iff zless_nat_eq_int_zless)
  then show ?thesis by (auto simp: Bitfield_AllSet_def list_all_iff)
qed

section \<open>Properties\<close>

text \<open>Decoding an encoded byte string gives it back; the encoding has one symbol of the
  alphabet for every six bits, rounded up, and no padding.\<close>

theorem base64_roundtrip:
  "Decode (Encode src) = Inr src \<and> length (Encode src) = (8 * length src + 5) div 6 \<and>
     set (Encode src) \<subseteq> set Alphabet"
  by (simp add: length_Encode Encode_symbols)

text \<open>The decoder fails exactly on the first character that is neither a symbol nor a
  newline and names it; otherwise it returns one byte for every eight whole bits of the
  symbols, newlines left out.\<close>

theorem base64_decode_total:
  "case find (\<lambda>c. \<not> base64_char c) s of
     Some c \<Rightarrow> Decode s = Inl (ErrInvalidBase64 c)
   | None \<Rightarrow> \<exists>bs. Decode s = Inr bs \<and> length bs = 6 * length (filter (\<lambda>c. c \<noteq> CHR 0x0A) s) div 8"
proof (cases "find (\<lambda>c. \<not> base64_char c) s")
  case None
  then have "list_all base64_char s" by (auto simp: find_None_iff list_all_iff)
  then obtain bs where "Decode s = Inr bs" using Decode_ok by blast
  with None length_Decode show ?thesis by auto
next
  case (Some c)
  then have "s \<noteq> []" by auto
  with Some show ?thesis using Decode_loop_error [of 0 0 s "ErrInvalidBase64 c"]
    by (simp add: Decode_def)
qed

end
