(* ===== verification/Md5.thy ===== *)
theory Md5
  imports GoLib
begin

text \<open>
  \<^verbatim>\<open>crypto/md5\<close> and \<^verbatim>\<open>encoding/hex\<close> of Go's standard library, as
  \<^verbatim>\<open>yagomodel/yacy_hash_form.go\<close> uses them: the digest of RFC 1321, written out so
  that the hashes of words and addresses compute. The only fact the development needs
  is the length of the digest.
\<close>

unbundle bit_operations_syntax

definition md5_table :: "u32 list" where
  "md5_table =
     [0xd76aa478, 0xe8c7b756, 0x242070db, 0xc1bdceee,
      0xf57c0faf, 0x4787c62a, 0xa8304613, 0xfd469501,
      0x698098d8, 0x8b44f7af, 0xffff5bb1, 0x895cd7be,
      0x6b901122, 0xfd987193, 0xa679438e, 0x49b40821,
      0xf61e2562, 0xc040b340, 0x265e5a51, 0xe9b6c7aa,
      0xd62f105d, 0x02441453, 0xd8a1e681, 0xe7d3fbc8,
      0x21e1cde6, 0xc33707d6, 0xf4d50d87, 0x455a14ed,
      0xa9e3e905, 0xfcefa3f8, 0x676f02d9, 0x8d2a4c8a,
      0xfffa3942, 0x8771f681, 0x6d9d6122, 0xfde5380c,
      0xa4beea44, 0x4bdecfa9, 0xf6bb4b60, 0xbebfbc70,
      0x289b7ec6, 0xeaa127fa, 0xd4ef3085, 0x04881d05,
      0xd9d4d039, 0xe6db99e5, 0x1fa27cf8, 0xc4ac5665,
      0xf4292244, 0x432aff97, 0xab9423a7, 0xfc93a039,
      0x655b59c3, 0x8f0ccc92, 0xffeff47d, 0x85845dd1,
      0x6fa87e4f, 0xfe2ce6e0, 0xa3014314, 0x4e0811a1,
      0xf7537e82, 0xbd3af235, 0x2ad7d2bb, 0xeb86d391]"

definition md5_shifts :: "nat list list" where
  "md5_shifts = [[7, 12, 17, 22], [5, 9, 14, 20], [4, 11, 16, 23], [6, 10, 15, 21]]"

type_synonym md5_state = "u32 \<times> u32 \<times> u32 \<times> u32"

definition md5_step :: "u32 list \<Rightarrow> nat \<Rightarrow> md5_state \<Rightarrow> md5_state" where
  "md5_step m i st =
     (let (a, b, c, d) = st;
          (f, g) =
            (if i < 16 then ((b AND c) OR (NOT b AND d), i)
             else if i < 32 then ((d AND b) OR (NOT d AND c), (5 * i + 1) mod 16)
             else if i < 48 then (b XOR c XOR d, (3 * i + 5) mod 16)
             else (c XOR (b OR NOT d), (7 * i) mod 16));
          s = md5_shifts ! (i div 16) ! (i mod 4)
      in (d, b + word_rotl s (a + f + md5_table ! i + m ! g), b, c))"

definition md5_block :: "md5_state \<Rightarrow> u32 list \<Rightarrow> md5_state" where
  "md5_block st m =
     (let (a0, b0, c0, d0) = st; (a, b, c, d) = fold (md5_step m) [0..<64] st
      in (a0 + a, b0 + b, c0 + c, d0 + d))"

text \<open>Little-endian reading and writing of a block's sixteen words.\<close>

fun le_words :: "bytes \<Rightarrow> u32 list" where
  "le_words (a # b # c # d # bs) =
     (ucast a OR push_bit 8 (ucast b) OR push_bit 16 (ucast c) OR push_bit 24 (ucast d)) # le_words bs"
| "le_words _ = []"

definition le_bytes :: "nat \<Rightarrow> 'a::len word \<Rightarrow> bytes" where
  "le_bytes n w = map (\<lambda>i. ucast (drop_bit (8 * i) w)) [0..<n]"

definition md5_pad :: "bytes \<Rightarrow> bytes" where
  "md5_pad bs = bs @ [0x80] @ replicate ((119 - length bs mod 64) mod 64) 0 @
     le_bytes 8 (word_of_nat (8 * length bs) :: u64)"

fun md5_blocks :: "nat \<Rightarrow> md5_state \<Rightarrow> bytes \<Rightarrow> md5_state" where
  "md5_blocks 0 st bs = st"
| "md5_blocks (Suc n) st bs = md5_blocks n (md5_block st (le_words (take 64 bs))) (drop 64 bs)"

definition md5_sum :: "bytes \<Rightarrow> bytes" where
  "md5_sum bs =
     (let p = md5_pad bs;
          (a, b, c, d) = md5_blocks (length p div 64)
            (0x67452301, 0xefcdab89, 0x98badcfe, 0x10325476) p
      in le_bytes 4 a @ le_bytes 4 b @ le_bytes 4 c @ le_bytes 4 d)"

definition hex_digit :: "nat \<Rightarrow> char" where
  "hex_digit n = (if n < 10 then char_of (48 + n) else char_of (87 + n))"

definition hex_encode :: "bytes \<Rightarrow> string" where
  "hex_encode bs = concat (map (\<lambda>b. [hex_digit (unat b div 16), hex_digit (unat b mod 16)]) bs)"

lemma length_le_bytes [simp]: "length (le_bytes n w) = n"
  by (simp add: le_bytes_def)

lemma length_md5_sum [simp]: "length (md5_sum bs) = 16"
  by (simp add: md5_sum_def Let_def case_prod_unfold)

lemma length_hex_encode [simp]: "length (hex_encode bs) = 2 * length bs"
  by (induction bs) (simp_all add: hex_encode_def)

text \<open>The padded message fills whole blocks, so that the block loop reads all of it.\<close>

lemma length_md5_pad: "64 dvd length (md5_pad bs)"
proof -
  have "(l + 1 + (119 - l mod 64) mod 64 + 8) mod 64 = 0" for l :: nat
  proof -
    have "l mod 64 < 64" by simp
    then have "(l mod 64 + (119 - l mod 64) mod 64 + 9) mod 64 = 0"
      by (cases "l mod 64 \<le> 55") (simp_all add: mod_if [of "119 - l mod 64"])
    then show ?thesis
      using mod_add_left_eq [of l 64 "(119 - l mod 64) mod 64 + 9"] by (simp add: ac_simps)
  qed
  moreover have "length (md5_pad bs) = length bs + 1 + (119 - length bs mod 64) mod 64 + 8"
    by (simp add: md5_pad_def)
  ultimately show ?thesis by (metis mod_0_imp_dvd)
qed

end
