(* ===== verification/Hashes.thy ===== *)
theory Hashes
  imports Base64 Md5
begin

text \<open>
  \<^verbatim>\<open>yagomodel/hash.go\<close>, \<^verbatim>\<open>hash_random.go\<close> and \<^verbatim>\<open>yacy_hash_form.go\<close>: the 12-symbol
  hashes that name peers, words and addresses; how a word hash avoids the reserved
  prefix; random hashes. \<open>hash_codec\<close> below is the interface of \<^verbatim>\<open>ParseHash\<close>
  that the records with hash fields rely on.
\<close>

section \<open>Definitions\<close>

definition HashLength :: nat where "HashLength = 12"

definition ReservedPrefix :: string where "ReservedPrefix = ''_____''"

datatype hash_error = InvalidHashLength nat | InvalidHashChar char | EntropyError

type_synonym Hash = string

definition ParseHash :: "string \<Rightarrow> (hash_error, Hash) result" where
  "ParseHash s =
     (if length s \<noteq> HashLength then Inl (InvalidHashLength (length s))
      else (case find (\<lambda>c. decodeTable c < 0) s of
              Some c \<Rightarrow> Inl (InvalidHashChar c)
            | None \<Rightarrow> Inr s))"

definition Hash_Valid :: "Hash \<Rightarrow> bool" where
  "Hash_Valid h = (case ParseHash h of Inl _ \<Rightarrow> False | Inr _ \<Rightarrow> True)"

definition Hash_Reserved :: "Hash \<Rightarrow> bool" where
  "Hash_Reserved h = has_prefix h ReservedPrefix"

definition YaCyHashBase64 :: "string \<Rightarrow> string" where
  "YaCyHashBase64 raw = Encode (md5_sum (bytes_of_string raw))"

definition YaCyHashHex :: "string \<Rightarrow> string" where
  "YaCyHashHex raw = hex_encode (md5_sum (bytes_of_string raw))"

text \<open>The loop shifts the hash left by one symbol and puts the first symbol of the
  alphabet at its end as long as five last symbols of the alphabet lead it; each round
  loses one of them, which is the termination measure. The copy in place is on the
  12-byte slice of the caller.\<close>

definition lowByte :: char where "lowByte = Alphabet ! 0"
definition highByte :: char where "highByte = Alphabet ! (length Alphabet - 1)"

lemma low_high [simp]: "lowByte = CHR ''A''" "highByte = CHR ''_''"
  by (simp_all add: lowByte_def highByte_def Alphabet_def)

function avoidReservedWordHash :: "string \<Rightarrow> string" where
  "avoidReservedWordHash h =
     (if take 5 h = replicate 5 highByte then avoidReservedWordHash (tl h @ [lowByte]) else h)"
  by pat_completeness auto
termination
proof (relation "measure (\<lambda>h. count_list h highByte)")
  fix h :: string assume t: "take 5 h = replicate 5 highByte"
  then obtain c r where "h = c # r" by (cases h) auto
  with t have "hd h = highByte" by (simp add: numeral_eq_Suc)
  with \<open>h = c # r\<close> show "(tl h @ [lowByte], h) \<in> measure (\<lambda>h. count_list h highByte)" by simp
qed simp

declare avoidReservedWordHash.simps [simp del]

definition WordHash :: "(string \<Rightarrow> string) \<Rightarrow> string \<Rightarrow> Hash" where
  "WordHash u word = avoidReservedWordHash (take HashLength (YaCyHashBase64 (to_lower u word)))"

text \<open>The reader of random bytes is the list of the bytes it has to give.\<close>

definition hashEntropyBytes :: nat where "hashEntropyBytes = HashLength * 6 div 8"

definition GenerateHash :: "bytes \<Rightarrow> (hash_error, Hash) result" where
  "GenerateHash entropy =
     (if length entropy < hashEntropyBytes then Inl EntropyError
      else ParseHash (Encode (take hashEntropyBytes entropy)))"

section \<open>Valid hashes\<close>

lemma find_bad_symbol:
  "find (\<lambda>c. decodeTable c < 0) s = None \<longleftrightarrow> set s \<subseteq> set Alphabet"
  by (auto simp: find_None_iff decodeTable_neg)

lemma ParseHash_iff:
  "ParseHash s = Inr h \<longleftrightarrow> h = s \<and> length s = 12 \<and> set s \<subseteq> set Alphabet"
  using find_bad_symbol [of s]
  by (auto simp: ParseHash_def HashLength_def split: option.splits)

lemma Hash_Valid_iff: "Hash_Valid h \<longleftrightarrow> length h = 12 \<and> set h \<subseteq> set Alphabet"
  using ParseHash_iff [of h h] by (auto simp: Hash_Valid_def split: sum.splits)
    (metis ParseHash_iff)+

lemma ParseHash_valid: "Hash_Valid h \<Longrightarrow> ParseHash h = Inr h"
  by (simp add: Hash_Valid_iff ParseHash_iff)

lemma ParseHash_error: "\<not> Hash_Valid h \<Longrightarrow> \<exists>e. ParseHash h = Inl e"
  by (auto simp: Hash_Valid_def split: sum.splits)

interpretation hash_form: codec "\<lambda>h. h" ParseHash Hash_Valid
  by unfold_locales (rule ParseHash_valid)

lemma length_YaCyHashBase64 [simp]: "length (YaCyHashBase64 raw) = 22"
  by (simp add: YaCyHashBase64_def length_Encode)

lemma YaCyHashBase64_symbols: "set (YaCyHashBase64 raw) \<subseteq> set Alphabet"
  by (simp add: YaCyHashBase64_def Encode_symbols)

lemma Alphabet_low_high: "CHR ''A'' \<in> set Alphabet" "CHR ''_'' \<in> set Alphabet"
  by (simp_all add: Alphabet_def)

section \<open>Word hashes\<close>

lemma avoidReservedWordHash_length:
  "h \<noteq> [] \<Longrightarrow> length (avoidReservedWordHash h) = length h"
proof (induction h rule: avoidReservedWordHash.induct)
  case (1 h)
  have "length (tl h @ [lowByte]) = length h" using "1.prems" by simp
  with 1 show ?case by (cases "take 5 h = replicate 5 highByte")
    (simp_all add: avoidReservedWordHash.simps [of h])
qed

lemma avoidReservedWordHash_symbols:
  "set h \<subseteq> set Alphabet \<Longrightarrow> set (avoidReservedWordHash h) \<subseteq> set Alphabet"
proof (induction h rule: avoidReservedWordHash.induct)
  case (1 h)
  have "set (tl h @ [lowByte]) \<subseteq> set Alphabet"
    using "1.prems" Alphabet_low_high by (auto dest: list.set_sel(2) [rotated]) (metis in_mono
      list.sel(2) list.set_sel(2))
  with 1 show ?case by (simp add: avoidReservedWordHash.simps [of h])
qed

lemma avoidReservedWordHash_prefix: "take 5 (avoidReservedWordHash h) \<noteq> replicate 5 (CHR ''_'')"
proof (induction h rule: avoidReservedWordHash.induct)
  case (1 h)
  then show ?case
    by (cases "take 5 h = replicate 5 highByte") (simp_all add: avoidReservedWordHash.simps [of h])
qed

text \<open>What the loop computes: it drops the leading run down to four symbols and fills up.\<close>

lemma avoidReservedWordHash_unreserved:
  "\<not> Hash_Reserved h \<Longrightarrow> avoidReservedWordHash h = h"
  by (subst avoidReservedWordHash.simps)
     (simp add: Hash_Reserved_def has_prefix_def ReservedPrefix_def numeral_eq_Suc)

lemma avoidReservedWordHash_drop:
  "take n h = replicate n (CHR ''_'') \<Longrightarrow> n \<le> length h \<Longrightarrow> 4 \<le> n \<Longrightarrow>
   take 5 (drop (n - 4) h @ replicate (n - 4) (CHR ''A'')) \<noteq> replicate 5 (CHR ''_'') \<Longrightarrow>
   avoidReservedWordHash h = drop (n - 4) h @ replicate (n - 4) (CHR ''A'')"
proof (induction n arbitrary: h)
  case 0
  then show ?case by simp
next
  case (Suc n)
  show ?case
  proof (cases "n = 3")
    case True
    with Suc.prems show ?thesis by (subst avoidReservedWordHash.simps) simp
  next
    case False
    with Suc.prems(3) have n: "4 \<le> n" by simp
    obtain r where h: "h = CHR ''_'' # r" and r: "take n r = replicate n (CHR ''_'')" "n \<le> length r"
      using Suc.prems(1,2) by (cases h) auto
    have "take 5 h = take 5 (take (Suc n) h)" using n by (simp add: min_def)
    also have "\<dots> = replicate 5 (CHR ''_'')"
      using n by (simp only: Suc.prems(1) take_replicate) (simp add: min_def)
    finally have t: "take 5 h = replicate 5 highByte" by simp
    have pad: "replicate (n - 4) x @ [x] = replicate (Suc n - 4) x" for x :: char
      using le_Suc_ex [OF n] by (auto simp: replicate_append_same)
    have eq: "drop (n - 4) (r @ [CHR ''A'']) @ replicate (n - 4) (CHR ''A'') =
        drop (Suc n - 4) h @ replicate (Suc n - 4) (CHR ''A'')"
      using le_Suc_ex [OF n] r(2) h by (auto simp: replicate_app_Cons_same)
    have "avoidReservedWordHash h = avoidReservedWordHash (r @ [CHR ''A''])"
      using trans [OF avoidReservedWordHash.simps [of h] if_P [OF t]] by (simp add: h)
    also have "\<dots> = drop (n - 4) (r @ [CHR ''A'']) @ replicate (n - 4) (CHR ''A'')"
    proof (rule Suc.IH)
      show "take 5 (drop (n - 4) (r @ [CHR ''A'']) @ replicate (n - 4) (CHR ''A'')) \<noteq>
          replicate 5 (CHR ''_'')"
        unfolding eq by (rule Suc.prems(4))
    qed (use r n in simp_all)
    finally show ?thesis by (simp only: eq)
  qed
qed

lemma WordHash_valid: "Hash_Valid (WordHash u w)"
proof -
  let ?h = "take HashLength (YaCyHashBase64 (to_lower u w))"
  have "length ?h = 12" by (simp add: HashLength_def)
  then have "?h \<noteq> []" by (metis list.size(3) zero_neq_numeral)
  moreover have "set ?h \<subseteq> set Alphabet"
    using YaCyHashBase64_symbols by (meson set_take_subset subset_trans)
  ultimately show ?thesis
    using \<open>length ?h = 12\<close> by (simp add: WordHash_def Hash_Valid_iff avoidReservedWordHash_length
        avoidReservedWordHash_symbols)
qed

lemma WordHash_not_reserved: "\<not> Hash_Reserved (WordHash u w)"
  using avoidReservedWordHash_prefix
  by (simp add: WordHash_def Hash_Reserved_def has_prefix_def ReservedPrefix_def numeral_eq_Suc)

lemma GenerateHash_valid:
  "9 \<le> length entropy \<Longrightarrow> \<exists>h. GenerateHash entropy = Inr h \<and> Hash_Valid h"
  using Encode_symbols [of "take 9 entropy"]
  by (simp add: GenerateHash_def hashEntropyBytes_def HashLength_def ParseHash_iff Hash_Valid_iff
      length_Encode min_def)

section \<open>Properties\<close>

text \<open>The hash of a word is a valid hash (twelve symbols of the alphabet) and never lies in
  the range that the network reserves for private data, whatever the word.\<close>

theorem word_hash_routable: "Hash_Valid (WordHash u w) \<and> \<not> Hash_Reserved (WordHash u w)"
  by (simp add: WordHash_valid WordHash_not_reserved)

text \<open>Reading a hash accepts exactly the strings of twelve symbols and changes none of them;
  nine random bytes always make one, and fewer are reported.\<close>

theorem hash_generation:
  "(ParseHash s = Inr h \<longleftrightarrow> h = s \<and> length s = 12 \<and> set s \<subseteq> set Alphabet) \<and>
   (if length entropy < 9 then GenerateHash entropy = Inl EntropyError
    else \<exists>g. GenerateHash entropy = Inr g \<and> Hash_Valid g \<and> Decode g = Inr (take 9 entropy))"
  using GenerateHash_valid [of entropy]
  by (auto simp: ParseHash_iff GenerateHash_def hashEntropyBytes_def HashLength_def)

end
