(* ===== verification/DhtPosition.thy ===== *)
theory DhtPosition
  imports Hashes
begin

text \<open>
  \<^verbatim>\<open>yagomodel/dht_position.go\<close>: the position of a hash on the ring of \<open>2 ^ 63\<close>
  positions, the distance from one position to another in the direction of growing
  positions, and the vertical partitions of the ring. The interface \<open>ring\<close> is what the
  selection of transfer targets uses of a distance.
\<close>

unbundle bit_operations_syntax

section \<open>Definitions\<close>

datatype dht_error = HashError hash_error | CardinalError base64_error
  | InvalidVertical u64 int | InvalidExponent int | InvalidPosition u64

definition MaxPosition :: u64 where "MaxPosition = push_bit 63 1 - 1"

definition Position :: "Hash \<Rightarrow> (dht_error, u64) result" where
  "Position h = (case ParseHash h of
     Inl e \<Rightarrow> Inl (HashError e)
   | Inr _ \<Rightarrow> map_sum CardinalError id (cardinal h))"

definition Distance :: "u64 \<Rightarrow> u64 \<Rightarrow> u64" where
  "Distance from to = (if to \<ge> from then to - from else (MaxPosition - from) + to + 1)"

definition verticalShiftLength :: "int \<Rightarrow> (dht_error, nat) result" where
  "verticalShiftLength exponent =
     (if exponent < 0 \<or> exponent > 62 then Inl (InvalidExponent exponent)
      else Inr (nat (63 - exponent)))"

definition VerticalPartition :: "Hash \<Rightarrow> int \<Rightarrow> (dht_error, u64) result" where
  "VerticalPartition hash exponent = (case Position hash of
     Inl e \<Rightarrow> Inl e
   | Inr position \<Rightarrow> (case verticalShiftLength exponent of
       Inl e \<Rightarrow> Inl e
     | Inr shiftLength \<Rightarrow> Inr (drop_bit shiftLength position)))"

definition VerticalPosition :: "Hash \<Rightarrow> u64 \<Rightarrow> int \<Rightarrow> (dht_error, u64) result" where
  "VerticalPosition word vertical exponent = (case Position word of
     Inl e \<Rightarrow> Inl e
   | Inr wordPosition \<Rightarrow> (case verticalShiftLength exponent of
       Inl e \<Rightarrow> Inl e
     | Inr shiftLength \<Rightarrow>
         if vertical \<ge> push_bit (nat exponent) 1 then Inl (InvalidVertical vertical exponent)
         else
           (let partitionMask = push_bit shiftLength 1 - 1
            in Inr ((wordPosition AND partitionMask) OR push_bit shiftLength vertical))))"

section \<open>Positions\<close>

lemma unat_MaxPosition: "unat MaxPosition = 2 ^ 63 - 1"
  by (simp add: MaxPosition_def)

lemma MaxPosition_mask: "MaxPosition = mask 63"
  by (simp add: MaxPosition_def mask_eq_exp_minus_1 push_bit_eq_mult)

lemma le_MaxPosition: "p \<le> MaxPosition \<longleftrightarrow> unat p < 2 ^ 63"
  by (auto simp: word_le_nat_alt unat_MaxPosition)

lemma Position_value:
  assumes "Hash_Valid h"
  shows "\<exists>p. Position h = Inr p \<and> unat p = 8 * symbols_number 0 (take 10 h) + 7 \<and> unat p < 2 ^ 63"
proof -
  have len: "length h = 12" and "set h \<subseteq> set Alphabet" using assms by (simp_all add: Hash_Valid_iff)
  then have "list_all (\<lambda>x. x \<in> set Alphabet) (take 10 h)"
    by (meson list_all_iff in_set_takeD subsetD)
  from cardinal_value [OF this] len assms show ?thesis
    by (auto simp: Position_def ParseHash_valid)
qed

lemma Position_error: "\<not> Hash_Valid h \<Longrightarrow> \<exists>e. Position h = Inl (HashError e)"
  using ParseHash_error [of h] by (auto simp: Position_def)

lemma Position_Inr:
  assumes "Position h = Inr p"
  shows "Hash_Valid h" and "p \<le> MaxPosition"
proof -
  show "Hash_Valid h" using assms Position_error [of h] by fastforce
  from Position_value [OF this] assms show "p \<le> MaxPosition" by (auto simp: le_MaxPosition)
qed

section \<open>The ring of positions\<close>

text \<open>What a client needs of the distance: between positions, it is the difference modulo
  the number of positions.\<close>

locale ring =
  fixes pos :: "'p \<Rightarrow> nat"
    and size :: nat
    and ok :: "'p \<Rightarrow> bool"
    and dist :: "'p \<Rightarrow> 'p \<Rightarrow> 'p"
  assumes pos_bound: "ok p \<Longrightarrow> pos p < size"
    and ok_dist: "ok p \<Longrightarrow> ok q \<Longrightarrow> ok (dist p q)"
    and pos_dist: "ok p \<Longrightarrow> ok q \<Longrightarrow> pos (dist p q) = (pos q + size - pos p) mod size"
begin

lemma int_dist: "ok p \<Longrightarrow> ok q \<Longrightarrow> int (pos (dist p q)) = (int (pos q) - int (pos p)) mod int size"
proof -
  assume p: "ok p" and q: "ok q"
  then have "int (pos (dist p q)) = int (pos q + size - pos p) mod int size"
    by (simp add: pos_dist zmod_int)
  also have "int (pos q + size - pos p) = int (pos q) - int (pos p) + int size"
    using pos_bound [OF p] by simp
  finally show ?thesis by simp
qed

lemma dist_self: "ok p \<Longrightarrow> pos (dist p p) = 0"
  using int_dist [of p p] by simp

lemma dist_zero_iff: "ok p \<Longrightarrow> ok q \<Longrightarrow> pos (dist p q) = 0 \<longleftrightarrow> pos p = pos q"
proof
  assume p: "ok p" and q: "ok q"
  assume "pos (dist p q) = 0"
  then have "(int (pos q) - int (pos p)) mod int size = 0" using int_dist [OF p q] by simp
  then have "int (pos q) mod int size = int (pos p) mod int size" by (simp add: mod_eq_dvd_iff mod_0_imp_dvd)
  then show "pos p = pos q" using pos_bound [OF p] pos_bound [OF q] by simp
next
  assume "ok p" "ok q" "pos p = pos q" then show "pos (dist p q) = 0" using int_dist [of p q] by simp
qed

lemma dist_around:
  assumes "ok p" "ok q" "pos p \<noteq> pos q"
  shows "pos (dist p q) + pos (dist q p) = size"
proof -
  have pq: "pos p < size" "pos q < size" using assms pos_bound by auto
  then have "pos (dist p q) = (if pos p \<le> pos q then pos q - pos p else pos q + size - pos p)" for p' :: 'p
    using pos_dist [OF assms(1,2)] by (auto simp: mod_if)
  moreover have "pos (dist q p) = (if pos q \<le> pos p then pos p - pos q else pos p + size - pos q)"
    using pos_dist [OF assms(2,1)] pq by (auto simp: mod_if)
  ultimately show ?thesis using assms(3) pq by auto
qed

lemma dist_triangle:
  assumes "ok p" "ok q" "ok r"
  shows "pos (dist p r) = (pos (dist p q) + pos (dist q r)) mod size"
proof -
  have "int (pos (dist p r)) = ((int (pos q) - int (pos p)) mod int size +
      (int (pos r) - int (pos q)) mod int size) mod int size"
    using int_dist assms by (simp add: mod_add_eq)
  also have "\<dots> = int ((pos (dist p q) + pos (dist q r)) mod size)"
    using int_dist assms by (simp add: zmod_int)
  finally show ?thesis by linarith
qed

lemma dist_inject:
  assumes "ok p" "ok q" "ok r" "pos (dist p q) = pos (dist p r)"
  shows "pos q = pos r"
proof -
  have "(int (pos q) - int (pos p)) mod int size = (int (pos r) - int (pos p)) mod int size"
    using assms int_dist by (metis)
  then have "int (pos q) mod int size = int (pos r) mod int size"
    by (metis diff_add_cancel mod_add_left_eq)
  then show ?thesis using pos_bound assms by simp
qed

end

lemma Distance_unat:
  assumes "p \<le> MaxPosition" "q \<le> MaxPosition"
  shows "unat (Distance p q) = (unat q + 2 ^ 63 - unat p) mod 2 ^ 63"
proof -
  have p: "unat p < 2 ^ 63" and q: "unat q < 2 ^ 63" using assms by (simp_all only: le_MaxPosition)
  show ?thesis
  proof (cases "p \<le> q")
    case True
    then have "unat (Distance p q) = unat q - unat p" by (simp add: Distance_def unat_sub)
    moreover have "unat p \<le> unat q" using True by (simp add: word_le_nat_alt)
    ultimately show ?thesis using q by (simp add: mod_if)
  next
    case False
    then have lt: "unat q < unat p" by (simp add: word_le_nat_alt)
    have "unat (MaxPosition - p) = 2 ^ 63 - 1 - unat p"
      using assms(1) by (simp add: unat_sub unat_MaxPosition)
    then have "unat (MaxPosition - p + q) = 2 ^ 63 - 1 - unat p + unat q"
      using p q by (subst unat_word_ariths) simp
    then have "unat (MaxPosition - p + q + 1) = 2 ^ 63 - unat p + unat q"
      using p q by (subst unat_word_ariths) simp
    with False lt p show ?thesis by (simp add: Distance_def)
  qed
qed

interpretation dht: ring unat "2 ^ 63" "\<lambda>p. p \<le> MaxPosition" Distance
proof unfold_locales
  fix p q :: u64
  show "unat p < 2 ^ 63" if "p \<le> MaxPosition" using that by (simp only: le_MaxPosition)
  assume "p \<le> MaxPosition" "q \<le> MaxPosition"
  then show d: "unat (Distance p q) = (unat q + 2 ^ 63 - unat p) mod 2 ^ 63" by (rule Distance_unat)
  show "Distance p q \<le> MaxPosition" unfolding le_MaxPosition d by simp
qed

section \<open>Vertical partitions\<close>

lemma verticalShiftLength_iff:
  "verticalShiftLength e = Inr n \<longleftrightarrow> 0 \<le> e \<and> e \<le> 62 \<and> n = nat (63 - e)"
  by (auto simp: verticalShiftLength_def)

lemma VerticalPosition_parts:
  assumes "VerticalPosition word vertical e = Inr p"
  shows "\<exists>wp. Position word = Inr wp \<and> 0 \<le> e \<and> e \<le> 62 \<and> unat vertical < 2 ^ nat e \<and>
    p = (take_bit (nat (63 - e)) wp) OR push_bit (nat (63 - e)) vertical"
proof -
  obtain wp where wp: "Position word = Inr wp" using assms
    by (auto simp: VerticalPosition_def split: sum.splits)
  have e: "0 \<le> e" "e \<le> 62" using assms
    by (auto simp: VerticalPosition_def verticalShiftLength_def split: sum.splits if_splits)
  have "unat (push_bit (nat e) 1 :: u64) = 2 ^ nat e"
  proof -
    have "unat (push_bit (nat e) 1 :: u64) = take_bit LENGTH(64) (push_bit (nat e) (unat (1 :: u64)))"
      by (rule unsigned_push_bit_eq)
    moreover have "(2::nat) ^ nat e < 2 ^ 64" using e by (intro power_strict_increasing) auto
    ultimately show ?thesis by (simp add: push_bit_eq_mult take_bit_eq_mod)
  qed
  moreover have "\<not> push_bit (nat e) 1 \<le> vertical" using assms wp e
    by (auto simp: VerticalPosition_def verticalShiftLength_def split: if_splits)
  ultimately have "unat vertical < 2 ^ nat e" by (simp add: word_le_nat_alt)
  moreover have "p = (wp AND mask (nat (63 - e))) OR push_bit (nat (63 - e)) vertical"
    using assms wp e by (auto simp: VerticalPosition_def verticalShiftLength_def Let_def
        mask_eq_exp_minus_1 push_bit_eq_mult split: if_splits)
  ultimately show ?thesis using wp e by (simp add: take_bit_eq_mask)
qed

lemma vertical_no_bit: "unat (v :: u64) < 2 ^ n \<Longrightarrow> n \<le> k \<Longrightarrow> \<not> bit v k"
proof -
  assume "unat v < 2 ^ n" "n \<le> k"
  then have "unat v < 2 ^ k" by (meson order_less_le_trans one_le_numeral power_increasing)
  then have "\<not> bit (unat v) k" by (simp add: bit_iff_odd)
  then show ?thesis by (simp add: bit_unsigned_iff)
qed

lemma VerticalPosition_bound:
  assumes "VerticalPosition word vertical e = Inr p"
  shows "p \<le> MaxPosition"
proof -
  obtain wp where wp: "0 \<le> e" "e \<le> 62" "unat vertical < 2 ^ nat e"
    "p = (take_bit (nat (63 - e)) wp) OR push_bit (nat (63 - e)) vertical"
    using VerticalPosition_parts [OF assms] by blast
  have "\<not> bit p k" if "63 \<le> k" for k
  proof -
    have "nat e \<le> k - nat (63 - e)" and "\<not> k < nat (63 - e)" using wp(1,2) that by linarith+
    with vertical_no_bit [OF wp(3), of "k - nat (63 - e)"] show ?thesis
      by (simp add: wp(4) bit_simps)
  qed
  then have "p = take_bit 63 p" by (intro bit_eqI) (auto simp: bit_simps not_le intro: ccontr [of "_ < 63"])
  then have "p AND MaxPosition = p" by (simp add: MaxPosition_mask take_bit_eq_mask)
  then show ?thesis by (metis word_and_le1)
qed

lemma VerticalPosition_partition:
  assumes "VerticalPosition word vertical e = Inr p"
  shows "drop_bit (nat (63 - e)) p = vertical"
    and "\<exists>wp. Position word = Inr wp \<and> take_bit (nat (63 - e)) p = take_bit (nat (63 - e)) wp"
proof -
  obtain wp where wp: "Position word = Inr wp" "0 \<le> e" "e \<le> 62" "unat vertical < 2 ^ nat e"
    "p = (take_bit (nat (63 - e)) wp) OR push_bit (nat (63 - e)) vertical"
    using VerticalPosition_parts [OF assms] by blast
  show "drop_bit (nat (63 - e)) p = vertical"
  proof (rule bit_word_eqI)
    fix k
    have "nat e \<le> k" if "\<not> nat (63 - e) + k < 64" using that wp(2,3) by linarith
    then have "\<not> bit vertical k" if "\<not> nat (63 - e) + k < 64"
      using vertical_no_bit [OF wp(4)] that by blast
    then show "bit (drop_bit (nat (63 - e)) p) k = bit vertical k"
      by (auto simp: wp(5) bit_simps)
  qed
  have "take_bit (nat (63 - e)) p = take_bit (nat (63 - e)) wp"
    by (rule bit_word_eqI) (auto simp: wp(5) bit_simps)
  with wp(1) show "\<exists>wp. Position word = Inr wp \<and> take_bit (nat (63 - e)) p = take_bit (nat (63 - e)) wp"
    by blast
qed

lemma VerticalPosition_total:
  assumes "Hash_Valid word" "0 \<le> e" "e \<le> 62" "unat vertical < 2 ^ nat e"
  shows "\<exists>p. VerticalPosition word vertical e = Inr p"
proof -
  have e: "nat e < 64" using assms(3) by simp
  then have "unat (push_bit (nat e) 1 :: u64) = 2 ^ nat e"
    using push_bit_unat [of 1 "nat e"] power_strict_increasing [OF e, of "2::nat"] by simp
  then have "\<not> push_bit (nat e) 1 \<le> vertical" using assms(4) by (simp add: word_le_nat_alt)
  moreover have "verticalShiftLength e = Inr (nat (63 - e))"
    using assms by (simp add: verticalShiftLength_iff)
  ultimately show ?thesis
    using Position_value [OF assms(1)] by (auto simp: VerticalPosition_def Let_def)
qed

section \<open>Properties\<close>

text \<open>Distances on the hash ring: between positions up to the maximum, the distance is a
  position, it is zero from a position to itself only, the ways there and back make one full
  ring, and distances add up around the ring.\<close>

theorem dht_distance_ring:
  assumes "p \<le> MaxPosition" "q \<le> MaxPosition" "r \<le> MaxPosition"
  shows "Distance p q \<le> MaxPosition \<and> (Distance p q = 0 \<longleftrightarrow> p = q) \<and>
    unat (Distance p q) + unat (Distance q p) = (if p = q then 0 else 2 ^ 63) \<and>
    unat (Distance p r) = (unat (Distance p q) + unat (Distance q r)) mod 2 ^ 63"
proof (intro conjI)
  show "Distance p q \<le> MaxPosition"
    using assms by (simp add: le_MaxPosition Distance_unat)
  show "Distance p q = 0 \<longleftrightarrow> p = q"
    using dht.dist_zero_iff [OF assms(1,2)] by (metis unat_0 unsigned_word_eqI unat_eq_zero)
  show "unat (Distance p q) + unat (Distance q p) = (if p = q then 0 else 2 ^ 63)"
    using dht.dist_around [OF assms(1,2)] dht.dist_self [OF assms(1)] by (auto dest: unsigned_word_eqI)
  show "unat (Distance p r) = (unat (Distance p q) + unat (Distance q r)) mod 2 ^ 63"
    by (rule dht.dist_triangle [OF assms])
qed

lemma dht_distance_ring_witness:
  "Distance 5 3 \<le> MaxPosition \<and> (Distance 5 3 = 0 \<longleftrightarrow> (5::u64) = 3) \<and>
    unat (Distance 5 3) + unat (Distance 3 5) = (if (5::u64) = 3 then 0 else 2 ^ 63) \<and>
    unat (Distance 5 9) = (unat (Distance 5 3) + unat (Distance 3 9)) mod 2 ^ 63"
  by (rule dht_distance_ring) (simp_all add: MaxPosition_mask mask_eq_exp_minus_1)

text \<open>A vertical position stays on the ring, carries the number of its partition in its
  leading bits, from where it can be read back, and keeps the other bits of the position of the
  word; it exists exactly for a valid hash, an exponent of at most 62 and a partition below
  two to that exponent.\<close>

theorem vertical_position_partition:
  "(case VerticalPosition word vertical e of
      Inl _ \<Rightarrow> \<not> (Hash_Valid word \<and> 0 \<le> e \<and> e \<le> 62 \<and> unat vertical < 2 ^ nat e)
    | Inr p \<Rightarrow> Hash_Valid word \<and> 0 \<le> e \<and> e \<le> 62 \<and> unat vertical < 2 ^ nat e \<and>
        p \<le> MaxPosition \<and> drop_bit (nat (63 - e)) p = vertical \<and>
        (\<exists>wp. Position word = Inr wp \<and>
           take_bit (nat (63 - e)) p = take_bit (nat (63 - e)) wp))"
proof (cases "VerticalPosition word vertical e")
  case (Inl x)
  then show ?thesis using VerticalPosition_total [of word e vertical] by auto
next
  case (Inr p)
  then show ?thesis
    using VerticalPosition_parts [OF Inr] VerticalPosition_bound [OF Inr]
      VerticalPosition_partition [OF Inr] Position_Inr(1) by auto
qed

end
