(* ===== verification/WireForm.thy ===== *)
theory WireForm
  imports Base64
begin

text \<open>
  \<^verbatim>\<open>yagomodel/compact_wire_form.go\<close>: a text is sent plain, in Base64, or compressed and
  in Base64, under a one-letter tag; the reader bounds the size of what it returns
  before and after decoding. The compressor and the decompressor of \<^verbatim>\<open>compress/gzip\<close>
  are parameters: \<open>deflate\<close> maps the text to the compressed bytes, and \<open>inflate\<close> gives
  None for a bad header, otherwise the bytes the stream yields and whether it ends
  without an error.
\<close>

section \<open>Definitions\<close>

type_synonym inflater = "bytes \<Rightarrow> (bytes \<times> bool) option"

definition wireFormPlain :: char where "wireFormPlain = CHR ''p''"
definition wireFormBase64 :: char where "wireFormBase64 = CHR ''b''"
definition wireFormGzip :: char where "wireFormGzip = CHR ''z''"
definition wireFormSep :: char where "wireFormSep = CHR ''|''"

definition maximumInflatedWireFormBytes :: int where
  "maximumInflatedWireFormBytes = 4 * 1048576"

datatype wire_error = WireBadTag char | WireTooLarge int | WireBadBody base64_error
  | WireGzipReader | WireGzipRead

definition tagged :: "char \<Rightarrow> string \<Rightarrow> string" where
  "tagged tag body = [tag, wireFormSep] @ body"

definition EncodeCompactWireForm :: "(bytes \<Rightarrow> bytes) \<Rightarrow> string \<Rightarrow> string" where
  "EncodeCompactWireForm deflate payload =
     (let shortest = tagged wireFormPlain payload;
          z = tagged wireFormGzip (Encode (deflate (bytes_of_string payload)))
      in if length z < length shortest then z else shortest)"

definition EncodeBase64WireForm :: "string \<Rightarrow> string" where
  "EncodeBase64WireForm payload = tagged wireFormBase64 (Encode (bytes_of_string payload))"

definition wireFormSizeError :: "int \<Rightarrow> int \<Rightarrow> wire_error option" where
  "wireFormSizeError n maximumBytes =
     (if n \<le> maximumBytes then None else Some (WireTooLarge maximumBytes))"

fun count_symbols :: "nat \<Rightarrow> string \<Rightarrow> (base64_error, nat) result" where
  "count_symbols symbols [] = Inr symbols"
| "count_symbols symbols (c # body) =
     (if c = CHR 0x0A then count_symbols symbols body
      else if decodeTable c < 0 then Inl (ErrInvalidBase64 c)
      else count_symbols (Suc symbols) body)"

definition decodedWireFormBodyBytes :: "string \<Rightarrow> (base64_error, nat) result" where
  "decodedWireFormBodyBytes body =
     map_sum id (\<lambda>symbols. symbols div 4 * 3 + symbols mod 4 * 6 div 8) (count_symbols 0 body)"

definition encodedWireFormSizeError :: "string \<Rightarrow> int \<Rightarrow> wire_error option" where
  "encodedWireFormSizeError body maximumBytes = (case decodedWireFormBodyBytes body of
     Inl e \<Rightarrow> Some (WireBadBody e)
   | Inr decodedBytes \<Rightarrow> wireFormSizeError (int decodedBytes) maximumBytes)"

text \<open>\<^verbatim>\<open>io.ReadAll(io.LimitReader(r, n))\<close>: the first \<open>n\<close> bytes; an error of the
  stream shows only if it comes before the limit.\<close>

definition read_limited :: "bytes \<times> bool \<Rightarrow> int \<Rightarrow> bytes option" where
  "read_limited r n = (let (out, ok) = r in
     if n \<le> int (length out) then Some (take (nat n) out) else if ok then Some out else None)"

definition gzipDecompress :: "inflater \<Rightarrow> bytes \<Rightarrow> int \<Rightarrow> (wire_error, string) result" where
  "gzipDecompress inflate b maximumBytes = (case inflate b of
     None \<Rightarrow> Inl WireGzipReader
   | Some r \<Rightarrow> (case read_limited r (maximumBytes + 1) of
       None \<Rightarrow> Inl WireGzipRead
     | Some out \<Rightarrow> (case wireFormSizeError (int (length out)) maximumBytes of
         Some e \<Rightarrow> Inl e
       | None \<Rightarrow> Inr (string_of_bytes out))))"

definition decoded_or_nil :: "string \<Rightarrow> bytes" where
  "decoded_or_nil body = (case Decode body of Inl _ \<Rightarrow> [] | Inr raw \<Rightarrow> raw)"

definition DecodeWireFormWithLimit ::
  "inflater \<Rightarrow> string \<Rightarrow> int \<Rightarrow> (wire_error, string) result" where
  "DecodeWireFormWithLimit inflate form maximumBytes =
     (if length form < 2 \<or> form ! 1 \<noteq> wireFormSep
      then (case wireFormSizeError (int (length form)) maximumBytes of
              Some e \<Rightarrow> Inl e | None \<Rightarrow> Inr form)
      else
        (let body = drop 2 form; tag = form ! 0
         in if tag = wireFormPlain
            then (case wireFormSizeError (int (length body)) maximumBytes of
                    Some e \<Rightarrow> Inl e | None \<Rightarrow> Inr body)
            else if tag = wireFormBase64
            then (case encodedWireFormSizeError body maximumBytes of
                    Some e \<Rightarrow> Inl e | None \<Rightarrow> Inr (string_of_bytes (decoded_or_nil body)))
            else if tag = wireFormGzip
            then (case encodedWireFormSizeError body maximumBytes of
                    Some e \<Rightarrow> Inl e
                  | None \<Rightarrow> gzipDecompress inflate (decoded_or_nil body) maximumBytes)
            else Inl (WireBadTag tag)))"

definition DecodeWireForm :: "inflater \<Rightarrow> string \<Rightarrow> (wire_error, string) result" where
  "DecodeWireForm inflate form =
     DecodeWireFormWithLimit inflate form maximumInflatedWireFormBytes"

text \<open>What the code relies on of \<^verbatim>\<open>compress/gzip\<close>: a compressed text inflates to itself.\<close>

definition gzip_inverse :: "(bytes \<Rightarrow> bytes) \<Rightarrow> inflater \<Rightarrow> bool" where
  "gzip_inverse deflate inflate \<longleftrightarrow> (\<forall>b. inflate (deflate b) = Some (b, True))"

section \<open>The size computed before decoding\<close>

lemma count_symbols_Inr:
  "count_symbols n s = Inr m \<longleftrightarrow>
     list_all base64_char s \<and> m = n + length (filter (\<lambda>c. c \<noteq> CHR 0x0A) s)"
  by (induction s arbitrary: n) (auto simp: base64_char_def decodeTable_neg newline_not_Alphabet)

lemma symbols_bytes: "(n::nat) div 4 * 3 + n mod 4 * 6 div 8 = 6 * n div 8"
proof -
  define q r where "q = n div 4" and "r = n mod 4"
  then have n: "n = 4 * q + r" and r: "r < 4" by simp_all
  have "6 * n div 8 = (8 * (3 * q) + 6 * r) div 8" by (simp add: n)
  also have "\<dots> = 3 * q + 6 * r div 8" by (rule div_mult_self4) simp
  finally show ?thesis by (simp only: q_def [symmetric] r_def [symmetric] mult.commute)
qed

text \<open>The size that is checked before decoding is exactly the size of what the decoder
  returns, and it is an error exactly where the decoder fails.\<close>

lemma decodedWireFormBodyBytes_Decode:
  "decodedWireFormBodyBytes body = Inr n \<longleftrightarrow> (\<exists>bs. Decode body = Inr bs \<and> n = length bs)"
proof -
  have "decodedWireFormBodyBytes body = Inr n \<longleftrightarrow>
      list_all base64_char body \<and> n = 6 * length (filter (\<lambda>c. c \<noteq> CHR 0x0A) body) div 8"
    unfolding decodedWireFormBodyBytes_def symbols_bytes
    by (auto simp: map_sum_eq_Inr count_symbols_Inr)
  then show ?thesis using Decode_ok [of body] length_Decode [of body] by auto
qed

lemma decodedWireFormBodyBytes_Encode: "decodedWireFormBodyBytes (Encode b) = Inr (length b)"
  by (simp add: decodedWireFormBodyBytes_Decode)

lemma encodedWireFormSizeError_None:
  "encodedWireFormSizeError body m = None \<longleftrightarrow>
     (\<exists>bs. Decode body = Inr bs \<and> int (length bs) \<le> m)"
  by (auto simp: encodedWireFormSizeError_def wireFormSizeError_def decodedWireFormBodyBytes_Decode
      split: sum.splits if_splits) (metis decodedWireFormBodyBytes_Decode obj_sumE sum.distinct(1))+

section \<open>Bounds and round trip\<close>

lemma gzipDecompress_bound:
  "gzipDecompress inflate b m = Inr s \<Longrightarrow> int (length s) \<le> m"
  by (auto simp: gzipDecompress_def wireFormSizeError_def split: option.splits if_splits)

lemma DecodeWireFormWithLimit_bound:
  assumes "DecodeWireFormWithLimit inflate form m = Inr s"
  shows "int (length s) \<le> m"
proof -
  have b: "encodedWireFormSizeError body m = None \<Longrightarrow> int (length (decoded_or_nil body)) \<le> m" for body
    by (auto simp: encodedWireFormSizeError_None decoded_or_nil_def)
  show ?thesis using assms b
    by (auto simp: DecodeWireFormWithLimit_def wireFormSizeError_def Let_def
        dest!: gzipDecompress_bound split: option.splits if_splits)
qed

lemma DecodeWireForm_tagged_plain:
  "int (length p) \<le> m \<Longrightarrow> DecodeWireFormWithLimit inflate (tagged wireFormPlain p) m = Inr p"
  by (simp add: DecodeWireFormWithLimit_def tagged_def wireFormSizeError_def)

lemma DecodeWireForm_tagged_base64:
  "int (length p) \<le> m \<Longrightarrow>
     DecodeWireFormWithLimit inflate (tagged wireFormBase64 (Encode (bytes_of_string p))) m = Inr p"
proof -
  assume "int (length p) \<le> m"
  then have "encodedWireFormSizeError (Encode (bytes_of_string p)) m = None"
    by (simp add: encodedWireFormSizeError_None)
  then show ?thesis
    by (simp add: DecodeWireFormWithLimit_def tagged_def wireFormBase64_def wireFormPlain_def
        decoded_or_nil_def)
qed

lemma DecodeWireForm_tagged_gzip:
  assumes "gzip_inverse deflate inflate" and "int (length p) \<le> m"
    and "int (length (deflate (bytes_of_string p))) \<le> m"
  shows "DecodeWireFormWithLimit inflate
    (tagged wireFormGzip (Encode (deflate (bytes_of_string p)))) m = Inr p"
proof -
  have "encodedWireFormSizeError (Encode (deflate (bytes_of_string p))) m = None"
    using assms(3) by (simp add: encodedWireFormSizeError_None)
  moreover have "inflate (deflate (bytes_of_string p)) = Some (bytes_of_string p, True)"
    using assms(1) by (simp add: gzip_inverse_def)
  ultimately show ?thesis using assms(2)
    by (simp add: DecodeWireFormWithLimit_def tagged_def wireFormBase64_def wireFormPlain_def
        wireFormGzip_def decoded_or_nil_def gzipDecompress_def read_limited_def wireFormSizeError_def)
qed

lemma DecodeWireForm_compact:
  assumes "gzip_inverse deflate inflate" and "int (length p) \<le> m"
  shows "DecodeWireFormWithLimit inflate (EncodeCompactWireForm deflate p) m = Inr p"
proof (cases "length (tagged wireFormGzip (Encode (deflate (bytes_of_string p))))
    < length (tagged wireFormPlain p)")
  case True
  then have "int (length (deflate (bytes_of_string p))) \<le> m"
    using assms(2) by (simp add: tagged_def length_Encode)
  with True assms show ?thesis
    by (simp add: EncodeCompactWireForm_def Let_def DecodeWireForm_tagged_gzip)
next
  case False
  with assms(2) show ?thesis
    by (simp add: EncodeCompactWireForm_def Let_def DecodeWireForm_tagged_plain)
qed

lemma length_EncodeCompactWireForm:
  "length (EncodeCompactWireForm deflate p) \<le> length p + 2"
  by (simp add: EncodeCompactWireForm_def tagged_def Let_def)

interpretation base64_wire: codec EncodeBase64WireForm "DecodeWireForm inflate"
  "\<lambda>p. int (length p) \<le> maximumInflatedWireFormBytes" for inflate
  by unfold_locales
     (simp add: DecodeWireForm_def EncodeBase64WireForm_def DecodeWireForm_tagged_base64)

section \<open>Properties\<close>

text \<open>Whatever a compressor does, as long as the decompressor undoes it, a compact form of a
  payload within the size limit is read back as the payload, and it is at most two bytes longer
  than the payload.\<close>

theorem wire_form_roundtrip:
  assumes "gzip_inverse deflate inflate" and "int (length payload) \<le> limit"
  shows "DecodeWireFormWithLimit inflate (EncodeCompactWireForm deflate payload) limit = Inr payload
    \<and> length (EncodeCompactWireForm deflate payload) \<le> length payload + 2"
  using DecodeWireForm_compact [OF assms] length_EncodeCompactWireForm by (intro conjI)

lemma wire_form_roundtrip_witness:
  "DecodeWireFormWithLimit (\<lambda>b. Some (rev b, True)) (EncodeCompactWireForm rev ''a=1,b=2'') 100 =
     Inr ''a=1,b=2'' \<and> length (EncodeCompactWireForm rev ''a=1,b=2'') \<le> length ''a=1,b=2'' + 2"
  by (rule wire_form_roundtrip) (simp_all add: gzip_inverse_def)

text \<open>A decoded wire form is never longer than the limit, even if the decompressor yields more
  than it was given or fails half way: an oversized form is an error. The size of a Base64
  body that is checked before it is decoded is exactly the size it decodes to.\<close>

theorem wire_form_bound:
  "(case DecodeWireFormWithLimit inflate form limit of
      Inl _ \<Rightarrow> True | Inr payload \<Rightarrow> int (length payload) \<le> limit) \<and>
   (case Decode body of
      Inl _ \<Rightarrow> \<exists>e. decodedWireFormBodyBytes body = Inl e
    | Inr raw \<Rightarrow> decodedWireFormBodyBytes body = Inr (length raw))"
proof -
  have "case Decode body of Inl _ \<Rightarrow> \<exists>e. decodedWireFormBodyBytes body = Inl e
    | Inr raw \<Rightarrow> decodedWireFormBodyBytes body = Inr (length raw)"
  proof (cases "decodedWireFormBodyBytes body")
    case (Inl e)
    then have "\<And>bs. Decode body \<noteq> Inr bs" using decodedWireFormBodyBytes_Decode [of body] by auto
    with Inl show ?thesis by (simp split: sum.splits)
  next
    case (Inr n)
    then obtain bs where "Decode body = Inr bs" "n = length bs"
      using decodedWireFormBodyBytes_Decode by blast
    with Inr show ?thesis by simp
  qed
  then show ?thesis using DecodeWireFormWithLimit_bound [of inflate form limit]
    by (auto split: sum.splits)
qed

end
