(* ===== verification/KeyValue.thy ===== *)
theory KeyValue
  imports GoLib
begin

text \<open>
  \<^verbatim>\<open>yagomodel/keyvalue.go\<close> and \<^verbatim>\<open>yagomodel/property_form.go\<close>: the line-based
  key-value message of the YaCy protocol and the comma-separated property form that
  postings, metadata rows and seeds share. A parsed map is an association list with
  distinct keys.
\<close>

section \<open>Messages\<close>

type_synonym Message = "(string, string) gomap"

text \<open>\<^verbatim>\<open>unescapedEquals\<close>: the first \<open>=\<close> from position 1 on whose predecessor is not a
  backslash; None is the result -1. The line is not empty where it is called.\<close>

function unescapedEquals_from :: "string \<Rightarrow> nat \<Rightarrow> nat option" where
  "unescapedEquals_from line pos =
     (case index_byte (drop (Suc pos) line) CHR ''='' of
        None \<Rightarrow> None
      | Some next \<Rightarrow>
          (let pos' = pos + next + 1
           in if line ! (pos' - 1) \<noteq> CHR 0x5C then Some pos' else unescapedEquals_from line pos'))"
  by pat_completeness auto
termination
proof (relation "measure (\<lambda>(line, pos). length line - pos)")
  fix line :: string and pos n pos' :: nat
  assume "index_byte (drop (Suc pos) line) CHR ''='' = Some n" and "pos' = pos + n + 1"
  then have "n < length line - Suc pos" using index_byte_Some by fastforce
  with \<open>pos' = pos + n + 1\<close>
  show "((line, pos'), line, pos) \<in> measure (\<lambda>(line, pos). length line - pos)" by simp
qed simp

declare unescapedEquals_from.simps [simp del]

definition unescapedEquals :: "string \<Rightarrow> nat option" where
  "unescapedEquals line = unescapedEquals_from line 0"

text \<open>\<^verbatim>\<open>strings.NewReplacer\<close> with the three escapes, tried in order at every position.\<close>

fun unescapeMessagePart :: "string \<Rightarrow> string" where
  "unescapeMessagePart [] = []"
| "unescapeMessagePart [c] = [c]"
| "unescapeMessagePart (c # d # s) =
     (if c = CHR 0x5C \<and> d = CHR 0x5C then CHR 0x5C # unescapeMessagePart s
      else if c = CHR 0x5C \<and> d = CHR ''n'' then CHR 0x0A # unescapeMessagePart s
      else if c = CHR 0x5C \<and> d = CHR ''='' then CHR ''='' # unescapeMessagePart s
      else c # unescapeMessagePart (d # s))"

fun ParseMessage_lines :: "Message \<Rightarrow> string list \<Rightarrow> Message" where
  "ParseMessage_lines msg [] = msg"
| "ParseMessage_lines msg (l # ls) =
     (let line = trim_space l
      in if line = [] \<or> hd line = CHR ''#'' then ParseMessage_lines msg ls
         else (case unescapedEquals line of
                 None \<Rightarrow> ParseMessage_lines msg ls
               | Some pos \<Rightarrow>
                   (let key = unescapeMessagePart (trim_space (take pos line));
                        value = unescapeMessagePart (trim_space (drop (Suc pos) line))
                    in ParseMessage_lines (AList.update key value msg) ls)))"

definition ParseMessage :: "string \<Rightarrow> Message" where
  "ParseMessage data = ParseMessage_lines [] (split_byte CHR 0x0A data)"

definition Message_Encode :: "Message \<Rightarrow> string" where
  "Message_Encode m =
     concat (map (\<lambda>k. k @ CHR ''='' # get_or [] m k @ [CHR 0x0A]) (sort (map_keys m)))"

section \<open>Property forms\<close>

datatype property_error = BadPropertyForm string

fun parsePropertyTokens ::
  "(string, string) gomap \<Rightarrow> string list \<Rightarrow> (property_error, (string, string) gomap) result" where
  "parsePropertyTokens props [] = Inr props"
| "parsePropertyTokens props (t # ts) =
     (let token = trim_space t
      in if token = [] then parsePropertyTokens props ts
         else (case index_byte token CHR ''='' of
                 None \<Rightarrow> Inl (BadPropertyForm token)
               | Some pos \<Rightarrow>
                   if pos = 0 then Inl (BadPropertyForm token)
                   else parsePropertyTokens
                          (AList.update (trim_space (take pos token))
                             (trim_space (drop (Suc pos) token)) props) ts))"

definition parsePropertyPairs :: "string \<Rightarrow> (property_error, (string, string) gomap) result" where
  "parsePropertyPairs body = parsePropertyTokens [] (split_byte CHR '','' body)"

text \<open>The writer that \<^verbatim>\<open>RWIPosting.String\<close> and \<^verbatim>\<open>URIMetadataRow.String\<close> share: the
  sorted keys with their values, separated by commas.\<close>

definition property_form :: "(string, string) gomap \<Rightarrow> string" where
  "property_form m =
     join_with '','' (map (\<lambda>k. k @ CHR ''='' # get_or [] m k) (sort (map_keys m)))"

section \<open>Lemmas\<close>

subsection \<open>A key and a value joined by an equals sign\<close>

lemma white_space_no_equals: "w \<in> set white_space \<Longrightarrow> CHR ''='' \<notin> set w"
  by (auto simp: white_space_def)

lemma prefix_before:
  "has_prefix (k @ c # v) w \<Longrightarrow> c \<notin> set w \<Longrightarrow> has_prefix k w"
  unfolding has_prefix_iff by (auto simp: append_eq_append_conv2 Cons_eq_append_conv)

lemma suffix_after:
  "has_suffix (k @ c # v) w \<Longrightarrow> c \<notin> set w \<Longrightarrow> has_suffix v w"
  unfolding has_suffix_iff by (auto simp: append_eq_append_conv2 Cons_eq_append_conv)

lemma trimmed_pair:
  assumes "trimmed k" and "trimmed v"
  shows "trimmed (k @ CHR ''='' # v)"
  using assms white_space_no_equals unfolding trimmed_iff by (blast dest: prefix_before suffix_after)

text \<open>The keys and values that a form can carry.\<close>

definition plain_key :: "string \<Rightarrow> bool" where
  "plain_key k \<longleftrightarrow> k \<noteq> [] \<and> trimmed k \<and> CHR '','' \<notin> set k \<and> CHR ''='' \<notin> set k"

definition plain_value :: "string \<Rightarrow> bool" where
  "plain_value v \<longleftrightarrow> trimmed v \<and> CHR '','' \<notin> set v"

definition plain_map :: "(string, string) gomap \<Rightarrow> bool" where
  "plain_map m \<longleftrightarrow> wf_map m \<and> list_all (\<lambda>(k, v). plain_key k \<and> plain_value v) m"

definition update_all :: "'k list \<Rightarrow> ('k \<Rightarrow> 'v) \<Rightarrow> ('k, 'v) gomap \<Rightarrow> ('k, 'v) gomap" where
  "update_all ks f m = fold (\<lambda>k. AList.update k (f k)) ks m"

lemma map_of_update_all:
  "map_of (update_all ks f m) = (\<lambda>k. if k \<in> set ks then Some (f k) else map_of m k)"
  unfolding update_all_def by (induction ks arbitrary: m) (auto simp: fun_eq_iff)

lemma wf_map_update_all: "wf_map m \<Longrightarrow> wf_map (update_all ks f m)"
  unfolding update_all_def by (induction ks arbitrary: m) auto

lemma map_of_update_all_keys:
  "map_of (update_all (sort (map_keys m)) (get_or z m) []) = map_of m"
proof
  fix k show "map_of (update_all (sort (map_keys m)) (get_or z m) []) k = map_of m k"
  proof (cases "map_of m k")
    case None
    then have "k \<notin> set (map fst m)" by (simp add: map_of_eq_None_iff)
    with None show ?thesis by (simp add: map_of_update_all map_keys_def)
  next
    case (Some v)
    then have "k \<in> set (map fst m)" using map_of_eq_None_iff [of m k] by auto
    with Some show ?thesis by (simp add: map_of_update_all map_keys_def get_or_def)
  qed
qed

lemma parsePropertyTokens_pairs:
  "\<forall>k\<in>set ks. plain_key k \<and> plain_value (f k) \<Longrightarrow>
     parsePropertyTokens props (map (\<lambda>k. k @ CHR ''='' # f k) ks) = Inr (update_all ks f props)"
proof (induction ks arbitrary: props)
  case Nil
  then show ?case by (simp add: update_all_def)
next
  case (Cons k ks)
  then have k: "k \<noteq> []" "trimmed k" "CHR ''='' \<notin> set k" "trimmed (f k)"
    by (simp_all add: plain_key_def plain_value_def)
  then have "trimmed (k @ CHR ''='' # f k)" by (simp add: trimmed_pair)
  with k Cons show ?case by (simp add: update_all_def Let_def)
qed

lemma plain_map_get:
  "plain_map m \<Longrightarrow> k \<in> set (map_keys m) \<Longrightarrow> plain_key k \<and> plain_value (get_or [] m k)"
  by (auto simp: plain_map_def map_keys_def list_all_iff get_or_def wf_map_def split: option.splits)

text \<open>Reading back what was written gives the same map; the empty map is the empty body.\<close>

lemma parse_property_form:
  assumes "plain_map m"
  shows "\<exists>m'. parsePropertyPairs (property_form m) = Inr m' \<and> map_of m' = map_of m \<and> wf_map m'"
proof (cases "m = []")
  case True
  have "trimmed []" by (simp add: trimmed_graphic)
  with True show ?thesis by (simp add: property_form_def map_keys_def parsePropertyPairs_def)
next
  case False
  let ?ks = "sort (map_keys m)"
  have ks: "\<forall>k\<in>set ?ks. plain_key k \<and> plain_value (get_or [] m k)"
    using assms by (simp add: plain_map_get)
  have "?ks \<noteq> []" using False by (simp add: map_keys_def) (metis length_sort list.size(3) length_map length_0_conv)
  then have "split_byte CHR '','' (property_form m) = map (\<lambda>k. k @ CHR ''='' # get_or [] m k) ?ks"
    unfolding property_form_def using ks
    by (intro split_byte_join) (auto simp: plain_key_def plain_value_def)
  then have "parsePropertyPairs (property_form m) = Inr (update_all ?ks (get_or [] m) [])"
    using parsePropertyTokens_pairs [OF ks] by (simp add: parsePropertyPairs_def)
  then show ?thesis by (simp add: map_of_update_all_keys wf_map_update_all)
qed

text \<open>What the parser returns is well formed, with keys and values a form can carry again.\<close>

lemma trim_space_subset: "set (trim_space s) \<subseteq> set s"
proof -
  have l: "set (trim_left n t) \<subseteq> set t" for n t
    by (induction n arbitrary: t) (auto split: option.splits dest: in_set_dropD)
  have r: "set (trim_right n t) \<subseteq> set t" for n t
    by (induction n arbitrary: t) (auto split: option.splits dest: in_set_takeD)
  show ?thesis using l r by (simp add: trim_space_def Let_def) blast
qed

lemma parsePropertyTokens_wf:
  "parsePropertyTokens props ts = Inr m \<Longrightarrow> wf_map props \<Longrightarrow> wf_map m"
  by (induction props ts rule: parsePropertyTokens.induct)
     (auto simp: Let_def split: if_splits option.splits)

lemma parsePropertyPairs_wf: "parsePropertyPairs body = Inr m \<Longrightarrow> wf_map m"
  by (auto simp: parsePropertyPairs_def dest: parsePropertyTokens_wf)

text \<open>The parser fails exactly when some token that is not blank has no key.\<close>

definition bad_token :: "string \<Rightarrow> bool" where
  "bad_token t \<longleftrightarrow> (let token = trim_space t
     in token \<noteq> [] \<and> (CHR ''='' \<notin> set token \<or> hd token = CHR ''=''))"

lemma index_byte_zero: "index_byte s c = Some 0 \<longleftrightarrow> s \<noteq> [] \<and> hd s = c"
  by (cases s) auto

lemma parsePropertyTokens_error:
  "(\<exists>e. parsePropertyTokens props ts = Inl e) \<longleftrightarrow> (\<exists>t\<in>set ts. bad_token t)"
proof (induction props ts rule: parsePropertyTokens.induct)
  case (2 props t ts)
  show ?case
  proof (cases "trim_space t = []")
    case True
    with "2.IH"(1) [OF refl True] show ?thesis by (simp add: bad_token_def)
  next
    case nonempty: False
    show ?thesis
    proof (cases "index_byte (trim_space t) CHR ''=''")
      case None
      with nonempty show ?thesis by (simp add: bad_token_def Let_def)
    next
      case (Some pos)
      have eq: "CHR ''='' \<in> set (trim_space t)" using Some by (metis index_byte_None option.distinct(1))
      show ?thesis
      proof (cases "pos = 0")
        case True
        with Some have "hd (trim_space t) = CHR ''=''" by (simp add: index_byte_zero)
        with Some True nonempty show ?thesis by (simp add: bad_token_def Let_def)
      next
        case False
        with Some have "\<not> bad_token t"
          using nonempty eq index_byte_zero [of "trim_space t" "CHR ''=''"]
          by (auto simp: bad_token_def Let_def)
        with 2 nonempty Some False show ?thesis by (simp add: Let_def)
      qed
    qed
  qed
qed simp

subsection \<open>Messages\<close>

lemma unescapeMessagePart_id: "CHR 0x5C \<notin> set s \<Longrightarrow> unescapeMessagePart s = s"
  by (induction s rule: unescapeMessagePart.induct) auto

lemma unescapedEquals_plain:
  assumes "k \<noteq> []" "CHR ''='' \<notin> set k" "CHR 0x5C \<notin> set k"
  shows "unescapedEquals (k @ CHR ''='' # v) = Some (length k)"
proof -
  obtain c r where k: "k = c # r" using assms(1) by (cases k) auto
  have "drop (Suc 0) (k @ CHR ''='' # v) = r @ CHR ''='' # v" by (simp add: k)
  moreover have "CHR ''='' \<notin> set r" using assms(2) k by simp
  moreover have "(k @ CHR ''='' # v) ! length r \<noteq> CHR 0x5C"
    using assms(3) k by (metis nth_append length_Cons lessI nth_mem)
  ultimately show ?thesis
    by (simp add: unescapedEquals_def unescapedEquals_from.simps k)
qed

definition message_key :: "string \<Rightarrow> bool" where
  "message_key k \<longleftrightarrow> k \<noteq> [] \<and> trimmed k \<and> hd k \<noteq> CHR ''#'' \<and>
     CHR ''='' \<notin> set k \<and> CHR 0x5C \<notin> set k \<and> CHR 0x0A \<notin> set k"

definition message_value :: "string \<Rightarrow> bool" where
  "message_value v \<longleftrightarrow> trimmed v \<and> CHR 0x5C \<notin> set v \<and> CHR 0x0A \<notin> set v"

definition plain_message :: "Message \<Rightarrow> bool" where
  "plain_message m \<longleftrightarrow> wf_map m \<and> list_all (\<lambda>(k, v). message_key k \<and> message_value v) m"

lemma ParseMessage_lines_pairs:
  "\<forall>k\<in>set ks. message_key k \<and> message_value (f k) \<Longrightarrow>
     ParseMessage_lines msg (map (\<lambda>k. k @ CHR ''='' # f k) ks @ [[]]) = update_all ks f msg"
proof (induction ks arbitrary: msg)
  case Nil
  have "trimmed []" by (simp add: trimmed_graphic)
  then show ?case by (simp add: update_all_def)
next
  case (Cons k ks)
  then have k: "k \<noteq> []" "trimmed k" "hd k \<noteq> CHR ''#''" "CHR ''='' \<notin> set k" "CHR 0x5C \<notin> set k"
    "trimmed (f k)" "CHR 0x5C \<notin> set (f k)"
    by (simp_all add: message_key_def message_value_def)
  then have "trim_space (k @ CHR ''='' # f k) = k @ CHR ''='' # f k" by (simp add: trimmed_pair)
  with k Cons show ?case
    by (simp add: update_all_def Let_def unescapedEquals_plain unescapeMessagePart_id)
qed

lemma split_lines:
  "\<forall>l\<in>set ls. c \<notin> set l \<Longrightarrow> split_byte c (concat (map (\<lambda>l. l @ [c]) ls)) = ls @ [[]]"
  by (induction ls) (simp_all add: split_byte_append)

lemma ParseMessage_Encode:
  assumes "plain_message m"
  shows "map_of (ParseMessage (Message_Encode m)) = map_of m"
proof -
  let ?ks = "sort (map_keys m)" and ?l = "\<lambda>k. k @ CHR ''='' # get_or [] m k"
  have ks: "\<forall>k\<in>set ?ks. message_key k \<and> message_value (get_or [] m k)"
    using assms by (auto simp: plain_message_def map_keys_def list_all_iff get_or_def wf_map_def
        split: option.splits)
  have "Message_Encode m = concat (map (\<lambda>l. l @ [CHR 0x0A]) (map ?l ?ks))"
    by (simp add: Message_Encode_def comp_def)
  moreover have "\<forall>l\<in>set (map ?l ?ks). CHR 0x0A \<notin> set l"
    using ks by (auto simp: message_key_def message_value_def)
  ultimately have "split_byte CHR 0x0A (Message_Encode m) = map ?l ?ks @ [[]]"
    by (simp only: split_lines)
  then show ?thesis
    by (simp add: ParseMessage_def ParseMessage_lines_pairs [OF ks] map_of_update_all_keys)
qed

lemma ParseMessage_wf: "wf_map (ParseMessage data)"
proof -
  have "wf_map msg \<Longrightarrow> wf_map (ParseMessage_lines msg ls)" for msg ls
    by (induction msg ls rule: ParseMessage_lines.induct)
       (auto simp: Let_def split: if_splits option.splits)
  then show ?thesis by (simp add: ParseMessage_def)
qed

section \<open>Properties\<close>

text \<open>A map of plain keys and values survives its property form: writing it in the order of
  its keys and reading the text gives the same map, with each key once. Reading fails exactly
  on a token without a key.\<close>

theorem property_form_roundtrip:
  assumes "plain_map m"
  shows "(\<exists>m'. parsePropertyPairs (property_form m) = Inr m' \<and> map_of m' = map_of m \<and> wf_map m') \<and>
    ((\<exists>e. parsePropertyPairs body = Inl e) \<longleftrightarrow> (\<exists>t\<in>set (split_byte CHR '','' body). bad_token t))"
  using parse_property_form [OF assms] parsePropertyTokens_error
  by (simp add: parsePropertyPairs_def)

lemma property_form_roundtrip_witness:
  "(\<exists>m'. parsePropertyPairs (property_form [(''a'', ''1''), (''b'', ''x=y'')]) = Inr m' \<and>
     map_of m' = map_of [(''a'', ''1''), (''b'', ''x=y'')] \<and> wf_map m') \<and>
   ((\<exists>e. parsePropertyPairs ''=3'' = Inl e) \<longleftrightarrow>
     (\<exists>t\<in>set (split_byte CHR '','' ''=3''). bad_token t))"
  by (rule property_form_roundtrip)
     (simp add: plain_map_def plain_key_def plain_value_def trimmed_graphic graphic_def wf_map_def
       map_keys_def)

text \<open>A message whose keys and values need no escape is read back as the same map from the
  text that the encoder writes.\<close>

theorem message_roundtrip:
  assumes "plain_message m"
  shows "map_of (ParseMessage (Message_Encode m)) = map_of m \<and> wf_map (ParseMessage (Message_Encode m))"
  using assms by (simp add: ParseMessage_Encode ParseMessage_wf)

lemma message_roundtrip_witness:
  "map_of (ParseMessage (Message_Encode [(''version'', ''1.9''), (''mytype'', ''senior'')])) =
     map_of [(''version'', ''1.9''), (''mytype'', ''senior'')] \<and>
   wf_map (ParseMessage (Message_Encode [(''version'', ''1.9''), (''mytype'', ''senior'')]))"
  by (rule message_roundtrip)
     (simp add: plain_message_def message_key_def message_value_def trimmed_graphic graphic_def
       wf_map_def map_keys_def)

end
