(* ===== verification/RwiPosting.thy ===== *)
theory RwiPosting
  imports Hashes KeyValue
begin

text \<open>
  \<^verbatim>\<open>yagomodel/rwi_posting.go\<close>, \<^verbatim>\<open>rwi_property_wire_form.go\<close>,
  \<^verbatim>\<open>rwi_property_schema.go\<close>, \<^verbatim>\<open>rwi_property_value.go\<close>, \<^verbatim>\<open>rwi_posting_appearance.go\<close>
  and \<^verbatim>\<open>rwi_cardinal_wire_value.go\<close>: one posting of the reverse word index as a line
  of text, with the normalisation of its columns to the widths of YaCy's row
  definition. Decimal values keep Java's lenient reading (a prefix of digits, overflow
  to zero) and wrap to the width of the column.
\<close>

unbundle bit_operations_syntax

section \<open>Definitions\<close>

definition ColURLHash :: string where "ColURLHash = ''h''"
definition ColLastModified :: string where "ColLastModified = ''a''"
definition ColFreshUntil :: string where "ColFreshUntil = ''s''"
definition ColTitleWordCount :: string where "ColTitleWordCount = ''u''"
definition ColTextWordCount :: string where "ColTextWordCount = ''w''"
definition ColPhraseCount :: string where "ColPhraseCount = ''p''"
definition ColDocType :: string where "ColDocType = ''d''"
definition ColLanguage :: string where "ColLanguage = ''l''"
definition ColLocalLinkCount :: string where "ColLocalLinkCount = ''x''"
definition ColExternalLinkCount :: string where "ColExternalLinkCount = ''y''"
definition ColURLLength :: string where "ColURLLength = ''m''"
definition ColURLComponentCount :: string where "ColURLComponentCount = ''n''"
definition ColWordType :: string where "ColWordType = ''g''"
definition ColFlags :: string where "ColFlags = ''z''"
definition ColHitCount :: string where "ColHitCount = ''c''"
definition ColTextPosition :: string where "ColTextPosition = ''t''"
definition ColPhraseRelativePos :: string where "ColPhraseRelativePos = ''r''"
definition ColPhrasePosition :: string where "ColPhrasePosition = ''o''"
definition ColWordDistance :: string where "ColWordDistance = ''i''"
definition ColReserve :: string where "ColReserve = ''k''"

lemmas column_defs = ColURLHash_def ColLastModified_def ColFreshUntil_def ColTitleWordCount_def
  ColTextWordCount_def ColPhraseCount_def ColDocType_def ColLanguage_def ColLocalLinkCount_def
  ColExternalLinkCount_def ColURLLength_def ColURLComponentCount_def ColWordType_def ColFlags_def
  ColHitCount_def ColTextPosition_def ColPhraseRelativePos_def ColPhrasePosition_def
  ColWordDistance_def ColReserve_def

definition rwiByteFlagLength :: nat where "rwiByteFlagLength = 4"
definition langLength :: nat where "langLength = 2"

definition rwiCardinalWidths :: "(string, nat) gomap" where
  "rwiCardinalWidths =
     [(ColLastModified, 2), (ColFreshUntil, 2), (ColTitleWordCount, 1), (ColTextWordCount, 2),
      (ColPhraseCount, 2), (ColLocalLinkCount, 1), (ColExternalLinkCount, 1), (ColURLLength, 1),
      (ColURLComponentCount, 1), (ColHitCount, 1), (ColTextPosition, 2),
      (ColPhraseRelativePos, 1), (ColPhrasePosition, 1), (ColWordDistance, 1), (ColReserve, 1)]"

record RWIPosting =
  RWI_WordHash :: Hash
  RWI_Properties :: "(string, string) gomap"

record RWIPostingID =
  IDWordHash :: Hash
  IDURLHash :: Hash

datatype rwi_error = BadRWIForm | BadRWIWordHash hash_error | BadRWIPairs property_error
  | InvalidRWIProperty string

subsection \<open>Normalisation of the columns\<close>

record rwiDecimalPrefix =
  magnitude :: u64
  negative :: bool

definition no_prefix :: rwiDecimalPrefix where
  "no_prefix = \<lparr>magnitude = 0, negative = False\<rparr>"

text \<open>After the sign, the longest run of digits; an empty run and a value beyond 64 bits
  read as zero.\<close>

definition parseRWIDecimalPrefix :: "string \<Rightarrow> rwiDecimalPrefix" where
  "parseRWIDecimalPrefix value =
     (let trimmed = dropWhile (\<lambda>c. c = CHR '' '') value
      in if trimmed = [] then no_prefix
         else
           (let signed = (hd trimmed = CHR ''-'' \<or> hd trimmed = CHR ''+'');
                neg = (hd trimmed = CHR ''-'');
                body = (if signed then tl trimmed else trimmed)
            in case parse_uint 64 (takeWhile is_digit body) of
                 None \<Rightarrow> no_prefix
               | Some m \<Rightarrow> \<lparr>magnitude = word_of_nat m, negative = neg\<rparr>))"

definition prefix_unsigned :: "rwiDecimalPrefix \<Rightarrow> u64" where
  "prefix_unsigned n = (if \<not> negative n then magnitude n else NOT (magnitude n) + 1)"

definition fixedWidthUnsigned :: "rwiDecimalPrefix \<Rightarrow> nat \<Rightarrow> u64" where
  "fixedWidthUnsigned n width =
     (let u = prefix_unsigned n
      in if width \<ge> 8 then u else u AND (push_bit (width * 8) 1 - 1))"

definition lowByte_of :: "u64 \<Rightarrow> byte" where
  "lowByte_of n = ucast (n mod 256)"

definition FormatRWICardinal :: "u64 \<Rightarrow> string" where
  "FormatRWICardinal value = format_uint (unat value)"

definition normalizeRWIProperty :: "string \<Rightarrow> string \<Rightarrow> (rwi_error, string) result" where
  "normalizeRWIProperty key value =
     (case map_of rwiCardinalWidths key of
        Some width \<Rightarrow>
          Inr (FormatRWICardinal (fixedWidthUnsigned (parseRWIDecimalPrefix value) width))
      | None \<Rightarrow>
          if key = ColDocType \<or> key = ColWordType
          then Inr (format_uint (unat (lowByte_of (prefix_unsigned (parseRWIDecimalPrefix value)))))
          else if key = ColLanguage then Inr (take langLength value)
          else if key = ColFlags
          then (case Decode value of
                  Inl _ \<Rightarrow> Inl (InvalidRWIProperty key)
                | Inr raw \<Rightarrow> Inr (Encode (take rwiByteFlagLength raw)))
          else Inr value)"

fun normalizeRWIProperties ::
  "(string, string) gomap \<Rightarrow> (rwi_error, (string, string) gomap) result" where
  "normalizeRWIProperties [] = Inr []"
| "normalizeRWIProperties ((key, value) # props) =
     (case normalizeRWIProperty key value of
        Inl e \<Rightarrow> Inl e
      | Inr normalized \<Rightarrow> map_sum id ((#) (key, normalized)) (normalizeRWIProperties props))"

subsection \<open>Validation of the columns\<close>

definition validateRWIProperty :: "string \<Rightarrow> string \<Rightarrow> rwi_error option" where
  "validateRWIProperty key value =
     (if key = ColURLHash
      then (case ParseHash value of Inl _ \<Rightarrow> Some (InvalidRWIProperty key) | Inr _ \<Rightarrow> None)
      else if key = ColLanguage
      then (if length value \<noteq> langLength then Some (InvalidRWIProperty key) else None)
      else if key = ColFlags
      then (case Decode value of Inl _ \<Rightarrow> Some (InvalidRWIProperty key) | Inr _ \<Rightarrow> None)
      else if key = ColDocType \<or> key = ColWordType
      then (case parse_uint 8 value of None \<Rightarrow> Some (InvalidRWIProperty key) | Some _ \<Rightarrow> None)
      else if map_of rwiCardinalWidths key \<noteq> None
      then (case parse_uint 64 value of None \<Rightarrow> Some (InvalidRWIProperty key) | Some _ \<Rightarrow> None)
      else None)"

fun validateRWIProperties :: "(string, string) gomap \<Rightarrow> rwi_error option" where
  "validateRWIProperties [] = None"
| "validateRWIProperties ((key, value) # props) = (case validateRWIProperty key value of
     Some e \<Rightarrow> Some e | None \<Rightarrow> validateRWIProperties props)"

subsection \<open>The line of a posting\<close>

definition ParseRWIPosting :: "string \<Rightarrow> (rwi_error, RWIPosting) result" where
  "ParseRWIPosting line =
     (case index_byte line CHR ''{'' of
        None \<Rightarrow> Inl BadRWIForm
      | Some open \<Rightarrow>
          if \<not> has_suffix line ''}'' then Inl BadRWIForm
          else
            (case ParseHash (take open line) of
               Inl e \<Rightarrow> Inl (BadRWIWordHash e)
             | Inr wordHash \<Rightarrow>
                 (case parsePropertyPairs (drop (open + 1) (take (length line - 1) line)) of
                    Inl e \<Rightarrow> Inl (BadRWIPairs e)
                  | Inr props \<Rightarrow>
                      (case normalizeRWIProperties props of
                         Inl e \<Rightarrow> Inl e
                       | Inr normalized \<Rightarrow>
                           (case validateRWIProperties normalized of
                              Some e \<Rightarrow> Inl e
                            | None \<Rightarrow> Inr \<lparr>RWI_WordHash = wordHash, RWI_Properties = normalized\<rparr>)))))"

definition RWIPosting_String :: "RWIPosting \<Rightarrow> string" where
  "RWIPosting_String e = RWI_WordHash e @ CHR ''{'' # property_form (RWI_Properties e) @ [CHR ''}'']"

definition RWIPosting_URLHash :: "RWIPosting \<Rightarrow> (hash_error, Hash) result" where
  "RWIPosting_URLHash e = ParseHash (get_or [] (RWI_Properties e) ColURLHash)"

definition RWIPosting_Cardinal :: "RWIPosting \<Rightarrow> string \<Rightarrow> nat option" where
  "RWIPosting_Cardinal e key = parse_uint 64 (get_or [] (RWI_Properties e) key)"

definition RWIPosting_ByteValue :: "RWIPosting \<Rightarrow> string \<Rightarrow> nat option" where
  "RWIPosting_ByteValue e key = parse_uint 8 (get_or [] (RWI_Properties e) key)"

definition RWIPosting_DocType :: "RWIPosting \<Rightarrow> nat option" where
  "RWIPosting_DocType e =
     (if map_of (RWI_Properties e) ColDocType = None then None else RWIPosting_ByteValue e ColDocType)"

definition RWIPosting_AppearanceFlags :: "RWIPosting \<Rightarrow> (bitfield_error, Bitfield) result" where
  "RWIPosting_AppearanceFlags e = (case map_of (RWI_Properties e) ColFlags of
     None \<Rightarrow> Inr [] | Some value \<Rightarrow> DecodeBitfield value)"

section \<open>Decimal columns\<close>

lemma uint_prefix_unsigned:
  "uint (prefix_unsigned n) =
     (if negative n then - uint (magnitude n) else uint (magnitude n)) mod 2 ^ 64"
proof (cases "negative n")
  case True
  then have "prefix_unsigned n = - magnitude n"
    by (simp add: prefix_unsigned_def minus_eq_not_plus_1)
  with True show ?thesis by (simp add: uint_word_ariths)
next
  case False
  have "uint (magnitude n) < 2 ^ 64" using uint_lt2p [of "magnitude n"] by simp
  with False show ?thesis by (simp add: prefix_unsigned_def)
qed

text \<open>A column of \<open>w\<close> bytes holds the number modulo \<open>2 ^ (8 * w)\<close>, negative numbers in
  two's complement.\<close>

lemma fixedWidthUnsigned_mod:
  assumes "w < 8"
  shows "unat (fixedWidthUnsigned n w) = unat (prefix_unsigned n) mod 2 ^ (8 * w)"
proof -
  have "fixedWidthUnsigned n w = take_bit (w * 8) (prefix_unsigned n)"
    using assms by (simp add: fixedWidthUnsigned_def take_bit_eq_mask mask_eq_exp_minus_1
        push_bit_eq_mult)
  then have "unat (fixedWidthUnsigned n w) = take_bit (w * 8) (unat (prefix_unsigned n))"
    by (simp only: unsigned_take_bit_eq)
  then show ?thesis by (simp add: take_bit_eq_mod mult.commute)
qed

lemma fixedWidthUnsigned_less: "w < 8 \<Longrightarrow> unat (fixedWidthUnsigned n w) < 2 ^ (8 * w)"
  by (simp add: fixedWidthUnsigned_mod)

lemma rwiCardinalWidths_le: "map_of rwiCardinalWidths key = Some w \<Longrightarrow> w = 1 \<or> w = 2"
  by (auto simp: rwiCardinalWidths_def split: if_splits)

lemma parse_prefix_digits:
  assumes "n < 2 ^ 64"
  shows "parseRWIDecimalPrefix (format_uint n) = \<lparr>magnitude = word_of_nat n, negative = False\<rparr>"
proof -
  obtain c cs where fmt: "format_uint n = c # cs" by (meson format_uint_nonempty list.exhaust)
  have digits: "list_all is_digit (format_uint n)" by (rule format_uint_digits)
  then have "is_digit c" by (simp add: fmt)
  then have c: "c \<noteq> CHR '' ''" "c \<noteq> CHR ''-''" "c \<noteq> CHR ''+''" by (simp_all add: is_digit_not)
  have "takeWhile is_digit (format_uint n) = format_uint n"
    using digits by (simp add: list_all_iff takeWhile_eq_all_iff)
  with c fmt parse_format_uint [OF assms] show ?thesis
    by (simp add: parseRWIDecimalPrefix_def)
qed

lemma normalize_number:
  assumes "n < 2 ^ (8 * w)" "w < 8"
  shows "unat (fixedWidthUnsigned (parseRWIDecimalPrefix (format_uint n)) w) = n"
proof -
  have "(2::nat) ^ (8 * w) \<le> 2 ^ 64" using assms(2) by (intro power_increasing) auto
  then have n: "n < 2 ^ 64" using assms(1) by simp
  then have "unat (prefix_unsigned (parseRWIDecimalPrefix (format_uint n))) = n"
    by (simp add: parse_prefix_digits prefix_unsigned_def unat_of_nat)
  with assms show ?thesis by (simp add: fixedWidthUnsigned_mod)
qed

section \<open>Normalisation\<close>

lemma unat_lowByte_of: "unat (lowByte_of n) = unat n mod 256"
proof -
  have "unat (lowByte_of n) = take_bit LENGTH(8) (unat (n mod 256))"
    unfolding lowByte_of_def by (rule unsigned_ucast_eq)
  also have "unat (n mod 256) = unat n mod 256" by (simp add: unat_mod_distrib)
  finally show ?thesis by (simp add: take_bit_eq_mod)
qed

lemma unat_lowByte_small: "unat n < 256 \<Longrightarrow> unat (lowByte_of n) = unat n"
  by (simp add: unat_lowByte_of)

lemma column_distinct:
  "map_of rwiCardinalWidths ColDocType = None" "map_of rwiCardinalWidths ColWordType = None"
  "map_of rwiCardinalWidths ColLanguage = None" "map_of rwiCardinalWidths ColFlags = None"
  "map_of rwiCardinalWidths ColURLHash = None"
  by (simp_all add: rwiCardinalWidths_def column_defs)

lemma column_neq [simp]:
  "ColDocType \<noteq> ColFlags" "ColWordType \<noteq> ColFlags" "ColDocType \<noteq> ColLanguage"
  "ColWordType \<noteq> ColLanguage" "ColDocType \<noteq> ColURLHash" "ColWordType \<noteq> ColURLHash"
  "ColLanguage \<noteq> ColFlags" "ColLanguage \<noteq> ColURLHash" "ColFlags \<noteq> ColURLHash"
  by (simp_all add: column_defs)

lemmas column_neq' [simp] = column_neq [symmetric]

lemma lowByte_format:
  "unat (lowByte_of (prefix_unsigned (parseRWIDecimalPrefix (format_uint (unat b))))) = unat b"
  for b :: byte
proof -
  have "unat b < 2 ^ 8" using unsigned_less [of b] by simp
  then have "unat (word_of_nat (unat b) :: u64) = unat b" by (simp only: unat_of_nat) simp
  with \<open>unat b < 2 ^ 8\<close>
  have "unat (prefix_unsigned (parseRWIDecimalPrefix (format_uint (unat b)))) = unat b"
    by (simp add: parse_prefix_digits prefix_unsigned_def)
  with \<open>unat b < 2 ^ 8\<close> show ?thesis by (simp add: unat_lowByte_small)
qed

text \<open>A normalised value normalises to itself.\<close>

lemma normalizeRWIProperty_idem:
  assumes "normalizeRWIProperty key value = Inr v"
  shows "normalizeRWIProperty key v = Inr v"
proof (cases "map_of rwiCardinalWidths key")
  case (Some w)
  then have w: "w < 8" using rwiCardinalWidths_le by fastforce
  have v: "v = format_uint (unat (fixedWidthUnsigned (parseRWIDecimalPrefix value) w))"
    using assms Some by (simp add: normalizeRWIProperty_def FormatRWICardinal_def)
  with Some w show ?thesis
    by (simp add: normalizeRWIProperty_def FormatRWICardinal_def normalize_number
        fixedWidthUnsigned_less)
next
  case None
  show ?thesis
  proof (cases "key = ColDocType \<or> key = ColWordType")
    case True
    with assms None show ?thesis by (auto simp: normalizeRWIProperty_def lowByte_format)
  next
    case False
    with assms None show ?thesis
      by (auto simp: normalizeRWIProperty_def split: if_splits sum.splits)
  qed
qed

lemma normalizeRWIProperties_Inr:
  "normalizeRWIProperties props = Inr m \<Longrightarrow>
     map fst m = map fst props \<and>
     (\<forall>(k, v)\<in>set m. \<exists>u. (k, u) \<in> set props \<and> normalizeRWIProperty k u = Inr v)"
  by (induction props arbitrary: m rule: normalizeRWIProperties.induct)
     (fastforce split: sum.splits simp: map_sum_eq_Inr)+

lemma normalizeRWIProperties_id:
  "\<forall>(k, v)\<in>set m. normalizeRWIProperty k v = Inr v \<Longrightarrow> normalizeRWIProperties m = Inr m"
  by (induction m rule: normalizeRWIProperties.induct) auto

lemma validateRWIProperties_None:
  "validateRWIProperties m = None \<longleftrightarrow> (\<forall>(k, v)\<in>set m. validateRWIProperty k v = None)"
  by (induction m rule: validateRWIProperties.induct) (auto split: option.splits)

text \<open>Normalisation makes every column valid that it rewrites; only the address hash and
  the length of the language remain to be checked.\<close>

lemma normalize_validates:
  assumes "normalizeRWIProperty key value = Inr v" "key \<noteq> ColURLHash" "key \<noteq> ColLanguage"
  shows "validateRWIProperty key v = None"
proof (cases "map_of rwiCardinalWidths key")
  case (Some w)
  have v: "v = format_uint (unat (fixedWidthUnsigned (parseRWIDecimalPrefix value) w))"
    using assms(1) Some by (simp add: normalizeRWIProperty_def FormatRWICardinal_def)
  have "unat (fixedWidthUnsigned (parseRWIDecimalPrefix value) w) < 2 ^ 64"
    using unsigned_less [of "fixedWidthUnsigned (parseRWIDecimalPrefix value) w"] by simp
  with assms Some v column_distinct show ?thesis
    by (auto simp: validateRWIProperty_def parse_format_uint)
next
  case None
  have byte: "parse_uint 8 (format_uint (unat (b :: byte))) = Some (unat b)" for b
    using unsigned_less [of b] by (intro parse_format_uint) simp
  show ?thesis using assms None
    by (auto simp: normalizeRWIProperty_def validateRWIProperty_def byte
        split: if_splits sum.splits)
qed

section \<open>Postings\<close>

text \<open>The postings that the parser returns: a valid word hash, and columns that are
  normalised and valid.\<close>

definition normal_columns :: "(string, string) gomap \<Rightarrow> bool" where
  "normal_columns m \<longleftrightarrow> wf_map m \<and>
     list_all (\<lambda>(k, v). normalizeRWIProperty k v = Inr v \<and> validateRWIProperty k v = None) m"

definition wf_posting :: "RWIPosting \<Rightarrow> bool" where
  "wf_posting e \<longleftrightarrow> Hash_Valid (RWI_WordHash e) \<and> normal_columns (RWI_Properties e)"

lemma normalize_normal_columns:
  assumes "normalizeRWIProperties props = Inr m" "validateRWIProperties m = None" "wf_map props"
  shows "normal_columns m"
proof -
  have m: "map fst m = map fst props" and
    src: "\<And>k v. (k, v) \<in> set m \<Longrightarrow> \<exists>u. (k, u) \<in> set props \<and> normalizeRWIProperty k u = Inr v"
    using normalizeRWIProperties_Inr [OF assms(1)] by auto
  have "normalizeRWIProperty k v = Inr v \<and> validateRWIProperty k v = None" if "(k, v) \<in> set m" for k v
    using src [OF that] assms(2) that
    by (auto simp: validateRWIProperties_None intro: normalizeRWIProperty_idem)
  then show ?thesis using m assms(3) by (auto simp: normal_columns_def wf_map_def list_all_iff)
qed

lemma ParseRWIPosting_wf: "ParseRWIPosting line = Inr e \<Longrightarrow> wf_posting e"
  by (auto simp: ParseRWIPosting_def wf_posting_def ParseHash_iff Hash_Valid_iff
      intro: normalize_normal_columns parsePropertyPairs_wf
      split: option.splits if_splits sum.splits)

lemma normal_columns_map_of:
  assumes "normal_columns m" "map_of m' = map_of m" "wf_map m'"
  shows "normalizeRWIProperties m' = Inr m' \<and> validateRWIProperties m' = None"
proof -
  have "normalizeRWIProperty k v = Inr v \<and> validateRWIProperty k v = None" if "(k, v) \<in> set m'" for k v
  proof -
    from that assms(2,3) have "map_of m k = Some v" by (metis wf_map_SomeI)
    then have "(k, v) \<in> set m" by (rule map_of_SomeD)
    with assms(1) show ?thesis by (auto simp: normal_columns_def list_all_iff)
  qed
  then show ?thesis by (auto simp: validateRWIProperties_None intro: normalizeRWIProperties_id)
qed

lemma Alphabet_no_brace: "CHR ''{'' \<notin> set Alphabet" "CHR ''}'' \<notin> set Alphabet"
  by (simp_all add: Alphabet_def)

lemma ParseRWIPosting_String:
  assumes "wf_posting e" and "plain_map (RWI_Properties e)"
  shows "\<exists>e'. ParseRWIPosting (RWIPosting_String e) = Inr e' \<and> RWI_WordHash e' = RWI_WordHash e \<and>
    map_of (RWI_Properties e') = map_of (RWI_Properties e)"
proof -
  let ?f = "property_form (RWI_Properties e)" and ?s = "RWIPosting_String e"
  have h: "Hash_Valid (RWI_WordHash e)" using assms(1) by (simp add: wf_posting_def)
  then have no_brace: "CHR ''{'' \<notin> set (RWI_WordHash e)"
    using Alphabet_no_brace by (auto simp: Hash_Valid_iff)
  then have idx: "index_byte ?s CHR ''{'' = Some (length (RWI_WordHash e))"
    by (simp add: RWIPosting_String_def)
  have suf: "has_suffix ?s ''}''" unfolding RWIPosting_String_def has_suffix_iff by auto
  have body: "drop (Suc (length (RWI_WordHash e))) (take (length ?s - Suc 0) ?s) = ?f"
    by (simp add: RWIPosting_String_def)
  obtain m' where m': "parsePropertyPairs ?f = Inr m'" "map_of m' = map_of (RWI_Properties e)" "wf_map m'"
    using parse_property_form [OF assms(2)] by blast
  have "normalizeRWIProperties m' = Inr m' \<and> validateRWIProperties m' = None"
    using assms(1) m'(2,3) by (intro normal_columns_map_of [of "RWI_Properties e"]) (simp_all add: wf_posting_def)
  moreover have "take (length (RWI_WordHash e)) ?s = RWI_WordHash e" by (simp add: RWIPosting_String_def)
  ultimately show ?thesis
    using m' h suf by (simp add: ParseRWIPosting_def idx body ParseHash_valid)
qed

section \<open>Properties\<close>

definition example_posting :: RWIPosting where
  "example_posting =
     \<lparr>RWI_WordHash = ''AAAAAAAAAAAA'',
      RWI_Properties = [(ColURLHash, ''BBBBBBCCCCCC''), (ColLanguage, ''de'')]\<rparr>"

lemma example_posting: "wf_posting example_posting" "plain_map (RWI_Properties example_posting)"
proof -
  have "ParseHash ''BBBBBBCCCCCC'' = Inr ''BBBBBBCCCCCC''"
    by (simp add: ParseHash_iff Alphabet_def)
  then show "wf_posting example_posting"
    by (simp add: example_posting_def wf_posting_def Hash_Valid_iff Alphabet_def normal_columns_def
        normalizeRWIProperty_def validateRWIProperty_def column_distinct langLength_def wf_map_def
        map_keys_def)
  show "plain_map (RWI_Properties example_posting)"
    by (simp add: example_posting_def plain_map_def plain_key_def plain_value_def trimmed_graphic
        graphic_def wf_map_def map_keys_def column_defs)
qed

text \<open>C37: A posting that is read from the wire has a valid word hash and columns that are stored
  in normal form: normalising them again changes nothing and they pass the validation.\<close>

theorem posting_well_formed:
  assumes "ParseRWIPosting line = Inr e"
  shows "Hash_Valid (RWI_WordHash e) \<and> wf_map (RWI_Properties e) \<and>
    normalizeRWIProperties (RWI_Properties e) = Inr (RWI_Properties e) \<and>
    validateRWIProperties (RWI_Properties e) = None"
  using ParseRWIPosting_wf [OF assms] normal_columns_map_of [of "RWI_Properties e" "RWI_Properties e"]
  by (simp add: wf_posting_def normal_columns_def)

lemma posting_well_formed_witness:
  "\<exists>e. ParseRWIPosting (RWIPosting_String example_posting) = Inr e \<and>
    Hash_Valid (RWI_WordHash e) \<and> wf_map (RWI_Properties e) \<and>
    normalizeRWIProperties (RWI_Properties e) = Inr (RWI_Properties e) \<and>
    validateRWIProperties (RWI_Properties e) = None"
  using ParseRWIPosting_String [OF example_posting] posting_well_formed by blast

text \<open>A well-formed posting is read back from its line as the same word with the same
  columns.\<close>

theorem posting_roundtrip:
  assumes "wf_posting e" and "plain_map (RWI_Properties e)"
  shows "\<exists>e'. ParseRWIPosting (RWIPosting_String e) = Inr e' \<and> RWI_WordHash e' = RWI_WordHash e \<and>
    map_of (RWI_Properties e') = map_of (RWI_Properties e)"
  by (rule ParseRWIPosting_String [OF assms])

lemma posting_roundtrip_witness:
  "\<exists>e'. ParseRWIPosting (RWIPosting_String example_posting) = Inr e' \<and>
     RWI_WordHash e' = RWI_WordHash example_posting \<and>
     map_of (RWI_Properties e') = map_of (RWI_Properties example_posting)"
  by (rule posting_roundtrip [OF example_posting])

text \<open>A numeric column wraps as a two's complement number: the value of the signed decimal
  prefix modulo two to the width of the column.\<close>

theorem cardinal_column_wraps:
  assumes "map_of rwiCardinalWidths key = Some width"
  shows "normalizeRWIProperty key value = Inr (format_uint (nat
    ((if negative (parseRWIDecimalPrefix value)
      then - uint (magnitude (parseRWIDecimalPrefix value))
      else uint (magnitude (parseRWIDecimalPrefix value))) mod 2 ^ (8 * width))))"
proof -
  let ?n = "parseRWIDecimalPrefix value"
  let ?v = "if negative ?n then - uint (magnitude ?n) else uint (magnitude ?n)"
  have w: "8 * width \<le> 64" "width < 8" using rwiCardinalWidths_le [OF assms] by auto
  have "int (unat (fixedWidthUnsigned ?n width)) = ?v mod 2 ^ 64 mod 2 ^ (8 * width)"
    using w(2) unfolding uint_prefix_unsigned [symmetric]
    by (simp add: fixedWidthUnsigned_mod zmod_int)
  also have "\<dots> = ?v mod 2 ^ (8 * width)"
    using w(1) by (intro mod_mod_cancel le_imp_power_dvd)
  finally have "unat (fixedWidthUnsigned ?n width) = nat (?v mod 2 ^ (8 * width))" by linarith
  with assms show ?thesis by (simp add: normalizeRWIProperty_def FormatRWICardinal_def)
qed

lemma cardinal_column_wraps_witness:
  "normalizeRWIProperty ColHitCount ''-3x'' = Inr (format_uint (nat
    ((if negative (parseRWIDecimalPrefix ''-3x'')
      then - uint (magnitude (parseRWIDecimalPrefix ''-3x''))
      else uint (magnitude (parseRWIDecimalPrefix ''-3x''))) mod 2 ^ (8 * 1))))"
  by (rule cardinal_column_wraps) (simp add: rwiCardinalWidths_def column_defs)

end
