(* ===== verification/WordReference.thy ===== *)
theory WordReference
  imports RwiPosting
begin

text \<open>
  \<^verbatim>\<open>yagomodel/word_reference.go\<close>: the posting form of YaCy's search answers, a list of
  twenty columns in a fixed order, and the writer that fills missing columns with their
  defaults.
\<close>

section \<open>Definitions\<close>

datatype word_reference_error = BadWordReferenceForm | BadColumnCount nat | BadColumn string
  | BadColumnValue rwi_error

definition wordReferenceColumns :: "(string \<times> string) list" where
  "wordReferenceColumns =
     [(ColURLHash, ''''), (ColLastModified, ''0''), (ColFreshUntil, ''0''),
      (ColTitleWordCount, ''0''), (ColTextWordCount, ''0''), (ColPhraseCount, ''0''),
      (ColDocType, ''0''), (ColLanguage, ''en''), (ColLocalLinkCount, ''0''),
      (ColExternalLinkCount, ''0''), (ColURLLength, ''0''), (ColURLComponentCount, ''0''),
      (ColWordType, ''0''), (ColFlags, ''AAAAAA''), (ColHitCount, ''0''),
      (ColTextPosition, ''0''), (ColPhraseRelativePos, ''0''), (ColPhrasePosition, ''0''),
      (ColWordDistance, ''0''), (ColReserve, ''0'')]"

text \<open>The loop over the columns and their tokens; the names of the columns are distinct, so
  the map is the list of the pairs.\<close>

fun ParseWordReference_columns ::
  "string list \<Rightarrow> string list \<Rightarrow> (word_reference_error, (string, string) gomap) result" where
  "ParseWordReference_columns (column # columns) (token # tokens) =
     (let (name, value, ok) = cut_byte (trim_space token) CHR ''=''
      in if \<not> ok \<or> trim_space name \<noteq> column then Inl (BadColumn column)
         else map_sum id ((#) (column, trim_space value)) (ParseWordReference_columns columns tokens))"
| "ParseWordReference_columns columns tokens = Inr []"

definition ParseWordReference ::
  "string \<Rightarrow> (word_reference_error, (string, string) gomap) result" where
  "ParseWordReference propertyForm =
     (if length propertyForm < 2 \<or> hd propertyForm \<noteq> CHR ''{'' \<or> last propertyForm \<noteq> CHR ''}''
      then Inl BadWordReferenceForm
      else
        (let tokens = split_byte CHR '','' (butlast (tl propertyForm))
         in if length tokens \<noteq> length wordReferenceColumns then Inl (BadColumnCount (length tokens))
            else (case ParseWordReference_columns (map fst wordReferenceColumns) tokens of
                    Inl e \<Rightarrow> Inl e
                  | Inr properties \<Rightarrow> (case normalizeRWIProperties properties of
                      Inl e \<Rightarrow> Inl (BadColumnValue e)
                    | Inr normalized \<Rightarrow> (case validateRWIProperties normalized of
                        Some e \<Rightarrow> Inl (BadColumnValue e)
                      | None \<Rightarrow> Inr normalized)))))"

definition column_value :: "(string, string) gomap \<Rightarrow> string \<times> string \<Rightarrow> string" where
  "column_value props column =
     (let value = get_or [] props (fst column) in if value = [] then snd column else value)"

definition WordReferencePropertyForm :: "RWIPosting \<Rightarrow> string" where
  "WordReferencePropertyForm posting =
     CHR ''{'' # join_with '',''
       (map (\<lambda>column. fst column @ CHR ''='' # column_value (RWI_Properties posting) column)
          wordReferenceColumns) @ [CHR ''}'']"

definition WordReference_URLHash :: "(string, string) gomap \<Rightarrow> Hash" where
  "WordReference_URLHash reference = (case ParseHash (get_or [] reference ColURLHash) of
     Inl _ \<Rightarrow> [] | Inr hash \<Rightarrow> hash)"

section \<open>Lemmas\<close>

lemma ParseWordReference_columns_pairs:
  "list_all (\<lambda>c. plain_key (fst c) \<and> plain_value (f c)) cols \<Longrightarrow>
     ParseWordReference_columns (map fst cols) (map (\<lambda>c. fst c @ CHR ''='' # f c) cols) =
       Inr (map (\<lambda>c. (fst c, f c)) cols)"
proof (induction cols)
  case (Cons c cols)
  then have "trim_space (fst c @ CHR ''='' # f c) = fst c @ CHR ''='' # f c"
    by (simp add: trimmed_pair plain_key_def plain_value_def)
  with Cons show ?case by (simp add: plain_key_def plain_value_def)
qed simp

lemma columns_plain:
  "list_all (\<lambda>c. plain_key (fst c) \<and> plain_value (snd c)) wordReferenceColumns"
  by (simp add: wordReferenceColumns_def plain_key_def plain_value_def column_defs trimmed_graphic
      graphic_def)

lemma distinct_columns: "distinct (map fst wordReferenceColumns)"
  by (simp add: wordReferenceColumns_def column_defs)

lemma zero_normal:
  assumes "map_of rwiCardinalWidths c \<noteq> None \<or> c = ColDocType \<or> c = ColWordType"
  shows "normalizeRWIProperty c ''0'' = Inr ''0'' \<and> validateRWIProperty c ''0'' = None"
proof -
  have zero: "''0'' = format_uint 0" by code_simp
  have "normalizeRWIProperty c ''0'' = Inr ''0''"
  proof (cases "map_of rwiCardinalWidths c")
    case (Some w)
    then have "w < 8" using rwiCardinalWidths_le by fastforce
    with Some show ?thesis unfolding zero
      by (simp add: normalizeRWIProperty_def FormatRWICardinal_def normalize_number)
  next
    case None
    with assms lowByte_format [of 0] show ?thesis
      by (simp add: normalizeRWIProperty_def zero)
  qed
  moreover have "c \<noteq> ColURLHash" "c \<noteq> ColLanguage" using assms column_distinct by auto
  ultimately show ?thesis using normalize_validates by blast
qed

lemma flags_default: "Encode [0, 0, 0, 0] = ''AAAAAA''"
  by code_simp

lemma flags_default_Decode: "Decode ''AAAAAA'' = Inr [0, 0, 0, 0]"
  by (metis Decode_Encode flags_default)

lemma language_normal:
  "normalizeRWIProperty ColLanguage ''en'' = Inr ''en'' \<and>
    validateRWIProperty ColLanguage ''en'' = None"
  by (simp add: normalizeRWIProperty_def validateRWIProperty_def column_distinct langLength_def)

lemma flags_normal:
  "normalizeRWIProperty ColFlags ''AAAAAA'' = Inr ''AAAAAA'' \<and>
    validateRWIProperty ColFlags ''AAAAAA'' = None"
  by (simp add: normalizeRWIProperty_def validateRWIProperty_def column_distinct
      rwiByteFlagLength_def flags_default flags_default_Decode)

lemma default_cases:
  assumes "(c, v) \<in> set wordReferenceColumns"
  shows "c = ColURLHash \<or> c = ColLanguage \<and> v = ''en'' \<or> c = ColFlags \<and> v = ''AAAAAA'' \<or>
    v = ''0'' \<and> (map_of rwiCardinalWidths c \<noteq> None \<or> c = ColDocType \<or> c = ColWordType)"
proof -
  have "list_all (\<lambda>(c, v). c = ColURLHash \<or> c = ColLanguage \<and> v = ''en'' \<or>
      c = ColFlags \<and> v = ''AAAAAA'' \<or>
      v = ''0'' \<and> (map_of rwiCardinalWidths c \<noteq> None \<or> c = ColDocType \<or> c = ColWordType))
    wordReferenceColumns"
    by (simp add: wordReferenceColumns_def rwiCardinalWidths_def column_defs)
  with assms show ?thesis by (auto simp: list_all_iff)
qed

lemma default_normal:
  assumes "(c, v) \<in> set wordReferenceColumns" "c \<noteq> ColURLHash"
  shows "normalizeRWIProperty c v = Inr v \<and> validateRWIProperty c v = None"
  using default_cases [OF assms(1)]
proof (elim disjE conjE)
  assume "c = ColLanguage" "v = ''en''"
  then show ?thesis by (simp only: language_normal simp_thms)
next
  assume "c = ColFlags" "v = ''AAAAAA''"
  then show ?thesis by (simp only: flags_normal simp_thms)
qed (use assms(2) zero_normal in simp_all)

text \<open>The columns of a posting after the defaults are filled in.\<close>

lemma column_value_plain:
  assumes "plain_map m" "c \<in> set wordReferenceColumns"
  shows "plain_value (column_value m c)"
proof (cases "get_or [] m (fst c) = []")
  case True
  with assms(2) columns_plain show ?thesis
    by (auto simp: column_value_def Let_def list_all_iff)
next
  case False
  then have "fst c \<in> set (map_keys m)" by (rule get_or_nonzero)
  with assms(1) False show ?thesis by (simp add: column_value_def Let_def plain_map_get)
qed

lemma column_value_normal:
  assumes "normal_columns m" "c \<in> set wordReferenceColumns"
    and "fst c = ColURLHash \<Longrightarrow> get_or [] m ColURLHash \<noteq> []"
  shows "normalizeRWIProperty (fst c) (column_value m c) = Inr (column_value m c) \<and>
    validateRWIProperty (fst c) (column_value m c) = None"
proof (cases "get_or [] m (fst c) = []")
  case True
  with assms(3) have "fst c \<noteq> ColURLHash" by auto
  with True assms(2) default_normal [of "fst c" "snd c"] show ?thesis
    by (simp add: column_value_def Let_def)
next
  case False
  then obtain v where v: "map_of m (fst c) = Some v" "v \<noteq> []"
    by (auto simp: get_or_def split: option.splits)
  then have "(fst c, v) \<in> set m" by (simp add: map_of_SomeD)
  with assms(1) v show ?thesis
    by (auto simp: normal_columns_def list_all_iff column_value_def get_or_def Let_def)
qed

lemma ParseWordReference_PropertyForm:
  assumes wf: "wf_posting e" and plain: "plain_map (RWI_Properties e)"
    and url: "get_or [] (RWI_Properties e) ColURLHash \<noteq> []"
  shows "ParseWordReference (WordReferencePropertyForm e) =
    Inr (map (\<lambda>c. (fst c, column_value (RWI_Properties e) c)) wordReferenceColumns)"
proof -
  let ?f = "column_value (RWI_Properties e)" and ?cols = wordReferenceColumns
  let ?m = "map (\<lambda>c. (fst c, ?f c)) ?cols"
  let ?toks = "map (\<lambda>c. fst c @ CHR ''='' # ?f c) ?cols"
  have ok: "list_all (\<lambda>c. plain_key (fst c) \<and> plain_value (?f c)) ?cols"
    using columns_plain column_value_plain [OF plain] by (auto simp: list_all_iff)
  have ne: "?toks \<noteq> []" by (simp add: wordReferenceColumns_def)
  have "\<forall>t\<in>set ?toks. CHR '','' \<notin> set t"
    using ok by (auto simp: list_all_iff plain_key_def plain_value_def)
  with ne have split: "split_byte CHR '','' (join_with '','' ?toks) = ?toks"
    by (rule split_byte_join)
  have nv: "normalizeRWIProperty k v = Inr v \<and> validateRWIProperty k v = None" if "(k, v) \<in> set ?m" for k v
    using that column_value_normal [of "RWI_Properties e"] wf url by (auto simp: wf_posting_def)
  then have "normalizeRWIProperties ?m = Inr ?m" by (intro normalizeRWIProperties_id) blast
  moreover have "validateRWIProperties ?m = None" using nv by (auto simp: validateRWIProperties_None)
  ultimately show ?thesis
    unfolding ParseWordReference_def WordReferencePropertyForm_def
    by (simp add: split ParseWordReference_columns_pairs [OF ok] Let_def butlast_append)
qed

section \<open>Properties\<close>

text \<open>The posting form of a search answer has all twenty columns, the missing ones with their
  defaults, and the reader of a search answer gives back exactly these columns.\<close>

theorem word_reference_roundtrip:
  assumes "wf_posting e" and "plain_map (RWI_Properties e)"
    and "get_or [] (RWI_Properties e) ColURLHash \<noteq> []"
  shows "ParseWordReference (WordReferencePropertyForm e) =
    Inr (map (\<lambda>c. (fst c, column_value (RWI_Properties e) c)) wordReferenceColumns)"
  by (rule ParseWordReference_PropertyForm [OF assms])

lemma word_reference_roundtrip_witness:
  "ParseWordReference (WordReferencePropertyForm example_posting) =
   Inr (map (\<lambda>c. (fst c, column_value (RWI_Properties example_posting) c)) wordReferenceColumns)"
  by (rule word_reference_roundtrip [OF example_posting]) (simp add: example_posting_def get_or_def)

end
