(* ===== verification/SearchAbstract.thy ===== *)
theory SearchAbstract
  imports Hashes
begin

text \<open>
  \<^verbatim>\<open>yagomodel/search_index_abstract.go\<close>: the index abstract of a remote search, the
  address hashes of a word grouped by their host part, hosts and paths sorted in the
  order of the Base64 alphabet, and its reader with a limit on the number of hashes.
\<close>

section \<open>Definitions\<close>

definition hostHashLength :: nat where "hostHashLength = 6"

datatype abstract_error = BadEnvelope | BadGroup string | BadAbstractHost string | BadAbstractPath

definition base64Order :: "char \<Rightarrow> nat" where
  "base64Order c = (case index_byte Alphabet c of
     Some i \<Rightarrow> i | None \<Rightarrow> length Alphabet + of_char c)"

fun compareBase64Strings :: "string \<Rightarrow> string \<Rightarrow> int" where
  "compareBase64Strings (x # a) (y # b) =
     (if base64Order x < base64Order y then -1
      else if base64Order x > base64Order y then 1
      else compareBase64Strings a b)"
| "compareBase64Strings [] (y # b) = -1"
| "compareBase64Strings (x # a) [] = 1"
| "compareBase64Strings [] [] = 0"

text \<open>\<^verbatim>\<open>domains[raw[6:]] = append(domains[raw[6:]], raw[:6])\<close> for every valid hash.\<close>

definition add_domain :: "(string, string list) gomap \<Rightarrow> Hash \<Rightarrow> (string, string list) gomap" where
  "add_domain domains raw =
     (if \<not> Hash_Valid raw then domains
      else AList.update (drop 6 raw) (get_or [] domains (drop 6 raw) @ [take 6 raw]) domains)"

definition abstract_domains :: "Hash list \<Rightarrow> (string, string list) gomap" where
  "abstract_domains urlHashes = foldl add_domain [] urlHashes"

definition abstract_group :: "(string, string list) gomap \<Rightarrow> string \<Rightarrow> string" where
  "abstract_group domains domain =
     domain @ CHR '':'' # concat (sort_by compareBase64Strings (get_or [] domains domain))"

definition EncodeSearchIndexAbstract :: "Hash list \<Rightarrow> string" where
  "EncodeSearchIndexAbstract urlHashes =
     (if urlHashes = [] then ''{}''
      else
        (let domains = abstract_domains urlHashes
         in if domains = [] then ''{}''
            else
              (let keys = sort_by compareBase64Strings (map_keys domains)
               in CHR ''{'' # join_with '','' (map (abstract_group domains) keys) @ [CHR ''}''])))"

definition validAbstractHashPart :: "string \<Rightarrow> bool" where
  "validAbstractHashPart part = list_all (\<lambda>c. \<not> decodeTable c < 0) part"

text \<open>The loop over the paths of a group, six bytes at a time.\<close>

function decode_paths ::
  "string \<Rightarrow> string \<Rightarrow> Hash list \<Rightarrow> nat \<Rightarrow> (abstract_error, Hash list) result" where
  "decode_paths domain paths hashes maximumHashes =
     (if paths = [] then Inr hashes
      else
        (let path = take hostHashLength paths
         in if \<not> validAbstractHashPart path then Inl BadAbstractPath
            else decode_paths domain (drop hostHashLength paths)
                   (if length hashes < maximumHashes then hashes @ [path @ domain] else hashes)
                   maximumHashes))"
  by pat_completeness auto
termination
  by (relation "measure (\<lambda>(d, p, h, m). length p)") (auto simp: hostHashLength_def)

declare decode_paths.simps [simp del]

definition decodeSearchIndexAbstractGroup ::
  "string \<Rightarrow> Hash list \<Rightarrow> nat \<Rightarrow> (abstract_error, Hash list) result" where
  "decodeSearchIndexAbstractGroup grp hashes maximumHashes =
     (let (domain, paths, ok) = cut_byte grp CHR '':''
      in if \<not> ok \<or> length domain \<noteq> hostHashLength \<or> length paths mod hostHashLength \<noteq> 0
         then Inl (BadGroup grp)
         else if \<not> validAbstractHashPart domain then Inl (BadAbstractHost domain)
         else decode_paths domain paths hashes maximumHashes)"

function decode_groups ::
  "string \<Rightarrow> Hash list \<Rightarrow> nat \<Rightarrow> (abstract_error, Hash list) result" where
  "decode_groups body hashes maximumHashes =
     (if body = [] then Inr hashes
      else
        (let (grp, remainder, more) = cut_byte body CHR '',''
         in case decodeSearchIndexAbstractGroup grp hashes maximumHashes of
              Inl e \<Rightarrow> Inl e
            | Inr hashes' \<Rightarrow>
                if more \<and> remainder = [] then Inl (BadGroup remainder)
                else decode_groups remainder hashes' maximumHashes))"
  by pat_completeness auto
termination
proof (relation "measure (\<lambda>(b, h, m). length b)")
  fix body grp remainder :: string and more hashes' maximumHashes hashes and x y
  assume "body \<noteq> []" "x = cut_byte body CHR '',''" "(grp, y) = x" "(remainder, more) = y"
  then show "((remainder, hashes' :: Hash list, maximumHashes :: nat), (body, hashes, maximumHashes))
      \<in> measure (\<lambda>(b, h, m). length b)"
    by (auto simp: cut_byte_def split: option.splits)
qed simp

declare decode_groups.simps [simp del]

definition DecodeSearchIndexAbstractWithLimit ::
  "string \<Rightarrow> int \<Rightarrow> (abstract_error, Hash list) result" where
  "DecodeSearchIndexAbstractWithLimit raw maximumHashes =
     (if raw = [] \<or> raw = ''{}'' then Inr []
      else if \<not> has_prefix raw ''{'' \<or> \<not> has_suffix raw ''}'' then Inl BadEnvelope
      else decode_groups (butlast (tl raw)) [] (nat (max 0 maximumHashes)))"

definition DecodeSearchIndexAbstract :: "string \<Rightarrow> (abstract_error, Hash list) result" where
  "DecodeSearchIndexAbstract raw =
     DecodeSearchIndexAbstractWithLimit raw (int (length raw div hostHashLength))"

section \<open>The order of the alphabet\<close>

lemma base64Order_inject: "base64Order x = base64Order y \<Longrightarrow> x = y"
  using index_byte_Some [of Alphabet x] index_byte_Some [of Alphabet y]
  by (auto simp: base64Order_def split: option.splits)

lemma compare_antisym: "compareBase64Strings b a = - compareBase64Strings a b"
proof (induction a b rule: compareBase64Strings.induct)
  case (1 x a y b)
  then show ?case by (cases "base64Order x" "base64Order y" rule: linorder_cases) simp_all
qed simp_all

lemma compare_Cons_le:
  "compareBase64Strings (x # a) (y # b) \<le> 0 \<longleftrightarrow>
     base64Order x < base64Order y \<or> base64Order x = base64Order y \<and> compareBase64Strings a b \<le> 0"
  by simp

lemma compare_trans:
  "compareBase64Strings a b \<le> 0 \<Longrightarrow> compareBase64Strings b c \<le> 0 \<Longrightarrow> compareBase64Strings a c \<le> 0"
proof (induction a b arbitrary: c rule: compareBase64Strings.induct)
  case (1 x a y b)
  show ?case
  proof (cases c)
    case Nil
    with "1.prems" show ?thesis by simp
  next
    case (Cons z c')
    have IH: "base64Order x = base64Order y \<Longrightarrow> compareBase64Strings a b \<le> 0 \<Longrightarrow>
        compareBase64Strings b c' \<le> 0 \<Longrightarrow> compareBase64Strings a c' \<le> 0"
      by (rule "1.IH") simp_all
    show ?thesis using "1.prems" IH unfolding Cons compare_Cons_le by (metis less_trans)
  qed
next
  case (2 y b)
  then show ?case by (cases c) simp_all
next
  case (3 x a)
  then show ?case by simp
next
  case 4
  then show ?case by (cases c) simp_all
qed

lemma compare_eq: "compareBase64Strings a b = 0 \<Longrightarrow> a = b"
  by (induction a b rule: compareBase64Strings.induct) (auto split: if_splits dest: base64Order_inject)

interpretation base64_order: antisymmetric_comparator compareBase64Strings
proof unfold_locales
  fix x y z :: string
  show "compareBase64Strings x y \<le> 0 \<or> compareBase64Strings y x \<le> 0"
    using compare_antisym [of x y] by auto
  show "compareBase64Strings x y \<le> 0 \<Longrightarrow> compareBase64Strings y z \<le> 0 \<Longrightarrow>
      compareBase64Strings x z \<le> 0"
    by (rule compare_trans)
  show "compareBase64Strings x y \<le> 0 \<Longrightarrow> compareBase64Strings y x \<le> 0 \<Longrightarrow> x = y"
    using compare_antisym [of x y] compare_eq [of x y] by auto
qed

section \<open>Grouping by host\<close>

lemma abstract_domains_snoc:
  "abstract_domains (hs @ [h]) = add_domain (abstract_domains hs) h"
  by (simp add: abstract_domains_def)

lemma get_abstract_domains:
  "get_or [] (abstract_domains hs) d =
     map (take 6) (filter (\<lambda>h. Hash_Valid h \<and> drop 6 h = d) hs)"
proof (induction hs rule: rev_induct)
  case Nil
  then show ?case by (simp add: abstract_domains_def)
next
  case (snoc h hs)
  then show ?case by (auto simp: abstract_domains_snoc add_domain_def get_or_update)
qed

lemma keys_abstract_domains:
  "set (map_keys (abstract_domains hs)) = drop 6 ` {h \<in> set hs. Hash_Valid h}"
proof (induction hs rule: rev_induct)
  case Nil
  then show ?case by (simp add: abstract_domains_def map_keys_def)
next
  case (snoc h hs)
  then show ?case
    by (auto simp: abstract_domains_snoc add_domain_def set_map_keys dom_def)
qed

lemma wf_abstract_domains: "wf_map (abstract_domains hs)"
  by (induction hs rule: rev_induct)
     (simp_all add: abstract_domains_def add_domain_def)

lemma mset_partition_step:
  "distinct ds \<Longrightarrow>
     mset (concat (map (\<lambda>d. if y = d then h # g d else g d) ds)) =
       (if y \<in> set ds then {#h#} else {#}) + mset (concat (map g ds))"
proof (induction ds)
  case (Cons d ds)
  then show ?case by (cases "y = d") (auto simp: ac_simps)
qed simp

lemma mset_partition:
  "distinct ds \<Longrightarrow> \<forall>h\<in>set hs. f h \<in> set ds \<Longrightarrow>
     mset (concat (map (\<lambda>d. filter (\<lambda>h. f h = d) hs) ds)) = mset hs"
proof (induction hs)
  case Nil
  then show ?case by (induction ds) auto
next
  case (Cons h hs)
  have "map (\<lambda>d. filter (\<lambda>x. f x = d) (h # hs)) ds =
      map (\<lambda>d. if f h = d then h # filter (\<lambda>x. f x = d) hs else filter (\<lambda>x. f x = d) hs) ds"
    by simp
  with mset_partition_step [OF Cons.prems(1), of "f h" h "\<lambda>d. filter (\<lambda>x. f x = d) hs"]
    Cons.IH [OF Cons.prems(1)] Cons.prems(2)
  show ?case by simp
qed

section \<open>Reading groups back\<close>

definition hash_part :: "string \<Rightarrow> bool" where
  "hash_part s \<longleftrightarrow> length s = hostHashLength \<and> set s \<subseteq> set Alphabet"

lemma validAbstractHashPart_iff: "validAbstractHashPart s \<longleftrightarrow> set s \<subseteq> set Alphabet"
  by (auto simp: validAbstractHashPart_def list_all_iff decodeTable_neg)

lemma hash_parts: "Hash_Valid h \<Longrightarrow> hash_part (take 6 h) \<and> hash_part (drop 6 h)"
  by (auto simp: Hash_Valid_iff hash_part_def hostHashLength_def dest: in_set_takeD in_set_dropD)

lemma parts_hash: "hash_part p \<Longrightarrow> hash_part d \<Longrightarrow> Hash_Valid (p @ d)"
  by (auto simp: Hash_Valid_iff hash_part_def hostHashLength_def)

lemma separators_not_Alphabet: "CHR '':'' \<notin> set Alphabet" "CHR '','' \<notin> set Alphabet"
  by (simp_all add: Alphabet_def)

lemma separators_not_part: "set s \<subseteq> set Alphabet \<Longrightarrow> CHR '':'' \<notin> set s \<and> CHR '','' \<notin> set s"
  using separators_not_Alphabet by blast

lemma decode_paths_concat:
  "\<forall>p\<in>set ps. hash_part p \<Longrightarrow> length hashes \<le> limit \<Longrightarrow>
     decode_paths d (concat ps) hashes limit = Inr (take limit (hashes @ map (\<lambda>p. p @ d) ps))"
proof (induction ps arbitrary: hashes)
  case Nil
  then show ?case by (simp add: decode_paths.simps)
next
  case (Cons p ps)
  then have p: "length p = hostHashLength" "validAbstractHashPart p" "p \<noteq> []"
    by (auto simp: hash_part_def validAbstractHashPart_iff hostHashLength_def)
  show ?case
  proof (cases "length hashes < limit")
    case True
    with Cons p show ?thesis by (subst decode_paths.simps) (simp add: take_Cons')
  next
    case False
    with Cons p show ?thesis by (subst decode_paths.simps) simp
  qed
qed

lemma concat_parts_length:
  "\<forall>p\<in>set ps. hash_part p \<Longrightarrow> length (concat ps) = length ps * hostHashLength"
  by (induction ps) (auto simp: hash_part_def)

lemma concat_parts_symbols:
  "\<forall>p\<in>set ps. hash_part p \<Longrightarrow> set (concat ps) \<subseteq> set Alphabet"
  by (auto simp: hash_part_def)

definition group_text :: "string \<times> string list \<Rightarrow> string" where
  "group_text g = fst g @ CHR '':'' # concat (snd g)"

definition group_hashes :: "string \<times> string list \<Rightarrow> Hash list" where
  "group_hashes g = map (\<lambda>p. p @ fst g) (snd g)"

definition wf_group :: "string \<times> string list \<Rightarrow> bool" where
  "wf_group g \<longleftrightarrow> hash_part (fst g) \<and> (\<forall>p\<in>set (snd g). hash_part p)"

lemma decode_group_text:
  assumes "wf_group g" "length hashes \<le> limit"
  shows "decodeSearchIndexAbstractGroup (group_text g) hashes limit =
    Inr (take limit (hashes @ group_hashes g))"
proof -
  have "CHR '':'' \<notin> set (fst g)"
    using assms separators_not_part by (auto simp: wf_group_def hash_part_def)
  then show ?thesis using assms concat_parts_length [of "snd g"]
    by (simp add: decodeSearchIndexAbstractGroup_def group_text_def group_hashes_def wf_group_def
        decode_paths_concat) (simp add: hash_part_def validAbstractHashPart_iff)
qed

lemma group_text_plain: "wf_group g \<Longrightarrow> CHR '','' \<notin> set (group_text g) \<and> group_text g \<noteq> []"
  using separators_not_part [of "fst g"] separators_not_part [OF concat_parts_symbols, of "snd g"]
  by (auto simp: group_text_def wf_group_def hash_part_def)

lemma take_take_append: "take n (take n xs @ ys) = take n (xs @ ys)"
  by (cases "length xs \<le> n") simp_all

lemma decode_groups_join:
  "\<forall>g\<in>set gs. wf_group g \<Longrightarrow> length hashes \<le> limit \<Longrightarrow>
     decode_groups (join_with '','' (map group_text gs)) hashes limit =
       Inr (take limit (hashes @ concat (map group_hashes gs)))"
proof (induction gs arbitrary: hashes rule: induct_list012)
  case 1
  then show ?case by (simp add: decode_groups.simps)
next
  case (2 g)
  then show ?case using group_text_plain [of g] decode_group_text [of g]
    by (subst decode_groups.simps) (simp add: decode_groups.simps)
next
  case (3 g g' gs)
  let ?rest = "join_with '','' (map group_text (g' # gs))"
  have plain: "CHR '','' \<notin> set (group_text g)" and ne: "group_text g \<noteq> []"
    using "3.prems"(1) group_text_plain by simp_all
  have rest: "?rest \<noteq> []"
    using join_with_empty [of "'',''" "map group_text (g' # gs)"] "3.prems"(1) group_text_plain
    by auto
  have "join_with '','' (map group_text (g # g' # gs)) = group_text g @ CHR '','' # ?rest"
    by simp
  moreover have "decode_groups ?rest (take limit (hashes @ group_hashes g)) limit =
      Inr (take limit (hashes @ concat (map group_hashes (g # g' # gs))))"
    using "3.IH"(2) [of "take limit (hashes @ group_hashes g)"] "3.prems"(1)
    by (simp add: take_take_append del: take_append)
  ultimately show ?case
    using "3.prems" plain rest ne decode_group_text [of g hashes limit]
    by (subst decode_groups.simps) (simp del: take_append join_with.simps list.map)
qed

lemma decode_paths_bound:
  "decode_paths d paths hashes limit = Inr hs \<Longrightarrow> length hashes \<le> limit \<Longrightarrow> length hs \<le> limit"
  by (induction d paths hashes limit rule: decode_paths.induct)
     (subst (asm) (2) decode_paths.simps, auto simp: Let_def split: if_splits)

lemma decode_groups_bound:
  "decode_groups body hashes limit = Inr hs \<Longrightarrow> length hashes \<le> limit \<Longrightarrow> length hs \<le> limit"
proof (induction body hashes limit rule: decode_groups.induct)
  case (1 body hashes limit)
  show ?case
  proof (cases "body = []")
    case True
    with "1.prems" show ?thesis by (simp add: decode_groups.simps)
  next
    case False
    obtain grp remainder more where cut: "cut_byte body CHR '','' = (grp, remainder, more)"
      by (metis prod_cases3)
    with False "1.prems"(1) obtain hashes' where
      grp: "decodeSearchIndexAbstractGroup grp hashes limit = Inr hashes'" and
      rest: "\<not> (more \<and> remainder = [])" "decode_groups remainder hashes' limit = Inr hs"
      by (subst (asm) decode_groups.simps) (auto split: sum.splits if_splits)
    have "length hashes' \<le> limit"
      using grp "1.prems"(2)
      by (auto simp: decodeSearchIndexAbstractGroup_def Let_def
          split: prod.splits if_splits dest: decode_paths_bound)
    then show ?thesis using "1.IH" [OF False cut [symmetric]] cut grp rest by auto
  qed
qed

section \<open>The groups of an abstract\<close>

definition abstract_groups :: "Hash list \<Rightarrow> (string \<times> string list) list" where
  "abstract_groups hs =
     map (\<lambda>d. (d, sort_by compareBase64Strings (get_or [] (abstract_domains hs) d)))
       (sort_by compareBase64Strings (map_keys (abstract_domains hs)))"

lemma Encode_groups:
  "EncodeSearchIndexAbstract hs =
     CHR ''{'' # join_with '','' (map group_text (abstract_groups hs)) @ ''}''"
proof (cases "hs = [] \<or> abstract_domains hs = []")
  case True
  then have "abstract_domains hs = []" by (auto simp: abstract_domains_def)
  with True show ?thesis
    by (simp add: EncodeSearchIndexAbstract_def abstract_groups_def Let_def map_keys_def sort_by_def)
next
  case False
  then show ?thesis
    by (simp add: EncodeSearchIndexAbstract_def abstract_groups_def Let_def comp_def
        abstract_group_def [abs_def] group_text_def [abs_def])
qed

lemma wf_abstract_groups: "g \<in> set (abstract_groups hs) \<Longrightarrow> wf_group g"
  using hash_parts
  by (auto simp: abstract_groups_def wf_group_def keys_abstract_domains get_abstract_domains)

lemma distinct_sort_by: "distinct (sort_by c xs) = distinct xs"
  by (metis mset_eq_imp_distinct_iff mset_sort_by)

lemma distinct_abstract_keys:
  "distinct (sort_by compareBase64Strings (map_keys (abstract_domains hs)))"
  using wf_abstract_domains [of hs] by (simp add: distinct_sort_by wf_map_def map_keys_def)

lemma filter_hash_parts:
  "map (\<lambda>p. p @ d) (map (take 6) (filter (\<lambda>h. Hash_Valid h \<and> drop 6 h = d) hs)) =
     filter (\<lambda>h. drop 6 h = d) (filter Hash_Valid hs)"
  by (induction hs) auto

lemma mset_group_hashes:
  "mset (concat (map group_hashes (abstract_groups hs))) = mset (filter Hash_Valid hs)"
proof -
  let ?ks = "sort_by compareBase64Strings (map_keys (abstract_domains hs))"
  have one: "mset (group_hashes (d, sort_by compareBase64Strings (get_or [] (abstract_domains hs) d)))
      = mset (filter (\<lambda>h. drop 6 h = d) (filter Hash_Valid hs))" for d
    by (simp only: group_hashes_def fst_conv snd_conv mset_map mset_sort_by
        filter_hash_parts [symmetric] get_abstract_domains)
  have "mset (concat (map group_hashes (abstract_groups hs))) =
      mset (concat (map (\<lambda>d. filter (\<lambda>h. drop 6 h = d) (filter Hash_Valid hs)) ?ks))"
    unfolding abstract_groups_def using one by (simp add: mset_concat comp_def)
  also have "\<dots> = mset (filter Hash_Valid hs)"
    by (rule mset_partition [OF distinct_abstract_keys]) (auto simp: keys_abstract_domains)
  finally show ?thesis .
qed

lemma length_join_groups:
  "\<forall>g\<in>set gs. wf_group g \<Longrightarrow>
     6 * length (concat (map group_hashes gs)) \<le> length (join_with '','' (map group_text gs))"
  by (induction gs rule: induct_list012)
     (auto simp: group_text_def group_hashes_def wf_group_def concat_parts_length hostHashLength_def)

lemma DecodeWithLimit_Encode:
  assumes "0 \<le> limit"
  shows "DecodeSearchIndexAbstractWithLimit (EncodeSearchIndexAbstract hs) limit =
    Inr (take (nat limit) (concat (map group_hashes (abstract_groups hs))))"
proof (cases "abstract_groups hs = []")
  case True
  then show ?thesis by (simp add: Encode_groups DecodeSearchIndexAbstractWithLimit_def)
next
  case False
  let ?body = "join_with '','' (map group_text (abstract_groups hs))"
  have "?body \<noteq> []"
  proof
    assume "?body = []"
    moreover have "\<forall>x\<in>set (map group_text (abstract_groups hs)). x \<noteq> []"
      by (simp add: group_text_def)
    ultimately have "map group_text (abstract_groups hs) = []" by (rule join_with_empty)
    then show False using False by simp
  qed
  moreover have "decode_groups ?body [] (nat (max 0 limit)) =
      Inr (take (nat (max 0 limit)) ([] @ concat (map group_hashes (abstract_groups hs))))"
    by (rule decode_groups_join) (auto dest: wf_abstract_groups)
  ultimately show ?thesis using assms
    by (simp add: Encode_groups DecodeSearchIndexAbstractWithLimit_def has_prefix_def
        has_suffix_def butlast_append)
qed

lemma Decode_Encode_abstract:
  "DecodeSearchIndexAbstract (EncodeSearchIndexAbstract hs) =
     Inr (concat (map group_hashes (abstract_groups hs)))"
proof -
  have "6 * length (concat (map group_hashes (abstract_groups hs))) \<le>
      length (EncodeSearchIndexAbstract hs)"
    using length_join_groups [of "abstract_groups hs"] wf_abstract_groups [of _ hs]
    by (simp add: Encode_groups)
  then show ?thesis
    by (simp add: DecodeSearchIndexAbstract_def DecodeWithLimit_Encode hostHashLength_def)
qed

lemma DecodeWithLimit_bound:
  assumes "DecodeSearchIndexAbstractWithLimit raw limit = Inr hs"
  shows "int (length hs) \<le> max 0 limit"
proof (cases "raw = [] \<or> raw = ''{}''")
  case True
  with assms show ?thesis by (simp add: DecodeSearchIndexAbstractWithLimit_def)
next
  case False
  with assms have "decode_groups (butlast (tl raw)) [] (nat (max 0 limit)) = Inr hs"
    by (simp add: DecodeSearchIndexAbstractWithLimit_def split: if_splits)
  from decode_groups_bound [OF this] show ?thesis by simp
qed

lemma abstract_groups_permutation:
  assumes "mset hs1 = mset hs2"
  shows "abstract_groups hs1 = abstract_groups hs2"
proof -
  have "set hs1 = set hs2" using assms by (metis set_mset_mset)
  then have "set (map_keys (abstract_domains hs1)) = set (map_keys (abstract_domains hs2))"
    by (simp add: keys_abstract_domains)
  then have "mset (map_keys (abstract_domains hs1)) = mset (map_keys (abstract_domains hs2))"
    using set_eq_iff_mset_eq_distinct [of "map_keys (abstract_domains hs1)"
        "map_keys (abstract_domains hs2)"] wf_abstract_domains
    unfolding wf_map_def map_keys_def by blast
  then have keys: "sort_by compareBase64Strings (map_keys (abstract_domains hs1)) =
      sort_by compareBase64Strings (map_keys (abstract_domains hs2))"
    by (rule base64_order.sort_by_permutation)
  have "mset (get_or [] (abstract_domains hs1) d) = mset (get_or [] (abstract_domains hs2) d)"
    for d using assms by (simp add: get_abstract_domains mset_filter)
  then have "sort_by compareBase64Strings (get_or [] (abstract_domains hs1) d) =
      sort_by compareBase64Strings (get_or [] (abstract_domains hs2) d)" for d
    by (rule base64_order.sort_by_permutation)
  then show ?thesis by (simp only: abstract_groups_def keys)
qed

section \<open>Properties\<close>

text \<open>Reading an encoded index abstract back gives the valid hashes of the input, each as
  often as it was given, and nothing else.\<close>

theorem search_abstract_roundtrip:
  "\<exists>hashes. DecodeSearchIndexAbstract (EncodeSearchIndexAbstract hs) = Inr hashes \<and>
     mset hashes = mset (filter Hash_Valid hs)"
  by (simp add: Decode_Encode_abstract mset_group_hashes)

text \<open>The text of an index abstract depends on the hashes only, not on the order in which
  they arrive: two peers that hold the same postings send the same abstract.\<close>

theorem search_abstract_canonical:
  "mset hs1 = mset hs2 \<Longrightarrow> EncodeSearchIndexAbstract hs1 = EncodeSearchIndexAbstract hs2"
  by (metis Encode_groups abstract_groups_permutation)

lemma search_abstract_canonical_witness:
  "EncodeSearchIndexAbstract [''AAAAAABBBBBB'', ''CCCCCCBBBBBB''] =
     EncodeSearchIndexAbstract [''CCCCCCBBBBBB'', ''AAAAAABBBBBB'']"
  using search_abstract_canonical [OF mset_rev, of "[''CCCCCCBBBBBB'', ''AAAAAABBBBBB'']"]
  by (simp only: rev.simps append.simps)

text \<open>The reader never returns more hashes than the limit of its caller, and for an abstract
  that this program wrote it returns the first ones up to the limit.\<close>

theorem search_abstract_limit:
  "(case DecodeSearchIndexAbstractWithLimit raw limit of
      Inl _ \<Rightarrow> True | Inr hashes \<Rightarrow> int (length hashes) \<le> max 0 limit) \<and>
   (case DecodeSearchIndexAbstract (EncodeSearchIndexAbstract hs) of
      Inl _ \<Rightarrow> False
    | Inr hashes \<Rightarrow> DecodeSearchIndexAbstractWithLimit (EncodeSearchIndexAbstract hs) (int n) =
        Inr (take n hashes))"
  by (cases "DecodeSearchIndexAbstractWithLimit raw limit")
     (simp_all add: DecodeWithLimit_bound Decode_Encode_abstract DecodeWithLimit_Encode)

end
