(* ===== verification/Punycode.thy ===== *)
theory Punycode
  imports GoLib
begin

text \<open>
  \<^verbatim>\<open>yagomodel/host_punycode.go\<close>: the labels of a host name in the ASCII form of
  RFC 3492. Runes are natural numbers; the counters of the encoder are natural numbers as
  well, since for a label of less than \<^verbatim>\<open>2^40\<close> runes none of them reaches
  the range of a 64-bit integer.
\<close>

section \<open>Runes\<close>

definition is_cont :: "nat \<Rightarrow> bool" where
  "is_cont b \<longleftrightarrow> 0x80 \<le> b \<and> b \<le> 0xBF"

text \<open>One step of Go's conversion of a string to runes: the rune that the bytes start with
  and its width. Bytes that are not the shortest UTF-8 form of a scalar value are replaced,
  one at a time, by U+FFFD.\<close>

definition byte_at :: "nat list \<Rightarrow> nat \<Rightarrow> nat" where
  "byte_at bs i = (if i < length bs then bs ! i else 0)"

definition decode_rune :: "nat list \<Rightarrow> nat \<times> nat" where
  "decode_rune bs =
     (let a = byte_at bs 0; b = byte_at bs 1; c = byte_at bs 2; d = byte_at bs 3
      in if a < 0x80 then (a, 1)
      else if 0xC2 \<le> a \<and> a \<le> 0xDF \<and> is_cont b then ((a - 0xC0) * 64 + (b - 0x80), 2)
      else if 0xE0 \<le> a \<and> a \<le> 0xEF \<and> is_cont b \<and> is_cont c \<and> (a = 0xE0 \<longrightarrow> 0xA0 \<le> b) \<and>
        (a = 0xED \<longrightarrow> b \<le> 0x9F)
      then ((a - 0xE0) * 4096 + (b - 0x80) * 64 + (c - 0x80), 3)
      else if 0xF0 \<le> a \<and> a \<le> 0xF4 \<and> is_cont b \<and> is_cont c \<and> is_cont d \<and>
        (a = 0xF0 \<longrightarrow> 0x90 \<le> b) \<and> (a = 0xF4 \<longrightarrow> b \<le> 0x8F)
      then ((a - 0xF0) * 262144 + (b - 0x80) * 4096 + (c - 0x80) * 64 + (d - 0x80), 4)
      else (0xFFFD, 1))"

lemma decode_rune_width: "1 \<le> snd (decode_rune bs)"
  by (simp add: decode_rune_def Let_def)

function runes_of_bytes :: "nat list \<Rightarrow> nat list" where
  "runes_of_bytes bs =
     (if bs = [] then []
      else fst (decode_rune bs) # runes_of_bytes (drop (snd (decode_rune bs)) bs))"
  by pat_completeness auto
termination
proof (relation "measure length")
  fix bs :: "nat list"
  assume "bs \<noteq> []"
  then show "(drop (snd (decode_rune bs)) bs, bs) \<in> measure length"
    using decode_rune_width [of bs] by (cases bs) auto
qed simp

declare runes_of_bytes.simps [simp del]

definition runes :: "string \<Rightarrow> nat list" where
  "runes s = runes_of_bytes (map of_char s)"

section \<open>The encoder\<close>

definition punyBase :: nat where "punyBase = 36"
definition punyTMin :: nat where "punyTMin = 1"
definition punyTMax :: nat where "punyTMax = 26"
definition punySkew :: nat where "punySkew = 38"
definition punyDamp :: nat where "punyDamp = 700"
definition punyInitialBias :: nat where "punyInitialBias = 72"
definition punyInitialN :: nat where "punyInitialN = 128"
definition punyPrefix :: string where "punyPrefix = ''xn--''"
definition maxInt32 :: nat where "maxInt32 = 2147483647"

lemmas puny_defs = punyBase_def punyTMin_def punyTMax_def punySkew_def punyDamp_def

definition isBasicString :: "string \<Rightarrow> bool" where
  "isBasicString s = list_all (\<lambda>r. r < 0x80) (runes s)"

definition punyThreshold :: "nat \<Rightarrow> nat \<Rightarrow> nat" where
  "punyThreshold k bias =
     (if k \<le> bias then punyTMin else if k \<ge> bias + punyTMax then punyTMax else k - bias)"

function punyAdapt_loop :: "nat \<Rightarrow> nat \<Rightarrow> nat \<times> nat" where
  "punyAdapt_loop delta k =
     (if delta > ((punyBase - punyTMin) * punyTMax) div 2
      then punyAdapt_loop (delta div (punyBase - punyTMin)) (k + punyBase) else (delta, k))"
  by pat_completeness auto
termination
  by (relation "measure fst") (auto simp: puny_defs)

declare punyAdapt_loop.simps [simp del]

definition punyAdapt :: "nat \<Rightarrow> nat \<Rightarrow> bool \<Rightarrow> nat" where
  "punyAdapt delta numPoints firstTime =
     (let delta = (if firstTime then delta div punyDamp else delta div 2);
          delta = delta + delta div numPoints;
          (delta, k) = punyAdapt_loop delta 0
      in k + (punyBase - punyTMin + 1) * delta div (delta + punySkew))"

definition punyDigit :: "nat \<Rightarrow> char" where
  "punyDigit d = (if d < 26 then char_of ((d + 97) mod 256) else char_of ((d - 26 + 48) mod 256))"

lemma punyThreshold_bounds: "1 \<le> punyThreshold k bias \<and> punyThreshold k bias \<le> 26"
  by (auto simp: punyThreshold_def puny_defs)

text \<open>The digits of one delta as a number of variable length.\<close>

function puny_digits :: "nat \<Rightarrow> nat \<Rightarrow> nat \<Rightarrow> string" where
  "puny_digits bias k q =
     (let t = punyThreshold k bias
      in if q < t then [punyDigit q]
         else punyDigit (t + (q - t) mod (punyBase - t)) #
           puny_digits bias (k + punyBase) ((q - t) div (punyBase - t)))"
  by pat_completeness auto
termination
proof (relation "measure (\<lambda>(bias, k, q). q)")
  fix bias k q t
  assume t: "t = punyThreshold k bias" "\<not> q < t"
  then have b: "1 \<le> t" "t \<le> 26" using punyThreshold_bounds by auto
  have "(q - t) div (punyBase - t) \<le> q - t" by (rule div_le_dividend)
  with b t(2) have "(q - t) div (punyBase - t) < q" by linarith
  then show "((bias, k + punyBase, (q - t) div (punyBase - t)), (bias, k, q))
      \<in> measure (\<lambda>(bias, k, q). q)" by simp
qed simp

declare puny_digits.simps [simp del]

record puny_state =
  p_n :: nat
  p_delta :: nat
  p_bias :: nat
  p_handled :: nat
  p_out :: string

definition puny_least :: "nat list \<Rightarrow> nat \<Rightarrow> nat" where
  "puny_least input n = foldl (\<lambda>m r. if n \<le> r \<and> r < m then r else m) maxInt32 input"

definition puny_rune :: "nat \<Rightarrow> puny_state \<Rightarrow> nat \<Rightarrow> puny_state" where
  "puny_rune basic s c =
     (if c < p_n s then s\<lparr>p_delta := p_delta s + 1\<rparr>
      else if c = p_n s
      then s\<lparr>p_out := p_out s @ puny_digits (p_bias s) punyBase (p_delta s),
             p_bias := punyAdapt (p_delta s) (p_handled s + 1) (p_handled s = basic),
             p_delta := 0, p_handled := p_handled s + 1\<rparr>
      else s)"

definition puny_round :: "nat list \<Rightarrow> nat \<Rightarrow> puny_state \<Rightarrow> puny_state" where
  "puny_round input basic s =
     (let m = puny_least input (p_n s);
          s = s\<lparr>p_delta := p_delta s + (m - p_n s) * (p_handled s + 1), p_n := m\<rparr>;
          s = foldl (puny_rune basic) s input
      in s\<lparr>p_delta := p_delta s + 1, p_n := p_n s + 1\<rparr>)"

text \<open>The outer loop with fuel; \<open>puny_loop_ends\<close> shows that one round per rune is
  enough.\<close>

fun puny_loop :: "nat \<Rightarrow> nat list \<Rightarrow> nat \<Rightarrow> puny_state \<Rightarrow> puny_state option" where
  "puny_loop fuel input basic s =
     (if p_handled s < length input
      then (case fuel of 0 \<Rightarrow> None | Suc f \<Rightarrow> puny_loop f input basic (puny_round input basic s))
      else Some s)"

declare puny_loop.simps [simp del]

definition punycodeEncode :: "nat list \<Rightarrow> string option" where
  "punycodeEncode input =
     (let out = map char_of (filter (\<lambda>r. r < 0x80) input);
          basic = length out
      in map_option p_out (puny_loop (length input) input basic
           \<lparr>p_n = punyInitialN, p_delta = 0, p_bias = punyInitialBias, p_handled = basic,
            p_out = (if basic > 0 then out @ ''-'' else out)\<rparr>))"

fun puny_labels :: "string list \<Rightarrow> string list option" where
  "puny_labels [] = Some []"
| "puny_labels (label # labels) =
     (case (if isBasicString label then Some label
            else map_option ((@) punyPrefix) (punycodeEncode (runes label))) of
        None \<Rightarrow> None
      | Some l \<Rightarrow> map_option ((#) l) (puny_labels labels))"

definition toPunycode :: "string \<Rightarrow> string option" where
  "toPunycode host =
     (if isBasicString host then Some host
      else map_option (join_with ''.'') (puny_labels (split_byte CHR ''.'' host)))"

section \<open>Runes of a string\<close>

lemma cont_bits: "is_cont b \<Longrightarrow> b - 0x80 \<le> 63"
  unfolding is_cont_def by linarith

lemma decode_rune_bound: "fst (decode_rune bs) \<le> 0x10FFFF"
proof -
  let ?a = "byte_at bs 0" and ?b = "byte_at bs 1" and ?c = "byte_at bs 2" and ?d = "byte_at bs 3"
  have "(?a - 0xF0) * 262144 + (?b - 0x80) * 4096 + (?c - 0x80) * 64 + (?d - 0x80) \<le> 0x10FFFF"
    if "0xF0 \<le> ?a" "?a \<le> 0xF4" "is_cont ?b" "is_cont ?c" "is_cont ?d" "?a = 0xF4 \<longrightarrow> ?b \<le> 0x8F"
    using that cont_bits [OF that(3)] cont_bits [OF that(4)] cont_bits [OF that(5)]
    by (cases "?a = 0xF4") auto
  moreover have "(?a - 0xE0) * 4096 + (?b - 0x80) * 64 + (?c - 0x80) \<le> 0x10FFFF"
    if "0xE0 \<le> ?a" "?a \<le> 0xEF" "is_cont ?b" "is_cont ?c"
    using that cont_bits [OF that(3)] cont_bits [OF that(4)] by auto
  moreover have "(?a - 0xC0) * 64 + (?b - 0x80) \<le> 0x10FFFF"
    if "0xC2 \<le> ?a" "?a \<le> 0xDF" "is_cont ?b"
    using that cont_bits [OF that(3)] by auto
  ultimately show ?thesis by (simp add: decode_rune_def Let_def)
qed

lemma runes_of_bytes_bound:
  "r \<in> set (runes_of_bytes bs) \<Longrightarrow> r \<le> 0x10FFFF"
proof (induction bs rule: runes_of_bytes.induct)
  case (1 bs)
  show ?case
  proof (cases "bs = []")
    case True
    with 1 show ?thesis by (simp add: runes_of_bytes.simps)
  next
    case False
    with "1.prems" have "r = fst (decode_rune bs) \<or>
        r \<in> set (runes_of_bytes (drop (snd (decode_rune bs)) bs))"
      by (subst (asm) runes_of_bytes.simps) simp
    then show ?thesis using "1.IH" [OF False] decode_rune_bound [of bs] by blast
  qed
qed

lemma runes_bound: "r \<in> set (runes s) \<Longrightarrow> r < maxInt32"
  using runes_of_bytes_bound [of r "map of_char s"] by (auto simp: runes_def maxInt32_def)

lemma byte_at_Cons [simp]: "byte_at (a # bs) 0 = a"
  by (simp add: byte_at_def)

lemma decode_rune_ascii: "a < 0x80 \<Longrightarrow> decode_rune (a # bs) = (a, 1)"
  by (simp add: decode_rune_def)

lemma decode_rune_high:
  assumes "0x80 \<le> a"
  shows "0x80 \<le> fst (decode_rune (a # bs))"
proof -
  let ?b = "byte_at (a # bs) 1"
  have "0x80 \<le> (a - 0xC0) * 64" if "0xC2 \<le> a" using that by simp
  moreover have "0x80 \<le> (a - 0xE0) * 4096 + (?b - 0x80) * 64"
    if "0xE0 \<le> a" "a = 0xE0 \<longrightarrow> 0xA0 \<le> ?b" using that by (cases "a = 0xE0") auto
  moreover have "0x80 \<le> (a - 0xF0) * 262144 + (?b - 0x80) * 4096"
    if "0xF0 \<le> a" "a = 0xF0 \<longrightarrow> 0x90 \<le> ?b" using that by (cases "a = 0xF0") auto
  ultimately show ?thesis using assms by (simp add: decode_rune_def Let_def trans_le_add1)
qed

lemma isBasicString_iff: "isBasicString s \<longleftrightarrow> list_all is_ascii s"
proof (induction s)
  case Nil
  then show ?case by (simp add: isBasicString_def runes_def runes_of_bytes.simps)
next
  case (Cons c s)
  show ?case
  proof (cases "is_ascii c")
    case True
    then have "decode_rune (of_char c # map of_char s) = (of_char c, 1)"
      by (intro decode_rune_ascii) (simp add: is_ascii_def)
    with True Cons show ?thesis
      by (simp add: isBasicString_def runes_def runes_of_bytes.simps [of "of_char c # map of_char s"])
        (simp add: is_ascii_def [of c])
  next
    case False
    then have "0x80 \<le> fst (decode_rune (of_char c # map of_char s))"
      by (intro decode_rune_high) (simp add: is_ascii_def)
    with False show ?thesis
      by (simp add: isBasicString_def runes_def runes_of_bytes.simps [of "of_char c # map of_char s"])
  qed
qed

section \<open>The loop ends\<close>

definition least_spec :: "nat \<Rightarrow> nat \<Rightarrow> nat list \<Rightarrow> nat \<Rightarrow> bool" where
  "least_spec n a xs v \<longleftrightarrow>
     v \<le> a \<and> (\<forall>r\<in>set xs. n \<le> r \<longrightarrow> v \<le> r) \<and> (v = a \<or> v \<in> set xs \<and> n \<le> v)"

lemma least_spec_Cons:
  assumes "least_spec n (if n \<le> x \<and> x < a then x else a) xs v"
  shows "least_spec n a (x # xs) v"
proof (cases "n \<le> x \<and> x < a")
  case True
  with assms show ?thesis by (auto simp: least_spec_def)
next
  case False
  with assms show ?thesis by (auto simp: least_spec_def)
qed

lemma puny_least_fold: "least_spec n a xs (foldl (\<lambda>m r. if n \<le> r \<and> r < m then r else m) a xs)"
proof (induction xs arbitrary: a)
  case Nil
  then show ?case by (simp add: least_spec_def)
next
  case (Cons x xs)
  then show ?case by (simp only: foldl.simps least_spec_Cons)
qed

lemma puny_least_found:
  assumes "r \<in> set input" "n \<le> r" "r < maxInt32"
  shows "puny_least input n \<in> set input" "n \<le> puny_least input n"
    and "\<And>r'. r' \<in> set input \<Longrightarrow> n \<le> r' \<Longrightarrow> puny_least input n \<le> r'"
  using puny_least_fold [where n = n and a = maxInt32 and xs = input] assms
  unfolding puny_least_def [symmetric] by (auto simp: least_spec_def)

lemma puny_rune_fields:
  "p_n (foldl (puny_rune basic) s xs) = p_n s"
  "p_handled (foldl (puny_rune basic) s xs) = p_handled s + length (filter (\<lambda>r. r = p_n s) xs)"
  by (induction xs arbitrary: s) (auto simp: puny_rune_def)

definition puny_inv :: "nat list \<Rightarrow> puny_state \<Rightarrow> bool" where
  "puny_inv input s \<longleftrightarrow>
     p_handled s = length (filter (\<lambda>r. r < p_n s) input) \<and> list_all is_ascii (p_out s)"

lemma punyDigit_ascii: "d < 36 \<Longrightarrow> is_ascii (punyDigit d)"
  by (simp add: punyDigit_def is_ascii_def of_char_of)

lemma puny_digits_ascii: "list_all is_ascii (puny_digits bias k q)"
proof (induction bias k q rule: puny_digits.induct)
  case (1 bias k q)
  let ?t = "punyThreshold k bias"
  have t: "1 \<le> ?t" "?t \<le> 26" using punyThreshold_bounds by auto
  have "(q - ?t) mod (punyBase - ?t) < punyBase - ?t"
    using t by (intro mod_less_divisor) (simp add: punyBase_def)
  then have "?t + (q - ?t) mod (punyBase - ?t) < 36" using t unfolding punyBase_def by linarith
  moreover have "q < ?t \<Longrightarrow> q < 36" using t by linarith
  ultimately show ?case using 1
    by (subst puny_digits.simps) (simp add: Let_def punyDigit_ascii)
qed

lemma puny_rune_ascii:
  "list_all is_ascii (p_out s) \<Longrightarrow> list_all is_ascii (p_out (foldl (puny_rune basic) s xs))"
  by (induction xs arbitrary: s) (auto simp: puny_rune_def puny_digits_ascii)

lemma count_partition:
  "\<forall>r\<in>set xs. r < (n::nat) \<or> m \<le> r \<Longrightarrow> n \<le> m \<Longrightarrow>
     length (filter (\<lambda>r. r < n) xs) + length (filter (\<lambda>r. r = m) xs) =
       length (filter (\<lambda>r. r < m + 1) xs)"
  by (induction xs) auto

text \<open>Every round handles the runes of the next larger value, and there is one as long as
  runes are left.\<close>

lemma puny_round_inv:
  assumes inv: "puny_inv input s" and left: "p_handled s < length input"
    and bound: "\<forall>r\<in>set input. r < maxInt32"
  shows "puny_inv input (puny_round input basic s) \<and>
    p_handled s < p_handled (puny_round input basic s)"
proof -
  have "\<exists>r\<in>set input. p_n s \<le> r"
  proof (rule ccontr)
    assume "\<not> ?thesis"
    then have "filter (\<lambda>r. r < p_n s) input = input" by (intro filter_True) auto
    with inv left show False by (simp add: puny_inv_def)
  qed
  then obtain r where r: "r \<in> set input" "p_n s \<le> r" "r < maxInt32" using bound by blast
  note least = puny_least_found [OF r]
  let ?m = "puny_least input (p_n s)"
  let ?s = "s\<lparr>p_delta := p_delta s + (?m - p_n s) * (p_handled s + 1), p_n := ?m\<rparr>"
  have part: "\<forall>r\<in>set input. r < p_n s \<or> ?m \<le> r" using least(3) not_le by blast
  have "?m \<in> set (filter (\<lambda>r. r = ?m) input)" using least(1) by simp
  then have "0 < length (filter (\<lambda>r. r = ?m) input)" by (rule length_pos_if_in_set)
  moreover have fields: "p_n (puny_round input basic s) = ?m + 1"
    "p_handled (puny_round input basic s) = p_handled s + length (filter (\<lambda>r. r = ?m) input)"
    "p_out (puny_round input basic s) = p_out (foldl (puny_rune basic) ?s input)"
    by (simp_all add: puny_round_def Let_def puny_rune_fields)
  moreover have "list_all is_ascii (p_out (puny_round input basic s))"
    unfolding fields by (rule puny_rune_ascii) (use inv in \<open>simp add: puny_inv_def\<close>)
  moreover have "p_handled s + length (filter (\<lambda>r. r = ?m) input) =
      length (filter (\<lambda>r. r < ?m + 1) input)"
    using inv count_partition [OF part least(2)] by (simp only: puny_inv_def)
  ultimately show ?thesis unfolding puny_inv_def fields by linarith
qed

lemma puny_loop_ends:
  assumes "\<forall>r\<in>set input. r < maxInt32"
  shows "puny_inv input s \<Longrightarrow> length input - p_handled s \<le> fuel \<Longrightarrow>
    \<exists>s'. puny_loop fuel input basic s = Some s' \<and> puny_inv input s' \<and> p_handled s' = length input"
proof (induction fuel arbitrary: s)
  case 0
  moreover have "p_handled s \<le> length input" using 0 by (simp add: puny_inv_def)
  ultimately show ?case by (subst puny_loop.simps) simp
next
  case (Suc fuel)
  show ?case
  proof (cases "p_handled s < length input")
    case True
    have "length input - p_handled (puny_round input basic s) \<le> fuel"
      using puny_round_inv [OF Suc.prems(1) True assms, of basic] Suc.prems(2) by linarith
    with puny_round_inv [OF Suc.prems(1) True assms, of basic] Suc.IH True show ?thesis
      by (subst puny_loop.simps) simp
  next
    case False
    moreover have "p_handled s \<le> length input" using Suc.prems by (simp add: puny_inv_def)
    ultimately show ?thesis using Suc.prems by (subst puny_loop.simps) simp
  qed
qed

lemma punycodeEncode_ascii:
  assumes "\<forall>r\<in>set input. r < maxInt32"
  shows "\<exists>out. punycodeEncode input = Some out \<and> list_all is_ascii out"
proof -
  let ?out = "map char_of (filter (\<lambda>r. r < 0x80) input) :: string"
  have "list_all is_ascii ?out"
    by (auto simp: list_all_iff is_ascii_def of_char_of)
  moreover have "is_ascii CHR ''-''" by (simp add: is_ascii_def)
  ultimately have "puny_inv input
      \<lparr>p_n = punyInitialN, p_delta = 0, p_bias = punyInitialBias, p_handled = length ?out,
       p_out = (if length ?out > 0 then ?out @ ''-'' else ?out)\<rparr>"
    by (simp add: puny_inv_def punyInitialN_def)
  from puny_loop_ends [OF assms this, of "length input" "length ?out"] show ?thesis
    unfolding punycodeEncode_def Let_def puny_inv_def by fastforce
qed

lemma puny_labels_ascii:
  "\<exists>out. puny_labels labels = Some out \<and> list_all (list_all is_ascii) out \<and>
     length out = length labels"
proof (induction labels)
  case (Cons label labels)
  obtain out where "punycodeEncode (runes label) = Some out" "list_all is_ascii out"
    using punycodeEncode_ascii [of "runes label"] runes_bound by blast
  moreover have "list_all is_ascii punyPrefix" by (simp add: punyPrefix_def is_ascii_def)
  ultimately show ?case using Cons isBasicString_iff [of label]
    by (cases "isBasicString label") auto
qed simp

lemma list_all_join_with:
  "list_all P sep \<Longrightarrow> list_all (list_all P) xs \<Longrightarrow> list_all P (join_with sep xs)"
  by (induction sep xs rule: join_with.induct) auto

section \<open>Properties\<close>

text \<open>C39: The conversion of a host name ends on every string, a host name of ASCII characters is
  kept as it is, and every other one becomes ASCII; converting the result again changes
  nothing.\<close>

theorem punycode_total:
  "\<exists>out. toPunycode host = Some out \<and> list_all is_ascii out \<and> toPunycode out = Some out \<and>
     (list_all is_ascii host \<longleftrightarrow> out = host)"
proof (cases "isBasicString host")
  case True
  then show ?thesis by (simp add: toPunycode_def isBasicString_iff)
next
  case False
  obtain out where out: "puny_labels (split_byte CHR ''.'' host) = Some out"
    "list_all (list_all is_ascii) out"
    using puny_labels_ascii by blast
  have "list_all is_ascii (join_with ''.'' out)"
    by (rule list_all_join_with [OF _ out(2)]) (simp add: is_ascii_def)
  with out(1) False show ?thesis by (auto simp: toPunycode_def isBasicString_iff)
qed

end
