(* ===== verification/Backpath.thy ===== *)
theory Backpath
  imports GoLib
begin

text \<open>
  \<^verbatim>\<open>yagomodel/resolve_backpath.go\<close>: the normal form of the path of an address. A
  position of the path is the suffix that starts there. The lemmas show that the loop of
  \<^verbatim>\<open>resolveBackpath\<close> ends, that its result has no parent segment left and that it is a
  fixed point.
\<close>

section \<open>Definitions\<close>

text \<open>\<^verbatim>\<open>matchParentBackpath(p, i)\<close> for \<open>p[i:] = '/' # rest\<close>: the part of the
  path after a segment and the parent reference that follows it.\<close>

definition matchParentBackpath :: "string \<Rightarrow> string option" where
  "matchParentBackpath rest =
     (let seg = takeWhile (\<lambda>c. c \<noteq> CHR ''/'') rest;
          after = dropWhile (\<lambda>c. c \<noteq> CHR ''/'') rest
      in if seg = [] \<or> seg = ''.'' \<or> seg = ''..'' then None
         else if has_prefix after ''/..'' then
           (let tail = drop 3 after
            in if tail = [] \<or> hd tail = CHR ''/'' then Some tail else None)
         else None)"

lemma matchParentBackpath_length:
  "matchParentBackpath rest = Some tail \<Longrightarrow> length tail < length rest"
proof -
  assume m: "matchParentBackpath rest = Some tail"
  let ?after = "dropWhile (\<lambda>c. c \<noteq> CHR ''/'') rest"
  have tail: "tail = drop 3 ?after" and ne: "?after \<noteq> []"
    using m by (auto simp: matchParentBackpath_def Let_def has_prefix_def split: if_splits
        simp del: dropWhile_eq_Nil_conv)
  from ne have "0 < length ?after" by (simp only: length_greater_0_conv simp_thms)
  moreover have "length ?after \<le> length rest" by (rule length_dropWhile_le)
  ultimately show ?thesis unfolding tail length_drop by linarith
qed

function collapseBackpath :: "string \<Rightarrow> string" where
  "collapseBackpath [] = []"
| "collapseBackpath (c # rest) =
     (if c = CHR ''/''
      then (case matchParentBackpath rest of
              Some tail \<Rightarrow> collapseBackpath tail
            | None \<Rightarrow>
                if has_prefix rest ''./'' then collapseBackpath (tl rest)
                else if has_prefix rest ''/'' then collapseBackpath rest
                else c # collapseBackpath rest)
      else c # collapseBackpath rest)"
  by pat_completeness auto
termination
  by (relation "measure length") (auto dest: matchParentBackpath_length)

lemma length_collapseBackpath: "length (collapseBackpath p) \<le> length p"
proof (induction p rule: collapseBackpath.induct)
  case (2 c rest)
  show ?case
  proof (cases "c = CHR ''/''")
    case True
    show ?thesis
    proof (cases "matchParentBackpath rest")
      case None
      with True 2 show ?thesis by (auto simp: le_diff_conv intro: le_trans)
    next
      case (Some tail)
      with True 2(4) [OF True Some] matchParentBackpath_length [OF Some] show ?thesis by simp
    qed
  next
    case False
    with 2 show ?thesis by simp
  qed
qed simp

text \<open>A round that changes the path makes it shorter.\<close>

lemma collapseBackpath_shorter:
  "collapseBackpath p \<noteq> p \<Longrightarrow> length (collapseBackpath p) < length p"
proof (induction p rule: collapseBackpath.induct)
  case (2 c rest)
  show ?case
  proof (cases "c = CHR ''/''")
    case c: True
    show ?thesis
    proof (cases "matchParentBackpath rest")
      case None
      then consider "has_prefix rest ''./''" | "\<not> has_prefix rest ''./''" "has_prefix rest ''/''"
        | "\<not> has_prefix rest ''./''" "\<not> has_prefix rest ''/''" by blast
      then show ?thesis
      proof cases
        case 1
        with c None length_collapseBackpath [of "tl rest"] show ?thesis by (simp add: le_diff_conv)
      next
        case 2
        with c None length_collapseBackpath [of rest] show ?thesis by simp
      next
        case 3
        with c None "2.prems" "2.IH"(3) show ?thesis by simp
      qed
    next
      case (Some tail)
      with c matchParentBackpath_length [OF Some] length_collapseBackpath [of "tail"]
      show ?thesis by simp
    qed
  next
    case False
    with 2 show ?thesis by simp
  qed
qed simp

text \<open>The first loop of \<^verbatim>\<open>resolveBackpath\<close> runs until nothing changes.\<close>

function collapse_all :: "string \<Rightarrow> string" where
  "collapse_all p = (let next = collapseBackpath p in if next = p then p else collapse_all next)"
  by pat_completeness auto
termination
  by (relation "measure length") (auto dest: collapseBackpath_shorter)

declare collapse_all.simps [simp del]

function strip_parents :: "string \<Rightarrow> string" where
  "strip_parents p = (if has_prefix p ''/../'' then strip_parents (drop 3 p) else p)"
  by pat_completeness auto
termination
  by (relation "measure length") (auto simp: has_prefix_def dest: arg_cong [where f = length])

declare strip_parents.simps [simp del]

definition resolveBackpath :: "string \<Rightarrow> string" where
  "resolveBackpath path =
     (let p = (if path = [] \<or> hd path \<noteq> CHR ''/'' then CHR ''/'' # path else path);
          p = strip_parents (collapse_all p);
          p = (if p = ''/..'' then ''/'' else p)
      in if p = [] then ''/'' else p)"

section \<open>Fixed points of a round\<close>

text \<open>A path is collapsed if none of the three rules applies at any of its slashes.\<close>

fun collapsed :: "string \<Rightarrow> bool" where
  "collapsed [] = True"
| "collapsed (c # rest) =
     ((c = CHR ''/'' \<longrightarrow> matchParentBackpath rest = None \<and> \<not> has_prefix rest ''./'' \<and>
        \<not> has_prefix rest ''/'') \<and> collapsed rest)"

lemma collapsed_iff: "collapseBackpath p = p \<longleftrightarrow> collapsed p"
proof (induction p)
  case (Cons c rest)
  show ?case
  proof (cases "c = CHR ''/''")
    case c: True
    show ?thesis
    proof (cases "matchParentBackpath rest")
      case None
      have "length (collapseBackpath (tl rest)) \<le> length rest"
        using length_collapseBackpath [of "tl rest"] by simp
      then have "collapseBackpath (tl rest) \<noteq> c # rest" by auto
      moreover have "collapseBackpath rest \<noteq> c # rest"
        using length_collapseBackpath [of rest] by auto
      ultimately show ?thesis using c None Cons by simp
    next
      case (Some tail)
      then have "length (collapseBackpath tail) < length (c # rest)"
        using matchParentBackpath_length [OF Some] length_collapseBackpath [of "tail"] by simp
      then have "collapseBackpath tail \<noteq> c # rest" by auto
      with c Some show ?thesis by simp
    qed
  next
    case False
    with Cons show ?thesis by simp
  qed
qed simp

lemma collapse_all_collapsed: "collapsed (collapse_all p)"
proof (induction p rule: collapse_all.induct)
  case (1 p)
  then show ?case by (subst collapse_all.simps) (auto simp: Let_def collapsed_iff)
qed

lemma collapse_all_id: "collapsed p \<Longrightarrow> collapse_all p = p"
  by (subst collapse_all.simps) (simp add: Let_def collapsed_iff)

lemma collapsed_drop: "collapsed p \<Longrightarrow> collapsed (drop n p)"
proof (induction p arbitrary: n)
  case (Cons c p)
  then show ?case by (cases n) simp_all
qed simp

lemma strip_parents_collapsed: "collapsed p \<Longrightarrow> collapsed (strip_parents p)"
proof (induction p rule: strip_parents.induct)
  case (1 p)
  then show ?case by (subst strip_parents.simps) (simp add: collapsed_drop)
qed

lemma strip_parents_prefix: "\<not> has_prefix (strip_parents p) ''/../''"
proof (induction p rule: strip_parents.induct)
  case (1 p)
  then show ?case by (subst strip_parents.simps) simp
qed

lemma strip_parents_id: "\<not> has_prefix p ''/../'' \<Longrightarrow> strip_parents p = p"
  by (subst strip_parents.simps) simp

section \<open>Segments\<close>

definition rooted :: "string \<Rightarrow> bool" where
  "rooted p \<longleftrightarrow> p = [] \<or> hd p = CHR ''/''"

lemma collapseBackpath_rooted: "rooted p \<Longrightarrow> rooted (collapseBackpath p)"
proof (induction p rule: collapseBackpath.induct)
  case (2 c rest)
  then have c: "c = CHR ''/''" by (simp add: rooted_def)
  show ?case
  proof (cases "matchParentBackpath rest")
    case None
    have "has_prefix rest ''./'' \<Longrightarrow> rooted (tl rest)" "has_prefix rest ''/'' \<Longrightarrow> rooted rest"
      by (auto simp: rooted_def has_prefix_iff)
    with c None "2.IH"(1) [OF c None] "2.IH"(2) [OF c None] show ?thesis
      by (cases "has_prefix rest ''./''"; cases "has_prefix rest ''/''") (simp_all add: rooted_def)
  next
    case (Some tail)
    then have "rooted tail"
      by (auto simp: matchParentBackpath_def Let_def rooted_def split: if_splits)
    with c Some 2 show ?thesis by simp
  qed
qed simp

lemma collapse_all_rooted: "rooted p \<Longrightarrow> rooted (collapse_all p)"
proof (induction p rule: collapse_all.induct)
  case (1 p)
  then show ?case by (subst collapse_all.simps) (simp add: Let_def collapseBackpath_rooted)
qed

lemma strip_parents_rooted: "rooted p \<Longrightarrow> rooted (strip_parents p)"
proof (induction p rule: strip_parents.induct)
  case (1 p)
  have "has_prefix p ''/../'' \<Longrightarrow> rooted (drop 3 p)"
    by (auto simp: has_prefix_iff rooted_def)
  with 1 show ?case by (subst strip_parents.simps) simp
qed

lemma split_byte_segments:
  "split_byte c rest =
     takeWhile (\<lambda>x. x \<noteq> c) rest #
       (case dropWhile (\<lambda>x. x \<noteq> c) rest of [] \<Rightarrow> [] | _ # rest' \<Rightarrow> split_byte c rest')"
  by (induction rest) (auto split: list.splits)

lemma matchParent_next:
  assumes "matchParentBackpath rest = None" "dropWhile (\<lambda>c. c \<noteq> CHR ''/'') rest = CHR ''/'' # rest'"
    and "takeWhile (\<lambda>c. c \<noteq> CHR ''/'') rest \<notin> {[], ''.'', ''..''}"
  shows "takeWhile (\<lambda>c. c \<noteq> CHR ''/'') rest' \<noteq> ''..''"
proof
  assume up: "takeWhile (\<lambda>c. c \<noteq> CHR ''/'') rest' = ''..''"
  let ?tail = "dropWhile (\<lambda>c. c \<noteq> CHR ''/'') rest'"
  have rest': "rest' = ''..'' @ ?tail" by (metis up takeWhile_dropWhile_id)
  have "?tail = [] \<or> hd ?tail = CHR ''/''" using hd_dropWhile [of "\<lambda>c. c \<noteq> CHR ''/''" rest'] by blast
  moreover have "drop 3 (CHR ''/'' # rest') = ?tail" by (subst rest') simp
  moreover have "has_prefix (CHR ''/'' # rest') ''/..''" by (subst rest') (simp add: has_prefix_def)
  ultimately have "matchParentBackpath rest = Some ?tail"
    using assms(2,3) by (simp add: matchParentBackpath_def Let_def)
  with assms(1) show False by simp
qed

definition inner_segment :: "string \<Rightarrow> bool" where
  "inner_segment s \<longleftrightarrow> s \<noteq> [] \<and> s \<noteq> ''.''"

lemma collapsed_segments:
  "collapsed (CHR ''/'' # rest) \<Longrightarrow> takeWhile (\<lambda>c. c \<noteq> CHR ''/'') rest \<noteq> ''..'' \<Longrightarrow>
     ''..'' \<notin> set (split_byte CHR ''/'' rest) \<and>
     list_all inner_segment (butlast (split_byte CHR ''/'' rest))"
proof (induction "length rest" arbitrary: rest rule: less_induct)
  case less
  let ?seg = "takeWhile (\<lambda>c. c \<noteq> CHR ''/'') rest" and ?after = "dropWhile (\<lambda>c. c \<noteq> CHR ''/'') rest"
  show ?case
  proof (cases ?after)
    case Nil
    have "split_byte CHR ''/'' rest = [?seg]" by (subst split_byte_segments) (simp only: Nil list.case)
    with less.prems show ?thesis by simp
  next
    case (Cons c rest')
    then have c: "c = CHR ''/''" using hd_dropWhile [of "\<lambda>c. c \<noteq> CHR ''/''" rest] by simp
    have split: "split_byte CHR ''/'' rest = ?seg # split_byte CHR ''/'' rest'"
      by (subst split_byte_segments) (simp add: Cons)
    have rest: "rest = ?seg @ CHR ''/'' # rest'"
      using takeWhile_dropWhile_id [of "\<lambda>c. c \<noteq> CHR ''/''" rest] Cons c by simp
    have "?seg \<noteq> []" "?seg \<noteq> ''.''"
      using less.prems(1) rest by (auto simp: has_prefix_def)
    then have inner: "inner_segment ?seg" by (simp add: inner_segment_def)
    have "takeWhile (\<lambda>c. c \<noteq> CHR ''/'') rest' \<noteq> ''..''"
      using less.prems \<open>?seg \<noteq> []\<close> \<open>?seg \<noteq> ''.''\<close> Cons c by (intro matchParent_next [of rest]) auto
    moreover have "collapsed (CHR ''/'' # rest')"
      using collapsed_drop [OF less.prems(1), of "Suc (length ?seg)"] rest
      by (metis append_eq_conv_conj drop_Suc_Cons)
    moreover have "length rest' < length rest" by (subst rest) simp
    ultimately have "''..'' \<notin> set (split_byte CHR ''/'' rest') \<and>
        list_all inner_segment (butlast (split_byte CHR ''/'' rest'))"
      by (intro less.hyps)
    moreover have "split_byte CHR ''/'' rest' \<noteq> []" by (subst split_byte_segments) simp
    ultimately show ?thesis using split inner less.prems(2) by simp
  qed
qed

lemma resolveBackpath_cases:
  obtains (root) "resolveBackpath path = ''/''"
  | (rooted) rest where "resolveBackpath path = CHR ''/'' # rest" "collapsed (CHR ''/'' # rest)"
      "\<not> has_prefix (CHR ''/'' # rest) ''/../''" "CHR ''/'' # rest \<noteq> ''/..''"
proof -
  let ?p = "if path = [] \<or> hd path \<noteq> CHR ''/'' then CHR ''/'' # path else path"
  let ?q = "strip_parents (collapse_all ?p)"
  have "rooted ?p" by (simp add: rooted_def)
  then have q: "rooted ?q" by (rule strip_parents_rooted [OF collapse_all_rooted])
  have q': "collapsed ?q" "\<not> has_prefix ?q ''/../''"
    by (rule strip_parents_collapsed [OF collapse_all_collapsed]) (rule strip_parents_prefix)
  show ?thesis
  proof (cases "?q = [] \<or> ?q = ''/..''")
    case True
    then have "resolveBackpath path = ''/''" unfolding resolveBackpath_def Let_def by auto
    then show ?thesis by (rule root)
  next
    case False
    then obtain rest where rest: "?q = CHR ''/'' # rest"
      using q by (cases "?q") (auto simp: rooted_def)
    moreover have "resolveBackpath path = ?q" using False unfolding resolveBackpath_def Let_def by auto
    ultimately show ?thesis using rooted [of rest] q' False by metis
  qed
qed

lemma first_segment_not_parent:
  assumes "\<not> has_prefix (CHR ''/'' # rest) ''/../''" "CHR ''/'' # rest \<noteq> ''/..''"
  shows "takeWhile (\<lambda>c. c \<noteq> CHR ''/'') rest \<noteq> ''..''"
proof
  assume up: "takeWhile (\<lambda>c. c \<noteq> CHR ''/'') rest = ''..''"
  let ?after = "dropWhile (\<lambda>c. c \<noteq> CHR ''/'') rest"
  have rest: "rest = ''..'' @ ?after" by (metis up takeWhile_dropWhile_id)
  show False
  proof (cases ?after)
    case Nil
    with rest assms(2) show ?thesis by simp
  next
    case (Cons c t)
    then have "c = CHR ''/''" using hd_dropWhile [of "\<lambda>c. c \<noteq> CHR ''/''" rest] by simp
    with Cons rest have "CHR ''/'' # rest = ''/../'' @ t" by simp
    with assms(1) show ?thesis by (metis has_prefix_iff)
  qed
qed

lemma resolveBackpath_id:
  assumes "collapsed (CHR ''/'' # rest)" "\<not> has_prefix (CHR ''/'' # rest) ''/../''"
    "CHR ''/'' # rest \<noteq> ''/..''"
  shows "resolveBackpath (CHR ''/'' # rest) = CHR ''/'' # rest"
  using assms(3)
  by (simp add: resolveBackpath_def Let_def collapse_all_id [OF assms(1)] strip_parents_id [OF assms(2)])

lemma collapsed_root: "resolveBackpath ''/'' = ''/''"
  by (rule resolveBackpath_id) (simp_all add: matchParentBackpath_def has_prefix_def)

section \<open>Properties\<close>

text \<open>C38: Resolving a path always ends with a path from the root in which no segment is a parent
  reference, and in which only the last segment may be empty or the current directory: an
  address can not step out of its host's root. Resolving again changes nothing.\<close>

theorem backpath_resolved:
  "let segments = split_byte CHR ''/'' (resolveBackpath path)
   in hd segments = [] \<and> ''..'' \<notin> set segments \<and>
      list_all inner_segment (butlast (tl segments)) \<and>
      resolveBackpath (resolveBackpath path) = resolveBackpath path"
proof (cases rule: resolveBackpath_cases [of path])
  case root
  then show ?thesis by (simp add: collapsed_root Let_def)
next
  case (rooted rest)
  have "split_byte CHR ''/'' rest \<noteq> []" by (subst split_byte_segments) simp
  with collapsed_segments [OF rooted(2) first_segment_not_parent [OF rooted(3,4)]]
    resolveBackpath_id [OF rooted(2-4)] rooted(1)
  show ?thesis by (simp add: Let_def)
qed

end
