(* ===== verification/UrlAddress.thy ===== *)
theory UrlAddress
  imports Punycode Backpath Hashes
begin

text \<open>
  \<^verbatim>\<open>yagomodel/url_address.go\<close> and \<^verbatim>\<open>yagomodel/tld_region_id.go\<close>: the parts
  of an address, its normal form and the region of its host. Two parts of Go's library are
  parameters: \<open>u\<close>, the lower case of a string that is not ASCII, and \<open>parse\<close>, the
  address parser of \<^verbatim>\<open>net/url\<close>, which yields the fields and methods of
  \<^verbatim>\<open>url.URL\<close> that the code reads. A slice out of its bounds is a panic, the value
  \<open>None\<close>.
\<close>

section \<open>Regions of host names\<close>

definition tldEuropeRussiaID :: nat where "tldEuropeRussiaID = 0"
definition tldMiddleSouthAmericaID :: nat where "tldMiddleSouthAmericaID = 1"
definition tldSouthEastAsiaID :: nat where "tldSouthEastAsiaID = 2"
definition tldMiddleEastWestAsiaID :: nat where "tldMiddleEastWestAsiaID = 3"
definition tldNorthAmericaOceaniaID :: nat where "tldNorthAmericaOceaniaID = 4"
definition tldAfricaID :: nat where "tldAfricaID = 5"
definition tldGenericID :: nat where "tldGenericID = 6"
definition tldLocalID :: nat where "tldLocalID = 7"

lemmas tld_ids = tldEuropeRussiaID_def tldMiddleSouthAmericaID_def tldSouthEastAsiaID_def
  tldMiddleEastWestAsiaID_def tldNorthAmericaOceaniaID_def tldAfricaID_def tldGenericID_def
  tldLocalID_def

definition tldRegionGroups :: "(nat \<times> string list) list" where
  "tldRegionGroups =
     [(tldEuropeRussiaID,
        [''ad'', ''al'', ''aq'', ''at'', ''ax'', ''ba'', ''be'', ''bg'', ''bv'', ''by'',
         ''cat'', ''ch'', ''cs'', ''cz'', ''cy'', ''de'', ''dk'', ''es'', ''ee'', ''eu'',
         ''fi'', ''fo'', ''fr'', ''fx'', ''gb'', ''gg'', ''gi'', ''gl'', ''gr'', ''hr'',
         ''hu'', ''ie'', ''im'', ''is'', ''it'', ''je'', ''li'', ''lt'', ''lu'', ''lv'',
         ''mc'', ''md'', ''me'', ''mk'', ''mn'', ''ms'', ''mt'', ''mq'', ''nato'', ''nl'',
         ''no'', ''pf'', ''pl'', ''pm'', ''pt'', ''ro'', ''rs'', ''ru'', ''se'', ''si'',
         ''sj'', ''sm'', ''sk'', ''su'', ''tf'', ''uk'', ''ua'', ''va'', ''yu'']),
      (tldMiddleSouthAmericaID,
        [''ar'', ''aw'', ''br'', ''bo'', ''cl'', ''co'', ''cr'', ''cu'', ''do'', ''ec'',
         ''fk'', ''gf'', ''gt'', ''gy'', ''hn'', ''jm'', ''mx'', ''ni'', ''pa'', ''pe'',
         ''py'', ''sr'', ''sv'', ''uy'', ''ve'']),
      (tldSouthEastAsiaID,
        [''asia'', ''bd'', ''bn'', ''bt'', ''cn'', ''hk'', ''id'', ''in'', ''la'', ''np'',
         ''jp'', ''kh'', ''kp'', ''kr'', ''lk'', ''my'', ''mm'', ''mo'', ''mv'', ''ph'',
         ''sg'', ''tp'', ''th'', ''tl'', ''tw'', ''vn'']),
      (tldMiddleEastWestAsiaID,
        [''ae'', ''af'', ''am'', ''az'', ''bh'', ''ge'', ''il'', ''iq'', ''ir'', ''jo'',
         ''kg'', ''kz'', ''kw'', ''lb'', ''ps'', ''om'', ''qa'', ''sa'', ''sy'', ''tj'',
         ''tm'', ''pk'', ''tr'', ''uz'', ''ye'']),
      (tldNorthAmericaOceaniaID,
        [''edu'', ''gov'', ''mil'', ''net'', ''org'', ''an'', ''as'', ''ag'', ''ai'',
         ''au'', ''bb'', ''bz'', ''bm'', ''bs'', ''ca'', ''cc'', ''ck'', ''cx'', ''dm'',
         ''fm'', ''fj'', ''gd'', ''gp'', ''gs'', ''gu'', ''hm'', ''ht'', ''io'', ''ki'',
         ''kn'', ''ky'', ''lc'', ''mf'', ''mh'', ''mp'', ''nc'', ''nf'', ''nr'', ''nu'',
         ''nz'', ''pg'', ''pn'', ''pr'', ''pw'', ''sb'', ''tc'', ''tk'', ''to'', ''tt'',
         ''tv'', ''um'', ''us'', ''vc'', ''vg'', ''vi'', ''vu'', ''wf'', ''ws'']),
      (tldAfricaID,
        [''ac'', ''ao'', ''bf'', ''bi'', ''bj'', ''bw'', ''cd'', ''cf'', ''cg'', ''ci'',
         ''cm'', ''cv'', ''dj'', ''dz'', ''eg'', ''eh'', ''er'', ''et'', ''ga'', ''gh'',
         ''gm'', ''gn'', ''gq'', ''gw'', ''ke'', ''km'', ''lr'', ''ls'', ''ly'', ''ma'',
         ''mg'', ''ml'', ''mr'', ''mu'', ''mw'', ''mz'', ''na'', ''ne'', ''ng'', ''re'',
         ''rw'', ''sc'', ''sd'', ''sh'', ''sl'', ''sn'', ''so'', ''st'', ''sz'', ''td'',
         ''tg'', ''tn'', ''tz'', ''ug'', ''za'', ''zm'', ''zr'', ''zw'', ''yt''])]"

definition buildTLDRegionID :: "(string, nat) gomap" where
  "buildTLDRegionID =
     foldl (\<lambda>m (region, tlds). foldl (\<lambda>m tld. AList.update tld region m) m tlds) [] tldRegionGroups"

text \<open>The alternatives of \<^verbatim>\<open>intranetHostPattern\<close>. Its dot stands for any character but a
  newline; ignoring case, the letter s also stands for the long s, U+017F.\<close>

fun fold_case :: "string \<Rightarrow> string" where
  "fold_case [] = []"
| "fold_case [c] = [ascii_lower c]"
| "fold_case (c # d # s) =
     (if c = CHR 0xC5 \<and> d = CHR 0xBF then CHR ''s'' # fold_case s
      else ascii_lower c # fold_case (d # s))"

definition any_text :: "string \<Rightarrow> bool" where
  "any_text s \<longleftrightarrow> CHR 0x0A \<notin> set s"

definition starts_any :: "string \<Rightarrow> string \<Rightarrow> bool" where
  "starts_any p s \<longleftrightarrow> has_prefix s p \<and> any_text (drop (length p) s)"

definition intranetHostPattern :: "string \<Rightarrow> bool" where
  "intranetHostPattern host =
     (let h = fold_case host; b = (if h \<noteq> [] \<and> hd h = CHR ''['' then tl h else h)
      in h = ''localhost'' \<or> starts_any ''127.'' h \<or> starts_any ''10.'' h \<or>
         list_ex (\<lambda>n. starts_any (''172.'' @ format_uint n @ ''.'') h) [16..<32] \<or>
         starts_any ''169.254.'' h \<or> starts_any ''192.168.'' h \<or> starts_any ''fe80:'' b \<or>
         starts_any ''0:0:0:0:0:0:0:1'' b \<or> b = ''::1'' \<or>
         (starts_any ''fc'' b \<or> starts_any ''fd'' b) \<and> CHR '':'' \<in> set b)"

definition isLocalHost :: "string \<Rightarrow> bool" where
  "isLocalHost host =
     (if host = [] then True
      else if intranetHostPattern host then True else CHR ''.'' \<notin> set host)"

definition host_tld :: "string \<Rightarrow> string" where
  "host_tld host = (case last_index_byte host CHR ''.'' of
     Some p \<Rightarrow> if p > 0 then drop (Suc p) host else [] | None \<Rightarrow> [])"

definition DomainID :: "string \<Rightarrow> nat" where
  "DomainID host =
     (if host = [] then tldLocalID
      else (case map_of buildTLDRegionID (host_tld host) of
              Some region \<Rightarrow> region
            | None \<Rightarrow> if isLocalHost host then tldLocalID else tldGenericID))"

section \<open>Addresses\<close>

record urlAddress =
  a_protocol :: string
  a_userInfo :: string
  a_host :: string
  a_port :: int
  a_path :: string
  a_query :: string
  a_hasQuery :: bool
  a_anchor :: string
  a_hasAnchor :: bool

text \<open>What the code reads of the \<^verbatim>\<open>url.URL\<close> that \<^verbatim>\<open>url.Parse\<close> returns.\<close>

record parsed_url =
  u_scheme :: string
  u_user :: "string option"
  u_host :: string
  u_hostname :: string
  u_port :: string
  u_path :: string
  u_escaped_path :: string
  u_raw_query :: string
  u_force_query :: bool
  u_fragment :: string

type_synonym url_parser = "string \<Rightarrow> parsed_url option"

definition defaultProtocolPort :: "(string, int) gomap" where
  "defaultProtocolPort = [(''http'', 80), (''https'', 443), (''ftp'', 21), (''smb'', 445)]"

definition sessionIDNames :: "string list" where
  "sessionIDNames = [''phpsessionid'', ''phpsessid'', ''jsessionid'', ''sid'']"

text \<open>\<^verbatim>\<open>unicode.IsLetter\<close> of a byte, a Latin-1 code point.\<close>

definition is_latin1_letter :: "char \<Rightarrow> bool" where
  "is_latin1_letter c = (let n = (of_char c :: nat)
     in 65 \<le> n \<and> n \<le> 90 \<or> 97 \<le> n \<and> n \<le> 122 \<or> n = 0xAA \<or> n = 0xB5 \<or> n = 0xBA \<or>
        0xC0 \<le> n \<and> n \<noteq> 0xD7 \<and> n \<noteq> 0xF7)"

definition drivePrefix :: "string \<Rightarrow> bool" where
  "drivePrefix path =
     (length path \<ge> 2 \<and> is_latin1_letter (path ! 0) \<and> path ! 1 = CHR '':'')"

definition cleanDrivePath :: "string \<Rightarrow> string" where
  "cleanDrivePath path =
     (if length path > 2 \<and> path ! 2 \<noteq> CHR ''/'' then take 2 path @ ''/'' @ drop 2 path else path)"

definition trim_prefix :: "string \<Rightarrow> string \<Rightarrow> string" where
  "trim_prefix s p = (if has_prefix s p then drop (length p) s else s)"

definition trim_suffix :: "string \<Rightarrow> string \<Rightarrow> string" where
  "trim_suffix s p = (if has_suffix s p then take (length s - length p) s else s)"

definition trim_right_byte :: "char \<Rightarrow> string \<Rightarrow> string" where
  "trim_right_byte c s = rev (dropWhile (\<lambda>x. x = c) (rev s))"

definition filePrefix :: string where "filePrefix = ''file://''"

definition cleanFileURL :: "(string \<Rightarrow> string) \<Rightarrow> string \<Rightarrow> string" where
  "cleanFileURL u raw =
     (if \<not> has_prefix (to_lower u raw) filePrefix then raw
      else
        (let rest = replace_byte CHR 0x5C CHR ''/'' (drop (length filePrefix) raw);
             trimmed = trim_prefix rest ''/''
         in if drivePrefix trimmed then filePrefix @ ''/'' @ cleanDrivePath trimmed
            else filePrefix @ rest))"

definition cleanMalformedDefaultPort :: "string \<Rightarrow> string" where
  "cleanMalformedDefaultPort raw = (case index_of raw ''://'' of
     None \<Rightarrow> raw
   | Some schemeEnd \<Rightarrow>
       if map ascii_lower (take schemeEnd raw) = ''file'' then raw
       else
         (let authorityStart = schemeEnd + 3;
              rest = drop authorityStart raw;
              pathStart = (case index_byte rest CHR ''/'' of Some i \<Rightarrow> i | None \<Rightarrow> length rest);
              authority = take pathStart rest
          in if \<not> has_suffix authority '': '' \<and> \<not> has_suffix authority '':'' then raw
             else take authorityStart raw @ trim_right_byte CHR '' '' (trim_suffix authority '':'') @
                    drop pathStart rest))"

definition normalizeFilePath :: "string \<Rightarrow> string \<Rightarrow> string" where
  "normalizeFilePath host path =
     (let path = (if host \<noteq> []
                  then host @ (if path \<noteq> [] \<and> \<not> has_prefix path ''/'' then ''/'' @ path else path)
                  else path);
          path = replace_byte CHR 0x5C CHR ''/'' path
      in if path = [] then ''/''
         else if has_prefix path ''/'' \<and> length path \<ge> 3 \<and> drivePrefix (tl path)
         then ''/'' @ cleanDrivePath (tl path)
         else if drivePrefix path then ''/'' @ cleanDrivePath path
         else if \<not> has_prefix path ''/'' then ''/'' @ path
         else path)"

definition punycode_host :: "string \<Rightarrow> string" where
  "punycode_host host = (case toPunycode host of Some h \<Rightarrow> h | None \<Rightarrow> host)"

definition address_port :: "string \<Rightarrow> string \<Rightarrow> int" where
  "address_port protocol port =
     (let n = (if port = [] then -1 else (case parse_int port of Some n \<Rightarrow> n | None \<Rightarrow> -1))
      in if n < 0 then (case map_of defaultProtocolPort protocol of Some p \<Rightarrow> p | None \<Rightarrow> n) else n)"

definition parseURLAddress ::
  "(string \<Rightarrow> string) \<Rightarrow> url_parser \<Rightarrow> string \<Rightarrow> urlAddress" where
  "parseURLAddress u parse url =
     (let raw = cleanMalformedDefaultPort (cleanFileURL u url);
          a = \<lparr>a_protocol = ''http'', a_userInfo = [], a_host = [], a_port = -1, a_path = raw,
               a_query = [], a_hasQuery = False, a_anchor = [], a_hasAnchor = False\<rparr>
      in case parse raw of
           None \<Rightarrow> a
         | Some p \<Rightarrow>
             if u_scheme p = [] then a
             else
               (let protocol = to_lower u (u_scheme p);
                    path = (if u_escaped_path p \<noteq> [] then u_escaped_path p else ''/'');
                    query = u_raw_query p \<noteq> [] \<or> u_force_query p;
                    a = \<lparr>a_protocol = protocol,
                         a_userInfo = (case u_user p of None \<Rightarrow> [] | Some i \<Rightarrow> i),
                         a_host = punycode_host (u_hostname p),
                         a_port = address_port protocol (u_port p),
                         a_path = path,
                         a_query = (if query then u_raw_query p else []), a_hasQuery = query,
                         a_anchor = u_fragment p, a_hasAnchor = (u_fragment p \<noteq> [])\<rparr>
                in if protocol = ''file''
                   then a\<lparr>a_host := [], a_path := normalizeFilePath (u_host p) (u_path p)\<rparr>
                   else if protocol \<in> {''http'', ''https'', ''ftp''}
                   then a\<lparr>a_path := resolveBackpath path\<rparr>
                   else a))"

section \<open>Normal form\<close>

definition slice_from :: "string \<Rightarrow> nat \<Rightarrow> string option" where
  "slice_from s i = (if i \<le> length s then Some (drop i s) else None)"

definition slice_to :: "string \<Rightarrow> nat \<Rightarrow> string option" where
  "slice_to s i = (if i \<le> length s then Some (take i s) else None)"

text \<open>The loop over the names of session parameters. The position of a parameter in the lower
  case of the query is used to cut the query itself. The outer option is a panic, the inner
  one the early return of the bare path.\<close>

definition cut_session :: "string \<Rightarrow> nat \<Rightarrow> string option" where
  "cut_session q p = (case slice_from q (Suc p) of
     None \<Rightarrow> None
   | Some rest \<Rightarrow> (case index_byte rest CHR ''&'' of
       None \<Rightarrow> slice_to q p
     | Some p1 \<Rightarrow> (case (slice_to q p, slice_from q (p + 1 + p1)) of
         (Some a, Some b) \<Rightarrow> Some (a @ b) | _ \<Rightarrow> None)))"

fun strip_sessions :: "(string \<Rightarrow> string) \<Rightarrow> string list \<Rightarrow> string \<Rightarrow> string option option" where
  "strip_sessions u [] q = Some (Some q)"
| "strip_sessions u (sid # sids) q =
     (let lower = to_lower u q
      in if has_prefix lower (sid @ ''='')
         then (case index_byte q CHR ''&'' of
                 None \<Rightarrow> Some None
               | Some amp \<Rightarrow> strip_sessions u sids (drop (Suc amp) q))
         else (case index_of lower (''&'' @ sid @ ''='') of
                 None \<Rightarrow> strip_sessions u sids q
               | Some p \<Rightarrow> (case cut_session q p of
                   None \<Rightarrow> None | Some q' \<Rightarrow> strip_sessions u sids q')))"

definition getFile :: "(string \<Rightarrow> string) \<Rightarrow> urlAddress \<Rightarrow> string option" where
  "getFile u a =
     (if \<not> a_hasQuery a then Some (a_path a)
      else map_option (\<lambda>r. case r of None \<Rightarrow> a_path a | Some q \<Rightarrow> a_path a @ ''?'' @ q)
             (strip_sessions u sessionIDNames (a_query a)))"

definition default_port :: "urlAddress \<Rightarrow> bool" where
  "default_port a =
     (if a_protocol a = ''http'' then a_port a < 0 \<or> a_port a = 80
      else if a_protocol a = ''https'' then a_port a < 0 \<or> a_port a = 443
      else if a_protocol a = ''ftp'' then a_port a < 0 \<or> a_port a = 21
      else if a_protocol a = ''smb'' then a_port a < 0 \<or> a_port a = 445
      else a_protocol a = ''file'')"

definition address_authority :: "(string \<Rightarrow> string) \<Rightarrow> urlAddress \<Rightarrow> string" where
  "address_authority u a =
     (if a_host a \<noteq> []
      then (if a_userInfo a \<noteq> [] \<and>
               (a_protocol a \<noteq> ''ftp'' \<or> \<not> has_prefix (a_userInfo a) ''anonymous'')
            then a_userInfo a @ ''@'' else []) @ to_lower u (a_host a)
      else []) @
     (if \<not> default_port a then '':'' @ format_int (a_port a) else [])"

definition normalform :: "(string \<Rightarrow> string) \<Rightarrow> urlAddress \<Rightarrow> string option" where
  "normalform u a =
     map_option (\<lambda>file. a_protocol a @ ''://'' @ address_authority u a @ file) (getFile u a)"

definition domSubdom :: "urlAddress \<Rightarrow> string \<times> string" where
  "domSubdom a =
     (let host = a_host a;
          dom = (if host \<noteq> [] \<and> CHR '':'' \<notin> set host
                 then (case last_index_byte host CHR ''.'' of
                         Some p \<Rightarrow> if p > 0 then take p host else [] | None \<Rightarrow> [])
                 else [])
      in case last_index_byte dom CHR ''.'' of
           Some p \<Rightarrow> if p \<le> 0 then (dom, []) else (drop (Suc p) dom, take p dom)
         | None \<Rightarrow> (dom, []))"

definition rootpath :: "urlAddress \<Rightarrow> string" where
  "rootpath a =
     (let np = (if a_protocol a = ''file'' \<and> CHR 0x5C \<in> set (a_path a)
                then replace_byte CHR 0x5C CHR ''/'' (a_path a) else a_path a);
          start = (if np \<noteq> [] \<and> hd np = CHR ''/'' then 1 else 0);
          rootpathEnd = (if has_suffix np ''/'' then int (length np) - 2 else int (length np) - 1)
      in case index_byte (drop start np) CHR ''/'' of
           None \<Rightarrow> []
         | Some i \<Rightarrow>
             (let p = i + start
              in if p > 0 \<and> int p < rootpathEnd then drop start (take p np) else []))"

end
