(* ===== verification/UrlHash.thy ===== *)
theory UrlHash
  imports UrlAddress
begin

text \<open>
  \<^verbatim>\<open>yagomodel/url_hash.go\<close>: the hash of an address. Its last six symbols name the host;
  they are computed from the protocol, the host and the port only. The lemmas show what each
  symbol carries and when the computation panics.
\<close>

unbundle bit_operations_syntax

section \<open>Definitions\<close>

definition ftpHostPrefix :: string where "ftpHostPrefix = ''ftp.''"
definition httpScheme :: string where "httpScheme = ''http://''"
definition ftpScheme :: string where "ftpScheme = ''ftp://''"

datatype url_hash_error = UrlPanic | BadURLHash hash_error | EmptyURLHost | BadURLHost

definition ParseURLHash :: "string \<Rightarrow> (url_hash_error, Hash) result" where
  "ParseURLHash raw = map_sum BadURLHash id (ParseHash raw)"

definition hostForHash :: "string \<Rightarrow> string" where
  "hostForHash host = (if CHR '':'' \<in> set host then ''['' @ host @ '']'' else host)"

definition domLengthKey :: "nat \<Rightarrow> nat" where
  "domLengthKey l = (if l \<le> 8 then 0 else if l \<le> 12 then 1 else if l \<le> 16 then 2 else 3)"

definition url_flag :: "urlAddress \<Rightarrow> nat" where
  "url_flag a =
     (let flag = push_bit 2 (DomainID (a_host a)) OR domLengthKey (length (fst (domSubdom a)))
      in if a_protocol a \<noteq> ''http'' then flag OR 32 else flag)"

text \<open>The twelve symbols: five of the normal form, one of the subdomain, port and root path,
  five of the host, and the flags.\<close>

definition url_hash_symbols :: "string \<Rightarrow> urlAddress \<Rightarrow> string" where
  "url_hash_symbols nf a =
     (let port = format_int (a_port a)
      in take 5 (YaCyHashBase64 nf) @
         [YaCyHashBase64 (snd (domSubdom a) @ '':'' @ port @ '':'' @ rootpath a) ! 0] @
         take 5 (YaCyHashBase64 (a_protocol a @ '':'' @ hostForHash (a_host a) @ '':'' @ port)) @
         [Alphabet ! (url_flag a AND 0x3f)])"

definition HashURL ::
  "(string \<Rightarrow> string) \<Rightarrow> url_parser \<Rightarrow> string \<Rightarrow> (url_hash_error, Hash) result" where
  "HashURL u parse rawURL =
     (let a = parseURLAddress u parse rawURL
      in case normalform u a of
           None \<Rightarrow> Inl UrlPanic | Some nf \<Rightarrow> ParseURLHash (url_hash_symbols nf a))"

definition trim_dots :: "string \<Rightarrow> string" where
  "trim_dots s = trim_right_byte CHR ''.'' (dropWhile (\<lambda>c. c = CHR ''.'') s)"

definition HashURLHost ::
  "(string \<Rightarrow> string) \<Rightarrow> url_parser \<Rightarrow> string \<Rightarrow> (url_hash_error, Hash) result" where
  "HashURLHost u parse rawHost =
     (let host = trim_dots (to_lower u rawHost)
      in if host = [] then Inl EmptyURLHost
         else
           (let scheme = (if has_prefix host ftpHostPrefix then ftpScheme else httpScheme)
            in case parse (scheme @ host) of
                 None \<Rightarrow> Inl BadURLHost
               | Some p \<Rightarrow>
                   if u_hostname p = [] then Inl BadURLHost else HashURL u parse (scheme @ host)))"

definition URLHash_HostHash :: "Hash \<Rightarrow> (url_hash_error, string) result" where
  "URLHash_HostHash h = map_sum id (drop 6) (ParseURLHash h)"

section \<open>Regions\<close>

definition all_values :: "('v \<Rightarrow> bool) \<Rightarrow> ('k, 'v) gomap \<Rightarrow> bool" where
  "all_values P m \<longleftrightarrow> (\<forall>k v. map_of m k = Some v \<longrightarrow> P v)"

lemma all_values_update: "all_values P m \<Longrightarrow> P v \<Longrightarrow> all_values P (AList.update k v m)"
  by (auto simp: all_values_def update_conv')

lemma all_values_foldl:
  "all_values P m \<Longrightarrow> P v \<Longrightarrow> all_values P (foldl (\<lambda>m k. AList.update k v m) m ks)"
  by (induction ks arbitrary: m) (simp_all add: all_values_update)

lemma all_values_groups:
  "all_values P m \<Longrightarrow> list_all (\<lambda>g. P (fst g)) groups \<Longrightarrow>
     all_values P (foldl (\<lambda>m (v, ks). foldl (\<lambda>m k. AList.update k v m) m ks) m groups)"
proof (induction groups arbitrary: m)
  case (Cons g groups)
  obtain v ks where g: "g = (v, ks)" by (cases g)
  with Cons.prems have "all_values P (foldl (\<lambda>m k. AList.update k v m) m ks)"
    by (simp add: all_values_foldl)
  with Cons g show ?case by simp
qed simp

lemma DomainID_bound: "DomainID host \<le> 7"
proof -
  have "all_values (\<lambda>v. v \<le> 7) buildTLDRegionID"
    unfolding buildTLDRegionID_def
    by (rule all_values_groups) (simp_all add: tldRegionGroups_def tld_ids all_values_def)
  then show ?thesis
    by (auto simp: DomainID_def tld_ids all_values_def split: option.splits)
qed

lemma domLengthKey_bound: "domLengthKey l \<le> 3"
  by (simp add: domLengthKey_def)

text \<open>The three fields of the flag do not overlap.\<close>

lemma flag_fields:
  assumes "d < (8::nat)" "k < 4"
  shows "push_bit 2 d OR k = 4 * d + k \<and> (4 * d + k) OR 32 = 4 * d + k + 32"
proof -
  have "list_all (\<lambda>d. list_all (\<lambda>k.
      push_bit 2 d OR k = 4 * d + k \<and> (4 * d + k) OR 32 = 4 * d + k + (32 :: nat)) [0..<4])
      [0..<8]"
    by code_simp
  moreover have "d \<in> set [0..<8]" "k \<in> set [0..<4]" using assms by simp_all
  ultimately show ?thesis unfolding list_all_iff by blast
qed

lemma url_flag_value:
  "url_flag a = 4 * DomainID (a_host a) + domLengthKey (length (fst (domSubdom a))) +
     (if a_protocol a = ''http'' then 0 else 32)"
proof -
  have "DomainID (a_host a) < 8" "domLengthKey (length (fst (domSubdom a))) < 4"
    using DomainID_bound [of "a_host a"] domLengthKey_bound [of "length (fst (domSubdom a))"] by auto
  from flag_fields [OF this] show ?thesis by (simp add: url_flag_def Let_def)
qed

lemma url_flag_bound: "url_flag a < 64"
  using DomainID_bound [of "a_host a"] domLengthKey_bound [of "length (fst (domSubdom a))"]
  by (simp add: url_flag_value)

lemma url_flag_mask: "url_flag a AND 0x3f = url_flag a"
proof -
  have "url_flag a AND 0x3f = take_bit 6 (url_flag a)"
    by (simp add: take_bit_eq_mask mask_eq_exp_minus_1)
  then show ?thesis using url_flag_bound [of a] by (simp add: take_bit_nat_eq_self)
qed

section \<open>The symbols of a hash\<close>

lemma length_url_hash_symbols: "length (url_hash_symbols nf a) = 12"
  by (simp add: url_hash_symbols_def Let_def)

lemma url_hash_symbols_valid: "Hash_Valid (url_hash_symbols nf a)"
proof -
  have nth: "YaCyHashBase64 s ! 0 \<in> set Alphabet" for s
    using YaCyHashBase64_symbols [of s] nth_mem [of 0 "YaCyHashBase64 s"] by auto
  have tk: "set (take 5 (YaCyHashBase64 s)) \<subseteq> set Alphabet" for s
    using YaCyHashBase64_symbols [of s] set_take_subset [of 5 "YaCyHashBase64 s"] by blast
  have "Alphabet ! (url_flag a AND 0x3f) \<in> set Alphabet"
    using url_flag_bound [of a] by (intro nth_mem) (simp add: url_flag_mask)
  then show ?thesis using nth tk
    by (simp add: Hash_Valid_iff length_url_hash_symbols) (simp add: url_hash_symbols_def Let_def)
qed

lemma HashURL_Inr:
  "HashURL u parse url = Inr h \<longleftrightarrow>
     (\<exists>nf. normalform u (parseURLAddress u parse url) = Some nf \<and>
        h = url_hash_symbols nf (parseURLAddress u parse url))"
  by (auto simp: HashURL_def Let_def ParseURLHash_def ParseHash_valid [OF url_hash_symbols_valid]
      split: option.splits)

definition host_symbols :: "urlAddress \<Rightarrow> string" where
  "host_symbols a =
     take 5 (YaCyHashBase64 (a_protocol a @ '':'' @ hostForHash (a_host a) @ '':'' @
       format_int (a_port a))) @ [Alphabet ! url_flag a]"

lemma HostHash_symbols: "URLHash_HostHash (url_hash_symbols nf a) = Inr (host_symbols a)"
  by (simp add: URLHash_HostHash_def ParseURLHash_def ParseHash_valid [OF url_hash_symbols_valid])
     (simp add: url_hash_symbols_def host_symbols_def url_flag_mask Let_def)

section \<open>Session parameters\<close>

lemma index_of_bound: "index_of s p = Some i \<Longrightarrow> i + length p \<le> length s"
proof (induction s arbitrary: i)
  case (Cons x s)
  have "has_prefix (x # s) p \<Longrightarrow> length p \<le> length (x # s)"
    by (metis has_prefix_def length_take min.cobounded1)
  with Cons show ?case by (auto split: if_splits)
qed (simp split: if_splits)

lemma index_byte_bound: "index_byte s c = Some i \<Longrightarrow> i < length s"
  by (induction s arbitrary: i) (auto split: if_splits)

lemma cut_session_ok:
  assumes "p + 1 \<le> length q"
  shows "\<exists>q'. cut_session q p = Some q' \<and> set q' \<subseteq> set q"
proof (cases "index_byte (drop (Suc p) q) CHR ''&''")
  case None
  with assms show ?thesis
    by (auto simp: cut_session_def slice_from_def slice_to_def dest: in_set_takeD)
next
  case (Some i)
  then have "p + 1 + i \<le> length q" using index_byte_bound [OF Some] by simp
  with assms Some show ?thesis
    by (auto simp: cut_session_def slice_from_def slice_to_def dest: in_set_takeD in_set_dropD)
qed

lemma strip_sessions_ascii:
  "list_all is_ascii q \<Longrightarrow> strip_sessions u sids q \<noteq> None"
proof (induction sids arbitrary: q)
  case (Cons sid sids)
  have lower: "to_lower u q = map ascii_lower q" using Cons.prems by (simp add: to_lower_def)
  show ?case
  proof (cases "has_prefix (map ascii_lower q) (sid @ ''='')")
    case True
    have "list_all is_ascii (drop n q)" for n
      using Cons.prems by (auto simp: list_all_iff dest: in_set_dropD)
    with True Cons.IH lower show ?thesis by (auto simp: Let_def split: option.splits)
  next
    case False
    show ?thesis
    proof (cases "index_of (map ascii_lower q) (''&'' @ sid @ ''='')")
      case None
      with False lower Cons show ?thesis by (simp add: Let_def)
    next
      case (Some p)
      then have "p + 1 \<le> length q" using index_of_bound [OF Some] by simp
      then obtain q' where q': "cut_session q p = Some q'" "set q' \<subseteq> set q"
        using cut_session_ok by blast
      then have "list_all is_ascii q'" using Cons.prems by (auto simp: list_all_iff)
      with False lower Some q' Cons.IH show ?thesis by (simp add: Let_def)
    qed
  qed
qed simp

lemma normalform_ascii:
  "\<not> a_hasQuery a \<or> list_all is_ascii (a_query a) \<Longrightarrow> normalform u a \<noteq> None"
  using strip_sessions_ascii by (auto simp: normalform_def getFile_def)

section \<open>Properties\<close>

text \<open>C28: Whatever the address parser does with an address, if the query it finds is ASCII then
  the address has a hash, and the hash is valid; it is made of the normal form of the address
  and of its parts. The hash fails in no other way than by the panic of the query.\<close>

theorem url_hash_total:
  "let a = parseURLAddress u parse url
   in (if a_hasQuery a \<and> \<not> list_all is_ascii (a_query a)
       then HashURL u parse url = Inl UrlPanic \<or> (\<exists>h. HashURL u parse url = Inr h \<and> Hash_Valid h)
       else \<exists>nf. normalform u a = Some nf \<and> HashURL u parse url = Inr (url_hash_symbols nf a) \<and>
              Hash_Valid (url_hash_symbols nf a))"
proof (cases "normalform u (parseURLAddress u parse url)")
  case None
  then show ?thesis using normalform_ascii [of "parseURLAddress u parse url" u]
    by (auto simp: Let_def HashURL_def)
next
  case (Some nf)
  then have "HashURL u parse url = Inr (url_hash_symbols nf (parseURLAddress u parse url))"
    by (simp add: HashURL_Inr)
  with Some url_hash_symbols_valid show ?thesis by (simp add: Let_def)
qed

text \<open>Two addresses with the same protocol, host and port have the same host hash, whatever
  their paths and queries are.\<close>

theorem host_hash_shared:
  assumes "HashURL u parse url1 = Inr h1" and "HashURL u parse url2 = Inr h2"
    and "a_protocol (parseURLAddress u parse url1) = a_protocol (parseURLAddress u parse url2)"
    and "a_host (parseURLAddress u parse url1) = a_host (parseURLAddress u parse url2)"
    and "a_port (parseURLAddress u parse url1) = a_port (parseURLAddress u parse url2)"
  shows "URLHash_HostHash h1 = URLHash_HostHash h2"
  using assms
  by (auto simp: HashURL_Inr HostHash_symbols host_symbols_def url_flag_def domSubdom_def Let_def)

text \<open>An address parser that finds the host \<^verbatim>\<open>example.test\<close> in every address, and the query
  of the address after its first question mark.\<close>

definition example_parser :: url_parser where
  "example_parser raw =
     (let (path, query, found) = cut_byte raw CHR ''?''
      in Some \<lparr>u_scheme = ''http'', u_user = None, u_host = ''example.test'',
           u_hostname = ''example.test'', u_port = [], u_path = path, u_escaped_path = path,
           u_raw_query = query, u_force_query = False, u_fragment = []\<rparr>)"

lemma host_hash_shared_witness:
  "\<exists>h1 h2. HashURL id example_parser ''/one'' = Inr h1 \<and> HashURL id example_parser ''/two'' = Inr h2 \<and>
     URLHash_HostHash h1 = URLHash_HostHash h2"
proof -
  let ?a = "parseURLAddress id example_parser"
  have q: "\<not> a_hasQuery (?a ''/one'')" "\<not> a_hasQuery (?a ''/two'')" by code_simp+
  have same: "a_protocol (?a ''/one'') = a_protocol (?a ''/two'')"
    "a_host (?a ''/one'') = a_host (?a ''/two'')" "a_port (?a ''/one'') = a_port (?a ''/two'')"
    by (simp_all add: parseURLAddress_def example_parser_def Let_def split: prod.split)
  obtain h1 h2 where h: "HashURL id example_parser ''/one'' = Inr h1"
    "HashURL id example_parser ''/two'' = Inr h2"
    using normalform_ascii [of "?a ''/one''" id] normalform_ascii [of "?a ''/two''" id] q HashURL_Inr
    by blast
  from host_hash_shared [OF h same] h show ?thesis by blast
qed

section \<open>A query on which the hash panics\<close>

text \<open>The lower case of U+023A, two bytes in UTF-8, is U+2C65, three bytes. The position of a
  parameter in the lower case of the query then lies beyond the end of the query.\<close>

fun lower_023A :: "string \<Rightarrow> string" where
  "lower_023A [] = []"
| "lower_023A [c] = [ascii_lower c]"
| "lower_023A (c # d # s) =
     (if c = CHR 0xC8 \<and> d = CHR 0xBA then [CHR 0xE2, CHR 0xB1, CHR 0xA5] @ lower_023A s
      else ascii_lower c # lower_023A (d # s))"

definition long_query :: string where
  "long_query = concat (replicate 7 [CHR 0xC8, CHR 0xBA]) @ ''&sid=1''"

theorem long_query_panics: "HashURL lower_023A example_parser (''/?'' @ long_query) = Inl UrlPanic"
  by code_simp

end
