(* ===== verification/UrlMetadata.thy ===== *)
theory UrlMetadata
  imports UrlHash WireForm KeyValue
begin

text \<open>
  \<^verbatim>\<open>yagomodel/url_metadata.go\<close>, \<^verbatim>\<open>url_metadata_property_schema.go\<close> and
  \<^verbatim>\<open>url_metadata_freshness.go\<close>: the metadata row of an address, a property form in
  braces with a hash and checked columns. Go visits the columns in an order of its own; when
  several are invalid the model reports the first one of the list.
\<close>

section \<open>Definitions\<close>

definition URLMetaHash :: string where "URLMetaHash = ''hash''"
definition URLMetaHashAlt :: string where "URLMetaHashAlt = ''h''"
definition URLMetaURL :: string where "URLMetaURL = ''url''"
definition URLMetaColDescription :: string where "URLMetaColDescription = ''descr''"
definition URLMetaAuthor :: string where "URLMetaAuthor = ''author''"
definition URLMetaReferrer :: string where "URLMetaReferrer = ''referrer''"
definition URLMetaWordReference :: string where "URLMetaWordReference = ''wi''"
definition ColLoadDate :: string where "ColLoadDate = ''load''"
definition ColModDate :: string where "ColModDate = ''mod''"
definition ColFreshDate :: string where "ColFreshDate = ''fresh''"

lemmas meta_keys = URLMetaHash_def URLMetaHashAlt_def URLMetaURL_def URLMetaColDescription_def
  URLMetaAuthor_def URLMetaReferrer_def URLMetaWordReference_def ColLoadDate_def ColModDate_def
  ColFreshDate_def

definition freshnessPrecedence :: "string list" where
  "freshnessPrecedence = [ColLoadDate, ColModDate, ColFreshDate]"

datatype metadata_error = MissingMetadataForm | BadMetadataPairs property_error | EmptyRow
  | NoURLHash | InvalidMetadata string

record URIMetadataRow =
  Meta_Properties :: "(string, string) gomap"

definition urlMetadataIntegerKeys :: "string list" where
  "urlMetadataIntegerKeys =
     [''size'', ''wc'', ''llocal'', ''lother'', ''limage'', ''laudio'', ''lvideo'', ''lapp'']"

definition urlMetadataHash :: "(string, string) gomap \<Rightarrow> (metadata_error, Hash) result" where
  "urlMetadataHash props = (case map_of props URLMetaHash of
     Some v \<Rightarrow> map_sum (\<lambda>_. InvalidMetadata URLMetaHash) id (ParseURLHash v)
   | None \<Rightarrow> (case map_of props URLMetaHashAlt of
       Some v \<Rightarrow> map_sum (\<lambda>_. InvalidMetadata URLMetaHashAlt) id (ParseURLHash v)
     | None \<Rightarrow> Inl NoURLHash))"

definition fails :: "('e, 'a) result \<Rightarrow> bool" where
  "fails r = (case r of Inl _ \<Rightarrow> True | Inr _ \<Rightarrow> False)"

definition validateURLMetadataProperty :: "string \<Rightarrow> string \<Rightarrow> metadata_error option" where
  "validateURLMetadataProperty key value =
     (if key \<in> {URLMetaHash, URLMetaHashAlt, ''referrer''} \<and> value \<noteq> [] \<and> fails (ParseHash value)
      then Some (InvalidMetadata key)
      else if key = ''dt'' \<and> value = [] then Some (InvalidMetadata key)
      else if key = ''flags'' \<and> value \<noteq> [] \<and> fails (Decode value) then Some (InvalidMetadata key)
      else if key \<in> set urlMetadataIntegerKeys \<and> parse_int value = None
      then Some (InvalidMetadata key)
      else None)"

fun validate_columns :: "(string, string) gomap \<Rightarrow> metadata_error option" where
  "validate_columns [] = None"
| "validate_columns ((key, value) # props) = (case validateURLMetadataProperty key value of
     Some e \<Rightarrow> Some e | None \<Rightarrow> validate_columns props)"

definition validateURLMetadataProperties :: "(string, string) gomap \<Rightarrow> metadata_error option" where
  "validateURLMetadataProperties props = (case urlMetadataHash props of
     Inl e \<Rightarrow> Some e | Inr _ \<Rightarrow> validate_columns props)"

definition ParseURIMetadataRow :: "string \<Rightarrow> (metadata_error, URIMetadataRow) result" where
  "ParseURIMetadataRow row =
     (if length row < 2 \<or> hd row \<noteq> CHR ''{'' \<or> last row \<noteq> CHR ''}'' then Inl MissingMetadataForm
      else (case parsePropertyPairs (butlast (tl row)) of
              Inl e \<Rightarrow> Inl (BadMetadataPairs e)
            | Inr props \<Rightarrow>
                if length props = 0 then Inl EmptyRow
                else (case validateURLMetadataProperties props of
                        Some e \<Rightarrow> Inl e | None \<Rightarrow> Inr \<lparr>Meta_Properties = props\<rparr>)))"

definition URIMetadataRow_URLHash :: "URIMetadataRow \<Rightarrow> (metadata_error, Hash) result" where
  "URIMetadataRow_URLHash r = urlMetadataHash (Meta_Properties r)"

definition URIMetadataRow_Title :: "inflater \<Rightarrow> URIMetadataRow \<Rightarrow> (wire_error, string) result" where
  "URIMetadataRow_Title inflate r =
     DecodeWireForm inflate (get_or [] (Meta_Properties r) URLMetaColDescription)"

definition URIMetadataRow_String :: "URIMetadataRow \<Rightarrow> string" where
  "URIMetadataRow_String r = ''{'' @ property_form (Meta_Properties r) @ ''}''"

fun first_value :: "(string, string) gomap \<Rightarrow> string list \<Rightarrow> string" where
  "first_value props [] = []"
| "first_value props (key # keys) =
     (if get_or [] props key \<noteq> [] then get_or [] props key else first_value props keys)"

definition URIMetadataRow_Freshness :: "URIMetadataRow \<Rightarrow> string" where
  "URIMetadataRow_Freshness r = first_value (Meta_Properties r) freshnessPrecedence"

section \<open>Lemmas\<close>

lemma validate_columns_None:
  "validate_columns m = None \<longleftrightarrow> (\<forall>(k, v)\<in>set m. validateURLMetadataProperty k v = None)"
  by (induction m rule: validate_columns.induct) (auto split: option.splits)

definition wf_row :: "URIMetadataRow \<Rightarrow> bool" where
  "wf_row r \<longleftrightarrow> wf_map (Meta_Properties r) \<and> Meta_Properties r \<noteq> [] \<and>
     validateURLMetadataProperties (Meta_Properties r) = None"

lemma ParseURIMetadataRow_wf: "ParseURIMetadataRow row = Inr r \<Longrightarrow> wf_row r"
  by (auto simp: ParseURIMetadataRow_def wf_row_def parsePropertyPairs_wf
      split: if_splits sum.splits option.splits)

lemma urlMetadataHash_valid: "urlMetadataHash m = Inr h \<Longrightarrow> Hash_Valid h"
  by (auto simp: urlMetadataHash_def ParseURLHash_def map_sum_eq_Inr ParseHash_iff Hash_Valid_iff
      split: option.splits)

lemma wf_row_hash: "wf_row r \<Longrightarrow> \<exists>h. URIMetadataRow_URLHash r = Inr h \<and> Hash_Valid h"
  by (auto simp: wf_row_def validateURLMetadataProperties_def URIMetadataRow_URLHash_def
      urlMetadataHash_valid split: sum.splits)

lemma same_entries:
  assumes "wf_map m" "wf_map m'" "map_of m' = map_of m"
  shows "set m' = set m"
proof -
  have "(k, v) \<in> set m' \<longleftrightarrow> (k, v) \<in> set m" for k v
    using assms map_of_eq_Some_iff [of m k v] map_of_eq_Some_iff [of m' k v]
    by (simp add: wf_map_def map_keys_def)
  then show ?thesis by auto
qed

lemma wf_row_map_of:
  assumes "wf_row r" "wf_map m" "map_of m = map_of (Meta_Properties r)"
  shows "validateURLMetadataProperties m = None" "m \<noteq> []"
proof -
  have entries: "set m = set (Meta_Properties r)"
    using same_entries [OF _ assms(2,3)] assms(1) by (simp add: wf_row_def)
  have "urlMetadataHash m = urlMetadataHash (Meta_Properties r)"
    unfolding urlMetadataHash_def assms(3) ..
  then show "validateURLMetadataProperties m = None"
    using assms(1) entries
    by (simp add: wf_row_def validateURLMetadataProperties_def validate_columns_None
        split: sum.splits)
  show "m \<noteq> []" using assms(1) entries by (auto simp: wf_row_def)
qed

lemma ParseURIMetadataRow_String:
  assumes "wf_row r" and "plain_map (Meta_Properties r)"
  shows "\<exists>r'. ParseURIMetadataRow (URIMetadataRow_String r) = Inr r' \<and>
    map_of (Meta_Properties r') = map_of (Meta_Properties r) \<and> wf_row r'"
proof -
  obtain m where m: "parsePropertyPairs (property_form (Meta_Properties r)) = Inr m"
    "map_of m = map_of (Meta_Properties r)" "wf_map m"
    using parse_property_form [OF assms(2)] by blast
  have ok: "validateURLMetadataProperties m = None" "m \<noteq> []"
    using wf_row_map_of [OF assms(1) m(3,2)] by auto
  have "ParseURIMetadataRow (URIMetadataRow_String r) = Inr \<lparr>Meta_Properties = m\<rparr>"
    using m ok
    by (simp add: ParseURIMetadataRow_def URIMetadataRow_String_def butlast_append)
  with m ok show ?thesis by (simp add: wf_row_def)
qed

section \<open>Properties\<close>

text \<open>A metadata row that is accepted from the wire always has a valid address hash, has each
  column once and is not empty; if its text is plain it can be sent on: the row is read back
  with the same columns.\<close>

theorem metadata_row_accepted:
  assumes "ParseURIMetadataRow row = Inr r"
  shows "wf_row r \<and> (\<exists>h. URIMetadataRow_URLHash r = Inr h \<and> Hash_Valid h) \<and>
    (plain_map (Meta_Properties r) \<longrightarrow>
       (\<exists>r'. ParseURIMetadataRow (URIMetadataRow_String r) = Inr r' \<and>
          map_of (Meta_Properties r') = map_of (Meta_Properties r)))"
  using ParseURIMetadataRow_wf [OF assms] wf_row_hash [of r] ParseURIMetadataRow_String [of r]
  by blast

definition example_row :: URIMetadataRow where
  "example_row = \<lparr>Meta_Properties = [(''h'', ''AAAAAAAAAAAA''), (''wc'', ''12'')]\<rparr>"

lemma example_row: "ParseURIMetadataRow ''{h=AAAAAAAAAAAA,wc=12}'' = Inr example_row"
proof -
  have trim: "trim_space ''h=AAAAAAAAAAAA'' = ''h=AAAAAAAAAAAA''" "trim_space ''wc=12'' = ''wc=12''"
    "trim_space ''h'' = ''h''" "trim_space ''AAAAAAAAAAAA'' = ''AAAAAAAAAAAA''"
    "trim_space ''wc'' = ''wc''" "trim_space ''12'' = ''12''"
    by (simp_all add: trim_space_id trimmed_graphic graphic_def)
  have "ParseHash ''AAAAAAAAAAAA'' = Inr ''AAAAAAAAAAAA''"
    by (simp add: ParseHash_iff Alphabet_def)
  moreover have "parse_int ''12'' = Some 12"
    by (simp add: parse_int_def parse_uint_def is_digit_def digit_value_def)
  ultimately have "validateURLMetadataProperties (Meta_Properties example_row) = None"
    by (simp add: validateURLMetadataProperties_def urlMetadataHash_def example_row_def meta_keys
        ParseURLHash_def validateURLMetadataProperty_def urlMetadataIntegerKeys_def fails_def)
  moreover have "parsePropertyPairs ''h=AAAAAAAAAAAA,wc=12'' = Inr (Meta_Properties example_row)"
    by (simp add: parsePropertyPairs_def trim example_row_def)
  ultimately show ?thesis by (simp add: ParseURIMetadataRow_def) (simp add: example_row_def)
qed

lemma metadata_row_accepted_witness:
  "wf_row example_row \<and> (\<exists>h. URIMetadataRow_URLHash example_row = Inr h \<and> Hash_Valid h) \<and>
   (\<exists>r'. ParseURIMetadataRow (URIMetadataRow_String example_row) = Inr r' \<and>
      map_of (Meta_Properties r') = map_of (Meta_Properties example_row))"
proof -
  have "plain_map (Meta_Properties example_row)"
    by (simp add: example_row_def plain_map_def plain_key_def plain_value_def trimmed_graphic
        graphic_def wf_map_def map_keys_def)
  with metadata_row_accepted [OF example_row] show ?thesis by blast
qed

end
