(* ===== verification/SeedFields.thy ===== *)
theory SeedFields
  imports GoLib
begin

text \<open>
  The values in a seed, the self-description of a peer: \<^verbatim>\<open>yagomodel/seed_flags.go\<close>,
  \<^verbatim>\<open>seed_port.go\<close>, \<^verbatim>\<open>seed_host.go\<close>, \<^verbatim>\<open>seed_ip6.go\<close>,
  \<^verbatim>\<open>seed_utc.go\<close>, \<^verbatim>\<open>seed_version.go\<close>, \<^verbatim>\<open>seed_birth_date.go\<close>,
  \<^verbatim>\<open>seed_last_seen.go\<close>, \<^verbatim>\<open>seed_name.go\<close> and \<^verbatim>\<open>peer_type.go\<close>. What the
  code takes from \<^verbatim>\<open>net/netip\<close>, from \<^verbatim>\<open>time\<close> (parsing and printing the layout
  20060102150405) and from \<^verbatim>\<open>strconv.ParseFloat\<close> is the record \<open>seed_lib\<close> of
  parameters; an instant is a number of nanoseconds.
\<close>

unbundle bit_operations_syntax

section \<open>Definitions\<close>

text \<open>A double is not a number, an infinity (positive or not) or \<open>m * 2 ^ e\<close>.\<close>

datatype float_value = FloatNaN | FloatInf bool | FloatFinite int int

record 'a seed_lib =
  lib_parse_addr :: "string \<Rightarrow> 'a option"
  lib_show_addr :: "'a \<Rightarrow> string"
  lib_unmap :: "'a \<Rightarrow> 'a"
  lib_parse_stamp :: "string \<Rightarrow> go_time option"
  lib_show_stamp :: "go_time \<Rightarrow> string"
  lib_parse_float :: "string \<Rightarrow> float_value option"
  lib_lower :: "string \<Rightarrow> string"

subsection \<open>Flags\<close>

definition FlagsLength :: nat where "FlagsLength = 4"
definition FlagsZero :: string where "FlagsZero = ''    ''"
definition FlagDirectConnect :: int where "FlagDirectConnect = 0"
definition FlagAcceptRemoteCrawl :: int where "FlagAcceptRemoteCrawl = 1"
definition FlagAcceptRemoteIndex :: int where "FlagAcceptRemoteIndex = 2"
definition FlagRootNode :: int where "FlagRootNode = 3"
definition FlagSSLAvailable :: int where "FlagSSLAvailable = 4"
definition flagBitsPerAtom :: int where "flagBitsPerAtom = 5"
definition flagASCIIOffset :: byte where "flagASCIIOffset = 32"

type_synonym Flags = bytes

definition ZeroFlags :: Flags where
  "ZeroFlags = bytes_of_string FlagsZero"

definition ParseFlags :: "string \<Rightarrow> Flags option" where
  "ParseFlags s =
     (if length s > FlagsLength then None
      else Some (bytes_of_string s @ drop (length s) ZeroFlags))"

definition Flags_String :: "Flags \<Rightarrow> string" where
  "Flags_String f = string_of_bytes f"

definition flag_mask :: "int \<Rightarrow> byte" where
  "flag_mask b = push_bit (nat (b mod flagBitsPerAtom)) 1"

definition Flags_Get :: "Flags \<Rightarrow> int \<Rightarrow> bool" where
  "Flags_Get f b =
     (let slot = b div flagBitsPerAtom
      in if b < 0 \<or> slot \<ge> int (length f) then False
         else (f ! nat slot - flagASCIIOffset) AND flag_mask b \<noteq> 0)"

definition Flags_Set :: "Flags \<Rightarrow> int \<Rightarrow> bool \<Rightarrow> Flags" where
  "Flags_Set f b v =
     (let slot = b div flagBitsPerAtom
      in if b < 0 \<or> slot \<ge> int (length f) then f
         else
           (let atom = f ! nat slot - flagASCIIOffset;
                atom = (if v then atom OR flag_mask b else atom AND NOT (flag_mask b))
            in f[nat slot := atom + flagASCIIOffset]))"

subsection \<open>Ports, names and peer types\<close>

definition portMin :: int where "portMin = 1"
definition portMax :: int where "portMax = 65535"

definition ParsePort :: "string \<Rightarrow> int option" where
  "ParsePort s = (case parse_int s of
     None \<Rightarrow> None | Some n \<Rightarrow> if n < portMin \<or> n > portMax then None else Some n)"

definition Port_String :: "int \<Rightarrow> string" where
  "Port_String p = format_int p"

definition NormalizeSeedName :: "(string \<Rightarrow> string) \<Rightarrow> string \<Rightarrow> string" where
  "NormalizeSeedName u name =
     to_lower u (replace_byte CHR ''>'' CHR ''_'' (replace_byte CHR ''<'' CHR ''_'' name))"

datatype PeerType = PeerVirgin | PeerJunior | PeerMentee | PeerSenior | PeerMentor | PeerPrincipal

fun PeerType_String :: "PeerType \<Rightarrow> string" where
  "PeerType_String PeerVirgin = ''virgin''"
| "PeerType_String PeerJunior = ''junior''"
| "PeerType_String PeerMentee = ''mentee''"
| "PeerType_String PeerSenior = ''senior''"
| "PeerType_String PeerMentor = ''mentor''"
| "PeerType_String PeerPrincipal = ''principal''"

definition ParsePeerType :: "string \<Rightarrow> PeerType option" where
  "ParsePeerType s =
     find (\<lambda>t. PeerType_String t = s)
       [PeerVirgin, PeerJunior, PeerMentee, PeerSenior, PeerMentor, PeerPrincipal]"

subsection \<open>Hosts\<close>

datatype 'a Host = HostAddr 'a | HostName string

definition hostLabelMaxLength :: nat where "hostLabelMaxLength = 63"

definition is_label_char :: "char \<Rightarrow> bool" where
  "is_label_char c = (let n = (of_char c :: nat)
     in 97 \<le> n \<and> n \<le> 122 \<or> 65 \<le> n \<and> n \<le> 90 \<or> 48 \<le> n \<and> n \<le> 57 \<or> c = CHR ''-'')"

definition isHostLabel :: "string \<Rightarrow> bool" where
  "isHostLabel label =
     (label \<noteq> [] \<and> length label \<le> hostLabelMaxLength \<and> hd label \<noteq> CHR ''-'' \<and>
      last label \<noteq> CHR ''-'' \<and> list_all is_label_char label)"

definition isHostname :: "string \<Rightarrow> bool" where
  "isHostname s =
     (s \<noteq> [] \<and> length s \<le> 255 \<and> list_all isHostLabel (split_byte CHR ''.'' s))"

definition ParseHost :: "'a seed_lib \<Rightarrow> string \<Rightarrow> 'a Host option" where
  "ParseHost lib s = (case lib_parse_addr lib s of
     Some addr \<Rightarrow> Some (HostAddr addr)
   | None \<Rightarrow> if isHostname s then Some (HostName s) else None)"

definition Host_String :: "'a seed_lib \<Rightarrow> 'a Host \<Rightarrow> string" where
  "Host_String lib h = (case h of HostAddr addr \<Rightarrow> lib_show_addr lib addr | HostName s \<Rightarrow> s)"

fun parse_segments :: "'a seed_lib \<Rightarrow> string list \<Rightarrow> 'a Host list option" where
  "parse_segments lib [] = Some []"
| "parse_segments lib (s # ss) = (case lib_parse_addr lib s of
     None \<Rightarrow> None | Some addr \<Rightarrow> map_option ((#) (HostAddr addr)) (parse_segments lib ss))"

definition ParseIP6 :: "'a seed_lib \<Rightarrow> string \<Rightarrow> 'a Host list option" where
  "ParseIP6 lib value = parse_segments lib (split_byte CHR ''|'' value)"

subsection \<open>Times and versions\<close>

type_synonym SeedUTCValue = string
type_synonym YaCyVersion = string

definition seedUTCOffsetValid :: "string \<Rightarrow> bool" where
  "seedUTCOffsetValid s =
     (length s = 5 \<and> (s ! 0 = CHR ''+'' \<or> s ! 0 = CHR ''-'') \<and>
      (case (parse_int (take 2 (drop 1 s)), parse_int (take 2 (drop 3 s))) of
         (Some hours, Some minutes) \<Rightarrow> hours \<le> 23 \<and> minutes \<le> 59
       | _ \<Rightarrow> False))"

definition ParseSeedUTC :: "'a seed_lib \<Rightarrow> string \<Rightarrow> SeedUTCValue option" where
  "ParseSeedUTC lib s =
     (if seedUTCOffsetValid s \<or> lib_parse_stamp lib s \<noteq> None then Some s else None)"

text \<open>\<^verbatim>\<open>fmt.Sprintf("%c%02d%02d", sign, hours, minutes)\<close> of the offset in seconds.\<close>

definition two_digits :: "nat \<Rightarrow> string" where
  "two_digits n = (if n < 10 then CHR ''0'' # format_uint n else format_uint n)"

definition SeedUTCOffsetFromTime :: "int \<Rightarrow> SeedUTCValue" where
  "SeedUTCOffsetFromTime offsetSeconds =
     (let sign = (if offsetSeconds < 0 then CHR ''-'' else CHR ''+'');
          seconds = nat \<bar>offsetSeconds\<bar>
      in sign # two_digits (seconds div 3600) @ two_digits (seconds div 60 mod 60))"

definition ParseSeedStamp :: "'a seed_lib \<Rightarrow> string \<Rightarrow> go_time option" where
  "ParseSeedStamp lib s = lib_parse_stamp lib s"

definition NewSeedStamp :: "go_time \<Rightarrow> go_time" where
  "NewSeedStamp t = t - t mod second"

definition SeedStamp_String :: "'a seed_lib \<Rightarrow> go_time \<Rightarrow> string" where
  "SeedStamp_String lib t = lib_show_stamp lib t"

definition ParseYaCyVersion :: "string \<Rightarrow> YaCyVersion option" where
  "ParseYaCyVersion s = Some s"

definition equal_fold :: "string \<Rightarrow> string \<Rightarrow> bool" where
  "equal_fold a b \<longleftrightarrow> map ascii_lower a = map ascii_lower b"

definition trim_prefix_once :: "char \<Rightarrow> string \<Rightarrow> string" where
  "trim_prefix_once c s = (if s \<noteq> [] \<and> hd s = c then tl s else s)"

definition invalidYaCyVersionSpecial :: "string \<Rightarrow> bool" where
  "invalidYaCyVersionSpecial raw =
     (let unsigned = trim_prefix_once CHR ''-'' (trim_prefix_once CHR ''+'' raw)
      in equal_fold unsigned ''NaN'' \<or> equal_fold unsigned ''Inf'' \<or> equal_fold unsigned ''Infinity'')"

definition trim_controls :: "string \<Rightarrow> string" where
  "trim_controls s =
     (let low = (\<lambda>c. (of_char c :: nat) \<le> 32) in rev (dropWhile low (rev (dropWhile low s))))"

definition YaCyVersion_Float :: "'a seed_lib \<Rightarrow> YaCyVersion \<Rightarrow> float_value option" where
  "YaCyVersion_Float lib raw =
     (let trimmed = trim_controls raw
      in if trimmed \<in> {''NaN'', ''+NaN'', ''-NaN''} then Some FloatNaN
         else if trimmed \<in> {''Infinity'', ''+Infinity''} then Some (FloatInf True)
         else if trimmed = ''-Infinity'' then Some (FloatInf False)
         else if invalidYaCyVersionSpecial trimmed \<or> CHR ''_'' \<in> set trimmed then None
         else
           (let trimmed = (if trimmed \<noteq> [] \<and> last trimmed \<in> set ''fFdD''
                           then butlast trimmed else trimmed)
            in if invalidYaCyVersionSpecial trimmed then None else lib_parse_float lib trimmed))"

section \<open>Flags\<close>

lemma mask_bit: "0 \<le> b \<Longrightarrow> bit (flag_mask b) n \<longleftrightarrow> n = nat (b mod 5)"
proof -
  have "nat (b mod 5) < 8" by simp
  then show ?thesis
    unfolding flag_mask_def flagBitsPerAtom_def bit_push_bit_iff bit_1_iff
    by (auto simp: possible_bit_def)
qed

lemma and_mask_nonzero: "0 \<le> b \<Longrightarrow> x AND flag_mask b \<noteq> 0 \<longleftrightarrow> bit x (nat (b mod 5))"
proof
  assume b: "0 \<le> b"
  show "x AND flag_mask b \<noteq> 0 \<Longrightarrow> bit x (nat (b mod 5))"
    using mask_bit [OF b] by (metis (no_types) bit_and_iff bit_eq_iff bit_0_eq bot_apply bot_bool_def)
  show "bit x (nat (b mod 5)) \<Longrightarrow> x AND flag_mask b \<noteq> 0"
    using mask_bit [OF b] by (metis bit_and_iff bit_0_eq bot_apply bot_bool_def)
qed

lemma length_Flags_Set [simp]: "length (Flags_Set f b v) = length f"
  by (simp add: Flags_Set_def Let_def)

lemma flag_position:
  "0 \<le> a \<Longrightarrow> 0 \<le> b \<Longrightarrow> (a::int) div 5 = b div 5 \<Longrightarrow> nat (a mod 5) = nat (b mod 5) \<Longrightarrow> a = b"
  by (metis div_mult_mod_eq eq_nat_nat_iff pos_mod_sign zero_less_numeral)

lemma Flags_Get_Set:
  "Flags_Get (Flags_Set f b v) c =
     (if b = c \<and> 0 \<le> b \<and> b < 5 * int (length f) then v else Flags_Get f c)"
proof (cases "0 \<le> b \<and> b div 5 < int (length f) \<and> 0 \<le> c \<and> c div 5 < int (length f)")
  case False
  then show ?thesis
    by (auto simp: Flags_Get_def Flags_Set_def Let_def flagBitsPerAtom_def)
next
  case True
  let ?x = "f ! nat (b div 5) - flagASCIIOffset"
  have len: "b < 5 * int (length f)" using True by linarith
  have slot: "nat (b div 5) < length f" using True by linarith
  show ?thesis
  proof (cases "b div 5 = c div 5")
    case same: True
    let ?y = "if v then ?x OR flag_mask b else ?x AND NOT (flag_mask b)"
    have "Flags_Set f b v = f[nat (c div 5) := ?y + flagASCIIOffset]"
      using True same by (simp add: Flags_Set_def Let_def flagBitsPerAtom_def not_less)
    then have "Flags_Get (Flags_Set f b v) c \<longleftrightarrow> ?y AND flag_mask c \<noteq> 0"
      using True slot unfolding same by (simp add: Flags_Get_def Let_def flagBitsPerAtom_def not_less)
    then have "Flags_Get (Flags_Set f b v) c \<longleftrightarrow> bit ?y (nat (c mod 5))"
      using True and_mask_nonzero [of c ?y] by simp
    moreover have "Flags_Get f c \<longleftrightarrow> bit ?x (nat (c mod 5))"
      using True same and_mask_nonzero [of c ?x]
      by (simp add: Flags_Get_def Let_def flagBitsPerAtom_def not_less)
    moreover have "bit (flag_mask b) (nat (c mod 5)) \<longleftrightarrow> b = c"
      using mask_bit [of b] True same flag_position [of b c] by auto
    moreover have "nat (c mod 5) < 8" by simp
    ultimately show ?thesis using True len
      by (auto simp: bit_or_iff bit_and_iff bit_not_iff possible_bit_def)
  next
    case False
    then have "nat (b div 5) \<noteq> nat (c div 5)" using True by (auto simp: eq_nat_nat_iff)
    with False True show ?thesis
      by (auto simp: Flags_Get_def Flags_Set_def Let_def flagBitsPerAtom_def)
  qed
qed

section \<open>Printing and parsing of single values\<close>

lemma ParsePort_String: "portMin \<le> p \<Longrightarrow> p \<le> portMax \<Longrightarrow> ParsePort (Port_String p) = Some p"
  by (simp add: ParsePort_def Port_String_def parse_format_int portMin_def portMax_def)

lemma ParsePort_bounds: "ParsePort s = Some p \<Longrightarrow> portMin \<le> p \<and> p \<le> portMax"
  by (auto simp: ParsePort_def split: option.splits if_splits)

lemma ParsePeerType_String: "ParsePeerType (PeerType_String t) = Some t"
  by (cases t) (simp_all add: ParsePeerType_def)

lemma length_ZeroFlags: "length ZeroFlags = 4"
  by (simp add: ZeroFlags_def FlagsZero_def)

lemma ParseFlags_String: "length f = 4 \<Longrightarrow> ParseFlags (Flags_String f) = Some f"
  by (simp add: ParseFlags_def Flags_String_def FlagsLength_def length_ZeroFlags)

lemma length_ParseFlags: "ParseFlags s = Some f \<Longrightarrow> length f = 4"
  by (auto simp: ParseFlags_def FlagsLength_def length_ZeroFlags split: if_splits)

lemma two_digits_format:
  assumes "n < 100"
  shows "length (two_digits n) = 2 \<and> parse_int (two_digits n) = Some (int n)"
proof -
  have len: "length (two_digits n) = 2"
    using assms less_mult_imp_div_less [of n 10 10]
    by (simp add: two_digits_def format_uint.simps [of n] format_uint.simps [of "n div 10"])
  have n: "list_all is_digit (two_digits n)" "decimal_value 0 (two_digits n) = n"
    by (simp_all add: two_digits_def format_uint_digits is_digit_def digit_value_def)
  obtain c cs where c: "two_digits n = c # cs" using len by (cases "two_digits n") auto
  then have "c \<noteq> CHR ''-''" "c \<noteq> CHR ''+''" using n(1) by (auto simp: is_digit_def)
  moreover have "parse_uint 64 (two_digits n) = Some n"
    using n assms c by (simp add: parse_uint_def)
  ultimately show ?thesis using len c assms by (simp add: parse_int_def)
qed

lemma SeedUTCOffset_valid:
  assumes "\<bar>off\<bar> < 24 * 3600"
  shows "seedUTCOffsetValid (SeedUTCOffsetFromTime off)"
proof -
  let ?h = "nat \<bar>off\<bar> div 3600" and ?m = "nat \<bar>off\<bar> div 60 mod 60"
  have "nat \<bar>off\<bar> < 24 * 3600" using assms by linarith
  then have h: "?h \<le> 23" by (simp add: less_mult_imp_div_less less_Suc_eq_le [symmetric])
  have m: "?m \<le> 59" by (simp add: less_Suc_eq_le [symmetric])
  from h m two_digits_format [of ?h] two_digits_format [of ?m] show ?thesis
    by (auto simp: seedUTCOffsetValid_def SeedUTCOffsetFromTime_def Let_def)
qed

section \<open>Properties\<close>

text \<open>Setting a flag of a seed changes that flag and no other one, keeps the four bytes, and
  the flags survive their text; a position outside the twenty flags reads as unset and can not
  be set.\<close>

theorem seed_flags_independent:
  assumes "length f = 4"
  shows "Flags_Get (Flags_Set f b v) c = (if b = c \<and> 0 \<le> b \<and> b < 20 then v else Flags_Get f c) \<and>
    length (Flags_Set f b v) = 4 \<and> ParseFlags (Flags_String f) = Some f \<and>
    (if b < 0 \<or> 20 \<le> b then \<not> Flags_Get f b \<and> Flags_Set f b v = f else True)"
proof -
  have "b < 0 \<or> 20 \<le> b \<Longrightarrow> b < 0 \<or> 4 \<le> b div 5" by linarith
  then have "b < 0 \<or> 20 \<le> b \<Longrightarrow> \<not> Flags_Get f b \<and> Flags_Set f b v = f"
    using assms by (simp add: Flags_Get_def Flags_Set_def flagBitsPerAtom_def)
  then show ?thesis using assms Flags_Get_Set [of f b v c] by (simp add: ParseFlags_String)
qed

lemma seed_flags_independent_witness:
  "Flags_Get (Flags_Set ZeroFlags 4 True) 4 = (if (4::int) = 4 \<and> 0 \<le> (4::int) \<and> (4::int) < 20 then True
      else Flags_Get ZeroFlags 4) \<and>
    length (Flags_Set ZeroFlags 4 True) = 4 \<and> ParseFlags (Flags_String ZeroFlags) = Some ZeroFlags \<and>
    (if (4::int) < 0 \<or> 20 \<le> (4::int) then \<not> Flags_Get ZeroFlags 4 \<and> Flags_Set ZeroFlags 4 True = ZeroFlags
     else True)"
  by (rule seed_flags_independent) (rule length_ZeroFlags)

text \<open>The check of the offset reads the two halves as signed numbers, so it also accepts a
  second sign in front of a digit.\<close>

theorem offset_second_sign: "seedUTCOffsetValid ''+-5-9''"
  by (simp add: seedUTCOffsetValid_def parse_int_def parse_uint_def is_digit_def digit_value_def)

end
