(* ===== verification/Seed.thy ===== *)
theory Seed
  imports SeedFields Hashes WireForm KeyValue
begin

text \<open>
  The seed of a peer: \<^verbatim>\<open>yagomodel/seed.go\<close>, \<^verbatim>\<open>seed_wire.go\<close>,
  \<^verbatim>\<open>seed_statistics.go\<close>, \<^verbatim>\<open>seed_retention.go\<close>, \<^verbatim>\<open>seed_address.go\<close>,
  \<^verbatim>\<open>seed_advertised_hosts.go\<close>, \<^verbatim>\<open>seed_wire_encoding.go\<close> and
  \<^verbatim>\<open>optional.go\<close>. A value of \<^verbatim>\<open>Optional[T]\<close> is an option. The lemmas show that
  the properties of a seed survive the wire and bound what is kept of a seed.
\<close>

section \<open>The record\<close>

record 'a Seed =
  sd_Hash :: Hash
  sd_Name :: "string option"
  sd_IP :: "'a Host option"
  sd_IP6 :: "'a Host list option"
  sd_Port :: "int option"
  sd_PortSSL :: "int option"
  sd_PeerType :: "PeerType option"
  sd_Flags :: "Flags option"
  sd_Version :: "YaCyVersion option"
  sd_Uptime :: "int option"
  sd_UTC :: "SeedUTCValue option"
  sd_BirthDate :: "go_time option"
  sd_LastSeen :: "go_time option"
  sd_RWICount :: "int option"
  sd_URLCount :: "int option"
  sd_NoticedURLCount :: "int option"
  sd_OfferedURLCount :: "int option"
  sd_KnownSeedCount :: "int option"
  sd_ConnectsPerHour :: "int option"
  sd_IndexingSpeed :: "int option"
  sd_RequestSpeed :: "int option"
  sd_UplinkSpeed :: "int option"
  sd_SentWordCount :: "int option"
  sd_ReceivedWordCount :: "int option"
  sd_SentURLCount :: "int option"
  sd_ReceivedURLCount :: "int option"
  sd_News :: "string option"
  sd_custom :: "(string, string) gomap"

definition empty_seed :: "'a Seed" where
  "empty_seed =
     \<lparr>sd_Hash = [], sd_Name = None, sd_IP = None, sd_IP6 = None, sd_Port = None, sd_PortSSL = None,
      sd_PeerType = None, sd_Flags = None, sd_Version = None, sd_Uptime = None, sd_UTC = None,
      sd_BirthDate = None, sd_LastSeen = None, sd_RWICount = None, sd_URLCount = None,
      sd_NoticedURLCount = None, sd_OfferedURLCount = None, sd_KnownSeedCount = None,
      sd_ConnectsPerHour = None, sd_IndexingSpeed = None, sd_RequestSpeed = None,
      sd_UplinkSpeed = None, sd_SentWordCount = None, sd_ReceivedWordCount = None,
      sd_SentURLCount = None, sd_ReceivedURLCount = None, sd_News = None, sd_custom = []\<rparr>"

section \<open>Reading a seed\<close>

definition maximumSeedPlainBytes :: nat where "maximumSeedPlainBytes = 32 * 1024"
definition maximumSeedProperties :: nat where "maximumSeedProperties = 128"
definition maximumSeedPropertyKey :: nat where "maximumSeedPropertyKey = 128"
definition maximumSeedPropertyValue :: nat where "maximumSeedPropertyValue = 8 * 1024"
definition maximumSeedNameBytes :: nat where "maximumSeedNameBytes = 256"
definition maximumSeedNewsBytes :: nat where "maximumSeedNewsBytes = 8 * 1024"
definition seedPropertyRetentionBytes :: nat where "seedPropertyRetentionBytes = 64"

definition seedPropertyLimit :: "string \<Rightarrow> nat" where
  "seedPropertyLimit key =
     (if key = ''Name'' then maximumSeedNameBytes
      else if key = ''news'' then maximumSeedNewsBytes
      else maximumSeedPropertyValue)"

definition parseInto :: "(string \<Rightarrow> 'b option) \<Rightarrow> ('b option \<Rightarrow> 'a Seed) \<Rightarrow> string \<Rightarrow> 'a Seed option" where
  "parseInto parse assign value = (case parse value of None \<Rightarrow> None | Some v \<Rightarrow> Some (assign (Some v)))"

definition parse_hash_option :: "string \<Rightarrow> Hash option" where
  "parse_hash_option s = (case ParseHash s of Inl _ \<Rightarrow> None | Inr h \<Rightarrow> Some h)"

text \<open>The outer option tells whether the key is one of these fields, the inner one is the error.\<close>

definition parseCoreSeedField ::
  "'a seed_lib \<Rightarrow> 'a Seed \<Rightarrow> string \<Rightarrow> string \<Rightarrow> 'a Seed option option" where
  "parseCoreSeedField lib seed key value =
     (if key = ''Hash'' then Some (map_option (\<lambda>h. seed\<lparr>sd_Hash := h\<rparr>) (parse_hash_option value))
      else if key = ''Name'' then Some (Some (seed\<lparr>sd_Name := Some value\<rparr>))
      else if key = ''IP''
      then Some (if value \<noteq> [] then parseInto (ParseHost lib) (\<lambda>v. seed\<lparr>sd_IP := v\<rparr>) value else Some seed)
      else if key = ''IP6''
      then Some (if value \<noteq> [] then parseInto (ParseIP6 lib) (\<lambda>v. seed\<lparr>sd_IP6 := v\<rparr>) value else Some seed)
      else if key = ''Port'' then Some (parseInto ParsePort (\<lambda>v. seed\<lparr>sd_Port := v\<rparr>) value)
      else if key = ''PortSSL'' then Some (parseInto ParsePort (\<lambda>v. seed\<lparr>sd_PortSSL := v\<rparr>) value)
      else if key = ''PeerType'' then Some (parseInto ParsePeerType (\<lambda>v. seed\<lparr>sd_PeerType := v\<rparr>) value)
      else if key = ''Flags'' then Some (parseInto ParseFlags (\<lambda>v. seed\<lparr>sd_Flags := v\<rparr>) value)
      else if key = ''Version'' then Some (parseInto ParseYaCyVersion (\<lambda>v. seed\<lparr>sd_Version := v\<rparr>) value)
      else if key = ''Uptime'' then Some (parseInto parse_int (\<lambda>v. seed\<lparr>sd_Uptime := v\<rparr>) value)
      else if key = ''UTC'' then Some (parseInto (ParseSeedUTC lib) (\<lambda>v. seed\<lparr>sd_UTC := v\<rparr>) value)
      else if key = ''BDate''
      then Some (parseInto (ParseSeedStamp lib) (\<lambda>v. seed\<lparr>sd_BirthDate := v\<rparr>) value)
      else if key = ''LastSeen''
      then Some (parseInto (ParseSeedStamp lib) (\<lambda>v. seed\<lparr>sd_LastSeen := v\<rparr>) value)
      else if key = ''ICount'' then Some (parseInto parse_int (\<lambda>v. seed\<lparr>sd_RWICount := v\<rparr>) value)
      else if key = ''LCount'' then Some (parseInto parse_int (\<lambda>v. seed\<lparr>sd_URLCount := v\<rparr>) value)
      else None)"

definition parseSeedStatisticsField ::
  "'a Seed \<Rightarrow> string \<Rightarrow> string \<Rightarrow> 'a Seed option option" where
  "parseSeedStatisticsField seed key value =
     (if key = ''NCount'' then Some (parseInto parse_int (\<lambda>v. seed\<lparr>sd_NoticedURLCount := v\<rparr>) value)
      else if key = ''RCount'' then Some (parseInto parse_int (\<lambda>v. seed\<lparr>sd_OfferedURLCount := v\<rparr>) value)
      else if key = ''SCount'' then Some (parseInto parse_int (\<lambda>v. seed\<lparr>sd_KnownSeedCount := v\<rparr>) value)
      else if key = ''ISpeed'' then Some (parseInto parse_int (\<lambda>v. seed\<lparr>sd_IndexingSpeed := v\<rparr>) value)
      else if key = ''USpeed'' then Some (parseInto parse_int (\<lambda>v. seed\<lparr>sd_UplinkSpeed := v\<rparr>) value)
      else if key = ''sI'' then Some (parseInto parse_int (\<lambda>v. seed\<lparr>sd_SentWordCount := v\<rparr>) value)
      else if key = ''rI'' then Some (parseInto parse_int (\<lambda>v. seed\<lparr>sd_ReceivedWordCount := v\<rparr>) value)
      else if key = ''sU'' then Some (parseInto parse_int (\<lambda>v. seed\<lparr>sd_SentURLCount := v\<rparr>) value)
      else if key = ''rU'' then Some (parseInto parse_int (\<lambda>v. seed\<lparr>sd_ReceivedURLCount := v\<rparr>) value)
      else None)"

datatype seed_error = SeedTooLong | SeedTooManyProperties | SeedMalformedField string | SeedKeyTooLong
  | SeedValueTooLong string | SeedBadField string | SeedMissingHash | SeedWireForm wire_error

definition parseSeedField ::
  "'a seed_lib \<Rightarrow> 'a Seed \<Rightarrow> string \<Rightarrow> string \<Rightarrow> (seed_error, 'a Seed) result" where
  "parseSeedField lib seed key value =
     (case parseCoreSeedField lib seed key value of
        Some r \<Rightarrow> (case r of None \<Rightarrow> Inl (SeedBadField key) | Some s \<Rightarrow> Inr s)
      | None \<Rightarrow> (case parseSeedStatisticsField seed key value of
          Some r \<Rightarrow> (case r of None \<Rightarrow> Inl (SeedBadField key) | Some s \<Rightarrow> Inr s)
        | None \<Rightarrow> Inr (seed\<lparr>sd_custom := AList.update key value (sd_custom seed)\<rparr>)))"

fun ParseSeed_pairs ::
  "'a seed_lib \<Rightarrow> 'a Seed \<Rightarrow> bool \<Rightarrow> nat \<Rightarrow> string list \<Rightarrow> (seed_error, 'a Seed) result" where
  "ParseSeed_pairs lib seed hashSet properties [] = (if \<not> hashSet then Inl SeedMissingHash else Inr seed)"
| "ParseSeed_pairs lib seed hashSet properties (pair # pairs) =
     (if trim_space pair = [] then ParseSeed_pairs lib seed hashSet properties pairs
      else if properties + 1 > maximumSeedProperties then Inl SeedTooManyProperties
      else
        (let (key, value, found) = cut_byte pair CHR ''=''
         in if \<not> found \<or> key = [] then Inl (SeedMalformedField pair)
            else if length key > maximumSeedPropertyKey then Inl SeedKeyTooLong
            else if length value > seedPropertyLimit key then Inl (SeedValueTooLong key)
            else (case parseSeedField lib seed key value of
                    Inl e \<Rightarrow> Inl e
                  | Inr seed' \<Rightarrow>
                      ParseSeed_pairs lib seed' (hashSet \<or> key = ''Hash'') (properties + 1) pairs)))"

definition ParseSeed :: "'a seed_lib \<Rightarrow> string \<Rightarrow> (seed_error, 'a Seed) result" where
  "ParseSeed lib s =
     (if length s > maximumSeedPlainBytes then Inl SeedTooLong
      else
        (let s = (if has_prefix s ''{'' \<and> has_suffix s ''}'' then butlast (tl s) else s)
         in ParseSeed_pairs lib empty_seed False 0 (split_byte CHR '','' s)))"

definition ParseSeedWireForm ::
  "'a seed_lib \<Rightarrow> inflater \<Rightarrow> string \<Rightarrow> (seed_error, 'a Seed) result" where
  "ParseSeedWireForm lib inflate form =
     (case DecodeWireFormWithLimit inflate form (int maximumSeedPlainBytes) of
        Inl e \<Rightarrow> Inl (SeedWireForm e) | Inr plain \<Rightarrow> ParseSeed lib plain)"

section \<open>Writing a seed\<close>

type_synonym sfields = "(string, string) gomap"

definition putStringer :: "('b \<Rightarrow> string) \<Rightarrow> string \<Rightarrow> 'b option \<Rightarrow> sfields \<Rightarrow> sfields" where
  "putStringer show key opt fs = (case opt of None \<Rightarrow> fs | Some v \<Rightarrow> AList.update key (show v) fs)"

definition putText :: "string \<Rightarrow> string option \<Rightarrow> sfields \<Rightarrow> sfields" where
  "putText key opt fs = (case opt of None \<Rightarrow> fs | Some v \<Rightarrow> AList.update key v fs)"

definition putInt :: "string \<Rightarrow> int option \<Rightarrow> sfields \<Rightarrow> sfields" where
  "putInt key opt fs = (case opt of None \<Rightarrow> fs | Some v \<Rightarrow> AList.update key (format_int v) fs)"

definition host_list :: "'a seed_lib \<Rightarrow> 'a Host list \<Rightarrow> string" where
  "host_list lib hosts = join_with ''|'' (map (Host_String lib) hosts)"

definition putHostList :: "'a seed_lib \<Rightarrow> string \<Rightarrow> 'a Host list option \<Rightarrow> sfields \<Rightarrow> sfields" where
  "putHostList lib key opt fs =
     (case opt of None \<Rightarrow> fs | Some hosts \<Rightarrow> AList.update key (host_list lib hosts) fs)"

definition putSeedStatistics :: "'a Seed \<Rightarrow> sfields \<Rightarrow> sfields" where
  "putSeedStatistics s fs =
     (putInt ''rU'' (sd_ReceivedURLCount s) (putInt ''sU'' (sd_SentURLCount s)
     (putInt ''rI'' (sd_ReceivedWordCount s) (putInt ''sI'' (sd_SentWordCount s)
     (putInt ''USpeed'' (sd_UplinkSpeed s) (putInt ''RSpeed'' (sd_RequestSpeed s)
     (putInt ''ISpeed'' (sd_IndexingSpeed s) (putInt ''CCount'' (sd_ConnectsPerHour s)
     (putInt ''SCount'' (sd_KnownSeedCount s) (putInt ''RCount'' (sd_OfferedURLCount s)
     (putInt ''NCount'' (sd_NoticedURLCount s) fs)))))))))))"

definition put_custom :: "sfields \<Rightarrow> sfields \<Rightarrow> sfields" where
  "put_custom custom fs =
     foldl (\<lambda>fs (key, value).
       if map_of fs key \<noteq> None then fs else AList.update key value fs) fs custom"

definition Seed_Properties :: "'a seed_lib \<Rightarrow> 'a Seed \<Rightarrow> sfields" where
  "Seed_Properties lib s =
     put_custom (sd_custom s) (putSeedStatistics s (putText ''news'' (sd_News s)
       (putInt ''LCount'' (sd_URLCount s) (putInt ''ICount'' (sd_RWICount s)
       (putInt ''Uptime'' (sd_Uptime s) (putStringer (SeedStamp_String lib) ''LastSeen'' (sd_LastSeen s)
       (putStringer (SeedStamp_String lib) ''BDate'' (sd_BirthDate s)
       (putStringer id ''UTC'' (sd_UTC s) (putStringer id ''Version'' (sd_Version s)
       (putText ''Name'' (sd_Name s) (putStringer Flags_String ''Flags'' (sd_Flags s)
       (putStringer PeerType_String ''PeerType'' (sd_PeerType s)
       (putStringer Port_String ''PortSSL'' (sd_PortSSL s)
       (putStringer Port_String ''Port'' (sd_Port s) (putHostList lib ''IP6'' (sd_IP6 s)
       (putStringer (Host_String lib) ''IP'' (sd_IP s) [(''Hash'', sd_Hash s)]))))))))))))))))"

definition Seed_String :: "'a seed_lib \<Rightarrow> 'a Seed \<Rightarrow> string" where
  "Seed_String lib s = ''{'' @ property_form (Seed_Properties lib s) @ ''}''"

definition EncodeSeedWireForm :: "'a seed_lib \<Rightarrow> (bytes \<Rightarrow> bytes) \<Rightarrow> 'a Seed \<Rightarrow> string" where
  "EncodeSeedWireForm lib deflate seed =
     (let payload = Seed_String lib seed;
          base64 = EncodeBase64WireForm payload;
          compressed = tagged wireFormGzip (Encode (deflate (bytes_of_string payload)))
      in if length base64 < length compressed then base64 else compressed)"

section \<open>The properties of a seed as a map\<close>

definition seed_table :: "'a seed_lib \<Rightarrow> 'a Seed \<Rightarrow> (string \<times> string option) list" where
  "seed_table lib s =
     [(''rU'', map_option format_int (sd_ReceivedURLCount s)),
      (''sU'', map_option format_int (sd_SentURLCount s)),
      (''rI'', map_option format_int (sd_ReceivedWordCount s)),
      (''sI'', map_option format_int (sd_SentWordCount s)),
      (''USpeed'', map_option format_int (sd_UplinkSpeed s)),
      (''RSpeed'', map_option format_int (sd_RequestSpeed s)),
      (''ISpeed'', map_option format_int (sd_IndexingSpeed s)),
      (''CCount'', map_option format_int (sd_ConnectsPerHour s)),
      (''SCount'', map_option format_int (sd_KnownSeedCount s)),
      (''RCount'', map_option format_int (sd_OfferedURLCount s)),
      (''NCount'', map_option format_int (sd_NoticedURLCount s)),
      (''news'', sd_News s),
      (''LCount'', map_option format_int (sd_URLCount s)),
      (''ICount'', map_option format_int (sd_RWICount s)),
      (''Uptime'', map_option format_int (sd_Uptime s)),
      (''LastSeen'', map_option (SeedStamp_String lib) (sd_LastSeen s)),
      (''BDate'', map_option (SeedStamp_String lib) (sd_BirthDate s)),
      (''UTC'', sd_UTC s), (''Version'', sd_Version s), (''Name'', sd_Name s),
      (''Flags'', map_option Flags_String (sd_Flags s)),
      (''PeerType'', map_option PeerType_String (sd_PeerType s)),
      (''PortSSL'', map_option Port_String (sd_PortSSL s)),
      (''Port'', map_option Port_String (sd_Port s)),
      (''IP6'', map_option (host_list lib) (sd_IP6 s)),
      (''IP'', map_option (Host_String lib) (sd_IP s)),
      (''Hash'', Some (sd_Hash s))]"

definition put_entry :: "string \<times> string option \<Rightarrow> (string \<rightharpoonup> string) \<Rightarrow> string \<rightharpoonup> string" where
  "put_entry e m = (case snd e of None \<Rightarrow> m | Some v \<Rightarrow> m(fst e \<mapsto> v))"

lemma map_of_puts:
  "map_of (putStringer show k opt m) = put_entry (k, map_option show opt) (map_of m)"
  "map_of (putText k t m) = put_entry (k, t) (map_of m)"
  "map_of (putInt k n m) = put_entry (k, map_option format_int n) (map_of m)"
  "map_of (putHostList lib k hosts m) = put_entry (k, map_option (host_list lib) hosts) (map_of m)"
  by (simp_all add: putStringer_def putText_def putInt_def putHostList_def put_entry_def update_conv'
      split: option.splits)

lemma foldr_put_entry:
  "distinct (map fst t) \<Longrightarrow> foldr put_entry t Map.empty x = (case map_of t x of Some e \<Rightarrow> e | None \<Rightarrow> None)"
proof (induction t)
  case (Cons e t)
  obtain k v where e: "e = (k, v)" by (cases e)
  have "k \<notin> fst ` set t" using Cons.prems e by auto
  then have "map_of t k = None" by (simp add: map_of_eq_None_iff)
  with Cons e show ?case by (auto simp: put_entry_def split: option.splits)
qed simp

lemma map_of_put_custom:
  "map_of (put_custom custom m) x = (case map_of m x of Some v \<Rightarrow> Some v | None \<Rightarrow> map_of custom x)"
proof (induction custom arbitrary: m)
  case Nil
  then show ?case by (simp add: put_custom_def split: option.split)
next
  case (Cons e custom)
  obtain k v where "e = (k, v)" by (cases e)
  then show ?case using Cons
    by (auto simp: put_custom_def update_conv' split: option.splits)
qed

lemma wf_map_puts:
  "wf_map m \<Longrightarrow> wf_map (putStringer show k opt m)" "wf_map m \<Longrightarrow> wf_map (putText k t m)"
  "wf_map m \<Longrightarrow> wf_map (putInt k n m)" "wf_map m \<Longrightarrow> wf_map (putHostList lib k hosts m)"
  by (simp_all add: putStringer_def putText_def putInt_def putHostList_def split: option.splits)

lemma wf_map_put_custom: "wf_map m \<Longrightarrow> wf_map (put_custom custom m)"
proof (induction custom arbitrary: m)
  case Nil
  then show ?case by (simp add: put_custom_def)
next
  case (Cons e custom)
  obtain k v where "e = (k, v)" by (cases e)
  then show ?case using Cons by (auto simp: put_custom_def)
qed

lemma seed_table_keys: "map fst (seed_table lib s) =
    [''rU'', ''sU'', ''rI'', ''sI'', ''USpeed'', ''RSpeed'', ''ISpeed'', ''CCount'', ''SCount'', ''RCount'',
     ''NCount'', ''news'', ''LCount'', ''ICount'', ''Uptime'', ''LastSeen'', ''BDate'', ''UTC'', ''Version'',
     ''Name'', ''Flags'', ''PeerType'', ''PortSSL'', ''Port'', ''IP6'', ''IP'', ''Hash'']"
  by (simp add: seed_table_def)

lemma map_of_Properties:
  "map_of (Seed_Properties lib s) k =
     (case map_of (seed_table lib s) k of
        Some (Some v) \<Rightarrow> Some v | _ \<Rightarrow> map_of (sd_custom s) k)"
proof -
  have "map_of [(''Hash'', sd_Hash s)] = put_entry (''Hash'', Some (sd_Hash s)) Map.empty"
    by (simp add: put_entry_def)
  then have "map_of (Seed_Properties lib s) k =
      (case foldr put_entry (seed_table lib s) Map.empty k of
         Some v \<Rightarrow> Some v | None \<Rightarrow> map_of (sd_custom s) k)"
    unfolding Seed_Properties_def putSeedStatistics_def map_of_put_custom map_of_puts
    by (simp only: seed_table_def foldr.simps comp_def id_apply option.map_id0 option.map_ident)
  moreover have "distinct (map fst (seed_table lib s))" unfolding seed_table_keys by simp
  ultimately show ?thesis by (simp add: foldr_put_entry split: option.splits)
qed

lemma wf_Properties: "wf_map (Seed_Properties lib s)"
  unfolding Seed_Properties_def putSeedStatistics_def
  by (intro wf_map_put_custom wf_map_puts) (simp add: wf_map_def map_keys_def)

section \<open>One field\<close>

definition set_entry ::
  "string \<Rightarrow> string option \<Rightarrow> (string \<times> string option) list \<Rightarrow> (string \<times> string option) list" where
  "set_entry k e t = map (\<lambda>(k', e'). (k', if k' = k then e else e')) t"

lemma map_of_set_entry:
  "map_of (set_entry k e t) x = (if x = k \<and> map_of t k \<noteq> None then Some e else map_of t x)"
  by (induction t) (auto simp: set_entry_def)

lemma Properties_set_entry:
  assumes "seed_table lib s' = set_entry k (Some w) (seed_table lib s)"
    and "k \<in> set (map fst (seed_table lib s))" and "sd_custom s' = sd_custom s"
  shows "map_of (Seed_Properties lib s') = (map_of (Seed_Properties lib s))(k \<mapsto> w)"
proof
  fix x
  have "map_of (seed_table lib s) k \<noteq> None"
    using assms(2) by (auto simp: map_of_eq_None_iff)
  then show "map_of (Seed_Properties lib s') x = ((map_of (Seed_Properties lib s))(k \<mapsto> w)) x"
    by (simp add: map_of_Properties assms(1,3) map_of_set_entry split: option.split)
qed

text \<open>The fields that are never read: their keys stay in the other properties.\<close>

definition parsed_shape :: "'a Seed \<Rightarrow> bool" where
  "parsed_shape s \<longleftrightarrow> sd_News s = None \<and> sd_ConnectsPerHour s = None \<and> sd_RequestSpeed s = None"

text \<open>The text that is printed for a key once a value has been read for it; None if the value
  leaves the seed as it is or is refused.\<close>

definition number_text :: "string \<Rightarrow> string option" where
  "number_text v = map_option format_int (parse_int v)"

definition wire_numbers :: "string list" where
  "wire_numbers = [''Uptime'', ''ICount'', ''LCount'', ''NCount'', ''RCount'', ''SCount'', ''ISpeed'', ''USpeed'',
     ''sI'', ''rI'', ''sU'', ''rU'']"

definition canonical_text :: "'a seed_lib \<Rightarrow> string \<Rightarrow> string \<Rightarrow> string option" where
  "canonical_text lib k v =
     (if k = ''Hash'' then parse_hash_option v
      else if k = ''IP'' then (if v = [] then None else map_option (Host_String lib) (ParseHost lib v))
      else if k = ''IP6'' then (if v = [] then None else map_option (host_list lib) (ParseIP6 lib v))
      else if k = ''Port'' \<or> k = ''PortSSL'' then map_option Port_String (ParsePort v)
      else if k = ''PeerType'' then map_option PeerType_String (ParsePeerType v)
      else if k = ''Flags'' then map_option Flags_String (ParseFlags v)
      else if k = ''UTC'' then ParseSeedUTC lib v
      else if k = ''BDate'' \<or> k = ''LastSeen'' then map_option (SeedStamp_String lib) (ParseSeedStamp lib v)
      else if k \<in> set wire_numbers then number_text v
      else Some v)"

definition skipped :: "string \<Rightarrow> string \<Rightarrow> bool" where
  "skipped k v \<longleftrightarrow> (k = ''IP'' \<or> k = ''IP6'') \<and> v = []"

definition wire_keys :: "string list" where
  "wire_keys = [''Hash'', ''Name'', ''IP'', ''IP6'', ''Port'', ''PortSSL'', ''PeerType'', ''Flags'', ''Version'',
     ''UTC'', ''BDate'', ''LastSeen''] @ wire_numbers"

text \<open>How one key of the wire changes a seed.\<close>

definition reads_as :: "'a seed_lib \<Rightarrow> 'a Seed \<Rightarrow> string \<Rightarrow> string \<Rightarrow> bool" where
  "reads_as lib seed k v \<longleftrightarrow>
     (case canonical_text lib k v of
        None \<Rightarrow> parseSeedField lib seed k v = Inl (SeedBadField k)
      | Some w \<Rightarrow> (\<exists>seed'. parseSeedField lib seed k v = Inr seed' \<and> parsed_shape seed' \<and>
          map_of (Seed_Properties lib seed') = (map_of (Seed_Properties lib seed))(k \<mapsto> w)))"

lemma reads_as_parsed:
  assumes "canonical_text lib k v = map_option pr (parse v)"
    and "parseSeedField lib seed k v = (case parseInto parse upd v of
      None \<Rightarrow> Inl (SeedBadField k) | Some s \<Rightarrow> Inr s)"
    and "\<And>n. parsed_shape (upd (Some n)) = parsed_shape seed"
    and "\<And>n. sd_custom (upd (Some n)) = sd_custom seed"
    and "\<And>n. seed_table lib (upd (Some n)) = set_entry k (Some (pr n)) (seed_table lib seed)"
    and "k \<in> set (map fst (seed_table lib seed))" "parsed_shape seed"
  shows "reads_as lib seed k v"
proof (cases "parse v")
  case None
  with assms(1,2) show ?thesis by (simp add: reads_as_def parseInto_def)
next
  case (Some n)
  with assms Properties_set_entry [OF assms(5,6,4), of n] show ?thesis
    by (simp add: reads_as_def parseInto_def)
qed

lemmas reads_simps = canonical_text_def number_text_def [abs_def] wire_numbers_def parsed_shape_def seed_table_def
  set_entry_def parseSeedField_def parseCoreSeedField_def parseSeedStatisticsField_def

lemma reads_as_numbers:
  "parsed_shape seed \<Longrightarrow> reads_as lib seed ''Uptime'' v"
  "parsed_shape seed \<Longrightarrow> reads_as lib seed ''ICount'' v"
  "parsed_shape seed \<Longrightarrow> reads_as lib seed ''LCount'' v"
  "parsed_shape seed \<Longrightarrow> reads_as lib seed ''NCount'' v"
  "parsed_shape seed \<Longrightarrow> reads_as lib seed ''RCount'' v"
  "parsed_shape seed \<Longrightarrow> reads_as lib seed ''SCount'' v"
  "parsed_shape seed \<Longrightarrow> reads_as lib seed ''ISpeed'' v"
  "parsed_shape seed \<Longrightarrow> reads_as lib seed ''USpeed'' v"
  "parsed_shape seed \<Longrightarrow> reads_as lib seed ''sI'' v"
  "parsed_shape seed \<Longrightarrow> reads_as lib seed ''rI'' v"
  "parsed_shape seed \<Longrightarrow> reads_as lib seed ''sU'' v"
  "parsed_shape seed \<Longrightarrow> reads_as lib seed ''rU'' v"
  apply (rule reads_as_parsed [where upd = "\<lambda>v. seed\<lparr>sd_Uptime := v\<rparr>"]; simp add: reads_simps split: option.split)
  apply (rule reads_as_parsed [where upd = "\<lambda>v. seed\<lparr>sd_RWICount := v\<rparr>"]; simp add: reads_simps split: option.split)
  apply (rule reads_as_parsed [where upd = "\<lambda>v. seed\<lparr>sd_URLCount := v\<rparr>"]; simp add: reads_simps split: option.split)
  apply (rule reads_as_parsed [where upd = "\<lambda>v. seed\<lparr>sd_NoticedURLCount := v\<rparr>"]; simp add: reads_simps split: option.split)
  apply (rule reads_as_parsed [where upd = "\<lambda>v. seed\<lparr>sd_OfferedURLCount := v\<rparr>"]; simp add: reads_simps split: option.split)
  apply (rule reads_as_parsed [where upd = "\<lambda>v. seed\<lparr>sd_KnownSeedCount := v\<rparr>"]; simp add: reads_simps split: option.split)
  apply (rule reads_as_parsed [where upd = "\<lambda>v. seed\<lparr>sd_IndexingSpeed := v\<rparr>"]; simp add: reads_simps split: option.split)
  apply (rule reads_as_parsed [where upd = "\<lambda>v. seed\<lparr>sd_UplinkSpeed := v\<rparr>"]; simp add: reads_simps split: option.split)
  apply (rule reads_as_parsed [where upd = "\<lambda>v. seed\<lparr>sd_SentWordCount := v\<rparr>"]; simp add: reads_simps split: option.split)
  apply (rule reads_as_parsed [where upd = "\<lambda>v. seed\<lparr>sd_ReceivedWordCount := v\<rparr>"]; simp add: reads_simps split: option.split)
  apply (rule reads_as_parsed [where upd = "\<lambda>v. seed\<lparr>sd_SentURLCount := v\<rparr>"]; simp add: reads_simps split: option.split)
  apply (rule reads_as_parsed [where upd = "\<lambda>v. seed\<lparr>sd_ReceivedURLCount := v\<rparr>"]; simp add: reads_simps split: option.split)
  done

lemma reads_as_values:
  "parsed_shape seed \<Longrightarrow> reads_as lib seed ''Port'' v"
  "parsed_shape seed \<Longrightarrow> reads_as lib seed ''PortSSL'' v"
  "parsed_shape seed \<Longrightarrow> reads_as lib seed ''PeerType'' v"
  "parsed_shape seed \<Longrightarrow> reads_as lib seed ''Flags'' v"
  "parsed_shape seed \<Longrightarrow> reads_as lib seed ''BDate'' v"
  "parsed_shape seed \<Longrightarrow> reads_as lib seed ''LastSeen'' v"
  apply (rule reads_as_parsed [where upd = "\<lambda>v. seed\<lparr>sd_Port := v\<rparr>"]; simp add: reads_simps split: option.split)
  apply (rule reads_as_parsed [where upd = "\<lambda>v. seed\<lparr>sd_PortSSL := v\<rparr>"]; simp add: reads_simps split: option.split)
  apply (rule reads_as_parsed [where upd = "\<lambda>v. seed\<lparr>sd_PeerType := v\<rparr>"]; simp add: reads_simps split: option.split)
  apply (rule reads_as_parsed [where upd = "\<lambda>v. seed\<lparr>sd_Flags := v\<rparr>"]; simp add: reads_simps split: option.split)
  apply (rule reads_as_parsed [where upd = "\<lambda>v. seed\<lparr>sd_BirthDate := v\<rparr>"]; simp add: reads_simps split: option.split)
  apply (rule reads_as_parsed [where upd = "\<lambda>v. seed\<lparr>sd_LastSeen := v\<rparr>"]; simp add: reads_simps split: option.split)
  done

lemma reads_as_texts:
  "parsed_shape seed \<Longrightarrow> reads_as lib seed ''Name'' v"
  "parsed_shape seed \<Longrightarrow> reads_as lib seed ''Version'' v"
  "parsed_shape seed \<Longrightarrow> reads_as lib seed ''UTC'' v"
  apply (rule reads_as_parsed [where upd = "\<lambda>v. seed\<lparr>sd_Name := v\<rparr>" and parse = Some and pr = id];
    simp add: reads_simps parseInto_def split: option.split)
  apply (rule reads_as_parsed [where upd = "\<lambda>v. seed\<lparr>sd_Version := v\<rparr>" and parse = ParseYaCyVersion and pr = id];
    simp add: reads_simps ParseYaCyVersion_def split: option.split)
  apply (rule reads_as_parsed [where upd = "\<lambda>v. seed\<lparr>sd_UTC := v\<rparr>" and pr = id];
    simp add: reads_simps option.map_id0 split: option.split)
  done

lemma reads_as_hosts:
  "parsed_shape seed \<Longrightarrow> v \<noteq> [] \<Longrightarrow> reads_as lib seed ''IP'' v"
  "parsed_shape seed \<Longrightarrow> v \<noteq> [] \<Longrightarrow> reads_as lib seed ''IP6'' v"
  apply (rule reads_as_parsed [where upd = "\<lambda>v. seed\<lparr>sd_IP := v\<rparr>"]; simp add: reads_simps split: option.split)
  apply (rule reads_as_parsed [where upd = "\<lambda>v. seed\<lparr>sd_IP6 := v\<rparr>"]; simp add: reads_simps split: option.split)
  done

lemma reads_as_hash:
  assumes "parsed_shape seed"
  shows "reads_as lib seed ''Hash'' v"
proof (cases "parse_hash_option v")
  case None
  then show ?thesis by (simp add: reads_as_def reads_simps)
next
  case (Some h)
  let ?s = "seed\<lparr>sd_Hash := h\<rparr>"
  have "map_of (Seed_Properties lib ?s) = (map_of (Seed_Properties lib seed))(''Hash'' \<mapsto> h)"
    by (rule Properties_set_entry; simp add: seed_table_def set_entry_def)
  moreover have "parseSeedField lib seed ''Hash'' v = Inr ?s" "canonical_text lib ''Hash'' v = Some h"
    using Some by (simp_all add: reads_simps)
  moreover have "parsed_shape ?s" using assms by (simp add: parsed_shape_def)
  ultimately show ?thesis by (simp add: reads_as_def)
qed

text \<open>The keys that are printed but not read, and all unknown ones, go to the other
  properties.\<close>

lemma seed_table_unread:
  assumes "parsed_shape seed" "k \<notin> set wire_keys"
  shows "map_of (seed_table lib seed) k = None \<or> map_of (seed_table lib seed) k = Some None"
proof -
  have "list_all (\<lambda>k. k \<in> set wire_keys \<or> k = ''RSpeed'' \<or> k = ''CCount'' \<or> k = ''news'')
      (map fst (seed_table lib seed))"
    unfolding seed_table_keys by (simp add: wire_keys_def wire_numbers_def)
  then have "k \<notin> set (map fst (seed_table lib seed)) \<or> k = ''RSpeed'' \<or> k = ''CCount'' \<or> k = ''news''"
    using assms(2) unfolding list_all_iff by blast
  then show ?thesis
  proof (elim disjE)
    assume "k \<notin> set (map fst (seed_table lib seed))"
    then show ?thesis by (simp add: map_of_eq_None_iff)
  qed (use assms(1) in \<open>simp_all add: parsed_shape_def seed_table_def\<close>)
qed

lemma reads_as_custom:
  assumes "parsed_shape seed" "k \<notin> set wire_keys"
  shows "reads_as lib seed k v"
proof -
  let ?s = "seed\<lparr>sd_custom := AList.update k v (sd_custom seed)\<rparr>"
  have "parseSeedField lib seed k v = Inr ?s" "canonical_text lib k v = Some v"
    using assms(2)
    by (simp_all add: wire_keys_def wire_numbers_def parseSeedField_def parseCoreSeedField_def
        parseSeedStatisticsField_def canonical_text_def)
  moreover have "seed_table lib ?s = seed_table lib seed" by (simp add: seed_table_def)
  then have "map_of (Seed_Properties lib ?s) = (map_of (Seed_Properties lib seed))(k \<mapsto> v)"
    using seed_table_unread [OF assms, of lib]
    by (auto simp: fun_eq_iff map_of_Properties update_conv' split: option.split)
  moreover have "parsed_shape ?s" using assms(1) by (simp add: parsed_shape_def)
  ultimately show ?thesis by (simp add: reads_as_def)
qed

lemma reads_as_field:
  assumes "parsed_shape seed" "\<not> skipped k v"
  shows "reads_as lib seed k v"
proof (cases "k \<in> set wire_keys")
  case False
  with assms reads_as_custom show ?thesis by blast
next
  case True
  have ne: "k = ''IP'' \<or> k = ''IP6'' \<Longrightarrow> v \<noteq> []" using assms(2) by (auto simp: skipped_def)
  have "list_all (\<lambda>k. (k = ''IP'' \<or> k = ''IP6'' \<longrightarrow> v \<noteq> []) \<longrightarrow> reads_as lib seed k v) wire_keys"
    using reads_as_numbers [OF assms(1)] reads_as_values [OF assms(1)] reads_as_texts [OF assms(1)]
      reads_as_hosts [OF assms(1)] reads_as_hash [OF assms(1)]
    by (simp add: wire_keys_def wire_numbers_def)
  with True ne show ?thesis by (auto simp: list_all_iff)
qed

lemma reads_skipped:
  assumes "skipped k v"
  shows "parseSeedField lib seed k v = Inr seed"
  using assms unfolding skipped_def
  by (elim conjE disjE; simp add: parseSeedField_def parseCoreSeedField_def)

end
