(* ===== verification/SeedWire.thy ===== *)
theory SeedWire
  imports Seed
begin

text \<open>
  The wire form of a seed is stable: a seed that was read from the wire, printed and read
  again prints the same properties. What the address and time parsers of Go's library must
  do for this is \<open>lib_laws\<close>: what they print, they read back.
\<close>

section \<open>Canonical values\<close>

definition addr_laws :: "'a seed_lib \<Rightarrow> bool" where
  "addr_laws lib \<longleftrightarrow> (\<forall>s a. lib_parse_addr lib s = Some a \<longrightarrow>
     lib_parse_addr lib (lib_show_addr lib a) = Some a \<and> lib_show_addr lib a \<noteq> [] \<and>
     (CHR '','' \<notin> set s \<longrightarrow> CHR '','' \<notin> set (lib_show_addr lib a)) \<and>
     (CHR ''|'' \<notin> set s \<longrightarrow> CHR ''|'' \<notin> set (lib_show_addr lib a)))"

definition stamp_laws :: "'a seed_lib \<Rightarrow> bool" where
  "stamp_laws lib \<longleftrightarrow> (\<forall>s t. lib_parse_stamp lib s = Some t \<longrightarrow>
     (\<exists>t'. lib_parse_stamp lib (lib_show_stamp lib t) = Some t' \<and>
        lib_show_stamp lib t' = lib_show_stamp lib t) \<and>
     CHR '','' \<notin> set (lib_show_stamp lib t))"

definition lib_laws :: "'a seed_lib \<Rightarrow> bool" where
  "lib_laws lib \<longleftrightarrow> addr_laws lib \<and> stamp_laws lib"

lemma addr_lawsD:
  assumes "addr_laws lib" "lib_parse_addr lib s = Some a"
  shows "lib_parse_addr lib (lib_show_addr lib a) = Some a" "lib_show_addr lib a \<noteq> []"
    and "CHR '','' \<notin> set s \<Longrightarrow> CHR '','' \<notin> set (lib_show_addr lib a)"
    and "CHR ''|'' \<notin> set s \<Longrightarrow> CHR ''|'' \<notin> set (lib_show_addr lib a)"
  using assms unfolding addr_laws_def by blast+

lemma parse_hash_option_iff: "parse_hash_option v = Some w \<longleftrightarrow> w = v \<and> Hash_Valid v"
proof (cases "Hash_Valid v")
  case True
  then show ?thesis by (auto simp: parse_hash_option_def ParseHash_valid)
next
  case False
  then obtain e where "ParseHash v = Inl e" using ParseHash_error by blast
  with False show ?thesis by (simp add: parse_hash_option_def)
qed

lemma parse_int_bounds: "parse_int s = Some n \<Longrightarrow> - (2 ^ 63) \<le> n \<and> n < 2 ^ 63"
  by (auto simp: parse_int_def Let_def split: list.splits option.splits if_splits)

lemma format_int_no_comma: "CHR '','' \<notin> set (format_int n)"
  using format_uint_digits [of "nat n"] format_uint_digits [of "nat (- n)"]
  by (auto simp: format_int_def list_all_iff dest: is_digit_not)

lemma PeerType_String_no_comma: "CHR '','' \<notin> set (PeerType_String t)"
  by (cases t) simp_all

lemma Flags_String_ParseFlags:
  assumes "ParseFlags v = Some f" "CHR '','' \<notin> set v"
  shows "CHR '','' \<notin> set (Flags_String f)"
proof -
  have f: "f = bytes_of_string v @ drop (length v) ZeroFlags"
    using assms(1) by (simp add: ParseFlags_def split: if_splits)
  have "Flags_String f = v @ drop (length v) FlagsZero"
    unfolding f Flags_String_def ZeroFlags_def
    by (simp add: string_of_bytes_def bytes_of_string_def comp_def drop_map)
  moreover have "CHR '','' \<notin> set (drop (length v) FlagsZero)"
    by (auto simp: FlagsZero_def dest: in_set_dropD)
  ultimately show ?thesis using assms(2) by simp
qed

lemma canonical_host:
  assumes "addr_laws lib" "ParseHost lib v = Some h" "v \<noteq> []" "CHR '','' \<notin> set v"
  shows "ParseHost lib (Host_String lib h) = Some h \<and> Host_String lib h \<noteq> [] \<and>
    CHR '','' \<notin> set (Host_String lib h)"
proof (cases "lib_parse_addr lib v")
  case None
  with assms show ?thesis by (auto simp: ParseHost_def Host_String_def split: if_splits)
next
  case (Some a)
  with assms addr_lawsD [OF assms(1) Some] show ?thesis
    by (auto simp: ParseHost_def Host_String_def)
qed

lemma parse_segments_shows:
  assumes "addr_laws lib"
  shows "parse_segments lib ss = Some hosts \<Longrightarrow> \<forall>s\<in>set ss. CHR '','' \<notin> set s \<and> CHR ''|'' \<notin> set s \<Longrightarrow>
    parse_segments lib (map (Host_String lib) hosts) = Some hosts \<and> length hosts = length ss \<and>
    (\<forall>s\<in>set (map (Host_String lib) hosts). s \<noteq> [] \<and> CHR '','' \<notin> set s \<and> CHR ''|'' \<notin> set s)"
proof (induction ss arbitrary: hosts)
  case (Cons s ss)
  then obtain a hosts' where a: "lib_parse_addr lib s = Some a" "parse_segments lib ss = Some hosts'"
    "hosts = HostAddr a # hosts'"
    by (auto split: option.splits)
  with Cons addr_lawsD [OF assms a(1)] show ?case by (simp add: Host_String_def)
qed simp

lemma split_byte_set: "s \<in> set (split_byte c v) \<Longrightarrow> c \<notin> set s \<and> set s \<subseteq> set v"
  by (induction v arbitrary: s) (auto split: if_splits list.splits, blast+)

lemma canonical_hosts:
  assumes "addr_laws lib" "ParseIP6 lib v = Some hosts" "CHR '','' \<notin> set v"
  shows "ParseIP6 lib (host_list lib hosts) = Some hosts \<and> host_list lib hosts \<noteq> [] \<and>
    CHR '','' \<notin> set (host_list lib hosts)"
proof -
  let ?ss = "map (Host_String lib) hosts"
  have "\<forall>s\<in>set (split_byte CHR ''|'' v). CHR '','' \<notin> set s \<and> CHR ''|'' \<notin> set s"
    using assms(3) by (auto dest: split_byte_set)
  with parse_segments_shows [OF assms(1) assms(2) [unfolded ParseIP6_def]]
  have ss: "parse_segments lib ?ss = Some hosts" "length hosts = length (split_byte CHR ''|'' v)"
    "\<forall>s\<in>set ?ss. s \<noteq> [] \<and> CHR '','' \<notin> set s \<and> CHR ''|'' \<notin> set s" by auto
  have ne: "?ss \<noteq> []" using ss(2) split_byte_nonempty [of "CHR ''|''" v] by auto
  have "split_byte CHR ''|'' (join_with ''|'' ?ss) = ?ss"
    using ss(3) ne by (intro split_byte_join) auto
  moreover have "join_with ''|'' ?ss \<noteq> []" using join_with_empty [of "''|''" ?ss] ss(3) ne by blast
  moreover have "CHR '','' \<notin> set (join_with ''|'' ?ss)" using set_join_with [of "''|''" ?ss] ss(3) by fastforce
  ultimately show ?thesis using ss(1) by (simp add: ParseIP6_def host_list_def)
qed

lemma number_text_idem:
  "number_text v = Some w \<Longrightarrow> number_text w = Some w \<and> CHR '','' \<notin> set w"
  using parse_int_bounds [of v]
  by (auto simp: number_text_def parse_format_int format_int_no_comma)

lemma port_text_idem:
  "map_option Port_String (ParsePort v) = Some w \<Longrightarrow>
     map_option Port_String (ParsePort w) = Some w \<and> CHR '','' \<notin> set w"
  using ParsePort_bounds [of v] ParsePort_String
  by (auto simp: Port_String_def format_int_no_comma)

text \<open>What is printed for a value that was read is read back as the same.\<close>

lemma canonical_text_idem:
  assumes "lib_laws lib" "canonical_text lib k v = Some w" "CHR '','' \<notin> set v"
  shows "canonical_text lib k w = Some w \<and> \<not> skipped k w \<and> CHR '','' \<notin> set w"
proof -
  have laws: "addr_laws lib" "stamp_laws lib" using assms(1) by (simp_all add: lib_laws_def)
  consider "k = ''Hash''" | "k = ''IP''" | "k = ''IP6''" | "k = ''Port'' \<or> k = ''PortSSL''" | "k = ''PeerType''"
    | "k = ''Flags''" | "k = ''UTC''" | "k = ''BDate'' \<or> k = ''LastSeen''" | "k \<in> set wire_numbers"
    | "k \<noteq> ''Hash''" "k \<noteq> ''IP''" "k \<noteq> ''IP6''" "k \<noteq> ''Port''" "k \<noteq> ''PortSSL''" "k \<noteq> ''PeerType''"
      "k \<noteq> ''Flags''" "k \<noteq> ''UTC''" "k \<noteq> ''BDate''" "k \<noteq> ''LastSeen''" "k \<notin> set wire_numbers"
    by argo
  then show ?thesis
  proof cases
    case 1
    with assms show ?thesis by (simp add: canonical_text_def skipped_def parse_hash_option_iff)
  next
    case 2
    with assms canonical_host [OF laws(1)] show ?thesis
      by (simp add: canonical_text_def skipped_def split: if_splits) blast
  next
    case 3
    with assms canonical_hosts [OF laws(1)] show ?thesis
      by (simp add: canonical_text_def skipped_def split: if_splits) blast
  next
    case 4
    then show ?thesis
    proof (elim disjE)
      assume "k = ''Port''"
      with assms(2) port_text_idem show ?thesis by (simp add: canonical_text_def skipped_def)
    next
      assume "k = ''PortSSL''"
      with assms(2) port_text_idem show ?thesis by (simp add: canonical_text_def skipped_def)
    qed
  next
    case 5
    with assms(2) show ?thesis
      by (auto simp: canonical_text_def skipped_def ParsePeerType_String PeerType_String_no_comma)
  next
    case 6
    with assms(2) obtain f where f: "ParseFlags v = Some f" "w = Flags_String f"
      by (auto simp: canonical_text_def)
    with 6 Flags_String_ParseFlags [OF f(1) assms(3)] length_ParseFlags [OF f(1)] show ?thesis
      by (simp add: canonical_text_def skipped_def ParseFlags_String)
  next
    case 7
    with assms(2,3) show ?thesis
      by (auto simp: canonical_text_def skipped_def ParseSeedUTC_def split: if_splits)
  next
    case 8
    then have "map_option (lib_show_stamp lib) (lib_parse_stamp lib v) = Some w"
      using assms(2) by (elim disjE) (simp_all add: canonical_text_def SeedStamp_String_def [abs_def] ParseSeedStamp_def)
    then obtain t where "lib_parse_stamp lib v = Some t" "w = lib_show_stamp lib t" by auto
    with laws(2) have "map_option (lib_show_stamp lib) (lib_parse_stamp lib w) = Some w \<and> CHR '','' \<notin> set w"
      unfolding stamp_laws_def by fastforce
    with 8 show ?thesis
      by (elim disjE) (simp_all add: canonical_text_def skipped_def SeedStamp_String_def [abs_def] ParseSeedStamp_def)
  next
    case 9
    have "list_all (\<lambda>k. canonical_text lib k = number_text \<and> k \<noteq> ''IP'' \<and> k \<noteq> ''IP6'') wire_numbers"
      by (simp add: wire_numbers_def canonical_text_def [abs_def] fun_eq_iff)
    with 9 have "canonical_text lib k = number_text" "k \<noteq> ''IP''" "k \<noteq> ''IP6''" unfolding list_all_iff by blast+
    with assms(2) number_text_idem show ?thesis by (simp add: skipped_def)
  next
    case 10
    then have "canonical_text lib k = Some" by (simp add: canonical_text_def [abs_def] fun_eq_iff)
    with assms(2,3) 10 show ?thesis by (simp add: skipped_def)
  qed
qed

section \<open>Reading a whole seed\<close>

definition good_key :: "string \<Rightarrow> bool" where
  "good_key k \<longleftrightarrow> k \<noteq> [] \<and> CHR ''='' \<notin> set k \<and> CHR '','' \<notin> set k \<and> length k \<le> maximumSeedPropertyKey"

definition stable_pair :: "'a seed_lib \<Rightarrow> string \<Rightarrow> string \<Rightarrow> bool" where
  "stable_pair lib k v \<longleftrightarrow>
     good_key k \<and> CHR '','' \<notin> set v \<and> canonical_text lib k v = Some v \<and> \<not> skipped k v"

text \<open>The properties of a seed that is being read: every one of them is stable, but for the
  empty hash of a seed whose hash has not been seen.\<close>

definition stable_seed :: "'a seed_lib \<Rightarrow> bool \<Rightarrow> 'a Seed \<Rightarrow> bool" where
  "stable_seed lib hashSet s \<longleftrightarrow> parsed_shape s \<and>
     (\<forall>k v. map_of (Seed_Properties lib s) k = Some v \<longrightarrow>
        stable_pair lib k v \<or> k = ''Hash'' \<and> \<not> hashSet)"

lemma empty_seed_Properties: "map_of (Seed_Properties lib empty_seed) = [''Hash'' \<mapsto> []]"
proof
  fix k
  show "map_of (Seed_Properties lib empty_seed) k = [''Hash'' \<mapsto> []] k"
    by (simp add: map_of_Properties seed_table_def empty_seed_def)
qed

lemma empty_seed_stable: "stable_seed lib False empty_seed"
  unfolding stable_seed_def empty_seed_Properties
  by (simp add: parsed_shape_def empty_seed_def)

lemma cut_pair:
  assumes "cut_byte pair CHR ''='' = (k, v, True)" "CHR '','' \<notin> set pair"
  shows "CHR ''='' \<notin> set k \<and> CHR '','' \<notin> set k \<and> CHR '','' \<notin> set v"
proof (cases "index_byte pair CHR ''=''")
  case None
  with assms show ?thesis by (simp add: cut_byte_def)
next
  case (Some i)
  with assms index_byte_Some [OF Some] show ?thesis
    by (auto simp: cut_byte_def dest: in_set_takeD in_set_dropD)
qed

lemma stable_seed_step:
  assumes laws: "lib_laws lib" and s: "stable_seed lib hs s"
    and field: "parseSeedField lib s k v = Inr s'"
    and key: "good_key k" and v: "CHR '','' \<notin> set v"
  shows "stable_seed lib (hs \<or> k = ''Hash'') s'"
proof (cases "skipped k v")
  case True
  then have "k \<noteq> ''Hash''" by (auto simp: skipped_def)
  with reads_skipped [OF True, of lib s] field s show ?thesis by simp
next
  case False
  have "reads_as lib s k v" using s by (intro reads_as_field) (simp_all add: stable_seed_def False)
  with field obtain w where w: "canonical_text lib k v = Some w" "parsed_shape s'"
    "map_of (Seed_Properties lib s') = (map_of (Seed_Properties lib s))(k \<mapsto> w)"
    by (auto simp: reads_as_def split: option.splits)
  have "stable_pair lib k w"
    using canonical_text_idem [OF laws w(1) v] key by (simp add: stable_pair_def)
  with s w(2,3) show ?thesis by (auto simp: stable_seed_def split: if_splits)
qed

lemma pairs_step:
  assumes "trim_space pair \<noteq> []" "cut_byte pair CHR ''='' = (key, val, found)"
    and "ParseSeed_pairs lib s hs n (pair # pairs) = Inr s'"
  shows "\<exists>s1. found \<and> key \<noteq> [] \<and> length key \<le> maximumSeedPropertyKey \<and>
    parseSeedField lib s key val = Inr s1 \<and>
    ParseSeed_pairs lib s1 (hs \<or> key = ''Hash'') (n + 1) pairs = Inr s' \<and>
    n + 1 \<le> maximumSeedProperties \<and> length val \<le> seedPropertyLimit key"
proof (cases "parseSeedField lib s key val")
  case (Inl e)
  with assms show ?thesis by (simp split: if_splits)
next
  case (Inr s1)
  with assms show ?thesis by (simp split: if_splits)
qed

lemma ParseSeed_pairs_stable:
  "ParseSeed_pairs lib s hs n pairs = Inr s' \<Longrightarrow> lib_laws lib \<Longrightarrow> stable_seed lib hs s \<Longrightarrow>
     \<forall>p\<in>set pairs. CHR '','' \<notin> set p \<Longrightarrow> stable_seed lib True s'"
proof (induction lib s hs n pairs rule: ParseSeed_pairs.induct)
  case (1 lib s hs n)
  then show ?case by (simp split: if_splits)
next
  case (2 lib s hs n pair pairs)
  show ?case
  proof (cases "trim_space pair = []")
    case True
    with 2 show ?thesis by simp
  next
    case False
    obtain key val found where cut: "cut_byte pair CHR ''='' = (key, val, found)"
      by (metis prod_cases3)
    from pairs_step [OF False cut "2.prems"(1)] obtain s1 where
      found: "found" "key \<noteq> []" "length key \<le> maximumSeedPropertyKey"
      and s1: "parseSeedField lib s key val = Inr s1"
      and rest: "ParseSeed_pairs lib s1 (hs \<or> key = ''Hash'') (n + 1) pairs = Inr s'"
      and guards: "n + 1 \<le> maximumSeedProperties" "length val \<le> seedPropertyLimit key"
      by (elim exE conjE) (rule that; assumption)
    have "good_key key" "CHR '','' \<notin> set val"
      using cut_pair [of pair key val] cut found "2.prems"(4) by (auto simp: good_key_def)
    with stable_seed_step [OF "2.prems"(2,3) s1] have "stable_seed lib (hs \<or> key = ''Hash'') s1" by blast
    then show ?thesis
      using "2.IH"(2) [OF False _ refl cut [symmetric] refl _ _ _ s1 rest] found guards "2.prems"(2,4)
      by (simp add: not_less)
  qed
qed

lemma ParseSeed_stable:
  assumes "ParseSeed lib x = Inr s" "lib_laws lib"
  shows "stable_seed lib True s"
proof -
  obtain body where "ParseSeed_pairs lib empty_seed False 0 (split_byte CHR '','' body) = Inr s"
    using assms(1) by (auto simp: ParseSeed_def Let_def split: if_splits)
  with ParseSeed_pairs_stable [OF this assms(2) empty_seed_stable] show ?thesis
    by (auto dest: split_byte_set)
qed

section \<open>Printing and reading again\<close>

lemma trim_left_keeps: "c \<in> set s \<Longrightarrow> \<forall>w\<in>set white_space. c \<notin> set w \<Longrightarrow> c \<in> set (trim_left n s)"
proof (induction n s rule: trim_left.induct)
  case (2 n s)
  show ?case
  proof (cases "find (has_prefix s) white_space")
    case (Some w)
    then have w: "w \<in> set white_space" "has_prefix s w" by (auto simp: find_Some_iff)
    then obtain t where "s = w @ t" by (auto simp: has_prefix_iff)
    with 2 w Some show ?thesis by auto
  qed (use 2 in simp)
qed simp

lemma trim_right_keeps: "c \<in> set s \<Longrightarrow> \<forall>w\<in>set white_space. c \<notin> set w \<Longrightarrow> c \<in> set (trim_right n s)"
proof (induction n s rule: trim_right.induct)
  case (2 n s)
  show ?case
  proof (cases "find (has_suffix s) white_space")
    case (Some w)
    then have w: "w \<in> set white_space" "has_suffix s w" by (auto simp: find_Some_iff)
    then obtain t where "s = t @ w" by (auto simp: has_suffix_iff)
    with 2 w Some show ?thesis by auto
  qed (use 2 in simp)
qed simp

lemma trim_space_pair: "trim_space (k @ CHR ''='' # v) \<noteq> []"
proof -
  have "CHR ''='' \<in> set (trim_space (k @ CHR ''='' # v))"
    unfolding trim_space_def Let_def using white_space_no_equals
    by (intro trim_right_keeps trim_left_keeps) auto
  then show ?thesis by auto
qed

lemma ParseSeed_pairs_run:
  "\<forall>k\<in>set ks. stable_pair lib k (f k) \<and> length (f k) \<le> seedPropertyLimit k \<Longrightarrow>
     n + length ks \<le> maximumSeedProperties \<Longrightarrow> parsed_shape s \<Longrightarrow> hs \<or> ''Hash'' \<in> set ks \<Longrightarrow>
     \<exists>s'. ParseSeed_pairs lib s hs n (map (\<lambda>k. k @ CHR ''='' # f k) ks) = Inr s' \<and>
       map_of (Seed_Properties lib s') =
         (\<lambda>k. if k \<in> set ks then Some (f k) else map_of (Seed_Properties lib s) k)"
proof (induction ks arbitrary: s hs n)
  case Nil
  then show ?case by simp
next
  case (Cons k ks)
  have k: "good_key k" "canonical_text lib k (f k) = Some (f k)" "\<not> skipped k (f k)"
    "length (f k) \<le> seedPropertyLimit k"
    using Cons.prems(1) by (simp_all add: stable_pair_def)
  have cut: "cut_byte (k @ CHR ''='' # f k) CHR ''='' = (k, f k, True)" "k \<noteq> []"
    "length k \<le> maximumSeedPropertyKey"
    using k(1) by (simp_all add: good_key_def)
  have "reads_as lib s k (f k)" using Cons.prems(3) k(3) by (rule reads_as_field)
  then obtain s1 where s1: "parseSeedField lib s k (f k) = Inr s1" "parsed_shape s1"
    "map_of (Seed_Properties lib s1) = (map_of (Seed_Properties lib s))(k \<mapsto> f k)"
    using k(2) by (auto simp: reads_as_def)
  have "(hs \<or> k = ''Hash'') \<or> ''Hash'' \<in> set ks" using Cons.prems(4) by auto
  then obtain s' where s': "ParseSeed_pairs lib s1 (hs \<or> k = ''Hash'') (n + 1)
      (map (\<lambda>k. k @ CHR ''='' # f k) ks) = Inr s'"
    "map_of (Seed_Properties lib s') =
       (\<lambda>x. if x \<in> set ks then Some (f x) else map_of (Seed_Properties lib s1) x)"
    using Cons.IH [of "n + 1" s1 "hs \<or> k = ''Hash''"] Cons.prems(1,2) s1(2) by auto
  moreover have "ParseSeed_pairs lib s hs n (map (\<lambda>k. k @ CHR ''='' # f k) (k # ks)) = Inr s'"
    using s'(1) s1(1) cut k(4) Cons.prems(2) trim_space_pair [of k "f k"] by simp
  ultimately show ?case using s1(3) by (auto simp: fun_eq_iff)
qed

definition seed_fits :: "'a seed_lib \<Rightarrow> 'a Seed \<Rightarrow> bool" where
  "seed_fits lib s \<longleftrightarrow> length (Seed_String lib s) \<le> maximumSeedPlainBytes \<and>
     length (Seed_Properties lib s) \<le> maximumSeedProperties \<and>
     list_all (\<lambda>(k, v). length v \<le> seedPropertyLimit k) (Seed_Properties lib s)"

lemma get_or_some: "map_of m k = Some v \<Longrightarrow> get_or z m k = v"
  by (simp add: get_or_def)

lemma ParseSeed_String:
  fixes s :: "'a Seed"
  assumes "stable_seed lib True s" "seed_fits lib s"
  shows "\<exists>s'. ParseSeed lib (Seed_String lib s) = Inr s' \<and>
    map_of (Seed_Properties lib s') = map_of (Seed_Properties lib s)"
proof -
  let ?m = "Seed_Properties lib s"
  let ?ks = "sort (map_keys ?m)" and ?f = "get_or [] ?m"
  let ?toks = "map (\<lambda>k. k @ CHR ''='' # ?f k) ?ks"
  have keys: "k \<in> set ?ks \<longleftrightarrow> map_of ?m k = Some (?f k)" for k
    by (auto simp: set_map_keys get_or_def split: option.splits)
  have pairs: "stable_pair lib k (?f k) \<and> length (?f k) \<le> seedPropertyLimit k" if "k \<in> set ?ks" for k
  proof -
    have "map_of ?m k = Some (?f k)" using that keys by blast
    with assms show ?thesis
      by (auto simp: stable_seed_def seed_fits_def list_all_iff dest: map_of_SomeD)
  qed
  have "map_of (seed_table lib s) ''Hash'' = Some (Some (sd_Hash s))" by (simp add: seed_table_def)
  then have hash: "''Hash'' \<in> set ?ks" by (simp add: set_map_keys dom_def map_of_Properties)
  have good: "\<forall>k\<in>set ?ks. stable_pair lib k (?f k) \<and> length (?f k) \<le> seedPropertyLimit k"
    using pairs by blast
  have few: "0 + length ?ks \<le> maximumSeedProperties"
    using assms(2) by (simp add: seed_fits_def map_keys_def)
  have shape: "parsed_shape (empty_seed :: 'a Seed)" by (simp add: parsed_shape_def empty_seed_def)
  have hash': "False \<or> ''Hash'' \<in> set ?ks" using hash by (rule disjI2)
  from ParseSeed_pairs_run [OF good few shape hash'] obtain s' where
    s': "ParseSeed_pairs lib empty_seed False 0 ?toks = Inr s'"
    "map_of (Seed_Properties lib s') =
       (\<lambda>k. if k \<in> set ?ks then Some (?f k) else map_of (Seed_Properties lib empty_seed) k)"
    by (elim exE conjE) (rule that; assumption)
  have comma: "\<forall>t\<in>set ?toks. CHR '','' \<notin> set t"
    using pairs by (auto simp: stable_pair_def good_key_def)
  have "?ks \<noteq> []" using hash by (metis empty_iff list.set(1))
  then have "?toks \<noteq> []" by (simp only: map_is_Nil_conv not_False_eq_True)
  from split_byte_join [OF this comma]
  have split: "split_byte CHR '','' (property_form ?m) = ?toks" by (simp add: property_form_def)
  have "ParseSeed lib (Seed_String lib s) = Inr s'"
    using assms(2) s'(1) split
    by (simp add: ParseSeed_def seed_fits_def Seed_String_def has_prefix_def has_suffix_def
        butlast_append)
  moreover have "map_of (Seed_Properties lib s') = map_of ?m"
  proof
    fix k
    show "map_of (Seed_Properties lib s') k = map_of ?m k"
      using hash keys [of k] unfolding s'(2) empty_seed_Properties
      by (auto simp: set_map_keys dom_def)
  qed
  ultimately show ?thesis by blast
qed

lemma DecodeSeedWireForm:
  assumes "gzip_inverse deflate inflate" "length (Seed_String lib s) \<le> maximumSeedPlainBytes"
  shows "ParseSeedWireForm lib inflate (EncodeSeedWireForm lib deflate s) =
    ParseSeed lib (Seed_String lib s)"
proof -
  let ?p = "Seed_String lib s" and ?m = "int maximumSeedPlainBytes"
  have p: "int (length ?p) \<le> ?m" using assms(2) by simp
  show ?thesis
  proof (cases "length (EncodeBase64WireForm ?p) <
      length (tagged wireFormGzip (Encode (deflate (bytes_of_string ?p))))")
    case True
    then show ?thesis using DecodeWireForm_tagged_base64 [OF p]
      by (simp add: EncodeSeedWireForm_def ParseSeedWireForm_def EncodeBase64WireForm_def Let_def)
  next
    case False
    then have "length (deflate (bytes_of_string ?p)) \<le> length ?p"
      by (simp add: EncodeBase64WireForm_def tagged_def length_Encode)
    then have "int (length (deflate (bytes_of_string ?p))) \<le> ?m" using p by linarith
    from DecodeWireForm_tagged_gzip [OF assms(1) p this] False show ?thesis
      by (simp add: EncodeSeedWireForm_def ParseSeedWireForm_def Let_def)
  qed
qed

section \<open>Properties\<close>

text \<open>C27: A seed that was read from a peer can be passed on: as long as it stays within the limits,
  its wire form is read back by any peer as a seed with exactly the same properties, the
  unknown ones included.\<close>

theorem seed_wire_roundtrip:
  assumes "lib_laws lib" and "gzip_inverse deflate inflate"
    and "ParseSeed lib received = Inr s" and "seed_fits lib s"
  shows "\<exists>s'. ParseSeedWireForm lib inflate (EncodeSeedWireForm lib deflate s) = Inr s' \<and>
    map_of (Seed_Properties lib s') = map_of (Seed_Properties lib s)"
  using ParseSeed_String [OF ParseSeed_stable [OF assms(3,1)] assms(4)]
    DecodeSeedWireForm [OF assms(2), of lib s] assms(4)
  by (simp add: seed_fits_def)

text \<open>A library that reads digits and dots as an address and numbers as instants.\<close>

definition example_lib :: "string seed_lib" where
  "example_lib =
     \<lparr>lib_parse_addr = (\<lambda>s. if s \<noteq> [] \<and> list_all (\<lambda>c. is_digit c \<or> c = CHR ''.'') s then Some s else None),
      lib_show_addr = id, lib_unmap = id, lib_parse_stamp = parse_int, lib_show_stamp = format_int,
      lib_parse_float = (\<lambda>s. None), lib_lower = id\<rparr>"

lemma example_lib_laws: "lib_laws example_lib"
proof -
  have "addr_laws example_lib"
    by (auto simp: addr_laws_def example_lib_def split: if_splits)
  moreover have "stamp_laws example_lib"
    using parse_int_bounds
    by (auto simp: stamp_laws_def example_lib_def parse_format_int format_int_no_comma)
  ultimately show ?thesis by (simp add: lib_laws_def)
qed

definition example_seed :: "string Seed" where
  "example_seed = empty_seed\<lparr>sd_Hash := ''AAAAAAAAAAAA'', sd_IP := Some (HostAddr ''10.0.0.7''),
     sd_Port := Some 8090, sd_custom := [(''x'', ''y'')]\<rparr>"

lemma example_seed_parsed:
  "ParseSeed example_lib ''{Hash=AAAAAAAAAAAA,IP=10.0.0.7,Port=8090,x=y}'' = Inr example_seed"
proof -
  have trim: "trim_space ''Hash=AAAAAAAAAAAA'' = ''Hash=AAAAAAAAAAAA''" "trim_space ''IP=10.0.0.7'' = ''IP=10.0.0.7''"
    "trim_space ''Port=8090'' = ''Port=8090''" "trim_space ''x=y'' = ''x=y''"
    by (simp_all add: trim_space_id trimmed_graphic graphic_def)
  have "parse_hash_option ''AAAAAAAAAAAA'' = Some ''AAAAAAAAAAAA''"
    by (simp add: parse_hash_option_iff Hash_Valid_iff Alphabet_def)
  moreover have "ParsePort ''8090'' = Some 8090"
    by (simp add: ParsePort_def parse_int_def parse_uint_def is_digit_def digit_value_def portMin_def
        portMax_def)
  moreover have "ParseHost example_lib ''10.0.0.7'' = Some (HostAddr ''10.0.0.7'')"
    by (simp add: ParseHost_def example_lib_def is_digit_def)
  ultimately show ?thesis
    by (simp add: ParseSeed_def maximumSeedPlainBytes_def has_prefix_def has_suffix_def trim cut_byte_def
        maximumSeedProperties_def maximumSeedPropertyKey_def seedPropertyLimit_def
        maximumSeedPropertyValue_def maximumSeedNameBytes_def maximumSeedNewsBytes_def
        parseSeedField_def parseCoreSeedField_def parseSeedStatisticsField_def parseInto_def
        example_seed_def empty_seed_def)
qed

lemma example_seed_fits: "seed_fits example_lib example_seed"
proof -
  have "format_int 8090 = ''8090''"
    by (simp add: format_int_def format_uint.simps char_of_def bit_Suc_0_iff)
  then have fields: "Seed_Properties example_lib example_seed =
      [(''Hash'', ''AAAAAAAAAAAA''), (''IP'', ''10.0.0.7''), (''Port'', ''8090''), (''x'', ''y'')]"
    by (simp add: Seed_Properties_def putSeedStatistics_def putStringer_def putText_def putInt_def
        putHostList_def put_custom_def example_seed_def empty_seed_def Port_String_def Host_String_def
        example_lib_def)
  moreover have "length (property_form (Seed_Properties example_lib example_seed)) = 43"
    unfolding fields by code_simp
  then have "length (Seed_String example_lib example_seed) = 45" by (simp add: Seed_String_def)
  ultimately show ?thesis
    by (simp add: seed_fits_def maximumSeedPlainBytes_def maximumSeedProperties_def seedPropertyLimit_def
        maximumSeedPropertyValue_def maximumSeedNameBytes_def maximumSeedNewsBytes_def)
qed

lemma seed_wire_roundtrip_witness:
  "\<exists>s'. ParseSeedWireForm example_lib (\<lambda>b. Some (rev b, True))
       (EncodeSeedWireForm example_lib rev example_seed) = Inr s' \<and>
     map_of (Seed_Properties example_lib s') = map_of (Seed_Properties example_lib example_seed)"
  by (rule seed_wire_roundtrip [OF example_lib_laws _ example_seed_parsed example_seed_fits])
     (simp add: gzip_inverse_def)

end
