(* ===== verification/SeedAddress.thy ===== *)
theory SeedAddress
  imports SeedWire UrlAddress
begin

text \<open>
  Where a peer can be reached: \<^verbatim>\<open>yagomodel/seed.go\<close> (addresses, endpoints, age),
  \<^verbatim>\<open>seed_address.go\<close>, \<^verbatim>\<open>seed_advertised_hosts.go\<close> and the sizes of
  \<^verbatim>\<open>seed_retention.go\<close>. A copy of a seed is the seed, since values are not shared.
\<close>

section \<open>Definitions\<close>

definition maximumAdvertisedHosts :: nat where "maximumAdvertisedHosts = 5"

definition canonicalAdvertisedHost :: "'a seed_lib \<Rightarrow> 'a Host \<Rightarrow> 'a Host" where
  "canonicalAdvertisedHost lib host = (case host of
     HostAddr addr \<Rightarrow> HostAddr (lib_unmap lib addr)
   | HostName name \<Rightarrow> HostName (to_lower (lib_lower lib) (trim_suffix name ''.'')))"

definition advertisedHostIdentity :: "'a seed_lib \<Rightarrow> 'a Host \<Rightarrow> string" where
  "advertisedHostIdentity lib host = Host_String lib (canonicalAdvertisedHost lib host)"

text \<open>The set \<^verbatim>\<open>seen\<close> holds the texts of the hosts that were appended. Once five hosts
  are there nothing is appended, so leaving the loop early changes nothing.\<close>

definition appendHost :: "'a seed_lib \<Rightarrow> 'a Host list \<Rightarrow> 'a Host \<Rightarrow> 'a Host list" where
  "appendHost lib hosts host =
     (if length hosts = maximumAdvertisedHosts \<or> Host_String lib host = [] then hosts
      else
        (let host = canonicalAdvertisedHost lib host
         in if Host_String lib host \<in> set (map (Host_String lib) hosts) then hosts
            else hosts @ [host]))"

definition option_list :: "'b option \<Rightarrow> 'b list" where
  "option_list x = (case x of None \<Rightarrow> [] | Some y \<Rightarrow> [y])"

definition seed_hosts :: "'a Seed \<Rightarrow> 'a Host list" where
  "seed_hosts s = option_list (sd_IP s) @ (case sd_IP6 s of None \<Rightarrow> [] | Some hosts \<Rightarrow> hosts)"

definition AdvertisedHosts :: "'a seed_lib \<Rightarrow> 'a Seed \<Rightarrow> 'a Host list" where
  "AdvertisedHosts lib s = foldl (appendHost lib) [] (seed_hosts s)"

definition appendSecondary ::
  "'a seed_lib \<Rightarrow> string set \<times> 'a Host list \<Rightarrow> 'a Host \<Rightarrow> string set \<times> 'a Host list" where
  "appendSecondary lib acc host =
     (let (seen, secondary) = acc; identity = advertisedHostIdentity lib host
      in if identity \<in> seen then acc
         else if lib_parse_addr lib (Host_String lib host) = None then acc
         else (insert identity seen, secondary @ [host]))"

definition WithPrimaryHost :: "'a seed_lib \<Rightarrow> 'a Seed \<Rightarrow> 'a Host \<Rightarrow> 'a Seed" where
  "WithPrimaryHost lib s host =
     (let primary = canonicalAdvertisedHost lib host;
          secondary = snd (foldl (appendSecondary lib)
            ({advertisedHostIdentity lib primary}, []) (seed_hosts s))
      in s\<lparr>sd_IP := Some primary, sd_IP6 := (if secondary = [] then None else Some secondary)\<rparr>)"

definition joinHostPort :: "string \<Rightarrow> string \<Rightarrow> string" where
  "joinHostPort host port =
     (if CHR '':'' \<in> set host then ''['' @ host @ '']:'' @ port else host @ '':'' @ port)"

definition NetworkAddress :: "'a seed_lib \<Rightarrow> 'a Seed \<Rightarrow> string option" where
  "NetworkAddress lib s = (case AdvertisedHosts lib s of
     [] \<Rightarrow> None
   | host # _ \<Rightarrow> (case sd_Port s of
       None \<Rightarrow> None
     | Some port \<Rightarrow> Some (joinHostPort (Host_String lib host) (Port_String port))))"

record endpoint =
  ep_scheme :: string
  ep_host :: string
  ep_path :: string

definition HTTPEndpoint :: "'a seed_lib \<Rightarrow> 'a Seed \<Rightarrow> string \<Rightarrow> endpoint option" where
  "HTTPEndpoint lib s path = (case NetworkAddress lib s of
     None \<Rightarrow> None
   | Some address \<Rightarrow> Some \<lparr>ep_scheme = ''http'', ep_host = address, ep_path = path\<rparr>)"

text \<open>The comparison \<^verbatim>\<open>value < 1.5\<close> of a double; it is false for a value that is not a
  number.\<close>

definition below_minimumSSLVersion :: "float_value \<Rightarrow> bool" where
  "below_minimumSSLVersion v = (case v of
     FloatNaN \<Rightarrow> False
   | FloatInf positive \<Rightarrow> \<not> positive
   | FloatFinite m e \<Rightarrow> if e \<ge> 0 then 2 * m * 2 ^ nat e < 3 else 2 * m < 3 * 2 ^ nat (- e))"

definition SSLAvailable :: "'a seed_lib \<Rightarrow> 'a Seed \<Rightarrow> bool" where
  "SSLAvailable lib s = (case sd_Version s of
     None \<Rightarrow> False
   | Some version \<Rightarrow> (case YaCyVersion_Float lib version of
       None \<Rightarrow> False
     | Some v \<Rightarrow>
         if below_minimumSSLVersion v then False
         else (case sd_Flags s of
                 None \<Rightarrow> False
               | Some flags \<Rightarrow>
                   if \<not> Flags_Get flags FlagSSLAvailable then False else sd_PortSSL s \<noteq> None)))"

definition host_endpoints ::
  "'a seed_lib \<Rightarrow> string \<Rightarrow> int \<Rightarrow> int option \<Rightarrow> 'a Host \<Rightarrow> endpoint list" where
  "host_endpoints lib path plain secure host =
     (case secure of None \<Rightarrow> []
      | Some port \<Rightarrow> [\<lparr>ep_scheme = ''https'', ep_host = joinHostPort (Host_String lib host) (Port_String port),
                      ep_path = path\<rparr>]) @
     [\<lparr>ep_scheme = ''http'', ep_host = joinHostPort (Host_String lib host) (Port_String plain),
       ep_path = path\<rparr>]"

definition ProtocolEndpoints ::
  "'a seed_lib \<Rightarrow> 'a Seed \<Rightarrow> string \<Rightarrow> bool \<Rightarrow> endpoint list option" where
  "ProtocolEndpoints lib s path preferHTTPS =
     (let hosts = AdvertisedHosts lib s
      in case sd_Port s of
           None \<Rightarrow> None
         | Some plainPort \<Rightarrow>
             if hosts = [] then None
             else
               (let secure = (if preferHTTPS \<and> SSLAvailable lib s then sd_PortSSL s else None)
                in Some (concat (map (host_endpoints lib path plainPort secure) hosts))))"

definition addresses :: "'a seed_lib \<Rightarrow> 'a Seed \<Rightarrow> string list" where
  "addresses lib s = map (Host_String lib) (seed_hosts s)"

definition SharesAddress :: "'a seed_lib \<Rightarrow> 'a Seed \<Rightarrow> 'a Seed \<Rightarrow> bool" where
  "SharesAddress lib s other =
     (if addresses lib s = [] then False
      else list_ex (\<lambda>address. address \<in> set (addresses lib s)) (addresses lib other))"

text \<open>2004-01-01, 731580 days after the zero time; the negation of the least 64-bit number is itself, and the
  division truncates toward zero.\<close>

definition seed_epoch :: go_time where "seed_epoch = 731580 * 24 * hour"

definition AgeDays :: "'a Seed \<Rightarrow> go_time \<Rightarrow> int" where
  "AgeDays s now =
     (let birth = (case sd_BirthDate s of None \<Rightarrow> seed_epoch | Some t \<Rightarrow> t);
          delta = time_sub now birth;
          delta = (if delta < 0 \<and> delta \<noteq> - (2 ^ 63) then - delta else delta)
      in if delta < 0 then - (\<bar>delta\<bar> div (24 * hour)) else delta div (24 * hour))"

definition optional_length :: "string option \<Rightarrow> nat" where
  "optional_length x = (case x of None \<Rightarrow> 0 | Some s \<Rightarrow> length s)"

definition hostname_length :: "'a Host \<Rightarrow> nat" where
  "hostname_length h = (case h of HostAddr _ \<Rightarrow> 0 | HostName s \<Rightarrow> length s)"

text \<open>The widths of the two structures are those of the platform.\<close>

definition RetainedBytes :: "nat \<Rightarrow> nat \<Rightarrow> 'a Seed \<Rightarrow> nat" where
  "RetainedBytes seedRetentionWidth hostRetentionWidth s =
     seedRetentionWidth + length (sd_Hash s) + optional_length (sd_Name s) +
     (case sd_IP s of None \<Rightarrow> 0 | Some h \<Rightarrow> hostRetentionWidth + hostname_length h) +
     (case sd_IP6 s of None \<Rightarrow> 0
      | Some hosts \<Rightarrow> length hosts * hostRetentionWidth + sum_list (map hostname_length hosts)) +
     optional_length (map_option PeerType_String (sd_PeerType s)) + optional_length (sd_Version s) +
     optional_length (sd_UTC s) + optional_length (sd_News s) +
     sum_list (map (\<lambda>(k, v). seedPropertyRetentionBytes + length k + length v) (sd_custom s))"

section \<open>Advertised hosts\<close>

definition advertised_inv :: "'a seed_lib \<Rightarrow> 'a Host list \<Rightarrow> bool" where
  "advertised_inv lib hosts \<longleftrightarrow>
     length hosts \<le> maximumAdvertisedHosts \<and> distinct (map (Host_String lib) hosts)"

interpretation advertised: invariant_machine "appendHost lib" "advertised_inv lib" for lib
  by unfold_locales (auto simp: appendHost_def advertised_inv_def Let_def)

lemma AdvertisedHosts_inv: "advertised_inv lib (AdvertisedHosts lib s)"
  using advertised.inv_run [of lib "[]" "seed_hosts s"]
  by (simp add: AdvertisedHosts_def run_def advertised_inv_def)

lemma appendHost_prefix: "\<exists>t. appendHost lib hosts h = hosts @ t"
  by (auto simp: appendHost_def Let_def)

lemma foldl_appendHost_prefix: "\<exists>t. foldl (appendHost lib) hosts hs = hosts @ t"
proof (induction hs arbitrary: hosts)
  case (Cons h hs)
  obtain t where "appendHost lib hosts h = hosts @ t" using appendHost_prefix by blast
  with Cons [of "hosts @ t"] show ?case by auto
qed simp

lemma AdvertisedHosts_hd:
  assumes "sd_IP s = Some h" "Host_String lib h \<noteq> []"
  shows "\<exists>t. AdvertisedHosts lib s = canonicalAdvertisedHost lib h # t"
proof -
  have "appendHost lib [] h = [canonicalAdvertisedHost lib h]"
    using assms(2) by (simp add: appendHost_def maximumAdvertisedHosts_def Let_def)
  then show ?thesis
    using assms(1) foldl_appendHost_prefix [of lib "[canonicalAdvertisedHost lib h]"]
    by (auto simp: AdvertisedHosts_def seed_hosts_def option_list_def)
qed

lemma canonical_nonempty_endpoints:
  "ProtocolEndpoints lib s path prefer = Some eps \<Longrightarrow>
     eps \<noteq> [] \<and> length eps \<le> 2 * maximumAdvertisedHosts"
proof -
  assume eps: "ProtocolEndpoints lib s path prefer = Some eps"
  have le: "length (concat (map (host_endpoints lib path p sec) hs)) \<le> 2 * length hs" for p sec hs
    by (induction hs) (auto simp: host_endpoints_def split: option.splits)
  have ne: "hs \<noteq> [] \<Longrightarrow> concat (map (host_endpoints lib path p sec) hs) \<noteq> []" for p sec hs
    by (cases hs) (auto simp: host_endpoints_def)
  from eps obtain p sec where
    "eps = concat (map (host_endpoints lib path p sec) (AdvertisedHosts lib s))"
    "AdvertisedHosts lib s \<noteq> []"
    by (auto simp: ProtocolEndpoints_def Let_def split: option.splits if_splits)
  with le [of p sec "AdvertisedHosts lib s"] ne AdvertisedHosts_inv [of lib s] show ?thesis
    by (auto simp: advertised_inv_def)
qed

text \<open>The endpoints come host by host, in the order of the hosts.\<close>

definition endpoints_of :: "'a seed_lib \<Rightarrow> string \<Rightarrow> 'a Host \<Rightarrow> endpoint list \<Rightarrow> bool" where
  "endpoints_of lib path host block \<longleftrightarrow> block \<noteq> [] \<and> length block \<le> 2 \<and>
     distinct (map ep_scheme block) \<and>
     (\<forall>e\<in>set block. ep_scheme e \<in> {''https'', ''http''} \<and> ep_path e = path \<and>
       (\<exists>port. ep_host e = joinHostPort (Host_String lib host) port))"

lemma host_endpoints_of: "endpoints_of lib path host (host_endpoints lib path plain secure host)"
  by (auto simp: endpoints_of_def host_endpoints_def split: option.split)

lemma ProtocolEndpoints_blocks:
  assumes "ProtocolEndpoints lib s path prefer = Some eps"
  shows "\<exists>blocks. eps = concat blocks \<and> list_all2 (endpoints_of lib path) (AdvertisedHosts lib s) blocks"
proof -
  obtain p sec where "eps = concat (map (host_endpoints lib path p sec) (AdvertisedHosts lib s))"
    using assms by (auto simp: ProtocolEndpoints_def Let_def split: option.splits if_splits)
  moreover have "list_all2 (endpoints_of lib path) hs (map (host_endpoints lib path p sec) hs)" for hs
    by (simp add: list_all2_map2 list.rel_refl host_endpoints_of)
  ultimately show ?thesis by blast
qed

section \<open>Properties\<close>

text \<open>C40: A peer is tried at no more than five hosts, no host twice, the primary one first if it has a
  text; the endpoints of a request come host by host in this order, for each host at least one and at
  most two, of different schemes and all at that host; and promoting a host puts it first.\<close>

theorem advertised_hosts_bounded:
  assumes "Host_String lib (canonicalAdvertisedHost lib primary) \<noteq> []"
  shows "length (AdvertisedHosts lib s) \<le> 5 \<and> distinct (map (Host_String lib) (AdvertisedHosts lib s)) \<and>
    (\<forall>h. sd_IP s = Some h \<and> Host_String lib h \<noteq> [] \<longrightarrow>
       AdvertisedHosts lib s \<noteq> [] \<and> hd (AdvertisedHosts lib s) = canonicalAdvertisedHost lib h) \<and>
    hd (AdvertisedHosts lib (WithPrimaryHost lib s primary)) =
      canonicalAdvertisedHost lib (canonicalAdvertisedHost lib primary) \<and>
    (case ProtocolEndpoints lib s path prefer of
       None \<Rightarrow> AdvertisedHosts lib s = [] \<or> sd_Port s = None
     | Some eps \<Rightarrow> eps \<noteq> [] \<and> length eps \<le> 10 \<and>
         (\<exists>blocks. eps = concat blocks \<and> list_all2 (endpoints_of lib path) (AdvertisedHosts lib s) blocks))"
proof -
  have "sd_IP (WithPrimaryHost lib s primary) = Some (canonicalAdvertisedHost lib primary)"
    by (simp add: WithPrimaryHost_def Let_def)
  from AdvertisedHosts_hd [OF this assms]
  have "hd (AdvertisedHosts lib (WithPrimaryHost lib s primary)) =
      canonicalAdvertisedHost lib (canonicalAdvertisedHost lib primary)" by auto
  moreover have "AdvertisedHosts lib s \<noteq> [] \<and> hd (AdvertisedHosts lib s) = canonicalAdvertisedHost lib h"
    if h: "sd_IP s = Some h" "Host_String lib h \<noteq> []" for h
    using AdvertisedHosts_hd [OF h] by auto
  moreover have "case ProtocolEndpoints lib s path prefer of
      None \<Rightarrow> AdvertisedHosts lib s = [] \<or> sd_Port s = None
    | Some eps \<Rightarrow> eps \<noteq> [] \<and> length eps \<le> 10 \<and>
        (\<exists>blocks. eps = concat blocks \<and> list_all2 (endpoints_of lib path) (AdvertisedHosts lib s) blocks)"
  proof (cases "ProtocolEndpoints lib s path prefer")
    case None
    then show ?thesis by (auto simp: ProtocolEndpoints_def Let_def split: option.splits if_splits)
  next
    case (Some eps)
    with canonical_nonempty_endpoints [OF Some] ProtocolEndpoints_blocks [OF Some]
    show ?thesis by (simp add: maximumAdvertisedHosts_def)
  qed
  ultimately show ?thesis using AdvertisedHosts_inv [of lib s]
    by (simp add: advertised_inv_def maximumAdvertisedHosts_def)
qed

lemma advertised_hosts_bounded_witness:
  "length (AdvertisedHosts example_lib example_seed) \<le> 5 \<and>
    distinct (map (Host_String example_lib) (AdvertisedHosts example_lib example_seed)) \<and>
    hd (AdvertisedHosts example_lib (WithPrimaryHost example_lib example_seed (HostName ''Peer.Test.''))) =
      canonicalAdvertisedHost example_lib (canonicalAdvertisedHost example_lib (HostName ''Peer.Test.''))"
proof -
  have "Host_String example_lib (canonicalAdvertisedHost example_lib (HostName ''Peer.Test.'')) \<noteq> []"
    by code_simp
  from advertised_hosts_bounded [OF this, of example_seed "''/''" True] show ?thesis by simp
qed

end
