(* ===== verification/RateLimit.thy ===== *)
theory RateLimit
  imports GoLib
begin

text \<open>
  \<^verbatim>\<open>yagonode/internal/publicratelimit\<close>: the sliding windows that throttle public
  searches, with the bounds on what is kept, and the admission of expensive searches. The
  limiter's mutex makes every call one step. The lemmas show that a call never panics, that
  the bookkeeping of the limiter agrees with what it keeps, and that no client is served more
  often than its budgets allow.
\<close>

section \<open>Definitions\<close>

record Tiers =
  Per3Seconds :: int
  PerMinute :: int
  Per10Minutes :: int

definition DefaultPublicTiers :: Tiers where
  "DefaultPublicTiers = \<lparr>Per3Seconds = 10, PerMinute = 60, Per10Minutes = 300\<rparr>"

definition authenticatedMultiplier :: int where "authenticatedMultiplier = 10"
definition maxTrackedClients :: nat where "maxTrackedClients = 4096"
definition maximumRetainedClientEvents :: nat where "maximumRetainedClientEvents = 4096"
definition maximumRetainedPublicEvents :: nat where "maximumRetainedPublicEvents = 65536"

text \<open>The stamps of a client, and the list of the clients in the order of their last accepted
  request.\<close>

record Limiter =
  lim_clients :: "(string, go_time list) gomap"
  lim_order :: "string list"
  lim_tiers :: Tiers
  lim_retained :: int

definition NewLimiter :: "Tiers \<Rightarrow> Limiter" where
  "NewLimiter tiers = \<lparr>lim_clients = [], lim_order = [], lim_tiers = tiers, lim_retained = 0\<rparr>"

definition ten_minutes :: duration where "ten_minutes = 10 * minute"

definition fits :: "go_time list \<Rightarrow> go_time \<Rightarrow> duration \<Rightarrow> int \<Rightarrow> bool" where
  "fits stamps now window budget =
     (if budget \<le> 0 then False
      else int (length (filter (\<lambda>stamp. stamp > now - window) stamps)) < budget)"

text \<open>The loop of \<^verbatim>\<open>evictStale\<close> over the front of the list; None is the panic of an
  unknown client or of an empty history.\<close>

fun evict_loop :: "go_time \<Rightarrow> Limiter \<Rightarrow> string list \<Rightarrow> Limiter option" where
  "evict_loop horizon l [] = Some (l\<lparr>lim_order := []\<rparr>)"
| "evict_loop horizon l (client # rest) =
     (case map_of (lim_clients l) client of
        None \<Rightarrow> None
      | Some stamps \<Rightarrow>
          if stamps = [] then None
          else if last stamps > horizon then Some (l\<lparr>lim_order := client # rest\<rparr>)
          else evict_loop horizon
                 (l\<lparr>lim_retained := lim_retained l - int (length stamps),
                    lim_clients := AList.delete client (lim_clients l)\<rparr>) rest)"

definition evictStale :: "go_time \<Rightarrow> Limiter \<Rightarrow> Limiter option" where
  "evictStale now l = evict_loop (now - ten_minutes) l (lim_order l)"

definition admit_stamp :: "Limiter \<Rightarrow> string \<Rightarrow> bool \<Rightarrow> go_time list \<Rightarrow> go_time \<Rightarrow> Limiter" where
  "admit_stamp l client newClient stamps now =
     l\<lparr>lim_clients := AList.update client (stamps @ [now]) (lim_clients l),
       lim_retained := lim_retained l + 1,
       lim_order := (if newClient then lim_order l else remove1 client (lim_order l)) @ [client]\<rparr>"

text \<open>The body of \<^verbatim>\<open>Allow\<close> once the history of the client is at hand. An existing
  client keeps the shortened history also when it is refused; the history of a new client that
  is refused is dropped.\<close>

definition allow_entry ::
  "Limiter \<Rightarrow> string \<Rightarrow> bool \<Rightarrow> bool \<Rightarrow> go_time list \<Rightarrow> go_time \<Rightarrow> Limiter \<times> bool \<times> duration" where
  "allow_entry l client newClient authenticated entry now =
     (let stamps = filter (\<lambda>stamp. stamp > now - ten_minutes) entry;
          l = l\<lparr>lim_retained := lim_retained l - int (length entry - length stamps)\<rparr>;
          l = (if newClient then l
               else l\<lparr>lim_clients := AList.update client stamps (lim_clients l)\<rparr>);
          multiplier = (if authenticated then authenticatedMultiplier else 1)
      in if \<not> fits stamps now (3 * second) (Per3Seconds (lim_tiers l) * multiplier)
         then (l, False, 3 * second)
         else if \<not> fits stamps now minute (PerMinute (lim_tiers l) * multiplier)
         then (l, False, minute)
         else if \<not> fits stamps now ten_minutes (Per10Minutes (lim_tiers l) * multiplier)
         then (l, False, ten_minutes)
         else if length stamps \<ge> maximumRetainedClientEvents \<or>
           lim_retained l \<ge> int maximumRetainedPublicEvents
         then (l, False, ten_minutes)
         else (admit_stamp l client newClient stamps now, True, 0))"

definition Allow ::
  "Limiter \<Rightarrow> go_time \<Rightarrow> string \<Rightarrow> bool \<Rightarrow> (Limiter \<times> bool \<times> duration) option" where
  "Allow l now client authenticated = (case map_of (lim_clients l) client of
     Some entry \<Rightarrow> Some (allow_entry l client False authenticated entry now)
   | None \<Rightarrow> (case evictStale now l of
       None \<Rightarrow> None
     | Some l \<Rightarrow>
         if length (lim_clients l) \<ge> maxTrackedClients then Some (l, False, ten_minutes)
         else Some (allow_entry l client True authenticated [] now)))"

subsection \<open>Requests\<close>

datatype publicSearchRequestKind = untrackedPublicRequest | trackedPublicInteraction
  | expensivePublicSearchRequest

text \<open>A request as the wrapper sees it: its path, whether its query has a non-empty
  parameter q, the key of its client and whether it has raised limits.\<close>

record public_request =
  rq_path :: string
  rq_has_q :: bool
  rq_client :: string
  rq_raised :: bool

definition classifyPublicSearchRequest :: "public_request \<Rightarrow> publicSearchRequestKind" where
  "classifyPublicSearchRequest r =
     (if has_prefix (rq_path r) ''/yacysearch.'' then expensivePublicSearchRequest
      else if rq_path r = ''/suggest.json'' \<or> rq_path r = ''/opensearch/suggest''
      then expensivePublicSearchRequest
      else if rq_path r = ''/'' \<and> rq_has_q r then expensivePublicSearchRequest
      else if rq_path r = ''/searchclick'' then trackedPublicInteraction
      else untrackedPublicRequest)"

definition maximumConcurrentPublicSearches :: nat where "maximumConcurrentPublicSearches = 16"

text \<open>The admission channel is the number of the searches in it.\<close>

definition AdmitSearch :: "nat \<Rightarrow> (nat \<times> bool)" where
  "AdmitSearch running =
     (if running < maximumConcurrentPublicSearches then (running + 1, True) else (running, False))"

definition ReleaseSearch :: "nat \<Rightarrow> nat" where
  "ReleaseSearch running = running - 1"

datatype wrap_outcome = PassThrough | TooManyRequests duration | ServiceUnavailable | Served bool

text \<open>What the wrapper does with a request up to the call of the next handler; a search that is
  served (\<open>Served True\<close>) holds a place in the channel until it ends.\<close>

definition Wrap ::
  "Limiter \<Rightarrow> nat \<Rightarrow> go_time \<Rightarrow> public_request \<Rightarrow> (Limiter \<times> nat \<times> wrap_outcome) option" where
  "Wrap l running now r =
     (let kind = classifyPublicSearchRequest r
      in if kind = untrackedPublicRequest then Some (l, running, PassThrough)
         else (case Allow l now (rq_client r) (rq_raised r) of
                 None \<Rightarrow> None
               | Some (l, ok, retryAfter) \<Rightarrow>
                   if \<not> ok then Some (l, running, TooManyRequests retryAfter)
                   else if kind = expensivePublicSearchRequest
                   then (let (running, admitted) = AdmitSearch running
                         in Some (l, running, if admitted then Served True else ServiceUnavailable))
                   else Some (l, running, Served False)))"

section \<open>The bookkeeping invariant\<close>

definition total_events :: "(string, go_time list) gomap \<Rightarrow> nat" where
  "total_events m = sum_list (map (\<lambda>(c, stamps). length stamps) m)"

lemma total_events_update:
  "wf_map m \<Longrightarrow> total_events (AList.update k v m) + length (get_or [] m k) = total_events m + length v"
proof (induction m)
  case Nil
  then show ?case by (simp add: total_events_def)
next
  case (Cons p m)
  obtain c stamps where p: "p = (c, stamps)" by (cases p)
  have m: "wf_map m" "c \<notin> set (map fst m)" using Cons.prems p by (simp_all add: wf_map_def)
  have IH: "total_events (AList.update k v m) + length (get_or [] m k) = total_events m + length v"
    by (rule Cons.IH [OF m(1)])
  show ?case
  proof (cases "c = k")
    case True
    with p show ?thesis by (simp add: total_events_def get_or_def)
  next
    case False
    with p IH show ?thesis by (simp add: total_events_def get_or_def)
  qed
qed

lemma total_events_delete:
  "wf_map m \<Longrightarrow> total_events (AList.delete k m) + length (get_or [] m k) = total_events m"
proof (induction m)
  case Nil
  then show ?case by (simp add: total_events_def)
next
  case (Cons p m)
  obtain c stamps where p: "p = (c, stamps)" by (cases p)
  have m: "wf_map m" "c \<notin> set (map fst m)" using Cons.prems p by (simp_all add: wf_map_def)
  show ?case
  proof (cases "c = k")
    case True
    then have "map_of m k = None" using m(2) by (auto simp: map_of_eq_None_iff)
    moreover have "AList.delete k m = m" using m(2) True by (simp add: delete_idem)
    ultimately show ?thesis using True p by (simp add: total_events_def get_or_def AList.delete_eq)
  next
    case False
    with p Cons.IH [OF m(1)] show ?thesis by (simp add: total_events_def get_or_def AList.delete_eq)
  qed
qed

text \<open>A client is tracked only after a request of it was accepted, which takes budgets that are
  positive.\<close>

definition positive_tiers :: "Tiers \<Rightarrow> bool" where
  "positive_tiers t \<longleftrightarrow> 0 < Per3Seconds t \<and> 0 < PerMinute t \<and> 0 < Per10Minutes t"

lemma fits_Nil [simp]: "fits [] now window budget \<longleftrightarrow> 0 < budget"
  by (simp add: fits_def)

definition limiter_inv :: "Limiter \<Rightarrow> bool" where
  "limiter_inv l \<longleftrightarrow>
     wf_map (lim_clients l) \<and> distinct (lim_order l) \<and>
     set (lim_order l) = set (map_keys (lim_clients l)) \<and>
     (\<forall>c stamps. map_of (lim_clients l) c = Some stamps \<longrightarrow>
        stamps \<noteq> [] \<and> length stamps \<le> maximumRetainedClientEvents) \<and>
     lim_retained l = int (total_events (lim_clients l)) \<and>
     lim_retained l \<le> int maximumRetainedPublicEvents \<and>
     length (lim_clients l) \<le> maxTrackedClients \<and>
     (lim_clients l \<noteq> [] \<longrightarrow> positive_tiers (lim_tiers l))"

lemma limiter_invD:
  "limiter_inv l \<Longrightarrow> map_of (lim_clients l) c = Some stamps \<Longrightarrow>
     stamps \<noteq> [] \<and> length stamps \<le> maximumRetainedClientEvents"
  by (simp add: limiter_inv_def)

lemma NewLimiter_inv: "limiter_inv (NewLimiter tiers)"
  by (simp add: limiter_inv_def NewLimiter_def map_keys_def total_events_def)

text \<open>Evicting keeps the invariant and never meets an unknown client or an empty history.\<close>

lemma evict_loop_inv:
  "limiter_inv (l\<lparr>lim_order := order\<rparr>) \<Longrightarrow>
     \<exists>l'. evict_loop horizon l order = Some l' \<and> limiter_inv l' \<and> lim_tiers l' = lim_tiers l \<and>
       (\<forall>c. map_of (lim_clients l') c = map_of (lim_clients l) c \<or>
          map_of (lim_clients l') c = None \<and>
          (\<exists>stamps. map_of (lim_clients l) c = Some stamps \<and> last stamps \<le> horizon))"
proof (induction horizon l order rule: evict_loop.induct)
  case (1 horizon l)
  then show ?case by simp
next
  case (2 horizon l client rest)
  have "client \<in> set (map_keys (lim_clients l))" using 2(2) by (auto simp: limiter_inv_def)
  then obtain stamps where stamps: "map_of (lim_clients l) client = Some stamps"
    by (auto simp: set_map_keys)
  then have ne: "stamps \<noteq> []" using 2(2) by (simp add: limiter_inv_def)
  show ?case
  proof (cases "last stamps > horizon")
    case True
    with 2(2) stamps ne show ?thesis by simp
  next
    case False
    let ?l = "l\<lparr>lim_retained := lim_retained l - int (length stamps),
        lim_clients := AList.delete client (lim_clients l)\<rparr>"
    have wf: "wf_map (lim_clients l)" using 2(2) by (simp add: limiter_inv_def)
    have total: "total_events (AList.delete client (lim_clients l)) + length stamps =
        total_events (lim_clients l)"
      using total_events_delete [OF wf, of client] stamps by (simp add: get_or_def)
    have "limiter_inv (?l\<lparr>lim_order := rest\<rparr>)"
      using 2(2) total length_delete_le [of client "lim_clients l"]
      by (auto simp: limiter_inv_def set_map_keys)
    from 2(1) [OF stamps ne False this] obtain l' where l':
      "evict_loop horizon ?l rest = Some l'" "limiter_inv l'" "lim_tiers l' = lim_tiers l"
      "\<forall>c. map_of (lim_clients l') c = map_of (lim_clients ?l) c \<or>
          map_of (lim_clients l') c = None \<and>
          (\<exists>stamps. map_of (lim_clients ?l) c = Some stamps \<and> last stamps \<le> horizon)"
      by auto
    have "map_of (lim_clients l') c = map_of (lim_clients l) c \<or> map_of (lim_clients l') c = None \<and>
        (\<exists>stamps. map_of (lim_clients l) c = Some stamps \<and> last stamps \<le> horizon)" for c
      using l'(4) [rule_format, of c] stamps False by (cases "c = client") auto
    with l' stamps ne False show ?thesis by simp
  qed
qed

definition window_stamps :: "go_time \<Rightarrow> go_time list \<Rightarrow> go_time list" where
  "window_stamps h stamps = filter (\<lambda>t. t > h) stamps"

text \<open>A history that is empty in the largest window always leaves room: so an existing client
  is never left with an empty history.\<close>

lemma allow_entry_inv:
  assumes inv: "limiter_inv l" and entry: "entry = get_or [] (lim_clients l) client"
    and new: "newClient \<longleftrightarrow> map_of (lim_clients l) client = None"
    and room: "newClient \<Longrightarrow> length (lim_clients l) < maxTrackedClients"
    and res: "allow_entry l client newClient authenticated entry now = (l', ok, retry)"
  shows "limiter_inv l' \<and> lim_tiers l' = lim_tiers l \<and>
    (\<forall>c. c \<noteq> client \<longrightarrow> get_or [] (lim_clients l') c = get_or [] (lim_clients l) c) \<and>
    get_or [] (lim_clients l') client =
      window_stamps (now - ten_minutes) entry @ (if ok then [now] else [])"
proof -
  let ?stamps = "window_stamps (now - ten_minutes) entry"
  have le: "length ?stamps \<le> length entry" by (simp add: window_stamps_def)
  have wf: "wf_map (lim_clients l)" using inv by (simp add: limiter_inv_def)
  have total: "total_events (AList.update client v (lim_clients l)) + length entry =
      total_events (lim_clients l) + length v" for v
    unfolding entry by (rule total_events_update [OF wf])
  have retained: "lim_retained l = int (total_events (lim_clients l))"
    "lim_retained l \<le> int maximumRetainedPublicEvents" using inv by (simp_all add: limiter_inv_def)
  show ?thesis
  proof (cases newClient)
    case True
    then have e: "entry = []" using entry new by (simp add: get_or_def)
    then have s: "?stamps = []" by (simp add: window_stamps_def)
    have absent: "client \<notin> set (lim_order l)"
      using inv new True by (auto simp: limiter_inv_def set_map_keys)
    have served: "l' = admit_stamp l client True [] now \<and> positive_tiers (lim_tiers l) \<and>
        lim_retained l < int maximumRetainedPublicEvents" if ok
      using res True e that
      by (auto simp: allow_entry_def Let_def positive_tiers_def authenticatedMultiplier_def
          split: if_splits)
    have "limiter_inv l' \<and> lim_tiers l' = lim_tiers l \<and>
        lim_clients l' = AList.update client [now] (lim_clients l)" if ok
      using served [OF that] e inv absent total [of "[now]"] room [OF True] new True
      by (auto simp: admit_stamp_def limiter_inv_def set_map_keys
          length_update_absent maximumRetainedClientEvents_def)
    moreover have "\<not> ok \<Longrightarrow> l' = l"
      using res True e by (auto simp: allow_entry_def Let_def split: if_splits)
    ultimately show ?thesis using inv s e entry by (cases ok) (auto simp: get_or_update)
  next
    case False
    then obtain w where w: "map_of (lim_clients l) client = Some w" using new by auto
    with entry have w': "w = entry" by (simp add: get_or_def)
    have e: "entry \<noteq> []" using inv w w' by (auto simp: limiter_inv_def)
    let ?l = "l\<lparr>lim_retained := lim_retained l - int (length entry - length ?stamps),
        lim_clients := AList.update client ?stamps (lim_clients l)\<rparr>"
    have order: "client \<in> set (lim_order l)" "distinct (lim_order l)"
      using inv w by (auto simp: limiter_inv_def set_map_keys)
    have refused: "\<not> ok \<Longrightarrow> l' = ?l"
      using res False
      by (auto simp: allow_entry_def Let_def window_stamps_def split: if_splits)
    have served: "ok \<Longrightarrow> l' = admit_stamp ?l client False ?stamps now \<and>
        length ?stamps < maximumRetainedClientEvents \<and>
        lim_retained ?l < int maximumRetainedPublicEvents"
      using res False
      by (auto simp: allow_entry_def Let_def window_stamps_def not_le split: if_splits)
    have nonempty: "?stamps \<noteq> []" if "\<not> ok"
    proof
      assume empty: "?stamps = []"
      have less: "lim_retained l - int (length entry) < int maximumRetainedPublicEvents"
        using retained(2) e by (cases entry) auto
      have "lim_clients l \<noteq> []" using w by auto
      then have "positive_tiers (lim_tiers l)" using inv by (simp add: limiter_inv_def)
      with res False empty less that show False
        by (auto simp: allow_entry_def Let_def window_stamps_def positive_tiers_def
            authenticatedMultiplier_def maximumRetainedClientEvents_def split: if_splits)
    qed
    have len: "length ?stamps \<le> maximumRetainedClientEvents"
      using limiter_invD [OF inv w] w' le by simp
    have trace: "lim_retained ?l = int (total_events (lim_clients ?l))"
      using total [of ?stamps] retained(1) le by simp
    have keys: "set (map_keys (AList.update client v (lim_clients l))) = set (map_keys (lim_clients l))"
      for v using w by (auto simp: set_map_keys)
    have shortened: "limiter_inv ?l" if "?stamps \<noteq> []"
      using inv that len trace le w keys [of ?stamps]
      by (auto simp: limiter_inv_def length_update_present)
    have grown: "limiter_inv l'" if ok
      using inv served [OF that] total [of "?stamps @ [now]"] trace retained order le w
        keys [of "?stamps @ [now]"]
      by (auto simp: limiter_inv_def length_update_present admit_stamp_def)
    have "get_or [] (lim_clients l') c = (if c = client then ?stamps @ (if ok then [now] else [])
        else get_or [] (lim_clients l) c) \<and> lim_tiers l' = lim_tiers l" for c
      using served refused by (cases ok) (auto simp: get_or_update admit_stamp_def)
    with shortened [OF nonempty] grown refused show ?thesis by (cases ok) auto
  qed
qed

section \<open>Calls one after the other\<close>

text \<open>A call of the limiter: the time the clock shows, the client and whether it has raised
  limits. The mutex makes the calls a sequence.\<close>

record limiter_call =
  call_time :: go_time
  call_client :: string
  call_raised :: bool

definition limiter_step :: "Limiter option \<Rightarrow> limiter_call \<Rightarrow> Limiter option" where
  "limiter_step s q = (case s of None \<Rightarrow> None
     | Some l \<Rightarrow> map_option fst (Allow l (call_time q) (call_client q) (call_raised q)))"

fun limiter_run :: "Limiter \<Rightarrow> limiter_call list \<Rightarrow> (Limiter \<times> (bool \<times> duration) list) option" where
  "limiter_run l [] = Some (l, [])"
| "limiter_run l (q # qs) = (case Allow l (call_time q) (call_client q) (call_raised q) of
     None \<Rightarrow> None
   | Some (l, ok, retry) \<Rightarrow>
       map_option (\<lambda>(l, verdicts). (l, (ok, retry) # verdicts)) (limiter_run l qs))"

definition evicted_to :: "go_time \<Rightarrow> Limiter \<Rightarrow> Limiter \<Rightarrow> bool" where
  "evicted_to horizon l l' \<longleftrightarrow> lim_tiers l' = lim_tiers l \<and>
     (\<forall>c. map_of (lim_clients l') c = map_of (lim_clients l) c \<or>
          map_of (lim_clients l') c = None \<and>
          (\<exists>stamps. map_of (lim_clients l) c = Some stamps \<and> last stamps \<le> horizon))"

lemma evictStale_inv:
  "limiter_inv l \<Longrightarrow> \<exists>l'. evictStale now l = Some l' \<and> limiter_inv l' \<and>
     evicted_to (now - ten_minutes) l l'"
  using evict_loop_inv [where l = l and order = "lim_order l" and horizon = "now - ten_minutes"]
  by (auto simp: evictStale_def evicted_to_def)

text \<open>One call, whatever the clock shows: it returns, the invariant holds, and the history of the
  client is what the largest window leaves of it, with the call if it was accepted.\<close>

lemma Allow_cases:
  assumes "limiter_inv l"
  obtains l1 l' ok retry where "Allow l now client raised = Some (l', ok, retry)"
    "limiter_inv l'" "limiter_inv l1" "lim_tiers l' = lim_tiers l"
    "evicted_to (now - ten_minutes) l l1"
    "(l', ok, retry) = (l1, False, ten_minutes) \<and> length (lim_clients l1) \<ge> maxTrackedClients \<or>
     (map_of (lim_clients l1) client = None \<longrightarrow> length (lim_clients l1) < maxTrackedClients) \<and>
     (l', ok, retry) = allow_entry l1 client (map_of (lim_clients l1) client = None) raised
        (get_or [] (lim_clients l1) client) now"
proof (cases "map_of (lim_clients l) client")
  case (Some entry)
  let ?r = "allow_entry l client False raised entry now"
  have e: "entry = get_or [] (lim_clients l) client" using Some by (simp add: get_or_def)
  obtain l' ok retry where r: "?r = (l', ok, retry)" by (cases ?r)
  have "limiter_inv l' \<and> lim_tiers l' = lim_tiers l"
    using allow_entry_inv [OF assms e _ _ r] Some by simp
  moreover have "evicted_to (now - ten_minutes) l l" by (simp add: evicted_to_def)
  moreover have "Allow l now client raised = Some (l', ok, retry)"
    using Some r by (simp add: Allow_def)
  ultimately show thesis using that [of l' ok retry l] assms Some r e by simp
next
  case None
  obtain l1 where l1: "evictStale now l = Some l1" "limiter_inv l1"
    "evicted_to (now - ten_minutes) l l1" using evictStale_inv [OF assms] by blast
  have absent: "map_of (lim_clients l1) client = None"
    using l1(3) None unfolding evicted_to_def by (metis option.distinct(1))
  have e: "[] = get_or [] (lim_clients l1) client" using absent by (simp add: get_or_def)
  show thesis
  proof (cases "length (lim_clients l1) \<ge> maxTrackedClients")
    case True
    with None l1 that [of l1 False ten_minutes l1] show thesis
      by (simp add: Allow_def evicted_to_def)
  next
    case False
    let ?r = "allow_entry l1 client True raised [] now"
    obtain l' ok retry where r: "?r = (l', ok, retry)" by (cases ?r)
    have "limiter_inv l' \<and> lim_tiers l' = lim_tiers l1"
      using allow_entry_inv [OF l1(2) e _ _ r] absent False by simp
    moreover have "Allow l now client raised = Some (l', ok, retry)"
      using None False l1 r by (simp add: Allow_def)
    ultimately show thesis
      using that [of l' ok retry l1] l1 absent r e False by (simp add: evicted_to_def)
  qed
qed

definition limiter_ok :: "Limiter option \<Rightarrow> bool" where
  "limiter_ok s \<longleftrightarrow> (case s of None \<Rightarrow> False | Some l \<Rightarrow> limiter_inv l)"

lemma Allow_total:
  "limiter_inv l \<Longrightarrow> \<exists>l' ok retry. Allow l now client raised = Some (l', ok, retry) \<and>
     limiter_inv l' \<and> lim_tiers l' = lim_tiers l"
  by (erule Allow_cases [of l now client raised]) blast

lemma limiter_ok_step:
  assumes "limiter_ok s"
  shows "limiter_ok (limiter_step s q)"
proof -
  obtain l where l: "s = Some l" "limiter_inv l"
    using assms by (auto simp: limiter_ok_def split: option.splits)
  show ?thesis
    using l Allow_total [OF l(2), of "call_time q" "call_client q" "call_raised q"]
    by (auto simp: limiter_ok_def limiter_step_def)
qed

interpretation limiter: invariant_machine limiter_step limiter_ok
  by unfold_locales (rule limiter_ok_step)

section \<open>The abstract limiter\<close>

text \<open>What the limiter promises, over the whole history of the accepted requests: a request is
  accepted if its client stays below its budget in each of the three windows, and is refused with
  the window it exhausted; a request that fits may be refused only for want of capacity.\<close>

type_synonym history = "(string \<times> go_time) list"

definition client_history :: "history \<Rightarrow> string \<Rightarrow> go_time list" where
  "client_history h c = map snd (filter (\<lambda>e. fst e = c) h)"

definition budget_refusal :: "Tiers \<Rightarrow> go_time list \<Rightarrow> go_time \<Rightarrow> bool \<Rightarrow> duration option" where
  "budget_refusal t stamps now raised =
     (let m = (if raised then authenticatedMultiplier else 1)
      in if \<not> fits stamps now (3 * second) (Per3Seconds t * m) then Some (3 * second)
         else if \<not> fits stamps now minute (PerMinute t * m) then Some minute
         else if \<not> fits stamps now ten_minutes (Per10Minutes t * m) then Some ten_minutes
         else None)"

definition at_capacity :: "history \<Rightarrow> string \<Rightarrow> bool" where
  "at_capacity h c \<longleftrightarrow> length h \<ge> maximumRetainedPublicEvents \<or>
     length (client_history h c) \<ge> maximumRetainedClientEvents \<or>
     card (fst ` set h) \<ge> maxTrackedClients"

inductive window_step ::
  "Tiers \<Rightarrow> history \<Rightarrow> limiter_call \<Rightarrow> bool \<times> duration \<Rightarrow> history \<Rightarrow> bool" for t where
  accept: "budget_refusal t (client_history h (call_client q)) (call_time q) (call_raised q) = None \<Longrightarrow>
     window_step t h q (True, 0) (h @ [(call_client q, call_time q)])"
| refuse: "budget_refusal t (client_history h (call_client q)) (call_time q) (call_raised q) = Some r \<Longrightarrow>
     window_step t h q (False, r) h"
| saturate: "at_capacity h (call_client q) \<Longrightarrow> window_step t h q (False, ten_minutes) h"

inductive window_run ::
  "Tiers \<Rightarrow> history \<Rightarrow> limiter_call list \<Rightarrow> (bool \<times> duration) list \<Rightarrow> history \<Rightarrow> bool" for t where
  window_run_Nil: "window_run t h [] [] h"
| window_run_Cons: "window_step t h q v h1 \<Longrightarrow> window_run t h1 qs vs h2 \<Longrightarrow>
     window_run t h (q # qs) (v # vs) h2"

inductive_cases accept_cases: "window_step t h q (True, r) h'"
inductive_cases refuse_cases: "window_step t h q (False, r) h'"

text \<open>The stamps that the limiter keeps of a client are those of the history that the largest
  window still holds, possibly with older ones before them.\<close>

definition kept_stamps :: "go_time \<Rightarrow> go_time list \<Rightarrow> go_time list \<Rightarrow> bool" where
  "kept_stamps now stamps all \<longleftrightarrow> sorted stamps \<and> set stamps \<subseteq> set all \<and>
     (\<forall>s\<in>set all. s \<le> now) \<and> length stamps \<le> length all \<and>
     window_stamps (now - ten_minutes) stamps = window_stamps (now - ten_minutes) all"

definition represents :: "go_time \<Rightarrow> Limiter \<Rightarrow> history \<Rightarrow> bool" where
  "represents now l h \<longleftrightarrow> limiter_inv l \<and>
     (\<forall>c. kept_stamps now (get_or [] (lim_clients l) c) (client_history h c))"

lemma client_history_snoc [simp]:
  "client_history (h @ [(c, s)]) c' = client_history h c' @ (if c = c' then [s] else [])"
  by (simp add: client_history_def)

lemma window_stamps_twice:
  "h \<le> h' \<Longrightarrow> window_stamps h' (window_stamps h xs) = window_stamps h' xs"
  unfolding window_stamps_def filter_filter by (rule filter_cong) auto

lemma fits_window: "w \<le> ten_minutes \<Longrightarrow>
    fits (window_stamps (now - ten_minutes) xs) now w b = fits xs now w b"
  using window_stamps_twice [of "now - ten_minutes" "now - w" xs]
  by (simp add: fits_def window_stamps_def)

lemma budget_refusal_window:
  "budget_refusal t (window_stamps (now - ten_minutes) xs) now raised = budget_refusal t xs now raised"
proof -
  have w: "3 * second \<le> ten_minutes" "minute \<le> ten_minutes"
    by (simp_all add: ten_minutes_def minute_def second_def)
  show ?thesis unfolding budget_refusal_def fits_window [OF w(1)] fits_window [OF w(2)]
      fits_window [OF order.refl] by (rule refl)
qed

definition shortened_limiter :: "Limiter \<Rightarrow> string \<Rightarrow> bool \<Rightarrow> go_time list \<Rightarrow> go_time list \<Rightarrow> Limiter" where
  "shortened_limiter l client newClient entry stamps =
     (let l = l\<lparr>lim_retained := lim_retained l - int (length entry - length stamps)\<rparr>
      in if newClient then l else l\<lparr>lim_clients := AList.update client stamps (lim_clients l)\<rparr>)"

lemma allow_entry_eq:
  "allow_entry l client newClient raised entry now =
     (let stamps = window_stamps (now - ten_minutes) entry;
          l1 = shortened_limiter l client newClient entry stamps
      in case budget_refusal (lim_tiers l) stamps now raised of
           Some r \<Rightarrow> (l1, False, r)
         | None \<Rightarrow>
             if length stamps \<ge> maximumRetainedClientEvents \<or>
               lim_retained l1 \<ge> int maximumRetainedPublicEvents
             then (l1, False, ten_minutes)
             else (admit_stamp l1 client newClient stamps now, True, 0))"
proof -
  have tiers: "lim_tiers (shortened_limiter l client newClient entry stamps) = lim_tiers l" for stamps
    by (simp add: shortened_limiter_def Let_def)
  show ?thesis
    unfolding allow_entry_def budget_refusal_def Let_def window_stamps_def [symmetric]
      shortened_limiter_def [unfolded Let_def, symmetric] tiers
    by (simp only: option.simps split: if_split) simp
qed

text \<open>The verdict of the body of \<^verbatim>\<open>Allow\<close>.\<close>

lemma allow_entry_verdict:
  assumes "allow_entry l client newClient raised entry now = (l', ok, retry)"
  shows "if ok then budget_refusal (lim_tiers l) entry now raised = None \<and> retry = 0
    else budget_refusal (lim_tiers l) entry now raised = Some retry \<or>
      retry = ten_minutes \<and> (length entry \<ge> maximumRetainedClientEvents \<or>
        lim_retained l \<ge> int maximumRetainedPublicEvents)"
proof -
  let ?stamps = "window_stamps (now - ten_minutes) entry"
  have le: "length ?stamps \<le> length entry" by (simp add: window_stamps_def)
  have "if ok then budget_refusal (lim_tiers l) ?stamps now raised = None \<and> retry = 0
    else budget_refusal (lim_tiers l) ?stamps now raised = Some retry \<or>
      retry = ten_minutes \<and> (length ?stamps \<ge> maximumRetainedClientEvents \<or>
        lim_retained l - int (length entry - length ?stamps) \<ge> int maximumRetainedPublicEvents)"
    using assms
    by (auto simp: allow_entry_eq Let_def shortened_limiter_def split: option.splits if_splits)
  with le show ?thesis unfolding budget_refusal_window by (auto split: if_splits)
qed

lemma window_stamps_later:
  "window_stamps h xs = window_stamps h ys \<Longrightarrow> h \<le> h' \<Longrightarrow> window_stamps h' xs = window_stamps h' ys"
  by (metis window_stamps_twice)

lemma kept_stamps_later: "kept_stamps now xs ys \<Longrightarrow> now \<le> now' \<Longrightarrow> kept_stamps now' xs ys"
  unfolding kept_stamps_def
  using window_stamps_later [of "now - ten_minutes" xs ys "now' - ten_minutes"] by fastforce

lemma ten_minutes_pos [simp]: "0 < ten_minutes"
  by (simp add: ten_minutes_def minute_def second_def)

lemma kept_stamps_evict:
  assumes "kept_stamps now xs ys" "xs \<noteq> []" "last xs \<le> now - ten_minutes"
  shows "kept_stamps now [] ys"
proof -
  have xs: "xs = butlast xs @ [last xs]" using assms(2) by simp
  have "sorted (butlast xs @ [last xs])" using assms(1) xs by (simp add: kept_stamps_def)
  then have "\<forall>s\<in>set (butlast xs @ [last xs]). s \<le> last xs" by (auto simp: sorted_append)
  then have "\<forall>s\<in>set xs. s \<le> last xs" using xs by metis
  then have "window_stamps (now - ten_minutes) xs = []"
    using assms(3) by (auto simp: window_stamps_def filter_empty_conv)
  with assms(1) show ?thesis by (simp add: kept_stamps_def) (simp add: window_stamps_def)
qed

lemma kept_stamps_shorten:
  assumes "kept_stamps now xs ys"
  shows "kept_stamps now (window_stamps (now - ten_minutes) xs @ (if ok then [now] else []))
    (ys @ (if ok then [now] else []))"
proof -
  let ?w = "window_stamps (now - ten_minutes)"
  have xs: "sorted xs" "set xs \<subseteq> set ys" "\<forall>s\<in>set ys. s \<le> now" "length xs \<le> length ys"
    "?w xs = ?w ys" using assms by (simp_all add: kept_stamps_def)
  have sub: "sorted (?w xs)" "set (?w xs) \<subseteq> set xs" "length (?w xs) \<le> length xs"
    using xs(1) by (auto simp: window_stamps_def sorted_filter [of id, simplified])
  have le: "\<forall>s\<in>set (?w xs). s \<le> now" using sub(2) xs(2,3) by blast
  have "?w (?w xs @ zs) = ?w (ys @ zs)" for zs
    using xs(5) window_stamps_twice [of "now - ten_minutes" "now - ten_minutes" xs]
    by (simp add: window_stamps_def)
  with sub le xs show ?thesis
    unfolding kept_stamps_def by (cases ok) (auto simp: sorted_append window_stamps_twice [OF order.refl])
qed

lemma total_events_le:
  "wf_map m \<Longrightarrow> \<forall>c. length (get_or [] m c) \<le> length (client_history h c) \<Longrightarrow>
     total_events m \<le> length h"
proof (induction m arbitrary: h)
  case Nil
  then show ?case by (simp add: total_events_def)
next
  case (Cons p m)
  obtain c stamps where p: "p = (c, stamps)" by (cases p)
  let ?h = "filter (\<lambda>e. fst e \<noteq> c) h"
  have m: "wf_map m" "map_of m c = None"
    using Cons.prems(1) p by (auto simp: wf_map_def map_of_eq_None_iff)
  have "length (get_or [] m d) \<le> length (client_history ?h d)" for d
    using Cons.prems(2) [rule_format, of d] p m(2)
    by (cases "d = c") (auto simp: get_or_def client_history_def conj_commute cong: conj_cong)
  with Cons.IH [OF m(1)] have "total_events m \<le> length ?h" by blast
  moreover have "length stamps \<le> length (filter (\<lambda>e. fst e = c) h)"
    using Cons.prems(2) [rule_format, of c] p by (simp add: get_or_def client_history_def)
  moreover have "length (filter (\<lambda>e. fst e = c) h) + length ?h = length h"
    by (rule sum_length_filter_compl)
  ultimately show ?case using p by (simp add: total_events_def)
qed

lemma represents_capacity:
  assumes "represents now l h"
  shows "total_events (lim_clients l) \<le> length h"
    and "length (lim_clients l) \<le> card (fst ` set h)"
proof -
  have inv: "limiter_inv l" and len: "\<forall>c. length (get_or [] (lim_clients l) c) \<le> length (client_history h c)"
    using assms by (auto simp: represents_def kept_stamps_def)
  then have wf: "wf_map (lim_clients l)" by (simp add: limiter_inv_def)
  show "total_events (lim_clients l) \<le> length h" by (rule total_events_le [OF wf len])
  have "c \<in> fst ` set h" if key: "c \<in> set (map_keys (lim_clients l))" for c
  proof -
    obtain stamps where s: "map_of (lim_clients l) c = Some stamps"
      using key by (auto simp: set_map_keys)
    then have "get_or [] (lim_clients l) c \<noteq> []" using limiter_invD [OF inv s] by (simp add: get_or_def)
    then have "client_history h c \<noteq> []" using len by (metis le_zero_eq length_0_conv)
    then show ?thesis by (force simp: client_history_def filter_empty_conv)
  qed
  then have "card (set (map_keys (lim_clients l))) \<le> card (fst ` set h)"
    by (intro card_mono) auto
  moreover have "distinct (map_keys (lim_clients l))" using wf by (simp add: wf_map_def map_keys_def)
  ultimately show "length (lim_clients l) \<le> card (fst ` set h)"
    by (simp add: distinct_card) (simp add: map_keys_def)
qed

lemma represents_evict:
  assumes "represents now l h" "evicted_to (now - ten_minutes) l l1" "limiter_inv l1"
  shows "represents now l1 h"
proof -
  have "kept_stamps now (get_or [] (lim_clients l1) c) (client_history h c)" for c
  proof -
    have kept: "kept_stamps now (get_or [] (lim_clients l) c) (client_history h c)"
      using assms(1) by (simp add: represents_def)
    have "map_of (lim_clients l1) c = map_of (lim_clients l) c \<or>
        map_of (lim_clients l1) c = None \<and>
        (\<exists>stamps. map_of (lim_clients l) c = Some stamps \<and> last stamps \<le> now - ten_minutes)"
      using assms(2) by (simp add: evicted_to_def)
    then show ?thesis
    proof (elim disjE conjE exE)
      fix stamps
      assume s: "map_of (lim_clients l1) c = None" "map_of (lim_clients l) c = Some stamps"
        "last stamps \<le> now - ten_minutes"
      moreover have "stamps \<noteq> []"
        using assms(1) limiter_invD [OF _ s(2)] by (simp add: represents_def)
      ultimately show ?thesis using kept_stamps_evict [of now stamps] kept by (simp add: get_or_def)
    qed (use kept in \<open>simp add: get_or_def\<close>)
  qed
  then show ?thesis using assms(3) by (simp add: represents_def)
qed

text \<open>One call of the limiter is one step of the abstract limiter.\<close>

lemma Allow_simulates:
  assumes rep: "represents now0 l h" and clock: "now0 \<le> call_time q"
  obtains l' v h' where
    "Allow l (call_time q) (call_client q) (call_raised q) = Some (l', v)"
    "window_step (lim_tiers l) h q v h'" "represents (call_time q) l' h'" "lim_tiers l' = lim_tiers l"
proof -
  let ?now = "call_time q" and ?c = "call_client q"
  have rep: "represents ?now l h"
    using rep kept_stamps_later [OF _ clock] by (simp add: represents_def)
  then have "limiter_inv l" by (simp add: represents_def)
  then obtain l1 l' ok retry where r: "Allow l ?now ?c (call_raised q) = Some (l', ok, retry)"
    "limiter_inv l'" "limiter_inv l1" "lim_tiers l' = lim_tiers l"
    "evicted_to (?now - ten_minutes) l l1"
    "(l', ok, retry) = (l1, False, ten_minutes) \<and> length (lim_clients l1) \<ge> maxTrackedClients \<or>
     (map_of (lim_clients l1) ?c = None \<longrightarrow> length (lim_clients l1) < maxTrackedClients) \<and>
     (l', ok, retry) = allow_entry l1 ?c (map_of (lim_clients l1) ?c = None) (call_raised q)
        (get_or [] (lim_clients l1) ?c) ?now"
    by (rule Allow_cases [of l ?now ?c "call_raised q"])
  have rep1: "represents ?now l1 h" by (rule represents_evict [OF rep r(5,3)])
  show thesis
    using r(6)
  proof
    assume full: "(l', ok, retry) = (l1, False, ten_minutes) \<and> length (lim_clients l1) \<ge> maxTrackedClients"
    then have "at_capacity h ?c"
      using represents_capacity(2) [OF rep1] by (simp add: at_capacity_def)
    with full r(1,4) rep1 that [of l1 "(False, ten_minutes)" h] saturate show thesis by auto
  next
    let ?e = "get_or [] (lim_clients l1) ?c" and ?new = "map_of (lim_clients l1) ?c = None"
    assume a: "(?new \<longrightarrow> length (lim_clients l1) < maxTrackedClients) \<and>
      (l', ok, retry) = allow_entry l1 ?c ?new (call_raised q) ?e ?now"
    then have ae: "allow_entry l1 ?c ?new (call_raised q) ?e ?now = (l', ok, retry)" by simp
    let ?h = "if ok then h @ [(?c, ?now)] else h"
    have kept: "kept_stamps ?now (get_or [] (lim_clients l1) c) (client_history h c)" for c
      using rep1 by (simp add: represents_def)
    have clients: "limiter_inv l' \<and> lim_tiers l' = lim_tiers l1 \<and>
        (\<forall>c. c \<noteq> ?c \<longrightarrow> get_or [] (lim_clients l') c = get_or [] (lim_clients l1) c) \<and>
        get_or [] (lim_clients l') ?c =
          window_stamps (?now - ten_minutes) ?e @ (if ok then [?now] else [])"
      by (rule allow_entry_inv [OF r(3) refl refl _ ae]) (use a in simp)
    have "kept_stamps ?now (get_or [] (lim_clients l') c) (client_history ?h c)" for c
      using clients kept [of c] kept_stamps_shorten [OF kept [of ?c], of ok]
      by (cases "c = ?c") (auto split: if_splits)
    then have "represents ?now l' ?h" using clients by (simp add: represents_def)
    moreover have "window_step (lim_tiers l) h q (ok, retry) ?h"
    proof -
      have refusal: "budget_refusal t ?e ?now (call_raised q) =
          budget_refusal t (client_history h ?c) ?now (call_raised q)" for t
        using kept [of ?c] budget_refusal_window [of t ?now ?e "call_raised q"]
          budget_refusal_window [of t ?now "client_history h ?c" "call_raised q"]
        by (simp add: kept_stamps_def)
      have tiers: "lim_tiers l1 = lim_tiers l" using r(5) by (simp add: evicted_to_def)
      have "lim_retained l1 \<le> int (length h)" "length ?e \<le> length (client_history h ?c)"
        using represents_capacity(1) [OF rep1] r(3) kept [of ?c]
        by (simp_all add: limiter_inv_def kept_stamps_def)
      then show ?thesis
        using allow_entry_verdict [OF ae] unfolding refusal tiers
        by (cases ok) (auto intro: window_step.intros simp: at_capacity_def)
    qed
    ultimately show thesis using that [of l' "(ok, retry)" ?h] r(1,4) by blast
  qed
qed

section \<open>Properties\<close>

lemma NewLimiter_represents: "represents now (NewLimiter t) []"
  by (simp add: represents_def NewLimiter_inv)
    (simp add: NewLimiter_def kept_stamps_def client_history_def)

lemma limiter_run_simulates:
  "represents now l h \<Longrightarrow> sorted (now # map call_time qs) \<Longrightarrow>
     \<exists>l' vs h'. limiter_run l qs = Some (l', vs) \<and> window_run (lim_tiers l) h qs vs h' \<and>
       represents (last (now # map call_time qs)) l' h' \<and> lim_tiers l' = lim_tiers l"
proof (induction qs arbitrary: now l h)
  case Nil
  then show ?case by (auto intro: window_run_Nil)
next
  case (Cons q qs)
  obtain l1 v h1 where s: "Allow l (call_time q) (call_client q) (call_raised q) = Some (l1, v)"
    "window_step (lim_tiers l) h q v h1" "represents (call_time q) l1 h1" "lim_tiers l1 = lim_tiers l"
    by (rule Allow_simulates [OF Cons.prems(1), of q]) (use Cons.prems(2) in auto)
  obtain l' vs h' where "limiter_run l1 qs = Some (l', vs)" "window_run (lim_tiers l1) h1 qs vs h'"
    "represents (last (call_time q # map call_time qs)) l' h'" "lim_tiers l' = lim_tiers l1"
    using Cons.IH [OF s(3)] Cons.prems(2) by auto
  with s show ?case by (cases v) (auto intro: window_run_Cons)
qed

fun accepted :: "limiter_call list \<Rightarrow> (bool \<times> duration) list \<Rightarrow> history" where
  "accepted (q # qs) (v # vs) =
     (if fst v then [(call_client q, call_time q)] else []) @ accepted qs vs"
| "accepted _ _ = []"

lemma window_run_accepted:
  "window_run t h qs vs h' \<Longrightarrow> h' = h @ accepted qs vs \<and> length vs = length qs \<and>
     (\<forall>i < length qs. fst (vs ! i) \<longrightarrow>
        budget_refusal t (client_history (h @ accepted (take i qs) (take i vs)) (call_client (qs ! i)))
          (call_time (qs ! i)) (call_raised (qs ! i)) = None)"
proof (induction rule: window_run.induct)
  case (window_run_Nil h)
  then show ?case by simp
next
  case (window_run_Cons h q v h1 qs vs h2)
  have h1: "h1 = h @ (if fst v then [(call_client q, call_time q)] else [])"
    using window_run_Cons.hyps(1) by cases auto
  have "budget_refusal t (client_history (h @ accepted (take i (q # qs)) (take i (v # vs)))
      (call_client ((q # qs) ! i))) (call_time ((q # qs) ! i)) (call_raised ((q # qs) ! i)) = None"
    if i: "i < length (q # qs)" and ok: "fst ((v # vs) ! i)" for i
  proof (cases i)
    case 0
    with ok window_run_Cons.hyps(1) show ?thesis by (cases v) (auto elim: accept_cases)
  next
    case (Suc j)
    with i ok window_run_Cons.IH h1 show ?thesis by simp
  qed
  with window_run_Cons.IH h1 show ?case by auto
qed

lemma budget_refusal_NoneD:
  "budget_refusal t stamps now raised = None \<Longrightarrow>
     fits stamps now (3 * second) (Per3Seconds t * (if raised then authenticatedMultiplier else 1)) \<and>
     fits stamps now minute (PerMinute t * (if raised then authenticatedMultiplier else 1)) \<and>
     fits stamps now ten_minutes (Per10Minutes t * (if raised then authenticatedMultiplier else 1))"
  by (auto simp: budget_refusal_def Let_def split: if_split_asm)

lemma evict_loop_stops:
  "evict_loop horizon l order = Some l' \<Longrightarrow>
     lim_order l' = [] \<or> (\<exists>c stamps. map_of (lim_clients l') c = Some stamps \<and> last stamps > horizon)"
  by (induction horizon l order rule: evict_loop.induct) (auto split: option.splits if_splits)

lemma lim_tiers_New [simp]: "lim_tiers (NewLimiter t) = t"
  by (simp add: NewLimiter_def)

lemma limiter_run_start:
  assumes "sorted (map call_time qs)"
  obtains l vs h where "limiter_run (NewLimiter t) qs = Some (l, vs)" "window_run t [] qs vs h"
    "lim_tiers l = t" "\<And>now. \<forall>q\<in>set qs. call_time q \<le> now \<Longrightarrow> represents now l h"
proof (cases qs)
  case Nil
  with that [of "NewLimiter t" "[]" "[]"] NewLimiter_represents window_run_Nil show thesis
    by (simp add: NewLimiter_def)
next
  case (Cons q qs')
  have "sorted (call_time q # map call_time qs)" using assms Cons by simp
  from limiter_run_simulates [OF NewLimiter_represents this, of t] obtain l vs h where
    r: "limiter_run (NewLimiter t) qs = Some (l, vs)" "window_run t [] qs vs h" "lim_tiers l = t"
    "represents (last (call_time q # map call_time qs)) l h"
    using lim_tiers_New [of t] by metis
  have "last (call_time q # map call_time qs) \<in> call_time ` set qs" using Cons
    by (simp add: last_map)
  then have "represents now l h" if "\<forall>q\<in>set qs. call_time q \<le> now" for now
    using that r(4) kept_stamps_later unfolding represents_def by fastforce
  with that r show thesis by blast
qed

text \<open>Whatever the clock and the clients do, no call of the rate limiter panics (its eviction
  never meets a client it does not know or one without a history), and after every sequence of
  calls the count of retained events is the number of the stamps kept, at most 65536 of them, of at
  most 4096 clients, none without a stamp.\<close>
theorem limiter_never_panics:
  "\<exists>l. run limiter_step (Some (NewLimiter tiers)) qs = Some l \<and>
     lim_retained l = int (total_events (lim_clients l)) \<and> lim_retained l \<le> 65536 \<and>
     length (lim_clients l) \<le> 4096 \<and> set (lim_order l) = set (map_keys (lim_clients l)) \<and>
     (\<forall>c. map_of (lim_clients l) c \<noteq> Some [])"
proof -
  have "limiter_ok (run limiter_step (Some (NewLimiter tiers)) qs)"
    by (rule limiter.inv_run) (simp add: limiter_ok_def NewLimiter_inv)
  then show ?thesis
    by (auto simp: limiter_ok_def limiter_inv_def maximumRetainedPublicEvents_def maxTrackedClients_def
        split: option.splits)
qed

text \<open>C16: while the clock does not go back, the rate limiter refines the abstract limiter, which
  looks at the whole history of accepted requests: each call is accepted when its client fits the
  budgets of the three windows over that history, refused with the window it exhausted when it does
  not, and otherwise refused only when the history has reached one of the capacities.\<close>
theorem limiter_refines_windows:
  assumes "sorted (map call_time qs)"
  shows "\<exists>l vs h. limiter_run (NewLimiter tiers) qs = Some (l, vs) \<and> window_run tiers [] qs vs h"
  using assms by (rule limiter_run_start [of qs tiers]) blast

text \<open>C30: while the clock does not go back, a request is accepted only when fewer than the budget
  of its client (ten times it for raised limits) were accepted in the last three seconds, fewer
  than the minute's budget in the last minute and fewer than the ten minutes' budget in the last
  ten minutes.\<close>
theorem limiter_within_budgets:
  assumes "sorted (map call_time qs)" and "limiter_run (NewLimiter tiers) qs = Some (l, vs)"
    and "i < length qs" and "fst (vs ! i)"
    and "m = (if call_raised (qs ! i) then 10 else 1)" and "now = call_time (qs ! i)"
    and "earlier = client_history (accepted (take i qs) (take i vs)) (call_client (qs ! i))"
  shows "int (length (filter (\<lambda>s. s > now - 3 * second) earlier)) < Per3Seconds tiers * m \<and>
    int (length (filter (\<lambda>s. s > now - minute) earlier)) < PerMinute tiers * m \<and>
    int (length (filter (\<lambda>s. s > now - 10 * minute) earlier)) < Per10Minutes tiers * m"
proof -
  obtain h where "window_run tiers [] qs vs h"
    using limiter_run_start [OF assms(1), of tiers] assms(2) by (metis Pair_inject option.inject)
  from window_run_accepted [OF this] assms(3,4) have
    "budget_refusal tiers (client_history (accepted (take i qs) (take i vs)) (call_client (qs ! i)))
       (call_time (qs ! i)) (call_raised (qs ! i)) = None" by simp
  from budget_refusal_NoneD [OF this] show ?thesis
    using assms(5-7) by (simp add: fits_def ten_minutes_def authenticatedMultiplier_def split: if_split_asm)
qed

text \<open>After ten minutes without a call the rate limiter accepts the next request of every client,
  whatever was accepted and refused before and however full it was, when the budgets are
  positive.\<close>
theorem limiter_recovers:
  assumes "sorted (map call_time qs)" and "limiter_run (NewLimiter tiers) qs = Some (l, vs)"
    and "list_all (\<lambda>q. call_time q \<le> now - 10 * minute) qs"
    and "0 < Per3Seconds tiers" and "0 < PerMinute tiers" and "0 < Per10Minutes tiers"
  shows "\<exists>l'. Allow l now client raised = Some (l', True, 0)"
proof -
  have old: "\<forall>q\<in>set qs. call_time q \<le> now - ten_minutes"
    using assms(3) by (simp add: list_all_iff ten_minutes_def)
  obtain h where rep: "represents (now - ten_minutes) l h" and t: "lim_tiers l = tiers"
    using limiter_run_start [OF assms(1), of tiers] assms(2) old by (metis Pair_inject option.inject)
  have inv: "limiter_inv l" using rep by (simp add: represents_def)
  have stale: "\<forall>s\<in>set (get_or [] (lim_clients l) c). s \<le> now - ten_minutes" for c
    using rep by (auto simp: represents_def kept_stamps_def)
  have entry: "\<exists>l'. allow_entry l0 client nc raised entry now = (l', True, 0)"
    if "lim_tiers l0 = tiers" "window_stamps (now - ten_minutes) entry = []"
      "lim_retained l0 - int (length entry) < int maximumRetainedPublicEvents" for l0 nc entry
    using that assms(4-6)
    by (simp add: allow_entry_eq Let_def budget_refusal_def shortened_limiter_def
        authenticatedMultiplier_def maximumRetainedClientEvents_def)
  show ?thesis
  proof (cases "map_of (lim_clients l) client")
    case (Some entry)
    then have "entry \<noteq> []" "window_stamps (now - ten_minutes) entry = []"
      using limiter_invD [OF inv Some] stale [of client]
      by (auto simp: get_or_def window_stamps_def filter_empty_conv)
    moreover have "lim_retained l - int (length entry) < int maximumRetainedPublicEvents"
      using inv \<open>entry \<noteq> []\<close> by (cases entry) (auto simp: limiter_inv_def)
    ultimately show ?thesis using entry [OF t] Some by (simp add: Allow_def)
  next
    case None
    obtain l1 where l1: "evictStale now l = Some l1" "limiter_inv l1"
      "evicted_to (now - ten_minutes) l l1" using evictStale_inv [OF inv] by blast
    have "\<not> last stamps > now - ten_minutes" if "map_of (lim_clients l1) c = Some stamps" for c stamps
    proof -
      have "map_of (lim_clients l) c = Some stamps" using that l1(3) unfolding evicted_to_def by (metis option.distinct(1))
      then show ?thesis using stale [of c] limiter_invD [OF inv] last_in_set [of stamps]
        by (fastforce simp: get_or_def)
    qed
    then have "lim_order l1 = []"
      using evict_loop_stops [of "now - ten_minutes" l "lim_order l" l1] l1(1)
      by (auto simp: evictStale_def)
    then have "lim_clients l1 = []" using l1(2) by (simp add: limiter_inv_def map_keys_def)
    moreover from this have "lim_retained l1 = 0"
      using l1(2) by (simp add: limiter_inv_def total_events_def)
    moreover have "lim_tiers l1 = tiers" using l1(3) t by (simp add: evicted_to_def)
    ultimately show ?thesis using entry [of l1 "[]" True] None l1(1)
      by (simp add: Allow_def window_stamps_def maxTrackedClients_def maximumRetainedPublicEvents_def)
  qed
qed

section \<open>Witnesses\<close>

definition example_calls :: "limiter_call list" where
  "example_calls = [\<lparr>call_time = 0, call_client = ''a'', call_raised = False\<rparr>,
     \<lparr>call_time = second, call_client = ''b'', call_raised = True\<rparr>,
     \<lparr>call_time = 2 * second, call_client = ''a'', call_raised = False\<rparr>]"

definition example_tiers :: Tiers where
  "example_tiers = \<lparr>Per3Seconds = 2, PerMinute = 2, Per10Minutes = 3\<rparr>"

lemma example_calls_sorted: "sorted (map call_time example_calls)"
  by (simp add: example_calls_def second_def)

lemma example_run: "limiter_run (NewLimiter example_tiers) example_calls =
    Some (\<lparr>lim_clients = [(''a'', [0, 2 * second]), (''b'', [second])], lim_order = [''b'', ''a''],
      lim_tiers = example_tiers, lim_retained = 3\<rparr>, [(True, 0), (True, 0), (True, 0)])"
  by (simp add: example_calls_def example_tiers_def NewLimiter_def Allow_def evictStale_def
      allow_entry_def admit_stamp_def fits_def Let_def authenticatedMultiplier_def
      maxTrackedClients_def maximumRetainedClientEvents_def maximumRetainedPublicEvents_def
      ten_minutes_def minute_def second_def)

lemma limiter_refines_windows_witness:
  "\<exists>l vs h. limiter_run (NewLimiter example_tiers) example_calls = Some (l, vs) \<and>
     window_run example_tiers [] example_calls vs h"
  by (rule limiter_refines_windows [OF example_calls_sorted])

lemma limiter_within_budgets_witness:
  "int (length (filter (\<lambda>s. s > 2 * second - minute) [0])) < PerMinute example_tiers * 1"
proof -
  have "fst ([(True, 0), (True, 0), (True, 0::int)] ! 2)" "2 < length example_calls"
    "(1::int) = (if call_raised (example_calls ! 2) then 10 else 1)"
    "2 * second = call_time (example_calls ! 2)"
    "[0] = client_history (accepted (take 2 example_calls) (take 2 [(True, 0), (True, 0), (True, 0)]))
       (call_client (example_calls ! 2))"
    by (simp_all add: example_calls_def client_history_def numeral_2_eq_2)
  note h = this
  show ?thesis
    using limiter_within_budgets [OF example_calls_sorted example_run h(2,1,3,4,5)] by blast
qed

lemma limiter_recovers_witness:
  "\<exists>l'. Allow \<lparr>lim_clients = [(''a'', [0, 2 * second]), (''b'', [second])],
      lim_order = [''b'', ''a''], lim_tiers = example_tiers, lim_retained = 3\<rparr> (11 * minute) ''c'' False = Some (l', True, 0)"
  by (rule limiter_recovers [OF example_calls_sorted example_run])
    (simp_all add: example_calls_def example_tiers_def second_def minute_def)

end
