(* ===== verification/CrawlIdentity.thy ===== *)
theory CrawlIdentity
  imports Punycode
begin

text \<open>
  \<^verbatim>\<open>yagocrawlcontract/crawler_identity_limits.go\<close>: the identities by which a crawler
  worker and its session are known to the broker. An identity is one visible line: valid
  UTF-8, not empty, of a bounded number of bytes, without control, format and line-separator
  characters. The lemmas show that printable ASCII identities are valid and that a valid
  identity has none of the bytes that would end a line or a field.
\<close>

section \<open>Definitions\<close>

definition MaximumCrawlerWorkerIdentityBytes :: nat where "MaximumCrawlerWorkerIdentityBytes = 256"
definition MaximumCrawlerWorkerIdentityPrefixBytes :: nat where
  "MaximumCrawlerWorkerIdentityPrefixBytes = MaximumCrawlerWorkerIdentityBytes - 37"
definition MaximumCrawlerSessionIdentityBytes :: nat where "MaximumCrawlerSessionIdentityBytes = 256"

text \<open>\<^verbatim>\<open>utf8.ValidString\<close>: no step of the decoding meets an encoding error, which is the
  replacement rune with a width of one byte.\<close>

function valid_utf8 :: "nat list \<Rightarrow> bool" where
  "valid_utf8 bs =
     (if bs = [] then True
      else if decode_rune bs = (0xFFFD, 1) then False
      else valid_utf8 (drop (snd (decode_rune bs)) bs))"
  by pat_completeness auto

termination
proof (relation "measure length", goal_cases)
  case 1
  show ?case by simp
next
  case (2 bs)
  then show "(drop (snd (decode_rune bs)) bs, bs) \<in> measure length"
    using decode_rune_width [of bs] by (cases bs) auto
qed

declare valid_utf8.simps [simp del]

text \<open>The runes of the categories Cc, Cf, Zl and Zp, from the tables of package
  \<^verbatim>\<open>unicode\<close> (Unicode 15).\<close>

definition format_ranges :: "(nat \<times> nat) list" where
  "format_ranges =
     [(0xAD, 0xAD), (0x600, 0x605), (0x61C, 0x61C), (0x6DD, 0x6DD), (0x70F, 0x70F),
      (0x890, 0x891), (0x8E2, 0x8E2), (0x180E, 0x180E), (0x200B, 0x200F), (0x202A, 0x202E),
      (0x2060, 0x2064), (0x2066, 0x206F), (0xFEFF, 0xFEFF), (0xFFF9, 0xFFFB),
      (0x110BD, 0x110BD), (0x110CD, 0x110CD), (0x13430, 0x1343F), (0x1BCA0, 0x1BCA3),
      (0x1D173, 0x1D17A), (0xE0001, 0xE0001), (0xE0020, 0xE007F)]"

definition invisible_rune :: "nat \<Rightarrow> bool" where
  "invisible_rune r \<longleftrightarrow> r \<le> 0x1F \<or> 0x7F \<le> r \<and> r \<le> 0x9F \<or>
     list_ex (\<lambda>(a, b). a \<le> r \<and> r \<le> b) format_ranges \<or> r = 0x2028 \<or> r = 0x2029"

definition validCrawlerIdentity :: "string \<Rightarrow> nat \<Rightarrow> bool" where
  "validCrawlerIdentity identity maximumBytes \<longleftrightarrow>
     identity \<noteq> [] \<and> length identity \<le> maximumBytes \<and> valid_utf8 (map of_char identity) \<and>
     \<not> list_ex invisible_rune (runes identity)"

definition ValidCrawlerWorkerIdentity :: "string \<Rightarrow> bool" where
  "ValidCrawlerWorkerIdentity identity = validCrawlerIdentity identity MaximumCrawlerWorkerIdentityBytes"

definition ValidCrawlerSessionIdentity :: "string \<Rightarrow> bool" where
  "ValidCrawlerSessionIdentity identity = validCrawlerIdentity identity MaximumCrawlerSessionIdentityBytes"

text \<open>\<^verbatim>\<open>strings.Trim\<close> of blanks; None is the error of an invalid prefix.\<close>

definition trim_blanks :: "string \<Rightarrow> string" where
  "trim_blanks s = rev (dropWhile (\<lambda>c. c = CHR '' '') (rev (dropWhile (\<lambda>c. c = CHR '' '') s)))"

definition ParseCrawlerWorkerIdentityPrefix :: "string \<Rightarrow> string option" where
  "ParseCrawlerWorkerIdentityPrefix raw =
     (let identity = trim_blanks raw
      in if validCrawlerIdentity identity MaximumCrawlerWorkerIdentityPrefixBytes then Some identity
         else None)"

text \<open>\<^verbatim>\<open>yagonode/internal/crawlbroker/crawler_identity_validation.go\<close>\<close>

definition validCrawlerLeaseIdentity :: "string \<Rightarrow> string \<Rightarrow> bool" where
  "validCrawlerLeaseIdentity workerID workerSessionID \<longleftrightarrow>
     ValidCrawlerWorkerIdentity workerID \<and> ValidCrawlerSessionIdentity workerSessionID"

section \<open>Lemmas\<close>

definition printable :: "char \<Rightarrow> bool" where
  "printable c \<longleftrightarrow> 0x20 \<le> (of_char c :: nat) \<and> (of_char c :: nat) < 0x7F"

lemma valid_utf8_Nil [simp]: "valid_utf8 []"
  by (simp add: valid_utf8.simps)

lemma valid_utf8_ascii: "a < 0x80 \<Longrightarrow> valid_utf8 (a # bs) = valid_utf8 bs"
  by (subst valid_utf8.simps) (simp add: decode_rune_ascii)

lemma runes_printable: "list_all printable s \<Longrightarrow> runes s = map of_char s"
proof (induction s)
  case Nil
  then show ?case by (simp add: runes_def runes_of_bytes.simps)
next
  case (Cons c s)
  then have "(of_char c :: nat) < 0x80" by (simp add: printable_def)
  then show ?case using Cons
    by (simp add: runes_def) (subst runes_of_bytes.simps, simp add: decode_rune_ascii)
qed

lemma printable_visible: "printable c \<Longrightarrow> \<not> invisible_rune (of_char c)"
  by (simp add: printable_def invisible_rune_def format_ranges_def)

lemma valid_utf8_printable: "list_all printable s \<Longrightarrow> valid_utf8 (map of_char s)"
  by (induction s) (simp_all add: valid_utf8_ascii printable_def)

lemma printable_identity:
  "list_all printable s \<Longrightarrow> s \<noteq> [] \<Longrightarrow> length s \<le> n \<Longrightarrow> validCrawlerIdentity s n"
  using printable_visible
  by (auto simp: validCrawlerIdentity_def valid_utf8_printable runes_printable list_ex_iff list_all_iff)

lemma lease_identity_nonempty: "validCrawlerLeaseIdentity w s \<Longrightarrow> w \<noteq> [] \<and> s \<noteq> []"
  by (simp add: validCrawlerLeaseIdentity_def ValidCrawlerWorkerIdentity_def
      ValidCrawlerSessionIdentity_def validCrawlerIdentity_def)

text \<open>A valid text followed by another decodes to the runes of the one and then of the other.\<close>

lemma byte_at_append: "i < length bs \<Longrightarrow> byte_at (bs @ cs) i = byte_at bs i"
  by (simp add: byte_at_def nth_append)

lemma cont_inside: "is_cont (byte_at bs i) \<Longrightarrow> i < length bs"
  by (auto simp: byte_at_def is_cont_def split: if_splits)

lemma decode_rune_append:
  assumes "bs \<noteq> []" and "decode_rune bs \<noteq> (0xFFFD, 1)"
  shows "decode_rune (bs @ cs) = decode_rune bs \<and> snd (decode_rune bs) \<le> length bs"
proof -
  let ?a = "byte_at bs 0" and ?b = "byte_at bs 1" and ?c = "byte_at bs 2" and ?d = "byte_at bs 3"
  have a: "byte_at (bs @ cs) 0 = ?a" using assms(1) by (simp add: byte_at_append)
  have len: "Suc 0 \<le> length bs" using assms(1) by (cases bs) auto
  consider "?a < 0x80" | "\<not> ?a < 0x80" "is_cont ?b" "\<not> (is_cont ?c)" "?a \<le> 0xDF"
    | "\<not> ?a < 0x80" "is_cont ?b" "is_cont ?c" "\<not> is_cont ?d" "?a \<le> 0xEF"
    | "\<not> ?a < 0x80" "is_cont ?b" "is_cont ?c" "is_cont ?d"
    | "\<not> ?a < 0x80" "is_cont ?b" "is_cont ?c" "?a \<le> 0xEF"
    using assms(2) unfolding decode_rune_def Let_def by (auto split: if_splits)
  then show ?thesis
  proof cases
    case 1
    then show ?thesis using a len by (simp add: decode_rune_def)
  next
    case 2
    have "byte_at (bs @ cs) 1 = ?b" "2 \<le> length bs"
      using cont_inside [OF 2(2)] by (simp_all add: byte_at_append)
    then show ?thesis using a len 2 by (simp add: decode_rune_def Let_def)
  next
    case 3
    have "byte_at (bs @ cs) 1 = ?b" "byte_at (bs @ cs) 2 = ?c" "3 \<le> length bs"
      using cont_inside [OF 3(2)] cont_inside [OF 3(3)] by (simp_all add: byte_at_append)
    then show ?thesis using a len 3 by (simp add: decode_rune_def Let_def)
  next
    case 4
    have "byte_at (bs @ cs) 1 = ?b" "byte_at (bs @ cs) 2 = ?c" "byte_at (bs @ cs) 3 = ?d"
      "4 \<le> length bs"
      using cont_inside [OF 4(2)] cont_inside [OF 4(3)] cont_inside [OF 4(4)]
      by (simp_all add: byte_at_append)
    then show ?thesis using a len by (simp add: decode_rune_def Let_def)
  next
    case 5
    have "byte_at (bs @ cs) 1 = ?b" "byte_at (bs @ cs) 2 = ?c" "3 \<le> length bs"
      using cont_inside [OF 5(2)] cont_inside [OF 5(3)] by (simp_all add: byte_at_append)
    then show ?thesis using a len 5 by (simp add: decode_rune_def Let_def)
  qed
qed

lemma valid_utf8_append:
  "valid_utf8 bs \<Longrightarrow> valid_utf8 (bs @ cs) = valid_utf8 cs \<and>
     runes_of_bytes (bs @ cs) = runes_of_bytes bs @ runes_of_bytes cs"
proof (induction bs rule: valid_utf8.induct)
  case (1 bs)
  show ?case
  proof (cases "bs = []")
    case True
    then show ?thesis by (simp add: runes_of_bytes.simps [of "[]"])
  next
    case False
    have ne: "decode_rune bs \<noteq> (0xFFFD, 1)" and rest: "valid_utf8 (drop (snd (decode_rune bs)) bs)"
      using 1(2) False by (subst (asm) valid_utf8.simps, simp split: if_splits)+
    have d: "decode_rune (bs @ cs) = decode_rune bs" "snd (decode_rune bs) \<le> length bs"
      using decode_rune_append [OF False ne, of cs] by simp_all
    have "valid_utf8 (bs @ cs) = valid_utf8 (drop (snd (decode_rune bs)) bs @ cs)"
      using False ne d by (subst valid_utf8.simps) simp
    moreover have "runes_of_bytes (bs @ cs) =
        fst (decode_rune bs) # runes_of_bytes (drop (snd (decode_rune bs)) bs @ cs)"
      using False d by (subst runes_of_bytes.simps) simp
    moreover have "runes_of_bytes bs =
        fst (decode_rune bs) # runes_of_bytes (drop (snd (decode_rune bs)) bs)"
      using False by (subst runes_of_bytes.simps) simp
    ultimately show ?thesis using 1(1) [OF False ne rest] by simp
  qed
qed

text \<open>A worker identity made of an accepted prefix and a printable ASCII suffix of at most 37
  bytes, the room that the limit of the prefix leaves (a hyphen and a UUID), is a valid crawler
  worker identity.\<close>
theorem identity_prefix_extends:
  assumes "ParseCrawlerWorkerIdentityPrefix raw = Some stem"
    and "list_all printable tail" and "length tail \<le> 37"
  shows "ValidCrawlerWorkerIdentity (stem @ tail)"
proof -
  have p: "validCrawlerIdentity stem MaximumCrawlerWorkerIdentityPrefixBytes"
    using assms(1) by (simp add: ParseCrawlerWorkerIdentityPrefix_def Let_def split: if_splits)
  have "runes (stem @ tail) = runes stem @ runes tail"
    "valid_utf8 (map of_char (stem @ tail))"
    using p valid_utf8_append [of "map of_char stem" "map of_char tail"]
      valid_utf8_printable [OF assms(2)]
    by (simp_all add: runes_def validCrawlerIdentity_def)
  moreover have "\<not> list_ex invisible_rune (runes tail)"
    using assms(2) printable_visible by (auto simp: runes_printable list_ex_iff list_all_iff)
  ultimately show ?thesis
    using p assms(3) unfolding ValidCrawlerWorkerIdentity_def validCrawlerIdentity_def
    by (simp add: MaximumCrawlerWorkerIdentityBytes_def MaximumCrawlerWorkerIdentityPrefixBytes_def)
qed

lemma identity_prefix_extends_witness:
  "ValidCrawlerWorkerIdentity (''crawler'' @ ''-0123456789abcdef'')"
proof -
  have p: "list_all printable ''crawler''" by (simp add: printable_def)
  have "ParseCrawlerWorkerIdentityPrefix '' crawler '' = Some ''crawler''"
    using printable_identity [OF p] by (simp add: ParseCrawlerWorkerIdentityPrefix_def trim_blanks_def
        MaximumCrawlerWorkerIdentityPrefixBytes_def MaximumCrawlerWorkerIdentityBytes_def)
  from identity_prefix_extends [OF this] show ?thesis by (simp add: printable_def)
qed

end
