(* ===== verification/FetchSchedule.thy ===== *)
theory FetchSchedule
  imports CrawlIdentity GoLib
begin

text \<open>
  \<^verbatim>\<open>yagonode/internal/crawlbroker/fleet_fetch_start_schedule.go\<close> with
  \<^verbatim>\<open>fleet_fetch_start_delivery.go\<close> and \<^verbatim>\<open>fleet_fetch_start_endpoint.go\<close>: the
  broker's schedule of the page fetches of all crawler processes. A session asks for a lease of
  fetch permits; waiting sessions are served in turn; the schedule hands out the permits of the
  near future, at the configured rate, and each permit is the time window in which its fetch may
  start. The mutex makes each operation one step; the time that a step reads from the clock is an
  argument. The theory \<open>FetchPace\<close> proves what the permits promise.
\<close>

section \<open>Data\<close>

definition defaultFleetFetchReservationHorizon :: duration where
  "defaultFleetFetchReservationHorizon = 250000000"
definition defaultFleetFetchLeaseLifetime :: duration where "defaultFleetFetchLeaseLifetime = second"
definition MaximumProcessPagesPerSecond :: nat where "MaximumProcessPagesPerSecond = 1000000"
definition MaximumFetchWorkerConcurrency :: nat where "MaximumFetchWorkerConcurrency = 256"
definition MaximumFetchStartPermitDeliveryAllowance :: duration where
  "MaximumFetchStartPermitDeliveryAllowance = second"

datatype fetch_error = errFleetFetchPolicyInvalid | errFleetFetchRequestInvalid
  | errFleetFetchSessionActive | errFleetFetchSessionStale | errFleetFetchLeaseOutstanding
  | errFleetFetchSequenceStale | errFleetFetchLeaseNotFound | errFleetFetchLeaseSequenceMismatch

record fleetFetchStartPolicy =
  PagesPerSecond :: nat
  MaximumLeasePermits :: nat
  ReservationHorizon :: duration
  LeaseLifetime :: duration
  RestartQuietPeriod :: duration

record fleetFetchStartLeaseRequest =
  rq_WorkerID :: string
  rq_WorkerSessionID :: string
  rq_Sequence :: nat
  rq_MaximumPermits :: nat
  rq_PermitDeliveryAllowance :: duration

record fleetFetchStartLease =
  le_WorkerID :: string
  le_WorkerSessionID :: string
  le_Sequence :: nat
  le_Permits :: nat
  le_FirstPermitAt :: go_time
  le_PermitInterval :: duration
  le_PermitStartWindow :: duration
  le_ExpiresAt :: go_time
  le_PolicyGeneration :: nat
  le_Unlimited :: bool

definition zero_lease :: fleetFetchStartLease where
  "zero_lease = \<lparr>le_WorkerID = [], le_WorkerSessionID = [], le_Sequence = 0, le_Permits = 0,
     le_FirstPermitAt = 0, le_PermitInterval = 0, le_PermitStartWindow = 0, le_ExpiresAt = 0,
     le_PolicyGeneration = 0, le_Unlimited = False\<rparr>"

record fleetFetchStartDecision =
  de_Lease :: fleetFetchStartLease
  de_Granted :: bool
  de_RetryAt :: go_time
  de_ServerObservedAt :: go_time

record fleetFetchStartSnapshot =
  sn_PagesPerSecond :: nat
  sn_PolicyGeneration :: nat
  sn_ActiveSessionTotal :: nat
  sn_OutstandingLeaseTotal :: nat
  sn_WaitingSessionTotal :: nat
  sn_NextPermitAt :: go_time
  sn_QuietUntil :: go_time

text \<open>A session of a worker.\<close>

type_synonym fleetFetchSessionIdentity = "string \<times> string"

record fleetFetchStartLeaseRecord =
  lr_lease :: fleetFetchStartLease
  lr_outstanding :: bool

text \<open>The waiting requests are kept twice: in a map by session and in the list of the rotation.\<close>

record fleetFetchStartSchedule =
  sc_policy :: fleetFetchStartPolicy
  sc_policyGeneration :: nat
  sc_quietUntil :: go_time
  sc_nextPermitAt :: go_time
  sc_lastPermitAt :: go_time
  sc_activeSessions :: "(string, string) gomap"
  sc_leases :: "(fleetFetchSessionIdentity, fleetFetchStartLeaseRecord) gomap"
  sc_waiting :: "(fleetFetchSessionIdentity, fleetFetchStartLeaseRequest) gomap"
  sc_waitingRotation :: "fleetFetchStartLeaseRequest list"

section \<open>Operations\<close>

definition validFleetFetchStartPolicy :: "fleetFetchStartPolicy \<Rightarrow> bool" where
  "validFleetFetchStartPolicy p \<longleftrightarrow>
     PagesPerSecond p \<le> MaximumProcessPagesPerSecond \<and> MaximumLeasePermits p > 0 \<and>
     MaximumLeasePermits p \<le> MaximumFetchWorkerConcurrency \<and> ReservationHorizon p > 0 \<and>
     LeaseLifetime p > ReservationHorizon p \<and>
     LeaseLifetime p - ReservationHorizon p > ReservationHorizon p \<and> RestartQuietPeriod p \<ge> 0"

definition newFleetFetchStartScheduleAt ::
  "fleetFetchStartPolicy \<Rightarrow> go_time \<Rightarrow> (fetch_error, fleetFetchStartSchedule) result" where
  "newFleetFetchStartScheduleAt p startedAt =
     (if \<not> validFleetFetchStartPolicy p then Inl errFleetFetchPolicyInvalid
      else Inr \<lparr>sc_policy = p, sc_policyGeneration = 1,
        sc_quietUntil = startedAt + RestartQuietPeriod p, sc_nextPermitAt = 0, sc_lastPermitAt = 0,
        sc_activeSessions = [], sc_leases = [], sc_waiting = [], sc_waitingRotation = []\<rparr>)"

definition newFleetFetchStartSchedule ::
  "nat \<Rightarrow> go_time \<Rightarrow> (fetch_error, fleetFetchStartSchedule) result" where
  "newFleetFetchStartSchedule pagesPerSecond startedAt =
     newFleetFetchStartScheduleAt \<lparr>PagesPerSecond = pagesPerSecond,
       MaximumLeasePermits = MaximumFetchWorkerConcurrency,
       ReservationHorizon = defaultFleetFetchReservationHorizon,
       LeaseLifetime = defaultFleetFetchLeaseLifetime,
       RestartQuietPeriod = defaultFleetFetchLeaseLifetime\<rparr> startedAt"

text \<open>The list element that the map entry points to is taken out of the rotation.\<close>

definition removeWaitingLocked ::
  "fleetFetchStartSchedule \<Rightarrow> fleetFetchSessionIdentity \<Rightarrow> fleetFetchStartSchedule" where
  "removeWaitingLocked s identity = (case map_of (sc_waiting s) identity of
     None \<Rightarrow> s
   | Some waiting \<Rightarrow> s\<lparr>sc_waitingRotation := remove1 waiting (sc_waitingRotation s),
       sc_waiting := AList.delete identity (sc_waiting s)\<rparr>)"

definition ActivateSession ::
  "fleetFetchStartSchedule \<Rightarrow> string \<Rightarrow> string \<Rightarrow> fleetFetchStartSchedule \<times> fetch_error option" where
  "ActivateSession s workerID workerSessionID =
     (if \<not> validCrawlerLeaseIdentity workerID workerSessionID
      then (s, Some errFleetFetchRequestInvalid)
      else case map_of (sc_activeSessions s) workerID of
        Some activeSessionID \<Rightarrow>
          if activeSessionID = workerSessionID then (s, None)
          else (s, Some errFleetFetchSessionActive)
      | None \<Rightarrow>
          (s\<lparr>sc_activeSessions := AList.update workerID workerSessionID (sc_activeSessions s)\<rparr>, None))"

definition replaceSession ::
  "fleetFetchStartSchedule \<Rightarrow> string \<Rightarrow> string \<Rightarrow> fleetFetchStartSchedule" where
  "replaceSession s workerID workerSessionID =
     (let previousSessionID = get_or [] (sc_activeSessions s) workerID;
          s = (if previousSessionID \<noteq> [] \<and> previousSessionID \<noteq> workerSessionID
               then removeWaitingLocked
                      (s\<lparr>sc_leases := AList.delete (workerID, previousSessionID) (sc_leases s)\<rparr>)
                      (workerID, previousSessionID)
               else s)
      in s\<lparr>sc_activeSessions := AList.update workerID workerSessionID (sc_activeSessions s)\<rparr>)"

definition DeactivateSession ::
  "fleetFetchStartSchedule \<Rightarrow> string \<Rightarrow> string \<Rightarrow> fleetFetchStartSchedule \<times> bool" where
  "DeactivateSession s workerID workerSessionID =
     (if \<not> validCrawlerLeaseIdentity workerID workerSessionID then (s, False)
      else if get_or [] (sc_activeSessions s) workerID \<noteq> workerSessionID then (s, False)
      else (removeWaitingLocked
              (s\<lparr>sc_activeSessions := AList.delete workerID (sc_activeSessions s),
                 sc_leases := AList.delete (workerID, workerSessionID) (sc_leases s)\<rparr>)
              (workerID, workerSessionID), True))"

definition validFleetFetchStartPermitDeliveryAllowance :: "duration \<Rightarrow> bool" where
  "validFleetFetchStartPermitDeliveryAllowance allowance \<longleftrightarrow>
     allowance \<ge> 0 \<and> allowance \<le> MaximumFetchStartPermitDeliveryAllowance"

definition fleetFetchStartPermitWindowWidth :: "duration \<Rightarrow> duration \<Rightarrow> duration" where
  "fleetFetchStartPermitWindowWidth interval deliveryAllowance = interval + deliveryAllowance"

definition fleetFetchStartLeaseExpiry :: "go_time \<Rightarrow> go_time \<Rightarrow> go_time" where
  "fleetFetchStartLeaseExpiry current finalPermitClosesAt =
     (if finalPermitClosesAt > current then finalPermitClosesAt else current)"

definition fleetFetchStartInterval :: "nat \<Rightarrow> duration" where
  "fleetFetchStartInterval pagesPerSecond =
     (let rate = int pagesPerSecond in (second + rate - 1) div rate)"

definition validRequestLocked :: "fleetFetchStartSchedule \<Rightarrow> fleetFetchStartLeaseRequest \<Rightarrow> bool" where
  "validRequestLocked s r \<longleftrightarrow>
     validCrawlerLeaseIdentity (rq_WorkerID r) (rq_WorkerSessionID r) \<and> rq_Sequence r > 0 \<and>
     rq_MaximumPermits r > 0 \<and> rq_MaximumPermits r \<le> MaximumLeasePermits (sc_policy s) \<and>
     validFleetFetchStartPermitDeliveryAllowance (rq_PermitDeliveryAllowance r)"

definition sessionCurrentLocked :: "fleetFetchStartSchedule \<Rightarrow> fleetFetchSessionIdentity \<Rightarrow> bool" where
  "sessionCurrentLocked s identity \<longleftrightarrow>
     get_or [] (sc_activeSessions s) (fst identity) = snd identity"

text \<open>A lease that has expired stops being outstanding when it is looked at.\<close>

definition existingLeaseLocked ::
  "fleetFetchStartSchedule \<Rightarrow> fleetFetchSessionIdentity \<Rightarrow> nat \<Rightarrow> go_time \<Rightarrow>
     fleetFetchStartSchedule \<times> (fetch_error, fleetFetchStartDecision option) result" where
  "existingLeaseLocked s identity sequence now = (case map_of (sc_leases s) identity of
     None \<Rightarrow> (s, Inr None)
   | Some rec \<Rightarrow>
       let expired = lr_outstanding rec \<and> \<not> le_ExpiresAt (lr_lease rec) > now;
           rec = (if expired then rec\<lparr>lr_outstanding := False\<rparr> else rec);
           s = (if expired then s\<lparr>sc_leases := AList.update identity rec (sc_leases s)\<rparr> else s)
       in if sequence < le_Sequence (lr_lease rec) then (s, Inl errFleetFetchSequenceStale)
          else if sequence = le_Sequence (lr_lease rec)
          then (s, Inr (Some \<lparr>de_Lease = lr_lease rec, de_Granted = True, de_RetryAt = 0,
                 de_ServerObservedAt = now\<rparr>))
          else if lr_outstanding rec then (s, Inl errFleetFetchLeaseOutstanding)
          else (s, Inr None))"

text \<open>The loop that adds permits while they open within the horizon; the fuel is the number of
  permits that the request may still get.\<close>

fun more_permits :: "nat \<Rightarrow> nat \<Rightarrow> go_time \<Rightarrow> duration \<Rightarrow> go_time \<Rightarrow> nat" where
  "more_permits 0 permits firstAt interval latest = permits"
| "more_permits (Suc n) permits firstAt interval latest =
     (if \<not> firstAt + int permits * interval > latest
      then more_permits n (permits + 1) firstAt interval latest else permits)"

definition nextLeaseLocked ::
  "fleetFetchStartSchedule \<Rightarrow> go_time \<Rightarrow> fleetFetchStartLeaseRequest \<Rightarrow>
     (fleetFetchStartSchedule \<times> fleetFetchStartLease) option" where
  "nextLeaseLocked s now r =
     (let lease = zero_lease\<lparr>le_WorkerID := rq_WorkerID r, le_WorkerSessionID := rq_WorkerSessionID r,
            le_Sequence := rq_Sequence r, le_ExpiresAt := now + LeaseLifetime (sc_policy s),
            le_PolicyGeneration := sc_policyGeneration s\<rparr>
      in if PagesPerSecond (sc_policy s) = 0
         then Some (s, lease\<lparr>le_Permits := rq_MaximumPermits r, le_Unlimited := True\<rparr>)
         else
           let interval = fleetFetchStartInterval (PagesPerSecond (sc_policy s));
               first = now;
               first = (if sc_quietUntil s > first then sc_quietUntil s else first);
               first = (if sc_nextPermitAt s > first then sc_nextPermitAt s else first);
               latest = now + ReservationHorizon (sc_policy s)
           in if first > latest then None
              else
                let permits = more_permits (rq_MaximumPermits r - 1) 1 first interval latest;
                    window = fleetFetchStartPermitWindowWidth
                      (min (ReservationHorizon (sc_policy s)) interval)
                      (rq_PermitDeliveryAllowance r);
                    lastAt = first + int (permits - 1) * interval;
                    nextAt = lastAt + max interval window
                in Some (s\<lparr>sc_lastPermitAt := lastAt, sc_nextPermitAt := nextAt\<rparr>,
                     lease\<lparr>le_Permits := permits, le_FirstPermitAt := first,
                       le_PermitInterval := interval, le_PermitStartWindow := window,
                       le_ExpiresAt := fleetFetchStartLeaseExpiry (le_ExpiresAt lease) nextAt\<rparr>))"

definition request_identity :: "fleetFetchStartLeaseRequest \<Rightarrow> fleetFetchSessionIdentity" where
  "request_identity r = (rq_WorkerID r, rq_WorkerSessionID r)"

text \<open>The loop over the rotation ends when the rotation is empty or its front has to wait. It has
  fuel; None is the lack of it.\<close>

fun dispatch_loop :: "nat \<Rightarrow> fleetFetchStartSchedule \<Rightarrow> go_time \<Rightarrow> fleetFetchStartSchedule option" where
  "dispatch_loop 0 s now = None"
| "dispatch_loop (Suc n) s now = (case sc_waitingRotation s of
     [] \<Rightarrow> Some s
   | waiting # rest \<Rightarrow>
       (case nextLeaseLocked s now waiting of
          None \<Rightarrow> Some s
        | Some (s, lease) \<Rightarrow>
            let s = removeWaitingLocked s (request_identity waiting)
            in dispatch_loop n
                 (s\<lparr>sc_leases := AList.update (request_identity waiting)
                      \<lparr>lr_lease = lease, lr_outstanding = True\<rparr> (sc_leases s)\<rparr>) now))"

definition dispatchLocked ::
  "fleetFetchStartSchedule \<Rightarrow> go_time \<Rightarrow> fleetFetchStartSchedule option" where
  "dispatchLocked s now = dispatch_loop (Suc (length (sc_waitingRotation s))) s now"

definition retryAtLocked :: "fleetFetchStartSchedule \<Rightarrow> go_time" where
  "retryAtLocked s =
     (let firstPermitAt = sc_nextPermitAt s;
          firstPermitAt = (if sc_quietUntil s > firstPermitAt then sc_quietUntil s else firstPermitAt)
      in firstPermitAt - ReservationHorizon (sc_policy s))"

definition enqueue_request ::
  "fleetFetchStartSchedule \<Rightarrow> fleetFetchStartLeaseRequest \<Rightarrow> fleetFetchStartSchedule" where
  "enqueue_request s r =
     s\<lparr>sc_waitingRotation := sc_waitingRotation s @ [r],
       sc_waiting := AList.update (request_identity r) r (sc_waiting s)\<rparr>"

text \<open>The first half of a lease request: it is refused, or answered with the lease that it was
  given before, or (Inr None) it waits in the rotation.\<close>

definition lease_admission ::
  "fleetFetchStartSchedule \<Rightarrow> go_time \<Rightarrow> fleetFetchStartLeaseRequest \<Rightarrow>
     fleetFetchStartSchedule \<times> (fetch_error, fleetFetchStartDecision option) result" where
  "lease_admission s now r =
     (let identity = request_identity r
      in if \<not> validRequestLocked s r then (s, Inl errFleetFetchRequestInvalid)
         else if \<not> sessionCurrentLocked s identity then (s, Inl errFleetFetchSessionStale)
         else case existingLeaseLocked s identity (rq_Sequence r) now of
           (s, Inl e) \<Rightarrow> (s, Inl e)
         | (s, Inr (Some decision)) \<Rightarrow> (s, Inr (Some decision))
         | (s, Inr None) \<Rightarrow>
             (case map_of (sc_waiting s) identity of
                Some waiting \<Rightarrow>
                  if rq_Sequence waiting \<noteq> rq_Sequence r then (s, Inl errFleetFetchLeaseOutstanding)
                  else (s, Inr None)
              | None \<Rightarrow> (enqueue_request s r, Inr None)))"

definition waiting_decision :: "fleetFetchStartSchedule \<Rightarrow> go_time \<Rightarrow> fleetFetchStartDecision" where
  "waiting_decision s now =
     \<lparr>de_Lease = zero_lease\<lparr>le_PolicyGeneration := sc_policyGeneration s\<rparr>,
      de_Granted = False, de_RetryAt = retryAtLocked s, de_ServerObservedAt = now\<rparr>"

definition Lease ::
  "fleetFetchStartSchedule \<Rightarrow> go_time \<Rightarrow> fleetFetchStartLeaseRequest \<Rightarrow>
     (fleetFetchStartSchedule \<times> (fetch_error, fleetFetchStartDecision) result) option" where
  "Lease s now r = (case lease_admission s now r of
     (s, Inl e) \<Rightarrow> Some (s, Inl e)
   | (s, Inr (Some decision)) \<Rightarrow> Some (s, Inr decision)
   | (s, Inr None) \<Rightarrow>
       (case dispatchLocked s now of
          None \<Rightarrow> None
        | Some s \<Rightarrow>
            (case existingLeaseLocked s (request_identity r) (rq_Sequence r) now of
               (s, Inl e) \<Rightarrow> Some (s, Inl e)
             | (s, Inr (Some decision)) \<Rightarrow> Some (s, Inr decision)
             | (s, Inr None) \<Rightarrow> Some (s, Inr (waiting_decision s now)))))"

definition PermitWindow :: "fleetFetchStartLease \<Rightarrow> nat \<Rightarrow> (go_time \<times> go_time) option" where
  "PermitWindow lease permitOrdinal =
     (if le_Unlimited lease \<or> permitOrdinal \<ge> le_Permits lease then None
      else
        let opensAt = le_FirstPermitAt lease + int permitOrdinal * le_PermitInterval lease
        in Some (opensAt, opensAt + le_PermitStartWindow lease))"

definition RelativePermitWindow ::
  "fleetFetchStartDecision \<Rightarrow> nat \<Rightarrow> (duration \<times> duration) option" where
  "RelativePermitWindow d permitOrdinal = (case PermitWindow (de_Lease d) permitOrdinal of
     None \<Rightarrow> None
   | Some (opensAt, closesAt) \<Rightarrow>
       if de_ServerObservedAt d = 0 \<or> \<not> closesAt > de_ServerObservedAt d then None
       else Some (time_sub opensAt (de_ServerObservedAt d), time_sub closesAt (de_ServerObservedAt d)))"

definition CompleteLease ::
  "fleetFetchStartSchedule \<Rightarrow> string \<Rightarrow> string \<Rightarrow> nat \<Rightarrow> fleetFetchStartSchedule \<times> fetch_error option" where
  "CompleteLease s workerID workerSessionID sequence =
     (if \<not> validCrawlerLeaseIdentity workerID workerSessionID \<or> sequence = 0
      then (s, Some errFleetFetchRequestInvalid)
      else if \<not> sessionCurrentLocked s (workerID, workerSessionID)
      then (s, Some errFleetFetchSessionStale)
      else case map_of (sc_leases s) (workerID, workerSessionID) of
        None \<Rightarrow> (s, Some errFleetFetchLeaseNotFound)
      | Some rec \<Rightarrow>
          if le_Sequence (lr_lease rec) < sequence
          then (s, Some errFleetFetchLeaseSequenceMismatch)
          else if le_Sequence (lr_lease rec) > sequence then (s, None)
          else (s\<lparr>sc_leases := AList.update (workerID, workerSessionID)
                   (rec\<lparr>lr_outstanding := False\<rparr>) (sc_leases s)\<rparr>, None))"

text \<open>The new rate, and the earliest time of the next permit that it asks for.\<close>

definition set_rate :: "fleetFetchStartSchedule \<Rightarrow> go_time \<Rightarrow> nat \<Rightarrow> fleetFetchStartSchedule" where
  "set_rate s now pagesPerSecond =
     (let previous = PagesPerSecond (sc_policy s);
          s = s\<lparr>sc_policy := (sc_policy s)\<lparr>PagesPerSecond := pagesPerSecond\<rparr>,
                sc_policyGeneration := (sc_policyGeneration s + 1) mod 2 ^ 64\<rparr>
      in if pagesPerSecond > 0 then
           let interval = fleetFetchStartInterval pagesPerSecond;
               minimum = (if previous = 0 then now + interval
                 else if sc_lastPermitAt s \<noteq> 0 then sc_lastPermitAt s + interval else now)
           in if sc_nextPermitAt s < minimum then s\<lparr>sc_nextPermitAt := minimum\<rparr> else s
         else s)"

definition SetPagesPerSecond ::
  "fleetFetchStartSchedule \<Rightarrow> go_time \<Rightarrow> nat \<Rightarrow> (fleetFetchStartSchedule \<times> fetch_error option) option" where
  "SetPagesPerSecond s now pagesPerSecond =
     (if pagesPerSecond > MaximumProcessPagesPerSecond then Some (s, Some errFleetFetchPolicyInvalid)
      else if PagesPerSecond (sc_policy s) = pagesPerSecond then Some (s, None)
      else map_option (\<lambda>s. (s, None)) (dispatchLocked (set_rate s now pagesPerSecond) now))"

definition Snapshot :: "fleetFetchStartSchedule \<Rightarrow> go_time \<Rightarrow> fleetFetchStartSnapshot" where
  "Snapshot s now =
     \<lparr>sn_PagesPerSecond = PagesPerSecond (sc_policy s), sn_PolicyGeneration = sc_policyGeneration s,
      sn_ActiveSessionTotal = length (sc_activeSessions s),
      sn_OutstandingLeaseTotal = length (filter
        (\<lambda>(i, rec). lr_outstanding rec \<and> le_ExpiresAt (lr_lease rec) > now) (sc_leases s)),
      sn_WaitingSessionTotal = length (sc_waitingRotation s), sn_NextPermitAt = sc_nextPermitAt s,
      sn_QuietUntil = sc_quietUntil s\<rparr>"

section \<open>The endpoint\<close>

text \<open>The request and the answer of the remote call; a completed sequence is optional.\<close>

record FetchStartLeaseRequest =
  fr_WorkerId :: string
  fr_WorkerSessionId :: string
  fr_Sequence :: nat
  fr_MaximumPermits :: nat
  fr_PermitDeliveryAllowanceNanoseconds :: nat
  fr_CompletedSequence :: "nat option"

record FetchStartLeaseDecision =
  fd_Granted :: bool
  fd_Sequence :: nat
  fd_PolicyGeneration :: nat
  fd_Unlimited :: bool
  fd_Permits :: nat
  fd_RetryAfterNanoseconds :: int
  fd_FirstPermitOpensAfterNanoseconds :: int
  fd_FirstPermitClosesAfterNanoseconds :: int
  fd_PermitIntervalNanoseconds :: int

datatype status_code = InvalidArgument | FailedPrecondition | Internal

definition fleetFetchStartStatus :: "fetch_error \<Rightarrow> status_code" where
  "fleetFetchStartStatus e =
     (if e = errFleetFetchRequestInvalid then InvalidArgument
      else if e \<in> {errFleetFetchSessionStale, errFleetFetchLeaseOutstanding,
        errFleetFetchSequenceStale, errFleetFetchLeaseNotFound, errFleetFetchLeaseSequenceMismatch}
      then FailedPrecondition
      else Internal)"

text \<open>The loop that skips the permits whose window has closed; n permits are left to look at.\<close>

fun first_open_permit :: "fleetFetchStartDecision \<Rightarrow> nat \<Rightarrow> nat \<Rightarrow> (nat \<times> duration \<times> duration) option" where
  "first_open_permit d 0 permitOrdinal = None"
| "first_open_permit d (Suc n) permitOrdinal = (case RelativePermitWindow d permitOrdinal of
     None \<Rightarrow> first_open_permit d n (permitOrdinal + 1)
   | Some (opensAfter, closesAfter) \<Rightarrow> Some (permitOrdinal, opensAfter, closesAfter))"

definition lease_response :: "nat \<Rightarrow> fleetFetchStartDecision \<Rightarrow> FetchStartLeaseDecision" where
  "lease_response sequence d =
     (let response = \<lparr>fd_Granted = de_Granted d, fd_Sequence = sequence,
            fd_PolicyGeneration = le_PolicyGeneration (de_Lease d),
            fd_Unlimited = le_Unlimited (de_Lease d), fd_Permits = 0, fd_RetryAfterNanoseconds = 0,
            fd_FirstPermitOpensAfterNanoseconds = 0, fd_FirstPermitClosesAfterNanoseconds = 0,
            fd_PermitIntervalNanoseconds = 0\<rparr>
      in if \<not> de_Granted d
         then response\<lparr>fd_RetryAfterNanoseconds :=
                max 0 (time_sub (de_RetryAt d) (de_ServerObservedAt d))\<rparr>
         else if le_Unlimited (de_Lease d)
         then response\<lparr>fd_Permits := le_Permits (de_Lease d)\<rparr>
         else case first_open_permit d (le_Permits (de_Lease d)) 0 of
           None \<Rightarrow> response
         | Some (permitOrdinal, opensAfter, closesAfter) \<Rightarrow>
             response\<lparr>fd_Permits := le_Permits (de_Lease d) - permitOrdinal,
               fd_FirstPermitOpensAfterNanoseconds := opensAfter,
               fd_FirstPermitClosesAfterNanoseconds := closesAfter,
               fd_PermitIntervalNanoseconds := le_PermitInterval (de_Lease d)\<rparr>)"

definition lease_and_respond ::
  "fleetFetchStartSchedule \<Rightarrow> go_time \<Rightarrow> FetchStartLeaseRequest \<Rightarrow>
     (fleetFetchStartSchedule \<times> (status_code, FetchStartLeaseDecision) result) option" where
  "lease_and_respond s now r =
     (if fr_PermitDeliveryAllowanceNanoseconds r > nat MaximumFetchStartPermitDeliveryAllowance
      then Some (s, Inl (fleetFetchStartStatus errFleetFetchRequestInvalid))
      else (case Lease s now \<lparr>rq_WorkerID = fr_WorkerId r, rq_WorkerSessionID = fr_WorkerSessionId r,
          rq_Sequence = fr_Sequence r, rq_MaximumPermits = fr_MaximumPermits r,
          rq_PermitDeliveryAllowance = int (fr_PermitDeliveryAllowanceNanoseconds r)\<rparr> of
        None \<Rightarrow> None
      | Some (s, Inl e) \<Rightarrow> Some (s, Inl (fleetFetchStartStatus e))
      | Some (s, Inr d) \<Rightarrow> Some (s, Inr (lease_response (fr_Sequence r) d))))"

definition complete_and_respond ::
  "fleetFetchStartSchedule \<Rightarrow> go_time \<Rightarrow> FetchStartLeaseRequest \<Rightarrow>
     (fleetFetchStartSchedule \<times> (status_code, FetchStartLeaseDecision) result) option" where
  "complete_and_respond s now r = (case fr_CompletedSequence r of
     None \<Rightarrow> lease_and_respond s now r
   | Some completed \<Rightarrow>
       (case CompleteLease s (fr_WorkerId r) (fr_WorkerSessionId r) completed of
          (s, Some e) \<Rightarrow> Some (s, Inl (fleetFetchStartStatus e))
        | (s, None) \<Rightarrow> lease_and_respond s now r))"

text \<open>The call itself, on a server that may have no schedule and with a request that may be nil.\<close>

definition LeaseFetchStarts ::
  "fleetFetchStartSchedule option \<Rightarrow> go_time \<Rightarrow> FetchStartLeaseRequest option \<Rightarrow>
     (fleetFetchStartSchedule option \<times> (status_code, FetchStartLeaseDecision) result) option" where
  "LeaseFetchStarts fetchStarts now request = (case fetchStarts of
     None \<Rightarrow> Some (None, Inl FailedPrecondition)
   | Some s \<Rightarrow> (case request of
       None \<Rightarrow> Some (Some s, Inl InvalidArgument)
     | Some r \<Rightarrow> map_option (\<lambda>(s, response). (Some s, response)) (complete_and_respond s now r)))"

end
