(* ===== verification/FetchPace.thy ===== *)
theory FetchPace
  imports FetchSchedule
begin

text \<open>
  What the fetch-start schedule promises. The requests that wait are kept consistently, so that
  the loop over them ends; sessions that are not current hold neither a lease nor a place; the
  permits of all leases together respect the rate, their windows do not overlap from lease to
  lease, and none opens in the quiet period after a start; a request is answered again with the
  same lease; the request at the front is served once its retry time has come.
\<close>

section \<open>The interval\<close>

lemma interval_covers:
  assumes "0 < r"
  shows "second \<le> int r * fleetFetchStartInterval r"
proof -
  let ?n = "second + int r - 1"
  have "int r * (?n div int r) + ?n mod int r = ?n" by (rule mult_div_mod_eq)
  moreover have "?n mod int r < int r" using assms by simp
  ultimately have "second \<le> int r * (?n div int r)" by linarith
  then show ?thesis by (simp only: fleetFetchStartInterval_def Let_def)
qed

lemma interval_positive: "0 < r \<Longrightarrow> 0 < fleetFetchStartInterval r"
  by (simp add: fleetFetchStartInterval_def Let_def second_def pos_imp_zdiv_pos_iff)

lemma interval_antimono:
  assumes "0 < p" "p \<le> r"
  shows "fleetFetchStartInterval r \<le> fleetFetchStartInterval p"
proof -
  have i: "fleetFetchStartInterval n = (second - 1) div int n + 1" if "0 < n" for n
  proof -
    have e: "second + int n - 1 = second - 1 + int n" by simp
    have "int n \<noteq> 0" using that by simp
    then have "(second - 1 + int n) div int n = (second - 1) div int n + 1" by (rule div_add_self2)
    with e show ?thesis by (simp only: fleetFetchStartInterval_def Let_def)
  qed
  have "(second - 1) div int r \<le> (second - 1) div int p"
    using assms by (intro zdiv_mono2) (simp_all add: second_def)
  with i assms show ?thesis by simp
qed

section \<open>A single lease\<close>

lemma more_permits_bounds:
  "first + (int permits - 1) * interval \<le> latest \<Longrightarrow> 0 < permits \<Longrightarrow> 0 < interval \<Longrightarrow>
     permits \<le> more_permits n permits first interval latest \<and>
     more_permits n permits first interval latest \<le> permits + n \<and>
     first + (int (more_permits n permits first interval latest) - 1) * interval \<le> latest"
proof (induction n arbitrary: permits)
  case (Suc n)
  show ?case
  proof (cases "first + int permits * interval > latest")
    case False
    then show ?thesis using Suc.IH [of "permits + 1"] Suc.prems by simp
  qed (use Suc.prems in simp)
qed simp

text \<open>What a granted lease looks like, and what granting it changes.\<close>

lemma nextLease_limited:
  assumes "nextLeaseLocked s now r = Some (s', lease)" "PagesPerSecond (sc_policy s) \<noteq> 0"
    "0 < rq_MaximumPermits r"
  shows "0 < le_Permits lease \<and> le_Permits lease \<le> rq_MaximumPermits r \<and> \<not> le_Unlimited lease \<and>
    le_PermitInterval lease = fleetFetchStartInterval (PagesPerSecond (sc_policy s)) \<and>
    le_PermitStartWindow lease = min (ReservationHorizon (sc_policy s)) (le_PermitInterval lease) +
      rq_PermitDeliveryAllowance r \<and>
    le_FirstPermitAt lease = max now (max (sc_quietUntil s) (sc_nextPermitAt s)) \<and>
    le_FirstPermitAt lease + (int (le_Permits lease) - 1) * le_PermitInterval lease
      \<le> now + ReservationHorizon (sc_policy s) \<and>
    sc_nextPermitAt s' = le_FirstPermitAt lease + (int (le_Permits lease) - 1) * le_PermitInterval lease +
      max (le_PermitInterval lease) (le_PermitStartWindow lease) \<and>
    le_ExpiresAt lease = max (now + LeaseLifetime (sc_policy s)) (sc_nextPermitAt s')"
proof -
  define i where "i = fleetFetchStartInterval (PagesPerSecond (sc_policy s))"
  define first where "first = max now (max (sc_quietUntil s) (sc_nextPermitAt s))"
  define latest where "latest = now + ReservationHorizon (sc_policy s)"
  define permits where "permits = more_permits (rq_MaximumPermits r - 1) 1 first i latest"
  have i: "0 < i" using assms(2) by (simp add: interval_positive i_def)
  have f: "(if sc_nextPermitAt s > (if sc_quietUntil s > now then sc_quietUntil s else now)
      then sc_nextPermitAt s else (if sc_quietUntil s > now then sc_quietUntil s else now)) = first"
    unfolding first_def by simp
  note def = assms(1) [unfolded nextLeaseLocked_def Let_def f, folded i_def latest_def,
      folded permits_def]
  have le: "first \<le> latest" using def assms(2) by (auto split: if_split_asm)
  have m: "1 \<le> permits \<and> permits \<le> 1 + (rq_MaximumPermits r - 1) \<and>
      first + (int permits - 1) * i \<le> latest"
    using more_permits_bounds [of first 1 i latest "rq_MaximumPermits r - 1"] i le
    by (simp add: permits_def)
  then have p: "int (permits - 1) = int permits - 1" "0 < permits" "permits \<le> rq_MaximumPermits r"
    using assms(3) by auto
  show ?thesis
    using def assms(2) m p le unfolding i_def [symmetric] first_def [symmetric] latest_def [symmetric]
    by (auto simp: zero_lease_def fleetFetchStartPermitWindowWidth_def fleetFetchStartLeaseExpiry_def
        split: if_split_asm)
qed

lemma nextLease_frame:
  "nextLeaseLocked s now r = Some (s', lease) \<Longrightarrow>
     sc_policy s' = sc_policy s \<and> sc_policyGeneration s' = sc_policyGeneration s \<and>
     sc_quietUntil s' = sc_quietUntil s \<and> sc_activeSessions s' = sc_activeSessions s \<and>
     sc_leases s' = sc_leases s \<and> sc_waiting s' = sc_waiting s \<and>
     sc_waitingRotation s' = sc_waitingRotation s \<and>
     le_WorkerID lease = rq_WorkerID r \<and> le_WorkerSessionID lease = rq_WorkerSessionID r \<and>
     le_Sequence lease = rq_Sequence r \<and> (le_Unlimited lease \<longleftrightarrow> PagesPerSecond (sc_policy s) = 0)"
  by (auto simp: nextLeaseLocked_def Let_def zero_lease_def split: if_split_asm)

section \<open>The invariant\<close>

definition waiting_inv :: "fleetFetchStartSchedule \<Rightarrow> bool" where
  "waiting_inv s \<longleftrightarrow> wf_map (sc_waiting s) \<and>
     distinct (map request_identity (sc_waitingRotation s)) \<and>
     (\<forall>i r. map_of (sc_waiting s) i = Some r \<longleftrightarrow> r \<in> set (sc_waitingRotation s) \<and> request_identity r = i) \<and>
     (\<forall>r\<in>set (sc_waitingRotation s). validRequestLocked s r)"

definition sessions_inv :: "fleetFetchStartSchedule \<Rightarrow> bool" where
  "sessions_inv s \<longleftrightarrow> wf_map (sc_activeSessions s) \<and> wf_map (sc_leases s) \<and>
     (\<forall>i\<in>set (map_keys (sc_leases s)) \<union> set (map_keys (sc_waiting s)).
        snd i \<noteq> [] \<and> sessionCurrentLocked s i)"

definition schedule_inv :: "fleetFetchStartSchedule \<Rightarrow> bool" where
  "schedule_inv s \<longleftrightarrow> validFleetFetchStartPolicy (sc_policy s) \<and> waiting_inv s \<and> sessions_inv s"

lemmas schedule_inv_defs = schedule_inv_def waiting_inv_def sessions_inv_def

lemma waiting_invD:
  "waiting_inv s \<Longrightarrow> map_of (sc_waiting s) i = Some r \<longleftrightarrow>
     r \<in> set (sc_waitingRotation s) \<and> request_identity r = i"
  unfolding waiting_inv_def by blast

text \<open>Removing a waiting request keeps the map and the rotation in step.\<close>

lemma removeWaiting_fields [simp]:
  "sc_policy (removeWaitingLocked s i) = sc_policy s"
  "sc_activeSessions (removeWaitingLocked s i) = sc_activeSessions s"
  "sc_leases (removeWaitingLocked s i) = sc_leases s"
  "sc_nextPermitAt (removeWaitingLocked s i) = sc_nextPermitAt s"
  "sc_lastPermitAt (removeWaitingLocked s i) = sc_lastPermitAt s"
  "sc_quietUntil (removeWaitingLocked s i) = sc_quietUntil s"
  "sc_policyGeneration (removeWaitingLocked s i) = sc_policyGeneration s"
  by (simp_all add: removeWaitingLocked_def split: option.splits)

lemma removeWaiting_inv:
  assumes "waiting_inv s"
  shows "waiting_inv (removeWaitingLocked s i) \<and>
    map_of (sc_waiting (removeWaitingLocked s i)) = (map_of (sc_waiting s))(i := None) \<and>
    sc_waitingRotation (removeWaitingLocked s i) =
      filter (\<lambda>r. request_identity r \<noteq> i) (sc_waitingRotation s)"
proof (cases "map_of (sc_waiting s) i")
  case None
  then have "\<forall>r\<in>set (sc_waitingRotation s). request_identity r \<noteq> i"
    using waiting_invD [OF assms, of i] by auto
  moreover have "removeWaitingLocked s i = s" using None by (simp add: removeWaitingLocked_def)
  ultimately show ?thesis using assms None by (simp add: fun_upd_idem)
next
  case (Some w)
  have w: "w \<in> set (sc_waitingRotation s)" "request_identity w = i"
    and d: "distinct (map request_identity (sc_waitingRotation s))"
    using assms Some waiting_invD [OF assms] by (simp_all add: waiting_inv_def)
  have r: "remove1 w (sc_waitingRotation s) = filter (\<lambda>r. request_identity r \<noteq> i) (sc_waitingRotation s)"
    using w d
  proof (induction "sc_waitingRotation s" arbitrary: s)
    case (Cons a xs)
    have IH: "w \<in> set xs \<Longrightarrow> remove1 w xs = filter (\<lambda>r. request_identity r \<noteq> i) xs"
      using Cons.hyps(1) [of "s\<lparr>sc_waitingRotation := xs\<rparr>"] Cons.prems Cons.hyps(2) by (cases "sc_waitingRotation s") auto
    show ?case
    proof (cases "a = w")
      case True
      then have "\<forall>r\<in>set xs. request_identity r \<noteq> i"
        using Cons.prems Cons.hyps(2) [symmetric] by (auto simp: image_iff)
      with True Cons.hyps(2) [symmetric] Cons.prems show ?thesis by simp
    next
      case False
      then show ?thesis using IH Cons.prems Cons.hyps(2) [symmetric] by (auto simp: image_iff)
    qed
  qed simp
  have inj: "distinct (map request_identity (filter P (sc_waitingRotation s)))" for P
    using d by (simp add: distinct_map_filter)
  show ?thesis
    using assms Some r inj unfolding waiting_inv_def
    by (auto simp: removeWaitingLocked_def validRequestLocked_def)
qed

lemma enqueue_inv:
  assumes "waiting_inv s" "map_of (sc_waiting s) (request_identity r) = None" "validRequestLocked s r"
  shows "waiting_inv (enqueue_request s r)"
proof -
  have fresh: "\<forall>w\<in>set (sc_waitingRotation s). request_identity w \<noteq> request_identity r"
    using assms(2) waiting_invD [OF assms(1), of "request_identity r"] by auto
  have valid: "validRequestLocked (enqueue_request s r) w = validRequestLocked s w" for w
    by (simp add: validRequestLocked_def enqueue_request_def)
  have "map_of (sc_waiting (enqueue_request s r)) i = Some w \<longleftrightarrow>
      w \<in> set (sc_waitingRotation (enqueue_request s r)) \<and> request_identity w = i" for i w
    using fresh waiting_invD [OF assms(1), of i w] by (auto simp: enqueue_request_def)
  with assms fresh show ?thesis
    unfolding waiting_inv_def valid by (auto simp: enqueue_request_def)
qed

section \<open>Dispatching\<close>

definition grant_lease ::
  "fleetFetchStartSchedule \<Rightarrow> fleetFetchStartLeaseRequest \<Rightarrow> fleetFetchStartLease \<Rightarrow>
     fleetFetchStartSchedule" where
  "grant_lease s w lease = (removeWaitingLocked s (request_identity w))
     \<lparr>sc_leases := AList.update (request_identity w) \<lparr>lr_lease = lease, lr_outstanding = True\<rparr>
        (sc_leases s)\<rparr>"

text \<open>The dispatching loop as a relation, with the leases that it grants, in their order.\<close>

inductive dispatches ::
  "go_time \<Rightarrow> fleetFetchStartSchedule \<Rightarrow> fleetFetchStartLease list \<Rightarrow> fleetFetchStartSchedule \<Rightarrow> bool"
  for now where
  empty_rotation: "sc_waitingRotation s = [] \<Longrightarrow> dispatches now s [] s"
| front_waits: "sc_waitingRotation s = w # rest \<Longrightarrow> nextLeaseLocked s now w = None \<Longrightarrow>
     dispatches now s [] s"
| front_granted: "sc_waitingRotation s = w # rest \<Longrightarrow> nextLeaseLocked s now w = Some (s1, lease) \<Longrightarrow>
     dispatches now (grant_lease s1 w lease) leases s' \<Longrightarrow> dispatches now s (lease # leases) s'"

inductive_cases dispatches_cases: "dispatches now s leases s'"

fun dispatch_grants ::
  "nat \<Rightarrow> fleetFetchStartSchedule \<Rightarrow> go_time \<Rightarrow> fleetFetchStartLease list" where
  "dispatch_grants 0 s now = []"
| "dispatch_grants (Suc n) s now = (case sc_waitingRotation s of
     [] \<Rightarrow> []
   | w # rest \<Rightarrow> (case nextLeaseLocked s now w of
       None \<Rightarrow> []
     | Some (s1, lease) \<Rightarrow> lease # dispatch_grants n (grant_lease s1 w lease) now))"

lemma validRequest_cong:
  "sc_policy s = sc_policy s' \<Longrightarrow> validRequestLocked s r = validRequestLocked s' r"
  by (simp add: validRequestLocked_def)

lemma waiting_inv_cong:
  "sc_policy s = sc_policy s' \<Longrightarrow> sc_waiting s = sc_waiting s' \<Longrightarrow>
     sc_waitingRotation s = sc_waitingRotation s' \<Longrightarrow> waiting_inv s = waiting_inv s'"
  by (simp add: waiting_inv_def validRequestLocked_def)

lemma grant_lease_inv:
  assumes inv: "schedule_inv s" and rot: "sc_waitingRotation s = w # rest"
    and nl: "nextLeaseLocked s now w = Some (s1, lease)"
  shows "schedule_inv (grant_lease s1 w lease) \<and> sc_waitingRotation (grant_lease s1 w lease) = rest \<and>
    map_of (sc_leases (grant_lease s1 w lease)) =
      (map_of (sc_leases s))(request_identity w \<mapsto> \<lparr>lr_lease = lease, lr_outstanding = True\<rparr>)"
proof -
  note f = nextLease_frame [OF nl]
  have w: "waiting_inv s1" using inv f waiting_inv_cong [of s s1] by (simp add: schedule_inv_def)
  let ?i = "request_identity w"
  have "distinct (map request_identity (w # rest))" using inv rot by (simp add: schedule_inv_def waiting_inv_def)
  then have rest: "filter (\<lambda>r. request_identity r \<noteq> ?i) rest = rest"
    by (auto simp: image_iff intro!: filter_True)
  note r = removeWaiting_inv [OF w, of ?i]
  have rot': "sc_waitingRotation (grant_lease s1 w lease) = rest"
    using r f rot rest by (simp add: grant_lease_def)
  have w': "waiting_inv (grant_lease s1 w lease)"
    using r waiting_inv_cong [of "grant_lease s1 w lease" "removeWaitingLocked s1 ?i"]
    by (simp add: grant_lease_def)
  have "map_of (sc_waiting s) ?i = Some w"
    using inv rot waiting_invD [of s ?i w] by (simp add: schedule_inv_def)
  then have i: "?i \<in> set (map_keys (sc_waiting s))" by (auto simp: set_map_keys)
  have "sessions_inv (grant_lease s1 w lease)"
    using inv f r i unfolding schedule_inv_def sessions_inv_def sessionCurrentLocked_def
    by (auto simp: grant_lease_def set_map_keys)
  with w' rot' inv f show ?thesis by (simp add: schedule_inv_def grant_lease_def)
qed

text \<open>The fuel of the loop is enough, and the loop is the relation.\<close>

lemma dispatch_loop_total:
  "schedule_inv s \<Longrightarrow> length (sc_waitingRotation s) < n \<Longrightarrow>
     \<exists>s'. dispatch_loop n s now = Some s' \<and> dispatches now s (dispatch_grants n s now) s'"
proof (induction n arbitrary: s)
  case (Suc n)
  show ?case
  proof (cases "sc_waitingRotation s")
    case Nil
    then show ?thesis by (auto intro: empty_rotation)
  next
    case rot: (Cons w rest)
    show ?thesis
    proof (cases "nextLeaseLocked s now w")
      case None
      with rot show ?thesis by (auto intro: front_waits)
    next
      case (Some p)
      then obtain s1 lease where p: "nextLeaseLocked s now w = Some (s1, lease)" by (cases p) auto
      note g = grant_lease_inv [OF Suc.prems(1) rot p]
      have l: "sc_leases (removeWaitingLocked s1 (request_identity w)) = sc_leases s1" by simp
      have "dispatch_loop (Suc n) s now = dispatch_loop n (grant_lease s1 w lease) now"
        using rot p by (simp add: Let_def grant_lease_def)
      moreover have "dispatch_grants (Suc n) s now = lease # dispatch_grants n (grant_lease s1 w lease) now"
        using rot p by simp
      ultimately show ?thesis
        using Suc.IH [of "grant_lease s1 w lease"] g Suc.prems(2) rot front_granted [OF rot p] by fastforce
    qed
  qed
qed simp

lemma dispatches_inv:
  "dispatches now s leases s' \<Longrightarrow> schedule_inv s \<Longrightarrow>
     schedule_inv s' \<and> sc_policy s' = sc_policy s \<and> sc_quietUntil s' = sc_quietUntil s \<and>
     sc_policyGeneration s' = sc_policyGeneration s \<and> sc_activeSessions s' = sc_activeSessions s \<and>
     sc_waitingRotation s' = drop (length leases) (sc_waitingRotation s) \<and>
     (\<forall>i rec. map_of (sc_leases s') i = Some rec \<longrightarrow>
        map_of (sc_leases s) i = Some rec \<or> lr_lease rec \<in> set leases)"
proof (induction rule: dispatches.induct)
  case (front_granted s w rest s1 lease leases s')
  note f = nextLease_frame [OF front_granted(2)]
    and g = grant_lease_inv [OF front_granted(5,1,2)]
  have "sc_policy (grant_lease s1 w lease) = sc_policy s"
    "sc_quietUntil (grant_lease s1 w lease) = sc_quietUntil s"
    "sc_policyGeneration (grant_lease s1 w lease) = sc_policyGeneration s"
    "sc_activeSessions (grant_lease s1 w lease) = sc_activeSessions s"
    using f by (simp_all add: grant_lease_def)
  moreover have "map_of (sc_leases s) i = Some rec \<or> lr_lease rec \<in> set (lease # leases)"
    if "map_of (sc_leases s') i = Some rec" for i rec
  proof -
    have "map_of (sc_leases (grant_lease s1 w lease)) i = Some rec \<or> lr_lease rec \<in> set leases"
      using that front_granted(4) g by blast
    then show ?thesis using g by (auto split: if_split_asm)
  qed
  ultimately show ?case using front_granted(1,4) g by (simp del: split_paired_All)
qed auto

lemma dispatchLocked_total:
  assumes "schedule_inv s"
  obtains s' leases where "dispatchLocked s now = Some s'" "dispatches now s leases s'"
    "leases = dispatch_grants (Suc (length (sc_waitingRotation s))) s now" "schedule_inv s'"
    "sc_policy s' = sc_policy s" "sc_quietUntil s' = sc_quietUntil s"
  using dispatch_loop_total [OF assms, of "Suc (length (sc_waitingRotation s))" now] dispatches_inv assms
  by (auto simp: dispatchLocked_def)

section \<open>The operations\<close>

lemma existingLease_fields:
  "existingLeaseLocked s i n now = (s', res) \<Longrightarrow>
     (s' = s \<or> (\<exists>rec. map_of (sc_leases s) i = Some rec \<and>
        s' = s\<lparr>sc_leases := AList.update i (rec\<lparr>lr_outstanding := False\<rparr>) (sc_leases s)\<rparr>)) \<and>
     (\<forall>d. res = Inr (Some d) \<longrightarrow> (\<exists>rec. map_of (sc_leases s) i = Some rec \<and> de_Lease d = lr_lease rec \<and>
        le_Sequence (lr_lease rec) = n \<and> de_Granted d \<and> de_ServerObservedAt d = now))"
  by (auto simp: existingLeaseLocked_def Let_def split: option.splits if_splits)

lemma update_outstanding_inv:
  assumes "schedule_inv s" "map_of (sc_leases s) i = Some rec"
  shows "schedule_inv (s\<lparr>sc_leases := AList.update i rec' (sc_leases s)\<rparr>)"
  using assms waiting_inv_cong [of s "s\<lparr>sc_leases := AList.update i rec' (sc_leases s)\<rparr>"]
  unfolding schedule_inv_def sessions_inv_def sessionCurrentLocked_def
  by (auto simp: set_map_keys)

lemma existingLease_inv:
  "schedule_inv s \<Longrightarrow> existingLeaseLocked s i n now = (s', res) \<Longrightarrow>
     schedule_inv s' \<and> sc_policy s' = sc_policy s \<and> sc_waiting s' = sc_waiting s \<and>
     sc_waitingRotation s' = sc_waitingRotation s \<and> sc_activeSessions s' = sc_activeSessions s \<and>
     sc_nextPermitAt s' = sc_nextPermitAt s \<and> sc_quietUntil s' = sc_quietUntil s \<and>
     sc_lastPermitAt s' = sc_lastPermitAt s \<and> sc_policyGeneration s' = sc_policyGeneration s"
  using existingLease_fields [of s i n now s' res] update_outstanding_inv [of s i] by auto

lemma enqueue_schedule_inv:
  assumes "schedule_inv s" "map_of (sc_waiting s) (request_identity r) = None" "validRequestLocked s r"
    "sessionCurrentLocked s (request_identity r)"
  shows "schedule_inv (enqueue_request s r)"
proof -
  have "snd (request_identity r) \<noteq> []"
    using assms(3) lease_identity_nonempty by (auto simp: validRequestLocked_def request_identity_def)
  then have "sessions_inv (enqueue_request s r)"
    using assms unfolding schedule_inv_def sessions_inv_def sessionCurrentLocked_def
    by (auto simp: enqueue_request_def set_map_keys)
  then show ?thesis
    using assms enqueue_inv by (simp add: schedule_inv_def) (simp add: enqueue_request_def)
qed

lemma lease_admission_inv:
  assumes "schedule_inv s" "lease_admission s now r = (s', res)"
  shows "schedule_inv s' \<and> sc_policy s' = sc_policy s \<and> sc_nextPermitAt s' = sc_nextPermitAt s \<and>
    sc_quietUntil s' = sc_quietUntil s \<and> sc_activeSessions s' = sc_activeSessions s \<and>
    (\<forall>i rec. map_of (sc_leases s') i = Some rec \<longrightarrow>
       (\<exists>rec'. map_of (sc_leases s) i = Some rec' \<and> lr_lease rec = lr_lease rec')) \<and>
    (res = Inr None \<longrightarrow> (\<exists>w\<in>set (sc_waitingRotation s'). request_identity w = request_identity r \<and>
       rq_Sequence w = rq_Sequence r))"
proof (cases "validRequestLocked s r \<and> sessionCurrentLocked s (request_identity r)")
  case False
  then show ?thesis using assms by (auto simp: lease_admission_def Let_def split: if_split_asm)
next
  case True
  obtain s1 res1 where e: "existingLeaseLocked s (request_identity r) (rq_Sequence r) now = (s1, res1)"
    by (cases "existingLeaseLocked s (request_identity r) (rq_Sequence r) now")
  note i = existingLease_inv [OF assms(1) e] and f = existingLease_fields [OF e]
  have leases: "\<exists>rec'. map_of (sc_leases s) j = Some rec' \<and> lr_lease rec = lr_lease rec'"
    if "map_of (sc_leases s1) j = Some rec" for j rec
    using f that by (auto split: if_split_asm)
  have w1: "waiting_inv s1" using i by (simp add: schedule_inv_def)
  have enq: "schedule_inv (enqueue_request s1 r)" if "map_of (sc_waiting s1) (request_identity r) = None"
    using enqueue_schedule_inv [of s1 r] i that True
    by (simp add: validRequestLocked_def sessionCurrentLocked_def)
  have fields: "sc_policy (enqueue_request s1 r) = sc_policy s1 \<and>
      sc_nextPermitAt (enqueue_request s1 r) = sc_nextPermitAt s1 \<and>
      sc_quietUntil (enqueue_request s1 r) = sc_quietUntil s1 \<and>
      sc_activeSessions (enqueue_request s1 r) = sc_activeSessions s1 \<and>
      sc_leases (enqueue_request s1 r) = sc_leases s1 \<and> r \<in> set (sc_waitingRotation (enqueue_request s1 r))"
    by (simp add: enqueue_request_def)
  have there: "w \<in> set (sc_waitingRotation s1) \<and> request_identity w = request_identity r"
    if "map_of (sc_waiting s1) (request_identity r) = Some w" for w
    using waiting_invD [OF w1] that by simp
  from assms(2) True e consider
      e' where "res = Inl e'" "s' = s1"
    | d where "res = Inr (Some d)" "s' = s1"
    | w where "map_of (sc_waiting s1) (request_identity r) = Some w" "rq_Sequence w = rq_Sequence r"
        "res = Inr None" "s' = s1"
    | "map_of (sc_waiting s1) (request_identity r) = None" "res = Inr None" "s' = enqueue_request s1 r"
    by (auto simp: lease_admission_def Let_def split: option.split_asm sum.split_asm if_split_asm)
  then show ?thesis
  proof cases
    case 3
    then show ?thesis using i leases there by (auto simp del: split_paired_All)
  next
    case 4
    then show ?thesis using i leases enq fields by (auto simp del: split_paired_All)
  qed (use i leases in \<open>auto simp del: split_paired_All\<close>)
qed

datatype fetch_op = FActivate string string | FReplace string string | FDeactivate string string
  | FLease go_time fleetFetchStartLeaseRequest | FComplete string string nat | FRate go_time nat

text \<open>One operation on the schedule; None is an operation that does not return.\<close>

fun fetch_op_step :: "fleetFetchStartSchedule \<Rightarrow> fetch_op \<Rightarrow> fleetFetchStartSchedule option" where
  "fetch_op_step s (FActivate w i) = Some (fst (ActivateSession s w i))"
| "fetch_op_step s (FReplace w i) = Some (replaceSession s w i)"
| "fetch_op_step s (FDeactivate w i) = Some (fst (DeactivateSession s w i))"
| "fetch_op_step s (FLease now r) = map_option fst (Lease s now r)"
| "fetch_op_step s (FComplete w i n) = Some (fst (CompleteLease s w i n))"
| "fetch_op_step s (FRate now p) = map_option fst (SetPagesPerSecond s now p)"

text \<open>The leases that an operation grants, in the order in which it grants them.\<close>

fun op_grants :: "fleetFetchStartSchedule \<Rightarrow> fetch_op \<Rightarrow> fleetFetchStartLease list" where
  "op_grants s (FLease now r) = (case lease_admission s now r of
     (s1, Inr None) \<Rightarrow> dispatch_grants (Suc (length (sc_waitingRotation s1))) s1 now
   | _ \<Rightarrow> [])"
| "op_grants s (FRate now p) =
     (if p > MaximumProcessPagesPerSecond \<or> PagesPerSecond (sc_policy s) = p then []
      else let s1 = set_rate s now p
           in dispatch_grants (Suc (length (sc_waitingRotation s1))) s1 now)"
| "op_grants s _ = []"

fun run_grants :: "fleetFetchStartSchedule \<Rightarrow> fetch_op list \<Rightarrow> fleetFetchStartLease list" where
  "run_grants s [] = []"
| "run_grants s (e # es) = op_grants s e @
     (case fetch_op_step s e of None \<Rightarrow> [] | Some s' \<Rightarrow> run_grants s' es)"

definition fetch_step :: "fleetFetchStartSchedule option \<Rightarrow> fetch_op \<Rightarrow> fleetFetchStartSchedule option" where
  "fetch_step s e = (case s of None \<Rightarrow> None | Some s \<Rightarrow> fetch_op_step s e)"

definition fetch_ok :: "fleetFetchStartSchedule option \<Rightarrow> bool" where
  "fetch_ok s \<longleftrightarrow> (case s of None \<Rightarrow> False | Some s \<Rightarrow> schedule_inv s)"

lemma set_rate_inv:
  "schedule_inv s \<Longrightarrow> p \<le> MaximumProcessPagesPerSecond \<Longrightarrow>
     schedule_inv (set_rate s now p) \<and> sc_nextPermitAt s \<le> sc_nextPermitAt (set_rate s now p) \<and>
     sc_quietUntil (set_rate s now p) = sc_quietUntil s \<and>
     sc_policy (set_rate s now p) = (sc_policy s)\<lparr>PagesPerSecond := p\<rparr> \<and>
     sc_leases (set_rate s now p) = sc_leases s"
  by (simp add: set_rate_def Let_def schedule_inv_defs validFleetFetchStartPolicy_def
      sessionCurrentLocked_def validRequestLocked_def del: split_paired_All)

lemma new_schedule_inv:
  "newFleetFetchStartScheduleAt p t = Inr s \<Longrightarrow> schedule_inv s"
  by (auto simp: newFleetFetchStartScheduleAt_def schedule_inv_defs map_keys_def split: if_split_asm)

lemma Activate_inv:
  assumes "schedule_inv s"
  shows "schedule_inv (fst (ActivateSession s w i))"
proof (cases "validCrawlerLeaseIdentity w i \<and> map_of (sc_activeSessions s) w = None")
  case False
  then show ?thesis using assms by (auto simp: ActivateSession_def split: option.splits)
next
  case True
  let ?s = "s\<lparr>sc_activeSessions := AList.update w i (sc_activeSessions s)\<rparr>"
  have cur: "sessionCurrentLocked ?s j" if "snd j \<noteq> []" "sessionCurrentLocked s j" for j
    using that True by (auto simp: sessionCurrentLocked_def get_or_def split: option.splits)
  have "waiting_inv ?s" using assms waiting_inv_cong [of s ?s] by (simp add: schedule_inv_def)
  moreover have "sessions_inv ?s"
    using assms cur unfolding schedule_inv_def sessions_inv_def by simp
  ultimately have "schedule_inv ?s" using assms by (simp add: schedule_inv_def)
  with True show ?thesis by (simp add: ActivateSession_def)
qed

text \<open>Ending a session: its lease and its place go with it.\<close>

lemma end_session_inv:
  assumes "schedule_inv s"
    and "s' = removeWaitingLocked (s\<lparr>sc_leases := AList.delete (w, i) (sc_leases s)\<rparr>) (w, i)"
  shows "waiting_inv s' \<and> wf_map (sc_leases s') \<and> sc_policy s' = sc_policy s \<and>
    sc_activeSessions s' = sc_activeSessions s \<and>
    (\<forall>j\<in>set (map_keys (sc_leases s')) \<union> set (map_keys (sc_waiting s')).
       snd j \<noteq> [] \<and> sessionCurrentLocked s j \<and> j \<noteq> (w, i))"
proof -
  let ?s = "s\<lparr>sc_leases := AList.delete (w, i) (sc_leases s)\<rparr>"
  have "waiting_inv ?s" using assms waiting_inv_cong [of s ?s] by (simp add: schedule_inv_def)
  note r = removeWaiting_inv [OF this, of "(w, i)"]
  show ?thesis using assms r unfolding schedule_inv_def sessions_inv_def
    by (auto simp: set_map_keys)
qed

lemma replace_inv:
  assumes "schedule_inv s"
  shows "schedule_inv (replaceSession s w i)"
proof -
  let ?p = "get_or [] (sc_activeSessions s) w"
  let ?ended = "removeWaitingLocked (s\<lparr>sc_leases := AList.delete (w, ?p) (sc_leases s)\<rparr>) (w, ?p)"
  let ?s = "if ?p \<noteq> [] \<and> ?p \<noteq> i then ?ended else s"
  let ?r = "?s\<lparr>sc_activeSessions := AList.update w i (sc_activeSessions ?s)\<rparr>"
  note e = end_session_inv [OF assms refl, of w ?p]
  have eq: "replaceSession s w i = ?r" by (simp add: replaceSession_def Let_def)
  have w: "waiting_inv ?r"
    using assms e waiting_inv_cong [of ?r ?s] by (auto simp: schedule_inv_def)
  have fields: "sc_policy ?r = sc_policy s" "wf_map (sc_leases ?r)"
    "sc_activeSessions ?r = AList.update w i (sc_activeSessions s)"
    using assms e by (simp_all add: schedule_inv_def sessions_inv_def)
  have "snd j \<noteq> [] \<and> sessionCurrentLocked ?r j"
    if "j \<in> set (map_keys (sc_leases ?r)) \<union> set (map_keys (sc_waiting ?r))" for j
  proof -
    have j: "j \<in> set (map_keys (sc_leases ?s)) \<union> set (map_keys (sc_waiting ?s))" using that by simp
    have "snd j \<noteq> [] \<and> sessionCurrentLocked s j \<and> (?p \<noteq> [] \<and> ?p \<noteq> i \<longrightarrow> j \<noteq> (w, ?p))"
    proof (cases "?p \<noteq> [] \<and> ?p \<noteq> i")
      case True
      then show ?thesis using e j by auto
    next
      case False
      then have "?s = s" by (simp only: if_not_P if_False)
      then show ?thesis using assms j False unfolding schedule_inv_def sessions_inv_def by auto
    qed
    then show ?thesis using fields(3)
      by (cases j) (auto simp: sessionCurrentLocked_def get_or_update)
  qed
  then have "sessions_inv ?r"
    using fields assms unfolding schedule_inv_def sessions_inv_def by auto
  then show ?thesis using w fields assms unfolding eq schedule_inv_def by simp
qed

lemma deactivate_inv:
  assumes "schedule_inv s"
  shows "schedule_inv (fst (DeactivateSession s w i))"
proof (cases "validCrawlerLeaseIdentity w i \<and> get_or [] (sc_activeSessions s) w = i")
  case False
  then show ?thesis using assms by (auto simp: DeactivateSession_def)
next
  case True
  let ?ended = "removeWaitingLocked (s\<lparr>sc_leases := AList.delete (w, i) (sc_leases s)\<rparr>) (w, i)"
  let ?d = "removeWaitingLocked (s\<lparr>sc_activeSessions := AList.delete w (sc_activeSessions s),
      sc_leases := AList.delete (w, i) (sc_leases s)\<rparr>) (w, i)"
  note e = end_session_inv [OF assms refl, of w i]
  have d: "sc_waiting ?d = sc_waiting ?ended" "sc_waitingRotation ?d = sc_waitingRotation ?ended"
    "sc_leases ?d = sc_leases ?ended" "sc_policy ?d = sc_policy s"
    "sc_activeSessions ?d = AList.delete w (sc_activeSessions s)"
    by (simp_all add: removeWaitingLocked_def split: option.split)
  have w: "waiting_inv ?d" using e d waiting_inv_cong [of ?d ?ended] by simp
  have "snd j \<noteq> [] \<and> sessionCurrentLocked ?d j"
    if "j \<in> set (map_keys (sc_leases ?d)) \<union> set (map_keys (sc_waiting ?d))" for j
  proof -
    have "snd j \<noteq> [] \<and> sessionCurrentLocked s j \<and> j \<noteq> (w, i)" using e that d by simp
    then show ?thesis using d(5) True by (cases j) (auto simp: sessionCurrentLocked_def get_or_delete)
  qed
  then have "sessions_inv ?d"
    using d e assms unfolding schedule_inv_def sessions_inv_def by auto
  then show ?thesis using w d assms True unfolding schedule_inv_def
    by (simp add: DeactivateSession_def)
qed

lemma complete_inv:
  assumes "schedule_inv s"
  shows "schedule_inv (fst (CompleteLease s w i n))"
  using assms update_outstanding_inv [OF assms, of "(w, i)"]
  by (auto simp: CompleteLease_def split: option.splits)

lemma Lease_total:
  assumes "schedule_inv s"
  shows "\<exists>s' res. Lease s now r = Some (s', res) \<and> schedule_inv s'"
proof -
  obtain s1 a where a: "lease_admission s now r = (s1, a)" by (cases "lease_admission s now r")
  have i1: "schedule_inv s1" using lease_admission_inv [OF assms a] by simp
  obtain s2 where s2: "dispatchLocked s1 now = Some s2" "schedule_inv s2"
    by (rule dispatchLocked_total [OF i1])
  obtain s3 b where b: "existingLeaseLocked s2 (request_identity r) (rq_Sequence r) now = (s3, b)"
    by (cases "existingLeaseLocked s2 (request_identity r) (rq_Sequence r) now")
  have i3: "schedule_inv s3" using existingLease_inv [OF s2(2) b] by simp
  show ?thesis
    using a i1 s2 b i3 by (auto simp: Lease_def split: sum.split option.split)
qed

lemma SetRate_total:
  assumes "schedule_inv s"
  shows "\<exists>s' res. SetPagesPerSecond s now p = Some (s', res) \<and> schedule_inv s'"
proof (cases "p \<le> MaximumProcessPagesPerSecond")
  case True
  from set_rate_inv [OF assms this] have "schedule_inv (set_rate s now p)" by simp
  from dispatchLocked_total [OF this] obtain s' where
    "dispatchLocked (set_rate s now p) now = Some s'" "schedule_inv s'" by metis
  with assms show ?thesis by (simp add: SetPagesPerSecond_def)
next
  case False
  with assms show ?thesis by (simp add: SetPagesPerSecond_def)
qed

lemma fetch_op_total:
  assumes "schedule_inv s"
  shows "\<exists>s'. fetch_op_step s e = Some s' \<and> schedule_inv s'"
proof (cases e)
  case (FLease now r)
  then show ?thesis using Lease_total [OF assms, of now r] by auto
next
  case (FRate now p)
  then show ?thesis using SetRate_total [OF assms, of now p] by auto
qed (use Activate_inv [OF assms] replace_inv [OF assms] deactivate_inv [OF assms]
    complete_inv [OF assms] in auto)

lemma fetch_ok_step:
  assumes "fetch_ok s"
  shows "fetch_ok (fetch_step s e)"
proof -
  obtain a where "s = Some a" "schedule_inv a" using assms by (auto simp: fetch_ok_def split: option.splits)
  then show ?thesis using fetch_op_total [of a e] by (auto simp: fetch_ok_def fetch_step_def)
qed

interpretation fetch_schedule: invariant_machine fetch_step fetch_ok
  by unfold_locales (rule fetch_ok_step)

section \<open>The pace of the permits\<close>

text \<open>The times at which the permits of a lease open, and the time at which its last window
  closes; an unlimited lease has no windows.\<close>

definition openings :: "fleetFetchStartLease \<Rightarrow> go_time list" where
  "openings l = (if le_Unlimited l then []
     else map (\<lambda>k. le_FirstPermitAt l + int k * le_PermitInterval l) [0..<le_Permits l])"

definition all_openings :: "fleetFetchStartLease list \<Rightarrow> go_time list" where
  "all_openings ls = concat (map openings ls)"

definition last_close :: "fleetFetchStartLease \<Rightarrow> go_time" where
  "last_close l = le_FirstPermitAt l + (int (le_Permits l) - 1) * le_PermitInterval l +
     le_PermitStartWindow l"

definition apart :: "duration \<Rightarrow> go_time list \<Rightarrow> bool" where
  "apart d ts \<longleftrightarrow> sorted_wrt (\<lambda>x y. x + d \<le> y) ts"

definition leases_apart :: "fleetFetchStartLease list \<Rightarrow> bool" where
  "leases_apart log \<longleftrightarrow>
     sorted_wrt (\<lambda>a b. le_Unlimited a \<or> le_Unlimited b \<or> last_close a \<le> le_FirstPermitAt b) log"

definition lease_settled :: "fleetFetchStartSchedule \<Rightarrow> fleetFetchStartLease \<Rightarrow> bool" where
  "lease_settled s l \<longleftrightarrow> le_Unlimited l \<or>
     last_close l \<le> sc_nextPermitAt s \<and> sc_quietUntil s \<le> le_FirstPermitAt l \<and>
     0 \<le> le_PermitInterval l"

definition pace_inv :: "duration \<Rightarrow> fleetFetchStartSchedule \<Rightarrow> fleetFetchStartLease list \<Rightarrow> bool" where
  "pace_inv d s log \<longleftrightarrow> apart d (all_openings log) \<and>
     (\<forall>t\<in>set (all_openings log). t + d \<le> sc_nextPermitAt s) \<and> leases_apart log \<and>
     (\<forall>l\<in>set log. lease_settled s l) \<and>
     (\<forall>i rec. map_of (sc_leases s) i = Some rec \<longrightarrow> lr_lease rec \<in> set log)"

lemmas pace_invI = pace_inv_def [THEN iffD2, OF conjI, OF _ conjI, OF _ _ conjI, OF _ _ _ conjI]
lemmas pace_invD = pace_inv_def [THEN iffD1, THEN conjunct1]
  pace_inv_def [THEN iffD1, THEN conjunct2, THEN conjunct1]
  pace_inv_def [THEN iffD1, THEN conjunct2, THEN conjunct2, THEN conjunct1]
  pace_inv_def [THEN iffD1, THEN conjunct2, THEN conjunct2, THEN conjunct2, THEN conjunct1]
  pace_inv_def [THEN iffD1, THEN conjunct2, THEN conjunct2, THEN conjunct2, THEN conjunct2]

lemma all_openings_snoc [simp]: "all_openings (ls @ [l]) = all_openings ls @ openings l"
  by (simp add: all_openings_def)

lemma apart_mono: "apart d ts \<Longrightarrow> d' \<le> d \<Longrightarrow> apart d' ts"
  unfolding apart_def by (erule sorted_wrt_mono_rel [rotated]) auto

lemma apart_arith: "0 \<le> d \<Longrightarrow> apart d (map (\<lambda>k. a + int k * d) [0..<n])"
proof (induction n)
  case (Suc n)
  have "a + int k * d + d \<le> a + int n * d" if "k < n" for k
  proof -
    have "int k + 1 \<le> int n" using that by simp
    then have "(int k + 1) * d \<le> int n * d" using Suc.prems by (rule mult_right_mono)
    then show ?thesis by (simp add: algebra_simps)
  qed
  with Suc show ?case by (auto simp: apart_def sorted_wrt_append)
qed (simp add: apart_def)

text \<open>Points that are apart by a fraction of a second are few in each second.\<close>

lemma apart_count:
  assumes "apart d ts" "second \<le> int r * d" "0 < d"
  shows "length (filter (\<lambda>t. a \<le> t \<and> t < a + second) ts) \<le> r"
proof (rule ccontr)
  let ?ts = "filter (\<lambda>t. a \<le> t \<and> t < a + second) ts"
  assume "\<not> length ?ts \<le> r"
  then have r: "r < length ?ts" by simp
  have s: "apart d ?ts" using assms(1) by (simp add: apart_def sorted_wrt_filter)
  have step: "k < length ?ts \<Longrightarrow> ?ts ! 0 + int k * d \<le> ?ts ! k" for k
  proof (induction k)
    case (Suc k)
    have "?ts ! k + d \<le> ?ts ! Suc k"
      using s Suc.prems by (simp add: apart_def sorted_wrt_iff_nth_less)
    with Suc show ?case by (simp add: algebra_simps)
  qed simp
  have in_ts: "a \<le> ?ts ! k \<and> ?ts ! k < a + second" if "k < length ?ts" for k
    using nth_mem [OF that] by auto
  have "?ts ! 0 + int r * d \<le> ?ts ! r" by (rule step [OF r])
  moreover have "a \<le> ?ts ! 0" using in_ts [of 0] r by (cases ?ts) auto
  moreover have "?ts ! r < a + second" using in_ts [OF r] by simp
  ultimately show False using assms(2) by linarith
qed

lemma grant_pace:
  assumes inv: "schedule_inv s" and pace: "pace_inv d s log"
    and rot: "sc_waitingRotation s = w # rest" and nl: "nextLeaseLocked s now w = Some (s1, lease)"
    and d: "\<And>p. PagesPerSecond (sc_policy s) = p \<Longrightarrow> p \<noteq> 0 \<Longrightarrow> d \<le> fleetFetchStartInterval p"
  shows "pace_inv d (grant_lease s1 w lease) (log @ [lease])"
proof -
  have valid: "validRequestLocked s w" using inv rot by (simp add: schedule_inv_def waiting_inv_def)
  note f = nextLease_frame [OF nl] and g = grant_lease_inv [OF inv rot nl]
  have table: "\<forall>i rec. map_of (sc_leases (grant_lease s1 w lease)) i = Some rec \<longrightarrow>
      lr_lease rec \<in> set (log @ [lease])"
  proof (intro allI impI)
    fix i rec
    assume a: "map_of (sc_leases (grant_lease s1 w lease)) i = Some rec"
    have "map_of (sc_leases s) i = Some rec \<Longrightarrow> lr_lease rec \<in> set log"
      using pace_invD(5) [OF pace] by blast
    then show "lr_lease rec \<in> set (log @ [lease])" using a g by (auto split: if_split_asm)
  qed
  have same: "sc_nextPermitAt (grant_lease s1 w lease) = sc_nextPermitAt s1"
    "sc_quietUntil (grant_lease s1 w lease) = sc_quietUntil s"
    using f by (simp_all add: grant_lease_def)
  show ?thesis
  proof (cases "PagesPerSecond (sc_policy s) = 0")
    case True
    then have u1: "le_Unlimited lease" using f by blast
    have "s = s1" using nl True by (simp add: nextLeaseLocked_def Let_def)
    with u1 have u: "le_Unlimited lease" "sc_nextPermitAt s1 = sc_nextPermitAt s" "openings lease = []"
      by (simp_all add: openings_def)
    show ?thesis
    proof (rule pace_invI [OF _ _ _ _ table])
      show "apart d (all_openings (log @ [lease]))" using pace_invD(1) [OF pace] u(3) by simp
      show "\<forall>t\<in>set (all_openings (log @ [lease])). t + d \<le> sc_nextPermitAt (grant_lease s1 w lease)"
        using pace_invD(2) [OF pace] u(2,3) same(1) by simp
      show "leases_apart (log @ [lease])" using pace_invD(3) [OF pace] u(1)
        by (simp add: leases_apart_def sorted_wrt_append)
      show "\<forall>l\<in>set (log @ [lease]). lease_settled (grant_lease s1 w lease) l"
        using pace_invD(4) [OF pace] u(1,2) same by (simp add: lease_settled_def)
    qed
  next
    case False
    let ?n = "le_Permits lease" and ?i = "le_PermitInterval lease" and ?a = "le_FirstPermitAt lease"
    have "0 < rq_MaximumPermits w" using valid by (simp add: validRequestLocked_def)
    note l = nextLease_limited [OF nl False this]
    have i: "d \<le> ?i" "0 < ?i" using l d False interval_positive by auto
    have next_mono: "sc_nextPermitAt s \<le> ?a" "sc_quietUntil s \<le> ?a" using l by auto
    have ops: "openings lease = map (\<lambda>k. ?a + int k * ?i) [0..<?n]" using l by (simp add: openings_def)
    have within: "?a \<le> t \<and> t + d \<le> sc_nextPermitAt s1" if t: "t \<in> set (openings lease)" for t
    proof -
      obtain k where k: "k < ?n" "t = ?a + int k * ?i" using t ops by auto
      have "int k * ?i \<le> (int ?n - 1) * ?i" using k(1) i(2) by (intro mult_right_mono) auto
      moreover have "0 \<le> int k * ?i" using i(2) by simp
      ultimately show ?thesis using k(2) l i(1) by linarith
    qed
    have close: "last_close lease \<le> sc_nextPermitAt s1" using l by (simp add: last_close_def)
    have adv: "sc_nextPermitAt s \<le> sc_nextPermitAt s1"
    proof -
      have "0 \<le> (int ?n - 1) * ?i" using l i(2) by simp
      then show ?thesis using l next_mono i(2) by linarith
    qed
    have a: "apart d (openings lease)" using apart_mono [OF apart_arith i(1)] i(2) ops by simp
    show ?thesis
    proof (rule pace_invI [OF _ _ _ _ table])
      show "apart d (all_openings (log @ [lease]))"
        using pace_invD(1,2) [OF pace] a within next_mono
        by (fastforce simp: apart_def sorted_wrt_append)
      show "\<forall>t\<in>set (all_openings (log @ [lease])). t + d \<le> sc_nextPermitAt (grant_lease s1 w lease)"
        using pace_invD(2) [OF pace] within adv same(1) by fastforce
      show "leases_apart (log @ [lease])" using pace_invD(3,4) [OF pace] next_mono
        by (fastforce simp: leases_apart_def sorted_wrt_append lease_settled_def)
      show "\<forall>l\<in>set (log @ [lease]). lease_settled (grant_lease s1 w lease) l"
        using pace_invD(4) [OF pace] adv close next_mono same i(2) by (fastforce simp: lease_settled_def)
    qed
  qed
qed

lemma dispatches_pace:
  "dispatches now s leases s' \<Longrightarrow> schedule_inv s \<Longrightarrow> pace_inv d s log \<Longrightarrow>
     (\<And>p. PagesPerSecond (sc_policy s) = p \<Longrightarrow> p \<noteq> 0 \<Longrightarrow> d \<le> fleetFetchStartInterval p) \<Longrightarrow>
     pace_inv d s' (log @ leases)"
proof (induction arbitrary: log rule: dispatches.induct)
  case (front_granted s w rest s1 lease leases s')
  have "sc_policy (grant_lease s1 w lease) = sc_policy s"
    using nextLease_frame [OF front_granted(2)] by (simp add: grant_lease_def)
  with front_granted.IH [of "log @ [lease]"] grant_lease_inv [OF front_granted(5,1,2)]
    grant_pace [OF front_granted(5,6,1,2)] front_granted(7)
  show ?case by simp
qed auto

text \<open>The next permit only moves forward and the table only loses leases in every other step.\<close>

lemma pace_inv_later:
  assumes "pace_inv d s log" "sc_nextPermitAt s \<le> sc_nextPermitAt s'" "sc_quietUntil s' = sc_quietUntil s"
    and "\<And>i rec. map_of (sc_leases s') i = Some rec \<Longrightarrow>
      \<exists>rec'. map_of (sc_leases s) i = Some rec' \<and> lr_lease rec = lr_lease rec'"
  shows "pace_inv d s' log"
proof -
  have "lr_lease rec \<in> set log" if r: "map_of (sc_leases s') i = Some rec" for i rec
    using assms(4) [OF r] pace_invD(5) [OF assms(1)] by metis
  moreover have "\<forall>t\<in>set (all_openings log). t + d \<le> sc_nextPermitAt s'"
    "\<forall>l\<in>set log. lease_settled s' l"
    using pace_invD(2,4) [OF assms(1)] assms(2,3) by (fastforce simp: lease_settled_def)+
  ultimately show ?thesis using pace_invD(1,3) [OF assms(1)] by (intro pace_invI) blast+
qed

lemma delete_someD: "map_of (AList.delete k m) i = Some r \<Longrightarrow> map_of m i = Some r"
  by (auto split: if_split_asm)

lemma session_op_pace:
  assumes "pace_inv d s log"
  shows "pace_inv d (fst (ActivateSession s w i)) log" "pace_inv d (replaceSession s w i) log"
    "pace_inv d (fst (DeactivateSession s w i)) log" "pace_inv d (fst (CompleteLease s w i n)) log"
proof -
  show "pace_inv d (fst (ActivateSession s w i)) log"
    by (rule pace_inv_later [OF assms]) (auto simp: ActivateSession_def split: option.splits if_splits)
  show "pace_inv d (replaceSession s w i) log"
    by (rule pace_inv_later [OF assms])
      (auto simp: replaceSession_def Let_def split: if_splits dest: delete_someD simp del: map_of_delete)
  show "pace_inv d (fst (DeactivateSession s w i)) log"
    by (rule pace_inv_later [OF assms])
      (auto simp: DeactivateSession_def split: if_splits dest: delete_someD simp del: map_of_delete)
  show "pace_inv d (fst (CompleteLease s w i n)) log"
    by (rule pace_inv_later [OF assms]) (auto simp: CompleteLease_def split: option.splits if_splits)
qed

lemma existingLease_pace:
  assumes "pace_inv d s log" "existingLeaseLocked s i n now = (s', res)"
  shows "pace_inv d s' log"
  using existingLease_fields [OF assms(2)]
  by (intro pace_inv_later [OF assms(1)]) (auto split: if_splits)

fun rate_within :: "nat \<Rightarrow> fetch_op \<Rightarrow> bool" where
  "rate_within r (FRate now p) = (p \<le> r)"
| "rate_within r _ = True"

definition rate_inv :: "nat \<Rightarrow> go_time \<Rightarrow> fleetFetchStartSchedule \<Rightarrow> bool" where
  "rate_inv r quiet s \<longleftrightarrow>
     schedule_inv s \<and> PagesPerSecond (sc_policy s) \<le> r \<and> sc_quietUntil s = quiet"

lemma rate_inv_interval:
  "rate_inv r quiet s \<Longrightarrow> PagesPerSecond (sc_policy s) = p \<Longrightarrow> p \<noteq> 0 \<Longrightarrow>
     fleetFetchStartInterval r \<le> fleetFetchStartInterval p"
  by (simp add: rate_inv_def interval_antimono)

lemma lease_pace:
  assumes inv: "rate_inv r quiet s" and pace: "pace_inv (fleetFetchStartInterval r) s log"
    and step: "Lease s now q = Some (s', res)"
  shows "rate_inv r quiet s' \<and> pace_inv (fleetFetchStartInterval r) s' (log @ op_grants s (FLease now q))"
proof -
  let ?d = "fleetFetchStartInterval r"
  have inv': "schedule_inv s" using inv by (simp add: rate_inv_def)
  obtain s1 a where a: "lease_admission s now q = (s1, a)" by (cases "lease_admission s now q")
  note i1 = lease_admission_inv [OF inv' a]
  have p1: "pace_inv ?d s1 log"
    by (rule pace_inv_later [OF pace]) (use i1 in auto)
  have r1: "rate_inv r quiet s1" using inv i1 by (simp add: rate_inv_def)
  show ?thesis
  proof (cases "a = Inr None")
    case False
    then have "s' = s1" "op_grants s (FLease now q) = []"
      using step a by (auto simp: Lease_def split: sum.splits option.splits)
    with r1 p1 show ?thesis by simp
  next
    case True
    obtain s2 leases where s2: "dispatchLocked s1 now = Some s2" "dispatches now s1 leases s2"
      "leases = dispatch_grants (Suc (length (sc_waitingRotation s1))) s1 now" "schedule_inv s2"
      "sc_policy s2 = sc_policy s1" "sc_quietUntil s2 = sc_quietUntil s1"
      by (rule dispatchLocked_total [of s1 now]) (use i1 in simp)
    have p2: "pace_inv ?d s2 (log @ leases)"
      using dispatches_pace [OF s2(2) _ p1 rate_inv_interval [OF r1]] i1 by simp
    obtain s3 b where b: "existingLeaseLocked s2 (request_identity q) (rq_Sequence q) now = (s3, b)"
      by (cases "existingLeaseLocked s2 (request_identity q) (rq_Sequence q) now")
    have "s' = s3" using step a b True s2(1)
      by (auto simp: Lease_def split: sum.splits option.splits)
    moreover have "op_grants s (FLease now q) = leases" using a True s2(3) by simp
    ultimately show ?thesis
      using existingLease_pace [OF p2 b] existingLease_inv [OF s2(4) b] s2(5,6) r1
      by (simp add: rate_inv_def)
  qed
qed

lemma rate_pace:
  assumes inv: "rate_inv r quiet s" and pace: "pace_inv (fleetFetchStartInterval r) s log"
    and step: "SetPagesPerSecond s now p = Some (s', res)" and p: "p \<le> r"
  shows "rate_inv r quiet s' \<and> pace_inv (fleetFetchStartInterval r) s' (log @ op_grants s (FRate now p))"
proof (cases "p > MaximumProcessPagesPerSecond \<or> PagesPerSecond (sc_policy s) = p")
  case True
  then have "s' = s" using step by (auto simp: SetPagesPerSecond_def split: if_split_asm)
  with True inv pace show ?thesis by simp
next
  case False
  let ?s = "set_rate s now p"
  have i: "schedule_inv ?s" "sc_nextPermitAt s \<le> sc_nextPermitAt ?s" "sc_quietUntil ?s = sc_quietUntil s"
    "sc_policy ?s = (sc_policy s)\<lparr>PagesPerSecond := p\<rparr>" "sc_leases ?s = sc_leases s"
    using set_rate_inv [of s p now] inv False by (simp_all add: rate_inv_def)
  have p1: "pace_inv (fleetFetchStartInterval r) ?s log"
    by (rule pace_inv_later [OF pace i(2,3)]) (simp add: i(5))
  have r1: "rate_inv r quiet ?s" using i p inv by (simp add: rate_inv_def)
  obtain s2 leases where s2: "dispatchLocked ?s now = Some s2" "dispatches now ?s leases s2"
    "leases = dispatch_grants (Suc (length (sc_waitingRotation ?s))) ?s now" "schedule_inv s2"
    "sc_policy s2 = sc_policy ?s" "sc_quietUntil s2 = sc_quietUntil ?s"
    by (rule dispatchLocked_total [OF i(1), of now])
  have "s' = s2" using step False s2(1) by (simp add: SetPagesPerSecond_def)
  moreover have "op_grants s (FRate now p) = leases" using False s2(3) by (simp add: Let_def)
  ultimately show ?thesis
    using dispatches_pace [OF s2(2) i(1) p1 rate_inv_interval [OF r1]] s2(4-6) r1
    by (simp add: rate_inv_def)
qed

lemma session_op_fields:
  "sc_policy (fst (ActivateSession s w i)) = sc_policy s"
  "sc_policy (replaceSession s w i) = sc_policy s"
  "sc_policy (fst (DeactivateSession s w i)) = sc_policy s"
  "sc_policy (fst (CompleteLease s w i n)) = sc_policy s"
  "sc_quietUntil (fst (ActivateSession s w i)) = sc_quietUntil s"
  "sc_quietUntil (replaceSession s w i) = sc_quietUntil s"
  "sc_quietUntil (fst (DeactivateSession s w i)) = sc_quietUntil s"
  "sc_quietUntil (fst (CompleteLease s w i n)) = sc_quietUntil s"
  by (auto simp: ActivateSession_def replaceSession_def DeactivateSession_def CompleteLease_def
      Let_def split: option.split)

lemma op_pace:
  assumes "rate_inv r quiet s" "pace_inv (fleetFetchStartInterval r) s log" "fetch_op_step s e = Some s'"
    and "rate_within r e"
  shows "rate_inv r quiet s' \<and> pace_inv (fleetFetchStartInterval r) s' (log @ op_grants s e)"
proof (cases e)
  case (FLease now q)
  then obtain res where "Lease s now q = Some (s', res)" using assms(3) by auto
  then show ?thesis using lease_pace [OF assms(1,2)] FLease by blast
next
  case (FRate now p)
  then obtain res where "SetPagesPerSecond s now p = Some (s', res)" using assms(3) by auto
  then show ?thesis using rate_pace [OF assms(1,2)] FRate assms(4)
    by (simp del: op_grants.simps)
next
  case (FActivate w i)
  then show ?thesis using assms Activate_inv [of s w i] session_op_pace(1)
    by (auto simp: rate_inv_def session_op_fields)
next
  case (FReplace w i)
  then show ?thesis using assms replace_inv [of s w i] session_op_pace(2)
    by (auto simp: rate_inv_def session_op_fields)
next
  case (FDeactivate w i)
  then show ?thesis using assms deactivate_inv [of s w i] session_op_pace(3)
    by (auto simp: rate_inv_def session_op_fields)
next
  case (FComplete w i n)
  then show ?thesis using assms complete_inv [of s w i n] session_op_pace(4)
    by (auto simp: rate_inv_def session_op_fields)
qed

lemma run_pace:
  "rate_inv r quiet s \<Longrightarrow> pace_inv (fleetFetchStartInterval r) s log \<Longrightarrow>
     list_all (rate_within r) es \<Longrightarrow>
     \<exists>s'. run fetch_step (Some s) es = Some s' \<and> rate_inv r quiet s' \<and>
       pace_inv (fleetFetchStartInterval r) s' (log @ run_grants s es)"
proof (induction es arbitrary: s log)
  case (Cons e es)
  obtain s1 where s1: "fetch_op_step s e = Some s1"
    using fetch_op_total [of s e] Cons.prems(1) by (auto simp: rate_inv_def)
  have "rate_inv r quiet s1 \<and> pace_inv (fleetFetchStartInterval r) s1 (log @ op_grants s e)"
    using op_pace [OF Cons.prems(1,2) s1] Cons.prems(3) by simp
  with Cons.IH [of s1 "log @ op_grants s e"] Cons.prems(3) s1
  show ?case by (auto simp: fetch_step_def)
qed simp

lemma new_schedule_pace:
  assumes "newFleetFetchStartScheduleAt p t = Inr s" "PagesPerSecond p \<le> r"
  shows "rate_inv r (t + RestartQuietPeriod p) s \<and> pace_inv d s []"
  using assms new_schedule_inv [OF assms(1)]
  by (auto simp: newFleetFetchStartScheduleAt_def rate_inv_def pace_inv_def apart_def all_openings_def
      leases_apart_def split: if_split_asm)

lemma run_from_start:
  assumes "newFleetFetchStartScheduleAt p t = Inr s" "PagesPerSecond p \<le> r"
    and "list_all (rate_within r) es"
  obtains s' where "run fetch_step (Some s) es = Some s'" "rate_inv r (t + RestartQuietPeriod p) s'"
    "pace_inv (fleetFetchStartInterval r) s' (run_grants s es)"
  using run_pace [of r "t + RestartQuietPeriod p" s "[]" es] new_schedule_pace [OF assms(1,2)] assms(3)
    that by auto

lemma rate_within_mono: "rate_within r e \<Longrightarrow> r \<le> r' \<Longrightarrow> rate_within r' e"
  by (cases e) auto

lemma some_rate_bound: "\<exists>r. (n::nat) \<le> r \<and> list_all (rate_within r) es"
proof (induction es)
  case (Cons e es)
  then obtain r where r: "n \<le> r" "list_all (rate_within r) es" by auto
  obtain r0 where "rate_within r0 e" by (cases e) auto
  with r show ?case
    by (intro exI [of _ "max r r0"]) (auto simp: list_all_iff intro: rate_within_mono)
qed auto

section \<open>Properties\<close>

text \<open>C34: after every sequence of session changes, lease requests, completions and rate changes,
  every operation of the fetch-start schedule has returned (the loop over the waiting requests
  ends), the rotation and the map of waiting requests hold the same requests, at most one per
  session, and a session that is not the current one of its worker has neither a lease nor a
  waiting request.\<close>
theorem fetch_schedule_returns:
  assumes "newFleetFetchStartScheduleAt p t = Inr s"
  shows "\<exists>s'. run fetch_step (Some s) es = Some s' \<and>
    distinct (map request_identity (sc_waitingRotation s')) \<and>
    set (map_keys (sc_waiting s')) = request_identity ` set (sc_waitingRotation s') \<and>
    (\<forall>w i. get_or [] (sc_activeSessions s') w = i \<or>
       map_of (sc_leases s') (w, i) = None \<and> map_of (sc_waiting s') (w, i) = None)"
proof -
  have "fetch_ok (run fetch_step (Some s) es)"
    by (rule fetch_schedule.inv_run) (simp add: fetch_ok_def new_schedule_inv [OF assms])
  then obtain s' where s': "run fetch_step (Some s) es = Some s'" "schedule_inv s'"
    by (auto simp: fetch_ok_def split: option.splits)
  then have w: "waiting_inv s'" and se: "sessions_inv s'" by (simp_all add: schedule_inv_def)
  have "i \<in> set (map_keys (sc_waiting s')) \<longleftrightarrow> i \<in> request_identity ` set (sc_waitingRotation s')" for i
    using waiting_invD [OF w, of i] unfolding set_map_keys domIff not_None_eq image_iff by metis
  then have keys: "set (map_keys (sc_waiting s')) = request_identity ` set (sc_waitingRotation s')"
    by blast
  have cur: "get_or [] (sc_activeSessions s') w = i"
    if "(w, i) \<in> set (map_keys (sc_leases s')) \<union> set (map_keys (sc_waiting s'))" for w i
    using se that unfolding sessions_inv_def sessionCurrentLocked_def by (metis fst_conv snd_conv)
  have "distinct (map request_identity (sc_waitingRotation s'))" using w by (simp add: waiting_inv_def)
  moreover have "get_or [] (sc_activeSessions s') w = i \<or>
      map_of (sc_leases s') (w, i) = None \<and> map_of (sc_waiting s') (w, i) = None" for w i
    using cur [of w i] unfolding set_map_keys by blast
  ultimately show ?thesis using s'(1) keys by blast
qed

text \<open>C11: as long as the configured rate never exceeds r pages per second, no second holds more than
  r openings of fetch permits, over all leases ever granted by the schedule, whatever sessions and
  requests come and go and however the rate is changed below r.\<close>
theorem fetch_rate_respected:
  assumes "newFleetFetchStartScheduleAt p t = Inr s" and "PagesPerSecond p \<le> r" and "0 < r"
    and "list_all (rate_within r) es"
  shows "length (filter (\<lambda>at. a \<le> at \<and> at < a + second) (all_openings (run_grants s es))) \<le> r"
proof -
  obtain s' where "pace_inv (fleetFetchStartInterval r) s' (run_grants s es)"
    by (rule run_from_start [OF assms(1,2,4)])
  from pace_invD(1) [OF this] interval_covers [OF assms(3)] interval_positive [OF assms(3)]
  show ?thesis by (rule apart_count)
qed

lemma PermitWindow_bounds:
  assumes "PermitWindow l k = Some (opensAt, closesAt)" "0 \<le> le_PermitInterval l"
  shows "\<not> le_Unlimited l \<and> le_FirstPermitAt l \<le> opensAt \<and> closesAt \<le> last_close l"
proof -
  have k: "\<not> le_Unlimited l" "k < le_Permits l" "opensAt = le_FirstPermitAt l + int k * le_PermitInterval l"
    "closesAt = opensAt + le_PermitStartWindow l"
    using assms(1) by (auto simp: PermitWindow_def Let_def split: if_split_asm)
  have "int k * le_PermitInterval l \<le> (int (le_Permits l) - 1) * le_PermitInterval l"
    using k(2) assms(2) by (intro mult_right_mono) auto
  then show ?thesis using k assms(2) by (simp add: last_close_def)
qed

text \<open>C6: the permit windows of two limited leases never overlap, whatever their sessions and
  however the rate was changed between them: every window of the earlier lease closes before any
  of the later one opens; and no window opens before the quiet period after the start of the
  schedule has passed, in which the permits of a previous broker run out.\<close>
theorem fetch_windows_separate:
  assumes "newFleetFetchStartScheduleAt p t = Inr s" and "i < j" and "j < length (run_grants s es)"
    and "PermitWindow (run_grants s es ! i) k = Some (open1, close1)"
    and "PermitWindow (run_grants s es ! j) k' = Some (open2, close2)"
  shows "close1 \<le> open2 \<and> t + RestartQuietPeriod p \<le> open1"
proof -
  obtain r where r: "PagesPerSecond p \<le> r" "list_all (rate_within r) es"
    using some_rate_bound by blast
  obtain s' where s': "rate_inv r (t + RestartQuietPeriod p) s'"
    "pace_inv (fleetFetchStartInterval r) s' (run_grants s es)"
    by (rule run_from_start [OF assms(1) r])
  let ?a = "run_grants s es ! i" and ?b = "run_grants s es ! j"
  have "lease_settled s' ?a" "lease_settled s' ?b"
    using pace_invD(4) [OF s'(2)] assms(2,3) by simp_all
  moreover have "\<not> le_Unlimited ?a" "\<not> le_Unlimited ?b"
    using assms(4,5) by (simp_all add: PermitWindow_def split: if_split_asm)
  moreover have "le_Unlimited ?a \<or> le_Unlimited ?b \<or> last_close ?a \<le> le_FirstPermitAt ?b"
    using pace_invD(3) [OF s'(2)] assms(2,3) by (simp add: leases_apart_def sorted_wrt_iff_nth_less)
  ultimately show ?thesis
    using PermitWindow_bounds [OF assms(4)] PermitWindow_bounds [OF assms(5)] s'(1)
    by (simp add: lease_settled_def rate_inv_def)
qed

text \<open>A lease that the schedule grants to a waiting request has at least one permit and at most
  the number it asked for; its permits open no earlier than now and than the quiet period, at
  most one reservation horizon ahead, one interval apart; and it expires only after the windows of
  all its permits have closed and no earlier than the lease lifetime.\<close>
theorem fetch_lease_bounds:
  assumes "nextLeaseLocked s now r = Some (s', lease)" and "validRequestLocked s r"
    and "PagesPerSecond (sc_policy s) \<noteq> 0" and "k < le_Permits lease"
    and "PermitWindow lease k = Some (opensAt, closesAt)"
  shows "1 \<le> le_Permits lease \<and> le_Permits lease \<le> rq_MaximumPermits r \<and>
    now \<le> opensAt \<and> sc_quietUntil s \<le> opensAt \<and> opensAt \<le> now + ReservationHorizon (sc_policy s) \<and>
    opensAt = le_FirstPermitAt lease + int k * fleetFetchStartInterval (PagesPerSecond (sc_policy s)) \<and>
    closesAt \<le> le_ExpiresAt lease \<and> now + LeaseLifetime (sc_policy s) \<le> le_ExpiresAt lease"
proof -
  have r: "0 < rq_MaximumPermits r" using assms(2) by (simp add: validRequestLocked_def)
  note l = nextLease_limited [OF assms(1,3) r]
  have i: "0 < le_PermitInterval lease" using l assms(3) interval_positive by simp
  have o: "opensAt = le_FirstPermitAt lease + int k * le_PermitInterval lease"
    "closesAt = opensAt + le_PermitStartWindow lease"
    using assms(5) by (auto simp: PermitWindow_def Let_def split: if_split_asm)
  have last: "int k * le_PermitInterval lease \<le> (int (le_Permits lease) - 1) * le_PermitInterval lease"
    and pos: "0 \<le> int k * le_PermitInterval lease"
    using assms(4) i by (auto intro!: mult_right_mono)
  have "closesAt \<le> last_close lease" using PermitWindow_bounds [OF assms(5)] i by simp
  also have "last_close lease \<le> sc_nextPermitAt s'" using l by (simp add: last_close_def)
  also have "sc_nextPermitAt s' \<le> le_ExpiresAt lease" using l by simp
  finally have closed: "closesAt \<le> le_ExpiresAt lease" .
  have "le_FirstPermitAt lease + (int (le_Permits lease) - 1) * le_PermitInterval lease
      \<le> now + ReservationHorizon (sc_policy s)" using l by blast
  with last have horizon: "opensAt \<le> now + ReservationHorizon (sc_policy s)" unfolding o(1) by linarith
  have "now \<le> le_FirstPermitAt lease" "sc_quietUntil s \<le> le_FirstPermitAt lease" using l by simp_all
  with pos have first: "now \<le> opensAt" "sc_quietUntil s \<le> opensAt" unfolding o(1) by linarith+
  have "1 \<le> le_Permits lease" "le_Permits lease \<le> rq_MaximumPermits r"
    "now + LeaseLifetime (sc_policy s) \<le> le_ExpiresAt lease"
    "le_PermitInterval lease = fleetFetchStartInterval (PagesPerSecond (sc_policy s))"
    using l by auto
  with closed horizon first o(1) show ?thesis by simp
qed

lemma existing_again:
  assumes "map_of (sc_leases s) i = Some rec" "le_Sequence (lr_lease rec) = n"
  shows "\<exists>s'. existingLeaseLocked s i n now = (s', Inr (Some \<lparr>de_Lease = lr_lease rec, de_Granted = True,
      de_RetryAt = 0, de_ServerObservedAt = now\<rparr>))"
  using assms by (simp add: existingLeaseLocked_def Let_def)

lemma existingLease_none_keeps:
  "existingLeaseLocked s i n now = (s', Inr (Some d)) \<Longrightarrow>
     \<exists>rec. map_of (sc_leases s') i = Some rec \<and> lr_lease rec = de_Lease d \<and>
       le_Sequence (lr_lease rec) = n"
  by (auto simp: existingLeaseLocked_def Let_def split: option.splits if_splits)

text \<open>A lease request that was granted is answered with the same lease when it is repeated, at
  any later time and whatever number of permits the repetition asks for, as long as its session is
  the current one: a response that was lost costs no permits, and the repetition grants nothing
  new.\<close>
theorem fetch_lease_repeated:
  assumes "schedule_inv s" and "Lease s now r = Some (s', Inr d)" and "de_Granted d"
    and "validRequestLocked s r'" and "request_identity r' = request_identity r"
    and "rq_Sequence r' = rq_Sequence r"
  shows "\<exists>s'' d'. Lease s' later r' = Some (s'', Inr d') \<and> de_Granted d' \<and>
    de_Lease d' = de_Lease d \<and> op_grants s' (FLease later r') = []"
proof -
  obtain s1 a where a: "lease_admission s now r = (s1, a)" by (cases "lease_admission s now r")
  note i1 = lease_admission_inv [OF assms(1) a]
  have cur: "sessionCurrentLocked s (request_identity r)"
    using assms(2) a by (auto simp: lease_admission_def Lease_def Let_def split: if_split_asm)
  obtain rec where rec: "map_of (sc_leases s') (request_identity r) = Some rec"
    "lr_lease rec = de_Lease d" "le_Sequence (lr_lease rec) = rq_Sequence r"
    and same: "sc_policy s' = sc_policy s" "sc_activeSessions s' = sc_activeSessions s"
  proof (cases "a = Inr None")
    case False
    then have e: "existingLeaseLocked s (request_identity r) (rq_Sequence r) now = (s', Inr (Some d))"
      using assms(2,3) a
      by (auto simp: Lease_def lease_admission_def Let_def
          split: sum.splits option.splits if_split_asm prod.splits)
    show thesis using existingLease_none_keeps [OF e] existingLease_inv [OF assms(1) e] that by blast
  next
    case True
    obtain s2 leases where s2: "dispatchLocked s1 now = Some s2" "dispatches now s1 leases s2"
      "schedule_inv s2" by (rule dispatchLocked_total [of s1 now]) (use i1 in auto)
    have e: "existingLeaseLocked s2 (request_identity r) (rq_Sequence r) now = (s', Inr (Some d))"
      using assms(2,3) a True s2(1)
      by (auto simp: Lease_def waiting_decision_def split: sum.splits option.splits prod.splits)
    have "sc_policy s2 = sc_policy s" "sc_activeSessions s2 = sc_activeSessions s"
      using dispatches_inv [OF s2(2)] i1 by simp_all
    then show thesis
      using existingLease_none_keeps [OF e] existingLease_inv [OF s2(3) e] that by metis
  qed
  obtain s'' where s'': "existingLeaseLocked s' (request_identity r') (rq_Sequence r') later =
      (s'', Inr (Some \<lparr>de_Lease = lr_lease rec, de_Granted = True, de_RetryAt = 0,
        de_ServerObservedAt = later\<rparr>))"
    using existing_again [of s' "request_identity r'" rec "rq_Sequence r'" later] rec assms(5,6) by auto
  have "lease_admission s' later r' = (s'', Inr (Some \<lparr>de_Lease = lr_lease rec, de_Granted = True,
      de_RetryAt = 0, de_ServerObservedAt = later\<rparr>))"
    using s'' assms(4,5) cur same
    by (simp add: lease_admission_def Let_def validRequestLocked_def sessionCurrentLocked_def)
  then show ?thesis using rec(2) by (simp add: Lease_def)
qed

text \<open>C26: nobody waits forever. Whenever the schedule dispatches at the retry time it announces or
  later, the request at the front of the rotation, which is served in the order of arrival, is
  granted its lease.\<close>
theorem fetch_front_served:
  assumes "schedule_inv s" and "sc_waitingRotation s = w # rest" and "retryAtLocked s \<le> now"
  shows "\<exists>s' rec k. dispatchLocked s now = Some s' \<and>
    map_of (sc_leases s') (request_identity w) = Some rec \<and> lr_outstanding rec \<and>
    le_Sequence (lr_lease rec) = rq_Sequence w \<and> sc_waitingRotation s' = drop k rest"
proof -
  have h: "0 < ReservationHorizon (sc_policy s)"
    using assms(1) by (simp add: schedule_inv_def validFleetFetchStartPolicy_def)
  have "max (sc_quietUntil s) (sc_nextPermitAt s) \<le> now + ReservationHorizon (sc_policy s)"
    using assms(3) by (simp add: retryAtLocked_def Let_def max_def split: if_split_asm)
  then have "nextLeaseLocked s now w \<noteq> None"
    using h by (simp add: nextLeaseLocked_def Let_def)
  then obtain s1 lease where nl: "nextLeaseLocked s now w = Some (s1, lease)" by auto
  note g = grant_lease_inv [OF assms(1,2) nl]
  let ?rec = "\<lparr>lr_lease = lease, lr_outstanding = True\<rparr>"
  obtain s' leases where s': "dispatchLocked s now = Some s'" "dispatches now s leases s'"
    by (rule dispatchLocked_total [OF assms(1), of now])
  from s'(2) obtain leases' where leases: "dispatches now (grant_lease s1 w lease) leases' s'"
    by (cases rule: dispatches_cases) (use assms(2) nl in auto)
  have "map_of (sc_leases s') (request_identity w) = Some ?rec"
  proof -
    have keep: "dispatches now a ls b \<Longrightarrow> schedule_inv a \<Longrightarrow> map_of (sc_leases a) i = Some x \<Longrightarrow>
        \<forall>v\<in>set (sc_waitingRotation a). request_identity v \<noteq> i \<Longrightarrow> map_of (sc_leases b) i = Some x"
      for a ls b i x
    proof (induction rule: dispatches.induct)
      case (front_granted s w rest s1 lease leases s')
      then have "map_of (sc_leases (grant_lease s1 w lease)) i = Some x"
        using grant_lease_inv [OF front_granted(5,1,2)] by auto
      then show ?case using front_granted grant_lease_inv [OF front_granted(5,1,2)] by simp
    qed auto
    have "distinct (map request_identity (w # rest))"
      using assms(1,2) by (simp add: schedule_inv_def waiting_inv_def)
    then have "\<forall>v\<in>set rest. request_identity v \<noteq> request_identity w" by (auto simp: image_iff)
    then show ?thesis using keep [OF leases, of "request_identity w" ?rec] g by simp
  qed
  moreover have "le_Sequence lease = rq_Sequence w" using nextLease_frame [OF nl] by simp
  moreover have "sc_waitingRotation s' = drop (length leases') rest"
    using dispatches_inv [OF leases] g by simp
  ultimately show ?thesis using s'(1) by (intro exI [of _ s'] exI [of _ ?rec]) auto
qed

section \<open>The endpoint\<close>

lemma Lease_errors:
  "Lease s now r = Some (s', Inl e) \<Longrightarrow> e \<in> {errFleetFetchRequestInvalid, errFleetFetchSessionStale,
     errFleetFetchLeaseOutstanding, errFleetFetchSequenceStale}"
  by (auto simp: Lease_def lease_admission_def existingLeaseLocked_def Let_def
      split: sum.splits option.splits if_split_asm prod.splits)

lemma CompleteLease_errors:
  "CompleteLease s w i n = (s', Some e) \<Longrightarrow> e \<in> {errFleetFetchRequestInvalid,
     errFleetFetchSessionStale, errFleetFetchLeaseNotFound, errFleetFetchLeaseSequenceMismatch}"
  by (auto simp: CompleteLease_def split: option.splits if_split_asm)

lemma first_open_permit_least:
  "first_open_permit d n i = Some (k, opens, closes) \<Longrightarrow>
     i \<le> k \<and> k < i + n \<and> RelativePermitWindow d k = Some (opens, closes) \<and>
     (\<forall>j. i \<le> j \<and> j < k \<longrightarrow> RelativePermitWindow d j = None)"
proof (induction n arbitrary: i)
  case (Suc n)
  show ?case
  proof (cases "RelativePermitWindow d i")
    case None
    then have "first_open_permit d n (i + 1) = Some (k, opens, closes)" using Suc.prems by simp
    note f = Suc.IH [OF this]
    have "RelativePermitWindow d j = None" if "i \<le> j" "j < k" for j
      using f None that by (cases "j = i") auto
    with f show ?thesis by simp
  next
    case (Some p)
    then show ?thesis using Suc.prems by (cases p) auto
  qed
qed simp

lemma complete_and_respond_status:
  assumes "complete_and_respond s now r = Some (s', Inl c)"
  shows "c = InvalidArgument \<or> c = FailedPrecondition"
proof -
  have known: "fleetFetchStartStatus e = InvalidArgument \<or> fleetFetchStartStatus e = FailedPrecondition"
    if "e \<noteq> errFleetFetchPolicyInvalid" "e \<noteq> errFleetFetchSessionActive" for e
    using that by (cases e) (simp_all add: fleetFetchStartStatus_def)
  have respond: "c = InvalidArgument \<or> c = FailedPrecondition"
    if l: "lease_and_respond a now r = Some (s', Inl c)" for a
  proof -
    obtain e where "c = fleetFetchStartStatus e"
      "e = errFleetFetchRequestInvalid \<or> (\<exists>q. Lease a now q = Some (s', Inl e))"
      using l unfolding lease_and_respond_def
      by (auto split: if_split_asm option.splits sum.splits) blast+
    moreover from this(2) have "e \<noteq> errFleetFetchPolicyInvalid" "e \<noteq> errFleetFetchSessionActive"
      using Lease_errors [of a now _ s' e] by auto
    ultimately show ?thesis using known by simp
  qed
  show ?thesis
  proof (cases "fr_CompletedSequence r")
    case None
    then show ?thesis using assms respond by (simp add: complete_and_respond_def)
  next
    case (Some n)
    obtain a res where c: "CompleteLease s (fr_WorkerId r) (fr_WorkerSessionId r) n = (a, res)"
      by (cases "CompleteLease s (fr_WorkerId r) (fr_WorkerSessionId r) n")
    show ?thesis
    proof (cases res)
      case None
      then show ?thesis using assms respond Some c by (simp add: complete_and_respond_def)
    next
      case (Some e)
      then have "c = fleetFetchStartStatus e"
        using assms \<open>fr_CompletedSequence r = Some n\<close> c by (simp add: complete_and_respond_def)
      moreover have "e \<noteq> errFleetFetchPolicyInvalid" "e \<noteq> errFleetFetchSessionActive"
        using CompleteLease_errors [OF c [unfolded Some]] by auto
      ultimately show ?thesis using known by simp
    qed
  qed
qed

text \<open>The endpoint that leases fetch starts answers every refused request with the status
  of an invalid argument or of a failed precondition: no error of the schedule reaches the client
  as an internal error.\<close>
theorem endpoint_status_known:
  assumes "LeaseFetchStarts fetchStarts now request = Some (fetchStarts', Inl c)"
  shows "c = InvalidArgument \<or> c = FailedPrecondition"
  using assms by (auto simp: LeaseFetchStarts_def split: option.split_asm
      dest: complete_and_respond_status)

text \<open>The endpoint announces only permits that can still be used: when its answer to a granted
  limited lease has permits, the first of them is the first permit of the lease whose window has
  not closed, its window closes in the future, and the answer counts all permits from that one
  on.\<close>
theorem endpoint_skips_closed:
  assumes "de_Granted d" and "\<not> le_Unlimited (de_Lease d)"
    and "0 < fd_Permits (lease_response n d)"
  shows "\<exists>k. fd_Permits (lease_response n d) = le_Permits (de_Lease d) - k \<and>
    RelativePermitWindow d k = Some (fd_FirstPermitOpensAfterNanoseconds (lease_response n d),
      fd_FirstPermitClosesAfterNanoseconds (lease_response n d)) \<and>
    0 < fd_FirstPermitClosesAfterNanoseconds (lease_response n d) \<and>
    (\<forall>j. j \<ge> k \<or> RelativePermitWindow d j = None)"
proof (cases "first_open_permit d (le_Permits (de_Lease d)) 0")
  case None
  then show ?thesis using assms by (simp add: lease_response_def)
next
  case (Some p)
  then obtain k opens closes where
    p: "first_open_permit d (le_Permits (de_Lease d)) 0 = Some (k, opens, closes)"
    by (cases p) auto
  have l: "fd_Permits (lease_response n d) = le_Permits (de_Lease d) - k"
    "fd_FirstPermitOpensAfterNanoseconds (lease_response n d) = opens"
    "fd_FirstPermitClosesAfterNanoseconds (lease_response n d) = closes"
    using assms p by (simp_all add: lease_response_def)
  note f = first_open_permit_least [OF p]
  have "0 < closes"
    using f by (auto simp: RelativePermitWindow_def time_sub_def max_duration_def
        split: option.splits if_split_asm prod.splits)
  moreover have "j \<ge> k \<or> RelativePermitWindow d j = None" for j using f by (cases "j < k") auto
  ultimately show ?thesis unfolding l using f by blast
qed

section \<open>Witnesses\<close>

definition example_policy :: fleetFetchStartPolicy where
  "example_policy = \<lparr>PagesPerSecond = 2, MaximumLeasePermits = 256,
     ReservationHorizon = 250000000, LeaseLifetime = 1000000000, RestartQuietPeriod = 1000000000\<rparr>"

definition example_request :: "nat \<Rightarrow> fleetFetchStartLeaseRequest" where
  "example_request n = \<lparr>rq_WorkerID = ''w'', rq_WorkerSessionID = ''s'', rq_Sequence = n,
     rq_MaximumPermits = 4, rq_PermitDeliveryAllowance = 0\<rparr>"

definition example_schedule :: fleetFetchStartSchedule where
  "example_schedule = \<lparr>sc_policy = example_policy, sc_policyGeneration = 1,
     sc_quietUntil = 1000000000, sc_nextPermitAt = 0, sc_lastPermitAt = 0, sc_activeSessions = [],
     sc_leases = [], sc_waiting = [], sc_waitingRotation = []\<rparr>"

definition example_ops :: "fetch_op list" where
  "example_ops = [FActivate ''w'' ''s'', FLease 2000000000 (example_request 1),
     FLease 3000000000 (example_request 2)]"

definition example_lease :: "nat \<Rightarrow> go_time \<Rightarrow> fleetFetchStartLease" where
  "example_lease n t = \<lparr>le_WorkerID = ''w'', le_WorkerSessionID = ''s'', le_Sequence = n,
     le_Permits = 1, le_FirstPermitAt = t, le_PermitInterval = 500000000,
     le_PermitStartWindow = 250000000, le_ExpiresAt = t + 1000000000, le_PolicyGeneration = 1,
     le_Unlimited = False\<rparr>"

lemma example_start: "newFleetFetchStartScheduleAt example_policy 0 = Inr example_schedule"
  by (simp add: newFleetFetchStartScheduleAt_def example_policy_def example_schedule_def
      validFleetFetchStartPolicy_def MaximumProcessPagesPerSecond_def MaximumFetchWorkerConcurrency_def)

lemma example_identity: "validCrawlerLeaseIdentity ''w'' ''s''"
  by (simp add: validCrawlerLeaseIdentity_def ValidCrawlerWorkerIdentity_def
      ValidCrawlerSessionIdentity_def printable_identity printable_def
      MaximumCrawlerWorkerIdentityBytes_def MaximumCrawlerSessionIdentityBytes_def)

lemmas example_defs = example_policy_def example_request_def example_schedule_def example_lease_def
  example_identity ActivateSession_def Lease_def lease_admission_def enqueue_request_def
  request_identity_def validRequestLocked_def sessionCurrentLocked_def existingLeaseLocked_def
  dispatchLocked_def nextLeaseLocked_def fleetFetchStartInterval_def removeWaitingLocked_def
  fleetFetchStartPermitWindowWidth_def fleetFetchStartLeaseExpiry_def grant_lease_def zero_lease_def
  waiting_decision_def retryAtLocked_def validFleetFetchStartPermitDeliveryAllowance_def
  MaximumFetchStartPermitDeliveryAllowance_def second_def Let_def get_or_def

lemma example_grants:
  "run_grants example_schedule example_ops = [example_lease 1 2000000000, example_lease 2 3000000000]"
  unfolding example_ops_def by (simp add: example_defs numeral_eq_Suc)

lemma example_inv: "run fetch_step (Some example_schedule) es = Some s \<Longrightarrow> schedule_inv s"
  using fetch_schedule.inv_run [of "Some example_schedule" es] new_schedule_inv [OF example_start]
  by (simp add: fetch_ok_def)

definition example_active :: fleetFetchStartSchedule where
  "example_active = example_schedule\<lparr>sc_activeSessions := [(''w'', ''s'')]\<rparr>"

definition example_waiting :: fleetFetchStartSchedule where
  "example_waiting = example_active\<lparr>sc_waiting := [((''w'', ''s''), example_request 1)],
     sc_waitingRotation := [example_request 1]\<rparr>"

definition example_leased :: fleetFetchStartSchedule where
  "example_leased = example_active\<lparr>sc_leases := [((''w'', ''s''),
       \<lparr>lr_lease = example_lease 1 2000000000, lr_outstanding = True\<rparr>)],
     sc_lastPermitAt := 2000000000, sc_nextPermitAt := 2500000000\<rparr>"

lemma example_active_inv: "schedule_inv example_active"
  by (rule example_inv [of "[FActivate ''w'' ''s'']"])
    (simp add: fetch_step_def example_active_def example_defs)

lemma example_waiting_inv: "schedule_inv example_waiting"
  by (rule example_inv [of "[FActivate ''w'' ''s'', FLease 0 (example_request 1)]"])
    (simp add: fetch_step_def example_waiting_def example_active_def example_defs numeral_eq_Suc)

lemma example_leases: "Lease example_active 2000000000 (example_request 1) =
    Some (example_leased, Inr \<lparr>de_Lease = example_lease 1 2000000000, de_Granted = True,
      de_RetryAt = 0, de_ServerObservedAt = 2000000000\<rparr>)"
  by (simp add: example_leased_def example_active_def example_defs numeral_eq_Suc)

lemma fetch_schedule_returns_witness:
  "\<exists>s'. run fetch_step (Some example_schedule) example_ops = Some s' \<and>
    distinct (map request_identity (sc_waitingRotation s'))"
  using fetch_schedule_returns [OF example_start, of example_ops] by blast

lemma fetch_rate_respected_witness:
  "length (filter (\<lambda>at. 2000000000 \<le> at \<and> at < 2000000000 + second)
     (all_openings (run_grants example_schedule example_ops))) \<le> 2"
  by (rule fetch_rate_respected [OF example_start])
    (simp_all add: example_policy_def example_ops_def)

lemma example_windows:
  "PermitWindow (run_grants example_schedule example_ops ! 0) 0 = Some (2000000000, 2250000000)"
  "PermitWindow (run_grants example_schedule example_ops ! 1) 0 = Some (3000000000, 3250000000)"
  by (simp_all add: example_grants PermitWindow_def example_lease_def)

lemma fetch_windows_separate_witness:
  "(2250000000::int) \<le> 3000000000 \<and> 0 + RestartQuietPeriod example_policy \<le> 2000000000"
  by (rule fetch_windows_separate [OF example_start _ _ example_windows]) (simp_all add: example_grants)

lemma fetch_lease_bounds_witness:
  "1 \<le> le_Permits (example_lease 1 2000000000) \<and> (2000000000::int) \<le> 2000000000 + 250000000 \<and>
     2250000000 \<le> le_ExpiresAt (example_lease 1 2000000000)"
proof -
  have l: "nextLeaseLocked example_active 2000000000 (example_request 1) =
      Some (example_active\<lparr>sc_lastPermitAt := 2000000000, sc_nextPermitAt := 2500000000\<rparr>,
        example_lease 1 2000000000)"
    by (simp add: example_active_def example_defs numeral_eq_Suc)
  have "validRequestLocked example_active (example_request 1)"
    "PagesPerSecond (sc_policy example_active) \<noteq> 0" "0 < le_Permits (example_lease 1 2000000000)"
    "PermitWindow (example_lease 1 2000000000) 0 = Some (2000000000, 2250000000)"
    by (simp_all add: example_active_def example_defs PermitWindow_def)
  from fetch_lease_bounds [OF l this] show ?thesis by simp
qed

lemma fetch_lease_repeated_witness:
  "\<exists>s'' d'. Lease example_leased 2100000000 (example_request 1) = Some (s'', Inr d') \<and>
     de_Granted d' \<and> de_Lease d' = example_lease 1 2000000000"
proof -
  have "validRequestLocked example_active (example_request 1)"
    by (simp add: example_active_def example_defs)
  from fetch_lease_repeated [OF example_active_inv example_leases _ this refl refl, of 2100000000]
  show ?thesis by auto
qed

lemma fetch_front_served_witness:
  "\<exists>s' rec. dispatchLocked example_waiting 750000000 = Some s' \<and>
     map_of (sc_leases s') (''w'', ''s'') = Some rec \<and> le_Sequence (lr_lease rec) = 1"
  using fetch_front_served [OF example_waiting_inv, of "example_request 1" "[]" 750000000]
  by (auto simp: example_waiting_def example_active_def retryAtLocked_def example_schedule_def
      example_policy_def Let_def request_identity_def example_request_def)

lemma endpoint_status_known_witness:
  "fleetFetchStartStatus errFleetFetchRequestInvalid = InvalidArgument \<or>
     fleetFetchStartStatus errFleetFetchRequestInvalid = FailedPrecondition"
  by (rule endpoint_status_known [of "Some example_active" 0 "Some \<lparr>fr_WorkerId = [],
      fr_WorkerSessionId = [], fr_Sequence = 0, fr_MaximumPermits = 0,
      fr_PermitDeliveryAllowanceNanoseconds = 0, fr_CompletedSequence = None\<rparr>" "Some example_active"])
    (simp add: LeaseFetchStarts_def complete_and_respond_def lease_and_respond_def Lease_def
      lease_admission_def validRequestLocked_def)

definition example_decision :: fleetFetchStartDecision where
  "example_decision = \<lparr>de_Lease = example_lease 1 2000000000, de_Granted = True, de_RetryAt = 0,
     de_ServerObservedAt = 2100000000\<rparr>"

lemma example_response: "fd_Permits (lease_response 1 example_decision) = 1"
  by (simp add: lease_response_def example_decision_def example_lease_def RelativePermitWindow_def
      PermitWindow_def Let_def)

lemma endpoint_skips_closed_witness:
  "0 < fd_FirstPermitClosesAfterNanoseconds (lease_response 1 example_decision)"
proof -
  have "de_Granted example_decision" "\<not> le_Unlimited (de_Lease example_decision)"
    "0 < fd_Permits (lease_response 1 example_decision)"
    using example_response by (simp_all add: example_decision_def example_lease_def)
  from endpoint_skips_closed [OF this] show ?thesis by blast
qed

end
