(* ===== verification/CrawlLease.thy ===== *)
theory CrawlLease
  imports CrawlIdentity GoLib
begin

text \<open>
  \<^verbatim>\<open>yago-crawler/internal/crawllease\<close>: the leases of crawl orders that a crawler
  holds. A lease is tracked when its order arrives, confirmed by the first accepted renewal, kept
  by later ones, and ends when it is settled, rejected, revoked or expires; work on its order runs
  under a context that is cancelled when the lease ends. While the settlement of an order is under
  way, its lease does not expire. The registry's mutex makes each operation one step; the time
  that a step reads from the clock is an argument. A context is a number, with a log of the
  cancelled ones; a signal channel that is closed and replaced is a count of its closings, the
  buffered wake channel is a flag.
\<close>

section \<open>Definitions\<close>

definition MaximumCrawlLeaseIDBytes :: nat where "MaximumCrawlLeaseIDBytes = 256"

definition ValidCrawlLeaseID :: "string \<Rightarrow> bool" where
  "ValidCrawlLeaseID leaseID \<longleftrightarrow> leaseID \<noteq> [] \<and> length leaseID \<le> MaximumCrawlLeaseIDBytes \<and>
     valid_utf8 (map of_char leaseID)"

record grantSettlement =
  se_attempts :: nat
  se_responseAt :: go_time
  se_responseRejected :: bool

definition settling_active :: "grantSettlement \<Rightarrow> bool" where
  "settling_active s \<longleftrightarrow> se_attempts s > 0"

definition recordResponse :: "grantSettlement \<Rightarrow> go_time \<Rightarrow> bool \<Rightarrow> grantSettlement" where
  "recordResponse s started live = s\<lparr>se_responseAt := started, se_responseRejected := \<not> live\<rparr>"

record grant =
  gr_ctx :: nat
  gr_expiresAt :: go_time
  gr_renewedAt :: go_time
  gr_confirmed :: bool
  gr_settling :: grantSettlement

definition new_grant :: "nat \<Rightarrow> grant" where
  "new_grant ctx = \<lparr>gr_ctx = ctx, gr_expiresAt = 0, gr_renewedAt = 0, gr_confirmed = False,
     gr_settling = \<lparr>se_attempts = 0, se_responseAt = 0, se_responseRejected = False\<rparr>\<rparr>"

text \<open>The cause with which a context is cancelled: the loss of the lease, or the plain
  cancellation of a settled one.\<close>

datatype cancel_cause = ErrLeaseLost | ContextCanceled

record GrantRegistry =
  reg_grants :: "(string, grant) gomap"
  reg_capacity :: nat
  reg_wake :: bool
  reg_availabilityChanges :: nat
  reg_leaseLosses :: nat
  reg_contexts :: nat
  reg_cancelled :: "(nat \<times> cancel_cause) list"

definition newGrantRegistry :: "int \<Rightarrow> GrantRegistry" where
  "newGrantRegistry capacity = \<lparr>reg_grants = [], reg_capacity = nat (max 1 capacity),
     reg_wake = False, reg_availabilityChanges = 0, reg_leaseLosses = 0, reg_contexts = 0,
     reg_cancelled = []\<rparr>"

subsection \<open>Signals and losses\<close>

definition signalLocked :: "GrantRegistry \<Rightarrow> GrantRegistry" where
  "signalLocked r = r\<lparr>reg_wake := True\<rparr>"

definition signalAvailabilityChangeLocked :: "GrantRegistry \<Rightarrow> GrantRegistry" where
  "signalAvailabilityChangeLocked r = r\<lparr>reg_availabilityChanges := reg_availabilityChanges r + 1\<rparr>"

definition signalLeaseLossLocked :: "GrantRegistry \<Rightarrow> GrantRegistry" where
  "signalLeaseLossLocked r = r\<lparr>reg_leaseLosses := reg_leaseLosses r + 1\<rparr>"

definition end_grant :: "cancel_cause \<Rightarrow> GrantRegistry \<Rightarrow> string \<Rightarrow> grant \<Rightarrow> GrantRegistry" where
  "end_grant cause r leaseID current =
     r\<lparr>reg_cancelled := reg_cancelled r @ [(gr_ctx current, cause)],
       reg_grants := AList.delete leaseID (reg_grants r)\<rparr>"

definition loseLocked :: "GrantRegistry \<Rightarrow> string \<Rightarrow> grant \<Rightarrow> GrantRegistry" where
  "loseLocked r leaseID current = end_grant ErrLeaseLost r leaseID current"

definition expired_grant :: "go_time \<Rightarrow> grant \<Rightarrow> bool" where
  "expired_grant now g \<longleftrightarrow>
     gr_confirmed g \<and> \<not> settling_active (gr_settling g) \<and> \<not> gr_expiresAt g > now"

text \<open>The loop over the map, which deletes from the map it ranges over.\<close>

definition expireLocked :: "GrantRegistry \<Rightarrow> go_time \<Rightarrow> GrantRegistry \<times> bool" where
  "expireLocked r now = foldl (\<lambda>(r, changed) (leaseID, current).
       if expired_grant now current then (loseLocked r leaseID current, True) else (r, changed))
     (r, False) (reg_grants r)"

definition expireAndSignalLocked :: "GrantRegistry \<Rightarrow> go_time \<Rightarrow> GrantRegistry" where
  "expireAndSignalLocked r now = (case expireLocked r now of
     (r, changed) \<Rightarrow>
       if changed then signalLeaseLossLocked (signalAvailabilityChangeLocked r) else r)"

subsection \<open>Tracking\<close>

text \<open>The first pass over the batch: None is an invalid lease id.\<close>

fun unique_lease_ids :: "string list \<Rightarrow> string list \<Rightarrow> string list option" where
  "unique_lease_ids unique [] = Some unique"
| "unique_lease_ids unique (leaseID # rest) =
     (if \<not> ValidCrawlLeaseID leaseID then None
      else if leaseID \<in> set unique then unique_lease_ids unique rest
      else unique_lease_ids (unique @ [leaseID]) rest)"

datatype track_error = InvalidLeaseID | CapacityReached nat

definition add_grant :: "GrantRegistry \<Rightarrow> string \<Rightarrow> GrantRegistry" where
  "add_grant r leaseID =
     r\<lparr>reg_grants := AList.update leaseID (new_grant (reg_contexts r)) (reg_grants r),
       reg_contexts := reg_contexts r + 1\<rparr>"

definition TrackMany :: "GrantRegistry \<Rightarrow> string list \<Rightarrow> GrantRegistry \<times> (track_error, string list) result" where
  "TrackMany r leaseIDs = (case unique_lease_ids [] leaseIDs of
     None \<Rightarrow> (r, Inl InvalidLeaseID)
   | Some unique \<Rightarrow>
       let added = filter (\<lambda>leaseID. map_of (reg_grants r) leaseID = None) unique
       in if length (reg_grants r) + length added > reg_capacity r
          then (r, Inl (CapacityReached (reg_capacity r)))
          else
            let r = foldl add_grant r added;
                r = (if added \<noteq> [] then signalAvailabilityChangeLocked (signalLocked r) else r)
            in (r, Inr added))"

definition Track :: "GrantRegistry \<Rightarrow> string \<Rightarrow> GrantRegistry \<times> track_error option" where
  "Track r leaseID = (case TrackMany r [leaseID] of
     (r, Inl e) \<Rightarrow> (r, Some e)
   | (r, Inr added) \<Rightarrow> (r, None))"

subsection \<open>Renewal\<close>

datatype grantRenewalOutcome = grantRenewalUnchanged | grantRenewalConfirmed
  | grantRenewalExtended | grantRenewalLost

definition confirm_grant :: "grant \<Rightarrow> go_time \<Rightarrow> go_time \<Rightarrow> grant \<times> grantRenewalOutcome" where
  "confirm_grant current requestStarted deadline =
     (current\<lparr>gr_confirmed := True, gr_renewedAt := requestStarted,
        gr_expiresAt := (if deadline > gr_expiresAt current then deadline else gr_expiresAt current)\<rparr>,
      if gr_confirmed current then grantRenewalExtended else grantRenewalConfirmed)"

definition applyRenewal ::
  "grant \<Rightarrow> go_time \<Rightarrow> go_time \<Rightarrow> go_time \<Rightarrow> bool \<Rightarrow> duration \<Rightarrow> grant \<times> grantRenewalOutcome" where
  "applyRenewal current requestStarted deadline now accepted timeToLive =
     (if gr_confirmed current \<and> requestStarted < gr_renewedAt current
      then (current, grantRenewalUnchanged)
      else if settling_active (gr_settling current) \<and>
        requestStarted < se_responseAt (gr_settling current)
      then (current, grantRenewalUnchanged)
      else
        let responseLive = accepted \<and> timeToLive > 0 \<and> deadline > now
        in if settling_active (gr_settling current)
           then
             let current = current\<lparr>gr_settling :=
                   recordResponse (gr_settling current) requestStarted responseLive\<rparr>
             in if \<not> responseLive then (current, grantRenewalUnchanged)
                else confirm_grant current requestStarted deadline
           else if \<not> responseLive \<or>
             gr_confirmed current \<and> \<not> requestStarted < gr_expiresAt current
           then (current, grantRenewalLost)
           else confirm_grant current requestStarted deadline)"

text \<open>One lease of a renewal: the state, whether the availability changed, whether a lease was
  lost.\<close>

definition renew_lease ::
  "go_time \<Rightarrow> go_time \<Rightarrow> go_time \<Rightarrow> duration \<Rightarrow> string list \<Rightarrow>
     GrantRegistry \<times> bool \<times> bool \<Rightarrow> string \<Rightarrow> GrantRegistry \<times> bool \<times> bool" where
  "renew_lease requestStarted deadline now timeToLive renewed = (\<lambda>(r, availabilityChanged, leaseLost) leaseID.
     case map_of (reg_grants r) leaseID of
       None \<Rightarrow> (r, availabilityChanged, leaseLost)
     | Some current \<Rightarrow>
         (case applyRenewal current requestStarted deadline now (leaseID \<in> set renewed) timeToLive of
            (current, outcome) \<Rightarrow>
              let r = r\<lparr>reg_grants := AList.update leaseID current (reg_grants r)\<rparr>
              in if outcome = grantRenewalLost then (loseLocked r leaseID current, True, True)
                 else if outcome = grantRenewalConfirmed then (r, True, leaseLost)
                 else (r, availabilityChanged, leaseLost)))"

definition Renew ::
  "GrantRegistry \<Rightarrow> go_time \<Rightarrow> go_time \<Rightarrow> duration \<Rightarrow> string list \<Rightarrow> string list \<Rightarrow> GrantRegistry" where
  "Renew r now requestStarted timeToLive requested renewed =
     (let deadline = requestStarted + timeToLive in
      case foldl (renew_lease requestStarted deadline now timeToLive renewed) (r, False, False)
        (remdups requested) of
        (r, availabilityChanged, leaseLost) \<Rightarrow>
          (case expireLocked r now of
             (r, expired) \<Rightarrow>
               let r = signalLocked r;
                   r = (if expired \<or> availabilityChanged then signalAvailabilityChangeLocked r else r)
               in if leaseLost \<or> expired then signalLeaseLossLocked r else r))"

subsection \<open>Reading\<close>

definition ActiveLeaseIDs :: "GrantRegistry \<Rightarrow> go_time \<Rightarrow> GrantRegistry \<times> string list" where
  "ActiveLeaseIDs r now =
     (let r = expireAndSignalLocked r now in (r, sort (map_keys (reg_grants r))))"

definition Confirmed :: "GrantRegistry \<Rightarrow> go_time \<Rightarrow> string \<Rightarrow> GrantRegistry \<times> bool" where
  "Confirmed r now leaseID =
     (let r = expireAndSignalLocked r now
      in (r, case map_of (reg_grants r) leaseID of None \<Rightarrow> False | Some g \<Rightarrow> gr_confirmed g))"

definition lease_context :: "GrantRegistry \<Rightarrow> go_time \<Rightarrow> string \<Rightarrow> GrantRegistry \<times> nat option" where
  "lease_context r now leaseID =
     (let r = expireAndSignalLocked r now
      in (r, case map_of (reg_grants r) leaseID of
            None \<Rightarrow> None
          | Some g \<Rightarrow> if gr_confirmed g then Some (gr_ctx g) else None))"

definition AvailabilityChanges :: "GrantRegistry \<Rightarrow> go_time \<Rightarrow> GrantRegistry \<times> nat" where
  "AvailabilityChanges r now =
     (let r = expireAndSignalLocked r now in (r, reg_availabilityChanges r))"

definition LeaseLosses :: "GrantRegistry \<Rightarrow> go_time \<Rightarrow> GrantRegistry \<times> nat" where
  "LeaseLosses r now = (let r = expireAndSignalLocked r now in (r, reg_leaseLosses r))"

subsection \<open>Ending leases\<close>

definition Revoke :: "GrantRegistry \<Rightarrow> string \<Rightarrow> GrantRegistry" where
  "Revoke r leaseID = (case map_of (reg_grants r) leaseID of
     None \<Rightarrow> r
   | Some current \<Rightarrow>
       signalAvailabilityChangeLocked (signalLocked (loseLocked r leaseID current)))"

definition Reject :: "GrantRegistry \<Rightarrow> string \<Rightarrow> GrantRegistry" where
  "Reject r leaseID = (case map_of (reg_grants r) leaseID of
     None \<Rightarrow> r
   | Some current \<Rightarrow>
       signalLeaseLossLocked (signalAvailabilityChangeLocked (signalLocked (loseLocked r leaseID current))))"

definition Settle :: "GrantRegistry \<Rightarrow> string \<Rightarrow> GrantRegistry" where
  "Settle r leaseID = (case map_of (reg_grants r) leaseID of
     None \<Rightarrow> r
   | Some current \<Rightarrow>
       signalAvailabilityChangeLocked (signalLocked (end_grant ContextCanceled r leaseID current)))"

definition BeginSettlement :: "GrantRegistry \<Rightarrow> go_time \<Rightarrow> string \<Rightarrow> GrantRegistry \<times> bool" where
  "BeginSettlement r now leaseID =
     (let r = expireAndSignalLocked r now in
      case map_of (reg_grants r) leaseID of
        None \<Rightarrow> (r, False)
      | Some current \<Rightarrow>
          if \<not> gr_confirmed current then (r, False)
          else
            let settling = gr_settling current;
                settling = (if settling_active settling then settling
                  else settling\<lparr>se_responseAt := 0, se_responseRejected := False\<rparr>);
                current = current\<lparr>gr_settling := settling\<lparr>se_attempts := se_attempts settling + 1\<rparr>\<rparr>
            in (signalLocked (r\<lparr>reg_grants := AList.update leaseID current (reg_grants r)\<rparr>), True))"

definition SettlementFailed :: "GrantRegistry \<Rightarrow> go_time \<Rightarrow> string \<Rightarrow> GrantRegistry" where
  "SettlementFailed r now leaseID = (case map_of (reg_grants r) leaseID of
     None \<Rightarrow> r
   | Some current \<Rightarrow>
       if \<not> settling_active (gr_settling current) then r
       else
         let settling = (gr_settling current)\<lparr>se_attempts := se_attempts (gr_settling current) - 1\<rparr>
         in if settling_active settling
            then r\<lparr>reg_grants := AList.update leaseID (current\<lparr>gr_settling := settling\<rparr>) (reg_grants r)\<rparr>
            else
              let rejected = se_responseRejected settling;
                  current = current\<lparr>gr_settling :=
                    settling\<lparr>se_responseAt := 0, se_responseRejected := False\<rparr>\<rparr>;
                  r = signalLocked (r\<lparr>reg_grants := AList.update leaseID current (reg_grants r)\<rparr>)
              in if \<not> rejected \<and> (\<not> gr_confirmed current \<or> gr_expiresAt current > now) then r
                 else signalLeaseLossLocked (signalAvailabilityChangeLocked
                        (loseLocked r leaseID current)))"

subsection \<open>The watcher\<close>

text \<open>The earliest expiry, with the zero time for none, as the loop keeps it.\<close>

definition earlier_expiry :: "go_time \<Rightarrow> grant \<Rightarrow> go_time" where
  "earlier_expiry earliest g =
     (if \<not> gr_confirmed g \<or> settling_active (gr_settling g) then earliest
      else if earliest = 0 \<or> gr_expiresAt g < earliest then gr_expiresAt g else earliest)"

definition nextExpiry :: "GrantRegistry \<Rightarrow> go_time \<Rightarrow> GrantRegistry \<times> duration" where
  "nextExpiry r now =
     (let r = expireAndSignalLocked r now;
          earliest = foldl earlier_expiry 0 (map snd (reg_grants r))
      in (r, if earliest = 0 then - 1 else max 0 (time_sub earliest now)))"

definition expire_registry :: "GrantRegistry \<Rightarrow> go_time \<Rightarrow> GrantRegistry" where
  "expire_registry r now = expireAndSignalLocked r now"

definition close_registry :: "GrantRegistry \<Rightarrow> GrantRegistry" where
  "close_registry r =
     (let changed = reg_grants r \<noteq> [];
          r = foldl (\<lambda>r (leaseID, current). loseLocked r leaseID current) r (reg_grants r)
      in if changed then signalAvailabilityChangeLocked r else r)"

text \<open>One round of the watcher: it computes its wait and then sees the timer, a wake-up or the end
  of its context; with no expiry to wait for there is no timer. The flag says whether it goes
  on.\<close>

datatype watch_event = WatchTimer go_time | WatchWake | WatchDone

definition watch_round :: "GrantRegistry \<Rightarrow> go_time \<Rightarrow> watch_event \<Rightarrow> GrantRegistry \<times> bool" where
  "watch_round r now e = (case nextExpiry r now of
     (r, wait) \<Rightarrow> (case e of
       WatchDone \<Rightarrow> (close_registry r, False)
     | WatchWake \<Rightarrow> (r\<lparr>reg_wake := False\<rparr>, True)
     | WatchTimer at \<Rightarrow> (if wait < 0 then r else expire_registry r at, True)))"

section \<open>Contexts\<close>

lemma mset_delete_present:
  "wf_map m \<Longrightarrow> map_of m k = Some v \<Longrightarrow> mset m = add_mset (k, v) (mset (AList.delete k m))"
proof (induction m)
  case (Cons p m)
  obtain k' v' where p: "p = (k', v')" by (cases p)
  show ?case
  proof (cases "k' = k")
    case True
    then have "k \<notin> set (map fst m)" using Cons.prems(1) p by (simp add: wf_map_def)
    then have "AList.delete k m = m" by (simp add: delete_idem)
    with True p Cons.prems(2) show ?thesis by (simp add: AList.delete_eq)
  next
    case False
    with Cons p show ?thesis by (simp add: AList.delete_eq wf_map_def)
  qed
qed simp

lemma mset_update_present:
  "wf_map m \<Longrightarrow> map_of m k = Some v \<Longrightarrow>
     mset (AList.update k w m) = add_mset (k, w) (mset (AList.delete k m))"
proof -
  assume a: "wf_map m" "map_of m k = Some v"
  have d: "AList.delete k (AList.update k w m) = AList.delete k m"
    by (induction m) (auto simp: AList.delete_eq)
  show ?thesis
    using mset_delete_present [of "AList.update k w m" k w] a by (simp add: d)
qed

lemma mset_update_absent:
  "map_of m k = None \<Longrightarrow> mset (AList.update k v m) = add_mset (k, v) (mset m)"
  by (induction m) (auto split: if_split_asm)

definition live_contexts :: "GrantRegistry \<Rightarrow> nat multiset" where
  "live_contexts r = image_mset (\<lambda>(leaseID, g). gr_ctx g) (mset (reg_grants r))"

text \<open>Every context that was made is held by one tracked lease or was cancelled once.\<close>

definition registry_inv :: "GrantRegistry \<Rightarrow> bool" where
  "registry_inv r \<longleftrightarrow> wf_map (reg_grants r) \<and> length (reg_grants r) \<le> reg_capacity r \<and>
     live_contexts r + mset (map fst (reg_cancelled r)) = mset [0..<reg_contexts r]"

lemma new_registry_inv: "registry_inv (newGrantRegistry capacity)"
  by (simp add: registry_inv_def newGrantRegistry_def live_contexts_def)

lemma signal_fields [simp]:
  "reg_grants (signalLocked r) = reg_grants r" "reg_grants (signalAvailabilityChangeLocked r) = reg_grants r"
  "reg_grants (signalLeaseLossLocked r) = reg_grants r"
  "reg_cancelled (signalLocked r) = reg_cancelled r"
  "reg_cancelled (signalAvailabilityChangeLocked r) = reg_cancelled r"
  "reg_cancelled (signalLeaseLossLocked r) = reg_cancelled r"
  by (simp_all add: signalLocked_def signalAvailabilityChangeLocked_def signalLeaseLossLocked_def)

lemma signal_inv [simp]:
  "registry_inv (signalLocked r) = registry_inv r"
  "registry_inv (signalAvailabilityChangeLocked r) = registry_inv r"
  "registry_inv (signalLeaseLossLocked r) = registry_inv r"
  by (simp_all add: registry_inv_def live_contexts_def signalLocked_def
      signalAvailabilityChangeLocked_def signalLeaseLossLocked_def)

lemma end_grant_inv:
  assumes "registry_inv r" "map_of (reg_grants r) leaseID = Some g"
  shows "registry_inv (end_grant cause r leaseID g)"
proof -
  have "mset (reg_grants r) = add_mset (leaseID, g) (mset (AList.delete leaseID (reg_grants r)))"
    using assms by (intro mset_delete_present) (simp_all add: registry_inv_def)
  then show ?thesis
    using assms(1) length_delete_le [of leaseID "reg_grants r"]
    by (simp add: registry_inv_def live_contexts_def end_grant_def)
qed

lemma update_grant_inv:
  assumes "registry_inv r" "map_of (reg_grants r) leaseID = Some g" "gr_ctx g' = gr_ctx g"
  shows "registry_inv (r\<lparr>reg_grants := AList.update leaseID g' (reg_grants r)\<rparr>)"
  using assms mset_delete_present [of "reg_grants r" leaseID g]
    mset_update_present [of "reg_grants r" leaseID g g'] length_update_present [OF assms(2), of g']
  by (simp add: registry_inv_def live_contexts_def)

lemma add_grants_inv:
  "registry_inv r \<Longrightarrow> distinct ids \<Longrightarrow> \<forall>i\<in>set ids. map_of (reg_grants r) i = None \<Longrightarrow>
     length (reg_grants r) + length ids \<le> reg_capacity r \<Longrightarrow> registry_inv (foldl add_grant r ids)"
proof (induction ids arbitrary: r)
  case (Cons i ids)
  have "registry_inv (add_grant r i)"
    using Cons.prems mset_update_absent [of "reg_grants r" i "new_grant (reg_contexts r)"]
      length_update_absent [of "reg_grants r" i "new_grant (reg_contexts r)"]
    by (simp add: registry_inv_def add_grant_def live_contexts_def new_grant_def)
  moreover have "reg_grants (add_grant r i) = AList.update i (new_grant (reg_contexts r)) (reg_grants r)"
    "reg_capacity (add_grant r i) = reg_capacity r"
    by (simp_all add: add_grant_def)
  moreover have "length (AList.update i (new_grant (reg_contexts r)) (reg_grants r)) =
      Suc (length (reg_grants r))"
    using Cons.prems(3) by (intro length_update_absent) simp
  moreover have "\<forall>j\<in>set ids. j \<noteq> i" using Cons.prems(2) by auto
  ultimately show ?case using Cons.IH [of "add_grant r i"] Cons.prems by simp
qed simp

text \<open>The loop that expires leases keeps the leases that have not expired.\<close>

lemma expire_fold:
  "distinct (map fst xs) \<Longrightarrow> set xs \<subseteq> set (reg_grants r) \<Longrightarrow> wf_map (reg_grants r) \<Longrightarrow>
     foldl (\<lambda>(r, changed) (leaseID, current).
         if expired_grant now current then (loseLocked r leaseID current, True) else (r, changed))
       (r, c) xs =
     (r\<lparr>reg_grants := filter (\<lambda>(k, g). k \<notin> fst ` set (filter (\<lambda>(k, g). expired_grant now g) xs)) (reg_grants r),
        reg_cancelled := reg_cancelled r @
          map (\<lambda>(k, g). (gr_ctx g, ErrLeaseLost)) (filter (\<lambda>(k, g). expired_grant now g) xs)\<rparr>,
      c \<or> list_ex (\<lambda>(k, g). expired_grant now g) xs)"
proof (induction xs arbitrary: r c)
  case (Cons p xs)
  obtain k g where p: "p = (k, g)" by (cases p)
  show ?case
  proof (cases "expired_grant now g")
    case False
    with Cons p show ?thesis by simp
  next
    case True
    let ?r = "loseLocked r k g"
    have gr: "reg_grants ?r = filter (\<lambda>(k', g). k' \<noteq> k) (reg_grants r)"
      unfolding loseLocked_def end_grant_def AList.delete_eq by (auto intro!: filter_cong)
    have sub: "set xs \<subseteq> set (reg_grants ?r)"
      using Cons.prems(1,2) p unfolding gr by (auto simp: image_iff)
    have wf: "wf_map (reg_grants ?r)" using Cons.prems(3) by (simp add: loseLocked_def end_grant_def)
    have dx: "distinct (map fst xs)" using Cons.prems(1) by simp
    note IH = Cons.IH [OF dx sub wf, of True]
    have f: "filter (\<lambda>(k', g). k' \<notin> fst ` set (filter (\<lambda>(k, g). expired_grant now g) xs))
          (filter (\<lambda>(k', g). k' \<noteq> k) (reg_grants r)) =
        filter (\<lambda>(k', g). k' \<notin> fst ` set (filter (\<lambda>(k, g). expired_grant now g) (p # xs))) (reg_grants r)"
      using True p unfolding filter_filter by (intro filter_cong) auto
    show ?thesis using True p IH gr f by (simp add: loseLocked_def end_grant_def)
  qed
qed simp

lemma expireLocked_eq:
  assumes "wf_map (reg_grants r)"
  shows "expireLocked r now =
     (r\<lparr>reg_grants := filter (\<lambda>(k, g). \<not> expired_grant now g) (reg_grants r),
        reg_cancelled := reg_cancelled r @
          map (\<lambda>(k, g). (gr_ctx g, ErrLeaseLost)) (filter (\<lambda>(k, g). expired_grant now g) (reg_grants r))\<rparr>,
      list_ex (\<lambda>(k, g). expired_grant now g) (reg_grants r))"
proof -
  have d: "distinct (map fst (reg_grants r))" using assms by (simp add: wf_map_def)
  have "(k \<notin> fst ` set (filter (\<lambda>(k, g). expired_grant now g) (reg_grants r))) = (\<not> expired_grant now g)"
    if "(k, g) \<in> set (reg_grants r)" for k g
    using that d by (auto simp: image_iff) (metis eq_key_imp_eq_value)
  then have "filter (\<lambda>(k, g). k \<notin> fst ` set (filter (\<lambda>(k, g). expired_grant now g) (reg_grants r))) (reg_grants r) =
      filter (\<lambda>(k, g). \<not> expired_grant now g) (reg_grants r)"
    by (intro filter_cong) auto
  then show ?thesis
    using expire_fold [OF d, of r now False] assms by (simp add: expireLocked_def)
qed

definition keep_live :: "go_time \<Rightarrow> GrantRegistry \<Rightarrow> (string, grant) gomap" where
  "keep_live now r = filter (\<lambda>(k, g). \<not> expired_grant now g) (reg_grants r)"

lemma map_of_filter_wf:
  "wf_map m \<Longrightarrow> map_of (filter (\<lambda>(k, g). P g) m) k =
     (case map_of m k of None \<Rightarrow> None | Some g \<Rightarrow> if P g then Some g else None)"
proof (induction m)
  case (Cons p m)
  obtain k' g' where p: "p = (k', g')" by (cases p)
  have "map_of m k' = None" using Cons.prems p by (simp add: wf_map_def map_of_eq_None_iff)
  with Cons p show ?case by (auto simp: wf_map_def split: option.splits)
qed simp

lemma expireLocked_inv:
  assumes "registry_inv r" "expireLocked r now = (r', changed)"
  shows "registry_inv r'" "reg_grants r' = keep_live now r"
    "changed \<longleftrightarrow> (\<exists>k g. map_of (reg_grants r) k = Some g \<and> expired_grant now g)"
    "reg_leaseLosses r' = reg_leaseLosses r" "reg_availabilityChanges r' = reg_availabilityChanges r"
    "changed \<longleftrightarrow> reg_cancelled r' \<noteq> reg_cancelled r" "prefix (reg_cancelled r) (reg_cancelled r')"
proof -
  have wf: "wf_map (reg_grants r)" using assms(1) by (simp add: registry_inv_def)
  note e = expireLocked_eq [OF wf, of now, unfolded assms(2)]
  have part: "mset (filter P xs) + mset (filter (\<lambda>x. \<not> P x) xs) = mset xs" for P and xs :: "(string \<times> grant) list"
    by (induction xs) auto
  have not_split: "(\<lambda>(k, g). \<not> expired_grant now g) = (\<lambda>p. \<not> (case p of (k, g) \<Rightarrow> expired_grant now g))"
    by auto
  let ?dead = "filter (\<lambda>(k, g). expired_grant now g) (reg_grants r)"
    and ?live = "filter (\<lambda>(k, g). \<not> expired_grant now g) (reg_grants r)"
  have "mset ?live + mset ?dead = mset (reg_grants r)"
    using part [of "\<lambda>(k, g). expired_grant now g" "reg_grants r"]
    unfolding not_split by (simp only: add.commute)
  then have sum: "image_mset (\<lambda>(k, g). gr_ctx g) (mset ?live) + image_mset (\<lambda>(k, g). gr_ctx g) (mset ?dead) =
      live_contexts r"
    unfolding live_contexts_def by (simp only: image_mset_union [symmetric])
  have fst_map: "map fst (map (\<lambda>(k, g). (gr_ctx g, ErrLeaseLost)) ?dead) = map (\<lambda>(k, g). gr_ctx g) ?dead"
    by (induction "reg_grants r") auto
  have rc: "reg_cancelled r' = reg_cancelled r @ map (\<lambda>(k, g). (gr_ctx g, ErrLeaseLost)) ?dead"
    using e by simp
  have cancelled: "mset (map fst (reg_cancelled r')) =
      mset (map fst (reg_cancelled r)) + image_mset (\<lambda>(k, g). gr_ctx g) (mset ?dead)"
    unfolding rc map_append mset_append fst_map mset_map by (rule refl)
  have "live_contexts r' = image_mset (\<lambda>(k, g). gr_ctx g) (mset ?live)"
    using e by (simp add: live_contexts_def)
  then have "live_contexts r' + mset (map fst (reg_cancelled r')) =
      live_contexts r + mset (map fst (reg_cancelled r))"
    unfolding cancelled sum [symmetric] by (simp only: ac_simps)
  moreover have "length (reg_grants r') \<le> length (reg_grants r)" using e by simp
  moreover have "wf_map (reg_grants r')" using wf e by (simp add: wf_map_def distinct_map_filter)
  moreover have "reg_contexts r' = reg_contexts r" "reg_capacity r' = reg_capacity r" using e by simp_all
  ultimately show "registry_inv r'" using assms(1) by (simp add: registry_inv_def)
  show "reg_grants r' = keep_live now r" using e by (simp add: keep_live_def)
  show c: "changed \<longleftrightarrow> (\<exists>k g. map_of (reg_grants r) k = Some g \<and> expired_grant now g)"
    using e wf by (force simp: list_ex_iff wf_map_def)
  show "reg_leaseLosses r' = reg_leaseLosses r" "reg_availabilityChanges r' = reg_availabilityChanges r"
    using e by simp_all
  show "changed \<longleftrightarrow> reg_cancelled r' \<noteq> reg_cancelled r"
    using e by (simp add: list_ex_iff filter_empty_conv)
  show "prefix (reg_cancelled r) (reg_cancelled r')" using e by simp
qed

lemma expire_signal_inv:
  assumes "registry_inv r" "r' = expireAndSignalLocked r now"
  shows "registry_inv r'" "reg_grants r' = keep_live now r"
    "reg_cancelled r' \<noteq> reg_cancelled r \<Longrightarrow> reg_leaseLosses r < reg_leaseLosses r' \<and>
       reg_availabilityChanges r < reg_availabilityChanges r'"
    "reg_leaseLosses r \<le> reg_leaseLosses r'" "reg_availabilityChanges r \<le> reg_availabilityChanges r'"
proof -
  obtain r1 c where e: "expireLocked r now = (r1, c)" by (cases "expireLocked r now")
  note i = expireLocked_inv [OF assms(1) e]
  have r': "r' = (if c then signalLeaseLossLocked (signalAvailabilityChangeLocked r1) else r1)"
    using assms(2) e by (simp add: expireAndSignalLocked_def)
  show "registry_inv r'" "reg_grants r' = keep_live now r" using r' i(1,2) by simp_all
  show "reg_cancelled r' \<noteq> reg_cancelled r \<Longrightarrow> reg_leaseLosses r < reg_leaseLosses r' \<and>
       reg_availabilityChanges r < reg_availabilityChanges r'"
    "reg_leaseLosses r \<le> reg_leaseLosses r'" "reg_availabilityChanges r \<le> reg_availabilityChanges r'"
    using r' i(4-6)
    by (cases c; simp add: signalLeaseLossLocked_def signalAvailabilityChangeLocked_def)+
qed

section \<open>The operations keep the invariant\<close>

lemma keep_live_map:
  "registry_inv r \<Longrightarrow> map_of (keep_live now r) k =
     (case map_of (reg_grants r) k of None \<Rightarrow> None | Some g \<Rightarrow> if expired_grant now g then None else Some g)"
  by (auto simp: keep_live_def registry_inv_def map_of_filter_wf split: option.split)

lemma unique_lease_ids_distinct:
  "unique_lease_ids u ids = Some v \<Longrightarrow> distinct u \<Longrightarrow>
     distinct v \<and> set v = set u \<union> set ids \<and> list_all ValidCrawlLeaseID ids"
  by (induction u ids rule: unique_lease_ids.induct) (auto split: if_split_asm)

lemma TrackMany_inv:
  assumes "registry_inv r"
  shows "registry_inv (fst (TrackMany r ids))"
proof (cases "unique_lease_ids [] ids")
  case None
  then show ?thesis using assms by (simp add: TrackMany_def)
next
  case (Some u)
  let ?added = "filter (\<lambda>leaseID. map_of (reg_grants r) leaseID = None) u"
  have "distinct u" using unique_lease_ids_distinct [OF Some] by simp
  then have "registry_inv (foldl add_grant r ?added)"
    if "length (reg_grants r) + length ?added \<le> reg_capacity r"
    using that assms by (intro add_grants_inv) auto
  then show ?thesis using Some assms by (simp add: TrackMany_def Let_def not_less)
qed

lemma Track_inv: "registry_inv r \<Longrightarrow> registry_inv (fst (Track r i))"
  using TrackMany_inv [of r "[i]"] by (auto simp: Track_def split: prod.split sum.split)

lemma confirm_grant_frame:
  "confirm_grant g rs d = (g', out) \<Longrightarrow> gr_ctx g' = gr_ctx g \<and> gr_settling g' = gr_settling g \<and>
     gr_expiresAt g \<le> gr_expiresAt g' \<and> out \<noteq> grantRenewalLost \<and> gr_confirmed g'"
  by (auto simp: confirm_grant_def split: if_split_asm)

lemma applyRenewal_frame:
  assumes "applyRenewal g rs d now acc ttl = (g', out)"
  shows "gr_ctx g' = gr_ctx g \<and> gr_expiresAt g \<le> gr_expiresAt g' \<and>
    se_attempts (gr_settling g') = se_attempts (gr_settling g) \<and>
    (out = grantRenewalLost \<longrightarrow> \<not> settling_active (gr_settling g))"
proof -
  let ?g = "g\<lparr>gr_settling := recordResponse (gr_settling g) rs (acc \<and> ttl > 0 \<and> d > now)\<rparr>"
  have r: "se_attempts (recordResponse s t l) = se_attempts s" for s t l
    by (simp add: recordResponse_def)
  show ?thesis
    using assms confirm_grant_frame [of g rs d g' out] confirm_grant_frame [of ?g rs d g' out]
    by (auto simp: applyRenewal_def Let_def r split: if_split_asm)
qed

text \<open>One lease of a renewal: what becomes of the grants, and which signals it asks for.\<close>

lemma renew_lease_inv:
  assumes "registry_inv r" "renew_lease rs d now ttl renewed (r, av, lost) i = (r', av', lost')"
  shows "registry_inv r' \<and> (av \<longrightarrow> av') \<and> (lost \<longrightarrow> lost') \<and>
    (reg_cancelled r' = reg_cancelled r \<or> av' \<and> lost') \<and>
    reg_leaseLosses r' = reg_leaseLosses r \<and> reg_availabilityChanges r' = reg_availabilityChanges r \<and>
    (\<forall>j g. map_of (reg_grants r) j = Some g \<and> settling_active (gr_settling g) \<longrightarrow>
       (\<exists>g'. map_of (reg_grants r') j = Some g' \<and> gr_ctx g' = gr_ctx g \<and>
          se_attempts (gr_settling g') = se_attempts (gr_settling g))) \<and>
    (\<forall>j g'. map_of (reg_grants r') j = Some g' \<longrightarrow>
       (\<exists>g. map_of (reg_grants r) j = Some g \<and> gr_ctx g' = gr_ctx g \<and> gr_expiresAt g \<le> gr_expiresAt g'))"
proof (cases "map_of (reg_grants r) i")
  case None
  then have "r' = r" "av' = av" "lost' = lost" using assms(2) by (simp_all add: renew_lease_def)
  then show ?thesis using assms(1) by auto
next
  case (Some g)
  obtain g' out where a: "applyRenewal g rs d now (i \<in> set renewed) ttl = (g', out)"
    by (cases "applyRenewal g rs d now (i \<in> set renewed) ttl")
  let ?u = "r\<lparr>reg_grants := AList.update i g' (reg_grants r)\<rparr>"
  note f = applyRenewal_frame [OF a]
  have u: "registry_inv ?u" using update_grant_inv [OF assms(1) Some] f by simp
  have m: "map_of (reg_grants ?u) i = Some g'" by simp
  have l: "registry_inv (loseLocked ?u i g')"
    unfolding loseLocked_def by (rule end_grant_inv [OF u m])
  have "(out = grantRenewalLost \<and> r' = loseLocked ?u i g' \<and> av' \<and> lost') \<or>
      (out \<noteq> grantRenewalLost \<and> r' = ?u \<and> (av \<longrightarrow> av') \<and> lost' = lost)"
    using assms(2) Some a by (auto simp: renew_lease_def Let_def split: if_split_asm)
  then show ?thesis
  proof
    assume out: "out = grantRenewalLost \<and> r' = loseLocked ?u i g' \<and> av' \<and> lost'"
    then have "reg_grants r' = AList.delete i (AList.update i g' (reg_grants r))"
      "reg_leaseLosses r' = reg_leaseLosses r" "reg_availabilityChanges r' = reg_availabilityChanges r"
      by (simp_all add: loseLocked_def end_grant_def)
    then show ?thesis using out f Some l by auto
  next
    assume "out \<noteq> grantRenewalLost \<and> r' = ?u \<and> (av \<longrightarrow> av') \<and> lost' = lost"
    then show ?thesis using f Some u by auto
  qed
qed

text \<open>What a step of the registry may do to the leases: the settling ones stay with their context,
  the others may only go, and none gets a nearer expiry.\<close>

definition leases_kept :: "GrantRegistry \<Rightarrow> GrantRegistry \<Rightarrow> bool" where
  "leases_kept r r' \<longleftrightarrow>
     (\<forall>j g. map_of (reg_grants r) j = Some g \<and> settling_active (gr_settling g) \<longrightarrow>
       (\<exists>g'. map_of (reg_grants r') j = Some g' \<and> gr_ctx g' = gr_ctx g \<and>
          se_attempts (gr_settling g') = se_attempts (gr_settling g))) \<and>
     (\<forall>j g'. map_of (reg_grants r') j = Some g' \<longrightarrow>
       (\<exists>g. map_of (reg_grants r) j = Some g \<and> gr_ctx g' = gr_ctx g \<and> gr_expiresAt g \<le> gr_expiresAt g'))"

lemma leases_kept_refl: "leases_kept r r"
  by (simp add: leases_kept_def)

lemma leases_kept_settling:
  "leases_kept r r' \<Longrightarrow> map_of (reg_grants r) j = Some g \<Longrightarrow> settling_active (gr_settling g) \<Longrightarrow>
     \<exists>g'. map_of (reg_grants r') j = Some g' \<and> gr_ctx g' = gr_ctx g \<and>
       se_attempts (gr_settling g') = se_attempts (gr_settling g)"
  unfolding leases_kept_def by blast

lemma leases_kept_before:
  "leases_kept r r' \<Longrightarrow> map_of (reg_grants r') j = Some g' \<Longrightarrow>
     \<exists>g. map_of (reg_grants r) j = Some g \<and> gr_ctx g' = gr_ctx g \<and> gr_expiresAt g \<le> gr_expiresAt g'"
  unfolding leases_kept_def by blast

lemma leases_kept_trans:
  assumes "leases_kept a b" "leases_kept b c"
  shows "leases_kept a c"
proof -
  have "\<exists>g'. map_of (reg_grants c) j = Some g' \<and> gr_ctx g' = gr_ctx g \<and>
      se_attempts (gr_settling g') = se_attempts (gr_settling g)"
    if g: "map_of (reg_grants a) j = Some g" "settling_active (gr_settling g)" for j g
  proof -
    obtain h where h: "map_of (reg_grants b) j = Some h" "gr_ctx h = gr_ctx g"
      "se_attempts (gr_settling h) = se_attempts (gr_settling g)"
      using leases_kept_settling [OF assms(1) g] by blast
    then have "settling_active (gr_settling h)" using g(2) by (simp add: settling_active_def)
    from leases_kept_settling [OF assms(2) h(1) this] h show ?thesis by auto
  qed
  moreover have "\<exists>g. map_of (reg_grants a) j = Some g \<and> gr_ctx g' = gr_ctx g \<and>
      gr_expiresAt g \<le> gr_expiresAt g'" if g: "map_of (reg_grants c) j = Some g'" for j g'
  proof -
    obtain h where h: "map_of (reg_grants b) j = Some h" "gr_ctx g' = gr_ctx h"
      "gr_expiresAt h \<le> gr_expiresAt g'" using leases_kept_before [OF assms(2) g] by blast
    from leases_kept_before [OF assms(1) h(1)] h(2,3) show ?thesis by (auto intro: order.trans)
  qed
  ultimately show ?thesis unfolding leases_kept_def by blast
qed

lemma renew_fold_inv:
  "registry_inv r \<Longrightarrow> foldl (renew_lease rs d now ttl renewed) (r, av, lost) ids = (r', av', lost') \<Longrightarrow>
     registry_inv r' \<and> leases_kept r r' \<and> (av \<longrightarrow> av') \<and> (lost \<longrightarrow> lost') \<and>
     (reg_cancelled r' = reg_cancelled r \<or> av' \<and> lost') \<and>
     reg_leaseLosses r' = reg_leaseLosses r \<and> reg_availabilityChanges r' = reg_availabilityChanges r"
proof (induction ids arbitrary: r av lost)
  case Nil
  then show ?case by (simp add: leases_kept_refl)
next
  case (Cons i ids)
  obtain r1 av1 lost1 where s: "renew_lease rs d now ttl renewed (r, av, lost) i = (r1, av1, lost1)"
    by (cases "renew_lease rs d now ttl renewed (r, av, lost) i")
  note one = renew_lease_inv [OF Cons.prems(1) s]
  have "leases_kept r r1" using one unfolding leases_kept_def by blast
  moreover have "foldl (renew_lease rs d now ttl renewed) (r1, av1, lost1) ids = (r', av', lost')"
    using Cons.prems(2) s by simp
  ultimately show ?case using Cons.IH [of r1 av1 lost1] one leases_kept_trans [of r r1 r'] by auto
qed

lemma keep_live_kept:
  assumes "registry_inv r" "reg_grants r' = keep_live now r"
  shows "leases_kept r r'"
  using assms by (auto simp: leases_kept_def keep_live_map expired_grant_def split: option.splits if_splits)

lemma Renew_inv:
  assumes "registry_inv r"
  shows "registry_inv (Renew r now rs ttl req ren) \<and> leases_kept r (Renew r now rs ttl req ren) \<and>
    (reg_cancelled (Renew r now rs ttl req ren) = reg_cancelled r \<or>
       reg_leaseLosses r < reg_leaseLosses (Renew r now rs ttl req ren) \<and>
       reg_availabilityChanges r < reg_availabilityChanges (Renew r now rs ttl req ren))"
proof -
  obtain r1 av lost where f: "foldl (renew_lease rs (rs + ttl) now ttl ren) (r, False, False) (remdups req) =
      (r1, av, lost)"
    by (cases "foldl (renew_lease rs (rs + ttl) now ttl ren) (r, False, False) (remdups req)")
  note i1 = renew_fold_inv [OF assms f]
  then have inv1: "registry_inv r1" by simp
  obtain r2 c where e: "expireLocked r1 now = (r2, c)" by (cases "expireLocked r1 now")
  note i2 = expireLocked_inv [OF inv1 e]
  let ?r = "Renew r now rs ttl req ren"
  have fields: "reg_grants ?r = reg_grants r2" "registry_inv ?r = registry_inv r2"
    "reg_cancelled ?r = reg_cancelled r2"
    using f e by (simp_all add: Renew_def Let_def)
  have "leases_kept r2 ?r" using fields(1) by (simp add: leases_kept_def)
  then have "leases_kept r ?r"
    using i1 keep_live_kept [OF inv1 i2(2)] leases_kept_trans by metis
  moreover have "reg_leaseLosses ?r = reg_leaseLosses r + (if lost \<or> c then 1 else 0)"
    "reg_availabilityChanges ?r = reg_availabilityChanges r + (if av \<or> c then 1 else 0)"
    using f e i1 i2(4,5) by (auto simp: Renew_def Let_def signalLeaseLossLocked_def
        signalAvailabilityChangeLocked_def signalLocked_def)
  ultimately show ?thesis using fields i1 i2(1,6) by auto
qed

lemma BeginSettlement_inv:
  assumes "registry_inv r"
  shows "registry_inv (fst (BeginSettlement r now i))"
proof -
  let ?r = "expireAndSignalLocked r now"
  have e: "registry_inv ?r" by (rule expire_signal_inv(1) [OF assms refl])
  show ?thesis using e update_grant_inv [OF e, of i]
    by (auto simp: BeginSettlement_def Let_def split: option.split)
qed

lemma SettlementFailed_inv:
  assumes "registry_inv r"
  shows "registry_inv (SettlementFailed r now i)"
proof (cases "map_of (reg_grants r) i")
  case None
  then show ?thesis using assms by (simp add: SettlementFailed_def)
next
  case (Some g)
  have u: "registry_inv (r\<lparr>reg_grants := AList.update i g' (reg_grants r)\<rparr>)" if "gr_ctx g' = gr_ctx g" for g'
    by (rule update_grant_inv [OF assms Some that])
  have l: "registry_inv (loseLocked (signalLocked (r\<lparr>reg_grants := AList.update i g' (reg_grants r)\<rparr>)) i g')"
    if "gr_ctx g' = gr_ctx g" for g'
    unfolding loseLocked_def using u [OF that] by (intro end_grant_inv) simp_all
  show ?thesis using Some assms u l by (simp add: SettlementFailed_def Let_def)
qed

lemma close_fold_inv:
  "registry_inv r \<Longrightarrow> distinct (map fst xs) \<Longrightarrow> set xs \<subseteq> set (reg_grants r) \<Longrightarrow>
     registry_inv (foldl (\<lambda>r (leaseID, current). loseLocked r leaseID current) r xs)"
proof (induction xs arbitrary: r)
  case (Cons p xs)
  obtain k g where p: "p = (k, g)" by (cases p)
  have "map_of (reg_grants r) k = Some g"
    using Cons.prems(1,3) p by (intro wf_map_SomeI) (auto simp: registry_inv_def)
  then have "registry_inv (loseLocked r k g)"
    unfolding loseLocked_def by (rule end_grant_inv [OF Cons.prems(1)])
  moreover have "set xs \<subseteq> set (reg_grants (loseLocked r k g))"
    using Cons.prems(2,3) p by (auto simp: loseLocked_def end_grant_def AList.delete_eq image_iff)
  ultimately show ?case using Cons.IH Cons.prems(2) p by simp
qed simp

lemma close_inv:
  assumes "registry_inv r"
  shows "registry_inv (close_registry r)"
proof -
  have "distinct (map fst (reg_grants r))" using assms by (simp add: registry_inv_def wf_map_def)
  then show ?thesis
    using close_fold_inv [OF assms, of "reg_grants r"] assms by (simp add: close_registry_def Let_def)
qed

datatype lease_op = LTrack "string list" | LRenew go_time go_time duration "string list" "string list"
  | LRead go_time | LRevoke string | LReject string | LSettle string | LBegin go_time string
  | LFailed go_time string | LWatch go_time watch_event

text \<open>One operation; \<open>LRead\<close> stands for each of the operations that only read after dropping
  what has expired.\<close>

fun lease_step :: "GrantRegistry \<Rightarrow> lease_op \<Rightarrow> GrantRegistry" where
  "lease_step r (LTrack ids) = fst (TrackMany r ids)"
| "lease_step r (LRenew now rs ttl req ren) = Renew r now rs ttl req ren"
| "lease_step r (LRead now) = expireAndSignalLocked r now"
| "lease_step r (LRevoke i) = Revoke r i"
| "lease_step r (LReject i) = Reject r i"
| "lease_step r (LSettle i) = Settle r i"
| "lease_step r (LBegin now i) = fst (BeginSettlement r now i)"
| "lease_step r (LFailed now i) = SettlementFailed r now i"
| "lease_step r (LWatch now e) = fst (watch_round r now e)"

lemma read_steps:
  "fst (ActiveLeaseIDs r now) = lease_step r (LRead now)"
  "fst (Confirmed r now i) = lease_step r (LRead now)"
  "fst (lease_context r now i) = lease_step r (LRead now)"
  "fst (AvailabilityChanges r now) = lease_step r (LRead now)"
  "fst (LeaseLosses r now) = lease_step r (LRead now)"
  "fst (nextExpiry r now) = lease_step r (LRead now)"
  by (simp_all add: ActiveLeaseIDs_def Confirmed_def lease_context_def AvailabilityChanges_def
      LeaseLosses_def nextExpiry_def Let_def)

lemma lease_step_inv:
  assumes "registry_inv r"
  shows "registry_inv (lease_step r e)"
proof (cases e)
  case (LWatch now ev)
  have x: "registry_inv (expireAndSignalLocked r now)" by (rule expire_signal_inv(1) [OF assms refl])
  have wake: "registry_inv (r'\<lparr>reg_wake := False\<rparr>) = registry_inv r'" for r'
    by (simp add: registry_inv_def live_contexts_def)
  show ?thesis using LWatch x close_inv [OF x] expire_signal_inv(1) [OF x refl]
    by (auto simp: watch_round_def nextExpiry_def Let_def expire_registry_def wake split: watch_event.split)
qed (use assms TrackMany_inv Renew_inv expire_signal_inv(1) [OF assms refl] BeginSettlement_inv
    SettlementFailed_inv in \<open>auto simp: Revoke_def Reject_def Settle_def loseLocked_def
      intro: end_grant_inv split: option.split\<close>)

interpretation lease_registry: invariant_machine lease_step registry_inv
  by unfold_locales (rule lease_step_inv)

lemma expire_capacity: "expireLocked r now = (r', c) \<Longrightarrow> reg_capacity r' = reg_capacity r"
proof -
  have "reg_capacity (fst (foldl (\<lambda>(r, changed) (leaseID, current).
      if expired_grant now current then (loseLocked r leaseID current, True) else (r, changed))
      (r, c) xs)) = reg_capacity r" for xs c
    by (induction xs arbitrary: r c) (auto simp: loseLocked_def end_grant_def)
  from this [of False "reg_grants r"] show "expireLocked r now = (r', c) \<Longrightarrow> reg_capacity r' = reg_capacity r"
    by (simp add: expireLocked_def)
qed

lemma signal_capacity [simp]:
  "reg_capacity (signalLocked r) = reg_capacity r"
  "reg_capacity (signalAvailabilityChangeLocked r) = reg_capacity r"
  "reg_capacity (signalLeaseLossLocked r) = reg_capacity r"
  "reg_capacity (end_grant cause r i g) = reg_capacity r"
  "reg_capacity (loseLocked r i g) = reg_capacity r"
  by (simp_all add: signalLocked_def signalAvailabilityChangeLocked_def signalLeaseLossLocked_def
      end_grant_def loseLocked_def)

lemma expire_signal_capacity [simp]: "reg_capacity (expireAndSignalLocked r now) = reg_capacity r"
  by (cases "expireLocked r now") (simp add: expireAndSignalLocked_def expire_capacity)

lemma lease_step_capacity: "reg_capacity (lease_step r e) = reg_capacity r"
proof (cases e)
  case (LTrack ids)
  have "reg_capacity (foldl add_grant r xs) = reg_capacity r" for xs r
    by (induction xs arbitrary: r) (simp_all add: add_grant_def)
  then show ?thesis using LTrack by (auto simp: TrackMany_def Let_def split: option.split)
next
  case (LRenew now rs ttl req ren)
  have one: "reg_capacity (fst (renew_lease rs d now ttl ren x i)) = reg_capacity (fst x)" for d x i
    by (cases x) (auto simp: renew_lease_def Let_def split: option.split prod.split)
  have "reg_capacity (fst (foldl (renew_lease rs d now ttl ren) x xs)) = reg_capacity (fst x)" for d x xs
    by (induction xs arbitrary: x) (simp_all add: one)
  from this [of "rs + ttl" "(r, False, False)" "remdups req"] show ?thesis
    using LRenew expire_capacity by (auto simp: Renew_def Let_def split: prod.split)
next
  case (LWatch now ev)
  have "reg_capacity (foldl (\<lambda>r (leaseID, current). loseLocked r leaseID current) r xs) = reg_capacity r"
    for xs r by (induction xs arbitrary: r) auto
  then show ?thesis using LWatch
    by (auto simp: watch_round_def nextExpiry_def Let_def expire_registry_def close_registry_def
        split: watch_event.split)
qed (auto simp: Revoke_def Reject_def Settle_def BeginSettlement_def SettlementFailed_def Let_def
    split: option.split)

lemma run_capacity: "reg_capacity (run lease_step r es) = reg_capacity r"
  by (induction es arbitrary: r) (simp_all add: lease_step_capacity)

section \<open>Properties\<close>

lemma contexts_accounted:
  assumes "registry_inv r"
  shows "distinct (map fst (reg_cancelled r))"
    and "map_of (reg_grants r) i = Some g \<Longrightarrow> gr_ctx g \<notin> fst ` set (reg_cancelled r)"
    and "n < reg_contexts r \<longleftrightarrow> n \<in> fst ` set (reg_cancelled r) \<or>
      (\<exists>i g. map_of (reg_grants r) i = Some g \<and> gr_ctx g = n)"
proof -
  have m: "live_contexts r + mset (map fst (reg_cancelled r)) = mset [0..<reg_contexts r]"
    and wf: "wf_map (reg_grants r)" using assms by (simp_all add: registry_inv_def)
  have "mset (map (\<lambda>(i, g). gr_ctx g) (reg_grants r) @ map fst (reg_cancelled r)) = mset [0..<reg_contexts r]"
    using m by (simp add: live_contexts_def)
  then have d: "distinct (map (\<lambda>(i, g). gr_ctx g) (reg_grants r) @ map fst (reg_cancelled r))"
    and s: "set (map (\<lambda>(i, g). gr_ctx g) (reg_grants r) @ map fst (reg_cancelled r)) = {0..<reg_contexts r}"
    by (metis distinct_upt mset_eq_imp_distinct_iff, metis atLeast_upt mset_eq_setD set_upt)
  show "distinct (map fst (reg_cancelled r))" using d by simp
  show "map_of (reg_grants r) i = Some g \<Longrightarrow> gr_ctx g \<notin> fst ` set (reg_cancelled r)"
    using d by (force dest!: map_of_SomeD)
  have "(\<exists>i g. map_of (reg_grants r) i = Some g \<and> gr_ctx g = n) \<longleftrightarrow>
      n \<in> (\<lambda>(i, g). gr_ctx g) ` set (reg_grants r)"
    using wf by (force dest: map_of_SomeD wf_map_SomeI)
  moreover have "n \<in> {0..<reg_contexts r} \<longleftrightarrow> n \<in> fst ` set (reg_cancelled r) \<or>
      n \<in> (\<lambda>(i, g). gr_ctx g) ` set (reg_grants r)"
    unfolding s [symmetric] by auto
  ultimately show "n < reg_contexts r \<longleftrightarrow> n \<in> fst ` set (reg_cancelled r) \<or>
      (\<exists>i g. map_of (reg_grants r) i = Some g \<and> gr_ctx g = n)" by simp
qed

text \<open>C23: after every sequence of operations on the lease registry of a crawler it holds at most as
  many leases as its capacity; the context of every tracked lease is live; and every context that
  was ever made for another lease was cancelled, exactly once.\<close>
theorem lease_contexts_accounted:
  assumes "r = run lease_step (newGrantRegistry capacity) es"
  shows "int (length (reg_grants r)) \<le> max 1 capacity \<and> distinct (map fst (reg_cancelled r)) \<and>
    (\<forall>n. n < reg_contexts r \<longleftrightarrow> (n \<in> fst ` set (reg_cancelled r)) \<noteq>
       (\<exists>i g. map_of (reg_grants r) i = Some g \<and> gr_ctx g = n))"
proof -
  have inv: "registry_inv r"
    unfolding assms by (rule lease_registry.inv_run) (rule new_registry_inv)
  have "reg_capacity r = nat (max 1 capacity)"
    using run_capacity [of "newGrantRegistry capacity" es] assms by (simp add: newGrantRegistry_def)
  then have "int (length (reg_grants r)) \<le> max 1 capacity"
    using inv unfolding registry_inv_def by linarith
  moreover have "n < reg_contexts r \<longleftrightarrow> (n \<in> fst ` set (reg_cancelled r)) \<noteq>
       (\<exists>i g. map_of (reg_grants r) i = Some g \<and> gr_ctx g = n)" for n
    using contexts_accounted(2,3) [OF inv] by blast
  ultimately show ?thesis using contexts_accounted(1) [OF inv] by blast
qed

text \<open>C18: a lease whose settlement is under way is not lost to the clock or to a renewal that the
  broker refuses: whatever leases are tracked, read, renewed or begin to settle and however often the
  watcher runs, it stays tracked under the same live context until its settlement ends or it is
  revoked or rejected.\<close>
theorem settling_lease_survives:
  assumes "registry_inv r" and "map_of (reg_grants r) j = Some g"
    and "settling_active (gr_settling g)"
    and "list_all (\<lambda>e. case e of LTrack _ \<Rightarrow> True | LRenew _ _ _ _ _ \<Rightarrow> True | LRead _ \<Rightarrow> True
      | LBegin _ _ \<Rightarrow> True | LWatch _ WatchWake \<Rightarrow> True | LWatch _ (WatchTimer _) \<Rightarrow> True | _ \<Rightarrow> False) es"
  shows "\<exists>g'. map_of (reg_grants (run lease_step r es)) j = Some g' \<and> gr_ctx g' = gr_ctx g \<and>
    settling_active (gr_settling g') \<and>
    gr_ctx g' \<notin> fst ` set (reg_cancelled (run lease_step r es))"
proof -
  have one: "\<exists>g'. map_of (reg_grants (lease_step r e)) j = Some g' \<and> gr_ctx g' = gr_ctx g \<and>
      settling_active (gr_settling g')"
    if inv: "registry_inv r" and g: "map_of (reg_grants r) j = Some g" "settling_active (gr_settling g)"
      and e: "case e of LTrack _ \<Rightarrow> True | LRenew _ _ _ _ _ \<Rightarrow> True | LRead _ \<Rightarrow> True
        | LBegin _ _ \<Rightarrow> True | LWatch _ WatchWake \<Rightarrow> True | LWatch _ (WatchTimer _) \<Rightarrow> True | _ \<Rightarrow> False"
    for r e g
  proof -
    have kept: "\<exists>g'. map_of (reg_grants r') j = Some g' \<and> gr_ctx g' = gr_ctx g \<and>
        settling_active (gr_settling g')" if "leases_kept r r'" for r'
      using leases_kept_settling [OF that g] g(2) by (auto simp: settling_active_def)
    have x: "registry_inv (expireAndSignalLocked r now)" "leases_kept r (expireAndSignalLocked r now)" for now
      using expire_signal_inv(1,2) [OF inv refl] keep_live_kept [OF inv] by blast+
    show ?thesis
    proof (cases e)
      case (LTrack ids)
      have "map_of (reg_grants (foldl add_grant r xs)) j = Some g"
        if "j \<notin> set xs" "map_of (reg_grants r) j = Some g" for xs r
        using that by (induction xs arbitrary: r) (auto simp: add_grant_def)
      then show ?thesis using LTrack g by (auto simp: TrackMany_def Let_def split: option.split)
    next
      case (LRenew now rs ttl req ren)
      then show ?thesis using kept Renew_inv [OF inv] by simp
    next
      case (LRead now)
      then show ?thesis using kept x by simp
    next
      case (LBegin now i)
      obtain g1 where "map_of (reg_grants (expireAndSignalLocked r now)) j = Some g1"
        "gr_ctx g1 = gr_ctx g" "settling_active (gr_settling g1)" using kept x by blast
      then show ?thesis using LBegin
        by (auto simp: BeginSettlement_def Let_def settling_active_def split: option.split)
    next
      case (LWatch now ev)
      have "leases_kept r (expireAndSignalLocked (expireAndSignalLocked r now) at)" for at
        using x keep_live_kept [OF x(1)] expire_signal_inv(2) [OF x(1) refl] leases_kept_trans by metis
      moreover have "leases_kept r (r'\<lparr>reg_wake := False\<rparr>) = leases_kept r r'" for r'
        by (simp add: leases_kept_def)
      ultimately show ?thesis using LWatch e kept x
        by (auto simp: watch_round_def nextExpiry_def Let_def expire_registry_def
            split: watch_event.splits)
    qed (use e in auto)
  qed
  have "\<exists>g'. map_of (reg_grants (run lease_step r es)) j = Some g' \<and> gr_ctx g' = gr_ctx g \<and>
      settling_active (gr_settling g')"
    using assms
  proof (induction es arbitrary: r g)
    case (Cons e es)
    obtain g1 where g1: "map_of (reg_grants (lease_step r e)) j = Some g1" "gr_ctx g1 = gr_ctx g"
      "settling_active (gr_settling g1)"
      using one [OF Cons.prems(1-3)] Cons.prems(4) by auto
    from Cons.IH [OF lease_step_inv [OF Cons.prems(1)] g1(1,3)] Cons.prems(4) g1(2) show ?case by simp
  qed auto
  then show ?thesis
    using contexts_accounted(2) [OF lease_registry.inv_run [OF assms(1)]] by blast
qed

text \<open>The context of a lease is handed out only while the lease stands: it is not cancelled,
  the lease is tracked and confirmed under it, and it has not expired at the time of the call, or its
  settlement is under way.\<close>
theorem lease_context_live:
  assumes "registry_inv r" and "lease_context r now leaseID = (r', Some ctx)"
  shows "ctx \<notin> fst ` set (reg_cancelled r') \<and>
    (\<exists>g. map_of (reg_grants r') leaseID = Some g \<and> gr_ctx g = ctx \<and> gr_confirmed g \<and>
       (now < gr_expiresAt g \<or> settling_active (gr_settling g)))"
proof -
  have r': "r' = expireAndSignalLocked r now" using assms(2) by (simp add: lease_context_def Let_def)
  note x = expire_signal_inv [OF assms(1) r']
  obtain g where g: "map_of (reg_grants r') leaseID = Some g" "gr_confirmed g" "gr_ctx g = ctx"
    using assms(2) r' by (auto simp: lease_context_def Let_def split: option.splits if_split_asm)
  have "\<not> expired_grant now g"
    using g(1) keep_live_map [OF assms(1), of now leaseID] x(2) by (auto split: option.splits if_split_asm)
  then show ?thesis
    using g contexts_accounted(2) [OF x(1) g(1)] by (auto simp: expired_grant_def)
qed

text \<open>C31: nobody who waits for a change of the leases is left asleep: every operation that ends a
  lease closes the channel of availability changes, and it closes the channel of lease losses as
  well unless the lease was settled, revoked or dropped at the shutdown of the watcher.\<close>
theorem lease_end_signalled:
  assumes "registry_inv r" and "reg_cancelled (lease_step r e) \<noteq> reg_cancelled r"
  shows "reg_availabilityChanges r < reg_availabilityChanges (lease_step r e) \<and>
    (reg_leaseLosses r < reg_leaseLosses (lease_step r e) \<or>
     (case e of LSettle _ \<Rightarrow> True | LRevoke _ \<Rightarrow> True | LWatch _ WatchDone \<Rightarrow> True | _ \<Rightarrow> False))"
proof -
  note sig = signalLocked_def signalAvailabilityChangeLocked_def signalLeaseLossLocked_def
    loseLocked_def end_grant_def
  note x = expire_signal_inv [OF assms(1) refl]
  show ?thesis
  proof (cases e)
    case (LTrack ids)
    have "reg_cancelled (foldl add_grant r xs) = reg_cancelled r" for xs r
      by (induction xs arbitrary: r) (simp_all add: add_grant_def)
    then show ?thesis using assms(2) LTrack by (auto simp: TrackMany_def Let_def split: option.splits if_split_asm)
  next
    case (LRenew now rs ttl req ren)
    then show ?thesis using assms(2) Renew_inv [OF assms(1), of now rs ttl req ren] by auto
  next
    case (LRead now)
    then show ?thesis using assms(2) x(3) by simp
  next
    case (LBegin now i)
    have "reg_cancelled (lease_step r e) = reg_cancelled (expireAndSignalLocked r now)"
      "reg_availabilityChanges (lease_step r e) = reg_availabilityChanges (expireAndSignalLocked r now)"
      "reg_leaseLosses (lease_step r e) = reg_leaseLosses (expireAndSignalLocked r now)"
      using LBegin by (auto simp: BeginSettlement_def Let_def sig split: option.split)
    with assms(2) x(3) show ?thesis by simp
  next
    case (LFailed now i)
    then show ?thesis using assms(2)
      by (auto simp: SettlementFailed_def Let_def sig split: option.splits if_split_asm)
  next
    case (LWatch now ev)
    let ?x = "expireAndSignalLocked r now"
    show ?thesis
    proof (cases ev)
      case (WatchTimer at)
      have x1: "registry_inv ?x" by (rule x(1))
      have "reg_cancelled (expireAndSignalLocked ?x at) \<noteq> reg_cancelled r \<Longrightarrow>
          reg_availabilityChanges r < reg_availabilityChanges (expireAndSignalLocked ?x at) \<and>
          reg_leaseLosses r < reg_leaseLosses (expireAndSignalLocked ?x at)"
        using expire_signal_inv(3-5) [OF x1 refl, of at] x(3-5) [of now] by fastforce
      then show ?thesis using LWatch WatchTimer assms(2) x(3) [of now]
        by (auto simp: watch_round_def nextExpiry_def Let_def expire_registry_def split: if_split_asm)
    next
      case WatchWake
      then show ?thesis using LWatch assms(2) x(3) [of now]
        by (simp add: watch_round_def nextExpiry_def Let_def)
    next
      case WatchDone
      have same: "reg_availabilityChanges (foldl (\<lambda>r (leaseID, current). loseLocked r leaseID current) r xs) =
          reg_availabilityChanges r" for xs r
        by (induction xs arbitrary: r) (auto simp: sig)
      have "reg_availabilityChanges (close_registry ?x) =
          reg_availabilityChanges ?x + (if reg_grants ?x = [] then 0 else 1)"
        using same by (simp add: close_registry_def Let_def signalAvailabilityChangeLocked_def)
      moreover have "reg_grants ?x = [] \<Longrightarrow> close_registry ?x = ?x"
        by (simp add: close_registry_def)
      ultimately show ?thesis using LWatch WatchDone assms(2) x(3-5) [of now]
        by (cases "reg_grants ?x = []")
          (fastforce simp: watch_round_def nextExpiry_def Let_def)+
    qed
  qed (use assms(2) in \<open>auto simp: Revoke_def Reject_def Settle_def sig split: option.splits\<close>)
qed

lemma earlier_fold:
  assumes "\<forall>g\<in>set gs. 0 < gr_expiresAt g \<or> \<not> gr_confirmed g \<or> settling_active (gr_settling g)" "0 \<le> e"
  shows "(foldl earlier_expiry e gs = 0 \<longleftrightarrow>
      e = 0 \<and> (\<forall>g\<in>set gs. \<not> gr_confirmed g \<or> settling_active (gr_settling g))) \<and>
    0 \<le> foldl earlier_expiry e gs \<and>
    (\<forall>g\<in>set gs. gr_confirmed g \<and> \<not> settling_active (gr_settling g) \<longrightarrow>
       foldl earlier_expiry e gs \<le> gr_expiresAt g) \<and>
    (e \<noteq> 0 \<longrightarrow> foldl earlier_expiry e gs \<le> e) \<and>
    (foldl earlier_expiry e gs = e \<or> (\<exists>g\<in>set gs. gr_confirmed g \<and>
       \<not> settling_active (gr_settling g) \<and> gr_expiresAt g = foldl earlier_expiry e gs))"
  using assms
proof (induction gs arbitrary: e)
  case (Cons g gs)
  let ?e = "earlier_expiry e g"
  have e: "0 \<le> ?e" using Cons.prems by (auto simp: earlier_expiry_def)
  have IH: "\<forall>g\<in>set gs. 0 < gr_expiresAt g \<or> \<not> gr_confirmed g \<or> settling_active (gr_settling g)"
    using Cons.prems by simp
  show ?case
  proof (cases "gr_confirmed g \<and> \<not> settling_active (gr_settling g)")
    case False
    then have "?e = e" by (auto simp: earlier_expiry_def)
    then show ?thesis using Cons.IH [OF IH e] False by auto
  next
    case True
    then have "0 < gr_expiresAt g" using Cons.prems(1) by auto
    then have "?e \<noteq> 0" "?e \<le> gr_expiresAt g" "e \<noteq> 0 \<longrightarrow> ?e \<le> e" "?e = e \<or> ?e = gr_expiresAt g"
      using True Cons.prems(2) by (auto simp: earlier_expiry_def)
    then show ?thesis using Cons.IH [OF IH e] True by auto
  qed
qed simp

text \<open>The watcher sleeps exactly as long as it may. The wait it computes (for a clock after the
  zero time) is negative only when no lease can expire at all; otherwise no lease expires at any
  moment before the wait is over, and at its end, as long as the wait is below the largest duration
  of Go, expiring loses at least one lease.\<close>
theorem watcher_wakes_in_time:
  assumes "registry_inv r" and "nextExpiry r now = (r', wait)" and "0 \<le> now"
  shows "(wait = - 1 \<and> (\<forall>t. \<not> snd (expireLocked r' t))) \<or>
    (0 < wait \<and> (\<forall>t < now + wait. \<not> snd (expireLocked r' t)) \<and>
       (wait = max_duration \<or> snd (expireLocked r' (now + wait))))"
proof -
  let ?e = "foldl earlier_expiry 0 (map snd (reg_grants r'))"
  have r': "r' = expireAndSignalLocked r now" using assms(2) by (simp add: nextExpiry_def Let_def)
  have w: "wait = (if ?e = 0 then - 1 else max 0 (time_sub ?e now))"
    using assms(2) unfolding r' by (simp add: nextExpiry_def Let_def)
  note x = expire_signal_inv [OF assms(1) r']
  have wf: "wf_map (reg_grants r')" using x(1) by (simp add: registry_inv_def)
  have lives: "now < gr_expiresAt g \<or> \<not> gr_confirmed g \<or> settling_active (gr_settling g)"
    if "g \<in> set (map snd (reg_grants r'))" for g
    using that x(2) by (auto simp: keep_live_def expired_grant_def)
  then have pos: "\<forall>g\<in>set (map snd (reg_grants r')).
      0 < gr_expiresAt g \<or> \<not> gr_confirmed g \<or> settling_active (gr_settling g)"
    using assms(3) by force
  note f = earlier_fold [OF pos order.refl]
  have expires: "snd (expireLocked r' t) \<longleftrightarrow> (\<exists>g\<in>set (map snd (reg_grants r')). expired_grant t g)" for t
    unfolding expireLocked_eq [OF wf] by (force simp: list_ex_iff)
  show ?thesis
  proof (cases "?e = 0")
    case True
    then have "\<not> snd (expireLocked r' t)" for t
      unfolding expires using f by (auto simp: expired_grant_def)
    with True w show ?thesis by simp
  next
    case False
    then obtain g where g: "g \<in> set (map snd (reg_grants r'))" "gr_confirmed g"
      "\<not> settling_active (gr_settling g)" "gr_expiresAt g = ?e" using f by blast
    then have later: "now < ?e" using lives by metis
    then have wait: "0 < wait" "wait \<le> ?e - now" "wait = max_duration \<or> wait = ?e - now"
      using w False by (auto simp: time_sub_def max_duration_def min_duration_def min_def max_def)
    have "\<not> snd (expireLocked r' t)" if "t < now + wait" for t
      unfolding expires using f that wait(2) by (force simp: expired_grant_def)
    moreover have "snd (expireLocked r' (now + wait))" if "wait = ?e - now"
      unfolding expires using g that by (intro bexI [of _ g]) (simp_all add: expired_grant_def)
    ultimately show ?thesis using wait by blast
  qed
qed

section \<open>Witnesses\<close>

definition example_registry :: GrantRegistry where
  "example_registry = run lease_step (newGrantRegistry 2)
     [LTrack [''a'', ''b''], LRenew 110 100 50 [''a'', ''b''] [''a'', ''b''], LBegin 120 ''a'']"

lemma example_registry_inv: "registry_inv example_registry"
  unfolding example_registry_def by (rule lease_registry.inv_run) (rule new_registry_inv)

lemma example_lease_ids: "ValidCrawlLeaseID ''a''" "ValidCrawlLeaseID ''b''"
  using valid_utf8_printable [of "''a''"] valid_utf8_printable [of "''b''"]
  by (simp_all add: ValidCrawlLeaseID_def MaximumCrawlLeaseIDBytes_def printable_def)

definition example_grant :: "nat \<Rightarrow> nat \<Rightarrow> grant" where
  "example_grant ctx attempts = \<lparr>gr_ctx = ctx, gr_expiresAt = 150, gr_renewedAt = 100,
     gr_confirmed = True,
     gr_settling = \<lparr>se_attempts = attempts, se_responseAt = 0, se_responseRejected = False\<rparr>\<rparr>"

lemma example_registry_eq: "example_registry =
    \<lparr>reg_grants = [(''a'', example_grant 0 1), (''b'', example_grant 1 0)], reg_capacity = 2,
     reg_wake = True, reg_availabilityChanges = 2, reg_leaseLosses = 0, reg_contexts = 2,
     reg_cancelled = []\<rparr>"
  by (simp add: example_registry_def example_lease_ids newGrantRegistry_def TrackMany_def
      add_grant_def new_grant_def signalLocked_def signalAvailabilityChangeLocked_def Renew_def
      renew_lease_def applyRenewal_def confirm_grant_def settling_active_def expireLocked_def
      expired_grant_def BeginSettlement_def expireAndSignalLocked_def example_grant_def Let_def)

lemma settling_lease_survives_witness:
  "\<exists>g'. map_of (reg_grants (run lease_step example_registry [LRead 1000, LRenew 2000 1900 10 [''a''] []]))
     ''a'' = Some g' \<and> gr_ctx g' = 0"
proof -
  have g: "map_of (reg_grants example_registry) ''a'' = Some (example_grant 0 1)"
    "settling_active (gr_settling (example_grant 0 1))"
    by (simp_all add: example_registry_eq example_grant_def settling_active_def)
  from settling_lease_survives [OF example_registry_inv g, of "[LRead 1000, LRenew 2000 1900 10 [''a''] []]"]
  show ?thesis by (auto simp: example_grant_def)
qed

lemma lease_context_live_witness: "1 \<notin> fst ` set (reg_cancelled (fst (lease_context example_registry 130 ''b'')))"
proof -
  have "lease_context example_registry 130 ''b'' =
      (fst (lease_context example_registry 130 ''b''), Some 1)"
    by (simp add: example_registry_eq lease_context_def expireAndSignalLocked_def expireLocked_def
        expired_grant_def example_grant_def settling_active_def Let_def)
  from lease_context_live [OF example_registry_inv this] show ?thesis by blast
qed

lemma lease_end_signalled_witness:
  "reg_leaseLosses example_registry < reg_leaseLosses (lease_step example_registry (LRead 150))"
proof -
  have "reg_cancelled (lease_step example_registry (LRead 150)) \<noteq> reg_cancelled example_registry"
    by (simp add: example_registry_eq expireAndSignalLocked_def expireLocked_def loseLocked_def
        end_grant_def expired_grant_def example_grant_def settling_active_def
        signalLeaseLossLocked_def signalAvailabilityChangeLocked_def)
  from lease_end_signalled [OF example_registry_inv this] show ?thesis by simp
qed

lemma watcher_wakes_in_time_witness: "0 < (20::int)"
proof -
  have "nextExpiry example_registry 130 = (fst (nextExpiry example_registry 130), 20)"
    by (simp add: example_registry_eq nextExpiry_def expireAndSignalLocked_def expireLocked_def
        expired_grant_def example_grant_def settling_active_def earlier_expiry_def time_sub_def
        max_duration_def min_duration_def Let_def)
  from watcher_wakes_in_time [OF example_registry_inv this] show ?thesis by simp
qed

lemma lease_contexts_accounted_witness:
  "distinct (map fst (reg_cancelled (run lease_step (newGrantRegistry 2) [LTrack [''a''], LReject ''a''])))"
  using lease_contexts_accounted [OF refl, of 2 "[LTrack [''a''], LReject ''a'']"] by blast

end
