(* ===== verification/DhtTargets.thy ===== *)
theory DhtTargets
  imports DhtPosition SeedAddress
begin

text \<open>
  \<^verbatim>\<open>yagonode/internal/dhttarget\<close>: the choice of the peers that a word's postings are
  sent to. The peers that take part are those that are reachable, are not junior, accept a remote
  index, and are old and large enough; they are ordered by their distance from the start position
  on the ring; the closest ones are candidates, and the targets are the first of them or a random
  choice among them. \<open>slices.SortFunc\<close> is the stable sort of the prelude, which leaves peers of the
  same distance and hash in their order; the Go library promises no order for those. The lemmas
  rest on the comparator interface and compare the choice with sorting the distances.
\<close>

section \<open>Definitions\<close>

text \<open>The source of random indices answers its k-th call for a number of candidates; it is code
  of the caller.\<close>

record 'e target_config =
  cf_Redundancy :: int
  cf_CandidateRedundancy :: int
  cf_MinimumAgeDays :: int
  cf_MinimumRWICount :: int
  cf_Now :: go_time
  cf_RandomTargetIndex :: "(nat \<Rightarrow> nat \<Rightarrow> ('e, int) result) option"

record 'a Target =
  tg_Peer :: "'a Seed"
  tg_Distance :: u64

datatype 'e target_error = StartError dht_error | errInvalidPosition u64 | ChooseError 'e
  | IndexOutside int nat

definition candidateRedundancy :: "'e target_config \<Rightarrow> int" where
  "candidateRedundancy config =
     (if cf_CandidateRedundancy config > cf_Redundancy config then cf_CandidateRedundancy config
      else cf_Redundancy config)"

text \<open>The loop that draws a number of candidates; k counts the draws.\<close>

fun draw_targets ::
  "(nat \<Rightarrow> nat \<Rightarrow> ('e, int) result) \<Rightarrow> nat \<Rightarrow> nat \<Rightarrow> 'a Target list \<Rightarrow> 'a Target list \<Rightarrow>
     ('e target_error, 'a Target list) result" where
  "draw_targets pick 0 k candidates selected = Inr selected"
| "draw_targets pick (Suc n) k candidates selected = (case pick k (length candidates) of
     Inl e \<Rightarrow> Inl (ChooseError e)
   | Inr index \<Rightarrow>
       if index < 0 \<or> index \<ge> int (length candidates)
       then Inl (IndexOutside index (length candidates))
       else draw_targets pick n (k + 1)
              (take (nat index) candidates @ drop (nat index + 1) candidates)
              (selected @ [candidates ! nat index]))"

definition chooseTargets ::
  "'a Target list \<Rightarrow> int \<Rightarrow> (nat \<Rightarrow> nat \<Rightarrow> ('e, int) result) option \<Rightarrow>
     ('e target_error, 'a Target list) result" where
  "chooseTargets targets redundancy randomTargetIndex =
     (if int (length targets) \<le> redundancy then Inr targets
      else case randomTargetIndex of
        None \<Rightarrow> Inr (take (nat redundancy) targets)
      | Some pick \<Rightarrow> draw_targets pick (nat redundancy) 0 targets [])"

definition hasEnoughRWI :: "'a Seed \<Rightarrow> int \<Rightarrow> bool" where
  "hasEnoughRWI peer minimum =
     (if minimum \<le> 0 then True
      else case sd_RWICount peer of None \<Rightarrow> False | Some rwis \<Rightarrow> rwis \<ge> minimum)"

definition canReceiveIndex :: "'a seed_lib \<Rightarrow> 'a Seed \<Rightarrow> 'e target_config \<Rightarrow> go_time \<Rightarrow> bool" where
  "canReceiveIndex lib peer config now =
     (if NetworkAddress lib peer = None then False
      else if sd_PeerType peer = Some PeerJunior then False
      else case sd_Flags peer of
        None \<Rightarrow> False
      | Some flags \<Rightarrow>
          if \<not> Flags_Get flags FlagAcceptRemoteIndex then False
          else if cf_MinimumAgeDays config > 0 \<and> AgeDays peer now < cf_MinimumAgeDays config
          then False
          else hasEnoughRWI peer (cf_MinimumRWICount config))"

definition peer_target ::
  "'a seed_lib \<Rightarrow> 'e target_config \<Rightarrow> go_time \<Rightarrow> u64 \<Rightarrow> 'a Seed \<Rightarrow> 'a Target option" where
  "peer_target lib config now startPosition peer =
     (if \<not> canReceiveIndex lib peer config now then None
      else case Position (sd_Hash peer) of
        Inl e \<Rightarrow> None
      | Inr position \<Rightarrow> Some \<lparr>tg_Peer = peer, tg_Distance = Distance startPosition position\<rparr>)"

definition go_compare :: "'c::linorder \<Rightarrow> 'c \<Rightarrow> int" where
  "go_compare a b = (if a < b then - 1 else if b < a then 1 else 0)"

definition compare_targets :: "'a Target \<Rightarrow> 'a Target \<Rightarrow> int" where
  "compare_targets a b =
     (if tg_Distance a \<noteq> tg_Distance b then go_compare (tg_Distance a) (tg_Distance b)
      else go_compare (sd_Hash (tg_Peer a)) (sd_Hash (tg_Peer b)))"

text \<open>The clock of the system is read when the configuration has no time.\<close>

definition SelectAtPosition ::
  "'a seed_lib \<Rightarrow> go_time \<Rightarrow> u64 \<Rightarrow> 'a Seed list \<Rightarrow> 'e target_config \<Rightarrow>
     ('e target_error, 'a Target list) result" where
  "SelectAtPosition lib clock startPosition peers config =
     (if startPosition > MaxPosition then Inl (errInvalidPosition startPosition)
      else if cf_Redundancy config \<le> 0 \<or> peers = [] then Inr []
      else
        let now = (if cf_Now config = 0 then clock else cf_Now config);
            targets = sort_by compare_targets
              (List.map_filter (peer_target lib config now startPosition) peers);
            targets = (if int (length targets) > candidateRedundancy config
              then take (nat (candidateRedundancy config)) targets else targets)
        in chooseTargets targets (cf_Redundancy config) (cf_RandomTargetIndex config))"

definition Select ::
  "'a seed_lib \<Rightarrow> go_time \<Rightarrow> Hash \<Rightarrow> 'a Seed list \<Rightarrow> 'e target_config \<Rightarrow>
     ('e target_error, 'a Target list) result" where
  "Select lib clock start peers config = (case Position start of
     Inl e \<Rightarrow> Inl (StartError e)
   | Inr startPosition \<Rightarrow> SelectAtPosition lib clock startPosition peers config)"

section \<open>The order of the targets\<close>

lemma go_compare_le: "go_compare a b \<le> 0 \<longleftrightarrow> a \<le> b" for a b :: "'c::linorder"
  by (auto simp: go_compare_def not_less intro: less_imp_le dest: leD)

lemma compare_targets_le:
  "compare_targets a b \<le> 0 \<longleftrightarrow> tg_Distance a < tg_Distance b \<or>
     tg_Distance a = tg_Distance b \<and> sd_Hash (tg_Peer a) \<le> sd_Hash (tg_Peer b)"
  by (cases "tg_Distance a = tg_Distance b")
    (simp_all add: compare_targets_def go_compare_le less_le)

interpretation target_order: comparator compare_targets
proof
  fix x y z :: "'a Target"
  show "compare_targets x y \<le> 0 \<or> compare_targets y x \<le> 0"
    unfolding compare_targets_le
    using linorder_linear [of "sd_Hash (tg_Peer x)" "sd_Hash (tg_Peer y)"]
    by (cases "tg_Distance x" "tg_Distance y" rule: linorder_cases) simp_all
  show "compare_targets x y \<le> 0 \<Longrightarrow> compare_targets y z \<le> 0 \<Longrightarrow> compare_targets x z \<le> 0"
    unfolding compare_targets_le
    by (elim disjE conjE) (simp_all add: order.strict_trans order.trans)
qed

text \<open>Sorting the targets sorts their distances.\<close>

lemma sorted_distances: "map tg_Distance (sort_by compare_targets xs) = sort (map tg_Distance xs)"
proof (rule properties_for_sort [symmetric])
  show "mset (map tg_Distance (sort_by compare_targets xs)) = mset (map tg_Distance xs)"
    by (simp add: mset_map)
  have "sorted_wrt (\<lambda>a b. tg_Distance a \<le> tg_Distance b) (sort_by compare_targets xs)"
    by (rule sorted_wrt_mono_rel [OF _ target_order.sorted_sort_by])
      (auto simp: compare_targets_le)
  then show "sorted (map tg_Distance (sort_by compare_targets xs))" by (simp add: sorted_wrt_map)
qed

section \<open>Drawing\<close>

lemma draw_targets_mset:
  "draw_targets pick n k cs sel = Inr ts \<Longrightarrow>
     length ts = length sel + n \<and> mset ts \<subseteq># mset sel + mset cs"
proof (induction n arbitrary: k cs sel)
  case (Suc n)
  obtain i where i: "pick k (length cs) = Inr i" "0 \<le> i" "i < int (length cs)"
    "draw_targets pick n (k + 1) (take (nat i) cs @ drop (nat i + 1) cs) (sel @ [cs ! nat i]) = Inr ts"
    using Suc.prems by (auto split: sum.splits if_split_asm)
  have n: "nat i < length cs" using i by simp
  have "mset (sel @ [cs ! nat i]) + mset (take (nat i) cs @ drop (nat i + 1) cs) = mset sel + mset cs"
    using arg_cong [OF id_take_nth_drop [OF n], of mset] by (simp add: ac_simps)
  then have "mset ts \<subseteq># mset sel + mset cs" using Suc.IH [OF i(4)] by (simp only:)
  then show ?case using Suc.IH [OF i(4)] by simp
qed simp

lemma chooseTargets_mset:
  assumes "chooseTargets ts n pick = Inr chosen" "0 < n"
  shows "int (length chosen) = min n (int (length ts)) \<and> mset chosen \<subseteq># mset ts"
proof (cases "int (length ts) \<le> n")
  case True
  then show ?thesis using assms by (simp add: chooseTargets_def)
next
  case False
  show ?thesis
  proof (cases pick)
    case None
    have "mset (take m ts) \<subseteq># mset ts" for m
      by (metis append_take_drop_id mset_append mset_subset_eq_add_left)
    then show ?thesis using None False assms by (auto simp: chooseTargets_def)
  next
    case (Some p)
    then show ?thesis using False assms draw_targets_mset [of p "nat n" 0 ts "[]" chosen]
      by (simp add: chooseTargets_def)
  qed
qed

lemma chooseTargets_first:
  "chooseTargets ts n None = Inr chosen \<Longrightarrow> chosen = take (nat n) ts"
  by (auto simp: chooseTargets_def split: if_split_asm)

section \<open>Properties\<close>

definition eligible_targets ::
  "'a seed_lib \<Rightarrow> go_time \<Rightarrow> u64 \<Rightarrow> 'a Seed list \<Rightarrow> 'e target_config \<Rightarrow> 'a Target list" where
  "eligible_targets lib clock startPosition peers config = List.map_filter
     (peer_target lib config (if cf_Now config = 0 then clock else cf_Now config) startPosition) peers"

lemma Select_candidates:
  assumes "SelectAtPosition lib clock start peers config = Inr chosen" "0 < cf_Redundancy config"
  shows "chooseTargets (take (nat (candidateRedundancy config))
      (sort_by compare_targets (eligible_targets lib clock start peers config)))
    (cf_Redundancy config) (cf_RandomTargetIndex config) = Inr chosen \<and> start \<le> MaxPosition"
proof (cases "peers = []")
  case True
  then show ?thesis using assms
    by (simp add: SelectAtPosition_def eligible_targets_def map_filter_def chooseTargets_def
        sort_by_def split: if_split_asm)
next
  case False
  have c: "0 \<le> candidateRedundancy config" using assms(2) by (simp add: candidateRedundancy_def)
  have t: "(if int (length ts) > candidateRedundancy config
      then take (nat (candidateRedundancy config)) ts else ts) = take (nat (candidateRedundancy config)) ts"
    for ts :: "'a Target list" using c by auto
  show ?thesis using assms False
    by (simp add: SelectAtPosition_def Let_def t eligible_targets_def not_less split: if_split_asm)
qed

text \<open>An example: two peers, of which one accepts a remote index.\<close>

definition example_receiver :: "string Seed" where
  "example_receiver = example_seed\<lparr>sd_Flags := Some (Flags_Set ZeroFlags FlagAcceptRemoteIndex True)\<rparr>"

definition example_config :: "string target_config" where
  "example_config = \<lparr>cf_Redundancy = 1, cf_CandidateRedundancy = 2, cf_MinimumAgeDays = 0,
     cf_MinimumRWICount = 0, cf_Now = 0, cf_RandomTargetIndex = Some (\<lambda>k n. Inr 0)\<rparr>"

lemma example_receives:
  "canReceiveIndex example_lib example_receiver example_config now"
  "\<not> canReceiveIndex example_lib example_seed example_config now"
proof -
  have "NetworkAddress example_lib example_receiver \<noteq> None"
    by (simp add: NetworkAddress_def AdvertisedHosts_def seed_hosts_def option_list_def appendHost_def
        canonicalAdvertisedHost_def Host_String_def maximumAdvertisedHosts_def example_lib_def
        example_receiver_def example_seed_def empty_seed_def)
  moreover have "Flags_Get (Flags_Set ZeroFlags FlagAcceptRemoteIndex True) FlagAcceptRemoteIndex"
    by code_simp
  ultimately show "canReceiveIndex example_lib example_receiver example_config now"
    "\<not> canReceiveIndex example_lib example_seed example_config now"
    by (simp_all add: canReceiveIndex_def example_receiver_def example_seed_def empty_seed_def
        example_config_def hasEnoughRWI_def)
qed

lemma example_selection:
  "\<exists>t. SelectAtPosition example_lib 0 5 [example_seed, example_receiver] example_config = Inr [t] \<and>
     tg_Peer t = example_receiver"
proof -
  have "Hash_Valid (sd_Hash example_receiver)"
    by (simp add: Hash_Valid_iff Alphabet_def example_receiver_def example_seed_def)
  then obtain p where "Position (sd_Hash example_receiver) = Inr p" using Position_value by blast
  moreover have "\<not> MaxPosition < 5" by (simp add: not_less le_MaxPosition)
  ultimately show ?thesis
    using example_receives
    by (simp add: SelectAtPosition_def candidateRedundancy_def Let_def map_filter_def peer_target_def
        sort_by_def chooseTargets_def example_config_def)
qed

text \<open>C25: the targets chosen for a position are peers that may receive an index, each with its
  distance from the position, no more often than they were given; there are as many as asked for or
  else all that there are; and every peer that may receive an index and is not among the
  candidates is no closer than any target, whatever the random choice among the candidates.\<close>
theorem targets_eligible_and_close:
  assumes "SelectAtPosition lib clock start peers config = Inr chosen"
    and "0 < cf_Redundancy config"
    and "eligible = eligible_targets lib clock start peers config"
    and "candidates = take (nat (candidateRedundancy config)) (sort_by compare_targets eligible)"
    and "others = drop (nat (candidateRedundancy config)) (sort_by compare_targets eligible)"
  shows "mset chosen \<subseteq># mset candidates \<and> mset candidates + mset others = mset eligible \<and>
    int (length chosen) = min (cf_Redundancy config) (int (length eligible)) \<and>
    (\<forall>t\<in>set chosen. \<forall>u\<in>set others. tg_Distance t \<le> tg_Distance u) \<and>
    (\<forall>t\<in>set chosen. canReceiveIndex lib (tg_Peer t) config
        (if cf_Now config = 0 then clock else cf_Now config) \<and> tg_Peer t \<in> set peers \<and>
      (\<exists>position. Position (sd_Hash (tg_Peer t)) = Inr position \<and>
        tg_Distance t = Distance start position))"
proof -
  let ?s = "sort_by compare_targets eligible" and ?n = "nat (candidateRedundancy config)"
  have choose: "chooseTargets candidates (cf_Redundancy config) (cf_RandomTargetIndex config) = Inr chosen"
    using Select_candidates [OF assms(1,2)] assms(3,4) by simp
  note m = chooseTargets_mset [OF choose assms(2)]
  have parts: "mset candidates + mset others = mset eligible"
    unfolding assms(4,5) by (metis append_take_drop_id mset_append mset_sort_by)
  have sub: "set chosen \<subseteq> set candidates" using m by (metis set_mset_mono set_mset_mset)
  have close: "tg_Distance t \<le> tg_Distance u" if "t \<in> set chosen" "u \<in> set others" for t u
    using target_order.sort_by_take_least [of t ?n eligible u] subsetD [OF sub that(1)]
      that(2) assms(4,5) by (auto simp: compare_targets_le intro: less_imp_le)
  have el: "t \<in> set eligible" if "t \<in> set chosen" for t
    using that sub parts by (metis Un_iff set_mset_mset set_mset_union subsetD)
  have peer: "canReceiveIndex lib (tg_Peer t) config (if cf_Now config = 0 then clock else cf_Now config) \<and>
      tg_Peer t \<in> set peers \<and> (\<exists>position. Position (sd_Hash (tg_Peer t)) = Inr position \<and>
        tg_Distance t = Distance start position)" if "t \<in> set chosen" for t
    using el [OF that] unfolding assms(3)
    by (auto simp: eligible_targets_def map_filter_def peer_target_def split: if_split_asm sum.splits)
  have "candidateRedundancy config \<ge> cf_Redundancy config" by (simp add: candidateRedundancy_def)
  then have "min (cf_Redundancy config) (int (length candidates)) =
      min (cf_Redundancy config) (int (length eligible))"
    using assms(2,4) by auto
  with m parts close peer show ?thesis by auto
qed

lemma targets_eligible_and_close_witness:
  "\<exists>chosen. SelectAtPosition example_lib 0 5 [example_seed, example_receiver] example_config = Inr chosen \<and>
     map tg_Peer chosen = [example_receiver] \<and>
     (\<forall>t\<in>set chosen. canReceiveIndex example_lib (tg_Peer t) example_config 0)"
proof -
  obtain t where t: "SelectAtPosition example_lib 0 5 [example_seed, example_receiver] example_config = Inr [t]"
    "tg_Peer t = example_receiver"
    using example_selection by blast
  have "canReceiveIndex example_lib (tg_Peer t) example_config 0"
    using targets_eligible_and_close [OF t(1) _ refl refl refl] by (simp add: example_config_def)
  then show ?thesis using t by simp
qed

text \<open>C20: without a random choice the selection is equivalent to sorting all distances and taking
  the smallest: the distances of the targets are the first ones of the sorted distances of all
  peers that may receive an index, in their order, whatever the order in which the peers are given.\<close>
theorem targets_are_nearest:
  assumes "start \<le> MaxPosition" and "0 < cf_Redundancy config"
    and "cf_RandomTargetIndex config = None"
  shows "\<exists>chosen. SelectAtPosition lib clock start peers config = Inr chosen \<and>
    map tg_Distance chosen = take (nat (cf_Redundancy config))
      (sort (map tg_Distance (eligible_targets lib clock start peers config)))"
proof -
  let ?s = "sort_by compare_targets (eligible_targets lib clock start peers config)"
  let ?c = "take (nat (candidateRedundancy config)) ?s"
  have le: "nat (cf_Redundancy config) \<le> nat (candidateRedundancy config)"
    by (intro nat_mono) (simp add: candidateRedundancy_def)
  have no_error: "SelectAtPosition lib clock start peers config \<noteq> Inl e" for e
    using assms by (auto simp: SelectAtPosition_def chooseTargets_def Let_def split: if_split_asm)
  then obtain chosen where c: "SelectAtPosition lib clock start peers config = Inr chosen"
    by (cases "SelectAtPosition lib clock start peers config") auto
  have "chosen = take (nat (cf_Redundancy config)) ?c"
    using Select_candidates [OF c assms(2)] assms(3) by (auto dest: chooseTargets_first)
  then have "chosen = take (nat (cf_Redundancy config)) ?s"
    using le by (simp add: min_absorb1)
  then have "map tg_Distance chosen = take (nat (cf_Redundancy config)) (map tg_Distance ?s)"
    by (simp add: take_map)
  with c show ?thesis by (simp add: sorted_distances)
qed

lemma targets_are_nearest_witness:
  "\<exists>chosen. SelectAtPosition example_lib 0 5 [example_seed, example_receiver]
        (example_config\<lparr>cf_RandomTargetIndex := None\<rparr>) = Inr chosen \<and>
     map tg_Distance chosen = take 1 (sort (map tg_Distance (eligible_targets example_lib 0 5
       [example_seed, example_receiver] (example_config\<lparr>cf_RandomTargetIndex := None\<rparr>))))"
  using targets_are_nearest [of 5 "example_config\<lparr>cf_RandomTargetIndex := None\<rparr>" example_lib 0
      "[example_seed, example_receiver]"]
  by (simp add: example_config_def le_MaxPosition)
end
