(* ===== verification/StoredPosting.thy ===== *)
theory StoredPosting
  imports RwiPosting Md5
begin

text \<open>
  \<^verbatim>\<open>yagonode/internal/rwi/stored_posting_form.go\<close>: the binary form in which a node stores a
  posting. A format byte is followed by the mask of the columns that are there, by the columns in
  a fixed order and by the other properties sorted by name; numbers are variable-length integers of
  the Go library. Values without the format byte are read as the text form of older stores. The
  lemmas show that a posting that can be stored is read back, and that the stored form of two
  postings is the same exactly when they have the same properties.
\<close>

unbundle bit_operations_syntax

section \<open>Variable-length integers\<close>

text \<open>\<^verbatim>\<open>binary.PutUvarint\<close>, and \<^verbatim>\<open>binary.ReadUvarint\<close> from the bytes that are left: it reads at
  most ten bytes and rejects a tenth byte above one. None is the end of the input or the
  overflow.\<close>

fun put_uvarint :: "nat \<Rightarrow> bytes" where
  "put_uvarint n = (if n < 128 then [word_of_nat n]
     else word_of_nat (n mod 128 + 128) # put_uvarint (n div 128))"

declare put_uvarint.simps [simp del]

fun read_uvarint_loop :: "nat \<Rightarrow> nat \<Rightarrow> bytes \<Rightarrow> (nat \<times> bytes) option" where
  "read_uvarint_loop i x [] = None"
| "read_uvarint_loop i x (b # bs) =
     (if i \<ge> 10 then None
      else if unat b < 128
      then if i = 9 \<and> unat b > 1 then None else Some (x + unat b * 2 ^ (7 * i), bs)
      else read_uvarint_loop (i + 1) (x + unat b mod 128 * 2 ^ (7 * i)) bs)"

definition read_uvarint :: "bytes \<Rightarrow> (nat \<times> bytes) option" where
  "read_uvarint bs = read_uvarint_loop 0 0 bs"

definition writeUvarint :: "u64 \<Rightarrow> bytes" where
  "writeUvarint number = put_uvarint (unat number)"

definition writeLengthPrefixed :: "bytes \<Rightarrow> bytes" where
  "writeLengthPrefixed data = put_uvarint (length data) @ data"

datatype stored_error = EmptyPosting | BadPropertyForm rwi_error | BadPostingMask
  | BadColumn string stored_error | BadExtras stored_error
  | ReadHash | ReadLength | LengthExceeds nat | ReadCardinal | ExtrasExceed nat

definition readLengthPrefixed :: "bytes \<Rightarrow> (stored_error, bytes \<times> bytes) result" where
  "readLengthPrefixed reader = (case read_uvarint reader of
     None \<Rightarrow> Inl ReadLength
   | Some (l, rest) \<Rightarrow>
       if l > length rest then Inl (LengthExceeds l) else Inr (take l rest, drop l rest))"

section \<open>Writing\<close>

definition storedPostingFormatV1 :: byte where "storedPostingFormatV1 = 1"

definition storedPostingColumns :: "string list" where
  "storedPostingColumns =
     [ColURLHash, ColLastModified, ColFreshUntil, ColTitleWordCount, ColTextWordCount,
      ColPhraseCount, ColDocType, ColLanguage, ColLocalLinkCount, ColExternalLinkCount,
      ColURLLength, ColURLComponentCount, ColWordType, ColFlags, ColHitCount, ColTextPosition,
      ColPhraseRelativePos, ColPhrasePosition, ColWordDistance, ColReserve]"

text \<open>\<^verbatim>\<open>strconv.ParseUint\<close> with its error dropped: zero for bad syntax, the largest number for
  one out of range.\<close>

definition parse_uint_or :: "string \<Rightarrow> nat" where
  "parse_uint_or s =
     (if s = [] \<or> \<not> list_all is_digit s then 0 else min (2 ^ 64 - 1) (decimal_value 0 s))"

definition encodeStoredPostingColumn :: "string \<Rightarrow> string \<Rightarrow> bytes" where
  "encodeStoredPostingColumn column v =
     (if column = ColURLHash then bytes_of_string v
      else if column = ColLanguage then writeLengthPrefixed (bytes_of_string v)
      else if column = ColFlags
      then writeLengthPrefixed (case Decode v of Inl _ \<Rightarrow> [] | Inr raw \<Rightarrow> raw)
      else writeUvarint (word_of_nat (parse_uint_or v)))"

definition posting_mask :: "(string, string) gomap \<Rightarrow> u32" where
  "posting_mask props = foldl (\<lambda>m (position, column).
     if map_of props column \<noteq> None then m OR push_bit position 1 else m)
     0 (enumerate 0 storedPostingColumns)"

fun encode_columns :: "(string, string) gomap \<Rightarrow> string list \<Rightarrow> bytes" where
  "encode_columns props [] = []"
| "encode_columns props (column # rest) = (case map_of props column of
     None \<Rightarrow> encode_columns props rest
   | Some v \<Rightarrow> encodeStoredPostingColumn column v @ encode_columns props rest)"

definition extra_keys :: "(string, string) gomap \<Rightarrow> string list" where
  "extra_keys props = sort (filter (\<lambda>key. key \<notin> set storedPostingColumns) (map_keys props))"

definition encode_extra :: "(string, string) gomap \<Rightarrow> string \<Rightarrow> bytes" where
  "encode_extra props key = writeLengthPrefixed (bytes_of_string key) @
     writeLengthPrefixed (bytes_of_string (get_or [] props key))"

definition encodeStoredPostingExtras :: "(string, string) gomap \<Rightarrow> bytes" where
  "encodeStoredPostingExtras props =
     put_uvarint (length (extra_keys props)) @ concat (map (encode_extra props) (extra_keys props))"

definition encodeStoredPosting :: "RWIPosting \<Rightarrow> bytes" where
  "encodeStoredPosting entry =
     storedPostingFormatV1 # le_bytes 4 (posting_mask (RWI_Properties entry)) @
     encode_columns (RWI_Properties entry) storedPostingColumns @
     encodeStoredPostingExtras (RWI_Properties entry)"

section \<open>Reading\<close>

definition decodeStoredPostingColumn ::
  "bytes \<Rightarrow> string \<Rightarrow> (stored_error, string \<times> bytes) result" where
  "decodeStoredPostingColumn reader column =
     (if column = ColURLHash
      then if length reader < HashLength then Inl ReadHash
           else Inr (string_of_bytes (take HashLength reader), drop HashLength reader)
      else if column = ColLanguage
      then map_sum id (\<lambda>(raw, rest). (string_of_bytes raw, rest)) (readLengthPrefixed reader)
      else if column = ColFlags
      then map_sum id (\<lambda>(raw, rest). (Encode raw, rest)) (readLengthPrefixed reader)
      else case read_uvarint reader of
        None \<Rightarrow> Inl ReadCardinal
      | Some (number, rest) \<Rightarrow> Inr (FormatRWICardinal (word_of_nat number), rest))"

fun decode_columns ::
  "u32 \<Rightarrow> (nat \<times> string) list \<Rightarrow> bytes \<Rightarrow> (string, string) gomap \<Rightarrow>
     (stored_error, bytes \<times> (string, string) gomap) result" where
  "decode_columns present [] reader props = Inr (reader, props)"
| "decode_columns present ((position, column) # rest) reader props =
     (if present AND push_bit position 1 = 0 then decode_columns present rest reader props
      else case decodeStoredPostingColumn reader column of
        Inl e \<Rightarrow> Inl (BadColumn column e)
      | Inr (v, reader) \<Rightarrow> decode_columns present rest reader (AList.update column v props))"

fun decode_extras ::
  "nat \<Rightarrow> bytes \<Rightarrow> (string, string) gomap \<Rightarrow> (stored_error, (string, string) gomap) result" where
  "decode_extras 0 reader props = Inr props"
| "decode_extras (Suc n) reader props = (case readLengthPrefixed reader of
     Inl e \<Rightarrow> Inl e
   | Inr (key, reader) \<Rightarrow> (case readLengthPrefixed reader of
       Inl e \<Rightarrow> Inl e
     | Inr (v, reader) \<Rightarrow>
         decode_extras n reader (AList.update (string_of_bytes key) (string_of_bytes v) props)))"

definition decodeStoredPostingExtras ::
  "bytes \<Rightarrow> (string, string) gomap \<Rightarrow> (stored_error, (string, string) gomap) result" where
  "decodeStoredPostingExtras reader props = (case read_uvarint reader of
     None \<Rightarrow> Inl ReadLength
   | Some (n, rest) \<Rightarrow> if n > length rest then Inl (ExtrasExceed n) else decode_extras n rest props)"

definition read_mask :: "bytes \<Rightarrow> u32" where
  "read_mask bs = foldr (\<lambda>b m. ucast b OR push_bit 8 m) bs 0"

definition decodeStoredPostingV1 :: "Hash \<Rightarrow> bytes \<Rightarrow> (stored_error, RWIPosting) result" where
  "decodeStoredPostingV1 wordHash data =
     (if length data < 4 then Inl BadPostingMask
      else case decode_columns (read_mask (take 4 data)) (enumerate 0 storedPostingColumns)
          (drop 4 data) [] of
        Inl e \<Rightarrow> Inl e
      | Inr (reader, props) \<Rightarrow> (case decodeStoredPostingExtras reader props of
          Inl e \<Rightarrow> Inl (BadExtras e)
        | Inr props \<Rightarrow> Inr \<lparr>RWI_WordHash = wordHash, RWI_Properties = props\<rparr>))"

definition decodeStoredPosting :: "Hash \<Rightarrow> bytes \<Rightarrow> (stored_error, RWIPosting) result" where
  "decodeStoredPosting wordHash data = (case data of
     [] \<Rightarrow> Inl EmptyPosting
   | b # rest \<Rightarrow>
       if b \<noteq> storedPostingFormatV1
       then map_sum BadPropertyForm id (ParseRWIPosting (string_of_bytes data))
       else decodeStoredPostingV1 wordHash rest)"

section \<open>Numbers\<close>

lemma unat_byte: "n < 256 \<Longrightarrow> unat (word_of_nat n :: byte) = n"
  by (simp add: unat_of_nat)

lemma read_put_uvarint_loop:
  "i \<le> 9 \<Longrightarrow> n < 2 ^ (64 - 7 * i) \<Longrightarrow>
     read_uvarint_loop i x (put_uvarint n @ rest) = Some (x + n * 2 ^ (7 * i), rest)"
proof (induction n arbitrary: i x rule: put_uvarint.induct)
  case (1 n)
  show ?case
  proof (cases "n < 128")
    case True
    then have "unat (word_of_nat n :: byte) = n" by (intro unat_byte) simp
    moreover have "\<not> (i = 9 \<and> n > 1)" using "1.prems" by auto
    ultimately show ?thesis using True "1.prems" by (simp add: put_uvarint.simps [of n])
  next
    case False
    have "i \<noteq> 9" using False "1.prems" by auto
    then have i: "i + 1 \<le> 9" "64 - 7 * i = Suc (Suc (Suc (Suc (Suc (Suc (Suc (64 - 7 * (i + 1))))))))"
      using "1.prems" by auto
    have "n < 128 * 2 ^ (64 - 7 * (i + 1))" using "1.prems"(2) unfolding i(2) by simp
    then have m: "n div 128 < 2 ^ (64 - 7 * (i + 1))" by (simp add: less_mult_imp_div_less mult.commute)
    have b: "unat (word_of_nat (n mod 128 + 128) :: byte) = n mod 128 + 128"
      by (rule unat_byte) simp
    have "a * P + d * (128 * P) = (a + 128 * d) * P" for a d P :: nat
      by (simp add: algebra_simps)
    moreover have "(2::nat) ^ (7 * (i + 1)) = 128 * 2 ^ (7 * i)" by (simp add: power_add)
    ultimately have e: "n mod 128 * 2 ^ (7 * i) + n div 128 * 2 ^ (7 * (i + 1)) = n * 2 ^ (7 * i)"
      by (simp only: mod_mult_div_eq)
    have p: "put_uvarint n = word_of_nat (n mod 128 + 128) # put_uvarint (n div 128)"
      using False by (simp only: put_uvarint.simps [of n] if_False)
    show ?thesis using "1.IH" [OF False i(1) m] "1.prems"(1) e
      by (simp only: p append_Cons read_uvarint_loop.simps b) simp
  qed
qed

lemma read_put_uvarint: "n < 2 ^ 64 \<Longrightarrow> read_uvarint (put_uvarint n @ rest) = Some (n, rest)"
  using read_put_uvarint_loop [of 0 n 0 rest] by (simp add: read_uvarint_def)

lemma read_length_prefixed:
  "length data < 2 ^ 64 \<Longrightarrow> readLengthPrefixed (writeLengthPrefixed data @ rest) = Inr (data, rest)"
  by (simp add: readLengthPrefixed_def writeLengthPrefixed_def read_put_uvarint)

section \<open>The mask\<close>

lemma bit_byte_or:
  fixes b :: byte and m :: u32
  assumes "n < 32"
  shows "bit (ucast b OR push_bit 8 m) n \<longleftrightarrow> (if n < 8 then bit b n else bit m (n - 8))"
proof -
  have "bit b n \<Longrightarrow> n < 8" using bit_imp_le_length [of b n] by simp
  then show ?thesis using assms
    by (auto simp only: bit_or_iff bit_ucast_iff bit_push_bit_iff possible_bit_word len_num1 len_bit0
        split: if_splits)
qed

lemma bit_read_mask:
  "n < 32 \<Longrightarrow> bit (read_mask (map (\<lambda>i. ucast (drop_bit (8 * i) m)) [k..<k + j])) n \<longleftrightarrow>
     n < 8 * j \<and> bit m (8 * k + n)"
proof (induction j arbitrary: k n)
  case (Suc j)
  have u: "[k..<k + Suc j] = k # [Suc k..<Suc k + j]" by (simp add: upt_conv_Cons)
  have c: "read_mask (b # bs) = ucast b OR push_bit 8 (read_mask bs)" for b bs
    unfolding read_mask_def by simp
  show ?case
  proof (cases "n < 8")
    case True
    then show ?thesis unfolding u list.map c bit_byte_or [OF Suc.prems]
      by (simp add: bit_ucast_iff bit_drop_bit_eq)
  next
    case False
    then have "8 * Suc k + (n - 8) = 8 * k + n" by simp
    then show ?thesis using Suc.IH [of "n - 8" "Suc k"] Suc.prems False
      unfolding u list.map c bit_byte_or [OF Suc.prems] by auto
  qed
qed (simp add: read_mask_def)

lemma read_mask_le_bytes: "read_mask (le_bytes 4 m) = m"
  using bit_read_mask [of _ m 0 4] by (auto intro!: bit_eqI simp: le_bytes_def)

lemma bit_posting_mask: "bit (posting_mask props) n \<longleftrightarrow>
   (\<exists>c. (n, c) \<in> set (enumerate 0 storedPostingColumns) \<and> map_of props c \<noteq> None)"
proof -
  have f: "bit (foldl (\<lambda>m (position, column).
      if map_of props column \<noteq> None then m OR push_bit position 1 else m) m0 pcs) n \<longleftrightarrow>
    bit m0 n \<or> (\<exists>c. (n, c) \<in> set pcs \<and> map_of props c \<noteq> None)"
    if "\<forall>(p, c)\<in>set pcs. p < 32" for pcs and m0 :: u32
    using that
  proof (induction pcs arbitrary: m0)
    case (Cons pc pcs)
    obtain p c where pc: "pc = (p, c)" by (cases pc)
    have b: "bit (m0 OR push_bit p 1) n \<longleftrightarrow> bit m0 n \<or> n = p"
      using Cons.prems pc by (auto simp: bit_or_iff bit_exp_iff)
    show ?case using Cons pc b by auto
  qed simp
  have "\<forall>(p, c)\<in>set (enumerate 0 storedPostingColumns). p < 32"
    by (auto simp: in_set_enumerate_eq storedPostingColumns_def)
  from f [OF this, of 0] show ?thesis by (simp add: posting_mask_def)
qed

section \<open>Round trip\<close>

text \<open>The values that a column can hold, and the postings that can be stored; a slice is never
  longer than a 64-bit number.\<close>

definition column_fits :: "string \<Rightarrow> string \<Rightarrow> bool" where
  "column_fits column v =
     (if column = ColURLHash then length v = HashLength
      else if column = ColLanguage then length v < 2 ^ 64
      else if column = ColFlags
      then (case Decode v of Inl _ \<Rightarrow> False | Inr raw \<Rightarrow> Encode raw = v \<and> length raw < 2 ^ 64)
      else (case parse_uint 64 v of None \<Rightarrow> False | Some n \<Rightarrow> format_uint n = v))"

definition storable_map :: "(string, string) gomap \<Rightarrow> bool" where
  "storable_map props \<longleftrightarrow> wf_map props \<and> length props < 2 ^ 64 \<and>
     list_all (\<lambda>(key, v). length key < 2 ^ 64 \<and> length v < 2 ^ 64 \<and>
       (key \<in> set storedPostingColumns \<longrightarrow> column_fits key v)) props"

lemma parse_uint_or: "parse_uint 64 v = Some n \<Longrightarrow> parse_uint_or v = n"
  by (auto simp: parse_uint_def parse_uint_or_def split: if_split_asm)

lemma column_roundtrip:
  assumes "column_fits column v"
  shows "decodeStoredPostingColumn (encodeStoredPostingColumn column v @ rest) column = Inr (v, rest)"
proof -
  consider "column = ColURLHash" | "column \<noteq> ColURLHash" "column = ColLanguage"
    | "column \<noteq> ColURLHash" "column \<noteq> ColLanguage" "column = ColFlags"
    | "column \<noteq> ColURLHash" "column \<noteq> ColLanguage" "column \<noteq> ColFlags" by blast
  then show ?thesis
  proof cases
    case 1
    then show ?thesis using assms
      by (simp add: column_fits_def encodeStoredPostingColumn_def decodeStoredPostingColumn_def)
  next
    case 2
    then show ?thesis using assms read_length_prefixed [of "bytes_of_string v" rest]
      by (simp add: column_fits_def encodeStoredPostingColumn_def decodeStoredPostingColumn_def)
  next
    case 3
    then show ?thesis using assms
      by (auto simp: column_fits_def encodeStoredPostingColumn_def decodeStoredPostingColumn_def
          read_length_prefixed split: sum.splits)
  next
    case 4
    then obtain n where n: "parse_uint 64 v = Some n" "format_uint n = v"
      using assms by (auto simp: column_fits_def split: option.splits)
    have "n < 2 ^ 64" using parse_uint_bound [OF n(1)] .
    then have u: "unat (word_of_nat n :: u64) = n" by (simp add: unat_of_nat)
    show ?thesis using 4 n u \<open>n < 2 ^ 64\<close>
      by (simp add: encodeStoredPostingColumn_def decodeStoredPostingColumn_def writeUvarint_def
          parse_uint_or read_put_uvarint FormatRWICardinal_def)
  qed
qed

text \<open>Both loops of the decoder put entries of the map into the one they build.\<close>

definition copy_keys :: "('k, 'v) gomap \<Rightarrow> 'k list \<Rightarrow> ('k, 'v) gomap \<Rightarrow> ('k, 'v) gomap" where
  "copy_keys props ks acc = foldl (\<lambda>acc k. case map_of props k of
     None \<Rightarrow> acc | Some v \<Rightarrow> AList.update k v acc) acc ks"

lemma map_of_copy_keys:
  "map_of (copy_keys props ks acc) k =
     (if k \<in> set ks \<and> map_of props k \<noteq> None then map_of props k else map_of acc k)"
  unfolding copy_keys_def
  by (induction ks arbitrary: acc) (auto simp: update_conv' split: option.splits)

lemma wf_copy_keys: "wf_map acc \<Longrightarrow> wf_map (copy_keys props ks acc)"
  unfolding copy_keys_def by (induction ks arbitrary: acc) (auto split: option.splits)

lemma decode_encode_columns:
  assumes "\<forall>(p, c)\<in>set pcs. (bit present p \<longleftrightarrow> map_of props c \<noteq> None) \<and>
    (\<forall>v. map_of props c = Some v \<longrightarrow> column_fits c v)"
  shows "decode_columns present pcs (encode_columns props (map snd pcs) @ rest) acc =
    Inr (rest, copy_keys props (map snd pcs) acc)"
  using assms
proof (induction pcs arbitrary: acc)
  case (Cons pc pcs)
  obtain p c where pc: "pc = (p, c)" by (cases pc)
  have b: "present AND push_bit p 1 = 0 \<longleftrightarrow> map_of props c = None"
    using Cons.prems pc by (simp add: and_exp_eq_0_iff_not_bit)
  show ?case
  proof (cases "map_of props c")
    case None
    then show ?thesis using Cons pc b by (simp add: copy_keys_def)
  next
    case (Some v)
    then have "column_fits c v" using Cons.prems pc by auto
    from column_roundtrip [OF this] show ?thesis using Cons pc b Some by (simp add: copy_keys_def)
  qed
qed (simp add: copy_keys_def)

lemma decode_encode_extras:
  assumes "\<forall>k\<in>set ks. length k < 2 ^ 64 \<and> (\<exists>v. map_of props k = Some v \<and> length v < 2 ^ 64)"
  shows "decode_extras (length ks) (concat (map (encode_extra props) ks)) acc =
    Inr (copy_keys props ks acc)"
  using assms
proof (induction ks arbitrary: acc)
  case (Cons k ks)
  then obtain v where v: "map_of props k = Some v" "length v < 2 ^ 64" "length k < 2 ^ 64" by auto
  then have "length (bytes_of_string k) < 2 ^ 64" "length (bytes_of_string v) < 2 ^ 64" by simp_all
  from this [THEN read_length_prefixed] show ?case using Cons v
    by (simp add: encode_extra_def get_or_def copy_keys_def)
qed (simp add: copy_keys_def)

lemma extras_long: "length ks \<le> length (concat (map (encode_extra props) ks))"
proof (induction ks)
  case (Cons k ks)
  have "put_uvarint n \<noteq> []" for n by (simp add: put_uvarint.simps [of n])
  then have "1 \<le> length (encode_extra props k)"
    by (simp add: encode_extra_def writeLengthPrefixed_def Suc_le_eq)
  with Cons show ?case by simp
qed simp

lemma set_extra_keys:
  "set (extra_keys props) = set (map_keys props) - set storedPostingColumns"
  by (auto simp: extra_keys_def)

lemma stored_map_roundtrip:
  assumes "storable_map (RWI_Properties e)"
  shows "\<exists>e'. decodeStoredPosting w (encodeStoredPosting e) = Inr e' \<and> RWI_WordHash e' = w \<and>
    wf_map (RWI_Properties e') \<and> map_of (RWI_Properties e') = map_of (RWI_Properties e)"
proof -
  let ?p = "RWI_Properties e" and ?c = "enumerate 0 storedPostingColumns"
  have fit: "length k < 2 ^ 64 \<and> length v < 2 ^ 64 \<and> (k \<in> set storedPostingColumns \<longrightarrow> column_fits k v)"
    if "map_of ?p k = Some v" for k v
    using assms map_of_SomeD [OF that] by (auto simp: storable_map_def list_all_iff)
  have snd: "map snd ?c = storedPostingColumns" by simp
  have unique: "c = c'" if "(n, c) \<in> set ?c" "(n, c') \<in> set ?c" for n c c'
    using that by (simp add: in_set_enumerate_eq)
  have cols: "decode_columns (posting_mask ?p) ?c (encode_columns ?p storedPostingColumns @ rest) [] =
      Inr (rest, copy_keys ?p storedPostingColumns [])" for rest
  proof -
    have "(bit (posting_mask ?p) n \<longleftrightarrow> map_of ?p c \<noteq> None) \<and>
        (\<forall>v. map_of ?p c = Some v \<longrightarrow> column_fits c v)" if m: "(n, c) \<in> set ?c" for n c
    proof -
      have "c \<in> set storedPostingColumns" using m by (auto simp: in_set_enumerate_eq)
      moreover have "bit (posting_mask ?p) n \<longleftrightarrow> map_of ?p c \<noteq> None"
        unfolding bit_posting_mask using unique m by blast
      ultimately show ?thesis using fit by blast
    qed
    then have "\<forall>(p, c)\<in>set ?c. (bit (posting_mask ?p) p \<longleftrightarrow> map_of ?p c \<noteq> None) \<and>
        (\<forall>v. map_of ?p c = Some v \<longrightarrow> column_fits c v)" by auto
    from decode_encode_columns [OF this] show ?thesis unfolding snd .
  qed
  have "length (extra_keys ?p) \<le> length ?p"
    by (simp add: extra_keys_def map_keys_def)
  then have n: "length (extra_keys ?p) < 2 ^ 64" using assms by (simp add: storable_map_def)
  have "\<forall>k\<in>set (extra_keys ?p). length k < 2 ^ 64 \<and> (\<exists>v. map_of ?p k = Some v \<and> length v < 2 ^ 64)"
    using fit by (fastforce simp: set_extra_keys set_map_keys dest: weak_map_of_SomeI)
  from decode_encode_extras [OF this] n extras_long
  have extras: "decodeStoredPostingExtras (encodeStoredPostingExtras ?p) acc =
      Inr (copy_keys ?p (extra_keys ?p) acc)" for acc
    by (simp add: decodeStoredPostingExtras_def encodeStoredPostingExtras_def read_put_uvarint not_less)
  let ?q = "copy_keys ?p (extra_keys ?p) (copy_keys ?p storedPostingColumns [])"
  have "map_of ?q = map_of ?p"
    by (rule ext) (auto simp: map_of_copy_keys set_extra_keys set_map_keys dest: not_sym)
  moreover have "wf_map ?q" by (simp add: wf_copy_keys)
  moreover have "decodeStoredPosting w (encodeStoredPosting e) =
      Inr \<lparr>RWI_WordHash = w, RWI_Properties = ?q\<rparr>"
    by (simp add: decodeStoredPosting_def encodeStoredPosting_def decodeStoredPostingV1_def
        read_mask_le_bytes cols extras)
  ultimately show ?thesis by simp
qed

section \<open>The form depends on the properties alone\<close>

lemma encode_columns_cong: "map_of p = map_of q \<Longrightarrow> encode_columns p cs = encode_columns q cs"
  by (induction cs) (auto split: option.splits)

lemma extra_keys_cong:
  assumes "map_of p = map_of q" "wf_map p" "wf_map q"
  shows "extra_keys p = extra_keys q"
proof -
  have d: "distinct (extra_keys m)" if "wf_map m" for m
    using that by (simp add: extra_keys_def wf_map_def map_keys_def)
  have "set (extra_keys p) = set (extra_keys q)" using assms(1) by (simp add: set_extra_keys set_map_keys)
  then show ?thesis using d [OF assms(2)] d [OF assms(3)]
    by (intro sorted_distinct_set_unique) (simp_all add: extra_keys_def)
qed

lemma encodeStoredPosting_cong:
  assumes "map_of (RWI_Properties e) = map_of (RWI_Properties e')"
    "wf_map (RWI_Properties e)" "wf_map (RWI_Properties e')"
  shows "encodeStoredPosting e = encodeStoredPosting e'"
proof -
  have "posting_mask (RWI_Properties e) = posting_mask (RWI_Properties e')"
    by (simp only: posting_mask_def assms(1))
  moreover have "encode_extra (RWI_Properties e) = encode_extra (RWI_Properties e')"
    by (rule ext) (simp add: encode_extra_def get_or_def assms(1))
  ultimately show ?thesis
    by (simp only: encodeStoredPosting_def encodeStoredPostingExtras_def
        encode_columns_cong [OF assms(1)] extra_keys_cong [OF assms])
qed

section \<open>Postings from the wire\<close>

lemma cardinal_column:
  "c \<in> set storedPostingColumns \<Longrightarrow> c \<noteq> ColURLHash \<Longrightarrow> c \<noteq> ColLanguage \<Longrightarrow> c \<noteq> ColFlags \<Longrightarrow>
     c = ColDocType \<or> c = ColWordType \<or> (\<exists>w. map_of rwiCardinalWidths c = Some w)"
  by (simp add: storedPostingColumns_def rwiCardinalWidths_def) (auto simp: column_defs)

lemma normal_column_fits:
  assumes "normalizeRWIProperty c v = Inr v" "validateRWIProperty c v = None"
    "c \<in> set storedPostingColumns" "length v < 2 ^ 64"
  shows "column_fits c v"
proof -
  have w: "parse_uint 64 (format_uint (unat w)) = Some (unat w)" for w :: u64
    using unsigned_less [of w] by (intro parse_format_uint) simp
  have b: "parse_uint 64 (format_uint (unat b)) = Some (unat b)" for b :: byte
  proof (rule parse_format_uint)
    have "unat b < 2 ^ 8" using unsigned_less [of b] by simp
    then show "unat b < 2 ^ 64" by simp
  qed
  consider "c = ColURLHash" | "c = ColLanguage" | "c = ColFlags" | "c = ColDocType \<or> c = ColWordType"
    | w where "map_of rwiCardinalWidths c = Some w" "c \<noteq> ColURLHash" "c \<noteq> ColLanguage" "c \<noteq> ColFlags"
    using cardinal_column [OF assms(3)] by blast
  then show ?thesis
  proof cases
    case 1
    then show ?thesis using assms(2)
      by (auto simp: column_fits_def validateRWIProperty_def ParseHash_iff HashLength_def split: sum.splits)
  next
    case 2
    then show ?thesis using assms(4) column_distinct by (simp add: column_fits_def)
  next
    case 3
    then obtain raw where raw: "Decode v = Inr raw" "v = Encode (take rwiByteFlagLength raw)"
      using assms(1) column_distinct by (auto simp: normalizeRWIProperty_def split: sum.splits)
    then have "raw = take rwiByteFlagLength raw" by (metis Decode_Encode sum.inject(2))
    then have "length raw \<le> 4" by (metis length_take min.cobounded2 rwiByteFlagLength_def)
    then show ?thesis using 3 raw \<open>raw = _\<close> column_distinct by (auto simp: column_fits_def)
  next
    case 4
    then have "\<exists>b :: byte. v = format_uint (unat b)"
      using assms(1) column_distinct by (auto simp: normalizeRWIProperty_def dest!: sym [of _ v])
    then show ?thesis using 4 b column_distinct by (auto simp: column_fits_def)
  next
    case 5
    then have "\<exists>w :: u64. v = format_uint (unat w)"
      using assms(1) by (auto simp: normalizeRWIProperty_def FormatRWICardinal_def dest!: sym [of _ v])
    then show ?thesis using 5 w by (auto simp: column_fits_def)
  qed
qed

text \<open>A posting from the wire whose texts fit into memory can be stored.\<close>

definition sized_map :: "(string, string) gomap \<Rightarrow> bool" where
  "sized_map props \<longleftrightarrow> length props < 2 ^ 64 \<and>
     list_all (\<lambda>(key, v). length key < 2 ^ 64 \<and> length v < 2 ^ 64) props"

lemma wf_posting_storable:
  assumes "wf_posting e" "sized_map (RWI_Properties e)"
  shows "storable_map (RWI_Properties e)"
  using assms normal_column_fits
  by (fastforce simp: wf_posting_def normal_columns_def storable_map_def sized_map_def list_all_iff)

section \<open>Properties\<close>

text \<open>A posting as it is received from the wire survives the store: its stored form is read
  back, under the word hash it is filed under, with the same properties; and two such postings have
  the same stored form exactly when their properties are the same, so comparing stored forms
  compares postings.\<close>
theorem stored_posting_roundtrip:
  assumes "wf_posting e" "sized_map (RWI_Properties e)"
    and "wf_posting e'" "sized_map (RWI_Properties e')"
  shows "(\<exists>d. decodeStoredPosting w (encodeStoredPosting e) = Inr d \<and> RWI_WordHash d = w \<and>
      map_of (RWI_Properties d) = map_of (RWI_Properties e)) \<and>
    (encodeStoredPosting e = encodeStoredPosting e' \<longleftrightarrow>
      map_of (RWI_Properties e) = map_of (RWI_Properties e'))"
proof -
  obtain d d' where "decodeStoredPosting w (encodeStoredPosting e) = Inr d"
    "RWI_WordHash d = w" "map_of (RWI_Properties d) = map_of (RWI_Properties e)"
    and "decodeStoredPosting w (encodeStoredPosting e') = Inr d'"
    "map_of (RWI_Properties d') = map_of (RWI_Properties e')"
    using stored_map_roundtrip [OF wf_posting_storable [OF assms(1,2)], of w]
      stored_map_roundtrip [OF wf_posting_storable [OF assms(3,4)], of w] by blast
  moreover have "encodeStoredPosting e = encodeStoredPosting e'"
    if "map_of (RWI_Properties e) = map_of (RWI_Properties e')"
    using that assms by (intro encodeStoredPosting_cong) (simp_all add: wf_posting_def normal_columns_def)
  ultimately show ?thesis by (metis sum.inject(2))
qed

lemma stored_posting_roundtrip_witness:
  "(\<exists>d. decodeStoredPosting ''ABCDEFGHIJKL'' (encodeStoredPosting example_posting) = Inr d \<and>
     RWI_WordHash d = ''ABCDEFGHIJKL'' \<and>
     map_of (RWI_Properties d) = map_of (RWI_Properties example_posting)) \<and>
   (encodeStoredPosting example_posting = encodeStoredPosting example_posting \<longleftrightarrow>
     map_of (RWI_Properties example_posting) = map_of (RWI_Properties example_posting))"
proof -
  have "sized_map (RWI_Properties example_posting)"
    by (simp add: sized_map_def example_posting_def column_defs)
  then show ?thesis by (intro stored_posting_roundtrip example_posting(1))
qed

end
