(* ===== verification/PostingStore.thy ===== *)
theory PostingStore
  imports StoredPosting
begin

text \<open>
  \<^verbatim>\<open>yagonode/internal/rwi\<close>: the store of the postings of a node and the journal of those that are
  on their way to other peers. A selection first writes the postings into the journal and then, in
  a second transaction, takes them out of the index; a restore writes them back before it clears
  the journal. The vault under it is a parameter: an update that succeeds is atomic, one that is
  aborted changes nothing, and one whose commit fails may leave any part of its changes behind,
  because the vault keeps its records in files that are committed one by one. The lemmas show that
  no operation except confirmation and purge loses a posting, whatever fails, and that recovery
  clears the journal.
\<close>

section \<open>The vault\<close>

text \<open>The two collections, with the stored forms of the postings. The observers of the index are
  called inside the transactions; their collections are not part of the model, and a failure of
  theirs aborts the update like any other.\<close>

record posting_vault =
  pv_postings :: "(string, bytes) gomap"
  pv_outboundSelected :: "(string, bytes) gomap"

datatype store_error = BadKeyLength nat | BadKeyWord hash_error | BadKeyURL hash_error
  | CorruptValue stored_error | BadPostingWord hash_error | BadPostingURL hash_error
  | StorageFailed bool

text \<open>What becomes of an update: it can be aborted, by a full vault or the end of the request's
  context (the flag of \<open>StorageFailed\<close>) or otherwise; the predicates of a failed commit say which
  records of the index and of the journal were written.\<close>

datatype txn_outcome = TxnOk | TxnAborted bool | TxnPartial "string \<Rightarrow> bool" "string \<Rightarrow> bool"

definition partial_commit ::
  "(string \<Rightarrow> bool) \<Rightarrow> (string, bytes) gomap \<Rightarrow> (string, bytes) gomap \<Rightarrow> (string, bytes) gomap" where
  "partial_commit written old new = List.map_filter
     (\<lambda>key. map_option (Pair key) (if written key then map_of new key else map_of old key))
     (remdups (map_keys old @ map_keys new))"

definition vault_update ::
  "txn_outcome \<Rightarrow> posting_vault \<Rightarrow> (store_error, posting_vault \<times> 'r) result \<Rightarrow>
     posting_vault \<times> (store_error, 'r) result" where
  "vault_update outcome v r = (case r of
     Inl e \<Rightarrow> (v, Inl e)
   | Inr (v', x) \<Rightarrow> (case outcome of
       TxnOk \<Rightarrow> (v', Inr x)
     | TxnAborted busy \<Rightarrow> (v, Inl (StorageFailed busy))
     | TxnPartial p q \<Rightarrow>
         (\<lparr>pv_postings = partial_commit p (pv_postings v) (pv_postings v'),
           pv_outboundSelected = partial_commit q (pv_outboundSelected v) (pv_outboundSelected v')\<rparr>,
          Inl (StorageFailed False))))"

definition collection_get ::
  "(string, bytes) gomap \<Rightarrow> string \<Rightarrow> (store_error, RWIPosting option) result" where
  "collection_get c key = (case map_of c key of
     None \<Rightarrow> Inr None
   | Some raw \<Rightarrow> map_sum CorruptValue Some (decodeStoredPosting [] raw))"

definition put_posting :: "string \<Rightarrow> RWIPosting \<Rightarrow> posting_vault \<Rightarrow> posting_vault" where
  "put_posting key row v =
     v\<lparr>pv_postings := AList.update key (encodeStoredPosting row) (pv_postings v)\<rparr>"

definition put_selected :: "string \<Rightarrow> RWIPosting \<Rightarrow> posting_vault \<Rightarrow> posting_vault" where
  "put_selected key row v =
     v\<lparr>pv_outboundSelected := AList.update key (encodeStoredPosting row) (pv_outboundSelected v)\<rparr>"

definition scan_entries :: "(string, bytes) gomap \<Rightarrow> (string \<times> bytes) list" where
  "scan_entries c = List.map_filter (\<lambda>key. map_option (Pair key) (map_of c key)) (sort (map_keys c))"

section \<open>Selection\<close>

record OutboundSelectionConfig =
  os_MaxWords :: int
  os_MaxPostings :: int

record WordPostings =
  wp_WordHash :: Hash
  wp_Postings :: "RWIPosting list"

record selectedPosting =
  sp_key :: string
  sp_word :: Hash
  sp_url :: Hash
  sp_row :: RWIPosting

definition postingKeyLength :: nat where "postingKeyLength = HashLength + HashLength"

definition postingKey :: "Hash \<Rightarrow> Hash \<Rightarrow> string" where
  "postingKey wordHash urlHash = wordHash @ urlHash"

definition postingKeyHashes :: "string \<Rightarrow> (store_error, Hash \<times> Hash) result" where
  "postingKeyHashes key =
     (if length key \<noteq> postingKeyLength then Inl (BadKeyLength (length key))
      else case ParseHash (take HashLength key) of
        Inl e \<Rightarrow> Inl (BadKeyWord e)
      | Inr word \<Rightarrow> (case ParseHash (drop HashLength key) of
          Inl e \<Rightarrow> Inl (BadKeyURL e) | Inr url \<Rightarrow> Inr (word, url)))"

definition normalizeOutboundSelectionConfig :: "OutboundSelectionConfig \<Rightarrow> OutboundSelectionConfig" where
  "normalizeOutboundSelectionConfig config =
     \<lparr>os_MaxWords = (if os_MaxWords config \<le> 0 then 1 else os_MaxWords config),
      os_MaxPostings = (if os_MaxPostings config \<le> 0 then 1 else os_MaxPostings config)\<rparr>"

definition keepWord :: "OutboundSelectionConfig \<Rightarrow> Hash list \<Rightarrow> Hash \<Rightarrow> Hash list option" where
  "keepWord config seenWords word =
     (if word \<in> set seenWords then Some seenWords
      else if int (length seenWords) \<ge> os_MaxWords config then None
      else Some (word # seenWords))"

text \<open>The scan with the visits of the selector.\<close>

fun outbound_scan ::
  "OutboundSelectionConfig \<Rightarrow> (string \<times> bytes) list \<Rightarrow> selectedPosting list \<Rightarrow> Hash list \<Rightarrow>
     (store_error, selectedPosting list) result" where
  "outbound_scan config [] selected seen = Inr selected"
| "outbound_scan config ((key, raw) # rest) selected seen = (case decodeStoredPosting [] raw of
     Inl e \<Rightarrow> Inl (CorruptValue e)
   | Inr entry \<Rightarrow> (case postingKeyHashes key of
       Inl e \<Rightarrow> Inl e
     | Inr (word, url) \<Rightarrow> (case keepWord config seen word of
         None \<Rightarrow> Inr selected
       | Some seen \<Rightarrow>
           let selected = selected @ [\<lparr>sp_key = key, sp_word = word, sp_url = url,
                 sp_row = entry\<lparr>RWI_WordHash := word\<rparr>\<rparr>]
           in if int (length selected) < os_MaxPostings config
              then outbound_scan config rest selected seen
              else Inr selected)))"

definition journalOutboundSelection :: "selectedPosting list \<Rightarrow> posting_vault \<Rightarrow> posting_vault" where
  "journalOutboundSelection selected v =
     foldl (\<lambda>v posting. put_selected (sp_key posting) (sp_row posting) v) v selected"

definition sameStoredPosting :: "RWIPosting \<Rightarrow> RWIPosting \<Rightarrow> bool" where
  "sameStoredPosting a b \<longleftrightarrow> encodeStoredPosting a = encodeStoredPosting b"

definition deleteOutboundPosting ::
  "posting_vault \<Rightarrow> selectedPosting \<Rightarrow> (store_error, posting_vault) result" where
  "deleteOutboundPosting v posting = (case collection_get (pv_postings v) (sp_key posting) of
     Inl e \<Rightarrow> Inl e
   | Inr None \<Rightarrow> Inr v
   | Inr (Some current) \<Rightarrow>
       if \<not> sameStoredPosting current (sp_row posting) then Inr v
       else Inr (v\<lparr>pv_postings := AList.delete (sp_key posting) (pv_postings v)\<rparr>))"

text \<open>A loop over postings that stops at the first error.\<close>

fun each_posting ::
  "('v \<Rightarrow> 'p \<Rightarrow> (store_error, 'v) result) \<Rightarrow> 'v \<Rightarrow> 'p list \<Rightarrow> (store_error, 'v) result" where
  "each_posting f v [] = Inr v"
| "each_posting f v (p # ps) = (case f v p of Inl e \<Rightarrow> Inl e | Inr v \<Rightarrow> each_posting f v ps)"

definition deleteOutboundSelection ::
  "posting_vault \<Rightarrow> selectedPosting list \<Rightarrow> (store_error, posting_vault) result" where
  "deleteOutboundSelection v selected = each_posting deleteOutboundPosting v selected"

definition removeDurablySelectedPostings ::
  "txn_outcome \<Rightarrow> posting_vault \<Rightarrow> selectedPosting list \<Rightarrow> posting_vault \<times> (store_error, unit) result" where
  "removeDurablySelectedPostings outcome v selected = vault_update outcome v
     (map_sum id (\<lambda>v. (v, ())) (deleteOutboundSelection v selected))"

definition selectOutboundPostings ::
  "txn_outcome \<times> txn_outcome \<Rightarrow> posting_vault \<Rightarrow> OutboundSelectionConfig \<Rightarrow>
     posting_vault \<times> (store_error, selectedPosting list) result" where
  "selectOutboundPostings outcomes v config =
     (case vault_update (fst outcomes) v
        (map_sum id (\<lambda>selected. (journalOutboundSelection selected v, selected))
          (outbound_scan config (scan_entries (pv_postings v)) [] [])) of
        (v, Inl e) \<Rightarrow> (v, Inl e)
      | (v, Inr selected) \<Rightarrow> (case removeDurablySelectedPostings (snd outcomes) v selected of
          (v, Inl e) \<Rightarrow> (v, Inl e) | (v, Inr _) \<Rightarrow> (v, Inr selected)))"

text \<open>Postings are grouped by word in the order in which the words first appear.\<close>

fun add_to_word :: "Hash \<Rightarrow> RWIPosting \<Rightarrow> WordPostings list \<Rightarrow> WordPostings list" where
  "add_to_word word row [] = [\<lparr>wp_WordHash = word, wp_Postings = [row]\<rparr>]"
| "add_to_word word row (w # ws) =
     (if wp_WordHash w = word then w\<lparr>wp_Postings := wp_Postings w @ [row]\<rparr> # ws
      else w # add_to_word word row ws)"

definition group_words :: "(Hash \<times> RWIPosting) list \<Rightarrow> WordPostings list" where
  "group_words rows = foldl (\<lambda>words (word, row). add_to_word word row words) [] rows"

definition SelectOutbound ::
  "txn_outcome \<times> txn_outcome \<Rightarrow> posting_vault \<Rightarrow> OutboundSelectionConfig \<Rightarrow>
     posting_vault \<times> (store_error, WordPostings list) result" where
  "SelectOutbound outcomes v config =
     (case selectOutboundPostings outcomes v (normalizeOutboundSelectionConfig config) of
        (v, Inl e) \<Rightarrow> (v, Inl e)
      | (v, Inr selected) \<Rightarrow> (v, Inr (group_words (map (\<lambda>p. (sp_word p, sp_row p)) selected))))"

section \<open>Restoring and confirming\<close>

definition ownsOutboundSelection ::
  "posting_vault \<Rightarrow> string \<Rightarrow> RWIPosting \<Rightarrow> (store_error, bool) result" where
  "ownsOutboundSelection v key row = (case collection_get (pv_outboundSelected v) key of
     Inl e \<Rightarrow> Inl e
   | Inr None \<Rightarrow> Inr False
   | Inr (Some journaled) \<Rightarrow> Inr (sameStoredPosting journaled row))"

text \<open>The number counts the releases.\<close>

definition releaseOwnedOutboundSelection ::
  "posting_vault \<times> nat \<Rightarrow> string \<Rightarrow> RWIPosting \<Rightarrow> (store_error, posting_vault \<times> nat) result" where
  "releaseOwnedOutboundSelection acc key row = (case acc of (v, released) \<Rightarrow>
     (case ownsOutboundSelection v key row of
        Inl e \<Rightarrow> Inl e
      | Inr owned \<Rightarrow>
          if \<not> owned then Inr (v, released)
          else Inr (v\<lparr>pv_outboundSelected := AList.delete key (pv_outboundSelected v)\<rparr>, released + 1)))"

definition restoreOutboundPosting ::
  "posting_vault \<Rightarrow> selectedPosting \<Rightarrow> (store_error, posting_vault) result" where
  "restoreOutboundPosting v posting = (case ownsOutboundSelection v (sp_key posting) (sp_row posting) of
     Inl e \<Rightarrow> Inl e
   | Inr owned \<Rightarrow>
       if \<not> owned then Inr v
       else case collection_get (pv_postings v) (sp_key posting) of
         Inl e \<Rightarrow> Inl e
       | Inr (Some _) \<Rightarrow> Inr v
       | Inr None \<Rightarrow>
           Inr (put_posting (sp_key posting) ((sp_row posting)\<lparr>RWI_WordHash := sp_word posting\<rparr>) v))"

definition restoreOutboundPostings ::
  "txn_outcome \<times> txn_outcome \<Rightarrow> posting_vault \<Rightarrow> selectedPosting list \<Rightarrow>
     posting_vault \<times> (store_error, nat) result" where
  "restoreOutboundPostings outcomes v selected =
     (if selected = [] then (v, Inr 0)
      else case vault_update (fst outcomes) v
          (map_sum id (\<lambda>v. (v, ())) (each_posting restoreOutboundPosting v selected)) of
        (v, Inl e) \<Rightarrow> (v, Inl e)
      | (v, Inr _) \<Rightarrow> vault_update (snd outcomes) v
          (each_posting (\<lambda>acc p. releaseOwnedOutboundSelection acc (sp_key p) (sp_row p)) (v, 0) selected))"

fun word_rows ::
  "Hash \<Rightarrow> RWIPosting list \<Rightarrow> (store_error, selectedPosting list) result" where
  "word_rows wordHash [] = Inr []"
| "word_rows wordHash (posting # rest) = (case RWIPosting_URLHash posting of
     Inl e \<Rightarrow> Inl (BadPostingURL e)
   | Inr url \<Rightarrow> map_sum id ((#) \<lparr>sp_key = postingKey wordHash url, sp_word = wordHash,
       sp_url = url, sp_row = posting\<lparr>RWI_WordHash := wordHash\<rparr>\<rparr>) (word_rows wordHash rest))"

fun outboundPostingsFromWords ::
  "WordPostings list \<Rightarrow> (store_error, selectedPosting list) result" where
  "outboundPostingsFromWords [] = Inr []"
| "outboundPostingsFromWords (word # words) = (case ParseHash (wp_WordHash word) of
     Inl e \<Rightarrow> Inl (BadPostingWord e)
   | Inr wordHash \<Rightarrow> (case word_rows wordHash (wp_Postings word) of
       Inl e \<Rightarrow> Inl e
     | Inr selected \<Rightarrow> map_sum id ((@) selected) (outboundPostingsFromWords words)))"

definition RestoreOutbound ::
  "txn_outcome \<times> txn_outcome \<Rightarrow> posting_vault \<Rightarrow> WordPostings list \<Rightarrow>
     posting_vault \<times> (store_error, nat) result" where
  "RestoreOutbound outcomes v words = (case outboundPostingsFromWords words of
     Inl e \<Rightarrow> (v, Inl e)
   | Inr selected \<Rightarrow> restoreOutboundPostings outcomes v selected)"

definition postingRecoveryKey :: "RWIPosting \<Rightarrow> (store_error, string) result" where
  "postingRecoveryKey posting = (case ParseHash (RWI_WordHash posting) of
     Inl e \<Rightarrow> Inl (BadPostingWord e)
   | Inr word \<Rightarrow> (case RWIPosting_URLHash posting of
       Inl e \<Rightarrow> Inl (BadPostingURL e) | Inr url \<Rightarrow> Inr (postingKey word url)))"

definition confirm_posting ::
  "posting_vault \<times> nat \<Rightarrow> RWIPosting \<Rightarrow> (store_error, posting_vault \<times> nat) result" where
  "confirm_posting acc posting = (case postingRecoveryKey posting of
     Inl e \<Rightarrow> Inl e | Inr key \<Rightarrow> releaseOwnedOutboundSelection acc key posting)"

definition ConfirmOutbound ::
  "txn_outcome \<Rightarrow> posting_vault \<Rightarrow> RWIPosting list \<Rightarrow> posting_vault \<times> (store_error, nat) result" where
  "ConfirmOutbound outcome v postings =
     vault_update outcome v (each_posting confirm_posting (v, 0) postings)"

fun pending_scan :: "(string \<times> bytes) list \<Rightarrow> (store_error, selectedPosting list) result" where
  "pending_scan [] = Inr []"
| "pending_scan ((key, raw) # rest) = (case decodeStoredPosting [] raw of
     Inl e \<Rightarrow> Inl (CorruptValue e)
   | Inr entry \<Rightarrow> (case postingKeyHashes key of
       Inl e \<Rightarrow> Inl e
     | Inr (word, url) \<Rightarrow> map_sum id ((#) \<lparr>sp_key = key, sp_word = word, sp_url = url,
         sp_row = entry\<lparr>RWI_WordHash := word\<rparr>\<rparr>) (pending_scan rest)))"

definition pendingOutboundSelections :: "posting_vault \<Rightarrow> (store_error, selectedPosting list) result" where
  "pendingOutboundSelections v = pending_scan (scan_entries (pv_outboundSelected v))"

definition RecoverOutbound ::
  "txn_outcome \<times> txn_outcome \<Rightarrow> posting_vault \<Rightarrow> posting_vault \<times> (store_error, nat) result" where
  "RecoverOutbound outcomes v = (case pendingOutboundSelections v of
     Inl e \<Rightarrow> (v, Inl e)
   | Inr pending \<Rightarrow> restoreOutboundPostings outcomes v pending)"

section \<open>Intake and purge\<close>

definition dropWaitingOutboundPosting :: "posting_vault \<Rightarrow> string \<Rightarrow> posting_vault" where
  "dropWaitingOutboundPosting v key =
     v\<lparr>pv_outboundSelected := AList.delete key (pv_outboundSelected v)\<rparr>"

definition PurgePosting :: "posting_vault \<Rightarrow> Hash \<Rightarrow> Hash \<Rightarrow> posting_vault \<times> bool" where
  "PurgePosting v word url =
     (let key = postingKey word url
      in (dropWaitingOutboundPosting (v\<lparr>pv_postings := AList.delete key (pv_postings v)\<rparr>) key,
          map_of (pv_postings v) key \<noteq> None))"

fun waiting_scan ::
  "Hash list \<Rightarrow> (string \<times> bytes) list \<Rightarrow> (store_error, string list) result" where
  "waiting_scan deletedURLs [] = Inr []"
| "waiting_scan deletedURLs ((key, raw) # rest) = (case decodeStoredPosting [] raw of
     Inl e \<Rightarrow> Inl (CorruptValue e)
   | Inr _ \<Rightarrow> (case postingKeyHashes key of
       Inl e \<Rightarrow> Inl e
     | Inr (_, url) \<Rightarrow> map_sum id (\<lambda>keys. if url \<in> set deletedURLs then key # keys else keys)
         (waiting_scan deletedURLs rest)))"

definition DropWaitingOutboundPostings ::
  "posting_vault \<Rightarrow> Hash list \<Rightarrow> (store_error, posting_vault) result" where
  "DropWaitingOutboundPostings v urls =
     (if urls = [] then Inr v
      else map_sum id (foldl dropWaitingOutboundPosting v)
        (waiting_scan urls (scan_entries (pv_outboundSelected v))))"

definition store_entry ::
  "posting_vault \<times> Hash list \<Rightarrow> RWIPosting \<Rightarrow> (store_error, posting_vault \<times> Hash list) result" where
  "store_entry acc entry = (case RWIPosting_URLHash entry of
     Inl e \<Rightarrow> Inl (BadPostingURL e)
   | Inr url \<Rightarrow> Inr (put_posting (postingKey (RWI_WordHash entry) url) entry (fst acc), snd acc @ [url]))"

definition storeEntries ::
  "txn_outcome \<Rightarrow> posting_vault \<Rightarrow> RWIPosting list \<Rightarrow> posting_vault \<times> (store_error, Hash list) result" where
  "storeEntries outcome v entries = vault_update outcome v (each_posting store_entry (v, []) entries)"

record Receipt =
  rc_Busy :: bool
  rc_Pause :: int
  rc_UnknownURL :: "Hash list"

definition busyReceipt :: "int \<Rightarrow> Receipt" where
  "busyReceipt pauseMilliseconds =
     \<lparr>rc_Busy = True, rc_Pause = pauseMilliseconds, rc_UnknownURL = []\<rparr>"

text \<open>The vault's answer to the question whether it is full: the question can be cancelled or
  fail.\<close>

datatype capacity_answer = AtCapacity bool | CapacityCancelled | CapacityFailed

definition storageAtCapacity :: "capacity_answer \<Rightarrow> (store_error, bool) result" where
  "storageAtCapacity answer = (case answer of
     AtCapacity full \<Rightarrow> Inr full
   | CapacityCancelled \<Rightarrow> Inr True
   | CapacityFailed \<Rightarrow> Inl (StorageFailed False))"

text \<open>\<^verbatim>\<open>MissingURLs\<close> of the directory of addresses is a parameter; None is its error.\<close>

definition Receive ::
  "int \<Rightarrow> (Hash list \<Rightarrow> Hash list option) \<Rightarrow> capacity_answer \<Rightarrow> txn_outcome \<Rightarrow> posting_vault \<Rightarrow>
     RWIPosting list \<Rightarrow> posting_vault \<times> (store_error, Receipt) result" where
  "Receive pauseMilliseconds missingURLs capacity outcome v entries =
     (if entries = [] then (v, Inr \<lparr>rc_Busy = False, rc_Pause = 0, rc_UnknownURL = []\<rparr>)
      else case storageAtCapacity capacity of
        Inl e \<Rightarrow> (v, Inl e)
      | Inr True \<Rightarrow> (v, Inr (busyReceipt pauseMilliseconds))
      | Inr False \<Rightarrow> (case storeEntries outcome v entries of
          (v, Inl (StorageFailed True)) \<Rightarrow> (v, Inr (busyReceipt pauseMilliseconds))
        | (v, Inl e) \<Rightarrow> (v, Inl e)
        | (v, Inr referenced) \<Rightarrow> (case missingURLs referenced of
            None \<Rightarrow> (v, Inl (StorageFailed False))
          | Some unknown \<Rightarrow>
              (v, Inr \<lparr>rc_Busy = False, rc_Pause = 0, rc_UnknownURL = unknown\<rparr>))))"

section \<open>Records of the vault\<close>

lemma map_of_partial_commit:
  "map_of (partial_commit written old new) k = (if written k then map_of new k else map_of old k)"
proof -
  let ?f = "\<lambda>key. if written key then map_of new key else map_of old key"
  have m: "map_of (List.map_filter (\<lambda>key. map_option (Pair key) (f key)) ks) k =
      (if k \<in> set ks then f k else None)" for f :: "string \<Rightarrow> bytes option" and ks
    by (induction ks) (auto simp: map_filter_simps split: option.splits)
  have "k \<notin> set (remdups (map_keys old @ map_keys new)) \<Longrightarrow> ?f k = None"
    by (auto simp: set_map_keys)
  then show ?thesis unfolding partial_commit_def m by auto
qed

lemma wf_map_filter_keys:
  "distinct ks \<Longrightarrow> wf_map (List.map_filter (\<lambda>key. map_option (Pair key) (f key)) ks)"
proof (induction ks)
  case (Cons k ks)
  have "fst ` set (List.map_filter (\<lambda>key. map_option (Pair key) (f key)) ks) \<subseteq> set ks"
    by (auto simp: map_filter_def)
  with Cons show ?case by (auto simp: map_filter_simps wf_map_def split: option.splits)
qed (simp add: map_filter_simps wf_map_def)

lemma wf_partial_commit: "wf_map (partial_commit written old new)"
  unfolding partial_commit_def by (rule wf_map_filter_keys) simp

lemma set_map_filter_keys:
  "(k, raw) \<in> set (List.map_filter (\<lambda>key. map_option (Pair key) (f key)) ks) \<longleftrightarrow>
     k \<in> set ks \<and> f k = Some raw"
  by (induction ks) (auto simp: map_filter_simps split: option.splits)

lemma set_scan_entries: "(k, raw) \<in> set (scan_entries c) \<longleftrightarrow> map_of c k = Some raw"
  by (auto simp: scan_entries_def set_map_filter_keys set_map_keys)

lemma distinct_scan_entries: "wf_map c \<Longrightarrow> distinct (map fst (scan_entries c))"
  using wf_map_filter_keys [of "sort (map_keys c)" "map_of c"]
  by (simp add: scan_entries_def wf_map_def map_keys_def)

text \<open>An update leaves each record as it was or as it was to become.\<close>

definition commits :: "posting_vault \<Rightarrow> posting_vault \<Rightarrow> posting_vault \<Rightarrow> bool" where
  "commits v v1 w \<longleftrightarrow>
     (\<forall>k. map_of (pv_postings w) k \<in> {map_of (pv_postings v) k, map_of (pv_postings v1) k} \<and>
       map_of (pv_outboundSelected w) k \<in>
         {map_of (pv_outboundSelected v) k, map_of (pv_outboundSelected v1) k}) \<and>
     (wf_map (pv_postings v) \<and> wf_map (pv_postings v1) \<longrightarrow> wf_map (pv_postings w)) \<and>
     (wf_map (pv_outboundSelected v) \<and> wf_map (pv_outboundSelected v1) \<longrightarrow>
       wf_map (pv_outboundSelected w))"

lemma vault_update_cases:
  assumes "vault_update outcome v r = (w, x)"
  obtains e where "r = Inl e" "w = v" "x = Inl e"
  | v1 y where "r = Inr (v1, y)" "w = v1" "x = Inr y"
  | v1 y b where "r = Inr (v1, y)" "commits v v1 w" "x = Inl (StorageFailed b)"
proof (cases r)
  case (Inl e)
  then show ?thesis using assms that(1) by (simp add: vault_update_def)
next
  case (Inr p)
  obtain v1 y where p: "p = (v1, y)" by (cases p)
  show ?thesis
  proof (cases outcome)
    case TxnOk
    then show ?thesis using assms Inr p that(2) by (simp add: vault_update_def)
  next
    case (TxnAborted b)
    then show ?thesis using assms Inr p that(3) [of v1 y b] by (simp add: vault_update_def commits_def)
  next
    case (TxnPartial f g)
    then show ?thesis using assms Inr p that(3) [of v1 y False]
      by (auto simp: vault_update_def commits_def map_of_partial_commit wf_partial_commit)
  qed
qed

section \<open>Stored entries\<close>

text \<open>An entry as the intake writes it: the stored form of a posting under its own key.\<close>

definition entry_ok :: "string \<Rightarrow> bytes \<Rightarrow> bool" where
  "entry_ok key raw \<longleftrightarrow> (\<exists>p word url. storable_map (RWI_Properties p) \<and> raw = encodeStoredPosting p \<and>
     RWIPosting_URLHash p = Inr url \<and> Hash_Valid word \<and> key = postingKey word url)"

definition vault_inv :: "posting_vault \<Rightarrow> bool" where
  "vault_inv v \<longleftrightarrow> wf_map (pv_postings v) \<and> wf_map (pv_outboundSelected v) \<and>
     (\<forall>k raw. map_of (pv_postings v) k = Some raw \<longrightarrow> entry_ok k raw) \<and>
     (\<forall>k raw. map_of (pv_outboundSelected v) k = Some raw \<longrightarrow> entry_ok k raw)"

lemma vault_invD:
  assumes "vault_inv v"
  shows "wf_map (pv_postings v)" "wf_map (pv_outboundSelected v)"
    "map_of (pv_postings v) k = Some raw \<Longrightarrow> entry_ok k raw"
    "map_of (pv_outboundSelected v) k = Some raw \<Longrightarrow> entry_ok k raw"
  using assms by (auto simp: vault_inv_def)

lemma storable_map_cong:
  assumes "map_of p = map_of q" "wf_map p" "wf_map q"
  shows "storable_map p \<longleftrightarrow> storable_map q"
proof -
  have s: "set p = set q"
    using assms by (metis map_of_eq_Some_iff wf_map_def subrelI subset_antisym)
  have d: "length m = card (set m)" if "wf_map m" for m :: "(string, string) gomap"
    using that by (metis distinct_card distinct_map wf_map_def)
  have "length p = length q" using d [OF assms(2)] d [OF assms(3)] s by simp
  then show ?thesis using s assms(2,3) by (simp add: storable_map_def list_all_iff)
qed

lemma encode_word_hash [simp]: "encodeStoredPosting (p\<lparr>RWI_WordHash := w\<rparr>) = encodeStoredPosting p"
  by (simp add: encodeStoredPosting_def)

lemma url_hash_word_hash [simp]: "RWIPosting_URLHash (p\<lparr>RWI_WordHash := w\<rparr>) = RWIPosting_URLHash p"
  by (simp add: RWIPosting_URLHash_def)

lemma postingKeyHashes_key:
  "Hash_Valid word \<Longrightarrow> Hash_Valid url \<Longrightarrow> postingKeyHashes (postingKey word url) = Inr (word, url)"
  by (simp add: postingKeyHashes_def postingKey_def postingKeyLength_def ParseHash_valid
      Hash_Valid_iff HashLength_def)

lemma postingKey_inject:
  "Hash_Valid word \<Longrightarrow> Hash_Valid word' \<Longrightarrow> postingKey word url = postingKey word' url' \<longleftrightarrow>
     word = word' \<and> url = url'"
  by (auto simp: postingKey_def Hash_Valid_iff)

lemma url_hash_valid: "RWIPosting_URLHash p = Inr url \<Longrightarrow> Hash_Valid url"
  by (auto simp: RWIPosting_URLHash_def ParseHash_iff Hash_Valid_iff)

text \<open>What reading an entry gives: a posting with the same stored form.\<close>

lemma entry_ok_decode:
  assumes "entry_ok key raw"
  obtains d word url where "decodeStoredPosting w raw = Inr d" "encodeStoredPosting d = raw"
    "storable_map (RWI_Properties d)" "RWIPosting_URLHash d = Inr url"
    "postingKeyHashes key = Inr (word, url)" "key = postingKey word url" "Hash_Valid word"
    "Hash_Valid url"
proof -
  obtain p word url where p: "storable_map (RWI_Properties p)" "raw = encodeStoredPosting p"
    "RWIPosting_URLHash p = Inr url" "Hash_Valid word" "key = postingKey word url"
    using assms by (auto simp: entry_ok_def)
  obtain d where d: "decodeStoredPosting w raw = Inr d" "wf_map (RWI_Properties d)"
    "map_of (RWI_Properties d) = map_of (RWI_Properties p)"
    using stored_map_roundtrip [OF p(1)] p(2) by blast
  have wf: "wf_map (RWI_Properties p)" using p(1) by (simp add: storable_map_def)
  have "encodeStoredPosting d = raw" using encodeStoredPosting_cong [OF d(3,2) wf] p(2) by simp
  moreover have "storable_map (RWI_Properties d)" using storable_map_cong [OF d(3,2) wf] p(1) by simp
  moreover have "RWIPosting_URLHash d = Inr url"
    using p(3) d(3) by (simp add: RWIPosting_URLHash_def get_or_def)
  moreover have "Hash_Valid url" using url_hash_valid [OF p(3)] .
  ultimately show ?thesis using that d(1) p(4,5) postingKeyHashes_key by blast
qed

lemma collection_get_ok:
  assumes "\<And>raw. map_of c key = Some raw \<Longrightarrow> entry_ok key raw"
  shows "(map_of c key = None \<longrightarrow> collection_get c key = Inr None) \<and>
    (\<forall>raw. map_of c key = Some raw \<longrightarrow>
      (\<exists>d. collection_get c key = Inr (Some d) \<and> encodeStoredPosting d = raw))"
proof (cases "map_of c key")
  case (Some raw)
  then obtain d where "decodeStoredPosting [] raw = Inr d" "encodeStoredPosting d = raw"
    using entry_ok_decode [OF assms [OF Some], of "[]"] by metis
  then show ?thesis using Some by (simp add: collection_get_def)
qed (simp add: collection_get_def)

lemma owns_iff:
  assumes "vault_inv v"
  shows "ownsOutboundSelection v key row =
    Inr (map_of (pv_outboundSelected v) key = Some (encodeStoredPosting row))"
  using collection_get_ok [of "pv_outboundSelected v" key] vault_invD(4) [OF assms]
  by (cases "map_of (pv_outboundSelected v) key")
    (auto simp: ownsOutboundSelection_def sameStoredPosting_def)

section \<open>The content of the store\<close>

abbreviation live :: "posting_vault \<Rightarrow> string \<Rightarrow> bytes option" where
  "live v \<equiv> map_of (pv_postings v)"

abbreviation waiting :: "posting_vault \<Rightarrow> string \<Rightarrow> bytes option" where
  "waiting v \<equiv> map_of (pv_outboundSelected v)"

text \<open>The abstract store is one map: the posting in the index or else the one in the journal.\<close>

definition posting_content :: "posting_vault \<Rightarrow> string \<Rightarrow> bytes option" where
  "posting_content v k = (case live v k of Some raw \<Rightarrow> Some raw | None \<Rightarrow> waiting v k)"

definition selected_ok :: "selectedPosting \<Rightarrow> bool" where
  "selected_ok p \<longleftrightarrow> Hash_Valid (sp_word p) \<and> sp_key p = postingKey (sp_word p) (sp_url p) \<and>
     RWIPosting_URLHash (sp_row p) = Inr (sp_url p) \<and> RWI_WordHash (sp_row p) = sp_word p \<and>
     storable_map (RWI_Properties (sp_row p))"

definition sp_raw :: "selectedPosting \<Rightarrow> bytes" where
  "sp_raw p = encodeStoredPosting (sp_row p)"

lemma selected_ok_entry: "selected_ok p \<Longrightarrow> entry_ok (sp_key p) (sp_raw p)"
  unfolding selected_ok_def entry_ok_def sp_raw_def by blast

lemma commits_inv: "vault_inv v \<Longrightarrow> vault_inv v1 \<Longrightarrow> commits v v1 w \<Longrightarrow> vault_inv w"
  unfolding commits_def vault_inv_def by (metis insertE singletonD)

text \<open>The vault after a transaction whose body succeeds.\<close>

lemma vault_update_Inr:
  assumes "vault_update outcome v (Inr (v1, y)) = (w, x)" "vault_inv v" "vault_inv v1"
  shows "vault_inv w \<and> (\<forall>k. live w k = live v k \<or> live w k = live v1 k) \<and>
    (\<forall>k. waiting w k = waiting v k \<or> waiting w k = waiting v1 k) \<and>
    ((\<exists>b. x = Inl (StorageFailed b)) \<or> x = Inr y \<and> w = v1)"
proof (rule vault_update_cases [OF assms(1)])
  fix v2 z b
  assume a: "Inr (v1, y) = (Inr (v2, z) :: (store_error, _) result)" "commits v v2 w"
    "x = Inl (StorageFailed b)"
  then have "vault_inv w" using commits_inv [OF assms(2,3)] by simp
  then show ?thesis using a by (auto simp: commits_def)
qed (use assms(2,3) in auto)

subsection \<open>Scanning\<close>

lemma outbound_scan_ok:
  assumes "\<forall>(k, raw)\<in>set entries. entry_ok k raw"
  shows "\<exists>xs n. outbound_scan config entries selected seen = Inr (selected @ xs) \<and>
    map (\<lambda>p. (sp_key p, sp_raw p)) xs = take n entries \<and> (\<forall>p\<in>set xs. selected_ok p) \<and>
    (int (length selected) < os_MaxPostings config \<longrightarrow>
      int (length (selected @ xs)) \<le> os_MaxPostings config) \<and>
    (int (length seen) \<le> os_MaxWords config \<longrightarrow>
      int (length seen) + int (card (sp_word ` set xs - set seen)) \<le> os_MaxWords config)"
  using assms
proof (induction entries arbitrary: selected seen)
  case Nil
  show ?case by (rule exI [of _ "[]"], rule exI [of _ 0]) simp
next
  case (Cons e entries)
  obtain k raw where e: "e = (k, raw)" by (cases e)
  then have "entry_ok k raw" using Cons.prems by simp
  then obtain d word url where d: "decodeStoredPosting [] raw = Inr d" "encodeStoredPosting d = raw"
    "storable_map (RWI_Properties d)" "RWIPosting_URLHash d = Inr url"
    "postingKeyHashes k = Inr (word, url)" "k = postingKey word url" "Hash_Valid word" "Hash_Valid url"
    by (rule entry_ok_decode [of k raw "[]"])
  let ?p = "\<lparr>sp_key = k, sp_word = word, sp_url = url, sp_row = d\<lparr>RWI_WordHash := word\<rparr>\<rparr>"
  have p: "selected_ok ?p" "sp_raw ?p = raw" using d by (simp_all add: selected_ok_def sp_raw_def)
  show ?case
  proof (cases "keepWord config seen word")
    case None
    then have "outbound_scan config (e # entries) selected seen = Inr (selected @ [])"
      using d(1,5) e by simp
    then show ?thesis by (intro exI [of _ "[]"] exI [of _ 0]) simp
  next
    case (Some seen')
    have seen': "seen' = (if word \<in> set seen then seen else word # seen)"
      "word \<notin> set seen \<Longrightarrow> int (length seen) < os_MaxWords config"
      using Some by (auto simp: keepWord_def split: if_split_asm)
    show ?thesis
    proof (cases "int (length (selected @ [?p])) < os_MaxPostings config")
      case False
      then have s: "outbound_scan config (e # entries) selected seen = Inr (selected @ [?p])"
        using d(1,5) e Some by (simp add: Let_def)
      have "int (length seen) + int (card ({word} - set seen)) \<le> os_MaxWords config"
        if "int (length seen) \<le> os_MaxWords config"
        using that seen'(2) by (cases "word \<in> set seen") (simp_all add: insert_Diff_if)
      then show ?thesis using s p e by (intro exI [of _ "[?p]"] exI [of _ 1]) auto
    next
      case True
      obtain xs n where x: "outbound_scan config entries (selected @ [?p]) seen' = Inr ((selected @ [?p]) @ xs)"
        "map (\<lambda>p. (sp_key p, sp_raw p)) xs = take n entries" "\<forall>p\<in>set xs. selected_ok p"
        "int (length ((selected @ [?p]) @ xs)) \<le> os_MaxPostings config"
        "int (length seen') \<le> os_MaxWords config \<longrightarrow>
          int (length seen') + int (card (sp_word ` set xs - set seen')) \<le> os_MaxWords config"
        using Cons.IH [of "selected @ [?p]" seen'] Cons.prems True by auto
      have s: "outbound_scan config (e # entries) selected seen = Inr (selected @ ?p # xs)"
        using d(1,5) e Some True x(1) by (simp add: Let_def)
      have c: "int (length seen) + int (card (insert word (sp_word ` set xs) - set seen)) \<le> os_MaxWords config"
        if l: "int (length seen) \<le> os_MaxWords config"
      proof (cases "word \<in> set seen")
        case True
        then have "insert word (sp_word ` set xs) - set seen = sp_word ` set xs - set seen" by auto
        then show ?thesis using x(5) l seen'(1) True by simp
      next
        case False
        have "insert word (sp_word ` set xs) - set seen = insert word (sp_word ` set xs - set (word # seen))"
          using False by auto
        then have "card (insert word (sp_word ` set xs) - set seen) = Suc (card (sp_word ` set xs - set (word # seen)))"
          by (simp add: card_insert_if)
        then show ?thesis using x(5) seen' False by simp
      qed
      show ?thesis using s p e x c by (intro exI [of _ "?p # xs"] exI [of _ "Suc n"]) auto
    qed
  qed
qed

subsection \<open>Journal and deletion\<close>

lemma waiting_journal:
  assumes "\<forall>p\<in>set sel. f (sp_key p) = Some (sp_raw p)"
  shows "waiting (journalOutboundSelection sel v) k = (if k \<in> sp_key ` set sel then f k else waiting v k)"
  using assms
proof (induction sel arbitrary: v)
  case (Cons p sel)
  then show ?case by (auto simp: journalOutboundSelection_def put_selected_def update_conv' sp_raw_def)
qed (simp add: journalOutboundSelection_def)

lemma journal_frame [simp]: "pv_postings (journalOutboundSelection sel v) = pv_postings v"
  unfolding journalOutboundSelection_def by (induction sel arbitrary: v) (simp_all add: put_selected_def)

lemma journal_wf: "wf_map (pv_outboundSelected v) \<Longrightarrow>
  wf_map (pv_outboundSelected (journalOutboundSelection sel v))"
  unfolding journalOutboundSelection_def by (induction sel arbitrary: v) (simp_all add: put_selected_def)

lemma vault_inv_postings:
  "vault_inv v \<Longrightarrow> wf_map m \<Longrightarrow> (\<And>k raw. map_of m k = Some raw \<Longrightarrow> entry_ok k raw) \<Longrightarrow>
     vault_inv (v\<lparr>pv_postings := m\<rparr>)"
  by (simp add: vault_inv_def)

lemma vault_inv_selected:
  "vault_inv v \<Longrightarrow> wf_map m \<Longrightarrow> (\<And>k raw. map_of m k = Some raw \<Longrightarrow> entry_ok k raw) \<Longrightarrow>
     vault_inv (v\<lparr>pv_outboundSelected := m\<rparr>)"
  by (simp add: vault_inv_def)

lemma journal_inv:
  assumes "vault_inv v" "\<forall>p\<in>set sel. selected_ok p"
  shows "vault_inv (journalOutboundSelection sel v)"
  using assms
proof (induction sel arbitrary: v)
  case (Cons p sel)
  have "vault_inv (put_selected (sp_key p) (sp_row p) v)"
    unfolding put_selected_def
    by (rule vault_inv_selected [OF Cons.prems(1)])
      (use Cons.prems selected_ok_entry [of p] vault_invD in
        \<open>auto simp: update_conv' sp_raw_def split: if_split_asm\<close>)
  with Cons show ?case by (simp add: journalOutboundSelection_def)
qed (simp add: journalOutboundSelection_def)

lemma delete_posting:
  assumes "vault_inv v"
  shows "\<exists>w. deleteOutboundPosting v p = Inr w \<and> vault_inv w \<and>
    pv_outboundSelected w = pv_outboundSelected v \<and>
    (\<forall>k. live w k = (if k = sp_key p \<and> live v k = Some (sp_raw p) then None else live v k))"
proof (cases "live v (sp_key p) = Some (sp_raw p)")
  case True
  then have "deleteOutboundPosting v p = Inr (v\<lparr>pv_postings := AList.delete (sp_key p) (pv_postings v)\<rparr>)"
    using collection_get_ok [of "pv_postings v" "sp_key p"] vault_invD(3) [OF assms]
    by (auto simp: deleteOutboundPosting_def sameStoredPosting_def sp_raw_def)
  moreover have "vault_inv (v\<lparr>pv_postings := AList.delete (sp_key p) (pv_postings v)\<rparr>)"
    by (rule vault_inv_postings [OF assms])
      (use vault_invD [OF assms] in \<open>auto simp: delete_conv' split: if_split_asm\<close>)
  ultimately show ?thesis using True by (simp add: delete_conv')
next
  case False
  then have "deleteOutboundPosting v p = Inr v"
    using collection_get_ok [of "pv_postings v" "sp_key p"] vault_invD(3) [OF assms]
    by (cases "live v (sp_key p)") (auto simp: deleteOutboundPosting_def sameStoredPosting_def sp_raw_def)
  then show ?thesis using assms False by auto
qed

lemma delete_selection:
  assumes "vault_inv v"
  shows "\<exists>w. deleteOutboundSelection v sel = Inr w \<and> vault_inv w \<and>
    pv_outboundSelected w = pv_outboundSelected v \<and>
    (\<forall>k. live w k = (if \<exists>p\<in>set sel. k = sp_key p \<and> live v k = Some (sp_raw p) then None else live v k))"
  using assms
proof (induction sel arbitrary: v)
  case (Cons p sel)
  obtain v1 where v1: "deleteOutboundPosting v p = Inr v1" "vault_inv v1"
    "pv_outboundSelected v1 = pv_outboundSelected v"
    "\<forall>k. live v1 k = (if k = sp_key p \<and> live v k = Some (sp_raw p) then None else live v k)"
    using delete_posting [OF Cons.prems] by blast
  obtain w where w: "deleteOutboundSelection v1 sel = Inr w" "vault_inv w"
    "pv_outboundSelected w = pv_outboundSelected v1"
    "\<forall>k. live w k = (if \<exists>p\<in>set sel. k = sp_key p \<and> live v1 k = Some (sp_raw p) then None else live v1 k)"
    using Cons.IH [OF v1(2)] by blast
  then show ?case using v1 by (auto simp: deleteOutboundSelection_def)
qed (simp add: deleteOutboundSelection_def)

subsection \<open>Selecting keeps the content\<close>

lemma select_postings:
  assumes "vault_inv v" "selectOutboundPostings outcomes v config = (w, x)"
  shows "vault_inv w \<and> posting_content w = posting_content v \<and>
    (\<forall>sel. x = Inr sel \<longrightarrow> (\<forall>p\<in>set sel. selected_ok p \<and> live v (sp_key p) = Some (sp_raw p) \<and>
        live w (sp_key p) = None) \<and> distinct (map sp_key sel) \<and>
      (\<forall>k. k \<notin> sp_key ` set sel \<longrightarrow> live w k = live v k) \<and>
      (\<forall>k. waiting w k = (if k \<in> sp_key ` set sel then live v k else waiting v k)) \<and>
      (0 < os_MaxPostings config \<longrightarrow> int (length sel) \<le> os_MaxPostings config) \<and>
      (0 < os_MaxWords config \<longrightarrow> int (card (sp_word ` set sel)) \<le> os_MaxWords config))"
proof -
  have "\<forall>(k, raw)\<in>set (scan_entries (pv_postings v)). entry_ok k raw"
    using vault_invD(3) [OF assms(1)] by (auto simp: set_scan_entries)
  from outbound_scan_ok [OF this, of config "[]" "[]"]
  obtain xs n where xs: "outbound_scan config (scan_entries (pv_postings v)) [] [] = Inr xs"
    "map (\<lambda>p. (sp_key p, sp_raw p)) xs = take n (scan_entries (pv_postings v))"
    "\<forall>p\<in>set xs. selected_ok p"
    "0 < os_MaxPostings config \<longrightarrow> int (length xs) \<le> os_MaxPostings config"
    "0 \<le> os_MaxWords config \<longrightarrow> int (card (sp_word ` set xs)) \<le> os_MaxWords config" by auto
  have l: "live v (sp_key p) = Some (sp_raw p)" if "p \<in> set xs" for p
  proof -
    have "(sp_key p, sp_raw p) \<in> set (map (\<lambda>p. (sp_key p, sp_raw p)) xs)" using that by auto
    then have "(sp_key p, sp_raw p) \<in> set (scan_entries (pv_postings v))"
      unfolding xs(2) by (rule in_set_takeD)
    then show ?thesis by (simp add: set_scan_entries)
  qed
  have "map sp_key xs = take n (map fst (scan_entries (pv_postings v)))"
    using arg_cong [OF xs(2), of "map fst"] by (simp add: comp_def take_map)
  then have d: "distinct (map sp_key xs)"
    using distinct_scan_entries [OF vault_invD(1) [OF assms(1)]] by simp
  let ?v1 = "journalOutboundSelection xs v"
  have j: "waiting ?v1 k = (if k \<in> sp_key ` set xs then live v k else waiting v k)" for k
    by (rule waiting_journal) (use l in blast)
  have i1: "vault_inv ?v1" using journal_inv [OF assms(1) xs(3)] .
  let ?u = "vault_update (fst outcomes) v (Inr (?v1, xs))"
  obtain v2 y where u: "?u = (v2, y)" by (cases ?u)
  note u2 = vault_update_Inr [OF u assms(1) i1]
  have c2: "live v2 k = live v k" "waiting v2 k = waiting v k \<or> k \<in> sp_key ` set xs \<and> waiting v2 k = live v k"
    for k using u2 j [of k] by (auto split: if_split_asm)
  have content: "posting_content v2 = posting_content v"
  proof
    fix k show "posting_content v2 k = posting_content v k"
      using c2 [of k] l by (cases "live v k") (auto simp: posting_content_def)
  qed
  show ?thesis
  proof (cases y)
    case (Inl e)
    then show ?thesis using assms(2) xs(1) u u2 content by (auto simp: selectOutboundPostings_def)
  next
    case (Inr ys)
    then have y: "ys = xs" "v2 = ?v1" using u2 by auto
    obtain v3 where v3: "deleteOutboundSelection ?v1 xs = Inr v3" "vault_inv v3"
      "pv_outboundSelected v3 = pv_outboundSelected ?v1"
      "\<forall>k. live v3 k = (if \<exists>p\<in>set xs. k = sp_key p \<and> live ?v1 k = Some (sp_raw p) then None else live ?v1 k)"
      using delete_selection [OF i1] by blast
    obtain w' z where r: "removeDurablySelectedPostings (snd outcomes) ?v1 xs = (w', z)"
      by (cases "removeDurablySelectedPostings (snd outcomes) ?v1 xs")
    have "vault_update (snd outcomes) ?v1 (Inr (v3, ())) = (w', z)"
      using r v3(1) by (simp add: removeDurablySelectedPostings_def)
    note u3 = vault_update_Inr [OF this i1 v3(2)]
    have c3: "waiting w' k = waiting ?v1 k"
      "live w' k = live v k \<or> k \<in> sp_key ` set xs \<and> live w' k = None" for k
      using u3 v3(3,4) by (metis, auto split: if_split_asm)
    have "posting_content w' = posting_content v"
    proof
      fix k show "posting_content w' k = posting_content v k"
        using c3 [of k] j [of k] l by (cases "live v k") (auto simp: posting_content_def)
    qed
    moreover have "waiting w' k = (if k \<in> sp_key ` set xs then live v k else waiting v k)" for k
      using c3(1) [of k] j [of k] by simp
    moreover have "live w' (sp_key p) = None" if "p \<in> set xs" "z = Inr q" for p q
      using u3 v3(4) that l [OF that(1)] by auto
    moreover have "live w' k = live v k" if "k \<notin> sp_key ` set xs" for k using c3(2) [of k] that by blast
    ultimately show ?thesis using assms(2) xs u y Inr r u3 d l
      by (auto simp: selectOutboundPostings_def split: sum.splits)
  qed
qed

subsection \<open>Restoring keeps the content\<close>

lemma restore_posting:
  assumes "vault_inv v" "selected_ok p"
  shows "\<exists>w. restoreOutboundPosting v p = Inr w \<and> vault_inv w \<and>
    pv_outboundSelected w = pv_outboundSelected v \<and>
    (\<forall>k. live w k = (if k = sp_key p \<and> waiting v k = Some (sp_raw p) \<and> live v k = None
      then Some (sp_raw p) else live v k))"
proof (cases "waiting v (sp_key p) = Some (sp_raw p) \<and> live v (sp_key p) = None")
  case True
  then have "restoreOutboundPosting v p =
      Inr (put_posting (sp_key p) ((sp_row p)\<lparr>RWI_WordHash := sp_word p\<rparr>) v)"
    by (simp add: restoreOutboundPosting_def owns_iff [OF assms(1)] sp_raw_def collection_get_def)
  moreover have "vault_inv (put_posting (sp_key p) ((sp_row p)\<lparr>RWI_WordHash := sp_word p\<rparr>) v)"
    unfolding put_posting_def
    by (rule vault_inv_postings [OF assms(1)])
      (use vault_invD [OF assms(1)] selected_ok_entry [OF assms(2)] in
        \<open>auto simp: update_conv' sp_raw_def split: if_split_asm\<close>)
  ultimately show ?thesis using True by (simp add: put_posting_def update_conv' sp_raw_def)
next
  case False
  then have "restoreOutboundPosting v p = Inr v"
    using collection_get_ok [of "pv_postings v" "sp_key p"] vault_invD(3) [OF assms(1)]
    by (cases "live v (sp_key p)") (auto simp: restoreOutboundPosting_def owns_iff [OF assms(1)] sp_raw_def)
  then show ?thesis using assms(1) False by auto
qed

lemma restore_each:
  assumes "vault_inv v" "\<forall>p\<in>set sel. selected_ok p"
  shows "\<exists>w. each_posting restoreOutboundPosting v sel = Inr w \<and> vault_inv w \<and>
    pv_outboundSelected w = pv_outboundSelected v \<and>
    (\<forall>k. live w k = (if live v k = None \<and> (\<exists>p\<in>set sel. k = sp_key p \<and> waiting v k = Some (sp_raw p))
      then waiting v k else live v k))"
  using assms
proof (induction sel arbitrary: v)
  case (Cons p sel)
  obtain v1 where v1: "restoreOutboundPosting v p = Inr v1" "vault_inv v1"
    "pv_outboundSelected v1 = pv_outboundSelected v"
    "\<forall>k. live v1 k = (if k = sp_key p \<and> waiting v k = Some (sp_raw p) \<and> live v k = None
      then Some (sp_raw p) else live v k)"
    using restore_posting [OF Cons.prems(1), of p] Cons.prems(2) by auto
  obtain w where w: "each_posting restoreOutboundPosting v1 sel = Inr w" "vault_inv w"
    "pv_outboundSelected w = pv_outboundSelected v1"
    "\<forall>k. live w k = (if live v1 k = None \<and> (\<exists>p\<in>set sel. k = sp_key p \<and> waiting v1 k = Some (sp_raw p))
      then waiting v1 k else live v1 k)"
    using Cons.IH [OF v1(2)] Cons.prems(2) by auto
  have "live w k = (if live v k = None \<and> (\<exists>p\<in>set (p # sel). k = sp_key p \<and> waiting v k = Some (sp_raw p))
      then waiting v k else live v k)" for k
  proof (cases "k = sp_key p \<and> waiting v k = Some (sp_raw p) \<and> live v k = None")
    case True
    have "live v1 k = Some (sp_raw p)" unfolding v1(4) [rule_format, of k] by (rule if_P [OF True])
    then have l: "live w k = Some (sp_raw p)" unfolding w(4) [rule_format, of k] by simp
    have c: "live v k = None \<and> (\<exists>p\<in>set (p # sel). k = sp_key p \<and> waiting v k = Some (sp_raw p))"
      using True by auto
    show ?thesis unfolding if_P [OF c] l using True by (elim conjE) (rule sym)
  next
    case False
    then have "live v1 k = live v k" using v1(4) by (simp only: if_False)
    then have "live w k = (if live v k = None \<and> (\<exists>p\<in>set sel. k = sp_key p \<and> waiting v k = Some (sp_raw p))
        then waiting v k else live v k)" using w(4) v1(3) by (simp only:)
    then show ?thesis using False by auto
  qed
  then show ?case using v1(1,3) w(1-3) by auto
qed simp

text \<open>Releasing rows by their keys.\<close>

definition release_row ::
  "posting_vault \<times> nat \<Rightarrow> string \<times> RWIPosting \<Rightarrow> (store_error, posting_vault \<times> nat) result" where
  "release_row acc kr = releaseOwnedOutboundSelection acc (fst kr) (snd kr)"

definition owned_row :: "posting_vault \<Rightarrow> string \<times> RWIPosting \<Rightarrow> bool" where
  "owned_row v kr \<longleftrightarrow> waiting v (fst kr) = Some (encodeStoredPosting (snd kr))"

lemma release_each:
  assumes "vault_inv v"
  shows "\<exists>w m. each_posting release_row (v, n) krs = Inr (w, n + m) \<and> vault_inv w \<and>
    pv_postings w = pv_postings v \<and>
    (\<forall>k. waiting w k = (if \<exists>kr\<in>set krs. k = fst kr \<and> owned_row v kr then None else waiting v k)) \<and>
    (distinct (map fst krs) \<longrightarrow> m = length (filter (owned_row v) krs))"
  using assms
proof (induction krs arbitrary: v n)
  case (Cons kr krs)
  let ?v1 = "if owned_row v kr then v\<lparr>pv_outboundSelected := AList.delete (fst kr) (pv_outboundSelected v)\<rparr> else v"
  let ?n1 = "if owned_row v kr then n + 1 else n"
  have r: "release_row (v, n) kr = Inr (?v1, ?n1)"
    by (simp add: release_row_def releaseOwnedOutboundSelection_def owns_iff [OF Cons.prems] owned_row_def)
  have "vault_inv (v\<lparr>pv_outboundSelected := AList.delete (fst kr) (pv_outboundSelected v)\<rparr>)"
    by (rule vault_inv_selected [OF Cons.prems])
      (use vault_invD [OF Cons.prems] in \<open>auto simp: delete_conv' split: if_split_asm\<close>)
  then have i: "vault_inv ?v1" using Cons.prems by simp
  have p1: "pv_postings ?v1 = pv_postings v" by simp
  have w1: "waiting ?v1 k = (if k = fst kr \<and> owned_row v kr then None else waiting v k)" for k
    by (simp add: delete_conv')
  obtain w m where w: "each_posting release_row (?v1, ?n1) krs = Inr (w, ?n1 + m)" "vault_inv w"
    "pv_postings w = pv_postings ?v1"
    "\<forall>k. waiting w k = (if \<exists>kr\<in>set krs. k = fst kr \<and> owned_row ?v1 kr then None else waiting ?v1 k)"
    "distinct (map fst krs) \<longrightarrow> m = length (filter (owned_row ?v1) krs)"
    using Cons.IH [OF i] by blast
  have o: "owned_row ?v1 q \<longleftrightarrow> owned_row v q \<and> \<not> (fst q = fst kr \<and> owned_row v kr)" for q
    unfolding owned_row_def [of ?v1] w1 by (auto simp: owned_row_def)
  have "waiting w k = (if \<exists>q\<in>set (kr # krs). k = fst q \<and> owned_row v q then None else waiting v k)" for k
    using w(4) unfolding w1 o by auto
  moreover have "length (filter (owned_row v) (kr # krs)) = (if owned_row v kr then 1 else 0) + m"
    if "distinct (map fst (kr # krs))"
  proof -
    have "filter (owned_row ?v1) krs = filter (owned_row v) krs"
    proof (intro filter_cong refl)
      fix q assume "q \<in> set krs"
      then have "fst q \<in> fst ` set krs" by (rule imageI)
      moreover have "fst kr \<notin> fst ` set krs" using that by simp
      ultimately have "fst q \<noteq> fst kr" by metis
      then show "owned_row ?v1 q = owned_row v q" unfolding o by simp
    qed
    then show ?thesis using w(5) that by simp
  qed
  moreover have "each_posting release_row (v, n) (kr # krs) =
      Inr (w, n + ((if owned_row v kr then 1 else 0) + m))"
    using r w(1) by (simp split: if_split_asm)
  ultimately show ?case using w(2,3) p1 by (intro exI [of _ w]) (auto intro!: exI)
qed simp

lemma each_posting_map: "each_posting f v (map g xs) = each_posting (\<lambda>v x. f v (g x)) v xs"
  by (induction xs arbitrary: v) (auto split: sum.splits)

lemma restore_postings:
  assumes "vault_inv v" "\<forall>p\<in>set sel. selected_ok p"
    and "restoreOutboundPostings outcomes v sel = (w, x)"
  shows "vault_inv w \<and> posting_content w = posting_content v \<and>
    (\<forall>k. waiting w k = waiting v k \<or> waiting w k = None) \<and>
    (\<forall>n. x = Inr n \<longrightarrow>
      (\<forall>k. waiting w k = (if \<exists>p\<in>set sel. k = sp_key p \<and> waiting v k = Some (sp_raw p)
         then None else waiting v k)) \<and>
      (\<forall>k. live w k = (if live v k = None \<and> (\<exists>p\<in>set sel. k = sp_key p \<and> waiting v k = Some (sp_raw p))
         then waiting v k else live v k)) \<and>
      (distinct (map sp_key sel) \<longrightarrow>
        n = length (filter (\<lambda>p. waiting v (sp_key p) = Some (sp_raw p)) sel))) \<and>
    (outcomes = (TxnOk, TxnOk) \<longrightarrow> (\<exists>n. x = Inr n))"
proof (cases "sel = []")
  case True
  then show ?thesis using assms by (auto simp: restoreOutboundPostings_def)
next
  case False
  obtain v1 where v1: "each_posting restoreOutboundPosting v sel = Inr v1" "vault_inv v1"
    "pv_outboundSelected v1 = pv_outboundSelected v"
    "\<forall>k. live v1 k = (if live v k = None \<and> (\<exists>p\<in>set sel. k = sp_key p \<and> waiting v k = Some (sp_raw p))
      then waiting v k else live v k)"
    using restore_each [OF assms(1,2)] by blast
  obtain v2 y where u: "vault_update (fst outcomes) v (Inr (v1, ())) = (v2, y)"
    by (cases "vault_update (fst outcomes) v (Inr (v1, ()))")
  note u2 = vault_update_Inr [OF u assms(1) v1(2)]
  have w2: "waiting v2 k = waiting v k" for k using u2 v1(3) by metis
  have l2: "live v2 k = live v k \<or> live v k = None \<and> live v2 k = waiting v k" for k
    using u2 v1(4) by metis
  have c2: "posting_content v2 = posting_content v"
  proof
    fix k show "posting_content v2 k = posting_content v k"
      using w2 [of k] l2 [of k] by (cases "live v k") (auto simp: posting_content_def split: option.splits)
  qed
  show ?thesis
  proof (cases y)
    case (Inl e)
    then have "outcomes \<noteq> (TxnOk, TxnOk)" using u by (auto simp: vault_update_def)
    then show ?thesis using Inl assms(3) False u v1(1) u2 c2 w2
      by (auto simp: restoreOutboundPostings_def)
  next
    case (Inr q)
    then have v2: "v2 = v1" using u2 by auto
    let ?krs = "map (\<lambda>p. (sp_key p, sp_row p)) sel"
    have o: "owned_row v1 (sp_key p, sp_row p) \<longleftrightarrow> waiting v (sp_key p) = Some (sp_raw p)" for p
      by (simp add: owned_row_def v1(3) sp_raw_def)
    obtain v3 m where v3: "each_posting release_row (v1, 0) ?krs = Inr (v3, 0 + m)" "vault_inv v3"
      "pv_postings v3 = pv_postings v1"
      "\<forall>k. waiting v3 k = (if \<exists>kr\<in>set ?krs. k = fst kr \<and> owned_row v1 kr then None else waiting v1 k)"
      "distinct (map fst ?krs) \<longrightarrow> m = length (filter (owned_row v1) ?krs)"
      using release_each [OF v1(2), of 0 ?krs] by blast
    have w3: "waiting v3 k = (if \<exists>p\<in>set sel. k = sp_key p \<and> waiting v k = Some (sp_raw p)
        then None else waiting v k)" for k
    proof -
      have "(\<exists>kr\<in>set ?krs. k = fst kr \<and> owned_row v1 kr) \<longleftrightarrow>
          (\<exists>p\<in>set sel. k = sp_key p \<and> waiting v k = Some (sp_raw p))"
        by (auto simp: o)
      then show ?thesis unfolding v3(4) [rule_format, of k] v1(3) by (simp only:)
    qed
    have n: "distinct (map sp_key sel) \<longrightarrow>
        m = length (filter (\<lambda>p. waiting v (sp_key p) = Some (sp_raw p)) sel)"
      using v3(5) by (simp add: comp_def filter_map o)
    have upd: "vault_update (snd outcomes) v1 (Inr (v3, m)) = (w, x)"
      using assms(3) False u v1(1) Inr v2 v3(1) each_posting_map [of release_row "(v1, 0)" "\<lambda>p. (sp_key p, sp_row p)" sel]
      by (auto simp: restoreOutboundPostings_def release_row_def)
    note u3 = vault_update_Inr [OF upd v1(2) v3(2)]
    have wx: "waiting w k = waiting v k \<or> waiting w k = None \<and> live v1 k \<noteq> None" for k
      using u3 w3 [of k] v1(3,4) by (auto split: if_split_asm)
    have lx: "live w k = live v1 k" for k using u3 v3(3) by auto
    have content: "posting_content w = posting_content v"
    proof
      fix k
      have "posting_content w k = posting_content v1 k"
        using wx [of k] lx [of k] v1(3) by (cases "live v1 k") (auto simp: posting_content_def)
      then show "posting_content w k = posting_content v k" using c2 v2 by simp
    qed
    have released: "(\<forall>k. waiting w k = (if \<exists>p\<in>set sel. k = sp_key p \<and> waiting v k = Some (sp_raw p)
        then None else waiting v k)) \<and>
        (\<forall>k. live w k = (if live v k = None \<and> (\<exists>p\<in>set sel. k = sp_key p \<and> waiting v k = Some (sp_raw p))
         then waiting v k else live v k)) \<and> (distinct (map sp_key sel) \<longrightarrow>
        i = length (filter (\<lambda>p. waiting v (sp_key p) = Some (sp_raw p)) sel))" if "x = Inr i" for i
    proof -
      have e: "w = v3" "i = m" using u3 that by auto
      have "live w k = (if live v k = None \<and> (\<exists>p\<in>set sel. k = sp_key p \<and> waiting v k = Some (sp_raw p))
         then waiting v k else live v k)" for k using lx [of k] v1(4) [rule_format, of k] by (simp only:)
      then show ?thesis using w3 n e by blast
    qed
    have ok: "\<exists>n. x = Inr n" if "outcomes = (TxnOk, TxnOk)"
      using upd that by (auto simp: vault_update_def)
    show ?thesis
    proof (intro conjI allI impI)
      show "vault_inv w" using u3 by (rule conjunct1)
      show "posting_content w = posting_content v" by (rule content)
      show "waiting w k = waiting v k \<or> waiting w k = None" for k using wx [of k] by (elim disjE conjE) simp_all
    next
      fix n assume "x = Inr n"
      then show "waiting w k = (if \<exists>p\<in>set sel. k = sp_key p \<and> waiting v k = Some (sp_raw p)
          then None else waiting v k)"
        and "live w k = (if live v k = None \<and> (\<exists>p\<in>set sel. k = sp_key p \<and> waiting v k = Some (sp_raw p))
          then waiting v k else live v k)" for k
        using released by blast+
      show "n = length (filter (\<lambda>p. waiting v (sp_key p) = Some (sp_raw p)) sel)"
        if "distinct (map sp_key sel)" using released [OF \<open>x = Inr n\<close>] that by blast
    qed (rule ok)
  qed
qed


section \<open>Words and their postings\<close>

definition flat_words :: "WordPostings list \<Rightarrow> (Hash \<times> RWIPosting) list" where
  "flat_words words = concat (map (\<lambda>w. map (Pair (wp_WordHash w)) (wp_Postings w)) words)"

definition selection_of :: "Hash \<times> RWIPosting \<Rightarrow> selectedPosting" where
  "selection_of wr = (case wr of (word, row) \<Rightarrow>
     let url = (case RWIPosting_URLHash row of Inr url \<Rightarrow> url | Inl _ \<Rightarrow> [])
     in \<lparr>sp_key = postingKey word url, sp_word = word, sp_url = url, sp_row = row\<lparr>RWI_WordHash := word\<rparr>\<rparr>)"

definition word_row_ok :: "Hash \<times> RWIPosting \<Rightarrow> bool" where
  "word_row_ok wr \<longleftrightarrow> Hash_Valid (fst wr) \<and> \<not> isl (RWIPosting_URLHash (snd wr)) \<and>
     storable_map (RWI_Properties (snd wr))"

definition row_raw :: "Hash \<times> RWIPosting \<Rightarrow> bytes" where
  "row_raw wr = encodeStoredPosting (snd wr)"

lemma selection_of_ok: "word_row_ok wr \<Longrightarrow> selected_ok (selection_of wr)"
  by (cases wr) (auto simp: selection_of_def selected_ok_def word_row_ok_def split: sum.splits)

lemma selection_of_row [simp]: "selected_ok p \<Longrightarrow> selection_of (sp_word p, sp_row p) = p"
  by (cases p) (auto simp: selection_of_def selected_ok_def)

lemma selected_ok_row: "selected_ok p \<Longrightarrow> word_row_ok (sp_word p, sp_row p)"
  by (auto simp: selected_ok_def word_row_ok_def)

lemma mset_add_to_word:
  "mset (flat_words (add_to_word word row ws)) = add_mset (word, row) (mset (flat_words ws))"
  by (induction word row ws rule: add_to_word.induct) (auto simp: flat_words_def)

lemma mset_group_words: "mset (flat_words (group_words rows)) = mset rows"
proof -
  have "mset (flat_words (foldl (\<lambda>words (word, row). add_to_word word row words) ws rows)) =
      mset (flat_words ws) + mset rows" for ws
    by (induction rows arbitrary: ws) (auto simp: mset_add_to_word)
  then show ?thesis by (simp add: group_words_def flat_words_def)
qed

lemma set_group_words [simp]: "set (flat_words (group_words rows)) = set rows"
  using mset_eq_setD [OF mset_group_words] .

lemma word_rows_ok:
  assumes "\<forall>row\<in>set rows. word_row_ok (word, row)"
  shows "word_rows word rows = Inr (map selection_of (map (Pair word) rows))"
  using assms
  by (induction rows) (auto simp: word_row_ok_def selection_of_def split: sum.splits)

lemma outbound_from_words_ok:
  assumes "\<forall>wr\<in>set (flat_words words). word_row_ok wr"
    and "\<forall>w\<in>set words. Hash_Valid (wp_WordHash w)"
  shows "outboundPostingsFromWords words = Inr (map selection_of (flat_words words))"
  using assms
proof (induction words)
  case (Cons w words)
  have "word_rows (wp_WordHash w) (wp_Postings w) =
      Inr (map selection_of (map (Pair (wp_WordHash w)) (wp_Postings w)))"
    by (rule word_rows_ok) (use Cons.prems in \<open>auto simp: flat_words_def\<close>)
  then show ?case using Cons by (simp add: flat_words_def ParseHash_valid)
qed (simp add: flat_words_def)

text \<open>What a restore makes of words it can read.\<close>

lemma word_rows_selected:
  assumes "word_rows word rows = Inr sel" "Hash_Valid word" "\<forall>r\<in>set rows. storable_map (RWI_Properties r)"
  shows "\<forall>p\<in>set sel. selected_ok p"
  using assms
  by (induction word rows arbitrary: sel rule: word_rows.induct)
    (fastforce simp: selected_ok_def map_sum_eq_Inr split: sum.splits)+

lemma outbound_from_words_selected:
  assumes "outboundPostingsFromWords words = Inr sel"
    and "\<forall>wr\<in>set (flat_words words). storable_map (RWI_Properties (snd wr))"
  shows "\<forall>p\<in>set sel. selected_ok p"
  using assms
proof (induction words arbitrary: sel)
  case (Cons w words)
  then obtain wordHash xs ys where x: "ParseHash (wp_WordHash w) = Inr wordHash"
    "word_rows wordHash (wp_Postings w) = Inr xs" "outboundPostingsFromWords words = Inr ys" "sel = xs @ ys"
    by (auto split: sum.splits simp: map_sum_def)
  have "Hash_Valid wordHash" using x(1) by (auto simp: ParseHash_iff Hash_Valid_iff)
  then have "\<forall>p\<in>set xs. selected_ok p"
    by (rule word_rows_selected [OF x(2)])
      (use Cons.prems(2) [rule_format, of "(wp_WordHash w, r)" for r] in \<open>auto simp: flat_words_def\<close>)
  moreover have "\<forall>p\<in>set ys. selected_ok p" using Cons x(3) by (auto simp: flat_words_def)
  ultimately show ?case using x(4) by auto
qed simp

end
