(* ===== verification/StoreContent.thy ===== *)
theory StoreContent
  imports PostingStore
begin

text \<open>
  What the store of postings promises over any sequence of its operations. The abstract store is
  the map \<^const>\<open>posting_content\<close>: each operation is a step on this map, whatever becomes of its
  transactions, and the steps that take postings to other peers leave it as it is.
\<close>

section \<open>Operations\<close>

datatype store_op =
    OpSelect "txn_outcome \<times> txn_outcome" OutboundSelectionConfig
  | OpRestore "txn_outcome \<times> txn_outcome" "WordPostings list"
  | OpRecover "txn_outcome \<times> txn_outcome"
  | OpConfirm txn_outcome "RWIPosting list"
  | OpReceive txn_outcome "RWIPosting list"
  | OpPurge txn_outcome Hash Hash
  | OpDropWaiting txn_outcome "Hash list"

fun store_op_run :: "store_op \<Rightarrow> posting_vault \<Rightarrow> posting_vault" where
  "store_op_run (OpSelect outcomes config) v = fst (SelectOutbound outcomes v config)"
| "store_op_run (OpRestore outcomes words) v = fst (RestoreOutbound outcomes v words)"
| "store_op_run (OpRecover outcomes) v = fst (RecoverOutbound outcomes v)"
| "store_op_run (OpConfirm outcome postings) v = fst (ConfirmOutbound outcome v postings)"
| "store_op_run (OpReceive outcome entries) v = fst (storeEntries outcome v entries)"
| "store_op_run (OpPurge outcome word url) v =
     fst (vault_update outcome v (Inr (PurgePosting v word url)))"
| "store_op_run (OpDropWaiting outcome urls) v =
     fst (vault_update outcome v (map_sum id (\<lambda>v. (v, ())) (DropWaitingOutboundPostings v urls)))"

text \<open>The postings that come in are those that a message can carry.\<close>

fun store_op_ok :: "store_op \<Rightarrow> bool" where
  "store_op_ok (OpRestore outcomes words) =
     (\<forall>wr\<in>set (flat_words words). storable_map (RWI_Properties (snd wr)))"
| "store_op_ok (OpReceive outcome entries) =
     (\<forall>e\<in>set entries. storable_map (RWI_Properties e) \<and> Hash_Valid (RWI_WordHash e))"
| "store_op_ok op = True"

text \<open>The step on the abstract store.\<close>

fun content_step ::
  "store_op \<Rightarrow> (string \<Rightarrow> bytes option) \<Rightarrow> (string \<Rightarrow> bytes option) \<Rightarrow> bool" where
  "content_step (OpSelect outcomes config) c c' = (c' = c)"
| "content_step (OpRestore outcomes words) c c' = (c' = c)"
| "content_step (OpRecover outcomes) c c' = (c' = c)"
| "content_step (OpConfirm outcome postings) c c' = (\<forall>k. c' k = c k \<or>
     c' k = None \<and> (\<exists>p\<in>set postings. postingRecoveryKey p = Inr k \<and> c k = Some (encodeStoredPosting p)))"
| "content_step (OpReceive outcome entries) c c' = (\<forall>k. c' k = c k \<or>
     (\<exists>e\<in>set entries. \<exists>url. RWIPosting_URLHash e = Inr url \<and> k = postingKey (RWI_WordHash e) url \<and>
        c' k = Some (encodeStoredPosting e)))"
| "content_step (OpPurge outcome word url) c c' = (\<forall>k. k \<noteq> postingKey word url \<longrightarrow> c' k = c k)"
| "content_step (OpDropWaiting outcome urls) c c' = (\<forall>k. c' k = c k \<or>
     c' k = None \<and> (\<exists>word url. k = postingKey word url \<and> url \<in> set urls))"

section \<open>Confirmation\<close>

lemma confirm_each:
  assumes "vault_inv v" "each_posting confirm_posting (v, n) postings = Inr (w, m)"
  shows "vault_inv w \<and> pv_postings w = pv_postings v \<and> (\<forall>k. waiting w k = waiting v k \<or>
    waiting w k = None \<and> (\<exists>p\<in>set postings. postingRecoveryKey p = Inr k \<and>
      waiting v k = Some (encodeStoredPosting p)))"
  using assms
proof (induction postings arbitrary: v n)
  case (Cons p postings)
  obtain key where key: "postingRecoveryKey p = Inr key"
    using Cons.prems(2) by (auto simp: confirm_posting_def split: sum.splits)
  have f: "confirm_posting (v, n) p = release_row (v, n) (key, p)"
    using key by (simp add: confirm_posting_def release_row_def)
  obtain v1 n1 where v1: "release_row (v, n) (key, p) = Inr (v1, n1)"
    "each_posting confirm_posting (v1, n1) postings = Inr (w, m)"
    using Cons.prems(2) unfolding each_posting.simps f by (auto split: sum.splits)
  have e: "each_posting release_row (v, n) [(key, p)] = Inr (v1, n1)" using v1(1) by simp
  have r: "vault_inv v1 \<and> pv_postings v1 = pv_postings v \<and>
      (\<forall>k. waiting v1 k = (if k = key \<and> waiting v key = Some (encodeStoredPosting p) then None else waiting v k))"
    using release_each [OF Cons.prems(1), of n "[(key, p)]"] unfolding e by (auto simp: owned_row_def)
  show ?case
    using Cons.IH [OF _ v1(2)] r key by (auto split: if_split_asm)
qed auto

lemma confirm_content:
  assumes "vault_inv v" "ConfirmOutbound outcome v postings = (w, x)"
  shows "vault_inv w \<and>
    content_step (OpConfirm outcome postings) (posting_content v) (posting_content w)"
proof (cases "each_posting confirm_posting (v, 0) postings")
  case (Inl e)
  then show ?thesis using assms by (simp add: ConfirmOutbound_def vault_update_def)
next
  case (Inr vm)
  obtain v1 m where vm: "vm = (v1, m)" by (cases vm)
  note c = confirm_each [OF assms(1) Inr [unfolded vm]]
  have "vault_update outcome v (Inr (v1, m)) = (w, x)" using assms(2) Inr vm by (simp add: ConfirmOutbound_def)
  note u = vault_update_Inr [OF this assms(1) conjunct1 [OF c]]
  have "posting_content w k = posting_content v k \<or> posting_content w k = None \<and>
      (\<exists>p\<in>set postings. postingRecoveryKey p = Inr k \<and> posting_content v k = Some (encodeStoredPosting p))" for k
  proof -
    have l: "live w k = live v k" using u c by auto
    have "waiting w k = waiting v k \<or> waiting w k = None \<and>
        (\<exists>p\<in>set postings. postingRecoveryKey p = Inr k \<and> waiting v k = Some (encodeStoredPosting p))"
      using u c by metis
    then show ?thesis using l by (cases "live v k") (auto simp: posting_content_def)
  qed
  then show ?thesis using u by simp
qed

section \<open>Intake\<close>

lemma store_each:
  assumes "vault_inv v" "each_posting store_entry (v, urls) entries = Inr (w, referenced)"
    and "\<forall>e\<in>set entries. storable_map (RWI_Properties e) \<and> Hash_Valid (RWI_WordHash e)"
  shows "vault_inv w \<and> pv_outboundSelected w = pv_outboundSelected v \<and> (\<forall>k. live w k = live v k \<or>
    (\<exists>e\<in>set entries. \<exists>url. RWIPosting_URLHash e = Inr url \<and> k = postingKey (RWI_WordHash e) url \<and>
       live w k = Some (encodeStoredPosting e)))"
  using assms
proof (induction entries arbitrary: v urls)
  case (Cons e entries)
  obtain url where url: "RWIPosting_URLHash e = Inr url"
    using Cons.prems(2) by (auto simp: store_entry_def split: sum.splits)
  let ?k = "postingKey (RWI_WordHash e) url"
  let ?v1 = "put_posting ?k e v"
  have f: "store_entry (v, urls) e = Inr (?v1, urls @ [url])" using url by (simp add: store_entry_def)
  have r: "each_posting store_entry (?v1, urls @ [url]) entries = Inr (w, referenced)"
    using Cons.prems(2) f by simp
  have "entry_ok ?k (encodeStoredPosting e)" using url Cons.prems(3) by (auto simp: entry_ok_def)
  then have i: "vault_inv ?v1" unfolding put_posting_def
    by (intro vault_inv_postings [OF Cons.prems(1)])
      (use vault_invD [OF Cons.prems(1)] in \<open>auto simp: update_conv' split: if_split_asm\<close>)
  have l: "live ?v1 k = (if k = ?k then Some (encodeStoredPosting e) else live v k)" for k
    by (simp add: put_posting_def update_conv')
  have ih: "vault_inv w \<and> pv_outboundSelected w = pv_outboundSelected ?v1 \<and> (\<forall>k. live w k = live ?v1 k \<or>
    (\<exists>e\<in>set entries. \<exists>url. RWIPosting_URLHash e = Inr url \<and> k = postingKey (RWI_WordHash e) url \<and>
       live w k = Some (encodeStoredPosting e)))"
    using Cons.IH [OF i r] Cons.prems(3) by simp
  have "live w k = live v k \<or> (\<exists>e\<in>set (e # entries). \<exists>url. RWIPosting_URLHash e = Inr url \<and>
      k = postingKey (RWI_WordHash e) url \<and> live w k = Some (encodeStoredPosting e))" for k
    using ih l [of k] url by (cases "k = ?k") (simp, metis, simp, metis)
  then show ?case using ih by (simp add: put_posting_def)
qed auto

lemma store_content:
  assumes "vault_inv v" "storeEntries outcome v entries = (w, x)"
    and "\<forall>e\<in>set entries. storable_map (RWI_Properties e) \<and> Hash_Valid (RWI_WordHash e)"
  shows "vault_inv w \<and> content_step (OpReceive outcome entries) (posting_content v) (posting_content w)"
proof (cases "each_posting store_entry (v, []) entries")
  case (Inl e)
  then show ?thesis using assms by (simp add: storeEntries_def vault_update_def)
next
  case (Inr vm)
  obtain v1 m where vm: "vm = (v1, m)" by (cases vm)
  note c = store_each [OF assms(1) Inr [unfolded vm] assms(3)]
  have "vault_update outcome v (Inr (v1, m)) = (w, x)" using assms(2) Inr vm by (simp add: storeEntries_def)
  note u = vault_update_Inr [OF this assms(1) conjunct1 [OF c]]
  have "posting_content w k = posting_content v k \<or> (\<exists>e\<in>set entries. \<exists>url. RWIPosting_URLHash e = Inr url \<and>
      k = postingKey (RWI_WordHash e) url \<and> posting_content w k = Some (encodeStoredPosting e))" for k
  proof -
    have l: "waiting w k = waiting v k" using u c by auto
    have "live w k = live v k \<or> (\<exists>e\<in>set entries. \<exists>url. RWIPosting_URLHash e = Inr url \<and>
      k = postingKey (RWI_WordHash e) url \<and> live w k = Some (encodeStoredPosting e))"
      using u c by metis
    then show ?thesis using l by (fastforce simp: posting_content_def split: option.splits)
  qed
  then show ?thesis using u by simp
qed

section \<open>Purge\<close>

lemma drop_waiting_frame [simp]: "pv_postings (dropWaitingOutboundPosting v key) = pv_postings v"
  "waiting (dropWaitingOutboundPosting v key) k = (if k = key then None else waiting v k)"
  by (simp_all add: dropWaitingOutboundPosting_def delete_conv')

lemma drop_waiting_inv: "vault_inv v \<Longrightarrow> vault_inv (dropWaitingOutboundPosting v key)"
  unfolding dropWaitingOutboundPosting_def
  by (rule vault_inv_selected) (auto simp: delete_conv' vault_invD split: if_split_asm)

lemma drop_waiting_each:
  assumes "vault_inv v"
  shows "vault_inv (foldl dropWaitingOutboundPosting v keys) \<and>
    pv_postings (foldl dropWaitingOutboundPosting v keys) = pv_postings v \<and>
    (\<forall>k. waiting (foldl dropWaitingOutboundPosting v keys) k = (if k \<in> set keys then None else waiting v k))"
  using assms by (induction keys arbitrary: v) (simp_all add: drop_waiting_inv)

lemma purge_content:
  assumes "vault_inv v" "vault_update outcome v (Inr (PurgePosting v word url)) = (w, x)"
  shows "vault_inv w \<and> content_step (OpPurge outcome word url) (posting_content v) (posting_content w)"
proof -
  let ?k = "postingKey word url"
  let ?v1 = "fst (PurgePosting v word url)"
  have "vault_inv (v\<lparr>pv_postings := AList.delete ?k (pv_postings v)\<rparr>)"
    by (rule vault_inv_postings [OF assms(1)])
      (use vault_invD [OF assms(1)] in \<open>auto simp: delete_conv' split: if_split_asm\<close>)
  then have i: "vault_inv ?v1" by (simp add: PurgePosting_def Let_def drop_waiting_inv)
  have c: "k \<noteq> ?k \<Longrightarrow> live ?v1 k = live v k \<and> waiting ?v1 k = waiting v k" for k
    by (simp add: PurgePosting_def Let_def delete_conv')
  obtain v2 y where p: "PurgePosting v word url = (v2, y)" by (cases "PurgePosting v word url")
  note u = vault_update_Inr [OF assms(2) [unfolded p] assms(1)]
  have "posting_content w k = posting_content v k" if "k \<noteq> ?k" for k
  proof -
    have "live w k = live v k" "waiting w k = waiting v k" using u i c [OF that] p by (metis fst_conv)+
    then show ?thesis by (simp add: posting_content_def split: option.splits)
  qed
  then show ?thesis using u i p by simp
qed

lemma waiting_scan_urls:
  assumes "waiting_scan urls entries = Inr keys" "key \<in> set keys"
  shows "\<exists>word url. key = postingKey word url \<and> url \<in> set urls"
  using assms
proof (induction urls entries arbitrary: keys rule: waiting_scan.induct)
  case (2 urls k raw rest)
  obtain word url ks where k: "postingKeyHashes k = Inr (word, url)" "waiting_scan urls rest = Inr ks"
    "keys = (if url \<in> set urls then k # ks else ks)"
    using "2.prems"(1) by (auto simp: map_sum_eq_Inr split: sum.splits)
  have "ParseHash (take HashLength k) = Inr word" "ParseHash (drop HashLength k) = Inr url"
    using k(1) by (auto simp: postingKeyHashes_def split: if_split_asm sum.splits)
  then have "k = postingKey word url" by (auto simp: ParseHash_iff postingKey_def)
  moreover have "\<exists>word url. key = postingKey word url \<and> url \<in> set urls" if "key \<in> set ks"
  proof -
    obtain d where "decodeStoredPosting [] raw = Inr d" using "2.prems"(1) by (auto split: sum.splits)
    then show ?thesis using "2.IH" k(1,2) that by blast
  qed
  ultimately show ?case using "2.prems"(2) k(3) by (auto split: if_split_asm)
qed simp

lemma drop_waiting_content:
  assumes "vault_inv v"
    and "vault_update outcome v (map_sum id (\<lambda>v. (v, ())) (DropWaitingOutboundPostings v urls)) = (w, x)"
  shows "vault_inv w \<and> content_step (OpDropWaiting outcome urls) (posting_content v) (posting_content w)"
proof (cases "DropWaitingOutboundPostings v urls")
  case (Inl e)
  then show ?thesis using assms by (simp add: vault_update_def)
next
  case (Inr v1)
  have c: "vault_inv v1 \<and> pv_postings v1 = pv_postings v \<and> (\<forall>k. waiting v1 k = waiting v k \<or>
      waiting v1 k = None \<and> (\<exists>word url. k = postingKey word url \<and> url \<in> set urls))"
  proof (cases "urls = []")
    case True
    then show ?thesis using Inr assms(1) by (simp add: DropWaitingOutboundPostings_def)
  next
    case False
    obtain keys where k: "waiting_scan urls (scan_entries (pv_outboundSelected v)) = Inr keys"
      "v1 = foldl dropWaitingOutboundPosting v keys"
      using Inr False by (auto simp: DropWaitingOutboundPostings_def map_sum_eq_Inr)
    have "key \<in> set keys \<Longrightarrow> \<exists>word url. key = postingKey word url \<and> url \<in> set urls" for key
      by (rule waiting_scan_urls [OF k(1)])
    then show ?thesis using drop_waiting_each [OF assms(1), of keys] k(2) by auto
  qed
  have "vault_update outcome v (Inr (v1, ())) = (w, x)" using assms(2) Inr by simp
  note u = vault_update_Inr [OF this assms(1) conjunct1 [OF c]]
  have "posting_content w k = posting_content v k \<or> posting_content w k = None \<and>
      (\<exists>word url. k = postingKey word url \<and> url \<in> set urls)" for k
  proof -
    have l: "live w k = live v k" using u c by auto
    have "waiting w k = waiting v k \<or>
        waiting w k = None \<and> (\<exists>word url. k = postingKey word url \<and> url \<in> set urls)"
      using u c by metis
    then show ?thesis using l by (cases "live v k") (auto simp: posting_content_def)
  qed
  then show ?thesis using u by simp
qed


section \<open>Selection, restoring and recovery\<close>

lemma group_words_hash: "g \<in> set (group_words rows) \<Longrightarrow> wp_WordHash g \<in> fst ` set rows"
proof -
  have a: "wp_WordHash ` set (add_to_word word row ws) = insert word (wp_WordHash ` set ws)" for word row ws
    by (induction word row ws rule: add_to_word.induct) auto
  have "wp_WordHash ` set (foldl (\<lambda>words (word, row). add_to_word word row words) ws rows) =
      wp_WordHash ` set ws \<union> fst ` set rows" for ws
  proof (induction rows arbitrary: ws)
    case (Cons r rows)
    then show ?case by (cases r) (simp add: a)
  qed simp
  then have "wp_WordHash ` set (group_words rows) = fst ` set rows" by (simp add: group_words_def)
  then show "g \<in> set (group_words rows) \<Longrightarrow> wp_WordHash g \<in> fst ` set rows" by blast
qed

lemma SelectOutbound_cases:
  assumes "SelectOutbound outcomes v config = (w, x)"
  obtains e where "x = Inl e"
      "selectOutboundPostings outcomes v (normalizeOutboundSelectionConfig config) = (w, Inl e)"
  | sel where "x = Inr (group_words (map (\<lambda>p. (sp_word p, sp_row p)) sel))"
      "selectOutboundPostings outcomes v (normalizeOutboundSelectionConfig config) = (w, Inr sel)"
  using assms that by (auto simp: SelectOutbound_def split: prod.splits sum.splits)

lemma select_content:
  assumes "vault_inv v"
  shows "vault_inv (fst (SelectOutbound outcomes v config)) \<and>
    posting_content (fst (SelectOutbound outcomes v config)) = posting_content v"
proof -
  obtain w x where wx: "SelectOutbound outcomes v config = (w, x)" by (cases "SelectOutbound outcomes v config")
  from wx show ?thesis
    by (rule SelectOutbound_cases) (use select_postings [OF assms] wx in auto)
qed

lemma restore_content:
  assumes "vault_inv v" "\<forall>wr\<in>set (flat_words words). storable_map (RWI_Properties (snd wr))"
  shows "vault_inv (fst (RestoreOutbound outcomes v words)) \<and>
    posting_content (fst (RestoreOutbound outcomes v words)) = posting_content v"
proof (cases "outboundPostingsFromWords words")
  case (Inr sel)
  obtain w x where wx: "restoreOutboundPostings outcomes v sel = (w, x)"
    by (cases "restoreOutboundPostings outcomes v sel")
  then show ?thesis
    using restore_postings [OF assms(1) outbound_from_words_selected [OF Inr assms(2)] wx] Inr
    by (simp add: RestoreOutbound_def)
qed (simp add: assms(1) RestoreOutbound_def)

lemma pending_scan_ok:
  assumes "\<forall>(k, raw)\<in>set entries. entry_ok k raw"
  shows "\<exists>sel. pending_scan entries = Inr sel \<and> (\<forall>p\<in>set sel. selected_ok p) \<and>
    map (\<lambda>p. (sp_key p, sp_raw p)) sel = entries"
  using assms
proof (induction entries)
  case (Cons e entries)
  obtain k raw where e: "e = (k, raw)" by (cases e)
  then have "entry_ok k raw" using Cons.prems by simp
  then obtain d word url where d: "decodeStoredPosting [] raw = Inr d" "encodeStoredPosting d = raw"
    "storable_map (RWI_Properties d)" "RWIPosting_URLHash d = Inr url"
    "postingKeyHashes k = Inr (word, url)" "k = postingKey word url" "Hash_Valid word" "Hash_Valid url"
    by (rule entry_ok_decode [of k raw "[]"])
  obtain sel where sel: "pending_scan entries = Inr sel" "\<forall>p\<in>set sel. selected_ok p"
    "map (\<lambda>p. (sp_key p, sp_raw p)) sel = entries" using Cons by auto
  show ?case using sel d e by (auto simp: selected_ok_def sp_raw_def)
qed simp

lemma pending_selections:
  assumes "vault_inv v"
  obtains sel where "pendingOutboundSelections v = Inr sel" "\<forall>p\<in>set sel. selected_ok p"
    "map (\<lambda>p. (sp_key p, sp_raw p)) sel = scan_entries (pv_outboundSelected v)"
    "\<forall>k raw. waiting v k = Some raw \<longleftrightarrow> (\<exists>p\<in>set sel. sp_key p = k \<and> sp_raw p = raw)"
    "distinct (map sp_key sel)"
proof -
  have "\<forall>(k, raw)\<in>set (scan_entries (pv_outboundSelected v)). entry_ok k raw"
    using vault_invD(4) [OF assms] by (auto simp: set_scan_entries)
  from pending_scan_ok [OF this]
  obtain sel where sel: "pendingOutboundSelections v = Inr sel" "\<forall>p\<in>set sel. selected_ok p"
    "map (\<lambda>p. (sp_key p, sp_raw p)) sel = scan_entries (pv_outboundSelected v)"
    by (auto simp: pendingOutboundSelections_def)
  have "waiting v k = Some raw \<longleftrightarrow> (\<exists>p\<in>set sel. sp_key p = k \<and> sp_raw p = raw)" for k raw
    unfolding set_scan_entries [symmetric] sel(3) [symmetric] by auto
  moreover have "map sp_key sel = map fst (scan_entries (pv_outboundSelected v))"
    using arg_cong [OF sel(3), of "map fst"] by (simp add: comp_def)
  then have "distinct (map sp_key sel)" using distinct_scan_entries [OF vault_invD(2) [OF assms]] by simp
  ultimately show ?thesis using that sel by blast
qed

lemma recover_content:
  assumes "vault_inv v"
  shows "vault_inv (fst (RecoverOutbound outcomes v)) \<and>
    posting_content (fst (RecoverOutbound outcomes v)) = posting_content v"
proof -
  obtain sel where sel: "pendingOutboundSelections v = Inr sel" "\<forall>p\<in>set sel. selected_ok p"
    by (rule pending_selections [OF assms])
  obtain w x where wx: "restoreOutboundPostings outcomes v sel = (w, x)"
    by (cases "restoreOutboundPostings outcomes v sel")
  then show ?thesis using restore_postings [OF assms sel(2) wx] sel(1) by (simp add: RecoverOutbound_def)
qed

lemma length_scan_entries: "wf_map c \<Longrightarrow> length (scan_entries c) = length c"
proof -
  assume w: "wf_map c"
  have m: "length (List.map_filter (\<lambda>key. map_option (Pair key) (map_of c key)) ks) = length ks"
    if "set ks \<subseteq> fst ` set c" for ks
    using that by (induction ks) (auto simp: map_filter_simps weak_map_of_SomeI split: option.splits)
  have "length (scan_entries c) = length (sort (map_keys c))"
    unfolding scan_entries_def by (rule m) (simp add: map_keys_def)
  then show ?thesis by (simp add: map_keys_def)
qed

section \<open>The store as one map\<close>

lemma store_op_content:
  assumes "vault_inv v" "store_op_ok op"
  shows "vault_inv (store_op_run op v) \<and>
    content_step op (posting_content v) (posting_content (store_op_run op v))"
proof (cases op)
  case (OpSelect outcomes config)
  then show ?thesis using select_content [OF assms(1)] by simp
next
  case (OpRestore outcomes words)
  then show ?thesis using restore_content [OF assms(1)] assms(2) by simp
next
  case (OpRecover outcomes)
  then show ?thesis using recover_content [OF assms(1)] by simp
next
  case (OpConfirm outcome postings)
  then show ?thesis using confirm_content [OF assms(1), of outcome postings]
    by (metis prod.collapse store_op_run.simps(4))
next
  case (OpReceive outcome entries)
  then show ?thesis using store_content [OF assms(1), of outcome entries] assms(2)
    by (metis prod.collapse store_op_run.simps(5) store_op_ok.simps(2))
next
  case (OpPurge outcome word url)
  then show ?thesis using purge_content [OF assms(1), of outcome word url]
    by (metis prod.collapse store_op_run.simps(6))
next
  case (OpDropWaiting outcome urls)
  then show ?thesis using drop_waiting_content [OF assms(1), of outcome urls]
    by (metis prod.collapse store_op_run.simps(7))
qed

text \<open>Which steps take a posting away: those that name it.\<close>

definition names_posting :: "store_op \<Rightarrow> string \<Rightarrow> bytes \<Rightarrow> bool" where
  "names_posting op k raw \<longleftrightarrow> (case op of
     OpConfirm outcome ps \<Rightarrow> \<exists>p\<in>set ps. postingRecoveryKey p = Inr k \<and> encodeStoredPosting p = raw
   | OpPurge outcome word url \<Rightarrow> k = postingKey word url
   | OpDropWaiting outcome urls \<Rightarrow> \<exists>word. \<exists>url\<in>set urls. k = postingKey word url
   | _ \<Rightarrow> False)"

text \<open>Which intakes overwrite it: those with another content under its key.\<close>

definition overwrites_posting :: "store_op \<Rightarrow> string \<Rightarrow> bytes \<Rightarrow> bool" where
  "overwrites_posting op k raw \<longleftrightarrow> (case op of
     OpReceive outcome entries \<Rightarrow> \<exists>e\<in>set entries. \<exists>url. RWIPosting_URLHash e = Inr url \<and>
       k = postingKey (RWI_WordHash e) url \<and> encodeStoredPosting e \<noteq> raw
   | _ \<Rightarrow> False)"

lemma content_step_keeps:
  assumes "content_step op c c'" "c k = Some raw" "\<not> names_posting op k raw"
  shows "c' k = Some raw \<or> (\<exists>outcome entries e url. op = OpReceive outcome entries \<and> e \<in> set entries \<and>
    RWIPosting_URLHash e = Inr url \<and> k = postingKey (RWI_WordHash e) url \<and>
    c' k = Some (encodeStoredPosting e))"
proof (cases op)
  case (OpReceive outcome entries)
  then have "c' k = c k \<or> (\<exists>e\<in>set entries. \<exists>url. RWIPosting_URLHash e = Inr url \<and>
      k = postingKey (RWI_WordHash e) url \<and> c' k = Some (encodeStoredPosting e))"
    using assms(1) by simp
  then show ?thesis using assms(2) OpReceive by auto
next
  case (OpConfirm outcome ps)
  then have "c' k = c k \<or> (\<exists>p\<in>set ps. postingRecoveryKey p = Inr k \<and> c k = Some (encodeStoredPosting p))"
    using assms(1) by (simp add: ) blast
  then show ?thesis using assms(2,3) OpConfirm by (auto simp: names_posting_def)
next
  case (OpDropWaiting outcome urls)
  then have "c' k = c k \<or> (\<exists>word url. k = postingKey word url \<and> url \<in> set urls)"
    using assms(1) by (simp add: ) blast
  then show ?thesis using assms(2,3) OpDropWaiting by (auto simp: names_posting_def)
qed (use assms in \<open>auto simp: names_posting_def\<close>)

inductive content_run ::
  "store_op list \<Rightarrow> (string \<Rightarrow> bytes option) \<Rightarrow> (string \<Rightarrow> bytes option) \<Rightarrow> bool" where
  content_run_Nil: "content_run [] c c"
| content_run_Cons: "content_step op c c1 \<Longrightarrow> content_run ops c1 c2 \<Longrightarrow> content_run (op # ops) c c2"

inductive_cases content_run_ConsE: "content_run (op # ops) c c2"

lemma store_ops_content:
  assumes "vault_inv v" "list_all store_op_ok ops"
  shows "vault_inv (fold store_op_run ops v) \<and>
    content_run ops (posting_content v) (posting_content (fold store_op_run ops v))"
  using assms
proof (induction ops arbitrary: v)
  case (Cons op ops)
  note c = store_op_content [OF Cons.prems(1), of op]
  then show ?case using Cons.IH [of "store_op_run op v"] Cons.prems(2)
    by (auto intro: content_run_Cons)
qed (auto intro: content_run_Nil)

text \<open>A key keeps a posting through a run that does not name what it holds.\<close>

lemma content_run_keeps:
  assumes "content_run ops c c'" "c k \<noteq> None" "\<forall>op\<in>set ops. \<forall>raw. \<not> names_posting op k raw"
  shows "c' k \<noteq> None"
  using assms
proof (induction rule: content_run.induct)
  case (content_run_Cons op c c1 ops c2)
  obtain raw where "c k = Some raw" using content_run_Cons.prems(1) by auto
  then have "c1 k \<noteq> None"
    using content_step_keeps [OF content_run_Cons.hyps(1), of k raw] content_run_Cons.prems(2) by auto
  then show ?case using content_run_Cons by simp
qed simp

lemma content_run_frozen:
  assumes "content_run ops c c'" "c k = Some raw" "\<forall>op\<in>set ops. \<not> names_posting op k raw"
    and "\<forall>op\<in>set ops. \<not> overwrites_posting op k raw"
  shows "c' k = Some raw"
  using assms
proof (induction rule: content_run.induct)
  case (content_run_Cons op c c1 ops c2)
  then have "c1 k = Some raw" using content_step_keeps [of op c c1 k raw] by (auto simp: overwrites_posting_def)
  then show ?case using content_run_Cons by simp
qed simp

text \<open>C8: The store refines one map of postings: over any sequence of selections, restores,
  recoveries, confirmations, intakes and purges, and for every outcome of their transactions
  (carried out, aborted, or partly committed), the entries stay well formed and the content runs
  through the steps of the abstract map, in which selecting, restoring and recovering change
  nothing.\<close>

theorem store_refines_map:
  assumes "vault_inv v" "list_all store_op_ok ops"
  shows "vault_inv (fold store_op_run ops v) \<and>
    content_run ops (posting_content v) (posting_content (fold store_op_run ops v))"
  using store_ops_content [OF assms] .

text \<open>C5: No posting is lost on its way: whatever fails, a posting that is in the index or in the
  journal stays in one of them, unchanged, until it is confirmed with the same content, it or its
  address is purged, or an intake brings another content for the same word and address. Intakes of
  other postings, and of the same content, do not touch it.\<close>

theorem posting_not_lost:
  assumes "vault_inv v" "list_all store_op_ok ops" "posting_content v k = Some raw"
    and "\<forall>op\<in>set ops. \<not> names_posting op k raw"
    and "\<forall>op\<in>set ops. \<not> overwrites_posting op k raw"
  shows "live (fold store_op_run ops v) k = Some raw \<or>
    live (fold store_op_run ops v) k = None \<and> waiting (fold store_op_run ops v) k = Some raw"
proof -
  have "posting_content (fold store_op_run ops v) k = Some raw"
    using content_run_frozen [OF conjunct2 [OF store_ops_content [OF assms(1,2)]] assms(3-5)] .
  then show ?thesis by (auto simp: posting_content_def split: option.splits)
qed

text \<open>C13: Recovery ends every selection: when its transactions succeed the journal is empty, each
  posting that the store still had is in the index, the count is the number of journaled postings,
  and a second recovery finds nothing to do.\<close>

theorem recover_clears_journal:
  assumes "vault_inv v"
  shows "\<exists>w. RecoverOutbound (TxnOk, TxnOk) v = (w, Inr (length (pv_outboundSelected v))) \<and>
    pv_outboundSelected w = [] \<and> live w = posting_content v \<and>
    (\<forall>outcomes. RecoverOutbound outcomes w = (w, Inr 0))"
proof -
  obtain sel where sel: "pendingOutboundSelections v = Inr sel" "\<forall>p\<in>set sel. selected_ok p"
    "map (\<lambda>p. (sp_key p, sp_raw p)) sel = scan_entries (pv_outboundSelected v)"
    "\<forall>k raw. waiting v k = Some raw \<longleftrightarrow> (\<exists>p\<in>set sel. sp_key p = k \<and> sp_raw p = raw)"
    "distinct (map sp_key sel)"
    by (rule pending_selections [OF assms])
  obtain w x where wx: "restoreOutboundPostings (TxnOk, TxnOk) v sel = (w, x)"
    by (cases "restoreOutboundPostings (TxnOk, TxnOk) v sel")
  note r = restore_postings [OF assms sel(2) wx]
  then obtain n where n: "x = Inr n" by auto
  have owned: "waiting v (sp_key p) = Some (sp_raw p)" if "p \<in> set sel" for p using sel(4) that by blast
  have "n = length (filter (\<lambda>p. waiting v (sp_key p) = Some (sp_raw p)) sel)" using r n sel(5) by blast
  also have "filter (\<lambda>p. waiting v (sp_key p) = Some (sp_raw p)) sel = sel" using owned by simp
  also have "length sel = length (scan_entries (pv_outboundSelected v))"
    using arg_cong [OF sel(3), of length] by simp
  finally have len: "n = length (pv_outboundSelected v)"
    using length_scan_entries vault_invD(2) [OF assms] by simp
  have e: "waiting w k = None" for k
  proof (cases "waiting v k")
    case None
    then show ?thesis using r by metis
  next
    case (Some raw)
    then show ?thesis using r n sel(4) by metis
  qed
  then have empty: "pv_outboundSelected w = []"
    by (metis list.exhaust map_of_Cons_code(2) option.distinct(1) prod.exhaust)
  have "live w = posting_content w" using e by (auto simp: posting_content_def split: option.splits)
  then have l: "live w = posting_content v" using r by simp
  have again: "RecoverOutbound outcomes w = (w, Inr 0)" for outcomes
    by (simp add: RecoverOutbound_def pendingOutboundSelections_def empty scan_entries_def map_keys_def
        map_filter_simps restoreOutboundPostings_def)
  have "RecoverOutbound (TxnOk, TxnOk) v = (w, Inr (length (pv_outboundSelected v)))"
    using sel(1) wx n len by (simp add: RecoverOutbound_def)
  then show ?thesis using empty l again by blast
qed

text \<open>A selection stays within the limits of its configuration, and what it hands out is exactly
  what it moved: the postings come from the index and are now only in the journal.\<close>

theorem select_within_limits:
  assumes "vault_inv v" "SelectOutbound outcomes v config = (w, Inr words)"
  shows "int (length (flat_words words)) \<le> max 1 (os_MaxPostings config) \<and>
    int (card (fst ` set (flat_words words))) \<le> max 1 (os_MaxWords config) \<and>
    (\<forall>(word, row)\<in>set (flat_words words). \<exists>url. RWIPosting_URLHash row = Inr url \<and>
      live v (postingKey word url) = Some (encodeStoredPosting row) \<and>
      live w (postingKey word url) = None \<and>
      waiting w (postingKey word url) = Some (encodeStoredPosting row))"
proof (intro conjI)
  let ?c = "normalizeOutboundSelectionConfig config"
  obtain sel where sel: "words = group_words (map (\<lambda>p. (sp_word p, sp_row p)) sel)"
    "selectOutboundPostings outcomes v ?c = (w, Inr sel)"
    using assms(2) by (rule SelectOutbound_cases) auto
  note s = select_postings [OF assms(1) sel(2)]
  have c: "0 < os_MaxPostings ?c" "0 < os_MaxWords ?c" "os_MaxPostings ?c = max 1 (os_MaxPostings config)"
    "os_MaxWords ?c = max 1 (os_MaxWords config)"
    by (auto simp: normalizeOutboundSelectionConfig_def)
  have "length (flat_words words) = length sel"
    using arg_cong [OF mset_group_words [of "map (\<lambda>p. (sp_word p, sp_row p)) sel"], of size] sel(1) by simp
  then show "int (length (flat_words words)) \<le> max 1 (os_MaxPostings config)" using s c by metis
  have "fst ` set (flat_words words) = sp_word ` set sel" using sel(1) by (simp add: image_image)
  then show "int (card (fst ` set (flat_words words))) \<le> max 1 (os_MaxWords config)" using s c by metis
  show "\<forall>(word, row)\<in>set (flat_words words). \<exists>url. RWIPosting_URLHash row = Inr url \<and>
      live v (postingKey word url) = Some (encodeStoredPosting row) \<and>
      live w (postingKey word url) = None \<and>
      waiting w (postingKey word url) = Some (encodeStoredPosting row)"
    using s sel(1) by (auto simp: selected_ok_def sp_raw_def)
qed

text \<open>C35: A selection that is given back leaves the index as it was: restoring the words that a
  selection returned puts every posting back under its key and releases all of them.\<close>

theorem select_then_restore:
  assumes "vault_inv v" "SelectOutbound (TxnOk, TxnOk) v config = (w, Inr words)"
  shows "\<exists>u. RestoreOutbound (TxnOk, TxnOk) w words = (u, Inr (length (flat_words words))) \<and>
    live u = live v"
proof -
  let ?c = "normalizeOutboundSelectionConfig config"
  obtain sel where sel: "words = group_words (map (\<lambda>p. (sp_word p, sp_row p)) sel)"
    "selectOutboundPostings (TxnOk, TxnOk) v ?c = (w, Inr sel)"
    using assms(2) by (rule SelectOutbound_cases) auto
  note s = select_postings [OF assms(1) sel(2)]
  let ?given = "map selection_of (flat_words words)"
  have flat: "set (flat_words words) = (\<lambda>p. (sp_word p, sp_row p)) ` set sel" using sel(1) by simp
  have sok: "\<forall>p\<in>set sel. selected_ok p" using s by blast
  have ms: "mset ?given = mset sel"
  proof -
    have "mset ?given = image_mset selection_of (mset (flat_words words))" by simp
    also have "\<dots> = image_mset (\<lambda>p. selection_of (sp_word p, sp_row p)) (mset sel)"
      using sel(1) mset_group_words by (simp add: image_mset.compositionality comp_def)
    also have "\<dots> = image_mset id (mset sel)" using sok by (intro image_mset_cong) auto
    finally show ?thesis by simp
  qed
  have "\<forall>wr\<in>set (flat_words words). word_row_ok wr" using flat sok selected_ok_row by auto
  moreover have "\<forall>g\<in>set words. Hash_Valid (wp_WordHash g)"
  proof
    fix g assume "g \<in> set words"
    then have "wp_WordHash g \<in> fst ` set (map (\<lambda>p. (sp_word p, sp_row p)) sel)"
      unfolding sel(1) by (rule group_words_hash)
    then obtain p where "p \<in> set sel" "wp_WordHash g = sp_word p" by auto
    then show "Hash_Valid (wp_WordHash g)" using sok by (simp add: selected_ok_def)
  qed
  ultimately have from_words: "outboundPostingsFromWords words = Inr ?given" by (rule outbound_from_words_ok)
  have bok: "\<forall>p\<in>set ?given. selected_ok p" using mset_eq_setD [OF ms] sok by simp
  obtain u x where ux: "restoreOutboundPostings (TxnOk, TxnOk) w ?given = (u, x)"
    by (cases "restoreOutboundPostings (TxnOk, TxnOk) w ?given")
  note r = restore_postings [OF conjunct1 [OF s] bok ux]
  obtain n where n: "x = Inr n" using r by auto
  have s': "\<forall>p\<in>set sel. live v (sp_key p) = Some (sp_raw p) \<and> live w (sp_key p) = None"
    "distinct (map sp_key sel)"
    "\<forall>k. waiting w k = (if k \<in> sp_key ` set sel then live v k else waiting v k)"
    "\<forall>k. k \<notin> sp_key ` set sel \<longrightarrow> live w k = live v k"
    using s by simp_all
  have r': "\<forall>k. live u k = (if live w k = None \<and> (\<exists>p\<in>set ?given. k = sp_key p \<and> waiting w k = Some (sp_raw p))
         then waiting w k else live w k)"
    "distinct (map sp_key ?given) \<longrightarrow>
        n = length (filter (\<lambda>p. waiting w (sp_key p) = Some (sp_raw p)) ?given)"
    using r n by simp_all
  have backset: "set ?given = set sel" using mset_eq_setD [OF ms] .
  have own: "waiting w (sp_key p) = Some (sp_raw p)" if "p \<in> set ?given" for p
  proof -
    have "p \<in> set sel" using that backset by blast
    then show ?thesis using s'(1,3) by simp
  qed
  have "mset (map sp_key ?given) = mset (map sp_key sel)" using arg_cong [OF ms, of "image_mset sp_key"] unfolding mset_map .
  then have "distinct (map sp_key ?given)" using s'(2) mset_eq_imp_distinct_iff by blast
  then have "n = length (filter (\<lambda>p. waiting w (sp_key p) = Some (sp_raw p)) ?given)" using r'(2) by blast
  also have "filter (\<lambda>p. waiting w (sp_key p) = Some (sp_raw p)) ?given = ?given"
    by (rule filter_True) (use own in blast)
  finally have len: "n = length (flat_words words)" by simp
  have "live u k = live v k" for k
  proof (cases "k \<in> sp_key ` set sel")
    case True
    then obtain p where p: "p \<in> set sel" "k = sp_key p" by blast
    then have b: "p \<in> set ?given" "live w k = None" using s'(1) backset by simp_all
    have "waiting w k = Some (sp_raw p)" unfolding p(2) by (rule own [OF b(1)])
    then have "live w k = None \<and> (\<exists>p\<in>set ?given. k = sp_key p \<and> waiting w k = Some (sp_raw p))"
      using b p(2) by (intro conjI bexI [of _ p])
    then have "live u k = waiting w k" unfolding r'(1) [rule_format, of k] by (rule if_P)
    also have "waiting w k = live v k" unfolding s'(3) [rule_format, of k] using True by (rule if_P)
    finally show ?thesis .
  next
    case False
    then have "\<not> (live w k = None \<and> (\<exists>p\<in>set ?given. k = sp_key p \<and> waiting w k = Some (sp_raw p)))"
      using backset by blast
    then have "live u k = live w k" unfolding r'(1) [rule_format, of k] by (rule if_not_P)
    also have "live w k = live v k" using s'(4) False by blast
    finally show ?thesis .
  qed
  then show ?thesis using from_words ux n len by (auto simp: RestoreOutbound_def)
qed


section \<open>An example\<close>

definition example_key :: string where "example_key = ''AAAAAAAAAAAABBBBBBCCCCCC''"

definition example_vault :: posting_vault where
  "example_vault = \<lparr>pv_postings = [(example_key, encodeStoredPosting example_posting)],
     pv_outboundSelected = []\<rparr>"

definition example_config :: OutboundSelectionConfig where
  "example_config = \<lparr>os_MaxWords = 2, os_MaxPostings = 0\<rparr>"

lemma example_storable: "storable_map (RWI_Properties example_posting)"
  by (rule wf_posting_storable [OF example_posting(1)])
    (simp add: sized_map_def example_posting_def column_defs)

lemma example_entry: "entry_ok example_key (encodeStoredPosting example_posting)"
proof -
  have "RWIPosting_URLHash example_posting = Inr ''BBBBBBCCCCCC''"
    by (simp add: RWIPosting_URLHash_def example_posting_def get_or_def column_defs ParseHash_iff Alphabet_def)
  moreover have "Hash_Valid ''AAAAAAAAAAAA''" by (simp add: Hash_Valid_iff Alphabet_def)
  moreover have "example_key = postingKey ''AAAAAAAAAAAA'' ''BBBBBBCCCCCC''"
    by (simp add: example_key_def postingKey_def)
  ultimately show ?thesis using example_storable unfolding entry_ok_def by blast
qed

lemma example_vault_inv: "vault_inv example_vault"
  using example_entry by (simp add: vault_inv_def example_vault_def wf_map_def)

lemma example_select:
  obtains w row where "SelectOutbound (TxnOk, TxnOk) example_vault example_config =
      (w, Inr [\<lparr>wp_WordHash = ''AAAAAAAAAAAA'', wp_Postings = [row]\<rparr>])"
proof -
  obtain d word url where d: "decodeStoredPosting [] (encodeStoredPosting example_posting) = Inr d"
    "encodeStoredPosting d = encodeStoredPosting example_posting"
    "postingKeyHashes example_key = Inr (word, url)" "example_key = postingKey word url"
    "Hash_Valid word" "Hash_Valid url"
    by (rule entry_ok_decode [OF example_entry, of "[]"])
  have "length word = 12" "example_key = word @ url"
    using d(4,5) by (simp_all add: postingKey_def Hash_Valid_iff)
  then have "word = take 12 example_key" using append_eq_conv_conj by metis
  then have word: "word = ''AAAAAAAAAAAA''" by (simp add: example_key_def)
  have scan: "scan_entries [(example_key, encodeStoredPosting example_posting)] = [(example_key, encodeStoredPosting example_posting)]"
    by (simp add: scan_entries_def map_keys_def map_filter_simps)
  show ?thesis
    by (rule that) (simp add: SelectOutbound_def selectOutboundPostings_def scan d(1-3) keepWord_def
        normalizeOutboundSelectionConfig_def example_config_def vault_update_def
        removeDurablySelectedPostings_def deleteOutboundSelection_def deleteOutboundPosting_def
        collection_get_def example_vault_def sameStoredPosting_def group_words_def word)
qed

lemma store_refines_map_witness:
  "content_run [OpSelect (TxnOk, TxnPartial (\<lambda>_. True) (\<lambda>_. False)) example_config,
     OpReceive TxnOk [example_posting], OpRecover (TxnOk, TxnOk)] (posting_content example_vault)
   (posting_content (fold store_op_run [OpSelect (TxnOk, TxnPartial (\<lambda>_. True) (\<lambda>_. False)) example_config,
     OpReceive TxnOk [example_posting], OpRecover (TxnOk, TxnOk)] example_vault))"
  using example_storable
  by (intro conjunct2 [OF store_refines_map [OF example_vault_inv]])
    (simp add: example_posting_def Hash_Valid_iff Alphabet_def)

lemma posting_not_lost_witness:
  "let ops = [OpSelect (TxnOk, TxnAborted True) example_config, OpReceive TxnOk [example_posting],
       OpRecover (TxnAborted False, TxnOk)]
   in live (fold store_op_run ops example_vault) example_key = Some (encodeStoredPosting example_posting) \<or>
     live (fold store_op_run ops example_vault) example_key = None \<and>
     waiting (fold store_op_run ops example_vault) example_key = Some (encodeStoredPosting example_posting)"
  unfolding Let_def
  by (rule posting_not_lost [OF example_vault_inv])
    (use example_storable in \<open>simp_all add: posting_content_def example_vault_def names_posting_def
      overwrites_posting_def example_posting_def Hash_Valid_iff Alphabet_def\<close>)

lemma recover_clears_journal_witness:
  "\<exists>w. RecoverOutbound (TxnOk, TxnOk) example_vault = (w, Inr (length (pv_outboundSelected example_vault))) \<and>
    pv_outboundSelected w = [] \<and> live w = posting_content example_vault \<and>
    (\<forall>outcomes. RecoverOutbound outcomes w = (w, Inr 0))"
  by (rule recover_clears_journal [OF example_vault_inv])

lemma select_within_limits_witness:
  "\<exists>w words. SelectOutbound (TxnOk, TxnOk) example_vault example_config = (w, Inr words) \<and>
     words \<noteq> [] \<and> int (length (flat_words words)) \<le> max 1 (os_MaxPostings example_config)"
  by (rule example_select) (use select_within_limits [OF example_vault_inv] in blast)

lemma select_then_restore_witness:
  "\<exists>w words u. SelectOutbound (TxnOk, TxnOk) example_vault example_config = (w, Inr words) \<and>
     words \<noteq> [] \<and> RestoreOutbound (TxnOk, TxnOk) w words = (u, Inr (length (flat_words words))) \<and>
     live u = live example_vault"
  by (rule example_select) (use select_then_restore [OF example_vault_inv] in blast)

end
