(* ===== verification/OutboundQueue.thy ===== *)
theory OutboundQueue
  imports DhtTargets StoreContent
begin

text \<open>
  \<^verbatim>\<open>yagonode/internal/dhtexchange\<close>: the queue of the postings that go out to other peers. It holds
  one chunk per peer, and a posting can be in the chunks of several peers; a chunk that is full
  takes no more, and the copies that do not fit are counted. Two lists remember work on the own
  store that failed and has to be tried again. The postings of a word are split into vertical
  partitions; Go visits them in any order, which is the parameter \<open>visit\<close>. The lemmas show which
  chunk is taken next, that no chunk outgrows its bound, and what becomes of the copies of a
  posting when it is accepted or rejected.
\<close>

section \<open>The queue\<close>

definition MaxChunkPostings :: nat where "MaxChunkPostings = 1000"
definition DefaultMinimumPeerAgeDay :: int where "DefaultMinimumPeerAgeDay = 3"

record EnqueueConfig =
  ec_Redundancy :: int
  ec_PartitionExponent :: int
  ec_MinimumPeerAgeDays :: int
  ec_Now :: go_time

record EnqueueReceipt =
  er_AcceptedPostings :: nat
  er_MissingURL :: nat
  er_BadPostings :: nat
  er_TargetCopies :: nat
  er_OverflowCopies :: nat
  er_TouchedChunks :: nat
  er_acceptedRows :: "RWIPosting list"
  er_missingRows :: "RWIPosting list"

definition empty_receipt :: EnqueueReceipt where
  "empty_receipt = \<lparr>er_AcceptedPostings = 0, er_MissingURL = 0, er_BadPostings = 0,
     er_TargetCopies = 0, er_OverflowCopies = 0, er_TouchedChunks = 0, er_acceptedRows = [],
     er_missingRows = []\<rparr>"

record 'a OutboundChunk =
  oc_Peer :: "'a Seed"
  oc_Postings :: "RWIPosting list"

record 'a OutboundQueue =
  oq_chunks :: "(Hash, 'a OutboundChunk) gomap"
  oq_pendingRestores :: "RWIPosting list"
  oq_pendingTransferConfirmations :: "RWIPosting list"

definition NewOutboundQueue :: "'a OutboundQueue" where
  "NewOutboundQueue =
     \<lparr>oq_chunks = [], oq_pendingRestores = [], oq_pendingTransferConfirmations = []\<rparr>"

datatype enqueue_error = MissingURLsFailed | PartitionFailed dht_error | PositionFailed dht_error

definition queue_add ::
  "'a Seed \<Rightarrow> RWIPosting list \<Rightarrow> 'a OutboundQueue \<Rightarrow> 'a OutboundQueue \<times> nat" where
  "queue_add peer postings q =
     (if postings = [] then (q, 0)
      else
        let chunk = get_or \<lparr>oc_Peer = peer, oc_Postings = []\<rparr> (oq_chunks q) (sd_Hash peer);
            added = min (MaxChunkPostings - length (oc_Postings chunk)) (length postings);
            chunk = chunk\<lparr>oc_Postings := oc_Postings chunk @ take added postings\<rparr>
        in (q\<lparr>oq_chunks := AList.update (sd_Hash peer) chunk (oq_chunks q)\<rparr>, added))"

definition Requeue :: "'a OutboundChunk \<Rightarrow> 'a OutboundQueue \<Rightarrow> 'a OutboundQueue \<times> nat" where
  "Requeue chunk q = queue_add (oc_Peer chunk) (oc_Postings chunk) q"

definition Clear :: "'a OutboundQueue \<Rightarrow> 'a OutboundQueue" where
  "Clear q = q\<lparr>oq_chunks := []\<rparr>"

definition queue_len :: "'a OutboundQueue \<Rightarrow> nat" where
  "queue_len q = length (oq_chunks q)"

definition PostingCount :: "'a OutboundQueue \<Rightarrow> nat" where
  "PostingCount q = sum_list (map (\<lambda>(_, chunk). length (oc_Postings chunk)) (oq_chunks q))"

text \<open>The loop over the chunks keeps the best peer so far.\<close>

definition better_chunk :: "Hash \<times> nat \<Rightarrow> (Hash \<times> nat) option \<Rightarrow> (Hash \<times> nat) option" where
  "better_chunk new best = (case best of
     None \<Rightarrow> Some new
   | Some (selected, selectedCount) \<Rightarrow>
       if snd new > selectedCount \<or> snd new = selectedCount \<and> fst new < selected
       then Some new else best)"

definition largest_chunk ::
  "(Hash \<Rightarrow> bool) \<Rightarrow> (Hash, 'a OutboundChunk) gomap \<Rightarrow> (Hash \<times> nat) option" where
  "largest_chunk ready chunks = fold (\<lambda>(hash, chunk) best.
     if ready hash then better_chunk (hash, length (oc_Postings chunk)) best else best) chunks None"

definition take_chunk ::
  "(Hash \<times> nat) option \<Rightarrow> 'a OutboundQueue \<Rightarrow> 'a OutboundQueue \<times> 'a OutboundChunk option" where
  "take_chunk selected q = (case selected of
     None \<Rightarrow> (q, None)
   | Some (hash, _) \<Rightarrow>
       (q\<lparr>oq_chunks := AList.delete hash (oq_chunks q)\<rparr>, map_of (oq_chunks q) hash))"

definition DequeueLargest :: "'a OutboundQueue \<Rightarrow> 'a OutboundQueue \<times> 'a OutboundChunk option" where
  "DequeueLargest q = take_chunk (largest_chunk (\<lambda>_. True) (oq_chunks q)) q"

definition DequeueLargestReady ::
  "(Hash \<Rightarrow> bool) option \<Rightarrow> 'a OutboundQueue \<Rightarrow> 'a OutboundQueue \<times> 'a OutboundChunk option" where
  "DequeueLargestReady ready q = (case ready of
     None \<Rightarrow> DequeueLargest q
   | Some ready \<Rightarrow> take_chunk (largest_chunk ready (oq_chunks q)) q)"

definition DequeuePeer ::
  "Hash \<Rightarrow> 'a OutboundQueue \<Rightarrow> 'a OutboundQueue \<times> 'a OutboundChunk option" where
  "DequeuePeer peer q = (case map_of (oq_chunks q) peer of
     None \<Rightarrow> (q, None)
   | Some chunk \<Rightarrow> (q\<lparr>oq_chunks := AList.delete peer (oq_chunks q)\<rparr>, Some chunk))"

section \<open>Work on the own store that is pending\<close>

definition retainPendingRestore :: "RWIPosting list \<Rightarrow> 'a OutboundQueue \<Rightarrow> 'a OutboundQueue" where
  "retainPendingRestore postings q = q\<lparr>oq_pendingRestores := postings\<rparr>"

definition completePendingRestore :: "'a OutboundQueue \<Rightarrow> 'a OutboundQueue" where
  "completePendingRestore q = q\<lparr>oq_pendingRestores := []\<rparr>"

definition retainPendingTransferConfirmation ::
  "RWIPosting list \<Rightarrow> 'a OutboundQueue \<Rightarrow> 'a OutboundQueue" where
  "retainPendingTransferConfirmation postings q = q\<lparr>oq_pendingTransferConfirmations := postings\<rparr>"

definition completePendingTransferConfirmation :: "'a OutboundQueue \<Rightarrow> 'a OutboundQueue" where
  "completePendingTransferConfirmation q = q\<lparr>oq_pendingTransferConfirmations := []\<rparr>"

definition localCompletionPending :: "'a OutboundQueue \<Rightarrow> bool" where
  "localCompletionPending q \<longleftrightarrow>
     oq_pendingRestores q \<noteq> [] \<or> oq_pendingTransferConfirmations q \<noteq> []"

section \<open>Copies of a posting\<close>

text \<open>A posting without a valid identity has the zero identity.\<close>

definition identifyOutboundPosting :: "RWIPosting \<Rightarrow> (Hash \<times> Hash) \<times> bool" where
  "identifyOutboundPosting posting = (case ParseHash (RWI_WordHash posting) of
     Inl _ \<Rightarrow> (([], []), False)
   | Inr word \<Rightarrow> (case RWIPosting_URLHash posting of
       Inl _ \<Rightarrow> (([], []), False) | Inr url \<Rightarrow> ((word, url), True)))"

definition valid_identities :: "RWIPosting list \<Rightarrow> (Hash \<times> Hash) list" where
  "valid_identities postings = List.map_filter
     (\<lambda>p. case identifyOutboundPosting p of (identity, valid) \<Rightarrow> if valid then Some identity else None)
     postings"

definition queued_postings :: "'a OutboundQueue \<Rightarrow> RWIPosting list" where
  "queued_postings q = concat (map (\<lambda>(_, chunk). oc_Postings chunk) (oq_chunks q))"

definition confirmablePostings :: "RWIPosting list \<Rightarrow> 'a OutboundQueue \<Rightarrow> RWIPosting list" where
  "confirmablePostings postings q =
     (let pending = valid_identities (queued_postings q)
      in filter (\<lambda>p. case identifyOutboundPosting p of
           (identity, valid) \<Rightarrow> valid \<and> identity \<notin> set pending) postings)"

definition cancelPostingCopies :: "RWIPosting list \<Rightarrow> 'a OutboundQueue \<Rightarrow> 'a OutboundQueue" where
  "cancelPostingCopies postings q =
     (let cancelled = map (\<lambda>p. fst (identifyOutboundPosting p)) postings
      in q\<lparr>oq_chunks := List.map_filter (\<lambda>(peer, chunk).
           let retained = filter (\<lambda>p. fst (identifyOutboundPosting p) \<notin> set cancelled) (oc_Postings chunk)
           in if retained = [] then None else Some (peer, chunk\<lparr>oc_Postings := retained\<rparr>))
         (oq_chunks q)\<rparr>)"

definition splitHandoffPostings ::
  "RWIPosting list \<Rightarrow> RWIPosting list \<Rightarrow> RWIPosting list \<times> RWIPosting list" where
  "splitHandoffPostings postings reportedRejected =
     (let rejections = valid_identities reportedRejected;
          is_rejected = (\<lambda>p. case identifyOutboundPosting p of
            (identity, valid) \<Rightarrow> valid \<and> identity \<in> set rejections)
      in (filter (\<lambda>p. \<not> is_rejected p) postings, filter is_rejected postings))"

section \<open>Filling the queue\<close>

definition postingCandidates :: "RWIPosting list \<Rightarrow> (RWIPosting \<times> Hash) list \<times> EnqueueReceipt" where
  "postingCandidates postings =
     (List.map_filter (\<lambda>p. case RWIPosting_URLHash p of Inl _ \<Rightarrow> None | Inr url \<Rightarrow> Some (p, url)) postings,
      empty_receipt\<lparr>er_BadPostings := length (filter (\<lambda>p. isl (RWIPosting_URLHash p)) postings)\<rparr>)"

text \<open>\<open>missingURLs\<close> is the question to the directory of addresses; None is its error.\<close>

definition acceptedPostings ::
  "(Hash list \<Rightarrow> Hash list option) \<Rightarrow> RWIPosting list \<Rightarrow>
     (enqueue_error, (RWIPosting \<times> Hash) list \<times> EnqueueReceipt) result" where
  "acceptedPostings missingURLs postings = (case postingCandidates postings of
     (candidates, receipt) \<Rightarrow>
       if candidates = [] then Inr ([], receipt)
       else case missingURLs (map snd candidates) of
         None \<Rightarrow> Inl MissingURLsFailed
       | Some missing \<Rightarrow>
           let absent = filter (\<lambda>c. snd c \<in> set missing) candidates;
               accepted = filter (\<lambda>c. snd c \<notin> set missing) candidates
           in Inr (accepted, receipt\<lparr>er_MissingURL := length absent, er_missingRows := map fst absent,
                er_AcceptedPostings := length accepted\<rparr>))"

text \<open>The partitions, in the order in which they first appear.\<close>

fun partitionPostings ::
  "(u64, RWIPosting list) gomap \<Rightarrow> (RWIPosting \<times> Hash) list \<Rightarrow> int \<Rightarrow>
     (enqueue_error, (u64, RWIPosting list) gomap) result" where
  "partitionPostings partitions [] exponent = Inr partitions"
| "partitionPostings partitions ((entry, url) # rest) exponent = (case VerticalPartition url exponent of
     Inl e \<Rightarrow> Inl (PartitionFailed e)
   | Inr vertical \<Rightarrow> partitionPostings
       (AList.update vertical (get_or [] partitions vertical @ [entry]) partitions) rest exponent)"

definition dhtTargets :: "EnqueueConfig \<Rightarrow> unit target_config" where
  "dhtTargets c =
     \<lparr>cf_Redundancy = ec_Redundancy c, cf_CandidateRedundancy = 0,
      cf_MinimumAgeDays = (if ec_MinimumPeerAgeDays c = 0 then DefaultMinimumPeerAgeDay
        else ec_MinimumPeerAgeDays c),
      cf_MinimumRWICount = 0, cf_Now = ec_Now c, cf_RandomTargetIndex = None\<rparr>"

definition SelectDHTTargetsAtPosition ::
  "'a seed_lib \<Rightarrow> go_time \<Rightarrow> u64 \<Rightarrow> 'a Seed list \<Rightarrow> 'e target_config \<Rightarrow>
     ('e target_error, 'a Target list) result" where
  "SelectDHTTargetsAtPosition lib clock startPosition peers config =
     SelectAtPosition lib clock startPosition peers config"

text \<open>The copies for one target, and the peers that got some.\<close>

definition add_target ::
  "RWIPosting list \<Rightarrow> 'a Target \<Rightarrow> 'a OutboundQueue \<times> EnqueueReceipt \<times> Hash list \<Rightarrow>
     'a OutboundQueue \<times> EnqueueReceipt \<times> Hash list" where
  "add_target postings target acc = (case acc of (q, receipt, touched) \<Rightarrow>
     (case queue_add (tg_Peer target) postings q of (q, added) \<Rightarrow>
        (q, receipt\<lparr>er_TargetCopies := er_TargetCopies receipt + added,
              er_OverflowCopies := er_OverflowCopies receipt + (length postings - added)\<rparr>,
         if added > 0 then List.insert (sd_Hash (tg_Peer target)) touched else touched)))"

fun enqueue_partitions ::
  "'a seed_lib \<Rightarrow> go_time \<Rightarrow> 'a Seed list \<Rightarrow> Hash \<Rightarrow> EnqueueConfig \<Rightarrow>
     (u64, RWIPosting list) gomap \<Rightarrow> u64 list \<Rightarrow> 'a OutboundQueue \<times> EnqueueReceipt \<times> Hash list \<Rightarrow>
     'a OutboundQueue \<times> (enqueue_error, EnqueueReceipt \<times> Hash list) result" where
  "enqueue_partitions lib clock peers word config partitions [] acc =
     (fst acc, Inr (snd acc))"
| "enqueue_partitions lib clock peers word config partitions (vertical # rest) acc =
     (case VerticalPosition word vertical (ec_PartitionExponent config) of
        Inl e \<Rightarrow> (fst acc, Inl (PositionFailed e))
      | Inr position \<Rightarrow>
          let targets = (case SelectDHTTargetsAtPosition lib clock position peers (dhtTargets config) of
                Inl _ \<Rightarrow> [] | Inr targets \<Rightarrow> targets)
          in enqueue_partitions lib clock peers word config partitions rest
               (fold (add_target (get_or [] partitions vertical)) targets acc))"

definition EnqueueWord ::
  "'a seed_lib \<Rightarrow> go_time \<Rightarrow> (u64 list \<Rightarrow> u64 list) \<Rightarrow> (Hash list \<Rightarrow> Hash list option) \<Rightarrow>
     'a Seed list \<Rightarrow> WordPostings \<Rightarrow> EnqueueConfig \<Rightarrow> 'a OutboundQueue \<Rightarrow>
     'a OutboundQueue \<times> (enqueue_error, EnqueueReceipt) result" where
  "EnqueueWord lib clock visit missingURLs peers word config q =
     (case acceptedPostings missingURLs (wp_Postings word) of
        Inl e \<Rightarrow> (q, Inl e)
      | Inr (accepted, receipt) \<Rightarrow>
          let receipt = receipt\<lparr>er_acceptedRows := map fst accepted\<rparr>
          in (case partitionPostings [] accepted (ec_PartitionExponent config) of
                Inl e \<Rightarrow> (q, Inl e)
              | Inr partitions \<Rightarrow>
                  (case enqueue_partitions lib clock peers (wp_WordHash word) config partitions
                          (visit (map_keys partitions)) (q, receipt, []) of
                     (q, Inl e) \<Rightarrow> (q, Inl e)
                   | (q, Inr (receipt, touched)) \<Rightarrow>
                       (q, Inr (receipt\<lparr>er_TouchedChunks := length touched\<rparr>)))))"


section \<open>The invariant of the queue\<close>

text \<open>Each chunk is stored under the hash of its peer, and is neither empty nor too long.\<close>

definition chunk_ok :: "Hash \<Rightarrow> 'a OutboundChunk \<Rightarrow> bool" where
  "chunk_ok peer chunk \<longleftrightarrow> sd_Hash (oc_Peer chunk) = peer \<and> oc_Postings chunk \<noteq> [] \<and>
     length (oc_Postings chunk) \<le> MaxChunkPostings"

definition queue_inv :: "'a OutboundQueue \<Rightarrow> bool" where
  "queue_inv q \<longleftrightarrow> wf_map (oq_chunks q) \<and> (\<forall>(peer, chunk)\<in>set (oq_chunks q). chunk_ok peer chunk)"

lemma queue_inv_New [simp]: "queue_inv NewOutboundQueue"
  by (simp add: queue_inv_def NewOutboundQueue_def)

lemma queue_inv_Clear [simp]: "queue_inv (Clear q)"
  by (simp add: queue_inv_def Clear_def)

lemma queue_inv_pending [simp]:
  "queue_inv (q\<lparr>oq_pendingRestores := r\<rparr>) = queue_inv q"
  "queue_inv (q\<lparr>oq_pendingTransferConfirmations := c\<rparr>) = queue_inv q"
  by (simp_all add: queue_inv_def)

lemma queue_invD:
  "queue_inv q \<Longrightarrow> map_of (oq_chunks q) peer = Some chunk \<Longrightarrow> chunk_ok peer chunk"
  by (auto simp: queue_inv_def dest: map_of_SomeD)

lemma queue_inv_map_of:
  assumes "wf_map m" "\<And>peer chunk. map_of m peer = Some chunk \<Longrightarrow> chunk_ok peer chunk"
  shows "queue_inv (q\<lparr>oq_chunks := m\<rparr>)"
  using assms by (auto simp: queue_inv_def wf_map_def)

lemma queue_add_chunks:
  assumes "queue_add peer postings q = (q', n)" "postings \<noteq> []"
  obtains chunk where
    "chunk = get_or \<lparr>oc_Peer = peer, oc_Postings = []\<rparr> (oq_chunks q) (sd_Hash peer)"
    "n = min (MaxChunkPostings - length (oc_Postings chunk)) (length postings)"
    "q' = q\<lparr>oq_chunks := AList.update (sd_Hash peer)
       (chunk\<lparr>oc_Postings := oc_Postings chunk @ take n postings\<rparr>) (oq_chunks q)\<rparr>"
  using assms by (auto simp: queue_add_def Let_def)

lemma queue_add_Nil [simp]: "queue_add peer [] q = (q, 0)"
  by (simp add: queue_add_def)

lemma queue_add_inv:
  assumes "queue_inv q" "queue_add peer postings q = (q', n)"
  shows "queue_inv q' \<and> n \<le> length postings"
proof (cases "postings = []")
  case False
  obtain chunk where c: "chunk = get_or \<lparr>oc_Peer = peer, oc_Postings = []\<rparr> (oq_chunks q) (sd_Hash peer)"
    "n = min (MaxChunkPostings - length (oc_Postings chunk)) (length postings)"
    "q' = q\<lparr>oq_chunks := AList.update (sd_Hash peer)
       (chunk\<lparr>oc_Postings := oc_Postings chunk @ take n postings\<rparr>) (oq_chunks q)\<rparr>"
    by (rule queue_add_chunks [OF assms(2) False])
  have "chunk_ok (sd_Hash peer) (chunk\<lparr>oc_Postings := oc_Postings chunk @ take n postings\<rparr>)"
  proof (cases "map_of (oq_chunks q) (sd_Hash peer)")
    case None
    then show ?thesis using c(1,2) False by (auto simp: chunk_ok_def get_or_def MaxChunkPostings_def)
  next
    case (Some old)
    then show ?thesis using queue_invD [OF assms(1) Some] c(1,2) by (auto simp: chunk_ok_def get_or_def)
  qed
  then have "queue_inv q'" unfolding c(3)
    by (intro queue_inv_map_of)
      (use assms(1) in \<open>auto simp: queue_inv_def update_conv' split: if_split_asm dest: map_of_SomeD\<close>)
  then show ?thesis using c(2) by simp
qed (use assms in simp)

lemma delete_chunk_inv: "queue_inv q \<Longrightarrow> queue_inv (q\<lparr>oq_chunks := AList.delete peer (oq_chunks q)\<rparr>)"
  by (rule queue_inv_map_of) (auto simp: queue_inv_def delete_conv' split: if_split_asm dest: map_of_SomeD)

section \<open>The postings in the queue\<close>

definition in_queue :: "'a OutboundQueue \<Rightarrow> Hash \<Rightarrow> RWIPosting set" where
  "in_queue q peer = (case map_of (oq_chunks q) peer of None \<Rightarrow> {} | Some chunk \<Rightarrow> set (oc_Postings chunk))"

lemma set_queued:
  assumes "queue_inv q"
  shows "set (queued_postings q) = (\<Union>peer. in_queue q peer)"
proof -
  have "p \<in> set (queued_postings q) \<longleftrightarrow> (\<exists>peer chunk. map_of (oq_chunks q) peer = Some chunk \<and> p \<in> set (oc_Postings chunk))"
    for p
    using assms by (auto simp: queued_postings_def queue_inv_def wf_map_def map_of_eq_Some_iff)
  then show ?thesis by (fastforce simp: in_queue_def split: option.splits)
qed

lemma in_queue_add:
  assumes "queue_add peer postings q = (q', n)"
  shows "in_queue q' h = (if h = sd_Hash peer then in_queue q h \<union> set (take n postings) else in_queue q h)"
proof (cases "postings = []")
  case True
  then show ?thesis using assms by simp
next
  case False
  then obtain chunk where "chunk = get_or \<lparr>oc_Peer = peer, oc_Postings = []\<rparr> (oq_chunks q) (sd_Hash peer)"
    "q' = q\<lparr>oq_chunks := AList.update (sd_Hash peer)
       (chunk\<lparr>oc_Postings := oc_Postings chunk @ take n postings\<rparr>) (oq_chunks q)\<rparr>"
    using queue_add_chunks [OF assms] by blast
  then show ?thesis by (auto simp: in_queue_def update_conv' get_or_def split: option.splits)
qed

lemma queue_add_pending:
  assumes "queue_add peer postings q = (q', n)"
  shows "oq_pendingRestores q' = oq_pendingRestores q \<and>
    oq_pendingTransferConfirmations q' = oq_pendingTransferConfirmations q"
  using assms by (cases "postings = []") (auto elim!: queue_add_chunks)

lemma Clear_simps [simp]: "queued_postings (Clear q) = []" "in_queue (Clear q) h = {}"
  "oq_pendingRestores (Clear q) = oq_pendingRestores q"
  "oq_pendingTransferConfirmations (Clear q) = oq_pendingTransferConfirmations q" "queue_len (Clear q) = 0"
  by (simp_all add: Clear_def queued_postings_def in_queue_def queue_len_def)

section \<open>The largest chunk\<close>

definition best_of :: "(Hash \<times> nat) set \<Rightarrow> (Hash \<times> nat) option \<Rightarrow> bool" where
  "best_of s best \<longleftrightarrow> (case best of None \<Rightarrow> s = {}
     | Some (h, n) \<Rightarrow> (h, n) \<in> s \<and> (\<forall>(h', n')\<in>s. n' < n \<or> n' = n \<and> h \<le> h'))"

lemma best_of_step: "best_of s best \<Longrightarrow> best_of (insert new s) (better_chunk new best)"
  by (cases best; cases new) (fastforce simp: best_of_def better_chunk_def)+

lemma largest_chunk_best:
  "best_of {(h, length (oc_Postings c)) | h c. (h, c) \<in> set chunks \<and> ready h} (largest_chunk ready chunks)"
proof -
  let ?f = "\<lambda>(hash, chunk) best.
     if ready hash then better_chunk (hash, length (oc_Postings chunk)) best else best"
  have "best_of s best \<Longrightarrow> best_of (s \<union> {(h, length (oc_Postings c)) | h c. (h, c) \<in> set chunks \<and> ready h})
      (fold ?f chunks best)" for s best
  proof (induction chunks arbitrary: s best)
    case (Cons e chunks)
    obtain h ch where e: "e = (h, ch)" by (cases e)
    let ?s = "if ready h then insert (h, length (oc_Postings ch)) s else s"
    have "best_of ?s (?f e best)" using Cons.prems e best_of_step by simp
    from Cons.IH [OF this] have "best_of (?s \<union> {(h, length (oc_Postings c)) | h c. (h, c) \<in> set chunks \<and> ready h})
        (fold ?f (e # chunks) best)" by simp
    moreover have "?s \<union> {(h, length (oc_Postings c)) | h c. (h, c) \<in> set chunks \<and> ready h} =
        s \<union> {(h', length (oc_Postings c')) | h' c'. (h', c') \<in> set (e # chunks) \<and> ready h'}"
      using e by auto
    ultimately show ?case by simp
  qed simp
  from this [of "{}" None] show ?thesis by (simp add: best_of_def largest_chunk_def)
qed


lemma take_chunk_largest:
  assumes "queue_inv q" "take_chunk (largest_chunk ready (oq_chunks q)) q = (q', taken)"
  shows "case taken of
      None \<Rightarrow> q' = q \<and> (\<forall>h. map_of (oq_chunks q) h \<noteq> None \<longrightarrow> \<not> ready h)
    | Some chunk \<Rightarrow> (let h = sd_Hash (oc_Peer chunk) in
        ready h \<and> map_of (oq_chunks q) h = Some chunk \<and>
        q' = q\<lparr>oq_chunks := AList.delete h (oq_chunks q)\<rparr> \<and>
        (\<forall>h' chunk'. map_of (oq_chunks q) h' = Some chunk' \<and> ready h' \<longrightarrow>
          length (oc_Postings chunk') < length (oc_Postings chunk) \<or>
          length (oc_Postings chunk') = length (oc_Postings chunk) \<and> h \<le> h'))"
proof -
  have w: "wf_map (oq_chunks q)" using assms(1) by (simp add: queue_inv_def)
  have m: "(h, c) \<in> set (oq_chunks q) \<longleftrightarrow> map_of (oq_chunks q) h = Some c" for h c
    using w by (simp add: wf_map_def map_of_eq_Some_iff)
  note b = largest_chunk_best [of "oq_chunks q" ready, unfolded m]
  show ?thesis
  proof (cases "largest_chunk ready (oq_chunks q)")
    case None
    then show ?thesis using b assms(2) by (auto simp: best_of_def take_chunk_def)
  next
    case (Some hn)
    obtain h n where hn: "hn = (h, n)" by (cases hn)
    obtain chunk where c: "map_of (oq_chunks q) h = Some chunk" "n = length (oc_Postings chunk)" "ready h"
      and best: "\<forall>h' c'. map_of (oq_chunks q) h' = Some c' \<and> ready h' \<longrightarrow>
        length (oc_Postings c') < n \<or> length (oc_Postings c') = n \<and> h \<le> h'"
      using b Some hn by (auto simp: best_of_def)
    have h: "sd_Hash (oc_Peer chunk) = h" using queue_invD [OF assms(1) c(1)] by (simp add: chunk_ok_def)
    have t: "taken = Some chunk" "q' = q\<lparr>oq_chunks := AList.delete h (oq_chunks q)\<rparr>"
      using assms(2) Some hn c(1) by (simp_all add: take_chunk_def)
    show ?thesis unfolding t option.case Let_def h using c best by simp
  qed
qed

lemma DequeueLargestReady_cases:
  assumes "queue_inv q" "DequeueLargestReady (Some ready) q = (q', taken)"
  obtains "taken = None" "q' = q" "\<forall>h. map_of (oq_chunks q) h \<noteq> None \<longrightarrow> \<not> ready h"
  | chunk where "taken = Some chunk" "ready (sd_Hash (oc_Peer chunk))"
      "map_of (oq_chunks q) (sd_Hash (oc_Peer chunk)) = Some chunk"
      "q' = q\<lparr>oq_chunks := AList.delete (sd_Hash (oc_Peer chunk)) (oq_chunks q)\<rparr>"
proof -
  have t: "take_chunk (largest_chunk ready (oq_chunks q)) q = (q', taken)"
    using assms(2) by (simp add: DequeueLargestReady_def)
  show thesis
  proof (cases taken)
    case None
    then show thesis using that(1) take_chunk_largest [OF assms(1) t] by simp
  next
    case (Some chunk)
    then show thesis using that(2) take_chunk_largest [OF assms(1) t] by (simp add: Let_def)
  qed
qed

section \<open>Cancelled, accepted and confirmable postings\<close>

lemma map_of_map_filter_values:
  assumes "wf_map m"
  shows "map_of (List.map_filter (\<lambda>(k, v). map_option (Pair k) (f v)) m) k =
    Option.bind (map_of m k) f"
  using assms
proof (induction m)
  case (Cons e m)
  obtain k' v where e: "e = (k', v)" by (cases e)
  have "map_of m k' = None" using Cons.prems e by (simp add: wf_map_def map_of_eq_None_iff)
  then show ?case using Cons e by (auto simp: map_filter_simps wf_map_def split: option.splits)
qed (simp add: map_filter_simps)

lemma wf_map_filter_values:
  "wf_map m \<Longrightarrow> wf_map (List.map_filter (\<lambda>(k, v). map_option (Pair k) (f v)) m)"
proof (induction m)
  case (Cons e m)
  have "fst ` set (List.map_filter (\<lambda>(k, v). map_option (Pair k) (f v)) m) \<subseteq> fst ` set m"
    by (force simp: map_filter_def split: option.splits)
  then show ?case using Cons by (cases e) (auto simp: map_filter_simps wf_map_def split: option.splits)
qed (simp add: map_filter_simps)

lemma cancel_chunks:
  "oq_chunks (cancelPostingCopies ps q) = List.map_filter (\<lambda>(k, v). map_option (Pair k)
     (let retained = filter (\<lambda>p. fst (identifyOutboundPosting p) \<notin> (\<lambda>p. fst (identifyOutboundPosting p)) ` set ps)
            (oc_Postings v)
      in if retained = [] then None else Some (v\<lparr>oc_Postings := retained\<rparr>))) (oq_chunks q)"
  unfolding cancelPostingCopies_def Let_def
  by (simp add: if_distrib [of "map_option f" for f] cong: if_cong)

lemma cancel_pending [simp]:
  "oq_pendingRestores (cancelPostingCopies ps q) = oq_pendingRestores q"
  "oq_pendingTransferConfirmations (cancelPostingCopies ps q) = oq_pendingTransferConfirmations q"
  by (simp_all add: cancelPostingCopies_def Let_def)

lemma cancel_inv:
  assumes "queue_inv q"
  shows "queue_inv (cancelPostingCopies ps q)"
proof -
  have w: "wf_map (oq_chunks q)" using assms by (simp add: queue_inv_def)
  have "queue_inv (q\<lparr>oq_chunks := oq_chunks (cancelPostingCopies ps q)\<rparr>)"
  proof (rule queue_inv_map_of)
    show "wf_map (oq_chunks (cancelPostingCopies ps q))" unfolding cancel_chunks by (rule wf_map_filter_values [OF w])
    fix peer chunk assume "map_of (oq_chunks (cancelPostingCopies ps q)) peer = Some chunk"
    then obtain old where "map_of (oq_chunks q) peer = Some old"
      "chunk = old\<lparr>oc_Postings := filter (\<lambda>p. fst (identifyOutboundPosting p) \<notin>
          (\<lambda>p. fst (identifyOutboundPosting p)) ` set ps) (oc_Postings old)\<rparr>" "oc_Postings chunk \<noteq> []"
      unfolding cancel_chunks map_of_map_filter_values [OF w]
      by (auto simp: Let_def bind_eq_Some_conv split: if_split_asm)
    then show "chunk_ok peer chunk" using queue_invD [OF assms, of peer old]
      by (auto simp: chunk_ok_def intro: order.trans [OF length_filter_le])
  qed
  then show ?thesis by (simp add: queue_inv_def)
qed

lemma in_queue_cancel:
  assumes "queue_inv q"
  shows "in_queue (cancelPostingCopies ps q) h = {p \<in> in_queue q h.
    fst (identifyOutboundPosting p) \<notin> (\<lambda>p. fst (identifyOutboundPosting p)) ` set ps}"
proof -
  have w: "wf_map (oq_chunks q)" using assms by (simp add: queue_inv_def)
  show ?thesis
    by (cases "map_of (oq_chunks q) h")
      (auto simp: in_queue_def cancel_chunks map_of_map_filter_values [OF w] Let_def filter_empty_conv
        split: if_split_asm option.splits)
qed

lemma in_valid_identities:
  "i \<in> set (valid_identities ps) \<longleftrightarrow> (\<exists>p\<in>set ps. identifyOutboundPosting p = (i, True))"
  by (force simp: valid_identities_def map_filter_def split: prod.splits if_split_asm)

lemma identify_valid: "snd (identifyOutboundPosting p) \<longleftrightarrow> \<not> isl (ParseHash (RWI_WordHash p)) \<and>
    \<not> isl (RWIPosting_URLHash p)"
  by (auto simp: identifyOutboundPosting_def split: sum.splits)

lemma set_confirmable:
  "p \<in> set (confirmablePostings ps q) \<longleftrightarrow> p \<in> set ps \<and> snd (identifyOutboundPosting p) \<and>
     (\<forall>p'\<in>set (queued_postings q). identifyOutboundPosting p' \<noteq> identifyOutboundPosting p)"
  unfolding confirmablePostings_def Let_def set_filter mem_Collect_eq
  by (cases "identifyOutboundPosting p") (auto simp: in_valid_identities)

lemma split_handoff:
  assumes "splitHandoffPostings ps reported = (accepted, rejected)"
  shows "mset accepted + mset rejected = mset ps \<and>
    (\<forall>p\<in>set rejected. snd (identifyOutboundPosting p) \<and>
       (\<exists>r\<in>set reported. identifyOutboundPosting r = identifyOutboundPosting p)) \<and>
    (\<forall>p\<in>set accepted. snd (identifyOutboundPosting p) \<longrightarrow>
       (\<forall>r\<in>set reported. identifyOutboundPosting r \<noteq> identifyOutboundPosting p))"
proof -
  let ?r = "\<lambda>p. case identifyOutboundPosting p of
      (identity, valid) \<Rightarrow> valid \<and> identity \<in> set (valid_identities reported)"
  have a: "accepted = filter (\<lambda>p. \<not> ?r p) ps" "rejected = filter ?r ps"
    using assms by (simp_all add: splitHandoffPostings_def Let_def)
  have r: "?r p \<longleftrightarrow> snd (identifyOutboundPosting p) \<and>
      (\<exists>r\<in>set reported. identifyOutboundPosting r = identifyOutboundPosting p)" for p
    by (cases "identifyOutboundPosting p") (auto simp: in_valid_identities)
  have "mset accepted + mset rejected = mset ps"
    unfolding a mset_filter by (simp add: multiset_partition [symmetric] add.commute)
  then show ?thesis unfolding a by (auto simp: r)
qed


section \<open>What a word adds\<close>

definition range_order :: "('k list \<Rightarrow> 'k list) \<Rightarrow> bool" where
  "range_order visit \<longleftrightarrow> (\<forall>ks. mset (visit ks) = mset ks)"

lemma range_order_set: "range_order visit \<Longrightarrow> set (visit ks) = set ks"
  unfolding range_order_def by (metis set_mset_mset)

definition same_rows :: "EnqueueReceipt \<Rightarrow> EnqueueReceipt \<Rightarrow> bool" where
  "same_rows r r' \<longleftrightarrow> er_AcceptedPostings r' = er_AcceptedPostings r \<and> er_MissingURL r' = er_MissingURL r \<and>
     er_BadPostings r' = er_BadPostings r \<and> er_acceptedRows r' = er_acceptedRows r \<and>
     er_missingRows r' = er_missingRows r"

text \<open>The queue has grown by some of the postings, each in full unless copies overflowed.\<close>

definition grown ::
  "RWIPosting set \<Rightarrow> 'a OutboundQueue \<times> EnqueueReceipt \<Rightarrow> 'a OutboundQueue \<times> EnqueueReceipt \<Rightarrow> bool" where
  "grown new a b \<longleftrightarrow> queue_inv (fst b) \<and>
     oq_pendingRestores (fst b) = oq_pendingRestores (fst a) \<and>
     oq_pendingTransferConfirmations (fst b) = oq_pendingTransferConfirmations (fst a) \<and>
     (\<forall>h. in_queue (fst a) h \<subseteq> in_queue (fst b) h \<and> in_queue (fst b) h \<subseteq> in_queue (fst a) h \<union> new) \<and>
     same_rows (snd a) (snd b) \<and> er_OverflowCopies (snd a) \<le> er_OverflowCopies (snd b) \<and>
     er_TargetCopies (snd a) \<le> er_TargetCopies (snd b)"

lemma grown_refl: "queue_inv (fst a) \<Longrightarrow> grown new a a"
  by (simp add: grown_def same_rows_def)

lemma grown_trans:
  assumes "grown new a b" "grown new' b c"
  shows "grown (new \<union> new') a c"
proof -
  have "in_queue (fst c) h \<subseteq> in_queue (fst a) h \<union> (new \<union> new')" for h
    using assms unfolding grown_def by blast
  moreover have "in_queue (fst a) h \<subseteq> in_queue (fst c) h" for h
    using assms unfolding grown_def by blast
  ultimately show ?thesis using assms by (simp add: grown_def same_rows_def)
qed

lemma grown_mono: "grown new a b \<Longrightarrow> new \<subseteq> new' \<Longrightarrow> grown new' a b"
  unfolding grown_def by blast

lemma add_target_grown:
  assumes "queue_inv q" "add_target ps target (q, r, t) = (q', r', t')"
  shows "grown (set ps) (q, r) (q', r') \<and>
    (er_OverflowCopies r' = er_OverflowCopies r \<longrightarrow> set ps \<subseteq> in_queue q' (sd_Hash (tg_Peer target)))"
proof -
  obtain n where a: "queue_add (tg_Peer target) ps q = (q', n)"
    "r' = r\<lparr>er_TargetCopies := er_TargetCopies r + n,
       er_OverflowCopies := er_OverflowCopies r + (length ps - n)\<rparr>"
    using assms(2) by (auto simp: add_target_def split: prod.splits)
  note i = queue_add_inv [OF assms(1) a(1)] and p = queue_add_pending [OF a(1)]
  note m = in_queue_add [OF a(1)]
  have full: "set ps \<subseteq> in_queue q' (sd_Hash (tg_Peer target))"
    if "er_OverflowCopies r' = er_OverflowCopies r"
  proof -
    have "length ps - n = 0" using that unfolding a(2) by simp
    then have "n = length ps" using i by simp
    then show ?thesis unfolding m by simp
  qed
  have "in_queue q h \<subseteq> in_queue q' h" "in_queue q' h \<subseteq> in_queue q h \<union> set ps" for h
    unfolding m using set_take_subset [of n ps] by auto
  then have "grown (set ps) (q, r) (q', r')" using i p a(2) by (auto simp: grown_def same_rows_def)
  then show ?thesis using full by blast
qed

lemma add_targets_grown:
  assumes "queue_inv q" "fold (add_target ps) targets (q, r, t) = (q', r', t')"
  shows "grown (set ps) (q, r) (q', r') \<and>
    (er_OverflowCopies r' = er_OverflowCopies r \<longrightarrow>
      (\<forall>target\<in>set targets. set ps \<subseteq> in_queue q' (sd_Hash (tg_Peer target)))) \<and>
    (targets = [] \<longrightarrow> er_TargetCopies r' = er_TargetCopies r)"
  using assms
proof (induction targets arbitrary: q r t)
  case Nil
  then show ?case by (simp add: grown_refl)
next
  case (Cons target targets)
  obtain q1 r1 t1 where s: "add_target ps target (q, r, t) = (q1, r1, t1)"
    by (cases "add_target ps target (q, r, t)")
  note g = add_target_grown [OF Cons.prems(1) s]
  have i: "queue_inv q1" using g by (simp add: grown_def)
  have "fold (add_target ps) targets (q1, r1, t1) = (q', r', t')" using Cons.prems(2) s by simp
  note ih = Cons.IH [OF i this]
  have "set ps \<subseteq> in_queue q' (sd_Hash (tg_Peer u))"
    if "er_OverflowCopies r' = er_OverflowCopies r" "u \<in> set (target # targets)" for u
  proof -
    have "er_OverflowCopies r1 = er_OverflowCopies r" "er_OverflowCopies r' = er_OverflowCopies r1"
      using g ih that(1) unfolding grown_def by simp_all
    then have "set ps \<subseteq> in_queue q1 (sd_Hash (tg_Peer target))"
      "\<forall>u\<in>set targets. set ps \<subseteq> in_queue q' (sd_Hash (tg_Peer u))" using g ih by blast+
    moreover have "in_queue q1 (sd_Hash (tg_Peer target)) \<subseteq> in_queue q' (sd_Hash (tg_Peer target))"
      using ih by (simp add: grown_def)
    ultimately show ?thesis using that(2) by auto
  qed
  then show ?case using grown_trans [OF conjunct1 [OF g] conjunct1 [OF ih]] by simp
qed

text \<open>The targets of a partition.\<close>

definition partition_targets ::
  "'a seed_lib \<Rightarrow> go_time \<Rightarrow> 'a Seed list \<Rightarrow> Hash \<Rightarrow> EnqueueConfig \<Rightarrow> u64 \<Rightarrow> 'a Target list" where
  "partition_targets lib clock peers word config vertical =
     (case VerticalPosition word vertical (ec_PartitionExponent config) of
        Inl e \<Rightarrow> []
      | Inr position \<Rightarrow>
          (case SelectDHTTargetsAtPosition lib clock position peers (dhtTargets config) of
             Inl e \<Rightarrow> [] | Inr targets \<Rightarrow> targets))"

lemma enqueue_partitions_grown:
  assumes "queue_inv q"
    and "enqueue_partitions lib clock peers word config partitions verticals (q, r, t) = (q', res)"
  shows "queue_inv q' \<and> oq_pendingRestores q' = oq_pendingRestores q \<and>
    oq_pendingTransferConfirmations q' = oq_pendingTransferConfirmations q \<and>
    (\<forall>r' t'. res = Inr (r', t') \<longrightarrow>
      grown (\<Union>v\<in>set verticals. set (get_or [] partitions v)) (q, r) (q', r') \<and>
      (er_OverflowCopies r' = er_OverflowCopies r \<longrightarrow> (\<forall>v\<in>set verticals.
        \<forall>target\<in>set (partition_targets lib clock peers word config v).
          set (get_or [] partitions v) \<subseteq> in_queue q' (sd_Hash (tg_Peer target)))) \<and>
      (er_TargetCopies r' > er_TargetCopies r \<longrightarrow>
        (\<exists>v\<in>set verticals. partition_targets lib clock peers word config v \<noteq> [])))"
  using assms
proof (induction verticals arbitrary: q r t)
  case Nil
  then show ?case by (auto simp: grown_refl)
next
  case (Cons v verticals)
  show ?case
  proof (cases "VerticalPosition word v (ec_PartitionExponent config)")
    case (Inl e)
    then show ?thesis using Cons.prems by auto
  next
    case (Inr position)
    let ?ts = "partition_targets lib clock peers word config v"
    obtain q1 r1 t1 where s: "fold (add_target (get_or [] partitions v)) ?ts (q, r, t) = (q1, r1, t1)"
      by (cases "fold (add_target (get_or [] partitions v)) ?ts (q, r, t)")
    note g = add_targets_grown [OF Cons.prems(1) s]
    have i: "queue_inv q1" using g by (simp add: grown_def)
    have "enqueue_partitions lib clock peers word config partitions verticals (q1, r1, t1) = (q', res)"
      using Cons.prems(2) s Inr by (simp add: Let_def partition_targets_def)
    note ih = Cons.IH [OF i this]
    have pend: "oq_pendingRestores q1 = oq_pendingRestores q"
      "oq_pendingTransferConfirmations q1 = oq_pendingTransferConfirmations q"
      using g by (simp_all add: grown_def)
    have more: "grown (\<Union>v\<in>set (v # verticals). set (get_or [] partitions v)) (q, r) (q', r') \<and>
      (er_OverflowCopies r' = er_OverflowCopies r \<longrightarrow> (\<forall>v\<in>set (v # verticals).
        \<forall>target\<in>set (partition_targets lib clock peers word config v).
          set (get_or [] partitions v) \<subseteq> in_queue q' (sd_Hash (tg_Peer target)))) \<and>
      (er_TargetCopies r' > er_TargetCopies r \<longrightarrow>
        (\<exists>v\<in>set (v # verticals). partition_targets lib clock peers word config v \<noteq> []))"
      if "res = Inr (r', t')" for r' t'
    proof -
      have h: "grown (\<Union>v\<in>set verticals. set (get_or [] partitions v)) (q1, r1) (q', r')"
        "er_OverflowCopies r' = er_OverflowCopies r1 \<longrightarrow> (\<forall>v\<in>set verticals.
          \<forall>target\<in>set (partition_targets lib clock peers word config v).
          set (get_or [] partitions v) \<subseteq> in_queue q' (sd_Hash (tg_Peer target)))"
        "er_TargetCopies r' > er_TargetCopies r1 \<longrightarrow>
          (\<exists>v\<in>set verticals. partition_targets lib clock peers word config v \<noteq> [])"
        using ih that by blast+
      have full: "set (get_or [] partitions u) \<subseteq> in_queue q' (sd_Hash (tg_Peer target))"
        if o: "er_OverflowCopies r' = er_OverflowCopies r" and u: "u \<in> set (v # verticals)"
          and target: "target \<in> set (partition_targets lib clock peers word config u)" for u target
      proof -
        have e: "er_OverflowCopies r1 = er_OverflowCopies r" "er_OverflowCopies r' = er_OverflowCopies r1"
          using g h(1) o unfolding grown_def by simp_all
        show ?thesis
        proof (cases "u \<in> set verticals")
          case True
          then show ?thesis using h(2) e(2) target by blast
        next
          case False
          then have "u = v" using u by simp
          then have "set (get_or [] partitions u) \<subseteq> in_queue q1 (sd_Hash (tg_Peer target))"
            using g e(1) target by blast
          also have "\<dots> \<subseteq> in_queue q' (sd_Hash (tg_Peer target))" using h(1) by (simp add: grown_def)
          finally show ?thesis .
        qed
      qed
      have some: "\<exists>v\<in>set (v # verticals). partition_targets lib clock peers word config v \<noteq> []"
        if "er_TargetCopies r' > er_TargetCopies r"
      proof (cases "?ts = []")
        case True
        then have "er_TargetCopies r1 = er_TargetCopies r" using g by blast
        then show ?thesis using h(3) that by auto
      qed auto
      have "(\<Union>v\<in>set (v # verticals). set (get_or [] partitions v)) =
          set (get_or [] partitions v) \<union> (\<Union>v\<in>set verticals. set (get_or [] partitions v))" by simp
      then have "grown (\<Union>v\<in>set (v # verticals). set (get_or [] partitions v)) (q, r) (q', r')"
        using grown_trans [OF conjunct1 [OF g] h(1)] by (simp only:)
      with full some show ?thesis by blast
    qed
    show ?thesis using ih pend more by auto
  qed
qed


lemma partition_postings:
  assumes "partitionPostings parts accepted e = Inr parts'" "wf_map parts"
  shows "wf_map parts' \<and>
    (\<forall>v. set (get_or [] parts' v) = set (get_or [] parts v) \<union>
       {p. \<exists>url. (p, url) \<in> set accepted \<and> VerticalPartition url e = Inr v}) \<and>
    (\<forall>v. v \<in> set (map_keys parts') \<longleftrightarrow> v \<in> set (map_keys parts) \<or>
       (\<exists>p url. (p, url) \<in> set accepted \<and> VerticalPartition url e = Inr v)) \<and>
    (\<forall>(p, url)\<in>set accepted. \<exists>v. VerticalPartition url e = Inr v)"
  using assms
proof (induction parts accepted e rule: partitionPostings.induct)
  case (2 parts entry url rest e)
  obtain v where v: "VerticalPartition url e = Inr v"
    "partitionPostings (AList.update v (get_or [] parts v @ [entry]) parts) rest e = Inr parts'"
    using "2.prems"(1) by (auto split: sum.splits)
  have keys: "u \<in> set (map_keys (AList.update v x parts)) \<longleftrightarrow> u = v \<or> u \<in> set (map_keys parts)" for u x
    by (auto simp: set_map_keys update_conv')
  note ih = "2.IH" [OF v wf_map_update [OF "2.prems"(2)]]
  have "set (get_or [] (AList.update v (get_or [] parts v @ [entry]) parts) u) =
      set (get_or [] parts u) \<union> (if u = v then {entry} else {})" for u
    by (auto simp: get_or_def update_conv')
  then show ?case using ih v(1) by (auto simp: keys)
qed simp

lemma accepted_postings:
  assumes "acceptedPostings missingURLs postings = Inr (accepted, r)"
  shows "mset (map fst accepted) + mset (er_missingRows r) +
      mset (filter (\<lambda>p. isl (RWIPosting_URLHash p)) postings) = mset postings \<and>
    er_AcceptedPostings r = length accepted \<and> er_MissingURL r = length (er_missingRows r) \<and>
    er_BadPostings r = length (filter (\<lambda>p. isl (RWIPosting_URLHash p)) postings) \<and>
    er_TargetCopies r = 0 \<and> er_OverflowCopies r = 0 \<and>
    (\<forall>(p, url)\<in>set accepted. RWIPosting_URLHash p = Inr url) \<and>
    (\<forall>p\<in>set (er_missingRows r). \<exists>url urls missing. RWIPosting_URLHash p = Inr url \<and>
       missingURLs urls = Some missing \<and> url \<in> set missing)"
proof -
  obtain cs where cs: "cs = List.map_filter
      (\<lambda>p. case RWIPosting_URLHash p of Inl _ \<Rightarrow> None | Inr url \<Rightarrow> Some (p, url)) postings" by simp
  obtain bad where bad: "bad = filter (\<lambda>p. isl (RWIPosting_URLHash p)) postings" by simp
  have c: "mset (map fst cs) + mset bad = mset postings"
    unfolding cs bad by (induction postings) (auto simp: map_filter_simps split: sum.splits)
  have u: "(p, url) \<in> set cs \<Longrightarrow> RWIPosting_URLHash p = Inr url" for p url
    unfolding cs by (auto simp: map_filter_def split: sum.splits)
  have d: "postingCandidates postings = (cs, empty_receipt\<lparr>er_BadPostings := length bad\<rparr>)"
    by (simp add: postingCandidates_def cs bad)
  show ?thesis
  proof (cases "cs = []")
    case True
    then have a: "accepted = []" "r = empty_receipt\<lparr>er_BadPostings := length bad\<rparr>"
      using assms by (simp_all add: acceptedPostings_def d)
    show ?thesis using c True unfolding a bad [symmetric] by (simp add: empty_receipt_def)
  next
    case False
    obtain missing where m: "missingURLs (map snd cs) = Some missing"
      using assms False by (auto simp: acceptedPostings_def d split: option.splits)
    let ?in = "filter (\<lambda>c. snd c \<in> set missing) cs"
    have a: "accepted = filter (\<lambda>c. snd c \<notin> set missing) cs"
      "r = empty_receipt\<lparr>er_BadPostings := length bad, er_MissingURL := length ?in,
         er_missingRows := map fst ?in, er_AcceptedPostings := length accepted\<rparr>"
      using assms False m by (auto simp: acceptedPostings_def d Let_def)
    have "mset cs = mset accepted + mset ?in"
      unfolding a mset_filter using multiset_partition [of "mset cs" "\<lambda>c. snd c \<notin> set missing"] by simp
    then have "image_mset fst (mset cs) = image_mset fst (mset accepted) + image_mset fst (mset ?in)"
      by (simp only: image_mset_union)
    then have parts: "mset (map fst accepted) + mset (er_missingRows r) + mset bad = mset postings"
      using c a(2) by simp
    have missing: "\<exists>url urls missing. RWIPosting_URLHash p = Inr url \<and>
       missingURLs urls = Some missing \<and> url \<in> set missing" if "p \<in> set (er_missingRows r)" for p
    proof -
      have "er_missingRows r = map fst ?in" unfolding a(2) by simp
      then have "p \<in> set (map fst ?in)" using that by (simp only:)
      then obtain url where "(p, url) \<in> set cs" "url \<in> set missing" by auto
      then show ?thesis using m u by blast
    qed
    have pair: "RWIPosting_URLHash p = Inr url" if "(p, url) \<in> set accepted" for p url
      using that u by (simp add: a(1))
    show ?thesis using parts missing pair a(2) unfolding bad [symmetric] by (auto simp: empty_receipt_def)
  qed
qed

lemma EnqueueWord_frame:
  assumes "queue_inv q" "EnqueueWord lib clock visit missingURLs peers word config q = (q', res)"
  shows "queue_inv q' \<and> oq_pendingRestores q' = oq_pendingRestores q \<and>
    oq_pendingTransferConfirmations q' = oq_pendingTransferConfirmations q"
proof (cases "acceptedPostings missingURLs (wp_Postings word)")
  case (Inr ar)
  obtain accepted r where ar: "ar = (accepted, r)" by (cases ar)
  show ?thesis
  proof (cases "partitionPostings [] accepted (ec_PartitionExponent config)")
    case (Inr parts)
    let ?e = "enqueue_partitions lib clock peers (wp_WordHash word) config parts (visit (map_keys parts))
      (q, r\<lparr>er_acceptedRows := map fst accepted\<rparr>, [])"
    obtain q1 x where e: "?e = (q1, x)" by (cases ?e)
    have "q' = q1" using assms(2) \<open>acceptedPostings _ _ = _\<close> ar Inr e
      by (auto simp: EnqueueWord_def Let_def split: sum.splits)
    then show ?thesis using enqueue_partitions_grown [OF assms(1) e] by blast
  qed (use assms Inr ar in \<open>simp add: EnqueueWord_def Let_def\<close>)
qed (use assms in \<open>simp add: EnqueueWord_def\<close>)

text \<open>The addresses that a word asks the directory for, and the rows with an address of a set.\<close>

definition asked_urls :: "RWIPosting list \<Rightarrow> Hash list" where
  "asked_urls postings = List.map_filter
     (\<lambda>p. case RWIPosting_URLHash p of Inl _ \<Rightarrow> None | Inr url \<Rightarrow> Some url) postings"

definition has_url_in :: "Hash set \<Rightarrow> RWIPosting \<Rightarrow> bool" where
  "has_url_in urls p \<longleftrightarrow> (case RWIPosting_URLHash p of Inl _ \<Rightarrow> False | Inr url \<Rightarrow> url \<in> urls)"

definition split_by_directory ::
  "(Hash list \<Rightarrow> Hash list option) \<Rightarrow> RWIPosting list \<Rightarrow> RWIPosting list \<Rightarrow> RWIPosting list \<Rightarrow> bool" where
  "split_by_directory missingURLs postings accepted absent \<longleftrightarrow> (\<exists>missing.
     (if asked_urls postings = [] then missing = [] else missingURLs (asked_urls postings) = Some missing) \<and>
     accepted = filter (has_url_in (- set missing)) postings \<and>
     absent = filter (has_url_in (set missing)) postings)"

lemma candidates_filter:
  "map fst (filter (\<lambda>c. snd c \<in> U) (fst (postingCandidates postings))) = filter (has_url_in U) postings"
  "map snd (fst (postingCandidates postings)) = asked_urls postings"
  by (induction postings)
    (auto simp: postingCandidates_def map_filter_simps has_url_in_def asked_urls_def split: sum.split)

lemma accepted_postings_split:
  assumes "acceptedPostings missingURLs postings = Inr (accepted, r)"
  shows "split_by_directory missingURLs postings (map fst accepted) (er_missingRows r)"
proof -
  obtain cs r0 where c: "postingCandidates postings = (cs, r0)" by (cases "postingCandidates postings")
  have r0: "er_missingRows r0 = []" using c by (auto simp: postingCandidates_def empty_receipt_def)
  have f: "map fst (filter (\<lambda>c. snd c \<in> U) cs) = filter (has_url_in U) postings"
    "map snd cs = asked_urls postings" for U
    using candidates_filter(1) [of U postings] candidates_filter(2) [of postings] c by simp_all
  have u: "asked_urls postings = [] \<longleftrightarrow> cs = []" using f(2) by (metis map_is_Nil_conv)
  show ?thesis
  proof (cases "cs = []")
    case True
    have "filter (has_url_in U) postings = []" for U using f(1) [of U] True by simp
    then show ?thesis using assms c True u r0 by (auto simp: acceptedPostings_def split_by_directory_def)
  next
    case False
    obtain missing where "missingURLs (asked_urls postings) = Some missing"
      "accepted = filter (\<lambda>c. snd c \<in> - set missing) cs"
      "er_missingRows r = map fst (filter (\<lambda>c. snd c \<in> set missing) cs)"
      using assms False by (auto simp: acceptedPostings_def c f(2) Let_def split: option.splits)
    then show ?thesis using False u unfolding split_by_directory_def by (auto simp only: f(1) if_False)
  qed
qed

lemma EnqueueWord_parts:
  assumes "EnqueueWord lib clock visit missingURLs peers word config q = (q', Inr r)"
  obtains accepted r0 parts r1 touched where
    "acceptedPostings missingURLs (wp_Postings word) = Inr (accepted, r0)"
    "partitionPostings [] accepted (ec_PartitionExponent config) = Inr parts"
    "enqueue_partitions lib clock peers (wp_WordHash word) config parts (visit (map_keys parts))
      (q, r0\<lparr>er_acceptedRows := map fst accepted\<rparr>, []) = (q', Inr (r1, touched))"
    "r = r1\<lparr>er_TouchedChunks := length touched\<rparr>"
  using assms that by (auto simp: EnqueueWord_def Let_def split: sum.splits prod.splits)


section \<open>Properties\<close>

text \<open>C32: The next chunk is the largest one whose peer is ready, and among chunks of the same size the
  one with the least hash; it leaves the queue. There is none only when no peer of the queue is
  ready, and then the queue stays as it is.\<close>

theorem largest_ready_taken:
  assumes "queue_inv q" "DequeueLargestReady (Some ready) q = (q', taken)"
  shows "case taken of
      None \<Rightarrow> q' = q \<and> (\<forall>h. map_of (oq_chunks q) h \<noteq> None \<longrightarrow> \<not> ready h)
    | Some chunk \<Rightarrow> (let h = sd_Hash (oc_Peer chunk) in
        ready h \<and> map_of (oq_chunks q) h = Some chunk \<and> map_of (oq_chunks q') h = None \<and>
        queue_inv q' \<and> (\<forall>h'. h' \<noteq> h \<longrightarrow> map_of (oq_chunks q') h' = map_of (oq_chunks q) h') \<and>
        (\<forall>h' chunk'. map_of (oq_chunks q) h' = Some chunk' \<and> ready h' \<longrightarrow>
          length (oc_Postings chunk') < length (oc_Postings chunk) \<or>
          length (oc_Postings chunk') = length (oc_Postings chunk) \<and> h \<le> h'))"
proof -
  have t: "take_chunk (largest_chunk ready (oq_chunks q)) q = (q', taken)"
    using assms(2) by (simp add: DequeueLargestReady_def)
  show ?thesis
  proof (cases taken)
    case None
    then show ?thesis using take_chunk_largest [OF assms(1) t] by simp
  next
    case (Some chunk)
    then show ?thesis using take_chunk_largest [OF assms(1) t] delete_chunk_inv [OF assms(1)]
      by (simp add: Let_def delete_conv')
  qed
qed

text \<open>C24: The answer of a peer settles the copies of the postings that were sent to it: each posting
  is accepted or rejected, a rejected one has no copy left in the queue, and only accepted postings
  of which no other copy is queued are confirmed to the own store.\<close>

theorem handoff_settles_copies:
  assumes "queue_inv q" "splitHandoffPostings postings reported = (accepted, rejected)"
    and "q' = cancelPostingCopies rejected q"
  shows "mset accepted + mset rejected = mset postings \<and> queue_inv q' \<and>
    (\<forall>p\<in>set rejected. \<forall>p'\<in>set (queued_postings q'). identifyOutboundPosting p' \<noteq> identifyOutboundPosting p) \<and>
    (\<forall>p\<in>set (queued_postings q). p \<in> set (queued_postings q') \<or>
      (\<exists>r\<in>set rejected. identifyOutboundPosting r = identifyOutboundPosting p)) \<and>
    (\<forall>p\<in>set (confirmablePostings accepted q'). p \<in> set accepted \<and>
      (\<forall>r\<in>set reported. identifyOutboundPosting r \<noteq> identifyOutboundPosting p) \<and>
      (\<forall>p'\<in>set (queued_postings q'). identifyOutboundPosting p' \<noteq> identifyOutboundPosting p))"
proof -
  have i: "queue_inv q'" unfolding assms(3) by (rule cancel_inv [OF assms(1)])
  note s = split_handoff [OF assms(2)]
  have q: "p \<in> set (queued_postings q') \<longleftrightarrow> p \<in> set (queued_postings q) \<and>
      fst (identifyOutboundPosting p) \<notin> (\<lambda>p. fst (identifyOutboundPosting p)) ` set rejected" for p
    using set_queued [OF i] set_queued [OF assms(1)] in_queue_cancel [OF assms(1)] assms(3) by auto
  have same: "identifyOutboundPosting p = identifyOutboundPosting r"
    if "fst (identifyOutboundPosting p) = fst (identifyOutboundPosting r)" "snd (identifyOutboundPosting r)" for p r
  proof -
    have "snd (identifyOutboundPosting p)"
    proof (rule ccontr)
      assume "\<not> snd (identifyOutboundPosting p)"
      then have "fst (identifyOutboundPosting p) = ([], [])"
        by (auto simp: identifyOutboundPosting_def split: sum.splits)
      then have "fst (fst (identifyOutboundPosting r)) = []" using that(1) by simp
      then show False using that(2)
        by (auto simp: identifyOutboundPosting_def ParseHash_iff split: sum.splits)
    qed
    then show ?thesis using that by (simp add: prod_eq_iff)
  qed
  have kept: "p \<in> set (queued_postings q') \<or>
      (\<exists>r\<in>set rejected. identifyOutboundPosting r = identifyOutboundPosting p)"
    if pq: "p \<in> set (queued_postings q)" for p
  proof (cases "p \<in> set (queued_postings q')")
    case False
    then obtain r where "r \<in> set rejected" "fst (identifyOutboundPosting p) = fst (identifyOutboundPosting r)"
      using q [of p] pq by blast
    then show ?thesis using same s by metis
  qed simp
  show ?thesis using s i kept q by (auto simp: set_confirmable image_iff)
qed

lemma EnqueueWord_accounts:
  assumes "queue_inv q" "range_order visit"
    and "EnqueueWord lib clock visit missingURLs peers word config q = (q', Inr r)"
  shows "queue_inv q' \<and>
    mset (er_acceptedRows r) + mset (er_missingRows r) +
      mset (filter (\<lambda>p. isl (RWIPosting_URLHash p)) (wp_Postings word)) = mset (wp_Postings word) \<and>
    er_AcceptedPostings r = length (er_acceptedRows r) \<and> er_MissingURL r = length (er_missingRows r) \<and>
    (\<forall>h. in_queue q h \<subseteq> in_queue q' h \<and> in_queue q' h \<subseteq> in_queue q h \<union> set (er_acceptedRows r)) \<and>
    (\<forall>p\<in>set (er_acceptedRows r). \<exists>url v. RWIPosting_URLHash p = Inr url \<and>
      VerticalPartition url (ec_PartitionExponent config) = Inr v \<and>
      (er_OverflowCopies r = 0 \<longrightarrow>
        (\<forall>t\<in>set (partition_targets lib clock peers (wp_WordHash word) config v).
          p \<in> in_queue q' (sd_Hash (tg_Peer t))))) \<and>
    (\<forall>p\<in>set (er_missingRows r). \<exists>url urls missing. RWIPosting_URLHash p = Inr url \<and>
      missingURLs urls = Some missing \<and> url \<in> set missing) \<and>
    (er_TargetCopies r > 0 \<longrightarrow>
      (\<exists>v. partition_targets lib clock peers (wp_WordHash word) config v \<noteq> [])) \<and>
    (er_acceptedRows r = [] \<longrightarrow> er_TargetCopies r = 0 \<and> er_OverflowCopies r = 0) \<and>
    split_by_directory missingURLs (wp_Postings word) (er_acceptedRows r) (er_missingRows r)"
proof -
  obtain accepted r0 parts r1 touched where e:
    "acceptedPostings missingURLs (wp_Postings word) = Inr (accepted, r0)"
    "partitionPostings [] accepted (ec_PartitionExponent config) = Inr parts"
    "enqueue_partitions lib clock peers (wp_WordHash word) config parts (visit (map_keys parts))
      (q, r0\<lparr>er_acceptedRows := map fst accepted\<rparr>, []) = (q', Inr (r1, touched))"
    "r = r1\<lparr>er_TouchedChunks := length touched\<rparr>"
    by (rule EnqueueWord_parts [OF assms(3)])
  note a = accepted_postings [OF e(1)]
  note p = partition_postings [OF e(2) wf_map_Nil]
  have keys: "set (visit (map_keys parts)) = set (map_keys parts)" by (rule range_order_set [OF assms(2)])
  note g = enqueue_partitions_grown [OF assms(1) e(3)]
  have rows: "(\<Union>v\<in>set (map_keys parts). set (get_or [] parts v)) \<subseteq> set (map fst accepted)"
  proof
    fix x assume "x \<in> (\<Union>v\<in>set (map_keys parts). set (get_or [] parts v))"
    then obtain v where "x \<in> set (get_or [] parts v)" by blast
    then have "\<exists>url. (x, url) \<in> set accepted" using p by (auto simp: get_or_Nil)
    then show "x \<in> set (map fst accepted)" by force
  qed
  have grown: "grown (set (map fst accepted)) (q, r0\<lparr>er_acceptedRows := map fst accepted\<rparr>) (q', r1)"
    by (rule grown_mono [OF _ rows]) (use g keys in simp)
  have sr: "er_acceptedRows r = map fst accepted" "er_missingRows r = er_missingRows r0"
    "er_AcceptedPostings r = er_AcceptedPostings r0" "er_MissingURL r = er_MissingURL r0"
    using grown e(4) by (simp_all add: grown_def same_rows_def)
  have place: "\<exists>url v. RWIPosting_URLHash x = Inr url \<and>
      VerticalPartition url (ec_PartitionExponent config) = Inr v \<and>
      (er_OverflowCopies r = 0 \<longrightarrow>
        (\<forall>t\<in>set (partition_targets lib clock peers (wp_WordHash word) config v).
          x \<in> in_queue q' (sd_Hash (tg_Peer t))))"
    if xr: "x \<in> set (er_acceptedRows r)" for x
  proof -
    have "x \<in> fst ` set accepted" using xr unfolding sr(1) by simp
    then obtain url where url: "(x, url) \<in> set accepted" by auto
    then obtain v where v: "VerticalPartition url (ec_PartitionExponent config) = Inr v" using p by blast
    have x: "x \<in> set (get_or [] parts v)" "v \<in> set (map_keys parts)" using p url v by auto
    have "RWIPosting_URLHash x = Inr url" using a url by blast
    moreover have "x \<in> in_queue q' (sd_Hash (tg_Peer t))"
      if o: "er_OverflowCopies r = 0"
        and t: "t \<in> set (partition_targets lib clock peers (wp_WordHash word) config v)" for t
    proof -
      have "er_OverflowCopies r1 = er_OverflowCopies (r0\<lparr>er_acceptedRows := map fst accepted\<rparr>)"
        using o e(4) a by simp
      then have "set (get_or [] parts v) \<subseteq> in_queue q' (sd_Hash (tg_Peer t))" using g keys x(2) t by blast
      then show ?thesis using x(1) by blast
    qed
    ultimately show ?thesis using v by blast
  qed
  have grow: "in_queue q h \<subseteq> in_queue q' h \<and> in_queue q' h \<subseteq> in_queue q h \<union> set (er_acceptedRows r)" for h
    using grown sr(1) by (simp add: grown_def)
  have some: "\<exists>v. partition_targets lib clock peers (wp_WordHash word) config v \<noteq> []"
    if "er_TargetCopies r > 0"
  proof -
    have "er_TargetCopies r1 > er_TargetCopies (r0\<lparr>er_acceptedRows := map fst accepted\<rparr>)"
      using that e(4) a by simp
    then show ?thesis using g by blast
  qed
  have none: "er_TargetCopies r = 0 \<and> er_OverflowCopies r = 0" if "er_acceptedRows r = []"
  proof -
    have "accepted = []" using that sr(1) by simp
    then have "parts = []" using e(2) by simp
    moreover have "visit [] = []" using range_order_set [OF assms(2), of "[]"] by simp
    ultimately have "r1 = r0\<lparr>er_acceptedRows := map fst accepted\<rparr>" using e(3) by (simp add: map_keys_def)
    then show ?thesis using e(4) a by simp
  qed
  have "split_by_directory missingURLs (wp_Postings word) (er_acceptedRows r) (er_missingRows r)"
    using accepted_postings_split [OF e(1)] sr by simp
  then show ?thesis using g a sr place grow some none by simp
qed



section \<open>An example\<close>

definition example_queue :: "string OutboundQueue" where
  "example_queue = NewOutboundQueue\<lparr>oq_chunks := [(sd_Hash example_receiver,
     \<lparr>oc_Peer = example_receiver, oc_Postings = [example_posting]\<rparr>)]\<rparr>"

lemma example_queue_inv: "queue_inv example_queue"
  by (simp add: example_queue_def queue_inv_def chunk_ok_def wf_map_def MaxChunkPostings_def)

lemma largest_ready_taken_witness:
  "DequeueLargestReady (Some (\<lambda>_. True)) example_queue =
     (NewOutboundQueue, Some \<lparr>oc_Peer = example_receiver, oc_Postings = [example_posting]\<rparr>) \<and>
   queue_inv (NewOutboundQueue :: string OutboundQueue)"
proof -
  have d: "DequeueLargestReady (Some (\<lambda>_. True)) example_queue =
     (NewOutboundQueue, Some \<lparr>oc_Peer = example_receiver, oc_Postings = [example_posting]\<rparr>)"
    by (simp add: DequeueLargestReady_def take_chunk_def largest_chunk_def better_chunk_def
        example_queue_def NewOutboundQueue_def)
  then show ?thesis using largest_ready_taken [OF example_queue_inv d] by (simp add: Let_def)
qed

lemma handoff_settles_copies_witness:
  "queue_inv (cancelPostingCopies [] example_queue) \<and>
   set (queued_postings example_queue) \<subseteq> set (queued_postings (cancelPostingCopies [] example_queue))"
proof -
  have s: "splitHandoffPostings [example_posting] [] = ([example_posting], [])"
    by (simp add: splitHandoffPostings_def valid_identities_def map_filter_simps split: prod.splits)
  show ?thesis using handoff_settles_copies [OF example_queue_inv s refl] by auto
qed

definition example_enqueue :: EnqueueConfig where
  "example_enqueue = \<lparr>ec_Redundancy = 1, ec_PartitionExponent = 0, ec_MinimumPeerAgeDays = 0, ec_Now = 1\<rparr>"


end
