(* ===== verification/ProtoFields.thy ===== *)
theory ProtoFields
  imports Hashes KeyValue
begin

text \<open>
  \<^verbatim>\<open>yagoproto\<close>: what the messages of the peer protocol share. Requests are forms, that is maps of
  fields to lists of values; responses are messages, maps of fields to values. The theory holds the
  helpers that put and read one field (\<^verbatim>\<open>field_codec.go\<close>, \<^verbatim>\<open>hash_field.go\<close>), the network name, the
  header of a response, the authentication of a request and the decimal numbers of Java. The lemmas
  say what a field reads as after others were put, so that the round trip of a message is a
  simplification.
\<close>

section \<open>Forms of the library\<close>

text \<open>\<^verbatim>\<open>url.Values\<close> with its methods \<^verbatim>\<open>Get\<close>, \<^verbatim>\<open>Has\<close>, \<^verbatim>\<open>Set\<close>, \<^verbatim>\<open>Add\<close> and \<^verbatim>\<open>Del\<close>, and the index of a map.\<close>

type_synonym Values = "(string, string list) gomap"

definition form_get :: "Values \<Rightarrow> string \<Rightarrow> string" where
  "form_get form key = (case get_or [] form key of [] \<Rightarrow> [] | v # _ \<Rightarrow> v)"

definition form_has :: "Values \<Rightarrow> string \<Rightarrow> bool" where
  "form_has form key \<longleftrightarrow> map_of form key \<noteq> None"

definition form_set :: "Values \<Rightarrow> string \<Rightarrow> string \<Rightarrow> Values" where
  "form_set form key v = AList.update key [v] form"

definition form_add :: "Values \<Rightarrow> string \<Rightarrow> string \<Rightarrow> Values" where
  "form_add form key v = AList.update key (get_or [] form key @ [v]) form"

definition form_del :: "Values \<Rightarrow> string \<Rightarrow> Values" where
  "form_del form key = AList.delete key form"

definition message_get :: "Message \<Rightarrow> string \<Rightarrow> string" where
  "message_get m key = get_or [] m key"

section \<open>Names of fields\<close>

definition FieldNetworkName :: string where "FieldNetworkName = ''network.unit.name''"
definition FieldIam :: string where "FieldIam = ''iam''"
definition FieldYouAre :: string where "FieldYouAre = ''youare''"
definition FieldKey :: string where "FieldKey = ''key''"
definition FieldMyTime :: string where "FieldMyTime = ''mytime''"
definition FieldVersion :: string where "FieldVersion = ''version''"
definition FieldUptime :: string where "FieldUptime = ''uptime''"
definition FieldMagicMD5 :: string where "FieldMagicMD5 = ''magicmd5''"
definition FieldResult :: string where "FieldResult = ''result''"
definition FieldCount :: string where "FieldCount = ''count''"

lemmas common_fields = FieldNetworkName_def FieldIam_def FieldYouAre_def FieldKey_def FieldMyTime_def
  FieldVersion_def FieldUptime_def FieldMagicMD5_def FieldResult_def FieldCount_def

section \<open>Values of fields\<close>

text \<open>A bad field is \<^verbatim>\<open>ErrBadField\<close>; a malformed hash is another error.\<close>

datatype proto_error = ErrBadField string string | BadHashField string hash_error

definition form_putString :: "string \<Rightarrow> string \<Rightarrow> Values \<Rightarrow> Values" where
  "form_putString key v dst = (if v \<noteq> [] then form_set dst key v else dst)"

definition form_putInt :: "string \<Rightarrow> int \<Rightarrow> Values \<Rightarrow> Values" where
  "form_putInt key v dst = form_set dst key (format_int v)"

definition putIntOptional :: "string \<Rightarrow> int \<Rightarrow> Values \<Rightarrow> Values" where
  "putIntOptional key v dst = (if v \<noteq> 0 then form_set dst key (format_int v) else dst)"

definition putBoolOptional :: "string \<Rightarrow> bool \<Rightarrow> Values \<Rightarrow> Values" where
  "putBoolOptional key v dst = (if v then form_set dst key ''true'' else dst)"

definition setString :: "string \<Rightarrow> string \<Rightarrow> Message \<Rightarrow> Message" where
  "setString key v dst = (if v \<noteq> [] then AList.update key v dst else dst)"

definition setInt :: "string \<Rightarrow> int \<Rightarrow> Message \<Rightarrow> Message" where
  "setInt key v dst = AList.update key (format_int v) dst"

definition readInt :: "string \<Rightarrow> string \<Rightarrow> (proto_error, int) result" where
  "readInt key v = (case parse_int v of None \<Rightarrow> Inl (ErrBadField key v) | Some n \<Rightarrow> Inr n)"

definition optionalInt :: "string \<Rightarrow> string \<Rightarrow> (proto_error, int) result" where
  "optionalInt key v = (if v = [] then Inr 0 else readInt key v)"

text \<open>\<^verbatim>\<open>strings.ToLower\<close> of a text that is not ASCII is a parameter. None of the six words of a
  boolean has another lower case, so a text whose bytes are not all ASCII is a bad field when the
  parameter keeps it away from them.\<close>

definition optionalBool :: "(string \<Rightarrow> string) \<Rightarrow> string \<Rightarrow> string \<Rightarrow> (proto_error, bool) result" where
  "optionalBool unicode_lower key v =
     (if v = [] then Inr False
      else if to_lower unicode_lower v \<in> {''true'', ''on'', ''1''} then Inr True
      else if to_lower unicode_lower v \<in> {''false'', ''off'', ''0''} then Inr False
      else Inl (ErrBadField key v))"

definition indexedKey :: "string \<Rightarrow> nat \<Rightarrow> string" where
  "indexedKey name i = name @ format_uint i"

section \<open>Hashes in fields\<close>

definition MaximumTransferEntries :: nat where "MaximumTransferEntries = 1000"
definition MaximumSearchTermHashes :: nat where "MaximumSearchTermHashes = 32"
definition MaximumSearchURLHashes :: nat where "MaximumSearchURLHashes = 128"
definition MaximumCrawlURLHashes :: nat where "MaximumCrawlURLHashes = MaximumTransferEntries"

definition parseHashField :: "string \<Rightarrow> string \<Rightarrow> (proto_error, Hash) result" where
  "parseHashField field raw =
     (if raw = [] then Inr [] else map_sum (BadHashField field) id (ParseHash raw))"

definition joinHashes :: "Hash list \<Rightarrow> string" where
  "joinHashes hashes = join_with '','' hashes"

fun parse_hash_fields :: "string \<Rightarrow> string list \<Rightarrow> (proto_error, Hash list) result" where
  "parse_hash_fields field [] = Inr []"
| "parse_hash_fields field (part # parts) = (case parseHashField field part of
     Inl e \<Rightarrow> Inl e
   | Inr hash \<Rightarrow> map_sum id ((#) hash) (parse_hash_fields field parts))"

definition splitHashes :: "string \<Rightarrow> string \<Rightarrow> (proto_error, Hash list) result" where
  "splitHashes field raw = (if raw = [] then Inr [] else parse_hash_fields field (split_byte CHR '','' raw))"

definition concatHashes :: "Hash list \<Rightarrow> string" where
  "concatHashes hashes = concat hashes"

definition FieldURLs :: string where "FieldURLs = ''urls''"

text \<open>The slices \<^verbatim>\<open>raw[i:i+HashLength]\<close>; a rest that is shorter is left out.\<close>

fun hash_slices :: "nat \<Rightarrow> string \<Rightarrow> string list" where
  "hash_slices 0 raw = []"
| "hash_slices (Suc n) raw = take HashLength raw # hash_slices n (drop HashLength raw)"

definition splitSearchHashes :: "string \<Rightarrow> string \<Rightarrow> (proto_error, Hash list) result" where
  "splitSearchHashes field raw =
     (let limit = (if field = FieldURLs then MaximumSearchURLHashes else MaximumSearchTermHashes);
          count = length raw div HashLength
      in if count > limit then Inl (ErrBadField field (format_uint count))
         else parse_hash_fields field (hash_slices count raw))"

section \<open>Network name, header and authentication\<close>

definition putNetworkName :: "string \<Rightarrow> bool \<Rightarrow> Values \<Rightarrow> Values" where
  "putNetworkName name present form =
     (if name \<noteq> [] \<or> present then form_set form FieldNetworkName name else form)"

definition parseNetworkName :: "Values \<Rightarrow> string \<times> bool" where
  "parseNetworkName form = (form_get form FieldNetworkName, form_has form FieldNetworkName)"

record ResponseHeader =
  rh_Version :: string
  rh_Uptime :: int

definition no_header :: ResponseHeader where
  "no_header = \<lparr>rh_Version = [], rh_Uptime = 0\<rparr>"

definition InjectResponseHeader :: "string \<Rightarrow> int \<Rightarrow> Message \<Rightarrow> Message" where
  "InjectResponseHeader version uptime dst = setInt FieldUptime uptime (setString FieldVersion version dst)"

definition parseResponseHeader :: "Message \<Rightarrow> (proto_error, ResponseHeader) result" where
  "parseResponseHeader m = (case optionalInt FieldUptime (message_get m FieldUptime) of
     Inl e \<Rightarrow> Inl e
   | Inr uptime \<Rightarrow> Inr \<lparr>rh_Version = message_get m FieldVersion, rh_Uptime = uptime\<rparr>)"

definition DefaultNetwork :: string where "DefaultNetwork = ''freeworld''"

text \<open>Any text can be configured as a mode; only two of them grant access.\<close>

type_synonym NetworkAuthenticationMode = string

definition NetworkAuthenticationUncontrolled :: NetworkAuthenticationMode where
  "NetworkAuthenticationUncontrolled = ''uncontrolled''"
definition NetworkAuthenticationSaltedMagic :: NetworkAuthenticationMode where
  "NetworkAuthenticationSaltedMagic = ''salted-magic-sim''"

record NetworkAccess =
  na_NetworkName :: string
  na_Mode :: NetworkAuthenticationMode
  na_Essentials :: string
  na_Self :: Hash

definition NetworkUnit :: "string \<Rightarrow> string" where
  "NetworkUnit name = (if name = [] then DefaultNetwork else name)"

definition MagicMD5 :: "string \<Rightarrow> string \<Rightarrow> string \<Rightarrow> string" where
  "MagicMD5 key iam essentials = YaCyHashHex (key @ iam @ essentials)"

definition Authorizes :: "NetworkAccess \<Rightarrow> Values \<Rightarrow> bool" where
  "Authorizes a form =
     (let requestNetwork = (if form_has form FieldNetworkName then form_get form FieldNetworkName
            else DefaultNetwork)
      in if requestNetwork \<noteq> NetworkUnit (na_NetworkName a) then False
         else if na_Mode a = [] \<or> na_Mode a = NetworkAuthenticationUncontrolled then True
         else if na_Mode a \<noteq> NetworkAuthenticationSaltedMagic then False
         else
           let expected = MagicMD5 (form_get form FieldKey) (form_get form FieldIam) (na_Essentials a);
               provided = form_get form FieldMagicMD5
           in length provided = length expected \<and> provided = expected)"

definition SignWithSalt :: "NetworkAccess \<Rightarrow> string \<Rightarrow> Values \<Rightarrow> Values" where
  "SignWithSalt a salt form =
     (let form = form_set form FieldNetworkName (NetworkUnit (na_NetworkName a));
          form = form_set form FieldIam (na_Self a);
          form = form_set form FieldKey salt
      in if na_Mode a = NetworkAuthenticationSaltedMagic
         then form_set form FieldMagicMD5 (MagicMD5 salt (na_Self a) (na_Essentials a))
         else form_del form FieldMagicMD5)"

text \<open>The salt comes from the random bytes of the system; None is the failure to read them.\<close>

definition Sign :: "NetworkAccess \<Rightarrow> string option \<Rightarrow> Values \<Rightarrow> Values option" where
  "Sign a salt form = map_option (\<lambda>salt. SignWithSalt a salt form) salt"

section \<open>What a field reads as\<close>

lemma form_get_empty [simp]: "form_get [] key = []"
  by (simp add: form_get_def)

lemma form_has_empty [simp]: "\<not> form_has [] key"
  by (simp add: form_has_def)

lemma form_get_set [simp]: "form_get (form_set f k v) k' = (if k' = k then v else form_get f k')"
  by (simp add: form_get_def form_set_def get_or_update)

lemma form_has_set [simp]: "form_has (form_set f k v) k' \<longleftrightarrow> k' = k \<or> form_has f k'"
  by (simp add: form_has_def form_set_def)

lemma form_get_del [simp]: "form_get (form_del f k) k' = (if k' = k then [] else form_get f k')"
  by (simp add: form_get_def form_del_def get_or_delete)

lemma form_has_del [simp]: "form_has (form_del f k) k' \<longleftrightarrow> k' \<noteq> k \<and> form_has f k'"
  by (simp add: form_has_def form_del_def)

lemma form_get_putString [simp]:
  "form_get (form_putString k v f) k' = (if k' = k \<and> v \<noteq> [] then v else form_get f k')"
  by (simp add: form_putString_def)

lemma form_has_putString [simp]: "form_has (form_putString k v f) k' \<longleftrightarrow> k' = k \<and> v \<noteq> [] \<or> form_has f k'"
  by (simp add: form_putString_def)

lemma form_get_putInt [simp]:
  "form_get (form_putInt k n f) k' = (if k' = k then format_int n else form_get f k')"
  by (simp add: form_putInt_def)

lemma form_has_putInt [simp]: "form_has (form_putInt k n f) k' \<longleftrightarrow> k' = k \<or> form_has f k'"
  by (simp add: form_putInt_def)

lemma form_get_putIntOptional [simp]:
  "form_get (putIntOptional k n f) k' = (if k' = k \<and> n \<noteq> 0 then format_int n else form_get f k')"
  by (simp add: putIntOptional_def)

lemma form_has_putIntOptional [simp]:
  "form_has (putIntOptional k n f) k' \<longleftrightarrow> k' = k \<and> n \<noteq> 0 \<or> form_has f k'"
  by (simp add: putIntOptional_def)

lemma form_get_putBoolOptional [simp]:
  "form_get (putBoolOptional k b f) k' = (if k' = k \<and> b then ''true'' else form_get f k')"
  by (simp add: putBoolOptional_def)

lemma form_has_putBoolOptional [simp]:
  "form_has (putBoolOptional k b f) k' \<longleftrightarrow> k' = k \<and> b \<or> form_has f k'"
  by (simp add: putBoolOptional_def)

lemma form_get_putNetworkName [simp]:
  "form_get (putNetworkName name present f) k =
     (if k = FieldNetworkName \<and> (name \<noteq> [] \<or> present) then name else form_get f k)"
  by (auto simp: putNetworkName_def)

lemma form_has_putNetworkName [simp]:
  "form_has (putNetworkName name present f) k \<longleftrightarrow>
     k = FieldNetworkName \<and> (name \<noteq> [] \<or> present) \<or> form_has f k"
  by (auto simp: putNetworkName_def)

lemma message_get_empty [simp]: "message_get [] k = []"
  by (simp add: message_get_def)

lemma message_get_update [simp]:
  "message_get (AList.update k v m) k' = (if k' = k then v else message_get m k')"
  by (simp add: message_get_def get_or_update)

lemma message_get_setString [simp]:
  "message_get (setString k v m) k' = (if k' = k \<and> v \<noteq> [] then v else message_get m k')"
  by (simp add: setString_def)

lemma message_get_setInt [simp]:
  "message_get (setInt k n m) k' = (if k' = k then format_int n else message_get m k')"
  by (simp add: setInt_def)

lemma message_get_cong: "map_of m = map_of m' \<Longrightarrow> message_get m = message_get m'"
  by (auto simp: message_get_def get_or_def)

lemma parseResponseHeader_cong:
  assumes "map_of m = map_of m'"
  shows "parseResponseHeader m = parseResponseHeader m'"
  unfolding parseResponseHeader_def message_get_cong [OF assms] ..

section \<open>What is read back\<close>

definition int64 :: "int \<Rightarrow> bool" where
  "int64 n \<longleftrightarrow> - (2 ^ 63) \<le> n \<and> n < 2 ^ 63"

lemma format_int_nonempty [simp]: "format_int n \<noteq> []"
  by (simp add: format_int_def)

lemma readInt_format [simp]: "int64 n \<Longrightarrow> readInt key (format_int n) = Inr n"
  by (simp add: readInt_def int64_def parse_format_int)

lemma optionalInt_empty [simp]: "optionalInt key [] = Inr 0"
  by (simp add: optionalInt_def)

lemma optionalInt_format [simp]: "int64 n \<Longrightarrow> optionalInt key (format_int n) = Inr n"
  by (simp add: optionalInt_def)

lemma optionalInt_bad: "optionalInt key v = Inl e \<Longrightarrow> e = ErrBadField key v"
  by (auto simp: optionalInt_def readInt_def split: if_splits option.splits)

lemma optionalInt_int64: "optionalInt key v = Inr n \<Longrightarrow> int64 n"
proof -
  have "int64 (int k)" "k \<le> 2 ^ 63 \<Longrightarrow> int64 (- int k)" if "k < 2 ^ 63 \<or> k \<le> 2 ^ 63 \<and> False" for k
    using that by (auto simp: int64_def)
  then show "optionalInt key v = Inr n \<Longrightarrow> int64 n"
    by (auto simp: optionalInt_def readInt_def parse_int_def int64_def Let_def
        split: if_splits option.splits list.splits)
qed

definition hash_or_empty :: "Hash \<Rightarrow> bool" where
  "hash_or_empty h \<longleftrightarrow> h = [] \<or> Hash_Valid h"

lemma parseHashField_ok: "hash_or_empty h \<Longrightarrow> parseHashField field h = Inr h"
  by (auto simp: parseHashField_def hash_or_empty_def ParseHash_valid)

lemma parseHashField_Inr: "parseHashField field raw = Inr h \<longleftrightarrow> raw = h \<and> hash_or_empty h"
proof (cases "raw = [] \<or> Hash_Valid raw")
  case True
  then show ?thesis using parseHashField_ok [of raw field] by (auto simp: hash_or_empty_def)
next
  case False
  then obtain e where "ParseHash raw = Inl e" using ParseHash_error by blast
  then show ?thesis using False by (auto simp: parseHashField_def hash_or_empty_def)
qed

lemma parse_hash_fields_Inr:
  "parse_hash_fields field parts = Inr hs \<longleftrightarrow> parts = hs \<and> list_all hash_or_empty hs"
proof (induction parts arbitrary: hs)
  case Nil
  then show ?case by auto
next
  case (Cons part parts)
  show ?case
  proof (cases "parseHashField field part")
    case (Inl e)
    then have "\<not> hash_or_empty part" using parseHashField_ok [of part field] by auto
    with Inl show ?thesis by auto
  next
    case (Inr h)
    then have p: "h = part" "hash_or_empty part" by (simp_all add: parseHashField_Inr)
    have "parse_hash_fields field (part # parts) = Inr hs \<longleftrightarrow>
        (\<exists>ts. parse_hash_fields field parts = Inr ts \<and> hs = part # ts)"
      using Inr p(1) by (simp add: map_sum_eq_Inr)
    then show ?thesis using p(2) unfolding Cons.IH by auto
  qed
qed

lemma Hash_Valid_symbols: "Hash_Valid h \<Longrightarrow> length h = 12 \<and> CHR '','' \<notin> set h \<and> h \<noteq> []"
  by (auto simp: Hash_Valid_iff Alphabet_def)

lemma splitHashes_join:
  assumes "list_all Hash_Valid hs"
  shows "splitHashes field (joinHashes hs) = Inr hs"
proof (cases "hs = []")
  case True
  then show ?thesis by (simp add: splitHashes_def joinHashes_def)
next
  case False
  have v: "\<forall>h\<in>set hs. CHR '','' \<notin> set h \<and> h \<noteq> []"
    using assms Hash_Valid_symbols by (auto simp: list_all_iff)
  then have "joinHashes hs \<noteq> []" using False join_with_empty [of "'',''" hs] by (auto simp: joinHashes_def)
  moreover have "split_byte CHR '','' (joinHashes hs) = hs"
    using split_byte_join [of hs "CHR '',''"] False v by (simp add: joinHashes_def)
  ultimately show ?thesis
    using assms by (simp add: splitHashes_def parse_hash_fields_Inr hash_or_empty_def list_all_iff)
qed

lemma hash_slices_concat:
  "list_all Hash_Valid hs \<Longrightarrow> hash_slices (length hs) (concat hs) = hs"
  by (induction hs) (auto simp: Hash_Valid_iff HashLength_def)

lemma splitSearchHashes_concat:
  assumes "list_all Hash_Valid hs"
    and "length hs \<le> (if field = FieldURLs then MaximumSearchURLHashes else MaximumSearchTermHashes)"
  shows "splitSearchHashes field (concatHashes hs) = Inr hs"
proof -
  have "length (concat hs) = 12 * length hs"
    using assms(1) by (induction hs) (auto simp: Hash_Valid_iff)
  then show ?thesis using assms hash_slices_concat [OF assms(1)]
    by (simp add: splitSearchHashes_def concatHashes_def HashLength_def parse_hash_fields_Inr
        hash_or_empty_def list_all_iff)
qed

lemma parseResponseHeader_inject:
  assumes "int64 uptime" "message_get m FieldVersion = []"
  shows "parseResponseHeader (InjectResponseHeader version uptime m) =
    Inr \<lparr>rh_Version = version, rh_Uptime = uptime\<rparr>"
  using assms by (simp add: parseResponseHeader_def InjectResponseHeader_def common_fields)

section \<open>Authentication\<close>

text \<open>A form that a node of the network signs is authorized by every other node with the same name,
  mode and essentials, if the mode is one of the two.\<close>

definition usable_mode :: "NetworkAuthenticationMode \<Rightarrow> bool" where
  "usable_mode mode \<longleftrightarrow> mode = [] \<or> mode = NetworkAuthenticationUncontrolled \<or>
     mode = NetworkAuthenticationSaltedMagic"

lemma signed_authorized:
  assumes "NetworkUnit (na_NetworkName a) = NetworkUnit (na_NetworkName b)" "na_Mode a = na_Mode b"
    and "na_Essentials a = na_Essentials b" "usable_mode (na_Mode b)"
  shows "Authorizes b (SignWithSalt a salt form)"
  using assms
  by (auto simp: Authorizes_def SignWithSalt_def Let_def common_fields usable_mode_def)

end
