(* ===== verification/TransferMessages.thy ===== *)
theory TransferMessages
  imports ProtoFields RwiPosting UrlMetadata
begin

text \<open>
  \<^verbatim>\<open>yagoproto\<close>: the messages of an index transfer (\<^verbatim>\<open>transfer_rwi.go\<close>, \<^verbatim>\<open>transfer_url.go\<close>,
  \<^verbatim>\<open>transfer_result.go\<close>). A transfer of postings and a transfer of metadata rows each have a request,
  written as a form, and a response, written as a message. The lemmas show that every message is
  read back as it was written, and what a receiver takes from a request that it can not read in full.
\<close>

section \<open>Results\<close>

definition ResultOK :: string where "ResultOK = ''ok''"
definition ResultWrongTarget :: string where "ResultWrongTarget = ''wrong_target''"
definition ResultBusy :: string where "ResultBusy = ''busy''"
definition ResultNotGranted :: string where "ResultNotGranted = ''not_granted''"
definition ResultTooHighLoad :: string where "ResultTooHighLoad = ''too high load''"
definition ResultPostOrEnvIsNull :: string where "ResultPostOrEnvIsNull = ''post or env is null!''"
definition ResultNotAuthentified :: string where "ResultNotAuthentified = ''not authentified''"
definition ResultMissingWordC :: string where "ResultMissingWordC = ''missing wordc''"
definition ResultMissingEntryC :: string where "ResultMissingEntryC = ''missing entryc''"
definition ResultMissingIndexes :: string where "ResultMissingIndexes = ''missing indexes''"
definition ResultErrorNotGranted :: string where "ResultErrorNotGranted = ''error_not_granted''"

lemmas result_defs = ResultOK_def ResultWrongTarget_def ResultBusy_def ResultNotGranted_def
  ResultTooHighLoad_def ResultPostOrEnvIsNull_def ResultNotAuthentified_def ResultMissingWordC_def
  ResultMissingEntryC_def ResultMissingIndexes_def ResultErrorNotGranted_def

definition rwi_results :: "string list" where
  "rwi_results = [ResultOK, ResultWrongTarget, ResultBusy, ResultNotGranted, ResultTooHighLoad,
     ResultPostOrEnvIsNull, ResultNotAuthentified, ResultMissingWordC, ResultMissingEntryC,
     ResultMissingIndexes]"

definition parseTransferRWIResult :: "string \<Rightarrow> (proto_error, string) result" where
  "parseTransferRWIResult raw =
     (if raw \<in> set rwi_results then Inr raw else Inl (ErrBadField FieldResult raw))"

definition parseTransferURLResult :: "string \<Rightarrow> (proto_error, string) result" where
  "parseTransferURLResult raw =
     (if raw = [] then Inr []
      else if raw = ResultOK \<or> raw = ResultWrongTarget \<or> raw = ResultErrorNotGranted then Inr raw
      else Inl (ErrBadField FieldResult raw))"

section \<open>The messages\<close>

definition FieldWordCount :: string where "FieldWordCount = ''wordc''"
definition FieldEntryCount :: string where "FieldEntryCount = ''entryc''"
definition FieldIndexes :: string where "FieldIndexes = ''indexes''"
definition FieldPause :: string where "FieldPause = ''pause''"
definition FieldUnknownURL :: string where "FieldUnknownURL = ''unknownURL''"
definition FieldErrorURL :: string where "FieldErrorURL = ''errorURL''"
definition FieldURLCount :: string where "FieldURLCount = ''urlc''"
definition FieldDouble :: string where "FieldDouble = ''double''"
definition prefixURL :: string where "prefixURL = ''url''"

lemmas transfer_fields = FieldWordCount_def FieldEntryCount_def FieldIndexes_def FieldPause_def
  FieldUnknownURL_def FieldErrorURL_def FieldURLCount_def FieldDouble_def prefixURL_def

record TransferRWIRequest =
  tq_NetworkName :: string
  tq_NetworkNamePresent :: bool
  tq_Iam :: Hash
  tq_YouAre :: Hash
  tq_WordCount :: int
  tq_EntryCount :: int
  tq_Indexes :: "RWIPosting list"
  tq_Key :: string
  tq_MagicMD5 :: string
  tq_wordCountPresent :: bool
  tq_entryCountPresent :: bool
  tq_indexesPresent :: bool
  tq_indexesOverflow :: bool

record TransferRWIResponse =
  tr_Header :: ResponseHeader
  tr_Result :: string
  tr_Pause :: int
  tr_UnknownURL :: "Hash list"
  tr_ErrorURL :: "Hash list"
  tr_UnknownURLFieldPresent :: bool

record TransferURLRequest =
  uq_NetworkName :: string
  uq_NetworkNamePresent :: bool
  uq_Iam :: Hash
  uq_YouAre :: Hash
  uq_URLCount :: int
  uq_URLs :: "URIMetadataRow list"
  uq_Key :: string
  uq_MagicMD5 :: string

record TransferURLResponse =
  tu_Header :: ResponseHeader
  tu_Result :: string
  tu_Double :: int
  tu_ErrorURL :: "Hash list"

section \<open>Transfers of postings\<close>

definition encodeRWILines :: "RWIPosting list \<Rightarrow> string" where
  "encodeRWILines entries = join_with [CHR 0x0A] (map RWIPosting_String entries)"

text \<open>\<^verbatim>\<open>strings.TrimRight(line, "\r")\<close>.\<close>

definition trim_returns :: "string \<Rightarrow> string" where
  "trim_returns line = rev (dropWhile (\<lambda>c. c = CHR 0x0D) (rev line))"

text \<open>The postings of the lines, with the count of lines that were not empty so far; the flag tells
  that there were more than a transfer may hold.\<close>

fun parse_rwi_lines :: "nat \<Rightarrow> string list \<Rightarrow> RWIPosting list \<times> bool" where
  "parse_rwi_lines n [] = ([], False)"
| "parse_rwi_lines n (line # rest) =
     (let line = trim_returns line
      in if line = [] then parse_rwi_lines n rest
         else if n + 1 > MaximumTransferEntries then ([], True)
         else (case ParseRWIPosting line of
                 Inl _ \<Rightarrow> parse_rwi_lines (n + 1) rest
               | Inr entry \<Rightarrow> (case parse_rwi_lines (n + 1) rest of
                   (entries, overflow) \<Rightarrow> (entry # entries, overflow))))"

definition parseRWILines :: "string \<Rightarrow> RWIPosting list \<times> bool" where
  "parseRWILines raw = (if raw = [] then ([], False) else parse_rwi_lines 0 (split_byte CHR 0x0A raw))"

definition TransferRWIRequest_Form :: "TransferRWIRequest \<Rightarrow> Values" where
  "TransferRWIRequest_Form r =
     (let form = putNetworkName (tq_NetworkName r) (tq_NetworkNamePresent r) [];
          form = form_putString FieldIam (tq_Iam r) form;
          form = form_putString FieldYouAre (tq_YouAre r) form;
          form = form_putInt FieldWordCount (tq_WordCount r) form;
          form = form_putInt FieldEntryCount (tq_EntryCount r) form;
          form = form_set form FieldIndexes (encodeRWILines (tq_Indexes r));
          form = form_putString FieldKey (tq_Key r) form
      in form_putString FieldMagicMD5 (tq_MagicMD5 r) form)"

definition ParseTransferRWIRequest :: "Values \<Rightarrow> (proto_error, TransferRWIRequest) result" where
  "ParseTransferRWIRequest form =
     (case optionalInt FieldWordCount (form_get form FieldWordCount) of
        Inl e \<Rightarrow> Inl e
      | Inr wordCount \<Rightarrow> (case optionalInt FieldEntryCount (form_get form FieldEntryCount) of
        Inl e \<Rightarrow> Inl e
      | Inr entryCount \<Rightarrow> (case parseNetworkName form of (networkName, networkNamePresent) \<Rightarrow>
          (case parseHashField FieldIam (form_get form FieldIam) of
             Inl e \<Rightarrow> Inl e
           | Inr iam \<Rightarrow> (case parseHashField FieldYouAre (form_get form FieldYouAre) of
             Inl e \<Rightarrow> Inl e
           | Inr youare \<Rightarrow> (case parseRWILines (form_get form FieldIndexes) of (entries, overflow) \<Rightarrow>
               Inr \<lparr>tq_NetworkName = networkName, tq_NetworkNamePresent = networkNamePresent,
                 tq_Iam = iam, tq_YouAre = youare, tq_WordCount = wordCount, tq_EntryCount = entryCount,
                 tq_Indexes = entries, tq_Key = form_get form FieldKey,
                 tq_MagicMD5 = form_get form FieldMagicMD5,
                 tq_wordCountPresent = form_has form FieldWordCount,
                 tq_entryCountPresent = form_has form FieldEntryCount,
                 tq_indexesPresent = form_has form FieldIndexes,
                 tq_indexesOverflow = overflow\<rparr>))))))"

definition MissingWordCountField :: "TransferRWIRequest \<Rightarrow> bool" where
  "MissingWordCountField r \<longleftrightarrow> \<not> tq_wordCountPresent r \<and> tq_WordCount r = 0"

definition MissingEntryCountField :: "TransferRWIRequest \<Rightarrow> bool" where
  "MissingEntryCountField r \<longleftrightarrow> \<not> tq_entryCountPresent r \<and> tq_EntryCount r = 0"

definition MissingIndexesField :: "TransferRWIRequest \<Rightarrow> bool" where
  "MissingIndexesField r \<longleftrightarrow> \<not> tq_indexesPresent r \<and> length (tq_Indexes r) = 0"

definition ExceedsEntryLimit :: "TransferRWIRequest \<Rightarrow> bool" where
  "ExceedsEntryLimit r \<longleftrightarrow> tq_indexesOverflow r \<or> tq_EntryCount r > int MaximumTransferEntries \<or>
     length (tq_Indexes r) > MaximumTransferEntries"

definition TransferRWIResponse_Encode :: "TransferRWIResponse \<Rightarrow> Message" where
  "TransferRWIResponse_Encode r =
     (let msg = setString FieldResult (tr_Result r) [];
          msg = setInt FieldPause (tr_Pause r) msg;
          msg = AList.update FieldUnknownURL (joinHashes (tr_UnknownURL r)) msg
      in AList.update FieldErrorURL (joinHashes (tr_ErrorURL r)) msg)"

definition ParseTransferRWIResponse :: "Message \<Rightarrow> (proto_error, TransferRWIResponse) result" where
  "ParseTransferRWIResponse m =
     (case parseResponseHeader m of
        Inl e \<Rightarrow> Inl e
      | Inr header \<Rightarrow> (case optionalInt FieldPause (message_get m FieldPause) of
        Inl e \<Rightarrow> Inl e
      | Inr pause \<Rightarrow> (case parseTransferRWIResult (message_get m FieldResult) of
        Inl e \<Rightarrow> Inl e
      | Inr res \<Rightarrow>
          let unknownRaw = message_get m FieldUnknownURL;
              unknownURLFieldPresent = (map_of m FieldUnknownURL \<noteq> None)
          in if res = ResultOK \<and> \<not> unknownURLFieldPresent then Inl (ErrBadField FieldUnknownURL [])
             else (case splitHashes FieldUnknownURL unknownRaw of
                Inl e \<Rightarrow> Inl e
              | Inr unknown \<Rightarrow> (case splitHashes FieldErrorURL (message_get m FieldErrorURL) of
                Inl e \<Rightarrow> Inl e
              | Inr errorURL \<Rightarrow>
                  Inr \<lparr>tr_Header = header, tr_Result = res, tr_Pause = pause, tr_UnknownURL = unknown,
                    tr_ErrorURL = errorURL, tr_UnknownURLFieldPresent = unknownURLFieldPresent\<rparr>)))))"

section \<open>Transfers of metadata rows\<close>

fun put_rows :: "nat \<Rightarrow> URIMetadataRow list \<Rightarrow> Values \<Rightarrow> Values" where
  "put_rows i [] form = form"
| "put_rows i (row # rows) form =
     put_rows (i + 1) rows (form_putString (indexedKey prefixURL i) (URIMetadataRow_String row) form)"

definition TransferURLRequest_Form :: "TransferURLRequest \<Rightarrow> Values" where
  "TransferURLRequest_Form r =
     (let form = putNetworkName (uq_NetworkName r) (uq_NetworkNamePresent r) [];
          form = form_putString FieldIam (uq_Iam r) form;
          form = form_putString FieldYouAre (uq_YouAre r) form;
          form = form_putInt FieldURLCount (uq_URLCount r) form;
          form = form_putString FieldKey (uq_Key r) form;
          form = form_putString FieldMagicMD5 (uq_MagicMD5 r) form
      in put_rows 0 (uq_URLs r) form)"

text \<open>The request can be cancelled before each row, which the parameter tells; a request that is
  cancelled is None.\<close>

fun parse_url_rows ::
  "(nat \<Rightarrow> bool) \<Rightarrow> Values \<Rightarrow> nat list \<Rightarrow> URIMetadataRow list option" where
  "parse_url_rows cancelled form [] = Some []"
| "parse_url_rows cancelled form (i # is) =
     (if cancelled i then None
      else let raw = form_get form (indexedKey prefixURL i)
           in if raw = [] then parse_url_rows cancelled form is
              else (case ParseURIMetadataRow raw of
                      Inl _ \<Rightarrow> parse_url_rows cancelled form is
                    | Inr row \<Rightarrow> map_option ((#) row) (parse_url_rows cancelled form is)))"

datatype url_request_error = BadURLRequest proto_error | URLRequestCancelled

definition ParseTransferURLRequest ::
  "(nat \<Rightarrow> bool) \<Rightarrow> Values \<Rightarrow> (url_request_error, TransferURLRequest) result" where
  "ParseTransferURLRequest cancelled form =
     (case optionalInt FieldURLCount (form_get form FieldURLCount) of
        Inl e \<Rightarrow> Inl (BadURLRequest e)
      | Inr urlCount \<Rightarrow>
          if urlCount > int MaximumTransferEntries
          then Inl (BadURLRequest (ErrBadField FieldURLCount (format_int urlCount)))
          else (case parseNetworkName form of (networkName, networkNamePresent) \<Rightarrow>
          (case parseHashField FieldIam (form_get form FieldIam) of
             Inl e \<Rightarrow> Inl (BadURLRequest e)
           | Inr iam \<Rightarrow> (case parseHashField FieldYouAre (form_get form FieldYouAre) of
             Inl e \<Rightarrow> Inl (BadURLRequest e)
           | Inr youare \<Rightarrow> (case parse_url_rows cancelled form [0..<nat urlCount] of
             None \<Rightarrow> Inl URLRequestCancelled
           | Some rows \<Rightarrow>
               Inr \<lparr>uq_NetworkName = networkName, uq_NetworkNamePresent = networkNamePresent,
                 uq_Iam = iam, uq_YouAre = youare, uq_URLCount = urlCount, uq_URLs = rows,
                 uq_Key = form_get form FieldKey, uq_MagicMD5 = form_get form FieldMagicMD5\<rparr>)))))"

definition TransferURLResponse_Encode :: "TransferURLResponse \<Rightarrow> Message" where
  "TransferURLResponse_Encode r =
     (if tu_Result r = [] \<and> tu_Double r = 0 \<and> length (tu_ErrorURL r) = 0 then []
      else
        let msg = setString FieldResult (tu_Result r) [];
            msg = setInt FieldDouble (tu_Double r) msg
        in setString FieldErrorURL (joinHashes (tu_ErrorURL r)) msg)"

definition ParseTransferURLResponse :: "Message \<Rightarrow> (proto_error, TransferURLResponse) result" where
  "ParseTransferURLResponse m =
     (case parseResponseHeader m of
        Inl e \<Rightarrow> Inl e
      | Inr header \<Rightarrow> (case optionalInt FieldDouble (message_get m FieldDouble) of
        Inl e \<Rightarrow> Inl e
      | Inr double \<Rightarrow> (case splitHashes FieldErrorURL (message_get m FieldErrorURL) of
        Inl e \<Rightarrow> Inl e
      | Inr errorURL \<Rightarrow> (case parseTransferURLResult (message_get m FieldResult) of
        Inl e \<Rightarrow> Inl e
      | Inr res \<Rightarrow> Inr \<lparr>tu_Header = header, tu_Result = res, tu_Double = double,
            tu_ErrorURL = errorURL\<rparr>))))"

section \<open>Postings on lines\<close>

text \<open>What the wire keeps of a posting: its word and its columns, whose order is of no matter.\<close>

definition same_posting :: "RWIPosting \<Rightarrow> RWIPosting \<Rightarrow> bool" where
  "same_posting p q \<longleftrightarrow> RWI_WordHash p = RWI_WordHash q \<and>
     map_of (RWI_Properties p) = map_of (RWI_Properties q) \<and> wf_posting q"

definition same_row :: "URIMetadataRow \<Rightarrow> URIMetadataRow \<Rightarrow> bool" where
  "same_row r s \<longleftrightarrow> map_of (Meta_Properties r) = map_of (Meta_Properties s) \<and> wf_row s"

text \<open>A posting that fits a line: it is well-formed and its text has no line break.\<close>

definition line_posting :: "RWIPosting \<Rightarrow> bool" where
  "line_posting p \<longleftrightarrow> wf_posting p \<and> plain_map (RWI_Properties p) \<and> CHR 0x0A \<notin> set (RWIPosting_String p)"

lemma trim_returns_posting [simp]: "trim_returns (RWIPosting_String p) = RWIPosting_String p"
  by (simp add: trim_returns_def RWIPosting_String_def)

lemma posting_line_nonempty [simp]: "RWIPosting_String p \<noteq> []"
  by (simp add: RWIPosting_String_def)

lemma parse_line_posting:
  assumes "line_posting p"
  shows "\<exists>q. ParseRWIPosting (RWIPosting_String p) = Inr q \<and> same_posting p q"
  using ParseRWIPosting_String [of p] ParseRWIPosting_wf assms
  by (fastforce simp: line_posting_def same_posting_def)

lemma parse_rwi_lines_postings:
  "n + length ps \<le> MaximumTransferEntries \<Longrightarrow> list_all line_posting ps \<Longrightarrow>
     \<exists>qs. parse_rwi_lines n (map RWIPosting_String ps) = (qs, False) \<and> list_all2 same_posting ps qs"
proof (induction ps arbitrary: n)
  case Nil
  then show ?case by simp
next
  case (Cons p ps)
  obtain q where q: "ParseRWIPosting (RWIPosting_String p) = Inr q" "same_posting p q"
    using parse_line_posting [of p] Cons.prems by auto
  obtain qs where "parse_rwi_lines (Suc n) (map RWIPosting_String ps) = (qs, False)"
      "list_all2 same_posting ps qs"
    using Cons.IH [of "Suc n"] Cons.prems by auto
  then show ?case using q Cons.prems by (auto simp: Let_def not_less)
qed

lemma parse_encode_lines:
  assumes "length ps \<le> MaximumTransferEntries" "list_all line_posting ps"
  shows "\<exists>qs. parseRWILines (encodeRWILines ps) = (qs, False) \<and> list_all2 same_posting ps qs"
proof (cases "ps = []")
  case True
  then show ?thesis by (simp add: parseRWILines_def encodeRWILines_def)
next
  case False
  have l: "\<forall>l\<in>set (map RWIPosting_String ps). CHR 0x0A \<notin> set l"
    using assms(2) by (auto simp: line_posting_def list_all_iff)
  have "encodeRWILines ps \<noteq> []"
    using False join_with_empty [of "[CHR 0x0A]" "map RWIPosting_String ps"] by (auto simp: encodeRWILines_def)
  moreover have "split_byte CHR 0x0A (encodeRWILines ps) = map RWIPosting_String ps"
    using split_byte_join [of "map RWIPosting_String ps" "CHR 0x0A"] False l by (simp add: encodeRWILines_def)
  ultimately show ?thesis
    using parse_rwi_lines_postings [of 0 ps] assms by (simp add: parseRWILines_def)
qed

text \<open>Whatever the lines are, no more than the limit is read, and what is read is well-formed.\<close>

lemma parse_rwi_lines_bound:
  "n \<le> MaximumTransferEntries \<Longrightarrow> parse_rwi_lines n ls = (es, overflow) \<Longrightarrow>
     n + length es \<le> MaximumTransferEntries \<and> list_all wf_posting es"
proof (induction n ls arbitrary: es overflow rule: parse_rwi_lines.induct)
  case (1 n)
  then show ?case by simp
next
  case (2 n l ls)
  show ?case
  proof (cases "trim_returns l = [] \<or> n + 1 > MaximumTransferEntries")
    case True
    then show ?thesis using 2 by (auto simp: Let_def split: if_splits)
  next
    case False
    obtain es' o' where r: "parse_rwi_lines (n + 1) ls = (es', o')" by (cases "parse_rwi_lines (n + 1) ls")
    have ih: "n + 1 + length es' \<le> MaximumTransferEntries \<and> list_all wf_posting es'"
    proof (cases "ParseRWIPosting (trim_returns l)")
      case (Inl e)
      then show ?thesis using "2.IH"(2) [OF refl] False r by auto
    next
      case (Inr e)
      then show ?thesis using "2.IH"(3) [OF refl] False r by auto
    qed
    show ?thesis
    proof (cases "ParseRWIPosting (trim_returns l)")
      case (Inl e)
      then show ?thesis using 2(5) r ih False by (simp add: Let_def not_less)
    next
      case (Inr e)
      then show ?thesis using 2(5) r ih False ParseRWIPosting_wf [OF Inr] by (auto simp: Let_def not_less)
    qed
  qed
qed

lemma ParseTransferRWIRequest_bound:
  assumes "ParseTransferRWIRequest form = Inr r"
  shows "length (tq_Indexes r) \<le> MaximumTransferEntries \<and> list_all wf_posting (tq_Indexes r) \<and>
    hash_or_empty (tq_Iam r) \<and> hash_or_empty (tq_YouAre r)"
proof -
  obtain es ov where l: "parseRWILines (form_get form FieldIndexes) = (es, ov)"
    by (cases "parseRWILines (form_get form FieldIndexes)")
  have "length es \<le> MaximumTransferEntries \<and> list_all wf_posting es"
    using l parse_rwi_lines_bound [of 0] by (auto simp: parseRWILines_def split: if_splits)
  then show ?thesis using assms l
    by (auto simp: ParseTransferRWIRequest_def parseHashField_Inr split: sum.splits prod.splits)
qed


section \<open>Round trips of the transfer of postings\<close>

definition rwi_request_fits :: "TransferRWIRequest \<Rightarrow> bool" where
  "rwi_request_fits r \<longleftrightarrow> hash_or_empty (tq_Iam r) \<and> hash_or_empty (tq_YouAre r) \<and>
     int64 (tq_WordCount r) \<and> int64 (tq_EntryCount r) \<and>
     length (tq_Indexes r) \<le> MaximumTransferEntries \<and> list_all line_posting (tq_Indexes r)"

text \<open>The reader also notes which fields are there: all of them, in a form that is written here.\<close>

definition as_received :: "TransferRWIRequest \<Rightarrow> RWIPosting list \<Rightarrow> TransferRWIRequest" where
  "as_received r entries = r\<lparr>tq_NetworkNamePresent := tq_NetworkNamePresent r \<or> tq_NetworkName r \<noteq> [],
     tq_Indexes := entries, tq_wordCountPresent := True, tq_entryCountPresent := True,
     tq_indexesPresent := True, tq_indexesOverflow := False\<rparr>"

lemma ParseTransferRWIRequest_fields:
  assumes "hash_or_empty (form_get form FieldIam)" "hash_or_empty (form_get form FieldYouAre)"
    and "optionalInt FieldWordCount (form_get form FieldWordCount) = Inr w"
    and "optionalInt FieldEntryCount (form_get form FieldEntryCount) = Inr n"
    and "parseRWILines (form_get form FieldIndexes) = (entries, overflow)"
  shows "ParseTransferRWIRequest form = Inr \<lparr>tq_NetworkName = form_get form FieldNetworkName,
     tq_NetworkNamePresent = form_has form FieldNetworkName,
     tq_Iam = form_get form FieldIam, tq_YouAre = form_get form FieldYouAre, tq_WordCount = w,
     tq_EntryCount = n, tq_Indexes = entries, tq_Key = form_get form FieldKey,
     tq_MagicMD5 = form_get form FieldMagicMD5, tq_wordCountPresent = form_has form FieldWordCount,
     tq_entryCountPresent = form_has form FieldEntryCount, tq_indexesPresent = form_has form FieldIndexes,
     tq_indexesOverflow = overflow\<rparr>"
  using assms by (simp add: ParseTransferRWIRequest_def parseNetworkName_def parseHashField_ok)

lemma rwi_request_received:
  assumes "rwi_request_fits r"
  shows "\<exists>entries. ParseTransferRWIRequest (TransferRWIRequest_Form r) = Inr (as_received r entries) \<and>
    list_all2 same_posting (tq_Indexes r) entries"
proof -
  let ?f = "TransferRWIRequest_Form r"
  obtain entries where e: "parseRWILines (encodeRWILines (tq_Indexes r)) = (entries, False)"
      "list_all2 same_posting (tq_Indexes r) entries"
    using parse_encode_lines assms by (auto simp: rwi_request_fits_def)
  have f: "form_get ?f FieldIam = tq_Iam r" "form_get ?f FieldYouAre = tq_YouAre r"
    "form_get ?f FieldWordCount = format_int (tq_WordCount r)"
    "form_get ?f FieldEntryCount = format_int (tq_EntryCount r)"
    "form_get ?f FieldIndexes = encodeRWILines (tq_Indexes r)"
    "form_get ?f FieldKey = tq_Key r" "form_get ?f FieldMagicMD5 = tq_MagicMD5 r"
    "form_get ?f FieldNetworkName = tq_NetworkName r"
    "form_has ?f FieldWordCount" "form_has ?f FieldEntryCount" "form_has ?f FieldIndexes"
    "form_has ?f FieldNetworkName \<longleftrightarrow> tq_NetworkNamePresent r \<or> tq_NetworkName r \<noteq> []"
    by (auto simp: TransferRWIRequest_Form_def Let_def common_fields transfer_fields)
  have "ParseTransferRWIRequest ?f = Inr (as_received r entries)"
    using ParseTransferRWIRequest_fields [of ?f "tq_WordCount r" "tq_EntryCount r" entries False] e(1) assms
    by (simp add: f rwi_request_fits_def as_received_def)
  then show ?thesis using e(2) by blast
qed

definition rwi_response_fits :: "TransferRWIResponse \<Rightarrow> bool" where
  "rwi_response_fits r \<longleftrightarrow> int64 (rh_Uptime (tr_Header r)) \<and> tr_Result r \<in> set rwi_results \<and>
     int64 (tr_Pause r) \<and> list_all Hash_Valid (tr_UnknownURL r) \<and> list_all Hash_Valid (tr_ErrorURL r)"

text \<open>A response gets its header when it is written, and every response that is written here has the
  field of the unknown addresses.\<close>

definition response_message :: "ResponseHeader \<Rightarrow> Message \<Rightarrow> Message" where
  "response_message header msg = InjectResponseHeader (rh_Version header) (rh_Uptime header) msg"

lemma ParseTransferRWIResponse_fields:
  assumes "parseResponseHeader m = Inr header" "optionalInt FieldPause (message_get m FieldPause) = Inr pause"
    and "message_get m FieldResult \<in> set rwi_results" "map_of m FieldUnknownURL \<noteq> None"
    and "splitHashes FieldUnknownURL (message_get m FieldUnknownURL) = Inr unknown"
    and "splitHashes FieldErrorURL (message_get m FieldErrorURL) = Inr errors"
  shows "ParseTransferRWIResponse m = Inr \<lparr>tr_Header = header, tr_Result = message_get m FieldResult,
     tr_Pause = pause, tr_UnknownURL = unknown, tr_ErrorURL = errors, tr_UnknownURLFieldPresent = True\<rparr>"
  using assms by (simp add: ParseTransferRWIResponse_def parseTransferRWIResult_def)

lemma rwi_results_nonempty: "raw \<in> set rwi_results \<Longrightarrow> raw \<noteq> []"
  by (auto simp: rwi_results_def result_defs)

lemma message_get_response_message:
  "message_get (response_message header msg) k =
     (if k = FieldUptime then format_int (rh_Uptime header)
      else if k = FieldVersion \<and> rh_Version header \<noteq> [] then rh_Version header else message_get msg k)"
  by (simp add: response_message_def InjectResponseHeader_def)

lemma map_of_response_message:
  "k \<noteq> FieldUptime \<Longrightarrow> k \<noteq> FieldVersion \<Longrightarrow> map_of (response_message header msg) k = map_of msg k"
  by (simp add: response_message_def InjectResponseHeader_def setInt_def setString_def)

lemma parse_response_header:
  "int64 (rh_Uptime header) \<Longrightarrow> message_get msg FieldVersion = [] \<Longrightarrow>
     parseResponseHeader (response_message header msg) = Inr header"
  by (simp add: response_message_def parseResponseHeader_inject)

lemma rwi_response_received:
  assumes "rwi_response_fits r"
  shows "ParseTransferRWIResponse (response_message (tr_Header r) (TransferRWIResponse_Encode r)) =
    Inr (r\<lparr>tr_UnknownURLFieldPresent := True\<rparr>)"
proof -
  let ?e = "TransferRWIResponse_Encode r" and ?m = "response_message (tr_Header r) (TransferRWIResponse_Encode r)"
  have e: "message_get ?e FieldPause = format_int (tr_Pause r)"
    "message_get ?e FieldResult = tr_Result r" "message_get ?e FieldVersion = []"
    "message_get ?e FieldUnknownURL = joinHashes (tr_UnknownURL r)" "map_of ?e FieldUnknownURL \<noteq> None"
    "message_get ?e FieldErrorURL = joinHashes (tr_ErrorURL r)"
    using rwi_results_nonempty assms
    by (auto simp: TransferRWIResponse_Encode_def Let_def common_fields transfer_fields rwi_response_fits_def)
  have m: "message_get ?m FieldPause = format_int (tr_Pause r)" "message_get ?m FieldResult = tr_Result r"
    "message_get ?m FieldUnknownURL = joinHashes (tr_UnknownURL r)"
    "message_get ?m FieldErrorURL = joinHashes (tr_ErrorURL r)"
    using e by (simp_all add: message_get_response_message) (simp_all add: common_fields transfer_fields)
  have p: "map_of ?m FieldUnknownURL \<noteq> None"
    using e(5) by (subst map_of_response_message) (simp_all add: common_fields transfer_fields)
  have h: "parseResponseHeader ?m = Inr (tr_Header r)"
    using assms e(3) by (intro parse_response_header) (simp_all add: rwi_response_fits_def)
  show ?thesis
    using ParseTransferRWIResponse_fields [OF h, of "tr_Pause r" "tr_UnknownURL r" "tr_ErrorURL r"] m p assms
    by (simp add: rwi_response_fits_def splitHashes_join)
qed

section \<open>Round trips of the transfer of metadata rows\<close>

lemma indexedKey_inject [simp]: "indexedKey p i = indexedKey p j \<longleftrightarrow> i = j"
  by (metis append_eq_append_conv decimal_value_format indexedKey_def same_append_eq)

lemma form_get_put_rows:
  "form_get (put_rows i rows form) (indexedKey prefixURL k) =
     (if i \<le> k \<and> k < i + length rows then URIMetadataRow_String (rows ! (k - i))
      else form_get form (indexedKey prefixURL k))"
proof (induction rows arbitrary: i form k)
  case Nil
  then show ?case by auto
next
  case (Cons row rows)
  have ne: "URIMetadataRow_String row \<noteq> []" by (simp add: URIMetadataRow_String_def)
  consider "k < i" | "k = i" | "k > i" by linarith
  then show ?case by cases (auto simp: Cons.IH ne nth_Cons' Suc_diff_Suc)
qed

lemma form_get_put_rows_other:
  "\<forall>j. k \<noteq> indexedKey prefixURL j \<Longrightarrow> form_get (put_rows i rows form) k = form_get form k \<and>
     form_has (put_rows i rows form) k = form_has form k"
  by (induction rows arbitrary: i form) auto

lemma plain_field_not_indexed:
  "k \<in> {FieldNetworkName, FieldIam, FieldYouAre, FieldURLCount, FieldKey, FieldMagicMD5} \<Longrightarrow>
     k \<noteq> indexedKey prefixURL j"
proof
  assume k: "k \<in> {FieldNetworkName, FieldIam, FieldYouAre, FieldURLCount, FieldKey, FieldMagicMD5}"
    and e: "k = indexedKey prefixURL j"
  have "take 3 k = ''url''" "list_all is_digit (drop 3 k)"
    using format_uint_digits by (simp_all add: e indexedKey_def prefixURL_def)
  then show False using k by (auto simp: common_fields transfer_fields is_digit_def)
qed

definition url_request_fits :: "TransferURLRequest \<Rightarrow> bool" where
  "url_request_fits r \<longleftrightarrow> hash_or_empty (uq_Iam r) \<and> hash_or_empty (uq_YouAre r) \<and>
     uq_URLCount r = int (length (uq_URLs r)) \<and> length (uq_URLs r) \<le> MaximumTransferEntries \<and>
     list_all (\<lambda>row. wf_row row \<and> plain_map (Meta_Properties row)) (uq_URLs r)"

lemma parse_put_rows:
  assumes "\<forall>k. k < length rows \<longrightarrow> form_get form (indexedKey prefixURL (i + k)) = URIMetadataRow_String (rows ! k)"
    and "list_all (\<lambda>row. wf_row row \<and> plain_map (Meta_Properties row)) rows"
    and "\<forall>k. \<not> cancelled k"
  shows "\<exists>rows'. parse_url_rows cancelled form [i..<i + length rows] = Some rows' \<and> list_all2 same_row rows rows'"
  using assms
proof (induction rows arbitrary: i)
  case Nil
  then show ?case by simp
next
  case (Cons row rows)
  have r: "form_get form (indexedKey prefixURL i) = URIMetadataRow_String row"
    using Cons.prems(1) [rule_format, of 0] by simp
  obtain row' where row': "ParseURIMetadataRow (URIMetadataRow_String row) = Inr row'" "same_row row row'"
    using ParseURIMetadataRow_String [of row] Cons.prems(2) by (auto simp: same_row_def)
  have "\<forall>k. k < length rows \<longrightarrow>
      form_get form (indexedKey prefixURL (Suc i + k)) = URIMetadataRow_String (rows ! k)"
    using Cons.prems(1) by (metis add_Suc_shift length_Cons not_less_eq nth_Cons_Suc)
  moreover have "list_all (\<lambda>row. wf_row row \<and> plain_map (Meta_Properties row)) rows"
    using Cons.prems(2) by simp
  ultimately obtain rows' where rows': "parse_url_rows cancelled form [Suc i..<Suc i + length rows] = Some rows'"
      "list_all2 same_row rows rows'"
    using Cons.IH [OF _ _ Cons.prems(3)] by blast
  have "[i..<i + length (row # rows)] = i # [Suc i..<Suc i + length rows]" by (simp add: upt_rec)
  moreover have "URIMetadataRow_String row \<noteq> []" by (simp add: URIMetadataRow_String_def)
  ultimately show ?case using r row' rows' spec [OF Cons.prems(3), of i] by (simp add: Let_def del: upt_Suc)
qed

lemma url_request_received:
  assumes "url_request_fits r" "\<forall>k. \<not> cancelled k"
  shows "\<exists>rows. ParseTransferURLRequest cancelled (TransferURLRequest_Form r) =
      Inr (r\<lparr>uq_NetworkNamePresent := uq_NetworkNamePresent r \<or> uq_NetworkName r \<noteq> [], uq_URLs := rows\<rparr>) \<and>
    list_all2 same_row (uq_URLs r) rows"
proof -
  let ?f = "TransferURLRequest_Form r"
  have n: "nat (uq_URLCount r) = length (uq_URLs r)" "uq_URLCount r \<le> int MaximumTransferEntries"
    "int64 (uq_URLCount r)"
    using assms(1) by (auto simp: url_request_fits_def MaximumTransferEntries_def int64_def)
  obtain rows where rows: "parse_url_rows cancelled ?f [0..<length (uq_URLs r)] = Some rows"
      "list_all2 same_row (uq_URLs r) rows"
    using parse_put_rows [of "uq_URLs r" ?f 0 cancelled] assms
    by (auto simp: url_request_fits_def TransferURLRequest_Form_def Let_def form_get_put_rows)
  note other = form_get_put_rows_other [OF allI, OF plain_field_not_indexed]
  have f: "form_get ?f FieldIam = uq_Iam r" "form_get ?f FieldYouAre = uq_YouAre r"
    "form_get ?f FieldURLCount = format_int (uq_URLCount r)"
    "form_get ?f FieldKey = uq_Key r" "form_get ?f FieldMagicMD5 = uq_MagicMD5 r"
    "form_get ?f FieldNetworkName = uq_NetworkName r"
    "form_has ?f FieldNetworkName \<longleftrightarrow> uq_NetworkNamePresent r \<or> uq_NetworkName r \<noteq> []"
    unfolding TransferURLRequest_Form_def Let_def by (simp_all add: other)
      (auto simp: common_fields transfer_fields)
  have "ParseTransferURLRequest cancelled ?f =
      Inr (r\<lparr>uq_NetworkNamePresent := uq_NetworkNamePresent r \<or> uq_NetworkName r \<noteq> [], uq_URLs := rows\<rparr>)"
    using assms(1) n rows(1)
    by (simp add: ParseTransferURLRequest_def f parseNetworkName_def parseHashField_ok url_request_fits_def)
  then show ?thesis using rows(2) by blast
qed

definition url_response_fits :: "TransferURLResponse \<Rightarrow> bool" where
  "url_response_fits r \<longleftrightarrow> int64 (rh_Uptime (tu_Header r)) \<and> int64 (tu_Double r) \<and>
     tu_Result r \<in> {[], ResultOK, ResultWrongTarget, ResultErrorNotGranted} \<and>
     list_all Hash_Valid (tu_ErrorURL r)"

lemma ParseTransferURLResponse_fields:
  assumes "parseResponseHeader m = Inr header" "optionalInt FieldDouble (message_get m FieldDouble) = Inr double"
    and "message_get m FieldResult \<in> {[], ResultOK, ResultWrongTarget, ResultErrorNotGranted}"
    and "splitHashes FieldErrorURL (message_get m FieldErrorURL) = Inr errors"
  shows "ParseTransferURLResponse m = Inr \<lparr>tu_Header = header, tu_Result = message_get m FieldResult,
     tu_Double = double, tu_ErrorURL = errors\<rparr>"
  using assms by (auto simp: ParseTransferURLResponse_def parseTransferURLResult_def)

lemma url_response_received:
  assumes "url_response_fits r"
  shows "ParseTransferURLResponse (response_message (tu_Header r) (TransferURLResponse_Encode r)) = Inr r"
proof -
  let ?e = "TransferURLResponse_Encode r" and ?m = "response_message (tu_Header r) (TransferURLResponse_Encode r)"
  have e: "message_get ?e FieldResult = tu_Result r" "message_get ?e FieldVersion = []"
    "message_get ?e FieldErrorURL = joinHashes (tu_ErrorURL r)"
    "optionalInt FieldDouble (message_get ?e FieldDouble) = Inr (tu_Double r)"
    using assms by (auto simp: TransferURLResponse_Encode_def Let_def common_fields transfer_fields
        joinHashes_def url_response_fits_def)
  have m: "message_get ?m FieldDouble = message_get ?e FieldDouble" "message_get ?m FieldResult = tu_Result r"
    "message_get ?m FieldErrorURL = joinHashes (tu_ErrorURL r)"
    using e by (simp_all add: message_get_response_message) (simp_all add: common_fields transfer_fields)
  have h: "parseResponseHeader ?m = Inr (tu_Header r)"
    using assms e(2) by (intro parse_response_header) (simp_all add: url_response_fits_def)
  have "optionalInt FieldDouble (message_get ?m FieldDouble) = Inr (tu_Double r)"
    using e(4) m(1) by simp
  then show ?thesis
    using ParseTransferURLResponse_fields [OF h, of "tu_Double r" "tu_ErrorURL r"] m assms
    by (simp add: url_response_fits_def splitHashes_join)
qed

end
