(* ===== verification/IndexHandoff.thy ===== *)
theory IndexHandoff
  imports TransferMessages OutboundQueue
begin

text \<open>
  \<^verbatim>\<open>yagonode/internal/indextransfer\<close>: the handoff of postings to one peer. The postings are sent
  first; the peer answers with the addresses it does not know and with those it rejects; the
  metadata rows of the unknown ones are looked up and sent in a second message. The writer of the
  messages and the directory of the metadata rows are parameters. A handoff is accepted, rejected
  (the peer refused, or its answer was malformed), or failed in between. The lemmas show what an
  accepted handoff tells about each posting.
\<close>

section \<open>Answers\<close>

text \<open>An error of a transfer is a bad field of the answer or anything else.\<close>

datatype transfer_failure = BadField | TransportFailed

datatype handoff_error = TransferRWIFailed transfer_failure | MissingUnknownURLField
  | RowLookupFailed | TransferURLFailed transfer_failure

datatype HandoffState = HandoffNone | HandoffRWIOnly | HandoffURLSent | HandoffRWIRejected
  | HandoffURLRejected

record HandoffReceipt =
  hr_State :: HandoffState
  hr_RWI :: TransferRWIResponse
  hr_URL :: TransferURLResponse
  hr_RemoteUnknownURL :: "Hash list"
  hr_RejectedPostings :: "RWIPosting list"
  hr_SentURLRows :: nat

record 'a PeerWriter =
  pw_TransferRWI :: "'a Seed \<Rightarrow> RWIPosting list \<Rightarrow> TransferRWIResponse \<times> transfer_failure option"
  pw_TransferURL :: "'a Seed \<Rightarrow> URIMetadataRow list \<Rightarrow> TransferURLResponse \<times> transfer_failure option"

definition no_url_response :: TransferURLResponse where
  "no_url_response = \<lparr>tu_Header = no_header, tu_Result = [], tu_Double = 0, tu_ErrorURL = []\<rparr>"

definition no_rwi_response :: TransferRWIResponse where
  "no_rwi_response = \<lparr>tr_Header = no_header, tr_Result = [], tr_Pause = 0, tr_UnknownURL = [], tr_ErrorURL = [],
     tr_UnknownURLFieldPresent = False\<rparr>"

definition no_handoff :: HandoffReceipt where
  "no_handoff = \<lparr>hr_State = HandoffNone, hr_RWI = no_rwi_response, hr_URL = no_url_response,
     hr_RemoteUnknownURL = [], hr_RejectedPostings = [], hr_SentURLRows = 0\<rparr>"

section \<open>The outcome of each posting\<close>

text \<open>The set of rejected addresses is a list; only membership is read.\<close>

definition rejected_without :: "Hash list \<Rightarrow> Hash list \<Rightarrow> Hash list" where
  "rejected_without rejected urls = filter (\<lambda>url. url \<notin> set rejected) urls"

definition rejected_postings :: "Hash list \<Rightarrow> RWIPosting list \<Rightarrow> RWIPosting list" where
  "rejected_postings rejected postings = filter (\<lambda>p. case RWIPosting_URLHash p of
     Inl _ \<Rightarrow> False | Inr url \<Rightarrow> url \<in> set rejected) postings"

definition missingMetadataURLs :: "Hash list \<Rightarrow> URIMetadataRow list \<Rightarrow> Hash list" where
  "missingMetadataURLs requested rows =
     (let available = List.map_filter (\<lambda>row. case URIMetadataRow_URLHash row of
        Inl _ \<Rightarrow> None | Inr url \<Rightarrow> Some url) rows
      in filter (\<lambda>url. url \<notin> set available) requested)"

definition Send ::
  "'a PeerWriter \<Rightarrow> (Hash list \<Rightarrow> URIMetadataRow list option) \<Rightarrow> 'a Seed \<Rightarrow> RWIPosting list \<Rightarrow>
     HandoffReceipt \<times> handoff_error option" where
  "Send writer rowsByHash peer postings = (case pw_TransferRWI writer peer postings of
     (rwi, failure) \<Rightarrow>
       let receipt = no_handoff\<lparr>hr_RWI := rwi, hr_RemoteUnknownURL := tr_UnknownURL rwi\<rparr>
       in (case failure of
         Some f \<Rightarrow> ((if f = BadField then receipt\<lparr>hr_State := HandoffRWIRejected\<rparr> else receipt),
             Some (TransferRWIFailed f))
       | None \<Rightarrow>
           if tr_Result rwi = ResultOK \<and> \<not> tr_UnknownURLFieldPresent rwi
           then (receipt\<lparr>hr_State := HandoffRWIRejected\<rparr>, Some MissingUnknownURLField)
           else if tr_Result rwi \<noteq> ResultOK then (receipt\<lparr>hr_State := HandoffRWIRejected\<rparr>, None)
           else
             let rejected = tr_ErrorURL rwi;
                 unknown = rejected_without rejected (tr_UnknownURL rwi)
             in if unknown = []
                then (receipt\<lparr>hr_State := HandoffRWIOnly,
                    hr_RejectedPostings := rejected_postings rejected postings\<rparr>, None)
                else (case rowsByHash unknown of
                  None \<Rightarrow> (receipt, Some RowLookupFailed)
                | Some rows \<Rightarrow>
                    let rejected = rejected @ missingMetadataURLs unknown rows
                    in (case pw_TransferURL writer peer rows of
                      (urls, failure) \<Rightarrow>
                        let receipt = receipt\<lparr>hr_URL := urls, hr_SentURLRows := length rows\<rparr>
                        in (case failure of
                          Some f \<Rightarrow> ((if f = BadField then receipt\<lparr>hr_State := HandoffURLRejected\<rparr>
                              else receipt), Some (TransferURLFailed f))
                        | None \<Rightarrow>
                            if tu_Result urls \<noteq> ResultOK
                            then (receipt\<lparr>hr_State := HandoffURLRejected\<rparr>, None)
                            else (receipt\<lparr>hr_State := HandoffURLSent, hr_RejectedPostings :=
                                rejected_postings (rejected @ tu_ErrorURL urls) postings\<rparr>, None))))))"

definition handoffAccepted :: "HandoffState \<Rightarrow> bool" where
  "handoffAccepted state \<longleftrightarrow> state = HandoffRWIOnly \<or> state = HandoffURLSent"

definition handoffRejected :: "HandoffState \<Rightarrow> bool" where
  "handoffRejected state \<longleftrightarrow> state = HandoffRWIRejected \<or> state = HandoffURLRejected"

section \<open>Accepted handoffs\<close>

lemma in_rejected_postings:
  "p \<in> set (rejected_postings rejected postings) \<longleftrightarrow>
     p \<in> set postings \<and> (\<exists>url\<in>set rejected. RWIPosting_URLHash p = Inr url)"
  by (auto simp: rejected_postings_def split: sum.splits)

lemma in_missing_metadata:
  "url \<in> set (missingMetadataURLs requested rows) \<longleftrightarrow>
     url \<in> set requested \<and> (\<forall>row\<in>set rows. URIMetadataRow_URLHash row \<noteq> Inr url)"
  by (force simp: missingMetadataURLs_def map_filter_def split: sum.splits)

lemma Send_accepted_cases:
  assumes "Send writer rowsByHash peer postings = (receipt, failure)"
    and "handoffAccepted (hr_State receipt)"
  obtains rwi where "pw_TransferRWI writer peer postings = (rwi, None)" "tr_Result rwi = ResultOK"
      "tr_UnknownURLFieldPresent rwi" "failure = None" "set (tr_UnknownURL rwi) \<subseteq> set (tr_ErrorURL rwi)"
      "hr_RejectedPostings receipt = rejected_postings (tr_ErrorURL rwi) postings"
  | rwi rows urls where "pw_TransferRWI writer peer postings = (rwi, None)" "tr_Result rwi = ResultOK"
      "tr_UnknownURLFieldPresent rwi" "failure = None"
      "rowsByHash (rejected_without (tr_ErrorURL rwi) (tr_UnknownURL rwi)) = Some rows"
      "pw_TransferURL writer peer rows = (urls, None)" "tu_Result urls = ResultOK"
      "hr_RejectedPostings receipt = rejected_postings ((tr_ErrorURL rwi @
         missingMetadataURLs (rejected_without (tr_ErrorURL rwi) (tr_UnknownURL rwi)) rows) @
         tu_ErrorURL urls) postings"
proof -
  obtain rwi f where r: "pw_TransferRWI writer peer postings = (rwi, f)"
    by (cases "pw_TransferRWI writer peer postings")
  have f: "f = None" and ok: "tr_Result rwi = ResultOK" "tr_UnknownURLFieldPresent rwi"
    using assms r by (auto simp: Send_def Let_def handoffAccepted_def no_handoff_def
        split: option.splits if_split_asm)
  show thesis
  proof (cases "rejected_without (tr_ErrorURL rwi) (tr_UnknownURL rwi) = []")
    case True
    then have "set (tr_UnknownURL rwi) \<subseteq> set (tr_ErrorURL rwi)"
      by (auto simp: rejected_without_def filter_empty_conv)
    then show thesis using that(1) [of rwi] assms r f ok True by (auto simp: Send_def Let_def)
  next
    case False
    then obtain rows where rows: "rowsByHash (rejected_without (tr_ErrorURL rwi) (tr_UnknownURL rwi)) = Some rows"
      using assms r f ok by (auto simp: Send_def Let_def handoffAccepted_def no_handoff_def split: option.splits)
    obtain urls g where u: "pw_TransferURL writer peer rows = (urls, g)"
      by (cases "pw_TransferURL writer peer rows")
    have g: "g = None" and ok': "tu_Result urls = ResultOK"
      using assms r f ok False rows u by (auto simp: Send_def Let_def handoffAccepted_def no_handoff_def
          split: option.splits if_split_asm)
    show thesis
      by (rule that(2) [OF r [unfolded f] ok _ rows u [unfolded g] ok'])
        (use assms r f ok False rows u g ok' in \<open>auto simp: Send_def Let_def\<close>)
  qed
qed

text \<open>C22: A handoff is accepted only after the peer took the postings: it answered that it did, every
  posting of an address that it rejected, or whose metadata it does not have and was not sent, is
  reported as rejected, and only postings that were sent are.\<close>

theorem handoff_accepted_complete:
  assumes "Send writer rowsByHash peer postings = (receipt, failure)"
    and "handoffAccepted (hr_State receipt)"
  shows "\<exists>rwi. pw_TransferRWI writer peer postings = (rwi, None) \<and> tr_Result rwi = ResultOK \<and> failure = None \<and>
    set (hr_RejectedPostings receipt) \<subseteq> set postings \<and>
    (\<forall>p\<in>set postings. p \<notin> set (hr_RejectedPostings receipt) \<longrightarrow>
      (\<forall>url. RWIPosting_URLHash p = Inr url \<longrightarrow> url \<notin> set (tr_ErrorURL rwi) \<and>
        (url \<in> set (tr_UnknownURL rwi) \<longrightarrow> (\<exists>rows urls.
          rowsByHash (rejected_without (tr_ErrorURL rwi) (tr_UnknownURL rwi)) = Some rows \<and>
          pw_TransferURL writer peer rows = (urls, None) \<and> tu_Result urls = ResultOK \<and>
          url \<notin> set (tu_ErrorURL urls) \<and> (\<exists>row\<in>set rows. URIMetadataRow_URLHash row = Inr url)))))"
  using assms
proof (rule Send_accepted_cases)
  fix rwi :: TransferRWIResponse
  assume a: "pw_TransferRWI writer peer postings = (rwi, None)" "tr_Result rwi = ResultOK" "failure = None"
    "set (tr_UnknownURL rwi) \<subseteq> set (tr_ErrorURL rwi)"
    "hr_RejectedPostings receipt = rejected_postings (tr_ErrorURL rwi) postings"
  show ?thesis by (rule exI [of _ rwi]) (use a in \<open>auto simp: in_rejected_postings\<close>)
next
  fix rwi :: TransferRWIResponse and rows :: "URIMetadataRow list" and urls :: TransferURLResponse
  let ?unknown = "rejected_without (tr_ErrorURL rwi) (tr_UnknownURL rwi)"
  assume a: "pw_TransferRWI writer peer postings = (rwi, None)" "tr_Result rwi = ResultOK" "failure = None"
    "rowsByHash ?unknown = Some rows" "pw_TransferURL writer peer rows = (urls, None)"
    "tu_Result urls = ResultOK"
    and r: "hr_RejectedPostings receipt = rejected_postings ((tr_ErrorURL rwi @
         missingMetadataURLs ?unknown rows) @ tu_ErrorURL urls) postings"
  have clean: "url \<notin> set (tr_ErrorURL rwi) \<and> url \<notin> set (tu_ErrorURL urls) \<and>
      (url \<in> set (tr_UnknownURL rwi) \<longrightarrow> (\<exists>row\<in>set rows. URIMetadataRow_URLHash row = Inr url))"
    if "p \<in> set postings" "p \<notin> set (hr_RejectedPostings receipt)" "RWIPosting_URLHash p = Inr url" for p url
  proof -
    have "url \<notin> set ((tr_ErrorURL rwi @ missingMetadataURLs ?unknown rows) @ tu_ErrorURL urls)"
      using that by (auto simp: r in_rejected_postings)
    then show ?thesis by (auto simp: in_missing_metadata rejected_without_def)
  qed
  have sub: "set (hr_RejectedPostings receipt) \<subseteq> set postings" by (auto simp: r in_rejected_postings)
  show ?thesis
  proof (rule exI [of _ rwi], intro conjI)
    show "\<forall>p\<in>set postings. p \<notin> set (hr_RejectedPostings receipt) \<longrightarrow>
      (\<forall>url. RWIPosting_URLHash p = Inr url \<longrightarrow> url \<notin> set (tr_ErrorURL rwi) \<and>
        (url \<in> set (tr_UnknownURL rwi) \<longrightarrow> (\<exists>rows urls.
          rowsByHash ?unknown = Some rows \<and> pw_TransferURL writer peer rows = (urls, None) \<and>
          tu_Result urls = ResultOK \<and> url \<notin> set (tu_ErrorURL urls) \<and>
          (\<exists>row\<in>set rows. URIMetadataRow_URLHash row = Inr url))))"
      using clean a by blast
  qed (use a sub in auto)
qed

definition example_writer :: "string PeerWriter" where
  "example_writer = \<lparr>pw_TransferRWI = (\<lambda>_ ps. (no_rwi_response\<lparr>tr_Result := ResultOK,
       tr_UnknownURL := [''BBBBBBCCCCCC''], tr_UnknownURLFieldPresent := True\<rparr>, None)),
     pw_TransferURL = (\<lambda>_ rows. (no_url_response\<lparr>tu_Result := ResultOK\<rparr>, None))\<rparr>"

lemma example_send:
  "Send example_writer (\<lambda>_. Some []) example_receiver [example_posting] =
     (no_handoff\<lparr>hr_RWI := fst (pw_TransferRWI example_writer example_receiver [example_posting]),
        hr_RemoteUnknownURL := [''BBBBBBCCCCCC''], hr_URL := no_url_response\<lparr>tu_Result := ResultOK\<rparr>,
        hr_State := HandoffURLSent, hr_RejectedPostings := [example_posting]\<rparr>, None)"
proof -
  have "RWIPosting_URLHash example_posting = Inr ''BBBBBBCCCCCC''"
    by (simp add: RWIPosting_URLHash_def example_posting_def get_or_def column_defs ParseHash_iff Alphabet_def)
  then show ?thesis
    by (simp add: Send_def example_writer_def no_rwi_response_def no_url_response_def rejected_without_def
        missingMetadataURLs_def map_filter_simps rejected_postings_def no_handoff_def)
qed

lemma handoff_accepted_complete_witness:
  "\<exists>rwi. pw_TransferRWI example_writer example_receiver [example_posting] = (rwi, None) \<and>
     tr_Result rwi = ResultOK \<and>
     set (hr_RejectedPostings (fst (Send example_writer (\<lambda>_. Some []) example_receiver [example_posting]))) \<subseteq>
       set [example_posting]"
  using handoff_accepted_complete [OF example_send] unfolding example_send
  by (auto simp: handoffAccepted_def no_handoff_def)

end
