(* ===== verification/Float64.thy ===== *)
theory Float64
  imports Complex_Main "HOL-Library.Log_Nat"
begin

text \<open>
  Go's \<^verbatim>\<open>float64\<close>, as far as the program computes with it: the numbers are rationals, each
  operation is the exact one rounded to 53 significant bits (ties to even), with the infinities, NaN
  and the subnormal range of IEEE 754; the sign of a zero is not kept, since nothing divides by a zero
  here. The language leaves open what a conversion of NaN or of a value out of range to \<^verbatim>\<open>int64\<close>
  gives, so that conversion takes the platform's answer as an argument. The lemmas bound what a
  rounding changes.
\<close>

section \<open>Rounding\<close>

datatype float64 = Number rat | PosInf | NegInf | NaN

definition round_half_even :: "rat \<Rightarrow> int" where
  "round_half_even x =
     (let f = \<lfloor>x\<rfloor>; r = x - of_int f
      in if r < 1 / 2 \<or> r = 1 / 2 \<and> even f then f else f + 1)"

text \<open>The binade of a positive number: the exponent of the largest power of two that is not above it.\<close>

definition binade :: "rat \<Rightarrow> int" where
  "binade x =
     (let (n, d) = quotient_of x; k = int (floorlog 2 (nat n)) - int (floorlog 2 (nat d))
      in if 2 powi k \<le> x then k else k - 1)"

definition unit_last_place :: "rat \<Rightarrow> rat" where
  "unit_last_place x = 2 powi (max (binade x - 52) (- 1074))"

definition round_significand :: "rat \<Rightarrow> rat" where
  "round_significand x =
     (if x = 0 then 0
      else of_int (round_half_even (x / unit_last_place x)) * unit_last_place x)"

definition float_of :: "rat \<Rightarrow> float64" where
  "float_of x =
     (let m = round_significand \<bar>x\<bar>
      in if m \<ge> 2 ^ 1024 then (if x < 0 then NegInf else PosInf)
         else Number (if x < 0 then - m else m))"

section \<open>Operations\<close>

fun float_less :: "float64 \<Rightarrow> float64 \<Rightarrow> bool" where
  "float_less (Number x) (Number y) \<longleftrightarrow> x < y"
| "float_less NaN _ \<longleftrightarrow> False"
| "float_less _ NaN \<longleftrightarrow> False"
| "float_less NegInf y \<longleftrightarrow> y \<noteq> NegInf"
| "float_less x PosInf \<longleftrightarrow> x \<noteq> PosInf"
| "float_less _ _ \<longleftrightarrow> False"

fun float_minus :: "float64 \<Rightarrow> float64 \<Rightarrow> float64" where
  "float_minus (Number x) (Number y) = float_of (x - y)"
| "float_minus NaN _ = NaN"
| "float_minus _ NaN = NaN"
| "float_minus PosInf PosInf = NaN"
| "float_minus NegInf NegInf = NaN"
| "float_minus PosInf _ = PosInf"
| "float_minus NegInf _ = NegInf"
| "float_minus _ PosInf = NegInf"
| "float_minus _ NegInf = PosInf"

definition signed_infinity :: "bool \<Rightarrow> float64" where
  "signed_infinity negative = (if negative then NegInf else PosInf)"

fun float_times :: "float64 \<Rightarrow> float64 \<Rightarrow> float64" where
  "float_times (Number x) (Number y) = float_of (x * y)"
| "float_times NaN _ = NaN"
| "float_times _ NaN = NaN"
| "float_times (Number x) y =
     (if x = 0 then NaN else signed_infinity ((x < 0) \<noteq> (y = NegInf)))"
| "float_times x (Number y) =
     (if y = 0 then NaN else signed_infinity ((y < 0) \<noteq> (x = NegInf)))"
| "float_times x y = signed_infinity (x \<noteq> y)"

text \<open>Division by a constant that is not zero.\<close>

fun float_over :: "float64 \<Rightarrow> rat \<Rightarrow> float64" where
  "float_over (Number x) c = float_of (x / c)"
| "float_over NaN c = NaN"
| "float_over x c = signed_infinity ((x = NegInf) \<noteq> (c < 0))"

text \<open>The conversion of an integer rounds too; the conversion back cuts the fraction off.\<close>

definition float_of_int :: "int \<Rightarrow> float64" where
  "float_of_int n = float_of (of_int n)"

definition truncated :: "rat \<Rightarrow> int" where
  "truncated x = (if x < 0 then \<lceil>x\<rceil> else \<lfloor>x\<rfloor>)"

definition int64_of_float :: "(float64 \<Rightarrow> int) \<Rightarrow> float64 \<Rightarrow> int" where
  "int64_of_float unrepresentable x =
     (case x of
        Number q \<Rightarrow> (if - (2 ^ 63) \<le> truncated q \<and> truncated q < 2 ^ 63 then truncated q
          else unrepresentable x)
      | _ \<Rightarrow> unrepresentable x)"

section \<open>What a rounding changes\<close>

lemma round_half_even_bounds:
  "of_int (round_half_even x) - 1 / 2 \<le> x" "x \<le> of_int (round_half_even x) + 1 / 2"
proof -
  have "of_int \<lfloor>x\<rfloor> \<le> x" "x < of_int \<lfloor>x\<rfloor> + 1" using floor_correct [of x] by simp_all
  then show "of_int (round_half_even x) - 1 / 2 \<le> x" "x \<le> of_int (round_half_even x) + 1 / 2"
    unfolding round_half_even_def Let_def by (auto split: if_split) linarith+
qed

lemma round_half_even_le: "x \<le> of_int n \<Longrightarrow> round_half_even x \<le> n"
proof -
  assume a: "x \<le> of_int n"
  have f: "\<lfloor>x\<rfloor> \<le> n" using a by (simp add: floor_le_iff)
  show ?thesis
  proof (cases "\<lfloor>x\<rfloor> = n")
    case True
    then have "x - of_int \<lfloor>x\<rfloor> < 1 / 2" using a by simp
    then show ?thesis using f by (simp add: round_half_even_def Let_def)
  next
    case False
    then show ?thesis using f by (simp add: round_half_even_def Let_def)
  qed
qed

lemma round_half_even_int [simp]: "round_half_even (of_int n) = n"
  by (simp add: round_half_even_def)

lemma round_half_even_nonneg: "0 \<le> x \<Longrightarrow> 0 \<le> round_half_even x"
  by (auto simp: round_half_even_def Let_def)

lemma binade_bounds:
  assumes "0 < x"
  shows "2 powi binade x \<le> x \<and> x < 2 * 2 powi binade x"
proof -
  obtain n d where q: "quotient_of x = (n, d)" by (cases "quotient_of x")
  have d: "0 < d" using q quotient_of_denom_pos by blast
  have x: "x = of_int n / of_int d" using q by (rule quotient_of_div)
  have n: "0 < n" using assms d unfolding x by (simp add: zero_less_divide_iff)
  let ?a = "floorlog 2 (nat n)" let ?b = "floorlog 2 (nat d)"
  have fl: "2 ^ (?a - 1) \<le> nat n \<and> nat n < 2 ^ ?a" "2 ^ (?b - 1) \<le> nat d \<and> nat d < 2 ^ ?b"
    using floorlog_bounds [of "nat n" 2] floorlog_bounds [of "nat d" 2] n d by simp_all
  have pos: "0 < ?a" "0 < ?b" using n d by (simp_all add: floorlog_def)
  have double: "2 ^ a \<le> 2 * (of_nat m :: rat)" "of_nat m < (2 :: rat) ^ a"
    if m: "2 ^ (a - 1) \<le> m \<and> m < 2 ^ a" and a: "0 < a" for a m :: nat
  proof -
    have "2 ^ a \<le> 2 * m" using m a by (cases a) auto
    then have "of_nat (2 ^ a) \<le> (of_nat (2 * m) :: rat)" by (simp only: of_nat_le_iff)
    then show "2 ^ a \<le> 2 * (of_nat m :: rat)" by simp
    have "of_nat m < (of_nat (2 ^ a) :: rat)" using m by (simp only: of_nat_less_iff)
    then show "of_nat m < (2 :: rat) ^ a" by simp
  qed
  have na: "2 ^ ?a \<le> 2 * (of_int n :: rat)" "of_int n < (2 :: rat) ^ ?a"
    using double [OF fl(1) pos(1)] n by simp_all
  have da: "2 ^ ?b \<le> 2 * (of_int d :: rat)" "of_int d < (2 :: rat) ^ ?b"
    using double [OF fl(2) pos(2)] d by simp_all
  let ?k = "int ?a - int ?b"
  have p: "(2 :: rat) powi ?k = 2 ^ ?a / 2 ^ ?b" by (simp add: power_int_diff)
  have up: "x < 2 * 2 powi ?k"
  proof -
    have "of_int n * 2 ^ ?b < 2 ^ ?a * (2 * of_int d :: rat)"
      using na da n d by (intro mult_less_le_imp_less) auto
    then show ?thesis unfolding p x using d by (simp add: field_simps)
  qed
  have lo: "2 powi ?k \<le> 2 * x"
  proof -
    have "2 ^ ?a * of_int d \<le> (2 * of_int n) * (2 ^ ?b :: rat)"
      using na da n d by (intro mult_mono) auto
    then show ?thesis unfolding p x using d by (simp add: field_simps)
  qed
  have h: "2 * (2 :: rat) powi (?k - 1) = 2 powi ?k" by (simp add: power_int_diff)
  show ?thesis
  proof (cases "2 powi ?k \<le> x")
    case True
    then have "binade x = ?k" using q by (simp add: binade_def)
    then show ?thesis using True up by simp
  next
    case False
    then have "binade x = ?k - 1" using q by (simp add: binade_def)
    then show ?thesis using False lo h by simp
  qed
qed

lemma powi_le: "m \<le> n \<Longrightarrow> (2 :: rat) powi m \<le> 2 powi n"
  by (rule power_int_increasing) auto

lemma powi_less_imp: "(2 :: rat) powi m < 2 powi n \<Longrightarrow> m < n"
  using powi_le [of n m] by linarith

lemma powi_nat: "(2 :: rat) powi (int k) = 2 ^ k"
  by simp

lemma unit_pos: "0 < unit_last_place x"
  by (simp add: unit_last_place_def)

lemma binade_less:
  assumes "0 < x" "x < 2 ^ k"
  shows "binade x < int k"
proof -
  have "(2 :: rat) powi binade x < 2 powi int k" using binade_bounds [OF assms(1)] assms(2) by simp
  then show ?thesis by (rule powi_less_imp)
qed

lemma rounding_error: "x \<noteq> 0 \<Longrightarrow> \<bar>round_significand x - x\<bar> \<le> unit_last_place x / 2"
proof -
  assume x: "x \<noteq> 0"
  let ?u = "unit_last_place x" let ?r = "round_half_even (x / ?u)"
  have u: "0 < ?u" by (rule unit_pos)
  have "\<bar>of_int ?r - x / ?u\<bar> \<le> 1 / 2" using round_half_even_bounds [of "x / ?u"] by linarith
  then have "\<bar>of_int ?r - x / ?u\<bar> * ?u \<le> 1 / 2 * ?u" using u by (intro mult_right_mono) auto
  moreover have "\<bar>of_int ?r - x / ?u\<bar> * ?u = \<bar>of_int ?r * ?u - x\<bar>"
    using u by (simp add: abs_mult_pos left_diff_distrib)
  ultimately show ?thesis using x by (simp add: round_significand_def)
qed

text \<open>An integer with at most 53 bits is a multiple of the unit of every number up to it.\<close>

lemma int_over_unit:
  assumes "0 < x" "x \<le> of_int n" "n \<le> 2 ^ 53"
  obtains m where "of_int n = of_int m * unit_last_place x"
proof (cases "x < 2 ^ 53")
  case True
  let ?e = "max (binade x - 52) (- 1074)"
  have "binade x < 53" using binade_less [OF assms(1), of 53] True by simp
  then have e: "?e \<le> 0" by simp
  have "unit_last_place x = inverse (2 ^ nat (- ?e))"
    using e by (cases "?e = 0") (simp_all add: unit_last_place_def power_int_def power_one_over inverse_eq_divide)
  then have "of_int n = of_int (n * 2 ^ nat (- ?e)) * unit_last_place x" by simp
  then show thesis by (rule that)
next
  case False
  have "of_int n \<le> (of_int (2 ^ 53) :: rat)" using assms(3) by (simp only: of_int_le_iff)
  then have "x = 2 ^ 53" "of_int n = (of_int (2 ^ 53) :: rat)" using False assms(2) by simp_all
  then have x: "x = 2 ^ 53" "n = 2 ^ 53" by (simp_all only: of_int_eq_iff)
  have b: "binade x \<le> 53"
  proof -
    have "(2 :: rat) powi binade x < 2 powi 54" using binade_bounds [OF assms(1)] x(1) by simp
    then show ?thesis using powi_less_imp by fastforce
  qed
  let ?e = "max (binade x - 52) (- 1074)"
  have "unit_last_place x * 2 powi (53 - ?e) = 2 powi 53"
    by (simp add: unit_last_place_def flip: power_int_add)
  moreover have "(2 :: rat) powi (53 - ?e) = of_int (2 ^ nat (53 - ?e))" using b by (simp add: power_int_def)
  ultimately have "of_int n = of_int (2 ^ nat (53 - ?e)) * unit_last_place x"
    using x(2) by (simp add: mult.commute)
  then show thesis by (rule that)
qed

lemma round_significand_le:
  assumes "0 \<le> x" "x \<le> of_int n" "n \<le> 2 ^ 53"
  shows "0 \<le> round_significand x \<and> round_significand x \<le> of_int n"
proof (cases "x = 0")
  case False
  then have x: "0 < x" using assms(1) by simp
  obtain m where m: "of_int n = of_int m * unit_last_place x" by (rule int_over_unit [OF x assms(2,3)])
  let ?u = "unit_last_place x"
  have u: "0 < ?u" by (rule unit_pos)
  have "x / ?u \<le> of_int m" using assms(2) u unfolding m by (simp add: pos_divide_le_eq)
  then have "round_half_even (x / ?u) \<le> m" by (rule round_half_even_le)
  then have "of_int (round_half_even (x / ?u)) * ?u \<le> of_int m * ?u" using u by simp
  moreover have "0 \<le> round_half_even (x / ?u)" using x u by (simp add: round_half_even_nonneg)
  ultimately show ?thesis using False u m by (simp add: round_significand_def)
qed (use assms in \<open>simp add: round_significand_def\<close>)

lemma round_significand_int:
  assumes "0 \<le> n" "n \<le> 2 ^ 53"
  shows "round_significand (of_int n) = of_int n"
proof (cases "n = 0")
  case False
  then have x: "0 < (of_int n :: rat)" using assms(1) by simp
  obtain m where m: "of_int n = of_int m * unit_last_place (of_int n)"
    by (rule int_over_unit [OF x order.refl assms(2)])
  have "of_int n / unit_last_place (of_int n) = (of_int m :: rat)"
    using m unit_pos [of "of_int n"] by (metis less_irrefl nonzero_mult_div_cancel_right)
  then show ?thesis using False m by (simp add: round_significand_def)
qed (simp add: round_significand_def)

text \<open>Up to \<open>2 ^ 53\<close> a rounding changes a number by at most one half, up to one by at most
  \<open>2 ^ -54\<close>.\<close>

lemma unit_bound:
  assumes "0 < x" "x < 2 ^ k" "k \<le> 53"
  shows "unit_last_place x \<le> 2 powi (int k - 53)"
  using binade_less [OF assms(1,2)] assms(3) unfolding unit_last_place_def by (intro powi_le) auto

lemma rounding_error_bound:
  assumes "0 \<le> x" "x \<le> 2 ^ k" "k \<le> 53"
  shows "\<bar>round_significand x - x\<bar> \<le> 2 powi (int k - 54)"
proof (cases "x = 0 \<or> x = 2 ^ k")
  case True
  have "(2::int) ^ k \<le> 2 ^ 53" using assms(3) by (intro power_increasing) auto
  then have "round_significand (of_int (2 ^ k)) = of_int (2 ^ k)" by (intro round_significand_int) auto
  then show ?thesis using True by (auto simp: round_significand_def)
next
  case False
  then have x: "0 < x" "x < 2 ^ k" using assms by auto
  have "2 * (2::rat) powi (int k - 54) = 2 powi (int k - 53)"
    using power_int_add_1 [of "2::rat" "int k - 54"] by simp
  then show ?thesis using rounding_error [of x] unit_bound [OF x assms(3)] x by simp
qed

lemma float_of_small:
  assumes "0 \<le> x" "x \<le> of_int n" "n \<le> 2 ^ 53"
  shows "float_of x = Number (round_significand x)"
proof -
  have "round_significand x \<le> of_int n" using round_significand_le [OF assms] by blast
  also have "of_int n \<le> (of_int (2 ^ 53) :: rat)" using assms(3) by (simp only: of_int_le_iff)
  also have "\<dots> < 2 ^ 1024" by simp
  finally show ?thesis using assms(1) by (simp add: float_of_def Let_def)
qed

lemma float_of_int_small: "0 \<le> n \<Longrightarrow> n \<le> 2 ^ 53 \<Longrightarrow> float_of_int n = Number (of_int n)"
  using float_of_small [of "of_int n" n] by (simp add: float_of_int_def round_significand_int)

lemma int64_of_small:
  assumes "0 \<le> x" "x \<le> of_int n" "n < 2 ^ 63"
  shows "int64_of_float u (Number x) = \<lfloor>x\<rfloor>"
proof -
  have "\<lfloor>x\<rfloor> \<le> n" using assms(2) by (simp add: floor_le_iff)
  moreover have "0 \<le> \<lfloor>x\<rfloor>" using assms(1) by simp
  ultimately have "- (2 ^ 63) \<le> \<lfloor>x\<rfloor>" "\<lfloor>x\<rfloor> < 2 ^ 63" using assms(3) by linarith+
  then show ?thesis using assms(1) by (simp add: int64_of_float_def truncated_def)
qed

end
