(* ===== verification/OutboundRetry.thy ===== *)
theory OutboundRetry
  imports IndexHandoff Float64
begin

text \<open>
  \<^verbatim>\<open>yagonode/internal/dhtexchange\<close>: the gates that decide whether postings go out at all, and the
  policy that makes a peer wait after a failed handoff. The delay doubles with each failure up to a
  limit and is reduced by a random part; a pause that the peer asks for is respected, and after
  some failures the peer is in quarantine. The random part is computed in floating point, as in the
  code, over the numbers of \<open>Float64\<close>; the lemmas on its size hold for delays up to \<open>2 ^ 53\<close>
  nanoseconds (104 days), the integers that a double represents exactly. What the platform's
  conversion of an unrepresentable number to an integer gives is an argument.
\<close>

section \<open>Gates\<close>

datatype GateName = GateOnlineCaution | GateLocalPeer | GateLocalPeerMature | GateNetworkSize
  | GateNetworkDHT | GateDistributionEnabled | GateLocalRWI | GateCrawlIdle | GateIndexIdle
  | GateStorageAvailable

record GateConfig =
  gc_NetworkDHTEnabled :: bool
  gc_DistributionEnabled :: bool
  gc_AllowWhileCrawling :: bool
  gc_AllowWhileIndexing :: bool
  gc_MinimumConnectedPeer :: int
  gc_MinimumRWIWord :: int

record GateState =
  gs_OnlineCaution :: string
  gs_LocalPeerKnown :: bool
  gs_LocalPeerVirgin :: bool
  gs_ConnectedPeers :: int
  gs_LocalRWIWords :: int
  gs_LocalRWIKnown :: bool
  gs_CrawlQueueSize :: int
  gs_CrawlQueueKnown :: bool
  gs_IndexQueueSize :: int
  gs_IndexQueueKnown :: bool
  gs_StorageAvailable :: bool
  gs_StorageKnown :: bool

record GateResult =
  gr_Name :: GateName
  gr_Open :: bool
  gr_Reason :: string

record GateReport =
  gp_Open :: bool
  gp_BlockingReason :: string
  gp_Results :: "GateResult list"

definition GateOpenReason :: string where "GateOpenReason = ''open''"

definition DefaultMinimumConnectedPeers :: int where "DefaultMinimumConnectedPeers = 33"
definition DefaultMinimumRWIWords :: int where "DefaultMinimumRWIWords = 100"

definition DefaultGateConfig :: GateConfig where
  "DefaultGateConfig =
     \<lparr>gc_NetworkDHTEnabled = True, gc_DistributionEnabled = True, gc_AllowWhileCrawling = False,
      gc_AllowWhileIndexing = True, gc_MinimumConnectedPeer = DefaultMinimumConnectedPeers,
      gc_MinimumRWIWord = DefaultMinimumRWIWords\<rparr>"

definition gate :: "GateName \<Rightarrow> bool \<Rightarrow> string \<Rightarrow> GateResult" where
  "gate name opn reason =
     \<lparr>gr_Name = name, gr_Open = opn, gr_Reason = (if opn then GateOpenReason else reason)\<rparr>"

definition observedGate :: "GateName \<Rightarrow> bool \<Rightarrow> bool \<Rightarrow> string \<Rightarrow> string \<Rightarrow> GateResult" where
  "observedGate name known opn closedReason unknownReason =
     (if \<not> known then \<lparr>gr_Name = name, gr_Open = False, gr_Reason = unknownReason\<rparr>
      else gate name opn closedReason)"

definition normalized_gates :: "GateConfig \<Rightarrow> GateConfig" where
  "normalized_gates c = c\<lparr>
     gc_MinimumConnectedPeer := (if gc_MinimumConnectedPeer c \<le> 0 then DefaultMinimumConnectedPeers
       else gc_MinimumConnectedPeer c),
     gc_MinimumRWIWord := (if gc_MinimumRWIWord c \<le> 0 then DefaultMinimumRWIWords
       else gc_MinimumRWIWord c)\<rparr>"

definition gate_results :: "GateState \<Rightarrow> GateConfig \<Rightarrow> GateResult list" where
  "gate_results s c =
     [gate GateOnlineCaution (gs_OnlineCaution s = []) ''online caution is active'',
      gate GateLocalPeer (gs_LocalPeerKnown s) ''local peer seed is unavailable'',
      gate GateLocalPeerMature (\<not> gs_LocalPeerVirgin s) ''local peer is virgin'',
      gate GateNetworkSize (gs_ConnectedPeers s \<ge> gc_MinimumConnectedPeer c) ''network is too small'',
      gate GateNetworkDHT (gc_NetworkDHTEnabled c) ''network dht is disabled'',
      gate GateDistributionEnabled (gc_DistributionEnabled c) ''index distribution is disabled'',
      observedGate GateLocalRWI (gs_LocalRWIKnown s) (gs_LocalRWIWords s \<ge> gc_MinimumRWIWord c)
        ''not enough local rwi words'' ''local rwi state is unavailable'',
      observedGate GateCrawlIdle (gc_AllowWhileCrawling c \<or> gs_CrawlQueueKnown s)
        (gc_AllowWhileCrawling c \<or> gs_CrawlQueueSize s = 0)
        ''crawl is in progress'' ''crawl queue state is unavailable'',
      observedGate GateIndexIdle (gc_AllowWhileIndexing c \<or> gs_IndexQueueKnown s)
        (gc_AllowWhileIndexing c \<or> gs_IndexQueueSize s \<le> 1)
        ''indexing is in progress'' ''index queue state is unavailable'',
      observedGate GateStorageAvailable (gs_StorageKnown s) (gs_StorageAvailable s)
        ''storage is unavailable'' ''storage status is unavailable'']"

text \<open>The loop over the results keeps the first reason that is not empty.\<close>

definition note_result :: "GateReport \<Rightarrow> GateResult \<Rightarrow> GateReport" where
  "note_result report result =
     (if gr_Open result then report
      else report\<lparr>gp_Open := False, gp_BlockingReason :=
        (if gp_BlockingReason report = [] then gr_Reason result else gp_BlockingReason report)\<rparr>)"

definition EvaluateGates :: "GateState \<Rightarrow> GateConfig \<Rightarrow> GateReport" where
  "EvaluateGates state config =
     (let results = gate_results state (normalized_gates config)
      in foldl note_result \<lparr>gp_Open = True, gp_BlockingReason = [], gp_Results = results\<rparr> results)"

section \<open>Receipts of a distribution\<close>

datatype DistributionState = DistributionNone | DistributionGateClosed | DistributionQueueEmpty
  | DistributionHandoffFailed | DistributionHandoffRejected | DistributionRetryDeferred
  | DistributionSent | DistributionRestorePending | DistributionRestored
  | DistributionConfirmationPending | DistributionConfirmed

record 'a DistributionReceipt =
  dr_State :: DistributionState
  dr_Gates :: GateReport
  dr_Peer :: Hash
  dr_Target :: "'a Seed option"
  dr_PostingCount :: nat
  dr_Handoff :: HandoffReceipt
  dr_RequeuedPostings :: nat
  dr_RestoredPostings :: nat
  dr_ConfirmedPostings :: nat

section \<open>Retries\<close>

record OutboundRetryConfig =
  rc_BaseDelay :: duration
  rc_MaxDelay :: duration
  rc_JitterRatio :: float64
  rc_QuarantineFailures :: int
  rc_QuarantineDuration :: duration
  rc_DelayFraction :: "(Hash \<Rightarrow> nat \<Rightarrow> float64) option"

text \<open>What the platform makes of a number that has no \<^verbatim>\<open>int64\<close>.\<close>

type_synonym float_conversion = "float64 \<Rightarrow> int"

record OutboundRetryState =
  rs_Failures :: nat
  rs_RetryAfter :: go_time
  rs_QuarantineUntil :: go_time

datatype OutboundRetryStatus = OutboundRetryIgnored | OutboundRetryDelayed
  | OutboundRetryQuarantined | OutboundRetryCleared

record OutboundRetryDecision =
  rd_Status :: OutboundRetryStatus
  rd_Peer :: Hash
  rd_Failures :: nat
  rd_Delay :: duration
  rd_RetryAfter :: go_time
  rd_QuarantineUntil :: go_time

record OutboundRetryPolicy =
  rp_config :: OutboundRetryConfig
  rp_peerStates :: "(Hash, OutboundRetryState) gomap"

definition defaultOutboundRetryDelayFraction :: "Hash \<Rightarrow> nat \<Rightarrow> float64" where
  "defaultOutboundRetryDelayFraction peer failures =
     (let value = foldl (\<lambda>value letter. value * 131 + word_of_nat (of_char letter)) (0 :: 64 word)
            (peer @ format_uint failures)
      in float_over (float_of_int (uint (value mod 10000))) 10000)"

definition DefaultOutboundRetryConfig :: OutboundRetryConfig where
  "DefaultOutboundRetryConfig =
     \<lparr>rc_BaseDelay = minute, rc_MaxDelay = hour, rc_JitterRatio = Number (1 / 2),
      rc_QuarantineFailures = 3, rc_QuarantineDuration = 30 * minute,
      rc_DelayFraction = Some defaultOutboundRetryDelayFraction\<rparr>"

text \<open>Two comparisons, of which NaN passes neither.\<close>

definition outboundRetryFraction :: "float64 \<Rightarrow> float64" where
  "outboundRetryFraction value =
     (if float_less value (Number 0) then Number 0
      else if float_less (Number 1) value then Number 1
      else value)"

definition normalizeOutboundRetryConfig :: "OutboundRetryConfig \<Rightarrow> OutboundRetryConfig" where
  "normalizeOutboundRetryConfig c =
     (let base = (if rc_BaseDelay c \<le> 0 then minute else rc_BaseDelay c);
          most = (if rc_MaxDelay c \<le> 0 then hour else rc_MaxDelay c);
          ratio = (if float_less (rc_JitterRatio c) (Number 0) then Number 0 else rc_JitterRatio c)
      in \<lparr>rc_BaseDelay = base, rc_MaxDelay = (if most < base then base else most),
          rc_JitterRatio = (if float_less (Number 1) ratio then Number 1 else ratio),
          rc_QuarantineFailures = (if rc_QuarantineFailures c \<le> 0 then 3 else rc_QuarantineFailures c),
          rc_QuarantineDuration = (if rc_QuarantineDuration c \<le> 0 then 30 * minute
            else rc_QuarantineDuration c),
          rc_DelayFraction = (if rc_DelayFraction c = None then Some defaultOutboundRetryDelayFraction
            else rc_DelayFraction c)\<rparr>)"

definition NewOutboundRetryPolicy :: "OutboundRetryConfig \<Rightarrow> OutboundRetryPolicy" where
  "NewOutboundRetryPolicy config =
     \<lparr>rp_config = normalizeOutboundRetryConfig config, rp_peerStates = []\<rparr>"

fun grown_delay :: "duration \<Rightarrow> nat \<Rightarrow> duration \<Rightarrow> duration" where
  "grown_delay most 0 delay = delay"
| "grown_delay most (Suc attempts) delay =
     grown_delay most attempts (if delay > most div 2 then most else delay * 2)"

text \<open>The configuration of a policy is normalised, so its fraction is never nil.\<close>

definition failureDelay ::
  "float_conversion \<Rightarrow> OutboundRetryConfig \<Rightarrow> Hash \<Rightarrow> nat \<Rightarrow> duration" where
  "failureDelay platform c peer failures =
     (let delay = grown_delay (rc_MaxDelay c) (failures - 1) (rc_BaseDelay c);
          lower = int64_of_float platform
            (float_times (float_of_int delay) (float_minus (Number 1) (rc_JitterRatio c)));
          spread = int64_of_float platform
            (float_times (float_of_int (delay - lower))
              (outboundRetryFraction (the (rc_DelayFraction c) peer failures)))
      in lower + spread)"

definition outboundRetryFailure :: "DistributionState \<Rightarrow> bool" where
  "outboundRetryFailure state \<longleftrightarrow>
     state = DistributionHandoffFailed \<or> state = DistributionHandoffRejected"

definition millisecond :: duration where "millisecond = 1000000"

definition outboundRetryMinimumDelay :: "'a DistributionReceipt \<Rightarrow> duration" where
  "outboundRetryMinimumDelay r =
     (if dr_State r \<noteq> DistributionHandoffRejected \<or> hr_State (dr_Handoff r) \<noteq> HandoffRWIRejected \<or>
         tr_Pause (hr_RWI (dr_Handoff r)) \<le> 0 then 0
      else if tr_Pause (hr_RWI (dr_Handoff r)) > max_duration div millisecond then max_duration
      else tr_Pause (hr_RWI (dr_Handoff r)) * millisecond)"

definition no_retry_state :: OutboundRetryState where
  "no_retry_state = \<lparr>rs_Failures = 0, rs_RetryAfter = 0, rs_QuarantineUntil = 0\<rparr>"

definition retry_decision :: "OutboundRetryStatus \<Rightarrow> Hash \<Rightarrow> OutboundRetryDecision" where
  "retry_decision status peer = \<lparr>rd_Status = status, rd_Peer = peer, rd_Failures = 0, rd_Delay = 0,
     rd_RetryAfter = 0, rd_QuarantineUntil = 0\<rparr>"

definition Observe ::
  "float_conversion \<Rightarrow> OutboundRetryPolicy \<Rightarrow> 'a DistributionReceipt \<Rightarrow> go_time \<Rightarrow>
     OutboundRetryPolicy \<times> OutboundRetryDecision" where
  "Observe platform p receipt now =
     (if dr_State receipt = DistributionSent
      then (p\<lparr>rp_peerStates := AList.delete (dr_Peer receipt) (rp_peerStates p)\<rparr>,
            retry_decision OutboundRetryCleared (dr_Peer receipt))
      else if \<not> outboundRetryFailure (dr_State receipt)
      then (p, retry_decision OutboundRetryIgnored (dr_Peer receipt))
      else
        let state = get_or no_retry_state (rp_peerStates p) (dr_Peer receipt);
            failures = rs_Failures state + 1;
            delay = failureDelay platform (rp_config p) (dr_Peer receipt) failures;
            minimum = outboundRetryMinimumDelay receipt;
            delay = (if minimum > delay then minimum else delay);
            state = state\<lparr>rs_Failures := failures, rs_RetryAfter := now + delay\<rparr>;
            decision = (retry_decision OutboundRetryDelayed (dr_Peer receipt))\<lparr>
              rd_Failures := failures, rd_Delay := delay, rd_RetryAfter := now + delay\<rparr>
        in if int failures \<ge> rc_QuarantineFailures (rp_config p)
           then
             let until = now + rc_QuarantineDuration (rp_config p)
             in (p\<lparr>rp_peerStates := AList.update (dr_Peer receipt)
                   (state\<lparr>rs_QuarantineUntil := until\<rparr>) (rp_peerStates p)\<rparr>,
                 decision\<lparr>rd_Status := OutboundRetryQuarantined, rd_QuarantineUntil := until\<rparr>)
           else (p\<lparr>rp_peerStates := AList.update (dr_Peer receipt) state (rp_peerStates p)\<rparr>, decision))"

definition Ready :: "OutboundRetryPolicy \<Rightarrow> Hash \<Rightarrow> go_time \<Rightarrow> bool" where
  "Ready p peer now = (case map_of (rp_peerStates p) peer of
     None \<Rightarrow> True
   | Some state \<Rightarrow> \<not> now < rs_RetryAfter state \<and> \<not> now < rs_QuarantineUntil state)"

definition PeerState :: "OutboundRetryPolicy \<Rightarrow> Hash \<Rightarrow> OutboundRetryState option" where
  "PeerState p peer = map_of (rp_peerStates p) peer"


section \<open>The gates\<close>

lemma note_results:
  assumes "gp_Open r \<longleftrightarrow> gp_BlockingReason r = []" "\<forall>g\<in>set gs. gr_Reason g \<noteq> []"
  shows "gp_Results (foldl note_result r gs) = gp_Results r \<and>
    (gp_Open (foldl note_result r gs) \<longleftrightarrow> gp_Open r \<and> (\<forall>g\<in>set gs. gr_Open g)) \<and>
    gp_BlockingReason (foldl note_result r gs) = (if gp_BlockingReason r \<noteq> [] then gp_BlockingReason r
      else case filter (\<lambda>g. \<not> gr_Open g) gs of [] \<Rightarrow> [] | g # _ \<Rightarrow> gr_Reason g)"
  using assms
proof (induction gs arbitrary: r)
  case (Cons g gs)
  let ?r = "note_result r g"
  have "gp_Open ?r \<longleftrightarrow> gp_BlockingReason ?r = []" using Cons.prems by (simp add: note_result_def)
  from Cons.IH [OF this] Cons.prems show ?case by (auto simp: note_result_def)
qed simp

lemma gate_simps [simp]:
  "gr_Open (gate name opn reason) = opn"
  "gr_Open (observedGate name known opn reason unknown) \<longleftrightarrow> known \<and> opn"
  "gr_Reason (gate name opn reason) = [] \<longleftrightarrow> \<not> opn \<and> reason = []"
  "gr_Reason (observedGate name known opn reason unknown) = [] \<longleftrightarrow>
     \<not> known \<and> unknown = [] \<or> known \<and> \<not> opn \<and> reason = []"
  by (auto simp: gate_def observedGate_def GateOpenReason_def)

lemma gate_results_reason: "g \<in> set (gate_results s c) \<Longrightarrow> gr_Reason g \<noteq> []"
  unfolding gate_results_def by auto

text \<open>The gate is open exactly when every condition holds, an unknown crawl queue, index queue,
  word count or storage counting as a reason to stay closed; and the reason that is reported is that
  of the first gate that is closed.\<close>

theorem gates_open_iff:
  "(gp_Open (EvaluateGates s c) \<longleftrightarrow>
      gs_OnlineCaution s = [] \<and> gs_LocalPeerKnown s \<and> \<not> gs_LocalPeerVirgin s \<and>
      gs_ConnectedPeers s \<ge> (if gc_MinimumConnectedPeer c \<le> 0 then 33 else gc_MinimumConnectedPeer c) \<and>
      gc_NetworkDHTEnabled c \<and> gc_DistributionEnabled c \<and> gs_LocalRWIKnown s \<and>
      gs_LocalRWIWords s \<ge> (if gc_MinimumRWIWord c \<le> 0 then 100 else gc_MinimumRWIWord c) \<and>
      (gc_AllowWhileCrawling c \<or> gs_CrawlQueueKnown s \<and> gs_CrawlQueueSize s = 0) \<and>
      (gc_AllowWhileIndexing c \<or> gs_IndexQueueKnown s \<and> gs_IndexQueueSize s \<le> 1) \<and>
      gs_StorageKnown s \<and> gs_StorageAvailable s) \<and>
    gp_BlockingReason (EvaluateGates s c) =
      (case filter (\<lambda>g. \<not> gr_Open g) (gp_Results (EvaluateGates s c)) of
         [] \<Rightarrow> [] | g # _ \<Rightarrow> gr_Reason g)"
proof -
  let ?rs = "gate_results s (normalized_gates c)"
  note n = note_results [of "\<lparr>gp_Open = True, gp_BlockingReason = [], gp_Results = ?rs\<rparr>" ?rs]
  have e: "gp_Open (EvaluateGates s c) \<longleftrightarrow> (\<forall>g\<in>set ?rs. gr_Open g)"
    "gp_Results (EvaluateGates s c) = ?rs"
    "gp_BlockingReason (EvaluateGates s c) = (case filter (\<lambda>g. \<not> gr_Open g) ?rs of [] \<Rightarrow> [] | g # _ \<Rightarrow> gr_Reason g)"
    using n gate_results_reason by (simp_all add: EvaluateGates_def Let_def)
  have m: "gc_MinimumConnectedPeer (normalized_gates c) =
      (if gc_MinimumConnectedPeer c \<le> 0 then 33 else gc_MinimumConnectedPeer c)"
    "gc_MinimumRWIWord (normalized_gates c) =
      (if gc_MinimumRWIWord c \<le> 0 then 100 else gc_MinimumRWIWord c)"
    "gc_NetworkDHTEnabled (normalized_gates c) = gc_NetworkDHTEnabled c"
    "gc_DistributionEnabled (normalized_gates c) = gc_DistributionEnabled c"
    "gc_AllowWhileCrawling (normalized_gates c) = gc_AllowWhileCrawling c"
    "gc_AllowWhileIndexing (normalized_gates c) = gc_AllowWhileIndexing c"
    by (simp_all add: normalized_gates_def DefaultMinimumConnectedPeers_def DefaultMinimumRWIWords_def)
  show ?thesis
    unfolding e gate_results_def m by (intro conjI refl) (simp only: list.set ball_simps gate_simps, blast)
qed

section \<open>The delay\<close>

lemma grown_delay_min:
  "0 < delay \<Longrightarrow> delay \<le> most \<Longrightarrow> grown_delay most n delay = min most (delay * 2 ^ n)"
proof (induction n arbitrary: delay)
  case (Suc n)
  show ?case
  proof (cases "delay > most div 2")
    case True
    have "most * 1 \<le> most * 2 ^ n" using Suc.prems by (intro mult_left_mono) auto
    then have m: "grown_delay most n most = most" using Suc.IH [of most] Suc.prems by simp
    have "most \<le> delay * 2" using True by linarith
    also have "delay * 2 * 1 \<le> delay * 2 * 2 ^ n" using Suc.prems by (intro mult_left_mono) auto
    finally show ?thesis using True m by (simp add: mult.assoc)
  next
    case False
    then have "delay * 2 \<le> most" by linarith
    then show ?thesis using False Suc.IH [of "delay * 2"] Suc.prems by (simp add: mult.assoc)
  qed
qed simp

text \<open>What the clamps make of a number, and the configurations without NaN.\<close>

definition clamped :: "float64 \<Rightarrow> rat" where
  "clamped x = (case x of Number q \<Rightarrow> max 0 (min 1 q) | PosInf \<Rightarrow> 1 | _ \<Rightarrow> 0)"

definition retry_numbers :: "OutboundRetryConfig \<Rightarrow> bool" where
  "retry_numbers c \<longleftrightarrow> rc_JitterRatio c \<noteq> NaN \<and>
     (\<forall>f peer n. rc_DelayFraction c = Some f \<longrightarrow> f peer n \<noteq> NaN)"

lemma clamped_bounds: "0 \<le> clamped x" "clamped x \<le> 1"
  by (simp_all add: clamped_def split: float64.split)

lemma outboundRetryFraction_clamped:
  "x \<noteq> NaN \<Longrightarrow> outboundRetryFraction x = Number (clamped x)"
  by (cases x) (auto simp: outboundRetryFraction_def clamped_def)

lemma normalized_ratio:
  "rc_JitterRatio c \<noteq> NaN \<Longrightarrow>
   rc_JitterRatio (normalizeOutboundRetryConfig c) = Number (clamped (rc_JitterRatio c))"
  by (cases "rc_JitterRatio c") (auto simp: normalizeOutboundRetryConfig_def Let_def clamped_def)

lemma default_fraction_number: "defaultOutboundRetryDelayFraction peer n \<noteq> NaN"
proof -
  define v where "v = uint ((foldl (\<lambda>value letter. value * 131 + word_of_nat (of_char letter)) (0 :: 64 word)
    (peer @ format_uint n)) mod 10000)"
  have v: "0 \<le> v" "v < 10000" by (simp_all add: v_def uint_mod)
  then have f: "float_of_int v = Number (of_int v)" by (intro float_of_int_small) auto
  have "(of_int v :: rat) \<le> of_int 10000" using v(2) by (simp only: of_int_le_iff)
  then have "(of_int v :: rat) / 10000 \<le> of_int 1" by simp
  then have "float_of (of_int v / 10000) = Number (round_significand (of_int v / 10000))"
    using v(1) by (intro float_of_small) auto
  then show ?thesis
    unfolding defaultOutboundRetryDelayFraction_def Let_def v_def [symmetric] f by simp
qed

lemma normalized_fraction:
  assumes "retry_numbers c"
  shows "the (rc_DelayFraction (normalizeOutboundRetryConfig c)) peer n \<noteq> NaN"
  using assms default_fraction_number
  by (cases "rc_DelayFraction c") (auto simp: normalizeOutboundRetryConfig_def Let_def retry_numbers_def)

lemma normalized_retry:
  "0 < rc_BaseDelay (normalizeOutboundRetryConfig c)"
  "rc_BaseDelay (normalizeOutboundRetryConfig c) \<le> rc_MaxDelay (normalizeOutboundRetryConfig c)"
  "0 < rc_QuarantineDuration (normalizeOutboundRetryConfig c)"
  "0 < rc_QuarantineFailures (normalizeOutboundRetryConfig c)"
  by (auto simp: normalizeOutboundRetryConfig_def Let_def minute_def hour_def second_def)

text \<open>The delay less its random part, and the random part.\<close>

lemma scaled_down:
  assumes "0 \<le> d" "d \<le> 2 ^ 53" "0 \<le> q" "q \<le> 1"
  shows "0 \<le> int64_of_float u (float_times (float_of_int d) (Number q)) \<and>
    int64_of_float u (float_times (float_of_int d) (Number q)) \<le> d \<and>
    of_int d * q - 3 / 2 < of_int (int64_of_float u (float_times (float_of_int d) (Number q)))"
proof -
  let ?x = "of_int d * q"
  have x: "0 \<le> ?x" "?x \<le> of_int d" using assms by (simp_all add: mult_left_le)
  have r: "0 \<le> round_significand ?x" "round_significand ?x \<le> of_int d"
    using round_significand_le [OF x assms(2)] by simp_all
  have "of_int d \<le> (of_int (2 ^ 53) :: rat)" using assms(2) by (simp only: of_int_le_iff)
  then have "?x \<le> 2 ^ 53" using x(2) by simp
  then have e: "\<bar>round_significand ?x - ?x\<bar> \<le> 1 / 2"
    using rounding_error_bound [OF x(1), of 53] by (simp add: power_int_minus)
  have c: "int64_of_float u (float_times (float_of_int d) (Number q)) = \<lfloor>round_significand ?x\<rfloor>"
    using assms(1,2) float_of_small [OF x assms(2)] int64_of_small [OF r, of u]
    by (simp add: float_of_int_small)
  have "of_int \<lfloor>round_significand ?x\<rfloor> > round_significand ?x - 1" by linarith
  then have "?x - 3 / 2 < of_int \<lfloor>round_significand ?x\<rfloor>" using e by linarith
  moreover have "\<lfloor>round_significand ?x\<rfloor> \<le> d" using r(2) by (simp add: floor_le_iff)
  ultimately show ?thesis using r(1) unfolding c by simp
qed

lemma one_minus_ratio:
  assumes "0 \<le> r" "r \<le> 1"
  obtains q where "float_minus (Number 1) (Number r) = Number q" "0 \<le> q" "q \<le> 1" "1 - r - 1 / 2 ^ 54 \<le> q"
proof -
  have x: "0 \<le> 1 - r" "1 - r \<le> of_int 1" using assms by simp_all
  have f: "float_minus (Number 1) (Number r) = Number (round_significand (1 - r))"
    using float_of_small [OF x] by simp
  have b: "0 \<le> round_significand (1 - r)" "round_significand (1 - r) \<le> 1"
    using round_significand_le [OF x] by simp_all
  have "\<bar>round_significand (1 - r) - (1 - r)\<bar> \<le> 1 / 2 ^ 54"
    using rounding_error_bound [OF x(1), of 0] assms by (simp add: power_int_minus inverse_eq_divide)
  then have "1 - r - 1 / 2 ^ 54 \<le> round_significand (1 - r)" by linarith
  then show thesis using that f b by blast
qed

lemma failure_delay:
  assumes "retry_numbers c" "rc_MaxDelay (normalizeOutboundRetryConfig c) \<le> 2 ^ 53"
    and "d = min (rc_MaxDelay (normalizeOutboundRetryConfig c))
      (rc_BaseDelay (normalizeOutboundRetryConfig c) * 2 ^ (n - 1))"
  shows "of_int d * (1 - clamped (rc_JitterRatio c)) - 2 <
      of_int (failureDelay u (normalizeOutboundRetryConfig c) peer n) \<and>
    failureDelay u (normalizeOutboundRetryConfig c) peer n \<le> d \<and>
    0 \<le> failureDelay u (normalizeOutboundRetryConfig c) peer n"
proof -
  let ?c = "normalizeOutboundRetryConfig c" let ?r = "clamped (rc_JitterRatio c)"
  have g: "grown_delay (rc_MaxDelay ?c) (n - 1) (rc_BaseDelay ?c) = d"
    using grown_delay_min [OF normalized_retry(1,2)] assms(3) by simp
  have d: "0 \<le> d" "d \<le> 2 ^ 53" using assms(2,3) normalized_retry(1,2) [of c] by auto
  have ratio: "rc_JitterRatio ?c = Number ?r" using assms(1) by (simp add: normalized_ratio retry_numbers_def)
  obtain q where q: "float_minus (Number 1) (Number ?r) = Number q" "0 \<le> q" "q \<le> 1" "1 - ?r - 1 / 2 ^ 54 \<le> q"
    using one_minus_ratio [OF clamped_bounds] by blast
  define lower where "lower = int64_of_float u (float_times (float_of_int d) (Number q))"
  have l: "0 \<le> lower" "lower \<le> d" "of_int d * q - 3 / 2 < of_int lower"
    using scaled_down [OF d q(2,3), of u] unfolding lower_def by blast+
  let ?f = "the (rc_DelayFraction ?c) peer n"
  have f: "outboundRetryFraction ?f = Number (clamped ?f)"
    by (rule outboundRetryFraction_clamped [OF normalized_fraction [OF assms(1)]])
  define spread where "spread = int64_of_float u (float_times (float_of_int (d - lower)) (Number (clamped ?f)))"
  have s: "0 \<le> spread" "spread \<le> d - lower"
    using scaled_down [of "d - lower" "clamped ?f" u] clamped_bounds [of ?f] l d(2) unfolding spread_def by auto
  have e: "failureDelay u ?c peer n = lower + spread"
    unfolding failureDelay_def Let_def g ratio q(1) f lower_def spread_def by (rule refl)
  have db: "of_int d \<le> (2 ^ 53 :: rat)"
  proof -
    have "of_int d \<le> (of_int (2 ^ 53) :: rat)" using d(2) by (simp only: of_int_le_iff)
    then show ?thesis by simp
  qed
  have "of_int d * (1 - ?r - 1 / 2 ^ 54) \<le> of_int d * q" using q(4) d(1) by (intro mult_left_mono) auto
  moreover have "of_int d * (1 - ?r - 1 / 2 ^ 54) = of_int d * (1 - ?r) - of_int d / 2 ^ 54"
    by (simp add: right_diff_distrib)
  moreover have "of_int d / 2 ^ 54 \<le> (1 / 2 :: rat)" using db by simp
  ultimately have "of_int d * (1 - ?r) - 2 < of_int lower" using l(3) by linarith
  then have "of_int d * (1 - ?r) - 2 < of_int (lower + spread)" using s(1) by simp
  then show ?thesis unfolding e using l s by simp
qed

text \<open>C36: The delay after the n-th failure is the base delay doubled with each earlier failure and
  limited by the maximum, less a random part: it is never more than that, and, to within two
  nanoseconds of rounding, no less than the share of it that the jitter ratio leaves, the ratio
  clamped to between zero and one. This is for a maximum delay of at most 2^53 nanoseconds (104
  days), and for a ratio and fractions that are not NaN.\<close>

theorem retry_delay_doubles:
  assumes "retry_numbers config" "p = NewOutboundRetryPolicy config" "rc_MaxDelay (rp_config p) \<le> 2 ^ 53"
    and "d = min (rc_MaxDelay (rp_config p)) (rc_BaseDelay (rp_config p) * 2 ^ (n - 1))"
  shows "of_int d * (1 - clamped (rc_JitterRatio config)) - 2 < of_int (failureDelay u (rp_config p) peer n) \<and>
    failureDelay u (rp_config p) peer n \<le> d \<and> 0 \<le> failureDelay u (rp_config p) peer n"
  using failure_delay [OF assms(1)] assms(2-4) by (simp add: NewOutboundRetryPolicy_def)

section \<open>Waiting and being ready again\<close>

text \<open>What one observation does to the state of its peer.\<close>

lemma Observe_cases:
  assumes "Observe j p r now = (p', d)"
  obtains "dr_State r = DistributionSent" "p' = p\<lparr>rp_peerStates := AList.delete (dr_Peer r) (rp_peerStates p)\<rparr>"
  | "\<not> outboundRetryFailure (dr_State r)" "dr_State r \<noteq> DistributionSent" "p' = p"
  | state where "outboundRetryFailure (dr_State r)"
      "p' = p\<lparr>rp_peerStates := AList.update (dr_Peer r) state (rp_peerStates p)\<rparr>"
      "rs_Failures state = rs_Failures (get_or no_retry_state (rp_peerStates p) (dr_Peer r)) + 1"
      "rs_RetryAfter state = now + rd_Delay d"
      "rd_Delay d = max (outboundRetryMinimumDelay r)
         (failureDelay j (rp_config p) (dr_Peer r) (rs_Failures state))"
      "rs_QuarantineUntil state = (if int (rs_Failures state) \<ge> rc_QuarantineFailures (rp_config p)
         then now + rc_QuarantineDuration (rp_config p)
         else rs_QuarantineUntil (get_or no_retry_state (rp_peerStates p) (dr_Peer r)))"
      "rd_Status d = (if int (rs_Failures state) \<ge> rc_QuarantineFailures (rp_config p)
         then OutboundRetryQuarantined else OutboundRetryDelayed)"
proof (cases "outboundRetryFailure (dr_State r)")
  case True
  let ?st = "get_or no_retry_state (rp_peerStates p) (dr_Peer r)"
  let ?n = "rs_Failures ?st + 1"
  let ?delay = "max (outboundRetryMinimumDelay r) (failureDelay j (rp_config p) (dr_Peer r) ?n)"
  let ?q = "int ?n \<ge> rc_QuarantineFailures (rp_config p)"
  let ?state = "?st\<lparr>rs_Failures := ?n, rs_RetryAfter := now + ?delay,
    rs_QuarantineUntil := (if ?q then now + rc_QuarantineDuration (rp_config p) else rs_QuarantineUntil ?st)\<rparr>"
  have ns: "dr_State r \<noteq> DistributionSent" using True by (auto simp: outboundRetryFailure_def)
  have m: "(if outboundRetryMinimumDelay r > x then outboundRetryMinimumDelay r else x) =
      max (outboundRetryMinimumDelay r) x" for x by simp
  show thesis
  proof (rule that(3) [of ?state])
    show "p' = p\<lparr>rp_peerStates := AList.update (dr_Peer r) ?state (rp_peerStates p)\<rparr>"
      using assms True ns by (cases ?q) (auto simp: Observe_def Let_def m)
    show "rs_RetryAfter ?state = now + rd_Delay d" "rd_Delay d = max (outboundRetryMinimumDelay r)
         (failureDelay j (rp_config p) (dr_Peer r) (rs_Failures ?state))"
      "rd_Status d = (if int (rs_Failures ?state) \<ge> rc_QuarantineFailures (rp_config p)
         then OutboundRetryQuarantined else OutboundRetryDelayed)"
      using assms True ns by (auto simp: Observe_def Let_def m retry_decision_def split: if_split_asm)
  qed (use True in auto)
next
  case False
  then show thesis using that(1,2) assms by (auto simp: Observe_def split: if_split_asm)
qed


text \<open>Every peer waits for no longer than the maximum that follows the last observation.\<close>

definition retry_bound :: "OutboundRetryPolicy \<Rightarrow> go_time \<Rightarrow> bool" where
  "retry_bound p until \<longleftrightarrow> (\<forall>peer state. map_of (rp_peerStates p) peer = Some state \<longrightarrow>
     rs_RetryAfter state \<le> until \<and> rs_QuarantineUntil state \<le> until)"

lemma retry_boundD: "retry_bound p until \<Longrightarrow> until \<le> t \<Longrightarrow> Ready p peer t"
  unfolding retry_bound_def Ready_def by (fastforce split: option.split)

definition observations ::
  "float_conversion \<Rightarrow> OutboundRetryPolicy \<Rightarrow> ('a DistributionReceipt \<times> go_time) list \<Rightarrow> OutboundRetryPolicy" where
  "observations j p events = fold (\<lambda>(r, now) p. fst (Observe j p r now)) events p"

lemma Observe_config [simp]: "rp_config (fst (Observe j p r now)) = rp_config p"
  by (simp add: Observe_def Let_def)

lemma observations_config [simp]: "rp_config (observations j p events) = rp_config p"
  by (induction events arbitrary: p) (auto simp: observations_def)

lemma observations_append:
  "observations j p (events @ [(r, now)]) = fst (Observe j (observations j p events) r now)"
  by (simp add: observations_def)

lemma Observe_bound:
  assumes "retry_numbers config" "rp_config p = normalizeOutboundRetryConfig config"
    "rc_MaxDelay (rp_config p) \<le> 2 ^ 53"
    and "retry_bound p until" "0 \<le> until"
    and "now + max (rc_MaxDelay (rp_config p)) (outboundRetryMinimumDelay r) \<le> until"
    "now + rc_QuarantineDuration (rp_config p) \<le> until"
  shows "retry_bound (fst (Observe j p r now)) until"
proof -
  obtain p' d where o: "Observe j p r now = (p', d)" by (cases "Observe j p r now")
  from o show ?thesis
  proof (rule Observe_cases)
    assume "p' = p\<lparr>rp_peerStates := AList.delete (dr_Peer r) (rp_peerStates p)\<rparr>"
    then show ?thesis using assms(4) o by (simp add: retry_bound_def delete_conv')
  next
    assume "p' = p"
    then show ?thesis using assms(4) o by simp
  next
    fix state
    assume a: "p' = p\<lparr>rp_peerStates := AList.update (dr_Peer r) state (rp_peerStates p)\<rparr>"
      "rs_RetryAfter state = now + rd_Delay d"
      "rd_Delay d = max (outboundRetryMinimumDelay r)
         (failureDelay j (rp_config p) (dr_Peer r) (rs_Failures state))"
      "rs_QuarantineUntil state = (if int (rs_Failures state) \<ge> rc_QuarantineFailures (rp_config p)
         then now + rc_QuarantineDuration (rp_config p)
         else rs_QuarantineUntil (get_or no_retry_state (rp_peerStates p) (dr_Peer r)))"
    have "failureDelay j (rp_config p) (dr_Peer r) (rs_Failures state) \<le> rc_MaxDelay (rp_config p)"
      using failure_delay [OF assms(1) _ refl, of "rs_Failures state" j "dr_Peer r"] assms(2,3) by simp
    then have "rs_RetryAfter state \<le> until" using a(2,3) assms(6) by linarith
    moreover have "rs_QuarantineUntil (get_or no_retry_state (rp_peerStates p) (dr_Peer r)) \<le> until"
      using assms(4,5) by (auto simp: retry_bound_def get_or_def no_retry_state_def split: option.split)
    then have "rs_QuarantineUntil state \<le> until" using a(4) assms(7) by simp
    ultimately show ?thesis using assms(4) o a(1) by (simp add: retry_bound_def update_conv')
  qed
qed

lemma observations_bound:
  assumes "retry_numbers config" "rp_config p = normalizeOutboundRetryConfig config"
    "rc_MaxDelay (rp_config p) \<le> 2 ^ 53"
    and "retry_bound p until" "0 \<le> until"
    and "\<forall>(r, now)\<in>set events. now + max (rc_MaxDelay (rp_config p)) (outboundRetryMinimumDelay r) \<le> until \<and>
      now + rc_QuarantineDuration (rp_config p) \<le> until"
  shows "retry_bound (observations j p events) until"
  using assms(2-)
proof (induction events arbitrary: p)
  case (Cons e events)
  obtain r now where e: "e = (r, now)" by (cases e)
  have "retry_bound (fst (Observe j p r now)) until"
    by (rule Observe_bound [OF assms(1) Cons.prems(1-4)]) (use Cons.prems(5) e in auto)
  then show ?case using Cons.IH [of "fst (Observe j p r now)"] Cons.prems e by (simp add: observations_def)
qed (simp add: observations_def)

text \<open>The failures of a peer in a row: those since its last success.\<close>

definition failure_streak :: "Hash \<Rightarrow> ('a DistributionReceipt \<times> go_time) list \<Rightarrow> nat" where
  "failure_streak peer events = fold (\<lambda>(r, now) n.
     if dr_Peer r \<noteq> peer then n
     else if dr_State r = DistributionSent then 0
     else if outboundRetryFailure (dr_State r) then Suc n else n) events 0"

lemma observed_failures:
  "rs_Failures (get_or no_retry_state (rp_peerStates (observations j (NewOutboundRetryPolicy config) events)) peer) =
   failure_streak peer events"
proof (induction events rule: rev_induct)
  case Nil
  then show ?case by (simp add: observations_def NewOutboundRetryPolicy_def failure_streak_def
        get_or_def no_retry_state_def)
next
  case (snoc e events)
  obtain r now where e: "e = (r, now)" by (cases e)
  let ?p = "observations j (NewOutboundRetryPolicy config) events"
  obtain p' d where o: "Observe j ?p r now = (p', d)" by (cases "Observe j ?p r now")
  have p': "observations j (NewOutboundRetryPolicy config) (events @ [e]) = p'"
    using o by (simp add: e observations_append)
  from o have "rs_Failures (get_or no_retry_state (rp_peerStates p') peer) =
    (if dr_Peer r \<noteq> peer then failure_streak peer events
     else if dr_State r = DistributionSent then 0
     else if outboundRetryFailure (dr_State r) then Suc (failure_streak peer events)
     else failure_streak peer events)"
  proof (rule Observe_cases)
    assume "dr_State r = DistributionSent"
      "p' = ?p\<lparr>rp_peerStates := AList.delete (dr_Peer r) (rp_peerStates ?p)\<rparr>"
    then show ?thesis using snoc.IH
      by (simp add: get_or_def delete_conv' no_retry_state_def)
  next
    assume "\<not> outboundRetryFailure (dr_State r)" "dr_State r \<noteq> DistributionSent" "p' = ?p"
    then show ?thesis using snoc.IH by simp
  next
    fix state
    assume "outboundRetryFailure (dr_State r)"
      "p' = ?p\<lparr>rp_peerStates := AList.update (dr_Peer r) state (rp_peerStates ?p)\<rparr>"
      "rs_Failures state = rs_Failures (get_or no_retry_state (rp_peerStates ?p) (dr_Peer r)) + 1"
    then show ?thesis using snoc.IH
      by (auto simp: get_or_def update_conv' outboundRetryFailure_def)
  qed
  then show ?case unfolding p' by (simp add: failure_streak_def e)
qed


text \<open>C33: A peer that fails waits. After a failure that makes n in a row, its delay is the delay of
  the n-th failure or the pause that it asks for, whichever is longer, and it is not ready before the
  delay has passed; once n reaches the configured number of failures it is in quarantine, and not
  ready until the quarantine has passed either. Without any pause asked for, the delay is still the
  share of the doubled base delay that the jitter ratio leaves, to within two nanoseconds (for a
  maximum delay of at most 104 days, and numbers that are not NaN). A success makes the peer ready at
  once, and no observation changes when another peer is ready.\<close>

theorem failed_peer_waits:
  assumes "Observe u (observations u (NewOutboundRetryPolicy config) events) r now = (p', d)"
    and "c = normalizeOutboundRetryConfig config" "n = failure_streak (dr_Peer r) (events @ [(r, now)])"
  shows "(outboundRetryFailure (dr_State r) \<longrightarrow>
      rd_Delay d = max (outboundRetryMinimumDelay r) (failureDelay u c (dr_Peer r) n) \<and>
      (retry_numbers config \<and> rc_MaxDelay c \<le> 2 ^ 53 \<longrightarrow>
        of_int (min (rc_MaxDelay c) (rc_BaseDelay c * 2 ^ (n - 1))) * (1 - clamped (rc_JitterRatio config)) - 2
          < of_int (rd_Delay d)) \<and>
      (\<forall>t < now + rd_Delay d. \<not> Ready p' (dr_Peer r) t) \<and>
      (if int n \<ge> rc_QuarantineFailures c
       then rd_Status d = OutboundRetryQuarantined \<and>
         (\<forall>t < now + rc_QuarantineDuration c. \<not> Ready p' (dr_Peer r) t)
       else rd_Status d = OutboundRetryDelayed)) \<and>
    (dr_State r = DistributionSent \<longrightarrow> (\<forall>t. Ready p' (dr_Peer r) t)) \<and>
    (\<forall>peer t. peer \<noteq> dr_Peer r \<longrightarrow>
       Ready p' peer t = Ready (observations u (NewOutboundRetryPolicy config) events) peer t)"
  using assms(1)
proof (rule Observe_cases)
  let ?p = "observations u (NewOutboundRetryPolicy config) events"
  assume "dr_State r = DistributionSent" "p' = ?p\<lparr>rp_peerStates := AList.delete (dr_Peer r) (rp_peerStates ?p)\<rparr>"
  then show ?thesis by (simp add: Ready_def delete_conv' outboundRetryFailure_def)
next
  assume "\<not> outboundRetryFailure (dr_State r)" "dr_State r \<noteq> DistributionSent"
    "p' = observations u (NewOutboundRetryPolicy config) events"
  then show ?thesis by simp
next
  let ?p = "observations u (NewOutboundRetryPolicy config) events"
  fix state
  assume a: "outboundRetryFailure (dr_State r)"
    "p' = ?p\<lparr>rp_peerStates := AList.update (dr_Peer r) state (rp_peerStates ?p)\<rparr>"
    "rs_Failures state = rs_Failures (get_or no_retry_state (rp_peerStates ?p) (dr_Peer r)) + 1"
    "rs_RetryAfter state = now + rd_Delay d"
    "rd_Delay d = max (outboundRetryMinimumDelay r)
         (failureDelay u (rp_config ?p) (dr_Peer r) (rs_Failures state))"
    "rs_QuarantineUntil state = (if int (rs_Failures state) \<ge> rc_QuarantineFailures (rp_config ?p)
         then now + rc_QuarantineDuration (rp_config ?p)
         else rs_QuarantineUntil (get_or no_retry_state (rp_peerStates ?p) (dr_Peer r)))"
    "rd_Status d = (if int (rs_Failures state) \<ge> rc_QuarantineFailures (rp_config ?p)
         then OutboundRetryQuarantined else OutboundRetryDelayed)"
  have c: "rp_config ?p = c" using assms(2) by (simp add: NewOutboundRetryPolicy_def)
  have ns: "dr_State r \<noteq> DistributionSent" using a(1) by (auto simp: outboundRetryFailure_def)
  have n: "rs_Failures state = n"
    using a(1,3) ns assms(3) by (simp add: observed_failures failure_streak_def)
  have r: "Ready p' (dr_Peer r) t \<longleftrightarrow> \<not> t < now + rd_Delay d \<and> \<not> t < rs_QuarantineUntil state" for t
    using a(2,4) by (simp add: Ready_def update_conv')
  have other: "Ready p' peer t = Ready ?p peer t" if "peer \<noteq> dr_Peer r" for peer t
    using a(2) that by (simp add: Ready_def update_conv')
  have delay: "rd_Delay d = max (outboundRetryMinimumDelay r) (failureDelay u c (dr_Peer r) n)"
    using a(5) n c by simp
  have least: "of_int (min (rc_MaxDelay c) (rc_BaseDelay c * 2 ^ (n - 1))) *
      (1 - clamped (rc_JitterRatio config)) - 2 < of_int (rd_Delay d)"
    if "retry_numbers config" "rc_MaxDelay c \<le> 2 ^ 53"
  proof -
    have "of_int (failureDelay u c (dr_Peer r) n) \<le> (of_int (rd_Delay d) :: rat)"
      unfolding delay by (simp only: of_int_le_iff max.cobounded2)
    moreover note failure_delay [OF that(1) _ refl, of n u "dr_Peer r"]
    ultimately show ?thesis using that(2) unfolding assms(2) by linarith
  qed
  show ?thesis using a(1,6,7) r other ns delay least n c by simp
qed

section \<open>An example\<close>

text \<open>The conversion of amd64.\<close>

definition example_platform :: float_conversion where
  "example_platform _ = - (2 ^ 63)"

definition example_retry :: OutboundRetryConfig where
  "example_retry = \<lparr>rc_BaseDelay = 0, rc_MaxDelay = 0, rc_JitterRatio = Number (1 / 2),
     rc_QuarantineFailures = 0, rc_QuarantineDuration = 0, rc_DelayFraction = None\<rparr>"

definition example_failure :: "string DistributionReceipt" where
  "example_failure = \<lparr>dr_State = DistributionHandoffFailed, dr_Gates = \<lparr>gp_Open = True,
     gp_BlockingReason = [], gp_Results = []\<rparr>, dr_Peer = ''AAAAAAAAAAAA'', dr_Target = None,
     dr_PostingCount = 1, dr_Handoff = no_handoff, dr_RequeuedPostings = 1, dr_RestoredPostings = 0,
     dr_ConfirmedPostings = 0\<rparr>"

lemma example_retry_numbers: "retry_numbers example_retry"
  by (simp add: retry_numbers_def example_retry_def)

lemma example_retry_normal:
  "rc_MaxDelay (normalizeOutboundRetryConfig example_retry) = 3600000000000"
  "rc_BaseDelay (normalizeOutboundRetryConfig example_retry) = 60000000000"
  "rc_QuarantineDuration (normalizeOutboundRetryConfig example_retry) = 1800000000000"
  "rc_QuarantineFailures (normalizeOutboundRetryConfig example_retry) = 3"
  by (simp_all add: normalizeOutboundRetryConfig_def example_retry_def Let_def hour_def minute_def second_def)

lemma example_ratio: "clamped (rc_JitterRatio example_retry) = 1 / 2"
  by (simp add: example_retry_def clamped_def)

lemma retry_delay_doubles_witness:
  "59999999998 < (of_int (failureDelay example_platform (rp_config (NewOutboundRetryPolicy example_retry))
     ''AAAAAAAAAAAA'' 2) :: rat) \<and>
   failureDelay example_platform (rp_config (NewOutboundRetryPolicy example_retry)) ''AAAAAAAAAAAA'' 2 \<le> 120000000000"
  using retry_delay_doubles [OF example_retry_numbers refl _ refl, of 2 example_platform "''AAAAAAAAAAAA''"]
  by (simp add: NewOutboundRetryPolicy_def example_retry_normal example_ratio)


lemma failed_peer_waits_witness:
  "\<not> Ready (fst (Observe example_platform (NewOutboundRetryPolicy example_retry) example_failure 5)) ''AAAAAAAAAAAA'' 6"
proof -
  obtain p' d where o: "Observe example_platform (NewOutboundRetryPolicy example_retry) example_failure 5 = (p', d)"
    by (cases "Observe example_platform (NewOutboundRetryPolicy example_retry) example_failure 5")
  have o': "Observe example_platform (observations example_platform (NewOutboundRetryPolicy example_retry) [])
      example_failure 5 = (p', d)" using o by (simp add: observations_def)
  have n: "failure_streak (dr_Peer example_failure) ([] @ [(example_failure, 5)]) = 1"
    by (simp add: failure_streak_def example_failure_def outboundRetryFailure_def)
  have f: "outboundRetryFailure (dr_State example_failure)" "dr_Peer example_failure = ''AAAAAAAAAAAA''"
    by (simp_all add: example_failure_def outboundRetryFailure_def)
  note w = failed_peer_waits [OF o' refl refl]
  have "(29999999998 :: rat) < of_int (rd_Delay d)"
    using w f(1) example_retry_numbers unfolding n by (simp add: example_retry_normal example_ratio)
  then have "6 < 5 + rd_Delay d" by simp
  then show ?thesis using w f o by simp
qed

end
