(* ===== verification/OutboundExchange.thy ===== *)
theory OutboundExchange
  imports OutboundRetry
begin

text \<open>
  \<^verbatim>\<open>yagonode/internal/dhtexchange\<close>: one round of the exchange. The scheduler evaluates the gates,
  lets the feeder fill an empty queue with postings that the own store selects, and lets the
  distributor send the largest chunk whose peer is ready; the retry policy sees the outcome, and the
  chunk of a peer that failed too often goes back to the store. The store is an interface of four
  operations, which the node implements by the posting store; the answers of the network, of the
  directory of addresses and of the clock are the parameters of a round. A round also returns the
  calls of the handoff that it made.
\<close>

section \<open>The own store\<close>

record ('s, 'e) WordSource =
  ws_SelectOutboundWords :: "'s \<Rightarrow> int \<Rightarrow> int \<Rightarrow> 's \<times> ('e, WordPostings list) result"
  ws_RestoreOutboundWords :: "'s \<Rightarrow> WordPostings list \<Rightarrow> 's \<times> ('e, nat) result"
  ws_FinalizeOutboundPostings :: "'s \<Rightarrow> RWIPosting list \<Rightarrow> 's \<times> ('e, nat) result"
  ws_ConfirmTransferred :: "'s \<Rightarrow> RWIPosting list \<Rightarrow> 's \<times> ('e, nat) result"

definition outboundRestoreWords :: "RWIPosting list \<Rightarrow> WordPostings list" where
  "outboundRestoreWords postings = group_words (map (\<lambda>p. (RWI_WordHash p, p)) postings)"

text \<open>The posting store behind the interface, with the outcomes of its transactions in the order in
  which they are made.\<close>

record stored_words =
  sw_vault :: posting_vault
  sw_transactions :: nat

definition SelectOutboundWords ::
  "(nat \<Rightarrow> txn_outcome) \<Rightarrow> stored_words \<Rightarrow> int \<Rightarrow> int \<Rightarrow>
     stored_words \<times> (store_error, WordPostings list) result" where
  "SelectOutboundWords outcome s maxWords maxPostings =
     (case SelectOutbound (outcome (sw_transactions s), outcome (sw_transactions s + 1)) (sw_vault s)
         \<lparr>os_MaxWords = maxWords, os_MaxPostings = maxPostings\<rparr> of
        (v, r) \<Rightarrow> (\<lparr>sw_vault = v, sw_transactions = sw_transactions s + 2\<rparr>, r))"

definition RestoreOutboundWords ::
  "(nat \<Rightarrow> txn_outcome) \<Rightarrow> stored_words \<Rightarrow> WordPostings list \<Rightarrow> stored_words \<times> (store_error, nat) result" where
  "RestoreOutboundWords outcome s words =
     (case RestoreOutbound (outcome (sw_transactions s), outcome (sw_transactions s + 1)) (sw_vault s) words of
        (v, r) \<Rightarrow> (\<lparr>sw_vault = v, sw_transactions = sw_transactions s + 2\<rparr>, r))"

definition ConfirmTransferred ::
  "(nat \<Rightarrow> txn_outcome) \<Rightarrow> stored_words \<Rightarrow> RWIPosting list \<Rightarrow> stored_words \<times> (store_error, nat) result" where
  "ConfirmTransferred outcome s postings =
     (case ConfirmOutbound (outcome (sw_transactions s)) (sw_vault s) postings of
        (v, r) \<Rightarrow> (\<lparr>sw_vault = v, sw_transactions = sw_transactions s + 1\<rparr>, r))"

definition FinalizeOutboundPostings ::
  "(nat \<Rightarrow> txn_outcome) \<Rightarrow> stored_words \<Rightarrow> RWIPosting list \<Rightarrow> stored_words \<times> (store_error, nat) result" where
  "FinalizeOutboundPostings outcome s postings =
     (case ConfirmOutbound (outcome (sw_transactions s)) (sw_vault s) postings of
        (v, r) \<Rightarrow> (\<lparr>sw_vault = v, sw_transactions = sw_transactions s + 1\<rparr>, r))"

definition dhtOutboundRWIWords :: "(nat \<Rightarrow> txn_outcome) \<Rightarrow> (stored_words, store_error) WordSource" where
  "dhtOutboundRWIWords outcome =
     \<lparr>ws_SelectOutboundWords = SelectOutboundWords outcome,
      ws_RestoreOutboundWords = RestoreOutboundWords outcome,
      ws_FinalizeOutboundPostings = FinalizeOutboundPostings outcome,
      ws_ConfirmTransferred = ConfirmTransferred outcome\<rparr>"

section \<open>The feeder\<close>

record OutboundFeederConfig =
  fc_MaxWords :: int
  fc_MaxPostings :: int
  fc_Redundancy :: int
  fc_PartitionExponent :: int
  fc_MinimumPeerAgeDays :: int

definition NewOutboundFeeder :: "OutboundFeederConfig \<Rightarrow> OutboundFeederConfig" where
  "NewOutboundFeeder config = config\<lparr>
     fc_MaxWords := (if fc_MaxWords config \<le> 0 then 1 else fc_MaxWords config),
     fc_MaxPostings := (if fc_MaxPostings config \<le> 0 \<or> fc_MaxPostings config > int MaxChunkPostings
       then int MaxChunkPostings else fc_MaxPostings config)\<rparr>"

datatype OutboundFeedState = OutboundFeedNone | OutboundFeedSkipped | OutboundFeedEmpty
  | OutboundFeedEnqueued | OutboundFeedDropped | OutboundFeedRestored

record OutboundFeedReceipt =
  fr_State :: OutboundFeedState
  fr_SelectedPostings :: nat
  fr_FinalizedPostings :: nat
  fr_RestoredPostings :: nat
  fr_Enqueue :: EnqueueReceipt

definition no_feed :: OutboundFeedReceipt where
  "no_feed = \<lparr>fr_State = OutboundFeedNone, fr_SelectedPostings = 0, fr_FinalizedPostings = 0,
     fr_RestoredPostings = 0, fr_Enqueue = empty_receipt\<rparr>"

datatype 'e exchange_error = SelectFailed 'e | EnqueueFailed enqueue_error | FinalizeFailed 'e
  | RestoreFailed 'e | ConfirmFailed 'e | HandoffFailed handoff_error

text \<open>What a feed sees of its surroundings; k counts the words.\<close>

record 'a feed_env =
  fe_Peers :: "'a Seed list"
  fe_MissingURLs :: "nat \<Rightarrow> Hash list \<Rightarrow> Hash list option"
  fe_Visit :: "nat \<Rightarrow> u64 list \<Rightarrow> u64 list"
  fe_Now :: "nat \<Rightarrow> go_time"

definition addEnqueueReceipts :: "EnqueueReceipt \<Rightarrow> EnqueueReceipt \<Rightarrow> EnqueueReceipt" where
  "addEnqueueReceipts a b =
     \<lparr>er_AcceptedPostings = er_AcceptedPostings a + er_AcceptedPostings b,
      er_MissingURL = er_MissingURL a + er_MissingURL b,
      er_BadPostings = er_BadPostings a + er_BadPostings b,
      er_TargetCopies = er_TargetCopies a + er_TargetCopies b,
      er_OverflowCopies = er_OverflowCopies a + er_OverflowCopies b,
      er_TouchedChunks = er_TouchedChunks a + er_TouchedChunks b,
      er_acceptedRows = er_acceptedRows a @ er_acceptedRows b,
      er_missingRows = er_missingRows a @ er_missingRows b\<rparr>"

definition appendOutboundRestorable ::
  "WordPostings list \<Rightarrow> Hash \<Rightarrow> RWIPosting list \<Rightarrow> WordPostings list" where
  "appendOutboundRestorable words word rows =
     (if rows = [] then words else words @ [\<lparr>wp_WordHash = word, wp_Postings = rows\<rparr>])"

definition wordPostingCount :: "WordPostings list \<Rightarrow> nat" where
  "wordPostingCount words = sum_list (map (\<lambda>w. length (wp_Postings w)) words)"

definition feed_enqueue_config :: "OutboundFeederConfig \<Rightarrow> go_time \<Rightarrow> EnqueueConfig" where
  "feed_enqueue_config config now =
     \<lparr>ec_Redundancy = fc_Redundancy config, ec_PartitionExponent = fc_PartitionExponent config,
      ec_MinimumPeerAgeDays = fc_MinimumPeerAgeDays config, ec_Now = now\<rparr>"

fun feed_words ::
  "'a seed_lib \<Rightarrow> 'a feed_env \<Rightarrow> OutboundFeederConfig \<Rightarrow> nat \<Rightarrow> WordPostings list \<Rightarrow> 'a OutboundQueue \<Rightarrow>
     EnqueueReceipt \<Rightarrow> WordPostings list \<Rightarrow>
     'a OutboundQueue \<times> EnqueueReceipt \<times> (enqueue_error, WordPostings list) result" where
  "feed_words lib env config k [] q enqueued restorable = (q, enqueued, Inr restorable)"
| "feed_words lib env config k (word # words) q enqueued restorable =
     (case EnqueueWord lib (fe_Now env k) (fe_Visit env k) (fe_MissingURLs env k) (fe_Peers env) word
         (feed_enqueue_config config (fe_Now env k)) q of
        (q, Inl e) \<Rightarrow> (q, enqueued, Inl e)
      | (q, Inr r) \<Rightarrow> feed_words lib env config (k + 1) words q (addEnqueueReceipts enqueued r)
          (appendOutboundRestorable restorable (wp_WordHash word) (er_acceptedRows r)))"

definition feed_restore ::
  "('s, 'e) WordSource \<Rightarrow> 'a OutboundQueue \<Rightarrow> 's \<Rightarrow> WordPostings list \<Rightarrow> OutboundFeedReceipt \<Rightarrow>
     'e exchange_error list \<Rightarrow>
     'a OutboundQueue \<times> 's \<times> OutboundFeedReceipt \<times> 'e exchange_error list" where
  "feed_restore source q s words receipt cause =
     (case ws_RestoreOutboundWords source s words of
        (s, Inl e) \<Rightarrow> (Clear q, s, receipt\<lparr>fr_State := OutboundFeedRestored, fr_RestoredPostings := 0\<rparr>,
          cause @ [RestoreFailed e])
      | (s, Inr restored) \<Rightarrow> (Clear q, s,
          receipt\<lparr>fr_State := OutboundFeedRestored, fr_RestoredPostings := restored\<rparr>, cause))"

text \<open>The end of a feed, after the words are queued and the postings of unknown addresses are
  finalised.\<close>

definition feed_finish ::
  "('s, 'e) WordSource \<Rightarrow> 'a OutboundQueue \<Rightarrow> 's \<Rightarrow> WordPostings list \<Rightarrow> OutboundFeedReceipt \<Rightarrow>
     'a OutboundQueue \<times> 's \<times> OutboundFeedReceipt \<times> 'e exchange_error list" where
  "feed_finish source q s restorable receipt =
     (let enqueued = fr_Enqueue receipt
      in if er_TargetCopies enqueued > 0 \<and> er_OverflowCopies enqueued = 0
         then (q, s, receipt\<lparr>fr_State := OutboundFeedEnqueued\<rparr>, [])
         else if er_AcceptedPostings enqueued = 0
         then (q, s, receipt\<lparr>fr_State := OutboundFeedDropped\<rparr>, [])
         else feed_restore source q s restorable receipt [])"

definition Feed ::
  "('s, 'e) WordSource \<Rightarrow> 'a seed_lib \<Rightarrow> 'a feed_env \<Rightarrow> OutboundFeederConfig \<Rightarrow> 'a OutboundQueue \<Rightarrow> 's \<Rightarrow>
     'a OutboundQueue \<times> 's \<times> OutboundFeedReceipt \<times> 'e exchange_error list" where
  "Feed source lib env config q s =
     (if queue_len q > 0 then (q, s, no_feed\<lparr>fr_State := OutboundFeedSkipped\<rparr>, [])
      else case ws_SelectOutboundWords source s (fc_MaxWords config) (fc_MaxPostings config) of
        (s, Inl e) \<Rightarrow> (q, s, no_feed\<lparr>fr_State := OutboundFeedEmpty\<rparr>, [SelectFailed e])
      | (s, Inr words) \<Rightarrow>
          let receipt = no_feed\<lparr>fr_State := OutboundFeedEmpty, fr_SelectedPostings := wordPostingCount words\<rparr>
          in if words = [] then (q, s, receipt, [])
             else (case feed_words lib env config 0 words q empty_receipt [] of
               (q, enqueued, r) \<Rightarrow>
                 let receipt = receipt\<lparr>fr_Enqueue := enqueued\<rparr>
                 in (case r of
                   Inl e \<Rightarrow> feed_restore source q s words receipt [EnqueueFailed e]
                 | Inr restorable \<Rightarrow>
                     if er_missingRows enqueued = [] then feed_finish source q s restorable receipt
                     else (case ws_FinalizeOutboundPostings source s (er_missingRows enqueued) of
                       (s, Inl e) \<Rightarrow> feed_restore source q s words receipt [FinalizeFailed e]
                     | (s, Inr finalized) \<Rightarrow> feed_finish source q s restorable
                         (receipt\<lparr>fr_FinalizedPostings := finalized\<rparr>)))))"


section \<open>The distributor\<close>

text \<open>A call of the handoff: the peer, the postings and the receipt.\<close>

type_synonym 'a handoff_call = "'a Seed \<times> RWIPosting list \<times> HandoffReceipt"

definition distribution_receipt :: "GateReport \<Rightarrow> 'a DistributionReceipt" where
  "distribution_receipt gates = \<lparr>dr_State = DistributionNone, dr_Gates = gates, dr_Peer = [],
     dr_Target = None, dr_PostingCount = 0, dr_Handoff = no_handoff, dr_RequeuedPostings = 0,
     dr_RestoredPostings = 0, dr_ConfirmedPostings = 0\<rparr>"

definition restoreLocally :: "('s, 'e) WordSource \<Rightarrow> 's \<Rightarrow> RWIPosting list \<Rightarrow> 's \<times> ('e, nat) result" where
  "restoreLocally source s postings = ws_RestoreOutboundWords source s (outboundRestoreWords postings)"

definition restoreRejectedPostings ::
  "('s, 'e) WordSource \<Rightarrow> 'a OutboundQueue \<Rightarrow> 's \<Rightarrow> RWIPosting list \<Rightarrow>
     'a OutboundQueue \<times> 's \<times> nat \<times> 'e exchange_error list" where
  "restoreRejectedPostings source q s postings = (case restoreLocally source s postings of
     (s, Inl e) \<Rightarrow> (retainPendingRestore postings q, s, 0, [RestoreFailed e])
   | (s, Inr restored) \<Rightarrow> (q, s, restored, []))"

definition confirmAcceptedPostings ::
  "('s, 'e) WordSource \<Rightarrow> 'a OutboundQueue \<Rightarrow> 's \<Rightarrow> RWIPosting list \<Rightarrow>
     'a OutboundQueue \<times> 's \<times> nat \<times> 'e exchange_error list" where
  "confirmAcceptedPostings source q s postings = (case ws_ConfirmTransferred source s postings of
     (s, Inl e) \<Rightarrow> (retainPendingTransferConfirmation postings q, s, 0, [ConfirmFailed e])
   | (s, Inr confirmed) \<Rightarrow> (q, s, confirmed, []))"

text \<open>Work on the own store that failed before is tried again first; None when there is none.\<close>

definition retryLocalCompletion ::
  "('s, 'e) WordSource \<Rightarrow> GateReport \<Rightarrow> 'a OutboundQueue \<Rightarrow> 's \<Rightarrow>
     ('a OutboundQueue \<times> 's \<times> 'a DistributionReceipt \<times> 'e exchange_error list) option" where
  "retryLocalCompletion source gates q s =
     (if oq_pendingRestores q \<noteq> [] then
        let receipt = (distribution_receipt gates)\<lparr>dr_State := DistributionRestorePending,
              dr_PostingCount := length (oq_pendingRestores q)\<rparr>
        in Some (case restoreLocally source s (oq_pendingRestores q) of
          (s, Inl e) \<Rightarrow> (q, s, receipt, [RestoreFailed e])
        | (s, Inr restored) \<Rightarrow> (completePendingRestore q, s,
            receipt\<lparr>dr_State := DistributionRestored, dr_RestoredPostings := restored\<rparr>, []))
      else if oq_pendingTransferConfirmations q \<noteq> [] then
        let receipt = (distribution_receipt gates)\<lparr>dr_State := DistributionConfirmationPending,
              dr_PostingCount := length (oq_pendingTransferConfirmations q)\<rparr>
        in Some (case ws_ConfirmTransferred source s (oq_pendingTransferConfirmations q) of
          (s, Inl e) \<Rightarrow> (q, s, receipt, [ConfirmFailed e])
        | (s, Inr confirmed) \<Rightarrow> (completePendingTransferConfirmation q, s,
            receipt\<lparr>dr_State := DistributionConfirmed, dr_ConfirmedPostings := confirmed\<rparr>, []))
      else None)"

definition finishAcceptedHandoff ::
  "('s, 'e) WordSource \<Rightarrow> 'a DistributionReceipt \<Rightarrow> 'a OutboundChunk \<Rightarrow> HandoffReceipt \<Rightarrow>
     'a OutboundQueue \<Rightarrow> 's \<Rightarrow> 'a OutboundQueue \<times> 's \<times> 'a DistributionReceipt \<times> 'e exchange_error list" where
  "finishAcceptedHandoff source receipt chunk handoff q s =
     (case splitHandoffPostings (oc_Postings chunk) (hr_RejectedPostings handoff) of
        (accepted, rejected) \<Rightarrow>
          (case (if rejected = [] then (q, s, 0, [])
                 else restoreRejectedPostings source (cancelPostingCopies rejected q) s rejected) of
             (q, s, restored, restoreErr) \<Rightarrow>
               let receipt = receipt\<lparr>dr_State := DistributionSent, dr_RestoredPostings := restored\<rparr>;
                   confirmable = confirmablePostings accepted q
               in if confirmable = [] then (q, s, receipt, restoreErr)
                  else (case confirmAcceptedPostings source q s confirmable of
                    (q, s, confirmed, confirmErr) \<Rightarrow>
                      (q, s, receipt\<lparr>dr_ConfirmedPostings := confirmed\<rparr>, restoreErr @ confirmErr))))"

definition finishRejectedHandoff ::
  "('s, 'e) WordSource \<Rightarrow> 'a DistributionReceipt \<Rightarrow> 'a OutboundChunk \<Rightarrow> handoff_error option \<Rightarrow>
     'a OutboundQueue \<Rightarrow> 's \<Rightarrow> 'a OutboundQueue \<times> 's \<times> 'a DistributionReceipt \<times> 'e exchange_error list" where
  "finishRejectedHandoff source receipt chunk handoffErr q s =
     (case restoreRejectedPostings source (cancelPostingCopies (oc_Postings chunk) q) s (oc_Postings chunk) of
        (q, s, restored, restoreErr) \<Rightarrow>
          (q, s, receipt\<lparr>dr_State := DistributionHandoffRejected, dr_RestoredPostings := restored\<rparr>,
           (case handoffErr of None \<Rightarrow> [] | Some e \<Rightarrow> [HandoffFailed e]) @ restoreErr))"

definition handoff_chunk ::
  "('s, 'e) WordSource \<Rightarrow> 'a PeerWriter \<Rightarrow> (Hash list \<Rightarrow> URIMetadataRow list option) \<Rightarrow>
     'a DistributionReceipt \<Rightarrow> 'a OutboundChunk \<Rightarrow> 'a OutboundQueue \<Rightarrow> 's \<Rightarrow>
     'a OutboundQueue \<times> 's \<times> 'a DistributionReceipt \<times> 'e exchange_error list \<times> 'a handoff_call option" where
  "handoff_chunk source writer rowsByHash receipt chunk q s =
     (case Send writer rowsByHash (oc_Peer chunk) (oc_Postings chunk) of
        (handoff, err) \<Rightarrow>
          let receipt = receipt\<lparr>dr_Peer := sd_Hash (oc_Peer chunk), dr_Target := Some (oc_Peer chunk),
                dr_PostingCount := length (oc_Postings chunk), dr_Handoff := handoff\<rparr>;
              call = Some (oc_Peer chunk, oc_Postings chunk, handoff)
          in if err \<noteq> None \<and> \<not> handoffRejected (hr_State handoff) then
               (case Requeue chunk q of (q, requeued) \<Rightarrow>
                 (q, s, receipt\<lparr>dr_State := DistributionHandoffFailed, dr_RequeuedPostings := requeued\<rparr>,
                  [HandoffFailed (the err)], call))
             else if \<not> handoffAccepted (hr_State handoff) then
               (case finishRejectedHandoff source receipt chunk err q s of
                  (q, s, receipt, errs) \<Rightarrow> (q, s, receipt, errs, call))
             else (case finishAcceptedHandoff source receipt chunk handoff q s of
                  (q, s, receipt, errs) \<Rightarrow> (q, s, receipt, errs, call)))"

definition DistributeReady ::
  "('s, 'e) WordSource \<Rightarrow> 'a PeerWriter \<Rightarrow> (Hash list \<Rightarrow> URIMetadataRow list option) \<Rightarrow>
     GateState \<Rightarrow> GateConfig \<Rightarrow> (Hash \<Rightarrow> bool) \<Rightarrow> 'a OutboundQueue \<Rightarrow> 's \<Rightarrow>
     'a OutboundQueue \<times> 's \<times> 'a DistributionReceipt \<times> 'e exchange_error list \<times> 'a handoff_call option" where
  "DistributeReady source writer rowsByHash state config ready q s =
     (let gates = EvaluateGates state config
      in case retryLocalCompletion source gates q s of
        Some (q, s, receipt, errs) \<Rightarrow> (q, s, receipt, errs, None)
      | None \<Rightarrow>
          if \<not> gp_Open gates
          then (q, s, (distribution_receipt gates)\<lparr>dr_State := DistributionGateClosed\<rparr>, [], None)
          else (case DequeueLargestReady (Some ready) q of
            (q, None) \<Rightarrow> (q, s, (distribution_receipt gates)\<lparr>dr_State :=
                if queue_len q > 0 then DistributionRetryDeferred else DistributionQueueEmpty\<rparr>, [], None)
          | (q, Some chunk) \<Rightarrow>
              handoff_chunk source writer rowsByHash (distribution_receipt gates) chunk q s))"

definition RestoreRequeuedPeer ::
  "('s, 'e) WordSource \<Rightarrow> Hash \<Rightarrow> 'a OutboundQueue \<Rightarrow> 's \<Rightarrow>
     'a OutboundQueue \<times> 's \<times> nat \<times> nat \<times> 'e exchange_error list" where
  "RestoreRequeuedPeer source peer q s = (case DequeuePeer peer q of
     (q, None) \<Rightarrow> (q, s, 0, 0, [])
   | (q, Some chunk) \<Rightarrow>
       let q = cancelPostingCopies (oc_Postings chunk) q
       in (case ws_RestoreOutboundWords source s (outboundRestoreWords (oc_Postings chunk)) of
         (s, Inl e) \<Rightarrow> (case Requeue \<lparr>oc_Peer = oc_Peer chunk, oc_Postings = oc_Postings chunk\<rparr> q of
           (q, requeued) \<Rightarrow> (q, s, 0, requeued, [RestoreFailed e]))
       | (s, Inr restored) \<Rightarrow> (q, s, restored, 0, [])))"

section \<open>A round\<close>

record 'a exchange_round =
  rn_at :: go_time
  rn_gates :: GateState
  rn_feed :: "'a feed_env"
  rn_writer :: "'a PeerWriter"
  rn_rowsByHash :: "Hash list \<Rightarrow> URIMetadataRow list option"

record 'a exchange_config =
  xc_lib :: "'a seed_lib"
  xc_Gates :: GateConfig
  xc_Feed :: "OutboundFeederConfig option"
  xc_platform :: float_conversion

record ('a, 's) exchange =
  ex_queue :: "'a OutboundQueue"
  ex_retry :: OutboundRetryPolicy
  ex_store :: 's

record 'a ScheduledDistributionReceipt =
  sc_Feed :: OutboundFeedReceipt
  sc_Distribution :: "'a DistributionReceipt option"
  sc_Retry :: "OutboundRetryDecision option"

definition feed_due :: "'a exchange_config \<Rightarrow> 'a exchange_round \<Rightarrow> ('a, 's) exchange \<Rightarrow> bool" where
  "feed_due cfg rnd ex \<longleftrightarrow> xc_Feed cfg \<noteq> None \<and>
     gp_Open (EvaluateGates (rn_gates rnd) (xc_Gates cfg)) \<and> \<not> localCompletionPending (ex_queue ex)"

text \<open>The second half of a round, after the feed.\<close>

definition distribute_round ::
  "('s, 'e) WordSource \<Rightarrow> 'a exchange_config \<Rightarrow> 'a exchange_round \<Rightarrow> OutboundFeedReceipt \<Rightarrow>
     ('a, 's) exchange \<Rightarrow>
     ('a, 's) exchange \<times> 'a ScheduledDistributionReceipt \<times> 'e exchange_error list \<times> 'a handoff_call option" where
  "distribute_round source cfg rnd feed ex =
     (case DistributeReady source (rn_writer rnd) (rn_rowsByHash rnd) (rn_gates rnd) (xc_Gates cfg)
         (\<lambda>peer. Ready (ex_retry ex) peer (rn_at rnd)) (ex_queue ex) (ex_store ex) of
        (q, s, receipt, errs, call) \<Rightarrow>
          (case Observe (xc_platform cfg) (ex_retry ex) receipt (rn_at rnd) of
             (p, retry) \<Rightarrow>
               if dr_State receipt = DistributionHandoffFailed \<and> rd_Status retry = OutboundRetryQuarantined
               then (case RestoreRequeuedPeer source (dr_Peer receipt) q s of
                 (q, s, restored, requeued, restoreErrs) \<Rightarrow>
                   (\<lparr>ex_queue = q, ex_retry = p, ex_store = s\<rparr>,
                    \<lparr>sc_Feed = feed, sc_Distribution = Some (receipt\<lparr>dr_RestoredPostings := restored,
                       dr_RequeuedPostings := requeued\<rparr>), sc_Retry = Some retry\<rparr>,
                    errs @ restoreErrs, call))
               else (\<lparr>ex_queue = q, ex_retry = p, ex_store = s\<rparr>,
                  \<lparr>sc_Feed = feed, sc_Distribution = Some receipt, sc_Retry = Some retry\<rparr>, errs, call)))"

definition RunOnce ::
  "('s, 'e) WordSource \<Rightarrow> 'a exchange_config \<Rightarrow> 'a exchange_round \<Rightarrow> ('a, 's) exchange \<Rightarrow>
     ('a, 's) exchange \<times> 'a ScheduledDistributionReceipt \<times> 'e exchange_error list \<times> 'a handoff_call option" where
  "RunOnce source cfg rnd ex =
     (if feed_due cfg rnd ex
      then (case Feed source (xc_lib cfg) (rn_feed rnd) (the (xc_Feed cfg)) (ex_queue ex) (ex_store ex) of
        (q, s, feed, errs) \<Rightarrow>
          let ex = ex\<lparr>ex_queue := q, ex_store := s\<rparr>
          in if errs \<noteq> []
             then (ex, \<lparr>sc_Feed = feed, sc_Distribution = None, sc_Retry = None\<rparr>, errs, None)
             else distribute_round source cfg rnd feed ex)
      else distribute_round source cfg rnd no_feed ex)"

end
