(* ===== verification/ExchangeSafety.thy ===== *)
theory ExchangeSafety
  imports OutboundExchange
begin

text \<open>
  What the exchange promises for the postings of the own store. The store is used through a contract
  of its four operations, which the posting store satisfies for every outcome of its transactions;
  under the contract no round loses a posting that was not accepted by a peer, whatever the network,
  the directory of addresses and the store answer.
\<close>

section \<open>The contract of the store\<close>

definition storable_rows :: "RWIPosting set \<Rightarrow> bool" where
  "storable_rows rows \<longleftrightarrow> (\<forall>r\<in>rows. storable_map (RWI_Properties r))"

text \<open>The content changes only by losing postings of which the predicate holds.\<close>

definition loses ::
  "(RWIPosting \<Rightarrow> bool) \<Rightarrow> (string \<Rightarrow> bytes option) \<Rightarrow> (string \<Rightarrow> bytes option) \<Rightarrow> bool" where
  "loses P c c' \<longleftrightarrow> (\<forall>k. c' k = c k \<or> c' k = None \<and>
     (\<exists>p. P p \<and> postingRecoveryKey p = Inr k \<and> c k = Some (encodeStoredPosting p)))"

lemma loses_refl [intro, simp]: "loses P c c"
  by (simp add: loses_def)

lemma loses_mono: "loses P c c' \<Longrightarrow> (\<And>p. P p \<Longrightarrow> Q p) \<Longrightarrow> loses Q c c'"
  unfolding loses_def by blast

lemma loses_trans:
  assumes "loses P c c1" "loses P c1 c2"
  shows "loses P c c2"
  unfolding loses_def
proof
  fix k
  show "c2 k = c k \<or> c2 k = None \<and>
     (\<exists>p. P p \<and> postingRecoveryKey p = Inr k \<and> c k = Some (encodeStoredPosting p))"
    using assms(1) [unfolded loses_def, rule_format, of k] assms(2) [unfolded loses_def, rule_format, of k]
    by auto
qed

lemma loses_either:
  "loses P c c1 \<Longrightarrow> loses Q c1 c2 \<Longrightarrow> loses (\<lambda>p. P p \<or> Q p) c c2"
  by (rule loses_trans [of _ c c1]) (auto elim: loses_mono)

locale outbound_store =
  fixes source :: "('s, 'e) WordSource"
    and sinv :: "'s \<Rightarrow> bool"
    and content :: "'s \<Rightarrow> string \<Rightarrow> bytes option"
  assumes select: "sinv s \<Longrightarrow> ws_SelectOutboundWords source s m n = (s', x) \<Longrightarrow>
      sinv s' \<and> content s' = content s \<and>
      (\<forall>words. x = Inr words \<longrightarrow> storable_rows (snd ` set (flat_words words)))"
    and restore: "sinv s \<Longrightarrow> storable_rows (snd ` set (flat_words words)) \<Longrightarrow>
      ws_RestoreOutboundWords source s words = (s', y) \<Longrightarrow> sinv s' \<and> content s' = content s"
    and finalize: "sinv s \<Longrightarrow> ws_FinalizeOutboundPostings source s ps = (s', y) \<Longrightarrow>
      sinv s' \<and> loses (\<lambda>p. p \<in> set ps) (content s) (content s')"
    and confirm: "sinv s \<Longrightarrow> ws_ConfirmTransferred source s ps = (s', y) \<Longrightarrow>
      sinv s' \<and> loses (\<lambda>p. p \<in> set ps) (content s) (content s')"

section \<open>The posting store satisfies it\<close>

definition words_inv :: "stored_words \<Rightarrow> bool" where
  "words_inv s \<longleftrightarrow> vault_inv (sw_vault s)"

definition words_content :: "stored_words \<Rightarrow> string \<Rightarrow> bytes option" where
  "words_content s = posting_content (sw_vault s)"

lemma confirm_loses:
  "content_step (OpConfirm outcome ps) c c' \<Longrightarrow> loses (\<lambda>p. p \<in> set ps) c c'"
  unfolding loses_def content_step.simps by blast

lemma select_rows_storable:
  assumes "vault_inv v" "SelectOutbound outcomes v config = (w, Inr words)"
  shows "storable_rows (snd ` set (flat_words words))"
proof -
  obtain sel where sel: "words = group_words (map (\<lambda>p. (sp_word p, sp_row p)) sel)"
    "selectOutboundPostings outcomes v (normalizeOutboundSelectionConfig config) = (w, Inr sel)"
    using assms(2) by (rule SelectOutbound_cases) auto
  have "\<forall>p\<in>set sel. selected_ok p" using select_postings [OF assms(1) sel(2)] by blast
  then show ?thesis using sel(1) by (auto simp: storable_rows_def selected_ok_def)
qed

interpretation rwi_words: outbound_store "dhtOutboundRWIWords outcome" words_inv words_content
proof
  fix s m n s' x
  assume a: "words_inv s" "ws_SelectOutboundWords (dhtOutboundRWIWords outcome) s m n = (s', x)"
  let ?o = "(outcome (sw_transactions s), outcome (sw_transactions s + 1))"
  let ?c = "\<lparr>os_MaxWords = m, os_MaxPostings = n\<rparr>"
  have v: "vault_inv (sw_vault s)" using a(1) by (simp add: words_inv_def)
  obtain w y where w: "SelectOutbound ?o (sw_vault s) ?c = (w, y)" by (cases "SelectOutbound ?o (sw_vault s) ?c")
  then have e: "sw_vault s' = w" "x = y"
    using a(2) by (auto simp: dhtOutboundRWIWords_def SelectOutboundWords_def)
  show "words_inv s' \<and> words_content s' = words_content s \<and>
      (\<forall>words. x = Inr words \<longrightarrow> storable_rows (snd ` set (flat_words words)))"
    using select_content [OF v, of ?o ?c] select_rows_storable [OF v, of ?o ?c w] w e
    by (simp add: words_inv_def words_content_def)
next
  fix s words s' y
  assume a: "words_inv s" "storable_rows (snd ` set (flat_words words))"
    "ws_RestoreOutboundWords (dhtOutboundRWIWords outcome) s words = (s', y)"
  let ?o = "(outcome (sw_transactions s), outcome (sw_transactions s + 1))"
  have "sw_vault s' = fst (RestoreOutbound ?o (sw_vault s) words)"
    using a(3) by (auto simp: dhtOutboundRWIWords_def RestoreOutboundWords_def split: prod.splits)
  then show "words_inv s' \<and> words_content s' = words_content s"
    using restore_content [of "sw_vault s" words ?o] a(1,2)
    by (simp add: words_inv_def words_content_def storable_rows_def)
next
  fix s ps s' y
  assume a: "words_inv s" "ws_FinalizeOutboundPostings (dhtOutboundRWIWords outcome) s ps = (s', y)"
  obtain w z where w: "ConfirmOutbound (outcome (sw_transactions s)) (sw_vault s) ps = (w, z)"
    by (cases "ConfirmOutbound (outcome (sw_transactions s)) (sw_vault s) ps")
  then have "sw_vault s' = w" using a(2) by (auto simp: dhtOutboundRWIWords_def FinalizeOutboundPostings_def)
  then show "words_inv s' \<and> loses (\<lambda>p. p \<in> set ps) (words_content s) (words_content s')"
    using confirm_content [OF _ w] a(1) confirm_loses by (auto simp: words_inv_def words_content_def)
next
  fix s ps s' y
  assume a: "words_inv s" "ws_ConfirmTransferred (dhtOutboundRWIWords outcome) s ps = (s', y)"
  obtain w z where w: "ConfirmOutbound (outcome (sw_transactions s)) (sw_vault s) ps = (w, z)"
    by (cases "ConfirmOutbound (outcome (sw_transactions s)) (sw_vault s) ps")
  then have "sw_vault s' = w" using a(2) by (auto simp: dhtOutboundRWIWords_def ConfirmTransferred_def)
  then show "words_inv s' \<and> loses (\<lambda>p. p \<in> set ps) (words_content s) (words_content s')"
    using confirm_content [OF _ w] a(1) confirm_loses by (auto simp: words_inv_def words_content_def)
qed

section \<open>Rounds\<close>

text \<open>The postings that a queue holds, in chunks or for later.\<close>

definition queue_rows :: "'a OutboundQueue \<Rightarrow> RWIPosting set" where
  "queue_rows q = set (queued_postings q) \<union> set (oq_pendingRestores q) \<union>
     set (oq_pendingTransferConfirmations q)"

definition accepted_by :: "'a handoff_call \<Rightarrow> RWIPosting \<Rightarrow> bool" where
  "accepted_by call p \<longleftrightarrow> (case call of (peer, ps, handoff) \<Rightarrow> handoffAccepted (hr_State handoff) \<and>
     p \<in> set (fst (splitHandoffPostings ps (hr_RejectedPostings handoff))))"

definition sent_by :: "'a handoff_call option \<Rightarrow> RWIPosting \<Rightarrow> bool" where
  "sent_by call p \<longleftrightarrow> (case call of None \<Rightarrow> False | Some c \<Rightarrow> accepted_by c p)"

definition orphan_in :: "'a feed_env \<Rightarrow> RWIPosting \<Rightarrow> bool" where
  "orphan_in env p \<longleftrightarrow> (\<exists>k url urls missing. RWIPosting_URLHash p = Inr url \<and>
     fe_MissingURLs env k urls = Some missing \<and> url \<in> set missing)"

definition feed_env_ok :: "'a feed_env \<Rightarrow> bool" where
  "feed_env_ok env \<longleftrightarrow> (\<forall>k. range_order (fe_Visit env k))"

lemma flat_words_snd: "snd ` set (flat_words words) = (\<Union>w\<in>set words. set (wp_Postings w))"
  by (force simp: flat_words_def)

lemma restore_words_rows: "snd ` set (flat_words (outboundRestoreWords ps)) = set ps"
  by (simp add: outboundRestoreWords_def image_image)

subsection \<open>The feed\<close>

lemma feed_words_ok:
  assumes "queue_inv q" "feed_env_ok env" "storable_rows (\<Union>w\<in>set words. set (wp_Postings w))"
    and "feed_words lib env config k words q enq restorable = (q', enq', res)"
    and "storable_rows (queue_rows q)" "storable_rows (set (er_missingRows enq))"
    "storable_rows (snd ` set (flat_words restorable))" "\<forall>p\<in>set (er_missingRows enq). orphan_in env p"
  shows "queue_inv q' \<and> oq_pendingRestores q' = oq_pendingRestores q \<and>
    oq_pendingTransferConfirmations q' = oq_pendingTransferConfirmations q \<and>
    (\<forall>r. res = Inr r \<longrightarrow> storable_rows (queue_rows q') \<and> storable_rows (set (er_missingRows enq')) \<and>
      storable_rows (snd ` set (flat_words r)) \<and> (\<forall>p\<in>set (er_missingRows enq'). orphan_in env p))"
  using assms(1,3-)
proof (induction words arbitrary: k q enq restorable)
  case (Cons word words)
  obtain q1 x where e: "EnqueueWord lib (fe_Now env k) (fe_Visit env k) (fe_MissingURLs env k) (fe_Peers env) word
      (feed_enqueue_config config (fe_Now env k)) q = (q1, x)" by (cases "EnqueueWord lib (fe_Now env k) (fe_Visit env k) (fe_MissingURLs env k) (fe_Peers env) word
      (feed_enqueue_config config (fe_Now env k)) q")
  note frame = EnqueueWord_frame [OF Cons.prems(1) e]
  show ?case
  proof (cases x)
    case (Inl err)
    then show ?thesis using Cons.prems(3) e frame by auto
  next
    case (Inr r)
    have vis: "range_order (fe_Visit env k)" using assms(2) by (simp add: feed_env_ok_def)
    note a = EnqueueWord_accounts [OF Cons.prems(1) vis e [unfolded Inr]]
    have i: "queue_inv q1" using a by blast
    have "set_mset (mset (er_acceptedRows r) + mset (er_missingRows r) +
      mset (filter (\<lambda>p. isl (RWIPosting_URLHash p)) (wp_Postings word))) = set (wp_Postings word)"
      using a by (simp only: set_mset_mset)
    then have rows: "set (er_acceptedRows r) \<subseteq> set (wp_Postings word)"
      "set (er_missingRows r) \<subseteq> set (wp_Postings word)" by auto
    have st: "storable_rows (set (wp_Postings word))" using Cons.prems(2) by (simp add: storable_rows_def)
    have q1: "queue_rows q1 \<subseteq> queue_rows q \<union> set (er_acceptedRows r)"
    proof -
      have "\<forall>h. in_queue q1 h \<subseteq> in_queue q h \<union> set (er_acceptedRows r)" using a by blast
      then have "set (queued_postings q1) \<subseteq> set (queued_postings q) \<union> set (er_acceptedRows r)"
        unfolding set_queued [OF i] set_queued [OF Cons.prems(1)] by blast
      then show ?thesis using frame unfolding queue_rows_def by auto
    qed
    have or: "\<forall>p\<in>set (er_missingRows r). orphan_in env p" using a unfolding orphan_in_def by blast
    have next_step: "feed_words lib env config (k + 1) words q1 (addEnqueueReceipts enq r)
        (appendOutboundRestorable restorable (wp_WordHash word) (er_acceptedRows r)) = (q', enq', res)"
      using Cons.prems(3) e Inr by simp
    have restorable: "storable_rows (snd ` set (flat_words (appendOutboundRestorable restorable (wp_WordHash word) (er_acceptedRows r))))"
      using Cons.prems(6) rows(1) st
      by (auto simp: storable_rows_def appendOutboundRestorable_def flat_words_def)
    have ih: "queue_inv q' \<and> oq_pendingRestores q' = oq_pendingRestores q1 \<and>
      oq_pendingTransferConfirmations q' = oq_pendingTransferConfirmations q1 \<and>
      (\<forall>r. res = Inr r \<longrightarrow> storable_rows (queue_rows q') \<and> storable_rows (set (er_missingRows enq')) \<and>
      storable_rows (snd ` set (flat_words r)) \<and> (\<forall>p\<in>set (er_missingRows enq'). orphan_in env p))"
    proof (rule Cons.IH [OF i _ next_step _ _ restorable])
      show "storable_rows (\<Union>w\<in>set words. set (wp_Postings w))" using Cons.prems(2) by (simp add: storable_rows_def)
      show "storable_rows (queue_rows q1)" using q1 rows(1) st Cons.prems(4) by (auto simp: storable_rows_def)
      show "storable_rows (set (er_missingRows (addEnqueueReceipts enq r)))"
        using rows(2) st Cons.prems(5) by (auto simp: storable_rows_def addEnqueueReceipts_def)
      show "\<forall>p\<in>set (er_missingRows (addEnqueueReceipts enq r)). orphan_in env p"
        using or Cons.prems(7) by (auto simp: addEnqueueReceipts_def)
    qed
    then show ?thesis using frame by simp
  qed
qed auto


lemma queue_rows_Clear: "queue_rows (Clear q) \<subseteq> queue_rows q"
  by (auto simp: queue_rows_def)

lemma storable_rows_mono: "storable_rows rows \<Longrightarrow> rows' \<subseteq> rows \<Longrightarrow> storable_rows rows'"
  by (auto simp: storable_rows_def)

lemma storable_rows_Un [simp]: "storable_rows (a \<union> b) \<longleftrightarrow> storable_rows a \<and> storable_rows b"
  by (auto simp: storable_rows_def)

text \<open>The state of a round: the queue and the store, with what the last transfers confirmed.\<close>

definition round_ok ::
  "('s \<Rightarrow> bool) \<Rightarrow> (RWIPosting \<Rightarrow> bool) \<Rightarrow> 'a OutboundQueue \<Rightarrow> 's \<Rightarrow> bool" where
  "round_ok sinv sent q s \<longleftrightarrow> queue_inv q \<and> sinv s \<and> storable_rows (queue_rows q) \<and>
     (\<forall>p\<in>set (oq_pendingTransferConfirmations q). sent p)"

lemma round_ok_mono: "round_ok sinv sent q s \<Longrightarrow> (\<And>p. sent p \<Longrightarrow> sent' p) \<Longrightarrow> round_ok sinv sent' q s"
  by (auto simp: round_ok_def)

text \<open>Steps on the queue alone.\<close>

lemma round_ok_Clear: "round_ok sinv sent q s \<Longrightarrow> round_ok sinv sent (Clear q) s"
  using storable_rows_mono [OF _ queue_rows_Clear] by (auto simp: round_ok_def)

lemma queue_rows_cancel:
  "queue_inv q \<Longrightarrow> queue_rows (cancelPostingCopies ps q) \<subseteq> queue_rows q"
  using set_queued [OF cancel_inv] set_queued in_queue_cancel by (fastforce simp: queue_rows_def)

lemma round_ok_cancel: "round_ok sinv sent q s \<Longrightarrow> round_ok sinv sent (cancelPostingCopies ps q) s"
  using storable_rows_mono [OF _ queue_rows_cancel] cancel_inv by (auto simp: round_ok_def)

lemma queue_rows_delete:
  assumes "queue_inv q" "map_of (oq_chunks q) peer = Some chunk"
  shows "set (oc_Postings chunk) \<subseteq> queue_rows q"
    "queue_rows (q\<lparr>oq_chunks := AList.delete peer (oq_chunks q)\<rparr>) \<subseteq> queue_rows q"
proof -
  have "set (oc_Postings chunk) = in_queue q peer" using assms(2) by (simp add: in_queue_def)
  then show "set (oc_Postings chunk) \<subseteq> queue_rows q" using set_queued [OF assms(1)] by (auto simp: queue_rows_def)
  have "in_queue (q\<lparr>oq_chunks := AList.delete peer (oq_chunks q)\<rparr>) h \<subseteq> in_queue q h" for h
    by (simp add: in_queue_def delete_conv')
  then have "set (queued_postings (q\<lparr>oq_chunks := AList.delete peer (oq_chunks q)\<rparr>)) \<subseteq> set (queued_postings q)"
    unfolding set_queued [OF assms(1)] set_queued [OF delete_chunk_inv [OF assms(1)]] by blast
  then show "queue_rows (q\<lparr>oq_chunks := AList.delete peer (oq_chunks q)\<rparr>) \<subseteq> queue_rows q"
    by (auto simp: queue_rows_def)
qed

lemma round_ok_delete:
  assumes "round_ok sinv sent q s" "map_of (oq_chunks q) peer = Some chunk"
  shows "round_ok sinv sent (q\<lparr>oq_chunks := AList.delete peer (oq_chunks q)\<rparr>) s \<and>
    storable_rows (set (oc_Postings chunk))"
proof -
  have i: "queue_inv q" using assms(1) by (simp add: round_ok_def)
  show ?thesis
    using assms(1) delete_chunk_inv [OF i, of peer] queue_rows_delete [OF i assms(2)]
      storable_rows_mono [of "queue_rows q"] by (simp add: round_ok_def)
qed

lemma round_ok_add:
  assumes "round_ok sinv sent q s" "queue_add peer ps q = (q', n)" "storable_rows (set ps)"
  shows "round_ok sinv sent q' s"
proof -
  have i: "queue_inv q" using assms(1) by (simp add: round_ok_def)
  note i' = queue_add_inv [OF i assms(2)] and p = queue_add_pending [OF assms(2)]
  have "in_queue q' h \<subseteq> in_queue q h \<union> set ps" for h
    unfolding in_queue_add [OF assms(2)] using set_take_subset [of n ps] by auto
  then have "set (queued_postings q') \<subseteq> set (queued_postings q) \<union> set ps"
    unfolding set_queued [OF i] set_queued [OF conjunct1 [OF i']] by blast
  then have "queue_rows q' \<subseteq> queue_rows q \<union> set ps" using p by (auto simp: queue_rows_def)
  then have "storable_rows (queue_rows q')"
    by (rule storable_rows_mono [rotated]) (use assms(1,3) in \<open>simp add: round_ok_def\<close>)
  then show ?thesis using assms(1) i' p by (simp add: round_ok_def)
qed

lemma round_ok_pending:
  assumes "round_ok sinv sent q s"
  shows "storable_rows (set ps) \<Longrightarrow> round_ok sinv sent (retainPendingRestore ps q) s"
    "round_ok sinv sent (completePendingRestore q) s"
    "storable_rows (set ps) \<Longrightarrow> \<forall>p\<in>set ps. sent p \<Longrightarrow>
      round_ok sinv sent (retainPendingTransferConfirmation ps q) s"
    "round_ok sinv sent (completePendingTransferConfirmation q) s"
  using assms
  by (simp_all add: round_ok_def retainPendingRestore_def completePendingRestore_def
      retainPendingTransferConfirmation_def completePendingTransferConfirmation_def queue_rows_def
      queued_postings_def)

context outbound_store
begin

lemma feed_restore_ok:
  assumes "round_ok sinv sent q s" "storable_rows (snd ` set (flat_words words))"
    and "feed_restore source q s words receipt cause = (q', s', r, errs)"
  shows "round_ok sinv sent q' s' \<and> content s' = content s"
proof -
  obtain s1 y where e: "ws_RestoreOutboundWords source s words = (s1, y)"
    by (cases "ws_RestoreOutboundWords source s words")
  have "sinv s" using assms(1) by (simp add: round_ok_def)
  note r = restore [OF this assms(2) e]
  have "s' = s1" "q' = Clear q" using assms(3) e by (auto simp: feed_restore_def split: sum.splits)
  then show ?thesis using r round_ok_Clear [OF assms(1)] by (simp add: round_ok_def)
qed

lemma feed_finish_ok:
  assumes "round_ok sinv sent q s" "storable_rows (snd ` set (flat_words words))"
    and "feed_finish source q s words receipt = (q', s', r, errs)"
  shows "round_ok sinv sent q' s' \<and> content s' = content s"
  using assms(3) feed_restore_ok [OF assms(1,2), of receipt "[]" q' s' r errs] assms(1)
  by (auto simp: feed_finish_def Let_def split: if_split_asm)

lemma Feed_ok:
  assumes "round_ok sinv sent q s" "feed_env_ok env"
    and "Feed source lib env config q s = (q', s', receipt, errs)"
  shows "round_ok sinv sent q' s' \<and> loses (orphan_in env) (content s) (content s')"
proof (cases "queue_len q > 0")
  case True
  then show ?thesis using assms by (simp add: Feed_def)
next
  case False
  obtain s1 x where sel: "ws_SelectOutboundWords source s (fc_MaxWords config) (fc_MaxPostings config) = (s1, x)"
    by (cases "ws_SelectOutboundWords source s (fc_MaxWords config) (fc_MaxPostings config)")
  have si: "sinv s" using assms(1) by (simp add: round_ok_def)
  note s1 = select [OF si sel]
  have ok1: "round_ok sinv sent q s1" using assms(1) s1 by (simp add: round_ok_def)
  show ?thesis
  proof (cases x)
    case (Inl e)
    then show ?thesis using assms(3) False sel ok1 s1 by (simp add: Feed_def)
  next
    case (Inr words)
    have rows: "storable_rows (snd ` set (flat_words words))" using s1 Inr by blast
    show ?thesis
    proof (cases "words = []")
      case True
      then show ?thesis using assms(3) False sel Inr ok1 s1 by (simp add: Feed_def Let_def)
    next
      case ne: False
      obtain q2 enq res where f: "feed_words lib env config 0 words q empty_receipt [] = (q2, enq, res)"
        by (cases "feed_words lib env config 0 words q empty_receipt []")
      have fw: "queue_inv q2 \<and> oq_pendingRestores q2 = oq_pendingRestores q \<and>
        oq_pendingTransferConfirmations q2 = oq_pendingTransferConfirmations q \<and>
        (\<forall>r. res = Inr r \<longrightarrow> storable_rows (queue_rows q2) \<and> storable_rows (set (er_missingRows enq)) \<and>
          storable_rows (snd ` set (flat_words r)) \<and> (\<forall>p\<in>set (er_missingRows enq). orphan_in env p))"
        by (rule feed_words_ok [OF _ assms(2) _ f])
          (use ok1 rows in \<open>auto simp: round_ok_def flat_words_snd storable_rows_def empty_receipt_def flat_words_def\<close>)
      let ?r = "no_feed\<lparr>fr_State := OutboundFeedEmpty, fr_SelectedPostings := wordPostingCount words,
        fr_Enqueue := enq\<rparr>"
      have clear2: "round_ok sinv sent (Clear q2) s1"
      proof -
        have "queue_rows (Clear q2) \<subseteq> queue_rows q" using fw by (auto simp: queue_rows_def)
        then show ?thesis using ok1 fw storable_rows_mono [of "queue_rows q"] by (simp add: round_ok_def)
      qed
      have given: "round_ok sinv sent q' s' \<and> content s' = content sx"
        if "round_ok sinv sent (Clear q2) sx" "feed_restore source q2 sx words ?r cause = (q', s', receipt, errs)"
        for sx cause
      proof -
        have "feed_restore source (Clear q2) sx words ?r cause = (q', s', receipt, errs)"
          using that(2) by (simp add: feed_restore_def Clear_def split: prod.splits sum.splits)
        then show ?thesis using feed_restore_ok [OF that(1) rows] by blast
      qed
      have F: "Feed source lib env config q s = (case res of
          Inl e \<Rightarrow> feed_restore source q2 s1 words ?r [EnqueueFailed e]
        | Inr restorable \<Rightarrow>
            if er_missingRows enq = [] then feed_finish source q2 s1 restorable ?r
            else (case ws_FinalizeOutboundPostings source s1 (er_missingRows enq) of
               (s, Inl e) \<Rightarrow> feed_restore source q2 s words ?r [FinalizeFailed e]
             | (s, Inr finalized) \<Rightarrow> feed_finish source q2 s restorable (?r\<lparr>fr_FinalizedPostings := finalized\<rparr>)))"
        using False sel Inr ne f by (simp add: Feed_def Let_def)
      show ?thesis
      proof (cases res)
        case (Inl e)
        then show ?thesis using given [OF clear2] assms(3) F s1 by simp
      next
        case (Inr restorable)
        have ok2: "round_ok sinv sent q2 s1" using fw Inr ok1 by (simp add: round_ok_def)
        have rr: "storable_rows (snd ` set (flat_words restorable))" using fw Inr by blast
        show ?thesis
        proof (cases "er_missingRows enq = []")
          case True
          then show ?thesis using feed_finish_ok [OF ok2 rr] assms(3) F Inr s1 by simp
        next
          case mis: False
          obtain s3 y where fin: "ws_FinalizeOutboundPostings source s1 (er_missingRows enq) = (s3, y)"
            by (cases "ws_FinalizeOutboundPostings source s1 (er_missingRows enq)")
          note s3 = finalize [OF conjunct1 [OF s1] fin]
          have l3: "loses (orphan_in env) (content s) (content s3)"
            using loses_mono [OF conjunct2 [OF s3]] fw Inr s1 by auto
          have ok3: "round_ok sinv sent q2 s3" "round_ok sinv sent (Clear q2) s3"
            using ok2 clear2 s3 by (simp_all add: round_ok_def)
          show ?thesis
          proof (cases y)
            case (Inl e)
            then show ?thesis using given [OF ok3(2)] assms(3) F \<open>res = Inr restorable\<close> mis fin l3 by simp
          next
            case (Inr n)
            then show ?thesis using feed_finish_ok [OF ok3(1) rr] assms(3) F \<open>res = Inr restorable\<close> mis fin l3
              by auto
          qed
        qed
      qed
    qed
  qed
qed

subsection \<open>The distribution\<close>

lemma restoreLocally_ok:
  assumes "sinv s" "storable_rows (set ps)" "restoreLocally source s ps = (s', y)"
  shows "sinv s' \<and> content s' = content s"
  using restore [OF assms(1), of "outboundRestoreWords ps" s' y] assms(2,3)
  by (simp add: restoreLocally_def restore_words_rows)

lemma restoreRejected_ok:
  assumes "round_ok sinv sent q s" "storable_rows (set ps)"
    and "restoreRejectedPostings source q s ps = (q', s', n, errs)"
  shows "round_ok sinv sent q' s' \<and> content s' = content s"
proof -
  obtain s1 y where r: "restoreLocally source s ps = (s1, y)" by (cases "restoreLocally source s ps")
  have "sinv s" using assms(1) by (simp add: round_ok_def)
  note k = restoreLocally_ok [OF this assms(2) r]
  have "round_ok sinv sent q s1" using assms(1) k by (simp add: round_ok_def)
  then show ?thesis using assms(3) r k round_ok_pending(1) [OF _ assms(2)]
    by (auto simp: restoreRejectedPostings_def split: sum.splits)
qed

lemma confirmAccepted_ok:
  assumes "round_ok sinv sent q s" "storable_rows (set ps)" "\<forall>p\<in>set ps. sent p"
    and "confirmAcceptedPostings source q s ps = (q', s', n, errs)"
  shows "round_ok sinv sent q' s' \<and> loses sent (content s) (content s')"
proof -
  obtain s1 y where c: "ws_ConfirmTransferred source s ps = (s1, y)" by (cases "ws_ConfirmTransferred source s ps")
  have "sinv s" using assms(1) by (simp add: round_ok_def)
  note k = confirm [OF this c]
  have l: "loses sent (content s) (content s1)" by (rule loses_mono [OF conjunct2 [OF k]]) (use assms(3) in blast)
  have "round_ok sinv sent q s1" using assms(1) k by (simp add: round_ok_def)
  then show ?thesis using assms(4) c l round_ok_pending(3) [OF _ assms(2,3)]
    by (auto simp: confirmAcceptedPostings_def split: sum.splits)
qed

lemma retryLocalCompletion_ok:
  assumes "round_ok sinv sent q s" "retryLocalCompletion source gates q s = Some (q', s', r, errs)"
  shows "round_ok sinv sent q' s' \<and> loses sent (content s) (content s')"
proof (cases "oq_pendingRestores q = []")
  case False
  have st: "storable_rows (set (oq_pendingRestores q))"
    using assms(1) by (auto simp: round_ok_def queue_rows_def)
  obtain s1 y where e: "restoreLocally source s (oq_pendingRestores q) = (s1, y)"
    by (cases "restoreLocally source s (oq_pendingRestores q)")
  have "sinv s" using assms(1) by (simp add: round_ok_def)
  note k = restoreLocally_ok [OF this st e]
  have "round_ok sinv sent q s1" using assms(1) k by (simp add: round_ok_def)
  then show ?thesis using assms(2) False e k round_ok_pending(2)
    by (auto simp: retryLocalCompletion_def Let_def split: sum.splits)
next
  case True
  let ?ps = "oq_pendingTransferConfirmations q"
  obtain s1 y where c: "ws_ConfirmTransferred source s ?ps = (s1, y)" by (cases "ws_ConfirmTransferred source s ?ps")
  have "sinv s" using assms(1) by (simp add: round_ok_def)
  note k = confirm [OF this c]
  have l: "loses sent (content s) (content s1)"
    by (rule loses_mono [OF conjunct2 [OF k]]) (use assms(1) in \<open>simp add: round_ok_def\<close>)
  have "round_ok sinv sent q s1" using assms(1) k by (simp add: round_ok_def)
  then show ?thesis using assms(2) True c l round_ok_pending(4)
    by (auto simp: retryLocalCompletion_def Let_def split: sum.splits if_split_asm)
qed

lemma finishAccepted_ok:
  assumes "round_ok sinv sent q s" "storable_rows (set (oc_Postings chunk))"
    and "\<forall>p\<in>set (fst (splitHandoffPostings (oc_Postings chunk) (hr_RejectedPostings handoff))). sent p"
    and "finishAcceptedHandoff source receipt chunk handoff q s = (q', s', r, errs)"
  shows "round_ok sinv sent q' s' \<and> loses sent (content s) (content s')"
proof -
  obtain acc rej where sp: "splitHandoffPostings (oc_Postings chunk) (hr_RejectedPostings handoff) = (acc, rej)"
    by (cases "splitHandoffPostings (oc_Postings chunk) (hr_RejectedPostings handoff)")
  have "set_mset (mset acc + mset rej) = set (oc_Postings chunk)" using split_handoff [OF sp] by (simp only: set_mset_mset)
  then have st: "storable_rows (set acc)" "storable_rows (set rej)"
    using assms(2) by (auto simp: storable_rows_def)
  obtain q1 s1 n1 e1 where r1: "(if rej = [] then (q, s, 0, [])
      else restoreRejectedPostings source (cancelPostingCopies rej q) s rej) = (q1, s1, n1, e1)"
    by (cases "if rej = [] then (q, s, 0, []) else restoreRejectedPostings source (cancelPostingCopies rej q) s rej")
  have ok1: "round_ok sinv sent q1 s1 \<and> content s1 = content s"
    using r1 assms(1) restoreRejected_ok [OF round_ok_cancel [OF assms(1)] st(2)]
    by (cases "rej = []") auto
  let ?c = "confirmablePostings acc q1"
  show ?thesis
  proof (cases "?c = []")
    case True
    then show ?thesis using assms(4) sp r1 ok1 by (auto simp: finishAcceptedHandoff_def Let_def)
  next
    case False
    obtain q2 s2 n2 e2 where c: "confirmAcceptedPostings source q1 s1 ?c = (q2, s2, n2, e2)"
      by (cases "confirmAcceptedPostings source q1 s1 ?c")
    have sub: "set ?c \<subseteq> set acc" by (auto simp: set_confirmable)
    then have "storable_rows (set ?c)" "\<forall>p\<in>set ?c. sent p" using st(1) assms(3) sp by (auto simp: storable_rows_def)
    from confirmAccepted_ok [OF conjunct1 [OF ok1] this c]
    show ?thesis using assms(4) sp r1 ok1 c False by (auto simp: finishAcceptedHandoff_def Let_def)
  qed
qed

lemma finishRejected_ok:
  assumes "round_ok sinv sent q s" "storable_rows (set (oc_Postings chunk))"
    and "finishRejectedHandoff source receipt chunk err q s = (q', s', r, errs)"
  shows "round_ok sinv sent q' s' \<and> content s' = content s"
  using assms(3) restoreRejected_ok [OF round_ok_cancel [OF assms(1)] assms(2)]
  by (auto simp: finishRejectedHandoff_def split: prod.splits)

lemma handoff_chunk_ok:
  assumes "round_ok sinv sent q s" "storable_rows (set (oc_Postings chunk))"
    and "handoff_chunk source writer rows receipt chunk q s = (q', s', r, errs, call)"
  shows "\<exists>c. call = Some c \<and> round_ok sinv (\<lambda>p. sent p \<or> accepted_by c p) q' s' \<and>
    loses (\<lambda>p. sent p \<or> accepted_by c p) (content s) (content s')"
proof -
  obtain handoff err where S: "Send writer rows (oc_Peer chunk) (oc_Postings chunk) = (handoff, err)"
    by (cases "Send writer rows (oc_Peer chunk) (oc_Postings chunk)")
  let ?call = "(oc_Peer chunk, oc_Postings chunk, handoff)"
  let ?sent = "\<lambda>p. sent p \<or> accepted_by ?call p"
  have ok: "round_ok sinv ?sent q s" by (rule round_ok_mono [OF assms(1)]) simp
  have call: "call = Some ?call" using assms(3) S
    by (auto simp: handoff_chunk_def Let_def split: prod.splits if_split_asm)
  have "round_ok sinv ?sent q' s' \<and> loses ?sent (content s) (content s')"
  proof (cases "err \<noteq> None \<and> \<not> handoffRejected (hr_State handoff)")
    case True
    obtain q1 n where rq: "Requeue chunk q = (q1, n)" by (cases "Requeue chunk q")
    have "q' = q1" "s' = s" using assms(3) S True rq by (auto simp: handoff_chunk_def Let_def)
    then show ?thesis using round_ok_add [OF ok rq [unfolded Requeue_def] assms(2)] by simp
  next
    case nf: False
    show ?thesis
    proof (cases "handoffAccepted (hr_State handoff)")
      case False
      then show ?thesis using assms(3) S nf finishRejected_ok [OF ok assms(2)]
        by (fastforce simp: handoff_chunk_def Let_def split: prod.splits)
    next
      case True
      have acc: "\<forall>p\<in>set (fst (splitHandoffPostings (oc_Postings chunk) (hr_RejectedPostings handoff))). ?sent p"
        using True by (simp add: accepted_by_def)
      obtain rc e where "finishAcceptedHandoff source rc chunk handoff q s = (q', s', r, e)"
        using assms(3) S nf True by (auto simp: handoff_chunk_def Let_def split: prod.splits)
      then show ?thesis by (rule finishAccepted_ok [OF ok assms(2) acc])
    qed
  qed
  then show ?thesis using call by blast
qed

lemma DistributeReady_ok:
  assumes "round_ok sinv sent q s"
    and "DistributeReady source writer rows gs gc ready q s = (q', s', r, errs, call)"
  shows "round_ok sinv (\<lambda>p. sent p \<or> sent_by call p) q' s' \<and>
    loses (\<lambda>p. sent p \<or> sent_by call p) (content s) (content s')"
proof (cases "retryLocalCompletion source (EvaluateGates gs gc) q s :: ('a OutboundQueue \<times> 's \<times> 'a DistributionReceipt \<times> 'e exchange_error list) option")
  case (Some res)
  obtain q1 s1 r1 e1 where res: "res = (q1, s1, r1, e1)" by (cases res)
  note k = retryLocalCompletion_ok [OF assms(1) Some [unfolded res]]
  have "q' = q1" "s' = s1" "call = None" using assms(2) Some res by (auto simp: DistributeReady_def Let_def)
  then show ?thesis using k by (simp add: sent_by_def)
next
  case None
  show ?thesis
  proof (cases "gp_Open (EvaluateGates gs gc)")
    case False
    then show ?thesis using assms None by (auto simp: DistributeReady_def Let_def sent_by_def)
  next
    case True
    obtain q1 taken where d: "DequeueLargestReady (Some ready) q = (q1, taken)"
      by (cases "DequeueLargestReady (Some ready) q")
    have i: "queue_inv q" using assms(1) by (simp add: round_ok_def)
    from i d show ?thesis
    proof (rule DequeueLargestReady_cases)
      assume "taken = None" "q1 = q"
      then show ?thesis using assms None True d by (auto simp: DistributeReady_def Let_def sent_by_def)
    next
      fix chunk
      assume c: "taken = Some chunk" "map_of (oq_chunks q) (sd_Hash (oc_Peer chunk)) = Some chunk"
        "q1 = q\<lparr>oq_chunks := AList.delete (sd_Hash (oc_Peer chunk)) (oq_chunks q)\<rparr>"
      note del = round_ok_delete [OF assms(1) c(2)]
      have h: "handoff_chunk source writer rows (distribution_receipt (EvaluateGates gs gc)) chunk q1 s =
          (q', s', r, errs, call)"
        using assms(2) None True d c(1) by (simp add: DistributeReady_def Let_def)
      have ok1: "round_ok sinv sent q1 s" using del c(3) by simp
      obtain hc where hc: "call = Some hc" "round_ok sinv (\<lambda>p. sent p \<or> accepted_by hc p) q' s'"
        "loses (\<lambda>p. sent p \<or> accepted_by hc p) (content s) (content s')"
        using handoff_chunk_ok [OF ok1 conjunct2 [OF del] h] by blast
      have "sent_by call = accepted_by hc" by (rule ext) (simp add: sent_by_def hc(1))
      then show ?thesis using hc(2,3) by simp
    qed
  qed
qed

lemma RestoreRequeuedPeer_ok:
  assumes "round_ok sinv sent q s"
    and "RestoreRequeuedPeer source peer q s = (q', s', n, m, errs)"
  shows "round_ok sinv sent q' s' \<and> content s' = content s"
proof (cases "map_of (oq_chunks q) peer")
  case None
  then show ?thesis using assms by (simp add: RestoreRequeuedPeer_def DequeuePeer_def)
next
  case (Some chunk)
  let ?q = "cancelPostingCopies (oc_Postings chunk) (q\<lparr>oq_chunks := AList.delete peer (oq_chunks q)\<rparr>)"
  note del = round_ok_delete [OF assms(1) Some]
  have ok: "round_ok sinv sent ?q s" by (rule round_ok_cancel [OF conjunct1 [OF del]])
  obtain s1 y where r: "restoreLocally source s (oc_Postings chunk) = (s1, y)"
    by (cases "restoreLocally source s (oc_Postings chunk)")
  have "sinv s" using assms(1) by (simp add: round_ok_def)
  note k = restoreLocally_ok [OF this conjunct2 [OF del] r]
  have ok1: "round_ok sinv sent ?q s1" using ok k by (simp add: round_ok_def)
  have r': "ws_RestoreOutboundWords source s (outboundRestoreWords (oc_Postings chunk)) = (s1, y)"
    using r by (simp add: restoreLocally_def)
  show ?thesis
  proof (cases y)
    case (Inr n)
    then show ?thesis using assms(2) Some ok1 k r'
      by (simp add: RestoreRequeuedPeer_def DequeuePeer_def Let_def)
  next
    case (Inl e)
    obtain q1 m1 where rq: "queue_add (oc_Peer chunk) (oc_Postings chunk) ?q = (q1, m1)"
      by (cases "queue_add (oc_Peer chunk) (oc_Postings chunk) ?q")
    have "q' = q1" "s' = s1" using assms(2) Some r' Inl rq
      by (auto simp: RestoreRequeuedPeer_def DequeuePeer_def Let_def Requeue_def)
    then show ?thesis using round_ok_add [OF ok1 rq conjunct2 [OF del]] k by simp
  qed
qed

lemma distribute_round_ok:
  assumes "round_ok sinv sent (ex_queue ex) (ex_store ex)"
    and "distribute_round source cfg rnd feed ex = (ex', r, errs, call)"
  shows "round_ok sinv (\<lambda>p. sent p \<or> sent_by call p) (ex_queue ex') (ex_store ex') \<and>
    loses (\<lambda>p. sent p \<or> sent_by call p) (content (ex_store ex)) (content (ex_store ex'))"
proof -
  let ?D = "DistributeReady source (rn_writer rnd) (rn_rowsByHash rnd) (rn_gates rnd) (xc_Gates cfg)
         (\<lambda>peer. Ready (ex_retry ex) peer (rn_at rnd)) (ex_queue ex) (ex_store ex)"
  obtain q1 s1 r1 e1 c1 where D: "?D = (q1, s1, r1, e1, c1)" by (cases ?D)
  note k = DistributeReady_ok [OF assms(1) D]
  let ?O = "Observe (xc_platform cfg) (ex_retry ex) r1 (rn_at rnd)"
  obtain p retry where O: "?O = (p, retry)" by (cases ?O)
  show ?thesis
  proof (cases "dr_State r1 = DistributionHandoffFailed \<and> rd_Status retry = OutboundRetryQuarantined")
    case False
    then have "ex' = \<lparr>ex_queue = q1, ex_retry = p, ex_store = s1\<rparr>" "call = c1"
      using assms(2) D O by (auto simp: distribute_round_def)
    then show ?thesis using k by simp
  next
    case True
    obtain q2 s2 n m e2 where R: "RestoreRequeuedPeer source (dr_Peer r1) q1 s1 = (q2, s2, n, m, e2)"
      by (cases "RestoreRequeuedPeer source (dr_Peer r1) q1 s1")
    have "ex' = \<lparr>ex_queue = q2, ex_retry = p, ex_store = s2\<rparr>" "call = c1"
      using assms(2) D O True R by (auto simp: distribute_round_def)
    then show ?thesis using k RestoreRequeuedPeer_ok [OF conjunct1 [OF k] R] by simp
  qed
qed

lemma RunOnce_ok:
  assumes "round_ok sinv sent (ex_queue ex) (ex_store ex)" "feed_env_ok (rn_feed rnd)"
    and "RunOnce source cfg rnd ex = (ex', r, errs, call)"
  shows "round_ok sinv (\<lambda>p. sent p \<or> sent_by call p) (ex_queue ex') (ex_store ex') \<and>
    loses (\<lambda>p. orphan_in (rn_feed rnd) p \<or> sent p \<or> sent_by call p)
      (content (ex_store ex)) (content (ex_store ex'))"
proof (cases "feed_due cfg rnd ex")
  case False
  then have "distribute_round source cfg rnd no_feed ex = (ex', r, errs, call)"
    using assms(3) by (simp add: RunOnce_def)
  note k = distribute_round_ok [OF assms(1) this]
  have "loses (\<lambda>p. orphan_in (rn_feed rnd) p \<or> sent p \<or> sent_by call p)
      (content (ex_store ex)) (content (ex_store ex'))" by (rule loses_mono [OF conjunct2 [OF k]]) simp
  then show ?thesis using k by simp
next
  case True
  let ?F = "Feed source (xc_lib cfg) (rn_feed rnd) (the (xc_Feed cfg)) (ex_queue ex) (ex_store ex)"
  obtain q1 s1 f1 e1 where F: "?F = (q1, s1, f1, e1)" by (cases ?F)
  note k = Feed_ok [OF assms(1,2) F]
  let ?ex = "ex\<lparr>ex_queue := q1, ex_store := s1\<rparr>"
  show ?thesis
  proof (cases "e1 = []")
    case False
    then have e: "ex' = ?ex" "call = None" using assms(3) True F by (auto simp: RunOnce_def Let_def)
    have "loses (\<lambda>p. orphan_in (rn_feed rnd) p \<or> sent p \<or> sent_by call p) (content (ex_store ex)) (content s1)"
      by (rule loses_mono [OF conjunct2 [OF k]]) simp
    moreover have "round_ok sinv (\<lambda>p. sent p \<or> sent_by call p) q1 s1"
      by (rule round_ok_mono [OF conjunct1 [OF k]]) simp
    ultimately show ?thesis using e by simp
  next
    case e1: True
    then have D: "distribute_round source cfg rnd f1 ?ex = (ex', r, errs, call)"
      using assms(3) True F by (simp add: RunOnce_def Let_def)
    have "round_ok sinv sent (ex_queue ?ex) (ex_store ?ex)" using k by simp
    note d = distribute_round_ok [OF this D, simplified]
    have "loses (\<lambda>p. orphan_in (rn_feed rnd) p \<or> sent p \<or> sent_by call p) (content (ex_store ex)) (content s1)"
      by (rule loses_mono [OF conjunct2 [OF k]]) simp
    moreover have "loses (\<lambda>p. orphan_in (rn_feed rnd) p \<or> sent p \<or> sent_by call p) (content s1) (content (ex_store ex'))"
      by (rule loses_mono [OF conjunct2 [OF d]]) simp
    ultimately have "loses (\<lambda>p. orphan_in (rn_feed rnd) p \<or> sent p \<or> sent_by call p)
        (content (ex_store ex)) (content (ex_store ex'))" by (rule loses_trans)
    then show ?thesis using d by simp
  qed
qed

end

section \<open>Runs\<close>

fun exchange_run ::
  "('s, 'e) WordSource \<Rightarrow> 'a exchange_config \<Rightarrow> 'a exchange_round list \<Rightarrow> ('a, 's) exchange \<Rightarrow>
     ('a, 's) exchange \<times> 'a handoff_call list" where
  "exchange_run source cfg [] ex = (ex, [])"
| "exchange_run source cfg (rnd # rounds) ex = (case RunOnce source cfg rnd ex of
     (ex, _, _, call) \<Rightarrow> (case exchange_run source cfg rounds ex of
        (ex, calls) \<Rightarrow> (ex, (case call of None \<Rightarrow> [] | Some c \<Rightarrow> [c]) @ calls)))"

context outbound_store
begin

lemma exchange_run_ok:
  assumes "round_ok sinv sent (ex_queue ex) (ex_store ex)" "\<forall>rnd\<in>set rounds. feed_env_ok (rn_feed rnd)"
    and "exchange_run source cfg rounds ex = (ex', calls)"
  shows "round_ok sinv (\<lambda>p. sent p \<or> (\<exists>c\<in>set calls. accepted_by c p)) (ex_queue ex') (ex_store ex') \<and>
    loses (\<lambda>p. (\<exists>rnd\<in>set rounds. orphan_in (rn_feed rnd) p) \<or> sent p \<or> (\<exists>c\<in>set calls. accepted_by c p))
      (content (ex_store ex)) (content (ex_store ex'))"
  using assms
proof (induction rounds arbitrary: ex sent calls)
  case (Cons rnd rounds)
  obtain ex1 r errs call where R: "RunOnce source cfg rnd ex = (ex1, r, errs, call)"
    by (cases "RunOnce source cfg rnd ex")
  obtain calls' where E: "exchange_run source cfg rounds ex1 = (ex', calls')"
    and calls: "calls = (case call of None \<Rightarrow> [] | Some c \<Rightarrow> [c]) @ calls'"
    using Cons.prems(3) R by (auto split: prod.splits)
  have env: "feed_env_ok (rn_feed rnd)" "\<forall>rnd\<in>set rounds. feed_env_ok (rn_feed rnd)"
    using Cons.prems(2) by simp_all
  note one = RunOnce_ok [OF Cons.prems(1) env(1) R]
  note rest = Cons.IH [OF conjunct1 [OF one] env(2) E]
  have by_call: "(\<exists>c\<in>set calls. accepted_by c p) \<longleftrightarrow> sent_by call p \<or> (\<exists>c\<in>set calls'. accepted_by c p)" for p
    unfolding calls sent_by_def by (cases call) auto
  let ?P = "\<lambda>p. (\<exists>rnd\<in>set (rnd # rounds). orphan_in (rn_feed rnd) p) \<or> sent p \<or> (\<exists>c\<in>set calls. accepted_by c p)"
  have "loses ?P (content (ex_store ex)) (content (ex_store ex1))"
    by (rule loses_mono [OF conjunct2 [OF one]]) (auto simp: by_call)
  moreover have "loses ?P (content (ex_store ex1)) (content (ex_store ex'))"
    by (rule loses_mono [OF conjunct2 [OF rest]]) (auto simp: by_call)
  ultimately have "loses ?P (content (ex_store ex)) (content (ex_store ex'))" by (rule loses_trans)
  moreover have "round_ok sinv (\<lambda>p. sent p \<or> (\<exists>c\<in>set calls. accepted_by c p)) (ex_queue ex') (ex_store ex')"
    by (rule round_ok_mono [OF conjunct1 [OF rest]]) (auto simp: by_call)
  ultimately show ?case by blast
qed (auto intro: round_ok_mono)

end


text \<open>Which handoffs a distribution makes.\<close>

lemma feed_words_inv:
  "queue_inv q \<Longrightarrow> feed_words lib env config k words q enq restorable = (q', enq', res) \<Longrightarrow> queue_inv q'"
proof (induction words arbitrary: k q enq restorable)
  case (Cons word words)
  obtain q1 x where e: "EnqueueWord lib (fe_Now env k) (fe_Visit env k) (fe_MissingURLs env k) (fe_Peers env) word
      (feed_enqueue_config config (fe_Now env k)) q = (q1, x)" by (cases "EnqueueWord lib (fe_Now env k) (fe_Visit env k) (fe_MissingURLs env k) (fe_Peers env) word
      (feed_enqueue_config config (fe_Now env k)) q")
  have "queue_inv q1" using EnqueueWord_frame [OF Cons.prems(1) e] by blast
  then show ?case using Cons.prems(2) Cons.IH e by (cases x) auto
qed auto

lemma Feed_queue_inv:
  assumes "queue_inv q" "Feed source lib env config q s = (q', s', r, errs)"
  shows "queue_inv q'"
proof -
  have restore: "queue_inv q'" if "feed_restore source qx sx words rx cause = (q', s', r, errs)" for qx sx words rx cause
    using that by (auto simp: feed_restore_def split: prod.splits sum.splits)
  have finish: "queue_inv q'" if "feed_finish source qx sx words rx = (q', s', r, errs)" "queue_inv qx" for qx sx words rx
    using that restore by (auto simp: feed_finish_def Let_def split: if_split_asm)
  obtain s1 x where sel: "ws_SelectOutboundWords source s (fc_MaxWords config) (fc_MaxPostings config) = (s1, x)"
    by (cases "ws_SelectOutboundWords source s (fc_MaxWords config) (fc_MaxPostings config)")
  show ?thesis
  proof (cases "queue_len q > 0 \<or> isl x \<or> projr x = []")
    case True
    then show ?thesis using assms sel by (cases x) (auto simp: Feed_def Let_def split: if_split_asm)
  next
    case False
    then obtain words where w: "x = Inr words" "words \<noteq> []" "\<not> queue_len q > 0" by (cases x) auto
    obtain q2 enq res where f: "feed_words lib env config 0 words q empty_receipt [] = (q2, enq, res)"
      by (cases "feed_words lib env config 0 words q empty_receipt []")
    have i: "queue_inv q2" by (rule feed_words_inv [OF assms(1) f])
    show ?thesis using assms(2) sel w f i
      by (auto simp: Feed_def Let_def split: sum.splits if_split_asm prod.splits elim!: restore finish)
  qed
qed

lemma handoff_chunk_call:
  "handoff_chunk source writer rows receipt chunk q s = (q', s', r, errs, call) \<Longrightarrow>
     call = Some (oc_Peer chunk, oc_Postings chunk, fst (Send writer rows (oc_Peer chunk) (oc_Postings chunk)))"
  by (auto simp: handoff_chunk_def Let_def split: prod.splits if_split_asm)

lemma distribute_round_gate:
  assumes "distribute_round source cfg rnd feed ex = (ex', r, errs, call)" "queue_inv (ex_queue ex)"
  shows "(case call of None \<Rightarrow> True
    | Some (peer, postings, handoff) \<Rightarrow> gp_Open (EvaluateGates (rn_gates rnd) (xc_Gates cfg)) \<and>
        Ready (ex_retry ex) (sd_Hash peer) (rn_at rnd) \<and> postings \<noteq> [] \<and>
        length postings \<le> MaxChunkPostings \<and>
        handoff = fst (Send (rn_writer rnd) (rn_rowsByHash rnd) peer postings)) \<and>
    (\<not> gp_Open (EvaluateGates (rn_gates rnd) (xc_Gates cfg)) \<longrightarrow> call = None \<and>
       oq_chunks (ex_queue ex') = oq_chunks (ex_queue ex) \<and> ex_retry ex' = ex_retry ex)"
proof -
  let ?g = "EvaluateGates (rn_gates rnd) (xc_Gates cfg)"
  let ?q = "ex_queue ex"
  let ?D = "DistributeReady source (rn_writer rnd) (rn_rowsByHash rnd) (rn_gates rnd) (xc_Gates cfg)
         (\<lambda>peer. Ready (ex_retry ex) peer (rn_at rnd)) ?q (ex_store ex)"
  obtain q1 s1 r1 e1 c1 where D: "?D = (q1, s1, r1, e1, c1)" by (cases ?D)
  let ?O = "Observe (xc_platform cfg) (ex_retry ex) r1 (rn_at rnd)"
  have call: "call = c1" using assms(1) D by (auto simp: distribute_round_def split: prod.splits if_split_asm)
  have quiet: "ex_queue ex' = q1 \<and> ex_retry ex' = ex_retry ex"
    if "\<not> outboundRetryFailure (dr_State r1)" "dr_State r1 \<noteq> DistributionSent"
  proof -
    have O: "?O = (ex_retry ex, retry_decision OutboundRetryIgnored (dr_Peer r1))"
      using that by (simp add: Observe_def)
    have "dr_State r1 \<noteq> DistributionHandoffFailed" using that by (auto simp: outboundRetryFailure_def)
    then show ?thesis using assms(1) D O by (auto simp: distribute_round_def)
  qed
  show ?thesis
  proof (cases "retryLocalCompletion source ?g ?q (ex_store ex)
      :: ('a OutboundQueue \<times> 'b \<times> 'a DistributionReceipt \<times> 'c exchange_error list) option")
    case (Some res)
    then have l: "q1 = fst res" "r1 = fst (snd (snd res))" "c1 = None"
      using D by (auto simp: DistributeReady_def Let_def split: prod.splits)
    have st: "oq_chunks (fst res) = oq_chunks ?q \<and> \<not> outboundRetryFailure (dr_State (fst (snd (snd res)))) \<and>
        dr_State (fst (snd (snd res))) \<noteq> DistributionSent"
      using Some by (auto simp: retryLocalCompletion_def Let_def outboundRetryFailure_def
          completePendingRestore_def completePendingTransferConfirmation_def
          split: if_split_asm prod.splits sum.splits)
    then show ?thesis using l call quiet by simp
  next
    case None
    show ?thesis
    proof (cases "gp_Open ?g")
      case False
      then have l: "q1 = ?q" "c1 = None" "dr_State r1 = DistributionGateClosed"
        using D None by (auto simp: DistributeReady_def Let_def)
      then show ?thesis using call quiet False by (simp add: outboundRetryFailure_def)
    next
      case opn: True
      obtain q2 taken where d: "DequeueLargestReady (Some (\<lambda>peer. Ready (ex_retry ex) peer (rn_at rnd))) ?q = (q2, taken)"
        by (cases "DequeueLargestReady (Some (\<lambda>peer. Ready (ex_retry ex) peer (rn_at rnd))) ?q")
      from assms(2) d show ?thesis
      proof (rule DequeueLargestReady_cases)
        assume "taken = None"
        then have "c1 = None" using D None opn d by (auto simp: DistributeReady_def Let_def)
        then show ?thesis using call opn by simp
      next
        fix chunk
        assume c: "taken = Some chunk" "Ready (ex_retry ex) (sd_Hash (oc_Peer chunk)) (rn_at rnd)"
          "map_of (oq_chunks ?q) (sd_Hash (oc_Peer chunk)) = Some chunk"
        have "handoff_chunk source (rn_writer rnd) (rn_rowsByHash rnd) (distribution_receipt ?g) chunk q2 (ex_store ex) =
            (q1, s1, r1, e1, c1)"
          using D None opn d c(1) by (simp add: DistributeReady_def Let_def)
        from handoff_chunk_call [OF this] show ?thesis
          using c(2) queue_invD [OF assms(2) c(3)] call opn by (simp add: chunk_ok_def)
      qed
    qed
  qed
qed

lemma cancel_shorter: "queue_len (cancelPostingCopies ps q) \<le> queue_len q"
proof -
  have "length (List.map_filter f xs) \<le> length xs" for f :: "'x \<Rightarrow> 'y option" and xs
    by (induction xs) (auto simp: map_filter_simps split: option.splits)
  then show ?thesis by (simp add: queue_len_def cancelPostingCopies_def Let_def)
qed

lemma restoreRejected_len:
  "restoreRejectedPostings source q s ps = (q', s', n, e) \<Longrightarrow> queue_len q' = queue_len q"
  by (auto simp: restoreRejectedPostings_def retainPendingRestore_def queue_len_def split: prod.splits sum.splits)

lemma confirmAccepted_len:
  "confirmAcceptedPostings source q s ps = (q', s', n, e) \<Longrightarrow> queue_len q' = queue_len q"
  by (auto simp: confirmAcceptedPostings_def retainPendingTransferConfirmation_def queue_len_def
      split: prod.splits sum.splits)

lemma handoff_chunk_len:
  assumes "handoff_chunk source writer rows receipt chunk q s = (q', s', r, errs, call)"
    and "dr_State r \<noteq> DistributionHandoffFailed"
  shows "queue_len q' \<le> queue_len q"
proof -
  obtain handoff err where S: "Send writer rows (oc_Peer chunk) (oc_Postings chunk) = (handoff, err)"
    by (cases "Send writer rows (oc_Peer chunk) (oc_Postings chunk)")
  have nf: "\<not> (err \<noteq> None \<and> \<not> handoffRejected (hr_State handoff))"
    using assms S by (auto simp: handoff_chunk_def Let_def split: prod.splits if_split_asm)
  show ?thesis
  proof (cases "handoffAccepted (hr_State handoff)")
    case False
    then obtain rc r1 e1 where "finishRejectedHandoff source rc chunk err q s = (q', s', r1, e1)"
      using assms(1) S nf by (auto simp: handoff_chunk_def Let_def split: prod.splits)
    then obtain n e where "restoreRejectedPostings source (cancelPostingCopies (oc_Postings chunk) q) s (oc_Postings chunk) = (q', s', n, e)"
      by (auto simp: finishRejectedHandoff_def split: prod.splits)
    from restoreRejected_len [OF this] show ?thesis using cancel_shorter by metis
  next
    case True
    then obtain rc r1 e1 where fin: "finishAcceptedHandoff source rc chunk handoff q s = (q', s', r1, e1)"
      using assms(1) S nf by (auto simp: handoff_chunk_def Let_def split: prod.splits)
    obtain acc rej where sp: "splitHandoffPostings (oc_Postings chunk) (hr_RejectedPostings handoff) = (acc, rej)"
      by (cases "splitHandoffPostings (oc_Postings chunk) (hr_RejectedPostings handoff)")
    obtain q1 s1 n1 e2 where r1: "(if rej = [] then (q, s, 0, [])
        else restoreRejectedPostings source (cancelPostingCopies rej q) s rej) = (q1, s1, n1, e2)"
      by (cases "if rej = [] then (q, s, 0, []) else restoreRejectedPostings source (cancelPostingCopies rej q) s rej")
    have l1: "queue_len q1 \<le> queue_len q"
    proof (cases "rej = []")
      case False
      then have "restoreRejectedPostings source (cancelPostingCopies rej q) s rej = (q1, s1, n1, e2)"
        using r1 by simp
      from restoreRejected_len [OF this] show ?thesis using cancel_shorter by metis
    qed (use r1 in simp)
    show ?thesis
    proof (cases "confirmablePostings acc q1 = []")
      case True
      then show ?thesis using fin sp r1 l1 by (auto simp: finishAcceptedHandoff_def Let_def)
    next
      case False
      obtain q2 s2 n2 e3 where c: "confirmAcceptedPostings source q1 s1 (confirmablePostings acc q1) = (q2, s2, n2, e3)"
        by (cases "confirmAcceptedPostings source q1 s1 (confirmablePostings acc q1)")
      have "q' = q2" using fin sp r1 c False by (auto simp: finishAcceptedHandoff_def Let_def)
      then show ?thesis using confirmAccepted_len [OF c] l1 by simp
    qed
  qed
qed

lemma distribute_round_progress:
  assumes "queue_inv (ex_queue ex)" "\<not> localCompletionPending (ex_queue ex)"
    and "gp_Open (EvaluateGates (rn_gates rnd) (xc_Gates cfg))"
    and "map_of (oq_chunks (ex_queue ex)) peer = Some chunk" "Ready (ex_retry ex) peer (rn_at rnd)"
    and "distribute_round source cfg rnd feed ex = (ex', r, errs, call)"
  shows "\<exists>target postings handoff receipt. call = Some (target, postings, handoff) \<and>
    map_of (oq_chunks (ex_queue ex)) (sd_Hash target) = Some \<lparr>oc_Peer = target, oc_Postings = postings\<rparr> \<and>
    sc_Distribution r = Some receipt \<and>
    (dr_State receipt \<noteq> DistributionHandoffFailed \<longrightarrow> queue_len (ex_queue ex') < queue_len (ex_queue ex))"
proof -
  let ?g = "EvaluateGates (rn_gates rnd) (xc_Gates cfg)"
  let ?ready = "\<lambda>peer. Ready (ex_retry ex) peer (rn_at rnd)"
  let ?D = "DistributeReady source (rn_writer rnd) (rn_rowsByHash rnd) (rn_gates rnd) (xc_Gates cfg)
         ?ready (ex_queue ex) (ex_store ex)"
  obtain q1 s1 r1 e1 c1 where D: "?D = (q1, s1, r1, e1, c1)" by (cases ?D)
  obtain q2 taken where d: "DequeueLargestReady (Some ?ready) (ex_queue ex) = (q2, taken)"
    by (cases "DequeueLargestReady (Some ?ready) (ex_queue ex)")
  from assms(1) d obtain c where c: "taken = Some c"
    "q2 = ex_queue ex\<lparr>oq_chunks := AList.delete (sd_Hash (oc_Peer c)) (oq_chunks (ex_queue ex))\<rparr>"
    "map_of (oq_chunks (ex_queue ex)) (sd_Hash (oc_Peer c)) = Some c"
    by (rule DequeueLargestReady_cases) (use assms(4,5) in auto)
  have "retryLocalCompletion source ?g (ex_queue ex) (ex_store ex) = None"
    using assms(2) by (simp add: retryLocalCompletion_def localCompletionPending_def)
  then have h: "handoff_chunk source (rn_writer rnd) (rn_rowsByHash rnd) (distribution_receipt ?g) c q2 (ex_store ex) =
      (q1, s1, r1, e1, c1)"
    using D d c(1) assms(3) by (simp add: DistributeReady_def Let_def)
  have shorter: "queue_len q2 < queue_len (ex_queue ex)"
    unfolding c(2) queue_len_def using length_delete_present [OF _ c(3)] assms(1) by (simp add: queue_inv_def)
  have fin: "call = c1 \<and> (\<exists>receipt. sc_Distribution r = Some receipt \<and> dr_State receipt = dr_State r1) \<and>
      (dr_State r1 \<noteq> DistributionHandoffFailed \<longrightarrow> ex_queue ex' = q1)"
    using assms(6) D by (auto simp: distribute_round_def split: prod.splits if_split_asm)
  have "\<lparr>oc_Peer = oc_Peer c, oc_Postings = oc_Postings c\<rparr> = c" by simp
  then show ?thesis
    using fin handoff_chunk_call [OF h] handoff_chunk_len [OF h] shorter c(3) by fastforce
qed

section \<open>Properties\<close>

text \<open>C1: The exchange loses no posting: whatever the network, the directory and the transactions of
  the store do in any number of rounds, a posting of the own store is still in the index or in the
  journal, or else a peer took the very same posting in one of the handoffs, or the directory did not
  know its address.\<close>

theorem exchange_keeps_postings:
  assumes "words_inv (ex_store ex)" "queue_inv (ex_queue ex)" "queue_rows (ex_queue ex) = {}"
    and "\<forall>rnd\<in>set rounds. feed_env_ok (rn_feed rnd)"
    and "exchange_run (dhtOutboundRWIWords outcome) cfg rounds ex = (ex', calls)"
    and "posting_content (sw_vault (ex_store ex)) k = Some raw"
  shows "words_inv (ex_store ex') \<and>
    (live (sw_vault (ex_store ex')) k = Some raw \<or>
     live (sw_vault (ex_store ex')) k = None \<and> waiting (sw_vault (ex_store ex')) k = Some raw \<or>
     (\<exists>p. postingRecoveryKey p = Inr k \<and> encodeStoredPosting p = raw \<and>
       ((\<exists>c\<in>set calls. accepted_by c p) \<or> (\<exists>rnd\<in>set rounds. orphan_in (rn_feed rnd) p))))"
proof -
  have ok: "round_ok words_inv (\<lambda>_. False) (ex_queue ex) (ex_store ex)"
    using assms(1-3) by (auto simp: round_ok_def storable_rows_def queue_rows_def)
  note r = rwi_words.exchange_run_ok [OF ok assms(4,5)]
  have w: "words_content (ex_store ex) k = Some raw" using assms(6) by (simp add: words_content_def)
  show ?thesis
  proof (cases "words_content (ex_store ex') k = Some raw")
    case True
    then show ?thesis using r
      by (auto simp: words_content_def posting_content_def round_ok_def split: option.splits)
  next
    case False
    have "words_content (ex_store ex') k = words_content (ex_store ex) k \<or> words_content (ex_store ex') k = None \<and>
      (\<exists>p. ((\<exists>rnd\<in>set rounds. orphan_in (rn_feed rnd) p) \<or> False \<or> (\<exists>c\<in>set calls. accepted_by c p)) \<and>
        postingRecoveryKey p = Inr k \<and> words_content (ex_store ex) k = Some (encodeStoredPosting p))"
      using conjunct2 [OF r] unfolding loses_def by (rule spec)
    then have "\<exists>p. ((\<exists>rnd\<in>set rounds. orphan_in (rn_feed rnd) p) \<or> (\<exists>c\<in>set calls. accepted_by c p)) \<and>
        postingRecoveryKey p = Inr k \<and> encodeStoredPosting p = raw"
      using False w by auto
    then show ?thesis using r by (auto simp: round_ok_def)
  qed
qed

lemma RunOnce_gate:
  assumes "RunOnce source cfg rnd ex = (ex', r, errs, call)" "queue_inv (ex_queue ex)"
  shows "(case call of None \<Rightarrow> True
    | Some (peer, postings, handoff) \<Rightarrow> gp_Open (EvaluateGates (rn_gates rnd) (xc_Gates cfg)) \<and>
        Ready (ex_retry ex) (sd_Hash peer) (rn_at rnd) \<and> postings \<noteq> [] \<and>
        length postings \<le> MaxChunkPostings \<and>
        handoff = fst (Send (rn_writer rnd) (rn_rowsByHash rnd) peer postings)) \<and>
    (\<not> gp_Open (EvaluateGates (rn_gates rnd) (xc_Gates cfg)) \<longrightarrow> call = None \<and>
       oq_chunks (ex_queue ex') = oq_chunks (ex_queue ex) \<and> ex_retry ex' = ex_retry ex)"
proof (cases "feed_due cfg rnd ex")
  case False
  then have "distribute_round source cfg rnd no_feed ex = (ex', r, errs, call)"
    using assms(1) by (simp add: RunOnce_def)
  from distribute_round_gate [OF this assms(2)] show ?thesis .
next
  case True
  let ?F = "Feed source (xc_lib cfg) (rn_feed rnd) (the (xc_Feed cfg)) (ex_queue ex) (ex_store ex)"
  obtain q1 s1 f1 e1 where F: "?F = (q1, s1, f1, e1)" by (cases ?F)
  have i: "queue_inv q1" by (rule Feed_queue_inv [OF assms(2) F])
  have opn: "gp_Open (EvaluateGates (rn_gates rnd) (xc_Gates cfg))" using True by (simp add: feed_due_def)
  show ?thesis
  proof (cases "e1 = []")
    case False
    then have "call = None" using assms(1) True F by (auto simp: RunOnce_def Let_def)
    then show ?thesis using opn by simp
  next
    case e1: True
    then have "distribute_round source cfg rnd f1 (ex\<lparr>ex_queue := q1, ex_store := s1\<rparr>) = (ex', r, errs, call)"
      using assms(1) True F by (simp add: RunOnce_def Let_def)
    from distribute_round_gate [OF this] i show ?thesis using opn by (auto split: option.splits prod.splits)
  qed
qed

text \<open>C7: Postings leave only through an open gate: a round hands a chunk over only when the gates are
  open and the peer's waiting time is over, and then it is a chunk of at most 1000 postings for that
  peer; with a gate closed nothing is selected, the chunks stay, and the peers' states too.\<close>

theorem handoff_needs_open_gate:
  assumes "RunOnce source cfg rnd ex = (ex', r, errs, call)" "queue_inv (ex_queue ex)"
  shows "(case call of None \<Rightarrow> True
    | Some (peer, postings, handoff) \<Rightarrow> gp_Open (EvaluateGates (rn_gates rnd) (xc_Gates cfg)) \<and>
        Ready (ex_retry ex) (sd_Hash peer) (rn_at rnd) \<and> postings \<noteq> [] \<and>
        length postings \<le> MaxChunkPostings \<and>
        handoff = fst (Send (rn_writer rnd) (rn_rowsByHash rnd) peer postings)) \<and>
    (\<not> gp_Open (EvaluateGates (rn_gates rnd) (xc_Gates cfg)) \<longrightarrow> call = None \<and>
       oq_chunks (ex_queue ex') = oq_chunks (ex_queue ex) \<and> ex_retry ex' = ex_retry ex)"
  using RunOnce_gate [OF assms] .

text \<open>C12: A round makes progress: with the gates open, nothing pending on the own store and some peer of
  the queue ready, a chunk is handed over, and unless that handoff fails the queue has fewer chunks
  afterwards.\<close>

theorem round_makes_progress:
  assumes "queue_inv (ex_queue ex)" "\<not> localCompletionPending (ex_queue ex)"
    and "gp_Open (EvaluateGates (rn_gates rnd) (xc_Gates cfg))"
    and "map_of (oq_chunks (ex_queue ex)) peer = Some chunk" "Ready (ex_retry ex) peer (rn_at rnd)"
    and "RunOnce source cfg rnd ex = (ex', r, errs, call)"
  shows "\<exists>target postings handoff receipt. call = Some (target, postings, handoff) \<and>
    sc_Distribution r = Some receipt \<and>
    (dr_State receipt \<noteq> DistributionHandoffFailed \<longrightarrow> queue_len (ex_queue ex') < queue_len (ex_queue ex))"
proof -
  have len: "queue_len (ex_queue ex) > 0" using assms(4) by (cases "oq_chunks (ex_queue ex)") (auto simp: queue_len_def)
  have F: "Feed source lib env config (ex_queue ex) s =
      (ex_queue ex, s, no_feed\<lparr>fr_State := OutboundFeedSkipped\<rparr>, [])" for lib env config s
    using len by (simp add: Feed_def)
  obtain feed where R: "distribute_round source cfg rnd feed ex = (ex', r, errs, call)"
    using assms(6) F by (cases "feed_due cfg rnd ex") (auto simp: RunOnce_def Let_def)
  show ?thesis using distribute_round_progress [OF assms(1-5) R] by blast
qed

section \<open>An example\<close>

definition example_round :: "string exchange_round" where
  "example_round = \<lparr>rn_at = 1, rn_gates = \<lparr>gs_OnlineCaution = [], gs_LocalPeerKnown = True,
       gs_LocalPeerVirgin = False, gs_ConnectedPeers = 40, gs_LocalRWIWords = 100, gs_LocalRWIKnown = True,
       gs_CrawlQueueSize = 0, gs_CrawlQueueKnown = True, gs_IndexQueueSize = 0, gs_IndexQueueKnown = True,
       gs_StorageAvailable = True, gs_StorageKnown = True\<rparr>,
     rn_feed = \<lparr>fe_Peers = [example_receiver], fe_MissingURLs = (\<lambda>_ _. Some []), fe_Visit = (\<lambda>_. rev),
       fe_Now = (\<lambda>_. 1)\<rparr>,
     rn_writer = example_writer, rn_rowsByHash = (\<lambda>_. Some [])\<rparr>"

definition example_exchange_config :: "string exchange_config" where
  "example_exchange_config = \<lparr>xc_lib = example_lib, xc_Gates = DefaultGateConfig,
     xc_Feed = Some (NewOutboundFeeder \<lparr>fc_MaxWords = 1, fc_MaxPostings = 0, fc_Redundancy = 1,
       fc_PartitionExponent = 0, fc_MinimumPeerAgeDays = 0\<rparr>), xc_platform = example_platform\<rparr>"

definition example_exchange :: "(string, stored_words) exchange" where
  "example_exchange = \<lparr>ex_queue = NewOutboundQueue, ex_retry = NewOutboundRetryPolicy example_retry,
     ex_store = \<lparr>sw_vault = example_vault, sw_transactions = 0\<rparr>\<rparr>"

lemma example_gates_open: "gp_Open (EvaluateGates (rn_gates example_round) (xc_Gates example_exchange_config))"
  by (simp add: EvaluateGates_def Let_def gate_results_def note_result_def gate_def observedGate_def
      normalized_gates_def example_round_def example_exchange_config_def DefaultGateConfig_def
      DefaultMinimumConnectedPeers_def DefaultMinimumRWIWords_def)

lemma exchange_keeps_postings_witness:
  "case exchange_run (dhtOutboundRWIWords (\<lambda>k. if k = 1 then TxnPartial (\<lambda>_. True) (\<lambda>_. False) else TxnOk))
      example_exchange_config [example_round, example_round] example_exchange of (ex', calls) \<Rightarrow>
    live (sw_vault (ex_store ex')) example_key = Some (encodeStoredPosting example_posting) \<or>
    live (sw_vault (ex_store ex')) example_key = None \<and>
      waiting (sw_vault (ex_store ex')) example_key = Some (encodeStoredPosting example_posting) \<or>
    (\<exists>p. postingRecoveryKey p = Inr example_key \<and> encodeStoredPosting p = encodeStoredPosting example_posting \<and>
      ((\<exists>c\<in>set calls. accepted_by c p) \<or>
       (\<exists>rnd\<in>set [example_round, example_round]. orphan_in (rn_feed rnd) p)))"
proof -
  let ?src = "dhtOutboundRWIWords (\<lambda>k. if k = 1 then TxnPartial (\<lambda>_. True) (\<lambda>_. False) else TxnOk)"
  obtain ex' calls where e: "exchange_run ?src example_exchange_config [example_round, example_round]
      example_exchange = (ex', calls)"
    by (cases "exchange_run ?src example_exchange_config [example_round, example_round] example_exchange")
  show ?thesis
    using exchange_keeps_postings [OF _ _ _ _ e, of example_key "encodeStoredPosting example_posting"]
      example_vault_inv unfolding e
    by (simp add: example_exchange_def words_inv_def queue_rows_def queued_postings_def NewOutboundQueue_def
        feed_env_ok_def example_round_def range_order_def posting_content_def example_vault_def queue_inv_def)
qed

lemma handoff_needs_open_gate_witness:
  "case RunOnce (dhtOutboundRWIWords (\<lambda>_. TxnOk)) example_exchange_config
      (example_round\<lparr>rn_gates := (rn_gates example_round)\<lparr>gs_LocalPeerVirgin := True\<rparr>\<rparr>)
      (example_exchange\<lparr>ex_queue := example_queue\<rparr>) of (ex', r, errs, call) \<Rightarrow>
    call = None \<and> oq_chunks (ex_queue ex') = oq_chunks example_queue"
proof -
  let ?r = "example_round\<lparr>rn_gates := (rn_gates example_round)\<lparr>gs_LocalPeerVirgin := True\<rparr>\<rparr>"
  have closed: "\<not> gp_Open (EvaluateGates (rn_gates ?r) (xc_Gates example_exchange_config))"
    by (simp add: EvaluateGates_def Let_def gate_results_def note_result_def gate_def observedGate_def
      normalized_gates_def example_round_def example_exchange_config_def DefaultGateConfig_def
      DefaultMinimumConnectedPeers_def DefaultMinimumRWIWords_def)
  obtain ex' r errs call where e: "RunOnce (dhtOutboundRWIWords (\<lambda>_. TxnOk)) example_exchange_config ?r
      (example_exchange\<lparr>ex_queue := example_queue\<rparr>) = (ex', r, errs, call)"
    by (cases "RunOnce (dhtOutboundRWIWords (\<lambda>_. TxnOk)) example_exchange_config ?r
      (example_exchange\<lparr>ex_queue := example_queue\<rparr>)")
  show ?thesis using handoff_needs_open_gate [OF e] example_queue_inv closed unfolding e by simp
qed

lemma round_makes_progress_witness:
  "case RunOnce (dhtOutboundRWIWords (\<lambda>_. TxnOk)) example_exchange_config example_round
      (example_exchange\<lparr>ex_queue := example_queue\<rparr>) of (ex', r, errs, call) \<Rightarrow> call \<noteq> None"
proof -
  obtain ex' r errs call where e: "RunOnce (dhtOutboundRWIWords (\<lambda>_. TxnOk)) example_exchange_config example_round
      (example_exchange\<lparr>ex_queue := example_queue\<rparr>) = (ex', r, errs, call)"
    by (cases "RunOnce (dhtOutboundRWIWords (\<lambda>_. TxnOk)) example_exchange_config example_round
      (example_exchange\<lparr>ex_queue := example_queue\<rparr>)")
  have "\<exists>chunk. map_of (oq_chunks example_queue) (sd_Hash example_receiver) = Some chunk"
    "\<not> localCompletionPending example_queue"
    "Ready (ex_retry example_exchange) (sd_Hash example_receiver) 1"
    by (simp_all add: example_queue_def localCompletionPending_def NewOutboundQueue_def Ready_def
        example_exchange_def NewOutboundRetryPolicy_def)
  then show ?thesis
    using round_makes_progress [OF _ _ example_gates_open _ _ e] example_queue_inv unfolding e
    by (fastforce simp: example_round_def)
qed

end
