(* ===== verification/UrlMetaStore.thy ===== *)
theory UrlMetaStore
  imports PostingStore UrlMetadata
begin

text \<open>
  \<^verbatim>\<open>yagonode/internal/urlmeta\<close>: the metadata rows of the addresses that a node knows. Rows are stored
  under the hash of their address, in a compressed form; the first row of an address stays. The
  compressor and its dictionary are parameters, and so is what the vault makes of an update, as in
  \<^verbatim>\<open>PostingStore\<close>. The observers of the store, whose failures are only reported, are not modelled.
  The lemmas show that every row is stored under its own hash, what an intake tells about each row
  it was given, and that the directory answers by the content of the store.
\<close>

section \<open>Stored rows\<close>

definition storedURLMetadataFormatV1 :: byte where "storedURLMetadataFormatV1 = 0x01"

text \<open>The writer and the reader of \<^verbatim>\<open>compress/flate\<close> with the dictionary of the store.\<close>

record row_codec =
  rx_deflate :: "bytes \<Rightarrow> bytes"
  rx_inflate :: "bytes \<Rightarrow> bytes option"

definition encodeStoredURLMetadata :: "row_codec \<Rightarrow> URIMetadataRow \<Rightarrow> bytes" where
  "encodeStoredURLMetadata fl row =
     storedURLMetadataFormatV1 # rx_deflate fl (bytes_of_string (URIMetadataRow_String row))"

datatype row_error = EmptyRowValue | BadStoredRow metadata_error | BadStoredBytes

definition decodeStoredURLMetadata :: "row_codec \<Rightarrow> bytes \<Rightarrow> (row_error, URIMetadataRow) result" where
  "decodeStoredURLMetadata fl data = (case data of
     [] \<Rightarrow> Inl EmptyRowValue
   | format # body \<Rightarrow>
       if format \<noteq> storedURLMetadataFormatV1
       then map_sum BadStoredRow id (ParseURIMetadataRow (string_of_bytes data))
       else (case rx_inflate fl body of
               None \<Rightarrow> Inl BadStoredBytes
             | Some raw \<Rightarrow> map_sum BadStoredRow id (ParseURIMetadataRow (string_of_bytes raw))))"

section \<open>The collection\<close>

type_synonym url_vault = "(string, bytes) gomap"

datatype url_store_error = CorruptRow row_error | URLStorageFailed bool

definition url_update ::
  "txn_outcome \<Rightarrow> url_vault \<Rightarrow> (url_store_error, url_vault \<times> 'r) result \<Rightarrow>
     url_vault \<times> (url_store_error, 'r) result" where
  "url_update outcome v r = (case r of
     Inl e \<Rightarrow> (v, Inl e)
   | Inr (v', x) \<Rightarrow> (case outcome of
       TxnOk \<Rightarrow> (v', Inr x)
     | TxnAborted busy \<Rightarrow> (v, Inl (URLStorageFailed busy))
     | TxnPartial p q \<Rightarrow> (partial_commit p v v', Inl (URLStorageFailed False))))"

definition url_get :: "row_codec \<Rightarrow> url_vault \<Rightarrow> string \<Rightarrow> (url_store_error, URIMetadataRow option) result" where
  "url_get fl v key = (case map_of v key of
     None \<Rightarrow> Inr None
   | Some raw \<Rightarrow> map_sum CorruptRow Some (decodeStoredURLMetadata fl raw))"

section \<open>Intake\<close>

text \<open>Hashes of the rows that were there and of those that the vault refused. The predicate tells
  which writes the vault refuses; other failures of a write abort the update.\<close>

record url_intake =
  ui_existing :: "Hash list"
  ui_rejected :: "Hash list"

fun store_rows ::
  "row_codec \<Rightarrow> (Hash \<Rightarrow> bool) \<Rightarrow> url_vault \<Rightarrow> url_intake \<Rightarrow> URIMetadataRow list \<Rightarrow>
     (url_store_error, url_vault \<times> url_intake) result" where
  "store_rows fl refuses v acc [] = Inr (v, acc)"
| "store_rows fl refuses v acc (row # rows) = (case URIMetadataRow_URLHash row of
     Inl _ \<Rightarrow> store_rows fl refuses v acc rows
   | Inr hash \<Rightarrow> (case url_get fl v hash of
       Inl e \<Rightarrow> Inl e
     | Inr (Some _) \<Rightarrow> store_rows fl refuses v (acc\<lparr>ui_existing := ui_existing acc @ [hash]\<rparr>) rows
     | Inr None \<Rightarrow>
         if refuses hash
         then store_rows fl refuses v (acc\<lparr>ui_rejected := ui_rejected acc @ [hash]\<rparr>) rows
         else store_rows fl refuses
                (AList.update hash (encodeStoredURLMetadata fl row) v) acc rows))"

record URLReceipt =
  ur_Busy :: bool
  ur_Double :: nat
  ur_ExistingURL :: "Hash list"
  ur_ErrorURL :: "Hash list"

definition no_url_receipt :: URLReceipt where
  "no_url_receipt = \<lparr>ur_Busy = False, ur_Double = 0, ur_ExistingURL = [], ur_ErrorURL = []\<rparr>"

definition ReceiveURLs ::
  "row_codec \<Rightarrow> capacity_answer \<Rightarrow> txn_outcome \<Rightarrow> (Hash \<Rightarrow> bool) \<Rightarrow> url_vault \<Rightarrow> URIMetadataRow list \<Rightarrow>
     url_vault \<times> (url_store_error, URLReceipt) result" where
  "ReceiveURLs fl capacity outcome refuses v rows =
     (if rows = [] then (v, Inr no_url_receipt)
      else case capacity of
        CapacityCancelled \<Rightarrow> (v, Inr (no_url_receipt\<lparr>ur_Busy := True\<rparr>))
      | CapacityFailed \<Rightarrow> (v, Inl (URLStorageFailed False))
      | AtCapacity True \<Rightarrow> (v, Inr (no_url_receipt\<lparr>ur_Busy := True\<rparr>))
      | AtCapacity False \<Rightarrow>
          (case url_update outcome v (store_rows fl refuses v \<lparr>ui_existing = [], ui_rejected = []\<rparr> rows) of
             (v, Inl (URLStorageFailed True)) \<Rightarrow> (v, Inr (no_url_receipt\<lparr>ur_Busy := True\<rparr>))
           | (v, Inl e) \<Rightarrow> (v, Inl e)
           | (v, Inr acc) \<Rightarrow> (v, Inr \<lparr>ur_Busy = False, ur_Double = length (ui_existing acc),
                 ur_ExistingURL = ui_existing acc, ur_ErrorURL = ui_rejected acc\<rparr>)))"

section \<open>Directory\<close>

text \<open>A read of the vault can fail as a whole, which the flag tells.\<close>

fun rows_by_hash ::
  "row_codec \<Rightarrow> url_vault \<Rightarrow> Hash list \<Rightarrow> (url_store_error, URIMetadataRow list) result" where
  "rows_by_hash fl v [] = Inr []"
| "rows_by_hash fl v (hash # hashes) = (case url_get fl v hash of
     Inl e \<Rightarrow> Inl e
   | Inr None \<Rightarrow> rows_by_hash fl v hashes
   | Inr (Some row) \<Rightarrow> map_sum id ((#) row) (rows_by_hash fl v hashes))"

definition RowsByHash ::
  "row_codec \<Rightarrow> bool \<Rightarrow> url_vault \<Rightarrow> Hash list \<Rightarrow> (url_store_error, URIMetadataRow list) result" where
  "RowsByHash fl readable v hashes =
     (if readable then rows_by_hash fl v hashes else Inl (URLStorageFailed False))"

fun missing_urls ::
  "row_codec \<Rightarrow> url_vault \<Rightarrow> Hash list \<Rightarrow> Hash list \<Rightarrow> (url_store_error, Hash list) result" where
  "missing_urls fl v seen [] = Inr []"
| "missing_urls fl v seen (hash # hashes) =
     (if hash \<in> set seen then missing_urls fl v seen hashes
      else (case url_get fl v hash of
              Inl e \<Rightarrow> Inl e
            | Inr (Some _) \<Rightarrow> missing_urls fl v (hash # seen) hashes
            | Inr None \<Rightarrow> map_sum id ((#) hash) (missing_urls fl v (hash # seen) hashes)))"

definition MissingURLs ::
  "row_codec \<Rightarrow> bool \<Rightarrow> url_vault \<Rightarrow> Hash list \<Rightarrow> (url_store_error, Hash list) result" where
  "MissingURLs fl readable v hashes =
     (if readable then missing_urls fl v [] hashes else Inl (URLStorageFailed False))"

definition CountURLs :: "bool \<Rightarrow> url_vault \<Rightarrow> (url_store_error, nat) result" where
  "CountURLs readable v = (if readable then Inr (length v) else Inl (URLStorageFailed False))"

text \<open>The visitor of the rows, in the order of their keys, tells whether to go on; None is an error of
  the visitor or the end of the request's context, which end the walk with an error.\<close>

fun visit_rows ::
  "row_codec \<Rightarrow> (URIMetadataRow \<Rightarrow> 's \<Rightarrow> (bool \<times> 's) option) \<Rightarrow> 's \<Rightarrow> (string \<times> bytes) list \<Rightarrow>
     (url_store_error, 's) result" where
  "visit_rows fl visit s [] = Inr s"
| "visit_rows fl visit s ((key, raw) # rest) = (case decodeStoredURLMetadata fl raw of
     Inl e \<Rightarrow> Inl (CorruptRow e)
   | Inr row \<Rightarrow> (case visit row s of
       None \<Rightarrow> Inl (URLStorageFailed False)
     | Some (again, s') \<Rightarrow> if again then visit_rows fl visit s' rest else Inr s'))"

definition StoredURLMetadataRows ::
  "row_codec \<Rightarrow> (URIMetadataRow \<Rightarrow> 's \<Rightarrow> (bool \<times> 's) option) \<Rightarrow> 's \<Rightarrow> url_vault \<Rightarrow> (url_store_error, 's) result" where
  "StoredURLMetadataRows fl visit s v = visit_rows fl visit s (scan_entries v)"

text \<open>The purge runs in a transaction of its caller; it counts the rows that it deletes.\<close>

fun PurgeURLs :: "url_vault \<Rightarrow> Hash list \<Rightarrow> url_vault \<times> nat" where
  "PurgeURLs v [] = (v, 0)"
| "PurgeURLs v (hash # hashes) =
     (if map_of v hash = None then PurgeURLs v hashes
      else (case PurgeURLs (AList.delete hash v) hashes of (v, n) \<Rightarrow> (v, n + 1)))"

section \<open>Every row under its own hash\<close>

definition flate_inverse :: "row_codec \<Rightarrow> bool" where
  "flate_inverse fl \<longleftrightarrow> (\<forall>b. rx_inflate fl (rx_deflate fl b) = Some b)"

definition row_plain :: "URIMetadataRow \<Rightarrow> bool" where
  "row_plain row \<longleftrightarrow> wf_row row \<and> plain_map (Meta_Properties row)"

lemma decode_encode_row:
  assumes "flate_inverse fl" "row_plain row"
  shows "\<exists>row'. decodeStoredURLMetadata fl (encodeStoredURLMetadata fl row) = Inr row' \<and>
    map_of (Meta_Properties row') = map_of (Meta_Properties row) \<and> wf_row row'"
  using ParseURIMetadataRow_String [of row] assms
  by (auto simp: decodeStoredURLMetadata_def encodeStoredURLMetadata_def flate_inverse_def row_plain_def)

lemma row_hash_cong:
  assumes "map_of (Meta_Properties r) = map_of (Meta_Properties s)"
  shows "URIMetadataRow_URLHash r = URIMetadataRow_URLHash s"
  unfolding URIMetadataRow_URLHash_def urlMetadataHash_def assms ..

definition row_ok :: "row_codec \<Rightarrow> string \<Rightarrow> bytes \<Rightarrow> bool" where
  "row_ok fl key raw \<longleftrightarrow> (\<exists>row. decodeStoredURLMetadata fl raw = Inr row \<and>
     URIMetadataRow_URLHash row = Inr key \<and> wf_row row)"

definition url_inv :: "row_codec \<Rightarrow> url_vault \<Rightarrow> bool" where
  "url_inv fl v \<longleftrightarrow> wf_map v \<and> (\<forall>k raw. map_of v k = Some raw \<longrightarrow> row_ok fl k raw)"

lemma row_ok_encode:
  assumes "flate_inverse fl" "row_plain row" "URIMetadataRow_URLHash row = Inr hash"
  shows "row_ok fl hash (encodeStoredURLMetadata fl row)"
  using decode_encode_row [OF assms(1,2)] row_hash_cong assms(3) unfolding row_ok_def by metis

lemma url_get_ok:
  assumes "url_inv fl v"
  shows "\<exists>r. url_get fl v key = Inr r \<and> (r = None \<longleftrightarrow> map_of v key = None) \<and>
    (\<forall>row. r = Some row \<longrightarrow> URIMetadataRow_URLHash row = Inr key \<and> wf_row row)"
proof (cases "map_of v key")
  case None
  then show ?thesis by (simp add: url_get_def)
next
  case (Some raw)
  then have "row_ok fl key raw" using assms by (simp add: url_inv_def)
  then show ?thesis using Some by (auto simp: url_get_def row_ok_def)
qed

lemma url_get_cases:
  assumes "url_inv fl v"
  obtains "url_get fl v key = Inr None" "map_of v key = None"
  | row where "url_get fl v key = Inr (Some row)" "map_of v key \<noteq> None"
      "URIMetadataRow_URLHash row = Inr key" "wf_row row"
proof -
  obtain r where r: "url_get fl v key = Inr r \<and> (r = None \<longleftrightarrow> map_of v key = None) \<and>
      (\<forall>row. r = Some row \<longrightarrow> URIMetadataRow_URLHash row = Inr key \<and> wf_row row)"
    using url_get_ok [OF assms] by (rule exE)
  show ?thesis
  proof (cases r)
    case None
    then show ?thesis using that(1) r by simp
  next
    case (Some row)
    then show ?thesis using that(2) [of row] r by simp
  qed
qed

lemma url_inv_update:
  assumes "url_inv fl v" "row_ok fl key raw"
  shows "url_inv fl (AList.update key raw v)"
  using assms by (auto simp: url_inv_def split: if_split_asm)

lemma url_inv_delete: "url_inv fl v \<Longrightarrow> url_inv fl (AList.delete key v)"
  by (auto simp: url_inv_def split: if_split_asm)

section \<open>What an intake tells\<close>

text \<open>What the loop does to a store and its notes: nothing that was there changes, every row is there
  afterwards or is among the refused ones, and the notes only grow.\<close>

definition rows_stored ::
  "url_vault \<Rightarrow> url_intake \<Rightarrow> URIMetadataRow list \<Rightarrow> url_vault \<Rightarrow> url_intake \<Rightarrow> bool" where
  "rows_stored v acc rows w acc' \<longleftrightarrow>
     (\<forall>k raw. map_of v k = Some raw \<longrightarrow> map_of w k = Some raw) \<and>
     (\<forall>row\<in>set rows. \<forall>hash. URIMetadataRow_URLHash row = Inr hash \<longrightarrow>
        map_of w hash \<noteq> None \<or> hash \<in> set (ui_rejected acc')) \<and>
     (\<forall>k. map_of w k \<noteq> map_of v k \<longrightarrow> (\<exists>row\<in>set rows. URIMetadataRow_URLHash row = Inr k)) \<and>
     set (ui_rejected acc) \<subseteq> set (ui_rejected acc') \<and>
     set (ui_rejected acc') \<subseteq> set (ui_rejected acc) \<union> {h. \<exists>row\<in>set rows. URIMetadataRow_URLHash row = Inr h}"

lemma store_rows_ok:
  assumes "flate_inverse fl" "url_inv fl v" "list_all row_plain rows"
  shows "\<exists>w acc'. store_rows fl refuses v acc rows = Inr (w, acc') \<and> url_inv fl w \<and>
    rows_stored v acc rows w acc'"
  using assms(2,3)
proof (induction rows arbitrary: v acc)
  case Nil
  then show ?case by (simp add: rows_stored_def)
next
  case (Cons row rows)
  have rows: "list_all row_plain rows" using Cons.prems(2) by simp
  show ?case
  proof (cases "URIMetadataRow_URLHash row")
    case (Inl e)
    then show ?thesis using Cons.IH [OF Cons.prems(1) rows, of acc] by (fastforce simp: rows_stored_def)
  next
    case (Inr hash)
    obtain r where r: "url_get fl v hash = Inr r" "r = None \<longleftrightarrow> map_of v hash = None"
      using url_get_ok [OF Cons.prems(1)] by blast
    show ?thesis
    proof (cases r)
      case (Some old)
      let ?acc = "acc\<lparr>ui_existing := ui_existing acc @ [hash]\<rparr>"
      obtain w acc' where w: "store_rows fl refuses v ?acc rows = Inr (w, acc')" "url_inv fl w"
          "rows_stored v ?acc rows w acc'"
        using Cons.IH [OF Cons.prems(1) rows] by blast
      have "map_of w hash \<noteq> None" using w(3) r(2) Some by (fastforce simp: rows_stored_def)
      then have "rows_stored v acc (row # rows) w acc'" using w(3) Inr by (auto simp: rows_stored_def)
      then show ?thesis using w(1,2) Inr r(1) Some by simp
    next
      case None
      show ?thesis
      proof (cases "refuses hash")
        case True
        let ?acc = "acc\<lparr>ui_rejected := ui_rejected acc @ [hash]\<rparr>"
        obtain w acc' where w: "store_rows fl refuses v ?acc rows = Inr (w, acc')" "url_inv fl w"
            "rows_stored v ?acc rows w acc'"
          using Cons.IH [OF Cons.prems(1) rows] by blast
        then have "rows_stored v acc (row # rows) w acc'" using Inr by (auto simp: rows_stored_def)
        then show ?thesis using w(1,2) Inr r(1) None True by simp
      next
        case False
        let ?v = "AList.update hash (encodeStoredURLMetadata fl row) v"
        have "url_inv fl ?v"
          using Cons.prems Inr assms(1) by (intro url_inv_update row_ok_encode) simp_all
        then obtain w acc' where w: "store_rows fl refuses ?v acc rows = Inr (w, acc')" "url_inv fl w"
            "rows_stored ?v acc rows w acc'"
          using Cons.IH [OF _ rows] by blast
        have h: "map_of w hash \<noteq> None" using w(3) by (simp add: rows_stored_def)
        have keep: "map_of w k = Some raw" if "map_of v k = Some raw" for k raw
          using w(3) that r(2) None by (cases "k = hash") (simp_all add: rows_stored_def)
        have new: "\<exists>row'\<in>set (row # rows). URIMetadataRow_URLHash row' = Inr k" if "map_of w k \<noteq> map_of v k" for k
          using w(3) that Inr by (cases "k = hash") (auto simp: rows_stored_def)
        have "rows_stored v acc (row # rows) w acc'"
          using w(3) h keep new Inr unfolding rows_stored_def by auto
        then show ?thesis using w(1,2) Inr r(1) None False by simp
      qed
    qed
  qed
qed

lemma url_inv_partial:
  assumes "url_inv fl v" "url_inv fl w"
  shows "url_inv fl (partial_commit p v w)"
  using assms by (auto simp: url_inv_def wf_partial_commit map_of_partial_commit split: if_split_asm)

text \<open>Whatever becomes of the update, no row that was there changes and the rows are well kept; and an
  intake that is not busy has every row or names it.\<close>

lemma ReceiveURLs_ok:
  assumes "flate_inverse fl" "url_inv fl v" "list_all row_plain rows"
    and "ReceiveURLs fl capacity outcome refuses v rows = (w, x)"
  shows "url_inv fl w \<and> (\<forall>k raw. map_of v k = Some raw \<longrightarrow> map_of w k = Some raw) \<and>
    (\<forall>k. map_of w k \<noteq> map_of v k \<longrightarrow> (\<exists>row\<in>set rows. URIMetadataRow_URLHash row = Inr k)) \<and>
    (\<forall>receipt. x = Inr receipt \<longrightarrow> \<not> ur_Busy receipt \<longrightarrow>
       (\<forall>row\<in>set rows. \<forall>hash. URIMetadataRow_URLHash row = Inr hash \<longrightarrow>
          map_of w hash \<noteq> None \<or> hash \<in> set (ur_ErrorURL receipt)) \<and>
       (\<forall>h\<in>set (ur_ErrorURL receipt). \<exists>row\<in>set rows. URIMetadataRow_URLHash row = Inr h))"
proof -
  obtain w1 acc1 where s: "store_rows fl refuses v \<lparr>ui_existing = [], ui_rejected = []\<rparr> rows = Inr (w1, acc1)"
      "url_inv fl w1" "rows_stored v \<lparr>ui_existing = [], ui_rejected = []\<rparr> rows w1 acc1"
    using store_rows_ok [OF assms(1-3)] by blast
  have s3: "\<And>k raw. map_of v k = Some raw \<Longrightarrow> map_of w1 k = Some raw"
    "\<And>k. map_of w1 k \<noteq> map_of v k \<Longrightarrow> \<exists>row\<in>set rows. URIMetadataRow_URLHash row = Inr k"
    "\<And>row hash. row \<in> set rows \<Longrightarrow> URIMetadataRow_URLHash row = Inr hash \<Longrightarrow>
        map_of w1 hash \<noteq> None \<or> hash \<in> set (ui_rejected acc1)"
    "\<And>h. h \<in> set (ui_rejected acc1) \<Longrightarrow> \<exists>row\<in>set rows. URIMetadataRow_URLHash row = Inr h"
    using s(3) unfolding rows_stored_def by auto
  show ?thesis
  proof (cases "rows = [] \<or> capacity \<noteq> AtCapacity False")
    case True
    then show ?thesis using assms(2,4)
      by (auto simp: ReceiveURLs_def no_url_receipt_def split: capacity_answer.splits bool.splits if_splits)
  next
    case False
    show ?thesis
    proof (cases outcome)
      case TxnOk
      then have w: "w = w1" "x = Inr \<lparr>ur_Busy = False, ur_Double = length (ui_existing acc1),
          ur_ExistingURL = ui_existing acc1, ur_ErrorURL = ui_rejected acc1\<rparr>"
        using False assms(4) s(1) by (auto simp: ReceiveURLs_def url_update_def)
      show ?thesis unfolding w(1) using w(2) s(2) s3 by simp
    next
      case (TxnAborted b)
      then show ?thesis using False assms(2,4) s(1)
        by (cases b) (auto simp: ReceiveURLs_def url_update_def no_url_receipt_def)
    next
      case (TxnPartial p q)
      then have w: "w = partial_commit p v w1" "x = Inl (URLStorageFailed False)"
        using False assms(4) s(1) by (auto simp: ReceiveURLs_def url_update_def)
      show ?thesis unfolding w(1) using w(2) s3 url_inv_partial [OF assms(2) s(2)]
        by (auto simp: map_of_partial_commit)
    qed
  qed
qed

section \<open>What the directory answers\<close>

definition absent_of :: "url_vault \<Rightarrow> Hash list \<Rightarrow> Hash list \<Rightarrow> Hash set" where
  "absent_of v seen hashes = {h \<in> set hashes. h \<notin> set seen \<and> map_of v h = None}"

lemma missing_urls_ok:
  assumes "url_inv fl v"
  shows "\<exists>missing. missing_urls fl v seen hashes = Inr missing \<and>
    set missing = absent_of v seen hashes \<and> distinct missing"
proof (induction hashes arbitrary: seen)
  case (Cons hash hashes)
  show ?case
  proof (cases "hash \<in> set seen")
    case True
    then have "absent_of v seen (hash # hashes) = absent_of v seen hashes" by (auto simp: absent_of_def)
    then show ?thesis using Cons.IH [of seen] True by simp
  next
    case False
    obtain m where m: "missing_urls fl v (hash # seen) hashes = Inr m \<and>
        set m = absent_of v (hash # seen) hashes \<and> distinct m"
      using Cons.IH [of "hash # seen"] by (rule exE)
    from assms show ?thesis
    proof (rule url_get_cases [of fl v hash])
      assume r: "url_get fl v hash = Inr None" "map_of v hash = None"
      have "absent_of v seen (hash # hashes) = insert hash (absent_of v (hash # seen) hashes)"
        "hash \<notin> absent_of v (hash # seen) hashes"
        using r(2) False by (auto simp: absent_of_def)
      then show ?thesis using m r(1) False by (intro exI [of _ "hash # m"]) simp
    next
      fix row assume r: "url_get fl v hash = Inr (Some row)" "map_of v hash \<noteq> None"
      have "absent_of v seen (hash # hashes) = absent_of v (hash # seen) hashes"
        using r(2) False by (auto simp: absent_of_def)
      then show ?thesis using m r(1) False by (intro exI [of _ m]) simp
    qed
  qed
qed (simp add: absent_of_def)

lemma MissingURLs_ok:
  assumes "url_inv fl v" "MissingURLs fl readable v hashes = Inr missing"
  shows "set missing = {h \<in> set hashes. map_of v h = None} \<and> distinct missing"
proof -
  obtain m where "missing_urls fl v [] hashes = Inr m \<and> set m = absent_of v [] hashes \<and> distinct m"
    using missing_urls_ok [OF assms(1), of "[]" hashes] by (rule exE)
  then show ?thesis using assms(2) by (simp add: MissingURLs_def absent_of_def split: if_splits)
qed

lemma rows_by_hash_ok:
  assumes "url_inv fl v"
  shows "\<exists>rows. rows_by_hash fl v hashes = Inr rows \<and> list_all wf_row rows \<and>
    map URIMetadataRow_URLHash rows = map Inr (filter (\<lambda>h. map_of v h \<noteq> None) hashes)"
proof (induction hashes)
  case (Cons hash hashes)
  obtain rows where rows: "rows_by_hash fl v hashes = Inr rows \<and> list_all wf_row rows \<and>
      map URIMetadataRow_URLHash rows = map Inr (filter (\<lambda>h. map_of v h \<noteq> None) hashes)"
    using Cons.IH by (rule exE)
  from assms show ?case
  proof (rule url_get_cases [of fl v hash])
    assume "url_get fl v hash = Inr None" "map_of v hash = None"
    then show ?thesis using rows by simp
  next
    fix row assume "url_get fl v hash = Inr (Some row)" "map_of v hash \<noteq> None"
      "URIMetadataRow_URLHash row = Inr hash" "wf_row row"
    then show ?thesis using rows by (intro exI [of _ "row # rows"]) simp
  qed
qed simp

lemma PurgeURLs_ok:
  "url_inv fl v \<Longrightarrow> PurgeURLs v hashes = (w, n) \<Longrightarrow>
     url_inv fl w \<and> (\<forall>k. map_of w k = (if k \<in> set hashes then None else map_of v k)) \<and>
     length v = length w + n"
proof (induction v hashes arbitrary: w n rule: PurgeURLs.induct)
  case (2 v hash hashes)
  show ?case
  proof (cases "map_of v hash = None")
    case True
    then show ?thesis using "2.IH"(1) [OF True "2.prems"(1)] "2.prems"(2) by auto
  next
    case False
    obtain w' n' where p: "PurgeURLs (AList.delete hash v) hashes = (w', n')"
      by (cases "PurgeURLs (AList.delete hash v) hashes")
    have "wf_map v" using "2.prems"(1) by (simp add: url_inv_def)
    then have l: "length v = length (AList.delete hash v) + 1"
      using length_delete_present [of v hash] False by auto
    have wn: "w = w'" "n = n' + 1" using "2.prems"(2) p False by auto
    have "url_inv fl (AList.delete hash v)" by (rule url_inv_delete [OF "2.prems"(1)])
    from "2.IH"(2) [OF False this p] show ?thesis using l wn by auto
  qed
qed simp

end
