(* ===== verification/TransferEndpoint.thy ===== *)
theory TransferEndpoint
  imports TransferMessages UrlMetaStore SeedFields
begin

text \<open>
  The receiver of an index transfer: who the node is and whom it lets in
  (\<^verbatim>\<open>yagonode/internal/nodeidentity\<close>), the gate that bounds how many requests are inside at once and
  the handler of a request (\<^verbatim>\<open>httpguard\<close>), and the two endpoints (\<^verbatim>\<open>rwi/transfer_rwi_endpoint.go\<close>,
  \<^verbatim>\<open>urlmeta/transfer_url_endpoint.go\<close>) over the stores of postings and of metadata rows. What the
  HTTP library makes of the bytes of a request, the roster of the peers and the vaults are
  parameters. The lemmas tell what an answer says about the stores.
\<close>

section \<open>Identity\<close>

record Identity =
  id_Hash :: Hash
  id_NetworkName :: string
  id_Name :: string
  id_Host :: string
  id_Port :: int
  id_Flags :: Flags
  id_Version :: string
  id_Start :: go_time
  id_BirthDate :: go_time
  id_AuthenticationMode :: NetworkAuthenticationMode
  id_AuthenticationEssentials :: string

definition NetworkMatches :: "Identity \<Rightarrow> string \<Rightarrow> bool" where
  "NetworkMatches i network \<longleftrightarrow> NetworkUnit network = NetworkUnit (id_NetworkName i)"

definition Addresses :: "Identity \<Rightarrow> string \<Rightarrow> Hash \<Rightarrow> bool" where
  "Addresses i network youare \<longleftrightarrow> NetworkMatches i network \<and> youare = id_Hash i"

definition identity_access :: "Identity \<Rightarrow> NetworkAccess" where
  "identity_access i = \<lparr>na_NetworkName = id_NetworkName i, na_Mode = id_AuthenticationMode i,
     na_Essentials = id_AuthenticationEssentials i, na_Self = id_Hash i\<rparr>"

definition Authenticates :: "Identity \<Rightarrow> string \<Rightarrow> bool \<Rightarrow> string \<Rightarrow> string \<Rightarrow> string \<Rightarrow> bool" where
  "Authenticates i network networkPresent key iam magic =
     (let form = [(FieldKey, [key]), (FieldIam, [iam]), (FieldMagicMD5, [magic])];
          form = (if network \<noteq> [] \<or> networkPresent then form_set form FieldNetworkName network else form)
      in Authorizes (identity_access i) form)"

section \<open>The intake gate\<close>

text \<open>A gate without a limit is None. The slots that are taken are those of the requests inside.\<close>

record IntakeGate =
  ig_limit :: nat
  ig_taken :: nat

definition NewIntakeGate :: "int \<Rightarrow> IntakeGate option" where
  "NewIntakeGate limit = (if limit \<le> 0 then None else Some \<lparr>ig_limit = nat limit, ig_taken = 0\<rparr>)"

definition TryAcquire :: "IntakeGate option \<Rightarrow> IntakeGate option \<times> bool" where
  "TryAcquire g = (case g of
     None \<Rightarrow> (None, True)
   | Some gate \<Rightarrow> if ig_taken gate < ig_limit gate then (Some (gate\<lparr>ig_taken := ig_taken gate + 1\<rparr>), True)
       else (Some gate, False))"

definition gate_release :: "IntakeGate option \<Rightarrow> IntakeGate option" where
  "gate_release g = map_option (\<lambda>gate. gate\<lparr>ig_taken := ig_taken gate - 1\<rparr>) g"

section \<open>The endpoint of postings\<close>

definition transferRWIDefaultPause :: int where "transferRWIDefaultPause = 60000"

record transferRWIEndpoint =
  te_identity :: Identity
  te_batchCap :: int
  te_pauseMilliseconds :: int
  te_accept :: bool

definition missingFieldResult :: "TransferRWIRequest \<Rightarrow> string option" where
  "missingFieldResult req =
     (if MissingWordCountField req then Some ResultMissingWordC
      else if MissingEntryCountField req then Some ResultMissingEntryC
      else if MissingIndexesField req then Some ResultMissingIndexes
      else None)"

definition empty_rwi_response :: TransferRWIResponse where
  "empty_rwi_response = \<lparr>tr_Header = no_header, tr_Result = [], tr_Pause = 0, tr_UnknownURL = [],
     tr_ErrorURL = [], tr_UnknownURLFieldPresent = False\<rparr>"

definition preflight :: "transferRWIEndpoint \<Rightarrow> TransferRWIRequest \<Rightarrow> TransferRWIResponse \<times> bool" where
  "preflight e req =
     (let resp = empty_rwi_response\<lparr>tr_Pause := transferRWIDefaultPause\<rparr>
      in if \<not> Authenticates (te_identity e) (tq_NetworkName req) (tq_NetworkNamePresent req) (tq_Key req)
              (tq_Iam req) (tq_MagicMD5 req)
         then (resp\<lparr>tr_Result := ResultNotAuthentified\<rparr>, False)
         else if \<not> te_accept e then (resp\<lparr>tr_Result := ResultNotGranted\<rparr>, False)
         else (case missingFieldResult req of
            Some res \<Rightarrow> (resp\<lparr>tr_Result := res\<rparr>, False)
          | None \<Rightarrow>
              if ExceedsEntryLimit req \<or> te_batchCap e > 0 \<and> int (length (tq_Indexes req)) > te_batchCap e
              then (resp\<lparr>tr_Result := ResultBusy, tr_Pause := te_pauseMilliseconds e\<rparr>, False)
              else (resp, True)))"

definition receive_rwi ::
  "('s \<Rightarrow> RWIPosting list \<Rightarrow> 's \<times> ('e, Receipt) result) \<Rightarrow> 's \<Rightarrow> TransferRWIRequest \<Rightarrow>
     TransferRWIResponse \<Rightarrow> 's \<times> ('e, TransferRWIResponse) result" where
  "receive_rwi intake s req resp = (case intake s (tq_Indexes req) of
     (s, Inl e) \<Rightarrow> (s, Inl e)
   | (s, Inr receipt) \<Rightarrow> (s, Inr (resp\<lparr>tr_Result := (if rc_Busy receipt then ResultBusy else ResultOK),
        tr_Pause := rc_Pause receipt, tr_UnknownURL := rc_UnknownURL receipt\<rparr>)))"

text \<open>The gate is as other requests left it; the slot is released when the request is done. The
  predicate tells which senders the roster knows.\<close>

definition ServeTransferRWI ::
  "transferRWIEndpoint \<Rightarrow> (Hash \<Rightarrow> bool) \<Rightarrow> ('s \<Rightarrow> RWIPosting list \<Rightarrow> 's \<times> ('e, Receipt) result) \<Rightarrow>
     IntakeGate option \<Rightarrow> 's \<Rightarrow> TransferRWIRequest \<Rightarrow>
     IntakeGate option \<times> 's \<times> ('e, TransferRWIResponse) result" where
  "ServeTransferRWI e known intake gate s req = (case preflight e req of
     (resp, admitted) \<Rightarrow>
       if \<not> admitted then (gate, s, Inr resp)
       else (case TryAcquire gate of
         (gate, False) \<Rightarrow> (gate, s, Inr (resp\<lparr>tr_Result := ResultTooHighLoad\<rparr>))
       | (gate, True) \<Rightarrow>
           if tq_YouAre req \<noteq> id_Hash (te_identity e)
           then (gate_release gate, s, Inr (resp\<lparr>tr_Result := ResultWrongTarget, tr_Pause := 0\<rparr>))
           else if \<not> known (tq_Iam req)
           then (gate_release gate, s, Inr (resp\<lparr>tr_Result := ResultNotGranted\<rparr>))
           else (case receive_rwi intake s req resp of (s, answer) \<Rightarrow> (gate_release gate, s, answer))))"

section \<open>The endpoint of metadata rows\<close>

record transferURLEndpoint =
  ue_identity :: Identity
  ue_accept :: bool

definition empty_url_response :: TransferURLResponse where
  "empty_url_response = \<lparr>tu_Header = no_header, tu_Result = [], tu_Double = 0, tu_ErrorURL = []\<rparr>"

definition ServeTransferURL ::
  "transferURLEndpoint \<Rightarrow> (Hash \<Rightarrow> bool) \<Rightarrow> ('s \<Rightarrow> URIMetadataRow list \<Rightarrow> 's \<times> ('e, URLReceipt) result) \<Rightarrow>
     IntakeGate option \<Rightarrow> 's \<Rightarrow> TransferURLRequest \<Rightarrow>
     IntakeGate option \<times> 's \<times> ('e, TransferURLResponse) result" where
  "ServeTransferURL e known intake gate s req =
     (let resp = empty_url_response
      in if \<not> Authenticates (ue_identity e) (uq_NetworkName req) (uq_NetworkNamePresent req) (uq_Key req)
              (uq_Iam req) (uq_MagicMD5 req)
         then (gate, s, Inr resp)
         else if \<not> ue_accept e then (gate, s, Inr (resp\<lparr>tu_Result := ResultErrorNotGranted\<rparr>))
         else (case TryAcquire gate of
           (gate, False) \<Rightarrow> (gate, s, Inr (resp\<lparr>tu_Result := ResultErrorNotGranted\<rparr>))
         | (gate, True) \<Rightarrow>
             if uq_YouAre req \<noteq> id_Hash (ue_identity e)
             then (gate_release gate, s, Inr (resp\<lparr>tu_Result := ResultWrongTarget\<rparr>))
             else if \<not> known (uq_Iam req)
             then (gate_release gate, s, Inr (resp\<lparr>tu_Result := ResultErrorNotGranted\<rparr>))
             else (case intake s (uq_URLs req) of
               (s, Inl err) \<Rightarrow> (gate_release gate, s, Inl err)
             | (s, Inr receipt) \<Rightarrow> (gate_release gate, s, Inr (resp\<lparr>
                 tu_Result := (if ur_Busy receipt then ResultErrorNotGranted else ResultOK),
                 tu_Double := int (ur_Double receipt), tu_ErrorURL := ur_ErrorURL receipt\<rparr>)))))"

section \<open>The handler of a wire request\<close>

text \<open>What the request guard makes of the bytes of a request is a parameter: the form, or the status
  it refuses the request with.\<close>

datatype http_answer = HttpOK string | HttpStatus nat

definition serve_wire ::
  "IntakeGate option \<Rightarrow> (nat, Values) result \<Rightarrow> (Values \<Rightarrow> ('p, 'q) result) \<Rightarrow>
     ('s \<Rightarrow> 'q \<Rightarrow> 's \<times> ('e, 'r) result) \<Rightarrow> ('r \<Rightarrow> Message) \<Rightarrow> ResponseHeader \<Rightarrow> 's \<Rightarrow> 's \<times> http_answer" where
  "serve_wire intake guarded parse serve encode header s = (case TryAcquire intake of
     (_, False) \<Rightarrow> (s, HttpStatus 503)
   | (_, True) \<Rightarrow> (case guarded of
       Inl status \<Rightarrow> (s, HttpStatus status)
     | Inr form \<Rightarrow> (case parse form of
         Inl _ \<Rightarrow> (s, HttpStatus 400)
       | Inr req \<Rightarrow> (case serve s req of
           (s, Inl _) \<Rightarrow> (s, HttpStatus 500)
         | (s, Inr resp) \<Rightarrow> (s, HttpOK (Message_Encode (response_message header (encode resp))))))))"

section \<open>The gate bounds the requests inside\<close>

lemma TryAcquire_release: "TryAcquire g = (g', True) \<Longrightarrow> gate_release g' = g"
  by (auto simp: TryAcquire_def gate_release_def split: option.splits if_splits)

definition gate_ok :: "IntakeGate option \<Rightarrow> bool" where
  "gate_ok g \<longleftrightarrow> (case g of None \<Rightarrow> True | Some gate \<Rightarrow> ig_taken gate \<le> ig_limit gate)"

lemma gate_ok_acquire: "gate_ok g \<Longrightarrow> gate_ok (fst (TryAcquire g))"
  by (auto simp: gate_ok_def TryAcquire_def split: option.splits)

lemma ServeTransferRWI_gate: "fst (ServeTransferRWI e known intake gate s req) = gate"
  using TryAcquire_release [of gate]
  by (auto simp: ServeTransferRWI_def TryAcquire_def split: prod.splits bool.splits option.splits if_splits)

section \<open>What an answer tells\<close>

lemma preflight_admits:
  assumes "preflight e req = (resp, True)"
  shows "te_accept e \<and> missingFieldResult req = None \<and> \<not> ExceedsEntryLimit req \<and>
    (te_batchCap e > 0 \<longrightarrow> int (length (tq_Indexes req)) \<le> te_batchCap e) \<and>
    Authenticates (te_identity e) (tq_NetworkName req) (tq_NetworkNamePresent req) (tq_Key req)
      (tq_Iam req) (tq_MagicMD5 req) \<and> resp = empty_rwi_response\<lparr>tr_Pause := transferRWIDefaultPause\<rparr>"
  using assms by (auto simp: preflight_def Let_def split: if_splits option.splits)

lemma preflight_refuses: "preflight e req = (resp, False) \<Longrightarrow> tr_Result resp \<noteq> ResultOK"
  by (auto simp: preflight_def missingFieldResult_def Let_def result_defs split: if_splits option.splits)

text \<open>An answer \<open>ok\<close> means that the intake took the postings and was not busy; any other answer leaves
  the store as the intake left it, or untouched.\<close>

lemma ServeTransferRWI_ok:
  assumes "ServeTransferRWI e known intake gate s req = (gate', s', Inr resp)" "tr_Result resp = ResultOK"
  shows "\<exists>receipt. intake s (tq_Indexes req) = (s', Inr receipt) \<and> \<not> rc_Busy receipt \<and>
    tr_UnknownURL resp = rc_UnknownURL receipt \<and> tr_ErrorURL resp = [] \<and> te_accept e \<and> known (tq_Iam req) \<and>
    tq_YouAre req = id_Hash (te_identity e) \<and> \<not> ExceedsEntryLimit req"
proof -
  obtain p a where p: "preflight e req = (p, a)" by (cases "preflight e req")
  have a using assms preflight_refuses [of e req p] p by (cases a) (auto simp: ServeTransferRWI_def)
  then have adm: "te_accept e" "\<not> ExceedsEntryLimit req" "tr_ErrorURL p = []"
    using preflight_admits [of e req p] p by (auto simp: empty_rwi_response_def)
  show ?thesis
    using assms p \<open>a\<close> adm
    by (auto simp: ServeTransferRWI_def receive_rwi_def result_defs
        split: prod.splits bool.splits if_splits sum.splits)
qed

lemma ServeTransferRWI_state:
  assumes "ServeTransferRWI e known intake gate s req = (gate', s', answer)"
  shows "s' = s \<or> (\<exists>x. intake s (tq_Indexes req) = (s', x))"
  using assms by (auto simp: ServeTransferRWI_def receive_rwi_def
      split: prod.splits bool.splits if_splits sum.splits)

lemma ServeTransferURL_ok:
  assumes "ServeTransferURL e known intake gate s req = (gate', s', Inr resp)" "tu_Result resp = ResultOK"
  shows "\<exists>receipt. intake s (uq_URLs req) = (s', Inr receipt) \<and> \<not> ur_Busy receipt \<and>
    tu_ErrorURL resp = ur_ErrorURL receipt"
  using assms by (auto simp: ServeTransferURL_def Let_def empty_url_response_def result_defs
      split: prod.splits bool.splits if_splits sum.splits)

lemma ServeTransferURL_state:
  assumes "ServeTransferURL e known intake gate s req = (gate', s', answer)"
  shows "s' = s \<or> (\<exists>x. intake s (uq_URLs req) = (s', x))"
  using assms by (auto simp: ServeTransferURL_def Let_def
      split: prod.splits bool.splits if_splits sum.splits)

end
