(* ===== verification/TransferDelivery.thy ===== *)
theory TransferDelivery
  imports TransferEndpoint ExchangeSafety
begin

text \<open>
  Both ends of an index transfer together: the writer of the sender
  (\<^verbatim>\<open>yagonode/internal/indextransfer/indextransfer.go\<close>) posts the form of a request to the endpoints of
  a peer, one after the other while the transport fails, and reads the answer; the receiver is a node
  that runs the handlers of \<^verbatim>\<open>TransferEndpoint\<close>. What the network makes of each attempt, and what
  happens inside the receiver apart from its handlers, are parameters of each request. The lemmas
  show that a posting whose handoff is accepted is in the receiver's index, together with the
  metadata row of its address.
\<close>

section \<open>The writer\<close>

definition transferMaxBodyBytes :: nat where "transferMaxBodyBytes = 256 * 1024"

datatype post_error = NoTarget | PostTransport | PostCut | PostStatus nat | PostTooLarge
  | PostBadResponse proto_error

text \<open>What becomes of one attempt: the peer is not reached, it is reached but its answer is lost, the
  body of the answer is cut, or the answer comes back.\<close>

datatype attempt = AttemptUnreached | AttemptAnswerLost | AttemptCut | AttemptAnswered

definition postTransferTo ::
  "('s \<Rightarrow> 's \<times> http_answer) \<Rightarrow> (Message \<Rightarrow> (proto_error, 'r) result) \<Rightarrow> attempt \<Rightarrow> 's \<Rightarrow>
     's \<times> (post_error, 'r) result" where
  "postTransferTo server parse attempt s = (case attempt of
     AttemptUnreached \<Rightarrow> (s, Inl PostTransport)
   | AttemptAnswerLost \<Rightarrow> (fst (server s), Inl PostTransport)
   | AttemptCut \<Rightarrow> (fst (server s), Inl PostCut)
   | AttemptAnswered \<Rightarrow> (case server s of
       (s, HttpStatus status) \<Rightarrow> (s, Inl (PostStatus status))
     | (s, HttpOK text) \<Rightarrow>
         if length text > transferMaxBodyBytes then (s, Inl PostTooLarge)
         else (s, map_sum PostBadResponse id (parse (ParseMessage text)))))"

text \<open>The attempts at the endpoints that are left, each with the flag whether the context of the
  operation is done after it. The zero response without an error is what no endpoint at all gives.\<close>

fun post_attempts ::
  "('s \<Rightarrow> 's \<times> http_answer) \<Rightarrow> (Message \<Rightarrow> (proto_error, 'r) result) \<Rightarrow> 'r \<Rightarrow> (attempt \<times> bool) list \<Rightarrow> 's \<Rightarrow>
     's \<times> 'r \<times> post_error option" where
  "post_attempts server parse zero [] s = (s, zero, None)"
| "post_attempts server parse zero ((attempt, ended) # rest) s =
     (case postTransferTo server parse attempt s of
        (s, Inr r) \<Rightarrow> (s, r, None)
      | (s, Inl e) \<Rightarrow>
          if e \<noteq> PostTransport \<or> ended \<or> rest = [] then (s, zero, Some e)
          else post_attempts server parse zero rest s)"

definition PathTransferRWI :: string where "PathTransferRWI = ''/yacy/transferRWI.html''"
definition PathTransferURL :: string where "PathTransferURL = ''/yacy/transferURL.html''"

record 'a HTTPPeerWriter =
  hw_networkName :: string
  hw_self :: "'a Seed"
  hw_preferHTTPS :: bool
  hw_access :: NetworkAccess

definition NewHTTPPeerWriter ::
  "string \<Rightarrow> 'a Seed \<Rightarrow> bool \<Rightarrow> NetworkAccess option \<Rightarrow> 'a HTTPPeerWriter" where
  "NewHTTPPeerWriter networkName self preferHTTPS access =
     \<lparr>hw_networkName = networkName, hw_self = self, hw_preferHTTPS = preferHTTPS,
      hw_access = (case access of
        None \<Rightarrow> \<lparr>na_NetworkName = networkName, na_Mode = [], na_Essentials = [], na_Self = sd_Hash self\<rparr>
      | Some a \<Rightarrow> a\<lparr>na_Self := sd_Hash self\<rparr>)\<rparr>"

definition writer_sign :: "'a HTTPPeerWriter \<Rightarrow> string option \<Rightarrow> Values \<Rightarrow> Values option" where
  "writer_sign w salt form =
     (if na_Mode (hw_access w) \<noteq> NetworkAuthenticationSaltedMagic then Some form
      else Sign (hw_access w) salt form)"

definition wordCount :: "RWIPosting list \<Rightarrow> nat" where
  "wordCount postings = length (remdups (map RWI_WordHash postings))"

text \<open>What the network does to one call: the salt of the signature, and the attempts by position.\<close>

record network_call =
  nc_salt :: "string option"
  nc_attempt :: "nat \<Rightarrow> attempt \<times> bool"

definition postTransfer ::
  "'a seed_lib \<Rightarrow> network_call \<Rightarrow> 'a HTTPPeerWriter \<Rightarrow> 'a Seed \<Rightarrow> string \<Rightarrow> (Message \<Rightarrow> (proto_error, 'r) result) \<Rightarrow>
     'r \<Rightarrow> ('s \<Rightarrow> 's \<times> http_answer) \<Rightarrow> 's \<Rightarrow> 's \<times> 'r \<times> post_error option" where
  "postTransfer lib call w peer path parse zero server s =
     (case ProtocolEndpoints lib peer path (hw_preferHTTPS w) of
        None \<Rightarrow> (s, zero, Some NoTarget)
      | Some targets \<Rightarrow> post_attempts server parse zero (map (nc_attempt call) [0..<length targets]) s)"

text \<open>\<^verbatim>\<open>errors.Is(err, ErrBadField)\<close> of the error of a call.\<close>

definition transfer_failure_of :: "post_error option \<Rightarrow> transfer_failure option" where
  "transfer_failure_of e = (case e of
     None \<Rightarrow> None
   | Some (PostBadResponse (ErrBadField key raw)) \<Rightarrow> Some BadField
   | Some _ \<Rightarrow> Some TransportFailed)"

definition rwi_request :: "'a HTTPPeerWriter \<Rightarrow> 'a Seed \<Rightarrow> RWIPosting list \<Rightarrow> TransferRWIRequest" where
  "rwi_request w peer postings = \<lparr>tq_NetworkName = hw_networkName w, tq_NetworkNamePresent = False,
     tq_Iam = sd_Hash (hw_self w), tq_YouAre = sd_Hash peer, tq_WordCount = int (wordCount postings),
     tq_EntryCount = int (length postings), tq_Indexes = postings, tq_Key = [], tq_MagicMD5 = [],
     tq_wordCountPresent = False, tq_entryCountPresent = False, tq_indexesPresent = False,
     tq_indexesOverflow = False\<rparr>"

definition url_request :: "'a HTTPPeerWriter \<Rightarrow> 'a Seed \<Rightarrow> URIMetadataRow list \<Rightarrow> TransferURLRequest" where
  "url_request w peer rows = \<lparr>uq_NetworkName = hw_networkName w, uq_NetworkNamePresent = False,
     uq_Iam = sd_Hash (hw_self w), uq_YouAre = sd_Hash peer, uq_URLCount = int (length rows),
     uq_URLs = rows, uq_Key = [], uq_MagicMD5 = []\<rparr>"

definition TransferRWI ::
  "'a seed_lib \<Rightarrow> network_call \<Rightarrow> 'a HTTPPeerWriter \<Rightarrow> (Values \<Rightarrow> 's \<Rightarrow> 's \<times> http_answer) \<Rightarrow> 's \<Rightarrow>
     'a Seed \<Rightarrow> RWIPosting list \<Rightarrow> 's \<times> TransferRWIResponse \<times> transfer_failure option" where
  "TransferRWI lib call w server s peer postings =
     (if postings = []
      then (s, empty_rwi_response\<lparr>tr_Result := ResultOK, tr_UnknownURLFieldPresent := True\<rparr>, None)
      else (case writer_sign w (nc_salt call) (TransferRWIRequest_Form (rwi_request w peer postings)) of
        None \<Rightarrow> (s, empty_rwi_response, Some TransportFailed)
      | Some form \<Rightarrow>
          (case postTransfer lib call w peer PathTransferRWI ParseTransferRWIResponse empty_rwi_response
             (server form) s of (s, resp, err) \<Rightarrow> (s, resp, transfer_failure_of err))))"

definition TransferURL ::
  "'a seed_lib \<Rightarrow> network_call \<Rightarrow> 'a HTTPPeerWriter \<Rightarrow> (Values \<Rightarrow> 's \<Rightarrow> 's \<times> http_answer) \<Rightarrow> 's \<Rightarrow>
     'a Seed \<Rightarrow> URIMetadataRow list \<Rightarrow> 's \<times> TransferURLResponse \<times> transfer_failure option" where
  "TransferURL lib call w server s peer rows =
     (case writer_sign w (nc_salt call) (TransferURLRequest_Form (url_request w peer rows)) of
        None \<Rightarrow> (s, empty_url_response, Some TransportFailed)
      | Some form \<Rightarrow>
          (case postTransfer lib call w peer PathTransferURL ParseTransferURLResponse empty_url_response
             (server form) s of (s, resp, err) \<Rightarrow> (s, resp, transfer_failure_of err)))"

section \<open>The receiver\<close>

text \<open>The stores of the receiver with the count of the requests it has served, and what is different
  for each request: the form that the guard admits or its status, the gates, the vaults, the roster,
  the header of the answer.\<close>

record receiver =
  rv_postings :: posting_vault
  rv_urls :: url_vault
  rv_requests :: nat

record request_env =
  re_intake :: "IntakeGate option"
  re_refused :: "nat option"
  re_gate :: "IntakeGate option"
  re_known :: "Hash \<Rightarrow> bool"
  re_capacity :: capacity_answer
  re_outcome :: txn_outcome
  re_refuses :: "Hash \<Rightarrow> bool"
  re_readable :: bool
  re_cancelled :: "nat \<Rightarrow> bool"
  re_header :: ResponseHeader

record receiver_config =
  rg_rwi :: transferRWIEndpoint
  rg_url :: transferURLEndpoint
  rg_codec :: row_codec
  rg_env :: "nat \<Rightarrow> request_env"

definition receive_postings ::
  "receiver_config \<Rightarrow> request_env \<Rightarrow> receiver \<Rightarrow> RWIPosting list \<Rightarrow> receiver \<times> (store_error, Receipt) result" where
  "receive_postings cfg env r entries =
     (case Receive (te_pauseMilliseconds (rg_rwi cfg))
         (\<lambda>hashes. case MissingURLs (rg_codec cfg) (re_readable env) (rv_urls r) hashes of
            Inl _ \<Rightarrow> None | Inr missing \<Rightarrow> Some missing)
         (re_capacity env) (re_outcome env) (rv_postings r) entries of
       (v, x) \<Rightarrow> (r\<lparr>rv_postings := v\<rparr>, x))"

definition receive_rows ::
  "receiver_config \<Rightarrow> request_env \<Rightarrow> receiver \<Rightarrow> URIMetadataRow list \<Rightarrow>
     receiver \<times> (url_store_error, URLReceipt) result" where
  "receive_rows cfg env r rows =
     (case ReceiveURLs (rg_codec cfg) (re_capacity env) (re_outcome env) (re_refuses env) (rv_urls r) rows of
       (v, x) \<Rightarrow> (r\<lparr>rv_urls := v\<rparr>, x))"

definition guarded_form :: "request_env \<Rightarrow> Values \<Rightarrow> (nat, Values) result" where
  "guarded_form env form = (case re_refused env of Some status \<Rightarrow> Inl status | None \<Rightarrow> Inr form)"

definition rwi_server :: "receiver_config \<Rightarrow> Values \<Rightarrow> receiver \<Rightarrow> receiver \<times> http_answer" where
  "rwi_server cfg form r =
     (let env = rg_env cfg (rv_requests r);
          r = r\<lparr>rv_requests := rv_requests r + 1\<rparr>
      in serve_wire (re_intake env) (guarded_form env form) ParseTransferRWIRequest
           (\<lambda>r req. snd (ServeTransferRWI (rg_rwi cfg) (re_known env) (receive_postings cfg env) (re_gate env) r req))
           TransferRWIResponse_Encode (re_header env) r)"

definition url_server :: "receiver_config \<Rightarrow> Values \<Rightarrow> receiver \<Rightarrow> receiver \<times> http_answer" where
  "url_server cfg form r =
     (let env = rg_env cfg (rv_requests r);
          r = r\<lparr>rv_requests := rv_requests r + 1\<rparr>
      in serve_wire (re_intake env) (guarded_form env form) (ParseTransferURLRequest (re_cancelled env))
           (\<lambda>r req. snd (ServeTransferURL (rg_url cfg) (re_known env) (receive_rows cfg env) (re_gate env) r req))
           TransferURLResponse_Encode (re_header env) r)"

section \<open>A handoff to the receiver\<close>

text \<open>The writer as the handoff sees it: it calls the receiver for the postings first and then, in the
  state that this left, for the rows.\<close>

record handoff_network =
  hn_rwi :: network_call
  hn_url :: network_call

definition rwi_call ::
  "'a seed_lib \<Rightarrow> handoff_network \<Rightarrow> 'a HTTPPeerWriter \<Rightarrow> receiver_config \<Rightarrow> receiver \<Rightarrow> 'a Seed \<Rightarrow>
     RWIPosting list \<Rightarrow> receiver \<times> TransferRWIResponse \<times> transfer_failure option" where
  "rwi_call lib net w cfg r peer postings = TransferRWI lib (hn_rwi net) w (rwi_server cfg) r peer postings"

definition url_call ::
  "'a seed_lib \<Rightarrow> handoff_network \<Rightarrow> 'a HTTPPeerWriter \<Rightarrow> receiver_config \<Rightarrow> receiver \<Rightarrow> 'a Seed \<Rightarrow>
     URIMetadataRow list \<Rightarrow> receiver \<times> TransferURLResponse \<times> transfer_failure option" where
  "url_call lib net w cfg r peer rows = TransferURL lib (hn_url net) w (url_server cfg) r peer rows"

definition network_writer ::
  "'a seed_lib \<Rightarrow> handoff_network \<Rightarrow> 'a HTTPPeerWriter \<Rightarrow> receiver_config \<Rightarrow> receiver \<Rightarrow>
     RWIPosting list \<Rightarrow> 'a PeerWriter" where
  "network_writer lib net w cfg r postings = \<lparr>
     pw_TransferRWI = (\<lambda>peer ps. snd (rwi_call lib net w cfg r peer ps)),
     pw_TransferURL = (\<lambda>peer rows. snd (url_call lib net w cfg (fst (rwi_call lib net w cfg r peer postings)) peer rows))\<rparr>"

text \<open>The receiver after a handoff: whether the second call was made is told by the receipt.\<close>

definition after_handoff ::
  "'a seed_lib \<Rightarrow> handoff_network \<Rightarrow> 'a HTTPPeerWriter \<Rightarrow> receiver_config \<Rightarrow> receiver \<Rightarrow> 'a Seed \<Rightarrow>
     RWIPosting list \<Rightarrow> (Hash list \<Rightarrow> URIMetadataRow list option) \<Rightarrow> receiver" where
  "after_handoff lib net w cfg r peer postings rowsByHash =
     (case rwi_call lib net w cfg r peer postings of (r1, rwi, failure) \<Rightarrow>
        let unknown = rejected_without (tr_ErrorURL rwi) (tr_UnknownURL rwi)
        in if failure \<noteq> None \<or> tr_Result rwi \<noteq> ResultOK \<or> \<not> tr_UnknownURLFieldPresent rwi \<or> unknown = [] then r1
           else (case rowsByHash unknown of
             None \<Rightarrow> r1
           | Some rows \<Rightarrow> fst (url_call lib net w cfg r1 peer rows)))"


section \<open>What comes back\<close>

lemma post_attempts_answer:
  assumes "post_attempts server parse zero attempts s = (s', r, None)" "attempts \<noteq> []"
    and "\<And>s. P s \<Longrightarrow> P (fst (server s))" "P s"
  shows "\<exists>s1 text. P s1 \<and> server s1 = (s', HttpOK text) \<and> parse (ParseMessage text) = Inr r"
  using assms(1,2,4)
proof (induction attempts arbitrary: s)
  case (Cons a rest)
  obtain attempt ended where a: "a = (attempt, ended)" by (cases a)
  obtain s1 x where p: "postTransferTo server parse attempt s = (s1, x)"
    by (cases "postTransferTo server parse attempt s")
  show ?case
  proof (cases x)
    case (Inl e)
    then have rest: "rest \<noteq> []" "post_attempts server parse zero rest s1 = (s', r, None)" "e = PostTransport"
      using Cons.prems(1) a p by (auto split: if_splits)
    have "P s1" using p Inl rest(3) Cons.prems(3) assms(3) [of s]
      by (cases attempt) (auto simp: postTransferTo_def split: prod.splits http_answer.splits if_splits)
    then show ?thesis by (rule Cons.IH [OF rest(2,1)])
  next
    case (Inr r')
    then have e: "s1 = s'" "r' = r" using Cons.prems(1) a p by auto
    have "attempt = AttemptAnswered" using p Inr by (cases attempt) (simp_all add: postTransferTo_def)
    then obtain body where "server s = (s', HttpOK body)" "parse (ParseMessage body) = Inr r"
      using p Inr e by (auto simp: postTransferTo_def map_sum_eq_Inr
          split: prod.splits http_answer.splits if_splits)
    then show ?thesis using Cons.prems(3) by blast
  qed
qed simp

lemma post_attempts_keeps:
  assumes "\<And>s. P s \<Longrightarrow> P (fst (server s))" "P s"
  shows "P (fst (post_attempts server parse zero attempts s))"
  using assms(2)
proof (induction attempts arbitrary: s)
  case (Cons a rest)
  obtain attempt ended where a: "a = (attempt, ended)" by (cases a)
  obtain s1 x where p: "postTransferTo server parse attempt s = (s1, x)"
    by (cases "postTransferTo server parse attempt s")
  have "fst (postTransferTo server parse attempt s) = s \<or>
      fst (postTransferTo server parse attempt s) = fst (server s)"
    by (auto simp: postTransferTo_def split: attempt.splits prod.splits http_answer.splits)
  then have "P s1" using p Cons.prems assms(1) [of s] by auto
  then show ?case using Cons.IH [of s1] a p by (auto split: sum.splits)
qed simp

lemma host_endpoints_nonempty: "host_endpoints lib path plain secure host \<noteq> []"
  by (simp add: host_endpoints_def)

lemma ProtocolEndpoints_nonempty: "ProtocolEndpoints lib peer path prefer = Some targets \<Longrightarrow> targets \<noteq> []"
  by (cases "AdvertisedHosts lib peer")
    (auto simp: ProtocolEndpoints_def Let_def host_endpoints_nonempty split: option.splits)

lemma transfer_failure_None [simp]: "transfer_failure_of e = None \<longleftrightarrow> e = None"
  by (auto simp: transfer_failure_of_def split: option.splits post_error.splits proto_error.splits)

lemma postTransfer_answer:
  assumes "postTransfer lib call w peer path parse zero server s = (s', r, None)"
    and "\<And>s. P s \<Longrightarrow> P (fst (server s))" "P s"
  shows "\<exists>s1 text. P s1 \<and> server s1 = (s', HttpOK text) \<and> parse (ParseMessage text) = Inr r"
proof -
  obtain targets where t: "ProtocolEndpoints lib peer path (hw_preferHTTPS w) = Some targets"
    "post_attempts server parse zero (map (nc_attempt call) [0..<length targets]) s = (s', r, None)"
    using assms(1) by (auto simp: postTransfer_def split: option.splits)
  have "map (nc_attempt call) [0..<length targets] \<noteq> []" using ProtocolEndpoints_nonempty [OF t(1)] by simp
  from post_attempts_answer [OF t(2) this assms(2,3)] show ?thesis .
qed

lemma postTransfer_keeps:
  assumes "\<And>s. P s \<Longrightarrow> P (fst (server s))" "P s"
  shows "P (fst (postTransfer lib call w peer path parse zero server s))"
proof (cases "ProtocolEndpoints lib peer path (hw_preferHTTPS w)")
  case None
  then show ?thesis using assms(2) by (simp add: postTransfer_def)
next
  case (Some targets)
  then show ?thesis using post_attempts_keeps [of P server, OF assms] by (simp add: postTransfer_def)
qed

lemma serve_wire_cases:
  obtains status where "serve_wire intake guarded parse serve encode header s = (s, HttpStatus status)"
  | form req s1 e where "guarded = Inr form" "parse form = Inr req" "serve s req = (s1, Inl e)"
      "serve_wire intake guarded parse serve encode header s = (s1, HttpStatus 500)"
  | form req s1 resp where "guarded = Inr form" "parse form = Inr req" "serve s req = (s1, Inr resp)"
      "serve_wire intake guarded parse serve encode header s =
         (s1, HttpOK (Message_Encode (response_message header (encode resp))))"
proof -
  let ?W = "serve_wire intake guarded parse serve encode header s"
  obtain g a where t: "TryAcquire intake = (g, a)" by (cases "TryAcquire intake")
  show thesis
  proof (cases a)
    case False
    then have "?W = (s, HttpStatus 503)" using t by (simp add: serve_wire_def)
    then show thesis by (rule that(1))
  next
    case True
    show thesis
    proof (cases guarded)
      case (Inl status)
      then have "?W = (s, HttpStatus status)" using t True by (simp add: serve_wire_def)
      then show thesis by (rule that(1))
    next
      case g: (Inr form)
      show thesis
      proof (cases "parse form")
        case (Inl e)
        then have "?W = (s, HttpStatus 400)" using t True g by (simp add: serve_wire_def)
        then show thesis by (rule that(1))
      next
        case p: (Inr req)
        obtain s1 x where x: "serve s req = (s1, x)" by (cases "serve s req")
        show thesis
        proof (cases x)
          case (Inl e)
          then have "?W = (s1, HttpStatus 500)" using t True g p x by (simp add: serve_wire_def)
          then show thesis using that(2) [OF g p x [unfolded Inl]] by simp
        next
          case (Inr resp)
          then have "?W = (s1, HttpOK (Message_Encode (response_message header (encode resp))))"
            using t True g p x by (simp add: serve_wire_def)
          then show thesis using that(3) [OF g p x [unfolded Inr]] by simp
        qed
      qed
    qed
  qed
qed

section \<open>Answers on the wire\<close>

definition header_fits :: "ResponseHeader \<Rightarrow> bool" where
  "header_fits h \<longleftrightarrow> message_value (rh_Version h) \<and> int64 (rh_Uptime h)"

lemma message_value_chars:
  assumes "\<forall>c\<in>set s. graphic c \<and> c \<noteq> CHR 0x5C \<and> c \<noteq> CHR 0x0A"
  shows "message_value s"
proof -
  have "list_all graphic s" using assms unfolding list_all_iff by blast
  then have "trimmed s" by (rule trimmed_graphic)
  moreover have "CHR 0x5C \<notin> set s" "CHR 0x0A \<notin> set s" using assms by blast+
  ultimately show ?thesis unfolding message_value_def by blast
qed

lemma message_value_number: "message_value (format_int n)"
proof (rule message_value_chars, rule ballI)
  fix c assume "c \<in> set (format_int n)"
  then have "c = CHR ''-'' \<or> is_digit c"
    using format_uint_digits [of "nat n"] format_uint_digits [of "nat (- n)"]
    unfolding format_int_def list_all_iff by (auto split: if_split_asm)
  then show "graphic c \<and> c \<noteq> CHR 0x5C \<and> c \<noteq> CHR 0x0A"
    by (auto simp: is_digit_def graphic_def)
qed

lemma Alphabet_graphic: "c \<in> set Alphabet \<Longrightarrow> graphic c \<and> c \<noteq> CHR 0x5C \<and> c \<noteq> CHR 0x0A"
proof -
  have "list_all (\<lambda>c. graphic c \<and> c \<noteq> CHR 0x5C \<and> c \<noteq> CHR 0x0A) Alphabet"
    by (simp add: Alphabet_def graphic_def)
  then show "c \<in> set Alphabet \<Longrightarrow> graphic c \<and> c \<noteq> CHR 0x5C \<and> c \<noteq> CHR 0x0A"
    unfolding list_all_iff by blast
qed

lemma message_value_hashes:
  assumes "list_all Hash_Valid hs"
  shows "message_value (joinHashes hs)"
proof (rule message_value_chars, rule ballI)
  fix c assume c: "c \<in> set (joinHashes hs)"
  have "set h \<subseteq> set Alphabet" if "h \<in> set hs" for h
    using assms that unfolding list_all_iff Hash_Valid_iff by blast
  then have "c = CHR '','' \<or> c \<in> set Alphabet"
    using c set_join_with [of "'',''" hs] unfolding joinHashes_def by auto
  then show "graphic c \<and> c \<noteq> CHR 0x5C \<and> c \<noteq> CHR 0x0A"
    using Alphabet_graphic by (auto simp: graphic_def)
qed

lemma plain_update:
  assumes "plain_message m" "message_key k" "message_value v"
  shows "plain_message (AList.update k v m)"
proof -
  have "(k', v') \<in> set (AList.update k v m) \<Longrightarrow> k' = k \<and> v' = v \<or> (k', v') \<in> set m" for k' v'
    using assms(1) map_of_update [of k v m]
    by (metis fun_upd_apply map_of_SomeD option.inject plain_message_def wf_map_SomeI wf_map_update)
  moreover have "message_key a \<and> message_value b" if "(a, b) \<in> set m" for a b
    using assms(1) that unfolding plain_message_def list_all_iff by blast
  ultimately have "message_key a \<and> message_value b" if "(a, b) \<in> set (AList.update k v m)" for a b
    using that assms(2,3) by blast
  moreover have "wf_map m" using assms(1) unfolding plain_message_def by blast
  ultimately show ?thesis unfolding plain_message_def list_all_iff by auto
qed

lemma plain_setString: "plain_message m \<Longrightarrow> message_key k \<Longrightarrow> message_value v \<Longrightarrow> plain_message (setString k v m)"
  by (simp add: setString_def plain_update)

lemma plain_setInt: "plain_message m \<Longrightarrow> message_key k \<Longrightarrow> plain_message (setInt k n m)"
  by (simp add: setInt_def plain_update message_value_number)

lemma field_keys: "list_all message_key [FieldUptime, FieldVersion, FieldResult, FieldPause, FieldUnknownURL,
    FieldErrorURL, FieldDouble]"
  by (simp add: common_fields transfer_fields message_key_def trimmed_graphic graphic_def)

lemma result_values: "list_all message_value ([] # ResultErrorNotGranted # rwi_results)"
proof -
  have "list_all (\<lambda>s. \<forall>c\<in>set s. graphic c \<or> c = CHR '' '') rwi_results" 
    by (simp add: rwi_results_def result_defs graphic_def)
  have t: "trimmed ''too high load''" "trimmed ''post or env is null!''" "trimmed ''not authentified''"
    "trimmed ''missing wordc''" "trimmed ''missing entryc''" "trimmed ''missing indexes''"
    by (simp_all add: trimmed_def white_space_def has_prefix_def has_suffix_def)
  then show ?thesis
    by (simp add: rwi_results_def result_defs message_value_def trimmed_graphic graphic_def)
qed

lemma plain_response_message:
  "header_fits h \<Longrightarrow> plain_message m \<Longrightarrow> plain_message (response_message h m)"
  using field_keys
  by (simp add: response_message_def InjectResponseHeader_def header_fits_def plain_setInt plain_setString)

lemma plain_message_Nil: "plain_message []"
  by (simp add: plain_message_def)

lemma plain_rwi_message:
  assumes "tr_Result r \<in> set rwi_results" "list_all Hash_Valid (tr_UnknownURL r)" "list_all Hash_Valid (tr_ErrorURL r)"
  shows "plain_message (TransferRWIResponse_Encode r)"
proof -
  have "message_value (tr_Result r)" using result_values assms(1) by (auto simp: list_all_iff)
  then show ?thesis using field_keys assms(2,3)
    by (simp add: TransferRWIResponse_Encode_def Let_def plain_update plain_setInt plain_setString
        message_value_hashes plain_message_Nil)
qed

lemma plain_url_message:
  assumes "tu_Result r \<in> {[], ResultOK, ResultWrongTarget, ResultErrorNotGranted}" "list_all Hash_Valid (tu_ErrorURL r)"
  shows "plain_message (TransferURLResponse_Encode r)"
proof -
  have "message_value (tu_Result r)" using result_values assms(1) by (auto simp: rwi_results_def)
  then show ?thesis using field_keys assms(2)
    by (simp add: TransferURLResponse_Encode_def Let_def plain_setInt plain_setString
        message_value_hashes plain_message_Nil)
qed

lemma ParseTransferRWIResponse_cong:
  assumes "map_of m = map_of m'"
  shows "ParseTransferRWIResponse m = ParseTransferRWIResponse m'"
  unfolding ParseTransferRWIResponse_def message_get_cong [OF assms] parseResponseHeader_cong [OF assms] assms ..

lemma ParseTransferURLResponse_cong:
  assumes "map_of m = map_of m'"
  shows "ParseTransferURLResponse m = ParseTransferURLResponse m'"
  unfolding ParseTransferURLResponse_def message_get_cong [OF assms] parseResponseHeader_cong [OF assms] ..

lemma rwi_answer_read:
  assumes "header_fits h" "tr_Result r \<in> set rwi_results" "int64 (tr_Pause r)"
    "list_all Hash_Valid (tr_UnknownURL r)" "list_all Hash_Valid (tr_ErrorURL r)"
  shows "ParseTransferRWIResponse (ParseMessage (Message_Encode (response_message h (TransferRWIResponse_Encode r)))) =
    Inr (r\<lparr>tr_Header := h, tr_UnknownURLFieldPresent := True\<rparr>)"
proof -
  let ?r = "r\<lparr>tr_Header := h\<rparr>" and ?m = "response_message h (TransferRWIResponse_Encode r)"
  have "plain_message ?m" by (rule plain_response_message [OF assms(1) plain_rwi_message [OF assms(2,4,5)]])
  then have read: "ParseTransferRWIResponse (ParseMessage (Message_Encode ?m)) = ParseTransferRWIResponse ?m"
    by (intro ParseTransferRWIResponse_cong ParseMessage_Encode)
  have m: "?m = response_message (tr_Header ?r) (TransferRWIResponse_Encode ?r)"
    by (simp add: TransferRWIResponse_Encode_def)
  have "ParseTransferRWIResponse (response_message (tr_Header ?r) (TransferRWIResponse_Encode ?r)) = Inr (?r\<lparr>tr_UnknownURLFieldPresent := True\<rparr>)"
    using assms by (intro rwi_response_received) (simp add: rwi_response_fits_def header_fits_def)
  then show ?thesis unfolding read unfolding m .
qed

lemma url_answer_read:
  assumes "header_fits h" "tu_Result r \<in> {[], ResultOK, ResultWrongTarget, ResultErrorNotGranted}" "int64 (tu_Double r)"
    "list_all Hash_Valid (tu_ErrorURL r)"
  shows "ParseTransferURLResponse (ParseMessage (Message_Encode (response_message h (TransferURLResponse_Encode r)))) =
    Inr (r\<lparr>tu_Header := h\<rparr>)"
proof -
  let ?r = "r\<lparr>tu_Header := h\<rparr>" and ?m = "response_message h (TransferURLResponse_Encode r)"
  have "plain_message ?m" by (rule plain_response_message [OF assms(1) plain_url_message [OF assms(2,4)]])
  then have read: "ParseTransferURLResponse (ParseMessage (Message_Encode ?m)) = ParseTransferURLResponse ?m"
    by (intro ParseTransferURLResponse_cong ParseMessage_Encode)
  have m: "?m = response_message (tu_Header ?r) (TransferURLResponse_Encode ?r)"
    by (simp add: TransferURLResponse_Encode_def)
  have "ParseTransferURLResponse (response_message (tu_Header ?r) (TransferURLResponse_Encode ?r)) = Inr ?r"
    using assms by (intro url_response_received) (simp add: url_response_fits_def header_fits_def)
  then show ?thesis unfolding read unfolding m .
qed

section \<open>What an intake stores\<close>

definition entry_key :: "RWIPosting \<Rightarrow> string \<Rightarrow> bool" where
  "entry_key e k \<longleftrightarrow> (\<exists>url. RWIPosting_URLHash e = Inr url \<and> k = postingKey (RWI_WordHash e) url)"

lemma list_all2_left: "list_all2 P xs ys \<Longrightarrow> x \<in> set xs \<Longrightarrow> \<exists>y\<in>set ys. P x y"
  by (induction rule: list_all2_induct) auto

text \<open>The last element of a list with a property.\<close>

fun last_such :: "('a \<Rightarrow> bool) \<Rightarrow> 'a list \<Rightarrow> 'a option" where
  "last_such P [] = None"
| "last_such P (x # xs) =
     (case last_such P xs of None \<Rightarrow> if P x then Some x else None | Some y \<Rightarrow> Some y)"

lemma last_such_None: "last_such P xs = None \<longleftrightarrow> (\<forall>x\<in>set xs. \<not> P x)"
  by (induction xs) (auto split: option.split)

lemma last_such_Some: "last_such P xs = Some y \<Longrightarrow> y \<in> set xs \<and> P y"
  by (induction xs) (auto split: option.splits if_splits)

lemma last_such_cong: "(\<And>x. x \<in> set xs \<Longrightarrow> P x = Q x) \<Longrightarrow> last_such P xs = last_such Q xs"
  by (induction xs) (auto split: option.split)

lemma last_such_all2:
  "list_all2 R xs ys \<Longrightarrow> (\<And>x y. x \<in> set xs \<Longrightarrow> R x y \<Longrightarrow> P x = Q y) \<Longrightarrow> last_such Q ys = Some y \<Longrightarrow>
     \<exists>x. last_such P xs = Some x \<and> R x y"
proof (induction xs ys rule: list_all2_induct)
  case (Cons x xs z ys)
  show ?case
  proof (cases "last_such Q ys")
    case None
    then have "last_such P xs = None"
      using Cons.hyps(2) Cons.prems(1) by (auto simp: last_such_None dest: list_all2_left)
    then show ?thesis using None Cons.prems(1) [of x z] Cons.prems(2) Cons.hyps(1) by (auto split: if_splits)
  next
    case (Some z')
    then show ?thesis using Cons.IH Cons.prems by auto
  qed
qed simp

lemma store_each_stored:
  "each_posting store_entry (v, urls) entries = Inr (w, referenced) \<Longrightarrow>
     (\<forall>k e. last_such (\<lambda>e. entry_key e k) entries = Some e \<longrightarrow> live w k = Some (encodeStoredPosting e)) \<and>
     (\<forall>k. \<not> (\<exists>e\<in>set entries. entry_key e k) \<longrightarrow> live w k = live v k) \<and>
     set referenced = set urls \<union> {url. \<exists>e\<in>set entries. RWIPosting_URLHash e = Inr url} \<and>
     (\<forall>e\<in>set entries. \<exists>url. RWIPosting_URLHash e = Inr url)"
proof (induction entries arbitrary: v urls)
  case (Cons e entries)
  obtain url where url: "RWIPosting_URLHash e = Inr url"
    using Cons.prems by (auto simp: store_entry_def split: sum.splits)
  let ?k = "postingKey (RWI_WordHash e) url"
  let ?v1 = "put_posting ?k e v"
  have f: "store_entry (v, urls) e = Inr (?v1, urls @ [url])" using url by (simp add: store_entry_def)
  have r: "each_posting store_entry (?v1, urls @ [url]) entries = Inr (w, referenced)"
    using Cons.prems f by simp
  note ih = Cons.IH [OF r]
  have k: "entry_key e k \<longleftrightarrow> k = ?k" for k using url by (auto simp: entry_key_def)
  have l: "live ?v1 k = (if k = ?k then Some (encodeStoredPosting e) else live v k)" for k
    by (simp add: put_posting_def update_conv')
  have a: "live w k = Some (encodeStoredPosting x)"
    if x: "last_such (\<lambda>e. entry_key e k) (e # entries) = Some x" for k x
  proof (cases "last_such (\<lambda>e. entry_key e k) entries")
    case (Some y)
    then show ?thesis using ih x by auto
  next
    case None
    then have "x = e" "k = ?k" using x k by (auto split: if_splits)
    moreover have "live w k = live ?v1 k" using None ih by (auto simp: last_such_None)
    ultimately show ?thesis using l by simp
  qed
  have b: "live w k = live v k" if "\<not> (\<exists>e'\<in>set (e # entries). entry_key e' k)" for k
    using that k l ih by auto
  have c: "set referenced = set urls \<union> {u. \<exists>e'\<in>set (e # entries). RWIPosting_URLHash e' = Inr u}"
    using ih url by auto
  show ?case using a b c ih url by auto
qed auto

lemma storeEntries_Inr:
  "storeEntries outcome v entries = (w, Inr referenced) \<Longrightarrow> each_posting store_entry (v, []) entries = Inr (w, referenced)"
  unfolding storeEntries_def by (erule vault_update_cases) auto

lemma Receive_cases:
  assumes "Receive pause missing capacity outcome v entries = (w, Inr receipt)"
  obtains "rc_UnknownURL receipt = []" "rc_Busy receipt" "rc_Pause receipt = pause"
  | "entries = []" "rc_UnknownURL receipt = []" "rc_Pause receipt = 0"
  | referenced where "storeEntries outcome v entries = (w, Inr referenced)"
      "missing referenced = Some (rc_UnknownURL receipt)" "rc_Pause receipt = 0"
proof (cases "entries = []")
  case True
  then show thesis using that(2) assms by (auto simp: Receive_def)
next
  case False
  show thesis
  proof (cases "capacity = AtCapacity False")
    case c: True
    obtain w1 x where s: "storeEntries outcome v entries = (w1, x)" by (cases "storeEntries outcome v entries")
    show thesis
    proof (cases x)
      case (Inl e)
      then have "e = StorageFailed True" "receipt = busyReceipt pause"
        using assms False c s by (auto simp: Receive_def storageAtCapacity_def
            split: store_error.splits bool.splits if_split_asm)
      then show thesis using that(1) by (simp add: busyReceipt_def)
    next
      case (Inr referenced)
      then show thesis using that(3) [of referenced] assms False c s
        by (auto simp: Receive_def storageAtCapacity_def split: option.splits)
    qed
  next
    case c: False
    then have "receipt = busyReceipt pause" using assms False
      by (auto simp: Receive_def storageAtCapacity_def split: capacity_answer.splits bool.splits)
    then show thesis using that(1) by (simp add: busyReceipt_def)
  qed
qed


section \<open>The answer \<open>ok\<close> to postings\<close>

definition receiver_ok :: "receiver_config \<Rightarrow> bool" where
  "receiver_ok cfg \<longleftrightarrow> flate_inverse (rg_codec cfg) \<and> int64 (te_pauseMilliseconds (rg_rwi cfg)) \<and>
     (\<forall>n. header_fits (re_header (rg_env cfg n)))"

definition rwi_answer_fits :: "TransferRWIResponse \<Rightarrow> bool" where
  "rwi_answer_fits r \<longleftrightarrow> tr_Result r \<in> set rwi_results \<and> int64 (tr_Pause r) \<and>
     list_all Hash_Valid (tr_UnknownURL r) \<and> list_all Hash_Valid (tr_ErrorURL r)"

lemma preflight_fits:
  assumes "preflight e req = (resp, a)" "int64 (te_pauseMilliseconds e)"
  shows "int64 (tr_Pause resp) \<and> tr_UnknownURL resp = [] \<and> tr_ErrorURL resp = [] \<and>
    (a \<or> tr_Result resp \<in> set rwi_results)"
  using assms
  by (auto simp: preflight_def missingFieldResult_def Let_def empty_rwi_response_def rwi_results_def
      transferRWIDefaultPause_def int64_def split: if_splits option.splits)

lemma receive_rwi_fits:
  assumes "receive_rwi intake s req resp = (s', Inr resp')" "tr_ErrorURL resp = []"
    and "\<And>s' receipt. intake s (tq_Indexes req) = (s', Inr receipt) \<Longrightarrow>
      int64 (rc_Pause receipt) \<and> list_all Hash_Valid (rc_UnknownURL receipt)"
  shows "rwi_answer_fits resp'"
  using assms by (auto simp: receive_rwi_def rwi_answer_fits_def rwi_results_def split: prod.splits sum.splits)

lemma ServeTransferRWI_fits:
  assumes "ServeTransferRWI e known intake g0 s req = (g1, s', Inr resp)" "int64 (te_pauseMilliseconds e)"
    and "\<And>s' receipt. intake s (tq_Indexes req) = (s', Inr receipt) \<Longrightarrow>
      int64 (rc_Pause receipt) \<and> list_all Hash_Valid (rc_UnknownURL receipt)"
  shows "rwi_answer_fits resp"
proof -
  obtain p a where p: "preflight e req = (p, a)" by (cases "preflight e req")
  note pf = preflight_fits [OF p assms(2)]
  have plain: "rwi_answer_fits (p\<lparr>tr_Result := r\<rparr>)" if "r \<in> set rwi_results" for r
    using pf that by (simp add: rwi_answer_fits_def)
  have wrong: "rwi_answer_fits (p\<lparr>tr_Result := ResultWrongTarget, tr_Pause := 0\<rparr>)"
    using pf by (simp add: rwi_answer_fits_def rwi_results_def int64_def)
  have m: "ResultTooHighLoad \<in> set rwi_results" "ResultNotGranted \<in> set rwi_results"
    by (simp_all add: rwi_results_def)
  show ?thesis
  proof (cases a)
    case False
    then have "resp = p" using assms(1) p by (simp add: ServeTransferRWI_def)
    then show ?thesis using pf False by (simp add: rwi_answer_fits_def)
  next
    case True
    obtain g b where t: "TryAcquire g0 = (g, b)" by (cases "TryAcquire g0")
    show ?thesis
      using assms(1) p True t plain [OF m(1)] plain [OF m(2)] wrong
        receive_rwi_fits [of intake s req p _ resp, OF _ _ assms(3)] pf
      by (auto simp: ServeTransferRWI_def split: bool.splits if_splits prod.splits)
  qed
qed

lemma receive_postings_receipt:
  assumes "receive_postings cfg env r entries = (r', Inr receipt)" "url_inv (rg_codec cfg) (rv_urls r)"
    and "int64 (te_pauseMilliseconds (rg_rwi cfg))"
  shows "int64 (rc_Pause receipt) \<and> list_all Hash_Valid (rc_UnknownURL receipt) \<and>
    rv_urls r' = rv_urls r \<and> rv_requests r' = rv_requests r \<and>
    (\<not> rc_Busy receipt \<longrightarrow> entries = [] \<or>
      (\<exists>referenced. each_posting store_entry (rv_postings r, []) entries = Inr (rv_postings r', referenced) \<and>
         set (rc_UnknownURL receipt) = {h \<in> set referenced. map_of (rv_urls r) h = None}))"
proof -
  let ?missing = "\<lambda>hashes. case MissingURLs (rg_codec cfg) (re_readable env) (rv_urls r) hashes of
            Inl _ \<Rightarrow> None | Inr missing \<Rightarrow> Some missing"
  obtain v x where R: "Receive (te_pauseMilliseconds (rg_rwi cfg)) ?missing (re_capacity env) (re_outcome env)
      (rv_postings r) entries = (v, x)" by (cases "Receive (te_pauseMilliseconds (rg_rwi cfg)) ?missing
      (re_capacity env) (re_outcome env) (rv_postings r) entries")
  then have e: "r' = r\<lparr>rv_postings := v\<rparr>" "x = Inr receipt"
    using assms(1) by (simp_all add: receive_postings_def)
  have z: "int64 0" by (simp add: int64_def)
  from R [unfolded e(2)] show ?thesis
  proof (rule Receive_cases)
    fix referenced
    assume s: "storeEntries (re_outcome env) (rv_postings r) entries = (v, Inr referenced)"
      and m: "?missing referenced = Some (rc_UnknownURL receipt)" and p: "rc_Pause receipt = 0"
    note s = storeEntries_Inr [OF s]
    have m: "MissingURLs (rg_codec cfg) (re_readable env) (rv_urls r) referenced = Inr (rc_UnknownURL receipt)"
      using m by (auto split: sum.splits)
    note m = MissingURLs_ok [OF assms(2) m]
    have "set referenced = {url. \<exists>e\<in>set entries. RWIPosting_URLHash e = Inr url}"
      using store_each_stored [OF s] by simp
    then have "list_all Hash_Valid (rc_UnknownURL receipt)"
      using m url_hash_valid unfolding list_all_iff by blast
    then show ?thesis using s m p z unfolding e(1) by auto
  qed (use assms(3) z e(1) in auto)
qed

lemma serve_wire_keeps:
  assumes "\<And>form req s1 x. guarded = Inr form \<Longrightarrow> parse form = Inr req \<Longrightarrow> serve s req = (s1, x) \<Longrightarrow> P s1"
    and "P s"
  shows "P (fst (serve_wire intake guarded parse serve encode header s))"
  by (rule serve_wire_cases [of intake guarded parse serve encode header s]) (use assms in \<open>auto dest: assms(1)\<close>)

lemma receive_postings_urls: "receive_postings cfg env r entries = (r', x) \<Longrightarrow> rv_urls r' = rv_urls r"
  by (auto simp: receive_postings_def split: prod.splits)

lemma rwi_server_urls: "rv_urls (fst (rwi_server cfg form r)) = rv_urls r"
  unfolding rwi_server_def Let_def
proof (rule serve_wire_keeps)
  fix form' req s1 x
  let ?env = "rg_env cfg (rv_requests r)" and ?r = "r\<lparr>rv_requests := rv_requests r + 1\<rparr>"
  assume "snd (ServeTransferRWI (rg_rwi cfg) (re_known ?env) (receive_postings cfg ?env) (re_gate ?env) ?r req) = (s1, x)"
  then have "ServeTransferRWI (rg_rwi cfg) (re_known ?env) (receive_postings cfg ?env) (re_gate ?env) ?r req =
      (fst (ServeTransferRWI (rg_rwi cfg) (re_known ?env) (receive_postings cfg ?env) (re_gate ?env) ?r req), s1, x)"
    by (metis prod.collapse)
  from ServeTransferRWI_state [OF this] show "rv_urls s1 = rv_urls r"
    using receive_postings_urls by fastforce
qed simp

lemma rwi_server_answer:
  assumes "receiver_ok cfg" "url_inv (rg_codec cfg) (rv_urls r)"
    and "rwi_server cfg form r = (r', HttpOK body)"
    and "ParseTransferRWIResponse (ParseMessage body) = Inr rwi" "tr_Result rwi = ResultOK"
  shows "\<exists>req. ParseTransferRWIRequest form = Inr req \<and> rv_urls r' = rv_urls r \<and> tr_ErrorURL rwi = [] \<and>
    (tq_Indexes req = [] \<or>
      (\<exists>referenced. each_posting store_entry (rv_postings r, []) (tq_Indexes req) = Inr (rv_postings r', referenced) \<and>
         set (tr_UnknownURL rwi) = {h \<in> set referenced. map_of (rv_urls r) h = None}))"
proof -
  let ?env = "rg_env cfg (rv_requests r)" and ?r = "r\<lparr>rv_requests := rv_requests r + 1\<rparr>"
  let ?serve = "\<lambda>r req. snd (ServeTransferRWI (rg_rwi cfg) (re_known ?env) (receive_postings cfg ?env) (re_gate ?env) r req)"
  have w: "serve_wire (re_intake ?env) (guarded_form ?env form) ParseTransferRWIRequest ?serve
      TransferRWIResponse_Encode (re_header ?env) ?r = (r', HttpOK body)"
    using assms(3) by (simp add: rwi_server_def Let_def)
  have pause: "int64 (te_pauseMilliseconds (rg_rwi cfg))" and hdr: "header_fits (re_header ?env)"
    using assms(1) by (simp_all add: receiver_ok_def)
  have urls: "url_inv (rg_codec cfg) (rv_urls ?r)" using assms(2) by simp
  obtain form' req resp where s: "guarded_form ?env form = Inr form'" "ParseTransferRWIRequest form' = Inr req"
      "?serve ?r req = (r', Inr resp)"
      "body = Message_Encode (response_message (re_header ?env) (TransferRWIResponse_Encode resp))"
    by (rule serve_wire_cases [of "re_intake ?env" "guarded_form ?env form" ParseTransferRWIRequest ?serve
          TransferRWIResponse_Encode "re_header ?env" ?r]) (use w in auto)
  have f: "form' = form" using s(1) by (simp add: guarded_form_def split: option.splits)
  obtain gate' where g: "ServeTransferRWI (rg_rwi cfg) (re_known ?env) (receive_postings cfg ?env) (re_gate ?env) ?r req
      = (gate', r', Inr resp)" using s(3) by (metis prod.collapse)
  have "rwi_answer_fits resp"
    using receive_postings_receipt [OF _ urls pause] by (intro ServeTransferRWI_fits [OF g pause]) blast
  then have "ParseTransferRWIResponse (ParseMessage body) =
      Inr (resp\<lparr>tr_Header := re_header ?env, tr_UnknownURLFieldPresent := True\<rparr>)"
    unfolding s(4) by (intro rwi_answer_read [OF hdr]) (simp_all add: rwi_answer_fits_def)
  then have rwi: "rwi = resp\<lparr>tr_Header := re_header ?env, tr_UnknownURLFieldPresent := True\<rparr>" using assms(4) by simp
  then have "tr_Result resp = ResultOK" using assms(5) by simp
  from ServeTransferRWI_ok [OF g this] obtain receipt where
    t: "receive_postings cfg ?env ?r (tq_Indexes req) = (r', Inr receipt)" "\<not> rc_Busy receipt"
      "tr_UnknownURL resp = rc_UnknownURL receipt" "tr_ErrorURL resp = []" by blast
  show ?thesis using receive_postings_receipt [OF t(1) urls pause] t(2-4) s(2) f rwi by auto
qed


lemma list_all2_right: "list_all2 P xs ys \<Longrightarrow> y \<in> set ys \<Longrightarrow> \<exists>x\<in>set xs. P x y"
  by (induction rule: list_all2_induct) auto

lemma writer_sign_get:
  assumes "writer_sign w salt form = Some form'" "k \<notin> {FieldNetworkName, FieldIam, FieldKey, FieldMagicMD5}"
  shows "form_get form' k = form_get form k"
  using assms by (auto simp: writer_sign_def Sign_def SignWithSalt_def Let_def split: if_splits)

lemma rwi_form_indexes: "form_get (TransferRWIRequest_Form r) FieldIndexes = encodeRWILines (tq_Indexes r)"
  by (simp add: TransferRWIRequest_Form_def Let_def common_fields transfer_fields)

lemma parsed_indexes:
  assumes "ParseTransferRWIRequest form = Inr req"
  shows "tq_Indexes req = fst (parseRWILines (form_get form FieldIndexes))"
  using assms by (auto simp: ParseTransferRWIRequest_def split: sum.splits prod.splits)

lemma same_posting_key:
  assumes "same_posting p q" "wf_posting p"
  shows "entry_key p = entry_key q" "encodeStoredPosting p = encodeStoredPosting q"
    "RWIPosting_URLHash p = RWIPosting_URLHash q"
proof -
  have m: "map_of (RWI_Properties p) = map_of (RWI_Properties q)" "RWI_WordHash p = RWI_WordHash q" "wf_posting q"
    using assms(1) by (simp_all add: same_posting_def)
  show u: "RWIPosting_URLHash p = RWIPosting_URLHash q"
    by (simp add: RWIPosting_URLHash_def get_or_def m(1))
  show "entry_key p = entry_key q" by (simp add: entry_key_def fun_eq_iff u m(2))
  show "encodeStoredPosting p = encodeStoredPosting q"
    using m(3) assms(2) by (intro encodeStoredPosting_cong [OF m(1)]) (simp_all add: wf_posting_def normal_columns_def)
qed

text \<open>What an \<open>ok\<close> tells the sender: every posting of the batch is in the receiver's index, or another
  one of the batch under the same key is, and the addresses without a row are named.\<close>

lemma rwi_call_ok:
  assumes "receiver_ok cfg" "url_inv (rg_codec cfg) (rv_urls r)"
    and "rwi_call lib net w cfg r peer ps = (r1, rwi, None)" "tr_Result rwi = ResultOK"
    and "list_all line_posting ps" "length ps \<le> MaximumTransferEntries"
  shows "rv_urls r1 = rv_urls r \<and> tr_ErrorURL rwi = [] \<and>
    (\<forall>p\<in>set ps. \<exists>url. RWIPosting_URLHash p = Inr url \<and>
       (\<exists>p'. last_such (\<lambda>p'. entry_key p' (postingKey (RWI_WordHash p) url)) ps = Some p' \<and>
          live (rv_postings r1) (postingKey (RWI_WordHash p) url) = Some (encodeStoredPosting p')) \<and>
       (map_of (rv_urls r) url = None \<longrightarrow> url \<in> set (tr_UnknownURL rwi)))"
proof (cases "ps = []")
  case True
  then show ?thesis using assms(3) by (auto simp: rwi_call_def TransferRWI_def empty_rwi_response_def)
next
  case False
  obtain form where f: "writer_sign w (nc_salt (hn_rwi net)) (TransferRWIRequest_Form (rwi_request w peer ps)) = Some form"
    and c: "postTransfer lib (hn_rwi net) w peer PathTransferRWI ParseTransferRWIResponse empty_rwi_response
             (rwi_server cfg form) r = (r1, rwi, None)"
    using assms(3) False by (auto simp: rwi_call_def TransferRWI_def split: option.splits prod.splits)
  have "\<exists>s1 body. rv_urls s1 = rv_urls r \<and> rwi_server cfg form s1 = (r1, HttpOK body) \<and>
      ParseTransferRWIResponse (ParseMessage body) = Inr rwi"
    using postTransfer_answer [OF c, of "\<lambda>s. rv_urls s = rv_urls r"] rwi_server_urls by simp
  then obtain s1 body where s: "rv_urls s1 = rv_urls r" "rwi_server cfg form s1 = (r1, HttpOK body)"
      "ParseTransferRWIResponse (ParseMessage body) = Inr rwi" by blast
  from rwi_server_answer [OF assms(1) _ s(2,3) assms(4)] assms(2) s(1) obtain req where
    a: "ParseTransferRWIRequest form = Inr req" "rv_urls r1 = rv_urls s1" "tr_ErrorURL rwi = []"
    and st: "tq_Indexes req = [] \<or> (\<exists>referenced.
         each_posting store_entry (rv_postings s1, []) (tq_Indexes req) = Inr (rv_postings r1, referenced) \<and>
         set (tr_UnknownURL rwi) = {h \<in> set referenced. map_of (rv_urls s1) h = None})" by auto
  have "form_get form FieldIndexes = encodeRWILines ps"
    using writer_sign_get [OF f, of FieldIndexes] rwi_form_indexes [of "rwi_request w peer ps"]
    by (simp add: common_fields transfer_fields rwi_request_def)
  then have l: "list_all2 same_posting ps (tq_Indexes req)"
    using parsed_indexes [OF a(1)] parse_encode_lines [OF assms(6,5)] by auto
  have q: "\<exists>q\<in>set (tq_Indexes req). same_posting p q" if "p \<in> set ps" for p
    by (rule list_all2_left [OF l that])
  have wf: "wf_posting p" if "p \<in> set ps" for p
    using that assms(5) by (auto simp: list_all_iff line_posting_def)
  have "tq_Indexes req \<noteq> []" using l False by auto
  then obtain referenced where e: "each_posting store_entry (rv_postings s1, []) (tq_Indexes req) = Inr (rv_postings r1, referenced)"
    "set (tr_UnknownURL rwi) = {h \<in> set referenced. map_of (rv_urls s1) h = None}" using st by blast
  note st = store_each_stored [OF e(1)]
  have "\<exists>url. RWIPosting_URLHash p = Inr url \<and>
       (\<exists>p'. last_such (\<lambda>p'. entry_key p' (postingKey (RWI_WordHash p) url)) ps = Some p' \<and>
          live (rv_postings r1) (postingKey (RWI_WordHash p) url) = Some (encodeStoredPosting p')) \<and>
       (map_of (rv_urls r) url = None \<longrightarrow> url \<in> set (tr_UnknownURL rwi))" if p: "p \<in> set ps" for p
  proof -
    obtain pq where pq: "pq \<in> set (tq_Indexes req)" "same_posting p pq" using q [OF p] by blast
    note k = same_posting_key [OF pq(2) wf [OF p]]
    obtain url where url: "RWIPosting_URLHash pq = Inr url" using st pq(1) by blast
    let ?k = "postingKey (RWI_WordHash p) url"
    have "entry_key pq ?k" using k url by (simp add: entry_key_def flip: k(1))
    then obtain sq where sq: "last_such (\<lambda>e. entry_key e ?k) (tq_Indexes req) = Some sq"
      using pq(1) last_such_None [of "\<lambda>e. entry_key e ?k"] by (metis not_None_eq)
    have keys: "entry_key x ?k = entry_key y ?k" if "x \<in> set ps" "same_posting x y" for x y
      using same_posting_key(1) [OF that(2) wf [OF that(1)]] by simp
    have "\<exists>p'. last_such (\<lambda>e. entry_key e ?k) ps = Some p' \<and> same_posting p' sq"
      by (rule last_such_all2 [OF l _ sq]) (rule keys)
    then obtain p' where
      p': "last_such (\<lambda>e. entry_key e ?k) ps = Some p'" "same_posting p' sq" by blast
    have "p' \<in> set ps" using last_such_Some [OF p'(1)] by blast
    note k' = same_posting_key [OF p'(2) wf [OF this]]
    have "live (rv_postings r1) ?k = Some (encodeStoredPosting p')" using st sq k'(2) by simp
    moreover have "url \<in> set referenced" using st pq(1) url by auto
    then have "map_of (rv_urls r) url = None \<longrightarrow> url \<in> set (tr_UnknownURL rwi)" using e(2) s(1) by simp
    ultimately show ?thesis using p'(1) k(3) url by auto
  qed
  then show ?thesis using a s(1) by simp
qed


section \<open>The answer \<open>ok\<close> to rows\<close>

lemma parse_int_format:
  assumes "parse_int (format_int (int n)) = Some m"
  shows "m = int n"
proof -
  obtain c cs where f: "format_uint n = c # cs" by (meson format_uint_nonempty list.exhaust)
  then have "is_digit c" using format_uint_digits [of n] by simp
  then have "c \<noteq> CHR ''-''" "c \<noteq> CHR ''+''" by (auto simp: is_digit_def)
  then show ?thesis
    using assms f format_uint_digits [of n] decimal_value_format [of n]
    by (auto simp: parse_int_def format_int_def parse_uint_def Let_def split: if_split_asm)
qed

lemma parse_url_rows_uncancelled:
  "parse_url_rows cancelled form is = Some rows \<Longrightarrow> parse_url_rows (\<lambda>_. False) form is = Some rows"
  by (induction "is" arbitrary: rows) (auto simp: Let_def split: if_splits sum.splits)

lemma same_row_plain:
  assumes "same_row row row'" "row_plain row"
  shows "row_plain row'" "URIMetadataRow_URLHash row' = URIMetadataRow_URLHash row"
proof -
  have m: "map_of (Meta_Properties row) = map_of (Meta_Properties row')" and w: "wf_row row'"
    using assms(1) by (simp_all add: same_row_def)
  show "URIMetadataRow_URLHash row' = URIMetadataRow_URLHash row" by (rule row_hash_cong [OF m [symmetric]])
  have d: "distinct (map fst (Meta_Properties row))" "distinct (map fst (Meta_Properties row'))"
    using assms(2) w by (simp_all add: row_plain_def wf_row_def wf_map_def)
  have "set (Meta_Properties row) = set (Meta_Properties row')"
    using map_of_inject_set [OF d] m by simp
  then show "row_plain row'" using assms(2) w
    by (simp add: row_plain_def plain_map_def wf_row_def list_all_iff)
qed

lemma url_form_fields:
  "form_get (TransferURLRequest_Form r) FieldURLCount = format_int (uq_URLCount r)"
  "k < length (uq_URLs r) \<Longrightarrow>
     form_get (TransferURLRequest_Form r) (indexedKey prefixURL k) = URIMetadataRow_String (uq_URLs r ! k)"
  using form_get_put_rows_other [OF allI, OF plain_field_not_indexed, of FieldURLCount]
  by (simp_all add: TransferURLRequest_Form_def Let_def form_get_put_rows)
    (simp add: common_fields transfer_fields)

lemma parsed_rows:
  assumes "ParseTransferURLRequest cancelled form = Inr req" "list_all row_plain rows"
    and "form_get form FieldURLCount = format_int (int (length rows))"
    and "\<forall>k<length rows. form_get form (indexedKey prefixURL k) = URIMetadataRow_String (rows ! k)"
  shows "list_all2 same_row rows (uq_URLs req) \<and> length rows \<le> MaximumTransferEntries"
proof -
  obtain n where n: "optionalInt FieldURLCount (form_get form FieldURLCount) = Inr n"
      "n \<le> int MaximumTransferEntries" "parse_url_rows cancelled form [0..<nat n] = Some (uq_URLs req)"
    using assms(1) by (auto simp: ParseTransferURLRequest_def split: sum.splits prod.splits option.splits if_splits)
  have "format_int (int (length rows)) \<noteq> []" by (simp add: format_int_def)
  then have c: "n = int (length rows)"
    using n(1) parse_int_format unfolding assms(3) by (auto simp: optionalInt_def readInt_def split: option.splits)
  then have "parse_url_rows (\<lambda>_. False) form [0..<length rows] = Some (uq_URLs req)"
    using c parse_url_rows_uncancelled [OF n(3)] by simp
  moreover have "list_all (\<lambda>row. wf_row row \<and> plain_map (Meta_Properties row)) rows"
    using assms(2) by (simp add: row_plain_def list_all_iff)
  ultimately show ?thesis
    using parse_put_rows [of rows form 0 "\<lambda>_. False"] assms(4) n(2) c by auto
qed

lemma indexed_not_signed: "indexedKey prefixURL k \<notin> {FieldNetworkName, FieldIam, FieldKey, FieldMagicMD5}"
  using plain_field_not_indexed [of FieldNetworkName k] plain_field_not_indexed [of FieldIam k]
    plain_field_not_indexed [of FieldKey k] plain_field_not_indexed [of FieldMagicMD5 k] by auto


lemma store_rows_counts:
  "store_rows fl refuses v acc rows = Inr (w, acc') \<Longrightarrow>
     length (ui_existing acc') \<le> length (ui_existing acc) + length rows"
proof (induction rows arbitrary: v acc)
  case (Cons row rows)
  show ?case
    using Cons.prems Cons.IH
    by (fastforce split: sum.splits option.splits if_splits)
qed simp

lemma ReceiveURLs_count:
  assumes "ReceiveURLs fl capacity outcome refuses v rows = (w, Inr receipt)"
  shows "ur_Double receipt \<le> length rows \<and> (ur_Busy receipt \<longrightarrow> ur_ErrorURL receipt = [])"
proof (cases "store_rows fl refuses v \<lparr>ui_existing = [], ui_rejected = []\<rparr> rows")
  case (Inl e)
  then show ?thesis using assms
    by (auto simp: ReceiveURLs_def url_update_def no_url_receipt_def
        split: if_splits capacity_answer.splits bool.splits url_store_error.splits)
next
  case (Inr a)
  obtain w1 acc where a: "a = (w1, acc)" by (cases a)
  show ?thesis using assms store_rows_counts [OF Inr [unfolded a]] Inr a
    by (cases outcome) (auto simp: ReceiveURLs_def url_update_def no_url_receipt_def
        split: if_splits capacity_answer.splits bool.splits)
qed

text \<open>What every request for the same rows leaves as it is: the rows stay well kept, no address loses
  its row and the postings are not touched.\<close>

definition rows_kept :: "row_codec \<Rightarrow> receiver \<Rightarrow> receiver \<Rightarrow> bool" where
  "rows_kept fl r s \<longleftrightarrow> url_inv fl (rv_urls s) \<and> rv_postings s = rv_postings r \<and>
     (\<forall>k. map_of (rv_urls r) k \<noteq> None \<longrightarrow> map_of (rv_urls s) k \<noteq> None)"

lemma receive_rows_ok:
  assumes "receive_rows cfg env r rows = (r', x)" "flate_inverse (rg_codec cfg)"
    and "url_inv (rg_codec cfg) (rv_urls r)" "list_all row_plain rows"
  shows "rows_kept (rg_codec cfg) r r' \<and>
    (\<forall>receipt. x = Inr receipt \<longrightarrow> ur_Double receipt \<le> length rows \<and> list_all Hash_Valid (ur_ErrorURL receipt) \<and>
      (\<not> ur_Busy receipt \<longrightarrow> (\<forall>row\<in>set rows. \<forall>hash. URIMetadataRow_URLHash row = Inr hash \<longrightarrow>
          map_of (rv_urls r') hash \<noteq> None \<or> hash \<in> set (ur_ErrorURL receipt))))"
proof -
  obtain w y where R: "ReceiveURLs (rg_codec cfg) (re_capacity env) (re_outcome env) (re_refuses env) (rv_urls r) rows = (w, y)"
    by (cases "ReceiveURLs (rg_codec cfg) (re_capacity env) (re_outcome env) (re_refuses env) (rv_urls r) rows")
  have e: "r' = r\<lparr>rv_urls := w\<rparr>" "y = x" using assms(1) R by (simp_all add: receive_rows_def)
  note ok = ReceiveURLs_ok [OF assms(2,3,4) R]
  have "rows_kept (rg_codec cfg) r r'" using ok e by (auto simp: rows_kept_def)
  moreover have "ur_Double receipt \<le> length rows" "list_all Hash_Valid (ur_ErrorURL receipt)"
    if "x = Inr receipt" for receipt
  proof -
    note c = ReceiveURLs_count [OF R [unfolded e(2) that]]
    show "ur_Double receipt \<le> length rows" using c by simp
    show "list_all Hash_Valid (ur_ErrorURL receipt)"
    proof (cases "ur_Busy receipt")
      case True
      then show ?thesis using c by simp
    next
      case False
      then have "\<forall>h\<in>set (ur_ErrorURL receipt). \<exists>row\<in>set rows. URIMetadataRow_URLHash row = Inr h"
        using ok e that by simp
      then show ?thesis unfolding list_all_iff URIMetadataRow_URLHash_def by (meson urlMetadataHash_valid)
    qed
  qed
  ultimately show ?thesis using ok e by simp
qed

lemma rows_kept_step: "rows_kept fl r (s\<lparr>rv_requests := n\<rparr>) \<longleftrightarrow> rows_kept fl r s"
  by (simp add: rows_kept_def)

lemma rows_kept_trans: "rows_kept fl r s \<Longrightarrow> rows_kept fl s t \<Longrightarrow> rows_kept fl r t"
  by (simp add: rows_kept_def)

text \<open>A form whose requests all carry the rows.\<close>

definition rows_form :: "Values \<Rightarrow> URIMetadataRow list \<Rightarrow> bool" where
  "rows_form form rows \<longleftrightarrow> list_all row_plain rows \<and> form_get form FieldURLCount = format_int (int (length rows)) \<and>
     (\<forall>k<length rows. form_get form (indexedKey prefixURL k) = URIMetadataRow_String (rows ! k))"

lemma rows_form_request:
  assumes "rows_form form rows" "ParseTransferURLRequest cancelled form = Inr req"
  shows "list_all row_plain (uq_URLs req) \<and> length (uq_URLs req) \<le> MaximumTransferEntries \<and>
    (\<forall>row\<in>set rows. \<exists>row'\<in>set (uq_URLs req). URIMetadataRow_URLHash row' = URIMetadataRow_URLHash row)"
proof -
  have l: "list_all2 same_row rows (uq_URLs req)" "length rows \<le> MaximumTransferEntries" "list_all row_plain rows"
    using parsed_rows [OF assms(2)] assms(1) by (simp_all add: rows_form_def)
  have "row_plain row'" if r': "row' \<in> set (uq_URLs req)" for row'
  proof -
    obtain row where "row \<in> set rows" "same_row row row'" using list_all2_right [OF l(1) r'] by blast
    then show ?thesis using same_row_plain(1) l(3) by (auto simp: list_all_iff)
  qed
  moreover have "\<exists>row'\<in>set (uq_URLs req). URIMetadataRow_URLHash row' = URIMetadataRow_URLHash row"
    if r: "row \<in> set rows" for row
  proof -
    obtain row' where "row' \<in> set (uq_URLs req)" "same_row row row'" using list_all2_left [OF l(1) r] by blast
    then show ?thesis using same_row_plain(2) l(3) r by (auto simp: list_all_iff)
  qed
  ultimately show ?thesis using l(2) list_all2_lengthD [OF l(1)] by (auto simp: list_all_iff)
qed


lemma url_server_cases:
  assumes "receiver_ok cfg" "url_inv (rg_codec cfg) (rv_urls s)" "rows_form form rows"
    and "ParseTransferURLRequest cancelled form = Inr req"
    and "snd (ServeTransferURL (rg_url cfg) known (receive_rows cfg env) g0 s req) = (s', answer)"
  shows "rows_kept (rg_codec cfg) s s'"
proof -
  have fl: "flate_inverse (rg_codec cfg)" using assms(1) by (simp add: receiver_ok_def)
  have "ServeTransferURL (rg_url cfg) known (receive_rows cfg env) g0 s req =
      (fst (ServeTransferURL (rg_url cfg) known (receive_rows cfg env) g0 s req), s', answer)"
    using assms(5) by (metis prod.collapse)
  from ServeTransferURL_state [OF this] show ?thesis
  proof
    assume "s' = s"
    then show ?thesis using assms(2) by (simp add: rows_kept_def)
  next
    assume "\<exists>x. receive_rows cfg env s (uq_URLs req) = (s', x)"
    then obtain x where "receive_rows cfg env s (uq_URLs req) = (s', x)" ..
    from receive_rows_ok [OF this fl assms(2)] rows_form_request [OF assms(3,4)] show ?thesis by simp
  qed
qed

lemma url_server_keeps:
  assumes "receiver_ok cfg" "rows_form form rows" "rows_kept (rg_codec cfg) r s"
  shows "rows_kept (rg_codec cfg) r (fst (url_server cfg form s))"
  unfolding url_server_def Let_def
proof (rule serve_wire_keeps)
  fix form' req s1 x
  let ?env = "rg_env cfg (rv_requests s)" and ?s = "s\<lparr>rv_requests := rv_requests s + 1\<rparr>"
  assume "guarded_form ?env form = Inr form'" "ParseTransferURLRequest (re_cancelled ?env) form' = Inr req"
    and e: "snd (ServeTransferURL (rg_url cfg) (re_known ?env) (receive_rows cfg ?env) (re_gate ?env) ?s req) = (s1, x)"
  then have p: "ParseTransferURLRequest (re_cancelled ?env) form = Inr req"
    by (simp add: guarded_form_def split: option.splits)
  have k: "rows_kept (rg_codec cfg) r ?s" using assms(3) by (simp add: rows_kept_step)
  have "url_inv (rg_codec cfg) (rv_urls ?s)" using assms(3) by (simp add: rows_kept_def)
  from url_server_cases [OF assms(1) this assms(2) p e] show "rows_kept (rg_codec cfg) r s1"
    by (rule rows_kept_trans [OF k])
qed (use assms(3) in \<open>simp add: rows_kept_step\<close>)

lemma ServeTransferURL_fits:
  assumes "ServeTransferURL e known intake g0 s req = (g1, s', Inr resp)"
    and "\<And>s' receipt. intake s (uq_URLs req) = (s', Inr receipt) \<Longrightarrow>
      ur_Double receipt \<le> MaximumTransferEntries \<and> list_all Hash_Valid (ur_ErrorURL receipt)"
  shows "tu_Result resp \<in> {[], ResultOK, ResultWrongTarget, ResultErrorNotGranted} \<and> int64 (tu_Double resp) \<and>
    list_all Hash_Valid (tu_ErrorURL resp)"
proof -
  have d: "int64 (int n)" if "n \<le> MaximumTransferEntries" for n
    using that by (simp add: int64_def MaximumTransferEntries_def)
  have z: "int64 0" by (simp add: int64_def)
  show ?thesis using assms(1) z
    by (auto simp: ServeTransferURL_def Let_def empty_url_response_def
        split: prod.splits bool.splits if_splits sum.splits dest!: assms(2) dest: d)
qed

lemma url_server_answer:
  assumes "receiver_ok cfg" "url_inv (rg_codec cfg) (rv_urls s)" "rows_form form rows"
    and "url_server cfg form s = (s', HttpOK body)"
    and "ParseTransferURLResponse (ParseMessage body) = Inr urls" "tu_Result urls = ResultOK"
    and "row \<in> set rows" "URIMetadataRow_URLHash row = Inr hash"
  shows "map_of (rv_urls s') hash \<noteq> None \<or> hash \<in> set (tu_ErrorURL urls)"
proof -
  let ?env = "rg_env cfg (rv_requests s)" and ?s = "s\<lparr>rv_requests := rv_requests s + 1\<rparr>"
  let ?serve = "\<lambda>r req. snd (ServeTransferURL (rg_url cfg) (re_known ?env) (receive_rows cfg ?env) (re_gate ?env) r req)"
  have w: "serve_wire (re_intake ?env) (guarded_form ?env form) (ParseTransferURLRequest (re_cancelled ?env)) ?serve
      TransferURLResponse_Encode (re_header ?env) ?s = (s', HttpOK body)"
    using assms(4) by (simp add: url_server_def Let_def)
  have fl: "flate_inverse (rg_codec cfg)" and hdr: "header_fits (re_header ?env)"
    using assms(1) by (simp_all add: receiver_ok_def)
  have inv: "url_inv (rg_codec cfg) (rv_urls ?s)" using assms(2) by simp
  obtain form' req resp where p: "guarded_form ?env form = Inr form'"
      "ParseTransferURLRequest (re_cancelled ?env) form' = Inr req" "?serve ?s req = (s', Inr resp)"
      "body = Message_Encode (response_message (re_header ?env) (TransferURLResponse_Encode resp))"
    by (rule serve_wire_cases [of "re_intake ?env" "guarded_form ?env form"
          "ParseTransferURLRequest (re_cancelled ?env)" ?serve TransferURLResponse_Encode "re_header ?env" ?s])
      (use w in auto)
  have "form' = form" using p(1) by (simp add: guarded_form_def split: option.splits)
  note req = rows_form_request [OF assms(3) p(2) [unfolded this]]
  obtain g1 where g: "ServeTransferURL (rg_url cfg) (re_known ?env) (receive_rows cfg ?env) (re_gate ?env) ?s req
      = (g1, s', Inr resp)" using p(3) by (metis prod.collapse)
  have rec: "ur_Double receipt \<le> length (uq_URLs req) \<and> list_all Hash_Valid (ur_ErrorURL receipt) \<and>
      (\<not> ur_Busy receipt \<longrightarrow> (\<forall>row\<in>set (uq_URLs req). \<forall>hash. URIMetadataRow_URLHash row = Inr hash \<longrightarrow>
          map_of (rv_urls t) hash \<noteq> None \<or> hash \<in> set (ur_ErrorURL receipt)))"
    if "receive_rows cfg ?env ?s (uq_URLs req) = (t, Inr receipt)" for t receipt
    using receive_rows_ok [OF that fl inv] req by simp
  have "tu_Result resp \<in> {[], ResultOK, ResultWrongTarget, ResultErrorNotGranted} \<and> int64 (tu_Double resp) \<and>
      list_all Hash_Valid (tu_ErrorURL resp)"
    using rec req by (intro ServeTransferURL_fits [OF g]) (meson order_trans)
  then have "ParseTransferURLResponse (ParseMessage body) = Inr (resp\<lparr>tu_Header := re_header ?env\<rparr>)"
    unfolding p(4) by (intro url_answer_read [OF hdr]) simp_all
  then have u: "urls = resp\<lparr>tu_Header := re_header ?env\<rparr>" using assms(5) by simp
  then have "tu_Result resp = ResultOK" using assms(6) by simp
  from ServeTransferURL_ok [OF g this] obtain receipt where
    t: "receive_rows cfg ?env ?s (uq_URLs req) = (s', Inr receipt)" "\<not> ur_Busy receipt"
      "tu_ErrorURL resp = ur_ErrorURL receipt" by blast
  obtain row' where "row' \<in> set (uq_URLs req)" "URIMetadataRow_URLHash row' = Inr hash"
    using req assms(7,8) by auto
  then show ?thesis using rec [OF t(1)] t(2,3) u by auto
qed

lemma url_call_ok:
  assumes "receiver_ok cfg" "url_inv (rg_codec cfg) (rv_urls r)" "list_all row_plain rows"
    and "url_call lib net w cfg r peer rows = (r2, urls, None)" "tu_Result urls = ResultOK"
  shows "rows_kept (rg_codec cfg) r r2 \<and> (\<forall>row\<in>set rows. \<forall>hash. URIMetadataRow_URLHash row = Inr hash \<longrightarrow>
      map_of (rv_urls r2) hash \<noteq> None \<or> hash \<in> set (tu_ErrorURL urls))"
proof -
  obtain form where f: "writer_sign w (nc_salt (hn_url net)) (TransferURLRequest_Form (url_request w peer rows)) = Some form"
    and c: "postTransfer lib (hn_url net) w peer PathTransferURL ParseTransferURLResponse empty_url_response
             (url_server cfg form) r = (r2, urls, None)"
    using assms(4) by (auto simp: url_call_def TransferURL_def split: option.splits prod.splits)
  have "rows_form form rows"
    using writer_sign_get [OF f indexed_not_signed] writer_sign_get [OF f, of FieldURLCount]
      url_form_fields(1) [of "url_request w peer rows"] url_form_fields(2) [of _ "url_request w peer rows"] assms(3)
    by (simp add: rows_form_def url_request_def common_fields transfer_fields)
  note keep = url_server_keeps [OF assms(1) this] and ans = url_server_answer [OF assms(1) _ this]
  have r: "rows_kept (rg_codec cfg) r r" using assms(2) by (simp add: rows_kept_def)
  obtain s1 body where s: "rows_kept (rg_codec cfg) r s1" "url_server cfg form s1 = (r2, HttpOK body)"
      "ParseTransferURLResponse (ParseMessage body) = Inr urls"
    using postTransfer_answer [OF c, of "rows_kept (rg_codec cfg) r"] keep r by blast
  have "rows_kept (rg_codec cfg) r r2" using keep [OF s(1)] s(2) by simp
  then show ?thesis using ans [OF _ s(2,3) assms(5)] s(1) by (auto simp: rows_kept_def)
qed


section \<open>Accepted postings are delivered\<close>

lemma entry_key_same:
  assumes "wf_posting p" "wf_posting p'" "RWIPosting_URLHash p = Inr url"
  shows "entry_key p' (postingKey (RWI_WordHash p) url) \<longleftrightarrow> identifyOutboundPosting p' = identifyOutboundPosting p"
proof
  assume k: "entry_key p' (postingKey (RWI_WordHash p) url)"
  obtain url' where u: "RWIPosting_URLHash p' = Inr url'" "postingKey (RWI_WordHash p) url = postingKey (RWI_WordHash p') url'"
    using k by (auto simp: entry_key_def)
  have "Hash_Valid (RWI_WordHash p)" "Hash_Valid (RWI_WordHash p')" using assms(1,2) by (simp_all add: wf_posting_def)
  then have "RWI_WordHash p' = RWI_WordHash p \<and> url' = url" using postingKey_inject u(2) by metis
  then show "identifyOutboundPosting p' = identifyOutboundPosting p" using u(1) assms(3)
    by (cases "ParseHash (RWI_WordHash p)") (simp_all add: identifyOutboundPosting_def)
next
  assume i: "identifyOutboundPosting p' = identifyOutboundPosting p"
  have h: "Hash_Valid (RWI_WordHash p)" "Hash_Valid (RWI_WordHash p')" using assms(1,2) by (simp_all add: wf_posting_def)
  then have "RWI_WordHash p' = RWI_WordHash p \<and> RWIPosting_URLHash p' = Inr url"
    using i assms(3) by (simp add: identifyOutboundPosting_def ParseHash_valid split: sum.splits)
  then show "entry_key p' (postingKey (RWI_WordHash p) url)" by (simp add: entry_key_def)
qed

text \<open>The receiver has the posting, or the last one of the batch with the same word and address, and a
  row of its address.\<close>

definition delivered :: "RWIPosting list \<Rightarrow> receiver \<Rightarrow> RWIPosting \<Rightarrow> bool" where
  "delivered ps r p \<longleftrightarrow> (\<exists>url. RWIPosting_URLHash p = Inr url \<and> map_of (rv_urls r) url \<noteq> None \<and>
     (\<exists>p'. last_such (\<lambda>p'. identifyOutboundPosting p' = identifyOutboundPosting p) ps = Some p' \<and>
        live (rv_postings r) (postingKey (RWI_WordHash p) url) = Some (encodeStoredPosting p')))"

lemma delivered_by_handoff:
  assumes "receiver_ok cfg" "url_inv (rg_codec cfg) (rv_urls r)"
    and "list_all line_posting ps" "length ps \<le> MaximumTransferEntries"
    and "\<And>hashes rows. rowsByHash hashes = Some rows \<Longrightarrow> list_all row_plain rows"
    and "Send (network_writer lib net w cfg r ps) rowsByHash peer ps = (receipt, failure)"
    and "handoffAccepted (hr_State receipt)" "r' = after_handoff lib net w cfg r peer ps rowsByHash"
    and "p \<in> set ps" "p \<notin> set (hr_RejectedPostings receipt)"
  shows "delivered ps r' p"
proof -
  let ?writer = "network_writer lib net w cfg r ps"
  obtain r1 rwi f where c: "rwi_call lib net w cfg r peer ps = (r1, rwi, f)"
    by (cases "rwi_call lib net w cfg r peer ps")
  then have t: "pw_TransferRWI ?writer peer ps = (rwi, f)" by (simp add: network_writer_def)
  let ?unknown = "rejected_without (tr_ErrorURL rwi) (tr_UnknownURL rwi)"
  have rows: "map_of (rv_urls r') url \<noteq> None \<and> rv_postings r' = rv_postings r1 \<and> f = None \<and> tr_Result rwi = ResultOK"
    if url: "RWIPosting_URLHash p = Inr url"
      and ok: "f = None \<Longrightarrow> tr_Result rwi = ResultOK \<Longrightarrow> rv_urls r1 = rv_urls r \<and> tr_ErrorURL rwi = [] \<and>
        (map_of (rv_urls r) url = None \<longrightarrow> url \<in> set (tr_UnknownURL rwi))" for url
    using assms(6,7)
  proof (rule Send_accepted_cases)
    fix rwi' assume "pw_TransferRWI ?writer peer ps = (rwi', None)" "tr_Result rwi' = ResultOK"
      "tr_UnknownURLFieldPresent rwi'" "set (tr_UnknownURL rwi') \<subseteq> set (tr_ErrorURL rwi')"
    then have a: "f = None" "tr_Result rwi = ResultOK" "set (tr_UnknownURL rwi) \<subseteq> set (tr_ErrorURL rwi)"
      using t by auto
    then have "tr_UnknownURL rwi = []" "rv_urls r1 = rv_urls r" "map_of (rv_urls r) url \<noteq> None"
      using ok by auto
    then show ?thesis using a assms(8) c by (simp add: after_handoff_def rejected_without_def)
  next
    fix rwi' :: TransferRWIResponse and rows urls
    assume t': "pw_TransferRWI ?writer peer ps = (rwi', None)" "tr_Result rwi' = ResultOK" "tr_UnknownURLFieldPresent rwi'"
      and u': "rowsByHash (rejected_without (tr_ErrorURL rwi') (tr_UnknownURL rwi')) = Some rows"
        "pw_TransferURL ?writer peer rows = (urls, None)" "tu_Result urls = ResultOK"
      and rej: "hr_RejectedPostings receipt = rejected_postings ((tr_ErrorURL rwi' @
         missingMetadataURLs (rejected_without (tr_ErrorURL rwi') (tr_UnknownURL rwi')) rows) @ tu_ErrorURL urls) ps"
    have e: "rwi' = rwi" "f = None" using t t'(1) by simp_all
    note a = t'(2,3) [unfolded e] u'(1) [unfolded e] rej [unfolded e]
    have k: "rv_urls r1 = rv_urls r" "tr_ErrorURL rwi = []" "?unknown = tr_UnknownURL rwi"
      using ok e(2) a(1) by (simp_all add: rejected_without_def)
    obtain r2 where u: "url_call lib net w cfg r1 peer rows = (r2, urls, None)"
      using u'(2) c by (cases "url_call lib net w cfg r1 peer rows") (simp add: network_writer_def)
    note uc = url_call_ok [OF assms(1) _ assms(5) [OF a(3)] u u'(3)]
    have "url \<notin> set (missingMetadataURLs ?unknown rows)" "url \<notin> set (tu_ErrorURL urls)"
      using assms(9,10) url a(4) by (auto simp: in_rejected_postings)
    then have have_row: "map_of (rv_urls r2) url \<noteq> None" if "url \<in> set (tr_UnknownURL rwi)"
      using that uc assms(2) k by (auto simp: in_missing_metadata)
    have keep: "rows_kept (rg_codec cfg) r1 r2" using uc assms(2) k(1) by simp
    have "map_of (rv_urls r2) url \<noteq> None"
      using have_row keep ok e(2) a(1) k(1) by (cases "map_of (rv_urls r) url = None") (auto simp: rows_kept_def)
    moreover have "r' = (if ?unknown = [] then r1 else r2)"
      using assms(8) c e(2) a(1-3) u by (simp add: after_handoff_def)
    ultimately show ?thesis using keep ok e(2) a(1) k
      by (cases "tr_UnknownURL rwi = []") (auto simp: rows_kept_def)
  qed
  have f: "f = None \<and> tr_Result rwi = ResultOK"
    using assms(6,7) by (rule Send_accepted_cases) (use t in auto)
  note rc = rwi_call_ok [OF assms(1,2) c [unfolded conjunct1 [OF f]] conjunct2 [OF f] assms(3,4)]
  obtain url where url: "RWIPosting_URLHash p = Inr url \<and>
       (\<exists>p'. last_such (\<lambda>p'. entry_key p' (postingKey (RWI_WordHash p) url)) ps = Some p' \<and>
          live (rv_postings r1) (postingKey (RWI_WordHash p) url) = Some (encodeStoredPosting p')) \<and>
       (map_of (rv_urls r) url = None \<longrightarrow> url \<in> set (tr_UnknownURL rwi))"
    using bspec [OF conjunct2 [OF conjunct2 [OF rc]] assms(9)] by (rule exE)
  obtain p' where p'b: "last_such (\<lambda>p'. entry_key p' (postingKey (RWI_WordHash p) url)) ps = Some p' \<and>
          live (rv_postings r1) (postingKey (RWI_WordHash p) url) = Some (encodeStoredPosting p')"
    using conjunct1 [OF conjunct2 [OF url]] by (rule exE)
  have wf: "wf_posting x" if "x \<in> set ps" for x using assms(3) that by (auto simp: list_all_iff line_posting_def)
  have same: "last_such (\<lambda>p'. entry_key p' (postingKey (RWI_WordHash p) url)) ps =
      last_such (\<lambda>p'. identifyOutboundPosting p' = identifyOutboundPosting p) ps"
    by (rule last_such_cong) (rule entry_key_same [OF wf [OF assms(9)] wf conjunct1 [OF url]])
  note p' = conjunct1 [OF url] p'b [unfolded same] conjunct2 [OF conjunct2 [OF url]]
  have "rv_urls r1 = rv_urls r \<and> tr_ErrorURL rwi = [] \<and>
        (map_of (rv_urls r) url = None \<longrightarrow> url \<in> set (tr_UnknownURL rwi))"
    by (intro conjI conjunct1 [OF rc] conjunct1 [OF conjunct2 [OF rc]] p'(3))
  then have rows': "map_of (rv_urls r') url \<noteq> None \<and> rv_postings r' = rv_postings r1 \<and> f = None \<and> tr_Result rwi = ResultOK"
    by (rule rows [OF p'(1)])
  show ?thesis unfolding delivered_def
    by (rule exI [of _ url], intro conjI p'(1) conjunct1 [OF rows'], rule exI [of _ p'])
      (use p'(2) rows' in \<open>simp only: simp_thms\<close>)
qed


text \<open>C2: An accepted handoff delivers: whatever the network does to each request, once the sender counts
  a handoff as accepted, every posting of the batch that it does not count as rejected is in the index
  of the receiver (or the last one of the batch with its word and address is), and the receiver has a
  metadata row of its address.\<close>

theorem accepted_posting_delivered:
  assumes "receiver_ok cfg" "url_inv (rg_codec cfg) (rv_urls r)"
    and "list_all line_posting ps" "length ps \<le> MaximumTransferEntries"
    and "\<forall>hashes rows. rowsByHash hashes = Some rows \<longrightarrow> list_all row_plain rows"
    and "Send (network_writer lib net w cfg r ps) rowsByHash peer ps = (receipt, failure)"
    and "handoffAccepted (hr_State receipt)" "r' = after_handoff lib net w cfg r peer ps rowsByHash"
  shows "\<forall>p\<in>set ps. p \<in> set (hr_RejectedPostings receipt) \<or>
    (\<exists>url. RWIPosting_URLHash p = Inr url \<and> map_of (rv_urls r') url \<noteq> None \<and>
       (\<exists>p'. last_such (\<lambda>p'. identifyOutboundPosting p' = identifyOutboundPosting p) ps = Some p' \<and>
          live (rv_postings r') (postingKey (RWI_WordHash p) url) = Some (encodeStoredPosting p')))"
  using delivered_by_handoff [OF assms(1-4) _ assms(6-8)] assms(5) unfolding delivered_def by blast

text \<open>C3: One round of the exchange from one node to another: a posting of the sender's store is still in
  its index or in its journal afterwards, or the directory did not know its address, or the receiver
  has it, or the last posting of the same batch with its word and address, together with a metadata
  row of its address; or an earlier round already handed it off, and its confirmation, which failed
  then, was pending when this round began.\<close>

theorem round_delivers_postings:
  assumes "words_inv (ex_store ex)" "queue_inv (ex_queue ex)" "storable_rows (queue_rows (ex_queue ex))"
    and "feed_env_ok (rn_feed rnd)"
    and "RunOnce (dhtOutboundRWIWords outcome) xcfg rnd ex = (ex', receipt, errs, call)"
    and "posting_content (sw_vault (ex_store ex)) k = Some raw"
    and "receiver_ok cfg" "url_inv (rg_codec cfg) (rv_urls r)"
    and "\<forall>peer ps handoff. call = Some (peer, ps, handoff) \<longrightarrow>
      rn_writer rnd = network_writer lib net w cfg r ps \<and> list_all line_posting ps"
    and "\<forall>hashes rows. rn_rowsByHash rnd hashes = Some rows \<longrightarrow> list_all row_plain rows"
  shows "live (sw_vault (ex_store ex')) k = Some raw \<or>
    live (sw_vault (ex_store ex')) k = None \<and> waiting (sw_vault (ex_store ex')) k = Some raw \<or>
    (\<exists>p. postingRecoveryKey p = Inr k \<and> encodeStoredPosting p = raw \<and>
      (orphan_in (rn_feed rnd) p \<or> p \<in> set (oq_pendingTransferConfirmations (ex_queue ex)) \<or>
       (\<exists>peer ps handoff. call = Some (peer, ps, handoff) \<and>
         delivered ps (after_handoff lib net w cfg r peer ps (rn_rowsByHash rnd)) p)))"
proof -
  let ?pending = "\<lambda>p. p \<in> set (oq_pendingTransferConfirmations (ex_queue ex))"
  have "round_ok words_inv ?pending (ex_queue ex) (ex_store ex)" using assms(1-3) by (simp add: round_ok_def)
  note ok = rwi_words.RunOnce_ok [OF this assms(4,5)]
  show ?thesis
  proof (cases "words_content (ex_store ex') k = Some raw")
    case True
    then show ?thesis by (auto simp: words_content_def posting_content_def split: option.splits)
  next
    case False
    have "words_content (ex_store ex') k = words_content (ex_store ex) k \<or> words_content (ex_store ex') k = None \<and>
      (\<exists>p. (orphan_in (rn_feed rnd) p \<or> ?pending p \<or> sent_by call p) \<and>
        postingRecoveryKey p = Inr k \<and> words_content (ex_store ex) k = Some (encodeStoredPosting p))"
      using conjunct2 [OF ok] unfolding loses_def by (rule spec)
    moreover have "words_content (ex_store ex) k = Some raw" using assms(6) by (simp add: words_content_def)
    ultimately obtain p where p: "orphan_in (rn_feed rnd) p \<or> ?pending p \<or> sent_by call p" "postingRecoveryKey p = Inr k"
        "encodeStoredPosting p = raw"
      using False by auto
    have "\<exists>peer ps handoff. call = Some (peer, ps, handoff) \<and>
         delivered ps (after_handoff lib net w cfg r peer ps (rn_rowsByHash rnd)) p" if sent: "sent_by call p"
    proof -
      obtain peer ps handoff where c: "call = Some (peer, ps, handoff)" and acc: "accepted_by (peer, ps, handoff) p"
        using sent by (auto simp: sent_by_def split: option.splits)
      have h: "length ps \<le> MaximumTransferEntries" "handoff = fst (Send (rn_writer rnd) (rn_rowsByHash rnd) peer ps)"
        using RunOnce_gate [OF assms(5,2)] c by (simp_all add: MaxChunkPostings_def MaximumTransferEntries_def)
      have n: "rn_writer rnd = network_writer lib net w cfg r ps" "list_all line_posting ps"
        using assms(9) c by simp_all
      have a: "handoffAccepted (hr_State handoff)" "p \<in> set (fst (splitHandoffPostings ps (hr_RejectedPostings handoff)))"
        using acc by (simp_all add: accepted_by_def)
      obtain accepted rejected where s: "splitHandoffPostings ps (hr_RejectedPostings handoff) = (accepted, rejected)"
        by (cases "splitHandoffPostings ps (hr_RejectedPostings handoff)")
      note split = split_handoff [OF s]
      have "p \<in> set accepted" using a(2) s by simp
      moreover have "set accepted \<subseteq> set ps" using split by (metis mset_subset_eq_add_left set_mset_mono set_mset_mset)
      moreover have "snd (identifyOutboundPosting p)"
        using p(2) by (auto simp: postingRecoveryKey_def identifyOutboundPosting_def split: sum.splits)
      ultimately have "p \<in> set ps" "p \<notin> set (hr_RejectedPostings handoff)" using split by auto
      moreover obtain failure where "Send (network_writer lib net w cfg r ps) (rn_rowsByHash rnd) peer ps = (handoff, failure)"
        using h(2) n(1) by (cases "Send (rn_writer rnd) (rn_rowsByHash rnd) peer ps") simp
      ultimately have "delivered ps (after_handoff lib net w cfg r peer ps (rn_rowsByHash rnd)) p"
        using delivered_by_handoff [OF assms(7,8) n(2) h(1) _ _ a(1) refl] assms(10) by blast
      then show ?thesis using c by blast
    qed
    then show ?thesis using p by blast
  qed
qed

section \<open>An example\<close>

definition example_identity :: Identity where
  "example_identity = \<lparr>id_Hash = ''AAAAAAAAAAAA'', id_NetworkName = [], id_Name = ''node'', id_Host = [],
     id_Port = 8090, id_Flags = ZeroFlags, id_Version = ''1.0'', id_Start = 0, id_BirthDate = 0,
     id_AuthenticationMode = [], id_AuthenticationEssentials = []\<rparr>"

definition example_env :: request_env where
  "example_env = \<lparr>re_intake = NewIntakeGate 2, re_refused = None, re_gate = NewIntakeGate 1,
     re_known = (\<lambda>_. True), re_capacity = AtCapacity False, re_outcome = TxnOk, re_refuses = (\<lambda>_. False),
     re_readable = True, re_cancelled = (\<lambda>_. False), re_header = no_header\<rparr>"

definition example_receiver_config :: receiver_config where
  "example_receiver_config = \<lparr>rg_rwi = \<lparr>te_identity = example_identity, te_batchCap = 10,
       te_pauseMilliseconds = 1000, te_accept = True\<rparr>,
     rg_url = \<lparr>ue_identity = example_identity, ue_accept = True\<rparr>,
     rg_codec = \<lparr>rx_deflate = id, rx_inflate = Some\<rparr>, rg_env = (\<lambda>_. example_env)\<rparr>"

definition example_target_row :: URIMetadataRow where
  "example_target_row = \<lparr>Meta_Properties = [(''h'', ''BBBBBBCCCCCC'')]\<rparr>"

definition example_node :: receiver where
  "example_node = \<lparr>rv_postings = \<lparr>pv_postings = [], pv_outboundSelected = []\<rparr>,
     rv_urls = [(''BBBBBBCCCCCC'', encodeStoredURLMetadata (rg_codec example_receiver_config) example_target_row)],
     rv_requests = 0\<rparr>"

definition example_network :: handoff_network where
  "example_network = \<lparr>hn_rwi = \<lparr>nc_salt = None, nc_attempt = (\<lambda>_. (AttemptAnswered, False))\<rparr>,
     hn_url = \<lparr>nc_salt = None, nc_attempt = (\<lambda>_. (AttemptAnswered, False))\<rparr>\<rparr>"

definition example_peer_writer :: "string HTTPPeerWriter" where
  "example_peer_writer = NewHTTPPeerWriter [] example_seed False None"

lemma example_receiver_ok: "receiver_ok example_receiver_config"
  by (simp add: receiver_ok_def example_receiver_config_def flate_inverse_def int64_def example_env_def
      header_fits_def no_header_def message_value_chars)

lemma example_target_row: "row_plain example_target_row" "URIMetadataRow_URLHash example_target_row = Inr ''BBBBBBCCCCCC''"
proof -
  have p: "ParseHash ''BBBBBBCCCCCC'' = Inr ''BBBBBBCCCCCC''"
    by (simp add: ParseHash_iff Alphabet_def)
  then show "URIMetadataRow_URLHash example_target_row = Inr ''BBBBBBCCCCCC''"
    by (simp add: URIMetadataRow_URLHash_def urlMetadataHash_def example_target_row_def meta_keys ParseURLHash_def)
  show "row_plain example_target_row" using p
    by (simp add: row_plain_def wf_row_def validateURLMetadataProperties_def urlMetadataHash_def
        example_target_row_def meta_keys ParseURLHash_def validateURLMetadataProperty_def
        urlMetadataIntegerKeys_def fails_def plain_map_def plain_key_def plain_value_def trimmed_graphic
        graphic_def wf_map_def map_keys_def)
qed

lemma example_node_inv: "url_inv (rg_codec example_receiver_config) (rv_urls example_node)"
proof -
  have "flate_inverse (rg_codec example_receiver_config)" using example_receiver_ok by (simp add: receiver_ok_def)
  from row_ok_encode [OF this example_target_row] show ?thesis
    by (simp add: url_inv_def example_node_def wf_map_def)
qed

lemma property_form_chars:
  assumes "c \<in> set (property_form m)"
  shows "c \<in> {CHR '','', CHR ''=''} \<or> (\<exists>(k, v)\<in>set m. c \<in> set k \<or> c \<in> set v)"
proof -
  let ?f = "\<lambda>k. k @ CHR ''='' # get_or [] m k"
  have "c = CHR '','' \<or> (\<exists>k\<in>set (map_keys m). c \<in> set (?f k))"
    using assms set_join_with [of "'',''" "map ?f (sort (map_keys m))"] unfolding property_form_def by fastforce
  then show ?thesis
  proof (elim disjE bexE)
    fix k assume k: "k \<in> set (map_keys m)" "c \<in> set (?f k)"
    then obtain v where v: "map_of m k = Some v" by (auto simp: set_map_keys)
    then show ?thesis using k(2) map_of_SomeD [OF v] by (auto simp: get_or_def)
  qed simp
qed

lemma example_line_posting: "line_posting example_posting"
proof -
  have "CHR 0x0A \<notin> set (property_form (RWI_Properties example_posting))"
    using property_form_chars [of "CHR 0x0A" "RWI_Properties example_posting"]
    by (auto simp: example_posting_def column_defs)
  then show ?thesis using example_posting
    by (simp add: line_posting_def RWIPosting_String_def example_posting_def)
qed


text \<open>The receiver knows the address already, so one call suffices.\<close>

lemma example_receive:
  assumes "same_posting example_posting q"
  shows "\<exists>v. receive_postings example_receiver_config example_env (example_node\<lparr>rv_requests := 1\<rparr>) [q] =
    (example_node\<lparr>rv_requests := 1, rv_postings := v\<rparr>, Inr \<lparr>rc_Busy = False, rc_Pause = 0, rc_UnknownURL = []\<rparr>)"
proof -
  have "RWIPosting_URLHash example_posting = Inr ''BBBBBBCCCCCC''"
    by (simp add: RWIPosting_URLHash_def example_posting_def get_or_def column_defs ParseHash_iff Alphabet_def)
  then have u: "RWIPosting_URLHash q = Inr ''BBBBBBCCCCCC''"
    using same_posting_key(3) [OF assms] example_posting(1) by simp
  have "flate_inverse (rg_codec example_receiver_config)" using example_receiver_ok by (simp add: receiver_ok_def)
  from decode_encode_row [OF this example_target_row(1)] obtain row where
    "url_get (rg_codec example_receiver_config) (rv_urls example_node) ''BBBBBBCCCCCC'' = Inr (Some row)"
    by (auto simp: url_get_def example_node_def)
  then have m: "MissingURLs (rg_codec example_receiver_config) True (rv_urls example_node) [''BBBBBBCCCCCC''] = Inr []"
    by (simp add: MissingURLs_def)
  show ?thesis
    by (simp add: receive_postings_def Receive_def example_env_def storageAtCapacity_def storeEntries_def
        store_entry_def u vault_update_def m) (rule exI, rule refl)
qed

lemma length_Message_Encode:
  "length (Message_Encode m) = sum_list (map (\<lambda>k. length k + length (get_or [] m k) + 2) (map_keys m))"
proof -
  have "length (Message_Encode m) = sum_list (map (\<lambda>k. length k + length (get_or [] m k) + 2) (sort (map_keys m)))"
    by (simp add: Message_Encode_def length_concat comp_def)
  also have "\<dots> = sum_list (map (\<lambda>k. length k + length (get_or [] m k) + 2) (map_keys m))"
    unfolding sum_mset_sum_list [symmetric] by simp
  finally show ?thesis .
qed

lemma example_body_length:
  "length (Message_Encode (response_message no_header
     (TransferRWIResponse_Encode (empty_rwi_response\<lparr>tr_Result := ResultOK\<rparr>)))) \<le> transferMaxBodyBytes"
proof -
  have "length (format_uint 0) = 1" by (subst format_uint.simps) simp
  then show ?thesis
    by (simp add: length_Message_Encode response_message_def InjectResponseHeader_def TransferRWIResponse_Encode_def
        empty_rwi_response_def no_header_def setString_def setInt_def common_fields transfer_fields result_defs
        map_keys_def get_or_def joinHashes_def transferMaxBodyBytes_def format_int_def)
qed

lemma example_served:
  "\<exists>v body. rwi_server example_receiver_config
     (TransferRWIRequest_Form (rwi_request example_peer_writer example_receiver [example_posting])) example_node =
       (example_node\<lparr>rv_requests := 1, rv_postings := v\<rparr>, HttpOK body) \<and>
     length body \<le> transferMaxBodyBytes \<and>
     ParseTransferRWIResponse (ParseMessage body) = Inr (empty_rwi_response\<lparr>tr_Result := ResultOK, tr_UnknownURLFieldPresent := True\<rparr>)"
proof -
  let ?req = "rwi_request example_peer_writer example_receiver [example_posting]"
  have fits: "rwi_request_fits ?req"
    using example_line_posting
    by (simp add: rwi_request_fits_def rwi_request_def example_peer_writer_def NewHTTPPeerWriter_def
        wordCount_def int64_def MaximumTransferEntries_def example_seed_def example_receiver_def hash_or_empty_def
        Hash_Valid_iff Alphabet_def)
  obtain q where q: "ParseTransferRWIRequest (TransferRWIRequest_Form ?req) = Inr (as_received ?req [q])"
      "same_posting example_posting q"
    using rwi_request_received [OF fits] by (auto simp: rwi_request_def list_all2_Cons1)
  obtain v where v: "receive_postings example_receiver_config example_env (example_node\<lparr>rv_requests := 1\<rparr>) [q] =
    (example_node\<lparr>rv_requests := 1, rv_postings := v\<rparr>, Inr \<lparr>rc_Busy = False, rc_Pause = 0, rc_UnknownURL = []\<rparr>)"
    using example_receive [OF q(2)] by blast
  let ?resp = "empty_rwi_response\<lparr>tr_Result := ResultOK\<rparr>"
  have auth: "Authenticates example_identity [] False key iam magic" for key iam magic
    by (simp add: Authenticates_def Authorizes_def identity_access_def example_identity_def
        form_has_def NetworkUnit_def common_fields Let_def)
  have pre: "preflight (rg_rwi example_receiver_config) (as_received ?req [q]) =
      (empty_rwi_response\<lparr>tr_Pause := transferRWIDefaultPause\<rparr>, True)"
    using auth
    by (simp add: preflight_def Let_def example_receiver_config_def as_received_def rwi_request_def
        example_peer_writer_def NewHTTPPeerWriter_def missingFieldResult_def MissingWordCountField_def
        MissingEntryCountField_def MissingIndexesField_def ExceedsEntryLimit_def MaximumTransferEntries_def)
  have req: "tq_Indexes (as_received ?req [q]) = [q]" "tq_YouAre (as_received ?req [q]) = ''AAAAAAAAAAAA''"
    by (simp_all add: as_received_def rwi_request_def example_receiver_def example_seed_def)
  have env: "re_known example_env = (\<lambda>_. True)" "re_gate example_env = Some \<lparr>ig_limit = 1, ig_taken = 0\<rparr>"
    "id_Hash (te_identity (rg_rwi example_receiver_config)) = ''AAAAAAAAAAAA''"
    by (simp_all add: example_env_def NewIntakeGate_def example_receiver_config_def example_identity_def)
  have serve: "ServeTransferRWI (rg_rwi example_receiver_config) (re_known example_env)
      (receive_postings example_receiver_config example_env) (re_gate example_env) (example_node\<lparr>rv_requests := 1\<rparr>)
      (as_received ?req [q]) = (NewIntakeGate 1, example_node\<lparr>rv_requests := 1, rv_postings := v\<rparr>, Inr ?resp)"
    unfolding ServeTransferRWI_def pre prod.case env req receive_rwi_def v
    by (simp add: TryAcquire_def gate_release_def NewIntakeGate_def empty_rwi_response_def)
  have wire: "rwi_server example_receiver_config (TransferRWIRequest_Form ?req) example_node =
      (example_node\<lparr>rv_requests := 1, rv_postings := v\<rparr>,
       HttpOK (Message_Encode (response_message no_header (TransferRWIResponse_Encode ?resp))))"
  proof -
    have e: "rg_env example_receiver_config n = example_env" "rv_requests example_node + 1 = 1" for n
      by (simp_all add: example_receiver_config_def example_node_def)
    have a: "TryAcquire (re_intake example_env) = (Some \<lparr>ig_limit = 2, ig_taken = 1\<rparr>, True)"
      by (simp add: example_env_def NewIntakeGate_def TryAcquire_def)
    have g: "guarded_form example_env form = Inr form" "re_header example_env = no_header" for form
      by (simp_all add: guarded_form_def example_env_def)
    show ?thesis unfolding rwi_server_def Let_def serve_wire_def e a g prod.case bool.case sum.case q(1) serve snd_conv ..
  qed
  have "ParseTransferRWIResponse (ParseMessage (Message_Encode (response_message no_header
      (TransferRWIResponse_Encode ?resp)))) = Inr (?resp\<lparr>tr_Header := no_header, tr_UnknownURLFieldPresent := True\<rparr>)"
    by (rule rwi_answer_read)
      (simp_all add: header_fits_def no_header_def message_value_chars int64_def empty_rwi_response_def rwi_results_def)
  then show ?thesis using wire example_body_length by (auto simp: empty_rwi_response_def)
qed


lemma example_answer:
  "\<exists>r1. rwi_call example_lib example_network example_peer_writer example_receiver_config example_node
     example_receiver [example_posting] =
     (r1, empty_rwi_response\<lparr>tr_Result := ResultOK, tr_UnknownURLFieldPresent := True\<rparr>, None)"
proof -
  obtain v body where s: "rwi_server example_receiver_config
     (TransferRWIRequest_Form (rwi_request example_peer_writer example_receiver [example_posting])) example_node =
       (example_node\<lparr>rv_requests := 1, rv_postings := v\<rparr>, HttpOK body)"
     "length body \<le> transferMaxBodyBytes"
     "ParseTransferRWIResponse (ParseMessage body) = Inr (empty_rwi_response\<lparr>tr_Result := ResultOK, tr_UnknownURLFieldPresent := True\<rparr>)"
    using example_served by blast
  obtain t where t: "ProtocolEndpoints example_lib example_receiver PathTransferRWI False = Some [t]"
    by (simp add: ProtocolEndpoints_def AdvertisedHosts_def seed_hosts_def option_list_def appendHost_def
        canonicalAdvertisedHost_def Host_String_def maximumAdvertisedHosts_def example_lib_def
        example_receiver_def example_seed_def empty_seed_def host_endpoints_def Let_def)
  have sign: "writer_sign example_peer_writer None form = Some form" for form
    by (simp add: writer_sign_def example_peer_writer_def NewHTTPPeerWriter_def NetworkAuthenticationSaltedMagic_def)
  have h: "hw_preferHTTPS example_peer_writer = False" "hn_rwi example_network = \<lparr>nc_salt = None, nc_attempt = (\<lambda>_. (AttemptAnswered, False))\<rparr>"
    by (simp_all add: example_peer_writer_def NewHTTPPeerWriter_def example_network_def)
  have "postTransferTo (rwi_server example_receiver_config
     (TransferRWIRequest_Form (rwi_request example_peer_writer example_receiver [example_posting])))
     ParseTransferRWIResponse AttemptAnswered example_node = (example_node\<lparr>rv_requests := 1, rv_postings := v\<rparr>,
       Inr (empty_rwi_response\<lparr>tr_Result := ResultOK, tr_UnknownURLFieldPresent := True\<rparr>))"
    using s by (simp add: postTransferTo_def)
  then show ?thesis by (simp add: rwi_call_def TransferRWI_def h sign postTransfer_def t)
qed

lemma example_handoff:
  "\<exists>receipt. Send (network_writer example_lib example_network example_peer_writer example_receiver_config
      example_node [example_posting]) (\<lambda>_. None) example_receiver [example_posting] = (receipt, None) \<and>
    handoffAccepted (hr_State receipt) \<and> hr_RejectedPostings receipt = []"
proof -
  obtain r1 where "rwi_call example_lib example_network example_peer_writer example_receiver_config example_node
     example_receiver [example_posting] =
     (r1, empty_rwi_response\<lparr>tr_Result := ResultOK, tr_UnknownURLFieldPresent := True\<rparr>, None)"
    using example_answer by blast
  then have "pw_TransferRWI (network_writer example_lib example_network example_peer_writer example_receiver_config
      example_node [example_posting]) example_receiver [example_posting] =
      (empty_rwi_response\<lparr>tr_Result := ResultOK, tr_UnknownURLFieldPresent := True\<rparr>, None)"
    by (simp add: network_writer_def)
  then show ?thesis
    by (simp add: Send_def Let_def empty_rwi_response_def rejected_without_def rejected_postings_def handoffAccepted_def
        split: sum.split)
qed

lemma accepted_posting_delivered_witness:
  "\<exists>r' url p'. r' = after_handoff example_lib example_network example_peer_writer example_receiver_config
      example_node example_receiver [example_posting] (\<lambda>_. None) \<and>
    RWIPosting_URLHash example_posting = Inr url \<and> map_of (rv_urls r') url \<noteq> None \<and>
    live (rv_postings r') (postingKey (RWI_WordHash example_posting) url) = Some (encodeStoredPosting example_posting)"
proof -
  obtain receipt where s: "Send (network_writer example_lib example_network example_peer_writer example_receiver_config
      example_node [example_posting]) (\<lambda>_. None) example_receiver [example_posting] = (receipt, None)"
    "handoffAccepted (hr_State receipt)" "hr_RejectedPostings receipt = []" using example_handoff by blast
  from accepted_posting_delivered [OF example_receiver_ok example_node_inv _ _ _ s(1,2) refl] s(3)
  show ?thesis by (simp add: example_line_posting MaximumTransferEntries_def)
qed


definition example_delivery_exchange :: "(string, stored_words) exchange" where
  "example_delivery_exchange = \<lparr>ex_queue = example_queue, ex_retry = NewOutboundRetryPolicy example_retry,
     ex_store = \<lparr>sw_vault = \<lparr>pv_postings = [],
       pv_outboundSelected = [(example_key, encodeStoredPosting example_posting)]\<rparr>, sw_transactions = 0\<rparr>\<rparr>"

definition example_delivery_round :: "string exchange_round" where
  "example_delivery_round = example_round\<lparr>rn_writer := network_writer example_lib example_network
     example_peer_writer example_receiver_config example_node [example_posting], rn_rowsByHash := (\<lambda>_. None)\<rparr>"

lemma example_delivery_call:
  assumes "RunOnce source (example_exchange_config\<lparr>xc_Feed := None\<rparr>) example_delivery_round example_delivery_exchange =
      (ex', receipt, errs, call)"
  shows "\<exists>handoff. call = Some (example_receiver, [example_posting], handoff)"
proof -
  have r: "\<exists>feed. distribute_round source (example_exchange_config\<lparr>xc_Feed := None\<rparr>) example_delivery_round feed
      example_delivery_exchange = (ex', receipt, errs, call)"
    using assms by (auto simp: RunOnce_def feed_due_def)
  have q: "ex_queue example_delivery_exchange = example_queue" by (simp add: example_delivery_exchange_def)
  have "queue_inv (ex_queue example_delivery_exchange)" "\<not> localCompletionPending (ex_queue example_delivery_exchange)"
    "map_of (oq_chunks (ex_queue example_delivery_exchange)) (sd_Hash example_receiver) =
       Some \<lparr>oc_Peer = example_receiver, oc_Postings = [example_posting]\<rparr>"
    unfolding q using example_queue_inv by (simp_all add: example_queue_def localCompletionPending_def NewOutboundQueue_def)
  moreover have "gp_Open (EvaluateGates (rn_gates example_delivery_round)
      (xc_Gates (example_exchange_config\<lparr>xc_Feed := None\<rparr>)))"
    using example_gates_open by (simp add: example_delivery_round_def)
  moreover have "Ready (ex_retry example_delivery_exchange) (sd_Hash example_receiver) (rn_at example_delivery_round)"
    by (simp add: Ready_def example_delivery_exchange_def NewOutboundRetryPolicy_def)
  ultimately obtain target postings handoff where c: "call = Some (target, postings, handoff)"
      "map_of (oq_chunks example_queue) (sd_Hash target) = Some \<lparr>oc_Peer = target, oc_Postings = postings\<rparr>"
    using r distribute_round_progress [of example_delivery_exchange] unfolding q by blast
  then show ?thesis by (simp add: example_queue_def NewOutboundQueue_def split: if_splits)
qed

lemma round_delivers_postings_witness:
  "case RunOnce (dhtOutboundRWIWords (\<lambda>_. TxnOk)) (example_exchange_config\<lparr>xc_Feed := None\<rparr>)
      example_delivery_round example_delivery_exchange of (ex', receipt, errs, call) \<Rightarrow>
    live (sw_vault (ex_store ex')) example_key = Some (encodeStoredPosting example_posting) \<or>
    live (sw_vault (ex_store ex')) example_key = None \<and>
      waiting (sw_vault (ex_store ex')) example_key = Some (encodeStoredPosting example_posting) \<or>
    (\<exists>p. postingRecoveryKey p = Inr example_key \<and> encodeStoredPosting p = encodeStoredPosting example_posting \<and>
      (orphan_in (rn_feed example_delivery_round) p \<or>
       p \<in> set (oq_pendingTransferConfirmations (ex_queue example_delivery_exchange)) \<or> (\<exists>peer ps handoff. call = Some (peer, ps, handoff) \<and>
         delivered ps (after_handoff example_lib example_network example_peer_writer example_receiver_config
           example_node peer ps (rn_rowsByHash example_delivery_round)) p)))"
proof -
  let ?ex = "example_delivery_exchange" and ?rnd = "example_delivery_round"
  let ?R = "RunOnce (dhtOutboundRWIWords (\<lambda>_. TxnOk)) (example_exchange_config\<lparr>xc_Feed := None\<rparr>) ?rnd ?ex"
  obtain ex' receipt errs call where e: "?R = (ex', receipt, errs, call)" by (cases ?R)
  have inv: "words_inv (ex_store ?ex)" "queue_inv (ex_queue ?ex)"
    using example_entry example_queue_inv
    by (simp_all add: words_inv_def vault_inv_def wf_map_def example_delivery_exchange_def example_queue_def NewOutboundQueue_def)
  have rows: "storable_rows (queue_rows (ex_queue ?ex))"
    using example_storable
    by (simp add: storable_rows_def queue_rows_def queued_postings_def example_delivery_exchange_def
        example_queue_def NewOutboundQueue_def)
  have feed: "feed_env_ok (rn_feed ?rnd)"
    by (simp add: feed_env_ok_def example_delivery_round_def example_round_def range_order_def)
  have content: "posting_content (sw_vault (ex_store ?ex)) example_key = Some (encodeStoredPosting example_posting)"
    by (simp add: posting_content_def example_delivery_exchange_def)
  have call: "\<forall>peer ps handoff. call = Some (peer, ps, handoff) \<longrightarrow>
      rn_writer ?rnd = network_writer example_lib example_network example_peer_writer example_receiver_config
        example_node ps \<and> list_all line_posting ps"
    using example_delivery_call [OF e] example_line_posting by (auto simp: example_delivery_round_def)
  have "\<forall>hashes rows. rn_rowsByHash ?rnd hashes = Some rows \<longrightarrow> list_all row_plain rows"
    by (simp add: example_delivery_round_def)
  from round_delivers_postings [OF inv rows feed e content example_receiver_ok example_node_inv call this]
  show ?thesis unfolding e prod.case .
qed

end
