(* ===== verification/OrderStore.thy ===== *)
theory OrderStore
  imports GoLib Md5
begin

text \<open>
  The durable state of the crawl order queue (\<^verbatim>\<open>yagonode/internal/crawlbroker\<close>, with the orders of
  \<^verbatim>\<open>yagocrawlcontract\<close>) and the transactions on it: the pending orders under their sequence numbers
  with an index for each priority, the leases, and the collections that the other theories work on.
  A collection is a map whose scans follow the order of the keys. The JSON form of an order and
  SHA-256 are parameters, and so is the byte form of the values: a collection holds the values
  themselves. What the vault makes of an update is an argument of each operation, and an instant is its
  number of nanoseconds since 1970, as the stored values have it.
\<close>

section \<open>Crawl orders\<close>

record CrawlProfile =
  cp_Handle :: string
  cp_Name :: string
  cp_MaxPagesPerHost :: int
  cp_MaxPagesPerRun :: "int option"

text \<open>Of the profile of an order the fields that the queue reads; the requests are their addresses.\<close>

record CrawlOrder =
  co_Provenance :: bytes
  co_Priority :: string
  co_Profile :: CrawlProfile
  co_Requests :: "string list"

definition CrawlOrderPriorityNormal :: string where "CrawlOrderPriorityNormal = []"
definition CrawlOrderPriorityAutomaticDiscovery :: string where
  "CrawlOrderPriorityAutomaticDiscovery = ''automatic_discovery''"
definition AutomaticDiscoveryPriorityBurst :: u64 where "AutomaticDiscoveryPriorityBurst = 3"
definition MaximumHeartbeatActiveLeases :: nat where "MaximumHeartbeatActiveLeases = 1024"
definition UnlimitedPagesPerHost :: int where "UnlimitedPagesPerHost = -1"
definition DefaultMaxPagesPerRun :: int where "DefaultMaxPagesPerRun = 50000"

lemma priorities_differ [simp]:
  "CrawlOrderPriorityAutomaticDiscovery \<noteq> CrawlOrderPriorityNormal"
  "CrawlOrderPriorityNormal \<noteq> CrawlOrderPriorityAutomaticDiscovery"
  by (simp_all add: CrawlOrderPriorityAutomaticDiscovery_def CrawlOrderPriorityNormal_def)

definition CrawlProfile_EffectiveMaxPagesPerRun :: "CrawlProfile \<Rightarrow> int \<Rightarrow> int" where
  "CrawlProfile_EffectiveMaxPagesPerRun p fallback =
     (case cp_MaxPagesPerRun p of Some n \<Rightarrow> n | None \<Rightarrow> max 0 fallback)"

definition CrawlOrder_EffectiveMaxPagesPerRun :: "CrawlOrder \<Rightarrow> int \<Rightarrow> int" where
  "CrawlOrder_EffectiveMaxPagesPerRun order fallback =
     (let maximum = CrawlProfile_EffectiveMaxPagesPerRun (co_Profile order) fallback
      in if co_Priority order \<noteq> CrawlOrderPriorityAutomaticDiscovery \<or>
            cp_MaxPagesPerHost (co_Profile order) \<le> 0 then maximum
         else if maximum = 0 \<or> maximum > cp_MaxPagesPerHost (co_Profile order)
         then cp_MaxPagesPerHost (co_Profile order)
         else maximum)"

definition ValidCrawlRunLimits :: "int \<Rightarrow> int \<Rightarrow> bool" where
  "ValidCrawlRunLimits maxPagesPerHost maxPagesPerRun \<longleftrightarrow>
     (maxPagesPerHost = UnlimitedPagesPerHost \<or> maxPagesPerHost > 0) \<and> maxPagesPerRun \<ge> 0"

record CrawlRunTally =
  ct_Fetched :: u64
  ct_Indexed :: u64
  ct_Failed :: u64
  ct_RobotsDenied :: u64
  ct_Duplicates :: u64
  ct_Pending :: u64

record CrawlURLOutcome =
  cu_Sequence :: u64
  cu_URL :: string
  cu_Class :: string
  cu_ObservedAt :: go_time
  cu_HTTPStatus :: u32
  cu_Reason :: string
  cu_WorkerSessionID :: string

definition CrawlRunFinished :: string where "CrawlRunFinished = ''finished''"
definition CrawlRunCancelled :: string where "CrawlRunCancelled = ''cancelled''"

record CrawlRunProgress =
  cr_RunID :: string
  cr_WorkerID :: string
  cr_ProfileHandle :: string
  cr_ProfileName :: string
  cr_State :: string
  cr_Tally :: CrawlRunTally
  cr_RecentOutcomes :: "CrawlURLOutcome list"
  cr_PagesPerMinute :: u32
  cr_RateKnown :: bool
  cr_MaxPagesPerHost :: int
  cr_MaxPagesPerRun :: int
  cr_LimitsKnown :: bool

text \<open>\<^verbatim>\<open>encoding/json\<close> on orders and \<^verbatim>\<open>crypto/sha256\<close>.\<close>

record order_lib =
  ol_marshal :: "CrawlOrder \<Rightarrow> bytes option"
  ol_unmarshal :: "bytes \<Rightarrow> CrawlOrder option"
  ol_sha256 :: "bytes \<Rightarrow> bytes"

section \<open>The collections\<close>

record leaseRecord =
  lr_OrderData :: bytes
  lr_Priority :: string
  lr_WorkerID :: string
  lr_WorkerSessionID :: string
  lr_Deferred :: bool
  lr_ExpiresAtUnixNano :: int
  lr_DiscoveryKey :: string
  lr_DiscoverySequence :: u64

record leaseControlTarget =
  lt_WorkerID :: string
  lt_RunID :: string

datatype leaseSettlementOutcome = LeaseSettlementAcknowledged | LeaseSettlementRequeued

record leaseSettlementRecord =
  ls_Outcome :: leaseSettlementOutcome
  ls_Sequence :: u64
  ls_SettledAtUnixNano :: int
  ls_OrderIdentity :: bytes
  ls_WorkerSessionID :: string
  ls_Progress :: CrawlRunProgress
  ls_Terminal :: bool
  ls_ProgressDelivered :: bool
  ls_FinalizedAtUnixNano :: int

record settlementIntent =
  si_Lease :: leaseRecord
  si_Target :: leaseControlTarget
  si_Settlement :: leaseSettlementRecord

text \<open>The keys of the collection of sequence numbers.\<close>

datatype seq_key = SeqNext | PriorityIndexNext | PriorityIndexFormat | PriorityBurst
  | LeaseSettlementNext | LeaseSettlementMigrationNext

record durable =
  dq_orders :: "(u64, bytes) gomap"
  dq_normalIndex :: "(u64, bytes) gomap"
  dq_automaticIndex :: "(u64, bytes) gomap"
  dq_seq :: "(seq_key, u64) gomap"
  dq_keys :: "(string, u64) gomap"
  dq_activeDiscovery :: "(string, u64) gomap"
  dq_pendingDiscovery :: "(u64, string) gomap"
  dq_leasedDiscovery :: "(string, string) gomap"
  dq_discoveryIntents :: "(string, bytes) gomap"
  dq_discoverySettlements :: "(string, settlementIntent) gomap"
  dq_leases :: "(string, leaseRecord) gomap"
  dq_leaseSettlements :: "(string, leaseSettlementRecord) gomap"
  dq_settlementOrder :: "(u64, string) gomap"
  dq_settlementExpiry :: "(int \<times> u64, string) gomap"
  dq_controlTargets :: "(string, leaseControlTarget) gomap"
  dq_completedTargets :: "(string, leaseControlTarget) gomap"

text \<open>A scan visits the keys in ascending order.\<close>

definition scan :: "('k::linorder, 'v) gomap \<Rightarrow> ('k \<times> 'v) list" where
  "scan m = map (\<lambda>k. (k, the (map_of m k))) (sort (map_keys m))"

section \<open>Transactions\<close>

datatype queue_error = VaultFailed | BadCrawlOrder | EmptyDiscoveryKey | LeaseLost
  | LeaseDispositionConflict | GrowthRefused | SequenceBehindOrders | SettlementIndexMismatch
  | SettlementSequenceMismatch | InvalidTerminalDefinition | InvalidFinalization
  | BadPriorityFormat | WatermarkAhead | QueueCancelled

text \<open>An update either commits or leaves the store as it was.\<close>

datatype txn = Commits | Aborts

type_synonym 'r tx_result = "(queue_error, durable \<times> 'r) result"

definition vault_txn :: "txn \<Rightarrow> (durable \<Rightarrow> 'r tx_result) \<Rightarrow> durable \<Rightarrow> durable \<times> (queue_error, 'r) result" where
  "vault_txn outcome f d = (case f d of
     Inl e \<Rightarrow> (d, Inl e)
   | Inr (d', r) \<Rightarrow> if outcome = Commits then (d', Inr r) else (d, Inl VaultFailed))"

definition vault_view :: "txn \<Rightarrow> (durable \<Rightarrow> (queue_error, 'r) result) \<Rightarrow> durable \<Rightarrow> (queue_error, 'r) result" where
  "vault_view outcome f d = (if outcome = Commits then f d else Inl VaultFailed)"

definition bind_tx :: "'r tx_result \<Rightarrow> (durable \<Rightarrow> 'r \<Rightarrow> 's tx_result) \<Rightarrow> 's tx_result" where
  "bind_tx m f = (case m of Inl e \<Rightarrow> Inl e | Inr (d, r) \<Rightarrow> f d r)"

definition seq_get :: "durable \<Rightarrow> seq_key \<Rightarrow> u64" where
  "seq_get d k = get_or 0 (dq_seq d) k"

definition seq_put :: "seq_key \<Rightarrow> u64 \<Rightarrow> durable \<Rightarrow> durable" where
  "seq_put k n d = d\<lparr>dq_seq := AList.update k n (dq_seq d)\<rparr>"

definition decode_order :: "order_lib \<Rightarrow> bytes \<Rightarrow> (queue_error, CrawlOrder) result" where
  "decode_order lib data = (case ol_unmarshal lib data of None \<Rightarrow> Inl BadCrawlOrder | Some order \<Rightarrow> Inr order)"

section \<open>Pending orders\<close>

definition priorityIndexMarker :: bytes where "priorityIndexMarker = [1]"

definition index_put :: "string \<Rightarrow> u64 \<Rightarrow> durable \<Rightarrow> durable" where
  "index_put priority key d =
     (if priority = CrawlOrderPriorityAutomaticDiscovery
      then d\<lparr>dq_automaticIndex := AList.update key priorityIndexMarker (dq_automaticIndex d)\<rparr>
      else d\<lparr>dq_normalIndex := AList.update key priorityIndexMarker (dq_normalIndex d)\<rparr>)"

definition index_delete :: "bool \<Rightarrow> u64 \<Rightarrow> durable \<Rightarrow> durable" where
  "index_delete automatic key d =
     (if automatic then d\<lparr>dq_automaticIndex := AList.delete key (dq_automaticIndex d)\<rparr>
      else d\<lparr>dq_normalIndex := AList.delete key (dq_normalIndex d)\<rparr>)"

definition enqueueTx :: "bytes \<Rightarrow> string \<Rightarrow> durable \<Rightarrow> durable \<times> u64" where
  "enqueueTx data priority d =
     (let seq_next = seq_get d SeqNext;
          d = d\<lparr>dq_orders := AList.update seq_next data (dq_orders d)\<rparr>;
          d = index_put priority seq_next d;
          d = seq_put SeqNext (seq_next + 1) d
      in (seq_put PriorityIndexNext (seq_next + 1) d, seq_next))"

definition persistedOrderPriority :: "order_lib \<Rightarrow> bytes \<Rightarrow> string \<Rightarrow> string" where
  "persistedOrderPriority lib data priority =
     (if priority = CrawlOrderPriorityAutomaticDiscovery then priority
      else (case ol_unmarshal lib data of
        Some order \<Rightarrow> if co_Priority order = CrawlOrderPriorityAutomaticDiscovery
          then CrawlOrderPriorityAutomaticDiscovery else CrawlOrderPriorityNormal
      | None \<Rightarrow> CrawlOrderPriorityNormal))"

text \<open>\<^verbatim>\<open>publishEncodedOrder\<close>: the key was seen before (in the view that admits the growth of the
  queue), or the growth is refused, or the order is enqueued unless the key was seen meanwhile. The
  flag tells whether the growth admission of the queue refuses. The accesses to the vault take their
  outcomes from a sequence, by their position in the operation.\<close>

definition orderKeyAccepted :: "txn \<Rightarrow> durable \<Rightarrow> string \<Rightarrow> (queue_error, bool) result" where
  "orderKeyAccepted outcome d key =
     (if key = [] then Inr False
      else vault_view outcome (\<lambda>d. Inr (map_of (dq_keys d) key \<noteq> None)) d)"

definition admitOrderGrowth :: "(nat \<Rightarrow> txn) \<Rightarrow> bool \<Rightarrow> durable \<Rightarrow> string \<Rightarrow> (queue_error, bool) result" where
  "admitOrderGrowth outcome refused d key = (case orderKeyAccepted (outcome 0) d key of
     Inl e \<Rightarrow> Inl e
   | Inr True \<Rightarrow> Inr True
   | Inr False \<Rightarrow>
       if refused
       then (case orderKeyAccepted (outcome 1) d key of
         Inl e \<Rightarrow> Inl e
       | Inr True \<Rightarrow> Inr True
       | Inr False \<Rightarrow> Inl GrowthRefused)
       else Inr False)"

definition publish_tx :: "string \<Rightarrow> bytes \<Rightarrow> string \<Rightarrow> durable \<Rightarrow> bool tx_result" where
  "publish_tx key data priority d =
     (if key \<noteq> [] \<and> map_of (dq_keys d) key \<noteq> None then Inr (d, True)
      else (case enqueueTx data priority d of
        (d, seq) \<Rightarrow> Inr ((if key \<noteq> [] then d\<lparr>dq_keys := AList.update key seq (dq_keys d)\<rparr> else d), False)))"

definition publishEncodedOrder ::
  "(nat \<Rightarrow> txn) \<Rightarrow> bool \<Rightarrow> string \<Rightarrow> bytes \<Rightarrow> string \<Rightarrow> durable \<Rightarrow> durable \<times> (queue_error, bool) result" where
  "publishEncodedOrder outcome refused key data priority d =
     (case admitOrderGrowth outcome refused d key of
        Inl e \<Rightarrow> (d, Inl e)
      | Inr True \<Rightarrow> (d, Inr True)
      | Inr False \<Rightarrow> vault_txn (outcome 2) (publish_tx key data priority) d)"

section \<open>Choosing a pending order\<close>

record pendingOrderHead =
  ph_key :: u64
  ph_data :: bytes
  ph_automatic :: bool

text \<open>The first entry of an index that has its order, with the keys of the entries before it, which
  have none.\<close>

fun pending_head :: "(u64, bytes) gomap \<Rightarrow> bool \<Rightarrow> u64 list \<Rightarrow> pendingOrderHead option \<times> u64 list" where
  "pending_head orders automatic [] = (None, [])"
| "pending_head orders automatic (key # keys) = (case map_of orders key of
     None \<Rightarrow> (case pending_head orders automatic keys of (head, stale) \<Rightarrow> (head, key # stale))
   | Some data \<Rightarrow> (Some \<lparr>ph_key = key, ph_data = data, ph_automatic = automatic\<rparr>, []))"

definition pendingHead :: "durable \<Rightarrow> bool \<Rightarrow> pendingOrderHead option \<times> u64 list" where
  "pendingHead d automatic = pending_head (dq_orders d) automatic
     (map fst (scan (if automatic then dq_automaticIndex d else dq_normalIndex d)))"

definition prunePriorityIndexEntries :: "bool \<Rightarrow> u64 list \<Rightarrow> durable \<Rightarrow> durable" where
  "prunePriorityIndexEntries automatic keys d = fold (index_delete automatic) keys d"

text \<open>The chosen order, the burst after it and whether the burst is to be stored.\<close>

definition choose_head ::
  "bool \<Rightarrow> u64 \<Rightarrow> pendingOrderHead option \<Rightarrow> pendingOrderHead option \<Rightarrow> pendingOrderHead option \<times> u64 \<times> bool" where
  "choose_head prioritizeAutomatic burst normal automatic =
     (case (normal, automatic) of
        (None, None) \<Rightarrow> (None, burst, False)
      | (Some n, None) \<Rightarrow> (Some n, 0, burst \<noteq> 0)
      | (None, Some a) \<Rightarrow> (Some a, 0, burst \<noteq> 0)
      | (Some n, Some a) \<Rightarrow>
          if \<not> prioritizeAutomatic
          then (if ph_key n \<le> ph_key a then (Some n, 0, burst \<noteq> 0) else (Some a, 0, burst \<noteq> 0))
          else if burst < AutomaticDiscoveryPriorityBurst then (Some a, burst + 1, True)
          else (Some n, 0, burst \<noteq> 0))"

definition selectPendingOrder ::
  "bool \<Rightarrow> durable \<Rightarrow> durable \<times> pendingOrderHead option \<times> u64 \<times> bool" where
  "selectPendingOrder prioritizeAutomatic d =
     (case pendingHead d False of (normal, staleNormal) \<Rightarrow>
      (case pendingHead d True of (automatic, staleAutomatic) \<Rightarrow>
         let d = prunePriorityIndexEntries False staleNormal d;
             d = prunePriorityIndexEntries True staleAutomatic d
         in (d, choose_head prioritizeAutomatic (seq_get d PriorityBurst) normal automatic)))"

definition orderPriority :: "bool \<Rightarrow> string" where
  "orderPriority automatic =
     (if automatic then CrawlOrderPriorityAutomaticDiscovery else CrawlOrderPriorityNormal)"

end
