(* ===== verification/DiscoveryKeys.thy ===== *)
theory DiscoveryKeys
  imports OrderStore
begin

text \<open>
  The addresses that automatic discovery has in the crawl order queue
  (\<^verbatim>\<open>yagonode/internal/crawlbroker/automatic_discovery_*.go\<close>): an address is active while an order for
  it is pending or leased, so that it is not seeded twice. The keys of the active, the pending and
  the leased ones are kept beside the orders and repaired from them. The lemmas show that the view and
  the repair agree on whether an address is outstanding, so that one round of an admission is enough.
\<close>

section \<open>Lookups\<close>

definition automaticDiscoveryOrderMatchesKey :: "order_lib \<Rightarrow> bytes \<Rightarrow> string \<Rightarrow> (queue_error, bool) result" where
  "automaticDiscoveryOrderMatchesKey lib data key = (case decode_order lib data of
     Inl e \<Rightarrow> Inl e
   | Inr order \<Rightarrow> Inr (co_Priority order = CrawlOrderPriorityAutomaticDiscovery \<and> key \<in> set (co_Requests order)))"

definition activeAutomaticDiscoveryForOrderTx ::
  "order_lib \<Rightarrow> durable \<Rightarrow> bytes \<Rightarrow> u64 \<Rightarrow> (queue_error, string option) result" where
  "activeAutomaticDiscoveryForOrderTx lib d data sequence = (case decode_order lib data of
     Inl e \<Rightarrow> Inl e
   | Inr order \<Rightarrow>
       Inr (if co_Priority order \<noteq> CrawlOrderPriorityAutomaticDiscovery then None
            else List.find (\<lambda>url. map_of (dq_activeDiscovery d) url = Some sequence) (co_Requests order)))"

fun scan_leases_for ::
  "order_lib \<Rightarrow> string \<Rightarrow> (string \<times> leaseRecord) list \<Rightarrow> (queue_error, (string \<times> leaseRecord) option) result" where
  "scan_leases_for lib key [] = Inr None"
| "scan_leases_for lib key ((leaseID, record) # rest) =
     (if lr_DiscoveryKey record = key then Inr (Some (leaseID, record))
      else (case automaticDiscoveryOrderMatchesKey lib (lr_OrderData record) key of
        Inl e \<Rightarrow> Inl e
      | Inr True \<Rightarrow> Inr (Some (leaseID, record))
      | Inr False \<Rightarrow> scan_leases_for lib key rest))"

definition indexedAutomaticDiscoveryLeaseTx ::
  "order_lib \<Rightarrow> durable \<Rightarrow> string \<Rightarrow> string \<Rightarrow> (queue_error, (string \<times> leaseRecord) option) result" where
  "indexedAutomaticDiscoveryLeaseTx lib d key leaseID = (case map_of (dq_leases d) leaseID of
     None \<Rightarrow> Inr None
   | Some record \<Rightarrow>
       if lr_DiscoveryKey record = key then Inr (Some (leaseID, record))
       else (case automaticDiscoveryOrderMatchesKey lib (lr_OrderData record) key of
         Inl e \<Rightarrow> Inl e
       | Inr True \<Rightarrow> Inr (Some (leaseID, record))
       | Inr False \<Rightarrow> Inr None))"

definition automaticDiscoveryLeaseTx ::
  "order_lib \<Rightarrow> durable \<Rightarrow> string \<Rightarrow> (queue_error, (string \<times> leaseRecord) option) result" where
  "automaticDiscoveryLeaseTx lib d key = (case map_of (dq_leasedDiscovery d) key of
     None \<Rightarrow> scan_leases_for lib key (scan (dq_leases d))
   | Some leaseID \<Rightarrow> (case indexedAutomaticDiscoveryLeaseTx lib d key leaseID of
       Inl e \<Rightarrow> Inl e
     | Inr (Some found) \<Rightarrow> Inr (Some found)
     | Inr None \<Rightarrow> scan_leases_for lib key (scan (dq_leases d))))"

fun scan_pending_for ::
  "order_lib \<Rightarrow> (u64, bytes) gomap \<Rightarrow> string \<Rightarrow> u64 list \<Rightarrow> (queue_error, u64 option) result" where
  "scan_pending_for lib orders key [] = Inr None"
| "scan_pending_for lib orders key (sequence # rest) = (case map_of orders sequence of
     None \<Rightarrow> scan_pending_for lib orders key rest
   | Some data \<Rightarrow> (case automaticDiscoveryOrderMatchesKey lib data key of
       Inl e \<Rightarrow> Inl e
     | Inr True \<Rightarrow> Inr (Some sequence)
     | Inr False \<Rightarrow> scan_pending_for lib orders key rest))"

definition automaticDiscoveryPendingSequenceTx ::
  "order_lib \<Rightarrow> durable \<Rightarrow> string \<Rightarrow> (queue_error, u64 option) result" where
  "automaticDiscoveryPendingSequenceTx lib d key =
     scan_pending_for lib (dq_orders d) key (map fst (scan (dq_automaticIndex d)))"

section \<open>Changes of the keys\<close>

definition set_active :: "string \<Rightarrow> u64 \<Rightarrow> durable \<Rightarrow> durable" where
  "set_active key sequence d = d\<lparr>dq_activeDiscovery := AList.update key sequence (dq_activeDiscovery d)\<rparr>"

definition set_pending :: "u64 \<Rightarrow> string \<Rightarrow> durable \<Rightarrow> durable" where
  "set_pending sequence key d = d\<lparr>dq_pendingDiscovery := AList.update sequence key (dq_pendingDiscovery d)\<rparr>"

definition set_lease :: "string \<Rightarrow> leaseRecord \<Rightarrow> durable \<Rightarrow> durable" where
  "set_lease leaseID record d = d\<lparr>dq_leases := AList.update leaseID record (dq_leases d)\<rparr>"

definition delete_lease :: "string \<Rightarrow> durable \<Rightarrow> durable" where
  "delete_lease leaseID d = d\<lparr>dq_leases := AList.delete leaseID (dq_leases d)\<rparr>"

definition recordLeasedAutomaticDiscoveryTx :: "string \<Rightarrow> string \<Rightarrow> durable \<Rightarrow> durable" where
  "recordLeasedAutomaticDiscoveryTx key leaseID d =
     (if map_of (dq_leasedDiscovery d) key = Some leaseID then d
      else d\<lparr>dq_leasedDiscovery := AList.update key leaseID (dq_leasedDiscovery d)\<rparr>)"

definition releaseLeasedAutomaticDiscoveryTx :: "string \<Rightarrow> leaseRecord \<Rightarrow> durable \<Rightarrow> durable" where
  "releaseLeasedAutomaticDiscoveryTx leaseID record d =
     (if lr_DiscoveryKey record = [] \<or> map_of (dq_leasedDiscovery d) (lr_DiscoveryKey record) \<noteq> Some leaseID then d
      else d\<lparr>dq_leasedDiscovery := AList.delete (lr_DiscoveryKey record) (dq_leasedDiscovery d)\<rparr>)"

definition releaseActiveAutomaticDiscoveryTx :: "leaseRecord \<Rightarrow> durable \<Rightarrow> durable" where
  "releaseActiveAutomaticDiscoveryTx record d =
     (if lr_DiscoveryKey record = [] \<or>
         map_of (dq_activeDiscovery d) (lr_DiscoveryKey record) \<noteq> Some (lr_DiscoverySequence record) then d
      else d\<lparr>dq_activeDiscovery := AList.delete (lr_DiscoveryKey record) (dq_activeDiscovery d)\<rparr>)"

definition recordRequeuedAutomaticDiscoveryTx :: "string \<Rightarrow> leaseRecord \<Rightarrow> u64 \<Rightarrow> durable \<Rightarrow> durable" where
  "recordRequeuedAutomaticDiscoveryTx leaseID record sequence d =
     (if lr_DiscoveryKey record = [] then d
      else set_pending sequence (lr_DiscoveryKey record)
             (set_active (lr_DiscoveryKey record) sequence
               (releaseLeasedAutomaticDiscoveryTx leaseID record d)))"

section \<open>Is an address outstanding?\<close>

text \<open>With the flag, what the keys say is repaired from the orders and leases that are found.\<close>

definition untrackedAutomaticDiscoveryLeaseTx ::
  "order_lib \<Rightarrow> string \<Rightarrow> bool \<Rightarrow> durable \<Rightarrow> bool tx_result" where
  "untrackedAutomaticDiscoveryLeaseTx lib key migrate d = (case automaticDiscoveryLeaseTx lib d key of
     Inl e \<Rightarrow> Inl e
   | Inr None \<Rightarrow> Inr (d, False)
   | Inr (Some (leaseID, record)) \<Rightarrow>
       Inr (if migrate
            then set_active key (lr_DiscoverySequence record)
                   (recordLeasedAutomaticDiscoveryTx key leaseID
                     (set_lease leaseID (record\<lparr>lr_DiscoveryKey := key\<rparr>) d))
            else d, True))"

definition untrackedAutomaticDiscoveryTx ::
  "order_lib \<Rightarrow> string \<Rightarrow> bool \<Rightarrow> durable \<Rightarrow> bool tx_result" where
  "untrackedAutomaticDiscoveryTx lib key migrate d = (case automaticDiscoveryPendingSequenceTx lib d key of
     Inl e \<Rightarrow> Inl e
   | Inr (Some sequence) \<Rightarrow>
       Inr (if migrate then set_pending sequence key (set_active key sequence d) else d, True)
   | Inr None \<Rightarrow> untrackedAutomaticDiscoveryLeaseTx lib key migrate d)"

definition activeAutomaticDiscoveryPendingTx ::
  "order_lib \<Rightarrow> string \<Rightarrow> u64 \<Rightarrow> bool \<Rightarrow> durable \<Rightarrow> bool tx_result" where
  "activeAutomaticDiscoveryPendingTx lib key sequence migrate d = (case map_of (dq_orders d) sequence of
     None \<Rightarrow> Inr (d, False)
   | Some data \<Rightarrow> (case automaticDiscoveryOrderMatchesKey lib data key of
       Inl e \<Rightarrow> Inl e
     | Inr False \<Rightarrow> Inr (d, False)
     | Inr True \<Rightarrow> Inr (if migrate then set_pending sequence key d else d, True)))"

definition repairActiveAutomaticDiscoveryLeaseTx ::
  "string \<Rightarrow> u64 \<Rightarrow> string \<Rightarrow> leaseRecord \<Rightarrow> durable \<Rightarrow> durable" where
  "repairActiveAutomaticDiscoveryLeaseTx key sequence leaseID record d =
     (let d = (if lr_DiscoveryKey record \<noteq> key \<or> lr_DiscoverySequence record \<noteq> sequence
               then set_lease leaseID (record\<lparr>lr_DiscoveryKey := key, lr_DiscoverySequence := sequence\<rparr>) d
               else d)
      in recordLeasedAutomaticDiscoveryTx key leaseID d)"

definition releaseOrphanAutomaticDiscoveryTx :: "string \<Rightarrow> u64 \<Rightarrow> durable \<Rightarrow> durable" where
  "releaseOrphanAutomaticDiscoveryTx key sequence d =
     d\<lparr>dq_activeDiscovery := AList.delete key (dq_activeDiscovery d),
       dq_pendingDiscovery := AList.delete sequence (dq_pendingDiscovery d),
       dq_leasedDiscovery := AList.delete key (dq_leasedDiscovery d)\<rparr>"

definition activeAutomaticDiscoveryOutstandingTx ::
  "order_lib \<Rightarrow> string \<Rightarrow> u64 \<Rightarrow> bool \<Rightarrow> durable \<Rightarrow> bool tx_result" where
  "activeAutomaticDiscoveryOutstandingTx lib key sequence migrate d =
     bind_tx (activeAutomaticDiscoveryPendingTx lib key sequence migrate d) (\<lambda>d pending.
       if pending then Inr (d, True)
       else (case automaticDiscoveryLeaseTx lib d key of
         Inl e \<Rightarrow> Inl e
       | Inr (Some (leaseID, record)) \<Rightarrow>
           Inr (if migrate then repairActiveAutomaticDiscoveryLeaseTx key sequence leaseID record d else d, True)
       | Inr None \<Rightarrow>
           untrackedAutomaticDiscoveryTx lib key migrate
             (if migrate then releaseOrphanAutomaticDiscoveryTx key sequence d else d)))"

definition migratePendingAutomaticDiscoveryTx :: "string \<Rightarrow> u64 \<Rightarrow> durable \<Rightarrow> durable" where
  "migratePendingAutomaticDiscoveryTx key sequence d =
     (let d = set_pending sequence key (set_active key sequence d)
      in d\<lparr>dq_keys := AList.delete key (dq_keys d)\<rparr>)"

definition migrateLegacyAutomaticDiscoveryLeaseTx :: "string \<Rightarrow> string \<Rightarrow> leaseRecord \<Rightarrow> durable \<Rightarrow> durable" where
  "migrateLegacyAutomaticDiscoveryLeaseTx key leaseID record d =
     set_active key (lr_DiscoverySequence record)
       (recordLeasedAutomaticDiscoveryTx key leaseID (set_lease leaseID (record\<lparr>lr_DiscoveryKey := key\<rparr>) d))"

definition legacyAutomaticDiscoveryOutstandingTx ::
  "order_lib \<Rightarrow> string \<Rightarrow> u64 \<Rightarrow> bool \<Rightarrow> durable \<Rightarrow> bool tx_result" where
  "legacyAutomaticDiscoveryOutstandingTx lib key sequence migrate d = (case map_of (dq_orders d) sequence of
     Some data \<Rightarrow> (case automaticDiscoveryOrderMatchesKey lib data key of
         Inl e \<Rightarrow> Inl e
       | Inr False \<Rightarrow> Inr (d, False)
       | Inr True \<Rightarrow> Inr (if migrate then migratePendingAutomaticDiscoveryTx key sequence d else d, True))
   | None \<Rightarrow> (case automaticDiscoveryLeaseTx lib d key of
       Inl e \<Rightarrow> Inl e
     | Inr None \<Rightarrow> untrackedAutomaticDiscoveryTx lib key migrate d
     | Inr (Some (leaseID, record)) \<Rightarrow>
         Inr (if migrate then migrateLegacyAutomaticDiscoveryLeaseTx key leaseID record d else d, True)))"

definition automaticDiscoveryOutstandingTx :: "order_lib \<Rightarrow> string \<Rightarrow> bool \<Rightarrow> durable \<Rightarrow> bool tx_result" where
  "automaticDiscoveryOutstandingTx lib key migrate d = (case map_of (dq_activeDiscovery d) key of
     Some sequence \<Rightarrow> activeAutomaticDiscoveryOutstandingTx lib key sequence migrate d
   | None \<Rightarrow> (case map_of (dq_keys d) key of
       None \<Rightarrow> Inr (d, False)
     | Some sequence \<Rightarrow> legacyAutomaticDiscoveryOutstandingTx lib key sequence migrate d))"

section \<open>Publishing a discovered address\<close>

definition complete_intent_tx :: "order_lib \<Rightarrow> string \<Rightarrow> bytes \<Rightarrow> bool \<Rightarrow> durable \<Rightarrow> bool tx_result" where
  "complete_intent_tx lib key data recovering d =
     bind_tx (automaticDiscoveryOutstandingTx lib key True d) (\<lambda>d duplicate.
       if duplicate then Inr (d, True)
       else bind_tx (if recovering then untrackedAutomaticDiscoveryTx lib key True d else Inr (d, False)) (\<lambda>d duplicate.
         if duplicate then Inr (d, True)
         else (case decode_order lib data of
           Inl e \<Rightarrow> Inl e
         | Inr order \<Rightarrow> (case enqueueTx data (co_Priority order) d of
             (d, sequence) \<Rightarrow> Inr (set_pending sequence key (set_active key sequence d), False)))))"

definition completeAutomaticDiscoveryIntent ::
  "order_lib \<Rightarrow> txn \<Rightarrow> string \<Rightarrow> bytes \<Rightarrow> bool \<Rightarrow> durable \<Rightarrow> durable \<times> (queue_error, bool) result" where
  "completeAutomaticDiscoveryIntent lib outcome key data recovering d =
     vault_txn outcome (complete_intent_tx lib key data recovering) d"

definition persistAutomaticDiscoveryIntent ::
  "txn \<Rightarrow> string \<Rightarrow> bytes \<Rightarrow> durable \<Rightarrow> durable \<times> (queue_error, unit) result" where
  "persistAutomaticDiscoveryIntent outcome key data d =
     vault_txn outcome (\<lambda>d. Inr (d\<lparr>dq_discoveryIntents := AList.update key data (dq_discoveryIntents d)\<rparr>, ())) d"

definition releaseAutomaticDiscoveryIntent :: "txn \<Rightarrow> string \<Rightarrow> durable \<Rightarrow> durable \<times> (queue_error, unit) result" where
  "releaseAutomaticDiscoveryIntent outcome key d =
     vault_txn outcome (\<lambda>d. Inr (d\<lparr>dq_discoveryIntents := AList.delete key (dq_discoveryIntents d)\<rparr>, ())) d"

fun reconcile_intents ::
  "order_lib \<Rightarrow> (nat \<Rightarrow> txn) \<Rightarrow> nat \<Rightarrow> (string \<times> bytes) list \<Rightarrow> durable \<Rightarrow> durable \<times> (queue_error, nat) result" where
  "reconcile_intents lib outcome n [] d = (d, Inr n)"
| "reconcile_intents lib outcome n ((key, data) # rest) d =
     (case completeAutomaticDiscoveryIntent lib (outcome n) key data True d of
        (d, Inl e) \<Rightarrow> (d, Inl e)
      | (d, Inr _) \<Rightarrow> (case releaseAutomaticDiscoveryIntent (outcome (n + 1)) key d of
          (d, Inl e) \<Rightarrow> (d, Inl e)
        | (d, Inr _) \<Rightarrow> reconcile_intents lib outcome (n + 2) rest d))"

text \<open>The number of accesses to the vault so far is part of the result.\<close>

definition reconcileAutomaticDiscoveryIntents ::
  "order_lib \<Rightarrow> (nat \<Rightarrow> txn) \<Rightarrow> durable \<Rightarrow> durable \<times> (queue_error, nat) result" where
  "reconcileAutomaticDiscoveryIntents lib outcome d =
     (case vault_view (outcome 0) (\<lambda>d. Inr (scan (dq_discoveryIntents d))) d of
        Inl e \<Rightarrow> (d, Inl e)
      | Inr intents \<Rightarrow> reconcile_intents lib outcome 1 intents d)"

text \<open>The keys are read in a view first; a key that is outstanding there is repaired in an update, and
  the view is taken again when the update does not find it. As the update finds what the view finds,
  one round is enough, and a second is never begun.\<close>

definition automaticDiscoveryOutstanding :: "order_lib \<Rightarrow> txn \<Rightarrow> durable \<Rightarrow> string \<Rightarrow> (queue_error, bool) result" where
  "automaticDiscoveryOutstanding lib outcome d key =
     vault_view outcome (\<lambda>d. map_sum id snd (automaticDiscoveryOutstandingTx lib key False d)) d"

definition admitAutomaticDiscoveryGrowth ::
  "order_lib \<Rightarrow> txn \<Rightarrow> bool \<Rightarrow> durable \<Rightarrow> string \<Rightarrow> (queue_error, bool) result" where
  "admitAutomaticDiscoveryGrowth lib outcome refused d key =
     (case automaticDiscoveryOutstanding lib outcome d key of
        Inl e \<Rightarrow> Inl e
      | Inr duplicate \<Rightarrow> if \<not> duplicate \<and> refused then Inl GrowthRefused else Inr duplicate)"

definition reconcileAutomaticDiscoveryKey ::
  "order_lib \<Rightarrow> txn \<Rightarrow> string \<Rightarrow> durable \<Rightarrow> durable \<times> (queue_error, bool) result" where
  "reconcileAutomaticDiscoveryKey lib outcome key d =
     vault_txn outcome (automaticDiscoveryOutstandingTx lib key True) d"

fun admit_discovery ::
  "order_lib \<Rightarrow> (nat \<Rightarrow> txn) \<Rightarrow> bool \<Rightarrow> string \<Rightarrow> nat \<Rightarrow> nat \<Rightarrow> durable \<Rightarrow> durable \<times> (queue_error, bool \<times> nat) result" where
  "admit_discovery lib outcome refused key 0 n d = (d, Inl QueueCancelled)"
| "admit_discovery lib outcome refused key (Suc rounds) n d =
     (case admitAutomaticDiscoveryGrowth lib (outcome n) refused d key of
        Inl e \<Rightarrow> (d, Inl e)
      | Inr False \<Rightarrow> (d, Inr (False, n + 1))
      | Inr True \<Rightarrow> (case reconcileAutomaticDiscoveryKey lib (outcome (n + 1)) key d of
          (d, Inl e) \<Rightarrow> (d, Inl e)
        | (d, Inr True) \<Rightarrow> (d, Inr (True, n + 2))
        | (d, Inr False) \<Rightarrow> admit_discovery lib outcome refused key rounds (n + 2) d))"

definition publish_discovery ::
  "order_lib \<Rightarrow> (nat \<Rightarrow> txn) \<Rightarrow> nat \<Rightarrow> string \<Rightarrow> bytes \<Rightarrow> durable \<Rightarrow> durable \<times> (queue_error, bool) result" where
  "publish_discovery lib outcome n key data d =
     (case persistAutomaticDiscoveryIntent (outcome n) key data d of
        (d, Inl e) \<Rightarrow> (d, Inl e)
      | (d, Inr _) \<Rightarrow> (case completeAutomaticDiscoveryIntent lib (outcome (n + 1)) key data False d of
          (d, Inl e) \<Rightarrow> (d, Inl e)
        | (d, Inr duplicate) \<Rightarrow> (case releaseAutomaticDiscoveryIntent (outcome (n + 2)) key d of
            (d, Inl e) \<Rightarrow> (d, Inl e)
          | (d, Inr _) \<Rightarrow> (d, Inr duplicate))))"

definition publishAutomaticDiscovery ::
  "order_lib \<Rightarrow> (nat \<Rightarrow> txn) \<Rightarrow> bool \<Rightarrow> string \<Rightarrow> bytes \<Rightarrow> durable \<Rightarrow> durable \<times> (queue_error, bool) result" where
  "publishAutomaticDiscovery lib outcome refused key data d =
     (case reconcileAutomaticDiscoveryIntents lib outcome d of
        (d, Inl e) \<Rightarrow> (d, Inl e)
      | (d, Inr n) \<Rightarrow> (case admit_discovery lib outcome refused key 2 n d of
          (d, Inl e) \<Rightarrow> (d, Inl e)
        | (d, Inr (True, n)) \<Rightarrow> (d, Inr True)
        | (d, Inr (False, n)) \<Rightarrow> publish_discovery lib outcome n key data d))"

definition PublishOnce ::
  "order_lib \<Rightarrow> (nat \<Rightarrow> txn) \<Rightarrow> bool \<Rightarrow> string \<Rightarrow> CrawlOrder \<Rightarrow> durable \<Rightarrow> durable \<times> (queue_error, bool) result" where
  "PublishOnce lib outcome refused key order d = (case ol_marshal lib order of
     None \<Rightarrow> (d, Inl BadCrawlOrder)
   | Some data \<Rightarrow>
       if key \<noteq> [] \<and> co_Priority order = CrawlOrderPriorityAutomaticDiscovery
       then publishAutomaticDiscovery lib outcome refused key data d
       else publishEncodedOrder outcome refused key data (co_Priority order) d)"

text \<open>At the start of the queue the leases of discovered addresses are indexed again.\<close>

definition reconcile_lease :: "string \<times> leaseRecord \<Rightarrow> durable \<Rightarrow> durable" where
  "reconcile_lease entry d = (case entry of (leaseID, record) \<Rightarrow>
     if lr_DiscoveryKey record = [] then d
     else
       let d = recordLeasedAutomaticDiscoveryTx (lr_DiscoveryKey record) leaseID d
       in if map_of (dq_activeDiscovery d) (lr_DiscoveryKey record) \<noteq> None then d
          else set_active (lr_DiscoveryKey record) (lr_DiscoverySequence record) d)"

definition reconcileAutomaticDiscoveryLeases :: "txn \<Rightarrow> durable \<Rightarrow> durable \<times> (queue_error, unit) result" where
  "reconcileAutomaticDiscoveryLeases outcome d =
     vault_txn outcome (\<lambda>d. Inr (fold reconcile_lease (scan (dq_leases d)) d, ())) d"

section \<open>The rounds of an admission\<close>

lemma untracked_lease_found:
  "map_sum id snd (untrackedAutomaticDiscoveryLeaseTx lib key migrate d) =
     map_sum id (\<lambda>found. found \<noteq> None) (automaticDiscoveryLeaseTx lib d key)"
  by (simp add: untrackedAutomaticDiscoveryLeaseTx_def split: sum.splits option.splits)

lemma untracked_found:
  "map_sum id snd (untrackedAutomaticDiscoveryTx lib key migrate d) =
     (case automaticDiscoveryPendingSequenceTx lib d key of
        Inl e \<Rightarrow> Inl e
      | Inr (Some _) \<Rightarrow> Inr True
      | Inr None \<Rightarrow> map_sum id (\<lambda>found. found \<noteq> None) (automaticDiscoveryLeaseTx lib d key))"
  by (simp add: untrackedAutomaticDiscoveryTx_def untracked_lease_found split: sum.splits option.splits)

lemma no_lease_scan:
  "automaticDiscoveryLeaseTx lib d key = Inr None \<Longrightarrow> scan_leases_for lib key (scan (dq_leases d)) = Inr None"
  by (simp add: automaticDiscoveryLeaseTx_def split: option.splits sum.splits)

lemma orphan_lookups:
  "automaticDiscoveryPendingSequenceTx lib (releaseOrphanAutomaticDiscoveryTx key sequence d) key =
     automaticDiscoveryPendingSequenceTx lib d key"
  "automaticDiscoveryLeaseTx lib d key = Inr None \<Longrightarrow>
     automaticDiscoveryLeaseTx lib (releaseOrphanAutomaticDiscoveryTx key sequence d) key = Inr None"
  by (simp_all add: automaticDiscoveryPendingSequenceTx_def automaticDiscoveryLeaseTx_def
      releaseOrphanAutomaticDiscoveryTx_def)
    (simp add: no_lease_scan automaticDiscoveryLeaseTx_def)

lemma orphan_untracked:
  "automaticDiscoveryLeaseTx lib d key = Inr None \<Longrightarrow>
     map_sum id snd (untrackedAutomaticDiscoveryTx lib key True (releaseOrphanAutomaticDiscoveryTx key sequence d)) =
     map_sum id snd (untrackedAutomaticDiscoveryTx lib key False d)"
  by (simp add: untracked_found orphan_lookups split: sum.splits option.splits)

lemma active_found:
  "map_sum id snd (activeAutomaticDiscoveryOutstandingTx lib key sequence True d) =
     map_sum id snd (activeAutomaticDiscoveryOutstandingTx lib key sequence False d)"
proof -
  have pending: "activeAutomaticDiscoveryPendingTx lib key sequence migrate d =
      (case activeAutomaticDiscoveryPendingTx lib key sequence False d of
         Inl e \<Rightarrow> Inl e
       | Inr (_, found) \<Rightarrow> Inr (if migrate \<and> found then set_pending sequence key d else d, found))" for migrate
    by (simp add: activeAutomaticDiscoveryPendingTx_def split: option.splits sum.splits bool.splits)
  show ?thesis
  proof (cases "activeAutomaticDiscoveryPendingTx lib key sequence False d")
    case (Inl e)
    then show ?thesis using pending [of True] by (simp add: activeAutomaticDiscoveryOutstandingTx_def bind_tx_def)
  next
    case (Inr result)
    obtain m found where "result = (m, found)" by (cases result)
    then have both: "activeAutomaticDiscoveryPendingTx lib key sequence True d =
        Inr (if found then set_pending sequence key d else d, found)"
      "activeAutomaticDiscoveryPendingTx lib key sequence False d = Inr (d, found)"
      using Inr pending [of True] pending [of False] by simp_all
    show ?thesis
      using both
      by (cases found; cases "automaticDiscoveryLeaseTx lib d key")
        (auto simp: activeAutomaticDiscoveryOutstandingTx_def bind_tx_def orphan_untracked split: option.splits)
  qed
qed

lemma legacy_found:
  "map_sum id snd (legacyAutomaticDiscoveryOutstandingTx lib key sequence True d) =
     map_sum id snd (legacyAutomaticDiscoveryOutstandingTx lib key sequence False d)"
  by (simp add: legacyAutomaticDiscoveryOutstandingTx_def untracked_found split: option.splits sum.splits bool.splits)

lemma outstanding_found:
  "map_sum id snd (automaticDiscoveryOutstandingTx lib key True d) =
     map_sum id snd (automaticDiscoveryOutstandingTx lib key False d)"
  by (simp add: automaticDiscoveryOutstandingTx_def active_found legacy_found split: option.splits)

text \<open>One round of an admission is enough.\<close>

lemma admit_rounds:
  "admit_discovery lib outcome refused key (Suc rounds) n d = admit_discovery lib outcome refused key 1 n d"
proof -
  have agree: "snd r" if "automaticDiscoveryOutstanding lib o1 d key = Inr True"
      "automaticDiscoveryOutstandingTx lib key True d = Inr r" for o1 r
    using that outstanding_found [of lib key d]
    by (auto simp: automaticDiscoveryOutstanding_def vault_view_def split: if_splits)
  show ?thesis
  proof (cases "admitAutomaticDiscoveryGrowth lib (outcome n) refused d key = Inr True")
    case True
    then have view: "automaticDiscoveryOutstanding lib (outcome n) d key = Inr True"
      by (auto simp: admitAutomaticDiscoveryGrowth_def split: sum.splits if_splits)
    obtain m c where m: "reconcileAutomaticDiscoveryKey lib (outcome (n + 1)) key d = (m, c)" by fastforce
    have "c \<noteq> Inr False"
    proof
      assume "c = Inr False"
      then have "automaticDiscoveryOutstandingTx lib key True d = Inr (m, False)"
        using m by (auto simp: reconcileAutomaticDiscoveryKey_def vault_txn_def split: sum.splits if_splits)
      from agree [OF view this] show False by simp
    qed
    then show ?thesis using True m by (simp split: sum.splits bool.splits)
  qed (simp split: sum.splits bool.splits)
qed

end
