(* ===== verification/LeaseHistory.thy ===== *)
theory LeaseHistory
  imports DiscoveryKeys "HOL-Library.Product_Lexorder"
begin

text \<open>
  What the crawl order queue remembers of the leases that it has settled
  (\<^verbatim>\<open>lease_settlement_*.go\<close>, \<^verbatim>\<open>automatic_discovery_settlement.go\<close>, \<^verbatim>\<open>terminal_settlement_*.go\<close>): how
  each ended, so that a repeated acknowledgment is answered as the first one and one that contradicts
  it is refused. A settlement has a sequence number and is forgotten after a day; the settlement of a
  discovered address is staged first. Every function takes the instant that it reads from the clock.
\<close>

section \<open>Settlement records\<close>

definition leaseSettlementRetention :: int where "leaseSettlementRetention = 24 * hour"

definition no_tally :: CrawlRunTally where
  "no_tally = \<lparr>ct_Fetched = 0, ct_Indexed = 0, ct_Failed = 0, ct_RobotsDenied = 0, ct_Duplicates = 0, ct_Pending = 0\<rparr>"

definition no_progress :: CrawlRunProgress where
  "no_progress = \<lparr>cr_RunID = [], cr_WorkerID = [], cr_ProfileHandle = [], cr_ProfileName = [], cr_State = [],
     cr_Tally = no_tally, cr_RecentOutcomes = [], cr_PagesPerMinute = 0, cr_RateKnown = False,
     cr_MaxPagesPerHost = 0, cr_MaxPagesPerRun = 0, cr_LimitsKnown = False\<rparr>"

definition plain_settlement :: "leaseSettlementOutcome \<Rightarrow> leaseSettlementRecord" where
  "plain_settlement outcome = \<lparr>ls_Outcome = outcome, ls_Sequence = 0, ls_SettledAtUnixNano = 0,
     ls_OrderIdentity = [], ls_WorkerSessionID = [], ls_Progress = no_progress, ls_Terminal = False,
     ls_ProgressDelivered = False, ls_FinalizedAtUnixNano = 0\<rparr>"

definition sameTerminalLeaseSettlement :: "leaseSettlementRecord \<Rightarrow> leaseSettlementRecord \<Rightarrow> bool" where
  "sameTerminalLeaseSettlement l r \<longleftrightarrow> ls_Terminal l \<and> ls_Terminal r \<and> ls_Outcome l = ls_Outcome r \<and>
     ls_OrderIdentity l = ls_OrderIdentity r \<and>
     cr_WorkerID (ls_Progress l) = cr_WorkerID (ls_Progress r) \<and>
     ls_WorkerSessionID l = ls_WorkerSessionID r \<and>
     cr_State (ls_Progress l) = cr_State (ls_Progress r) \<and> cr_Tally (ls_Progress l) = cr_Tally (ls_Progress r) \<and>
     cr_RecentOutcomes (ls_Progress l) = cr_RecentOutcomes (ls_Progress r) \<and>
     cr_PagesPerMinute (ls_Progress l) = cr_PagesPerMinute (ls_Progress r) \<and>
     cr_RateKnown (ls_Progress l) = cr_RateKnown (ls_Progress r)"

text \<open>The key of a record among the ones that expire; a record that has no instant yet has none, and a
  vault refuses an empty key.\<close>

definition leaseSettlementExpiryKey :: "leaseSettlementRecord \<Rightarrow> (int \<times> u64) option" where
  "leaseSettlementExpiryKey record =
     (let retainedAt = (if ls_Terminal record then ls_FinalizedAtUnixNano record else ls_SettledAtUnixNano record)
      in if retainedAt \<le> 0 then None else Some (retainedAt, ls_Sequence record))"

definition put_expiry :: "leaseSettlementRecord \<Rightarrow> string \<Rightarrow> durable \<Rightarrow> unit tx_result" where
  "put_expiry record leaseID d = (case leaseSettlementExpiryKey record of
     None \<Rightarrow> Inl VaultFailed
   | Some key \<Rightarrow> Inr (d\<lparr>dq_settlementExpiry := AList.update key leaseID (dq_settlementExpiry d)\<rparr>, ()))"

definition put_settlement :: "string \<Rightarrow> leaseSettlementRecord \<Rightarrow> durable \<Rightarrow> durable" where
  "put_settlement leaseID record d = d\<lparr>dq_leaseSettlements := AList.update leaseID record (dq_leaseSettlements d)\<rparr>"

definition put_order :: "u64 \<Rightarrow> string \<Rightarrow> durable \<Rightarrow> durable" where
  "put_order sequence leaseID d = d\<lparr>dq_settlementOrder := AList.update sequence leaseID (dq_settlementOrder d)\<rparr>"

definition put_target :: "string \<Rightarrow> leaseControlTarget \<Rightarrow> durable \<Rightarrow> durable" where
  "put_target leaseID target d = d\<lparr>dq_controlTargets := AList.update leaseID target (dq_controlTargets d)\<rparr>"

definition requireLeaseSettlement ::
  "go_time \<Rightarrow> string \<Rightarrow> leaseSettlementOutcome \<Rightarrow> durable \<Rightarrow> unit tx_result" where
  "requireLeaseSettlement now leaseID want d = (case map_of (dq_leaseSettlements d) leaseID of
     None \<Rightarrow> Inl LeaseDispositionConflict
   | Some record \<Rightarrow>
       if ls_Outcome record \<noteq> want then Inl LeaseDispositionConflict
       else if ls_Terminal record then Inr (d, ())
       else
         let migrated = record\<lparr>ls_SettledAtUnixNano := now\<rparr>
         in bind_tx (if ls_SettledAtUnixNano record = 0
                     then put_expiry migrated leaseID (put_settlement leaseID migrated d) else Inr (d, ())) (\<lambda>d _.
              let settled = (if ls_SettledAtUnixNano record = 0 then now else ls_SettledAtUnixNano record)
              in if settled + leaseSettlementRetention > now then Inr (d, ())
                 else Inl LeaseDispositionConflict))"

definition requireTerminalLeaseSettlement ::
  "string \<Rightarrow> leaseSettlementRecord \<Rightarrow> durable \<Rightarrow> (queue_error, leaseSettlementRecord) result" where
  "requireTerminalLeaseSettlement leaseID want d = (case map_of (dq_leaseSettlements d) leaseID of
     None \<Rightarrow> Inl LeaseDispositionConflict
   | Some record \<Rightarrow>
       if sameTerminalLeaseSettlement record want then Inr record else Inl LeaseDispositionConflict)"

section \<open>Sequence numbers of settlements\<close>

text \<open>The first number from the next one on that is not taken; as there are at most as many taken ones
  as the index has entries, that many steps find it.\<close>

fun free_sequence :: "nat \<Rightarrow> (u64, string) gomap \<Rightarrow> u64 \<Rightarrow> u64" where
  "free_sequence 0 order sequence = sequence"
| "free_sequence (Suc n) order sequence =
     (if map_of order sequence = None then sequence else free_sequence n order (sequence + 1))"

definition reserveLeaseSettlementSequenceTx :: "durable \<Rightarrow> durable \<times> u64" where
  "reserveLeaseSettlementSequenceTx d =
     (let first = seq_get d LeaseSettlementNext;
          migrationNext = seq_get d LeaseSettlementMigrationNext;
          sequence = free_sequence (length (dq_settlementOrder d)) (dq_settlementOrder d) first;
          d = seq_put LeaseSettlementNext (sequence + 1) d
      in (if sequence = first \<and> migrationNext = first
          then seq_put LeaseSettlementMigrationNext (sequence + 1) d else d, sequence))"

definition storeLeaseSettlement ::
  "go_time \<Rightarrow> string \<Rightarrow> leaseSettlementRecord \<Rightarrow> durable \<Rightarrow> leaseSettlementRecord tx_result" where
  "storeLeaseSettlement now leaseID record d = (case map_of (dq_leaseSettlements d) leaseID of
     Some existing \<Rightarrow>
       if (if ls_Terminal record then \<not> sameTerminalLeaseSettlement existing record
           else ls_Outcome existing \<noteq> ls_Outcome record)
       then Inl LeaseDispositionConflict else Inr (d, existing)
   | None \<Rightarrow> (case reserveLeaseSettlementSequenceTx d of (d, sequence) \<Rightarrow>
       let record = record\<lparr>ls_Sequence := sequence, ls_SettledAtUnixNano := now\<rparr>;
           d = put_order sequence leaseID (put_settlement leaseID record d)
       in if ls_Terminal record then Inr (d, record)
          else bind_tx (put_expiry record leaseID d) (\<lambda>d _. Inr (d, record))))"

definition recordLeaseSettlement ::
  "go_time \<Rightarrow> string \<Rightarrow> leaseSettlementOutcome \<Rightarrow> durable \<Rightarrow> unit tx_result" where
  "recordLeaseSettlement now leaseID outcome d =
     bind_tx (storeLeaseSettlement now leaseID (plain_settlement outcome) d) (\<lambda>d _. Inr (d, ()))"

definition delete_expiry_of :: "leaseSettlementRecord \<Rightarrow> string \<Rightarrow> durable \<Rightarrow> durable" where
  "delete_expiry_of record leaseID d = (case leaseSettlementExpiryKey record of
     None \<Rightarrow> d
   | Some key \<Rightarrow> if map_of (dq_settlementExpiry d) key = Some leaseID
       then d\<lparr>dq_settlementExpiry := AList.delete key (dq_settlementExpiry d)\<rparr> else d)"

definition relocateSettlementSequenceTx ::
  "string \<Rightarrow> leaseSettlementRecord \<Rightarrow> durable \<Rightarrow> durable \<times> leaseSettlementRecord" where
  "relocateSettlementSequenceTx leaseID record d =
     (case map_of (dq_settlementOrder d) (ls_Sequence record) of
        None \<Rightarrow> (d, record)
      | Some indexed \<Rightarrow>
          if indexed = leaseID then (d, record)
          else (case reserveLeaseSettlementSequenceTx d of (d, replacement) \<Rightarrow>
            let moved = record\<lparr>ls_Sequence := replacement\<rparr>;
                d = (if ls_Terminal record then d else delete_expiry_of record leaseID d)
            in (put_settlement leaseID moved d, moved)))"

definition restoreSettlementSequencesTx :: "u64 \<Rightarrow> durable \<Rightarrow> durable" where
  "restoreSettlementSequencesTx sequence d =
     (let d = (if seq_get d LeaseSettlementNext \<le> sequence
               then seq_put LeaseSettlementNext (sequence + 1) d else d)
      in if seq_get d LeaseSettlementMigrationNext \<le> sequence
         then seq_put LeaseSettlementMigrationNext (sequence + 1) d else d)"

section \<open>Staged settlements of discovered addresses\<close>

definition sameSettlementLease :: "leaseRecord \<Rightarrow> leaseRecord \<Rightarrow> bool" where
  "sameSettlementLease l r \<longleftrightarrow> lr_OrderData l = lr_OrderData r \<and> lr_Priority l = lr_Priority r \<and>
     lr_WorkerID l = lr_WorkerID r \<and> lr_WorkerSessionID l = lr_WorkerSessionID r \<and>
     lr_Deferred l = lr_Deferred r \<and> lr_DiscoveryKey l = lr_DiscoveryKey r \<and>
     lr_DiscoverySequence l = lr_DiscoverySequence r"

definition sameSettlementIntent :: "settlementIntent \<Rightarrow> settlementIntent \<Rightarrow> bool" where
  "sameSettlementIntent l r \<longleftrightarrow> sameSettlementLease (si_Lease l) (si_Lease r) \<and> si_Target l = si_Target r \<and>
     ls_Terminal (si_Settlement l) = ls_Terminal (si_Settlement r) \<and>
     (if ls_Terminal (si_Settlement l) then sameTerminalLeaseSettlement (si_Settlement l) (si_Settlement r)
      else ls_Outcome (si_Settlement l) = ls_Outcome (si_Settlement r))"

definition persistSettlementIntentTx :: "string \<Rightarrow> settlementIntent \<Rightarrow> durable \<Rightarrow> unit tx_result" where
  "persistSettlementIntentTx leaseID intent d =
     (if lr_DiscoveryKey (si_Lease intent) = [] then Inr (d, ())
      else (case map_of (dq_discoverySettlements d) leaseID of
        Some existing \<Rightarrow>
          if sameSettlementIntent existing intent then Inr (d, ()) else Inl LeaseDispositionConflict
      | None \<Rightarrow> Inr (d\<lparr>dq_discoverySettlements := AList.update leaseID intent (dq_discoverySettlements d)\<rparr>, ())))"

definition removeRetainedLeaseTx :: "string \<Rightarrow> settlementIntent \<Rightarrow> durable \<Rightarrow> unit tx_result" where
  "removeRetainedLeaseTx leaseID intent d =
     (let stored = map_of (dq_leases d) leaseID
      in if (case stored of Some record \<Rightarrow> \<not> sameSettlementLease record (si_Lease intent) | None \<Rightarrow> False)
         then Inl LeaseDispositionConflict
         else
           let d = (if lt_WorkerID (si_Target intent) \<noteq> [] \<and> lt_RunID (si_Target intent) \<noteq> []
                    then put_target leaseID (si_Target intent) d else d)
           in Inr (if stored = None then d else delete_lease leaseID d, ()))"

definition settlementConflicts :: "leaseSettlementRecord \<Rightarrow> leaseSettlementRecord \<Rightarrow> bool" where
  "settlementConflicts record want \<longleftrightarrow> ls_Terminal record \<noteq> ls_Terminal want \<or>
     ls_Terminal record \<and> \<not> sameTerminalLeaseSettlement record want \<or>
     \<not> ls_Terminal record \<and> ls_Outcome record \<noteq> ls_Outcome want"

definition ensureLeaseSettlementTx ::
  "go_time \<Rightarrow> string \<Rightarrow> leaseSettlementRecord \<Rightarrow> durable \<Rightarrow> leaseSettlementRecord tx_result" where
  "ensureLeaseSettlementTx now leaseID want d = (case map_of (dq_leaseSettlements d) leaseID of
     None \<Rightarrow> storeLeaseSettlement now leaseID want d
   | Some record \<Rightarrow>
       if settlementConflicts record want then Inl LeaseDispositionConflict
       else (case relocateSettlementSequenceTx leaseID record d of (d, record) \<Rightarrow>
         let d = restoreSettlementSequencesTx (ls_Sequence record) d;
             d = put_order (ls_Sequence record) leaseID d
         in if ls_Terminal record then Inr (d, record)
            else bind_tx (put_expiry record leaseID d) (\<lambda>d _. Inr (d, record))))"

definition completeSettlementTx ::
  "go_time \<Rightarrow> string \<Rightarrow> durable \<Rightarrow> (settlementIntent \<times> leaseSettlementRecord) option tx_result" where
  "completeSettlementTx now leaseID d = (case map_of (dq_discoverySettlements d) leaseID of
     None \<Rightarrow> Inr (d, None)
   | Some intent \<Rightarrow>
       bind_tx (removeRetainedLeaseTx leaseID intent d) (\<lambda>d _.
       bind_tx (ensureLeaseSettlementTx now leaseID (si_Settlement intent)
                 (releaseLeasedAutomaticDiscoveryTx leaseID (si_Lease intent) d)) (\<lambda>d settlement.
         Inr (releaseActiveAutomaticDiscoveryTx (si_Lease intent) d, Some (intent, settlement)))))"

text \<open>The intent is released after it was completed; what was completed stands also when the release
  fails.\<close>

definition completeAutomaticDiscoverySettlement ::
  "go_time \<Rightarrow> txn \<Rightarrow> txn \<Rightarrow> string \<Rightarrow> durable \<Rightarrow>
     durable \<times> (settlementIntent \<times> leaseSettlementRecord) option \<times> queue_error option" where
  "completeAutomaticDiscoverySettlement now o1 o2 leaseID d =
     (case vault_txn o1 (completeSettlementTx now leaseID) d of
        (d, Inl e) \<Rightarrow> (d, None, Some e)
      | (d, Inr None) \<Rightarrow> (d, None, None)
      | (d, Inr (Some resolution)) \<Rightarrow>
          (case vault_txn o2 (\<lambda>d. Inr (d\<lparr>dq_discoverySettlements :=
              AList.delete leaseID (dq_discoverySettlements d)\<rparr>, ())) d of
             (d, Inl e) \<Rightarrow> (d, Some resolution, Some e)
           | (d, Inr _) \<Rightarrow> (d, Some resolution, None)))"

section \<open>Terminal settlements\<close>

record terminalLeaseRequest =
  tl_Outcome :: leaseSettlementOutcome
  tl_OrderIdentity :: bytes
  tl_WorkerID :: string
  tl_WorkerSessionID :: string
  tl_State :: string
  tl_Tally :: CrawlRunTally
  tl_RecentOutcomes :: "CrawlURLOutcome list"
  tl_Rate :: u32
  tl_RateKnown :: bool

definition terminalSettlementRecord :: "terminalLeaseRequest \<Rightarrow> leaseSettlementRecord" where
  "terminalSettlementRecord request = (plain_settlement (tl_Outcome request))\<lparr>
     ls_OrderIdentity := tl_OrderIdentity request, ls_WorkerSessionID := tl_WorkerSessionID request,
     ls_Progress := no_progress\<lparr>cr_WorkerID := tl_WorkerID request, cr_State := tl_State request,
       cr_Tally := tl_Tally request, cr_RecentOutcomes := tl_RecentOutcomes request,
       cr_PagesPerMinute := tl_Rate request, cr_RateKnown := tl_RateKnown request\<rparr>,
     ls_Terminal := True\<rparr>"

definition validTerminalLeaseDefinition :: "bytes \<Rightarrow> CrawlRunProgress \<Rightarrow> bool" where
  "validTerminalLeaseDefinition orderIdentity progress \<longleftrightarrow> length orderIdentity = 32 \<and>
     cr_WorkerID progress \<noteq> [] \<and> cr_RunID progress \<noteq> [] \<and> ct_Pending (cr_Tally progress) = 0 \<and>
     (cr_LimitsKnown progress \<longrightarrow> ValidCrawlRunLimits (cr_MaxPagesPerHost progress) (cr_MaxPagesPerRun progress)) \<and>
     (cr_State progress = CrawlRunFinished \<or> cr_State progress = CrawlRunCancelled)"

definition terminalSettlementWithOrder ::
  "order_lib \<Rightarrow> leaseSettlementRecord \<Rightarrow> bytes \<Rightarrow> (queue_error, leaseSettlementRecord) result" where
  "terminalSettlementWithOrder lib settlement data = (case decode_order lib data of
     Inl e \<Rightarrow> Inl e
   | Inr order \<Rightarrow>
       let perHost = cp_MaxPagesPerHost (co_Profile order);
           progress = (ls_Progress settlement)\<lparr>cr_RunID := hex_encode (co_Provenance order),
             cr_ProfileHandle := cp_Handle (co_Profile order), cr_ProfileName := cp_Name (co_Profile order),
             cr_MaxPagesPerHost := (if perHost = 0 then UnlimitedPagesPerHost else perHost),
             cr_MaxPagesPerRun := CrawlOrder_EffectiveMaxPagesPerRun order DefaultMaxPagesPerRun,
             cr_LimitsKnown := True\<rparr>
       in if validTerminalLeaseDefinition (ls_OrderIdentity settlement) progress
          then Inr (settlement\<lparr>ls_Progress := progress\<rparr>) else Inl InvalidTerminalDefinition)"

definition deleteTerminalLeaseSettlementTx :: "string \<Rightarrow> leaseSettlementRecord \<Rightarrow> durable \<Rightarrow> durable" where
  "deleteTerminalLeaseSettlementTx leaseID settlement d =
     d\<lparr>dq_leaseSettlements := AList.delete leaseID (dq_leaseSettlements d),
       dq_settlementOrder := AList.delete (ls_Sequence settlement) (dq_settlementOrder d),
       dq_settlementExpiry := (case leaseSettlementExpiryKey settlement of
          None \<Rightarrow> dq_settlementExpiry d | Some key \<Rightarrow> AList.delete key (dq_settlementExpiry d)),
       dq_controlTargets := AList.delete leaseID (dq_controlTargets d),
       dq_completedTargets := AList.delete leaseID (dq_completedTargets d)\<rparr>"

definition requireCompletedTerminalControlTx :: "string \<Rightarrow> leaseSettlementRecord \<Rightarrow> durable \<Rightarrow> bool" where
  "requireCompletedTerminalControlTx leaseID settlement d \<longleftrightarrow> map_of (dq_controlTargets d) leaseID = None \<and>
     (case map_of (dq_completedTargets d) leaseID of
        None \<Rightarrow> False
      | Some completed \<Rightarrow> lt_WorkerID completed = cr_WorkerID (ls_Progress settlement) \<and>
          lt_RunID completed = cr_RunID (ls_Progress settlement))"

definition finalizeTerminalTx :: "go_time \<Rightarrow> string \<Rightarrow> leaseSettlementRecord \<Rightarrow> durable \<Rightarrow> unit tx_result" where
  "finalizeTerminalTx now leaseID want d = (case requireTerminalLeaseSettlement leaseID want d of
     Inl e \<Rightarrow> Inl e
   | Inr record \<Rightarrow>
       if ls_FinalizedAtUnixNano record \<noteq> 0 then Inr (d, ())
       else if \<not> ls_ProgressDelivered record then Inl LeaseDispositionConflict
       else if ls_Outcome record = LeaseSettlementAcknowledged \<and> \<not> requireCompletedTerminalControlTx leaseID record d
       then Inl LeaseDispositionConflict
       else if now \<le> 0 then Inl InvalidFinalization
       else
         let record = record\<lparr>ls_FinalizedAtUnixNano := now\<rparr>
         in put_expiry record leaseID (put_settlement leaseID record d))"

definition finalizeTerminalLeaseSettlement ::
  "go_time \<Rightarrow> txn \<Rightarrow> string \<Rightarrow> leaseSettlementRecord \<Rightarrow> durable \<Rightarrow> durable \<times> (queue_error, unit) result" where
  "finalizeTerminalLeaseSettlement now outcome leaseID want d = vault_txn outcome (finalizeTerminalTx now leaseID want) d"

definition acknowledgeTerminalProgress ::
  "txn \<Rightarrow> string \<Rightarrow> leaseSettlementRecord \<Rightarrow> durable \<Rightarrow> durable \<times> (queue_error, unit) result" where
  "acknowledgeTerminalProgress outcome leaseID want d =
     vault_txn outcome (\<lambda>d. case requireTerminalLeaseSettlement leaseID want d of
         Inl e \<Rightarrow> Inl e
       | Inr record \<Rightarrow>
           if ls_ProgressDelivered record then Inr (d, ())
           else Inr (put_settlement leaseID (record\<lparr>ls_ProgressDelivered := True\<rparr>) d, ())) d"

definition completeRunControl :: "txn \<Rightarrow> string \<Rightarrow> durable \<Rightarrow> durable \<times> (queue_error, unit) result" where
  "completeRunControl outcome leaseID d =
     vault_txn outcome (\<lambda>d. case map_of (dq_controlTargets d) leaseID of
         None \<Rightarrow> Inr (d, ())
       | Some target \<Rightarrow>
           let removed = d\<lparr>dq_controlTargets := AList.delete leaseID (dq_controlTargets d)\<rparr>
           in (case map_of (dq_leaseSettlements d) leaseID of
             None \<Rightarrow> Inr (removed, ())
           | Some settlement \<Rightarrow>
               if ls_Outcome settlement \<noteq> LeaseSettlementAcknowledged then Inl LeaseDispositionConflict
               else Inr (removed\<lparr>dq_completedTargets := AList.update leaseID target (dq_completedTargets d)\<rparr>, ()))) d"

section \<open>Free numbers\<close>

lemma free_sequence_taken:
  "map_of order (free_sequence n order sequence) \<noteq> None \<Longrightarrow> i \<le> n \<Longrightarrow> map_of order (sequence + of_nat i) \<noteq> None"
proof (induction n arbitrary: sequence i)
  case (Suc n)
  have taken: "map_of order sequence \<noteq> None" and rest: "map_of order (free_sequence n order (sequence + 1)) \<noteq> None"
    using Suc.prems(1) by (auto split: if_splits)
  show ?case
  proof (cases i)
    case (Suc j)
    then show ?thesis using Suc.IH [OF rest, of j] Suc.prems(2) by (simp add: ac_simps)
  qed (use taken in simp)
qed simp

lemma free_sequence_free:
  assumes "length order < 2 ^ 64"
  shows "map_of order (free_sequence (length order) order sequence) = None"
proof (rule ccontr)
  assume taken: "map_of order (free_sequence (length order) order sequence) \<noteq> None"
  let ?n = "length order"
  have inj: "inj_on (\<lambda>i. sequence + of_nat i) {..?n}"
  proof (rule inj_onI)
    fix i j assume ij: "i \<in> {..?n}" "j \<in> {..?n}" "sequence + of_nat i = sequence + (of_nat j :: u64)"
    then have "unat (of_nat i :: u64) = unat (of_nat j :: u64)" by simp
    then show "i = j" using ij(1,2) assms by (simp add: unat_of_nat)
  qed
  have "(\<lambda>i. sequence + of_nat i) ` {..?n} \<subseteq> fst ` set order"
    using free_sequence_taken [OF taken] by (force simp: map_of_eq_None_iff)
  then have "Suc ?n \<le> card (fst ` set order)"
    using card_mono [of "fst ` set order" "(\<lambda>i. sequence + of_nat i) ` {..?n}"] card_image [OF inj] by simp
  also have "\<dots> \<le> card (set order)" by (rule card_image_le) simp
  also have "\<dots> \<le> ?n" by (rule card_length)
  finally show False by simp
qed

end
