(* ===== verification/OrderLeases.thy ===== *)
theory OrderLeases
  imports LeaseHistory
begin

text \<open>
  The leases of the crawl order queue (\<^verbatim>\<open>yagonode/internal/crawlbroker/order_lease*.go\<close>,
  \<^verbatim>\<open>negative_acknowledgment*.go\<close>, \<^verbatim>\<open>lease_renewal.go\<close>, \<^verbatim>\<open>lease_authorization.go\<close> and the terminal
  settlements): a pending order is claimed for a worker, which renews its lease, settles it or hands
  it back; a lease that nobody renews is requeued. The queue keeps beside its store how many leases
  each session of a worker has. The random identity of a lease, the instants and the outcomes of the
  vault are arguments. Who waits for a change of the queue is not modelled.
\<close>

section \<open>The catalog of leases\<close>

type_synonym lease_catalog = "(string \<times> string, nat) gomap"

definition retains_session :: "leaseRecord \<Rightarrow> bool" where
  "retains_session record \<longleftrightarrow> \<not> lr_Deferred record \<and> lr_WorkerID record \<noteq> [] \<and> lr_WorkerSessionID record \<noteq> []"

definition session_of :: "leaseRecord \<Rightarrow> string \<times> string" where
  "session_of record = (lr_WorkerID record, lr_WorkerSessionID record)"

definition catalog_add :: "leaseRecord \<Rightarrow> lease_catalog \<Rightarrow> lease_catalog" where
  "catalog_add record c =
     (if retains_session record then AList.update (session_of record) (get_or 0 c (session_of record) + 1) c else c)"

definition catalog_remove :: "leaseRecord \<Rightarrow> lease_catalog \<Rightarrow> lease_catalog" where
  "catalog_remove record c =
     (if \<not> retains_session record then c
      else (case map_of c (session_of record) of
        None \<Rightarrow> c
      | Some assigned \<Rightarrow>
          if assigned = 0 then c
          else if assigned - 1 = 0 then AList.delete (session_of record) c
          else AList.update (session_of record) (assigned - 1) c))"

definition reassignWorker :: "string \<Rightarrow> string \<Rightarrow> nat \<Rightarrow> lease_catalog \<Rightarrow> lease_catalog" where
  "reassignWorker workerID sessionID active c =
     (let c = filter (\<lambda>((worker, _), _). worker \<noteq> workerID) c
      in if active > 0 then AList.update (workerID, sessionID) active c else c)"

definition catalog_reached :: "lease_catalog \<Rightarrow> string \<Rightarrow> string \<Rightarrow> nat \<Rightarrow> bool" where
  "catalog_reached c workerID sessionID capacity \<longleftrightarrow> get_or 0 c (workerID, sessionID) \<ge> capacity"

definition loadWorkerLeaseCatalog :: "durable \<Rightarrow> lease_catalog" where
  "loadWorkerLeaseCatalog d = fold (\<lambda>(_, record). catalog_add record) (scan (dq_leases d)) []"

record order_queue =
  cq_store :: durable
  cq_catalog :: lease_catalog

record queue_config =
  qc_lib :: order_lib
  qc_leaseTTL :: duration
  qc_prioritizeAutomatic :: bool

section \<open>Ownership\<close>

definition liveLeaseOwnedBy :: "leaseRecord \<Rightarrow> string \<Rightarrow> string \<Rightarrow> go_time \<Rightarrow> bool" where
  "liveLeaseOwnedBy record workerID workerSessionID at_time \<longleftrightarrow>
     workerID \<noteq> [] \<and> workerSessionID \<noteq> [] \<and> \<not> lr_Deferred record \<and>
     lr_WorkerID record = workerID \<and> lr_WorkerSessionID record = workerSessionID \<and>
     lr_ExpiresAtUnixNano record > at_time"

definition controlTargetFromLease :: "order_lib \<Rightarrow> leaseRecord \<Rightarrow> (queue_error, leaseControlTarget) result" where
  "controlTargetFromLease lib record = (case decode_order lib (lr_OrderData record) of
     Inl e \<Rightarrow> Inl e
   | Inr order \<Rightarrow> Inr \<lparr>lt_WorkerID = lr_WorkerID record, lt_RunID = hex_encode (co_Provenance order)\<rparr>)"

record leaseAuthorization =
  la_LeaseID :: string
  la_WorkerID :: string
  la_WorkerSessionID :: string
  la_RunID :: string
  la_ProfileHandle :: string

definition authorizedLeaseOrder ::
  "order_lib \<Rightarrow> txn \<Rightarrow> go_time \<Rightarrow> leaseAuthorization \<Rightarrow> bool \<Rightarrow> durable \<Rightarrow>
     (queue_error, CrawlOrder option) result" where
  "authorizedLeaseOrder lib outcome now a requireOrder d = vault_view outcome (\<lambda>d.
     case map_of (dq_leases d) (la_LeaseID a) of
       None \<Rightarrow> Inl LeaseLost
     | Some record \<Rightarrow>
         if \<not> liveLeaseOwnedBy record (la_WorkerID a) (la_WorkerSessionID a) now then Inl LeaseLost
         else if \<not> requireOrder \<and> la_RunID a = [] \<and> la_ProfileHandle a = [] then Inr None
         else (case decode_order lib (lr_OrderData record) of
           Inl e \<Rightarrow> Inl e
         | Inr order \<Rightarrow>
             if la_RunID a \<noteq> [] \<and> hex_encode (co_Provenance order) \<noteq> la_RunID a then Inl LeaseLost
             else if la_ProfileHandle a \<noteq> [] \<and> cp_Handle (co_Profile order) \<noteq> la_ProfileHandle a then Inl LeaseLost
             else Inr (Some order))) d"

section \<open>Claiming\<close>

definition lease_record :: "duration \<Rightarrow> go_time \<Rightarrow> pendingOrderHead \<Rightarrow> string \<Rightarrow> string \<Rightarrow> leaseRecord" where
  "lease_record leaseTTL leasedAt head workerID workerSessionID =
     \<lparr>lr_OrderData = ph_data head, lr_Priority = orderPriority (ph_automatic head), lr_WorkerID = workerID,
      lr_WorkerSessionID = workerSessionID, lr_Deferred = False, lr_ExpiresAtUnixNano = leasedAt + leaseTTL,
      lr_DiscoveryKey = [], lr_DiscoverySequence = 0\<rparr>"

definition delete_pending :: "pendingOrderHead \<Rightarrow> durable \<Rightarrow> durable" where
  "delete_pending head d =
     index_delete (ph_automatic head) (ph_key head) (d\<lparr>dq_orders := AList.delete (ph_key head) (dq_orders d)\<rparr>)"

definition discovery_of_head ::
  "order_lib \<Rightarrow> pendingOrderHead \<Rightarrow> durable \<Rightarrow> (queue_error, string option) result" where
  "discovery_of_head lib head d = (case map_of (dq_pendingDiscovery d) (ph_key head) of
     Some key \<Rightarrow> Inr (Some key)
   | None \<Rightarrow> activeAutomaticDiscoveryForOrderTx lib d (ph_data head) (ph_key head))"

definition discardDuplicateTx :: "order_lib \<Rightarrow> pendingOrderHead \<Rightarrow> durable \<Rightarrow> bool tx_result" where
  "discardDuplicateTx lib head d =
     (if \<not> ph_automatic head then Inr (d, False)
      else (case discovery_of_head lib head d of
        Inl e \<Rightarrow> Inl e
      | Inr None \<Rightarrow> Inr (d, False)
      | Inr (Some key) \<Rightarrow> (case automaticDiscoveryLeaseTx lib d key of
          Inl e \<Rightarrow> Inl e
        | Inr None \<Rightarrow> Inr (d, False)
        | Inr (Some (leaseID, lease)) \<Rightarrow>
            let d = delete_pending head d;
                d = d\<lparr>dq_pendingDiscovery := AList.delete (ph_key head) (dq_pendingDiscovery d)\<rparr>;
                d = set_lease leaseID (lease\<lparr>lr_DiscoveryKey := key\<rparr>) d;
                d = recordLeasedAutomaticDiscoveryTx key leaseID d
            in Inr (set_active key (lr_DiscoverySequence lease) d, True))))"

definition persistLeaseTx ::
  "order_lib \<Rightarrow> pendingOrderHead \<Rightarrow> string \<Rightarrow> leaseRecord \<Rightarrow> u64 \<Rightarrow> bool \<Rightarrow> durable \<Rightarrow> unit tx_result" where
  "persistLeaseTx lib head leaseID record nextBurst updateBurst d =
     (let d = (if updateBurst then seq_put PriorityBurst nextBurst d else d);
          d = delete_pending head d
      in (case discovery_of_head lib head d of
        Inl e \<Rightarrow> Inl e
      | Inr None \<Rightarrow> Inr (set_lease leaseID record d, ())
      | Inr (Some key) \<Rightarrow>
          let record = record\<lparr>lr_DiscoveryKey := key, lr_DiscoverySequence := ph_key head\<rparr>;
              d = d\<lparr>dq_pendingDiscovery := AList.delete (ph_key head) (dq_pendingDiscovery d)\<rparr>
          in Inr (recordLeasedAutomaticDiscoveryTx key leaseID (set_lease leaseID record d), ())))"

text \<open>The record that the catalog counts is the one before the key of the discovery is added.\<close>

definition claim_tx ::
  "queue_config \<Rightarrow> go_time \<Rightarrow> string \<Rightarrow> string \<Rightarrow> string \<Rightarrow> durable \<Rightarrow> (pendingOrderHead \<times> leaseRecord) option tx_result" where
  "claim_tx cfg now leaseID workerID workerSessionID d =
     (case selectPendingOrder (qc_prioritizeAutomatic cfg) d of
        (d, None, _, _) \<Rightarrow> Inr (d, None)
      | (d, Some head, nextBurst, updateBurst) \<Rightarrow>
          bind_tx (discardDuplicateTx (qc_lib cfg) head d) (\<lambda>d discarded.
            if discarded then Inr (d, None)
            else
              let record = lease_record (qc_leaseTTL cfg) now head workerID workerSessionID
              in bind_tx (persistLeaseTx (qc_lib cfg) head leaseID record nextBurst updateBurst d) (\<lambda>d _.
                   Inr (d, Some (head, record)))))"

definition leasePopForSession ::
  "queue_config \<Rightarrow> txn \<Rightarrow> go_time \<Rightarrow> string \<Rightarrow> string \<Rightarrow> string \<Rightarrow> order_queue \<Rightarrow>
     order_queue \<times> (queue_error, (bytes \<times> string) option) result" where
  "leasePopForSession cfg outcome now leaseID workerID workerSessionID q =
     (if workerSessionID \<noteq> [] \<and> catalog_reached (cq_catalog q) workerID workerSessionID MaximumHeartbeatActiveLeases
      then (q, Inr None)
      else (case vault_txn outcome (claim_tx cfg now leaseID workerID workerSessionID) (cq_store q) of
        (d, Inl e) \<Rightarrow> (q\<lparr>cq_store := d\<rparr>, Inl e)
      | (d, Inr None) \<Rightarrow> (q\<lparr>cq_store := d\<rparr>, Inr None)
      | (d, Inr (Some (head, record))) \<Rightarrow>
          (q\<lparr>cq_store := d, cq_catalog := catalog_add record (cq_catalog q)\<rparr>, Inr (Some (ph_data head, leaseID)))))"

section \<open>Acknowledging\<close>

definition stageAcknowledgmentTx ::
  "order_lib \<Rightarrow> go_time \<Rightarrow> string \<Rightarrow> string \<Rightarrow> string \<Rightarrow> bool \<Rightarrow> durable \<Rightarrow> bool tx_result" where
  "stageAcknowledgmentTx lib now leaseID workerID workerSessionID requireOwner d =
     (case map_of (dq_leases d) leaseID of
        None \<Rightarrow> (case map_of (dq_discoverySettlements d) leaseID of
            None \<Rightarrow> Inr (d, False)
          | Some intent \<Rightarrow>
              if ls_Terminal (si_Settlement intent) then Inl LeaseDispositionConflict else Inr (d, True))
      | Some record \<Rightarrow>
          if lr_Deferred record then Inl LeaseDispositionConflict
          else if requireOwner \<and> \<not> liveLeaseOwnedBy record workerID workerSessionID now then Inl LeaseLost
          else (case controlTargetFromLease lib record of
            Inl e \<Rightarrow> Inl e
          | Inr target \<Rightarrow>
              if lr_DiscoveryKey record = [] then Inr (d, False)
              else bind_tx (persistSettlementIntentTx leaseID \<lparr>si_Lease = record, si_Target = target,
                  si_Settlement = plain_settlement LeaseSettlementAcknowledged\<rparr> d) (\<lambda>d _. Inr (d, True))))"

definition no_target :: leaseControlTarget where "no_target = \<lparr>lt_WorkerID = [], lt_RunID = []\<rparr>"

text \<open>The clock is read for the owner and for the settlement, or for the age of a settlement.\<close>

definition acknowledgeLeaseTx ::
  "order_lib \<Rightarrow> (nat \<Rightarrow> go_time) \<Rightarrow> string \<Rightarrow> string \<Rightarrow> string \<Rightarrow> bool \<Rightarrow> durable \<Rightarrow>
     (leaseControlTarget \<times> leaseRecord option) tx_result" where
  "acknowledgeLeaseTx lib clock leaseID workerID workerSessionID requireOwner d =
     (case map_of (dq_leases d) leaseID of
        None \<Rightarrow>
          let target = (case map_of (dq_controlTargets d) leaseID of None \<Rightarrow> no_target | Some t \<Rightarrow> t)
          in bind_tx (requireLeaseSettlement (clock 0) leaseID LeaseSettlementAcknowledged d) (\<lambda>d _.
               Inr (d, (target, None)))
      | Some record \<Rightarrow>
          if lr_Deferred record then Inl LeaseDispositionConflict
          else if requireOwner \<and> \<not> liveLeaseOwnedBy record workerID workerSessionID (clock 0) then Inl LeaseLost
          else (case controlTargetFromLease lib record of
            Inl e \<Rightarrow> Inl e
          | Inr target \<Rightarrow>
              let d = (if lt_WorkerID target \<noteq> [] \<and> lt_RunID target \<noteq> [] then put_target leaseID target d else d);
                  d = releaseLeasedAutomaticDiscoveryTx leaseID record (delete_lease leaseID d)
              in bind_tx (recordLeaseSettlement (clock 1) leaseID LeaseSettlementAcknowledged d) (\<lambda>d _.
                   Inr (d, (target, Some record)))))"

text \<open>A lease of a discovered address is settled in three accesses to the vault, which stage its
  settlement, carry it out and release it; any other lease in the second one alone. The catalog loses
  the lease once.\<close>

definition catalog_after_settlement ::
  "(queue_error, leaseRecord option) result \<Rightarrow> (settlementIntent \<times> leaseSettlementRecord) option \<Rightarrow>
     lease_catalog \<Rightarrow> lease_catalog" where
  "catalog_after_settlement main resolution c =
     (case main of
        Inr (Some removed) \<Rightarrow> catalog_remove removed c
      | _ \<Rightarrow> (case resolution of None \<Rightarrow> c | Some (intent, _) \<Rightarrow> catalog_remove (si_Lease intent) c))"

definition ackLeaseWithTargetLocked ::
  "order_lib \<Rightarrow> (nat \<Rightarrow> txn) \<Rightarrow> (nat \<Rightarrow> go_time) \<Rightarrow> string \<Rightarrow> string \<Rightarrow> string \<Rightarrow> bool \<Rightarrow> order_queue \<Rightarrow>
     order_queue \<times> (queue_error, leaseControlTarget) result" where
  "ackLeaseWithTargetLocked lib outcome clock leaseID workerID workerSessionID requireOwner q =
     (case vault_txn (outcome 0) (stageAcknowledgmentTx lib (clock 0) leaseID workerID workerSessionID requireOwner)
         (cq_store q) of
        (d, Inl e) \<Rightarrow> (q\<lparr>cq_store := d\<rparr>, Inl e)
      | (d, Inr _) \<Rightarrow>
          (case vault_txn (outcome 1) (acknowledgeLeaseTx lib (\<lambda>n. clock (n + 1)) leaseID workerID workerSessionID requireOwner) d of
            (d, main) \<Rightarrow>
              (case completeAutomaticDiscoverySettlement (clock 3) (outcome 2) (outcome 3) leaseID d of
                (d, resolution, recoveryErr) \<Rightarrow>
                  let q = q\<lparr>cq_store := d, cq_catalog := catalog_after_settlement (map_sum id snd main) resolution
                        (cq_catalog q)\<rparr>
                  in (q, case recoveryErr of
                       Some e \<Rightarrow> Inl e
                     | None \<Rightarrow> (case resolution of
                         Some (intent, _) \<Rightarrow> Inr (si_Target intent)
                       | None \<Rightarrow> map_sum id fst main)))))"

definition ackLeaseWithOwner ::
  "order_lib \<Rightarrow> (nat \<Rightarrow> txn) \<Rightarrow> (nat \<Rightarrow> go_time) \<Rightarrow> string \<Rightarrow> string \<Rightarrow> string \<Rightarrow> order_queue \<Rightarrow>
     order_queue \<times> (queue_error, leaseControlTarget) result" where
  "ackLeaseWithOwner lib outcome clock leaseID workerID workerSessionID q =
     ackLeaseWithTargetLocked lib outcome clock leaseID workerID workerSessionID True q"

definition ackLeaseWithTarget ::
  "order_lib \<Rightarrow> (nat \<Rightarrow> txn) \<Rightarrow> (nat \<Rightarrow> go_time) \<Rightarrow> string \<Rightarrow> order_queue \<Rightarrow>
     order_queue \<times> (queue_error, leaseControlTarget) result" where
  "ackLeaseWithTarget lib outcome clock leaseID q =
     ackLeaseWithTargetLocked lib outcome clock leaseID [] [] False q"

end
