(* ===== verification/OrderReturns.thy ===== *)
theory OrderReturns
  imports OrderLeases
begin

text \<open>
  What else happens to a lease of the crawl order queue (\<^verbatim>\<open>negative_acknowledgment*.go\<close>,
  \<^verbatim>\<open>order_lease_requeue*.go\<close>, \<^verbatim>\<open>abandoned_lease_reclaim.go\<close>, \<^verbatim>\<open>lease_renewal.go\<close>,
  \<^verbatim>\<open>lease_authorization.go\<close>): its order is handed back, requeued when nobody renews it, or goes to a
  new session of its worker. The scan of an expired lease and the requeue of what it found are
  separate accesses to the vault, and so are the reading and the writing of a renewal.
\<close>

section \<open>Resolving a staged settlement\<close>

definition resolveAutomaticDiscoverySettlement ::
  "go_time \<Rightarrow> txn \<Rightarrow> txn \<Rightarrow> string \<Rightarrow> order_queue \<Rightarrow> order_queue \<times> queue_error option" where
  "resolveAutomaticDiscoverySettlement now o1 o2 leaseID q =
     (case completeAutomaticDiscoverySettlement now o1 o2 leaseID (cq_store q) of (d, resolution, err) \<Rightarrow>
        (q\<lparr>cq_store := d, cq_catalog := (case resolution of None \<Rightarrow> cq_catalog q
            | Some (intent, _) \<Rightarrow> catalog_remove (si_Lease intent) (cq_catalog q))\<rparr>, err))"

text \<open>Each of several settlements has an instant and the outcomes of its two accesses.\<close>

type_synonym resolve_env = "nat \<Rightarrow> go_time \<times> txn \<times> txn"

fun resolve_settlements :: "resolve_env \<Rightarrow> string list \<Rightarrow> order_queue \<Rightarrow> order_queue \<times> queue_error option" where
  "resolve_settlements env [] q = (q, None)"
| "resolve_settlements env (leaseID # rest) q = (case env 0 of (now, o1, o2) \<Rightarrow>
     (case resolveAutomaticDiscoverySettlement now o1 o2 leaseID q of
        (q, Some e) \<Rightarrow> (q, Some e)
      | (q, None) \<Rightarrow> resolve_settlements (\<lambda>n. env (Suc n)) rest q))"

section \<open>Handing an order back\<close>

definition negativeAcknowledgmentRetryDelay :: duration where "negativeAcknowledgmentRetryDelay = 5 * second"

datatype negativeAcknowledgmentMutation = NakStaged | NakUnchanged | NakRemoved leaseRecord

definition negativeAcknowledgmentLease ::
  "leaseRecord option \<Rightarrow> string \<Rightarrow> string \<Rightarrow> bool \<Rightarrow> go_time \<Rightarrow> (queue_error, leaseRecord option) result" where
  "negativeAcknowledgmentLease stored workerID workerSessionID requireOwner now = (case stored of
     None \<Rightarrow> Inl LeaseDispositionConflict
   | Some record \<Rightarrow>
       if lr_WorkerID record = []
       then (if lr_Deferred record then Inr None else Inl LeaseDispositionConflict)
       else if requireOwner \<and> \<not> liveLeaseOwnedBy record workerID workerSessionID now then Inl LeaseLost
       else Inr (Some record))"

definition deferred_lease :: "go_time \<Rightarrow> leaseRecord \<Rightarrow> leaseRecord" where
  "deferred_lease now record = record\<lparr>lr_WorkerID := [], lr_Deferred := True,
     lr_ExpiresAtUnixNano := now + negativeAcknowledgmentRetryDelay\<rparr>"

text \<open>The clock is read for the owner, for the settlement and for the time of the retry.\<close>

definition negativeAcknowledgmentTx ::
  "(nat \<Rightarrow> go_time) \<Rightarrow> string \<Rightarrow> string \<Rightarrow> string \<Rightarrow> bool \<Rightarrow> durable \<Rightarrow> negativeAcknowledgmentMutation tx_result" where
  "negativeAcknowledgmentTx clock leaseID workerID workerSessionID requireOwner d =
     (if map_of (dq_discoverySettlements d) leaseID \<noteq> None then Inr (d, NakStaged)
      else (case negativeAcknowledgmentLease (map_of (dq_leases d) leaseID) workerID workerSessionID requireOwner
                  (clock 0) of
        Inl e \<Rightarrow> Inl e
      | Inr None \<Rightarrow> Inr (d, NakUnchanged)
      | Inr (Some record) \<Rightarrow>
          bind_tx (recordLeaseSettlement (clock 1) leaseID LeaseSettlementRequeued d) (\<lambda>d _.
            Inr (set_lease leaseID (deferred_lease (clock 2) record) d, NakRemoved record))))"

definition deferLeaseLocked ::
  "(nat \<Rightarrow> txn) \<Rightarrow> (nat \<Rightarrow> go_time) \<Rightarrow> string \<Rightarrow> string \<Rightarrow> string \<Rightarrow> bool \<Rightarrow> order_queue \<Rightarrow>
     order_queue \<times> (queue_error, unit) result" where
  "deferLeaseLocked outcome clock leaseID workerID workerSessionID requireOwner q =
     (case vault_txn (outcome 0) (negativeAcknowledgmentTx clock leaseID workerID workerSessionID requireOwner)
         (cq_store q) of
        (d, Inl e) \<Rightarrow> (q\<lparr>cq_store := d\<rparr>, Inl e)
      | (d, Inr NakStaged) \<Rightarrow>
          (case resolveAutomaticDiscoverySettlement (clock 3) (outcome 1) (outcome 2) leaseID (q\<lparr>cq_store := d\<rparr>) of
             (q, Some e) \<Rightarrow> (q, Inl e)
           | (q, None) \<Rightarrow> (q, Inl LeaseDispositionConflict))
      | (d, Inr NakUnchanged) \<Rightarrow> (q\<lparr>cq_store := d\<rparr>, Inr ())
      | (d, Inr (NakRemoved record)) \<Rightarrow>
          (q\<lparr>cq_store := d, cq_catalog := catalog_remove record (cq_catalog q)\<rparr>, Inr ()))"

definition deferLeaseForOwner ::
  "(nat \<Rightarrow> txn) \<Rightarrow> (nat \<Rightarrow> go_time) \<Rightarrow> string \<Rightarrow> string \<Rightarrow> string \<Rightarrow> order_queue \<Rightarrow>
     order_queue \<times> (queue_error, unit) result" where
  "deferLeaseForOwner outcome clock leaseID workerID workerSessionID q =
     deferLeaseLocked outcome clock leaseID workerID workerSessionID True q"

definition deferLease ::
  "(nat \<Rightarrow> txn) \<Rightarrow> (nat \<Rightarrow> go_time) \<Rightarrow> string \<Rightarrow> order_queue \<Rightarrow> order_queue \<times> (queue_error, unit) result" where
  "deferLease outcome clock leaseID q = deferLeaseLocked outcome clock leaseID [] [] False q"

section \<open>Requeueing\<close>

definition requeueLeaseTx ::
  "order_lib \<Rightarrow> go_time \<Rightarrow> (leaseRecord \<Rightarrow> bool) \<Rightarrow> string \<Rightarrow> durable \<Rightarrow> leaseRecord option tx_result" where
  "requeueLeaseTx lib now match leaseID d = (case map_of (dq_leases d) leaseID of
     None \<Rightarrow> Inr (d, None)
   | Some record \<Rightarrow>
       if \<not> match record then Inr (d, None)
       else (case enqueueTx (lr_OrderData record) (persistedOrderPriority lib (lr_OrderData record) (lr_Priority record))
               (delete_lease leaseID d) of
         (d, sequence) \<Rightarrow>
           bind_tx (recordLeaseSettlement now leaseID LeaseSettlementRequeued
                     (recordRequeuedAutomaticDiscoveryTx leaseID record sequence d)) (\<lambda>d _.
             Inr (d, Some record))))"

text \<open>The leases that a batch removed and the ones that have a staged settlement; each lease has the
  instant of its settlement.\<close>

fun requeueLeaseBatchTx ::
  "order_lib \<Rightarrow> (nat \<Rightarrow> go_time) \<Rightarrow> (leaseRecord \<Rightarrow> bool) \<Rightarrow> string list \<Rightarrow> durable \<Rightarrow>
     (leaseRecord list \<times> string list) tx_result" where
  "requeueLeaseBatchTx lib clock match [] d = Inr (d, [], [])"
| "requeueLeaseBatchTx lib clock match (leaseID # rest) d =
     (if map_of (dq_discoverySettlements d) leaseID \<noteq> None
      then bind_tx (requeueLeaseBatchTx lib (\<lambda>n. clock (Suc n)) match rest d) (\<lambda>d (removed, staged).
             Inr (d, removed, leaseID # staged))
      else bind_tx (requeueLeaseTx lib (clock 0) match leaseID d) (\<lambda>d changed.
             bind_tx (requeueLeaseBatchTx lib (\<lambda>n. clock (Suc n)) match rest d) (\<lambda>d (removed, staged).
               Inr (d, (case changed of None \<Rightarrow> removed | Some record \<Rightarrow> record # removed), staged))))"

definition maximumLeaseRequeueChunk :: nat where "maximumLeaseRequeueChunk = 256"

definition matchingLeaseKeys :: "txn \<Rightarrow> (leaseRecord \<Rightarrow> bool) \<Rightarrow> durable \<Rightarrow> (queue_error, string list) result" where
  "matchingLeaseKeys outcome match d =
     vault_view outcome (\<lambda>d. Inr (map fst (filter (\<lambda>(_, record). match record) (scan (dq_leases d))))) d"

record chunk_env =
  ce_cancelled :: bool
  ce_update :: txn
  ce_clock :: "nat \<Rightarrow> go_time"
  ce_resolve :: resolve_env

definition requeueLeaseChunk ::
  "order_lib \<Rightarrow> chunk_env \<Rightarrow> (leaseRecord \<Rightarrow> bool) \<Rightarrow> string list \<Rightarrow> order_queue \<Rightarrow>
     order_queue \<times> (queue_error, bool) result" where
  "requeueLeaseChunk lib env match keys q =
     (case vault_txn (ce_update env) (requeueLeaseBatchTx lib (ce_clock env) match keys) (cq_store q) of
        (d, Inl e) \<Rightarrow> (q\<lparr>cq_store := d\<rparr>, Inl e)
      | (d, Inr (removed, staged)) \<Rightarrow>
          (case resolve_settlements (ce_resolve env) staged
                  (q\<lparr>cq_store := d, cq_catalog := fold catalog_remove removed (cq_catalog q)\<rparr>) of
             (q, Some e) \<Rightarrow> (q, Inl e)
           | (q, None) \<Rightarrow> (q, Inr (removed \<noteq> []))))"

function requeue_chunks ::
  "order_lib \<Rightarrow> (nat \<Rightarrow> chunk_env) \<Rightarrow> (leaseRecord \<Rightarrow> bool) \<Rightarrow> string list \<Rightarrow> order_queue \<Rightarrow>
     order_queue \<times> (queue_error, unit) result" where
  "requeue_chunks lib env match keys q =
     (if keys = [] then (q, Inr ())
      else if ce_cancelled (env 0) then (q, Inl QueueCancelled)
      else (case requeueLeaseChunk lib (env 0) match (take maximumLeaseRequeueChunk keys) q of
        (q, Inl e) \<Rightarrow> (q, Inl e)
      | (q, Inr _) \<Rightarrow> requeue_chunks lib (\<lambda>n. env (Suc n)) match (drop maximumLeaseRequeueChunk keys) q))"
  by auto
termination
  by (relation "measure (\<lambda>(lib, env, match, keys, q). length keys)") (auto simp: maximumLeaseRequeueChunk_def)

declare requeue_chunks.simps [simp del]

definition requeueLeasesMatching ::
  "order_lib \<Rightarrow> txn \<Rightarrow> (nat \<Rightarrow> chunk_env) \<Rightarrow> (leaseRecord \<Rightarrow> bool) \<Rightarrow> order_queue \<Rightarrow>
     order_queue \<times> (queue_error, unit) result" where
  "requeueLeasesMatching lib outcome env match q = (case matchingLeaseKeys outcome match (cq_store q) of
     Inl e \<Rightarrow> (q, Inl e)
   | Inr keys \<Rightarrow> requeue_chunks lib env match keys q)"

section \<open>Expired and abandoned leases\<close>

definition leaseRetainsCheckpointAffinity :: "leaseRecord \<Rightarrow> bool" where
  "leaseRetainsCheckpointAffinity record \<longleftrightarrow>
     \<not> lr_Deferred record \<and> lr_WorkerID record \<noteq> [] \<and> lr_WorkerSessionID record \<noteq> []"

definition lease_expired :: "go_time \<Rightarrow> leaseRecord \<Rightarrow> bool" where
  "lease_expired now record \<longleftrightarrow> lr_ExpiresAtUnixNano record \<le> now \<and> \<not> leaseRetainsCheckpointAffinity record"

definition crawlLeaseAbandonMultiple :: int where "crawlLeaseAbandonMultiple = 8"

definition leaseAbandonAfter :: "queue_config \<Rightarrow> duration" where
  "leaseAbandonAfter cfg = qc_leaseTTL cfg * crawlLeaseAbandonMultiple"

definition lease_abandoned :: "queue_config \<Rightarrow> go_time \<Rightarrow> leaseRecord \<Rightarrow> bool" where
  "lease_abandoned cfg now record \<longleftrightarrow> leaseRetainsCheckpointAffinity record \<and>
     \<not> now - lr_ExpiresAtUnixNano record < leaseAbandonAfter cfg"

definition reclaimAbandonedLeases ::
  "queue_config \<Rightarrow> go_time \<Rightarrow> txn \<Rightarrow> (nat \<Rightarrow> chunk_env) \<Rightarrow> order_queue \<Rightarrow> order_queue \<times> (queue_error, unit) result" where
  "reclaimAbandonedLeases cfg now outcome env q =
     requeueLeasesMatching (qc_lib cfg) outcome env (lease_abandoned cfg now) q"

section \<open>Forgetting settlements\<close>

definition maximumLeaseSettlementRetentionChunk :: nat where "maximumLeaseSettlementRetentionChunk = 256"

definition migrateLeaseSettlementAtSequence :: "u64 \<Rightarrow> go_time \<Rightarrow> durable \<Rightarrow> unit tx_result" where
  "migrateLeaseSettlementAtSequence sequence observedAt d = (case map_of (dq_settlementOrder d) sequence of
     None \<Rightarrow> Inr (d, ())
   | Some leaseID \<Rightarrow> (case map_of (dq_leaseSettlements d) leaseID of
       None \<Rightarrow> Inr (d\<lparr>dq_settlementOrder := AList.delete sequence (dq_settlementOrder d)\<rparr>, ())
     | Some record \<Rightarrow>
         if ls_Sequence record \<noteq> sequence then Inl SettlementSequenceMismatch
         else if ls_SettledAtUnixNano record \<noteq> 0 then Inr (d, ())
         else
           let record = record\<lparr>ls_SettledAtUnixNano := observedAt\<rparr>;
               d = put_settlement leaseID record d
           in if ls_Terminal record then Inr (d, ()) else put_expiry record leaseID d))"

text \<open>The cursor after the chunk is part of the result.\<close>

fun migrate_settlements :: "nat \<Rightarrow> u64 \<Rightarrow> u64 \<Rightarrow> go_time \<Rightarrow> durable \<Rightarrow> u64 tx_result" where
  "migrate_settlements 0 cursor next_number observedAt d = Inr (d, cursor)"
| "migrate_settlements (Suc n) cursor next_number observedAt d =
     (if cursor < next_number
      then bind_tx (migrateLeaseSettlementAtSequence cursor observedAt d) (\<lambda>d _.
             migrate_settlements n (cursor + 1) next_number observedAt d)
      else Inr (d, cursor))"

definition migrateLeaseSettlementChunkTx :: "u64 \<Rightarrow> u64 \<Rightarrow> go_time \<Rightarrow> durable \<Rightarrow> unit tx_result" where
  "migrateLeaseSettlementChunkTx cursor next_number observedAt d =
     bind_tx (migrate_settlements maximumLeaseSettlementRetentionChunk cursor next_number observedAt d) (\<lambda>d cursor.
       Inr (seq_put LeaseSettlementMigrationNext cursor d, ()))"

definition migrateLeaseSettlementExpiry ::
  "txn \<Rightarrow> txn \<Rightarrow> go_time \<Rightarrow> durable \<Rightarrow> durable \<times> (queue_error, unit) result" where
  "migrateLeaseSettlementExpiry o1 o2 observedAt d =
     (case vault_view o1 (\<lambda>d. Inr (seq_get d LeaseSettlementNext, seq_get d LeaseSettlementMigrationNext)) d of
        Inl e \<Rightarrow> (d, Inl e)
      | Inr (next_number, cursor) \<Rightarrow>
          if cursor \<ge> next_number then (d, Inr ())
          else vault_txn o2 (migrateLeaseSettlementChunkTx cursor next_number observedAt) d)"

definition requeueTerminalLeaseTx :: "order_lib \<Rightarrow> string \<Rightarrow> bytes \<Rightarrow> durable \<Rightarrow> bool tx_result" where
  "requeueTerminalLeaseTx lib leaseID orderIdentity d = (case map_of (dq_leases d) leaseID of
     None \<Rightarrow> Inr (d, False)
   | Some lease \<Rightarrow>
       if \<not> lr_Deferred lease \<or> lr_WorkerID lease \<noteq> [] \<or> ol_sha256 lib (lr_OrderData lease) \<noteq> orderIdentity
       then Inl LeaseDispositionConflict
       else (case enqueueTx (lr_OrderData lease) (persistedOrderPriority lib (lr_OrderData lease) (lr_Priority lease)) d of
         (d, sequence) \<Rightarrow>
           Inr (delete_lease leaseID (recordRequeuedAutomaticDiscoveryTx leaseID lease sequence d), True)))"

definition verifyExpiredLeaseSettlementIndex :: "string \<Rightarrow> u64 \<Rightarrow> durable \<Rightarrow> bool" where
  "verifyExpiredLeaseSettlementIndex leaseID sequence d \<longleftrightarrow> map_of (dq_settlementOrder d) sequence = Some leaseID"

definition expireTerminalLeaseSettlementTx ::
  "order_lib \<Rightarrow> string \<Rightarrow> leaseSettlementRecord \<Rightarrow> durable \<Rightarrow> bool tx_result" where
  "expireTerminalLeaseSettlementTx lib leaseID settlement d =
     (if \<not> verifyExpiredLeaseSettlementIndex leaseID (ls_Sequence settlement) d then Inl SettlementIndexMismatch
      else bind_tx (if ls_Outcome settlement = LeaseSettlementRequeued
                    then requeueTerminalLeaseTx lib leaseID (ls_OrderIdentity settlement) d
                    else Inr (d, False)) (\<lambda>d requeued.
             Inr (deleteTerminalLeaseSettlementTx leaseID settlement d, requeued)))"

definition deleteLeaseSettlementRetentionTx :: "string \<Rightarrow> int \<times> u64 \<Rightarrow> u64 \<Rightarrow> durable \<Rightarrow> durable" where
  "deleteLeaseSettlementRetentionTx leaseID key sequence d =
     d\<lparr>dq_leaseSettlements := AList.delete leaseID (dq_leaseSettlements d),
       dq_settlementOrder := AList.delete sequence (dq_settlementOrder d),
       dq_completedTargets := AList.delete leaseID (dq_completedTargets d),
       dq_settlementExpiry := AList.delete key (dq_settlementExpiry d)\<rparr>"

definition deleteExpiredLeaseSettlementTx ::
  "order_lib \<Rightarrow> int \<times> u64 \<Rightarrow> string \<Rightarrow> durable \<Rightarrow> bool tx_result" where
  "deleteExpiredLeaseSettlementTx lib key leaseID d =
     (let stale = d\<lparr>dq_settlementExpiry := AList.delete key (dq_settlementExpiry d)\<rparr>
      in (case map_of (dq_leaseSettlements d) leaseID of
        None \<Rightarrow> Inr (stale, False)
      | Some record \<Rightarrow>
          if (if ls_Terminal record then ls_FinalizedAtUnixNano record else ls_SettledAtUnixNano record) \<noteq> fst key \<or>
             leaseSettlementExpiryKey record \<noteq> Some key then Inr (stale, False)
          else if ls_Terminal record then expireTerminalLeaseSettlementTx lib leaseID record d
          else if map_of (dq_leases d) leaseID \<noteq> None then Inr (d, False)
          else if \<not> verifyExpiredLeaseSettlementIndex leaseID (ls_Sequence record) d then Inl SettlementIndexMismatch
          else Inr (deleteLeaseSettlementRetentionTx leaseID key (ls_Sequence record) d, False)))"

definition expiredLeaseSettlementCandidates :: "go_time \<Rightarrow> durable \<Rightarrow> ((int \<times> u64) \<times> string) list" where
  "expiredLeaseSettlementCandidates now d = take maximumLeaseSettlementRetentionChunk
     (takeWhile (\<lambda>((settled, _), _). \<not> settled + leaseSettlementRetention > now) (scan (dq_settlementExpiry d)))"

fun delete_expired :: "order_lib \<Rightarrow> ((int \<times> u64) \<times> string) list \<Rightarrow> durable \<Rightarrow> bool tx_result" where
  "delete_expired lib [] d = Inr (d, False)"
| "delete_expired lib ((key, leaseID) # rest) d =
     bind_tx (deleteExpiredLeaseSettlementTx lib key leaseID d) (\<lambda>d changed.
     bind_tx (delete_expired lib rest d) (\<lambda>d requeued. Inr (d, changed \<or> requeued)))"

definition leaseSettlementExpiryDue :: "txn \<Rightarrow> go_time \<Rightarrow> durable \<Rightarrow> (queue_error, bool) result" where
  "leaseSettlementExpiryDue outcome now d = vault_view outcome (\<lambda>d. Inr (case scan (dq_settlementExpiry d) of
     [] \<Rightarrow> False | ((settled, _), _) # _ \<Rightarrow> \<not> settled + leaseSettlementRetention > now)) d"

definition deleteExpiredLeaseSettlements ::
  "order_lib \<Rightarrow> txn \<Rightarrow> txn \<Rightarrow> go_time \<Rightarrow> durable \<Rightarrow> durable \<times> (queue_error, unit) result" where
  "deleteExpiredLeaseSettlements lib o1 o2 now d = (case leaseSettlementExpiryDue o1 now d of
     Inl e \<Rightarrow> (d, Inl e)
   | Inr False \<Rightarrow> (d, Inr ())
   | Inr True \<Rightarrow> (case vault_txn o2 (\<lambda>d. delete_expired lib (expiredLeaseSettlementCandidates now d) d) d of
       (d, Inl e) \<Rightarrow> (d, Inl e)
     | (d, Inr _) \<Rightarrow> (d, Inr ())))"

definition expireLeaseSettlements ::
  "order_lib \<Rightarrow> (nat \<Rightarrow> txn) \<Rightarrow> go_time \<Rightarrow> durable \<Rightarrow> durable \<times> (queue_error, unit) result" where
  "expireLeaseSettlements lib outcome now d = (case migrateLeaseSettlementExpiry (outcome 0) (outcome 1) now d of
     (d, Inl e) \<Rightarrow> (d, Inl e)
   | (d, Inr _) \<Rightarrow> deleteExpiredLeaseSettlements lib (outcome 2) (outcome 3) now d)"

record sweep_env =
  se_expired :: "txn \<times> (nat \<Rightarrow> chunk_env)"
  se_abandoned :: "txn \<times> (nat \<Rightarrow> chunk_env)"
  se_settlements :: "nat \<Rightarrow> txn"

definition sweepExpired ::
  "queue_config \<Rightarrow> sweep_env \<Rightarrow> go_time \<Rightarrow> go_time \<Rightarrow> order_queue \<Rightarrow> order_queue \<times> (queue_error, unit) result" where
  "sweepExpired cfg env now later q =
     (case requeueLeasesMatching (qc_lib cfg) (fst (se_expired env)) (snd (se_expired env)) (lease_expired now) q of
        (q, Inl e) \<Rightarrow> (q, Inl e)
      | (q, Inr _) \<Rightarrow>
          (case reclaimAbandonedLeases cfg later (fst (se_abandoned env)) (snd (se_abandoned env)) q of
             (q, Inl e) \<Rightarrow> (q, Inl e)
           | (q, Inr _) \<Rightarrow> (case expireLeaseSettlements (qc_lib cfg) (se_settlements env) now (cq_store q) of
               (d, r) \<Rightarrow> (q\<lparr>cq_store := d\<rparr>, r))))"

section \<open>Renewing\<close>

type_synonym leaseRenewalCandidate = "string \<times> leaseRecord"

fun renewal_candidates ::
  "duration \<Rightarrow> string \<Rightarrow> string \<Rightarrow> go_time \<Rightarrow> durable \<Rightarrow> string list \<Rightarrow> string list \<Rightarrow>
     leaseRenewalCandidate list \<times> bool" where
  "renewal_candidates leaseTTL workerID workerSessionID readAt d seen [] = ([], False)"
| "renewal_candidates leaseTTL workerID workerSessionID readAt d seen (leaseID # rest) =
     (if leaseID = [] \<or> leaseID \<in> set seen then renewal_candidates leaseTTL workerID workerSessionID readAt d seen rest
      else (case renewal_candidates leaseTTL workerID workerSessionID readAt d (leaseID # seen) rest of
        (candidates, refresh) \<Rightarrow> (case map_of (dq_leases d) leaseID of
          None \<Rightarrow> (candidates, refresh)
        | Some record \<Rightarrow>
            if \<not> liveLeaseOwnedBy record workerID workerSessionID readAt then (candidates, refresh)
            else ((leaseID, record) # candidates,
                  refresh \<or> lr_ExpiresAtUnixNano record - readAt \<le> leaseTTL * 3 div 4))))"

definition leaseRenewalCandidates ::
  "queue_config \<Rightarrow> txn \<Rightarrow> string \<Rightarrow> string \<Rightarrow> string list \<Rightarrow> go_time \<Rightarrow> durable \<Rightarrow>
     (queue_error, leaseRenewalCandidate list \<times> bool) result" where
  "leaseRenewalCandidates cfg outcome workerID workerSessionID activeLeaseIDs readAt d = vault_view outcome (\<lambda>d.
     Inr (renewal_candidates (qc_leaseTTL cfg) workerID workerSessionID readAt d [] activeLeaseIDs)) d"

fun renew_leases ::
  "string \<Rightarrow> string \<Rightarrow> go_time \<Rightarrow> go_time \<Rightarrow> leaseRenewalCandidate list \<Rightarrow> durable \<Rightarrow>
     durable \<times> leaseRenewalCandidate list" where
  "renew_leases workerID workerSessionID writeAt deadline [] d = (d, [])"
| "renew_leases workerID workerSessionID writeAt deadline ((leaseID, _) # rest) d = (case map_of (dq_leases d) leaseID of
     None \<Rightarrow> renew_leases workerID workerSessionID writeAt deadline rest d
   | Some record \<Rightarrow>
       if \<not> liveLeaseOwnedBy record workerID workerSessionID writeAt
       then renew_leases workerID workerSessionID writeAt deadline rest d
       else
         let record = record\<lparr>lr_ExpiresAtUnixNano := deadline\<rparr>
         in (case renew_leases workerID workerSessionID writeAt deadline rest (set_lease leaseID record d) of
           (d, committed) \<Rightarrow> (d, (leaseID, record) # committed)))"

definition commitLeaseRenewals ::
  "queue_config \<Rightarrow> txn \<Rightarrow> string \<Rightarrow> string \<Rightarrow> leaseRenewalCandidate list \<Rightarrow> go_time \<Rightarrow> durable \<Rightarrow>
     durable \<times> (queue_error, leaseRenewalCandidate list) result" where
  "commitLeaseRenewals cfg outcome workerID workerSessionID candidates writeAt d = vault_txn outcome (\<lambda>d.
     Inr (renew_leases workerID workerSessionID writeAt (writeAt + qc_leaseTTL cfg) candidates d)) d"

fun renewal_response :: "leaseRenewalCandidate list \<Rightarrow> go_time \<Rightarrow> duration \<Rightarrow> string list \<times> duration" where
  "renewal_response [] responseAt minimum = ([], minimum)"
| "renewal_response ((leaseID, record) # rest) responseAt minimum =
     (if lr_ExpiresAtUnixNano record \<le> responseAt then renewal_response rest responseAt minimum
      else (case renewal_response rest responseAt (min minimum (lr_ExpiresAtUnixNano record - responseAt)) of
        (renewed, remaining) \<Rightarrow> (leaseID # renewed, remaining)))"

definition renewalResponse :: "leaseRenewalCandidate list \<Rightarrow> go_time \<Rightarrow> duration \<Rightarrow> string list \<times> duration" where
  "renewalResponse candidates responseAt leaseTTL = renewal_response candidates responseAt leaseTTL"

text \<open>Between the reading and the writing other operations may change the queue, so the two have a state
  each; the clock is read for the reading, for the writing and for the response.\<close>

definition renewLeases ::
  "queue_config \<Rightarrow> (nat \<Rightarrow> txn) \<Rightarrow> (nat \<Rightarrow> go_time) \<Rightarrow> string \<Rightarrow> string \<Rightarrow> string list \<Rightarrow>
     order_queue \<Rightarrow> order_queue \<Rightarrow> order_queue \<times> (queue_error, string list \<times> duration) result" where
  "renewLeases cfg outcome clock workerID workerSessionID activeLeaseIDs q_read q =
     (case leaseRenewalCandidates cfg (outcome 0) workerID workerSessionID activeLeaseIDs (clock 0) (cq_store q_read) of
        Inl e \<Rightarrow> (q, Inl e)
      | Inr (candidates, False) \<Rightarrow> (q, Inr (renewalResponse candidates (clock 1) (qc_leaseTTL cfg)))
      | Inr (candidates, True) \<Rightarrow>
          (case commitLeaseRenewals cfg (outcome 1) workerID workerSessionID candidates (clock 1) (cq_store q) of
             (d, Inl e) \<Rightarrow> (q\<lparr>cq_store := d\<rparr>, Inl e)
           | (d, Inr committed) \<Rightarrow>
               (q\<lparr>cq_store := d\<rparr>, Inr (renewalResponse committed (clock 2) (qc_leaseTTL cfg)))))"

section \<open>A new session of a worker\<close>

definition adopted :: "string \<Rightarrow> string \<Rightarrow> go_time \<Rightarrow> leaseRecord \<Rightarrow> leaseRecord option" where
  "adopted workerID workerSessionID deadline record =
     (if lr_WorkerID record \<noteq> workerID \<or> lr_Deferred record then None
      else Some (record\<lparr>lr_WorkerSessionID := workerSessionID, lr_ExpiresAtUnixNano := deadline\<rparr>))"

definition adoptable_leases ::
  "string \<Rightarrow> string \<Rightarrow> go_time \<Rightarrow> durable \<Rightarrow> (string \<times> leaseRecord) list" where
  "adoptable_leases workerID workerSessionID deadline d =
     List.map_filter (\<lambda>(leaseID, record). map_option (Pair leaseID) (adopted workerID workerSessionID deadline record))
       (scan (dq_leases d))"

definition adopt_tx :: "string \<Rightarrow> string \<Rightarrow> go_time \<Rightarrow> durable \<Rightarrow> (string \<times> bytes) list tx_result" where
  "adopt_tx workerID workerSessionID deadline d =
     (let leases = adoptable_leases workerID workerSessionID deadline d
      in Inr (fold (\<lambda>(leaseID, record). set_lease leaseID record) leases d,
              map (\<lambda>(leaseID, record). (leaseID, lr_OrderData record)) leases))"

definition automaticDiscoverySettlementLeaseIDsForWorker ::
  "txn \<Rightarrow> string \<Rightarrow> durable \<Rightarrow> (queue_error, string list) result" where
  "automaticDiscoverySettlementLeaseIDsForWorker outcome workerID d = vault_view outcome (\<lambda>d.
     Inr (map fst (filter (\<lambda>(_, intent). lr_WorkerID (si_Lease intent) = workerID) (scan (dq_discoverySettlements d))))) d"

definition resolveWorkerAutomaticDiscoverySettlements ::
  "txn \<Rightarrow> resolve_env \<Rightarrow> string \<Rightarrow> order_queue \<Rightarrow> order_queue \<times> queue_error option" where
  "resolveWorkerAutomaticDiscoverySettlements outcome env workerID q =
     (case automaticDiscoverySettlementLeaseIDsForWorker outcome workerID (cq_store q) of
        Inl e \<Rightarrow> (q, Some e)
      | Inr leaseIDs \<Rightarrow> resolve_settlements env leaseIDs q)"

definition adoptWorkerSession ::
  "queue_config \<Rightarrow> (nat \<Rightarrow> txn) \<Rightarrow> resolve_env \<Rightarrow> go_time \<Rightarrow> string \<Rightarrow> string \<Rightarrow> order_queue \<Rightarrow>
     order_queue \<times> (queue_error, (string \<times> bytes) list) result" where
  "adoptWorkerSession cfg outcome env now workerID workerSessionID q =
     (case resolveWorkerAutomaticDiscoverySettlements (outcome 0) env workerID q of
        (q, Some e) \<Rightarrow> (q, Inl e)
      | (q, None) \<Rightarrow>
          (case vault_txn (outcome 1) (adopt_tx workerID workerSessionID (now + qc_leaseTTL cfg)) (cq_store q) of
             (d, Inl e) \<Rightarrow> (q\<lparr>cq_store := d\<rparr>, Inl e)
           | (d, Inr leases) \<Rightarrow>
               (q\<lparr>cq_store := d, cq_catalog := reassignWorker workerID workerSessionID (length leases) (cq_catalog q)\<rparr>,
                Inr leases)))"

end
