(* ===== verification/OrderEndings.thy ===== *)
theory OrderEndings
  imports OrderReturns
begin

text \<open>
  The end of an order in the crawl order queue (\<^verbatim>\<open>terminal_*.go\<close>, \<^verbatim>\<open>pending_order_clearing.go\<close>) and
  its start after a restart (\<^verbatim>\<open>order_queue.go\<close>, \<^verbatim>\<open>order_priority_reconciliation.go\<close>): a worker ends
  the run of its lease with the final tally, which is settled as acknowledged or handed back and
  confirmed later; the pending orders can be cleared; and what a stopped process left is completed
  before the queue is used.
\<close>

section \<open>Preparing the end of a run\<close>

definition settlementLeaseForRequest ::
  "leaseRecord option \<Rightarrow> settlementIntent option \<Rightarrow> terminalLeaseRequest \<Rightarrow> go_time \<Rightarrow>
     (queue_error, leaseRecord option) result" where
  "settlementLeaseForRequest stored staged request now =
     (case stored of
        Some record \<Rightarrow>
          if \<not> lr_Deferred record
          then (if \<not> liveLeaseOwnedBy record (tl_WorkerID request) (tl_WorkerSessionID request) now
                then Inl LeaseLost else Inr (Some record))
          else (case staged of
            None \<Rightarrow> Inr None
          | Some intent \<Rightarrow>
              if lr_WorkerID (si_Lease intent) \<noteq> tl_WorkerID request \<or>
                 lr_WorkerSessionID (si_Lease intent) \<noteq> tl_WorkerSessionID request then Inl LeaseLost
              else Inr (Some (si_Lease intent)))
      | None \<Rightarrow> (case staged of
            None \<Rightarrow> Inr None
          | Some intent \<Rightarrow>
              if lr_WorkerID (si_Lease intent) \<noteq> tl_WorkerID request \<or>
                 lr_WorkerSessionID (si_Lease intent) \<noteq> tl_WorkerSessionID request then Inl LeaseLost
              else Inr (Some (si_Lease intent))))"

definition stageTerminalSettlementTx ::
  "order_lib \<Rightarrow> go_time \<Rightarrow> string \<Rightarrow> terminalLeaseRequest \<Rightarrow> durable \<Rightarrow> bool tx_result" where
  "stageTerminalSettlementTx lib now leaseID request d =
     (let staged = map_of (dq_discoverySettlements d) leaseID
      in if tl_Outcome request \<noteq> LeaseSettlementAcknowledged
         then (if staged \<noteq> None then Inl LeaseDispositionConflict else Inr (d, False))
         else (case settlementLeaseForRequest (map_of (dq_leases d) leaseID) staged request now of
           Inl e \<Rightarrow> Inl e
         | Inr None \<Rightarrow> Inr (d, False)
         | Inr (Some record) \<Rightarrow>
             if ol_sha256 lib (lr_OrderData record) \<noteq> tl_OrderIdentity request then Inl LeaseDispositionConflict
             else (case terminalSettlementWithOrder lib (terminalSettlementRecord request) (lr_OrderData record) of
               Inl e \<Rightarrow> Inl e
             | Inr settlement \<Rightarrow>
                 if lr_DiscoveryKey record = [] then Inr (d, False)
                 else bind_tx (persistSettlementIntentTx leaseID \<lparr>si_Lease = record,
                     si_Target = \<lparr>lt_WorkerID = tl_WorkerID request, lt_RunID = cr_RunID (ls_Progress settlement)\<rparr>,
                     si_Settlement = settlement\<rparr> d) (\<lambda>d _. Inr (d, True)))))"

definition applyTerminalLeaseDispositionTx ::
  "go_time \<Rightarrow> string \<Rightarrow> terminalLeaseRequest \<Rightarrow> leaseSettlementRecord \<Rightarrow> leaseRecord \<Rightarrow> durable \<Rightarrow> durable" where
  "applyTerminalLeaseDispositionTx now leaseID request settlement record d =
     (if tl_Outcome request = LeaseSettlementAcknowledged
      then releaseLeasedAutomaticDiscoveryTx leaseID record (delete_lease leaseID
             (put_target leaseID \<lparr>lt_WorkerID = tl_WorkerID request, lt_RunID = cr_RunID (ls_Progress settlement)\<rparr> d))
      else set_lease leaseID (deferred_lease now record) d)"

text \<open>The clock is read for the owner, for the time of the retry and for the settlement.\<close>

definition prepareTerminalLeaseSettlementTx ::
  "order_lib \<Rightarrow> (nat \<Rightarrow> go_time) \<Rightarrow> string \<Rightarrow> terminalLeaseRequest \<Rightarrow> leaseSettlementRecord \<Rightarrow> durable \<Rightarrow>
     (leaseSettlementRecord \<times> leaseRecord option) tx_result" where
  "prepareTerminalLeaseSettlementTx lib clock leaseID request want d =
     (let retained = (case requireTerminalLeaseSettlement leaseID want d of
          Inl e \<Rightarrow> Inl e | Inr settlement \<Rightarrow> Inr (d, settlement, None))
      in (case map_of (dq_leases d) leaseID of
        None \<Rightarrow> retained
      | Some record \<Rightarrow>
          if lr_Deferred record then retained
          else if \<not> liveLeaseOwnedBy record (tl_WorkerID request) (tl_WorkerSessionID request) (clock 0) then Inl LeaseLost
          else if ol_sha256 lib (lr_OrderData record) \<noteq> tl_OrderIdentity request then Inl LeaseDispositionConflict
          else (case terminalSettlementWithOrder lib want (lr_OrderData record) of
            Inl e \<Rightarrow> Inl e
          | Inr want \<Rightarrow>
              bind_tx (storeLeaseSettlement (clock 2) leaseID want
                        (applyTerminalLeaseDispositionTx (clock 1) leaseID request want record d)) (\<lambda>d settlement.
                Inr (d, settlement, Some record)))))"

definition prepareTerminalLeaseSettlement ::
  "order_lib \<Rightarrow> (nat \<Rightarrow> txn) \<Rightarrow> (nat \<Rightarrow> go_time) \<Rightarrow> string \<Rightarrow> terminalLeaseRequest \<Rightarrow> order_queue \<Rightarrow>
     order_queue \<times> (queue_error, leaseSettlementRecord) result" where
  "prepareTerminalLeaseSettlement lib outcome clock leaseID request q =
     (case vault_txn (outcome 0) (stageTerminalSettlementTx lib (clock 0) leaseID request) (cq_store q) of
        (d, Inl e) \<Rightarrow> (q\<lparr>cq_store := d\<rparr>, Inl e)
      | (d, Inr _) \<Rightarrow>
          (case vault_txn (outcome 1) (prepareTerminalLeaseSettlementTx lib (\<lambda>n. clock (n + 1)) leaseID request
               (terminalSettlementRecord request)) d of
            (d, main) \<Rightarrow>
              (case completeAutomaticDiscoverySettlement (clock 4) (outcome 2) (outcome 3) leaseID d of
                (d, resolution, recoveryErr) \<Rightarrow>
                  let q = q\<lparr>cq_store := d, cq_catalog := catalog_after_settlement (map_sum id snd main) resolution
                        (cq_catalog q)\<rparr>
                  in (q, case recoveryErr of
                       Some e \<Rightarrow> Inl e
                     | None \<Rightarrow> (case resolution of
                         Some (_, settlement) \<Rightarrow> Inr settlement
                       | None \<Rightarrow> map_sum id fst main)))))"

section \<open>Confirming it\<close>

definition confirmTerminalLeaseSettlementTx ::
  "order_lib \<Rightarrow> string \<Rightarrow> terminalLeaseRequest \<Rightarrow> durable \<Rightarrow> bool tx_result" where
  "confirmTerminalLeaseSettlementTx lib leaseID request d = (case map_of (dq_leaseSettlements d) leaseID of
     None \<Rightarrow> Inr (d, False)
   | Some settlement \<Rightarrow>
       if \<not> sameTerminalLeaseSettlement settlement (terminalSettlementRecord request) then Inl LeaseDispositionConflict
       else bind_tx (if tl_Outcome request = LeaseSettlementRequeued
                     then requeueTerminalLeaseTx lib leaseID (tl_OrderIdentity request) d
                     else Inr (d, False)) (\<lambda>d requeued.
              Inr (deleteTerminalLeaseSettlementTx leaseID settlement d, requeued)))"

definition confirmTerminalLeaseSettlement ::
  "order_lib \<Rightarrow> txn \<Rightarrow> string \<Rightarrow> terminalLeaseRequest \<Rightarrow> durable \<Rightarrow> durable \<times> (queue_error, unit) result" where
  "confirmTerminalLeaseSettlement lib outcome leaseID request d =
     (case vault_txn outcome (confirmTerminalLeaseSettlementTx lib leaseID request) d of
        (d, Inl e) \<Rightarrow> (d, Inl e)
      | (d, Inr _) \<Rightarrow> (d, Inr ()))"

section \<open>Clearing the pending orders\<close>

definition deletePendingAutomaticDiscoveryKeyTx :: "u64 \<Rightarrow> string \<Rightarrow> durable \<Rightarrow> durable" where
  "deletePendingAutomaticDiscoveryKeyTx sequence key d =
     (let leased = (map_of (dq_leasedDiscovery d) key \<noteq> None);
          active = (map_of (dq_activeDiscovery d) key = Some sequence);
          legacy = (map_of (dq_keys d) key = Some sequence);
          d = (if \<not> leased \<and> active then d\<lparr>dq_activeDiscovery := AList.delete key (dq_activeDiscovery d)\<rparr> else d)
      in if \<not> leased \<and> legacy then d\<lparr>dq_keys := AList.delete key (dq_keys d)\<rparr> else d)"

definition deletePendingAutomaticDiscoveryIdentityTx :: "u64 \<Rightarrow> CrawlOrder \<Rightarrow> durable \<Rightarrow> unit tx_result" where
  "deletePendingAutomaticDiscoveryIdentityTx sequence order d = (case map_of (dq_pendingDiscovery d) sequence of
     Some key \<Rightarrow>
       if key = [] then Inl EmptyDiscoveryKey
       else Inr (deletePendingAutomaticDiscoveryKeyTx sequence key
              (d\<lparr>dq_pendingDiscovery := AList.delete sequence (dq_pendingDiscovery d)\<rparr>), ())
   | None \<Rightarrow> Inr (fold (deletePendingAutomaticDiscoveryKeyTx sequence) (co_Requests order) d, ()))"

definition deletePendingOrderTx :: "u64 \<Rightarrow> CrawlOrder \<Rightarrow> durable \<Rightarrow> unit tx_result" where
  "deletePendingOrderTx sequence order d =
     bind_tx (if co_Priority order = CrawlOrderPriorityAutomaticDiscovery
              then deletePendingAutomaticDiscoveryIdentityTx sequence order d else Inr (d, ())) (\<lambda>d _.
       Inr (d\<lparr>dq_orders := AList.delete sequence (dq_orders d),
         dq_normalIndex := AList.delete sequence (dq_normalIndex d),
         dq_automaticIndex := AList.delete sequence (dq_automaticIndex d)\<rparr>, ()))"

definition deletePendingOrderEntryTx :: "order_lib \<Rightarrow> u64 \<Rightarrow> bytes \<Rightarrow> durable \<Rightarrow> unit tx_result" where
  "deletePendingOrderEntryTx lib sequence data d = (case decode_order lib data of
     Inl e \<Rightarrow> Inl e
   | Inr order \<Rightarrow> deletePendingOrderTx sequence order d)"

definition maximumPendingOrdersPerClearTransaction :: nat where "maximumPendingOrdersPerClearTransaction = 256"

text \<open>A page has its number of removed orders, the last of them and whether it is the last page.\<close>

record clear_page =
  pg_removed :: nat
  pg_last :: "u64 option"
  pg_finished :: bool

fun clear_entries :: "order_lib \<Rightarrow> u64 \<Rightarrow> (u64 \<times> bytes) list \<Rightarrow> clear_page \<Rightarrow> durable \<Rightarrow> clear_page tx_result" where
  "clear_entries lib cutoff [] page d = Inr (d, page)"
| "clear_entries lib cutoff ((sequence, data) # rest) page d =
     (if sequence \<ge> cutoff then Inr (d, page\<lparr>pg_finished := True\<rparr>)
      else bind_tx (deletePendingOrderEntryTx lib sequence data d) (\<lambda>d _.
        clear_entries lib cutoff rest (page\<lparr>pg_removed := pg_removed page + 1, pg_last := Some sequence\<rparr>) d))"

definition rows_after :: "u64 option \<Rightarrow> durable \<Rightarrow> (u64 \<times> bytes) list" where
  "rows_after after d =
     filter (\<lambda>(sequence, _). case after of None \<Rightarrow> True | Some last_key \<Rightarrow> sequence > last_key) (scan (dq_orders d))"

definition clearPendingOrderPageTx :: "order_lib \<Rightarrow> u64 option \<Rightarrow> u64 \<Rightarrow> durable \<Rightarrow> clear_page tx_result" where
  "clearPendingOrderPageTx lib after cutoff d =
     (let rows = rows_after after d;
          entries = take maximumPendingOrdersPerClearTransaction rows
      in if entries = [] then Inr (d, \<lparr>pg_removed = 0, pg_last = None, pg_finished = True\<rparr>)
         else clear_entries lib cutoff entries
                \<lparr>pg_removed = 0, pg_last = None, pg_finished = (drop maximumPendingOrdersPerClearTransaction rows = [])\<rparr> d)"

definition pendingOrderSequenceCutoff :: "txn \<Rightarrow> durable \<Rightarrow> (queue_error, u64) result" where
  "pendingOrderSequenceCutoff outcome d = vault_view outcome (\<lambda>d.
     let sequence = seq_get d SeqNext
     in if scan (dq_orders d) \<noteq> [] \<and> fst (last (scan (dq_orders d))) \<ge> sequence then Inl SequenceBehindOrders
        else Inr sequence) d"

text \<open>Each page has the flag of a cancelled context and the outcome of its update. The number of pages is
  bounded by the fuel.\<close>

fun clear_pages ::
  "order_lib \<Rightarrow> (nat \<Rightarrow> bool \<times> txn) \<Rightarrow> nat \<Rightarrow> u64 option \<Rightarrow> u64 \<Rightarrow> nat \<Rightarrow> durable \<Rightarrow>
     (durable \<times> nat \<times> queue_error option) option" where
  "clear_pages lib env 0 after cutoff removed d = None"
| "clear_pages lib env (Suc fuel) after cutoff removed d =
     (if fst (env 0) then Some (d, removed, Some QueueCancelled)
      else (case vault_txn (snd (env 0)) (clearPendingOrderPageTx lib after cutoff) d of
        (d, Inl e) \<Rightarrow> Some (d, removed, Some e)
      | (d, Inr page) \<Rightarrow>
          if pg_finished page then Some (d, removed + pg_removed page, None)
          else clear_pages lib (\<lambda>n. env (Suc n)) fuel (pg_last page) cutoff (removed + pg_removed page) d))"

definition clearPendingOrdersBefore ::
  "order_lib \<Rightarrow> (nat \<Rightarrow> bool \<times> txn) \<Rightarrow> u64 \<Rightarrow> durable \<Rightarrow> durable \<times> nat \<times> queue_error option" where
  "clearPendingOrdersBefore lib env cutoff d =
     the (clear_pages lib env (Suc (length (dq_orders d))) None cutoff 0 d)"

definition ClearPendingOrders ::
  "order_lib \<Rightarrow> bool \<Rightarrow> (nat \<Rightarrow> txn) \<Rightarrow> txn \<Rightarrow> (nat \<Rightarrow> bool \<times> txn) \<Rightarrow> durable \<Rightarrow>
     durable \<times> nat \<times> queue_error option" where
  "ClearPendingOrders lib cancelled outcome cutoff_outcome env d =
     (if cancelled then (d, 0, Some QueueCancelled)
      else (case reconcileAutomaticDiscoveryIntents lib outcome d of
        (d, Inl e) \<Rightarrow> (d, 0, Some e)
      | (d, Inr _) \<Rightarrow> (case pendingOrderSequenceCutoff cutoff_outcome d of
          Inl e \<Rightarrow> (d, 0, Some e)
        | Inr cutoff \<Rightarrow> clearPendingOrdersBefore lib env cutoff d)))"

section \<open>The size of the queue\<close>

record QueueDepth =
  qd_Pending :: nat
  qd_Leased :: nat

definition Outstanding :: "QueueDepth \<Rightarrow> nat" where "Outstanding depth = qd_Pending depth + qd_Leased depth"

definition Depth :: "txn \<Rightarrow> durable \<Rightarrow> (queue_error, QueueDepth) result" where
  "Depth outcome d = vault_view outcome (\<lambda>d.
     Inr \<lparr>qd_Pending = length (dq_orders d), qd_Leased = length (dq_leases d)\<rparr>) d"

section \<open>The start of the queue\<close>

definition priorityIndexFormatVersion :: u64 where "priorityIndexFormatVersion = 1"

definition migrateAutomaticOrderPayload :: "u64 \<times> bytes \<Rightarrow> durable \<Rightarrow> durable" where
  "migrateAutomaticOrderPayload entry d = (case entry of (key, data) \<Rightarrow>
     let d = (if map_of (dq_orders d) key = None then d\<lparr>dq_orders := AList.update key data (dq_orders d)\<rparr> else d)
     in d\<lparr>dq_automaticIndex := AList.update key priorityIndexMarker (dq_automaticIndex d)\<rparr>)"

definition migrateAutomaticOrderPayloads :: "durable \<Rightarrow> durable" where
  "migrateAutomaticOrderPayloads d =
     fold migrateAutomaticOrderPayload
       (filter (\<lambda>(_, data). data \<noteq> priorityIndexMarker) (scan (dq_automaticIndex d))) d"

definition indexPendingOrder :: "order_lib \<Rightarrow> u64 \<Rightarrow> bool \<Rightarrow> u64 \<times> bytes \<Rightarrow> durable \<Rightarrow> durable" where
  "indexPendingOrder lib indexedThrough indexAll entry d = (case entry of (key, data) \<Rightarrow>
     if \<not> indexAll \<and> key < indexedThrough then d
     else
       let priority = persistedOrderPriority lib data CrawlOrderPriorityNormal
       in index_delete (priority = CrawlOrderPriorityNormal) key (index_put priority key d))"

definition indexPendingOrders :: "order_lib \<Rightarrow> u64 \<Rightarrow> bool \<Rightarrow> durable \<Rightarrow> durable" where
  "indexPendingOrders lib indexedThrough indexAll d =
     fold (indexPendingOrder lib indexedThrough indexAll) (scan (dq_orders d)) d"

definition reconcilePriorityIndexesTx :: "order_lib \<Rightarrow> durable \<Rightarrow> unit tx_result" where
  "reconcilePriorityIndexesTx lib d =
     (let format = map_of (dq_seq d) PriorityIndexFormat
      in if format \<noteq> None \<and> format \<noteq> Some priorityIndexFormatVersion then Inl BadPriorityFormat
         else
           let through = (if format = None then None else map_of (dq_seq d) PriorityIndexNext);
               indexedThrough = (case through of None \<Rightarrow> 0 | Some n \<Rightarrow> n);
               d = (if format = None then migrateAutomaticOrderPayloads d else d);
               next_number = seq_get d SeqNext
           in if indexedThrough > next_number then Inl WatermarkAhead
              else
                let d = (if through = None \<or> indexedThrough < next_number
                         then seq_put PriorityIndexNext next_number
                                (indexPendingOrders lib indexedThrough (through = None) d)
                         else d)
                in Inr (if format = None then seq_put PriorityIndexFormat priorityIndexFormatVersion d else d, ()))"

definition reconcilePriorityIndexes :: "order_lib \<Rightarrow> txn \<Rightarrow> durable \<Rightarrow> durable \<times> (queue_error, unit) result" where
  "reconcilePriorityIndexes lib outcome d = vault_txn outcome (reconcilePriorityIndexesTx lib) d"

fun complete_settlements :: "resolve_env \<Rightarrow> string list \<Rightarrow> durable \<Rightarrow> durable \<times> (queue_error, unit) result" where
  "complete_settlements env [] d = (d, Inr ())"
| "complete_settlements env (leaseID # rest) d = (case env 0 of (now, o1, o2) \<Rightarrow>
     (case completeAutomaticDiscoverySettlement now o1 o2 leaseID d of
        (d, _, Some e) \<Rightarrow> (d, Inl e)
      | (d, _, None) \<Rightarrow> complete_settlements (\<lambda>n. env (Suc n)) rest d))"

definition reconcileAutomaticDiscoverySettlements ::
  "txn \<Rightarrow> resolve_env \<Rightarrow> durable \<Rightarrow> durable \<times> (queue_error, unit) result" where
  "reconcileAutomaticDiscoverySettlements outcome env d =
     (case vault_view outcome (\<lambda>d. Inr (map fst (scan (dq_discoverySettlements d)))) d of
        Inl e \<Rightarrow> (d, Inl e)
      | Inr leaseIDs \<Rightarrow> complete_settlements env leaseIDs d)"

text \<open>The outcomes of the intents have their own sequence; then there are the reindexing of the leases,
  the view of the staged settlements with the completion of each, and the load of the catalog.\<close>

definition newDurableOrderQueue ::
  "order_lib \<Rightarrow> (nat \<Rightarrow> txn) \<Rightarrow> (nat \<Rightarrow> txn) \<Rightarrow> resolve_env \<Rightarrow> durable \<Rightarrow> durable \<times> (queue_error, order_queue) result" where
  "newDurableOrderQueue lib intents outcome env d =
     (case reconcileAutomaticDiscoveryIntents lib intents d of
        (d, Inl e) \<Rightarrow> (d, Inl e)
      | (d, Inr _) \<Rightarrow> (case reconcileAutomaticDiscoveryLeases (outcome 0) d of
          (d, Inl e) \<Rightarrow> (d, Inl e)
        | (d, Inr _) \<Rightarrow> (case reconcileAutomaticDiscoverySettlements (outcome 1) env d of
            (d, Inl e) \<Rightarrow> (d, Inl e)
          | (d, Inr _) \<Rightarrow> (case vault_view (outcome 2) (\<lambda>d. Inr (loadWorkerLeaseCatalog d)) d of
              Inl e \<Rightarrow> (d, Inl e)
            | Inr catalog \<Rightarrow> (d, Inr \<lparr>cq_store = d, cq_catalog = catalog\<rparr>)))))"

end
