(* ===== verification/OrderFrame.thy ===== *)
theory OrderFrame
  imports OrderEndings "HOL-Library.Multiset"
begin

text \<open>
  What the transactions of the crawl order queue leave alone: the rules for what holds after a
  transaction that committed, and for every operation on the keys of discovered addresses and on the
  history of settlements that the orders and the orders of the leases are the same afterwards.
\<close>

section \<open>What holds after a transaction\<close>

definition post :: "'r tx_result \<Rightarrow> (durable \<Rightarrow> 'r \<Rightarrow> bool) \<Rightarrow> bool" where
  "post m Q = (case m of Inl _ \<Rightarrow> True | Inr (d, r) \<Rightarrow> Q d r)"

lemma post_simps [simp]:
  "post (Inl e) Q" "post (Inr (d, r)) Q = Q d r"
  by (simp_all add: post_def)

lemma post_bind [simp]: "post (bind_tx m f) Q = post m (\<lambda>d r. post (f d r) Q)"
  by (auto simp: post_def bind_tx_def split: sum.splits)

lemma post_mono: "post m Q \<Longrightarrow> (\<And>d r. m = Inr (d, r) \<Longrightarrow> Q d r \<Longrightarrow> R d r) \<Longrightarrow> post m R"
  by (auto simp: post_def split: sum.splits)

lemma postD: "post m Q \<Longrightarrow> m = Inr (d, r) \<Longrightarrow> Q d r"
  by simp

lemma postI: "(\<And>d r. m = Inr (d, r) \<Longrightarrow> Q d r) \<Longrightarrow> post m Q"
  by (auto simp: post_def split: sum.splits)

lemma vault_txn_cases:
  assumes "vault_txn outcome f d = (d', r)"
  obtains (committed) r' where "f d = Inr (d', r')" and "r = Inr r'" | (failed) e where "d' = d" and "r = Inl e"
  using assms by (auto simp: vault_txn_def split: sum.splits if_splits)

lemma vault_txn_post:
  "post (f d) (\<lambda>d' _. Q d') \<Longrightarrow> Q d \<Longrightarrow> Q (fst (vault_txn outcome f d))"
  by (auto simp: vault_txn_def post_def split: sum.splits)

section \<open>The orders and who has them\<close>

definition lease_orders :: "durable \<Rightarrow> (string, bytes) gomap" where
  "lease_orders d = map (\<lambda>(leaseID, record). (leaseID, lr_OrderData record)) (dq_leases d)"

definition same_work :: "durable \<Rightarrow> durable \<Rightarrow> bool" where
  "same_work d d' \<longleftrightarrow> dq_orders d' = dq_orders d \<and> lease_orders d' = lease_orders d \<and>
     seq_get d' SeqNext = seq_get d SeqNext"

lemma same_work_refl [simp]: "same_work d d"
  by (simp add: same_work_def)

lemma same_work_trans [trans]: "same_work a b \<Longrightarrow> same_work b c \<Longrightarrow> same_work a c"
  by (simp add: same_work_def)

lemma map_of_lease_orders: "map_of (lease_orders d) leaseID = map_option lr_OrderData (map_of (dq_leases d) leaseID)"
  by (simp add: lease_orders_def map_of_map)

lemma same_work_update [simp]:
  "same_work d (m\<lparr>dq_normalIndex := a\<rparr>) = same_work d m" "same_work d (m\<lparr>dq_automaticIndex := a\<rparr>) = same_work d m"
  "same_work d (m\<lparr>dq_keys := k\<rparr>) = same_work d m" "same_work d (m\<lparr>dq_activeDiscovery := k\<rparr>) = same_work d m"
  "same_work d (m\<lparr>dq_pendingDiscovery := p\<rparr>) = same_work d m" "same_work d (m\<lparr>dq_leasedDiscovery := l\<rparr>) = same_work d m"
  "same_work d (m\<lparr>dq_discoveryIntents := i\<rparr>) = same_work d m"
  "same_work d (m\<lparr>dq_discoverySettlements := s\<rparr>) = same_work d m"
  "same_work d (m\<lparr>dq_leaseSettlements := h\<rparr>) = same_work d m" "same_work d (m\<lparr>dq_settlementOrder := n\<rparr>) = same_work d m"
  "same_work d (m\<lparr>dq_settlementExpiry := x\<rparr>) = same_work d m" "same_work d (m\<lparr>dq_controlTargets := t\<rparr>) = same_work d m"
  "same_work d (m\<lparr>dq_completedTargets := t\<rparr>) = same_work d m"
  by (simp_all add: same_work_def lease_orders_def seq_get_def)

lemma same_work_seq_put [simp]: "k \<noteq> SeqNext \<Longrightarrow> same_work d (seq_put k n m) = same_work d m"
  by (simp add: same_work_def lease_orders_def seq_get_def seq_put_def get_or_update)

lemma map_update_value:
  "map_of m k = Some v \<Longrightarrow> f v' = f v \<Longrightarrow>
     map (\<lambda>(k, v). (k, f v)) (AList.update k v' m) = map (\<lambda>(k, v). (k, f v)) m"
  by (induction m) (auto split: if_splits)

lemma same_work_set_lease:
  "map_of (dq_leases m) leaseID = Some lease \<Longrightarrow> lr_OrderData lease' = lr_OrderData lease \<Longrightarrow>
     same_work d (set_lease leaseID lease' m) = same_work d m"
  by (simp add: same_work_def lease_orders_def set_lease_def seq_get_def map_update_value [of _ _ _ lr_OrderData])

lemma same_work_leases:
  assumes "same_work d d'" and "map_of (dq_leases d) leaseID = Some lease"
  obtains lease' where "map_of (dq_leases d') leaseID = Some lease'"
    and "lr_OrderData lease' = lr_OrderData lease"
proof -
  have "map_of (lease_orders d') leaseID = Some (lr_OrderData lease)"
    using assms by (simp add: same_work_def map_of_lease_orders)
  then show thesis using that by (auto simp: map_of_lease_orders)
qed

section \<open>The keys of discovered addresses\<close>

lemma same_work_discovery [simp]:
  "same_work d (set_active key sequence m) = same_work d m" "same_work d (set_pending sequence key m) = same_work d m"
  "same_work d (recordLeasedAutomaticDiscoveryTx key leaseID m) = same_work d m"
  "same_work d (releaseLeasedAutomaticDiscoveryTx leaseID lease m) = same_work d m"
  "same_work d (releaseActiveAutomaticDiscoveryTx lease m) = same_work d m"
  "same_work d (releaseOrphanAutomaticDiscoveryTx key sequence m) = same_work d m"
  "same_work d (migratePendingAutomaticDiscoveryTx key sequence m) = same_work d m"
  "same_work d (recordRequeuedAutomaticDiscoveryTx leaseID lease sequence m) = same_work d m"
  by (simp_all add: set_active_def set_pending_def recordLeasedAutomaticDiscoveryTx_def
      releaseLeasedAutomaticDiscoveryTx_def releaseActiveAutomaticDiscoveryTx_def
      releaseOrphanAutomaticDiscoveryTx_def migratePendingAutomaticDiscoveryTx_def
      recordRequeuedAutomaticDiscoveryTx_def Let_def)

lemma leases_discovery [simp]:
  "dq_leases (set_active key sequence d) = dq_leases d" "dq_leases (set_pending sequence key d) = dq_leases d"
  "dq_leases (recordLeasedAutomaticDiscoveryTx key leaseID d) = dq_leases d"
  "dq_leases (releaseLeasedAutomaticDiscoveryTx leaseID lease d) = dq_leases d"
  "dq_leases (releaseActiveAutomaticDiscoveryTx lease d) = dq_leases d"
  "dq_leases (releaseOrphanAutomaticDiscoveryTx key sequence d) = dq_leases d"
  "dq_leases (recordRequeuedAutomaticDiscoveryTx leaseID lease sequence d) = dq_leases d"
  by (simp_all add: set_active_def set_pending_def recordLeasedAutomaticDiscoveryTx_def
      releaseLeasedAutomaticDiscoveryTx_def releaseActiveAutomaticDiscoveryTx_def
      releaseOrphanAutomaticDiscoveryTx_def recordRequeuedAutomaticDiscoveryTx_def)

lemma scan_leases_for_found:
  "scan_leases_for lib key entries = Inr (Some (leaseID, lease)) \<Longrightarrow> (leaseID, lease) \<in> set entries"
  by (induction lib key entries rule: scan_leases_for.induct) (auto split: if_splits sum.splits bool.splits)

lemma set_scan: "(k, v) \<in> set (scan m) \<longleftrightarrow> map_of m k = Some v"
  by (auto simp: scan_def set_map_keys)

lemma automaticDiscoveryLease_found:
  "automaticDiscoveryLeaseTx lib d key = Inr (Some (leaseID, lease)) \<Longrightarrow>
     map_of (dq_leases d) leaseID = Some lease"
  by (auto simp: automaticDiscoveryLeaseTx_def indexedAutomaticDiscoveryLeaseTx_def set_scan
      dest!: scan_leases_for_found split: option.splits sum.splits if_splits bool.splits)

lemma untracked_lease_work: "post (untrackedAutomaticDiscoveryLeaseTx lib key migrate d) (\<lambda>d' _. same_work d d')"
  by (auto simp: untrackedAutomaticDiscoveryLeaseTx_def same_work_set_lease [OF automaticDiscoveryLease_found]
      split: sum.splits option.splits)

lemma untracked_work: "post (untrackedAutomaticDiscoveryTx lib key migrate d) (\<lambda>d' _. same_work d d')"
  by (simp add: untrackedAutomaticDiscoveryTx_def untracked_lease_work split: sum.splits option.splits)

lemma active_outstanding_work:
  "post (activeAutomaticDiscoveryOutstandingTx lib key sequence migrate d) (\<lambda>d' _. same_work d d')"
proof -
  have pending: "post (activeAutomaticDiscoveryPendingTx lib key sequence migrate d) (\<lambda>d' _. same_work d d')"
    by (auto simp: activeAutomaticDiscoveryPendingTx_def split: option.splits sum.splits bool.splits)
  have rest: "post (case automaticDiscoveryLeaseTx lib m key of
         Inl e \<Rightarrow> Inl e
       | Inr (Some (leaseID, lease)) \<Rightarrow>
           Inr (if migrate then repairActiveAutomaticDiscoveryLeaseTx key sequence leaseID lease m else m, True)
       | Inr None \<Rightarrow>
           untrackedAutomaticDiscoveryTx lib key migrate
             (if migrate then releaseOrphanAutomaticDiscoveryTx key sequence m else m)) (\<lambda>d' _. same_work d d')"
    if m: "same_work d m" for m
    by (auto simp: m repairActiveAutomaticDiscoveryLeaseTx_def Let_def
        same_work_set_lease [OF automaticDiscoveryLease_found]
        intro!: post_mono [OF untracked_work] elim: same_work_trans [rotated] split: sum.splits option.splits)
  show ?thesis
    unfolding activeAutomaticDiscoveryOutstandingTx_def post_bind
    by (rule post_mono [OF pending]) (auto simp: rest)
qed

lemma legacy_outstanding_work:
  "post (legacyAutomaticDiscoveryOutstandingTx lib key sequence migrate d) (\<lambda>d' _. same_work d d')"
  by (auto simp: legacyAutomaticDiscoveryOutstandingTx_def migrateLegacyAutomaticDiscoveryLeaseTx_def untracked_work
      same_work_set_lease [OF automaticDiscoveryLease_found]
      split: option.splits sum.splits bool.splits)

lemma outstanding_work: "post (automaticDiscoveryOutstandingTx lib key migrate d) (\<lambda>d' _. same_work d d')"
  by (simp add: automaticDiscoveryOutstandingTx_def active_outstanding_work legacy_outstanding_work
      split: option.splits)

section \<open>The history of settlements\<close>

lemma same_work_history [simp]:
  "same_work d (put_settlement leaseID entry m) = same_work d m" "same_work d (put_order sequence leaseID m) = same_work d m"
  "same_work d (put_target leaseID target m) = same_work d m" "same_work d (delete_expiry_of entry leaseID m) = same_work d m"
  "same_work d (deleteTerminalLeaseSettlementTx leaseID entry m) = same_work d m"
  "same_work d (deleteLeaseSettlementRetentionTx leaseID key sequence m) = same_work d m"
  "same_work d (restoreSettlementSequencesTx sequence m) = same_work d m"
  by (simp_all add: put_settlement_def put_order_def put_target_def delete_expiry_of_def
      deleteTerminalLeaseSettlementTx_def deleteLeaseSettlementRetentionTx_def
      restoreSettlementSequencesTx_def Let_def split: option.splits)

lemma same_work_reserve [simp]: "same_work d (fst (reserveLeaseSettlementSequenceTx m)) = same_work d m"
  by (simp add: reserveLeaseSettlementSequenceTx_def Let_def)

lemma same_work_reserved:
  "reserveLeaseSettlementSequenceTx m = (m', sequence) \<Longrightarrow> same_work d m' = same_work d m"
  using same_work_reserve [of d m] by simp

lemma same_work_relocate:
  "relocateSettlementSequenceTx leaseID entry m = (m', moved) \<Longrightarrow> same_work d m' = same_work d m"
  by (auto simp: relocateSettlementSequenceTx_def Let_def same_work_reserved
      split: option.splits if_splits prod.splits)

lemma put_expiry_work [simp]: "same_work d m \<Longrightarrow> post (put_expiry entry leaseID m) (\<lambda>d' _. same_work d d')"
  by (simp add: put_expiry_def split: option.splits)

lemma store_settlement_work [simp]:
  "same_work d m \<Longrightarrow> post (storeLeaseSettlement now leaseID entry m) (\<lambda>d' _. same_work d d')"
  by (auto simp: storeLeaseSettlement_def Let_def same_work_reserved split: option.splits prod.splits)

lemma record_settlement_work [simp]:
  "same_work d m \<Longrightarrow> post (recordLeaseSettlement now leaseID outcome m) (\<lambda>d' _. same_work d d')"
  by (simp add: recordLeaseSettlement_def)

lemma require_settlement_work [simp]:
  "same_work d m \<Longrightarrow> post (requireLeaseSettlement now leaseID want m) (\<lambda>d' _. same_work d d')"
  by (auto simp: requireLeaseSettlement_def Let_def intro: post_mono [OF put_expiry_work] split: option.splits)

lemma persist_intent_work [simp]:
  "same_work d m \<Longrightarrow> post (persistSettlementIntentTx leaseID intent m) (\<lambda>d' _. same_work d d')"
  by (simp add: persistSettlementIntentTx_def split: option.splits)

lemma ensure_settlement_work [simp]:
  "same_work d m \<Longrightarrow> post (ensureLeaseSettlementTx now leaseID want m) (\<lambda>d' _. same_work d d')"
  by (auto simp: ensureLeaseSettlementTx_def Let_def same_work_relocate split: option.splits prod.splits)

lemma finalize_work: "post (finalizeTerminalTx now leaseID want d) (\<lambda>d' _. same_work d d')"
  by (simp add: finalizeTerminalTx_def Let_def split: sum.splits)

lemma migrate_settlement_work [simp]:
  "same_work d m \<Longrightarrow> post (migrateLeaseSettlementAtSequence sequence now m) (\<lambda>d' _. same_work d d')"
  by (simp add: migrateLeaseSettlementAtSequence_def Let_def split: option.splits)

lemma migrate_settlements_work:
  "same_work d m \<Longrightarrow> post (migrate_settlements n cursor next_number now m) (\<lambda>d' _. same_work d d')"
proof (induction n arbitrary: cursor m)
  case (Suc n)
  have "post (migrateLeaseSettlementAtSequence cursor now m) (\<lambda>d' _. same_work d d')" using Suc.prems by simp
  then have "post (migrateLeaseSettlementAtSequence cursor now m)
      (\<lambda>d' _. post (migrate_settlements n (cursor + 1) next_number now d') (\<lambda>d' _. same_work d d'))"
    by (rule post_mono) (rule Suc.IH)
  with Suc.prems show ?case by simp
qed simp

lemma migrate_chunk_work: "post (migrateLeaseSettlementChunkTx cursor next_number now d) (\<lambda>d' _. same_work d d')"
  by (simp add: migrateLeaseSettlementChunkTx_def migrate_settlements_work)

section \<open>Renewals, deferrals and new sessions\<close>

lemma stage_acknowledgment_work: "post (stageAcknowledgmentTx lib now leaseID w s owner d) (\<lambda>d' _. same_work d d')"
  by (simp add: stageAcknowledgmentTx_def split: option.splits sum.splits)

lemma stage_terminal_work: "post (stageTerminalSettlementTx lib now leaseID request d) (\<lambda>d' _. same_work d d')"
  by (simp add: stageTerminalSettlementTx_def Let_def split: option.splits sum.splits)

lemma deferred_order [simp]: "lr_OrderData (deferred_lease now lease) = lr_OrderData lease"
  by (simp add: deferred_lease_def)

lemma work_lease_found:
  assumes "same_work d d'" and "map_of (dq_leases d) leaseID = Some lease" and "lr_OrderData lease' = lr_OrderData lease"
  shows "same_work d (set_lease leaseID lease' d')"
proof -
  obtain stored where "map_of (dq_leases d') leaseID = Some stored" "lr_OrderData stored = lr_OrderData lease"
    using same_work_leases [OF assms(1,2)] .
  with assms show ?thesis by (simp add: same_work_set_lease)
qed

lemma nak_work: "post (negativeAcknowledgmentTx clock leaseID w s owner d) (\<lambda>d' _. same_work d d')"
proof (cases "negativeAcknowledgmentLease (map_of (dq_leases d) leaseID) w s owner (clock 0)")
  case (Inr found)
  have "map_of (dq_leases d) leaseID = Some lease" if "found = Some lease" for lease
    using Inr that by (auto simp: negativeAcknowledgmentLease_def split: option.splits if_splits)
  then show ?thesis
    using Inr by (auto simp: negativeAcknowledgmentTx_def work_lease_found
        intro!: post_mono [OF record_settlement_work [OF same_work_refl]] split: option.splits)
qed (simp add: negativeAcknowledgmentTx_def)

lemma renew_work: "same_work d (fst (renew_leases w s writeAt deadline candidates d))"
proof (induction candidates arbitrary: d)
  case (Cons candidate rest)
  obtain leaseID old where candidate: "candidate = (leaseID, old)" by (cases candidate)
  show ?case
  proof (cases "map_of (dq_leases d) leaseID")
    case (Some lease)
    let ?m = "set_lease leaseID (lease\<lparr>lr_ExpiresAtUnixNano := deadline\<rparr>) d"
    have "same_work d ?m" using Some by (simp add: same_work_set_lease)
    then have "same_work d (fst (renew_leases w s writeAt deadline rest ?m))"
      by (rule same_work_trans) (rule Cons.IH)
    with Some candidate Cons.IH [of d] show ?thesis by (simp add: Let_def case_prod_unfold)
  qed (use candidate Cons.IH [of d] in simp)
qed simp

lemma adoptable_found:
  "(leaseID, lease') \<in> set (adoptable_leases w s deadline d) \<Longrightarrow>
     \<exists>lease. map_of (dq_leases d) leaseID = Some lease \<and> lr_OrderData lease' = lr_OrderData lease"
  by (auto simp: adoptable_leases_def map_filter_def adopted_def set_scan split: if_splits)

lemma set_leases_work:
  "same_work d m \<Longrightarrow> \<forall>(leaseID, lease') \<in> set leases.
       \<exists>lease. map_of (dq_leases d) leaseID = Some lease \<and> lr_OrderData lease' = lr_OrderData lease \<Longrightarrow>
     same_work d (fold (\<lambda>(leaseID, lease). set_lease leaseID lease) leases m)"
  by (induction leases arbitrary: m) (auto simp: work_lease_found)

lemma adopt_work: "post (adopt_tx w s deadline d) (\<lambda>d' _. same_work d d')"
  unfolding adopt_tx_def Let_def post_simps
  by (rule set_leases_work) (auto dest: adoptable_found)

end
