(* ===== verification/OrderAccounting.thy ===== *)
theory OrderAccounting
  imports OrderFrame
begin

text \<open>
  The accounting of the crawl order queue: the orders that it holds, pending or leased, as a multiset,
  and for every transaction what it adds to them and what it takes away. Runs of transactions cover
  every interleaving of the operations and every point at which a process can stop, as a transaction
  that is not committed leaves the store alone.
\<close>

declare One_nat_def [simp del]

section \<open>The orders that a store holds\<close>

definition order_data :: "durable \<Rightarrow> bytes multiset" where
  "order_data d = mset (map snd (dq_orders d)) + mset (map snd (lease_orders d))"

definition queue_wf :: "durable \<Rightarrow> bool" where
  "queue_wf d \<longleftrightarrow> wf_map (dq_orders d) \<and> wf_map (lease_orders d) \<and>
     list_all (\<lambda>(sequence, _). sequence < seq_get d SeqNext) (dq_orders d)"

text \<open>Numbers that are free before the counter of the orders wraps around.\<close>

definition room :: "nat \<Rightarrow> durable \<Rightarrow> bool" where
  "room n d \<longleftrightarrow> unat (seq_get d SeqNext) + n < 2 ^ 64"

lemma room_0 [simp]: "room 0 d"
  using unsigned_less [of "seq_get d SeqNext", where ?'a = nat] by (simp add: room_def)

definition accounted :: "nat \<Rightarrow> bytes multiset \<Rightarrow> bytes multiset \<Rightarrow> durable \<Rightarrow> durable \<Rightarrow> bool" where
  "accounted n added ended d d' \<longleftrightarrow> (queue_wf d \<and> room n d \<longrightarrow>
     queue_wf d' \<and> order_data d' + ended = order_data d + added \<and>
     unat (seq_get d' SeqNext) \<le> unat (seq_get d SeqNext) + n)"

lemma accounted_same: "same_work d d' \<Longrightarrow> accounted n {#} {#} d d'"
  by (simp add: accounted_def same_work_def order_data_def queue_wf_def)

lemma accounted_trans:
  assumes "accounted n p e d m" and "accounted n' p' e' m d'"
  shows "accounted (n + n') (p + p') (e + e') d d'"
  unfolding accounted_def
proof (intro impI)
  assume d: "queue_wf d \<and> room (n + n') d"
  then have m: "queue_wf m" "order_data m + e = order_data d + p"
      "unat (seq_get m SeqNext) \<le> unat (seq_get d SeqNext) + n"
    using assms(1) by (auto simp: accounted_def room_def)
  then have d': "queue_wf d'" "order_data d' + e' = order_data m + p'"
      "unat (seq_get d' SeqNext) \<le> unat (seq_get m SeqNext) + n'"
    using assms(2) d by (auto simp: accounted_def room_def)
  have "order_data d' + (e + e') = order_data m + p' + e" using d'(2) by (simp add: ac_simps)
  also have "\<dots> = order_data d + (p + p')" using m(2) by (simp add: ac_simps)
  finally show "queue_wf d' \<and> order_data d' + (e + e') = order_data d + (p + p') \<and>
      unat (seq_get d' SeqNext) \<le> unat (seq_get d SeqNext) + (n + n')"
    using m d' by simp
qed

lemma accounted_more: "accounted n p e d d' \<Longrightarrow> n \<le> n' \<Longrightarrow> accounted n' p e d d'"
  by (auto simp: accounted_def room_def)

lemma accounted_cancel: "accounted n (p + x) (e + x) d d' \<Longrightarrow> accounted n p e d d'"
  by (auto simp: accounted_def ac_simps)

lemma accounted_same_right: "same_work m m' \<Longrightarrow> accounted n p e d m' = accounted n p e d m"
  by (auto simp: accounted_def same_work_def order_data_def queue_wf_def)

lemma frame_accounted:
  "(\<And>d. same_work d m' = same_work d m) \<Longrightarrow> accounted n p e d m' = accounted n p e d m"
  by (rule accounted_same_right) (metis same_work_refl)

lemmas accounted_frame [simp] = same_work_update [THEN frame_accounted] same_work_seq_put [THEN frame_accounted]
  same_work_discovery [THEN frame_accounted] same_work_history [THEN frame_accounted]

lemma accounted_after_same: "accounted n p e d m \<Longrightarrow> same_work m m' \<Longrightarrow> accounted n p e d m'"
  by (simp add: accounted_same_right)

lemma accounted_before_same: "same_work d m \<Longrightarrow> accounted n p e m d' \<Longrightarrow> accounted n p e d d'"
  using accounted_trans [OF accounted_same [of d m 0]] by fastforce

lemma accounted_step: "accounted 1 {#} {#} d m \<Longrightarrow> accounted n {#} {#} m d' \<Longrightarrow> accounted (Suc n) {#} {#} d d'"
  using accounted_trans [of 1 "{#}" "{#}" d m n "{#}" "{#}" d'] by (simp add: plus_1_eq_Suc)

lemma accounted_post:
  "post f (\<lambda>d' _. same_work m d') \<Longrightarrow> accounted n p e d m \<Longrightarrow> post f (\<lambda>d' _. accounted n p e d d')"
  by (erule post_mono) (rule accounted_after_same)

lemma history_accounted [simp]:
  "accounted n p e d m \<Longrightarrow> post (recordLeaseSettlement now leaseID outcome m) (\<lambda>d' _. accounted n p e d d')"
  "accounted n p e d m \<Longrightarrow> post (storeLeaseSettlement now leaseID entry m) (\<lambda>d' _. accounted n p e d d')"
  "accounted n p e d m \<Longrightarrow> post (requireLeaseSettlement now leaseID want m) (\<lambda>d' _. accounted n p e d d')"
  "accounted n p e d m \<Longrightarrow> post (ensureLeaseSettlementTx now leaseID entry m) (\<lambda>d' _. accounted n p e d d')"
  by (erule accounted_post [rotated], simp)+

section \<open>Single changes\<close>

lemma mset_update_fresh:
  "map_of m k = None \<Longrightarrow> image_mset snd (mset (AList.update k v m)) = add_mset v (image_mset snd (mset m))"
  by (induction m) (auto split: if_splits)

lemma order_delete_present:
  "wf_map m \<Longrightarrow> map_of m k = Some v \<Longrightarrow>
     add_mset v (image_mset snd (mset (AList.delete k m))) = image_mset snd (mset m)"
proof (induction m)
  case (Cons entry m)
  obtain k' v' where entry: "entry = (k', v')" by (cases entry)
  show ?case
  proof (cases "k' = k")
    case True
    then have "AList.delete k m = m"
      using Cons.prems entry by (intro delete_id) (simp add: wf_map_def)
    then show ?thesis using True entry Cons.prems by simp
  next
    case False
    then show ?thesis using Cons entry by (simp add: wf_map_def add_mset_commute)
  qed
qed simp

lemma list_all_update: "list_all P m \<Longrightarrow> P (k, v) \<Longrightarrow> list_all P (AList.update k v m)"
  by (induction m) auto

lemma list_all_delete: "list_all P m \<Longrightarrow> list_all P (AList.delete k m)"
  by (simp add: list_all_iff AList.delete_eq)

lemma fresh_sequence: "queue_wf d \<Longrightarrow> map_of (dq_orders d) (seq_get d SeqNext) = None"
  by (auto simp: queue_wf_def list_all_iff map_of_eq_None_iff)

lemma enqueue_store:
  "dq_orders (fst (enqueueTx data priority d)) = AList.update (seq_get d SeqNext) data (dq_orders d)"
  "dq_leases (fst (enqueueTx data priority d)) = dq_leases d"
  "seq_get (fst (enqueueTx data priority d)) SeqNext = seq_get d SeqNext + 1"
  "snd (enqueueTx data priority d) = seq_get d SeqNext"
  "dq_discoverySettlements (fst (enqueueTx data priority d)) = dq_discoverySettlements d"
  by (simp_all add: enqueueTx_def Let_def index_put_def seq_put_def seq_get_def get_or_update)

lemma accounted_enqueue: "accounted 1 {#data#} {#} d (fst (enqueueTx data priority d))"
  unfolding accounted_def
proof (intro impI)
  assume d: "queue_wf d \<and> room 1 d"
  let ?d = "fst (enqueueTx data priority d)"
  have up: "unat (seq_get d SeqNext + 1) = unat (seq_get d SeqNext) + 1"
    using d by (simp add: room_def unat_word_ariths)
  have above: "x < seq_get d SeqNext \<Longrightarrow> x < seq_get d SeqNext + 1" for x
    using up by (simp add: word_less_nat_alt)
  have "list_all (\<lambda>(sequence, _). sequence < seq_get d SeqNext + 1) (dq_orders d)"
    using d above by (auto simp: queue_wf_def list_all_iff)
  moreover have "seq_get d SeqNext < seq_get d SeqNext + 1" using up by (simp add: word_less_nat_alt)
  ultimately have "queue_wf ?d"
    using d by (simp add: queue_wf_def enqueue_store lease_orders_def list_all_update)
  moreover have "order_data ?d + {#} = order_data d + {#data#}"
    using d by (simp add: order_data_def enqueue_store lease_orders_def mset_update_fresh fresh_sequence)
  ultimately show "queue_wf ?d \<and> order_data ?d + {#} = order_data d + {#data#} \<and>
      unat (seq_get ?d SeqNext) \<le> unat (seq_get d SeqNext) + 1"
    using up by (simp add: enqueue_store)
qed

lemma delete_map_values:
  "AList.delete k (map (\<lambda>(k, v). (k, f v)) m) = map (\<lambda>(k, v). (k, f v)) (AList.delete k m)"
  by (induction m) auto

lemma update_map_values:
  "AList.update k (f v) (map (\<lambda>(k, v). (k, f v)) m) = map (\<lambda>(k, v). (k, f v)) (AList.update k v m)"
  by (induction m) auto

lemma lease_orders_change:
  "lease_orders (delete_lease leaseID d) = AList.delete leaseID (lease_orders d)"
  "lease_orders (set_lease leaseID lease d) = AList.update leaseID (lr_OrderData lease) (lease_orders d)"
  by (simp_all add: lease_orders_def delete_lease_def set_lease_def delete_map_values update_map_values)

lemma accounted_delete_lease:
  assumes "map_of (dq_leases d) leaseID = Some lease"
  shows "accounted 0 {#} {#lr_OrderData lease#} d (delete_lease leaseID d)"
proof -
  have stored: "map_of (lease_orders d) leaseID = Some (lr_OrderData lease)"
    using assms by (simp add: map_of_lease_orders)
  have "dq_orders (delete_lease leaseID d) = dq_orders d"
    "seq_get (delete_lease leaseID d) SeqNext = seq_get d SeqNext"
    by (simp_all add: delete_lease_def seq_get_def)
  then show ?thesis
    using stored by (simp add: accounted_def order_data_def queue_wf_def lease_orders_change
        order_delete_present)
qed

lemma accounted_new_lease:
  assumes "map_of (dq_leases d) leaseID = None"
  shows "accounted 0 {#lr_OrderData lease#} {#} d (set_lease leaseID lease d)"
proof -
  have "map_of (lease_orders d) leaseID = None" using assms by (simp add: map_of_lease_orders)
  moreover have "dq_orders (set_lease leaseID lease d) = dq_orders d"
    "seq_get (set_lease leaseID lease d) SeqNext = seq_get d SeqNext"
    by (simp_all add: set_lease_def seq_get_def)
  ultimately show ?thesis
    by (simp add: accounted_def order_data_def queue_wf_def lease_orders_change mset_update_fresh)
qed

lemma accounted_delete_order:
  assumes "map_of (dq_orders d) sequence = Some data"
  shows "accounted 0 {#} {#data#} d (d\<lparr>dq_orders := AList.delete sequence (dq_orders d)\<rparr>)"
  using assms
  by (simp add: accounted_def order_data_def queue_wf_def lease_orders_def seq_get_def list_all_delete
      order_delete_present)

section \<open>Transactions\<close>

definition published :: "bytes \<Rightarrow> bool \<Rightarrow> bytes multiset" where
  "published data duplicate = (if duplicate then {#} else {#data#})"

lemma published_simps [simp]: "published data True = {#}" "published data False = {#data#}"
  by (simp_all add: published_def)

lemma publish_accounted:
  "post (publish_tx key data priority d) (\<lambda>d' duplicate. accounted 1 (published data duplicate) {#} d d')"
  using accounted_enqueue [of data d priority]
  by (auto simp: publish_tx_def accounted_same accounted_same_right split: prod.splits)

lemma complete_intent_accounted:
  "post (complete_intent_tx lib key data recovering d)
     (\<lambda>d' duplicate. accounted 1 (published data duplicate) {#} d d')"
proof -
  have enqueue: "post (case decode_order lib data of
        Inl e \<Rightarrow> Inl e
      | Inr order \<Rightarrow> (case enqueueTx data (co_Priority order) m of
          (d', sequence) \<Rightarrow> Inr (set_pending sequence key (set_active key sequence d'), False)))
      (\<lambda>d' duplicate. accounted 1 (published data duplicate) {#} d d')" if m: "same_work d m" for m
  proof (cases "decode_order lib data")
    case (Inr order)
    have "accounted 1 {#data#} {#} d (fst (enqueueTx data (co_Priority order) m))"
      by (rule accounted_before_same [OF m accounted_enqueue])
    then show ?thesis using Inr by (auto simp: accounted_same_right split: prod.splits)
  qed simp
  have recover: "post (if recovering then untrackedAutomaticDiscoveryTx lib key True m else Inr (m, False))
      (\<lambda>d' _. same_work d d')" if "same_work d m" for m
    using that by (auto intro: post_mono [OF untracked_work] same_work_trans)
  have second: "post (bind_tx (if recovering then untrackedAutomaticDiscoveryTx lib key True m else Inr (m, False)) (\<lambda>d duplicate.
         if duplicate then Inr (d, True)
         else (case decode_order lib data of
           Inl e \<Rightarrow> Inl e
         | Inr order \<Rightarrow> (case enqueueTx data (co_Priority order) d of
             (d, sequence) \<Rightarrow> Inr (set_pending sequence key (set_active key sequence d), False)))))
      (\<lambda>d' duplicate. accounted 1 (published data duplicate) {#} d d')" if m: "same_work d m" for m
    unfolding post_bind
    by (rule post_mono [OF recover [OF m]]) (use enqueue in \<open>simp add: accounted_same\<close>)
  show ?thesis
    unfolding complete_intent_tx_def post_bind
    by (rule post_mono [OF outstanding_work]) (use second in \<open>simp add: accounted_same\<close>)
qed

lemma pending_head_found:
  "pending_head orders automatic keys = (Some head, stale) \<Longrightarrow> map_of orders (ph_key head) = Some (ph_data head)"
  by (induction orders automatic keys arbitrary: stale rule: pending_head.induct)
    (auto split: option.splits prod.splits)

lemma prune_work [simp]: "same_work d (prunePriorityIndexEntries automatic keys m) = same_work d m"
  unfolding prunePriorityIndexEntries_def
  by (induction keys arbitrary: m) (auto simp: index_delete_def)

lemma prune_store [simp]:
  "dq_orders (prunePriorityIndexEntries automatic keys m) = dq_orders m"
  "dq_leases (prunePriorityIndexEntries automatic keys m) = dq_leases m"
  unfolding prunePriorityIndexEntries_def
  by (induction keys arbitrary: m) (auto simp: index_delete_def)

lemma choose_head_from:
  "choose_head prioritize burst normal automatic = (Some head, next_burst, update) \<Longrightarrow>
     normal = Some head \<or> automatic = Some head"
  by (auto simp: choose_head_def split: option.splits if_splits)

lemma select_work:
  assumes "selectPendingOrder prioritize d = (d', choice)"
  shows "same_work d d'" and "dq_leases d' = dq_leases d"
    and "choice = (Some head, next_burst, update) \<Longrightarrow> map_of (dq_orders d') (ph_key head) = Some (ph_data head)"
  using assms
  by (auto simp: selectPendingOrder_def pendingHead_def Let_def split: prod.splits
      dest!: choose_head_from dest: pending_head_found)

lemma same_work_index [simp]: "same_work d (index_delete automatic key m) = same_work d m"
  by (simp add: index_delete_def)

lemmas accounted_index [simp] = same_work_index [THEN frame_accounted]

lemma delete_pending_accounted:
  "map_of (dq_orders d) (ph_key head) = Some (ph_data head) \<Longrightarrow>
     accounted 0 {#} {#ph_data head#} d (delete_pending head d)"
  by (simp add: delete_pending_def accounted_same_right accounted_delete_order)

lemma delete_pending_leases [simp]: "dq_leases (delete_pending head d) = dq_leases d"
  by (simp add: delete_pending_def index_delete_def)

lemma discard_accounted:
  assumes head: "map_of (dq_orders d) (ph_key head) = Some (ph_data head)"
  shows "post (discardDuplicateTx lib head d)
     (\<lambda>d' discarded. if discarded then accounted 0 {#} {#ph_data head#} d d' else d' = d)"
proof -
  have repaired: "same_work (delete_pending head d) (set_lease leaseID (lease\<lparr>lr_DiscoveryKey := key\<rparr>)
      (delete_pending head d\<lparr>dq_pendingDiscovery := p\<rparr>))"
    if "automaticDiscoveryLeaseTx lib d key = Inr (Some (leaseID, lease))" for key leaseID lease p
    using automaticDiscoveryLease_found [OF that] by (simp add: same_work_set_lease)
  show ?thesis
    by (auto simp: discardDuplicateTx_def Let_def accounted_same_right
        intro!: accounted_after_same [OF delete_pending_accounted [OF head]] repaired
        split: sum.splits option.splits)
qed

lemma seq_put_store [simp]: "dq_orders (seq_put k n d) = dq_orders d" "dq_leases (seq_put k n d) = dq_leases d"
  by (simp_all add: seq_put_def)

lemma persist_accounted:
  assumes head: "map_of (dq_orders d) (ph_key head) = Some (ph_data head)"
    and fresh: "map_of (dq_leases d) leaseID = None" and data: "lr_OrderData lease = ph_data head"
  shows "post (persistLeaseTx lib head leaseID lease burst update d) (\<lambda>d' _. accounted 0 {#} {#} d d')"
proof -
  let ?b = "if update then seq_put PriorityBurst burst d else d"
  let ?m = "delete_pending head ?b"
  have m: "accounted 0 {#} {#ph_data head#} d ?m"
    using head by (intro accounted_before_same [of d ?b] delete_pending_accounted) simp_all
  have put: "accounted 0 {#} {#} d (set_lease leaseID lease' (?m\<lparr>dq_pendingDiscovery := p\<rparr>))"
    if "lr_OrderData lease' = ph_data head" for lease' p
  proof -
    let ?p = "?m\<lparr>dq_pendingDiscovery := p\<rparr>"
    have "accounted 0 {#lr_OrderData lease'#} {#} ?p (set_lease leaseID lease' ?p)"
      using fresh by (intro accounted_new_lease) simp
    with accounted_after_same [OF m] have "accounted (0 + 0) ({#} + {#ph_data head#}) ({#ph_data head#} + {#}) d
        (set_lease leaseID lease' ?p)"
      unfolding that by (rule accounted_trans) simp
    then show ?thesis by (simp add: accounted_def)
  qed
  have "accounted 0 {#} {#} d (set_lease leaseID lease ?m)"
    using put [of lease "dq_pendingDiscovery ?m"] data by simp
  then show ?thesis
    using put data
    by (auto simp: persistLeaseTx_def Let_def accounted_same_right split: sum.splits option.splits)
qed

text \<open>The order that a claim discards because its address is leased already.\<close>

definition claim_discards :: "queue_config \<Rightarrow> durable \<Rightarrow> bytes multiset" where
  "claim_discards cfg d = (case selectPendingOrder (qc_prioritizeAutomatic cfg) d of
     (m, Some head, _, _) \<Rightarrow> (case discardDuplicateTx (qc_lib cfg) head m of
         Inr (_, True) \<Rightarrow> {#ph_data head#} | _ \<Rightarrow> {#})
   | _ \<Rightarrow> {#})"

lemma claim_accounted:
  assumes fresh: "map_of (dq_leases d) leaseID = None"
  shows "post (claim_tx cfg now leaseID w s d) (\<lambda>d' _. accounted 0 {#} (claim_discards cfg d) d d')"
proof (cases "selectPendingOrder (qc_prioritizeAutomatic cfg) d")
  case (fields m choice next_burst update)
  have m: "same_work d m" and leases: "dq_leases m = dq_leases d" using select_work(1,2) [OF fields] by simp_all
  show ?thesis
  proof (cases choice)
    case None
    then show ?thesis using fields m by (simp add: claim_tx_def claim_discards_def accounted_same)
  next
    case (Some head)
    have head: "map_of (dq_orders m) (ph_key head) = Some (ph_data head)"
      using select_work(3) [OF fields] Some by simp
    show ?thesis
    proof (cases "discardDuplicateTx (qc_lib cfg) head m")
      case (Inr result)
      obtain m' discarded where result: "result = (m', discarded)" by (cases result)
      note tx = postD [OF discard_accounted [OF head] Inr [unfolded result]]
      show ?thesis
      proof (cases discarded)
        case True
        then have "accounted 0 {#} {#ph_data head#} d m'" using tx m by (auto intro: accounted_before_same)
        then show ?thesis using fields Some Inr result True
          by (simp add: claim_tx_def claim_discards_def bind_tx_def)
      next
        case False
        then have "m' = m" using tx by simp
        have "post (persistLeaseTx (qc_lib cfg) head leaseID (lease_record (qc_leaseTTL cfg) now head w s)
            next_burst update m) (\<lambda>d' _. accounted 0 {#} {#} d d')"
          using fresh leases
          by (intro post_mono [OF persist_accounted [OF head]] accounted_before_same [OF m])
            (simp_all add: lease_record_def)
        then show ?thesis using fields Some Inr result False \<open>m' = m\<close>
          by (simp add: claim_tx_def claim_discards_def bind_tx_def [of "Inr _"] Let_def)
      qed
    qed (simp add: claim_tx_def fields Some bind_tx_def)
  qed
qed

text \<open>The order of a lease that a transaction has settled.\<close>

definition settled :: "leaseRecord option \<Rightarrow> bytes multiset" where
  "settled removed = (case removed of None \<Rightarrow> {#} | Some lease \<Rightarrow> {#lr_OrderData lease#})"

lemma settled_simps [simp]: "settled None = {#}" "settled (Some lease) = {#lr_OrderData lease#}"
  by (simp_all add: settled_def)

lemma put_target_store [simp]:
  "dq_leases (put_target leaseID target d) = dq_leases d" "dq_orders (put_target leaseID target d) = dq_orders d"
  by (simp_all add: put_target_def)

lemma delete_target_accounted:
  assumes "map_of (dq_leases d) leaseID = Some lease"
  shows "accounted 0 {#} {#lr_OrderData lease#} d (delete_lease leaseID (put_target leaseID target d))"
  by (rule accounted_before_same [OF _ accounted_delete_lease]) (simp_all add: assms)

lemma acknowledge_accounted:
  "post (acknowledgeLeaseTx lib clock leaseID w s owner d) (\<lambda>d' r. accounted 0 {#} (settled (snd r)) d d')"
  by (simp add: acknowledgeLeaseTx_def Let_def accounted_same accounted_delete_lease delete_target_accounted
      split: option.splits sum.splits)

definition resolved :: "durable \<Rightarrow> string \<Rightarrow> bytes multiset" where
  "resolved d leaseID = (if map_of (dq_discoverySettlements d) leaseID = None then {#}
     else settled (map_of (dq_leases d) leaseID))"

lemma remove_retained_accounted:
  "post (removeRetainedLeaseTx leaseID intent d) (\<lambda>d' _. accounted 0 {#} (settled (map_of (dq_leases d) leaseID)) d d')"
  by (simp add: removeRetainedLeaseTx_def Let_def accounted_same accounted_delete_lease delete_target_accounted
      split: option.splits)

lemma complete_settlement_accounted:
  "post (completeSettlementTx now leaseID d) (\<lambda>d' _. accounted 0 {#} (resolved d leaseID) d d')"
proof (cases "map_of (dq_discoverySettlements d) leaseID")
  case (Some intent)
  then show ?thesis
    by (simp add: completeSettlementTx_def) (rule post_mono [OF remove_retained_accounted], simp add: resolved_def)
qed (simp add: completeSettlementTx_def resolved_def accounted_same)

lemma requeue_change:
  assumes lease: "map_of (dq_leases d) leaseID = Some lease"
  shows "accounted 1 {#} {#} d (fst (enqueueTx (lr_OrderData lease) priority (delete_lease leaseID d)))"
proof -
  have "accounted (0 + 1) ({#} + {#lr_OrderData lease#}) ({#lr_OrderData lease#} + {#}) d
      (fst (enqueueTx (lr_OrderData lease) priority (delete_lease leaseID d)))"
    by (rule accounted_trans [OF accounted_delete_lease [OF lease] accounted_enqueue])
  then show ?thesis by (simp add: accounted_def)
qed

lemma requeue_accounted: "post (requeueLeaseTx lib now match leaseID d) (\<lambda>d' _. accounted 1 {#} {#} d d')"
  by (simp add: requeueLeaseTx_def case_prod_unfold accounted_same requeue_change split: option.splits)

lemma requeue_batch_accounted:
  "post (requeueLeaseBatchTx lib clock match keys d) (\<lambda>d' _. accounted (length keys) {#} {#} d d')"
proof (induction keys arbitrary: clock d)
  case (Cons leaseID rest)
  have more: "post (requeueLeaseBatchTx lib (\<lambda>n. clock (Suc n)) match rest m)
      (\<lambda>d' _. accounted (Suc (length rest)) {#} {#} d d')" if "accounted 1 {#} {#} d m" for m
    by (rule post_mono [OF Cons.IH]) (rule accounted_step [OF that])
  show ?case
  proof (cases "map_of (dq_discoverySettlements d) leaseID")
    case None
    have "post (requeueLeaseTx lib (clock 0) match leaseID d) (\<lambda>m _. post
        (requeueLeaseBatchTx lib (\<lambda>n. clock (Suc n)) match rest m) (\<lambda>d' _. accounted (Suc (length rest)) {#} {#} d d'))"
      by (rule post_mono [OF requeue_accounted]) (rule more)
    then show ?thesis using None by (simp add: case_prod_unfold)
  next
    case (Some intent)
    then show ?thesis using more [of d] by (simp add: case_prod_unfold accounted_same)
  qed
qed (simp add: accounted_same)

lemma delete_requeued:
  assumes lease: "map_of (dq_leases d) leaseID = Some lease"
  shows "accounted 1 {#} {#} d (delete_lease leaseID (recordRequeuedAutomaticDiscoveryTx leaseID lease sequence
    (fst (enqueueTx (lr_OrderData lease) priority d))))" (is "accounted 1 _ _ d (delete_lease leaseID ?m)")
proof -
  have "accounted 1 {#lr_OrderData lease#} {#} d ?m" using accounted_enqueue by simp
  then have "accounted (1 + 0) ({#lr_OrderData lease#} + {#}) ({#} + {#lr_OrderData lease#}) d (delete_lease leaseID ?m)"
    by (rule accounted_trans) (rule accounted_delete_lease, simp add: enqueue_store lease)
  then show ?thesis by (simp add: accounted_def)
qed

lemma requeue_terminal_accounted:
  "post (requeueTerminalLeaseTx lib leaseID identity d) (\<lambda>d' _. accounted 1 {#} {#} d d')"
  using delete_requeued [of d leaseID]
  by (simp add: requeueTerminalLeaseTx_def case_prod_unfold accounted_same split: option.splits)

lemma expire_terminal_accounted:
  "post (expireTerminalLeaseSettlementTx lib leaseID settlement d) (\<lambda>d' _. accounted 1 {#} {#} d d')"
  by (simp add: expireTerminalLeaseSettlementTx_def requeue_terminal_accounted accounted_same)

lemma delete_expired_one_accounted:
  "post (deleteExpiredLeaseSettlementTx lib key leaseID d) (\<lambda>d' _. accounted 1 {#} {#} d d')"
  by (simp add: deleteExpiredLeaseSettlementTx_def Let_def expire_terminal_accounted accounted_same
      split: option.splits)

lemma delete_expired_accounted:
  "post (delete_expired lib entries d) (\<lambda>d' _. accounted (length entries) {#} {#} d d')"
proof (induction entries arbitrary: d)
  case (Cons entry rest)
  obtain key leaseID where entry: "entry = (key, leaseID)" by (cases entry)
  have "post (delete_expired lib rest m) (\<lambda>d' _. accounted (Suc (length rest)) {#} {#} d d')"
    if "accounted 1 {#} {#} d m" for m
    by (rule post_mono [OF Cons.IH]) (rule accounted_step [OF that])
  then show ?case unfolding entry delete_expired.simps post_bind
    by (intro post_mono [OF delete_expired_one_accounted]) (simp add: Let_def)
qed (simp add: accounted_same)

definition terminal_ended :: "terminalLeaseRequest \<Rightarrow> leaseRecord option \<Rightarrow> bytes multiset" where
  "terminal_ended request removed = (if tl_Outcome request = LeaseSettlementAcknowledged then settled removed else {#})"

lemma terminal_ended_None [simp]: "terminal_ended request None = {#}"
  by (simp add: terminal_ended_def)

lemma prepare_terminal_accounted:
  "post (prepareTerminalLeaseSettlementTx lib clock leaseID request want d)
     (\<lambda>d' r. accounted 0 {#} (terminal_ended request (snd r)) d d')"
proof (cases "map_of (dq_leases d) leaseID")
  case None
  then show ?thesis by (simp add: prepareTerminalLeaseSettlementTx_def accounted_same split: sum.splits)
next
  case (Some lease)
  have retained: ?thesis if "lr_Deferred lease"
    using that Some by (simp add: prepareTerminalLeaseSettlementTx_def accounted_same split: sum.splits)
  have applied: "accounted 0 {#} (terminal_ended request (Some lease)) d
      (applyTerminalLeaseDispositionTx (clock 1) leaseID request settlement lease d)" for settlement
    using Some by (simp add: delete_target_accounted terminal_ended_def applyTerminalLeaseDispositionTx_def accounted_same same_work_set_lease)
  show ?thesis
  proof (cases "lr_Deferred lease")
    case False
    with Some applied show ?thesis
      by (simp add: prepareTerminalLeaseSettlementTx_def Let_def split: sum.splits)
  qed (rule retained)
qed

lemma confirm_terminal_accounted:
  "post (confirmTerminalLeaseSettlementTx lib leaseID request d) (\<lambda>d' _. accounted 1 {#} {#} d d')"
  by (simp add: confirmTerminalLeaseSettlementTx_def requeue_terminal_accounted accounted_same split: option.splits)

text \<open>The orders that a page of a clearing removes are the ones below the cutoff.\<close>

definition cleared :: "u64 \<Rightarrow> (u64 \<times> bytes) list \<Rightarrow> bytes multiset" where
  "cleared cutoff entries = mset (map snd (takeWhile (\<lambda>(sequence, _). sequence < cutoff) entries))"

lemma delete_identity_work:
  "same_work d (deletePendingAutomaticDiscoveryKeyTx sequence key m) = same_work d m"
  "dq_orders (deletePendingAutomaticDiscoveryKeyTx sequence key m) = dq_orders m"
  by (simp_all add: deletePendingAutomaticDiscoveryKeyTx_def Let_def)

lemma delete_identities_work:
  "same_work d (fold (deletePendingAutomaticDiscoveryKeyTx sequence) keys m) = same_work d m \<and>
     dq_orders (fold (deletePendingAutomaticDiscoveryKeyTx sequence) keys m) = dq_orders m"
  by (induction keys arbitrary: m) (simp_all add: delete_identity_work)

lemma delete_entry_accounted:
  assumes found: "map_of (dq_orders d) sequence = Some data"
  shows "post (deletePendingOrderEntryTx lib sequence data d)
     (\<lambda>d' _. accounted 0 {#} {#data#} d d' \<and> dq_orders d' = AList.delete sequence (dq_orders d))"
proof -
  have identity: "post (deletePendingAutomaticDiscoveryIdentityTx sequence order d)
      (\<lambda>d' _. same_work d d' \<and> dq_orders d' = dq_orders d)" for order
    using delete_identities_work [of d sequence "co_Requests order" d]
    by (auto simp: deletePendingAutomaticDiscoveryIdentityTx_def delete_identity_work split: option.splits)
  have deleted: "accounted 0 {#} {#data#} d (m\<lparr>dq_orders := AList.delete sequence (dq_orders m),
       dq_normalIndex := n, dq_automaticIndex := a\<rparr>)" if "same_work d m" "dq_orders m = dq_orders d" for m n a
  proof -
    have "accounted 0 {#} {#data#} m (m\<lparr>dq_orders := AList.delete sequence (dq_orders m)\<rparr>)"
      using that found by (intro accounted_delete_order) simp
    with that(1) have "accounted 0 {#} {#data#} d (m\<lparr>dq_orders := AList.delete sequence (dq_orders m)\<rparr>)"
      by (rule accounted_before_same)
    then show ?thesis by (simp add: that(2))
  qed
  show ?thesis
    using deleted [of d] deleted
    by (auto simp: deletePendingOrderEntryTx_def deletePendingOrderTx_def intro!: post_mono [OF identity]
        split: sum.splits)
qed

lemma clear_entries_accounted:
  "distinct (map fst entries) \<Longrightarrow> \<forall>(sequence, data) \<in> set entries. map_of (dq_orders d) sequence = Some data \<Longrightarrow>
     post (clear_entries lib cutoff entries page d) (\<lambda>d' _. accounted 0 {#} (cleared cutoff entries) d d')"
proof (induction entries arbitrary: page d)
  case (Cons entry rest)
  obtain sequence data where entry: "entry = (sequence, data)" by (cases entry)
  show ?case
  proof (cases "sequence \<ge> cutoff")
    case False
    have found: "map_of (dq_orders d) sequence = Some data" using Cons.prems entry by simp
    have rest: "post (clear_entries lib cutoff rest page' m) (\<lambda>d' _. accounted 0 {#} (cleared cutoff (entry # rest)) d d')"
      if m: "accounted 0 {#} {#data#} d m" "dq_orders m = AList.delete sequence (dq_orders d)" for m page'
    proof -
      have "\<forall>(s, x) \<in> set rest. map_of (dq_orders m) s = Some x"
        using Cons.prems m(2) entry by (auto simp: rev_image_eqI)
      then have "post (clear_entries lib cutoff rest page' m) (\<lambda>d' _. accounted 0 {#} (cleared cutoff rest) m d')"
        using Cons.prems(1) by (intro Cons.IH) simp_all
      then show ?thesis
      proof (rule post_mono)
        fix d' r assume "accounted 0 {#} (cleared cutoff rest) m d'"
        with m(1) have "accounted (0 + 0) ({#} + {#}) ({#data#} + cleared cutoff rest) d d'" by (rule accounted_trans)
        then show "accounted 0 {#} (cleared cutoff (entry # rest)) d d'"
          using False entry by (simp add: cleared_def not_le)
      qed
    qed
    show ?thesis
      using False entry rest by (simp add: post_mono [OF delete_entry_accounted [OF found]])
  qed (simp add: entry cleared_def accounted_same leD)
qed (simp add: cleared_def accounted_same)

definition page_entries :: "u64 option \<Rightarrow> durable \<Rightarrow> (u64 \<times> bytes) list" where
  "page_entries after d = take maximumPendingOrdersPerClearTransaction (rows_after after d)"

lemma distinct_scan: "wf_map m \<Longrightarrow> distinct (map fst (scan m))"
  by (simp add: scan_def comp_def wf_map_def map_keys_def)

lemma clear_page_accounted:
  "queue_wf d \<Longrightarrow> post (clearPendingOrderPageTx lib after cutoff d)
     (\<lambda>d' _. accounted 0 {#} (cleared cutoff (page_entries after d)) d d')"
proof -
  assume d: "queue_wf d"
  have "distinct (map fst (rows_after after d))"
    using d by (simp add: rows_after_def queue_wf_def distinct_map_filter distinct_scan)
  then have "distinct (map fst (page_entries after d))"
    by (simp add: page_entries_def distinct_take flip: take_map)
  moreover have "\<forall>(sequence, data) \<in> set (page_entries after d). map_of (dq_orders d) sequence = Some data"
    by (auto simp: page_entries_def rows_after_def set_scan dest!: in_set_takeD)
  ultimately show ?thesis
    using clear_entries_accounted [of "page_entries after d" d]
    unfolding clearPendingOrderPageTx_def Let_def page_entries_def [symmetric]
    by (simp add: cleared_def accounted_same)
qed

lemma index_pending_work: "same_work d (indexPendingOrder lib through all_orders entry m) = same_work d m"
  by (simp add: indexPendingOrder_def Let_def index_put_def split: prod.splits)

lemma index_all_work: "same_work d (fold (indexPendingOrder lib through all_orders) entries m) = same_work d m"
  by (induction entries arbitrary: m) (simp_all add: index_pending_work)

lemma priorities_work:
  "map_of (dq_seq d) PriorityIndexFormat \<noteq> None \<Longrightarrow> post (reconcilePriorityIndexesTx lib d) (\<lambda>d' _. same_work d d')"
  by (simp add: reconcilePriorityIndexesTx_def Let_def indexPendingOrders_def index_all_work)

lemma reconcile_leases_work: "same_work d (fold reconcile_lease entries m) = same_work d m"
  by (induction entries arbitrary: m) (auto simp: reconcile_lease_def Let_def split: prod.splits)

end
