(* ===== verification/OrderRuns.thy ===== *)
theory OrderRuns
  imports OrderAccounting
begin

text \<open>
  Runs of the transactions of the crawl order queue: a step for each of its transactions, with the orders
  that it adds and those that it ends, and the accounting of the orders over every run; and for each
  operation that it changes the store only by such steps, whatever fails in it.
\<close>

section \<open>Steps\<close>

text \<open>A transaction that commits, with the orders that it adds and the ones that it ends.\<close>

inductive order_step :: "queue_config \<Rightarrow> durable \<Rightarrow> bytes multiset \<Rightarrow> bytes multiset \<Rightarrow> durable \<Rightarrow> bool" for cfg where
  published: "publish_tx key data priority d = Inr (d', duplicate) \<Longrightarrow>
    order_step cfg d (published data duplicate) {#} d'"
| intent_kept: "persistAutomaticDiscoveryIntent outcome key data d = (d', Inr ()) \<Longrightarrow> order_step cfg d {#} {#} d'"
| intent_completed: "complete_intent_tx (qc_lib cfg) key data recovering d = Inr (d', duplicate) \<Longrightarrow>
    order_step cfg d (published data duplicate) {#} d'"
| intent_released: "releaseAutomaticDiscoveryIntent outcome key d = (d', Inr ()) \<Longrightarrow> order_step cfg d {#} {#} d'"
| key_reconciled: "automaticDiscoveryOutstandingTx (qc_lib cfg) key True d = Inr (d', found) \<Longrightarrow>
    order_step cfg d {#} {#} d'"
| leases_indexed: "reconcileAutomaticDiscoveryLeases outcome d = (d', Inr ()) \<Longrightarrow> order_step cfg d {#} {#} d'"
| priorities_reconciled: "reconcilePriorityIndexesTx (qc_lib cfg) d = Inr (d', ()) \<Longrightarrow>
    map_of (dq_seq d) PriorityIndexFormat \<noteq> None \<Longrightarrow> order_step cfg d {#} {#} d'"
| claimed: "claim_tx cfg now leaseID w s d = Inr (d', found) \<Longrightarrow> map_of (dq_leases d) leaseID = None \<Longrightarrow>
    order_step cfg d {#} (claim_discards cfg d) d'"
| acknowledgment_staged: "stageAcknowledgmentTx (qc_lib cfg) now leaseID w s owner d = Inr (d', staged) \<Longrightarrow>
    order_step cfg d {#} {#} d'"
| acknowledged: "acknowledgeLeaseTx (qc_lib cfg) clock leaseID w s owner d = Inr (d', target, removed) \<Longrightarrow>
    order_step cfg d {#} (settled removed) d'"
| settlement_completed: "completeSettlementTx now leaseID d = Inr (d', resolution) \<Longrightarrow>
    order_step cfg d {#} (resolved d leaseID) d'"
| settlement_released: "order_step cfg d {#} {#}
    (d\<lparr>dq_discoverySettlements := AList.delete leaseID (dq_discoverySettlements d)\<rparr>)"
| handed_back: "negativeAcknowledgmentTx clock leaseID w s owner d = Inr (d', outcome) \<Longrightarrow> order_step cfg d {#} {#} d'"
| requeued: "requeueLeaseBatchTx (qc_lib cfg) clock match keys d = Inr (d', result) \<Longrightarrow> length keys \<le> 256 \<Longrightarrow>
    order_step cfg d {#} {#} d'"
| settlements_migrated: "migrateLeaseSettlementChunkTx cursor next_number now d = Inr (d', ()) \<Longrightarrow>
    order_step cfg d {#} {#} d'"
| settlements_expired: "delete_expired (qc_lib cfg) entries d = Inr (d', requeued) \<Longrightarrow> length entries \<le> 256 \<Longrightarrow>
    order_step cfg d {#} {#} d'"
| renewed: "renew_leases w s writeAt deadline candidates d = (d', committed) \<Longrightarrow> order_step cfg d {#} {#} d'"
| adopted: "adopt_tx w s deadline d = Inr (d', leases) \<Longrightarrow> order_step cfg d {#} {#} d'"
| end_staged: "stageTerminalSettlementTx (qc_lib cfg) now leaseID request d = Inr (d', staged) \<Longrightarrow>
    order_step cfg d {#} {#} d'"
| ended: "prepareTerminalLeaseSettlementTx (qc_lib cfg) clock leaseID request want d = Inr (d', settlement, removed) \<Longrightarrow>
    order_step cfg d {#} (terminal_ended request removed) d'"
| progress_delivered: "acknowledgeTerminalProgress outcome leaseID want d = (d', Inr ()) \<Longrightarrow> order_step cfg d {#} {#} d'"
| end_finalized: "finalizeTerminalTx now leaseID want d = Inr (d', ()) \<Longrightarrow> order_step cfg d {#} {#} d'"
| control_completed: "completeRunControl outcome leaseID d = (d', Inr ()) \<Longrightarrow> order_step cfg d {#} {#} d'"
| end_confirmed: "confirmTerminalLeaseSettlementTx (qc_lib cfg) leaseID request d = Inr (d', requeued) \<Longrightarrow>
    order_step cfg d {#} {#} d'"
| cleared: "clearPendingOrderPageTx (qc_lib cfg) after cutoff d = Inr (d', page) \<Longrightarrow>
    order_step cfg d {#} (cleared cutoff (page_entries after d)) d'"

lemma vault_txn_commits: "vault_txn outcome f d = (d', Inr r) \<Longrightarrow> f d = Inr (d', r)"
  by (auto simp: vault_txn_def split: sum.splits prod.splits if_splits)

lemma accounted_256:
  "post f (\<lambda>d' r. accounted n (P r) (E r) d d') \<Longrightarrow> f = Inr (d', r) \<Longrightarrow> n \<le> 256 \<Longrightarrow>
     accounted 256 (P r) (E r) d d'"
  by (auto intro: accounted_more)

lemma work_256: "post f (\<lambda>d' _. same_work d d') \<Longrightarrow> f = Inr (d', r) \<Longrightarrow> accounted 256 {#} {#} d d'"
  by (simp add: accounted_same)

lemma order_step_accounted:
  assumes "order_step cfg d added finished d'" and "queue_wf d"
  shows "accounted 256 added finished d d'"
  using assms(1)
proof cases
  case (published key data priority duplicate)
  then show ?thesis using accounted_256 [OF publish_accounted published(3)] by simp
next
  case (intent_kept outcome key data)
  then show ?thesis
    by (auto simp: persistAutomaticDiscoveryIntent_def accounted_same dest!: vault_txn_commits)
next
  case (intent_completed key data recovering duplicate)
  then show ?thesis using accounted_256 [OF complete_intent_accounted intent_completed(3)] by simp
next
  case (intent_released outcome key)
  then show ?thesis
    by (auto simp: releaseAutomaticDiscoveryIntent_def accounted_same dest!: vault_txn_commits)
next
  case (key_reconciled key found)
  then show ?thesis using work_256 [OF outstanding_work key_reconciled(3)] by simp
next
  case (leases_indexed outcome)
  then show ?thesis
    by (auto simp: reconcileAutomaticDiscoveryLeases_def accounted_same reconcile_leases_work dest!: vault_txn_commits)
next
  case priorities_reconciled
  then show ?thesis using work_256 [OF priorities_work [OF priorities_reconciled(4)] priorities_reconciled(3)] by simp
next
  case (claimed now leaseID w s found)
  then show ?thesis using accounted_256 [OF claim_accounted [OF claimed(4)] claimed(3)] by simp
next
  case (acknowledgment_staged now leaseID w s owner staged)
  then show ?thesis using work_256 [OF stage_acknowledgment_work acknowledgment_staged(3)] by simp
next
  case (acknowledged clock leaseID w s owner target removed)
  then show ?thesis using accounted_256 [OF acknowledge_accounted acknowledged(3)] by simp
next
  case (settlement_completed now leaseID resolution)
  then show ?thesis using accounted_256 [OF complete_settlement_accounted settlement_completed(3)] by simp
next
  case (settlement_released leaseID)
  then show ?thesis by (simp add: accounted_same)
next
  case (handed_back clock leaseID w s owner outcome)
  then show ?thesis using work_256 [OF nak_work handed_back(3)] by simp
next
  case (requeued clock match keys result)
  then show ?thesis using accounted_256 [OF requeue_batch_accounted requeued(3)] by simp
next
  case (settlements_migrated cursor next_number now)
  then show ?thesis using work_256 [OF migrate_chunk_work settlements_migrated(3)] by simp
next
  case (settlements_expired entries requeued)
  then show ?thesis using accounted_256 [OF delete_expired_accounted settlements_expired(3)] by simp
next
  case (renewed w s writeAt deadline candidates committed)
  then show ?thesis using renew_work [of d w s writeAt deadline candidates] by (simp add: accounted_same)
next
  case (adopted w s deadline leases)
  then show ?thesis using work_256 [OF adopt_work adopted(3)] by simp
next
  case (end_staged now leaseID request staged)
  then show ?thesis using work_256 [OF stage_terminal_work end_staged(3)] by simp
next
  case (ended clock leaseID request want settlement removed)
  then show ?thesis using accounted_256 [OF prepare_terminal_accounted ended(3)] by simp
next
  case (progress_delivered outcome leaseID want)
  then show ?thesis
    by (auto simp: acknowledgeTerminalProgress_def accounted_same dest!: vault_txn_commits
        split: sum.splits if_splits)
next
  case (end_finalized now leaseID want)
  then show ?thesis using work_256 [OF finalize_work end_finalized(3)] by simp
next
  case (control_completed outcome leaseID)
  then show ?thesis
    by (auto simp: completeRunControl_def Let_def accounted_same dest!: vault_txn_commits
        split: option.splits if_splits)
next
  case (end_confirmed leaseID request requeued)
  then show ?thesis using accounted_256 [OF confirm_terminal_accounted end_confirmed(3)] by simp
next
  case (cleared after cutoff page)
  then show ?thesis using accounted_256 [OF clear_page_accounted [OF assms(2)] cleared(3)] by simp
qed

section \<open>Runs\<close>

inductive order_run :: "queue_config \<Rightarrow> nat \<Rightarrow> durable \<Rightarrow> bytes multiset \<Rightarrow> bytes multiset \<Rightarrow> durable \<Rightarrow> bool"
  for cfg where
  run_start: "order_run cfg 0 d {#} {#} d"
| run_step: "order_run cfg n d added finished m \<Longrightarrow> order_step cfg m added' finished' d' \<Longrightarrow>
    order_run cfg (Suc n) d (added + added') (finished + finished') d'"

lemma order_run_accounted:
  "order_run cfg n d added finished d' \<Longrightarrow> queue_wf d \<Longrightarrow> room (256 * n) d \<Longrightarrow>
     queue_wf d' \<and> accounted (256 * n) added finished d d'"
proof (induction rule: order_run.induct)
  case (run_start d)
  then show ?case by (simp add: accounted_same)
next
  case (run_step n d added finished m added' finished' d')
  then have m: "queue_wf m" "accounted (256 * n) added finished d m" by (simp_all add: room_def)
  have "accounted 256 added' finished' m d'" using order_step_accounted [OF run_step.hyps(2) m(1)] .
  with m(2) have "accounted (256 * n + 256) (added + added') (finished + finished') d d'"
    by (rule accounted_trans)
  then show ?case using run_step.prems by (auto simp: accounted_def add.commute)
qed

lemma order_run_append:
  "order_run cfg n' m added' finished' d' \<Longrightarrow> order_run cfg n d added finished m \<Longrightarrow>
     order_run cfg (n + n') d (added + added') (finished + finished') d'"
proof (induction rule: order_run.induct)
  case (run_step n' m added' finished' m' added'' finished'' d')
  then have "order_run cfg (Suc (n + n')) d (added + added' + added'') (finished + finished' + finished'') d'"
    by (blast intro: order_run.run_step)
  then show ?case by (simp add: add.assoc)
qed simp

definition reaches :: "queue_config \<Rightarrow> durable \<Rightarrow> durable \<Rightarrow> bool" where
  "reaches cfg d d' \<longleftrightarrow> (\<exists>n added finished. order_run cfg n d added finished d')"

lemma reaches_refl [simp]: "reaches cfg d d"
  by (auto simp: reaches_def intro: run_start)

lemma reaches_trans [trans]: "reaches cfg d m \<Longrightarrow> reaches cfg m d' \<Longrightarrow> reaches cfg d d'"
  unfolding reaches_def by (blast intro: order_run_append)

lemma reaches_step: "order_step cfg d added finished d' \<Longrightarrow> reaches cfg d d'"
  unfolding reaches_def by (blast intro: run_start run_step)

lemma reaches_txn:
  assumes "vault_txn outcome f d = (d', r)" and "\<And>d' r. f d = Inr (d', r) \<Longrightarrow> \<exists>added finished. order_step cfg d added finished d'"
  shows "reaches cfg d d'"
  using assms(1)
proof (cases rule: vault_txn_cases)
  case (committed r')
  then show ?thesis using assms(2) by (blast intro: reaches_step)
qed simp

lemma reaches_txn_fst:
  "(\<And>d' r. f d = Inr (d', r) \<Longrightarrow> \<exists>added finished. order_step cfg d added finished d') \<Longrightarrow>
     reaches cfg d (fst (vault_txn outcome f d))"
  by (rule reaches_txn [of outcome f d _ "snd (vault_txn outcome f d)"]) simp_all

section \<open>Operations are runs\<close>

lemma vault_txn_failed: "vault_txn outcome f d = (d', Inl e) \<Longrightarrow> d' = d"
  by (auto simp: vault_txn_def split: sum.splits if_splits)

lemma intent_runs:
  "persistAutomaticDiscoveryIntent outcome key data d = (d', r) \<Longrightarrow> reaches cfg d d'"
  "releaseAutomaticDiscoveryIntent outcome key d = (d', r) \<Longrightarrow> reaches cfg d d'"
  by (cases r; use reaches_step [OF intent_kept] reaches_step [OF intent_released] in
      \<open>auto simp: persistAutomaticDiscoveryIntent_def releaseAutomaticDiscoveryIntent_def dest: vault_txn_failed\<close>)+

lemma key_runs:
  "completeAutomaticDiscoveryIntent (qc_lib cfg) outcome key data recovering d = (d', r) \<Longrightarrow> reaches cfg d d'"
  "reconcileAutomaticDiscoveryKey (qc_lib cfg) outcome key d = (d', r) \<Longrightarrow> reaches cfg d d'"
  unfolding completeAutomaticDiscoveryIntent_def reconcileAutomaticDiscoveryKey_def
  by (erule reaches_txn, blast intro: intent_completed key_reconciled)+

lemma publish_encoded_runs:
  "publishEncodedOrder outcome refused key data priority d = (d', r) \<Longrightarrow> reaches cfg d d'"
  by (auto simp: publishEncodedOrder_def intro: reaches_txn reaches_step published split: sum.splits bool.splits)

lemma reconcile_intents_runs:
  "reconcile_intents (qc_lib cfg) outcome n intents d = (d', r) \<Longrightarrow> reaches cfg d d'"
proof (induction intents arbitrary: n d)
  case (Cons intent rest)
  obtain key data where intent: "intent = (key, data)" by (cases intent)
  obtain m c where m: "completeAutomaticDiscoveryIntent (qc_lib cfg) (outcome n) key data True d = (m, c)"
    by (cases "completeAutomaticDiscoveryIntent (qc_lib cfg) (outcome n) key data True d")
  obtain m' c' where m': "releaseAutomaticDiscoveryIntent (outcome (n + 1)) key m = (m', c')"
    by (cases "releaseAutomaticDiscoveryIntent (outcome (n + 1)) key m")
  have "reaches cfg d m" "reaches cfg m m'" using key_runs(1) [OF m] intent_runs(2) [OF m'] .
  then show ?case using Cons intent m m' by (auto split: sum.splits intro: reaches_trans)
qed simp

lemma reconcile_all_intents_runs:
  "reconcileAutomaticDiscoveryIntents (qc_lib cfg) outcome d = (d', r) \<Longrightarrow> reaches cfg d d'"
  by (auto simp: reconcileAutomaticDiscoveryIntents_def intro: reconcile_intents_runs split: sum.splits)

lemma admit_runs: "admit_discovery (qc_lib cfg) outcome refused key rounds n d = (d', r) \<Longrightarrow> reaches cfg d d'"
proof (induction rounds arbitrary: n d)
  case (Suc rounds)
  obtain m c where m: "reconcileAutomaticDiscoveryKey (qc_lib cfg) (outcome (n + 1)) key d = (m, c)"
    by (cases "reconcileAutomaticDiscoveryKey (qc_lib cfg) (outcome (n + 1)) key d")
  have "reaches cfg d m" using key_runs(2) [OF m] .
  then show ?case using Suc m by (auto split: sum.splits bool.splits intro: reaches_trans)
qed simp

lemma publish_discovery_runs: "publish_discovery (qc_lib cfg) outcome n key data d = (d', r) \<Longrightarrow> reaches cfg d d'"
  by (auto simp: publish_discovery_def split: prod.splits sum.splits dest!: intent_runs [where cfg = cfg] key_runs
      intro: reaches_trans)

lemma publish_runs: "PublishOnce (qc_lib cfg) outcome refused key order d = (d', r) \<Longrightarrow> reaches cfg d d'"
  by (auto simp: PublishOnce_def publishAutomaticDiscovery_def split: option.splits if_splits prod.splits sum.splits bool.splits
      dest!: publish_encoded_runs [where cfg = cfg] reconcile_all_intents_runs admit_runs publish_discovery_runs
      intro: reaches_trans)

lemma claim_runs:
  assumes "map_of (dq_leases (cq_store q)) leaseID = None"
    and run: "leasePopForSession cfg outcome now leaseID w s q = (q', r)"
  shows "reaches cfg (cq_store q) (cq_store q')"
proof -
  obtain m c where m: "vault_txn outcome (claim_tx cfg now leaseID w s) (cq_store q) = (m, c)"
    by fastforce
  have "reaches cfg (cq_store q) m" by (rule reaches_txn [OF m]) (blast intro: claimed assms(1))
  then show ?thesis using run m
    by (auto simp: leasePopForSession_def split: if_splits sum.splits option.splits)
qed

lemma release_settlement_runs:
  "vault_txn outcome (\<lambda>d. Inr (d\<lparr>dq_discoverySettlements := AList.delete leaseID (dq_discoverySettlements d)\<rparr>, ())) d
     = (d', r) \<Longrightarrow> reaches cfg d d'"
  by (erule reaches_txn) (auto intro: settlement_released)

lemma complete_runs: "completeAutomaticDiscoverySettlement now o1 o2 leaseID d = (d', resolution, err) \<Longrightarrow> reaches cfg d d'"
proof -
  assume run: "completeAutomaticDiscoverySettlement now o1 o2 leaseID d = (d', resolution, err)"
  obtain m c where m: "vault_txn o1 (completeSettlementTx now leaseID) d = (m, c)"
    by (cases "vault_txn o1 (completeSettlementTx now leaseID) d")
  have "reaches cfg d m" by (rule reaches_txn [OF m]) (blast intro: settlement_completed)
  with run m show ?thesis
    by (auto simp: completeAutomaticDiscoverySettlement_def split: prod.splits sum.splits option.splits
        dest!: release_settlement_runs [where cfg = cfg] intro: reaches_trans)
qed

lemma acknowledge_runs:
  "ackLeaseWithTargetLocked (qc_lib cfg) outcome clock leaseID w s owner q = (q', r) \<Longrightarrow>
     reaches cfg (cq_store q) (cq_store q')"
proof -
  assume run: "ackLeaseWithTargetLocked (qc_lib cfg) outcome clock leaseID w s owner q = (q', r)"
  obtain m c where m: "vault_txn (outcome 0) (stageAcknowledgmentTx (qc_lib cfg) (clock 0) leaseID w s owner) (cq_store q) = (m, c)"
    by fastforce
  obtain m' c' where m': "vault_txn (outcome 1) (acknowledgeLeaseTx (qc_lib cfg) (\<lambda>n. clock (n + 1)) leaseID w s owner) m = (m', c')"
    by fastforce
  have "reaches cfg (cq_store q) m" by (rule reaches_txn [OF m]) (blast intro: acknowledgment_staged)
  moreover have "reaches cfg m m'" by (rule reaches_txn [OF m']) (auto intro: acknowledged)
  ultimately show ?thesis using run m m'
    by (auto simp: ackLeaseWithTargetLocked_def Let_def split: prod.splits sum.splits
        dest!: complete_runs [where cfg = cfg] intro: reaches_trans)
qed

lemma resolve_runs:
  "resolveAutomaticDiscoverySettlement now o1 o2 leaseID q = (q', r) \<Longrightarrow> reaches cfg (cq_store q) (cq_store q')"
  by (auto simp: resolveAutomaticDiscoverySettlement_def split: prod.splits dest: complete_runs)

lemma resolve_all_runs: "resolve_settlements env keys q = (q', r) \<Longrightarrow> reaches cfg (cq_store q) (cq_store q')"
proof (induction keys arbitrary: env q)
  case (Cons leaseID rest)
  then show ?case
    by (auto split: prod.splits option.splits dest!: resolve_runs [where cfg = cfg] intro: reaches_trans)
qed simp

lemma hand_back_runs:
  "deferLeaseLocked outcome clock leaseID w s owner q = (q', r) \<Longrightarrow> reaches cfg (cq_store q) (cq_store q')"
proof -
  assume run: "deferLeaseLocked outcome clock leaseID w s owner q = (q', r)"
  obtain m c where m: "vault_txn (outcome 0) (negativeAcknowledgmentTx clock leaseID w s owner) (cq_store q) = (m, c)"
    by fastforce
  have "reaches cfg (cq_store q) m" by (rule reaches_txn [OF m]) (blast intro: handed_back)
  then show ?thesis using run m
    by (auto simp: deferLeaseLocked_def split: prod.splits sum.splits option.splits negativeAcknowledgmentMutation.splits
        dest!: resolve_runs [where cfg = cfg] intro: reaches_trans)
qed

lemma requeue_chunk_runs:
  assumes "length keys \<le> 256" and run: "requeueLeaseChunk (qc_lib cfg) env match keys q = (q', r)"
  shows "reaches cfg (cq_store q) (cq_store q')"
proof -
  obtain m c where m: "vault_txn (ce_update env) (requeueLeaseBatchTx (qc_lib cfg) (ce_clock env) match keys) (cq_store q) = (m, c)"
    by fastforce
  have "reaches cfg (cq_store q) m" by (rule reaches_txn [OF m]) (blast intro: requeued assms(1))
  then show ?thesis using run m
    by (auto simp: requeueLeaseChunk_def split: prod.splits sum.splits option.splits
        dest!: resolve_all_runs [where cfg = cfg] intro: reaches_trans)
qed

lemma requeue_chunks_runs:
  "requeue_chunks (qc_lib cfg) env match keys q = (q', r) \<Longrightarrow> reaches cfg (cq_store q) (cq_store q')"
proof (induction "qc_lib cfg" env match keys q rule: requeue_chunks.induct)
  case (1 env match keys q)
  obtain m c where m: "requeueLeaseChunk (qc_lib cfg) (env 0) match (take maximumLeaseRequeueChunk keys) q = (m, c)"
    by fastforce
  have first: "reaches cfg (cq_store q) (cq_store m)"
    by (rule requeue_chunk_runs [OF _ m]) (simp add: maximumLeaseRequeueChunk_def)
  show ?case
  proof (cases "keys = [] \<or> ce_cancelled (env 0) \<or> isl c")
    case True
    then show ?thesis using first m "1.prems"
      by (auto simp: requeue_chunks.simps [of _ env] split: sum.splits if_splits)
  next
    case False
    then obtain b where c: "c = Inr b" by (cases c) auto
    have "requeue_chunks (qc_lib cfg) (\<lambda>n. env (Suc n)) match (drop maximumLeaseRequeueChunk keys) m = (q', r)"
      using "1.prems" False m c by (simp add: requeue_chunks.simps [of _ env])
    then have "reaches cfg (cq_store m) (cq_store q')"
      using "1.hyps" [OF _ _ m [symmetric] c] False by blast
    with first show ?thesis by (rule reaches_trans)
  qed
qed

lemma requeue_matching_runs:
  "requeueLeasesMatching (qc_lib cfg) outcome env match q = (q', r) \<Longrightarrow> reaches cfg (cq_store q) (cq_store q')"
  by (auto simp: requeueLeasesMatching_def intro: requeue_chunks_runs split: sum.splits)

lemma expire_settlements_runs: "expireLeaseSettlements (qc_lib cfg) outcome now d = (d', r) \<Longrightarrow> reaches cfg d d'"
proof -
  assume run: "expireLeaseSettlements (qc_lib cfg) outcome now d = (d', r)"
  obtain m c where m: "migrateLeaseSettlementExpiry (outcome 0) (outcome 1) now d = (m, c)" by fastforce
  have migrated: "vault_txn o2 (migrateLeaseSettlementChunkTx cursor next_number now) d = (m, c) \<Longrightarrow> reaches cfg d m"
    for o2 cursor next_number
    by (erule reaches_txn) (auto intro: settlements_migrated)
  have first: "reaches cfg d m"
    using m by (auto simp: migrateLeaseSettlementExpiry_def split: sum.splits if_splits intro: migrated)
  obtain m' c' where m': "vault_txn (outcome 3)
      (\<lambda>d. delete_expired (qc_lib cfg) (expiredLeaseSettlementCandidates now d) d) m = (m', c')" by fastforce
  have "length (expiredLeaseSettlementCandidates now m) \<le> 256"
    by (simp add: expiredLeaseSettlementCandidates_def maximumLeaseSettlementRetentionChunk_def)
  then have "reaches cfg m m'" by (intro reaches_txn [OF m']) (blast intro: settlements_expired)
  then show ?thesis using run m m' first
    by (auto simp: expireLeaseSettlements_def deleteExpiredLeaseSettlements_def split: sum.splits bool.splits
        intro: reaches_trans)
qed

lemma sweep_runs: "sweepExpired cfg env now later q = (q', r) \<Longrightarrow> reaches cfg (cq_store q) (cq_store q')"
  by (auto simp: sweepExpired_def reclaimAbandonedLeases_def split: prod.splits sum.splits
      dest!: requeue_matching_runs expire_settlements_runs intro: reaches_trans)

lemma renew_runs:
  "renewLeases cfg outcome clock w s leases q_read q = (q', r) \<Longrightarrow> reaches cfg (cq_store q) (cq_store q')"
proof -
  assume run: "renewLeases cfg outcome clock w s leases q_read q = (q', r)"
  have "reaches cfg (cq_store q) (fst (commitLeaseRenewals cfg (outcome 1) w s candidates (clock 1) (cq_store q)))"
    for candidates
    unfolding commitLeaseRenewals_def
    by (rule reaches_txn_fst) (blast intro: renewed)
  then show ?thesis using run
    by (auto simp: renewLeases_def split: sum.splits bool.splits prod.splits) (metis fst_conv)+
qed

lemma adopt_runs:
  "adoptWorkerSession cfg outcome env now w s q = (q', r) \<Longrightarrow> reaches cfg (cq_store q) (cq_store q')"
proof -
  assume run: "adoptWorkerSession cfg outcome env now w s q = (q', r)"
  obtain m c where m: "resolveWorkerAutomaticDiscoverySettlements (outcome 0) env w q = (m, c)" by fastforce
  have first: "reaches cfg (cq_store q) (cq_store m)"
    using m by (auto simp: resolveWorkerAutomaticDiscoverySettlements_def split: sum.splits dest: resolve_all_runs)
  obtain m' c' where m': "vault_txn (outcome 1) (adopt_tx w s (now + qc_leaseTTL cfg)) (cq_store m) = (m', c')" by fastforce
  have "reaches cfg (cq_store m) m'" by (rule reaches_txn [OF m']) (blast intro: adopted)
  then show ?thesis using run m m' first
    by (auto simp: adoptWorkerSession_def split: sum.splits option.splits intro: reaches_trans)
qed

lemma end_runs:
  "prepareTerminalLeaseSettlement (qc_lib cfg) outcome clock leaseID request q = (q', r) \<Longrightarrow>
     reaches cfg (cq_store q) (cq_store q')"
proof -
  assume run: "prepareTerminalLeaseSettlement (qc_lib cfg) outcome clock leaseID request q = (q', r)"
  obtain m c where m: "vault_txn (outcome 0) (stageTerminalSettlementTx (qc_lib cfg) (clock 0) leaseID request) (cq_store q) = (m, c)"
    by fastforce
  obtain m' c' where m': "vault_txn (outcome 1) (prepareTerminalLeaseSettlementTx (qc_lib cfg) (\<lambda>n. clock (n + 1)) leaseID
      request (terminalSettlementRecord request)) m = (m', c')"
    by fastforce
  have "reaches cfg (cq_store q) m" by (rule reaches_txn [OF m]) (blast intro: end_staged)
  moreover have "reaches cfg m m'" by (rule reaches_txn [OF m']) (auto intro: ended)
  ultimately show ?thesis using run m m'
    by (auto simp: prepareTerminalLeaseSettlement_def Let_def split: prod.splits sum.splits
        dest!: complete_runs [where cfg = cfg] intro: reaches_trans)
qed

lemma confirm_runs:
  "confirmTerminalLeaseSettlement (qc_lib cfg) outcome leaseID request d = (d', r) \<Longrightarrow> reaches cfg d d'"
  by (auto simp: confirmTerminalLeaseSettlement_def split: prod.splits sum.splits
      intro: reaches_txn end_confirmed)

lemma clear_pages_runs:
  "clear_pages (qc_lib cfg) env fuel after cutoff removed d = Some (d', result) \<Longrightarrow> reaches cfg d d'"
proof (induction fuel arbitrary: env after removed d)
  case (Suc fuel)
  obtain m c where m: "vault_txn (snd (env 0)) (clearPendingOrderPageTx (qc_lib cfg) after cutoff) d = (m, c)" by fastforce
  have "reaches cfg d m" by (rule reaches_txn [OF m]) (blast intro: cleared)
  then show ?case using Suc m by (auto split: if_splits sum.splits intro: reaches_trans)
qed simp

lemma clear_before_runs:
  "clear_pages (qc_lib cfg) env fuel None cutoff 0 d \<noteq> None \<Longrightarrow>
     reaches cfg d (fst (the (clear_pages (qc_lib cfg) env fuel None cutoff 0 d)))"
  using clear_pages_runs by fastforce

lemma complete_settlements_runs: "complete_settlements env keys d = (d', r) \<Longrightarrow> reaches cfg d d'"
proof (induction keys arbitrary: env d)
  case (Cons leaseID rest)
  then show ?case
    by (auto split: prod.splits option.splits dest!: complete_runs [where cfg = cfg] intro: reaches_trans)
qed simp

lemma index_leases_runs: "reconcileAutomaticDiscoveryLeases outcome d = (d', r) \<Longrightarrow> reaches cfg d d'"
  by (cases r; use reaches_step [OF leases_indexed] in
      \<open>auto simp: reconcileAutomaticDiscoveryLeases_def dest: vault_txn_failed\<close>)

lemma start_runs: "newDurableOrderQueue (qc_lib cfg) intents outcome env d = (d', r) \<Longrightarrow> reaches cfg d d'"
proof -
  assume run: "newDurableOrderQueue (qc_lib cfg) intents outcome env d = (d', r)"
  obtain m c where m: "reconcileAutomaticDiscoveryIntents (qc_lib cfg) intents d = (m, c)" by fastforce
  obtain m' c' where m': "reconcileAutomaticDiscoveryLeases (outcome 0) m = (m', c')" by fastforce
  obtain x c'' where x: "reconcileAutomaticDiscoverySettlements (outcome 1) env m' = (x, c'')" by fastforce
  have "reaches cfg d m" "reaches cfg m m'"
    using reconcile_all_intents_runs [OF m] index_leases_runs [OF m'] .
  moreover have "reaches cfg m' x"
    using x by (auto simp: reconcileAutomaticDiscoverySettlements_def split: sum.splits dest: complete_settlements_runs)
  ultimately show ?thesis using run m m' x
    by (auto simp: newDurableOrderQueue_def split: sum.splits intro: reaches_trans)
qed

end
