(* ===== verification/OrderFates.thy ===== *)
theory OrderFates
  imports OrderRuns
begin

text \<open>
  What becomes of the orders and leases of the crawl order queue: a sweep requeues expired and abandoned
  leases and ends only orders with a staged settlement; an acknowledgment of a lease that was requeued is
  refused; an acknowledgment that was carried out is answered again; a waiting order of normal priority is
  claimed after at most three discovered ones, or in the order of arrival; a clearing ends and leaves no
  pending order.
\<close>

section \<open>The sweep\<close>

definition same_core :: "durable \<Rightarrow> durable \<Rightarrow> bool" where
  "same_core d d' \<longleftrightarrow> dq_leases d' = dq_leases d \<and> dq_discoverySettlements d' = dq_discoverySettlements d"

lemma same_core_refl [simp]: "same_core d d"
  by (simp add: same_core_def)

lemma same_core_history [simp]:
  "same_core d (m\<lparr>dq_settlementExpiry := x\<rparr>) = same_core d m"
  "same_core d (put_settlement leaseID entry m) = same_core d m" "same_core d (put_order sequence leaseID m) = same_core d m"
  "same_core d (seq_put k n m) = same_core d m" "same_core d (delete_expiry_of entry leaseID m) = same_core d m"
  "same_core d (recordRequeuedAutomaticDiscoveryTx leaseID lease sequence m) = same_core d m"
  "same_core d (fst (enqueueTx data priority m)) = same_core d m"
  "same_core d (fst (reserveLeaseSettlementSequenceTx m)) = same_core d m"
  by (simp_all add: same_core_def put_settlement_def put_order_def seq_put_def delete_expiry_of_def
      recordRequeuedAutomaticDiscoveryTx_def releaseLeasedAutomaticDiscoveryTx_def set_pending_def set_active_def
      enqueueTx_def index_put_def reserveLeaseSettlementSequenceTx_def Let_def split: option.splits)

lemma record_settlement_core [simp]:
  "same_core d m \<Longrightarrow> post (recordLeaseSettlement now leaseID outcome m) (\<lambda>d' _. same_core d d')"
  by (simp add: recordLeaseSettlement_def storeLeaseSettlement_def put_expiry_def Let_def case_prod_unfold
      split: option.splits)

definition without :: "(leaseRecord \<Rightarrow> bool) \<Rightarrow> string list \<Rightarrow> (string, leaseRecord) gomap \<Rightarrow> (string, leaseRecord) gomap" where
  "without match keys leases = filter (\<lambda>(leaseID, lease). \<not> (leaseID \<in> set keys \<and> match lease)) leases"

lemma without_Nil [simp]: "without match [] leases = leases"
  by (simp add: without_def)

lemma without_append: "without match ys (without match xs leases) = without match (xs @ ys) leases"
  by (auto simp: without_def intro: filter_cong)

lemma wf_without [simp]: "wf_map leases \<Longrightarrow> wf_map (without match keys leases)"
  by (simp add: without_def wf_map_def distinct_map_filter)

lemma without_one:
  assumes "wf_map leases"
  shows "without match [leaseID] leases = (case map_of leases leaseID of
    None \<Rightarrow> leases | Some lease \<Rightarrow> if match lease then AList.delete leaseID leases else leases)"
proof (cases "map_of leases leaseID")
  case None
  then have "leaseID \<notin> fst ` set leases" by (simp add: map_of_eq_None_iff)
  then show ?thesis using None by (auto simp: without_def image_iff intro!: filter_True)
next
  case (Some lease)
  have same: "l = lease" if "(leaseID, l) \<in> set leases" for l
    using that Some wf_map_SomeI [OF assms] by fastforce
  show ?thesis
    using Some same by (auto simp: without_def AList.delete_eq intro!: filter_cong filter_True)
qed

lemma requeue_leases:
  assumes "wf_map (dq_leases d)"
  shows "post (requeueLeaseTx lib now match leaseID d) (\<lambda>d' _. dq_leases d' = without match [leaseID] (dq_leases d) \<and>
    dq_discoverySettlements d' = dq_discoverySettlements d)"
proof (cases "map_of (dq_leases d) leaseID")
  case (Some lease)
  have core: "same_core (delete_lease leaseID d) m \<Longrightarrow> dq_leases m = AList.delete leaseID (dq_leases d) \<and>
      dq_discoverySettlements m = dq_discoverySettlements d" for m
    by (simp add: same_core_def delete_lease_def)
  show ?thesis
    using Some core by (auto simp: requeueLeaseTx_def without_one [OF assms] case_prod_unfold
        intro!: post_mono [OF record_settlement_core [of "delete_lease leaseID d"]])
qed (simp add: requeueLeaseTx_def without_one [OF assms])

lemma queue_wf_leases: "queue_wf d \<Longrightarrow> wf_map (dq_leases d)"
  by (simp add: queue_wf_def wf_map_def lease_orders_def comp_def case_prod_unfold)

lemma ensure_settlement_core [simp]:
  "same_core d m \<Longrightarrow> post (ensureLeaseSettlementTx now leaseID want m) (\<lambda>d' _. same_core d d')"
proof -
  assume m: "same_core d m"
  have expiry: "post (put_expiry entry leaseID x) (\<lambda>d' _. same_core d d')" if "same_core d x" for entry x
    using that by (simp add: put_expiry_def split: option.splits)
  have restore: "same_core d (restoreSettlementSequencesTx sequence x) = same_core d x" for sequence x
    by (simp add: restoreSettlementSequencesTx_def Let_def)
  have moved: "same_core d (fst (relocateSettlementSequenceTx leaseID entry m))" for entry
    using m by (simp add: relocateSettlementSequenceTx_def Let_def case_prod_unfold split: option.split)
  show ?thesis
    by (simp add: ensureLeaseSettlementTx_def storeLeaseSettlement_def Let_def case_prod_unfold restore moved expiry m
        split: option.split)
qed

section \<open>Leases with a staged settlement\<close>

definition staged_in :: "durable \<Rightarrow> string \<Rightarrow> bool" where
  "staged_in d leaseID \<longleftrightarrow> map_of (dq_discoverySettlements d) leaseID \<noteq> None"

lemma staged_same: "dq_discoverySettlements d' = dq_discoverySettlements d \<Longrightarrow> staged_in d' = staged_in d"
  by (simp add: staged_in_def fun_eq_iff)

text \<open>The orders of these leases: their workers have reported the end of the run, and the settlement is
  to be completed.\<close>

definition staged_orders :: "durable \<Rightarrow> bytes multiset" where
  "staged_orders d = mset (map snd (filter (\<lambda>(leaseID, _). staged_in d leaseID) (lease_orders d)))"

lemma staged_orders_fewer:
  assumes "lease_orders d' = filter P (lease_orders d)" and "\<And>leaseID. staged_in d' leaseID \<Longrightarrow> staged_in d leaseID"
  shows "staged_orders d' \<subseteq># staged_orders d"
proof -
  have "filter (\<lambda>(leaseID, _). staged_in d' leaseID) (filter P (lease_orders d)) =
      filter (\<lambda>e. P e \<and> staged_in d' (fst e)) (filter (\<lambda>(leaseID, _). staged_in d leaseID) (lease_orders d))"
    using assms(2) by (auto intro!: filter_cong)
  then show ?thesis unfolding staged_orders_def assms(1) mset_map
    by (intro image_mset_subseteq_mono) (simp only: mset_filter multiset_filter_subset)
qed

lemma staged_orders_deleted:
  assumes "wf_map (lease_orders d)" "map_of (lease_orders d) leaseID = Some data" "staged_in d leaseID"
    and "lease_orders d' = AList.delete leaseID (lease_orders d)" and "\<And>x. staged_in d' x \<Longrightarrow> staged_in d x"
  shows "staged_orders d' + {#data#} \<subseteq># staged_orders d"
proof -
  let ?staged = "\<lambda>(leaseID, _). staged_in d leaseID"
  let ?m = "filter ?staged (lease_orders d)"
  have wf: "wf_map ?m" using assms(1) by (simp add: wf_map_def distinct_map_filter)
  have found: "map_of ?m leaseID = Some data"
    using assms(2,3) wf by (auto dest: map_of_SomeD intro!: wf_map_SomeI)
  have "filter (\<lambda>(leaseID, _). staged_in d' leaseID) (lease_orders d') =
      filter (\<lambda>e. staged_in d' (fst e)) (AList.delete leaseID ?m)"
    using assms(5) unfolding assms(4) AList.delete_eq filter_filter by (auto intro!: filter_cong)
  then have "staged_orders d' \<subseteq># mset (map snd (AList.delete leaseID ?m))"
    unfolding staged_orders_def mset_map
    by (intro image_mset_subseteq_mono) (simp only: mset_filter multiset_filter_subset)
  moreover have "add_mset data (mset (map snd (AList.delete leaseID ?m))) = staged_orders d"
    using order_delete_present [OF wf found] by (simp add: staged_orders_def)
  ultimately show ?thesis by (metis add_mset_add_single subset_mset.add_right_mono)
qed

text \<open>What every step of a sweep does: no lease and no staged settlement is added, and the orders that end
  are those of leases with a staged settlement.\<close>

definition swept :: "nat \<Rightarrow> durable \<Rightarrow> durable \<Rightarrow> bool" where
  "swept n d d' \<longleftrightarrow> (wf_map (dq_leases d) \<longrightarrow> wf_map (dq_leases d')) \<and> set (dq_leases d') \<subseteq> set (dq_leases d) \<and>
     (\<forall>leaseID. staged_in d' leaseID \<longrightarrow> staged_in d leaseID) \<and>
     (\<exists>ended. accounted n {#} ended d d' \<and> staged_orders d' + ended \<subseteq># staged_orders d)"

lemma swept_refl [simp]: "swept n d d"
  unfolding swept_def by (intro conjI exI [of _ "{#}"]) (simp_all add: accounted_same)

lemma swept_trans:
  assumes "swept n d m" "swept n' m d'"
  shows "swept (n + n') d d'"
proof -
  obtain e e' where e: "accounted n {#} e d m" "staged_orders m + e \<subseteq># staged_orders d"
    "accounted n' {#} e' m d'" "staged_orders d' + e' \<subseteq># staged_orders m"
    using assms unfolding swept_def by blast
  have "staged_orders d' + (e + e') \<subseteq># staged_orders m + e"
    using subset_mset.add_right_mono [OF e(4), of e] by (simp add: ac_simps)
  then have "staged_orders d' + (e + e') \<subseteq># staged_orders d" using e(2) by (rule subset_mset.order_trans)
  moreover have "accounted (n + n') {#} (e + e') d d'" using accounted_trans [OF e(1,3)] by simp
  ultimately show ?thesis using assms unfolding swept_def by blast
qed

lemma swept_more: "swept n d d' \<Longrightarrow> n \<le> n' \<Longrightarrow> swept n' d d'"
  unfolding swept_def using accounted_more by blast

lemma lease_orders_filter:
  "dq_leases d' = filter (\<lambda>(leaseID, lease). Q leaseID lease) (dq_leases d) \<Longrightarrow> wf_map (dq_leases d) \<Longrightarrow>
     \<exists>P. lease_orders d' = filter P (lease_orders d)"
proof -
  assume d': "dq_leases d' = filter (\<lambda>(leaseID, lease). Q leaseID lease) (dq_leases d)" and wf: "wf_map (dq_leases d)"
  have "lease_orders d' = filter (\<lambda>(leaseID, _). \<exists>lease. map_of (dq_leases d) leaseID = Some lease \<and> Q leaseID lease)
      (lease_orders d)"
    unfolding lease_orders_def d' filter_map comp_def
    using wf by (auto intro!: arg_cong [of _ _ "map _"] filter_cong dest: wf_map_SomeI)
  then show ?thesis by blast
qed

lemma requeue_batch_leases:
  "wf_map (dq_leases d) \<Longrightarrow> post (requeueLeaseBatchTx lib clock match keys d) (\<lambda>d' r.
     dq_leases d' = without match (filter (\<lambda>k. \<not> staged_in d k) keys) (dq_leases d) \<and>
     dq_discoverySettlements d' = dq_discoverySettlements d \<and> snd r = filter (staged_in d) keys)"
proof (induction keys arbitrary: clock d)
  case (Cons leaseID rest)
  have rest: "post (requeueLeaseBatchTx lib (\<lambda>n. clock (Suc n)) match rest m) (\<lambda>d' r.
      dq_leases d' = without match (filter (\<lambda>k. \<not> staged_in d k) rest) (dq_leases m) \<and>
      dq_discoverySettlements d' = dq_discoverySettlements d \<and> snd r = filter (staged_in d) rest)"
    if "wf_map (dq_leases m)" "dq_discoverySettlements m = dq_discoverySettlements d" for m
    using Cons.IH [OF that(1), of "\<lambda>n. clock (Suc n)"] that(2) by (simp add: staged_same [OF that(2)])
  show ?case
  proof (cases "staged_in d leaseID")
    case True
    then have "map_of (dq_discoverySettlements d) leaseID \<noteq> None" unfolding staged_in_def .
    then show ?thesis using True rest [OF Cons.prems refl] by (auto simp: case_prod_unfold elim!: post_mono)
  next
    case False
    have "post (requeueLeaseTx lib (clock 0) match leaseID d) (\<lambda>m _. post (requeueLeaseBatchTx lib (\<lambda>n. clock (Suc n)) match rest m)
        (\<lambda>d' r. dq_leases d' = without match (leaseID # filter (\<lambda>k. \<not> staged_in d k) rest) (dq_leases d) \<and>
          dq_discoverySettlements d' = dq_discoverySettlements d \<and> snd r = filter (staged_in d) rest))"
    proof (rule post_mono [OF requeue_leases [OF Cons.prems]])
      fix m :: durable and changed
      assume m: "dq_leases m = without match [leaseID] (dq_leases d) \<and> dq_discoverySettlements m = dq_discoverySettlements d"
      then have wf: "wf_map (dq_leases m)" and same: "dq_discoverySettlements m = dq_discoverySettlements d"
        using Cons.prems by simp_all
      from rest [OF wf same] m show "post (requeueLeaseBatchTx lib (\<lambda>n. clock (Suc n)) match rest m)
        (\<lambda>d' r. dq_leases d' = without match (leaseID # filter (\<lambda>k. \<not> staged_in d k) rest) (dq_leases d) \<and>
          dq_discoverySettlements d' = dq_discoverySettlements d \<and> snd r = filter (staged_in d) rest)"
        by (simp add: without_append)
    qed
    moreover have "map_of (dq_discoverySettlements d) leaseID = None" using False by (simp add: staged_in_def)
    ultimately show ?thesis using False by (auto simp: case_prod_unfold elim!: post_mono)
  qed
qed simp

lemma requeue_batch_swept:
  assumes "wf_map (dq_leases d)"
  shows "post (requeueLeaseBatchTx lib clock match keys d) (\<lambda>d' _. swept (length keys) d d')"
proof (rule postI)
  fix d' r assume run: "requeueLeaseBatchTx lib clock match keys d = Inr (d', r)"
  note l = postD [OF requeue_batch_leases [OF assms] run]
  have "\<exists>P. lease_orders d' = filter P (lease_orders d)"
    by (rule lease_orders_filter [OF _ assms]) (use l in \<open>simp add: without_def\<close>)
  then have "staged_orders d' \<subseteq># staged_orders d"
    using l staged_orders_fewer [of d' _ d] by (auto simp: staged_in_def)
  moreover have "accounted (length keys) {#} {#} d d'" using postD [OF requeue_batch_accounted run] .
  ultimately show "swept (length keys) d d'"
    using l assms unfolding swept_def
    by (intro conjI exI [of _ "{#}"]) (auto simp: staged_in_def without_def wf_map_def distinct_map_filter)
qed

section \<open>Completing a staged settlement\<close>

lemma complete_settlement_leases:
  "post (completeSettlementTx now leaseID d) (\<lambda>d' r. dq_discoverySettlements d' = dq_discoverySettlements d \<and>
     (r = None \<longleftrightarrow> \<not> staged_in d leaseID) \<and>
     dq_leases d' = (if staged_in d leaseID then AList.delete leaseID (dq_leases d) else dq_leases d))"
proof (cases "map_of (dq_discoverySettlements d) leaseID")
  case None
  then show ?thesis by (simp add: completeSettlementTx_def staged_in_def)
next
  case (Some intent)
  have gone: "map_of (dq_leases d) leaseID = None \<Longrightarrow> AList.delete leaseID (dq_leases d) = dq_leases d"
    by (simp add: delete_id map_of_eq_None_iff)
  let ?Q = "\<lambda>m. dq_discoverySettlements m = dq_discoverySettlements d \<and> dq_leases m = AList.delete leaseID (dq_leases d)"
  have remove: "post (removeRetainedLeaseTx leaseID intent d) (\<lambda>m _. ?Q m)"
    using gone by (auto simp: removeRetainedLeaseTx_def Let_def put_target_def delete_lease_def split: option.split)
  have released: "dq_discoverySettlements (releaseLeasedAutomaticDiscoveryTx leaseID lease m) = dq_discoverySettlements m"
    "dq_discoverySettlements (releaseActiveAutomaticDiscoveryTx lease m) = dq_discoverySettlements m" for lease m
    by (simp_all add: releaseLeasedAutomaticDiscoveryTx_def releaseActiveAutomaticDiscoveryTx_def)
  have "post (ensureLeaseSettlementTx now leaseID want x) (\<lambda>m _. ?Q m)" if "?Q x" for want x
    using post_mono [OF ensure_settlement_core [OF same_core_refl, of now leaseID want x]] that
    by (auto simp: same_core_def)
  then have "post (removeRetainedLeaseTx leaseID intent d) (\<lambda>x _.
      post (ensureLeaseSettlementTx now leaseID (si_Settlement intent)
        (releaseLeasedAutomaticDiscoveryTx leaseID (si_Lease intent) x)) (\<lambda>m _. ?Q m))"
    by (intro post_mono [OF remove]) (simp add: released)
  then show ?thesis using Some
    by (auto simp: completeSettlementTx_def staged_in_def released elim!: post_mono)
qed

lemma complete_settlement_swept:
  assumes "wf_map (dq_leases d)"
  shows "post (completeSettlementTx now leaseID d) (\<lambda>d' _. swept 0 d d')"
proof (rule postI)
  fix d' r assume run: "completeSettlementTx now leaseID d = Inr (d', r)"
  note l = postD [OF complete_settlement_leases run]
  have staged: "staged_in d' x = staged_in d x" for x using l by (simp add: staged_in_def)
  have "staged_orders d' + resolved d leaseID \<subseteq># staged_orders d"
  proof (cases "staged_in d leaseID \<and> map_of (dq_leases d) leaseID \<noteq> None")
    case True
    then obtain lease where lease: "map_of (dq_leases d) leaseID = Some lease" by auto
    have "wf_map (lease_orders d)"
      using assms by (simp add: wf_map_def lease_orders_def comp_def case_prod_unfold)
    moreover have "lease_orders d' = AList.delete leaseID (lease_orders d)"
      using l True by (simp add: lease_orders_def delete_map_values)
    ultimately have "staged_orders d' + {#lr_OrderData lease#} \<subseteq># staged_orders d"
      using True lease staged by (intro staged_orders_deleted) (simp_all add: map_of_lease_orders)
    then show ?thesis using True lease by (auto simp: resolved_def staged_in_def)
  next
    case False
    then have "dq_leases d' = dq_leases d"
      using l by (auto simp: delete_id map_of_eq_None_iff)
    then have "staged_orders d' = staged_orders d" by (simp add: staged_orders_def staged lease_orders_def)
    then show ?thesis using False by (auto simp: resolved_def staged_in_def)
  qed
  moreover have "accounted 0 {#} (resolved d leaseID) d d'" using postD [OF complete_settlement_accounted run] .
  moreover have "set (dq_leases d') \<subseteq> set (dq_leases d)" "wf_map (dq_leases d')"
    using l assms by (auto simp: AList.delete_eq wf_map_def distinct_map_filter)
  ultimately show "swept 0 d d'" using staged unfolding swept_def by blast
qed

lemma complete_swept:
  assumes run: "completeAutomaticDiscoverySettlement now o1 o2 leaseID d = (d', resolution, err)"
    and wf: "wf_map (dq_leases d)"
  shows "swept 0 d d' \<and> (\<forall>x. x \<noteq> leaseID \<and> staged_in d x \<longrightarrow> staged_in d' x) \<and>
    (err = None \<and> staged_in d leaseID \<longrightarrow> map_of (dq_leases d') leaseID = None)"
proof -
  obtain m c where m: "vault_txn o1 (completeSettlementTx now leaseID) d = (m, c)" by fastforce
  from m show ?thesis
  proof (cases rule: vault_txn_cases)
    case (failed e)
    then show ?thesis using run m by (auto simp: completeAutomaticDiscoverySettlement_def)
  next
    case (committed r)
    note l = postD [OF complete_settlement_leases committed(1)]
    note s = postD [OF complete_settlement_swept [OF wf] committed(1)]
    let ?released = "m\<lparr>dq_discoverySettlements := AList.delete leaseID (dq_discoverySettlements m)\<rparr>"
    have "swept 0 m ?released"
      unfolding swept_def
      by (intro conjI exI [of _ "{#}"])
        (auto simp: accounted_same staged_in_def lease_orders_def delete_conv' split: if_splits
          intro!: staged_orders_fewer [of _ "\<lambda>_. True"])
    with s have "swept 0 d ?released" using swept_trans by fastforce
    moreover have "d' = m \<or> d' = ?released"
      using run m committed by (auto simp: completeAutomaticDiscoverySettlement_def vault_txn_def
          split: option.splits sum.splits prod.splits if_splits)
    ultimately show ?thesis using s l by (auto simp: staged_in_def delete_conv')
  qed
qed

lemma resolve_all_swept:
  "resolve_settlements env keys q = (q', err) \<Longrightarrow> wf_map (dq_leases (cq_store q)) \<Longrightarrow>
     swept 0 (cq_store q) (cq_store q') \<and> (err = None \<longrightarrow> (\<forall>leaseID \<in> set keys.
       staged_in (cq_store q) leaseID \<longrightarrow> map_of (dq_leases (cq_store q')) leaseID = None))"
proof (induction keys arbitrary: env q)
  case (Cons leaseID rest)
  obtain now o1 o2 where env: "env 0 = (now, o1, o2)" by (cases "env 0")
  obtain m e where m: "resolveAutomaticDiscoverySettlement now o1 o2 leaseID q = (m, e)"
    by (cases "resolveAutomaticDiscoverySettlement now o1 o2 leaseID q")
  have one: "swept 0 (cq_store q) (cq_store m) \<and>
      (\<forall>x. x \<noteq> leaseID \<and> staged_in (cq_store q) x \<longrightarrow> staged_in (cq_store m) x) \<and>
      (e = None \<and> staged_in (cq_store q) leaseID \<longrightarrow> map_of (dq_leases (cq_store m)) leaseID = None)"
    using m complete_swept [OF _ Cons.prems(2), of now o1 o2 leaseID]
    by (auto simp: resolveAutomaticDiscoverySettlement_def split: prod.splits)
  show ?case
  proof (cases e)
    case (Some x)
    then show ?thesis using Cons.prems(1) env m one by auto
  next
    case None
    then have rest: "resolve_settlements (\<lambda>n. env (Suc n)) rest m = (q', err)" using Cons.prems(1) env m by simp
    have wf: "wf_map (dq_leases (cq_store m))" using one Cons.prems(2) by (simp add: swept_def)
    note ih = Cons.IH [OF rest wf]
    have stays: "map_of (dq_leases (cq_store q')) x = None" if "map_of (dq_leases (cq_store m)) x = None" for x
      using ih that by (auto simp: swept_def map_of_eq_None_iff)
    have "swept (0 + 0) (cq_store q) (cq_store q')" using one ih swept_trans by blast
    moreover have "map_of (dq_leases (cq_store q')) x = None"
      if x: "err = None" "x \<in> set (leaseID # rest)" "staged_in (cq_store q) x" for x
      using one ih stays x None by (cases "x = leaseID") auto
    ultimately show ?thesis by simp
  qed
qed simp

section \<open>Chunks of a sweep\<close>

lemma requeue_chunk_leases:
  assumes run: "requeueLeaseChunk lib env match keys q = (q', r)" and wf: "wf_map (dq_leases (cq_store q))"
  shows "swept (length keys) (cq_store q) (cq_store q') \<and>
    (r = Inr b \<longrightarrow> set (dq_leases (cq_store q')) \<subseteq> set (without match keys (dq_leases (cq_store q))))"
proof -
  obtain m c where m: "vault_txn (ce_update env) (requeueLeaseBatchTx lib (ce_clock env) match keys) (cq_store q) = (m, c)"
    by fastforce
  from m show ?thesis
  proof (cases rule: vault_txn_cases)
    case (failed e)
    then show ?thesis using run m by (auto simp: requeueLeaseChunk_def split: prod.splits)
  next
    case (committed result)
    obtain removed staged where result: "result = (removed, staged)" by (cases result)
    note l = postD [OF requeue_batch_leases [OF wf] committed(1), unfolded result snd_conv]
    note s = postD [OF requeue_batch_swept [OF wf] committed(1)]
    let ?m = "q\<lparr>cq_store := m, cq_catalog := fold catalog_remove removed (cq_catalog q)\<rparr>"
    obtain q1 err where q1: "resolve_settlements (ce_resolve env) staged ?m = (q1, err)" by fastforce
    have end_state: "q' = q1" "r = Inr b \<Longrightarrow> err = None"
      using run m committed(2) result q1 by (auto simp: requeueLeaseChunk_def split: option.splits)
    have "wf_map (dq_leases (cq_store ?m))" using s wf by (simp add: swept_def)
    note all = resolve_all_swept [OF q1 this, simplified]
    have total: "swept (length keys) (cq_store q) (cq_store q')"
      using swept_trans [OF s conjunct1 [OF all]] end_state(1) by simp
    have "(leaseID, lease) \<in> set (without match keys (dq_leases (cq_store q)))"
      if r: "r = Inr b" and mem: "(leaseID, lease) \<in> set (dq_leases (cq_store q'))" for leaseID lease
    proof -
      have "map_of (dq_leases (cq_store q')) leaseID \<noteq> None"
        using mem by (metis domI dom_map_of_conv_image_fst image_eqI fst_conv domIff)
      then have "leaseID \<notin> set staged \<or> \<not> staged_in m leaseID" using all end_state r by auto
      then have plain: "leaseID \<in> set keys \<Longrightarrow> \<not> staged_in (cq_store q) leaseID"
        using l by (auto simp: staged_in_def)
      have "(leaseID, lease) \<in> set (dq_leases m)" using all mem end_state(1) by (auto simp: swept_def)
      then show ?thesis using l plain by (auto simp: without_def)
    qed
    then show ?thesis using total by auto
  qed
qed

lemma requeue_chunks_leases:
  "requeue_chunks lib env match keys q = (q', r) \<Longrightarrow> wf_map (dq_leases (cq_store q)) \<Longrightarrow>
     swept (length keys) (cq_store q) (cq_store q') \<and>
     (r = Inr () \<longrightarrow> set (dq_leases (cq_store q')) \<subseteq> set (without match keys (dq_leases (cq_store q))))"
proof (induction lib env match keys q rule: requeue_chunks.induct)
  case (1 lib env match keys q)
  let ?first = "take maximumLeaseRequeueChunk keys" and ?rest = "drop maximumLeaseRequeueChunk keys"
  obtain m c where m: "requeueLeaseChunk lib (env 0) match ?first q = (m, c)" by fastforce
  note first = requeue_chunk_leases [OF m "1.prems"(2)]
  consider (stop) "keys = [] \<or> ce_cancelled (env 0)" | (failed) e where "\<not> (keys = [] \<or> ce_cancelled (env 0))" "c = Inl e"
    | (more) b where "keys \<noteq> []" "\<not> ce_cancelled (env 0)" "c = Inr b"
    by (cases c) auto
  then show ?case
  proof cases
    case stop
    then show ?thesis using "1.prems" by (auto simp: requeue_chunks.simps [of lib env] split: if_splits)
  next
    case (failed e)
    then have "q' = m" "r = Inl e" using "1.prems"(1) m by (auto simp: requeue_chunks.simps [of lib env])
    then show ?thesis using first swept_more [of "length ?first"] by simp
  next
    case (more b)
    then have "requeue_chunks lib (\<lambda>n. env (Suc n)) match ?rest m = (q', r)"
      using "1.prems"(1) m by (simp add: requeue_chunks.simps [of lib env])
    moreover have "wf_map (dq_leases (cq_store m))" using first "1.prems"(2) by (simp add: swept_def)
    ultimately have rest: "swept (length ?rest) (cq_store m) (cq_store q') \<and>
       (r = Inr () \<longrightarrow> set (dq_leases (cq_store q')) \<subseteq> set (without match ?rest (dq_leases (cq_store m))))"
      using "1.IH" [OF more(1,2) m [symmetric] more(3)] by blast
    have sub: "set (dq_leases (cq_store m)) \<subseteq> set (without match ?first (dq_leases (cq_store q)))"
      using first more(3) by simp
    have "set (without match ?rest (dq_leases (cq_store m))) \<subseteq>
        set (without match ?rest (without match ?first (dq_leases (cq_store q))))"
      using sub by (auto simp: without_def)
    also have "without match ?rest (without match ?first (dq_leases (cq_store q))) =
        without match keys (dq_leases (cq_store q))" by (simp only: without_append append_take_drop_id)
    finally have keys: "set (without match ?rest (dq_leases (cq_store m))) \<subseteq>
        set (without match keys (dq_leases (cq_store q)))" .
    have "length ?first + length ?rest = length keys" by (metis append_take_drop_id length_append)
    then have "swept (length keys) (cq_store q) (cq_store q')" using swept_trans first rest by metis
    then show ?thesis using rest keys by blast
  qed
qed

lemma requeue_matching_leases:
  assumes run: "requeueLeasesMatching lib outcome env match q = (q', r)" and wf: "wf_map (dq_leases (cq_store q))"
  shows "swept (length (dq_leases (cq_store q))) (cq_store q) (cq_store q') \<and>
    (r = Inr () \<longrightarrow> list_all (\<lambda>(_, lease). \<not> match lease) (dq_leases (cq_store q')))"
proof (cases "outcome = Commits")
  case True
  let ?keys = "map fst (filter (\<lambda>(_, lease). match lease) (scan (dq_leases (cq_store q))))"
  have "length (scan (dq_leases (cq_store q))) = length (dq_leases (cq_store q))"
    by (simp add: scan_def map_keys_def)
  then have short: "length ?keys \<le> length (dq_leases (cq_store q))"
    using length_filter_le [of _ "scan (dq_leases (cq_store q))"] by (metis length_map)
  have "requeue_chunks lib env match ?keys q = (q', r)"
    using True run by (simp add: requeueLeasesMatching_def matchingLeaseKeys_def vault_view_def)
  note chunks = requeue_chunks_leases [OF this wf]
  have "(\<lambda>(_, lease). \<not> match lease) e" if "e \<in> set (without match ?keys (dq_leases (cq_store q)))" for e
    using that wf by (force simp: without_def set_scan dest: wf_map_SomeI)
  then show ?thesis using chunks swept_more [OF _ short] by (auto simp: list_all_iff)
next
  case False
  then show ?thesis using run by (auto simp: requeueLeasesMatching_def matchingLeaseKeys_def vault_view_def)
qed

lemma fewer_leases: "wf_map a \<Longrightarrow> set a \<subseteq> set b \<Longrightarrow> length a \<le> length b"
  using card_mono [of "set b" "set a"] card_length [of b] distinct_card [of a]
  by (simp add: wf_map_def distinct_map)

lemma migrate_one_core [simp]:
  "same_core d m \<Longrightarrow> post (migrateLeaseSettlementAtSequence sequence now m) (\<lambda>d' _. same_core d d')"
  by (auto simp: migrateLeaseSettlementAtSequence_def put_expiry_def Let_def same_core_def put_settlement_def
      split: option.splits)

lemma migrate_core:
  "same_core d m \<Longrightarrow> post (migrate_settlements n cursor next_number now m) (\<lambda>d' _. same_core d d')"
proof (induction n arbitrary: cursor m)
  case (Suc n)
  have "post (migrateLeaseSettlementAtSequence cursor now m)
      (\<lambda>d' _. post (migrate_settlements n (cursor + 1) next_number now d') (\<lambda>d' _. same_core d d'))"
    by (rule post_mono [OF migrate_one_core [OF Suc.prems]]) (rule Suc.IH)
  with Suc.prems show ?case by simp
qed simp

lemma requeue_terminal_leases:
  "post (requeueTerminalLeaseTx lib leaseID identity d) (\<lambda>d' _. set (dq_leases d') \<subseteq> set (dq_leases d))"
  by (auto simp: requeueTerminalLeaseTx_def case_prod_unfold delete_lease_def enqueue_store AList.delete_eq
      split: option.splits)

lemma delete_expired_one_leases:
  "post (deleteExpiredLeaseSettlementTx lib key leaseID d) (\<lambda>d' _. set (dq_leases d') \<subseteq> set (dq_leases d))"
  by (auto simp: deleteExpiredLeaseSettlementTx_def expireTerminalLeaseSettlementTx_def Let_def
      deleteTerminalLeaseSettlementTx_def deleteLeaseSettlementRetentionTx_def
      intro!: post_mono [OF requeue_terminal_leases] split: option.splits)

lemma delete_expired_leases:
  "post (delete_expired lib entries d) (\<lambda>d' _. set (dq_leases d') \<subseteq> set (dq_leases d))"
proof (induction entries arbitrary: d)
  case (Cons entry rest)
  obtain key leaseID where entry: "entry = (key, leaseID)" by (cases entry)
  show ?case unfolding entry delete_expired.simps post_bind
    by (rule post_mono [OF delete_expired_one_leases], rule post_mono [OF Cons.IH]) auto
qed simp

lemma expire_settlements_leases:
  assumes run: "expireLeaseSettlements lib outcome now d = (d', r)"
  shows "set (dq_leases d') \<subseteq> set (dq_leases d)" and "accounted 256 {#} {#} d d'"
proof -
  obtain m c where m: "migrateLeaseSettlementExpiry (outcome 0) (outcome 1) now d = (m, c)" by fastforce
  have chunk: "same_core d m \<and> same_work d m"
    if "vault_txn o2 (migrateLeaseSettlementChunkTx cursor next_number now) d = (m, c')" for o2 cursor next_number c'
    using that
  proof (cases rule: vault_txn_cases)
    case (committed r')
    have "post (migrateLeaseSettlementChunkTx cursor next_number now d) (\<lambda>d' _. same_core d d')"
      by (simp add: migrateLeaseSettlementChunkTx_def migrate_core)
    then show ?thesis using committed postD [OF migrate_chunk_work] by fastforce
  qed simp
  have "same_core d m \<and> same_work d m"
    using m chunk by (auto simp: migrateLeaseSettlementExpiry_def split: sum.splits if_splits)
  then have first: "dq_leases m = dq_leases d" "same_work d m" by (simp_all add: same_core_def)
  obtain m' c' where m': "vault_txn (outcome 3)
      (\<lambda>d. delete_expired lib (expiredLeaseSettlementCandidates now d) d) m = (m', c')" by fastforce
  have second: "set (dq_leases m') \<subseteq> set (dq_leases m) \<and> accounted 256 {#} {#} m m'"
    using m'
  proof (cases rule: vault_txn_cases)
    case (committed r')
    have "length (expiredLeaseSettlementCandidates now m) \<le> 256"
      by (simp add: expiredLeaseSettlementCandidates_def maximumLeaseSettlementRetentionChunk_def)
    then show ?thesis
      using postD [OF delete_expired_leases committed(1)] postD [OF delete_expired_accounted committed(1)]
      by (auto intro: accounted_more)
  qed (simp add: accounted_same)
  have "d' = m \<or> d' = m'"
    using run m m' by (auto simp: expireLeaseSettlements_def deleteExpiredLeaseSettlements_def
        split: sum.splits bool.splits)
  then show "set (dq_leases d') \<subseteq> set (dq_leases d)" "accounted 256 {#} {#} d d'"
    using first second by (auto intro: accounted_before_same accounted_same)
qed

lemma sweep_fate:
  assumes run: "sweepExpired cfg env now later q = (q', r)" and wf: "queue_wf (cq_store q)"
  shows "\<exists>ended. accounted (2 * length (dq_leases (cq_store q)) + 256) {#} ended (cq_store q) (cq_store q') \<and>
      ended \<subseteq># staged_orders (cq_store q)"
    and "r = Inr () \<Longrightarrow> list_all (\<lambda>(_, lease). \<not> lease_expired now lease \<and> \<not> lease_abandoned cfg later lease)
      (dq_leases (cq_store q'))"
proof -
  let ?n = "length (dq_leases (cq_store q))"
  obtain q1 r1 where r1: "requeueLeasesMatching (qc_lib cfg) (fst (se_expired env)) (snd (se_expired env))
      (lease_expired now) q = (q1, r1)" by fastforce
  obtain q2 r2 where r2: "requeueLeasesMatching (qc_lib cfg) (fst (se_abandoned env)) (snd (se_abandoned env))
      (lease_abandoned cfg later) q1 = (q2, r2)" by fastforce
  obtain d3 r3 where r3: "expireLeaseSettlements (qc_lib cfg) (se_settlements env) now (cq_store q2) = (d3, r3)"
    by fastforce
  note s1 = requeue_matching_leases [OF r1 queue_wf_leases [OF wf]]
  have wf1: "wf_map (dq_leases (cq_store q1))" using s1 queue_wf_leases [OF wf] by (simp add: swept_def)
  note s2 = requeue_matching_leases [OF r2 wf1]
  note s3 = expire_settlements_leases [OF r3]
  have "length (dq_leases (cq_store q1)) \<le> ?n" using fewer_leases wf1 s1 by (blast dest: swept_def [THEN iffD1])
  then have a2: "swept ?n (cq_store q1) (cq_store q2)" using s2 swept_more by blast
  have a12: "swept (2 * ?n) (cq_store q) (cq_store q2)" using swept_trans [OF conjunct1 [OF s1] a2] by (simp add: mult_2)
  have ends: "cq_store q' = cq_store q1 \<and> r \<noteq> Inr () \<or> cq_store q' = cq_store q2 \<and> r \<noteq> Inr () \<or>
      cq_store q' = d3 \<and> r1 = Inr () \<and> r2 = Inr ()"
    using run r1 r2 r3 by (auto simp: sweepExpired_def reclaimAbandonedLeases_def split: sum.splits)
  have staged: "\<exists>ended. accounted n {#} ended (cq_store q) x \<and> ended \<subseteq># staged_orders (cq_store q)"
    if "swept n (cq_store q) x" for n x
    using that unfolding swept_def by (metis subset_mset.order_trans mset_subset_eq_add_right)
  have "\<exists>ended. accounted (2 * ?n + 256) {#} ended (cq_store q) d3 \<and> ended \<subseteq># staged_orders (cq_store q)"
    using staged [OF a12] accounted_trans [OF _ s3(2)] by fastforce
  then show "\<exists>ended. accounted (2 * ?n + 256) {#} ended (cq_store q) (cq_store q') \<and> ended \<subseteq># staged_orders (cq_store q)"
    using ends staged [OF swept_more [OF a12, of "2 * ?n + 256"]]
      staged [OF swept_more [OF conjunct1 [OF s1], of "2 * ?n + 256"]] by auto
  assume "r = Inr ()"
  with ends have q': "cq_store q' = d3" "r1 = Inr ()" "r2 = Inr ()" by auto
  have "set (dq_leases (cq_store q2)) \<subseteq> set (dq_leases (cq_store q1))" using a2 by (simp add: swept_def)
  then show "list_all (\<lambda>(_, lease). \<not> lease_expired now lease \<and> \<not> lease_abandoned cfg later lease) (dq_leases (cq_store q'))"
    using s1 s2 s3(1) q' by (fastforce simp: list_all_iff)
qed

section \<open>Acknowledging a lease\<close>

lemma store_settlement_outcome:
  "post (storeLeaseSettlement now leaseID entry d) (\<lambda>d' _.
     map_option ls_Outcome (map_of (dq_leaseSettlements d') leaseID) = Some (ls_Outcome entry))"
  by (auto simp: storeLeaseSettlement_def put_expiry_def Let_def case_prod_unfold put_order_def put_settlement_def
      sameTerminalLeaseSettlement_def split: option.splits)

lemma requeue_remembered:
  assumes "wf_map (dq_leases d)" and "map_of (dq_discoverySettlements d) leaseID = None"
    and run: "requeueLeaseTx lib now match leaseID d = Inr (d', Some lease)"
  shows "map_of (dq_leases d') leaseID = None" and "map_of (dq_discoverySettlements d') leaseID = None"
    and "map_option ls_Outcome (map_of (dq_leaseSettlements d') leaseID) = Some LeaseSettlementRequeued"
proof -
  have found: "map_of (dq_leases d) leaseID = Some lease" "match lease"
    using run by (auto simp: requeueLeaseTx_def case_prod_unfold bind_tx_def split: option.splits if_splits sum.splits)
  have "dq_leases d' = without match [leaseID] (dq_leases d) \<and> dq_discoverySettlements d' = dq_discoverySettlements d"
    using postD [OF requeue_leases [OF assms(1)] run] .
  then show "map_of (dq_leases d') leaseID = None" "map_of (dq_discoverySettlements d') leaseID = None"
    using found assms(2) by (simp_all add: without_one [OF assms(1)])
  show "map_option ls_Outcome (map_of (dq_leaseSettlements d') leaseID) = Some LeaseSettlementRequeued"
    using run postD [OF store_settlement_outcome]
    by (auto simp: requeueLeaseTx_def recordLeaseSettlement_def case_prod_unfold bind_tx_def plain_settlement_def
        split: option.splits if_splits sum.splits prod.splits) (metis leaseSettlementRecord.select_convs(1))+
qed

lemma settled_lease_refused:
  assumes gone: "map_of (dq_leases (cq_store q)) leaseID = None" "map_of (dq_discoverySettlements (cq_store q)) leaseID = None"
    and requeued: "map_option ls_Outcome (map_of (dq_leaseSettlements (cq_store q)) leaseID) = Some LeaseSettlementRequeued"
  shows "ackLeaseWithTargetLocked lib outcome clock leaseID w s owner q = (q', r) \<Longrightarrow>
      q' = q \<and> (r = Inl LeaseDispositionConflict \<or> r = Inl VaultFailed)"
    and "deferLeaseLocked outcome clock leaseID w s owner q = (q'', r') \<Longrightarrow>
      q'' = q \<and> (r' = Inl LeaseDispositionConflict)"
proof -
  have stage: "stageAcknowledgmentTx lib now leaseID w s owner (cq_store q) = Inr (cq_store q, False)" for now
    using gone by (simp add: stageAcknowledgmentTx_def)
  have ack: "acknowledgeLeaseTx lib clock leaseID w s owner (cq_store q) = Inl LeaseDispositionConflict" for clock
    using gone requeued by (auto simp: acknowledgeLeaseTx_def requireLeaseSettlement_def Let_def bind_tx_def)
  have complete: "completeSettlementTx now leaseID (cq_store q) = Inr (cq_store q, None)" for now
    using gone by (simp add: completeSettlementTx_def)
  show "ackLeaseWithTargetLocked lib outcome clock leaseID w s owner q = (q', r) \<Longrightarrow>
      q' = q \<and> (r = Inl LeaseDispositionConflict \<or> r = Inl VaultFailed)"
    by (auto simp: ackLeaseWithTargetLocked_def vault_txn_def stage ack complete
        completeAutomaticDiscoverySettlement_def catalog_after_settlement_def Let_def split: if_splits)
  have nak: "negativeAcknowledgmentTx clock leaseID w s owner (cq_store q) = Inl LeaseDispositionConflict"
    using gone by (simp add: negativeAcknowledgmentTx_def negativeAcknowledgmentLease_def)
  show "deferLeaseLocked outcome clock leaseID w s owner q = (q'', r') \<Longrightarrow>
      q'' = q \<and> (r' = Inl LeaseDispositionConflict)"
    by (auto simp: deferLeaseLocked_def vault_txn_def nak)
qed

lemma record_new_settlement:
  assumes "map_of (dq_leaseSettlements d) leaseID = None" and "now > 0"
  shows "\<exists>d' entry. recordLeaseSettlement now leaseID outcome d = Inr (d', ()) \<and>
    map_of (dq_leaseSettlements d') leaseID = Some entry \<and> ls_Outcome entry = outcome \<and> \<not> ls_Terminal entry \<and>
    ls_SettledAtUnixNano entry = now \<and> map_of (dq_settlementOrder d') (ls_Sequence entry) = Some leaseID \<and>
    dq_controlTargets d' = dq_controlTargets d \<and> same_core d d' \<and> same_work d d'"
proof -
  obtain m sequence where m: "reserveLeaseSettlementSequenceTx d = (m, sequence)" by fastforce
  have kept: "dq_leaseSettlements m = dq_leaseSettlements d" "dq_controlTargets m = dq_controlTargets d"
    using m by (auto simp: reserveLeaseSettlementSequenceTx_def Let_def seq_put_def)
  have "same_core d m" using same_core_history(8) [of d d] m by simp
  moreover have "same_work d m" using m by (simp add: same_work_reserved)
  ultimately show ?thesis
    using assms m kept by (simp add: recordLeaseSettlement_def storeLeaseSettlement_def plain_settlement_def put_expiry_def
        leaseSettlementExpiryKey_def Let_def put_order_def put_settlement_def bind_tx_def
        same_core_def same_work_def lease_orders_def seq_get_def)
qed

text \<open>What an acknowledgment leaves behind.\<close>

definition acknowledged_in :: "durable \<Rightarrow> string \<Rightarrow> leaseControlTarget \<Rightarrow> go_time \<Rightarrow> bool" where
  "acknowledged_in d leaseID target settled_at \<longleftrightarrow> map_of (dq_leases d) leaseID = None \<and>
     map_of (dq_controlTargets d) leaseID = Some target \<and>
     (\<exists>entry. map_of (dq_leaseSettlements d) leaseID = Some entry \<and> ls_Outcome entry = LeaseSettlementAcknowledged \<and>
        \<not> ls_Terminal entry \<and> ls_SettledAtUnixNano entry = settled_at \<and>
        map_of (dq_settlementOrder d) (ls_Sequence entry) = Some leaseID)"

lemma acknowledge_by_owner:
  assumes lease: "map_of (dq_leases d) leaseID = Some lease" and live: "liveLeaseOwnedBy lease w s (clock 0)"
    and target: "controlTargetFromLease lib lease = Inr target" and run: "lt_RunID target \<noteq> []"
    and new: "map_of (dq_leaseSettlements d) leaseID = None" and "clock 1 > 0"
  shows "\<exists>d'. acknowledgeLeaseTx lib clock leaseID w s True d = Inr (d', target, Some lease) \<and>
    acknowledged_in d' leaseID target (clock 1) \<and> dq_discoverySettlements d' = dq_discoverySettlements d"
proof -
  let ?m = "releaseLeasedAutomaticDiscoveryTx leaseID lease (delete_lease leaseID (put_target leaseID target d))"
  have worker: "lt_WorkerID target \<noteq> []" "\<not> lr_Deferred lease"
    using live target by (auto simp: liveLeaseOwnedBy_def controlTargetFromLease_def split: sum.splits)
  have m: "dq_leases ?m = AList.delete leaseID (dq_leases d)" "map_of (dq_controlTargets ?m) leaseID = Some target"
    "dq_leaseSettlements ?m = dq_leaseSettlements d" "dq_discoverySettlements ?m = dq_discoverySettlements d"
    by (simp_all add: releaseLeasedAutomaticDiscoveryTx_def delete_lease_def put_target_def)
  then have "map_of (dq_leaseSettlements ?m) leaseID = None" using new by simp
  from record_new_settlement [OF this \<open>clock 1 > 0\<close>, of LeaseSettlementAcknowledged] obtain d' entry where
    d': "recordLeaseSettlement (clock 1) leaseID LeaseSettlementAcknowledged ?m = Inr (d', ())"
    and entry: "map_of (dq_leaseSettlements d') leaseID = Some entry" "ls_Outcome entry = LeaseSettlementAcknowledged"
      "\<not> ls_Terminal entry" "ls_SettledAtUnixNano entry = clock 1"
      "map_of (dq_settlementOrder d') (ls_Sequence entry) = Some leaseID"
    and kept: "dq_controlTargets d' = dq_controlTargets ?m" "same_core ?m d'" by blast
  have "acknowledgeLeaseTx lib clock leaseID w s True d = Inr (d', target, Some lease)"
    using lease live target run worker d' by (simp add: acknowledgeLeaseTx_def Let_def bind_tx_def)
  then show ?thesis using entry kept m by (simp add: acknowledged_in_def same_core_def)
qed

text \<open>The settlement of a discovered address is completed and released after its acknowledgment.\<close>

definition acknowledgment_intent :: "leaseRecord \<Rightarrow> leaseControlTarget \<Rightarrow> settlementIntent" where
  "acknowledgment_intent lease target =
     \<lparr>si_Lease = lease, si_Target = target, si_Settlement = plain_settlement LeaseSettlementAcknowledged\<rparr>"

lemma complete_acknowledged:
  assumes ack: "acknowledged_in d leaseID target settled_at" and "settled_at > 0"
    and intent: "map_of (dq_discoverySettlements d) leaseID = Some (acknowledgment_intent lease target)"
    and named: "lt_WorkerID target \<noteq> []" "lt_RunID target \<noteq> []"
  shows "\<exists>d' entry. completeAutomaticDiscoverySettlement now Commits Commits leaseID d =
      (d', Some (acknowledgment_intent lease target, entry), None) \<and>
    acknowledged_in d' leaseID target settled_at \<and> map_of (dq_discoverySettlements d') leaseID = None \<and> same_work d d'"
proof -
  obtain entry where entry: "map_of (dq_leaseSettlements d) leaseID = Some entry" "ls_Outcome entry = LeaseSettlementAcknowledged"
      "\<not> ls_Terminal entry" "ls_SettledAtUnixNano entry = settled_at"
      "map_of (dq_settlementOrder d) (ls_Sequence entry) = Some leaseID"
    and gone: "map_of (dq_leases d) leaseID = None" "map_of (dq_controlTargets d) leaseID = Some target"
    using ack by (auto simp: acknowledged_in_def)
  let ?i = "acknowledgment_intent lease target"
  let ?a = "releaseLeasedAutomaticDiscoveryTx leaseID lease (put_target leaseID target d)"
  have a: "dq_leases ?a = dq_leases d" "map_of (dq_controlTargets ?a) leaseID = Some target"
    "dq_leaseSettlements ?a = dq_leaseSettlements d" "dq_settlementOrder ?a = dq_settlementOrder d"
    "dq_discoverySettlements ?a = dq_discoverySettlements d" "same_work d ?a"
    by (simp_all add: put_target_def releaseLeasedAutomaticDiscoveryTx_def)
  let ?b = "put_order (ls_Sequence entry) leaseID (restoreSettlementSequencesTx (ls_Sequence entry) ?a)"
  let ?c = "?b\<lparr>dq_settlementExpiry := AList.update (settled_at, ls_Sequence entry) leaseID (dq_settlementExpiry ?b)\<rparr>"
  have b: "dq_leases ?b = dq_leases d" "dq_controlTargets ?b = dq_controlTargets ?a"
    "dq_leaseSettlements ?b = dq_leaseSettlements d" "dq_discoverySettlements ?b = dq_discoverySettlements d"
    "map_of (dq_settlementOrder ?b) (ls_Sequence entry) = Some leaseID" "same_work d ?b"
    using a by (simp_all add: put_order_def restoreSettlementSequencesTx_def Let_def seq_put_def same_work_def
        lease_orders_def seq_get_def get_or_update)
  have ensure: "ensureLeaseSettlementTx now leaseID (plain_settlement LeaseSettlementAcknowledged) ?a = Inr (?c, entry)"
    using a entry \<open>settled_at > 0\<close>
    by (simp add: ensureLeaseSettlementTx_def settlementConflicts_def plain_settlement_def
        relocateSettlementSequenceTx_def Let_def put_expiry_def leaseSettlementExpiryKey_def bind_tx_def)
  let ?d = "releaseActiveAutomaticDiscoveryTx lease ?c"
  let ?e = "?d\<lparr>dq_discoverySettlements := AList.delete leaseID (dq_discoverySettlements ?d)\<rparr>"
  have tx: "completeSettlementTx now leaseID d = Inr (?d, Some (?i, entry))"
    using intent gone named ensure
    by (simp add: completeSettlementTx_def removeRetainedLeaseTx_def acknowledgment_intent_def bind_tx_def)
  have run: "completeAutomaticDiscoverySettlement now Commits Commits leaseID d = (?e, Some (?i, entry), None)"
    by (simp add: completeAutomaticDiscoverySettlement_def vault_txn_def tx)
  have "dq_leases ?e = dq_leases ?b" "dq_controlTargets ?e = dq_controlTargets ?b"
    "dq_leaseSettlements ?e = dq_leaseSettlements ?b" "dq_settlementOrder ?e = dq_settlementOrder ?b"
    by (simp_all add: releaseActiveAutomaticDiscoveryTx_def)
  then have "acknowledged_in ?e leaseID target settled_at"
    using b gone entry a(2) unfolding acknowledged_in_def by simp
  moreover have "map_of (dq_discoverySettlements ?e) leaseID = None" by (simp add: delete_conv')
  moreover have "same_work d ?e" using b(6) by simp
  ultimately show ?thesis using run by blast
qed

lemma acknowledged_again:
  assumes "acknowledged_in (cq_store q) leaseID target settled_at" "settled_at > 0"
    and "map_of (dq_discoverySettlements (cq_store q)) leaseID = None"
    and "later 1 < settled_at + leaseSettlementRetention"
  shows "ackLeaseWithOwner lib (\<lambda>_. Commits) later leaseID w s q = (q, Inr target)"
proof -
  obtain entry where entry: "map_of (dq_leaseSettlements (cq_store q)) leaseID = Some entry"
      "ls_Outcome entry = LeaseSettlementAcknowledged" "\<not> ls_Terminal entry" "ls_SettledAtUnixNano entry = settled_at"
    and gone: "map_of (dq_leases (cq_store q)) leaseID = None"
      "map_of (dq_controlTargets (cq_store q)) leaseID = Some target"
    using assms(1) by (auto simp: acknowledged_in_def)
  have "stageAcknowledgmentTx lib now leaseID w s True (cq_store q) = Inr (cq_store q, False)" for now
    using gone assms(3) by (simp add: stageAcknowledgmentTx_def)
  moreover have "acknowledgeLeaseTx lib (\<lambda>n. later (n + 1)) leaseID w s True (cq_store q) =
      Inr (cq_store q, target, None)"
    using entry gone assms(2,4) by (simp add: acknowledgeLeaseTx_def requireLeaseSettlement_def Let_def bind_tx_def)
  moreover have "completeAutomaticDiscoverySettlement now Commits Commits leaseID (cq_store q) = (cq_store q, None, None)" for now
    using assms(3) by (simp add: completeAutomaticDiscoverySettlement_def completeSettlementTx_def vault_txn_def)
  ultimately show ?thesis
    by (simp add: ackLeaseWithOwner_def ackLeaseWithTargetLocked_def vault_txn_def catalog_after_settlement_def Let_def)
qed

section \<open>Claims\<close>

text \<open>An order of normal priority that no other normal order precedes.\<close>

definition first_normal :: "pendingOrderHead \<Rightarrow> durable \<Rightarrow> bool" where
  "first_normal n d \<longleftrightarrow> \<not> ph_automatic n \<and> map_of (dq_orders d) (ph_key n) = Some (ph_data n) \<and>
     ph_key n \<in> set (map_keys (dq_normalIndex d)) \<and> ph_key n \<notin> set (map_keys (dq_automaticIndex d)) \<and>
     list_all (\<lambda>key. key < ph_key n \<longrightarrow> map_of (dq_orders d) key = None) (map_keys (dq_normalIndex d))"

lemma pending_head_skips:
  "pending_head orders automatic keys = (head, stale) \<Longrightarrow>
     (case head of None \<Rightarrow> \<forall>key \<in> set keys. map_of orders key = None
      | Some h \<Rightarrow> \<exists>rest. keys = stale @ ph_key h # rest \<and> ph_automatic h = automatic) \<and>
     (\<forall>key \<in> set stale. key \<in> set keys \<and> map_of orders key = None)"
  by (induction orders automatic keys arbitrary: stale rule: pending_head.induct)
    (auto split: option.splits prod.splits)

lemma scan_keys: "map fst (scan m) = sort (map_keys m)"
  by (simp add: scan_def comp_def)

lemma first_normal_head:
  assumes "first_normal n d" and "pendingHead d False = (head, stale)"
  shows "head = Some n"
proof -
  have run: "pending_head (dq_orders d) False (sort (map_keys (dq_normalIndex d))) = (head, stale)"
    using assms(2) by (simp add: pendingHead_def scan_keys)
  have n: "ph_key n \<in> set (map_keys (dq_normalIndex d))" "map_of (dq_orders d) (ph_key n) = Some (ph_data n)"
    using assms(1) by (simp_all add: first_normal_def)
  note skips = pending_head_skips [OF run]
  obtain h where h: "head = Some h" using skips n by (cases head) auto
  then obtain rest where rest: "sort (map_keys (dq_normalIndex d)) = stale @ ph_key h # rest" "\<not> ph_automatic h"
    using skips by auto
  have data: "map_of (dq_orders d) (ph_key h) = Some (ph_data h)"
    using pending_head_found run h by blast
  have "ph_key h \<in> set (map_keys (dq_normalIndex d))" using arg_cong [OF rest(1), of set] by auto
  then have "\<not> ph_key h < ph_key n" using assms(1) data by (auto simp: first_normal_def list_all_iff)
  moreover have "\<not> ph_key n < ph_key h"
  proof
    assume less: "ph_key n < ph_key h"
    have "sorted (stale @ ph_key h # rest)" unfolding rest(1) [symmetric] by simp
    then have "ph_key n \<notin> set (ph_key h # rest)" using less by (auto simp: sorted_append)
    then have "ph_key n \<in> set stale" using n(1) arg_cong [OF rest(1), of set] by auto
    then show False using skips n(2) by auto
  qed
  ultimately have "ph_key h = ph_key n" by simp
  then show ?thesis using h rest(2) data n(2) assms(1)
    by (simp add: first_normal_def pendingOrderHead.equality)
qed

lemma automatic_head_other:
  assumes "first_normal n d" and "pendingHead d True = (Some a, stale)"
  shows "ph_key a \<noteq> ph_key n" and "ph_automatic a"
proof -
  have "pending_head (dq_orders d) True (sort (map_keys (dq_automaticIndex d))) = (Some a, stale)"
    using assms(2) by (simp add: pendingHead_def scan_keys)
  from pending_head_skips [OF this] obtain rest where
    rest: "sort (map_keys (dq_automaticIndex d)) = stale @ ph_key a # rest" "ph_automatic a" by auto
  have "ph_key a \<in> set (map_keys (dq_automaticIndex d))" using arg_cong [OF rest(1), of set] by auto
  then show "ph_key a \<noteq> ph_key n" using assms(1) by (auto simp: first_normal_def)
  show "ph_automatic a" by (rule rest(2))
qed

lemma prune_normal:
  "dq_normalIndex (prunePriorityIndexEntries False keys d) = fold AList.delete keys (dq_normalIndex d)"
  "dq_automaticIndex (prunePriorityIndexEntries False keys d) = dq_automaticIndex d"
  "dq_normalIndex (prunePriorityIndexEntries True keys d) = dq_normalIndex d"
  "dq_automaticIndex (prunePriorityIndexEntries True keys d) = fold AList.delete keys (dq_automaticIndex d)"
  "dq_seq (prunePriorityIndexEntries automatic keys d) = dq_seq d"
  unfolding prunePriorityIndexEntries_def by (induction keys arbitrary: d) (auto simp: index_delete_def)

lemma keys_delete: "set (map_keys (AList.delete k m)) = set (map_keys m) - {k}"
  by (auto simp: map_keys_def AList.delete_eq)

lemma keys_fold_delete: "set (map_keys (fold AList.delete keys m)) = set (map_keys m) - set keys"
  by (induction keys arbitrary: m) (auto simp: keys_delete)

lemma first_normal_fewer:
  assumes "first_normal n d" and "map_of (dq_orders d') (ph_key n) = map_of (dq_orders d) (ph_key n)"
    and "set (map_keys (dq_orders d')) \<subseteq> set (map_keys (dq_orders d))"
    and "set (map_keys (dq_normalIndex d')) \<subseteq> set (map_keys (dq_normalIndex d))"
    and "set (map_keys (dq_automaticIndex d')) \<subseteq> set (map_keys (dq_automaticIndex d))"
    and "ph_key n \<in> set (map_keys (dq_normalIndex d'))"
  shows "first_normal n d'"
  using assms by (auto simp: first_normal_def list_all_iff set_map_keys) blast+

lemma queue_of_discovery [simp]:
  "dq_orders (set_lease leaseID lease d) = dq_orders d" "dq_normalIndex (set_lease leaseID lease d) = dq_normalIndex d"
  "dq_automaticIndex (set_lease leaseID lease d) = dq_automaticIndex d" "dq_seq (set_lease leaseID lease d) = dq_seq d"
  "dq_orders (set_active key sequence d) = dq_orders d" "dq_normalIndex (set_active key sequence d) = dq_normalIndex d"
  "dq_automaticIndex (set_active key sequence d) = dq_automaticIndex d" "dq_seq (set_active key sequence d) = dq_seq d"
  "dq_orders (recordLeasedAutomaticDiscoveryTx key leaseID d) = dq_orders d"
  "dq_normalIndex (recordLeasedAutomaticDiscoveryTx key leaseID d) = dq_normalIndex d"
  "dq_automaticIndex (recordLeasedAutomaticDiscoveryTx key leaseID d) = dq_automaticIndex d"
  "dq_seq (recordLeasedAutomaticDiscoveryTx key leaseID d) = dq_seq d"
  by (simp_all add: set_lease_def set_active_def recordLeasedAutomaticDiscoveryTx_def)

definition same_queue :: "durable \<Rightarrow> durable \<Rightarrow> bool" where
  "same_queue d d' \<longleftrightarrow> dq_orders d' = dq_orders d \<and> dq_normalIndex d' = dq_normalIndex d \<and>
     dq_automaticIndex d' = dq_automaticIndex d \<and> dq_seq d' = dq_seq d"

lemma discard_queue:
  "post (discardDuplicateTx lib head d) (\<lambda>d' discarded.
     if discarded then ph_automatic head \<and> same_queue (delete_pending head d) d' else d' = d)"
  by (auto simp: discardDuplicateTx_def Let_def same_queue_def split: sum.splits option.splits)

lemma persist_queue:
  "post (persistLeaseTx lib head leaseID lease burst update d) (\<lambda>d' _.
     same_queue (delete_pending head (if update then seq_put PriorityBurst burst d else d)) d')"
  by (auto simp: persistLeaseTx_def Let_def same_queue_def split: sum.splits option.splits)

lemma first_normal_delete_automatic:
  assumes "first_normal n d" and "ph_automatic a" and "ph_key a \<noteq> ph_key n"
  shows "first_normal n (delete_pending a d)"
  by (rule first_normal_fewer [OF assms(1)])
    (use assms in \<open>auto simp: delete_pending_def index_delete_def keys_delete first_normal_def\<close>)

lemma first_normal_same: "same_queue d d' \<Longrightarrow> first_normal n d' = first_normal n d"
  by (simp add: same_queue_def first_normal_def)

lemma first_normal_burst [simp]: "first_normal n (seq_put k b d) = first_normal n d"
  by (simp add: seq_put_def first_normal_def)

text \<open>Who goes before a normal order: a discovered address while the burst lasts, or, when the queue does
  not prefer them, an older one.\<close>

definition goes_first :: "bool \<Rightarrow> u64 \<Rightarrow> pendingOrderHead \<Rightarrow> pendingOrderHead \<Rightarrow> bool" where
  "goes_first prioritize burst a n \<longleftrightarrow>
     (if prioritize then burst < AutomaticDiscoveryPriorityBurst else ph_key a < ph_key n)"

lemma select_first_normal:
  assumes n: "first_normal n d" and sel: "selectPendingOrder prioritize d = (d', choice, next_burst, update)"
  shows "first_normal n d'" and "seq_get d' PriorityBurst = seq_get d PriorityBurst"
    and "choice = Some n \<or> (\<exists>a. choice = Some a \<and> ph_automatic a \<and> ph_key a \<noteq> ph_key n \<and>
      goes_first prioritize (seq_get d PriorityBurst) a n \<and>
      (prioritize \<longrightarrow> update \<and> next_burst = seq_get d PriorityBurst + 1))"
proof -
  obtain normal stale where normal: "pendingHead d False = (normal, stale)" by fastforce
  obtain automatic stale' where automatic: "pendingHead d True = (automatic, stale')" by fastforce
  have head: "normal = Some n" by (rule first_normal_head [OF n normal])
  let ?d = "prunePriorityIndexEntries True stale' (prunePriorityIndexEntries False stale d)"
  have seqs: "dq_seq ?d = dq_seq d" by (simp add: prune_normal)
  have d': "d' = ?d" "(choice, next_burst, update) = choose_head prioritize (seq_get d PriorityBurst) normal automatic"
    using sel normal automatic seqs by (auto simp: selectPendingOrder_def Let_def seq_get_def)
  have "ph_key n \<notin> set stale"
  proof -
    have "pending_head (dq_orders d) False (sort (map_keys (dq_normalIndex d))) = (normal, stale)"
      using normal by (simp add: pendingHead_def scan_keys)
    from pending_head_skips [OF this] show ?thesis using n by (auto simp: first_normal_def)
  qed
  then show "first_normal n d'" unfolding d'(1)
    by (intro first_normal_fewer [OF n]) (use n in \<open>auto simp: prune_normal keys_fold_delete first_normal_def\<close>)
  show "seq_get d' PriorityBurst = seq_get d PriorityBurst" unfolding d'(1) by (simp add: seq_get_def seqs)
  show "choice = Some n \<or> (\<exists>a. choice = Some a \<and> ph_automatic a \<and> ph_key a \<noteq> ph_key n \<and>
      goes_first prioritize (seq_get d PriorityBurst) a n \<and>
      (prioritize \<longrightarrow> update \<and> next_burst = seq_get d PriorityBurst + 1))"
  proof (cases automatic)
    case None
    then show ?thesis using d'(2) head by (simp add: choose_head_def)
  next
    case (Some a)
    have "ph_key a \<noteq> ph_key n" "ph_automatic a" using automatic_head_other [OF n] automatic Some by auto
    then show ?thesis using d'(2) head Some by (auto simp: choose_head_def goes_first_def split: if_splits)
  qed
qed

lemma claim_step:
  assumes n: "first_normal n d" and run: "claim_tx cfg now leaseID w s d = Inr (d', found)"
  shows "(case found of
      None \<Rightarrow> first_normal n d' \<and> seq_get d' PriorityBurst = seq_get d PriorityBurst
    | Some (head, _) \<Rightarrow> head = n \<or> first_normal n d' \<and>
        goes_first (qc_prioritizeAutomatic cfg) (seq_get d PriorityBurst) head n \<and>
        (qc_prioritizeAutomatic cfg \<longrightarrow> seq_get d' PriorityBurst = seq_get d PriorityBurst + 1))"
proof -
  let ?p = "qc_prioritizeAutomatic cfg"
  obtain m choice next_burst update where sel: "selectPendingOrder ?p d = (m, choice, next_burst, update)"
    by (cases "selectPendingOrder ?p d") auto
  note m = select_first_normal [OF n sel]
  obtain head where head: "choice = Some head" using m(3) by auto
  have kind: "head = n \<or> ph_automatic head \<and> ph_key head \<noteq> ph_key n \<and>
      goes_first ?p (seq_get d PriorityBurst) head n \<and> (?p \<longrightarrow> update \<and> next_burst = seq_get d PriorityBurst + 1)"
    using m(3) head by auto
  have "\<not> ph_automatic n" using n by (simp add: first_normal_def)
  obtain m' discarded where disc: "discardDuplicateTx (qc_lib cfg) head m = Inr (m', discarded)"
    using run sel head by (auto simp: claim_tx_def bind_tx_def split: sum.splits prod.splits)
  note discard = postD [OF discard_queue disc]
  show ?thesis
  proof (cases discarded)
    case True
    then have auto: "ph_automatic head" "same_queue (delete_pending head m) m'" using discard by simp_all
    then have "ph_key head \<noteq> ph_key n" using kind \<open>\<not> ph_automatic n\<close> by auto
    then have "first_normal n m'"
      using first_normal_delete_automatic [OF m(1) auto(1)] first_normal_same [OF auto(2)] by simp
    moreover have "dq_seq m' = dq_seq m"
      using auto(2) by (simp add: same_queue_def delete_pending_def index_delete_def)
    ultimately show ?thesis using run sel head disc True m(2)
      by (simp add: claim_tx_def bind_tx_def seq_get_def)
  next
    case False
    then have "m' = m" using discard by simp
    let ?lease = "lease_record (qc_leaseTTL cfg) now head w s"
    obtain x where x: "persistLeaseTx (qc_lib cfg) head leaseID ?lease next_burst update m = Inr (x, ())"
      and found: "d' = x" "found = Some (head, ?lease)"
      using run sel head disc False \<open>m' = m\<close>
      by (auto simp: claim_tx_def bind_tx_def Let_def split: sum.splits)
    note kept = postD [OF persist_queue x]
    show ?thesis
    proof (cases "head = n")
      case False
      then have a: "ph_automatic head" "ph_key head \<noteq> ph_key n" "goes_first ?p (seq_get d PriorityBurst) head n"
        "?p \<Longrightarrow> update \<and> next_burst = seq_get d PriorityBurst + 1" using kind by auto
      let ?b = "if update then seq_put PriorityBurst next_burst m else m"
      have "first_normal n (delete_pending head ?b)"
        using a m(1) by (intro first_normal_delete_automatic) simp_all
      moreover have "dq_seq x = dq_seq ?b"
        using kept by (simp add: same_queue_def delete_pending_def index_delete_def)
      ultimately show ?thesis using found kept a first_normal_same [of "delete_pending head ?b" x n]
        by (auto simp: seq_get_def seq_put_def get_or_update)
    qed (simp add: found)
  qed
qed

text \<open>Claims one after the other, and the orders that they hand out.\<close>

fun claims :: "queue_config \<Rightarrow> (go_time \<times> string \<times> string \<times> string) list \<Rightarrow> durable \<Rightarrow> pendingOrderHead list tx_result" where
  "claims cfg [] d = Inr (d, [])"
| "claims cfg ((now, leaseID, w, s) # rest) d =
     bind_tx (claim_tx cfg now leaseID w s d) (\<lambda>d found.
     bind_tx (claims cfg rest d) (\<lambda>d heads. Inr (d, (case found of None \<Rightarrow> heads | Some (head, _) \<Rightarrow> head # heads))))"

lemma claims_Cons:
  assumes "claims cfg ((now, leaseID, w, s) # rest) d = Inr (d', heads)"
  obtains m found heads' where "claim_tx cfg now leaseID w s d = Inr (m, found)" "claims cfg rest m = Inr (d', heads')"
    "heads = (case found of None \<Rightarrow> heads' | Some (head, _) \<Rightarrow> head # heads')"
  using assms that by (auto simp: bind_tx_def split: sum.splits)

text \<open>The number of discovered addresses that were preferred, which does not count above three.\<close>

definition preferred :: "durable \<Rightarrow> nat" where
  "preferred d = min 3 (unat (seq_get d PriorityBurst))"

lemma claims_fair:
  "first_normal n d \<Longrightarrow> qc_prioritizeAutomatic cfg \<Longrightarrow> claims cfg requests d = Inr (d', heads) \<Longrightarrow>
     n \<in> set (take (4 - preferred d) heads) \<or> length heads + preferred d \<le> 3"
proof (induction requests arbitrary: d heads)
  case (Cons request rest)
  obtain now leaseID w s where request: "request = (now, leaseID, w, s)" by (cases request)
  obtain m found heads' where m: "claim_tx cfg now leaseID w s d = Inr (m, found)"
    and rest: "claims cfg rest m = Inr (d', heads')"
    and heads: "heads = (case found of None \<Rightarrow> heads' | Some (head, _) \<Rightarrow> head # heads')"
    using Cons.prems(3) request by (blast elim: claims_Cons)
  note step = claim_step [OF Cons.prems(1) m]
  have burst: "preferred d \<le> 3" by (simp add: preferred_def)
  show ?case
  proof (cases found)
    case None
    then show ?thesis using step Cons.IH [OF _ Cons.prems(2) rest] heads by (simp add: preferred_def)
  next
    case (Some entry)
    obtain head lease where entry: "entry = (head, lease)" by (cases entry)
    show ?thesis
    proof (cases "head = n")
      case True
      then show ?thesis using heads Some entry burst by (cases "4 - preferred d") simp_all
    next
      case False
      then have next_state: "first_normal n m" "seq_get m PriorityBurst = seq_get d PriorityBurst + 1"
        "seq_get d PriorityBurst < 3"
        using step Some entry Cons.prems(2) by (simp_all add: goes_first_def AutomaticDiscoveryPriorityBurst_def)
      then have "unat (seq_get m PriorityBurst) = unat (seq_get d PriorityBurst) + 1"
        by (simp add: word_less_nat_alt unat_word_ariths)
      then have up: "preferred m = preferred d + 1" "preferred d < 3"
        using next_state(3) by (simp_all add: preferred_def word_less_nat_alt)
      from Cons.IH [OF next_state(1) Cons.prems(2) rest] show ?thesis
        using up heads Some entry Suc_diff_le [OF burst] by auto
    qed
  qed
qed (simp add: preferred_def)

lemma claims_oldest:
  "first_normal n d \<Longrightarrow> \<not> qc_prioritizeAutomatic cfg \<Longrightarrow> claims cfg requests d = Inr (d', heads) \<Longrightarrow>
     \<forall>h \<in> set (takeWhile (\<lambda>h. h \<noteq> n) heads). ph_key h < ph_key n"
proof (induction requests arbitrary: d heads)
  case (Cons request rest)
  obtain now leaseID w s where request: "request = (now, leaseID, w, s)" by (cases request)
  obtain m found heads' where m: "claim_tx cfg now leaseID w s d = Inr (m, found)"
    and rest: "claims cfg rest m = Inr (d', heads')"
    and heads: "heads = (case found of None \<Rightarrow> heads' | Some (head, _) \<Rightarrow> head # heads')"
    using Cons.prems(3) request by (blast elim: claims_Cons)
  note step = claim_step [OF Cons.prems(1) m]
  show ?case
  proof (cases found)
    case None
    then show ?thesis using step Cons.IH [OF _ Cons.prems(2) rest] heads by simp
  next
    case (Some entry)
    obtain head lease where "entry = (head, lease)" by (cases entry)
    then show ?thesis using step Some heads Cons.IH [OF _ Cons.prems(2) rest] Cons.prems(2)
      by (auto simp: goes_first_def)
  qed
qed simp

section \<open>Clearing\<close>

lemma delete_entry_store:
  "post (deletePendingOrderEntryTx lib sequence data d)
     (\<lambda>d' _. dq_orders d' = AList.delete sequence (dq_orders d) \<and> dq_leases d' = dq_leases d)"
proof -
  have key: "dq_orders (deletePendingAutomaticDiscoveryKeyTx sequence key m) = dq_orders m"
    "dq_leases (deletePendingAutomaticDiscoveryKeyTx sequence key m) = dq_leases m" for key m
    by (simp_all add: deletePendingAutomaticDiscoveryKeyTx_def Let_def)
  have keys: "dq_orders (fold (deletePendingAutomaticDiscoveryKeyTx sequence) urls m) = dq_orders m"
    "dq_leases (fold (deletePendingAutomaticDiscoveryKeyTx sequence) urls m) = dq_leases m" for urls m
    by (induction urls arbitrary: m) (simp_all add: key)
  show ?thesis
    by (simp add: deletePendingOrderEntryTx_def deletePendingOrderTx_def deletePendingAutomaticDiscoveryIdentityTx_def
        key keys split: sum.splits option.splits)
qed

definition below :: "u64 \<Rightarrow> (u64 \<times> bytes) list \<Rightarrow> (u64 \<times> bytes) list" where
  "below cutoff entries = takeWhile (\<lambda>(sequence, _). sequence < cutoff) entries"

definition removes :: "(u64 \<times> bytes) list \<Rightarrow> (u64, bytes) gomap \<Rightarrow> (u64, bytes) gomap" where
  "removes entries orders = filter (\<lambda>(sequence, _). sequence \<notin> fst ` set entries) orders"

definition clears :: "(u64 \<times> bytes) list \<Rightarrow> clear_page \<Rightarrow> durable \<Rightarrow> durable \<Rightarrow> clear_page \<Rightarrow> bool" where
  "clears gone page d d' page' \<longleftrightarrow> dq_orders d' = removes gone (dq_orders d) \<and> dq_leases d' = dq_leases d \<and>
     pg_removed page' = pg_removed page + length gone \<and>
     pg_last page' = (if gone = [] then pg_last page else Some (fst (last gone)))"

lemma clears_Nil [simp]: "clears [] page d d (page\<lparr>pg_finished := b\<rparr>)" "clears [] page d d page"
  by (simp_all add: clears_def removes_def)

lemma clears_Cons:
  assumes "clears gone (page\<lparr>pg_removed := pg_removed page + 1, pg_last := Some sequence\<rparr>) m d' page'"
    and "dq_orders m = AList.delete sequence (dq_orders d)" and "dq_leases m = dq_leases d"
  shows "clears ((sequence, data) # gone) page d d' page'"
proof -
  have "removes gone (AList.delete sequence orders) = removes ((sequence, data) # gone) orders" for orders
    by (auto simp: removes_def AList.delete_eq intro: filter_cong)
  then show ?thesis using assms by (simp add: clears_def)
qed

lemma clear_entries_store:
  "post (clear_entries lib cutoff entries page d) (\<lambda>d' page'. clears (below cutoff entries) page d d' page' \<and>
     pg_finished page' = (pg_finished page \<or> below cutoff entries \<noteq> entries))"
proof (induction entries arbitrary: page d)
  case (Cons entry rest)
  obtain sequence data where entry: "entry = (sequence, data)" by (cases entry)
  show ?case
  proof (cases "sequence \<ge> cutoff")
    case True
    then have "below cutoff (entry # rest) = []" by (simp add: entry below_def leD)
    with True show ?thesis by (simp add: entry)
  next
    case False
    then have b: "below cutoff (entry # rest) = entry # below cutoff rest" by (simp add: entry below_def not_le)
    let ?page = "page\<lparr>pg_removed := pg_removed page + 1, pg_last := Some sequence\<rparr>"
    have "post (clear_entries lib cutoff rest ?page m) (\<lambda>d' page'. clears (below cutoff (entry # rest)) page d d' page' \<and>
        pg_finished page' = (pg_finished page \<or> below cutoff (entry # rest) \<noteq> entry # rest))"
      if "dq_orders m = AList.delete sequence (dq_orders d) \<and> dq_leases m = dq_leases d" for m
      by (rule post_mono [OF Cons.IH [of ?page m]]) (use that b in \<open>auto simp: entry intro: clears_Cons\<close>)
    then have "post (deletePendingOrderEntryTx lib sequence data d) (\<lambda>m _. post (clear_entries lib cutoff rest ?page m)
        (\<lambda>d' page'. clears (below cutoff (entry # rest)) page d d' page' \<and>
        pg_finished page' = (pg_finished page \<or> below cutoff (entry # rest) \<noteq> entry # rest)))"
      by (rule post_mono [OF delete_entry_store])
    with False show ?thesis by (simp add: entry)
  qed
qed (simp add: below_def)

lemma length_removes:
  assumes "entry \<in> set entries" and "fst entry \<in> set (map_keys orders)"
  shows "length (removes entries orders) < length orders"
proof -
  obtain data where "(fst entry, data) \<in> set orders" using assms(2) by (auto simp: map_keys_def)
  then show ?thesis unfolding removes_def by (rule length_filter_less) (use assms(1) in simp)
qed

lemma rows_after_keys: "row \<in> set (rows_after after d) \<Longrightarrow> fst row \<in> set (map_keys (dq_orders d))"
  by (cases row) (auto simp: rows_after_def set_scan set_map_keys)

definition no_page :: clear_page where "no_page = \<lparr>pg_removed = 0, pg_last = None, pg_finished = False\<rparr>"

lemma clear_page_store:
  "post (clearPendingOrderPageTx lib after cutoff d) (\<lambda>d' page.
     clears (below cutoff (page_entries after d)) no_page d d' page \<and>
     pg_finished page = (page_entries after d = rows_after after d \<or> below cutoff (page_entries after d) \<noteq> page_entries after d))"
proof -
  let ?start = "\<lparr>pg_removed = 0, pg_last = None, pg_finished = page_entries after d = rows_after after d\<rparr>"
  have start: "clears gone ?start d d' page = clears gone no_page d d' page" for gone d' page
    by (simp add: clears_def no_page_def)
  show ?thesis
  proof (cases "page_entries after d = []")
    case True
    then have "rows_after after d = []" by (simp add: page_entries_def maximumPendingOrdersPerClearTransaction_def)
    then show ?thesis by (simp add: clearPendingOrderPageTx_def page_entries_def below_def clears_def removes_def no_page_def)
  next
    case False
    have drop: "drop maximumPendingOrdersPerClearTransaction rows = [] \<longleftrightarrow>
        take maximumPendingOrdersPerClearTransaction rows = rows" for rows :: "(u64 \<times> bytes) list"
      by simp
    have "clearPendingOrderPageTx lib after cutoff d = clear_entries lib cutoff (page_entries after d) ?start d"
      unfolding clearPendingOrderPageTx_def Let_def drop page_entries_def [symmetric] using False by simp
    then show ?thesis
      using clear_entries_store [of lib cutoff "page_entries after d" ?start d] start by simp
  qed
qed

lemma clear_pages_end:
  "length (dq_orders d) < fuel \<Longrightarrow> clear_pages lib env fuel after cutoff removed d \<noteq> None"
proof (induction fuel arbitrary: env after removed d)
  case (Suc fuel)
  obtain m c where m: "vault_txn (snd (env 0)) (clearPendingOrderPageTx lib after cutoff) d = (m, c)" by fastforce
  show ?case
  proof (cases c)
    case (Inr page)
    note page = postD [OF clear_page_store vault_txn_commits [OF m [unfolded Inr]]]
    have shorter: "length (dq_orders m) < length (dq_orders d)" if "\<not> pg_finished page"
    proof -
      from that page have entries: "below cutoff (page_entries after d) = page_entries after d"
        "page_entries after d \<noteq> rows_after after d" by blast+
      then have "page_entries after d \<noteq> []"
        by (auto simp: page_entries_def maximumPendingOrdersPerClearTransaction_def)
      then obtain entry where entry: "entry \<in> set (page_entries after d)" by (cases "page_entries after d") auto
      then have "fst entry \<in> set (map_keys (dq_orders d))"
        by (auto simp: page_entries_def dest!: in_set_takeD rows_after_keys)
      then show ?thesis using length_removes [OF entry] page entries by (simp add: clears_def)
    qed
    show ?thesis
    proof (cases "pg_finished page")
      case False
      then show ?thesis using Suc.IH [of m "\<lambda>n. env (Suc n)"] Suc.prems shorter m Inr by simp
    qed (use m Inr in simp)
  qed (use m in simp)
qed simp

lemma set_scan_eq: "wf_map m \<Longrightarrow> set (scan m) = set m"
  by (auto simp: set_scan dest: map_of_SomeD wf_map_SomeI)

lemma length_scan: "length (scan m) = length m"
  by (simp add: scan_def map_keys_def)

lemma split_scan:
  assumes wf: "wf_map orders" and split: "scan orders = page @ rest"
  shows "length (removes page orders) + length page = length orders"
    and "set (removes page orders) = set rest"
proof -
  have keys: "distinct (map fst page @ map fst rest)"
    using distinct_scan [OF wf] by (simp add: split)
  have eq: "set orders = set page \<union> set rest" using set_scan_eq [OF wf] by (simp add: split)
  show "set (removes page orders) = set rest"
    using keys by (auto simp: removes_def eq image_iff) (metis IntI empty_iff fst_conv image_eqI)+
  then have "set (map fst (removes page orders)) = set (map fst rest)" by simp
  moreover have "distinct (map fst (removes page orders))"
    using wf by (simp add: removes_def wf_map_def distinct_map_filter)
  moreover have "distinct (map fst rest)" using keys by simp
  ultimately have "length (removes page orders) = length rest"
    by (metis distinct_card length_map)
  then show "length (removes page orders) + length page = length orders"
    using length_scan [of orders] by (simp add: split)
qed

lemma scan_stored: "row \<in> set (scan m) \<Longrightarrow> fst row \<in> set (map_keys m)"
  by (metis domI prod.collapse set_map_keys set_scan)

lemma below_all: "\<forall>row \<in> set rows. fst row < cutoff \<Longrightarrow> below cutoff rows = rows"
  unfolding below_def by (rule takeWhile_eq_all_iff [THEN iffD2]) auto

lemma sorted_scan: "wf_map m \<Longrightarrow> scan m = page @ rest \<Longrightarrow> x \<in> set page \<Longrightarrow> y \<in> set rest \<Longrightarrow> fst x < fst y"
proof -
  assume wf: "wf_map m" and split: "scan m = page @ rest" and x: "x \<in> set page" and y: "y \<in> set rest"
  have "sorted (map fst page @ map fst rest)" using scan_keys [of m] by (metis map_append sorted_sort split)
  then have "fst x \<le> fst y" using x y by (simp add: sorted_append)
  moreover have "distinct (map fst page @ map fst rest)" using distinct_scan [OF wf] by (simp add: split)
  then have "fst x \<noteq> fst y" using x y by (simp add: disjoint_iff) (metis image_eqI)
  ultimately show ?thesis by simp
qed

lemma clear_pages_empty:
  "clear_pages lib env fuel after cutoff removed d = Some (d', n, None) \<Longrightarrow> wf_map (dq_orders d) \<Longrightarrow>
     \<forall>key \<in> set (map_keys (dq_orders d)). key < cutoff \<and> (case after of None \<Rightarrow> True | Some a \<Rightarrow> a < key) \<Longrightarrow>
     dq_orders d' = [] \<and> dq_leases d' = dq_leases d \<and> n = removed + length (dq_orders d)"
proof (induction fuel arbitrary: env after removed d)
  case (Suc fuel)
  let ?all = "scan (dq_orders d)"
  have rows: "rows_after after d = ?all"
    using Suc.prems(3) by (auto simp: rows_after_def intro!: filter_True dest!: scan_stored split: option.splits)
  let ?page = "take 256 ?all"
  have page: "page_entries after d = ?page"
    by (simp add: page_entries_def rows maximumPendingOrdersPerClearTransaction_def)
  have gone: "below cutoff ?page = ?page"
    using Suc.prems(3) by (intro below_all) (blast dest: in_set_takeD scan_stored)
  have parts: "?all = ?page @ drop 256 ?all" by simp
  note split = split_scan [OF Suc.prems(2) parts]
  obtain m c where m: "vault_txn (snd (env 0)) (clearPendingOrderPageTx lib after cutoff) d = (m, c)" by fastforce
  obtain p where p: "c = Inr p" using Suc.prems(1) m by (cases c) (auto split: if_splits)
  have tx: "clears ?page no_page d m p" "pg_finished p = (?page = ?all)"
    using postD [OF clear_page_store vault_txn_commits [OF m [unfolded p]]] by (simp_all add: page rows gone)
  then have store: "dq_orders m = removes ?page (dq_orders d)" "dq_leases m = dq_leases d"
    "pg_removed p = length ?page" "?page \<noteq> [] \<Longrightarrow> pg_last p = Some (fst (last ?page))"
    by (auto simp: clears_def no_page_def)
  show ?case
  proof (cases "pg_finished p")
    case True
    then have "drop 256 ?all = []" using tx(2) by simp
    then have "dq_orders m = []" using split(2) store(1) by simp
    then show ?thesis using Suc.prems(1) m p True store split(1) by (simp split: if_splits)
  next
    case False
    then have run: "clear_pages lib (\<lambda>n. env (Suc n)) fuel (pg_last p) cutoff (removed + pg_removed p) m = Some (d', n, None)"
      using Suc.prems(1) m p by (simp split: if_splits)
    have nonempty: "?page \<noteq> []" using False tx(2) by auto
    have later: "key < cutoff \<and> fst (last ?page) < key" if mem: "key \<in> set (map_keys (dq_orders m))" for key
    proof -
      obtain v where "(key, v) \<in> set (dq_orders m)" using mem by (auto simp: map_keys_def)
      then have v: "(key, v) \<in> set (drop 256 ?all)" unfolding store(1) split(2) .
      have "fst (last ?page) < fst (key, v)"
        using sorted_scan [OF Suc.prems(2) parts last_in_set [OF nonempty] v] .
      moreover have "key \<in> set (map_keys (dq_orders d))" using v by (metis fst_conv in_set_dropD scan_stored)
      ultimately show ?thesis using Suc.prems(3) by simp
    qed
    have "wf_map (dq_orders m)" using Suc.prems(2) store(1) by (simp add: removes_def wf_map_def distinct_map_filter)
    from Suc.IH [OF run this] later store nonempty split(1) show ?thesis by simp
  qed
qed simp

lemma cutoff_above:
  assumes "wf_map (dq_orders d)" and "pendingOrderSequenceCutoff outcome d = Inr cutoff"
    and key: "key \<in> set (map_keys (dq_orders d))"
  shows "key < cutoff"
proof -
  let ?keys = "map fst (scan (dq_orders d))"
  have mem: "key \<in> set ?keys" using key by (simp add: scan_keys)
  then have nonempty: "scan (dq_orders d) \<noteq> []" by auto
  then have "fst (last (scan (dq_orders d))) < cutoff"
    using assms(2) by (auto simp: pendingOrderSequenceCutoff_def vault_view_def Let_def split: if_splits)
  then have "last ?keys < cutoff" using nonempty by (simp add: last_map)
  moreover have "key \<le> last ?keys"
  proof -
    have split: "?keys = butlast ?keys @ [last ?keys]" using nonempty by simp
    have "sorted ?keys" by (simp add: scan_keys)
    then have "sorted (butlast ?keys @ [last ?keys])" by (subst (asm) split)
    moreover have "key \<in> set (butlast ?keys @ [last ?keys])" using mem by (subst (asm) split)
    ultimately show ?thesis unfolding sorted_append by auto
  qed
  ultimately show ?thesis by simp
qed

end
