(* ===== verification/OrderReports.thy ===== *)
theory OrderReports
  imports OrderFates
begin

text \<open>
  What a worker can do to the orders of the crawl order queue with reports of its leases
  (\<^verbatim>\<open>order_lease.go\<close>, \<^verbatim>\<open>negative_acknowledgment.go\<close>, \<^verbatim>\<open>terminal_order_settlement.go\<close>,
  \<^verbatim>\<open>lease_renewal.go\<close>): an acknowledgment and the end of a run end at most the order of the lease that
  they name, an order that is handed back is kept, a report of somebody else changes nothing; and the
  acknowledgment of the owner of a live lease is carried out, for an order of a discovered address too.
\<close>

section \<open>What a report of one lease ends\<close>

definition held :: "durable \<Rightarrow> string \<Rightarrow> bytes multiset" where
  "held d leaseID = (case map_of (lease_orders d) leaseID of None \<Rightarrow> {#} | Some data \<Rightarrow> {#data#})"

text \<open>A report adds no order and ends at most the one that its lease holds.\<close>

definition reports :: "string \<Rightarrow> durable \<Rightarrow> durable \<Rightarrow> bool" where
  "reports leaseID d d' \<longleftrightarrow> (\<exists>ended. accounted 0 {#} ended d d' \<and> ended + held d' leaseID \<subseteq># held d leaseID)"

text \<open>With these the order of the lease is still there, or it has ended and the lease does not hold it.\<close>

definition keeps_but :: "string \<Rightarrow> durable \<Rightarrow> durable \<Rightarrow> bool" where
  "keeps_but leaseID d d' \<longleftrightarrow> queue_wf d' \<and> (order_data d' = order_data d \<or>
     order_data d' + held d leaseID = order_data d \<and> held d' leaseID = {#})"

lemma reports_keep: "reports leaseID d d' \<Longrightarrow> queue_wf d \<Longrightarrow> keeps_but leaseID d d'"
proof -
  assume "reports leaseID d d'" "queue_wf d"
  then obtain ended where ended: "queue_wf d'" "order_data d' + ended = order_data d"
    "ended + held d' leaseID \<subseteq># held d leaseID"
    using unsigned_less [of "seq_get d SeqNext"] by (auto simp: reports_def accounted_def room_def)
  consider "held d leaseID = {#}" | x where "held d leaseID = {#x#}"
    by (cases "map_of (lease_orders d) leaseID") (auto simp: held_def)
  then show ?thesis
  proof cases
    case 2
    then have "ended = {#} \<or> ended = {#x#} \<and> held d' leaseID = {#}"
      using ended(3) by (cases ended) (auto simp: subset_eq_diff_conv diff_union_swap2)
    then show ?thesis using ended 2 by (auto simp: keeps_but_def)
  qed (use ended in \<open>simp add: keeps_but_def\<close>)
qed

lemma same_work_orders: "same_work d d' \<Longrightarrow> order_data d' = order_data d"
  by (simp add: same_work_def order_data_def)

lemma reports_trans [trans]: "reports leaseID d m \<Longrightarrow> reports leaseID m d' \<Longrightarrow> reports leaseID d d'"
proof -
  assume "reports leaseID d m" "reports leaseID m d'"
  then obtain e e' where e: "accounted 0 {#} e d m" "e + held m leaseID \<subseteq># held d leaseID"
    "accounted 0 {#} e' m d'" "e' + held d' leaseID \<subseteq># held m leaseID"
    unfolding reports_def by blast
  have "e + e' + held d' leaseID \<subseteq># e + held m leaseID"
    using subset_mset.add_left_mono [OF e(4), of e] by (simp add: ac_simps)
  then have "e + e' + held d' leaseID \<subseteq># held d leaseID" using e(2) by (rule subset_mset.order_trans)
  moreover have "accounted 0 {#} (e + e') d d'" using accounted_trans [OF e(1,3)] by simp
  ultimately show ?thesis unfolding reports_def by blast
qed

lemma reports_same: "same_work d d' \<Longrightarrow> reports leaseID d d'"
  unfolding reports_def by (rule exI [of _ "{#}"]) (simp add: accounted_same held_def same_work_def)

lemma reports_refl [simp]: "reports leaseID d d"
  by (rule reports_same) simp

lemma reports_after: "reports leaseID d m \<Longrightarrow> same_work m d' \<Longrightarrow> reports leaseID d d'"
  using reports_trans reports_same by blast

lemma reports_post:
  "post f (\<lambda>d' _. same_work m d') \<Longrightarrow> reports leaseID d m \<Longrightarrow> post f (\<lambda>d' _. reports leaseID d d')"
  by (erule post_mono) (rule reports_after)

lemma reports_delete: "same_work d m \<Longrightarrow> reports leaseID d (delete_lease leaseID m)"
proof -
  assume m: "same_work d m"
  have "reports leaseID m (delete_lease leaseID m)"
  proof (cases "map_of (dq_leases m) leaseID")
    case None
    then have "delete_lease leaseID m = m"
      by (simp add: delete_lease_def delete_id map_of_eq_None_iff)
    then show ?thesis by simp
  next
    case (Some lease)
    have "held m leaseID = {#lr_OrderData lease#}" "held (delete_lease leaseID m) leaseID = {#}"
      using Some by (simp_all add: held_def map_of_lease_orders delete_lease_def delete_conv')
    then show ?thesis unfolding reports_def
      by (intro exI [of _ "{#lr_OrderData lease#}"] conjI accounted_delete_lease [OF Some]) simp
  qed
  with reports_same [OF m] show ?thesis by (rule reports_trans)
qed

lemma reports_same_right: "same_work m m' \<Longrightarrow> reports leaseID d m' = reports leaseID d m"
proof -
  assume m: "same_work m m'"
  then have "held m' leaseID = held m leaseID" by (simp add: held_def same_work_def)
  then show ?thesis unfolding reports_def by (simp only: accounted_same_right [OF m])
qed

lemma frame_reports: "(\<And>d. same_work d m' = same_work d m) \<Longrightarrow> reports leaseID d m' = reports leaseID d m"
  by (rule reports_same_right) (metis same_work_refl)

lemmas reports_frame [simp] = same_work_update [THEN frame_reports] same_work_discovery [THEN frame_reports]
  same_work_history [THEN frame_reports]

lemma history_reports [simp]:
  "reports leaseID d m \<Longrightarrow> post (recordLeaseSettlement now k outcome m) (\<lambda>d' _. reports leaseID d d')"
  "reports leaseID d m \<Longrightarrow> post (storeLeaseSettlement now k entry m) (\<lambda>d' _. reports leaseID d d')"
  "reports leaseID d m \<Longrightarrow> post (requireLeaseSettlement now k want m) (\<lambda>d' _. reports leaseID d d')"
  "reports leaseID d m \<Longrightarrow> post (ensureLeaseSettlementTx now k entry m) (\<lambda>d' _. reports leaseID d d')"
  by (erule reports_post [rotated], simp)+

lemma delete_reports [simp]:
  "reports leaseID d (delete_lease leaseID d)" "reports leaseID d (delete_lease leaseID (put_target leaseID target d))"
  by (rule reports_delete, simp)+

lemma acknowledge_reports: "post (acknowledgeLeaseTx lib clock leaseID w s owner d) (\<lambda>d' _. reports leaseID d d')"
  by (simp add: acknowledgeLeaseTx_def Let_def split: option.splits sum.splits)

lemma complete_tx_reports: "post (completeSettlementTx now leaseID d) (\<lambda>d' _. reports leaseID d d')"
proof (cases "map_of (dq_discoverySettlements d) leaseID")
  case (Some intent)
  have "post (removeRetainedLeaseTx leaseID intent d) (\<lambda>d' _. reports leaseID d d')"
    by (simp add: removeRetainedLeaseTx_def Let_def reports_same split: option.splits)
  then show ?thesis using Some by (simp add: completeSettlementTx_def) (erule post_mono, simp)
qed (simp add: completeSettlementTx_def)

lemma prepare_reports:
  "post (prepareTerminalLeaseSettlementTx lib clock leaseID request want d) (\<lambda>d' _. reports leaseID d d')"
proof (cases "map_of (dq_leases d) leaseID")
  case None
  then show ?thesis by (simp add: prepareTerminalLeaseSettlementTx_def split: sum.splits)
next
  case (Some lease)
  have "reports leaseID d (applyTerminalLeaseDispositionTx now leaseID request settlement lease d)" for now settlement
    using Some by (simp add: applyTerminalLeaseDispositionTx_def reports_same same_work_set_lease)
  then show ?thesis
    using Some by (simp add: prepareTerminalLeaseSettlementTx_def Let_def split: sum.splits)
qed

lemma reports_txn:
  "vault_txn outcome f d = (d', r) \<Longrightarrow> post (f d) (\<lambda>d' _. reports leaseID d d') \<Longrightarrow> reports leaseID d d'"
  by (erule vault_txn_cases) (auto dest: postD)

lemma complete_reports:
  "completeAutomaticDiscoverySettlement now o1 o2 leaseID d = (d', resolution, err) \<Longrightarrow> reports leaseID d d'"
proof -
  assume run: "completeAutomaticDiscoverySettlement now o1 o2 leaseID d = (d', resolution, err)"
  obtain m c where m: "vault_txn o1 (completeSettlementTx now leaseID) d = (m, c)" by fastforce
  have "reports leaseID d m" by (rule reports_txn [OF m complete_tx_reports])
  moreover have "d' = m \<or> same_work m d'"
    using run m by (auto simp: completeAutomaticDiscoverySettlement_def vault_txn_def
        split: option.splits sum.splits prod.splits if_splits)
  ultimately show ?thesis by (auto intro: reports_after)
qed

lemma acknowledgment_reports:
  assumes run: "ackLeaseWithTargetLocked lib outcome clock leaseID w s owner q = (q', r)"
  shows "reports leaseID (cq_store q) (cq_store q')"
proof -
  obtain m c where m: "vault_txn (outcome 0) (stageAcknowledgmentTx lib (clock 0) leaseID w s owner) (cq_store q) = (m, c)"
    by fastforce
  obtain m' c' where m': "vault_txn (outcome 1) (acknowledgeLeaseTx lib (\<lambda>n. clock (n + 1)) leaseID w s owner) m = (m', c')"
    by fastforce
  have "reports leaseID (cq_store q) m"
    by (rule reports_txn [OF m]) (rule post_mono [OF stage_acknowledgment_work], rule reports_same)
  moreover have "reports leaseID m m'" by (rule reports_txn [OF m' acknowledge_reports])
  ultimately show ?thesis using run m m'
    by (auto simp: ackLeaseWithTargetLocked_def Let_def split: prod.splits sum.splits
        dest!: complete_reports intro: reports_trans)
qed

lemma ending_reports:
  assumes run: "prepareTerminalLeaseSettlement lib outcome clock leaseID request q = (q', r)"
  shows "reports leaseID (cq_store q) (cq_store q')"
proof -
  obtain m c where m: "vault_txn (outcome 0) (stageTerminalSettlementTx lib (clock 0) leaseID request) (cq_store q) = (m, c)"
    by fastforce
  obtain m' c' where m': "vault_txn (outcome 1) (prepareTerminalLeaseSettlementTx lib (\<lambda>n. clock (n + 1)) leaseID
      request (terminalSettlementRecord request)) m = (m', c')"
    by fastforce
  have "reports leaseID (cq_store q) m"
    by (rule reports_txn [OF m]) (rule post_mono [OF stage_terminal_work], rule reports_same)
  moreover have "reports leaseID m m'" by (rule reports_txn [OF m' prepare_reports])
  ultimately show ?thesis using run m m'
    by (auto simp: prepareTerminalLeaseSettlement_def Let_def split: prod.splits sum.splits
        dest!: complete_reports intro: reports_trans)
qed

lemma hand_back_keeps:
  assumes run: "deferLeaseLocked outcome clock leaseID w s owner q = (q', r)"
  shows "reports leaseID (cq_store q) (cq_store q')"
    and "\<not> staged_in (cq_store q) leaseID \<Longrightarrow> same_work (cq_store q) (cq_store q')"
proof -
  obtain m c where m: "vault_txn (outcome 0) (negativeAcknowledgmentTx clock leaseID w s owner) (cq_store q) = (m, c)"
    by fastforce
  have work: "same_work (cq_store q) m"
    using m by (cases rule: vault_txn_cases) (auto dest: postD [OF nak_work])
  show "reports leaseID (cq_store q) (cq_store q')"
    using run m reports_same [OF work, of leaseID]
    by (auto simp: deferLeaseLocked_def resolveAutomaticDiscoverySettlement_def split: prod.splits sum.splits option.splits
        negativeAcknowledgmentMutation.splits dest!: complete_reports
        intro: reports_trans [OF reports_same [OF work]])
  assume "\<not> staged_in (cq_store q) leaseID"
  then have "c \<noteq> Inr NakStaged"
    by (cases rule: vault_txn_cases [OF m])
      (auto simp: staged_in_def negativeAcknowledgmentTx_def bind_tx_def split: sum.splits option.splits)
  then show "same_work (cq_store q) (cq_store q')"
    using run m work
    by (auto simp: deferLeaseLocked_def split: sum.splits negativeAcknowledgmentMutation.splits)
qed

lemma renewal_keeps:
  assumes run: "renewLeases cfg outcome clock w s leases q_read q = (q', r)"
  shows "same_work (cq_store q) (cq_store q')"
proof -
  have "same_work (cq_store q) (fst (commitLeaseRenewals cfg (outcome 1) w s candidates (clock 1) (cq_store q)))"
    for candidates
    using renew_work [of "cq_store q" w s "clock 1" _ candidates]
    by (cases "outcome 1") (auto simp: commitLeaseRenewals_def vault_txn_def case_prod_unfold Let_def)
  then show ?thesis using run
    by (auto simp: renewLeases_def split: sum.splits bool.splits prod.splits) (metis fst_conv)+
qed

text \<open>Who does not hold the lease, by worker, session or time, gets nothing done with it.\<close>

lemma stranger_refused:
  assumes lease: "map_of (dq_leases (cq_store q)) leaseID = Some lease" and plain: "\<not> staged_in (cq_store q) leaseID"
    and not_held: "\<And>n. \<not> liveLeaseOwnedBy lease w s (clock n)"
  shows "fst (ackLeaseWithTargetLocked lib outcome clock leaseID w s True q) = q"
    and "isl (snd (ackLeaseWithTargetLocked lib outcome clock leaseID w s True q))"
    and "fst (deferLeaseLocked outcome clock leaseID w s True q) = q"
    and "tl_WorkerID request = w \<Longrightarrow> tl_WorkerSessionID request = s \<Longrightarrow>
      fst (prepareTerminalLeaseSettlement lib outcome clock leaseID request q) = q"
proof -
  have none: "map_of (dq_discoverySettlements (cq_store q)) leaseID = None" using plain by (simp add: staged_in_def)
  obtain e where stage: "stageAcknowledgmentTx lib (clock 0) leaseID w s True (cq_store q) = Inl e"
    using lease not_held [of 0] by (cases "lr_Deferred lease") (simp_all add: stageAcknowledgmentTx_def)
  then show "fst (ackLeaseWithTargetLocked lib outcome clock leaseID w s True q) = q"
    "isl (snd (ackLeaseWithTargetLocked lib outcome clock leaseID w s True q))"
    by (auto simp: ackLeaseWithTargetLocked_def vault_txn_def)
  show "fst (deferLeaseLocked outcome clock leaseID w s True q) = q"
    using lease none not_held
    by (simp add: deferLeaseLocked_def vault_txn_def negativeAcknowledgmentTx_def negativeAcknowledgmentLease_def)
  assume request: "tl_WorkerID request = w" "tl_WorkerSessionID request = s"
  have complete: "\<exists>err. completeAutomaticDiscoverySettlement now o1 o2 leaseID (cq_store q) = (cq_store q, None, err)"
    for now o1 o2
    using none by (cases o1) (auto simp: completeAutomaticDiscoverySettlement_def completeSettlementTx_def vault_txn_def)
  have staged: "\<exists>c. vault_txn (outcome 0) (stageTerminalSettlementTx lib (clock 0) leaseID request) (cq_store q) = (cq_store q, c)"
    using lease none not_held [of 0] request
    by (cases "outcome 0") (auto simp: vault_txn_def stageTerminalSettlementTx_def settlementLeaseForRequest_def Let_def)
  have main: "\<exists>c. vault_txn (outcome 1) (prepareTerminalLeaseSettlementTx lib (\<lambda>n. clock (n + 1)) leaseID request
      (terminalSettlementRecord request)) (cq_store q) = (cq_store q, c) \<and> (\<forall>x. map_sum id snd c \<noteq> Inr (Some x))"
    using lease none not_held [of 1] request
    by (cases "outcome 1") (auto simp: vault_txn_def prepareTerminalLeaseSettlementTx_def Let_def split: sum.splits)
  from staged main complete [of "clock 4" "outcome 2" "outcome 3"]
  show "fst (prepareTerminalLeaseSettlement lib outcome clock leaseID request q) = q"
    by (auto simp: prepareTerminalLeaseSettlement_def Let_def catalog_after_settlement_def split: sum.splits option.splits)
qed

section \<open>The owner of a live lease acknowledges it\<close>

text \<open>With a discovered address its settlement is staged first and completed last; any other lease is
  settled in the second access alone.\<close>

lemma acknowledge_live:
  assumes lease: "map_of (dq_leases (cq_store q)) leaseID = Some lease" and wf: "queue_wf (cq_store q)"
    and live: "liveLeaseOwnedBy lease w s (clock 0)" "liveLeaseOwnedBy lease w s (clock 1)"
    and target: "controlTargetFromLease lib lease = Inr target" and run: "lt_RunID target \<noteq> []"
    and new: "map_of (dq_leaseSettlements (cq_store q)) leaseID = None"
    and unstaged: "map_of (dq_discoverySettlements (cq_store q)) leaseID = None" and time: "clock 2 > 0"
  shows "\<exists>d. ackLeaseWithOwner lib (\<lambda>_. Commits) clock leaseID w s q =
      (q\<lparr>cq_store := d, cq_catalog := catalog_remove lease (cq_catalog q)\<rparr>, Inr target) \<and>
    acknowledged_in d leaseID target (clock 2) \<and> map_of (dq_discoverySettlements d) leaseID = None \<and>
    order_data d + {#lr_OrderData lease#} = order_data (cq_store q)"
proof -
  let ?intent = "acknowledgment_intent lease target" and ?d = "cq_store q"
  let ?staged = "?d\<lparr>dq_discoverySettlements := AList.update leaseID ?intent (dq_discoverySettlements ?d)\<rparr>"
  define m where "m = (if lr_DiscoveryKey lease = [] then ?d else ?staged)"
  have stage: "stageAcknowledgmentTx lib (clock 0) leaseID w s True ?d = Inr (m, lr_DiscoveryKey lease \<noteq> [])"
    using lease live(1) target unstaged
    by (simp add: stageAcknowledgmentTx_def liveLeaseOwnedBy_def persistSettlementIntentTx_def bind_tx_def m_def
        acknowledgment_intent_def)
  have m: "map_of (dq_leases m) leaseID = Some lease" "map_of (dq_leaseSettlements m) leaseID = None" "same_work ?d m"
    using lease new by (simp_all add: m_def)
  obtain x where x: "acknowledgeLeaseTx lib (\<lambda>n. clock (n + 1)) leaseID w s True m = Inr (x, target, Some lease)"
    and ack: "acknowledged_in x leaseID target (clock 2)" and kept: "dq_discoverySettlements x = dq_discoverySettlements m"
    using acknowledge_by_owner [OF m(1), of w s "\<lambda>n. clock (n + 1)" lib target] live(2) target run m(2) time
    by (auto simp: numeral_2_eq_2)
  have named: "lt_WorkerID target \<noteq> []"
    using live target by (auto simp: liveLeaseOwnedBy_def controlTargetFromLease_def split: sum.splits)
  obtain d resolution where complete: "completeAutomaticDiscoverySettlement (clock 3) Commits Commits leaseID x = (d, resolution, None)"
    and resolution: "resolution = None \<or> (\<exists>entry. resolution = Some (?intent, entry))"
    and d: "acknowledged_in d leaseID target (clock 2)" "map_of (dq_discoverySettlements d) leaseID = None" "same_work x d"
  proof (cases "lr_DiscoveryKey lease = []")
    case True
    then have none: "map_of (dq_discoverySettlements x) leaseID = None" using kept unstaged by (simp add: m_def)
    then have "completeAutomaticDiscoverySettlement (clock 3) Commits Commits leaseID x = (x, None, None)"
      by (simp add: completeAutomaticDiscoverySettlement_def completeSettlementTx_def vault_txn_def)
    then show ?thesis by (rule that) (use ack none in simp_all)
  next
    case False
    then have "map_of (dq_discoverySettlements x) leaseID = Some ?intent" using kept by (simp add: m_def)
    from complete_acknowledged [OF ack time this named run, of "clock 3"] show ?thesis by (blast intro: that)
  qed
  have "ackLeaseWithOwner lib (\<lambda>_. Commits) clock leaseID w s q =
      (q\<lparr>cq_store := d, cq_catalog := catalog_remove lease (cq_catalog q)\<rparr>, Inr target)"
    using resolution stage x complete
    by (auto simp: ackLeaseWithOwner_def ackLeaseWithTargetLocked_def vault_txn_def catalog_after_settlement_def Let_def
        acknowledgment_intent_def)
  moreover have "accounted 0 {#} {#lr_OrderData lease#} m x" using postD [OF acknowledge_accounted x] by simp
  then have "accounted 0 {#} {#lr_OrderData lease#} ?d d"
    using m(3) d(3) by (blast intro: accounted_before_same accounted_after_same)
  then have "order_data d + {#lr_OrderData lease#} = order_data ?d" using wf by (simp add: accounted_def)
  ultimately show ?thesis using d by blast
qed

end
