(* ===== verification/OrderPromises.thy ===== *)
theory OrderPromises
  imports OrderReports
begin

text \<open>
  The properties of the crawl order queue over all its operations, with a store on which each of them
  is applied: the accounting of the orders over every run, what the reports of a lease end, the fates of
  expired and of acknowledged leases, the order of the claims and the clearing.
\<close>

section \<open>A store to apply them to\<close>

definition sample_order :: "string \<Rightarrow> CrawlOrder" where
  "sample_order priority = \<lparr>co_Provenance = [7], co_Priority = priority,
     co_Profile = \<lparr>cp_Handle = ''handle'', cp_Name = ''name'', cp_MaxPagesPerHost = 10, cp_MaxPagesPerRun = None\<rparr>,
     co_Requests = [''http://a/'']\<rparr>"

definition sample_lib :: order_lib where
  "sample_lib = \<lparr>ol_marshal = (\<lambda>order. Some (if co_Priority order = CrawlOrderPriorityNormal then [1] else [2])),
     ol_unmarshal = (\<lambda>data. if data = [1] then Some (sample_order CrawlOrderPriorityNormal)
       else if data = [2] then Some (sample_order CrawlOrderPriorityAutomaticDiscovery) else None),
     ol_sha256 = (\<lambda>_. replicate 32 0)\<rparr>"

definition empty_store :: durable where
  "empty_store = \<lparr>dq_orders = [], dq_normalIndex = [], dq_automaticIndex = [], dq_seq = [], dq_keys = [],
     dq_activeDiscovery = [], dq_pendingDiscovery = [], dq_leasedDiscovery = [], dq_discoveryIntents = [],
     dq_discoverySettlements = [], dq_leases = [], dq_leaseSettlements = [], dq_settlementOrder = [],
     dq_settlementExpiry = [], dq_controlTargets = [], dq_completedTargets = []\<rparr>"

definition sample_config :: queue_config where
  "sample_config = \<lparr>qc_lib = sample_lib, qc_leaseTTL = 120 * second, qc_prioritizeAutomatic = True\<rparr>"

definition one_pending :: durable where
  "one_pending = fst (publishEncodedOrder (\<lambda>_. Commits) False ''key'' [1] CrawlOrderPriorityNormal empty_store)"

definition one_leased :: order_queue where
  "one_leased = fst (leasePopForSession sample_config Commits 100 ''lease'' ''worker'' ''session''
     \<lparr>cq_store = one_pending, cq_catalog = []\<rparr>)"

lemma one_pending_eq:
  "one_pending = empty_store\<lparr>dq_orders := [(0, [1])], dq_normalIndex := [(0, [1])], dq_keys := [(''key'', 0)],
     dq_seq := [(SeqNext, 1), (PriorityIndexNext, 1)]\<rparr>"
  by code_simp

lemma one_leased_eq:
  "one_leased = \<lparr>cq_store = empty_store\<lparr>dq_keys := [(''key'', 0)], dq_seq := [(SeqNext, 1), (PriorityIndexNext, 1)],
     dq_leases := [(''lease'', lease_record (120 * second) 100 \<lparr>ph_key = 0, ph_data = [1], ph_automatic = False\<rparr>
       ''worker'' ''session'')]\<rparr>, cq_catalog = [((''worker'', ''session''), 1)]\<rparr>"
  by code_simp

lemma one_leased_wf: "queue_wf (cq_store one_leased)" "dq_discoverySettlements (cq_store one_leased) = []"
  "room 258 (cq_store one_leased)" "length (dq_leases (cq_store one_leased)) = 1"
  by (simp_all add: one_leased_eq empty_store_def queue_wf_def lease_orders_def wf_map_def room_def seq_get_def get_or_def)

section \<open>Properties\<close>

text \<open>C4: over any run of the transactions of the queue, in any order and stopped anywhere, the orders that
  it holds, pending or leased, are the ones it held and the ones that were published, less the ones that
  were settled, discarded as duplicates of a leased address or cleared: no order is lost or doubled.\<close>

theorem orders_accounted:
  assumes run: "order_run cfg n d added finished d'" and wf: "queue_wf d"
    and room: "unat (seq_get d SeqNext) + 256 * n < 2 ^ 64"
  shows "queue_wf d' \<and> order_data d' + finished = order_data d + added"
  using order_run_accounted [OF run wf] wf room by (simp add: accounted_def room_def)

lemma sample_run: "order_run sample_config 2 empty_store {#[1]#} {#} (cq_store one_leased)"
proof -
  have publish: "publish_tx ''key'' [1] CrawlOrderPriorityNormal empty_store = Inr (one_pending, False)"
    by code_simp
  have claim: "claim_tx sample_config 100 ''lease'' ''worker'' ''session'' one_pending =
      Inr (cq_store one_leased, Some (\<lparr>ph_key = 0, ph_data = [1], ph_automatic = False\<rparr>,
        lease_record (120 * second) 100 \<lparr>ph_key = 0, ph_data = [1], ph_automatic = False\<rparr> ''worker'' ''session''))"
    unfolding one_pending_eq one_leased_eq by code_simp
  have discards: "claim_discards sample_config one_pending = {#}"
    unfolding one_pending_eq by (simp add: claim_discards_def) code_simp
  have fresh: "map_of (dq_leases one_pending) ''lease'' = None"
    by (simp add: one_pending_eq empty_store_def)
  show ?thesis
    using run_step [OF run_step [OF run_start published [OF publish]] claimed [OF claim fresh]] discards
    by (simp add: numeral_2_eq_2)
qed

lemma empty_store_wf: "queue_wf empty_store" "order_data empty_store = {#}" "seq_get empty_store SeqNext = 0"
  by (simp_all add: queue_wf_def order_data_def lease_orders_def empty_store_def seq_get_def wf_map_def)

theorem orders_accounted_witness: "order_data (cq_store one_leased) + {#} = {#} + {#[1]#}"
  using orders_accounted [OF sample_run empty_store_wf(1)] by (simp add: empty_store_wf)

text \<open>The runs hold every operation of the queue: whatever fails in one, the store after it is reached
  by transactions, if a claim has a lease identity that no lease has.\<close>

lemma operations_are_runs:
  assumes fresh: "map_of (dq_leases (cq_store q)) newID = None"
  shows "reaches cfg d (fst (PublishOnce (qc_lib cfg) outcome refused key order d)) \<and>
    reaches cfg (cq_store q) (cq_store (fst (leasePopForSession cfg claim_outcome now newID w s q))) \<and>
    reaches cfg (cq_store q) (cq_store (fst (ackLeaseWithOwner (qc_lib cfg) outcome clock leaseID w s q))) \<and>
    reaches cfg (cq_store q) (cq_store (fst (ackLeaseWithTarget (qc_lib cfg) outcome clock leaseID q))) \<and>
    reaches cfg (cq_store q) (cq_store (fst (deferLeaseForOwner outcome clock leaseID w s q))) \<and>
    reaches cfg (cq_store q) (cq_store (fst (deferLease outcome clock leaseID q))) \<and>
    reaches cfg (cq_store q) (cq_store (fst (sweepExpired cfg sweep now later q))) \<and>
    reaches cfg (cq_store q) (cq_store (fst (renewLeases cfg outcome clock w s leases q_read q))) \<and>
    reaches cfg (cq_store q) (cq_store (fst (adoptWorkerSession cfg outcome resolve now w s q))) \<and>
    reaches cfg (cq_store q) (cq_store (fst (prepareTerminalLeaseSettlement (qc_lib cfg) outcome clock leaseID request q))) \<and>
    reaches cfg d (fst (confirmTerminalLeaseSettlement (qc_lib cfg) claim_outcome leaseID request d)) \<and>
    reaches cfg d (fst (ClearPendingOrders (qc_lib cfg) cancelled outcome claim_outcome pages d)) \<and>
    reaches cfg d (fst (newDurableOrderQueue (qc_lib cfg) outcome outcome' resolve d))"
proof -
  have first: "f = (fst f, snd f)" for f :: "'a \<times> 'b" by simp
  have clear: "reaches cfg d (fst (ClearPendingOrders (qc_lib cfg) cancelled outcome claim_outcome pages d))"
  proof -
    obtain m c where m: "reconcileAutomaticDiscoveryIntents (qc_lib cfg) outcome d = (m, c)" by fastforce
    have "reaches cfg d m" by (rule reconcile_all_intents_runs [OF m])
    moreover have "reaches cfg m (fst (clearPendingOrdersBefore (qc_lib cfg) pages cutoff m))" for cutoff
      unfolding clearPendingOrdersBefore_def by (rule clear_before_runs, rule clear_pages_end) simp
    ultimately show ?thesis using m
      by (auto simp: ClearPendingOrders_def split: sum.splits intro: reaches_trans)
  qed
  show ?thesis
    unfolding ackLeaseWithOwner_def ackLeaseWithTarget_def deferLeaseForOwner_def deferLease_def
    by (intro conjI clear publish_runs [OF first] claim_runs [OF fresh first] acknowledge_runs [OF first]
        hand_back_runs [OF first] sweep_runs [OF first] renew_runs [OF first] adopt_runs [OF first]
        end_runs [OF first] confirm_runs [OF first] start_runs [OF first])
qed

text \<open>C17: whatever fails in it, an acknowledgment, the end of a run or a hand-back of a lease leaves the
  orders, pending or leased, as they were or ends the one order of that lease, which is then no longer
  leased under it. Handing an order back ends it only when a settlement of its lease was staged before, and
  a renewal never ends an order. A request of another worker or session than that of the lease, or one that comes when the
  lease has expired, changes nothing, and its acknowledgment is refused, unless a settlement of the lease is
  staged.\<close>

theorem reports_end_their_order:
  assumes wf: "queue_wf (cq_store q)" and request: "tl_WorkerID request = w" "tl_WorkerSessionID request = s"
  shows "keeps_but leaseID (cq_store q) (cq_store (fst (ackLeaseWithOwner lib outcome clock leaseID w s q))) \<and>
    keeps_but leaseID (cq_store q) (cq_store (fst (prepareTerminalLeaseSettlement lib outcome clock leaseID request q))) \<and>
    keeps_but leaseID (cq_store q) (cq_store (fst (deferLeaseForOwner outcome clock leaseID w s q))) \<and>
    (\<not> staged_in (cq_store q) leaseID \<longrightarrow>
       order_data (cq_store (fst (deferLeaseForOwner outcome clock leaseID w s q))) = order_data (cq_store q)) \<and>
    order_data (cq_store (fst (renewLeases cfg outcome clock w s leases q_read q))) = order_data (cq_store q) \<and>
    (\<forall>lease. map_of (dq_leases (cq_store q)) leaseID = Some lease \<and> \<not> staged_in (cq_store q) leaseID \<and>
       (lr_WorkerID lease \<noteq> w \<or> lr_WorkerSessionID lease \<noteq> s \<or> (\<forall>n. lr_ExpiresAtUnixNano lease \<le> clock n)) \<longrightarrow>
       fst (ackLeaseWithOwner lib outcome clock leaseID w s q) = q \<and>
       isl (snd (ackLeaseWithOwner lib outcome clock leaseID w s q)) \<and>
       fst (deferLeaseForOwner outcome clock leaseID w s q) = q \<and>
       fst (prepareTerminalLeaseSettlement lib outcome clock leaseID request q) = q)"
proof -
  have first: "f = (fst f, snd f)" for f :: "'a \<times> 'b" by simp
  have stranger: "\<not> liveLeaseOwnedBy lease w s (clock n)"
    if "lr_WorkerID lease \<noteq> w \<or> lr_WorkerSessionID lease \<noteq> s \<or> (\<forall>n. lr_ExpiresAtUnixNano lease \<le> clock n)" for lease n
    using that by (auto simp: liveLeaseOwnedBy_def not_less)
  show ?thesis
    unfolding ackLeaseWithOwner_def deferLeaseForOwner_def
    using stranger_refused [of q leaseID _ w s clock] stranger request
    by (intro conjI impI same_work_orders reports_keep [OF _ wf] acknowledgment_reports [OF first]
        ending_reports [OF first] hand_back_keeps [OF first] renewal_keeps [OF first] allI; blast)
qed

text \<open>The order that was leased is pending again once it is handed back, and a stranger cannot do it.\<close>

lemma one_leased_stranger:
  "map_of (dq_leases (cq_store one_leased)) ''lease'' = Some (lease_record (120 * second) 100
     \<lparr>ph_key = 0, ph_data = [1], ph_automatic = False\<rparr> ''worker'' ''session'')"
  "\<not> staged_in (cq_store one_leased) ''lease''"
  "lr_WorkerSessionID (lease_record (120 * second) 100 head ''worker'' ''session'') \<noteq> ''other''"
  by (simp_all add: one_leased_eq empty_store_def staged_in_def lease_record_def)

definition other_request :: "string \<Rightarrow> terminalLeaseRequest" where
  "other_request session = \<lparr>tl_Outcome = LeaseSettlementAcknowledged, tl_OrderIdentity = replicate 32 0,
     tl_WorkerID = ''worker'', tl_WorkerSessionID = session, tl_State = CrawlRunFinished,
     tl_Tally = \<lparr>ct_Fetched = 1, ct_Indexed = 1, ct_Failed = 0, ct_RobotsDenied = 0, ct_Duplicates = 0, ct_Pending = 0\<rparr>,
     tl_RecentOutcomes = [], tl_Rate = 0, tl_RateKnown = False\<rparr>"

theorem reports_end_their_order_witness:
  "order_data (cq_store (fst (deferLeaseForOwner (\<lambda>_. Commits) (\<lambda>_. 200) ''lease'' ''worker'' ''session'' one_leased))) =
     order_data (cq_store one_leased) \<and>
   fst (deferLeaseForOwner (\<lambda>_. Commits) (\<lambda>_. 200) ''lease'' ''worker'' ''other'' one_leased) = one_leased"
  using reports_end_their_order [OF one_leased_wf(1), of "other_request ''session''" "''worker''" "''session''"]
    reports_end_their_order [OF one_leased_wf(1), of "other_request ''other''" "''worker''" "''other''"]
    one_leased_stranger
  by (simp add: other_request_def)

text \<open>C9: whatever fails in it, a sweep loses and doubles no order: the orders after it, pending or leased,
  are those from before, less orders of leases whose settlement had been staged, as long as the sequence
  numbers suffice for the requeued ones. After a sweep that succeeds there is no expired lease that was
  handed back or has no worker or no session, and no lease of a worker and session that expired eight lease
  lengths ago; such a lease may stay until then although it has expired.\<close>

theorem sweep_requeues:
  assumes run: "sweepExpired cfg env now later q = (q', r)"
    and wf: "queue_wf (cq_store q)" and room: "room (2 * length (dq_leases (cq_store q)) + 256) (cq_store q)"
  shows "queue_wf (cq_store q') \<and>
    (\<exists>ended. ended \<subseteq># staged_orders (cq_store q) \<and> order_data (cq_store q') + ended = order_data (cq_store q)) \<and>
    (r = Inr () \<longrightarrow> list_all (\<lambda>(_, lease). \<not> lease_expired now lease \<and> \<not> lease_abandoned cfg later lease)
      (dq_leases (cq_store q')))"
  using sweep_fate [OF run wf] wf room by (auto simp: accounted_def)

definition sweep_all :: sweep_env where
  "sweep_all = (let chunk = \<lparr>ce_cancelled = False, ce_update = Commits, ce_clock = (\<lambda>_. 5000 * second),
       ce_resolve = (\<lambda>_. (0, Commits, Commits))\<rparr>
     in \<lparr>se_expired = (Commits, \<lambda>_. chunk), se_abandoned = (Commits, \<lambda>_. chunk), se_settlements = (\<lambda>_. Commits)\<rparr>)"

lemma swept: "dq_leases (cq_store (fst (sweepExpired sample_config sweep_all 100 (5000 * second) one_leased))) = []"
  "snd (sweepExpired sample_config sweep_all 100 (5000 * second) one_leased) = Inr ()"
  unfolding one_leased_eq by code_simp+

theorem sweep_requeues_witness:
  "order_data (cq_store (fst (sweepExpired sample_config sweep_all 100 (5000 * second) one_leased))) =
     order_data (cq_store one_leased) \<and>
   dq_leases (cq_store (fst (sweepExpired sample_config sweep_all 100 (5000 * second) one_leased))) = []"
  using sweep_requeues [of sample_config sweep_all 100 "5000 * second" one_leased _ "Inr ()",
      OF prod_eqI one_leased_wf(1)] swept one_leased_wf by (simp add: staged_orders_def staged_in_def)

text \<open>C10: once a lease was requeued, its worker can neither acknowledge nor hand it back any more: the
  request is refused and nothing changes, so the order is done again and not lost.\<close>

theorem requeued_lease_refused:
  assumes wf: "wf_map (dq_leases d)" and unstaged: "map_of (dq_discoverySettlements d) leaseID = None"
    and requeued: "requeueLeaseTx lib now match leaseID d = Inr (cq_store q, Some lease)"
  shows "fst (ackLeaseWithOwner lib outcome clock leaseID w s q) = q \<and>
    snd (ackLeaseWithOwner lib outcome clock leaseID w s q) \<in> {Inl LeaseDispositionConflict, Inl VaultFailed} \<and>
    deferLeaseForOwner outcome clock leaseID w s q = (q, Inl LeaseDispositionConflict)"
proof -
  note gone = requeue_remembered [OF wf unstaged requeued]
  have "deferLeaseLocked outcome clock leaseID w s True q = (q, Inl LeaseDispositionConflict)"
    using settled_lease_refused(2) [OF gone, of outcome clock w s True]
    by (cases "deferLeaseLocked outcome clock leaseID w s True q") auto
  then show ?thesis
    using settled_lease_refused(1) [OF gone, of lib outcome clock w s True]
    by (cases "ackLeaseWithTargetLocked lib outcome clock leaseID w s True q")
      (auto simp: ackLeaseWithOwner_def deferLeaseForOwner_def)
qed

definition one_requeued :: order_queue where
  "one_requeued = one_leased\<lparr>cq_store :=
     (case requeueLeaseTx sample_lib 500 (\<lambda>_. True) ''lease'' (cq_store one_leased) of Inr (d, _) \<Rightarrow> d | Inl _ \<Rightarrow> empty_store)\<rparr>"

lemma one_requeued_tx:
  "requeueLeaseTx sample_lib 500 (\<lambda>_. True) ''lease'' (cq_store one_leased) = Inr (cq_store one_requeued,
     Some (lease_record (120 * second) 100 \<lparr>ph_key = 0, ph_data = [1], ph_automatic = False\<rparr> ''worker'' ''session''))"
  unfolding one_requeued_def one_leased_eq by code_simp

theorem requeued_lease_refused_witness:
  "deferLeaseForOwner (\<lambda>_. Commits) (\<lambda>_. 500) ''lease'' ''worker'' ''session'' one_requeued =
     (one_requeued, Inl LeaseDispositionConflict)"
  using requeued_lease_refused [OF queue_wf_leases [OF one_leased_wf(1)] _ one_requeued_tx] one_leased_wf(2) by simp

text \<open>C15: when every access of it commits, the acknowledgment of the owner of a live lease, also of a
  discovered address, is answered with the control target of the run, and the order of the lease, and no
  other one, is done. The acknowledgment repeated within a day of the settlement is answered alike and
  changes nothing. The lease is settled for the first time, with no settlement of it staged, its run has an
  identity, and the clock has passed the epoch.\<close>

theorem acknowledged_once:
  assumes lease: "map_of (dq_leases (cq_store q)) leaseID = Some lease" and wf: "queue_wf (cq_store q)"
    and live: "liveLeaseOwnedBy lease w s (clock 0)" "liveLeaseOwnedBy lease w s (clock 1)"
    and target: "controlTargetFromLease lib lease = Inr target" "lt_RunID target \<noteq> []"
    and new: "map_of (dq_leaseSettlements (cq_store q)) leaseID = None"
    and unstaged: "map_of (dq_discoverySettlements (cq_store q)) leaseID = None"
    and times: "clock 2 > 0" "later 1 < clock 2 + leaseSettlementRetention"
  shows "snd (ackLeaseWithOwner lib (\<lambda>_. Commits) clock leaseID w s q) = Inr target \<and>
    map_of (dq_leases (cq_store (fst (ackLeaseWithOwner lib (\<lambda>_. Commits) clock leaseID w s q)))) leaseID = None \<and>
    order_data (cq_store (fst (ackLeaseWithOwner lib (\<lambda>_. Commits) clock leaseID w s q))) + {#lr_OrderData lease#} =
      order_data (cq_store q) \<and>
    ackLeaseWithOwner lib (\<lambda>_. Commits) later leaseID w s (fst (ackLeaseWithOwner lib (\<lambda>_. Commits) clock leaseID w s q)) =
      (fst (ackLeaseWithOwner lib (\<lambda>_. Commits) clock leaseID w s q), Inr target)"
proof -
  from acknowledge_live [OF lease wf live target new unstaged times(1)] obtain d where
    first: "ackLeaseWithOwner lib (\<lambda>_. Commits) clock leaseID w s q =
      (q\<lparr>cq_store := d, cq_catalog := catalog_remove lease (cq_catalog q)\<rparr>, Inr target)"
    and d: "acknowledged_in d leaseID target (clock 2)" "map_of (dq_discoverySettlements d) leaseID = None"
      "order_data d + {#lr_OrderData lease#} = order_data (cq_store q)" by blast
  let ?q = "q\<lparr>cq_store := d, cq_catalog := catalog_remove lease (cq_catalog q)\<rparr>"
  have "ackLeaseWithOwner lib (\<lambda>_. Commits) later leaseID w s ?q = (?q, Inr target)"
    using d times by (intro acknowledged_again [where settled_at = "clock 2"]) simp_all
  then show ?thesis using first d by (simp add: acknowledged_in_def)
qed

theorem acknowledged_once_witness:
  "snd (ackLeaseWithOwner sample_lib (\<lambda>_. Commits) (\<lambda>_. 200) ''lease'' ''worker'' ''session'' one_leased) =
     Inr \<lparr>lt_WorkerID = ''worker'', lt_RunID = ''07''\<rparr>"
proof -
  let ?lease = "lease_record (120 * second) 100 \<lparr>ph_key = 0, ph_data = [1], ph_automatic = False\<rparr> ''worker'' ''session''"
  have "map_of (dq_leases (cq_store one_leased)) ''lease'' = Some ?lease"
    "map_of (dq_leaseSettlements (cq_store one_leased)) ''lease'' = None"
    "map_of (dq_discoverySettlements (cq_store one_leased)) ''lease'' = None"
    by (simp_all add: one_leased_eq empty_store_def)
  moreover have "liveLeaseOwnedBy ?lease ''worker'' ''session'' 200" "lr_DiscoveryKey ?lease = []"
    by (simp_all add: liveLeaseOwnedBy_def lease_record_def second_def)
  moreover have "controlTargetFromLease sample_lib ?lease = Inr \<lparr>lt_WorkerID = ''worker'', lt_RunID = ''07''\<rparr>"
    by code_simp
  moreover have "(300 :: int) < 200 + leaseSettlementRetention"
    by (simp add: leaseSettlementRetention_def hour_def minute_def second_def)
  ultimately show ?thesis
    using acknowledged_once [of one_leased "''lease''" ?lease "''worker''" "''session''" "\<lambda>_. 200" sample_lib _ "\<lambda>_. 300"]
      one_leased_wf(1) by simp
qed

text \<open>C14: an order of normal priority that no other one of that priority precedes is among the next four orders that are
  claimed, whatever the number of discovered addresses that wait, when the queue prefers these; when it
  does not, only orders that were enqueued before it are claimed before it.\<close>

theorem normal_order_claimed:
  assumes waiting: "first_normal n d" and run: "claims cfg requests d = Inr (d', heads)"
  shows "(qc_prioritizeAutomatic cfg \<and> length heads \<ge> 4 \<longrightarrow> n \<in> set (take 4 heads)) \<and>
    (\<not> qc_prioritizeAutomatic cfg \<longrightarrow> (\<forall>h \<in> set (takeWhile (\<lambda>h. h \<noteq> n) heads). ph_key h < ph_key n))"
proof (intro conjI impI)
  assume prefers: "qc_prioritizeAutomatic cfg \<and> length heads \<ge> 4"
  then have "n \<in> set (take (4 - preferred d) heads)" using claims_fair [OF waiting _ run] by auto
  then show "n \<in> set (take 4 heads)" using set_take_subset_set_take [of "4 - preferred d" 4 heads] by auto
qed (rule claims_oldest [OF waiting _ run])

definition mixed_pending :: durable where
  "mixed_pending = fold (\<lambda>(data, priority) d. fst (publishEncodedOrder (\<lambda>_. Commits) False [] data priority d))
     (replicate 4 ([2], CrawlOrderPriorityAutomaticDiscovery) @ [([1], CrawlOrderPriorityNormal)] @
      replicate 4 ([2], CrawlOrderPriorityAutomaticDiscovery)) empty_store"

definition four_requests :: "(go_time \<times> string \<times> string \<times> string) list" where
  "four_requests = map (\<lambda>leaseID. (100, leaseID, ''worker'', ''session'')) [''a'', ''b'', ''c'', ''d'']"

lemma mixed_claims:
  "map_sum id (map ph_key \<circ> snd) (claims sample_config four_requests mixed_pending) = Inr [0, 1, 2, 4]"
  by code_simp

theorem normal_order_claimed_witness:
  "\<lparr>ph_key = 4, ph_data = [1], ph_automatic = False\<rparr> \<in>
     set (take 4 (case claims sample_config four_requests mixed_pending of Inr (_, heads) \<Rightarrow> heads | Inl _ \<Rightarrow> []))"
proof -
  let ?n = "\<lparr>ph_key = 4, ph_data = [1], ph_automatic = False\<rparr>"
  obtain d heads where run: "claims sample_config four_requests mixed_pending = Inr (d, heads)"
    and keys: "map ph_key heads = [0, 1, 2, 4]"
    using mixed_claims by (auto simp: map_sum_eq_Inr)
  have "length heads = 4" using arg_cong [OF keys, of length] by simp
  moreover have "first_normal ?n mixed_pending" by code_simp
  moreover have "qc_prioritizeAutomatic sample_config" by code_simp
  ultimately show ?thesis
    using normal_order_claimed [of ?n mixed_pending sample_config four_requests d heads] run by simp
qed

text \<open>C21: clearing the pending orders ends, and when it reports no error no order is pending any more, the
  leases are as they were and the number it reports is the number of orders that waited.\<close>

theorem clearing_empties:
  assumes wf: "wf_map (dq_orders d)" and cutoff: "pendingOrderSequenceCutoff outcome d = Inr cutoff"
  shows "clear_pages lib env (Suc (length (dq_orders d))) None cutoff 0 d \<noteq> None \<and>
    (snd (snd (clearPendingOrdersBefore lib env cutoff d)) = None \<longrightarrow>
       dq_orders (fst (clearPendingOrdersBefore lib env cutoff d)) = [] \<and>
       dq_leases (fst (clearPendingOrdersBefore lib env cutoff d)) = dq_leases d \<and>
       fst (snd (clearPendingOrdersBefore lib env cutoff d)) = length (dq_orders d))"
proof -
  have ends: "clear_pages lib env (Suc (length (dq_orders d))) None cutoff 0 d \<noteq> None"
    by (rule clear_pages_end) simp
  then obtain d' n err where run: "clear_pages lib env (Suc (length (dq_orders d))) None cutoff 0 d = Some (d', n, err)"
    by (metis not_None_eq prod_cases3)
  then have result: "clearPendingOrdersBefore lib env cutoff d = (d', n, err)"
    by (simp only: clearPendingOrdersBefore_def option.sel)
  have keys: "\<forall>key \<in> set (map_keys (dq_orders d)). key < cutoff \<and> (case None of None \<Rightarrow> True | Some a \<Rightarrow> a < key)"
    using cutoff_above [OF wf cutoff] by simp
  have "err = None \<Longrightarrow> dq_orders d' = [] \<and> dq_leases d' = dq_leases d \<and> n = length (dq_orders d)"
    using clear_pages_empty [OF _ wf keys, of lib env "Suc (length (dq_orders d))" 0 d' n] run by (simp del: clear_pages.simps)
  with ends result show ?thesis by (simp del: clear_pages.simps)
qed

lemma mixed_cleared:
  "snd (clearPendingOrdersBefore sample_lib (\<lambda>_. (False, Commits)) 9 mixed_pending) = (9, None)"
  by code_simp

theorem clearing_empties_witness:
  "dq_orders (fst (clearPendingOrdersBefore sample_lib (\<lambda>_. (False, Commits)) 9 mixed_pending)) = []"
proof -
  have "wf_map (dq_orders mixed_pending)" "pendingOrderSequenceCutoff Commits mixed_pending = Inr 9" by code_simp+
  from clearing_empties [OF this, of sample_lib "\<lambda>_. (False, Commits)"] show ?thesis
    using mixed_cleared by (simp del: clear_pages.simps)
qed

section \<open>A lease that leaves the catalog twice\<close>

text \<open>Two leases of a session, the first of a discovered address.\<close>

definition two_leased :: order_queue where
  "two_leased = (let d = fst (publishEncodedOrder (\<lambda>_. Commits) False [] [1] CrawlOrderPriorityNormal empty_store);
       d = fst (PublishOnce sample_lib (\<lambda>_. Commits) False ''http://a/''
             (sample_order CrawlOrderPriorityAutomaticDiscovery) d);
       q = fst (leasePopForSession sample_config Commits 100 ''a'' ''worker'' ''session'' \<lparr>cq_store = d, cq_catalog = []\<rparr>)
     in fst (leasePopForSession sample_config Commits 100 ''b'' ''worker'' ''session'' q))"

text \<open>When the third access of an acknowledgment of a discovered address fails and the worker repeats
  the acknowledgment, the catalog counts no lease of the session although it still has one.\<close>

theorem retried_settlement_counted_twice:
  "let outcome = (\<lambda>n. if n = 2 then Aborts else Commits);
       q = fst (ackLeaseWithOwner sample_lib outcome (\<lambda>_. 200) ''a'' ''worker'' ''session'' two_leased);
       q' = fst (ackLeaseWithOwner sample_lib (\<lambda>_. Commits) (\<lambda>_. 300) ''a'' ''worker'' ''session'' q)
   in cq_catalog two_leased = [((''worker'', ''session''), 2)] \<and> cq_catalog q = [((''worker'', ''session''), 1)] \<and>
      cq_catalog q' = [] \<and> loadWorkerLeaseCatalog (cq_store q') = [((''worker'', ''session''), 1)]"
  by code_simp

end
