(* ===== verification/Spec2Isabelle.thy ===== *)
theory Spec2Isabelle
  imports DhtPosition WireForm WordReference SearchAbstract UrlMetadata SeedAddress RateLimit FetchPace CrawlLease DhtTargets StoredPosting StoreContent OutboundQueue IndexHandoff Float64 OutboundRetry OutboundExchange ExchangeSafety TransferEndpoint TransferDelivery OrderPromises
begin

text \<open>
  A verification library of YaGo, a search engine of peers that is compatible with YaCy. A node
  keeps an index and answers searches; peers exchange postings, metadata rows and descriptions of
  themselves (seeds) over the YaCy protocol; a node sends the postings of its index to the peers that
  are responsible for their words; crawlers lease work and permissions to fetch from a node.

  \<^bold>\<open>Model of peers and of the protocol\<close> (\<^verbatim>\<open>yagomodel\<close>). Everything that peers exchange is text
  made of the Enhanced Base64 alphabet, of compact wire forms and of property forms.

  \<^item> \<^verbatim>\<open>Base64\<close> and \<^verbatim>\<open>Md5\<close>: \<^verbatim>\<open>base64_order.go\<close>, the symbols, the encoder and the decoder, the value of
    a word of symbols, and the digest that the code takes from the Go library. \<^verbatim>\<open>Hashes\<close>: word
    hashes, generated hashes, validity (\<^verbatim>\<open>hash.go\<close>). \<^verbatim>\<open>DhtPosition\<close>: positions and distances on the
    ring, and the positions of vertical partitions.
  \<^item> \<^verbatim>\<open>WireForm\<close> and \<^verbatim>\<open>KeyValue\<close>: the wire forms with their limits, the property forms and the messages.
  \<^item> \<^verbatim>\<open>RwiPosting\<close>, \<^verbatim>\<open>WordReference\<close>, \<^verbatim>\<open>SearchAbstract\<close>: postings of the reverse word index with
    their columns, the references of search answers, the abstracts of an index.
  \<^item> \<^verbatim>\<open>Backpath\<close>, \<^verbatim>\<open>Punycode\<close>, \<^verbatim>\<open>UrlAddress\<close>, \<^verbatim>\<open>UrlHash\<close>, \<^verbatim>\<open>UrlMetadata\<close>: from a raw address to its
    normal form, its hash and its metadata row.
  \<^item> \<^verbatim>\<open>SeedFields\<close>, \<^verbatim>\<open>Seed\<close>, \<^verbatim>\<open>SeedWire\<close>, \<^verbatim>\<open>SeedAddress\<close>: the values of a seed, its parser and printer,
    its wire form, and the addresses and endpoints at which a peer is tried.

  The lemmas of these theories show round trips of the printers and parsers on the values that the
  parsers accept, that what is accepted is well formed, the bounds of what is read, and that the
  loops of the parsers end.

  \<^bold>\<open>Decisions of the node\<close> (\<^verbatim>\<open>yagonode/internal\<close>).

  \<^item> \<^verbatim>\<open>DhtTargets\<close>: the peers that a word's postings are sent to (\<^verbatim>\<open>dhttarget\<close>), compared with
    sorting all distances.
  \<^item> \<^verbatim>\<open>RateLimit\<close>: the limiter of public searches (\<^verbatim>\<open>publicratelimit\<close>), refined from an abstract
    limiter over the whole history (a step relation with its rule inversion), with its budgets, its
    capacity and the absence of the panics of its eviction.
  \<^item> \<^verbatim>\<open>CrawlIdentity\<close>, \<^verbatim>\<open>FetchSchedule\<close>, \<^verbatim>\<open>FetchPace\<close>: the schedule that hands out permissions to fetch
    to all crawlers of a node (\<^verbatim>\<open>fleet_fetch_start_schedule.go\<close> and its neighbours in
    \<^verbatim>\<open>crawlbroker\<close>): sessions, the rotation of waiting requests, leases of permits, the change of the
    rate and the endpoint over it. \<^verbatim>\<open>FetchPace\<close> proves that the rate is kept over every second, that
    windows of different leases never overlap, that nobody waits forever, and that a lease is
    repeated to a client that asks again.

  \<^bold>\<open>The exchange of postings\<close> (\<^verbatim>\<open>yagonode/internal\<close>, \<^verbatim>\<open>yagoproto\<close>). A posting leaves the store of its
  node into a journal, waits in a queue for the peers of its word, is handed to them with its metadata
  row, and is confirmed or restored.

  \<^item> \<^verbatim>\<open>StoredPosting\<close>, \<^verbatim>\<open>PostingStore\<close>, \<^verbatim>\<open>StoreContent\<close>: \<^verbatim>\<open>rwi\<close>, the binary form of a posting, the tables of
    the store with the journal of the selected postings, and every operation on them. The invariants
    are proved for the tables, and the whole store refines a map from words and addresses to postings:
    what each operation does to this map, that no posting leaves it but by an intake, a confirmation, a
    purge or a drop, and that a recovery empties the journal.
  \<^item> \<^verbatim>\<open>OutboundQueue\<close>, \<^verbatim>\<open>IndexHandoff\<close>, \<^verbatim>\<open>OutboundRetry\<close>, \<^verbatim>\<open>Float64\<close>: \<^verbatim>\<open>dhtexchange\<close> and \<^verbatim>\<open>indextransfer\<close>, the
    chunks that wait for each peer and the copies of a posting among them, the two messages of a handoff
    and which of its postings count as accepted, the gates of the distribution, and the delays and
    quarantines of peers that fail. The random part of a delay is computed with the double precision
    numbers of the language, which \<^verbatim>\<open>Float64\<close> gives as rationals rounded to nearest even.
  \<^item> \<^verbatim>\<open>OutboundExchange\<close>, \<^verbatim>\<open>ExchangeSafety\<close>: the feeder, the distributor and the scheduler, composed over the
    parts above. The store is used through a contract, a locale that is interpreted on the modelled store;
    under it no round loses a posting that no peer accepted, nothing is sent while a gate is closed, and a
    round with a ready peer hands a chunk out.
  \<^item> \<^verbatim>\<open>ProtoFields\<close>, \<^verbatim>\<open>TransferMessages\<close>, \<^verbatim>\<open>UrlMetaStore\<close>, \<^verbatim>\<open>TransferEndpoint\<close>, \<^verbatim>\<open>TransferDelivery\<close>: the fields
    and messages of a transfer (\<^verbatim>\<open>yagoproto\<close>), the store of metadata rows (\<^verbatim>\<open>urlmeta\<close>), the receiver with
    its identity, its intake gate and its endpoints (\<^verbatim>\<open>nodeidentity\<close>, \<^verbatim>\<open>httpguard\<close>), and the writer
    (\<^verbatim>\<open>indextransfer.go\<close>). With the writer and the receiver composed, a posting that counts as accepted
    is in the store of the receiver, and so is one that a round of the exchange drops for good.

  \<^bold>\<open>The crawl order queue\<close> (\<^verbatim>\<open>yagonode/internal/crawlbroker\<close>). An order is published, claimed under a lease,
  and acknowledged, handed back, requeued or ended by its worker, in transactions over one vault.

  \<^item> \<^verbatim>\<open>OrderStore\<close>, \<^verbatim>\<open>DiscoveryKeys\<close>, \<^verbatim>\<open>LeaseHistory\<close>, \<^verbatim>\<open>OrderLeases\<close>, \<^verbatim>\<open>OrderReturns\<close>, \<^verbatim>\<open>OrderEndings\<close>: the
    state and its transactions. They hold the pending orders with their indexes and the choice between
    them (\<^verbatim>\<open>order_queue.go\<close>, \<^verbatim>\<open>order_priority.go\<close>), the addresses of automatic discovery
    (\<^verbatim>\<open>automatic_discovery_*.go\<close>), the memory of settled leases (\<^verbatim>\<open>lease_settlement_*.go\<close>), leases and their
    catalog (\<^verbatim>\<open>order_lease*.go\<close>), hand-backs, sweeps, renewals and new sessions, and the ends of runs, the
    clearing and the restart.
  \<^item> \<^verbatim>\<open>OrderFrame\<close>, \<^verbatim>\<open>OrderAccounting\<close>, \<^verbatim>\<open>OrderRuns\<close>: the orders as a multiset, what each transaction adds to
    them and ends, and runs of transactions, which hold every interleaving of the operations and every
    point at which a process stops.
  \<^item> \<^verbatim>\<open>OrderFates\<close>, \<^verbatim>\<open>OrderReports\<close>, \<^verbatim>\<open>OrderPromises\<close>: what a sweep leaves, what the reports of a lease
    can end, that a repeated acknowledgment is answered alike, that an order of normal priority is not
    starved, and that a clearing ends; with the properties over a concrete store.

  \<^bold>\<open>The crawler\<close> (\<^verbatim>\<open>yago-crawler/internal\<close>).

  \<^item> \<^verbatim>\<open>CrawlLease\<close>: the registry of the leases that a crawler holds (\<^verbatim>\<open>crawllease\<close>): renewal,
    settlement, loss and expiry, the contexts that the work runs under and the rounds of the watcher.

  \<^bold>\<open>How the model reads.\<close> \<^verbatim>\<open>Prelude\<close> holds the interfaces and generic lemmas: comparators and sorting
  by them, codecs, and step functions with their invariants; each is interpreted in the theories of
  the components that provide it. \<^verbatim>\<open>GoLib\<close> holds what the code uses of the Go library: strings as
  lists of bytes, numbers in text, maps as association lists, instants and durations in nanoseconds
  since the zero time of \<^verbatim>\<open>time.Time\<close>. Structs are records with the names of the source, errors are
  values of datatypes in a sum, panics are the None or the error branch of the operation that can
  panic, and 64-bit numbers are words where their wrap-around matters; instants and durations are
  integers, so a schedule is followed for the 292 years that a \<^verbatim>\<open>time.Duration\<close> can hold. Code that
  is not under \<^verbatim>\<open>src\<close> is a parameter: compressors, the URL and address parsers, the formats of
  times and floats, Unicode case, the JSON form of an order, SHA-256, the parsing of HTTP requests, and
  what the platform makes of a conversion of a float to an integer that does not fit. So are the
  answers of the world: whether an access to the vault commits, aborts or, in the store of postings,
  is written in part, what the network makes of an attempt, the clock, the order in which a Go map
  yields its keys, and the random identities of leases. The laws of library code are hypotheses of the properties, and the
  witnesses give it as concrete functions; of the answers of the world nothing is assumed that a
  property does not state.

  \<^bold>\<open>Fuel.\<close> The dispatch of the fetch schedule has fuel one more than the length of its rotation
  and each round shortens the rotation, so it always returns (part of
  \<^verbatim>\<open>fetch_schedule_returns\<close>). The loop that adds permits has the number of permits that a request
  may still get. The rounds of the Punycode loop have the number of runes that are left
  (\<^verbatim>\<open>punycode_total\<close>), and the path resolution the length of the path. The pages of a clearing have
  one more than the number of pending orders, and every page but the last removes one
  (\<^verbatim>\<open>clearing_empties\<close>). The admission of a discovered address has two rounds, although the source
  repeats it without a limit: with no other transaction between its accesses the first is final
  (\<^verbatim>\<open>admit_rounds\<close>). The search for a free number of a settlement has the number of those in use
  (\<^verbatim>\<open>free_sequence_free\<close>). All other loops are structural or terminate by a measure.

  \<^bold>\<open>Concurrency.\<close> Every operation of the limiter, the schedule and the registry runs under one
  mutex, so an execution is a sequence of operations with the times they read; the theorems hold for
  every sequence. An operation of the order queue or of the store of postings is several transactions;
  the accounting of the orders holds for every interleaving of the transactions, and the properties of one
  operation for the operation by itself. The goroutines, timers and channels around them are not
  modelled, apart from the rounds of the watcher of the lease registry, whose channels are counters of
  signals.

  \<^bold>\<open>Not modelled.\<close> Storage engines, network clients and the HTTP handlers around the endpoints, the
  administration and search pages, the document parsers (they drive third-party libraries), ranking
  (floating point throughout) and the full-text index (a client of a library with dictionaries as
  data), the frontier and the page fetching of the crawler; the manifest lists each of them.
\<close>

end
